(* ===== verification/Ntb_Prelude.thy ===== *)
theory Ntb_Prelude
  imports Main "HOL-Library.Word"
begin

text \<open>
  Shared vocabulary of the development: the machine integer types of the C code, the outcome of a C
  function that can fail or run into undefined behaviour, big-endian byte strings, and the generic
  lemmas on lists and words that several components use.
\<close>

type_synonym u8 = "8 word"
type_synonym u16 = "16 word"
type_synonym u32 = "32 word"
type_synonym u64 = "64 word"

named_theorems ntb_defs "definitions that are unfolded to evaluate the model"
named_theorems ntb_contents "what an operation does to the contents of a buffer"

section \<open>Outcomes of C functions\<close>

text \<open>
  \<open>Fault\<close> stands for undefined behaviour (an access outside the object a pointer points into, a read
  of an indeterminate byte, a failed assertion), \<open>Fail\<close> for the failure the function reports to its
  caller (\<open>false\<close>, \<open>-1\<close> or \<open>NULL\<close>), \<open>Ok v\<close> for success with the outputs \<open>v\<close>.
\<close>

datatype 'a outcome = Fault | Fail | Ok 'a

primrec bind_outcome :: "'a outcome \<Rightarrow> ('a \<Rightarrow> 'b outcome) \<Rightarrow> 'b outcome" where
  "bind_outcome Fault f = Fault"
| "bind_outcome Fail f = Fail"
| "bind_outcome (Ok x) f = f x"

lemma bind_outcome_Ok_iff [simp]:
  "bind_outcome m f = Ok y \<longleftrightarrow> (\<exists>x. m = Ok x \<and> f x = Ok y)"
  by (cases m) auto

lemma bind_outcome_Fault_iff:
  "bind_outcome m f = Fault \<longleftrightarrow> m = Fault \<or> (\<exists>x. m = Ok x \<and> f x = Fault)"
  by (cases m) auto

lemma bind_outcome_assoc:
  "bind_outcome (bind_outcome m f) g = bind_outcome m (\<lambda>x. bind_outcome (f x) g)"
  by (cases m) auto

lemma bind_outcome_cong [fundef_cong]:
  "m = m' \<Longrightarrow> (\<And>x. m' = Ok x \<Longrightarrow> f x = f' x) \<Longrightarrow> bind_outcome m f = bind_outcome m' f'"
  by (cases m') auto

section \<open>Bytes of C strings\<close>

definition str :: "string \<Rightarrow> u8 list" where
  "str s = map (\<lambda>c. word_of_nat (of_char c)) s"

lemma str_simps [simp]:
  "str [] = []" "str (c # s) = word_of_nat (of_char c) # str s" "length (str s) = length s"
  by (simp_all add: str_def)

section \<open>Big-endian byte strings\<close>

fun be_bytes :: "nat \<Rightarrow> nat \<Rightarrow> u8 list" where
  "be_bytes 0 v = []"
| "be_bytes (Suc n) v = be_bytes n (v div 256) @ [word_of_nat v]"

definition be_value :: "u8 list \<Rightarrow> nat" where
  "be_value bs = foldl (\<lambda>a b. a * 256 + unat b) 0 bs"

lemma be_value_Nil [simp]: "be_value [] = 0"
  by (simp add: be_value_def)

lemma be_value_snoc [simp]: "be_value (bs @ [b]) = be_value bs * 256 + unat b"
  by (simp add: be_value_def)

lemma length_be_bytes [simp]: "length (be_bytes n v) = n"
  by (induction n arbitrary: v) auto

lemma be_bytes_numeral [ntb_defs]:
  "be_bytes (numeral k) v = be_bytes (pred_numeral k) (v div 256) @ [word_of_nat v]"
  by (simp only: numeral_eq_Suc [of k] be_bytes.simps)

lemma unat_less_2p: "unat (w :: 'a::len word) < 2 ^ LENGTH('a)"
  by (rule unsigned_less)

lemma unat_u8_less: "unat (b :: u8) < 256"
  using unat_less_2p [of b] by simp

lemma unat_u8_mod [simp]: "unat (b :: u8) mod 256 = unat b"
  using unat_u8_less [of b] by simp

lemma unat_of_nat_u8 [simp]: "unat (word_of_nat v :: u8) = v mod 256"
  by (simp add: unat_of_nat)

lemma be_value_be_bytes: "be_value (be_bytes n v) = v mod 256 ^ n"
proof (induction n arbitrary: v)
  case 0
  then show ?case by simp
next
  case (Suc n)
  have "v mod 256 ^ Suc n = 256 * (v div 256 mod 256 ^ n) + v mod 256"
    by (simp add: mod_mult2_eq)
  with Suc show ?case by (simp add: mult.commute)
qed

lemma be_value_less: "be_value bs < 256 ^ length bs"
proof (induction bs rule: rev_induct)
  case Nil
  then show ?case by simp
next
  case (snoc b bs)
  have "be_value bs * 256 + unat b < (be_value bs + 1) * 256"
    using unat_u8_less [of b] by simp
  also have "\<dots> \<le> 256 ^ length bs * 256"
    using snoc by (intro mult_le_mono1) simp
  finally show ?case by (simp add: mult.commute)
qed

lemma be_bytes_be_value [simp]: "be_bytes (length bs) (be_value bs) = bs"
proof (induction bs rule: rev_induct)
  case Nil
  then show ?case by simp
next
  case (snoc b bs)
  have "(be_value bs * 256 + unat b) div 256 = be_value bs"
    using unat_u8_less [of b] by simp
  moreover have "(word_of_nat (be_value bs * 256 + unat b) :: u8) = b"
    unfolding word_unat_eq_iff unat_of_nat_u8 by simp
  ultimately show ?case using snoc by simp
qed

lemma be_bytes_be_value_eq: "length bs = n \<Longrightarrow> be_bytes n (be_value bs) = bs"
  by auto

lemma be_bytes_zero: "be_bytes n 0 = replicate n 0"
  by (induction n) (auto simp: replicate_append_same)

lemma be_bytes_leading_zeros: "v < 256 ^ n \<Longrightarrow> be_bytes (m + n) v = replicate m 0 @ be_bytes n v"
  by (induction n arbitrary: v) (auto simp: be_bytes_zero less_mult_imp_div_less mult.commute)

lemma be_value_inject: "length as = length bs \<Longrightarrow> be_value as = be_value bs \<longleftrightarrow> as = bs"
  by (metis be_bytes_be_value)

lemma be_value_append: "be_value (as @ bs) = be_value as * 256 ^ length bs + be_value bs"
  by (induction bs rule: rev_induct) (auto simp: algebra_simps simp flip: append_assoc)

lemma be_value_Cons: "be_value (b # bs) = unat b * 256 ^ length bs + be_value bs"
  using be_value_append [of "[b]" bs] by (simp add: be_value_def)

text \<open>A word of \<open>8 n\<close> bits survives being written as \<open>n\<close> big-endian bytes and read back.\<close>

lemma of_nat_be_value_be_bytes:
  fixes w :: "'a::len word"
  assumes "LENGTH('a) = 8 * n"
  shows "word_of_nat (be_value (be_bytes n (unat w))) = w"
proof -
  have "(256::nat) ^ n = 2 ^ LENGTH('a)"
    using assms by (simp add: power_mult)
  then have "unat w mod 256 ^ n = unat w"
    using unat_less_2p [of w] by simp
  then show ?thesis by (simp add: be_value_be_bytes)
qed

lemma be_bytes_unat_of_nat_be_value:
  assumes "LENGTH('a::len) = 8 * n" and "length bs = n"
  shows "be_bytes n (unat (word_of_nat (be_value bs) :: 'a word)) = bs"
proof -
  have "(256::nat) ^ n = 2 ^ LENGTH('a)"
    using assms(1) by (simp add: power_mult)
  then have "be_value bs < 2 ^ LENGTH('a)"
    using be_value_less [of bs] assms(2) by simp
  then show ?thesis
    using assms(2) by (simp add: unat_of_nat be_bytes_be_value_eq)
qed

section \<open>Memory reads\<close>

text \<open>
  A pointer into an object is modelled by the bytes from it to the end of the object; reading \<open>n\<close>
  bytes there is undefined when fewer are left.
\<close>

definition read_bytes :: "nat \<Rightarrow> u8 list \<Rightarrow> u8 list outcome" where
  "read_bytes n p = (if n \<le> length p then Ok (take n p) else Fault)"

lemma read_bytes_Ok [simp]: "read_bytes n p = Ok bs \<longleftrightarrow> n \<le> length p \<and> bs = take n p"
  by (auto simp: read_bytes_def)

lemma read_bytes_neq_Fail [simp]: "read_bytes n p \<noteq> Fail"
  by (simp add: read_bytes_def)

lemma read_bytes_Fault [simp]: "read_bytes n p = Fault \<longleftrightarrow> length p < n"
  by (auto simp: read_bytes_def)

lemma read_bytes_append [simp]: "length bs = n \<Longrightarrow> read_bytes n (bs @ rest) = Ok bs"
  by (simp add: read_bytes_def)

section \<open>Memory writes into a list of cells\<close>

definition write_at :: "nat \<Rightarrow> 'a list \<Rightarrow> 'a list \<Rightarrow> 'a list" where
  "write_at i xs cells = take i cells @ xs @ drop (i + length xs) cells"

lemma length_write_at [simp]:
  "i + length xs \<le> length cells \<Longrightarrow> length (write_at i xs cells) = length cells"
  by (simp add: write_at_def)

lemma take_write_at_end:
  "i + length xs \<le> length cells \<Longrightarrow>
   take (i + length xs) (write_at i xs cells) = take i cells @ xs"
  by (simp add: write_at_def)

lemma take_write_at_before:
  "n \<le> i \<Longrightarrow> i \<le> length cells \<Longrightarrow> take n (write_at i xs cells) = take n cells"
  by (simp add: write_at_def)

lemma replicate_numeral_Cons:
  "replicate (numeral k) x = x # replicate (pred_numeral k) x"
  by (simp only: numeral_eq_Suc [of k] replicate.simps)

lemma those_map_Some [simp]: "those (map Some xs) = Some xs"
  by (induction xs) auto

section \<open>Searching memory\<close>

text \<open>\<open>memchr\<close>: the offset of the first occurrence of a byte.\<close>

fun memchr :: "'a list \<Rightarrow> 'a \<Rightarrow> nat option" where
  "memchr [] c = None"
| "memchr (b # bs) c = (if b = c then Some 0 else map_option Suc (memchr bs c))"

lemma memchr_None_iff: "memchr bs c = None \<longleftrightarrow> c \<notin> set bs"
  by (induction bs) auto

lemma memchr_SomeD:
  "memchr bs c = Some i \<Longrightarrow> i < length bs \<and> bs ! i = c \<and> c \<notin> set (take i bs)"
proof (induction bs arbitrary: i)
  case Nil
  then show ?case by simp
next
  case (Cons b bs)
  then show ?case by (cases i) (auto split: if_splits)
qed

lemma memchr_append_first: "c \<notin> set as \<Longrightarrow> memchr (as @ c # bs) c = Some (length as)"
  by (induction as) auto

lemma memchr_0_append_replicate:
  "0 \<notin> set s \<Longrightarrow> 0 < k \<Longrightarrow> memchr (s @ replicate k (0 :: u8)) 0 = Some (length s)"
  by (cases k) (auto intro: memchr_append_first)

text \<open>The C string that starts at a pointer.\<close>

definition c_string :: "u8 list \<Rightarrow> u8 list" where
  "c_string p = takeWhile (\<lambda>b. b \<noteq> 0) p"

lemma c_string_name:
  assumes "0 \<notin> set s" "length s < 12"
  shows "c_string (s @ replicate (12 - length s) 0 @ rest) = s"
proof -
  obtain k where "12 - length s = Suc k" using assms(2) by (cases "12 - length s") auto
  then have "s @ replicate (12 - length s) 0 @ rest = s @ 0 # replicate k 0 @ rest" by simp
  then show ?thesis using assms(1)
    by (simp only: c_string_def) (subst takeWhile_append2, auto)
qed

end
