(* ===== verification/Ntb_Buffer.thy ===== *)
theory Ntb_Buffer
  imports Ntb_Prelude
begin

text \<open>
  The growable byte buffer of \<open>src/src/ntb-buffer.c\<close> and \<open>ntb-buffer.h\<close>. Every other component builds
  its output in one. The allocated block is a list of cells; a cell that was allocated and never
  written is \<open>None\<close> (the indeterminate bytes \<open>realloc\<close> hands out), so that a theorem which says that
  the contents are \<open>map Some xs\<close> also says that nothing indeterminate is in them. Sizes are natural
  numbers: the doubling loop is modelled at its width of 64 bits as well, and
  \<open>grow_size_eq_doubling\<close> shows that the two agree for every size up to \<open>2^63\<close>, more than any
  allocation can have.
\<close>

type_synonym cell = "u8 option"

record ntb_buffer =
  buf_data :: "cell list"
  buf_length :: nat
  buf_size :: nat

section \<open>Operations\<close>

definition ntb_buffer_init :: ntb_buffer where
  "ntb_buffer_init = \<lparr>buf_data = [], buf_length = 0, buf_size = 0\<rparr>"

definition ntb_realloc :: "cell list \<Rightarrow> nat \<Rightarrow> cell list" where
  "ntb_realloc p n = take n p @ replicate (n - length p) None"

text \<open>The loop \<open>while (new_size < size) new_size *= 2\<close> on 64-bit \<open>size_t\<close>.\<close>

partial_function (option) grow_size :: "u64 \<Rightarrow> u64 \<Rightarrow> u64 option" where
  "grow_size new_size sz = (if new_size < sz then grow_size (new_size * 2) sz else Some new_size)"

text \<open>The same loop on natural numbers, for a start that is not zero.\<close>

function doubling :: "nat \<Rightarrow> nat \<Rightarrow> nat" where
  "doubling new_size sz =
     (if 0 < new_size \<and> new_size < sz then doubling (new_size * 2) sz else new_size)"
  by pat_completeness auto
termination
  by (relation "measure (\<lambda>(n, s). s - n)") auto

declare doubling.simps [simp del]

definition ntb_buffer_ensure_size :: "ntb_buffer \<Rightarrow> nat \<Rightarrow> ntb_buffer" where
  "ntb_buffer_ensure_size b sz =
     (let new_size = doubling (max (buf_size b) 1) sz in
      if new_size \<noteq> buf_size b
      then b\<lparr>buf_data := ntb_realloc (buf_data b) new_size, buf_size := new_size\<rparr>
      else b)"

definition ntb_buffer_set_length :: "ntb_buffer \<Rightarrow> nat \<Rightarrow> ntb_buffer" where
  "ntb_buffer_set_length b n = (ntb_buffer_ensure_size b n)\<lparr>buf_length := n\<rparr>"

definition ntb_buffer_append :: "ntb_buffer \<Rightarrow> u8 list \<Rightarrow> ntb_buffer" where
  "ntb_buffer_append b xs =
     (let b1 = ntb_buffer_ensure_size b (buf_length b + length xs) in
      b1\<lparr>buf_data := write_at (buf_length b1) (map Some xs) (buf_data b1),
         buf_length := buf_length b1 + length xs\<rparr>)"

definition ntb_buffer_append_c :: "ntb_buffer \<Rightarrow> u8 \<Rightarrow> ntb_buffer" where
  "ntb_buffer_append_c b c =
     (if buf_length b < buf_size b
      then b\<lparr>buf_data := (buf_data b)[buf_length b := Some c], buf_length := buf_length b + 1\<rparr>
      else ntb_buffer_append b [c])"

text \<open>The string is given without its terminating zero, which is appended and then cut off.\<close>

definition ntb_buffer_append_string :: "ntb_buffer \<Rightarrow> u8 list \<Rightarrow> ntb_buffer" where
  "ntb_buffer_append_string b s =
     (let b1 = ntb_buffer_append b (s @ [0]) in b1\<lparr>buf_length := buf_length b1 - 1\<rparr>)"

text \<open>
  \<open>vsnprintf (p, n, \<dots>)\<close> where \<open>s\<close> is the formatted text: it writes at most \<open>n\<close> bytes, the last of
  them zero, and returns the length of the whole text.
\<close>

definition vsnprintf :: "nat \<Rightarrow> nat \<Rightarrow> u8 list \<Rightarrow> cell list \<Rightarrow> cell list" where
  "vsnprintf i n s cells =
     (if n = 0 then cells else write_at i (map Some (take (n - 1) s @ [0])) cells)"

definition ntb_buffer_append_vprintf :: "ntb_buffer \<Rightarrow> u8 list \<Rightarrow> ntb_buffer" where
  "ntb_buffer_append_vprintf b s =
     (let b1 = ntb_buffer_ensure_size b (buf_length b + 16);
          b2 = b1\<lparr>buf_data :=
                 vsnprintf (buf_length b1) (buf_size b1 - buf_length b1) s (buf_data b1)\<rparr>;
          b3 = (if length s \<ge> buf_size b2 - buf_length b2
                then (let b4 = ntb_buffer_ensure_size b2 (buf_length b2 + length s + 1)
                      in b4\<lparr>buf_data := vsnprintf (buf_length b4) (buf_size b4 - buf_length b4) s
                                          (buf_data b4)\<rparr>)
                else b2)
      in b3\<lparr>buf_length := buf_length b3 + length s\<rparr>)"

lemmas [ntb_defs] = ntb_buffer_init_def ntb_buffer_ensure_size_def ntb_buffer_append_def
  ntb_buffer_append_c_def ntb_realloc_def write_at_def doubling.simps

section \<open>The doubling loop\<close>

lemma doubling_ge: "0 < n \<Longrightarrow> s \<le> doubling n s \<and> n \<le> doubling n s"
proof (induction n s rule: doubling.induct)
  case (1 n s)
  then show ?case by (subst (1 2) doubling.simps) force
qed

lemma doubling_max:
  "s \<le> doubling (max k 1) s \<and> k \<le> doubling (max k 1) s \<and> 0 < doubling (max k 1) s"
  using doubling_ge [of "max k 1" s] by force

lemma doubling_less: "0 < n \<Longrightarrow> n < s \<Longrightarrow> doubling n s < 2 * s"
proof (induction n s rule: doubling.induct)
  case (1 n s)
  have "doubling n s = doubling (n * 2) s"
    using 1 by (subst doubling.simps) simp
  moreover have "doubling (n * 2) s = n * 2" if "\<not> n * 2 < s"
    using that by (subst doubling.simps) simp
  ultimately show ?case using 1 by (cases "n * 2 < s") auto
qed

lemma grow_size_eq_doubling:
  assumes "0 < n" and "n < 2 ^ 64" and "s \<le> 2 ^ 63"
  shows "grow_size (word_of_nat n) (word_of_nat s) = Some (word_of_nat (doubling n s))"
  using assms
proof (induction n s rule: doubling.induct)
  case (1 n s)
  have less: "(word_of_nat n :: u64) < word_of_nat s \<longleftrightarrow> n < s"
    using 1 by (simp add: word_less_nat_alt unat_of_nat)
  show ?case
  proof (cases "n < s")
    case True
    with 1 have "n * 2 < 2 ^ 64" by simp
    then have "grow_size (word_of_nat (n * 2)) (word_of_nat s) =
        Some (word_of_nat (doubling (n * 2) s))"
      using "1.IH" "1.prems" True by simp
    with True less show ?thesis
      using 1 by (simp add: grow_size.simps [of "word_of_nat n"] doubling.simps [of n])
  next
    case False
    with less show ?thesis by (simp add: grow_size.simps doubling.simps)
  qed
qed

lemma power_le_2p63: "(2 :: u64) ^ k \<le> 2 ^ 63"
proof -
  have eq: "unat ((2 :: u64) ^ j) = 2 ^ j mod 2 ^ 64" for j
    using unat_of_nat [of "2 ^ j", where 'a = 64] by simp
  have "(2 :: nat) ^ k mod 2 ^ 64 \<le> 2 ^ 63"
  proof (cases "k < 64")
    case True
    then show ?thesis
      using power_increasing [of k 63 "2 :: nat"] mod_less_eq_dividend [of "2 ^ k" "2 ^ 64"]
      by linarith
  next
    case False
    then have "(2 :: nat) ^ 64 dvd 2 ^ k" by (intro le_imp_power_dvd) simp
    then show ?thesis by (simp add: mod_eq_0_iff_dvd)
  qed
  then show ?thesis by (simp add: word_le_nat_alt eq [of k])
qed

text \<open>A request above \<open>2^63\<close> makes the counter wrap to zero, after which it never grows.\<close>

lemma grow_size_result:
  assumes "grow_size n s = Some r"
  shows "(\<exists>k. n = 2 ^ k) \<longrightarrow> s \<le> 2 ^ 63"
proof (rule grow_size.raw_induct [where P = "\<lambda>n s r. (\<exists>k. n = 2 ^ k) \<longrightarrow> s \<le> 2 ^ 63", OF _ assms])
  fix f :: "u64 \<Rightarrow> u64 \<Rightarrow> u64 option" and n s r
  assume IH: "\<And>n s r. f n s = Some r \<Longrightarrow> (\<exists>k. n = 2 ^ k) \<longrightarrow> s \<le> 2 ^ 63"
    and eq: "(if n < s then f (n * 2) s else Some n) = Some r"
  show "(\<exists>k. n = 2 ^ k) \<longrightarrow> s \<le> 2 ^ 63"
  proof (rule impI)
    assume "\<exists>k. n = 2 ^ k"
    then obtain k where k: "n = 2 ^ k" ..
    show "s \<le> 2 ^ 63"
    proof (cases "n < s")
      case True
      with eq have "f (n * 2) s = Some r" by simp
      from IH [OF this] k show ?thesis
        by (metis power_Suc2)
    next
      case False
      with power_le_2p63 [of k] k show ?thesis by simp
    qed
  qed
qed

section \<open>Well-formed buffers and their contents\<close>

definition buf_ok :: "ntb_buffer \<Rightarrow> bool" where
  "buf_ok b \<longleftrightarrow> length (buf_data b) = buf_size b \<and> buf_length b \<le> buf_size b"

definition contents :: "ntb_buffer \<Rightarrow> cell list" where
  "contents b = take (buf_length b) (buf_data b)"

lemma buf_ok_init [simp]: "buf_ok ntb_buffer_init"
  by (simp add: buf_ok_def ntb_buffer_init_def)

lemma contents_init [simp]: "contents ntb_buffer_init = []"
  by (simp add: contents_def ntb_buffer_init_def)

lemma length_contents [simp]: "buf_ok b \<Longrightarrow> length (contents b) = buf_length b"
  by (simp add: contents_def buf_ok_def)

lemma length_realloc [simp]: "length (ntb_realloc p n) = n"
  by (simp add: ntb_realloc_def)

lemma take_realloc: "k \<le> n \<Longrightarrow> k \<le> length p \<Longrightarrow> take k (ntb_realloc p n) = take k p"
  by (simp add: ntb_realloc_def min_def)

lemma ensure_size_length [simp]: "buf_length (ntb_buffer_ensure_size b n) = buf_length b"
  by (simp add: ntb_buffer_ensure_size_def Let_def)

lemma ensure_size_ge:
  "n \<le> buf_size (ntb_buffer_ensure_size b n) \<and> buf_size b \<le> buf_size (ntb_buffer_ensure_size b n)
   \<and> 0 < buf_size (ntb_buffer_ensure_size b n)"
  using doubling_max [of n "buf_size b"] by (auto simp: ntb_buffer_ensure_size_def Let_def)

lemma buf_ok_ensure_size [simp]: "buf_ok b \<Longrightarrow> buf_ok (ntb_buffer_ensure_size b n)"
  using doubling_max [of n "buf_size b"]
  by (auto simp: buf_ok_def ntb_buffer_ensure_size_def Let_def)

lemma contents_ensure_size [simp]: "buf_ok b \<Longrightarrow> contents (ntb_buffer_ensure_size b n) = contents b"
  using doubling_max [of n "buf_size b"]
  by (auto simp: buf_ok_def contents_def ntb_buffer_ensure_size_def Let_def take_realloc)

lemma take_data_ensure_size:
  "buf_ok b \<Longrightarrow> take (buf_length b) (buf_data (ntb_buffer_ensure_size b n)) = contents b"
  using contents_ensure_size [of b n] by (simp add: contents_def)

lemma write_at_buf_ok:
  assumes "buf_ok b" and "buf_length b + length xs \<le> buf_size b"
  shows "buf_ok (b\<lparr>buf_data := write_at (buf_length b) xs (buf_data b),
                   buf_length := buf_length b + length xs\<rparr>)"
  using assms by (simp add: buf_ok_def)

lemma write_at_contents:
  assumes "buf_ok b" and "buf_length b + length xs \<le> buf_size b"
  shows "contents (b\<lparr>buf_data := write_at (buf_length b) xs (buf_data b),
                     buf_length := buf_length b + length xs\<rparr>) = contents b @ xs"
  using assms by (simp add: buf_ok_def contents_def take_write_at_end)

lemma append_ok_contents:
  assumes "buf_ok b"
  shows "buf_ok (ntb_buffer_append b xs) \<and>
    contents (ntb_buffer_append b xs) = contents b @ map Some xs"
proof -
  let ?b = "ntb_buffer_ensure_size b (buf_length b + length xs)"
  have room: "buf_length ?b + length (map Some xs) \<le> buf_size ?b"
    using ensure_size_ge by simp
  have ok: "buf_ok ?b" using assms by simp
  from write_at_buf_ok [OF ok room] write_at_contents [OF ok room] assms show ?thesis
    by (simp add: ntb_buffer_append_def Let_def)
qed

section \<open>The interface of a byte sink\<close>

text \<open>
  What a client that produces output relies on: appending extends the contents by exactly the given
  bytes and keeps the sink well-formed.
\<close>

locale byte_sink =
  fixes put :: "'s \<Rightarrow> u8 list \<Rightarrow> 's"
    and held :: "'s \<Rightarrow> cell list"
    and invar :: "'s \<Rightarrow> bool"
  assumes held_put: "invar s \<Longrightarrow> held (put s xs) = held s @ map Some xs"
    and invar_put: "invar s \<Longrightarrow> invar (put s xs)"
begin

lemma put_all:
  "invar s \<Longrightarrow> invar (foldl put s xss) \<and> held (foldl put s xss) = held s @ map Some (concat xss)"
  by (induction xss arbitrary: s) (auto simp: held_put invar_put)

lemma put_keeps_prefix: "invar s \<Longrightarrow> take (length (held s)) (held (put s xs)) = held s"
  by (simp add: held_put)

lemma put_append: "invar s \<Longrightarrow> held (put (put s xs) ys) = held (put s (xs @ ys))"
  by (simp add: held_put invar_put)

end

interpretation buf: byte_sink ntb_buffer_append contents buf_ok
  by unfold_locales (simp_all add: append_ok_contents)

declare buf.invar_put [simp] buf.held_put [ntb_contents]

lemma append_c_eq:
  assumes "buf_ok b"
  shows "buf_ok (ntb_buffer_append_c b c) \<and> contents (ntb_buffer_append_c b c) = contents b @ [Some c]"
proof (cases "buf_length b < buf_size b")
  case True
  with assms show ?thesis
    by (simp add: ntb_buffer_append_c_def buf_ok_def contents_def take_Suc_conv_app_nth)
next
  case False
  with assms show ?thesis by (simp add: ntb_buffer_append_c_def ntb_contents)
qed

lemma buf_ok_append_c [simp]: "buf_ok b \<Longrightarrow> buf_ok (ntb_buffer_append_c b c)"
  by (simp add: append_c_eq)

lemma contents_append_c [ntb_contents]:
  "buf_ok b \<Longrightarrow> contents (ntb_buffer_append_c b c) = contents b @ [Some c]"
  by (simp add: append_c_eq)

interpretation buf_c: byte_sink "foldl ntb_buffer_append_c" contents buf_ok
proof
  fix s :: ntb_buffer and xs
  assume "buf_ok s"
  then have "buf_ok (foldl ntb_buffer_append_c s xs) \<and>
      contents (foldl ntb_buffer_append_c s xs) = contents s @ map Some xs"
    by (induction xs arbitrary: s) (auto simp: ntb_contents)
  then show "contents (foldl ntb_buffer_append_c s xs) = contents s @ map Some xs"
    and "buf_ok (foldl ntb_buffer_append_c s xs)" by auto
qed

section \<open>Appending strings and formatted text\<close>

lemma append_string_eq:
  assumes "buf_ok b"
  shows "buf_ok (ntb_buffer_append_string b s) \<and>
    contents (ntb_buffer_append_string b s) = contents b @ map Some s"
proof -
  let ?b = "ntb_buffer_append b (s @ [0])"
  have ok: "buf_ok ?b" and c: "contents ?b = contents b @ map Some s @ [Some 0]"
    using assms by (simp_all add: ntb_contents)
  have "take (buf_length ?b - 1) (contents ?b) = contents b @ map Some s"
  proof -
    have "buf_length ?b = length (contents b) + length s + 1"
      using arg_cong [OF c, of length] ok by simp
    then show ?thesis by (simp add: c)
  qed
  with ok show ?thesis
    by (auto simp: ntb_buffer_append_string_def Let_def buf_ok_def contents_def min_def)
qed

lemma vsnprintf_keeps:
  assumes "buf_ok b" and "n = buf_size b - buf_length b"
  shows "buf_ok (b\<lparr>buf_data := vsnprintf (buf_length b) n s (buf_data b)\<rparr>) \<and>
    contents (b\<lparr>buf_data := vsnprintf (buf_length b) n s (buf_data b)\<rparr>) = contents b"
  using assms by (auto simp: vsnprintf_def buf_ok_def contents_def take_write_at_before)

lemma vsnprintf_fits:
  assumes "buf_ok b" and "length s < buf_size b - buf_length b"
  shows "take (buf_length b + length s)
           (vsnprintf (buf_length b) (buf_size b - buf_length b) s (buf_data b)) =
         contents b @ map Some s"
proof -
  have "take (buf_size b - buf_length b - 1) s = s"
    using assms(2) by simp
  with assms show ?thesis
    by (auto simp: vsnprintf_def buf_ok_def contents_def write_at_def)
qed

lemma append_vprintf_eq:
  assumes "buf_ok b"
  shows "buf_ok (ntb_buffer_append_vprintf b s) \<and>
    contents (ntb_buffer_append_vprintf b s) = contents b @ map Some s"
proof -
  define b1 where "b1 = ntb_buffer_ensure_size b (buf_length b + 16)"
  define b2 where "b2 = b1\<lparr>buf_data :=
      vsnprintf (buf_length b1) (buf_size b1 - buf_length b1) s (buf_data b1)\<rparr>"
  define b4 where "b4 = ntb_buffer_ensure_size b2 (buf_length b2 + length s + 1)"
  define b3 where "b3 = (if length s \<ge> buf_size b2 - buf_length b2
      then b4\<lparr>buf_data := vsnprintf (buf_length b4) (buf_size b4 - buf_length b4) s (buf_data b4)\<rparr>
      else b2)"
  have b1: "buf_ok b1" "contents b1 = contents b"
    using assms by (simp_all add: b1_def)
  have b2: "buf_ok b2" "contents b2 = contents b" "buf_size b2 = buf_size b1"
    "buf_length b2 = buf_length b1"
    using vsnprintf_keeps [OF b1(1) refl, of s] b1(2) by (simp_all add: b2_def)
  have b4: "buf_ok b4" "contents b4 = contents b" "length s < buf_size b4 - buf_length b4"
    using b2 ensure_size_ge [of "buf_length b2 + length s + 1" b2] by (auto simp: b4_def)
  have "buf_ok b3 \<and> buf_length b3 + length s \<le> buf_size b3 \<and>
      take (buf_length b3 + length s) (buf_data b3) = contents b @ map Some s"
  proof (cases "length s \<ge> buf_size b2 - buf_length b2")
    case True
    with b4 vsnprintf_keeps [OF b4(1) refl, of s] vsnprintf_fits [OF b4(1,3)] show ?thesis
      by (simp add: b3_def)
  next
    case False
    with b1 b2 vsnprintf_fits [OF b1(1), of s] show ?thesis
      by (simp add: b3_def b2_def)
  qed
  moreover have "ntb_buffer_append_vprintf b s = b3\<lparr>buf_length := buf_length b3 + length s\<rparr>"
    by (simp add: ntb_buffer_append_vprintf_def Let_def b1_def b2_def b3_def b4_def)
  ultimately show ?thesis by (simp add: buf_ok_def contents_def)
qed

text \<open>Setting the length exposes indeterminate cells beyond the old contents.\<close>

lemma set_length_eq:
  assumes "buf_ok b" and "buf_length b \<le> n"
  shows "buf_ok (ntb_buffer_set_length b n) \<and>
    take (buf_length b) (contents (ntb_buffer_set_length b n)) = contents b"
  using assms ensure_size_ge [of n b] buf_ok_ensure_size [of b n] contents_ensure_size [of b n]
  by (simp add: ntb_buffer_set_length_def buf_ok_def contents_def min_def)

lemma set_length_fill:
  assumes "buf_ok b" "buf_length b \<le> n"
  shows "\<exists>fill. length fill = n - buf_length b \<and> contents (ntb_buffer_set_length b n) = contents b @ fill"
proof -
  let ?c = "contents (ntb_buffer_set_length b n)"
  have "buf_ok (ntb_buffer_set_length b n)" "take (buf_length b) ?c = contents b" using set_length_eq [OF assms] by auto
  moreover from this(1) have "length ?c = n" by (simp add: ntb_buffer_set_length_def)
  ultimately show ?thesis
    by (intro exI [of _ "drop (buf_length b) ?c"]) (metis append_take_drop_id length_drop)
qed

text \<open>The memory of a buffer; an indeterminate byte reads as zero.\<close>

definition memory_of :: "ntb_buffer \<Rightarrow> u8 list" where
  "memory_of b = map (\<lambda>c. case c of Some v \<Rightarrow> v | None \<Rightarrow> 0) (buf_data b)"

lemma memory_of_contents:
  assumes "buf_ok b" "contents b = map Some bytes"
  shows "\<exists>rest. memory_of b = bytes @ rest \<and> buf_length b = length bytes"
proof -
  let ?f = "\<lambda>c. case c of Some v \<Rightarrow> v | None \<Rightarrow> 0"
  have "buf_data b = map Some bytes @ drop (buf_length b) (buf_data b)"
    using assms(2) append_take_drop_id [of "buf_length b" "buf_data b"] by (simp add: contents_def)
  then have "memory_of b = map ?f (map Some bytes @ drop (buf_length b) (buf_data b))"
    unfolding memory_of_def by (rule arg_cong)
  then have "memory_of b = bytes @ map ?f (drop (buf_length b) (buf_data b))"
    by (simp add: comp_def)
  moreover have "buf_length b = length bytes"
    using length_contents [OF assms(1)] assms(2) by simp
  ultimately show ?thesis by blast
qed

text \<open>Writing behind the contents without making room; the block must be large enough.\<close>

definition deposit :: "ntb_buffer \<Rightarrow> u8 list \<Rightarrow> ntb_buffer outcome" where
  "deposit b bytes =
     (if buf_length b + length bytes > buf_size b then Fault
      else Ok (b\<lparr>buf_data := write_at (buf_length b) (map Some bytes) (buf_data b),
                 buf_length := buf_length b + length bytes\<rparr>))"

lemma deposit_ok:
  assumes "buf_ok b" "buf_length b + length bytes \<le> buf_size b"
  obtains b' where "deposit b bytes = Ok b'" "buf_ok b'" "contents b' = contents b @ map Some bytes"
  using assms write_at_buf_ok [of b "map Some bytes"] write_at_contents [of b "map Some bytes"]
  by (simp add: deposit_def)

end
