(* ===== verification/Ntb_Netaddress.thy ===== *)
theory Ntb_Netaddress
  imports Ntb_Prelude
begin

text \<open>
  Network addresses of \<open>src/src/ntb-netaddress.c\<close>: the 16-byte host (an IPv4 address is the 12-byte
  magic followed by the 4-byte address) with the port, the conversion from and to the socket
  address of the system, the textual form, and the filter of addresses that are not stored.
\<close>

unbundle bit_operations_syntax

record ntb_netaddress =
  host :: "u8 list"
  port :: u16

definition netaddress_ok :: "ntb_netaddress \<Rightarrow> bool" where
  "netaddress_ok a \<longleftrightarrow> length (host a) = 16"

definition ipv4_magic :: "u8 list" where
  "ipv4_magic = [0, 0, 0, 0, 0, 0, 0, 0, 0, 0, 0xff, 0xff]"

definition ipv6_localhost :: "u8 list" where
  "ipv6_localhost = [0, 0, 0, 0, 0, 0, 0, 0, 0, 0, 0, 0, 0, 0, 0, 1]"

text \<open>
  The socket address: the address family with the fields the code sets. The port is held in network
  byte order, as the two bytes \<open>htons\<close> lays out. \<open>Other_Family\<close> is any other family.
\<close>

datatype native =
    Sockaddr_In (sin_addr: "u8 list") (sin_port: "u8 list")
  | Sockaddr_In6 (sin6_addr: "u8 list") (sin6_flowinfo: u32) (sin6_scope_id: u32)
      (sin6_port: "u8 list")
  | Other_Family

definition htons :: "u16 \<Rightarrow> u8 list" where
  "htons p = be_bytes 2 (unat p)"

definition ntohs :: "u8 list \<Rightarrow> u16" where
  "ntohs bs = word_of_nat (be_value bs)"

definition ntb_netaddress_to_native :: "ntb_netaddress \<Rightarrow> native" where
  "ntb_netaddress_to_native a =
     (if take 12 (host a) = ipv4_magic
      then Sockaddr_In (take 4 (drop 12 (host a))) (htons (port a))
      else Sockaddr_In6 (host a) 0 0 (htons (port a)))"

definition ntb_netaddress_from_native :: "native \<Rightarrow> ntb_netaddress" where
  "ntb_netaddress_from_native n =
     (case n of
        Sockaddr_In ad p \<Rightarrow> \<lparr>host = ipv4_magic @ ad, port = ntohs p\<rparr>
      | Sockaddr_In6 ad _ _ p \<Rightarrow> \<lparr>host = ad, port = ntohs p\<rparr>
      | Other_Family \<Rightarrow> \<lparr>host = replicate 16 0, port = 0\<rparr>)"

definition ntb_netaddress_is_allowed :: "ntb_netaddress \<Rightarrow> bool" where
  "ntb_netaddress_is_allowed a =
     (if take 12 (host a) \<noteq> ipv4_magic
      then (if host a = ipv6_localhost then False
            else if host a ! 0 = 0xfe \<and> (host a ! 1 AND 0xc0) = 0x80 then False
            else if (host a ! 0 AND 0xfe) = 0xfc then False
            else True)
      else (let h = drop 12 (host a) in
            if h ! 0 = 127 then False
            else if h ! 0 = 10 then False
            else if h ! 0 = 172 \<and> h ! 1 \<ge> 16 \<and> h ! 1 \<le> 31 then False
            else if h ! 0 = 192 \<and> h ! 1 = 168 then False
            else True))"

section \<open>The textual form\<close>

text \<open>
  \<open>inet_pton\<close> and \<open>inet_ntop\<close> belong to the C library's resolver and are parameters: \<open>pton6\<close> and
  \<open>pton4\<close> map a presentation string to the 16 or 4 bytes of the address, or \<open>None\<close>. \<open>strtoul\<close> in
  base 10 is modelled here: optional white space and sign, then digits. A value above \<open>ULONG_MAX\<close>
  sets \<open>errno\<close>; a minus sign negates the value in \<open>unsigned long\<close>.
\<close>

definition is_digit :: "u8 \<Rightarrow> bool" where
  "is_digit c \<longleftrightarrow> 48 \<le> c \<and> c \<le> 57"

definition is_space :: "u8 \<Rightarrow> bool" where
  "is_space c \<longleftrightarrow> c = 32 \<or> (9 \<le> c \<and> c \<le> 13)"

definition digits_value :: "u8 list \<Rightarrow> nat" where
  "digits_value ds = foldl (\<lambda>v d. v * 10 + unat (d - 48)) 0 ds"

datatype strtoul_result =
    No_Conversion
  | Range_Error
  | Converted u64 "u8 list"  \<comment> \<open>the value and the rest of the string\<close>

definition strtoul_sign :: "u8 list \<Rightarrow> bool \<times> u8 list" where
  "strtoul_sign s = (case s of [] \<Rightarrow> (False, [])
     | c # r \<Rightarrow> if c = 45 then (True, r) else if c = 43 then (False, r) else (False, s))"

definition strtoul :: "u8 list \<Rightarrow> strtoul_result" where
  "strtoul s =
     (case strtoul_sign (dropWhile is_space s) of (neg, r) \<Rightarrow>
      let ds = takeWhile is_digit r; v = digits_value ds in
      if ds = [] then No_Conversion
      else if v \<ge> 2 ^ 64 then Range_Error
      else Converted (if neg then - word_of_nat v else word_of_nat v) (dropWhile is_digit r))"

text \<open>The port after the address: \<open>rest\<close> is the string from \<open>addr_end\<close> on.\<close>

definition parse_port :: "u8 list \<Rightarrow> u16 option" where
  "parse_port rest =
     (case rest of
        [] \<Rightarrow> Some 8444
      | c # r \<Rightarrow>
          if c = 58 then
            (case strtoul r of
               Converted v end \<Rightarrow> if v > 0xffff \<or> end \<noteq> [] then None else Some (ucast v)
             | _ \<Rightarrow> None)
          else None)"

text \<open>
  \<open>ntb_netaddress_from_string\<close> on a string without its terminating zero. The IPv4 branch looks for
  the colon from the second character on: the first one belongs to the address whatever it is.
  The empty string makes that search start beyond the terminating zero, which is undefined.
\<close>

definition ntb_netaddress_from_string ::
  "(u8 list \<Rightarrow> u8 list option) \<Rightarrow> (u8 list \<Rightarrow> u8 list option) \<Rightarrow> u8 list \<Rightarrow>
   ntb_netaddress outcome" where
  "ntb_netaddress_from_string pton6 pton4 s =
     (case s of
        [] \<Rightarrow> Fault
      | c # s' \<Rightarrow>
          if c = 91 then
            (case memchr s' 93 of
               None \<Rightarrow> Fail
             | Some e \<Rightarrow>
                 (case pton6 (take e s') of
                    None \<Rightarrow> Fail
                  | Some h \<Rightarrow>
                      (case parse_port (drop (e + 1) s') of
                         None \<Rightarrow> Fail
                       | Some p \<Rightarrow> Ok \<lparr>host = h, port = p\<rparr>)))
          else
            (let e = (case memchr s' 58 of None \<Rightarrow> length s | Some i \<Rightarrow> i + 1) in
             case pton4 (take e s) of
               None \<Rightarrow> Fail
             | Some h \<Rightarrow>
                 (case parse_port (drop e s) of
                    None \<Rightarrow> Fail
                  | Some p \<Rightarrow> Ok \<lparr>host = ipv4_magic @ h, port = p\<rparr>)))"

text \<open>The decimal digits \<open>snprintf\<close> prints for a port, without leading zeros.\<close>

fun decimal :: "nat \<Rightarrow> u8 list" where
  "decimal n = (if n < 10 then [word_of_nat (48 + n)]
                else decimal (n div 10) @ [word_of_nat (48 + n mod 10)])"

declare decimal.simps [simp del]

definition ntb_netaddress_to_string ::
  "(u8 list \<Rightarrow> u8 list) \<Rightarrow> (u8 list \<Rightarrow> u8 list) \<Rightarrow> ntb_netaddress \<Rightarrow> u8 list" where
  "ntb_netaddress_to_string ntop6 ntop4 a =
     (if take 12 (host a) \<noteq> ipv4_magic
      then 91 # ntop6 (host a) @ [93]
      else ntop4 (drop 12 (host a))) @ 58 # decimal (unat (port a))"

section \<open>Conversion to the native address and back\<close>

lemma ntohs_htons [simp]: "ntohs (htons p) = p"
  by (simp add: ntohs_def htons_def of_nat_be_value_be_bytes)

lemma length_ipv4_magic [simp]: "length ipv4_magic = 12"
  by (simp add: ipv4_magic_def)

lemma native_roundtrip:
  assumes "netaddress_ok a"
  shows "ntb_netaddress_from_native (ntb_netaddress_to_native a) = a"
proof (cases "take 12 (host a) = ipv4_magic")
  case True
  have "take 4 (drop 12 (host a)) = drop 12 (host a)"
    using assms by (simp add: netaddress_ok_def)
  then have "host a = take 12 (host a) @ take 4 (drop 12 (host a))"
    by (metis append_take_drop_id)
  with True show ?thesis
    by (simp add: ntb_netaddress_to_native_def ntb_netaddress_from_native_def)
next
  case False
  then show ?thesis
    by (simp add: ntb_netaddress_to_native_def ntb_netaddress_from_native_def)
qed

section \<open>The address filter as subnets\<close>

text \<open>\<open>in_subnet net n a\<close>: the first \<open>n\<close> bits of the 128-bit address are those of \<open>net\<close>.\<close>

definition in_subnet :: "u8 list \<Rightarrow> nat \<Rightarrow> ntb_netaddress \<Rightarrow> bool" where
  "in_subnet net n a \<longleftrightarrow>
     be_value (host a) div 2 ^ (128 - n) = be_value net div 2 ^ (128 - n)"

definition mapped :: "u8 list \<Rightarrow> u8 list" where
  "mapped ip4 = ipv4_magic @ ip4"

lemma be_value_div_tail:
  "be_value (as @ bs) div 256 ^ length bs = be_value as"
  using be_value_less [of bs] by (simp add: be_value_append)

lemma be_value_drop_bits:
  assumes "length bs = 16" and "m = 8 * k + r" and "k \<le> 16"
  shows "be_value bs div 2 ^ m = be_value (take (16 - k) bs) div 2 ^ r"
proof -
  have "be_value bs div 2 ^ m = be_value bs div 256 ^ k div 2 ^ r"
    using assms(2) by (simp add: power_add power_mult div_mult2_eq)
  also have "be_value bs div 256 ^ k = be_value (take (16 - k) bs)"
    using be_value_div_tail [of "take (16 - k) bs" "drop (16 - k) bs"] assms by simp
  finally show ?thesis .
qed

lemma and_high_bits:
  fixes x :: u8
  shows "(x AND 0xc0) = 0x80 \<longleftrightarrow> unat x div 64 = 2"
    and "(x AND 0xfe) = 0xfc \<longleftrightarrow> unat x div 2 = 126"
proof -
  have *: "x AND NOT (mask n) = push_bit n (drop_bit n x)" for n
    by (rule bit_word_eqI) (auto simp: bit_simps)
  have **: "unat (x AND NOT (mask n)) = unat x div 2 ^ n * 2 ^ n" for n
  proof -
    have "unat x div 2 ^ n * 2 ^ n < 256"
      using unat_u8_less [of x] div_times_less_eq_dividend [of "unat x" "2 ^ n"] by linarith
    then show ?thesis
      unfolding * unsigned_push_bit_eq unsigned_drop_bit_eq
      by (simp add: drop_bit_eq_div push_bit_eq_mult take_bit_eq_mod)
  qed
  have m: "NOT (mask 6) = (0xc0 :: u8)" "NOT (mask 1) = (0xfe :: u8)"
    by (simp_all add: mask_eq_exp_minus_1)
  show "(x AND 0xc0) = 0x80 \<longleftrightarrow> unat x div 64 = 2"
    using ** [of 6] by (simp only: m word_unat_eq_iff) simp
  show "(x AND 0xfe) = 0xfc \<longleftrightarrow> unat x div 2 = 126"
    using ** [of 1] by (simp only: m word_unat_eq_iff) simp
qed

definition reserved_subnets :: "(u8 list \<times> nat) list" where
  "reserved_subnets =
     [(ipv6_localhost, 128), (0xfe # 0x80 # replicate 14 0, 10), (0xfc # replicate 15 0, 7),
      (mapped [127, 0, 0, 0], 104), (mapped [10, 0, 0, 0], 104), (mapped [172, 16, 0, 0], 108),
      (mapped [192, 168, 0, 0], 112)]"

lemma length_eq_16_conv:
  "length xs = 16 \<Longrightarrow> \<exists>a b c d e f g h i j k l m n p q. xs = [a, b, c, d, e, f, g, h, i, j, k, l, m, n, p, q]"
  by (auto simp: numeral_eq_Suc length_Suc_conv)

lemma subnet_whole:
  assumes "netaddress_ok a" and "length net = 16"
  shows "in_subnet net 128 a \<longleftrightarrow> host a = net"
  using assms by (simp add: in_subnet_def netaddress_ok_def be_value_inject)

lemma subnet_bytes:
  assumes "netaddress_ok a" and "length net = 16" and "k \<le> 16"
  shows "in_subnet net (8 * k) a \<longleftrightarrow> take k (host a) = take k net"
proof -
  have "(128 :: nat) - 8 * k = 8 * (16 - k) + 0" by simp
  from be_value_drop_bits [OF _ this, of "host a"] be_value_drop_bits [OF _ this, of net] assms
  show ?thesis by (simp add: in_subnet_def netaddress_ok_def be_value_inject)
qed

lemma subnet_bits:
  assumes "netaddress_ok a" and "length net = 16" and "k < 16" and "r < 8"
  shows "in_subnet net (8 * k + r) a \<longleftrightarrow>
    take k (host a) = take k net \<and>
    unat (host a ! k) div 2 ^ (8 - r) = unat (net ! k) div 2 ^ (8 - r)"
proof -
  have m: "(128 :: nat) - (8 * k + r) = 8 * (15 - k) + (8 - r)"
    using assms by simp
  have top: "be_value (take (Suc k) bs) div 2 ^ (8 - r) =
      be_value (take k bs) * 2 ^ r + unat (bs ! k) div 2 ^ (8 - r)" if "length bs = 16" for bs
  proof -
    have "(256 :: nat) = 2 ^ r * 2 ^ (8 - r)"
      using assms(4) by (simp flip: power_add)
    then have "be_value (take (Suc k) bs) =
        unat (bs ! k) + be_value (take k bs) * 2 ^ r * 2 ^ (8 - r)"
      using that assms(3) by (simp add: take_Suc_conv_app_nth)
    then show ?thesis by simp
  qed
  have small: "unat (bs ! k) div 2 ^ (8 - r) < 2 ^ r" for bs :: "u8 list"
    using unat_u8_less [of "bs ! k"] assms(4)
    by (simp add: less_mult_imp_div_less flip: power_add)
  have split: "x * 2 ^ r + y = x' * 2 ^ r + y' \<longleftrightarrow> x = x' \<and> y = y'"
    if "y < 2 ^ r" "y' < 2 ^ r" for x y x' y' :: nat
    using that by (metis div_mult_self3 mod_mult_self3 div_less mod_less add_0_right power_not_zero
        zero_neq_numeral)
  have "15 - k \<le> 16" "16 - (15 - k) = Suc k" using assms(3) by auto
  then show ?thesis
    using be_value_drop_bits [OF _ m, of "host a"] be_value_drop_bits [OF _ m, of net] assms
    by (simp add: in_subnet_def netaddress_ok_def top small split be_value_inject)
qed

lemma nth_take_Suc_iff:
  "k < length xs \<Longrightarrow> k < length ys \<Longrightarrow>
   take (Suc k) xs = take (Suc k) ys \<longleftrightarrow> take k xs = take k ys \<and> xs ! k = ys ! k"
  by (simp add: take_Suc_conv_app_nth)

text \<open>
  an address is let through exactly when it lies in none of the seven reserved subnets: the IPv6
  loopback address, link-local (\<open>fe80::/10\<close>) and unique local (\<open>fc00::/7\<close>) addresses, and the IPv4
  loopback and private ranges.
\<close>

theorem is_allowed_iff_not_reserved:
  assumes "netaddress_ok a"
  shows "ntb_netaddress_is_allowed a \<longleftrightarrow> \<not> (\<exists>(net, n) \<in> set reserved_subnets. in_subnet net n a)"
proof -
  have len: "length (host a) = 16" using assms by (simp add: netaddress_ok_def)
  have v6: "in_subnet (0xfe # 0x80 # replicate 14 0) 10 a \<longleftrightarrow>
        host a ! 0 = 0xfe \<and> (host a ! 1 AND 0xc0) = 0x80"
      "in_subnet (0xfc # replicate 15 0) 7 a \<longleftrightarrow> (host a ! 0 AND 0xfe) = 0xfc"
    using subnet_bits [OF assms, of "0xfe # 0x80 # replicate 14 0" 1 2]
      subnet_bits [OF assms, of "0xfc # replicate 15 0" 0 7] len
    by (simp_all add: and_high_bits take_Suc_conv_app_nth)
  have v4: "in_subnet (mapped [x, y, 0, 0]) 104 a \<longleftrightarrow>
        take 12 (host a) = ipv4_magic \<and> host a ! 12 = x"
      "in_subnet (mapped [x, y, 0, 0]) 112 a \<longleftrightarrow>
        take 12 (host a) = ipv4_magic \<and> host a ! 12 = x \<and> host a ! 13 = y"
      "in_subnet (mapped [x, y, 0, 0]) 108 a \<longleftrightarrow>
        take 12 (host a) = ipv4_magic \<and> host a ! 12 = x \<and> unat (host a ! 13) div 16 = unat y div 16"
    for x y
    using subnet_bytes [OF assms, of "mapped [x, y, 0, 0]" 13]
      subnet_bytes [OF assms, of "mapped [x, y, 0, 0]" 14]
      subnet_bits [OF assms, of "mapped [x, y, 0, 0]" 13 4] len
      nth_take_Suc_iff [of 12 "host a" "mapped [x, y, 0, 0]"]
      nth_take_Suc_iff [of 13 "host a" "mapped [x, y, 0, 0]"]
    by (auto simp: mapped_def ipv4_magic_def)
  have range: "16 \<le> b \<and> b \<le> 31 \<longleftrightarrow> unat b div 16 = 1" for b :: u8
    by (auto simp: word_le_nat_alt)
  have zero: "host a ! 0 = 0 \<and> host a \<noteq> ipv6_localhost" if "take 12 (host a) = ipv4_magic"
  proof -
    have "host a ! 0 = ipv4_magic ! 0" "host a ! 10 = ipv4_magic ! 10"
      using nth_take [of 0 12 "host a"] nth_take [of 10 12 "host a"] that by simp_all
    then show ?thesis by (auto simp: ipv4_magic_def ipv6_localhost_def)
  qed
  show ?thesis
    using zero range len subnet_whole [OF assms, of ipv6_localhost]
    by (auto simp: reserved_subnets_def v6 v4 ntb_netaddress_is_allowed_def Let_def
        ipv6_localhost_def)
qed

section \<open>Printing and parsing\<close>

lemma digit_of_nat:
  assumes "d < 10"
  shows "is_digit (word_of_nat (48 + d))" "unat (word_of_nat (48 + d) - 48 :: u8) = d"
proof -
  have u: "unat (word_of_nat (48 + d) :: u8) = 48 + d"
    using assms by (simp only: unat_of_nat_u8) simp
  show "is_digit (word_of_nat (48 + d))"
    unfolding is_digit_def word_le_nat_alt u using assms by simp
  have "(word_of_nat (48 + d) - 48 :: u8) = word_of_nat d" by simp
  then show "unat (word_of_nat (48 + d) - 48 :: u8) = d"
    using assms by (simp only: unat_of_nat_u8) simp
qed

lemma decimal_digits: "\<forall>c \<in> set (decimal n). is_digit c"
proof (induction n rule: decimal.induct)
  case (1 n)
  then show ?case
    by (subst decimal.simps) (auto intro!: digit_of_nat simp del: of_nat_add of_nat_numeral)
qed

lemma digits_value_snoc: "digits_value (ds @ [d]) = digits_value ds * 10 + unat (d - 48)"
  by (simp add: digits_value_def)

lemma digits_value_decimal: "digits_value (decimal n) = n"
proof (induction n rule: decimal.induct)
  case (1 n)
  show ?case
  proof (cases "n < 10")
    case True
    have "digits_value [word_of_nat (48 + n)] = n"
      using digit_of_nat(2) [OF True] digits_value_snoc [of "[]"]
      by (simp add: digits_value_def del: of_nat_add)
    with True show ?thesis by (subst decimal.simps) simp
  next
    case False
    with 1 have IH: "digits_value (decimal (n div 10)) = n div 10" by simp
    have "n mod 10 < 10" by simp
    from digit_of_nat(2) [OF this] False IH show ?thesis
      by (subst decimal.simps) (simp add: digits_value_snoc del: of_nat_add)
  qed
qed

lemma decimal_not_Nil: "decimal n \<noteq> []"
  by (subst decimal.simps) simp

lemma strtoul_decimal:
  assumes "n < 2 ^ 64"
  shows "strtoul (decimal n) = Converted (word_of_nat n) []"
proof -
  obtain c cs where c: "decimal n = c # cs" using decimal_not_Nil by (cases "decimal n") auto
  then have dig: "is_digit c" and all: "takeWhile is_digit (c # cs) = c # cs"
    "dropWhile is_digit (c # cs) = []"
    using decimal_digits [of n] by (auto simp: takeWhile_eq_all_conv)
  have "\<not> is_space c" "c \<noteq> 45" "c \<noteq> 43"
    using dig by (auto simp: is_digit_def is_space_def word_le_nat_alt word_less_nat_alt)
  then have "strtoul_sign (dropWhile is_space (decimal n)) = (False, decimal n)"
    by (simp add: c strtoul_sign_def)
  with assms all digits_value_decimal [of n] show ?thesis
    by (simp add: strtoul_def c Let_def)
qed

lemma parse_port_decimal: "parse_port (58 # decimal (unat p)) = Some p"
proof -
  have "unat p < 2 ^ 16" using unat_less_2p [of p] by simp
  moreover from this have "take_bit 64 (unat p) = unat p" by (intro take_bit_nat_eq_self) simp
  ultimately have "strtoul (decimal (unat p)) = Converted (ucast p) []"
    and "\<not> (ucast p :: u64) > 0xffff"
    by (simp_all add: strtoul_decimal word_less_nat_alt unsigned_ucast_eq)
  moreover have "ucast (ucast p :: u64) = p"
    by (rule bit_word_eqI) (simp add: bit_simps)
  ultimately show ?thesis by (simp add: parse_port_def)
qed

lemma string_roundtrip:
  assumes "netaddress_ok a"
    and "\<And>h. length h = 16 \<Longrightarrow> pton6 (ntop6 h) = Some h \<and> 93 \<notin> set (ntop6 h)"
    and "\<And>h. length h = 4 \<Longrightarrow> pton4 (ntop4 h) = Some h \<and> 58 \<notin> set (ntop4 h) \<and>
           ntop4 h \<noteq> [] \<and> hd (ntop4 h) \<noteq> 91"
  shows "ntb_netaddress_from_string pton6 pton4 (ntb_netaddress_to_string ntop6 ntop4 a) = Ok a"
proof (cases "take 12 (host a) = ipv4_magic")
  case True
  define h where "h = drop 12 (host a)"
  have host: "host a = ipv4_magic @ h" and "length h = 4"
    using True append_take_drop_id [of 12 "host a"] assms(1) by (simp_all add: h_def netaddress_ok_def)
  with assms(3) [of h] obtain c t where t: "ntop4 h = c # t" "c \<noteq> 91" "58 \<notin> set t" "pton4 (c # t) = Some h"
    by (cases "ntop4 h") auto
  have "ntb_netaddress_to_string ntop6 ntop4 a = c # t @ 58 # decimal (unat (port a))"
    using t(1) by (simp add: ntb_netaddress_to_string_def host)
  with t show ?thesis
    by (simp add: ntb_netaddress_from_string_def memchr_append_first parse_port_decimal Let_def
        flip: host)
next
  case False
  with assms(1) assms(2) [of "host a"] show ?thesis
    by (simp add: ntb_netaddress_to_string_def ntb_netaddress_from_string_def netaddress_ok_def
        memchr_append_first parse_port_decimal)
qed

text \<open>
  an address printed by \<open>ntb_netaddress_to_string\<close> is read back by
  \<open>ntb_netaddress_from_string\<close>. About the resolver's functions it uses that \<open>inet_pton\<close> inverts
  \<open>inet_ntop\<close>, that an IPv6 text has no closing bracket, and that an IPv4 text is not empty, has no
  colon and does not start with a bracket.
\<close>

theorem netaddress_string_roundtrip:
  assumes "netaddress_ok a"
    and "\<And>h. length h = 16 \<Longrightarrow> pton6 (ntop6 h) = Some h \<and> 93 \<notin> set (ntop6 h)"
    and "\<And>h. length h = 4 \<Longrightarrow> pton4 (ntop4 h) = Some h \<and> 58 \<notin> set (ntop4 h) \<and>
           ntop4 h \<noteq> [] \<and> hd (ntop4 h) \<noteq> 91"
  shows "ntb_netaddress_from_string pton6 pton4 (ntb_netaddress_to_string ntop6 ntop4 a) = Ok a"
  using assms by (rule string_roundtrip)

text \<open>An instance of the resolver's functions: two letters from \<open>a\<close> to \<open>p\<close> per byte.\<close>

fun letters :: "u8 list \<Rightarrow> u8 list" where
  "letters [] = []"
| "letters (b # bs) = (97 + b div 16) # (97 + b mod 16) # letters bs"

fun unletters :: "u8 list \<Rightarrow> u8 list option" where
  "unletters [] = Some []"
| "unletters [c] = None"
| "unletters (c # d # cs) = map_option (Cons ((c - 97) * 16 + (d - 97))) (unletters cs)"

lemma unletters_letters: "unletters (letters bs) = Some bs"
  by (induction bs) (simp_all add: word_mod_div_equality)

lemma letters_range: "c \<in> set (letters bs) \<Longrightarrow> 97 \<le> c \<and> c < 113"
proof (induction bs)
  case Nil
  then show ?case by simp
next
  case (Cons b bs)
  have "97 \<le> 97 + b div 16 \<and> 97 + b div 16 < 113" "97 \<le> 97 + b mod 16 \<and> 97 + b mod 16 < 113"
    using unat_u8_less [of b]
    by (auto simp: word_le_nat_alt word_less_nat_alt unat_word_ariths unat_div unat_mod)
  with Cons show ?case by auto
qed

theorem netaddress_string_roundtrip_witness:
  "ntb_netaddress_from_string unletters unletters
     (ntb_netaddress_to_string letters letters \<lparr>host = mapped [10, 0, 0, 7], port = 8444\<rparr>) =
   Ok \<lparr>host = mapped [10, 0, 0, 7], port = 8444\<rparr>"
proof (rule netaddress_string_roundtrip)
  show "netaddress_ok \<lparr>host = mapped [10, 0, 0, 7], port = 8444\<rparr>"
    by (simp add: netaddress_ok_def mapped_def)
  show "unletters (letters h) = Some h \<and> 93 \<notin> set (letters h)" for h
    using letters_range [of 93 h] by (auto simp: unletters_letters)
  show "unletters (letters h) = Some h \<and> 58 \<notin> set (letters h) \<and> letters h \<noteq> [] \<and>
      hd (letters h) \<noteq> 91" if "length h = 4" for h
    using letters_range [of 58 h] letters_range [of 91 h] that
    by (cases h) (auto simp: unletters_letters word_mod_div_equality)
qed

theorem is_allowed_iff_not_reserved_witness:
  "ntb_netaddress_is_allowed \<lparr>host = mapped [172, 32, 0, 1], port = 8444\<rparr> \<and>
   \<not> ntb_netaddress_is_allowed \<lparr>host = mapped [172, 31, 0, 1], port = 8444\<rparr>"
proof -
  have "netaddress_ok \<lparr>host = mapped [172, b, 0, 1], port = 8444\<rparr>" for b
    by (simp add: netaddress_ok_def mapped_def)
  from is_allowed_iff_not_reserved [OF this [of 32]] is_allowed_iff_not_reserved [OF this [of 31]]
  show ?thesis
    by (simp add: reserved_subnets_def in_subnet_def mapped_def ipv4_magic_def ipv6_localhost_def
        be_value_def replicate_numeral_Cons)
qed

end
