(* ===== verification/Ntb_Proto.thy ===== *)
theory Ntb_Proto
  imports Ntb_Buffer Ntb_Netaddress
begin

text \<open>
  The wire format of \<open>src/src/ntb-proto.c\<close> and \<open>ntb-proto.h\<close>: integers, variable-length integers,
  strings and lists, the argument-list driven reader \<open>ntb_proto_get_command\<close> and writer
  \<open>ntb_proto_add_command\<close>, and the framing of a command (magic, name, length, checksum).

  A reader works on a cursor: the bytes from the read pointer to the end of the memory object it
  points into, and the number of bytes that belong to the command, which the code keeps separately.
  A read beyond the object is \<open>Fault\<close>. \<open>SHA512\<close> is the function of OpenSSL and a parameter \<open>sha\<close> of
  the writers; the current time is the parameter \<open>now\<close>.
\<close>

type_synonym cursor = "u8 list \<times> u32"

datatype ntb_proto_inv_type =
    NTB_PROTO_INV_TYPE_GETPUBKEY
  | NTB_PROTO_INV_TYPE_PUBKEY
  | NTB_PROTO_INV_TYPE_MSG
  | NTB_PROTO_INV_TYPE_BROADCAST

datatype ntb_proto_argument =
    NTB_PROTO_ARGUMENT_8
  | NTB_PROTO_ARGUMENT_16
  | NTB_PROTO_ARGUMENT_32
  | NTB_PROTO_ARGUMENT_64
  | NTB_PROTO_ARGUMENT_BOOL
  | NTB_PROTO_ARGUMENT_VAR_INT
  | NTB_PROTO_ARGUMENT_TIMESTAMP
  | NTB_PROTO_ARGUMENT_NETADDRESS
  | NTB_PROTO_ARGUMENT_VAR_STR
  | NTB_PROTO_ARGUMENT_VAR_INT_LIST

text \<open>The two structures with a pointer into the command; the pointer is the bytes from it on.\<close>

record ntb_proto_var_str =
  vs_length :: u64
  vs_data :: "u8 list"

record ntb_proto_var_int_list =
  n_ints :: u64
  vil_values :: "u8 list"

definition ntb_proto_magic :: "u8 list" where
  "ntb_proto_magic = [0xe9, 0xbe, 0xb4, 0xd9]"

definition NTB_PROTO_HASH_LENGTH :: nat where
  "NTB_PROTO_HASH_LENGTH = 32"

definition NTB_PROTO_HEADER_SIZE :: nat where
  "NTB_PROTO_HEADER_SIZE = 4 + 12 + 4 + 4"

definition ntb_proto_double_hash :: "(u8 list \<Rightarrow> u8 list) \<Rightarrow> u8 list \<Rightarrow> u8 list" where
  "ntb_proto_double_hash sha data = take 32 (sha (sha data))"

definition ntb_proto_address_hash ::
  "(u8 list \<Rightarrow> u8 list) \<Rightarrow> (u8 list \<Rightarrow> u8 list) \<Rightarrow> u8 list \<Rightarrow> u8 list" where
  "ntb_proto_address_hash sha ripemd data = ripemd (sha data)"

text \<open>The name field of a command: 12 bytes, a zero among them and only zeros after it.\<close>

definition ntb_proto_check_command_string :: "u8 list \<Rightarrow> bool" where
  "ntb_proto_check_command_string s =
     (case memchr (take 12 s) 0 of
        None \<Rightarrow> False
      | Some e \<Rightarrow> list_all (\<lambda>i. s ! i = 0) [e + 1..<12])"

fun ntb_proto_get_max_age_for_type :: "ntb_proto_inv_type \<Rightarrow> int" where
  "ntb_proto_get_max_age_for_type NTB_PROTO_INV_TYPE_PUBKEY = 4 * 7 * 24 * 60 * 60"
| "ntb_proto_get_max_age_for_type NTB_PROTO_INV_TYPE_MSG = 24 * 60 * 60 * 5 div 2"
| "ntb_proto_get_max_age_for_type NTB_PROTO_INV_TYPE_GETPUBKEY = 24 * 60 * 60 * 5 div 2"
| "ntb_proto_get_max_age_for_type NTB_PROTO_INV_TYPE_BROADCAST = 24 * 60 * 60 * 5 div 2"

fun ntb_proto_get_command_name_for_type :: "ntb_proto_inv_type \<Rightarrow> string" where
  "ntb_proto_get_command_name_for_type NTB_PROTO_INV_TYPE_GETPUBKEY = ''getpubkey''"
| "ntb_proto_get_command_name_for_type NTB_PROTO_INV_TYPE_MSG = ''msg''"
| "ntb_proto_get_command_name_for_type NTB_PROTO_INV_TYPE_BROADCAST = ''broadcast''"
| "ntb_proto_get_command_name_for_type NTB_PROTO_INV_TYPE_PUBKEY = ''pubkey''"

section \<open>Reading\<close>

definition get_be :: "nat \<Rightarrow> u8 list \<Rightarrow> 'a::len word outcome" where
  "get_be n p = bind_outcome (read_bytes n p) (\<lambda>bs. Ok (word_of_nat (be_value bs)))"

definition ntb_proto_get_8 :: "u8 list \<Rightarrow> u8 outcome" where
  "ntb_proto_get_8 p = get_be 1 p"

definition ntb_proto_get_16 :: "u8 list \<Rightarrow> u16 outcome" where
  "ntb_proto_get_16 p = get_be 2 p"

definition ntb_proto_get_32 :: "u8 list \<Rightarrow> u32 outcome" where
  "ntb_proto_get_32 p = get_be 4 p"

definition ntb_proto_get_64 :: "u8 list \<Rightarrow> u64 outcome" where
  "ntb_proto_get_64 p = get_be 8 p"

text \<open>
  The first byte is read before the length is compared with anything, and the length is compared as
  a signed \<open>int\<close>.
\<close>

definition ntb_proto_get_var_int :: "cursor \<Rightarrow> (u64 \<times> cursor) outcome" where
  "ntb_proto_get_var_int c =
     (case c of (p, len) \<Rightarrow>
      if sint len < 0 then Fail
      else bind_outcome (ntb_proto_get_8 p) (\<lambda>b.
        if b < 0xfd then
          (if sint len < 1 then Fail else Ok (ucast b, (drop 1 p, len - 1)))
        else if b = 0xfd then
          (if sint len < 3 then Fail
           else bind_outcome (ntb_proto_get_16 (drop 1 p)) (\<lambda>v. Ok (ucast v, (drop 3 p, len - 3))))
        else if b = 0xfe then
          (if sint len < 5 then Fail
           else bind_outcome (ntb_proto_get_32 (drop 1 p)) (\<lambda>v. Ok (ucast v, (drop 5 p, len - 5))))
        else
          (if sint len < 9 then Fail
           else bind_outcome (ntb_proto_get_64 (drop 1 p)) (\<lambda>v. Ok (v, (drop 9 p, len - 9))))))"

text \<open>The result is an \<open>int64_t\<close> that holds a 32-bit value: the first word or, if zero, the second.\<close>

definition ntb_proto_get_timestamp :: "cursor \<Rightarrow> (int \<times> cursor) outcome" where
  "ntb_proto_get_timestamp c =
     (case c of (p, len) \<Rightarrow>
      if unat len < 4 then Fail
      else bind_outcome (ntb_proto_get_32 p) (\<lambda>v.
        if v = 0 then
          (if unat (len - 4) < 4 then Fail
           else bind_outcome (ntb_proto_get_32 (drop 4 p)) (\<lambda>w. Ok (uint w, (drop 8 p, len - 8))))
        else Ok (uint v, (drop 4 p, len - 4))))"

definition ntb_proto_get_var_str :: "cursor \<Rightarrow> (ntb_proto_var_str \<times> cursor) outcome" where
  "ntb_proto_get_var_str c =
     bind_outcome (ntb_proto_get_var_int c) (\<lambda>(n, p, len).
       if unat len < unat n then Fail
       else Ok (\<lparr>vs_length = n, vs_data = p\<rparr>, (drop (unat n) p, len - ucast n)))"

fun skip_var_ints :: "nat \<Rightarrow> cursor \<Rightarrow> (unit \<times> cursor) outcome" where
  "skip_var_ints 0 c = Ok ((), c)"
| "skip_var_ints (Suc n) c = bind_outcome (ntb_proto_get_var_int c) (\<lambda>(v, c'). skip_var_ints n c')"

definition ntb_proto_get_var_int_list :: "cursor \<Rightarrow> (ntb_proto_var_int_list \<times> cursor) outcome" where
  "ntb_proto_get_var_int_list c =
     bind_outcome (ntb_proto_get_var_int c) (\<lambda>(n, c').
       bind_outcome (skip_var_ints (unat n) c') (\<lambda>(_, c'').
         Ok (\<lparr>n_ints = n, vil_values = fst c'\<rparr>, c'')))"

text \<open>One value per argument of \<open>ntb_proto_get_command\<close>, in place of the output pointers.\<close>

datatype arg_value =
    V8 u8 | V16 u16 | V32 u32 | V64 u64 | VBool bool | VVarInt u64 | VTimestamp int
  | VNetaddress ntb_netaddress | VVarStr ntb_proto_var_str | VVarIntList ntb_proto_var_int_list

text \<open>The fixed-size cases: check the length, read, advance.\<close>

definition get_fixed ::
  "nat \<Rightarrow> (u8 list \<Rightarrow> 'a outcome) \<Rightarrow> ('a \<Rightarrow> arg_value) \<Rightarrow> cursor \<Rightarrow> (arg_value \<times> cursor) outcome" where
  "get_fixed n rd f c =
     (case c of (p, len) \<Rightarrow>
      if unat len < n then Fail
      else bind_outcome (rd p) (\<lambda>v. Ok (f v, (drop n p, len - word_of_nat n))))"

definition get_netaddress :: "u8 list \<Rightarrow> ntb_netaddress outcome" where
  "get_netaddress p =
     bind_outcome (read_bytes 16 p) (\<lambda>h.
       bind_outcome (ntb_proto_get_16 (drop 16 p)) (\<lambda>pt. Ok \<lparr>host = h, port = pt\<rparr>))"

definition map_fst :: "('a \<Rightarrow> 'b) \<Rightarrow> ('a \<times> cursor) outcome \<Rightarrow> ('b \<times> cursor) outcome" where
  "map_fst f m = bind_outcome m (\<lambda>(v, c). Ok (f v, c))"

fun get_argument :: "ntb_proto_argument \<Rightarrow> cursor \<Rightarrow> (arg_value \<times> cursor) outcome" where
  "get_argument NTB_PROTO_ARGUMENT_8 = get_fixed 1 ntb_proto_get_8 V8"
| "get_argument NTB_PROTO_ARGUMENT_16 = get_fixed 2 ntb_proto_get_16 V16"
| "get_argument NTB_PROTO_ARGUMENT_32 = get_fixed 4 ntb_proto_get_32 V32"
| "get_argument NTB_PROTO_ARGUMENT_64 = get_fixed 8 ntb_proto_get_64 V64"
| "get_argument NTB_PROTO_ARGUMENT_BOOL = get_fixed 1 ntb_proto_get_8 (\<lambda>v. VBool (v \<noteq> 0))"
| "get_argument NTB_PROTO_ARGUMENT_VAR_INT = (\<lambda>c. map_fst VVarInt (ntb_proto_get_var_int c))"
| "get_argument NTB_PROTO_ARGUMENT_TIMESTAMP = (\<lambda>c. map_fst VTimestamp (ntb_proto_get_timestamp c))"
| "get_argument NTB_PROTO_ARGUMENT_NETADDRESS = get_fixed 18 get_netaddress VNetaddress"
| "get_argument NTB_PROTO_ARGUMENT_VAR_STR = (\<lambda>c. map_fst VVarStr (ntb_proto_get_var_str c))"
| "get_argument NTB_PROTO_ARGUMENT_VAR_INT_LIST =
     (\<lambda>c. map_fst VVarIntList (ntb_proto_get_var_int_list c))"

text \<open>The loop of \<open>ntb_proto_get_command_va_list\<close>; the end of the list is \<open>NTB_PROTO_ARGUMENT_END\<close>.\<close>

fun get_arguments :: "ntb_proto_argument list \<Rightarrow> cursor \<Rightarrow> (arg_value list \<times> cursor) outcome" where
  "get_arguments [] c = Ok ([], c)"
| "get_arguments (a # as) c =
     bind_outcome (get_argument a c) (\<lambda>(v, c').
       bind_outcome (get_arguments as c') (\<lambda>(vs, c''). Ok (v # vs, c'')))"

text \<open>The values read and the number of bytes consumed.\<close>

definition ntb_proto_get_command ::
  "u8 list \<Rightarrow> u32 \<Rightarrow> ntb_proto_argument list \<Rightarrow> (arg_value list \<times> nat) outcome" where
  "ntb_proto_get_command data len args =
     bind_outcome (get_arguments args (data, len)) (\<lambda>(vs, p, l). Ok (vs, length data - length p))"

section \<open>Writing\<close>

definition ntb_proto_add_8 :: "ntb_buffer \<Rightarrow> u8 \<Rightarrow> ntb_buffer" where
  "ntb_proto_add_8 buf v = ntb_buffer_append_c buf v"

definition ntb_proto_add_16 :: "ntb_buffer \<Rightarrow> u16 \<Rightarrow> ntb_buffer" where
  "ntb_proto_add_16 buf v = ntb_buffer_append buf (be_bytes 2 (unat v))"

definition ntb_proto_add_32 :: "ntb_buffer \<Rightarrow> u32 \<Rightarrow> ntb_buffer" where
  "ntb_proto_add_32 buf v = ntb_buffer_append buf (be_bytes 4 (unat v))"

definition ntb_proto_add_64 :: "ntb_buffer \<Rightarrow> u64 \<Rightarrow> ntb_buffer" where
  "ntb_proto_add_64 buf v = ntb_buffer_append buf (be_bytes 8 (unat v))"

definition ntb_proto_add_bool :: "ntb_buffer \<Rightarrow> bool \<Rightarrow> ntb_buffer" where
  "ntb_proto_add_bool buf v = ntb_proto_add_8 buf (if v then 1 else 0)"

definition ntb_proto_add_var_int :: "ntb_buffer \<Rightarrow> u64 \<Rightarrow> ntb_buffer" where
  "ntb_proto_add_var_int buf v =
     (if v < 0xfd then ntb_proto_add_8 buf (ucast v)
      else if v \<le> 0xffff then ntb_proto_add_16 (ntb_proto_add_8 buf 0xfd) (ucast v)
      else if v \<le> 0xffffffff then ntb_proto_add_32 (ntb_proto_add_8 buf 0xfe) (ucast v)
      else ntb_proto_add_64 (ntb_proto_add_8 buf 0xff) v)"

definition ntb_proto_add_timestamp :: "int \<Rightarrow> ntb_buffer \<Rightarrow> ntb_buffer" where
  "ntb_proto_add_timestamp now buf = ntb_proto_add_64 buf (word_of_int now)"

definition ntb_proto_add_netaddress :: "ntb_buffer \<Rightarrow> ntb_netaddress \<Rightarrow> ntb_buffer" where
  "ntb_proto_add_netaddress buf a = ntb_proto_add_16 (ntb_buffer_append buf (host a)) (port a)"

text \<open>The length is kept in a single byte, which also is what goes on the wire.\<close>

definition ntb_proto_add_var_str :: "ntb_buffer \<Rightarrow> u8 list \<Rightarrow> ntb_buffer" where
  "ntb_proto_add_var_str buf s =
     (let len = (word_of_nat (length s) :: u8) in
      ntb_buffer_append (ntb_buffer_append buf [len]) (take (unat len) s))"

text \<open>\<open>oct\<close> is what \<open>EC_POINT_point2oct\<close> writes: 0x04 and the two coordinates.\<close>

definition ntb_proto_add_public_key :: "ntb_buffer \<Rightarrow> u8 list \<Rightarrow> ntb_buffer outcome" where
  "ntb_proto_add_public_key buf oct =
     (if length oct \<noteq> 65 then Fault
      else let b1 = ntb_buffer_ensure_size buf (buf_length buf + 65);
               d1 = write_at (buf_length b1) (map Some oct) (buf_data b1);
               d2 = write_at (buf_length b1) (take 64 (drop (buf_length b1 + 1) d1)) d1
           in Ok (b1\<lparr>buf_data := d2, buf_length := buf_length b1 + 64\<rparr>))"

text \<open>
  The header of a command. The eight bytes for the length and the checksum stay indeterminate until
  \<open>ntb_proto_end_command\<close> fills them in. A name has at most 12 characters.
\<close>

definition ntb_proto_begin_command :: "ntb_buffer \<Rightarrow> string \<Rightarrow> ntb_buffer" where
  "ntb_proto_begin_command buf command =
     (let b1 = ntb_buffer_ensure_size buf (buf_length buf + NTB_PROTO_HEADER_SIZE);
          h = buf_length b1;
          d1 = write_at h (map Some ntb_proto_magic) (buf_data b1);
          d2 = write_at (h + 4) (map Some (str command)) d1;
          d3 = write_at (h + 4 + length command) (replicate (12 - length command) (Some 0)) d2
      in b1\<lparr>buf_data := d3, buf_length := h + NTB_PROTO_HEADER_SIZE\<rparr>)"

definition ntb_proto_end_command ::
  "(u8 list \<Rightarrow> u8 list) \<Rightarrow> ntb_buffer \<Rightarrow> nat \<Rightarrow> ntb_buffer outcome" where
  "ntb_proto_end_command sha buf command_start =
     (let payload_length = (word_of_nat (buf_length buf - command_start - NTB_PROTO_HEADER_SIZE) :: u32);
          d1 = write_at (command_start + 16) (map Some (be_bytes 4 (unat payload_length)))
                 (buf_data buf)
      in case those (take (unat payload_length) (drop (command_start + NTB_PROTO_HEADER_SIZE) d1)) of
           None \<Rightarrow> Fault
         | Some payload \<Rightarrow>
             Ok (buf\<lparr>buf_data := write_at (command_start + 20) (map Some (take 4 (sha payload))) d1\<rparr>))"

text \<open>The arguments of \<open>ntb_proto_add_command\<close> with their values.\<close>

datatype add_arg =
    A8 u8 | A16 u16 | A32 u32 | A64 u64 | ABool bool | AVarInt u64 | ATimestamp
  | ANetaddress ntb_netaddress | AVarStr "u8 list" | AVarIntList

fun add_argument :: "int \<Rightarrow> ntb_buffer \<Rightarrow> add_arg \<Rightarrow> ntb_buffer outcome" where
  "add_argument now buf (A8 v) = Ok (ntb_proto_add_8 buf v)"
| "add_argument now buf (A16 v) = Ok (ntb_proto_add_16 buf v)"
| "add_argument now buf (A32 v) = Ok (ntb_proto_add_32 buf v)"
| "add_argument now buf (A64 v) = Ok (ntb_proto_add_64 buf v)"
| "add_argument now buf (ABool v) = Ok (ntb_proto_add_bool buf v)"
| "add_argument now buf (AVarInt v) = Ok (ntb_proto_add_var_int buf v)"
| "add_argument now buf ATimestamp = Ok (ntb_proto_add_timestamp now buf)"
| "add_argument now buf (ANetaddress v) = Ok (ntb_proto_add_netaddress buf v)"
| "add_argument now buf (AVarStr v) = Ok (ntb_proto_add_var_str buf v)"
| "add_argument now buf AVarIntList = Fault"

fun add_arguments :: "int \<Rightarrow> ntb_buffer \<Rightarrow> add_arg list \<Rightarrow> ntb_buffer outcome" where
  "add_arguments now buf [] = Ok buf"
| "add_arguments now buf (a # as) =
     bind_outcome (add_argument now buf a) (\<lambda>buf'. add_arguments now buf' as)"

definition ntb_proto_add_command ::
  "(u8 list \<Rightarrow> u8 list) \<Rightarrow> int \<Rightarrow> ntb_buffer \<Rightarrow> string \<Rightarrow> add_arg list \<Rightarrow> ntb_buffer outcome" where
  "ntb_proto_add_command sha now buf command args =
     bind_outcome (add_arguments now (ntb_proto_begin_command buf command) args)
       (\<lambda>buf'. ntb_proto_end_command sha buf' (buf_length buf))"

section \<open>The contract of a reader\<close>

text \<open>
  The cursors on which no reader faults: at least one byte is readable beyond the command. That
  byte is needed because \<open>ntb_proto_get_var_int\<close> looks at the first byte even of an empty rest.
\<close>

definition cursor_ok :: "cursor \<Rightarrow> bool" where
  "cursor_ok c \<longleftrightarrow> unat (snd c) < length (fst c)"

definition advance :: "nat \<Rightarrow> cursor \<Rightarrow> cursor" where
  "advance n c = (drop n (fst c), snd c - word_of_nat n)"

lemma unat_minus_of_nat: "n \<le> unat (w :: 'a::len word) \<Longrightarrow> unat (w - word_of_nat n) = unat w - n"
proof -
  assume "n \<le> unat w"
  moreover from this have "n < 2 ^ LENGTH('a)"
    using unat_less_2p [of w] by linarith
  then have "unat (word_of_nat n :: 'a word) = n"
    by (simp add: unat_of_nat)
  ultimately show ?thesis by (simp add: unat_sub word_le_nat_alt)
qed

lemma advance_0 [simp]: "advance 0 c = c"
  by (simp add: advance_def)

lemma advance_advance: "advance n (advance m c) = advance (m + n) c"
  by (simp add: advance_def add.commute)

lemma cursor_ok_advance: "cursor_ok c \<Longrightarrow> n \<le> unat (snd c) \<Longrightarrow> cursor_ok (advance n c)"
  by (simp add: cursor_ok_def advance_def unat_minus_of_nat)

locale parser =
  fixes dec :: "cursor \<Rightarrow> ('a \<times> cursor) outcome"
  assumes no_fault: "cursor_ok c \<Longrightarrow> dec c \<noteq> Fault"
    and advances: "cursor_ok c \<Longrightarrow> dec c = Ok (v, c') \<Longrightarrow> \<exists>n \<le> unat (snd c). c' = advance n c"
begin

lemma keeps_ok: "cursor_ok c \<Longrightarrow> dec c = Ok (v, c') \<Longrightarrow> cursor_ok c'"
  using advances [of c v c'] by (auto simp: cursor_ok_advance)

lemma consumes:
  assumes "cursor_ok c" and "dec c = Ok (v, c')"
  shows "unat (snd c') \<le> unat (snd c) \<and>
    length (fst c) - length (fst c') = unat (snd c) - unat (snd c')"
proof -
  from advances [OF assms] obtain n where "n \<le> unat (snd c)" "c' = advance n c" by blast
  with assms(1) show ?thesis
    by (simp add: advance_def unat_minus_of_nat cursor_ok_def)
qed

end

lemma parser_Ok: "parser (\<lambda>c. Ok (f c, c))"
  by unfold_locales (auto intro: exI [of _ 0])

lemma parser_bind:
  assumes "parser d" and "\<And>v. parser (e v)"
  shows "parser (\<lambda>c. bind_outcome (d c) (\<lambda>(v, c'). e v c'))"
proof
  fix c assume ok: "cursor_ok c"
  show "bind_outcome (d c) (\<lambda>(v, c'). e v c') \<noteq> Fault"
    using parser.no_fault [OF assms(1) ok] parser.keeps_ok [OF assms(1) ok] parser.no_fault [OF assms(2)]
    by (auto simp: bind_outcome_Fault_iff)
  fix w c''
  assume "bind_outcome (d c) (\<lambda>(v, c'). e v c') = Ok (w, c'')"
  then obtain v c' where d: "d c = Ok (v, c')" and e: "e v c' = Ok (w, c'')" by auto
  from parser.advances [OF assms(1) ok d] obtain n where n: "n \<le> unat (snd c)" "c' = advance n c"
    by blast
  from parser.advances [OF assms(2) parser.keeps_ok [OF assms(1) ok d] e] obtain m where
    m: "m \<le> unat (snd c')" "c'' = advance m c'" by blast
  from n m have "n + m \<le> unat (snd c)" by (simp add: advance_def unat_minus_of_nat)
  with n m show "\<exists>n \<le> unat (snd c). c'' = advance n c" by (auto simp: advance_advance)
qed

lemma parser_result:
  assumes "parser d"
  shows "parser (\<lambda>c. bind_outcome (d c) (\<lambda>(v, c'). Ok (f c v, c')))"
  using parser.no_fault [OF assms] parser.advances [OF assms]
  by unfold_locales (auto simp: bind_outcome_Fault_iff)

lemma parser_map: "parser d \<Longrightarrow> parser (\<lambda>c. map_fst f (d c))"
  unfolding map_fst_def by (rule parser_result)

lemma parser_fixed:
  assumes "\<And>p. n \<le> length p \<Longrightarrow> rd p \<noteq> Fault"
  shows "parser (get_fixed n rd f)"
  using assms
  by unfold_locales
    (auto simp: get_fixed_def cursor_ok_def advance_def bind_outcome_Fault_iff not_less
      split: prod.splits if_splits intro!: exI [of _ n])

subsection \<open>Readers of integers\<close>

lemma get_be_eq: "get_be n p = (if n \<le> length p then Ok (word_of_nat (be_value (take n p))) else Fault)"
  by (simp add: get_be_def read_bytes_def)

lemmas get_n_eq = ntb_proto_get_8_def ntb_proto_get_16_def ntb_proto_get_32_def ntb_proto_get_64_def
  get_be_eq

lemma sint_u32_less:
  fixes w :: u32
  shows "sint w < 0 \<longleftrightarrow> 2 ^ 31 \<le> unat w"
    and "unat w < 2 ^ 31 \<Longrightarrow> sint w < numeral k \<longleftrightarrow> unat w < numeral k"
    and "unat w < 2 ^ 31 \<Longrightarrow> sint w < 1 \<longleftrightarrow> unat w < 1"
proof -
  define n where "n = unat w"
  have "sint w = (int n + 2 ^ 31) mod 2 ^ 32 - 2 ^ 31"
    using int_word_sint [of "uint w", where 'a = 32] by (simp add: n_def)
  moreover have "n < 2 ^ 32" using unat_less_2p [of w] by (simp add: n_def)
  moreover have "(m + 2 ^ 31) mod 2 ^ 32 - 2 ^ 31 = (if m < 2 ^ 31 then m else m - 2 ^ 32)"
    if "0 \<le> m" and "m < 2 ^ 32" for m :: int
  proof (cases "m < 2 ^ 31")
    case True
    then have "(m + 2 ^ 31) mod 2 ^ 32 = m + 2 ^ 31" using that by (intro mod_pos_pos_trivial) auto
    with True show ?thesis by simp
  next
    case False
    have "m + 2 ^ 31 = m - 2 ^ 31 + 2 ^ 32" by simp
    then have "(m + 2 ^ 31) mod 2 ^ 32 = (m - 2 ^ 31 + 2 ^ 32) mod 2 ^ 32" by (simp only:)
    also have "\<dots> = (m - 2 ^ 31) mod 2 ^ 32" by (rule mod_add_self2)
    also have "\<dots> = m - 2 ^ 31" using False that by (intro mod_pos_pos_trivial) auto
    finally show ?thesis using False by simp
  qed
  ultimately have "sint w = (if n < 2 ^ 31 then int n else int n - 2 ^ 32)"
    by simp
  then show "sint w < 0 \<longleftrightarrow> 2 ^ 31 \<le> unat w"
    and "unat w < 2 ^ 31 \<Longrightarrow> sint w < numeral k \<longleftrightarrow> unat w < numeral k"
    and "unat w < 2 ^ 31 \<Longrightarrow> sint w < 1 \<longleftrightarrow> unat w < 1"
    using \<open>n < 2 ^ 32\<close> unfolding n_def [symmetric] by (auto split: if_splits)
qed

lemma get_8_Cons: "ntb_proto_get_8 (b # p) = Ok b"
  by (simp add: get_n_eq be_value_def)

lemma get_var_int_Cons:
  "ntb_proto_get_var_int (b # q, len) =
     (if 2 ^ 31 \<le> unat len then Fail
      else if b < 0xfd then
        (if unat len < 1 then Fail else Ok (ucast b, advance 1 (b # q, len)))
      else if b = 0xfd then
        (if unat len < 3 then Fail
         else bind_outcome (get_be 2 q) (\<lambda>v. Ok (ucast (v :: u16), advance 3 (b # q, len))))
      else if b = 0xfe then
        (if unat len < 5 then Fail
         else bind_outcome (get_be 4 q) (\<lambda>v. Ok (ucast (v :: u32), advance 5 (b # q, len))))
      else
        (if unat len < 9 then Fail
         else bind_outcome (get_be 8 q) (\<lambda>v. Ok (v, advance 9 (b # q, len)))))"
  unfolding ntb_proto_get_var_int_def ntb_proto_get_16_def ntb_proto_get_32_def
    ntb_proto_get_64_def get_8_Cons prod.case bind_outcome.simps drop_Cons'
  by (cases "2 ^ 31 \<le> unat len") (simp_all add: sint_u32_less advance_def not_le)

lemma parser_var_int: "parser ntb_proto_get_var_int"
proof
  fix c :: cursor
  obtain p len where c: "c = (p, len)" by (cases c)
  assume ok: "cursor_ok c"
  then obtain b q where p: "p = b # q" by (cases p) (auto simp: c cursor_ok_def)
  have room: "unat len \<le> length q"
    using ok by (simp add: c p cursor_ok_def)
  then show "ntb_proto_get_var_int c \<noteq> Fault"
    by (auto simp: c p get_var_int_Cons get_be_eq)
  fix v c'
  assume "ntb_proto_get_var_int c = Ok (v, c')"
  then show "\<exists>n \<le> unat (snd c). c' = advance n c"
    by (auto simp: c p get_var_int_Cons not_less split: if_splits intro: exI [of _ "Suc 0"])
qed

lemma var_int_progress:
  assumes "ntb_proto_get_var_int c = Ok (v, c')"
  shows "\<exists>n. 0 < n \<and> n \<le> unat (snd c) \<and> c' = advance n c"
proof -
  obtain p len where c: "c = (p, len)" by (cases c)
  have "p \<noteq> []" using assms by (auto simp: c ntb_proto_get_var_int_def get_n_eq split: if_splits)
  then obtain b q where "p = b # q" by (cases p) auto
  with assms c show ?thesis
    by (auto simp: get_var_int_Cons not_less split: if_splits
        intro: exI [of _ "Suc 0"] exI [of _ 3] exI [of _ 5] exI [of _ 9])
qed

interpretation var_int: parser ntb_proto_get_var_int
  by (rule parser_var_int)

lemma parser_timestamp: "parser ntb_proto_get_timestamp"
proof
  fix c :: cursor
  obtain p len where c: "c = (p, len)" by (cases c)
  assume ok: "cursor_ok c"
  then have room: "unat len < length p" by (simp add: c cursor_ok_def)
  have sub: "4 \<le> unat len \<Longrightarrow> unat (len - 4) = unat len - 4"
    using unat_minus_of_nat [of 4 len] by simp
  show "ntb_proto_get_timestamp c \<noteq> Fault"
    using room sub by (auto simp: c ntb_proto_get_timestamp_def get_n_eq not_less)
  fix v c'
  assume "ntb_proto_get_timestamp c = Ok (v, c')"
  then show "\<exists>n \<le> unat (snd c). c' = advance n c"
    using sub by (auto simp: c ntb_proto_get_timestamp_def get_n_eq advance_def not_less
        split: if_splits intro: exI [of _ 4] exI [of _ 8])
qed

interpretation timestamp: parser ntb_proto_get_timestamp
  by (rule parser_timestamp)

text \<open>The string case: the length is compared with the rest of the command before it is skipped.\<close>

lemma parser_var_str: "parser ntb_proto_get_var_str"
proof -
  define e where "e = (\<lambda>(n :: u64) (c :: cursor). if unat (snd c) < unat n then Fail
      else Ok (\<lparr>vs_length = n, vs_data = fst c\<rparr>, (drop (unat n) (fst c), snd c - ucast n)))"
  have "parser (e n)" for n
    by unfold_locales (auto simp: e_def advance_def not_less split: if_splits
        intro!: exI [of _ "unat n"])
  then have "parser (\<lambda>c. bind_outcome (ntb_proto_get_var_int c) (\<lambda>(n, c'). e n c'))"
    by (rule parser_bind [OF parser_var_int])
  then show ?thesis
    by (simp add: ntb_proto_get_var_str_def [abs_def] e_def case_prod_unfold)
qed

lemma parser_skip_var_ints: "parser (skip_var_ints n)"
proof (induction n)
  case 0
  then show ?case using parser_Ok by (simp add: skip_var_ints.simps [abs_def])
next
  case (Suc n)
  then have "parser (\<lambda>c. bind_outcome (ntb_proto_get_var_int c) (\<lambda>(v, c'). skip_var_ints n c'))"
    by (rule parser_bind [OF parser_var_int])
  then show ?case by (simp add: skip_var_ints.simps [abs_def])
qed

lemma parser_var_int_list: "parser ntb_proto_get_var_int_list"
proof -
  define e where "e = (\<lambda>(n :: u64) (c :: cursor). bind_outcome (skip_var_ints (unat n) c)
      (\<lambda>(u, c'). Ok (\<lparr>n_ints = n, vil_values = fst c\<rparr>, c')))"
  have "parser (e n)" for n
    unfolding e_def by (rule parser_result [OF parser_skip_var_ints])
  then have "parser (\<lambda>c. bind_outcome (ntb_proto_get_var_int c) (\<lambda>(n, c'). e n c'))"
    by (rule parser_bind [OF parser_var_int])
  then show ?thesis
    by (simp add: ntb_proto_get_var_int_list_def [abs_def] e_def case_prod_beta)
qed

lemma parser_argument: "parser (get_argument a)"
  by (cases a)
    (auto simp: get_netaddress_def get_n_eq bind_outcome_Fault_iff split: if_splits intro!: parser_fixed parser_map
      parser_var_int parser_timestamp parser_var_str parser_var_int_list)

interpretation argument: parser "get_argument a" for a
  by (rule parser_argument)

lemma parser_arguments: "parser (get_arguments as)"
proof (induction as)
  case Nil
  then show ?case using parser_Ok by (simp add: get_arguments.simps [abs_def])
next
  case (Cons a as)
  then have "parser (\<lambda>c. bind_outcome (get_argument a c) (\<lambda>(v, c').
      bind_outcome (get_arguments as c') (\<lambda>(vs, c''). Ok (v # vs, c''))))"
    by (intro parser_bind [OF parser_argument] parser_result)
  then show ?case by (simp add: get_arguments.simps [abs_def])
qed

interpretation arguments: parser "get_arguments as" for as
  by (rule parser_arguments)

lemma get_command_not_Fault:
  "unat len < length data \<Longrightarrow> ntb_proto_get_command data len args \<noteq> Fault"
  using arguments.no_fault [of "(data, len)" args]
  by (auto simp: ntb_proto_get_command_def bind_outcome_Fault_iff cursor_ok_def)

lemma get_command_consumed:
  assumes "ntb_proto_get_command data len args = Ok (vs, n)" and "unat len < length data"
  shows "n \<le> unat len"
  using assms arguments.consumes [of "(data, len)" args vs]
  by (auto simp: ntb_proto_get_command_def cursor_ok_def)

section \<open>Codecs\<close>

text \<open>
  A codec is a writer and a reader of the same value: reading back what was written yields the value
  and leaves the cursor right behind it. The client lemma is about a run of values, one after the
  other.
\<close>

fun decode_many :: "(cursor \<Rightarrow> ('a \<times> cursor) outcome) \<Rightarrow> nat \<Rightarrow> cursor \<Rightarrow> ('a list \<times> cursor) outcome" where
  "decode_many dec 0 c = Ok ([], c)"
| "decode_many dec (Suc n) c =
     bind_outcome (dec c) (\<lambda>(v, c'). bind_outcome (decode_many dec n c') (\<lambda>(vs, c''). Ok (v # vs, c'')))"

locale codec =
  fixes enc :: "'a \<Rightarrow> u8 list"
    and dec :: "cursor \<Rightarrow> ('a \<times> cursor) outcome"
    and valid :: "'a \<Rightarrow> bool"
  assumes dec_enc: "valid v \<Longrightarrow> length (enc v) \<le> unat len \<Longrightarrow> unat len < 2 ^ 31 \<Longrightarrow>
      dec (enc v @ rest, len) = Ok (v, (rest, len - word_of_nat (length (enc v))))"
begin

lemma decode_many_concat:
  assumes "list_all valid vs" and "length (concat (map enc vs)) \<le> unat len" and "unat len < 2 ^ 31"
  shows "decode_many dec (length vs) (concat (map enc vs) @ rest, len) =
    Ok (vs, (rest, len - word_of_nat (length (concat (map enc vs)))))"
  using assms
proof (induction vs arbitrary: len)
  case Nil
  then show ?case by simp
next
  case (Cons v vs)
  let ?len' = "len - word_of_nat (length (enc v))"
  have len': "unat ?len' = unat len - length (enc v)"
    using Cons.prems(2) by (simp add: unat_minus_of_nat)
  then have "decode_many dec (length vs) (concat (map enc vs) @ rest, ?len') =
      Ok (vs, (rest, ?len' - word_of_nat (length (concat (map enc vs)))))"
    using Cons.prems by (intro Cons.IH) auto
  with Cons.prems dec_enc [of v len "concat (map enc vs) @ rest"] show ?case
    by (simp add: algebra_simps)
qed

end

definition var_int_bytes :: "u64 \<Rightarrow> u8 list" where
  "var_int_bytes v =
     (if v < 0xfd then [ucast v]
      else if v \<le> 0xffff then 0xfd # be_bytes 2 (unat v)
      else if v \<le> 0xffffffff then 0xfe # be_bytes 4 (unat v)
      else 0xff # be_bytes 8 (unat v))"

lemma length_var_int_bytes: "length (var_int_bytes v) \<in> {1, 3, 5, 9}"
  by (simp add: var_int_bytes_def)

lemma get_be_append:
  "length bs = n \<Longrightarrow> get_be n (bs @ rest) = Ok (word_of_nat (be_value bs))"
  by (simp add: get_be_eq)

lemma ucast_of_nat_small:
  "n < 2 ^ LENGTH('a::len) \<Longrightarrow> n < 2 ^ LENGTH('b::len) \<Longrightarrow>
   (ucast (word_of_nat n :: 'a word) :: 'b word) = word_of_nat n"
  by (simp add: word_unat_eq_iff unsigned_ucast_eq unat_of_nat take_bit_nat_eq_self)

lemma get_var_int_bytes:
  assumes "length (var_int_bytes v) \<le> unat len" and "unat len < 2 ^ 31"
  shows "ntb_proto_get_var_int (var_int_bytes v @ rest, len) =
    Ok (v, (rest, len - word_of_nat (length (var_int_bytes v))))"
proof -
  have small: "unat v < 0xfd \<longleftrightarrow> v < 0xfd" "unat v < 2 ^ 16 \<longleftrightarrow> v \<le> 0xffff"
    "unat v < 2 ^ 32 \<longleftrightarrow> v \<le> 0xffffffff"
    by (auto simp: word_less_nat_alt word_le_nat_alt)
  consider "v < 0xfd" | "\<not> v < 0xfd" "v \<le> 0xffff" | "\<not> v \<le> 0xffff" "v \<le> 0xffffffff"
    | "\<not> v \<le> 0xffffffff" by blast
  then show ?thesis
  proof cases
    case 1
    have u: "unat (ucast v :: u8) = unat v"
      using 1 by (simp add: unsigned_ucast_eq take_bit_nat_eq_self flip: small)
    have "(ucast v :: u8) < 0xfd" "ucast (ucast v :: u8) = v"
      using 1 by (simp_all add: word_less_nat_alt u flip: small)
        (simp add: word_unat_eq_iff unsigned_ucast_eq [of "ucast v"] u take_bit_nat_eq_self)
    with 1 assms show ?thesis
      by (simp add: var_int_bytes_def get_var_int_Cons advance_def)
  next
    case 2
    have "ucast (word_of_nat (be_value (be_bytes 2 (unat v))) :: u16) = v"
      using 2 ucast_of_nat_small [of "unat v", where 'a = 16 and 'b = 64]
      by (simp add: be_value_be_bytes flip: small)
    with 2 assms show ?thesis
      by (simp add: var_int_bytes_def get_var_int_Cons advance_def get_be_append)
  next
    case 3
    then have "\<not> v < 0xfd" by (auto simp: word_less_nat_alt word_le_nat_alt)
    moreover have "ucast (word_of_nat (be_value (be_bytes 4 (unat v))) :: u32) = v"
      using 3 ucast_of_nat_small [of "unat v", where 'a = 32 and 'b = 64]
      by (simp add: be_value_be_bytes flip: small)
    ultimately show ?thesis using 3 assms
      by (simp add: var_int_bytes_def get_var_int_Cons advance_def get_be_append)
  next
    case 4
    then have "\<not> v < 0xfd" "\<not> v \<le> 0xffff" by (auto simp: word_less_nat_alt word_le_nat_alt)
    moreover have "(word_of_nat (be_value (be_bytes 8 (unat v))) :: u64) = v"
      by (rule of_nat_be_value_be_bytes) simp
    ultimately show ?thesis using 4 assms
      by (simp add: var_int_bytes_def get_var_int_Cons advance_def get_be_append)
  qed
qed

interpretation var_int_codec: codec var_int_bytes ntb_proto_get_var_int "\<lambda>_. True"
  by unfold_locales (rule get_var_int_bytes)

section \<open>What the writers append\<close>

lemma add_n_ok [simp]:
  "buf_ok b \<Longrightarrow> buf_ok (ntb_proto_add_8 b v8)" "buf_ok b \<Longrightarrow> buf_ok (ntb_proto_add_16 b v16)"
  "buf_ok b \<Longrightarrow> buf_ok (ntb_proto_add_32 b v32)" "buf_ok b \<Longrightarrow> buf_ok (ntb_proto_add_64 b v64)"
  by (simp_all add: ntb_proto_add_8_def ntb_proto_add_16_def ntb_proto_add_32_def ntb_proto_add_64_def)

lemma add_n_contents [ntb_contents]:
  "buf_ok b \<Longrightarrow> contents (ntb_proto_add_8 b v8) = contents b @ [Some v8]"
  "buf_ok b \<Longrightarrow> contents (ntb_proto_add_16 b v16) = contents b @ map Some (be_bytes 2 (unat v16))"
  "buf_ok b \<Longrightarrow> contents (ntb_proto_add_32 b v32) = contents b @ map Some (be_bytes 4 (unat v32))"
  "buf_ok b \<Longrightarrow> contents (ntb_proto_add_64 b v64) = contents b @ map Some (be_bytes 8 (unat v64))"
  by (simp_all add: ntb_proto_add_8_def ntb_proto_add_16_def ntb_proto_add_32_def
      ntb_proto_add_64_def ntb_contents)

lemma unat_ucast_small:
  "unat (v :: u64) < 2 ^ LENGTH('a::len) \<Longrightarrow> unat (ucast v :: 'a word) = unat v"
  by (simp add: unsigned_ucast_eq take_bit_nat_eq_self)

lemma add_var_int_contents [ntb_contents]:
  "buf_ok b \<Longrightarrow> contents (ntb_proto_add_var_int b v) = contents b @ map Some (var_int_bytes v)"
  using unat_ucast_small [of v, where 'a = 16] unat_ucast_small [of v, where 'a = 32]
  by (simp add: ntb_proto_add_var_int_def var_int_bytes_def ntb_contents word_le_nat_alt)

lemma add_var_int_ok [simp]: "buf_ok b \<Longrightarrow> buf_ok (ntb_proto_add_var_int b v)"
  by (simp add: ntb_proto_add_var_int_def)

text \<open>The bytes of one argument.\<close>

fun arg_bytes :: "int \<Rightarrow> add_arg \<Rightarrow> u8 list" where
  "arg_bytes now (A8 v) = [v]"
| "arg_bytes now (A16 v) = be_bytes 2 (unat v)"
| "arg_bytes now (A32 v) = be_bytes 4 (unat v)"
| "arg_bytes now (A64 v) = be_bytes 8 (unat v)"
| "arg_bytes now (ABool v) = [if v then 1 else 0]"
| "arg_bytes now (AVarInt v) = var_int_bytes v"
| "arg_bytes now ATimestamp = be_bytes 8 (unat (word_of_int now :: u64))"
| "arg_bytes now (ANetaddress v) = host v @ be_bytes 2 (unat (port v))"
| "arg_bytes now (AVarStr v) =
     word_of_nat (length v) # take (unat (word_of_nat (length v) :: u8)) v"
| "arg_bytes now AVarIntList = []"

lemma add_argument_eq:
  assumes "buf_ok b" and "a \<noteq> AVarIntList"
  shows "\<exists>b'. add_argument now b a = Ok b' \<and> buf_ok b' \<and>
    contents b' = contents b @ map Some (arg_bytes now a)"
  using assms
  by (cases a) (simp_all add: ntb_contents ntb_proto_add_bool_def ntb_proto_add_timestamp_def
      ntb_proto_add_netaddress_def ntb_proto_add_var_str_def Let_def)

lemma add_arguments_eq:
  assumes "buf_ok b" and "AVarIntList \<notin> set as"
  shows "\<exists>b'. add_arguments now b as = Ok b' \<and> buf_ok b' \<and>
    contents b' = contents b @ map Some (concat (map (arg_bytes now) as))"
  using assms
proof (induction as arbitrary: b)
  case Nil
  then show ?case by simp
next
  case (Cons a as)
  then obtain b1 where b1: "add_argument now b a = Ok b1" "buf_ok b1"
    "contents b1 = contents b @ map Some (arg_bytes now a)"
    using add_argument_eq [of b a now] by auto
  moreover obtain b2 where "add_arguments now b1 as = Ok b2" "buf_ok b2"
    "contents b2 = contents b1 @ map Some (concat (map (arg_bytes now) as))"
    using Cons.IH [OF b1(2)] Cons.prems(2) by auto
  ultimately show ?case by simp
qed

section \<open>Reading back what was written\<close>

fun arg_kind :: "add_arg \<Rightarrow> ntb_proto_argument" where
  "arg_kind (A8 v) = NTB_PROTO_ARGUMENT_8"
| "arg_kind (A16 v) = NTB_PROTO_ARGUMENT_16"
| "arg_kind (A32 v) = NTB_PROTO_ARGUMENT_32"
| "arg_kind (A64 v) = NTB_PROTO_ARGUMENT_64"
| "arg_kind (ABool v) = NTB_PROTO_ARGUMENT_BOOL"
| "arg_kind (AVarInt v) = NTB_PROTO_ARGUMENT_VAR_INT"
| "arg_kind ATimestamp = NTB_PROTO_ARGUMENT_TIMESTAMP"
| "arg_kind (ANetaddress v) = NTB_PROTO_ARGUMENT_NETADDRESS"
| "arg_kind (AVarStr v) = NTB_PROTO_ARGUMENT_VAR_STR"
| "arg_kind AVarIntList = NTB_PROTO_ARGUMENT_VAR_INT_LIST"

text \<open>The value read back; that of a string points to it and what follows it.\<close>

fun arg_result :: "int \<Rightarrow> add_arg \<Rightarrow> u8 list \<Rightarrow> arg_value" where
  "arg_result now (A8 v) rest = V8 v"
| "arg_result now (A16 v) rest = V16 v"
| "arg_result now (A32 v) rest = V32 v"
| "arg_result now (A64 v) rest = V64 v"
| "arg_result now (ABool v) rest = VBool v"
| "arg_result now (AVarInt v) rest = VVarInt v"
| "arg_result now ATimestamp rest = VTimestamp now"
| "arg_result now (ANetaddress v) rest = VNetaddress v"
| "arg_result now (AVarStr v) rest =
     VVarStr \<lparr>vs_length = word_of_nat (length v), vs_data = v @ rest\<rparr>"
| "arg_result now AVarIntList rest = VVarIntList \<lparr>n_ints = 0, vil_values = rest\<rparr>"

text \<open>
  The arguments that survive: a clock below \<open>2^32\<close> seconds, addresses of 16 bytes, and strings whose
  length is a one-byte variable-length integer.
\<close>

fun arg_valid :: "int \<Rightarrow> add_arg \<Rightarrow> bool" where
  "arg_valid now ATimestamp = (0 \<le> now \<and> now < 2 ^ 32)"
| "arg_valid now (ANetaddress v) = netaddress_ok v"
| "arg_valid now (AVarStr v) = (length v < 0xfd)"
| "arg_valid now AVarIntList = False"
| "arg_valid now _ = True"

fun arg_results :: "int \<Rightarrow> add_arg list \<Rightarrow> u8 list \<Rightarrow> arg_value list" where
  "arg_results now [] rest = []"
| "arg_results now (a # as) rest =
     arg_result now a (concat (map (arg_bytes now) as) @ rest) # arg_results now as rest"

lemma get_be_word:
  fixes w :: "'a::len word"
  shows "LENGTH('a) = 8 * n \<Longrightarrow> get_be n (be_bytes n (unat w) @ rest) = Ok w"
  by (simp add: get_be_append of_nat_be_value_be_bytes)

lemma get_fixed_append:
  assumes "rd (bs @ rest) = Ok v" and "n = length bs" and "n \<le> unat len"
  shows "get_fixed n rd f (bs @ rest, len) = Ok (f v, (rest, len - word_of_nat n))"
  using assms by (simp add: get_fixed_def)

lemma get_timestamp_bytes:
  assumes "0 \<le> now" and "now < 2 ^ 32" and "8 \<le> unat len"
  shows "ntb_proto_get_timestamp (be_bytes 8 (unat (word_of_int now :: u64)) @ rest, len) =
    Ok (now, (rest, len - 8))"
proof -
  have n: "unat (word_of_int now :: u64) = nat now"
  proof -
    have "uint (word_of_int now :: u64) = now" using assms by (simp add: uint_word_of_int)
    then show ?thesis by (simp only: unat_eq_nat_uint)
  qed
  have split: "be_bytes 8 (nat now) = replicate 4 0 @ be_bytes 4 (nat now)"
    using be_bytes_leading_zeros [of "nat now" 4 4] assms by simp
  have "get_be 4 (be_bytes 4 (nat now) @ rest) = Ok (word_of_int now :: u32)"
    using assms by (simp add: get_be_append be_value_be_bytes)
  moreover have "get_be 4 (replicate 4 0 @ xs) = Ok (0 :: u32)" for xs
    by (simp add: get_be_eq be_value_def replicate_numeral_Cons)
  moreover have "unat (len - 4) = unat len - 4"
    using assms(3) unat_minus_of_nat [of 4 len] by simp
  moreover have "drop 8 (replicate 4 0 @ be_bytes 4 (nat now) @ rest) = rest" by simp
  ultimately show ?thesis
    using assms by (simp add: n split ntb_proto_get_timestamp_def ntb_proto_get_32_def
        uint_word_of_int)
qed

lemma get_netaddress_bytes:
  "netaddress_ok a \<Longrightarrow> get_netaddress ((host a @ be_bytes 2 (unat (port a))) @ rest) = Ok a"
  by (simp add: get_netaddress_def netaddress_ok_def ntb_proto_get_16_def get_be_word)

lemma var_str_prefix: "n < 0xfd \<Longrightarrow> [word_of_nat n] = var_int_bytes (word_of_nat n)"
  using ucast_of_nat_small [of n, where 'a = 64 and 'b = 8]
  by (simp add: var_int_bytes_def word_less_nat_alt unat_of_nat)

lemma get_var_str_bytes:
  assumes "length v < 0xfd" and "length v + 1 \<le> unat len" and "unat len < 2 ^ 31"
  shows "ntb_proto_get_var_str (word_of_nat (length v) # v @ rest, len) =
    Ok (\<lparr>vs_length = word_of_nat (length v), vs_data = v @ rest\<rparr>,
        (rest, len - word_of_nat (length v + 1)))"
proof -
  let ?n = "word_of_nat (length v) :: u64"
  have u: "unat ?n = length v" using assms(1) by (simp add: unat_of_nat)
  have "ntb_proto_get_var_int (word_of_nat (length v) # v @ rest, len) = Ok (?n, (v @ rest, len - 1))"
    using get_var_int_bytes [of ?n len "v @ rest"] var_str_prefix [OF assms(1), symmetric] assms
    by simp
  moreover have "unat (len - 1) = unat len - 1"
    using assms(2) unat_minus_of_nat [of 1 len] by simp
  moreover have "(ucast ?n :: u32) = word_of_nat (length v)"
    using assms(1) by (intro ucast_of_nat_small) auto
  ultimately show ?thesis
    using assms u by (simp add: ntb_proto_get_var_str_def)
qed

lemma get_argument_bytes:
  assumes "arg_valid now a" and "length (arg_bytes now a) \<le> unat len" and "unat len < 2 ^ 31"
  shows "get_argument (arg_kind a) (arg_bytes now a @ rest, len) =
    Ok (arg_result now a rest, (rest, len - word_of_nat (length (arg_bytes now a))))"
proof (cases a)
  case (A8 v)
  with assms show ?thesis
    using get_fixed_append [of ntb_proto_get_8 "[v]" rest v 1 len V8] by (simp add: get_8_Cons)
next
  case (A16 v)
  with assms show ?thesis by (simp add: get_fixed_append ntb_proto_get_16_def get_be_word)
next
  case (A32 v)
  with assms show ?thesis by (simp add: get_fixed_append ntb_proto_get_32_def get_be_word)
next
  case (A64 v)
  with assms show ?thesis by (simp add: get_fixed_append ntb_proto_get_64_def get_be_word)
next
  case (ABool v)
  with assms show ?thesis
    using get_fixed_append [of ntb_proto_get_8 "[if v then 1 else 0]" rest "if v then 1 else 0" 1 len
        "\<lambda>v. VBool (v \<noteq> 0)"] by (simp add: get_8_Cons)
next
  case (AVarInt v)
  with assms show ?thesis by (simp add: map_fst_def get_var_int_bytes)
next
  case ATimestamp
  with assms show ?thesis by (simp add: map_fst_def get_timestamp_bytes)
next
  case (ANetaddress v)
  with assms show ?thesis
    using get_fixed_append [of get_netaddress "host v @ be_bytes 2 (unat (port v))" rest v 18 len
        VNetaddress] get_netaddress_bytes [of v rest]
    by (simp add: netaddress_ok_def)
next
  case (AVarStr v)
  then have "unat (word_of_nat (length v) :: u8) = length v"
    using assms(1) by simp
  with AVarStr assms show ?thesis by (simp add: map_fst_def get_var_str_bytes)
next
  case AVarIntList
  with assms show ?thesis by simp
qed

lemma get_arguments_bytes:
  assumes "list_all (arg_valid now) as" and "length (concat (map (arg_bytes now) as)) \<le> unat len"
    and "unat len < 2 ^ 31"
  shows "get_arguments (map arg_kind as) (concat (map (arg_bytes now) as) @ rest, len) =
    Ok (arg_results now as rest,
        (rest, len - word_of_nat (length (concat (map (arg_bytes now) as)))))"
  using assms
proof (induction as arbitrary: len)
  case Nil
  then show ?case by simp
next
  case (Cons a as)
  let ?len' = "len - word_of_nat (length (arg_bytes now a))"
  have len': "unat ?len' = unat len - length (arg_bytes now a)"
    using Cons.prems(2) by (simp add: unat_minus_of_nat)
  then have "get_arguments (map arg_kind as) (concat (map (arg_bytes now) as) @ rest, ?len') =
      Ok (arg_results now as rest,
          (rest, ?len' - word_of_nat (length (concat (map (arg_bytes now) as)))))"
    using Cons.prems by (intro Cons.IH) auto
  with Cons.prems get_argument_bytes [of now a len "concat (map (arg_bytes now) as) @ rest"]
  show ?case by (simp add: algebra_simps)
qed

section \<open>Frames\<close>

text \<open>The bytes of a whole command on the wire.\<close>

definition frame :: "(u8 list \<Rightarrow> u8 list) \<Rightarrow> string \<Rightarrow> u8 list \<Rightarrow> u8 list" where
  "frame sha command payload =
     ntb_proto_magic @ str command @ replicate (12 - length command) 0 @
     be_bytes 4 (length payload) @ take 4 (sha payload) @ payload"

lemma length_magic [simp]: "length ntb_proto_magic = 4"
  by (simp add: ntb_proto_magic_def)

lemma write_at_write_at:
  "i + length xs + length ys \<le> length d \<Longrightarrow>
   write_at (i + length xs) ys (write_at i xs d) = write_at i (xs @ ys) d"
  by (simp add: write_at_def ac_simps)

lemma take_write_at_beyond:
  "i + length xs \<le> length d \<Longrightarrow>
   take (i + length xs + n) (write_at i xs d) = take i d @ xs @ take n (drop (i + length xs) d)"
  by (simp add: write_at_def)

lemma begin_command_eq:
  assumes "buf_ok b" and "length command \<le> 12"
  shows "buf_ok (ntb_proto_begin_command b command) \<and>
    (\<exists>fill. length fill = 8 \<and> contents (ntb_proto_begin_command b command) =
       contents b @ map Some (ntb_proto_magic @ str command @ replicate (12 - length command) 0) @ fill)"
proof -
  let ?b = "ntb_buffer_ensure_size b (buf_length b + 24)"
  let ?h = "buf_length b" and ?d = "buf_data ?b"
  let ?xs = "map Some (ntb_proto_magic @ str command @ replicate (12 - length command) 0)"
  have len: "length ?xs = 16" using assms(2) by simp
  have room: "?h + 24 \<le> length ?d" "length ?d = buf_size ?b"
    using ensure_size_ge [of "buf_length b + 24" b] buf_ok_ensure_size [OF assms(1), of "buf_length b + 24"]
    by (simp_all add: buf_ok_def)
  have beg: "ntb_proto_begin_command b command =
      ?b\<lparr>buf_data := write_at ?h ?xs ?d, buf_length := ?h + 24\<rparr>"
  proof -
    have "write_at (?h + 4 + length command) (replicate (12 - length command) (Some 0))
        (write_at (?h + 4) (map Some (str command)) (write_at ?h (map Some ntb_proto_magic) ?d)) =
      write_at ?h ?xs ?d"
      using write_at_write_at [of ?h "map Some ntb_proto_magic" "map Some (str command)" ?d]
        write_at_write_at [of ?h "map Some (ntb_proto_magic @ str command)"
          "replicate (12 - length command) (Some 0)" ?d] room assms(2)
      by (simp add: add.assoc)
    then show ?thesis by (simp add: ntb_proto_begin_command_def Let_def NTB_PROTO_HEADER_SIZE_def)
  qed
  have "take (?h + 24) (write_at ?h ?xs ?d) = contents b @ ?xs @ take 8 (drop (?h + 16) ?d)"
    using take_write_at_beyond [of ?h ?xs ?d 8] room len
      take_data_ensure_size [OF assms(1), of "?h + 24"] by (simp add: add.assoc)
  moreover have "length (take 8 (drop (?h + 16) ?d)) = 8" using room by simp
  ultimately show ?thesis
    using room len by (auto simp: beg buf_ok_def contents_def)
qed

text \<open>
  Finishing a command whose payload is fully written turns the reserved eight bytes into the length
  and the checksum and leaves everything else as it is.
\<close>

lemma end_command_eq:
  assumes "buf_ok b" and "contents b = pre @ hdr @ fill @ map Some payload"
    and "length hdr = 16" and "length fill = 8" and "length payload < 2 ^ 32"
    and "length (sha payload) = 64"
  shows "\<exists>b'. ntb_proto_end_command sha b (length pre) = Ok b' \<and> buf_ok b' \<and>
    contents b' = pre @ hdr @ map Some (be_bytes 4 (length payload) @ take 4 (sha payload) @ payload)"
proof -
  let ?s = "length pre"
  obtain f1 f2 where f: "fill = f1 @ f2" "length f1 = 4" "length f2 = 4"
    using assms(4) that [of "take 4 fill" "drop 4 fill"] by simp
  obtain rest where d: "buf_data b = pre @ hdr @ f1 @ f2 @ map Some payload @ rest"
    using assms(2) f append_take_drop_id [of "buf_length b" "buf_data b"]
    by (metis append_assoc contents_def)
  have len: "buf_length b = ?s + 24 + length payload"
    using assms f length_contents [OF assms(1)] by simp
  have pl: "unat (word_of_nat (buf_length b - (?s + 24)) :: u32) = length payload"
    using len assms(5) by (simp add: unat_of_nat)
  define d1 where "d1 = pre @ hdr @ map Some (be_bytes 4 (length payload)) @ f2 @ map Some payload @ rest"
  have "write_at (?s + 16) (map Some (be_bytes 4 (length payload))) (buf_data b) = d1"
    using d assms(3) f(2) by (simp add: write_at_def d1_def)
  moreover have "take (length payload) (drop (?s + 24) d1) = map Some payload"
    using assms(3) f(3) by (simp add: d1_def)
  moreover have "write_at (?s + 20) (map Some (take 4 (sha payload))) d1 =
      pre @ hdr @ map Some (be_bytes 4 (length payload) @ take 4 (sha payload) @ payload) @ rest"
    using assms(3,6) f(3) by (simp add: write_at_def d1_def)
  ultimately have "ntb_proto_end_command sha b ?s = Ok (b\<lparr>buf_data := pre @ hdr @
      map Some (be_bytes 4 (length payload) @ take 4 (sha payload) @ payload) @ rest\<rparr>)"
    by (simp add: ntb_proto_end_command_def Let_def NTB_PROTO_HEADER_SIZE_def pl those_map_Some)
  moreover have "?s + (24 + (length payload + length rest)) = buf_size b"
    using assms(1,3) f d by (simp add: buf_ok_def)
  ultimately show ?thesis
    using assms f len by (simp add: buf_ok_def contents_def)
qed

lemma add_command_eq:
  assumes "buf_ok b" and "length command \<le> 12" and "AVarIntList \<notin> set as"
    and "payload = concat (map (arg_bytes now) as)" and "length payload < 2 ^ 32"
    and "\<And>x. length (sha x) = 64"
  shows "\<exists>b'. ntb_proto_add_command sha now b command as = Ok b' \<and> buf_ok b' \<and>
    contents b' = contents b @ map Some (frame sha command payload)"
proof -
  let ?hdr = "map Some (ntb_proto_magic @ str command @ replicate (12 - length command) 0)"
  obtain fill where b1: "buf_ok (ntb_proto_begin_command b command)" "length fill = 8"
    "contents (ntb_proto_begin_command b command) = contents b @ ?hdr @ fill"
    using begin_command_eq [OF assms(1,2)] by blast
  obtain b2 where b2: "add_arguments now (ntb_proto_begin_command b command) as = Ok b2" "buf_ok b2"
    "contents b2 = contents (ntb_proto_begin_command b command) @ map Some payload"
    using add_arguments_eq [OF b1(1) assms(3), of now] assms(4) by auto
  obtain b3 where "ntb_proto_end_command sha b2 (length (contents b)) = Ok b3" "buf_ok b3"
    "contents b3 = contents b @ ?hdr @
       map Some (be_bytes 4 (length payload) @ take 4 (sha payload) @ payload)"
    using end_command_eq [OF b2(2), of "contents b" ?hdr fill payload sha] b1 b2 assms by auto
  with b2(1) assms(1) show ?thesis
    by (simp add: ntb_proto_add_command_def frame_def)
qed

text \<open>The public key is appended without its prefix byte.\<close>

lemma add_public_key_eq:
  assumes "buf_ok b" and "length oct = 65"
  shows "\<exists>b'. ntb_proto_add_public_key b oct = Ok b' \<and> buf_ok b' \<and>
    contents b' = contents b @ map Some (tl oct)"
proof -
  let ?b = "ntb_buffer_ensure_size b (buf_length b + 65)"
  let ?h = "buf_length b" and ?d = "buf_data ?b"
  have room: "?h + 65 \<le> length ?d" "length ?d = buf_size ?b"
    using ensure_size_ge [of "buf_length b + 65" b] buf_ok_ensure_size [OF assms(1), of "buf_length b + 65"]
    by (simp_all add: buf_ok_def)
  have "take 64 (drop (?h + 1) (write_at ?h (map Some oct) ?d)) = map Some (tl oct)"
    using assms(2) room by (cases oct) (auto simp: write_at_def)
  moreover have "take (?h + 64) (write_at ?h (map Some (tl oct)) (write_at ?h (map Some oct) ?d)) =
      contents b @ map Some (tl oct)"
    using take_write_at_end [of ?h "map Some (tl oct)" "write_at ?h (map Some oct) ?d"] room assms(2)
      take_data_ensure_size [OF assms(1), of "?h + 65"] by (simp add: take_write_at_before)
  ultimately show ?thesis
    using assms room by (simp add: ntb_proto_add_public_key_def Let_def buf_ok_def contents_def)
qed

text \<open>A padded name is a valid name field.\<close>

lemma check_command_string_name:
  assumes "0 \<notin> set s" "length s < 12"
  shows "ntb_proto_check_command_string (s @ replicate (12 - length s) 0 @ rest)"
  using assms memchr_0_append_replicate [of s "12 - length s"]
  by (auto simp: ntb_proto_check_command_string_def list_all_iff nth_append)

section \<open>Properties\<close>

text \<open>
  every 64-bit value written by \<open>ntb_proto_add_var_int\<close> is appended as fully initialised bytes that
  \<open>ntb_proto_get_var_int\<close> reads back, leaving the cursor right behind them.
\<close>

theorem var_int_roundtrip:
  assumes "buf_ok b"
  shows "\<exists>xs. contents (ntb_proto_add_var_int b v) = contents b @ map Some xs \<and>
    (\<forall>rest len. length xs \<le> unat len \<and> unat len < 2 ^ 31 \<longrightarrow>
       ntb_proto_get_var_int (xs @ rest, len) = Ok (v, (rest, len - word_of_nat (length xs))))"
  using assms add_var_int_contents [of b v] get_var_int_bytes [of v] by blast

theorem var_int_roundtrip_witness:
  "\<exists>xs. contents (ntb_proto_add_var_int ntb_buffer_init 70000) =
     contents ntb_buffer_init @ map Some xs \<and>
    (\<forall>rest len. length xs \<le> unat len \<and> unat len < 2 ^ 31 \<longrightarrow>
       ntb_proto_get_var_int (xs @ rest, len) = Ok (70000, (rest, len - word_of_nat (length xs))))"
  by (rule var_int_roundtrip [OF buf_ok_init])

text \<open>
  C14: \<open>ntb_proto_add_command\<close> followed by \<open>ntb_proto_get_command\<close> is the identity. For a name of at
  most 12 characters and arguments within the limits of \<open>arg_valid\<close> the writer appends a complete
  frame without an indeterminate byte, and the reader, given the same argument kinds, consumes exactly
  the payload and returns the values.
\<close>

theorem command_roundtrip:
  assumes "buf_ok b" and "length command \<le> 12" and "list_all (arg_valid now) as"
    and "length (concat (map (arg_bytes now) as)) < 2 ^ 31" and "\<And>x. length (sha x) = 64"
  shows "\<exists>b' payload. ntb_proto_add_command sha now b command as = Ok b' \<and> buf_ok b' \<and>
    contents b' = contents b @ map Some (frame sha command payload) \<and>
    ntb_proto_get_command (payload @ rest) (word_of_nat (length payload)) (map arg_kind as) =
      Ok (arg_results now as rest, length payload)"
proof -
  define payload where "payload = concat (map (arg_bytes now) as)"
  have "AVarIntList \<notin> set as"
    using assms(3) by (auto simp: list_all_iff)
  moreover have "length payload < 2 ^ 32" using assms(4) by (simp add: payload_def)
  ultimately obtain b' where b': "ntb_proto_add_command sha now b command as = Ok b'" "buf_ok b'"
    "contents b' = contents b @ map Some (frame sha command payload)"
    using add_command_eq [OF assms(1,2) _ payload_def, of sha] assms(5) by blast
  have "unat (word_of_nat (length payload) :: u32) = length payload"
    using assms(4) by (simp add: payload_def unat_of_nat)
  then have "get_arguments (map arg_kind as) (payload @ rest, word_of_nat (length payload)) =
      Ok (arg_results now as rest, (rest, 0))"
    using get_arguments_bytes [OF assms(3), of "word_of_nat (length payload)" rest] assms(4)
    by (simp add: payload_def)
  then have "ntb_proto_get_command (payload @ rest) (word_of_nat (length payload)) (map arg_kind as) =
      Ok (arg_results now as rest, length payload)"
    by (simp add: ntb_proto_get_command_def)
  with b' show ?thesis by blast
qed

theorem command_roundtrip_witness:
  "\<exists>b' payload. ntb_proto_add_command (\<lambda>x. replicate 64 7) 1400000000 ntb_buffer_init ''version''
       [A32 2, A64 1, ATimestamp, AVarStr (str ''/notbit/''), AVarInt 1] = Ok b' \<and> buf_ok b' \<and>
    contents b' = contents ntb_buffer_init @ map Some (frame (\<lambda>x. replicate 64 7) ''version'' payload) \<and>
    ntb_proto_get_command (payload @ [0]) (word_of_nat (length payload))
       (map arg_kind [A32 2, A64 1, ATimestamp, AVarStr (str ''/notbit/''), AVarInt 1]) =
      Ok (arg_results 1400000000 [A32 2, A64 1, ATimestamp, AVarStr (str ''/notbit/''), AVarInt 1] [0],
          length payload)"
  by (rule command_roundtrip) (simp_all add: var_int_bytes_def)

text \<open>
  reading a command of any argument kinds never leaves the memory object when at least one byte
  is readable beyond the command, and never consumes more than the command.
\<close>

theorem get_command_memory_safe:
  assumes "unat len < length data"
  shows "ntb_proto_get_command data len args \<noteq> Fault \<and>
    (\<forall>vs n. ntb_proto_get_command data len args = Ok (vs, n) \<longrightarrow> n \<le> unat len)"
  using assms get_command_not_Fault get_command_consumed by blast

theorem get_command_memory_safe_witness:
  "ntb_proto_get_command [5, 9] 1 [NTB_PROTO_ARGUMENT_VAR_INT, NTB_PROTO_ARGUMENT_VAR_INT] \<noteq> Fault"
  using get_command_memory_safe [of 1 "[5, 9]"] by simp

text \<open>
  without that extra byte the reader does leave the object: a variable-length integer is expected
  where the command and the object end, and its first byte is read before the length is checked.
\<close>

theorem get_command_overread:
  "ntb_proto_get_command [5] 1 [NTB_PROTO_ARGUMENT_VAR_INT, NTB_PROTO_ARGUMENT_VAR_INT] = Fault"
  by (simp add: ntb_proto_get_command_def map_fst_def get_var_int_Cons advance_def
      ntb_proto_get_var_int_def get_n_eq be_value_def)

text \<open>
  Only the low byte of a string's length goes on the wire, and only that many of its bytes: a string
  of 256 bytes is sent as the empty string. The lengths 253 to 255 are sent as the markers of the
  longer forms of a variable-length integer.
\<close>

lemma add_var_str_truncates:
  assumes "buf_ok b"
  shows "contents (ntb_proto_add_var_str b s) =
    contents b @ map Some (word_of_nat (length s) # take (length s mod 256) s)"
  using assms by (simp add: ntb_proto_add_var_str_def ntb_contents Let_def)

end
