(* ===== verification/Ntb_Proto_Objects.thy ===== *)
theory Ntb_Proto_Objects
  imports Ntb_Proto
begin

text \<open>
  The two structured payloads of \<open>src/src/ntb-proto.c\<close>: the decrypted message
  (\<open>ntb_proto_get_decrypted_msg\<close>) and the public key object (\<open>ntb_proto_get_pubkey\<close>) in its versions
  2, 3 and 4. A pointer field is the bytes from the pointer to the end of the memory object.
\<close>

record ntb_proto_decrypted_msg =
  sender_signing_key :: "u8 list"
  sender_encryption_key :: "u8 list"
  message_version :: u64
  sender_address_version :: u64
  sender_stream_number :: u64
  sender_behaviors :: u32
  dm_nonce_trials_per_byte :: u64
  dm_extra_bytes :: u64
  destination_ripe :: "u8 list"
  encoding :: u64
  dm_message :: "u8 list"
  dm_ack :: "u8 list"
  dm_sig :: "u8 list"
  message_length :: u64
  ack_length :: u64
  sig_length :: u64
  dm_signed_data_length :: nat

definition NTB_PROTO_MIN_NONCE_TRIALS_PER_BYTE :: u64 where
  "NTB_PROTO_MIN_NONCE_TRIALS_PER_BYTE = 320"

definition NTB_PROTO_MIN_EXTRA_BYTES :: u64 where
  "NTB_PROTO_MIN_EXTRA_BYTES = 14000"

section \<open>Building blocks\<close>

text \<open>
  \<open>take_ptr n c\<close>: check that \<open>n\<close> bytes are left, take a pointer to them, step over them.
  \<open>two_var_ints\<close> and \<open>msg_header\<close> are the calls of \<open>ntb_proto_get_command\<close> with the advance of the
  data pointer by the number of bytes it returns.
\<close>

definition take_ptr :: "u64 \<Rightarrow> cursor \<Rightarrow> (u8 list \<times> cursor) outcome" where
  "take_ptr n c =
     (case c of (p, len) \<Rightarrow>
      if unat len < unat n then Fail else Ok (p, (drop (unat n) p, len - ucast n)))"

definition step_command ::
  "ntb_proto_argument list \<Rightarrow> cursor \<Rightarrow> (arg_value list \<times> cursor) outcome" where
  "step_command args c =
     (case c of (p, len) \<Rightarrow>
      bind_outcome (ntb_proto_get_command p len args) (\<lambda>(vs, n).
        Ok (vs, (drop n p, len - word_of_nat n))))"

text \<open>The outputs of a call by their names; \<open>None\<close> never happens for the kinds that were asked for.\<close>

definition read_args ::
  "ntb_proto_argument list \<Rightarrow> (arg_value list \<Rightarrow> 'a option) \<Rightarrow> cursor \<Rightarrow> ('a \<times> cursor) outcome" where
  "read_args args g c =
     bind_outcome (step_command args c)
       (\<lambda>(vs, c'). case g vs of None \<Rightarrow> Fault | Some a \<Rightarrow> Ok (a, c'))"

fun as_var_ints :: "arg_value list \<Rightarrow> (u64 \<times> u64) option" where
  "as_var_ints [VVarInt a, VVarInt b] = Some (a, b)"
| "as_var_ints _ = None"

fun as_msg_header :: "arg_value list \<Rightarrow> (u64 \<times> u64 \<times> u64 \<times> u32) option" where
  "as_msg_header [VVarInt mv, VVarInt av, VVarInt sn, V32 bh] = Some (mv, av, sn, bh)"
| "as_msg_header _ = None"

fun as_pubkey_header :: "arg_value list \<Rightarrow> (u64 \<times> int \<times> u64 \<times> u64) option" where
  "as_pubkey_header [V64 n, VTimestamp t, VVarInt v, VVarInt s] = Some (n, t, v, s)"
| "as_pubkey_header _ = None"

definition two_var_ints :: "cursor \<Rightarrow> ((u64 \<times> u64) \<times> cursor) outcome" where
  "two_var_ints = read_args [NTB_PROTO_ARGUMENT_VAR_INT, NTB_PROTO_ARGUMENT_VAR_INT] as_var_ints"

definition msg_header :: "cursor \<Rightarrow> ((u64 \<times> u64 \<times> u64 \<times> u32) \<times> cursor) outcome" where
  "msg_header = read_args [NTB_PROTO_ARGUMENT_VAR_INT, NTB_PROTO_ARGUMENT_VAR_INT,
     NTB_PROTO_ARGUMENT_VAR_INT, NTB_PROTO_ARGUMENT_32] as_msg_header"

definition pubkey_header_args :: "cursor \<Rightarrow> ((u64 \<times> int \<times> u64 \<times> u64) \<times> cursor) outcome" where
  "pubkey_header_args = read_args [NTB_PROTO_ARGUMENT_64, NTB_PROTO_ARGUMENT_TIMESTAMP,
     NTB_PROTO_ARGUMENT_VAR_INT, NTB_PROTO_ARGUMENT_VAR_INT] as_pubkey_header"

definition msg_pow_params :: "u64 \<Rightarrow> cursor \<Rightarrow> ((u64 \<times> u64) \<times> cursor) outcome" where
  "msg_pow_params address_version c =
     (if address_version \<ge> 3 then two_var_ints c
      else Ok ((NTB_PROTO_MIN_NONCE_TRIALS_PER_BYTE, NTB_PROTO_MIN_EXTRA_BYTES), c))"

section \<open>The decrypted message\<close>

definition ntb_proto_get_decrypted_msg :: "u8 list \<Rightarrow> u32 \<Rightarrow> ntb_proto_decrypted_msg outcome" where
  "ntb_proto_get_decrypted_msg data data_length =
     bind_outcome (msg_header (data, data_length)) (\<lambda>((mv, av, sn, bh), c1).
     bind_outcome (take_ptr 128 c1) (\<lambda>(keys, c2).
     bind_outcome (msg_pow_params av c2) (\<lambda>((ntpb, eb), c3).
     bind_outcome (take_ptr 20 c3) (\<lambda>(ripe, c4).
     bind_outcome (two_var_ints c4) (\<lambda>((enc, mlen), c5).
     bind_outcome (take_ptr mlen c5) (\<lambda>(msg, c6).
     bind_outcome (ntb_proto_get_var_int c6) (\<lambda>(alen, c7).
     bind_outcome (take_ptr alen c7) (\<lambda>(ack, c8).
     bind_outcome (ntb_proto_get_var_int c8) (\<lambda>(slen, c9).
       if unat (snd c9) \<noteq> unat slen then Fail
       else Ok \<lparr>sender_signing_key = keys, sender_encryption_key = drop 64 keys,
                message_version = mv, sender_address_version = av, sender_stream_number = sn,
                sender_behaviors = bh, dm_nonce_trials_per_byte = ntpb, dm_extra_bytes = eb,
                destination_ripe = ripe, encoding = enc, dm_message = msg, dm_ack = ack,
                dm_sig = fst c9, message_length = mlen, ack_length = alen, sig_length = slen,
                dm_signed_data_length = length data - length (fst c8)\<rparr>)))))))))"

section \<open>The public key object\<close>

record ntb_proto_pubkey =
  nonce :: u64
  timestamp :: int
  stream :: u64
  version :: u64
  behaviours :: u32
  public_signing_key :: "u8 list"
  public_encryption_key :: "u8 list"
  nonce_trials_per_byte :: u64
  extra_bytes :: u64
  signature_length :: u64
  signature :: "u8 list"
  signed_data_length :: nat
  signed_data :: "u8 list"
  tag :: "u8 list"
  encrypted_data_length :: nat
  encrypted_data :: "u8 list"

text \<open>After \<open>memset\<close> and the header; a null pointer is the empty list.\<close>

definition pubkey_header :: "u64 \<Rightarrow> int \<Rightarrow> u64 \<Rightarrow> u64 \<Rightarrow> ntb_proto_pubkey" where
  "pubkey_header n t v s =
     \<lparr>nonce = n, timestamp = t, stream = s, version = v, behaviours = 0, public_signing_key = [],
      public_encryption_key = [], nonce_trials_per_byte = 0, extra_bytes = 0, signature_length = 0,
      signature = [], signed_data_length = 0, signed_data = [], tag = [],
      encrypted_data_length = 0, encrypted_data = []\<rparr>"

definition process_v2_pubkey_parts :: "cursor \<Rightarrow> ntb_proto_pubkey \<Rightarrow> ntb_proto_pubkey outcome" where
  "process_v2_pubkey_parts c pk =
     (case c of (p, len) \<Rightarrow>
      if unat len < 64 * 2 + 4 then Fail
      else bind_outcome (ntb_proto_get_32 p) (\<lambda>bh.
        Ok (pk\<lparr>behaviours := bh, public_signing_key := drop 4 p,
               public_encryption_key := drop (4 + 64) p,
               nonce_trials_per_byte := NTB_PROTO_MIN_NONCE_TRIALS_PER_BYTE,
               extra_bytes := NTB_PROTO_MIN_EXTRA_BYTES\<rparr>)))"

definition process_v3_pubkey_parts :: "cursor \<Rightarrow> ntb_proto_pubkey \<Rightarrow> ntb_proto_pubkey outcome" where
  "process_v3_pubkey_parts c pk =
     (case c of (p, len) \<Rightarrow>
      if unat len < 4 + 64 * 2 then Fail
      else bind_outcome (ntb_proto_get_32 p) (\<lambda>bh.
        bind_outcome (two_var_ints (drop 132 p, len - 132)) (\<lambda>((ntpb, eb), c1).
        bind_outcome (ntb_proto_get_var_int c1) (\<lambda>(slen, c2).
          if unat (snd c2) \<noteq> unat slen then Fail
          else Ok (pk\<lparr>behaviours := bh, public_signing_key := drop 4 p,
                      public_encryption_key := drop (4 + 64) p,
                      nonce_trials_per_byte := ntpb, extra_bytes := eb,
                      signed_data_length := length (signed_data pk) - length (fst c1),
                      signature_length := slen, signature := fst c2\<rparr>)))))"

definition process_v4_pubkey_parts :: "cursor \<Rightarrow> ntb_proto_pubkey \<Rightarrow> ntb_proto_pubkey outcome" where
  "process_v4_pubkey_parts c pk =
     (case c of (p, len) \<Rightarrow>
      if unat len < 32 then Fail
      else Ok (pk\<lparr>tag := p, encrypted_data := drop 32 p,
                  encrypted_data_length := unat len - 32\<rparr>))"

definition ntb_proto_get_pubkey :: "bool \<Rightarrow> u8 list \<Rightarrow> u32 \<Rightarrow> ntb_proto_pubkey outcome" where
  "ntb_proto_get_pubkey decrypted data_start message_len =
     bind_outcome (pubkey_header_args (data_start, message_len)) (\<lambda>((n, t, v, s), c).
       let pk = pubkey_header n t v s in
       if v = 2 then process_v2_pubkey_parts c pk
       else if v = 4 \<and> \<not> decrypted then process_v4_pubkey_parts c pk
       else if v = 4 \<or> v = 3
       then process_v3_pubkey_parts c (pk\<lparr>signed_data := drop 8 data_start\<rparr>)
       else Fail)"

section \<open>The building blocks are well-behaved readers\<close>

lemma parser_take_ptr: "parser (take_ptr n)"
  by unfold_locales (auto simp: take_ptr_def advance_def not_less split: prod.splits if_splits
      intro!: exI [of _ "unat n"])

lemma step_command_eq:
  assumes "cursor_ok c"
  shows "step_command args c = get_arguments args c"
proof (cases "get_arguments args c")
  case (Ok r)
  obtain vs c' where r: "r = (vs, c')" by (cases r)
  from arguments.advances [OF assms Ok [unfolded r]] obtain n where
    n: "n \<le> unat (snd c)" "c' = advance n c" by blast
  with assms have "length (fst c) - length (fst c') = n"
    by (simp add: advance_def cursor_ok_def)
  with n Ok r show ?thesis
    by (auto simp: step_command_def ntb_proto_get_command_def advance_def split: prod.splits)
qed (auto simp: step_command_def ntb_proto_get_command_def split: prod.splits)

lemma parser_step_command: "parser (step_command args)"
  using arguments.no_fault arguments.advances
  by unfold_locales (auto simp: step_command_eq)

lemma var_int_argument_Ok:
  "get_argument NTB_PROTO_ARGUMENT_VAR_INT c = Ok (v, c') \<longleftrightarrow>
   (\<exists>n. v = VVarInt n \<and> ntb_proto_get_var_int c = Ok (n, c'))"
  by (cases c') (auto simp: map_fst_def)

lemma fixed_argument_Ok:
  "get_argument NTB_PROTO_ARGUMENT_32 c = Ok (v, c') \<Longrightarrow> \<exists>n. v = V32 n"
  "get_argument NTB_PROTO_ARGUMENT_64 c = Ok (v, c') \<Longrightarrow> \<exists>n. v = V64 n"
  "get_argument NTB_PROTO_ARGUMENT_TIMESTAMP c = Ok (v, c') \<Longrightarrow> \<exists>n. v = VTimestamp n"
  by (auto simp: get_fixed_def map_fst_def split: prod.splits if_splits)

lemma parser_read_args:
  assumes "\<And>c vs c'. get_arguments args c = Ok (vs, c') \<Longrightarrow> g vs \<noteq> None"
  shows "parser (read_args args g)"
proof
  fix c assume ok: "cursor_ok c"
  have eq: "read_args args g c =
      bind_outcome (get_arguments args c) (\<lambda>(vs, c'). Ok (the (g vs), c'))"
    using assms [of c]
    by (fastforce simp: read_args_def step_command_eq [OF ok] intro!: bind_outcome_cong)
  show "read_args args g c \<noteq> Fault"
    using arguments.no_fault [OF ok] by (auto simp: eq bind_outcome_Fault_iff)
  show "\<exists>n \<le> unat (snd c). c' = advance n c" if "read_args args g c = Ok (v, c')" for v c'
    using that arguments.advances [OF ok] by (auto simp: eq)
qed

lemmas argument_Ok = var_int_argument_Ok fixed_argument_Ok

lemma parser_headers: "parser two_var_ints" "parser msg_header" "parser pubkey_header_args"
  unfolding two_var_ints_def msg_header_def pubkey_header_args_def
  by (rule parser_read_args,
      auto simp: var_int_argument_Ok simp del: get_argument.simps dest!: fixed_argument_Ok)+

lemma parser_pow_params: "parser (msg_pow_params av)"
  using parser_headers(1) parser_Ok by (cases "av \<ge> 3") (auto simp: msg_pow_params_def [abs_def])

text \<open>Every reader a message is taken apart with.\<close>

lemmas msg_parsers = parser_headers parser_pow_params parser_take_ptr parser_var_int

lemma bind_parser_no_fault:
  assumes "parser d" and "cursor_ok c" and "\<And>v c'. cursor_ok c' \<Longrightarrow> f (v, c') \<noteq> Fault"
  shows "bind_outcome (d c) f \<noteq> Fault"
  using parser.no_fault [OF assms(1,2)] parser.keeps_ok [OF assms(1,2)] assms(3)
  by (auto simp: bind_outcome_Fault_iff)

lemma parser_from_start:
  assumes "parser d" and "cursor_ok c0" and "c = advance k c0" and "k \<le> unat (snd c0)"
    and "d c = Ok (v, c')"
  shows "\<exists>k'. k \<le> k' \<and> k' \<le> unat (snd c0) \<and> c' = advance k' c0"
proof -
  have "cursor_ok c" using assms cursor_ok_advance by blast
  from parser.advances [OF assms(1) this assms(5)] obtain n where
    "n \<le> unat (snd c)" "c' = advance n c" by blast
  with assms(3,4) show ?thesis
    by (intro exI [of _ "k + n"]) (auto simp: advance_advance advance_def unat_minus_of_nat add.commute)
qed

lemma var_int_from_start:
  assumes "ntb_proto_get_var_int c = Ok (v, c')" and "c = advance k c0" and "k \<le> unat (snd c0)"
  shows "\<exists>k'. k < k' \<and> k' \<le> unat (snd c0) \<and> c' = advance k' c0"
proof -
  from var_int_progress [OF assms(1)] obtain n where
    "0 < n" "n \<le> unat (snd c)" "c' = advance n c" by blast
  with assms(2,3) show ?thesis
    by (intro exI [of _ "k + n"]) (auto simp: advance_advance advance_def unat_minus_of_nat add.commute)
qed

lemma take_ptr_Ok:
  assumes "take_ptr n c = Ok (p, c')" and "c = advance k c0" and "k \<le> unat (snd c0)"
  shows "p = drop k (fst c0) \<and> k + unat n \<le> unat (snd c0) \<and> c' = advance (k + unat n) c0"
  using assms
  by (auto simp: take_ptr_def advance_def unat_minus_of_nat not_less add.commute split: if_splits)

section \<open>Properties\<close>

text \<open>
  C33: taking apart a decrypted message or a public key object never reads outside the memory object
  when one byte is readable beyond the data.
\<close>

theorem objects_memory_safe:
  assumes "unat len < length data"
  shows "ntb_proto_get_decrypted_msg data len \<noteq> Fault \<and> ntb_proto_get_pubkey decrypted data len \<noteq> Fault"
proof
  have ok: "cursor_ok (data, len)" using assms by (simp add: cursor_ok_def)
  show "ntb_proto_get_decrypted_msg data len \<noteq> Fault"
    unfolding ntb_proto_get_decrypted_msg_def
    by ((intro allI impI)?, rule bind_parser_no_fault, rule msg_parsers, (rule ok | assumption),
        simp split: prod.splits)+
  have v2: "process_v2_pubkey_parts c pk \<noteq> Fault" and v4: "process_v4_pubkey_parts c pk \<noteq> Fault"
    if "cursor_ok c" for c pk
    using that by (auto simp: process_v2_pubkey_parts_def process_v4_pubkey_parts_def get_n_eq
        cursor_ok_def split: prod.splits)
  have v3: "process_v3_pubkey_parts c pk \<noteq> Fault" if c: "cursor_ok c" for c pk
  proof (cases "unat (snd c) < 132")
    case False
    then have "cursor_ok (drop 132 (fst c), snd c - 132)"
      using cursor_ok_advance [OF c, of 132] by (simp add: advance_def)
    moreover have "4 \<le> length (fst c)" using c False by (simp add: cursor_ok_def)
    ultimately show ?thesis
      using False
      by (cases c) (simp add: process_v3_pubkey_parts_def get_n_eq,
          ((intro allI impI)?, rule bind_parser_no_fault, rule msg_parsers, assumption,
           simp split: prod.splits)+)
  qed (auto simp: process_v3_pubkey_parts_def split: prod.splits)
  show "ntb_proto_get_pubkey decrypted data len \<noteq> Fault"
    unfolding ntb_proto_get_pubkey_def
    by (rule bind_parser_no_fault [OF parser_headers(3) ok]) (auto simp: Let_def v2 v3 v4 split: prod.splits)
qed

theorem objects_memory_safe_witness:
  "ntb_proto_get_decrypted_msg [1, 4, 1, 0] 3 \<noteq> Fault \<and> ntb_proto_get_pubkey True [1, 4, 1, 0] 3 \<noteq> Fault"
  by (rule objects_memory_safe) simp

text \<open>\<open>n\<close> bytes at pointer \<open>p\<close> lie inside the first \<open>len\<close> bytes of \<open>data\<close>.\<close>

definition within :: "u8 list \<Rightarrow> nat \<Rightarrow> u8 list \<Rightarrow> nat \<Rightarrow> bool" where
  "within data len p n \<longleftrightarrow> (\<exists>off. p = drop off data \<and> off + n \<le> len)"

text \<open>
  in an accepted message the two public keys, the destination, the message text, the
  acknowledgement and the signature all lie inside the data, the signed part ends before the
  signature and the signature extends exactly to the end.
\<close>

theorem decrypted_msg_fields_in_bounds:
  assumes "ntb_proto_get_decrypted_msg data len = Ok m" and "unat len < length data"
  shows "within data (unat len) (sender_signing_key m) 64 \<and>
    within data (unat len) (sender_encryption_key m) 64 \<and>
    within data (unat len) (destination_ripe m) 20 \<and>
    within data (unat len) (dm_message m) (unat (message_length m)) \<and>
    within data (unat len) (dm_ack m) (unat (ack_length m)) \<and>
    dm_signed_data_length m + unat (sig_length m) < unat len \<and>
    dm_sig m = drop (unat len - unat (sig_length m)) data"
proof -
  let ?c = "(data, len)"
  have ok: "cursor_ok ?c" using assms(2) by (simp add: cursor_ok_def)
  from assms(1) obtain mv av sn bh ntpb eb enc mlen alen slen keys ripe msg ack c1 c2 c3 c4 c5 c6 c7 c8 c9
    where p1: "msg_header ?c = Ok ((mv, av, sn, bh), c1)" and p2: "take_ptr 128 c1 = Ok (keys, c2)"
      and p3: "msg_pow_params av c2 = Ok ((ntpb, eb), c3)" and p4: "take_ptr 20 c3 = Ok (ripe, c4)"
      and p5: "two_var_ints c4 = Ok ((enc, mlen), c5)" and p6: "take_ptr mlen c5 = Ok (msg, c6)"
      and p7: "ntb_proto_get_var_int c6 = Ok (alen, c7)" and p8: "take_ptr alen c7 = Ok (ack, c8)"
      and p9: "ntb_proto_get_var_int c8 = Ok (slen, c9)" and sl: "unat (snd c9) = unat slen"
      and m: "sender_signing_key m = keys" "sender_encryption_key m = drop 64 keys"
        "destination_ripe m = ripe" "dm_message m = msg" "message_length m = mlen" "dm_ack m = ack"
        "ack_length m = alen" "sig_length m = slen" "dm_sig m = fst c9"
        "dm_signed_data_length m = length data - length (fst c8)"
    unfolding ntb_proto_get_decrypted_msg_def by (auto split: prod.splits if_splits)
  note from_start = parser_from_start [OF _ ok]
  from from_start [OF parser_headers(2) _ _ p1, of 0] obtain k1 where k1: "k1 \<le> unat len" "c1 = advance k1 ?c"
    by auto
  note t2 = take_ptr_Ok [OF p2 k1(2)]
  from from_start [OF parser_pow_params _ _ p3] t2 k1 obtain k3 where
    k3: "k1 + 128 \<le> k3" "k3 \<le> unat len" "c3 = advance k3 ?c" by fastforce
  note t4 = take_ptr_Ok [OF p4 k3(3)]
  from from_start [OF parser_headers(1) _ _ p5] t4 k3 obtain k5 where
    k5: "k3 + 20 \<le> k5" "k5 \<le> unat len" "c5 = advance k5 ?c" by fastforce
  note t6 = take_ptr_Ok [OF p6 k5(3)]
  from from_start [OF parser_var_int _ _ p7] t6 k5 obtain k7 where
    k7: "k5 + unat mlen \<le> k7" "k7 \<le> unat len" "c7 = advance k7 ?c" by fastforce
  note t8 = take_ptr_Ok [OF p8 k7(3)]
  from var_int_from_start [OF p9] t8 k7 obtain k9 where
    k9: "k7 + unat alen < k9" "k9 \<le> unat len" "c9 = advance k9 ?c" by fastforce
  have sig: "unat slen = unat len - k9"
    using sl k9 by (simp add: advance_def unat_minus_of_nat)
  have w: "within data (unat len) (drop k data) n" if "k + n \<le> unat len" for k n
    using that by (auto simp: within_def)
  show ?thesis
    using m k1 t2 k3 t4 k5 t6 k7 t8 k9 sig assms(2)
    by (auto simp: advance_def intro!: w)
qed

text \<open>An accepted message: version 1, a version-2 sender, text \<open>hi\<close>, no acknowledgement, signature \<open>s\<close>.\<close>

definition example_msg :: "u8 list" where
  "example_msg = [1, 2, 1, 0, 0, 0, 1] @ replicate 128 7 @ replicate 20 9 @ [2, 2, 104, 105, 0, 1, 115]"

theorem decrypted_msg_fields_in_bounds_witness:
  "\<exists>m. ntb_proto_get_decrypted_msg (example_msg @ [0]) 162 = Ok m \<and>
     within (example_msg @ [0]) 162 (dm_message m) (unat (message_length m)) \<and>
     dm_sig m = drop (162 - unat (sig_length m)) (example_msg @ [0])"
proof -
  obtain m where m: "ntb_proto_get_decrypted_msg (example_msg @ [0]) 162 = Ok m"
  proof -
    have "case ntb_proto_get_decrypted_msg (example_msg @ [0]) 162 of Ok m \<Rightarrow> True | _ \<Rightarrow> False"
      by code_simp
    with that show ?thesis by (auto split: outcome.splits)
  qed
  have "unat (162 :: u32) < length (example_msg @ [0])"
    by (simp add: example_msg_def)
  from decrypted_msg_fields_in_bounds [OF m this] m show ?thesis by auto
qed

end
