(* ===== verification/Ntb_List.thy ===== *)
theory Ntb_List
  imports Ntb_Prelude
begin

text \<open>
  The intrusive doubly linked list of \<open>ntb-list.c\<close> on an explicit heap. A \<open>struct ntb_list\<close> is a node
  with a \<open>prev\<close> and a \<open>next\<close> pointer; a list is a ring of nodes through a head node, and the head
  holds no element. The operations write the fields of nodes one after the other in the order of the
  code, and a dereference of an address that holds no node is a \<open>Fault\<close>. The predicate \<open>ring\<close> says
  which sequence of elements a head stands for; every operation is proved to refine the operation on
  sequences, to fault on no well-formed ring, and to leave every node outside the ring alone.
\<close>

section \<open>Nodes and the heap\<close>

type_synonym ptr = nat

record ntb_list =
  prev_ptr :: ptr
  next_ptr :: ptr

type_synonym list_heap = "ptr \<Rightarrow> ntb_list option"

definition NULL :: ptr where
  "NULL = 0"

definition get_prev :: "list_heap \<Rightarrow> ptr \<Rightarrow> ptr outcome" where
  "get_prev h p = (case h p of None \<Rightarrow> Fault | Some n \<Rightarrow> Ok (prev_ptr n))"

definition get_next :: "list_heap \<Rightarrow> ptr \<Rightarrow> ptr outcome" where
  "get_next h p = (case h p of None \<Rightarrow> Fault | Some n \<Rightarrow> Ok (next_ptr n))"

definition set_prev :: "list_heap \<Rightarrow> ptr \<Rightarrow> ptr \<Rightarrow> list_heap outcome" where
  "set_prev h p v = (case h p of None \<Rightarrow> Fault | Some n \<Rightarrow> Ok (h(p \<mapsto> n\<lparr>prev_ptr := v\<rparr>)))"

definition set_next :: "list_heap \<Rightarrow> ptr \<Rightarrow> ptr \<Rightarrow> list_heap outcome" where
  "set_next h p v = (case h p of None \<Rightarrow> Fault | Some n \<Rightarrow> Ok (h(p \<mapsto> n\<lparr>next_ptr := v\<rparr>)))"

section \<open>The operations\<close>

definition ntb_list_init :: "list_heap \<Rightarrow> ptr \<Rightarrow> list_heap outcome" where
  "ntb_list_init h l =
     bind_outcome (set_prev h l l) (\<lambda>h.
     set_next h l l)"

definition ntb_list_insert :: "list_heap \<Rightarrow> ptr \<Rightarrow> ptr \<Rightarrow> list_heap outcome" where
  "ntb_list_insert h l elm =
     bind_outcome (set_prev h elm l) (\<lambda>h.
     bind_outcome (get_next h l) (\<lambda>n.
     bind_outcome (set_next h elm n) (\<lambda>h.
     bind_outcome (set_next h l elm) (\<lambda>h.
     bind_outcome (get_next h elm) (\<lambda>n.
     set_prev h n elm)))))"

definition ntb_list_remove :: "list_heap \<Rightarrow> ptr \<Rightarrow> list_heap outcome" where
  "ntb_list_remove h elm =
     bind_outcome (get_prev h elm) (\<lambda>p.
     bind_outcome (get_next h elm) (\<lambda>n.
     bind_outcome (set_next h p n) (\<lambda>h.
     bind_outcome (get_next h elm) (\<lambda>n.
     bind_outcome (get_prev h elm) (\<lambda>p.
     bind_outcome (set_prev h n p) (\<lambda>h.
     bind_outcome (set_next h elm NULL) (\<lambda>h.
     set_prev h elm NULL)))))))"

text \<open>
  The loop of \<open>ntb_list_length\<close> runs until it is back at the head; on a heap that is no ring it may run
  forever, which is the value \<open>None\<close>. The counter is a C \<open>int\<close>, whose overflow is undefined.
\<close>

partial_function (option) length_loop :: "list_heap \<Rightarrow> ptr \<Rightarrow> ptr \<Rightarrow> int \<Rightarrow> int outcome option" where
  "length_loop h l e count =
     (if e = l then Some (Ok count)
      else case get_next h e of
        Ok e' \<Rightarrow> if count + 1 < 2 ^ 31 then length_loop h l e' (count + 1) else Some Fault
      | _ \<Rightarrow> Some Fault)"

definition ntb_list_length :: "list_heap \<Rightarrow> ptr \<Rightarrow> int outcome option" where
  "ntb_list_length h l =
     (case get_next h l of Ok e \<Rightarrow> length_loop h l e 0 | _ \<Rightarrow> Some Fault)"

definition ntb_list_empty :: "list_heap \<Rightarrow> ptr \<Rightarrow> bool outcome" where
  "ntb_list_empty h l = bind_outcome (get_next h l) (\<lambda>n. Ok (n = l))"

definition ntb_list_insert_list :: "list_heap \<Rightarrow> ptr \<Rightarrow> ptr \<Rightarrow> list_heap outcome" where
  "ntb_list_insert_list h l other =
     bind_outcome (ntb_list_empty h other) (\<lambda>empty.
     if empty then Ok h
     else
       bind_outcome (get_next h other) (\<lambda>n.
       bind_outcome (set_prev h n l) (\<lambda>h.
       bind_outcome (get_prev h other) (\<lambda>p.
       bind_outcome (get_next h l) (\<lambda>n.
       bind_outcome (set_next h p n) (\<lambda>h.
       bind_outcome (get_next h l) (\<lambda>n.
       bind_outcome (get_prev h other) (\<lambda>p.
       bind_outcome (set_prev h n p) (\<lambda>h.
       bind_outcome (get_next h other) (\<lambda>n.
       set_next h l n))))))))))"

section \<open>Rings\<close>

definition nxt :: "list_heap \<Rightarrow> ptr \<Rightarrow> ptr option" where
  "nxt h p = map_option next_ptr (h p)"

definition prv :: "list_heap \<Rightarrow> ptr \<Rightarrow> ptr option" where
  "prv h p = map_option prev_ptr (h p)"

fun chain :: "list_heap \<Rightarrow> ptr list \<Rightarrow> bool" where
  "chain h (a # b # r) \<longleftrightarrow> nxt h a = Some b \<and> prv h b = Some a \<and> chain h (b # r)"
| "chain h _ \<longleftrightarrow> True"

definition ring :: "list_heap \<Rightarrow> ptr \<Rightarrow> ptr list \<Rightarrow> bool" where
  "ring h l xs \<longleftrightarrow> distinct (l # xs) \<and> chain h (l # xs @ [l])"

lemma get_next_Ok [simp]: "get_next h p = Ok n \<longleftrightarrow> nxt h p = Some n"
  by (auto simp: get_next_def nxt_def split: option.splits)

lemma get_prev_Ok [simp]: "get_prev h p = Ok n \<longleftrightarrow> prv h p = Some n"
  by (auto simp: get_prev_def prv_def split: option.splits)

lemma get_nextI: "nxt h p = Some n \<Longrightarrow> get_next h p = Ok n"
  by simp

lemma get_prevI: "prv h p = Some n \<Longrightarrow> get_prev h p = Ok n"
  by simp

lemma set_next_Ok: "h p = Some n \<Longrightarrow> set_next h p v = Ok (h(p \<mapsto> n\<lparr>next_ptr := v\<rparr>))"
  by (simp add: set_next_def)

text \<open>What a write leaves: the same nodes exist, and one pointer of one node has changed.\<close>

definition wrote_next :: "list_heap \<Rightarrow> ptr \<Rightarrow> ptr \<Rightarrow> list_heap \<Rightarrow> bool" where
  "wrote_next h p v h' \<longleftrightarrow>
     dom h' = dom h \<and> nxt h' = (nxt h)(p \<mapsto> v) \<and> prv h' = prv h \<and> (\<forall>q. q \<noteq> p \<longrightarrow> h' q = h q)"

definition wrote_prev :: "list_heap \<Rightarrow> ptr \<Rightarrow> ptr \<Rightarrow> list_heap \<Rightarrow> bool" where
  "wrote_prev h p v h' \<longleftrightarrow>
     dom h' = dom h \<and> prv h' = (prv h)(p \<mapsto> v) \<and> nxt h' = nxt h \<and> (\<forall>q. q \<noteq> p \<longrightarrow> h' q = h q)"

lemma set_next_writes:
  assumes "p \<in> dom h"
  obtains h' where "set_next h p v = Ok h'" "wrote_next h p v h'"
proof -
  from assms obtain n where n: "h p = Some n" by blast
  show thesis
    by (rule that, unfold set_next_def n option.case, rule refl)
      (use n in \<open>auto simp: wrote_next_def nxt_def prv_def fun_eq_iff\<close>)
qed

lemma set_prev_writes:
  assumes "p \<in> dom h"
  obtains h' where "set_prev h p v = Ok h'" "wrote_prev h p v h'"
proof -
  from assms obtain n where n: "h p = Some n" by blast
  show thesis
    by (rule that, unfold set_prev_def n option.case, rule refl)
      (use n in \<open>auto simp: wrote_prev_def nxt_def prv_def fun_eq_iff\<close>)
qed

lemma dom_nxt: "nxt h p = Some q \<Longrightarrow> p \<in> dom h"
  by (auto simp: nxt_def)

lemma dom_prv: "prv h p = Some q \<Longrightarrow> p \<in> dom h"
  by (auto simp: prv_def)

lemma chain_append: "chain h (xs @ a # ys) \<longleftrightarrow> chain h (xs @ [a]) \<and> chain h (a # ys)"
proof (induction xs)
  case (Cons x xs)
  then show ?case by (cases xs) auto
qed simp

lemma chain_frame:
  assumes "chain h xs"
    and "\<And>a. a \<in> set (butlast xs) \<Longrightarrow> nxt h' a = nxt h a"
    and "\<And>b. b \<in> set (tl xs) \<Longrightarrow> prv h' b = prv h b"
  shows "chain h' xs"
  using assms
proof (induction xs rule: induct_list012)
  case (3 a b r)
  have "chain h' (b # r)"
    using 3 by (intro "3.IH"(2)) (auto dest: list.set_sel(2) [rotated])
  moreover have "nxt h' a = nxt h a" "prv h' b = prv h b"
    using "3.prems"(2)[of a] "3.prems"(3)[of b] by simp_all
  ultimately show ?case using "3.prems"(1) by simp
qed auto

lemma chain_dom_next: "chain h (xs @ [a]) \<Longrightarrow> x \<in> set xs \<Longrightarrow> x \<in> dom h"
proof (induction xs)
  case (Cons y ys)
  then show ?case by (cases ys) (auto dest: dom_nxt)
qed simp

lemma ring_dom: "ring h l xs \<Longrightarrow> x \<in> set (l # xs) \<Longrightarrow> x \<in> dom h"
  using chain_dom_next [of h "l # xs" l x] by (simp add: ring_def)

lemma ring_head:
  assumes "ring h l xs"
  shows "nxt h l = Some (hd (xs @ [l]))" "prv h (hd (xs @ [l])) = Some l"
    "chain h (xs @ [l])" "hd (xs @ [l]) \<in> dom h" "hd (xs @ [l]) \<notin> set (tl (xs @ [l]))"
    "prv h l = Some (last (l # xs))"
proof -
  have d: "distinct (xs @ [l])" and c: "chain h (l # xs @ [l])"
    using assms by (auto simp: ring_def)
  from c show "nxt h l = Some (hd (xs @ [l]))" "prv h (hd (xs @ [l])) = Some l"
    and "chain h (xs @ [l])"
    by (cases xs; simp)+
  then show "hd (xs @ [l]) \<in> dom h" by (blast dest: dom_prv)
  from d show "hd (xs @ [l]) \<notin> set (tl (xs @ [l]))"
    by (cases xs) auto
  have "chain h (butlast (l # xs) @ last (l # xs) # [l])"
    using c by (metis append_Cons append_assoc append_butlast_last_id append_Nil list.discI)
  then show "prv h l = Some (last (l # xs))"
    using chain_append [of h "butlast (l # xs)" "last (l # xs)" "[l]"] by simp
qed

text \<open>
  The effect of an operation on the elements: the ring of the head is the new sequence, and no node
  outside the given set of nodes has changed.
\<close>

definition same_outside :: "ptr set \<Rightarrow> list_heap \<Rightarrow> list_heap \<Rightarrow> bool" where
  "same_outside S h h' \<longleftrightarrow> dom h' = dom h \<and> (\<forall>q. q \<notin> S \<longrightarrow> h' q = h q)"

lemma insert_ring:
  assumes "ring h l xs" "e \<in> dom h" "e \<notin> set (l # xs)"
  obtains h' where "ntb_list_insert h l e = Ok h'" "ring h' l (e # xs)"
    "same_outside (set (l # e # xs)) h h'"
proof -
  define n where "n = hd (xs @ [l])"
  note head = ring_head [OF assms(1), folded n_def]
  have n: "n \<in> set (l # xs)" by (cases xs) (auto simp: n_def)
  obtain h1 where h1: "set_prev h e l = Ok h1" "wrote_prev h e l h1"
    using set_prev_writes assms(2) by blast
  then obtain h2 where h2: "set_next h1 e n = Ok h2" "wrote_next h1 e n h2"
    using set_next_writes [of e h1] assms(2) by (auto simp: wrote_prev_def)
  then obtain h3 where h3: "set_next h2 l e = Ok h3" "wrote_next h2 l e h3"
    using set_next_writes [of l h2] h1 dom_nxt [OF head(1)]
    by (auto simp: wrote_prev_def wrote_next_def)
  then obtain h4 where h4: "set_prev h3 n e = Ok h4" "wrote_prev h3 n e h4"
    using set_prev_writes [of n h3] h1 h2 head(4)
    by (auto simp: wrote_prev_def wrote_next_def)
  have nx: "nxt h4 = (nxt h)(e \<mapsto> n, l \<mapsto> e)" and pv: "prv h4 = (prv h)(e \<mapsto> l, n \<mapsto> e)"
    using h1 h2 h3 h4 by (auto simp: wrote_prev_def wrote_next_def)
  have ne: "n \<noteq> e" "l \<noteq> e" using n assms(3) by auto
  have run: "ntb_list_insert h l e = Ok h4"
    unfolding ntb_list_insert_def using h1 h2 h3 h4 head(1) ne
    by (simp add: wrote_prev_def wrote_next_def)
  have "chain h4 (xs @ [l])"
    by (rule chain_frame [OF head(3)]) (use assms(1,3) head(5) in
      \<open>auto simp: nx pv ring_def butlast_append n_def dest: list.set_sel(2) [rotated]\<close>)
  moreover have "chain h4 (l # e # xs @ [l]) \<longleftrightarrow> chain h4 (xs @ [l])"
    using ne by (cases xs) (auto simp: nx pv n_def)
  ultimately have "ring h4 l (e # xs)"
    using assms by (auto simp: ring_def)
  moreover have "same_outside (set (l # e # xs)) h h4"
    using h1 h2 h3 h4 n by (auto simp: wrote_prev_def wrote_next_def same_outside_def)
  ultimately show thesis using that run by blast
qed

lemma butlast_last_split: "xs \<noteq> [] \<Longrightarrow> distinct xs \<Longrightarrow>
    xs = butlast xs @ [last xs] \<and> last xs \<notin> set (butlast xs)"
  by (metis append_butlast_last_id distinct_butlast not_distinct_conv_prefix distinct_append
      disjoint_insert(1) list.simps(15))

lemmas wrote_defs = wrote_prev_def wrote_next_def

lemma remove_writes:
  assumes c: "nxt h p = Some e" "prv h e = Some p" "nxt h e = Some n" "prv h n = Some e"
    and ne: "p \<noteq> e" "n \<noteq> e"
  obtains h' where "ntb_list_remove h e = Ok h'"
    "nxt h' = (nxt h)(p \<mapsto> n, e \<mapsto> NULL)" "prv h' = (prv h)(n \<mapsto> p, e \<mapsto> NULL)"
    "same_outside {p, e, n} h h'"
proof -
  obtain h1 where h1: "set_next h p n = Ok h1" "wrote_next h p n h1"
    by (rule set_next_writes [OF dom_nxt [OF c(1)]])
  then obtain h2 where h2: "set_prev h1 n p = Ok h2" "wrote_prev h1 n p h2"
    using set_prev_writes [of n h1] dom_prv [OF c(4)] by (auto simp: wrote_defs)
  then obtain h3 where h3: "set_next h2 e NULL = Ok h3" "wrote_next h2 e NULL h3"
    using set_next_writes [of e h2] h1 dom_nxt [OF c(3)] by (auto simp: wrote_defs)
  then obtain h4 where h4: "set_prev h3 e NULL = Ok h4" "wrote_prev h3 e NULL h4"
    using set_prev_writes [of e h3] h1 h2 dom_nxt [OF c(3)] by (auto simp: wrote_defs)
  have "ntb_list_remove h e = Ok h4"
    unfolding ntb_list_remove_def using h1 h2 h3 h4 c ne by (simp add: wrote_defs)
  moreover have "nxt h4 = (nxt h)(p \<mapsto> n, e \<mapsto> NULL)" "prv h4 = (prv h)(n \<mapsto> p, e \<mapsto> NULL)"
    "same_outside {p, e, n} h h4"
    using h1 h2 h3 h4 by (auto simp: wrote_defs same_outside_def)
  ultimately show thesis by (rule that)
qed

lemma ring_split:
  assumes "ring h l (xs @ e # ys)"
  obtains B p n T where "l # xs = B @ [p]" "ys @ [l] = n # T" "p \<notin> set B" "n \<notin> set T"
    "chain h (B @ [p])" "chain h (n # T)" "nxt h p = Some e" "prv h e = Some p"
    "nxt h e = Some n" "prv h n = Some e"
proof -
  obtain B p where B: "l # xs = B @ [p]" by (metis list.discI rev_exhaust)
  obtain n T where T: "ys @ [l] = n # T" by (cases ys) auto
  have "chain h ((l # xs) @ e # (ys @ [l]))"
    using assms by (simp add: ring_def)
  then have "chain h (B @ p # e # n # T)"
    by (simp only: B T) simp
  moreover have "distinct (l # xs)" "distinct (ys @ [l])"
    using assms by (auto simp: ring_def)
  then have "p \<notin> set B" "n \<notin> set T"
    unfolding B T by auto
  ultimately show thesis
    using B T chain_append [of h B p "e # n # T"] by (intro that) auto
qed

lemma remove_ring:
  assumes "ring h l (xs @ e # ys)"
  obtains h' where "ntb_list_remove h e = Ok h'" "ring h' l (xs @ ys)"
    "h' e = Some \<lparr>prev_ptr = NULL, next_ptr = NULL\<rparr>"
    "same_outside (set (l # xs @ e # ys)) h h'"
proof -
  obtain B p n T where s: "l # xs = B @ [p]" "ys @ [l] = n # T" "p \<notin> set B" "n \<notin> set T"
    "chain h (B @ [p])" "chain h (n # T)" "nxt h p = Some e" "prv h e = Some p"
    "nxt h e = Some n" "prv h n = Some e"
    by (rule ring_split [OF assms])
  have d: "set xs \<inter> set (ys @ [l]) = {}" "set (l # xs) \<inter> set ys = {}" "e \<notin> set (l # xs)"
    "e \<notin> set (ys @ [l])"
    using assms by (auto simp: ring_def)
  have mem: "p \<in> set (l # xs)" "n \<in> set (ys @ [l])" unfolding s(1,2) by auto
  have ne: "p \<noteq> e" "n \<noteq> e" using mem d by auto
  obtain h' where h': "ntb_list_remove h e = Ok h'" and nx: "nxt h' = (nxt h)(p \<mapsto> n, e \<mapsto> NULL)"
    and pv: "prv h' = (prv h)(n \<mapsto> p, e \<mapsto> NULL)" and out: "same_outside {p, e, n} h h'"
    by (rule remove_writes [OF s(7-10) ne])
  have t: "tl (B @ [p]) = xs" "butlast (n # T) = ys"
    using arg_cong [OF s(1), of tl] arg_cong [OF s(2), of butlast] by simp_all
  have "e \<notin> set xs" "e \<notin> set ys" using d by auto
  moreover have "e \<notin> set B" "e \<notin> set T" "p \<notin> set ys" "n \<notin> set xs"
    using d mem unfolding s(1,2) by auto
  ultimately have notin: "e \<notin> set B" "e \<notin> set T" "e \<notin> set xs" "e \<notin> set ys" "p \<notin> set ys"
    "n \<notin> set xs" by auto
  have "chain h' (B @ [p])"
    by (rule chain_frame [OF s(5)], unfold t) (use notin s(3) in \<open>auto simp: nx pv\<close>)
  moreover have "chain h' (n # T)"
    by (rule chain_frame [OF s(6)], unfold t) (use notin s(4) in \<open>auto simp: nx pv\<close>)
  ultimately have "chain h' (B @ p # n # T)"
    using chain_append [of h' B p "n # T"] ne by (simp add: nx pv)
  then have "chain h' ((l # xs) @ (ys @ [l]))"
    by (simp only: s(1,2)) simp
  then have "ring h' l (xs @ ys)"
    using assms by (auto simp: ring_def)
  moreover have "h' e = Some \<lparr>prev_ptr = NULL, next_ptr = NULL\<rparr>"
    using fun_cong [OF nx, of e] fun_cong [OF pv, of e] by (auto simp: nxt_def prv_def)
  moreover have "same_outside (set (l # xs @ e # ys)) h h'"
    using out mem by (auto simp: same_outside_def)
  ultimately show thesis using that h' by blast
qed

lemma insert_list_writes:
  assumes c: "nxt h l = Some n" "prv h n = Some l" "nxt h other = Some f" "prv h f = Some other"
      "prv h other = Some t" "nxt h t = Some other"
    and ne: "f \<noteq> other" "other \<noteq> n" "t \<noteq> l" "t \<noteq> other" "other \<noteq> l" "f \<noteq> n"
  obtains h' where "ntb_list_insert_list h l other = Ok h'"
    "nxt h' = (nxt h)(t \<mapsto> n, l \<mapsto> f)" "prv h' = (prv h)(f \<mapsto> l, n \<mapsto> t)"
    "same_outside {f, t, l, n} h h'"
proof -
  obtain h1 where h1: "set_prev h f l = Ok h1" "wrote_prev h f l h1"
    by (rule set_prev_writes [OF dom_prv [OF c(4)]])
  then obtain h2 where h2: "set_next h1 t n = Ok h2" "wrote_next h1 t n h2"
    using set_next_writes [of t h1] dom_nxt [OF c(6)] by (auto simp: wrote_defs)
  then obtain h3 where h3: "set_prev h2 n t = Ok h3" "wrote_prev h2 n t h3"
    using set_prev_writes [of n h2] h1 dom_prv [OF c(2)] by (auto simp: wrote_defs)
  then obtain h4 where h4: "set_next h3 l f = Ok h4" "wrote_next h3 l f h4"
    using set_next_writes [of l h3] h1 h2 dom_nxt [OF c(1)] by (auto simp: wrote_defs)
  have e: "ntb_list_empty h other = Ok False"
    using get_nextI [OF c(3)] ne(1) by (simp add: ntb_list_empty_def)
  have "ntb_list_insert_list h l other = Ok h4"
    unfolding ntb_list_insert_list_def e using h1 h2 h3 h4 c ne by (simp add: wrote_defs)
  moreover have "nxt h4 = (nxt h)(t \<mapsto> n, l \<mapsto> f)" "prv h4 = (prv h)(f \<mapsto> l, n \<mapsto> t)"
    "same_outside {f, t, l, n} h h4"
    using h1 h2 h3 h4 by (auto simp: wrote_defs same_outside_def)
  ultimately show thesis by (rule that)
qed

lemma ring_last:
  assumes "ring h l xs"
  shows "prv h l = Some (last (l # xs))" "nxt h (last (l # xs)) = Some l"
proof -
  have "chain h ((l # xs) @ [l])"
    using assms by (simp add: ring_def)
  then have "chain h (butlast (l # xs) @ last (l # xs) # [l])"
    by (metis append_Cons append_Nil append_assoc append_butlast_last_id list.discI)
  then show "prv h l = Some (last (l # xs))" "nxt h (last (l # xs)) = Some l"
    using chain_append [of h "butlast (l # xs)" "last (l # xs)" "[l]"] by simp_all
qed

lemma insert_list_ring:
  assumes "ring h l xs" "ring h other ys" "set (l # xs) \<inter> set (other # ys) = {}"
  obtains h' where "ntb_list_insert_list h l other = Ok h'" "ring h' l (ys @ xs)"
    "same_outside (set (l # xs @ ys)) h h'"
proof (cases "ys = []")
  case True
  then have "nxt h other = Some other" using ring_head(1) [OF assms(2)] by simp
  then have "ntb_list_insert_list h l other = Ok h"
    using get_nextI by (auto simp: ntb_list_insert_list_def ntb_list_empty_def)
  with True show thesis using assms(1) by (intro that [of h]) (auto simp: same_outside_def)
next
  case False
  define n f t where "n = hd (xs @ [l])" and "f = hd ys" and "t = last ys"
  have n: "n \<in> set (l # xs)" by (cases xs) (auto simp: n_def)
  have ft: "f \<in> set ys" "t \<in> set ys" using False by (auto simp: f_def t_def)
  have other: "other \<notin> set ys" using assms(2) by (simp add: ring_def)
  have hl: "nxt h l = Some n" "prv h n = Some l" "chain h (xs @ [l])" "n \<notin> set (tl (xs @ [l]))"
    using ring_head [OF assms(1)] by (auto simp: n_def)
  have ho: "nxt h other = Some f" "prv h f = Some other" "prv h other = Some t"
    "nxt h t = Some other" and cy: "chain h (ys @ [other])"
    using ring_head [OF assms(2)] ring_last [OF assms(2)] False by (auto simp: f_def t_def)
  obtain h' where h': "ntb_list_insert_list h l other = Ok h'"
    and nx: "nxt h' = (nxt h)(t \<mapsto> n, l \<mapsto> f)" and pv: "prv h' = (prv h)(f \<mapsto> l, n \<mapsto> t)"
    and out: "same_outside {f, t, l, n} h h'"
    by (rule insert_list_writes [OF hl(1,2) ho])
      (use other n ft assms(3) in auto)
  have ys: "ys = f # tl ys" "ys = butlast ys @ [t]" using False by (auto simp: f_def t_def)
  have dys: "f \<notin> set (tl ys)" "t \<notin> set (butlast ys)"
    using assms(2) butlast_last_split [OF False] ys(1) distinct.simps(2) [of f "tl ys"]
    by (auto simp: ring_def t_def)
  have sub: "set (tl ys) \<subseteq> set ys" "set (butlast ys) \<subseteq> set ys"
    by (auto dest: in_set_butlastD list.set_sel(2) [OF False])
  have subx: "set (tl (xs @ [l])) \<subseteq> set (xs @ [l])" by (cases xs) auto
  have "chain h (butlast ys @ t # [other])"
    using cy ys(2) by (metis append_assoc append_Cons append_Nil)
  then have "chain h (butlast ys @ [t])"
    unfolding chain_append [of h _ t "[other]"] by blast
  then have "chain h ys"
    by (simp only: ys(2) [symmetric])
  then have "chain h' ys"
    by (rule chain_frame) (use dys sub n assms(3) in \<open>auto simp: nx pv\<close>)
  moreover have "chain h' (xs @ [l])"
    by (rule chain_frame [OF hl(3)])
      (use assms(1,3) hl(4) ft subx in \<open>auto simp: nx pv ring_def butlast_append\<close>)
  then have "chain h' (t # xs @ [l])"
    using ft assms(3) n by (cases xs) (auto simp: nx pv n_def)
  ultimately have "chain h' (ys @ xs @ [l])"
    using chain_append [of h' "butlast ys" t "xs @ [l]"] ys(2) by (metis append_assoc append_Cons append_Nil)
  moreover have "nxt h' l = Some f" "prv h' f = Some l"
    using ft n assms(3) by (auto simp: nx pv)
  ultimately have "chain h' (l # ys @ xs @ [l])"
    using ys(1) by (metis append_Cons chain.simps(1))
  then have "ring h' l (ys @ xs)"
    using assms by (auto simp: ring_def)
  moreover have "same_outside (set (l # xs @ ys)) h h'"
    using out ft n by (auto simp: same_outside_def)
  ultimately show thesis using that h' by blast
qed

lemma init_ring:
  assumes "l \<in> dom h"
  obtains h' where "ntb_list_init h l = Ok h'" "ring h' l []" "same_outside {l} h h'"
proof -
  obtain h1 where h1: "set_prev h l l = Ok h1" "wrote_prev h l l h1"
    by (rule set_prev_writes [OF assms])
  then obtain h2 where h2: "set_next h1 l l = Ok h2" "wrote_next h1 l l h2"
    using set_next_writes [of l h1] assms by (auto simp: wrote_defs)
  show thesis
    by (rule that [of h2])
      (use h1 h2 in \<open>auto simp: ntb_list_init_def ring_def wrote_defs same_outside_def\<close>)
qed

lemma length_loop_chain:
  assumes "chain h (xs @ [l])" "l \<notin> set xs" "count \<ge> 0" "count + int (length xs) < 2 ^ 31"
  shows "length_loop h l (hd (xs @ [l])) count = Some (Ok (count + int (length xs)))"
  using assms
proof (induction xs arbitrary: count)
  case Nil
  then show ?case by (simp add: length_loop.simps)
next
  case (Cons x xs)
  have n: "nxt h x = Some (hd (xs @ [l]))" and c: "chain h (xs @ [l])"
    using Cons.prems(1) by (cases xs; simp)+
  have "length_loop h l (hd (xs @ [l])) (count + 1) = Some (Ok (count + 1 + int (length xs)))"
    using Cons.prems c by (intro Cons.IH) auto
  then show ?case
    using Cons.prems n by (subst length_loop.simps) (simp add: get_nextI)
qed

lemma length_ring:
  assumes "ring h l xs" "length xs < 2 ^ 31"
  shows "ntb_list_length h l = Some (Ok (int (length xs)))"
  using length_loop_chain [of h xs l 0] ring_head [OF assms(1)] assms
  by (simp add: ntb_list_length_def get_nextI ring_def)

lemma empty_ring:
  assumes "ring h l xs"
  shows "ntb_list_empty h l = Ok (xs = [])"
  using ring_head(1) [OF assms] assms
  by (cases xs) (auto simp: ntb_list_empty_def get_nextI ring_def)

section \<open>Properties\<close>

text \<open>
  Insertion into a well-formed list faults nowhere, makes the new node the first element,
  keeps the order of the others, and touches no node outside the list.\<close>
theorem list_insert_refines:
  assumes "ring h l xs" "e \<in> dom h" "e \<notin> set (l # xs)"
  shows "\<exists>h'. ntb_list_insert h l e = Ok h' \<and> ring h' l (e # xs)
    \<and> same_outside (set (l # e # xs)) h h'"
  by (rule insert_ring [OF assms]) blast

text \<open>
  Removal of any element from a well-formed list faults nowhere, closes the gap, leaves the
  removed node with two \<open>NULL\<close> pointers (which is how users of the list recognise an unlinked node),
  and touches no node outside the list.\<close>
theorem list_remove_refines:
  assumes "ring h l (xs @ e # ys)"
  shows "\<exists>h'. ntb_list_remove h e = Ok h' \<and> ring h' l (xs @ ys)
    \<and> h' e = Some \<lparr>prev_ptr = NULL, next_ptr = NULL\<rparr>
    \<and> same_outside (set (l # xs @ e # ys)) h h'"
  by (rule remove_ring [OF assms]) blast

text \<open>
  Splicing a list into another puts its elements, in their order, in front of the elements of
  the other; an empty list is spliced without a change to the heap.\<close>
theorem list_insert_list_refines:
  assumes "ring h l xs" "ring h other ys" "set (l # xs) \<inter> set (other # ys) = {}"
  shows "\<exists>h'. ntb_list_insert_list h l other = Ok h' \<and> ring h' l (ys @ xs)
    \<and> same_outside (set (l # xs @ ys)) h h'"
  by (rule insert_list_ring [OF assms]) blast

text \<open>
  C36: The loop of \<open>ntb_list_length\<close> terminates on every well-formed list and returns the number of
  elements, as long as that number is representable in an \<open>int\<close>; \<open>ntb_list_empty\<close> agrees with it.\<close>
theorem list_length_terminates:
  assumes "ring h l xs" "length xs < 2 ^ 31"
  shows "ntb_list_length h l = Some (Ok (int (length xs))) \<and>
    ntb_list_empty h l = Ok (ntb_list_length h l = Some (Ok 0))"
  using length_ring [OF assms] empty_ring [OF assms(1)] by simp

text \<open>A heap with a list of two elements at 10, a list of one element at 20 and a single node at 30.\<close>

definition sample_heap :: list_heap where
  "sample_heap = [10 \<mapsto> \<lparr>prev_ptr = 12, next_ptr = 11\<rparr>, 11 \<mapsto> \<lparr>prev_ptr = 10, next_ptr = 12\<rparr>,
     12 \<mapsto> \<lparr>prev_ptr = 11, next_ptr = 10\<rparr>, 20 \<mapsto> \<lparr>prev_ptr = 21, next_ptr = 21\<rparr>,
     21 \<mapsto> \<lparr>prev_ptr = 20, next_ptr = 20\<rparr>, 30 \<mapsto> \<lparr>prev_ptr = NULL, next_ptr = NULL\<rparr>]"

lemma sample_rings: "ring sample_heap 10 [11, 12]" "ring sample_heap 20 [21]" "30 \<in> dom sample_heap"
  by (auto simp: ring_def sample_heap_def nxt_def prv_def)

theorem list_insert_witness:
  "\<exists>h'. ntb_list_insert sample_heap 10 30 = Ok h' \<and> ring h' 10 [30, 11, 12]"
  using list_insert_refines [OF sample_rings(1,3)] by auto

theorem list_remove_witness:
  "\<exists>h'. ntb_list_remove sample_heap 12 = Ok h' \<and> ring h' 10 [11]"
  using list_remove_refines [of sample_heap 10 "[11]" 12 "[]"] sample_rings(1) by auto

theorem list_insert_list_witness:
  "\<exists>h'. ntb_list_insert_list sample_heap 10 20 = Ok h' \<and> ring h' 10 [21, 11, 12]"
  using list_insert_list_refines [OF sample_rings(1,2)] by auto

theorem list_length_witness: "ntb_list_length sample_heap 10 = Some (Ok 2)"
  using list_length_terminates [OF sample_rings(1)] by simp

end
