(* ===== verification/Ntb_Slab.thy ===== *)
theory Ntb_Slab
  imports Ntb_Prelude "HOL-Library.Multiset"
begin

text \<open>
  The slab allocator of \<open>ntb-slab.c\<close>, which cuts aligned pieces out of blocks of 2048 bytes, and the
  slice allocator of \<open>ntb-slice.c\<close> on top of it, which recycles pieces of one size through a free
  list (the magazine). A piece of memory is a block and an offset into it. The block that \<open>ntb_alloc\<close>
  returns is an argument of the operation that may call it. The magazine's chain of freed elements
  is the list of their addresses.
\<close>

unbundle bit_operations_syntax

section \<open>Slabs\<close>

type_synonym address = "nat \<times> u64"

record ntb_slab_allocator =
  slabs :: "nat list"
  slab_used :: u64

definition NTB_SLAB_SIZE :: u64 where
  "NTB_SLAB_SIZE = 2048"

definition sizeof_slab :: u64 where
  "sizeof_slab = 8"

definition ntb_slab_init :: ntb_slab_allocator where
  "ntb_slab_init = \<lparr>slabs = [], slab_used = NTB_SLAB_SIZE\<rparr>"

definition ntb_slab_align :: "u64 \<Rightarrow> u64 \<Rightarrow> u64" where
  "ntb_slab_align base alignment = (base + alignment - 1) AND NOT (alignment - 1)"

text \<open>
  The piece lies in the first block of the list; with no block in the list the code would add the
  offset to a null pointer, which is a fault.
\<close>

definition ntb_slab_allocate ::
    "nat \<Rightarrow> ntb_slab_allocator \<Rightarrow> u64 \<Rightarrow> u64 \<Rightarrow> (ntb_slab_allocator \<times> address) outcome" where
  "ntb_slab_allocate block a sz alignment =
     (let offset = ntb_slab_align (slab_used a) alignment;
          (a, offset) =
            (if sz + offset > NTB_SLAB_SIZE
             then (a\<lparr>slabs := block # slabs a\<rparr>, ntb_slab_align sizeof_slab alignment)
             else (a, offset));
          a' = a\<lparr>slab_used := offset + sz\<rparr>
      in case slabs a' of [] \<Rightarrow> Fault | slab # _ \<Rightarrow> Ok (a', (slab, offset)))"

section \<open>Slices\<close>

record ntb_slice_allocator =
  element_size :: u64
  element_alignment :: u64
  magazine :: "address list"
  slice_slab :: ntb_slab_allocator

definition sizeof_slice :: u64 where
  "sizeof_slice = 8"

definition ntb_slice_allocator_init :: "u64 \<Rightarrow> u64 \<Rightarrow> ntb_slice_allocator" where
  "ntb_slice_allocator_init sz alignment =
     \<lparr>element_size = (if sz > sizeof_slice then sz else sizeof_slice), element_alignment = alignment,
      magazine = [], slice_slab = ntb_slab_init\<rparr>"

definition ntb_slice_alloc ::
    "nat \<Rightarrow> ntb_slice_allocator \<Rightarrow> (ntb_slice_allocator \<times> address) outcome" where
  "ntb_slice_alloc block a =
     (case magazine a of
        ret # rest \<Rightarrow> Ok (a\<lparr>magazine := rest\<rparr>, ret)
      | [] \<Rightarrow>
          bind_outcome (ntb_slab_allocate block (slice_slab a) (element_size a) (element_alignment a))
            (\<lambda>(slab, ret). Ok (a\<lparr>slice_slab := slab\<rparr>, ret)))"

definition ntb_slice_free :: "ntb_slice_allocator \<Rightarrow> address \<Rightarrow> ntb_slice_allocator" where
  "ntb_slice_free a p = a\<lparr>magazine := p # magazine a\<rparr>"

section \<open>Alignment\<close>

lemma and_not_mask:
  fixes w :: u64
  shows "unat (w AND NOT (mask k)) = unat w - unat w mod 2 ^ k"
proof -
  have "w AND NOT (mask k) = push_bit k (drop_bit k w)"
    by (rule bit_word_eqI) (auto simp: bit_simps)
  also have "\<dots> = w - take_bit k w"
    using bits_ident [of k w] by (simp add: eq_diff_eq)
  finally have "w AND NOT (mask k) = w - take_bit k w" .
  moreover have "unat (take_bit k w) = unat w mod 2 ^ k"
    by (simp add: unsigned_take_bit_eq take_bit_nat_def)
  moreover from this have "take_bit k w \<le> w"
    by (simp add: word_le_nat_alt)
  ultimately show ?thesis by (simp add: unat_sub)
qed

lemma slab_align:
  assumes "alignment = 2 ^ k" "k \<le> 11" "unat base \<le> 2048"
  shows "2 ^ k dvd unat (ntb_slab_align base alignment)"
    "unat base \<le> unat (ntb_slab_align base alignment)"
    "unat (ntb_slab_align base alignment) < unat base + 2 ^ k"
proof -
  have p: "(2::nat) ^ k \<le> 2 ^ 11" using assms(2) by (intro power_increasing) auto
  define n where "n = unat base + 2 ^ k - 1"
  have "unat (word_of_nat n :: u64) = n"
    using p assms(3) by (simp add: n_def unat_of_nat)
  moreover have "Suc n = unat base + 2 ^ k" by (simp add: n_def)
  then have "word_of_nat (Suc n) = base + alignment" by (simp only: assms(1)) simp
  then have "base + alignment - 1 = word_of_nat n" by (metis add_diff_cancel_left' of_nat_Suc)
  moreover have "alignment - 1 = mask k"
    using assms(1) by (simp add: mask_eq_exp_minus_1)
  ultimately have r: "unat (ntb_slab_align base alignment) = n - n mod 2 ^ k"
    unfolding ntb_slab_align_def by (simp only: and_not_mask)
  show "2 ^ k dvd unat (ntb_slab_align base alignment)"
    unfolding r by (rule dvd_minus_mod)
  have "n mod 2 ^ k < 2 ^ k" by simp
  then show "unat base \<le> unat (ntb_slab_align base alignment)"
    unfolding r n_def by linarith
  show "unat (ntb_slab_align base alignment) < unat base + 2 ^ k"
    unfolding r n_def by simp
qed

section \<open>Pieces of memory\<close>

type_synonym region = "nat \<times> nat \<times> nat"

fun overlap :: "region \<Rightarrow> region \<Rightarrow> bool" where
  "overlap (b, o1, n) (c, o2, m) \<longleftrightarrow> b = c \<and> o1 < o2 + m \<and> o2 < o1 + n"

fun in_slabs :: "ntb_slab_allocator \<Rightarrow> region \<Rightarrow> bool" where
  "in_slabs a (b, o1, n) \<longleftrightarrow> b \<in> set (slabs a) \<and> 8 \<le> o1 \<and>
     o1 + n \<le> (if b = hd (slabs a) then unat (slab_used a) else 2048)"

text \<open>
  The invariant: every piece handed out lies in a block of the allocator, behind the block's header
  and before the used mark of the current block, and no two pieces overlap.
\<close>

definition slab_inv :: "ntb_slab_allocator \<Rightarrow> region list \<Rightarrow> bool" where
  "slab_inv a live \<longleftrightarrow>
     unat (slab_used a) \<le> 2048 \<and> distinct (slabs a) \<and>
     (slabs a = [] \<longrightarrow> slab_used a = 2048) \<and>
     (slabs a \<noteq> [] \<longrightarrow> 8 \<le> unat (slab_used a)) \<and>
     (\<forall>r \<in> set live. in_slabs a r) \<and> sorted_wrt (\<lambda>r s. \<not> overlap r s) live"

definition fits :: "u64 \<Rightarrow> u64 \<Rightarrow> bool" where
  "fits sz alignment \<longleftrightarrow> 0 < sz \<and> (\<exists>k \<le> 11. alignment = 2 ^ k) \<and>
     unat sz + unat (ntb_slab_align sizeof_slab alignment) \<le> 2048"

text \<open>
  The two branches: the piece goes behind the used mark of the current block, or to the start of a
  new block.
\<close>

lemma slab_inv_bump:
  assumes "slab_inv a live" "slabs a = b # bs" "slab_used a \<le> off" "unat off + unat sz \<le> 2048"
  shows "slab_inv (a\<lparr>slab_used := off + sz\<rparr>) ((b, unat off, unat sz) # live)"
proof -
  have u: "unat (off + sz) = unat off + unat sz"
    using assms(4) by (simp add: unat_word_ariths)
  have "unat (slab_used a) \<le> unat off"
    using assms(3) by (simp add: word_le_nat_alt)
  then show ?thesis
    using assms(1,2,4) by (fastforce simp: slab_inv_def u)
qed

lemma slab_inv_new_block:
  assumes "slab_inv a live" "block \<notin> set (slabs a)" "8 \<le> unat off" "unat off + unat sz \<le> 2048"
  shows "slab_inv (a\<lparr>slabs := block # slabs a, slab_used := off + sz\<rparr>)
    ((block, unat off, unat sz) # live)"
proof -
  have u: "unat (off + sz) = unat off + unat sz"
    using assms(4) by (simp add: unat_word_ariths)
  have "in_slabs (a\<lparr>slabs := block # slabs a, slab_used := off + sz\<rparr>) r"
    "\<not> overlap (block, unat off, unat sz) r" if "r \<in> set live" for r
  proof -
    obtain c o1 n where r: "r = (c, o1, n)" by (cases r)
    have "in_slabs a r" using that assms(1) by (simp add: slab_inv_def)
    moreover have "unat (slab_used a) \<le> 2048" using assms(1) by (simp add: slab_inv_def)
    ultimately show "in_slabs (a\<lparr>slabs := block # slabs a, slab_used := off + sz\<rparr>) r"
      "\<not> overlap (block, unat off, unat sz) r"
      using assms(2) by (auto simp: r split: if_splits)
  qed
  then show ?thesis
    using assms by (auto simp: slab_inv_def u)
qed

lemma slab_allocate_ok:
  assumes inv: "slab_inv a live" and fit: "fits sz alignment" and block: "block \<notin> set (slabs a)"
  obtains a' b off where "ntb_slab_allocate block a sz alignment = Ok (a', (b, off))"
    "slab_inv a' ((b, unat off, unat sz) # live)" "unat alignment dvd unat off"
    "set (slabs a') \<subseteq> insert block (set (slabs a))"
proof -
  obtain k where k: "k \<le> 11" "alignment = 2 ^ k" and sz: "0 < unat sz"
    and sz2: "unat sz + unat (ntb_slab_align sizeof_slab alignment) \<le> 2048"
    using fit by (auto simp: fits_def word_less_nat_alt)
  have used: "unat (slab_used a) \<le> 2048" using inv by (simp add: slab_inv_def)
  have kp: "(2::nat) ^ k \<le> 2 ^ 11" using k(1) by (intro power_increasing) auto
  then have ual: "unat alignment = 2 ^ k"
    using k(2) unat_of_nat [where ?'a = 64, of "2 ^ k"] by simp
  define off where "off = ntb_slab_align (slab_used a) alignment"
  define off0 where "off0 = ntb_slab_align sizeof_slab alignment"
  note al = slab_align [OF k(2,1) used, folded off_def]
  note al0 = slab_align [OF k(2,1), of sizeof_slab, folded off0_def, unfolded sizeof_slab_def, simplified]
  have sum: "unat (sz + off) = unat sz + unat off"
    using al(3) used kp sz2 by (simp add: unat_word_ariths)
  show thesis
  proof (cases "sz + off > NTB_SLAB_SIZE")
    case True
    then have "ntb_slab_allocate block a sz alignment =
        Ok (a\<lparr>slabs := block # slabs a, slab_used := off0 + sz\<rparr>, (block, off0))"
      by (simp add: ntb_slab_allocate_def off_def [symmetric] off0_def [symmetric])
    then show thesis
      using slab_inv_new_block [OF inv block, of off0 sz] al0 sz2 ual
      by (intro that) (auto simp: off0_def)
  next
    case False
    then have le: "unat off + unat sz \<le> 2048"
      using sum by (simp add: NTB_SLAB_SIZE_def word_less_nat_alt)
    have "slabs a \<noteq> []"
      using inv le al(2) sz by (auto simp: slab_inv_def)
    then obtain b bs where b: "slabs a = b # bs" by (cases "slabs a") auto
    have "ntb_slab_allocate block a sz alignment = Ok (a\<lparr>slab_used := off + sz\<rparr>, (b, off))"
      using False b by (simp add: ntb_slab_allocate_def off_def [symmetric])
    then show thesis
      using slab_inv_bump [OF inv b, of off sz] al le ual
      by (intro that) (auto simp: word_le_nat_alt)
  qed
qed

section \<open>The life of a slice allocator\<close>

text \<open>
  The client allocates elements and frees elements that it has; the second component is the multiset
  of the elements it has. The system never hands out a block that is in use.
\<close>

inductive slice_reach :: "u64 \<Rightarrow> u64 \<Rightarrow> ntb_slice_allocator \<Rightarrow> address multiset \<Rightarrow> bool"
  for sz alignment :: u64 where
  init: "slice_reach sz alignment (ntb_slice_allocator_init sz alignment) {#}"
| alloc: "slice_reach sz alignment a live \<Longrightarrow> block \<notin> set (slabs (slice_slab a)) \<Longrightarrow>
    ntb_slice_alloc block a = Ok (a', p) \<Longrightarrow> slice_reach sz alignment a' (add_mset p live)"
| free: "slice_reach sz alignment a live \<Longrightarrow> p \<in># live \<Longrightarrow>
    slice_reach sz alignment (ntb_slice_free a p) (live - {#p#})"

inductive_cases slice_reachE: "slice_reach sz alignment a live"

definition element :: "ntb_slice_allocator \<Rightarrow> address \<Rightarrow> region" where
  "element a p = (fst p, unat (snd p), unat (element_size a))"

text \<open>All elements ever cut from the slabs are with the client or in the magazine.\<close>

definition slice_inv :: "u64 \<Rightarrow> ntb_slice_allocator \<Rightarrow> address multiset \<Rightarrow> bool" where
  "slice_inv alignment a live \<longleftrightarrow>
     element_alignment a = alignment \<and> fits (element_size a) alignment \<and>
     (\<exists>ps. slab_inv (slice_slab a) (map (element a) ps) \<and> mset ps = live + mset (magazine a) \<and>
       (\<forall>p \<in> set ps. unat alignment dvd unat (snd p)))"

lemma slice_invI:
  assumes "element_alignment a = alignment" "fits (element_size a) alignment"
    "slab_inv (slice_slab a) (map (element a) ps)" "mset ps = live + mset (magazine a)"
    "\<And>p. p \<in> set ps \<Longrightarrow> unat alignment dvd unat (snd p)"
  shows "slice_inv alignment a live"
  using assms unfolding slice_inv_def by blast

lemma slice_alloc_inv:
  assumes inv: "slice_inv alignment a live" and block: "block \<notin> set (slabs (slice_slab a))"
  obtains a' p where "ntb_slice_alloc block a = Ok (a', p)" "slice_inv alignment a' (add_mset p live)"
proof -
  obtain ps where ps: "slab_inv (slice_slab a) (map (element a) ps)" "mset ps = live + mset (magazine a)"
      "\<forall>p \<in> set ps. unat alignment dvd unat (snd p)"
    and a: "element_alignment a = alignment" "fits (element_size a) alignment"
    using inv by (auto simp: slice_inv_def)
  show thesis
  proof (cases "magazine a")
    case (Cons p rest)
    have "slice_inv alignment (a\<lparr>magazine := rest\<rparr>) (add_mset p live)"
      using ps a Cons by (intro slice_invI [where ps = ps]) (auto simp: element_def [abs_def])
    then show thesis using that Cons by (simp add: ntb_slice_alloc_def)
  next
    case Nil
    obtain slab b off where
      s: "ntb_slab_allocate block (slice_slab a) (element_size a) alignment = Ok (slab, (b, off))"
        "slab_inv slab ((b, unat off, unat (element_size a)) # map (element a) ps)"
        "unat alignment dvd unat off"
      by (rule slab_allocate_ok [OF ps(1) a(2) block])
    have "slice_inv alignment (a\<lparr>slice_slab := slab\<rparr>) (add_mset (b, off) live)"
      using ps a s Nil by (intro slice_invI [where ps = "(b, off) # ps"]) (auto simp: element_def [abs_def])
    then show thesis using that Nil s(1) a(1) by (simp add: ntb_slice_alloc_def)
  qed
qed

lemma slice_reach_inv:
  assumes "slice_reach sz alignment a live" "fits (max sz sizeof_slice) alignment"
  shows "slice_inv alignment a live"
  using assms
proof (induction rule: slice_reach.induct)
  case init
  then show ?case
    by (intro slice_invI [where ps = "[]"])
      (auto simp: ntb_slice_allocator_init_def slab_inv_def ntb_slab_init_def NTB_SLAB_SIZE_def max_def
        split: if_splits)
next
  case (alloc a live block a' p)
  then show ?case using slice_alloc_inv [of alignment a live block] by auto
next
  case (free a live p)
  then obtain ps where "slab_inv (slice_slab a) (map (element a) ps)" "mset ps = live + mset (magazine a)"
      "\<forall>p \<in> set ps. unat alignment dvd unat (snd p)" "element_alignment a = alignment"
      "fits (element_size a) alignment"
    by (auto simp: slice_inv_def)
  with free.hyps(2) show ?case
    by (intro slice_invI [where ps = ps]) (auto simp: ntb_slice_free_def element_def [abs_def] multi_member_split)
qed

lemma slice_inv_disjoint:
  assumes "slice_inv alignment a live"
  shows "\<exists>ps. mset ps = live + mset (magazine a) \<and> distinct ps \<and>
    (\<forall>p \<in> set ps. in_slabs (slice_slab a) (element a p) \<and> unat alignment dvd unat (snd p)) \<and>
    (\<forall>p \<in> set ps. \<forall>q \<in> set ps. p \<noteq> q \<longrightarrow> \<not> overlap (element a p) (element a q))"
proof -
  obtain ps where ps: "slab_inv (slice_slab a) (map (element a) ps)" "mset ps = live + mset (magazine a)"
      "\<forall>p \<in> set ps. unat alignment dvd unat (snd p)" and a: "fits (element_size a) alignment"
    using assms by (auto simp: slice_inv_def)
  have self: "overlap (element a p) (element a p)" for p
    using a by (simp add: element_def fits_def word_less_nat_alt)
  have sym: "overlap r s \<Longrightarrow> overlap s r" for r s
    by (cases r; cases s) auto
  have srt: "sorted_wrt (\<lambda>p q. \<not> overlap (element a p) (element a q)) ps"
    using ps(1) by (simp add: slab_inv_def sorted_wrt_map)
  then have "distinct ps \<and> (\<forall>p \<in> set ps. \<forall>q \<in> set ps. p \<noteq> q \<longrightarrow> \<not> overlap (element a p) (element a q))"
  proof (induction ps)
    case (Cons p ps)
    have "p \<notin> set ps" using Cons.prems self [of p] by auto
    moreover have "\<not> overlap (element a q) (element a p)" if "q \<in> set ps" for q
      using that Cons.prems sym [of "element a q" "element a p"] by auto
    ultimately show ?case using Cons by simp
  qed simp
  then show ?thesis using ps by (auto simp: slab_inv_def)
qed

section \<open>Properties\<close>

text \<open>
  An allocation from a slab allocator, for a size and a power-of-two alignment that fit into
  one block, always succeeds and returns an aligned piece that lies inside one of the allocator's
  blocks, behind its header, and overlaps no piece handed out before.\<close>
theorem slab_allocate_disjoint:
  assumes "slab_inv a live" "fits sz alignment" "block \<notin> set (slabs a)"
  shows "\<exists>a' b off. ntb_slab_allocate block a sz alignment = Ok (a', (b, off)) \<and>
    slab_inv a' ((b, unat off, unat sz) # live) \<and> unat alignment dvd unat off \<and>
    8 \<le> unat off \<and> unat off + unat sz \<le> 2048 \<and>
    (\<forall>r \<in> set live. \<not> overlap (b, unat off, unat sz) r)"
proof -
  obtain a' b off where r: "ntb_slab_allocate block a sz alignment = Ok (a', (b, off))"
    "slab_inv a' ((b, unat off, unat sz) # live)" "unat alignment dvd unat off"
    by (rule slab_allocate_ok [OF assms])
  then have "8 \<le> unat off \<and> unat off + unat sz \<le> 2048 \<and>
      (\<forall>r \<in> set live. \<not> overlap (b, unat off, unat sz) r)"
    by (auto simp: slab_inv_def split: if_splits)
  with r show ?thesis by blast
qed

text \<open>
  In every state a client can bring a slice allocator into by allocating elements and freeing
  elements it has, the elements it has are pairwise different, aligned, inside the allocator's blocks
  and do not overlap, and the next allocation succeeds with an element the client does not have.\<close>
theorem slice_elements_disjoint:
  assumes "slice_reach sz alignment a live" "fits (max sz sizeof_slice) alignment"
    "block \<notin> set (slabs (slice_slab a))"
  shows "(\<forall>p \<in># live. count live p = 1 \<and> in_slabs (slice_slab a) (element a p) \<and>
        unat alignment dvd unat (snd p) \<and>
        (\<forall>q \<in># live. p \<noteq> q \<longrightarrow> \<not> overlap (element a p) (element a q))) \<and>
    (\<exists>a' p. ntb_slice_alloc block a = Ok (a', p) \<and> p \<notin># live)"
proof -
  have inv: "slice_inv alignment a live" by (rule slice_reach_inv [OF assms(1,2)])
  have one: "count M p = 1" if "mset ps = M + N" "distinct ps" "p \<in># M" for ps :: "address list" and M N p
  proof -
    have "count (mset ps) p \<le> 1"
      using that(2) by (cases p) (simp add: distinct_count_atmost_1)
    then have "count M p + count N p \<le> 1" by (simp add: that(1))
    then show ?thesis using that(3) by (simp add: count_greater_zero_iff [symmetric] del: count_greater_zero_iff)
  qed
  obtain ps where ps: "mset ps = live + mset (magazine a)" "distinct ps"
    "\<forall>p \<in> set ps. in_slabs (slice_slab a) (element a p) \<and> unat alignment dvd unat (snd p)"
    "\<forall>p \<in> set ps. \<forall>q \<in> set ps. p \<noteq> q \<longrightarrow> \<not> overlap (element a p) (element a q)"
    using slice_inv_disjoint [OF inv] by blast
  have mem: "p \<in> set ps" if "p \<in># live" for p
    using that ps(1) by (metis set_mset_mset union_iff)
  obtain a' p where a': "ntb_slice_alloc block a = Ok (a', p)" "slice_inv alignment a' (add_mset p live)"
    by (rule slice_alloc_inv [OF inv assms(3)])
  obtain qs where "mset qs = add_mset p live + mset (magazine a')" "distinct qs"
    using slice_inv_disjoint [OF a'(2)] by blast
  then have "count (add_mset p live) p = 1" by (rule one) simp
  then have "p \<notin># live" by (simp add: count_eq_zero_iff)
  then show ?thesis using a'(1) one [OF ps(1,2)] ps(3,4) mem by blast
qed

text \<open>Elements of 24 bytes with alignment 8, in the state after one allocation from block 5.\<close>

definition sample_allocator :: ntb_slice_allocator where
  "sample_allocator = (case ntb_slice_alloc 5 (ntb_slice_allocator_init 24 8) of Ok (a, _) \<Rightarrow> a
     | _ \<Rightarrow> ntb_slice_allocator_init 24 8)"

lemma sample_fits: "fits 24 8"
  by (auto simp: fits_def intro!: exI [of _ 3]) (simp add: ntb_slab_align_def sizeof_slab_def)

lemma sample_alloc: "ntb_slice_alloc 5 (ntb_slice_allocator_init 24 8) = Ok (sample_allocator, (5, 8))"
  by (simp add: sample_allocator_def ntb_slice_alloc_def ntb_slice_allocator_init_def sizeof_slice_def
      ntb_slab_init_def ntb_slab_allocate_def ntb_slab_align_def NTB_SLAB_SIZE_def sizeof_slab_def)

lemma sample_reach: "slice_reach 24 8 sample_allocator {#(5, 8)#}"
  by (rule slice_reach.alloc [OF slice_reach.init _ sample_alloc])
    (simp add: ntb_slice_allocator_init_def ntb_slab_init_def)

lemma sample_block: "6 \<notin> set (slabs (slice_slab sample_allocator))"
  by (simp add: sample_allocator_def ntb_slice_alloc_def ntb_slice_allocator_init_def sizeof_slice_def
      ntb_slab_init_def ntb_slab_allocate_def ntb_slab_align_def NTB_SLAB_SIZE_def sizeof_slab_def)

theorem slice_elements_disjoint_witness:
  "in_slabs (slice_slab sample_allocator) (element sample_allocator (5, 8)) \<and>
   (\<exists>a' p. ntb_slice_alloc 6 sample_allocator = Ok (a', p) \<and> p \<noteq> (5, 8))"
  using slice_elements_disjoint [OF sample_reach _ sample_block] sample_fits
  by (auto simp: max_def sizeof_slice_def)

theorem slab_allocate_disjoint_witness:
  "\<exists>a' b off. ntb_slab_allocate 5 ntb_slab_init 24 8 = Ok (a', (b, off)) \<and> 8 \<le> unat off"
  using slab_allocate_disjoint [of ntb_slab_init "[]" 24 8 5] sample_fits
  by (auto simp: slab_inv_def ntb_slab_init_def NTB_SLAB_SIZE_def)

end
