(* ===== verification/Ntb_Endian.thy ===== *)
theory Ntb_Endian
  imports Ntb_Proto
begin

text \<open>
  The byte-swapping macros of \<open>src/src/ntb-endian.h\<close>. The wire format is big-endian; a host of either
  byte order reads it by copying the bytes into an integer and applying \<open>NTB_UINTn_FROM_BE\<close>. The
  lemmas show that this yields the big-endian value on both kinds of host, which is what the models
  of \<open>ntb_proto_get_n\<close> and \<open>ntb_proto_add_n\<close> use.
\<close>

unbundle bit_operations_syntax

datatype byte_order = Little_Endian | Big_Endian

definition NTB_SWAP_UINT16 :: "u16 \<Rightarrow> u16" where
  "NTB_SWAP_UINT16 x = drop_bit 8 x OR push_bit 8 x"

definition NTB_SWAP_UINT32 :: "u32 \<Rightarrow> u32" where
  "NTB_SWAP_UINT32 x =
     push_bit 24 (x AND 0x000000ff) OR push_bit 8 (x AND 0x0000ff00) OR
     drop_bit 8 (x AND 0x00ff0000) OR drop_bit 24 (x AND 0xff000000)"

definition NTB_SWAP_UINT64 :: "u64 \<Rightarrow> u64" where
  "NTB_SWAP_UINT64 x =
     push_bit 56 (x AND 0x00000000000000ff) OR push_bit 40 (x AND 0x000000000000ff00) OR
     push_bit 24 (x AND 0x0000000000ff0000) OR push_bit 8 (x AND 0x00000000ff000000) OR
     drop_bit 8 (x AND 0x000000ff00000000) OR drop_bit 24 (x AND 0x0000ff0000000000) OR
     drop_bit 40 (x AND 0x00ff000000000000) OR drop_bit 56 (x AND 0xff00000000000000)"

definition NTB_UINT16_FROM_BE :: "byte_order \<Rightarrow> u16 \<Rightarrow> u16" where
  "NTB_UINT16_FROM_BE order x = (case order of Big_Endian \<Rightarrow> x | Little_Endian \<Rightarrow> NTB_SWAP_UINT16 x)"

definition NTB_UINT32_FROM_BE :: "byte_order \<Rightarrow> u32 \<Rightarrow> u32" where
  "NTB_UINT32_FROM_BE order x = (case order of Big_Endian \<Rightarrow> x | Little_Endian \<Rightarrow> NTB_SWAP_UINT32 x)"

definition NTB_UINT64_FROM_BE :: "byte_order \<Rightarrow> u64 \<Rightarrow> u64" where
  "NTB_UINT64_FROM_BE order x = (case order of Big_Endian \<Rightarrow> x | Little_Endian \<Rightarrow> NTB_SWAP_UINT64 x)"

text \<open>The integer that \<open>memcpy\<close> of the bytes into a variable yields on a host.\<close>

definition load :: "byte_order \<Rightarrow> u8 list \<Rightarrow> 'a::len word" where
  "load order bs =
     word_of_nat (be_value (case order of Big_Endian \<Rightarrow> bs | Little_Endian \<Rightarrow> rev bs))"

lemma be_value_eq_horner: "int (be_value bs) = horner_sum uint (2 ^ LENGTH(8)) (rev bs)"
  by (induction bs rule: rev_induct) auto

lemma of_be_value_eq_rcat: "word_of_nat (be_value bs) = word_rcat bs"
proof -
  have "word_of_nat (be_value bs) = word_of_int (int (be_value bs))" by simp
  then show ?thesis by (simp only: be_value_eq_horner word_rcat_def comp_apply)
qed

lemma bit_rcat_iff:
  "bit (word_rcat (bs :: u8 list) :: 'a::len word) n \<longleftrightarrow>
     n < LENGTH('a) \<and> n div 8 < length bs \<and> bit (rev bs ! (n div 8)) (n mod 8)"
  unfolding word_rcat_def comp_apply bit_word_of_int_iff bit_horner_sum_uint_exp_iff by simp

lemma swap16_rcat:
  fixes a b c d e f g h :: u8
  shows "NTB_SWAP_UINT16 (word_rcat [b, a]) = word_rcat [a, b]"
proof (rule bit_word_eqI)
  fix n
  assume "n < LENGTH(16)"
  then have "n \<in> set [0..<16]" by simp
  then show "bit (NTB_SWAP_UINT16 (word_rcat [b, a])) n \<longleftrightarrow>
      bit (word_rcat [a, b] :: u16) n"
    by (simp add: NTB_SWAP_UINT16_def upt_rec bit_simps) (elim disjE; simp add: bit_rcat_iff numeral_2_eq_2)
qed

lemma swap32_rcat:
  fixes a b c d e f g h :: u8
  shows "NTB_SWAP_UINT32 (word_rcat [d, c, b, a]) = word_rcat [a, b, c, d]"
proof (rule bit_word_eqI)
  fix n
  assume "n < LENGTH(32)"
  then have "n \<in> set [0..<32]" by simp
  then show "bit (NTB_SWAP_UINT32 (word_rcat [d, c, b, a])) n \<longleftrightarrow>
      bit (word_rcat [a, b, c, d] :: u32) n"
    by (simp add: NTB_SWAP_UINT32_def upt_rec bit_simps) (elim disjE; simp add: bit_rcat_iff numeral_2_eq_2)
qed

lemma swap64_rcat:
  fixes a b c d e f g h :: u8
  shows "NTB_SWAP_UINT64 (word_rcat [h, g, f, e, d, c, b, a]) = word_rcat [a, b, c, d, e, f, g, h]"
proof (rule bit_word_eqI)
  fix n
  assume "n < LENGTH(64)"
  then have "n \<in> set [0..<64]" by simp
  then show "bit (NTB_SWAP_UINT64 (word_rcat [h, g, f, e, d, c, b, a])) n \<longleftrightarrow>
      bit (word_rcat [a, b, c, d, e, f, g, h] :: u64) n"
    by (simp add: NTB_SWAP_UINT64_def upt_rec bit_simps) (elim disjE; simp add: bit_rcat_iff numeral_2_eq_2)
qed

lemmas swap_load = of_be_value_eq_rcat swap16_rcat swap32_rcat swap64_rcat

lemma length_eq_numeral_conv:
  "length xs = 2 \<longleftrightarrow> (\<exists>a b. xs = [a, b])"
  "length xs = 4 \<longleftrightarrow> (\<exists>a b c d. xs = [a, b, c, d])"
  "length xs = 8 \<longleftrightarrow> (\<exists>a b c d e f g h. xs = [a, b, c, d, e, f, g, h])"
  by (auto simp: numeral_eq_Suc length_Suc_conv)

lemma uint16_from_be_load:
  "length bs = 2 \<Longrightarrow> NTB_UINT16_FROM_BE order (load order bs) = word_of_nat (be_value bs)"
  by (cases order) (auto simp: NTB_UINT16_FROM_BE_def load_def swap_load length_eq_numeral_conv)

lemma uint32_from_be_load:
  "length bs = 4 \<Longrightarrow> NTB_UINT32_FROM_BE order (load order bs) = word_of_nat (be_value bs)"
  by (cases order) (auto simp: NTB_UINT32_FROM_BE_def load_def swap_load length_eq_numeral_conv)

lemma uint64_from_be_load:
  "length bs = 8 \<Longrightarrow> NTB_UINT64_FROM_BE order (load order bs) = word_of_nat (be_value bs)"
  by (cases order) (auto simp: NTB_UINT64_FROM_BE_def load_def swap_load length_eq_numeral_conv)

text \<open>
  on a host of either byte order, copying two, four or eight bytes into an integer and applying
  the byte-order macro gives the value that \<open>ntb_proto_get_16\<close>, \<open>ntb_proto_get_32\<close> and
  \<open>ntb_proto_get_64\<close> are modelled to return: what is read does not depend on the host.
\<close>

theorem get_n_on_any_host:
  "ntb_proto_get_16 p =
     bind_outcome (read_bytes 2 p) (\<lambda>bs. Ok (NTB_UINT16_FROM_BE order (load order bs))) \<and>
   ntb_proto_get_32 p =
     bind_outcome (read_bytes 4 p) (\<lambda>bs. Ok (NTB_UINT32_FROM_BE order (load order bs))) \<and>
   ntb_proto_get_64 p =
     bind_outcome (read_bytes 8 p) (\<lambda>bs. Ok (NTB_UINT64_FROM_BE order (load order bs)))"
  by (simp add: get_n_eq read_bytes_def uint16_from_be_load uint32_from_be_load uint64_from_be_load)

end
