(* ===== verification/Ntb_Hash_Table.thy ===== *)
theory Ntb_Hash_Table
  imports Ntb_Endian "HOL-Library.Multiset"
begin

text \<open>
  The hash table of \<open>ntb-hash-table.c\<close>, which the network and the keyring use to find objects by their
  hash. The table stores pointers to objects that carry their own 32-byte hash at a fixed offset;
  the memory those pointers point into is an argument of the operations. A bucket's linked chain of
  entries is the list of its data pointers, in the order of the chain.
\<close>

unbundle bit_operations_syntax

section \<open>The table\<close>

type_synonym data_ptr = nat
type_synonym memory = "data_ptr \<Rightarrow> u8"

record ntb_hash_table =
  hash_offset :: nat
  ht_size :: u64
  n_entries :: u64
  entries :: "data_ptr list list"

definition hash_at :: "memory \<Rightarrow> data_ptr \<Rightarrow> u8 list" where
  "hash_at mem p = map (\<lambda>i. mem (p + i)) [0..<NTB_PROTO_HASH_LENGTH]"

text \<open>\<open>entry->data + hash_table->hash_offset\<close>\<close>

definition entry_hash :: "memory \<Rightarrow> ntb_hash_table \<Rightarrow> data_ptr \<Rightarrow> u8 list" where
  "entry_hash mem t p = hash_at mem (p + hash_offset t)"

definition alloc_entries :: "ntb_hash_table \<Rightarrow> u64 \<Rightarrow> ntb_hash_table" where
  "alloc_entries t sz =
     (let alloc_size = 8 * sz in t\<lparr>entries := replicate (unat alloc_size div 8) [], ht_size := sz\<rparr>)"

definition ntb_hash_table_new :: "nat \<Rightarrow> ntb_hash_table" where
  "ntb_hash_table_new offset =
     alloc_entries \<lparr>hash_offset = offset, ht_size = 0, n_entries = 0, entries = []\<rparr> 8"

definition get_index :: "byte_order \<Rightarrow> ntb_hash_table \<Rightarrow> u8 list \<Rightarrow> u32" where
  "get_index order t hash =
     (let index = load order (take 4 hash) :: u32 in ucast ((ucast index :: u64) AND (ht_size t - 1)))"

section \<open>The operations\<close>

fun find_entry :: "memory \<Rightarrow> ntb_hash_table \<Rightarrow> u8 list \<Rightarrow> data_ptr list \<Rightarrow> data_ptr option" where
  "find_entry mem t hash [] = None"
| "find_entry mem t hash (entry # chain) =
     (if hash = entry_hash mem t entry then Some entry else find_entry mem t hash chain)"

definition ntb_hash_table_get ::
    "memory \<Rightarrow> byte_order \<Rightarrow> ntb_hash_table \<Rightarrow> u8 list \<Rightarrow> data_ptr option" where
  "ntb_hash_table_get mem order t hash =
     find_entry mem t hash (entries t ! unat (get_index order t hash))"

definition insert_entry_at_index :: "ntb_hash_table \<Rightarrow> data_ptr \<Rightarrow> u32 \<Rightarrow> ntb_hash_table" where
  "insert_entry_at_index t entry index =
     t\<lparr>entries := (entries t)[unat index := entry # entries t ! unat index]\<rparr>"

text \<open>
  Growing rehashes every entry of the old array into the new one. The loop variable is an \<open>int\<close>
  compared with a \<open>size_t\<close>; for an array of \<open>2\<^sup>3\<^sup>1\<close> buckets or more its increment overflows.
\<close>

definition rehash_entry ::
    "memory \<Rightarrow> byte_order \<Rightarrow> ntb_hash_table \<Rightarrow> data_ptr \<Rightarrow> ntb_hash_table" where
  "rehash_entry mem order t entry =
     insert_entry_at_index t entry (get_index order t (entry_hash mem t entry))"

definition ntb_hash_table_grow ::
    "memory \<Rightarrow> byte_order \<Rightarrow> ntb_hash_table \<Rightarrow> ntb_hash_table outcome" where
  "ntb_hash_table_grow mem order t =
     (let old_size = ht_size t; old_entries = entries t;
          t = alloc_entries t (old_size * 2)
      in if unat old_size \<ge> 2 ^ 31 then Fault
         else Ok (foldl (\<lambda>t i. foldl (rehash_entry mem order) t (old_entries ! i)) t [0..<unat old_size]))"

fun replace_entry ::
    "memory \<Rightarrow> ntb_hash_table \<Rightarrow> u8 list \<Rightarrow> data_ptr \<Rightarrow> data_ptr list \<Rightarrow> (data_ptr \<times> data_ptr list) option"
  where
  "replace_entry mem t hash value [] = None"
| "replace_entry mem t hash value (entry # chain) =
     (if hash = entry_hash mem t entry then Some (entry, value # chain)
      else map_option (\<lambda>(old, chain). (old, entry # chain)) (replace_entry mem t hash value chain))"

definition ntb_hash_table_set ::
    "memory \<Rightarrow> byte_order \<Rightarrow> ntb_hash_table \<Rightarrow> data_ptr \<Rightarrow> (ntb_hash_table \<times> data_ptr option) outcome" where
  "ntb_hash_table_set mem order t value =
     (let hash = entry_hash mem t value; index = get_index order t hash in
      case replace_entry mem t hash value (entries t ! unat index) of
        Some (old_value, chain) \<Rightarrow>
          Ok (t\<lparr>entries := (entries t)[unat index := chain]\<rparr>, Some old_value)
      | None \<Rightarrow>
          bind_outcome
            (if n_entries t \<ge> ht_size t * 3 div 4
             then bind_outcome (ntb_hash_table_grow mem order t) (\<lambda>t. Ok (t, get_index order t hash))
             else Ok (t, index))
            (\<lambda>(t, index).
               let t = insert_entry_at_index t value index
               in Ok (t\<lparr>n_entries := n_entries t + 1\<rparr>, None)))"

fun unlink_entry :: "data_ptr \<Rightarrow> data_ptr list \<Rightarrow> data_ptr list option" where
  "unlink_entry value [] = None"
| "unlink_entry value (entry # chain) =
     (if entry = value then Some chain else map_option ((#) entry) (unlink_entry value chain))"

definition ntb_hash_table_remove ::
    "memory \<Rightarrow> byte_order \<Rightarrow> ntb_hash_table \<Rightarrow> data_ptr \<Rightarrow> ntb_hash_table \<times> bool" where
  "ntb_hash_table_remove mem order t value =
     (let hash = entry_hash mem t value; index = get_index order t hash in
      case unlink_entry value (entries t ! unat index) of
        Some chain \<Rightarrow>
          (t\<lparr>entries := (entries t)[unat index := chain], n_entries := n_entries t - 1\<rparr>, True)
      | None \<Rightarrow> (t, False))"

section \<open>The invariant\<close>

definition members :: "ntb_hash_table \<Rightarrow> data_ptr list" where
  "members t = concat (entries t)"

definition buckets_ok :: "memory \<Rightarrow> byte_order \<Rightarrow> ntb_hash_table \<Rightarrow> bool" where
  "buckets_ok mem order t \<longleftrightarrow>
     (\<exists>k. 3 \<le> k \<and> k \<le> 31 \<and> unat (ht_size t) = 2 ^ k) \<and>
     length (entries t) = unat (ht_size t) \<and>
     (\<forall>i < length (entries t). \<forall>p \<in> set (entries t ! i).
        unat (get_index order t (entry_hash mem t p)) = i)"

definition table_ok :: "memory \<Rightarrow> byte_order \<Rightarrow> ntb_hash_table \<Rightarrow> bool" where
  "table_ok mem order t \<longleftrightarrow>
     buckets_ok mem order t \<and>
     unat (n_entries t) = length (members t) \<and>
     4 * length (members t) \<le> 3 * unat (ht_size t) \<and>
     distinct (map (entry_hash mem t) (members t))"

text \<open>The finite map a table stands for.\<close>

definition table_map :: "memory \<Rightarrow> ntb_hash_table \<Rightarrow> u8 list \<Rightarrow> data_ptr option" where
  "table_map mem t = map_of (map (\<lambda>p. (entry_hash mem t p, p)) (members t))"

section \<open>Buckets\<close>

lemma mask_of_size:
  fixes s :: u64
  assumes "unat s = 2 ^ k" "k < 64"
  shows "s - 1 = mask k"
proof -
  have "s = word_of_nat (unat s)" by simp
  then have "s = 2 ^ k" by (simp only: assms) simp
  then show ?thesis by (simp add: mask_eq_exp_minus_1)
qed

lemma get_index_less:
  assumes "buckets_ok mem order t"
  shows "unat (get_index order t hash) < length (entries t)"
proof -
  obtain k where k: "k \<le> 31" "unat (ht_size t) = 2 ^ k" and l: "length (entries t) = 2 ^ k"
    using assms by (auto simp: buckets_ok_def)
  have "unat (take_bit k (w :: u64)) < 2 ^ k" for w
    by (metis take_bit_nat_less_exp unsigned_take_bit_eq)
  then have a: "unat ((ucast (load order (take 4 hash) :: u32) :: u64) AND (ht_size t - 1)) < 2 ^ k"
    using mask_of_size [OF k(2)] k(1) by (simp add: take_bit_eq_mask [symmetric])
  have "unat (get_index order t hash) \<le>
      unat ((ucast (load order (take 4 hash) :: u32) :: u64) AND (ht_size t - 1))"
    unfolding get_index_def Let_def unsigned_ucast_eq by simp
  with a l show ?thesis by linarith
qed

lemma mset_concat_update:
  assumes "i < length xs"
  shows "mset (concat (xs[i := ys])) + mset (xs ! i) = mset (concat xs) + mset ys"
  using assms
proof (induction xs arbitrary: i)
  case (Cons x xs)
  then show ?case by (cases i) (auto simp: ac_simps)
qed simp

lemma update_frame [simp]:
  "entry_hash mem (t\<lparr>entries := es\<rparr>) = entry_hash mem t"
  "entry_hash mem (t\<lparr>n_entries := n\<rparr>) = entry_hash mem t"
  "get_index order (t\<lparr>entries := es\<rparr>) = get_index order t"
  "get_index order (t\<lparr>n_entries := n\<rparr>) = get_index order t"
  "members (t\<lparr>n_entries := n\<rparr>) = members t"
  "buckets_ok mem order (t\<lparr>n_entries := n\<rparr>) = buckets_ok mem order t"
  by (simp_all add: fun_eq_iff entry_hash_def get_index_def members_def buckets_ok_def)

lemma set_members: "p \<in> set (members t) \<longleftrightarrow> (\<exists>i < length (entries t). p \<in> set (entries t ! i))"
  unfolding members_def set_concat UN_iff Bex_def in_set_conv_nth [of _ "entries t"] by blast

text \<open>Replacing one bucket by a chain of entries that belong there.\<close>

lemma update_bucket:
  assumes "buckets_ok mem order t" "i < length (entries t)"
    and "\<And>p. p \<in> set chain \<Longrightarrow> unat (get_index order t (entry_hash mem t p)) = i"
  shows "buckets_ok mem order (t\<lparr>entries := (entries t)[i := chain]\<rparr>)"
    and "mset (members (t\<lparr>entries := (entries t)[i := chain]\<rparr>)) + mset (entries t ! i)
      = mset (members t) + mset chain"
  using assms mset_concat_update [of i "entries t" chain]
  by (auto simp: buckets_ok_def members_def nth_list_update)

lemma insert_entry_ok:
  assumes "buckets_ok mem order t" "index = get_index order t (entry_hash mem t p)"
  shows "buckets_ok mem order (insert_entry_at_index t p index)"
    and "mset (members (insert_entry_at_index t p index)) = add_mset p (mset (members t))"
proof -
  have i: "unat index < length (entries t)"
    using get_index_less [OF assms(1)] assms(2) by simp
  have c: "unat (get_index order t (entry_hash mem t q)) = unat index"
    if "q \<in> set (p # entries t ! unat index)" for q
    using that assms i by (auto simp: buckets_ok_def)
  show "buckets_ok mem order (insert_entry_at_index t p index)"
    unfolding insert_entry_at_index_def by (rule update_bucket(1) [OF assms(1) i c])
  have "mset (members (insert_entry_at_index t p index)) + mset (entries t ! unat index)
      = mset (members t) + mset (p # entries t ! unat index)"
    unfolding insert_entry_at_index_def by (rule update_bucket(2) [OF assms(1) i c])
  then show "mset (members (insert_entry_at_index t p index)) = add_mset p (mset (members t))"
    by simp
qed

lemma insert_entry_frame [simp]:
  "hash_offset (insert_entry_at_index t p i) = hash_offset t"
  "ht_size (insert_entry_at_index t p i) = ht_size t"
  "n_entries (insert_entry_at_index t p i) = n_entries t"
  "entry_hash mem (insert_entry_at_index t p i) = entry_hash mem t"
  by (simp_all add: insert_entry_at_index_def)

lemma rehash_entries_ok:
  assumes "buckets_ok mem order t"
  shows "buckets_ok mem order (foldl (rehash_entry mem order) t ps) \<and>
    mset (members (foldl (rehash_entry mem order) t ps)) = mset ps + mset (members t) \<and>
    hash_offset (foldl (rehash_entry mem order) t ps) = hash_offset t \<and>
    ht_size (foldl (rehash_entry mem order) t ps) = ht_size t \<and>
    n_entries (foldl (rehash_entry mem order) t ps) = n_entries t"
  using assms
proof (induction ps arbitrary: t)
  case (Cons p ps)
  then show ?case
    using insert_entry_ok [OF Cons.prems refl] by (simp add: rehash_entry_def)
qed simp

lemma foldl_foldl: "foldl (foldl f) t xss = foldl f t (concat xss)"
  by (induction xss arbitrary: t) auto

lemma foldl_nested: "foldl (\<lambda>t i. foldl f t (xss ! i)) t [0..<length xss] = foldl f t (concat xss)"
proof -
  have "foldl (\<lambda>t i. foldl f t (xss ! i)) t [0..<length xss] = foldl (foldl f) t (map ((!) xss) [0..<length xss])"
    by (simp add: foldl_map)
  also have "\<dots> = foldl f t (concat xss)"
    by (simp only: map_nth foldl_foldl)
  finally show ?thesis .
qed

lemma unat_double:
  fixes s :: u64
  assumes "unat s = 2 ^ k" "k < 63"
  shows "unat (s * 2) = 2 ^ Suc k"
proof -
  have "(2::nat) ^ Suc k < 2 ^ 64"
    using assms(2) by (intro power_strict_increasing) auto
  then show ?thesis using assms by (simp add: unat_word_ariths)
qed

lemma alloc_entries_ok:
  assumes "unat sz = 2 ^ k" "3 \<le> k" "k \<le> 31"
  shows "buckets_ok mem order (alloc_entries t sz)" "members (alloc_entries t sz) = []"
proof -
  have "(2::nat) ^ k \<le> 2 ^ 31"
    using assms(3) by (intro power_increasing) auto
  then have "unat (8 * sz) = 8 * 2 ^ k"
    using assms by (simp add: unat_word_ariths)
  then show "buckets_ok mem order (alloc_entries t sz)" "members (alloc_entries t sz) = []"
    using assms by (auto simp: alloc_entries_def buckets_ok_def members_def Let_def intro!: exI [of _ k])
qed

lemma alloc_entries_frame [simp]:
  "hash_offset (alloc_entries t sz) = hash_offset t" "n_entries (alloc_entries t sz) = n_entries t"
  "ht_size (alloc_entries t sz) = sz" "entry_hash mem (alloc_entries t sz) = entry_hash mem t"
  by (simp_all add: alloc_entries_def Let_def fun_eq_iff entry_hash_def)

lemma grow_ok:
  assumes "buckets_ok mem order t" "unat (ht_size t) < 2 ^ 31"
  obtains t' where "ntb_hash_table_grow mem order t = Ok t'" "buckets_ok mem order t'"
    "mset (members t') = mset (members t)" "hash_offset t' = hash_offset t"
    "unat (ht_size t') = 2 * unat (ht_size t)" "n_entries t' = n_entries t"
proof -
  obtain k where k: "3 \<le> k" "k \<le> 31" "unat (ht_size t) = 2 ^ k"
    and l: "length (entries t) = unat (ht_size t)"
    using assms(1) by (auto simp: buckets_ok_def)
  have "k < 31"
    using assms(2) k by (cases "k = 31") auto
  have sz: "unat (ht_size t * 2) = 2 ^ Suc k"
    using unat_double k(3) \<open>k < 31\<close> by simp
  define t1 where "t1 = alloc_entries t (ht_size t * 2)"
  have t1: "buckets_ok mem order t1" "members t1 = []"
    using alloc_entries_ok [OF sz] k(1) \<open>k < 31\<close> by (simp_all add: t1_def)
  define t' where "t' = foldl (rehash_entry mem order) t1 (members t)"
  have "ntb_hash_table_grow mem order t = Ok t'"
    using assms(2) foldl_nested [of "rehash_entry mem order" "entries t" t1] l
    by (simp add: ntb_hash_table_grow_def t'_def t1_def members_def Let_def)
  then show thesis
    using rehash_entries_ok [OF t1(1), of "members t"] t1(2) sz k(3)
    by (intro that [of t']) (simp_all add: t'_def t1_def)
qed

section \<open>Lookup\<close>

lemma find_entry_eq:
  "find_entry mem t hash c = map_of (map (\<lambda>p. (entry_hash mem t p, p)) c) hash"
  by (induction c) auto

lemma map_of_entries_iff:
  assumes "distinct (map (entry_hash mem t) c)"
  shows "map_of (map (\<lambda>p. (entry_hash mem t p, p)) c) hash = Some p
    \<longleftrightarrow> p \<in> set c \<and> entry_hash mem t p = hash"
proof -
  have "distinct (map fst (map (\<lambda>p. (entry_hash mem t p, p)) c))"
    using assms by (simp add: comp_def)
  then show ?thesis by (auto simp: map_of_eq_Some_iff)
qed

lemma get_iff:
  assumes "buckets_ok mem order t" "distinct (map (entry_hash mem t) (members t))"
  shows "ntb_hash_table_get mem order t hash = Some p
    \<longleftrightarrow> p \<in> set (members t) \<and> entry_hash mem t p = hash"
proof -
  define i where "i = unat (get_index order t hash)"
  have i: "i < length (entries t)"
    using get_index_less [OF assms(1)] by (simp add: i_def)
  have "distinct (map (entry_hash mem t) (entries t ! i))"
    using assms(2) i by (auto simp: members_def map_concat distinct_concat_iff)
  then have "ntb_hash_table_get mem order t hash = Some p
      \<longleftrightarrow> p \<in> set (entries t ! i) \<and> entry_hash mem t p = hash"
    by (simp add: ntb_hash_table_get_def find_entry_eq map_of_entries_iff i_def)
  then show ?thesis
    using assms(1) i by (auto simp: set_members buckets_ok_def i_def)
qed

lemma get_eq_table_map:
  assumes "table_ok mem order t"
  shows "ntb_hash_table_get mem order t = table_map mem t"
proof (rule ext)
  fix hash
  have "ntb_hash_table_get mem order t hash = Some p \<longleftrightarrow> table_map mem t hash = Some p" for p
    using assms get_iff map_of_entries_iff by (simp add: table_ok_def table_map_def)
  then show "ntb_hash_table_get mem order t hash = table_map mem t hash"
    by (metis not_None_eq)
qed

section \<open>Updates\<close>

lemma distinct_map_add_mset:
  assumes "mset xs = add_mset a (mset ys)"
  shows "distinct (map f xs) \<longleftrightarrow> f a \<notin> f ` set ys \<and> distinct (map f ys)"
    and "set xs = insert a (set ys)"
proof -
  have "mset (map f xs) = mset (map f (a # ys))"
    using assms by simp
  then have "distinct (map f xs) \<longleftrightarrow> distinct (map f (a # ys))"
    by (rule mset_eq_imp_distinct_iff)
  then show "distinct (map f xs) \<longleftrightarrow> f a \<notin> f ` set ys \<and> distinct (map f ys)"
    by simp
  show "set xs = insert a (set ys)"
    using mset_eq_setD [of xs "a # ys"] assms by simp
qed

lemma replace_entry_None:
  "replace_entry mem t hash v c = None \<longleftrightarrow> hash \<notin> entry_hash mem t ` set c"
  by (induction c) auto

lemma replace_entry_Some:
  assumes "replace_entry mem t hash v c = Some (old, c')"
  shows "\<exists>xs ys. c = xs @ old # ys \<and> c' = xs @ v # ys \<and> entry_hash mem t old = hash"
  using assms
proof (induction c arbitrary: c')
  case (Cons e c)
  show ?case
  proof (cases "hash = entry_hash mem t e")
    case True
    then show ?thesis using Cons.prems by (intro exI [of _ "[]"] exI [of _ c]) simp
  next
    case False
    then obtain c2 where "replace_entry mem t hash v c = Some (old, c2)" "c' = e # c2"
      using Cons.prems by auto
    with Cons.IH show ?thesis by (metis append_Cons)
  qed
qed simp

lemma unlink_entry_None: "unlink_entry v c = None \<longleftrightarrow> v \<notin> set c"
  by (induction c) auto

lemma unlink_entry_Some:
  assumes "unlink_entry v c = Some c'"
  shows "\<exists>xs ys. c = xs @ v # ys \<and> c' = xs @ ys"
  using assms
proof (induction c arbitrary: c')
  case (Cons e c)
  show ?case
  proof (cases "e = v")
    case True
    then show ?thesis using Cons.prems by (intro exI [of _ "[]"] exI [of _ c]) simp
  next
    case False
    then obtain c2 where "unlink_entry v c = Some c2" "c' = e # c2"
      using Cons.prems by auto
    with Cons.IH show ?thesis by (metis append_Cons)
  qed
qed simp

text \<open>
  Two tables with the same hashes, where the second has the members of the first that do not collide
  with a key, with or without one more entry for it.
\<close>

lemma get_after_update:
  assumes "table_ok mem order t" "table_ok mem order t'" "hash_offset t' = hash_offset t"
    and "\<And>p. p \<in> set (members t') \<longleftrightarrow>
      Some p = new \<or> p \<in> set (members t) \<and> entry_hash mem t p \<noteq> k"
    and "\<And>p. new = Some p \<Longrightarrow> entry_hash mem t p = k"
  shows "ntb_hash_table_get mem order t' = (ntb_hash_table_get mem order t)(k := new)"
proof
  fix h
  have e: "entry_hash mem t' = entry_hash mem t"
    using assms(3) by (simp add: fun_eq_iff entry_hash_def)
  have "ntb_hash_table_get mem order t' h = Some p \<longleftrightarrow>
      ((ntb_hash_table_get mem order t)(k := new)) h = Some p" for p
    using assms(1,2,4,5) by (auto simp: table_ok_def get_iff e)
  then show "ntb_hash_table_get mem order t' h = ((ntb_hash_table_get mem order t)(k := new)) h"
    by (metis not_None_eq)
qed

lemma entry_hash_eqI: "hash_offset t' = hash_offset t \<Longrightarrow> entry_hash mem t' = entry_hash mem t"
  by (simp add: fun_eq_iff entry_hash_def)

text \<open>The first branch of \<open>ntb_hash_table_set\<close>: an entry with the same hash gets the new value.\<close>

lemma set_replaces:
  assumes ok: "table_ok mem order t" and i: "i = unat (get_index order t (entry_hash mem t v))"
    and r: "replace_entry mem t (entry_hash mem t v) v (entries t ! i) = Some (old, chain)"
    and t': "t' = t\<lparr>entries := (entries t)[i := chain]\<rparr>"
  shows "table_ok mem order t'" "ntb_hash_table_get mem order t (entry_hash mem t v) = Some old"
    "ntb_hash_table_get mem order t' = (ntb_hash_table_get mem order t)(entry_hash mem t v \<mapsto> v)"
    "length (members t') = length (members t)"
proof -
  have b: "buckets_ok mem order t" and d: "distinct (map (entry_hash mem t) (members t))"
    using ok by (auto simp: table_ok_def)
  have il: "i < length (entries t)" using get_index_less [OF b] i by simp
  obtain xs ys where c: "entries t ! i = xs @ old # ys" "chain = xs @ v # ys"
    and h: "entry_hash mem t old = entry_hash mem t v"
    using replace_entry_Some [OF r] by blast
  have chain: "unat (get_index order t (entry_hash mem t p)) = i" if "p \<in> set chain" for p
    using that b i il c by (auto simp: buckets_ok_def)
  have b': "buckets_ok mem order t'"
    unfolding t' by (rule update_bucket(1) [OF b il chain])
  have "mset (members t') + mset (entries t ! i) = mset (members t) + mset chain"
    unfolding t' by (rule update_bucket(2) [OF b il chain])
  then have m: "add_mset old (mset (members t')) = add_mset v (mset (members t))"
    by (simp add: c)
  have old: "old \<in> set (members t)"
    using il c by (auto simp: set_members)
  obtain zs where zs: "mset zs = mset (members t) - {#old#}"
    using ex_mset by blast
  have m1: "mset (members t) = add_mset old (mset zs)" and m2: "mset (members t') = add_mset v (mset zs)"
    using zs old m by (auto simp: add_mset_commute) (metis add_mset_commute add_mset_add_mset_same_iff insert_DiffM set_mset_mset)
  note d1 = distinct_map_add_mset [OF m1] and d2 = distinct_map_add_mset [OF m2]
  show len: "length (members t') = length (members t)"
    using m1 m2 by (metis size_add_mset size_mset)
  have e: "entry_hash mem t' = entry_hash mem t" using t' by simp
  show ok': "table_ok mem order t'"
    using ok b' d d1(1) [of "entry_hash mem t"] d2(1) [of "entry_hash mem t"] h len e t'
    by (simp add: table_ok_def)
  show "ntb_hash_table_get mem order t (entry_hash mem t v) = Some old"
    using get_iff [OF b d] old h by simp
  show "ntb_hash_table_get mem order t' = (ntb_hash_table_get mem order t)(entry_hash mem t v \<mapsto> v)"
    by (rule get_after_update [OF ok ok'])
      (use t' d d1(1) [of "entry_hash mem t"] d1(2) d2(2) h in \<open>auto simp: image_iff\<close>)
qed

text \<open>The second branch: a new entry, in a table that has room for it, perhaps after growing.\<close>

lemma set_inserts:
  assumes ok: "table_ok mem order t" and new: "entry_hash mem t v \<notin> entry_hash mem t ` set (members t)"
    and t1: "buckets_ok mem order t1" "mset (members t1) = mset (members t)"
      "hash_offset t1 = hash_offset t" "n_entries t1 = n_entries t"
      "4 * Suc (length (members t)) \<le> 3 * unat (ht_size t1)"
    and t': "t' = insert_entry_at_index t1 v (get_index order t1 (entry_hash mem t v))"
  shows "table_ok mem order (t'\<lparr>n_entries := n_entries t' + 1\<rparr>)"
    "ntb_hash_table_get mem order (t'\<lparr>n_entries := n_entries t' + 1\<rparr>)
      = (ntb_hash_table_get mem order t)(entry_hash mem t v \<mapsto> v)"
    "length (members t') = Suc (length (members t))"
proof -
  have e: "entry_hash mem t1 = entry_hash mem t" by (rule entry_hash_eqI [OF t1(3)])
  have b': "buckets_ok mem order t'" and m: "mset (members t') = add_mset v (mset (members t))"
    using insert_entry_ok [OF t1(1), of _ v] t1(2) by (simp_all add: t' e)
  note d = distinct_map_add_mset [OF m]
  have n: "n_entries t' = n_entries t" "ht_size t' = ht_size t1" "entry_hash mem t' = entry_hash mem t"
    using t1(4) e by (simp_all add: t')
  show len: "length (members t') = Suc (length (members t))"
    using arg_cong [OF m, of size] by simp
  have "unat (ht_size t1) \<le> 2 ^ 31"
    using t1(1) power_increasing [of _ 31 "2::nat"] by (auto simp: buckets_ok_def)
  then have "unat (n_entries t + 1) = Suc (unat (n_entries t))"
    using ok t1(5) by (simp add: table_ok_def unat_word_ariths)
  then show ok': "table_ok mem order (t'\<lparr>n_entries := n_entries t' + 1\<rparr>)"
    using ok b' d(1) [of "entry_hash mem t"] new len n t1(5) by (simp add: table_ok_def)
  have o: "hash_offset t' = hash_offset t" using t1(3) by (simp add: t')
  show "ntb_hash_table_get mem order (t'\<lparr>n_entries := n_entries t' + 1\<rparr>)
      = (ntb_hash_table_get mem order t)(entry_hash mem t v \<mapsto> v)"
    by (rule get_after_update [OF ok ok']) (use new d(2) o in \<open>auto simp: image_iff\<close>)
qed

definition max_entries :: nat where
  "max_entries = 3 * 2 ^ 29"

lemma threshold:
  assumes "unat (ht_size t) = 2 ^ k" "k \<le> 31"
  shows "n_entries t \<ge> ht_size t * 3 div 4 \<longleftrightarrow> unat (ht_size t) * 3 div 4 \<le> unat (n_entries t)"
proof -
  have "(2::nat) ^ k \<le> 2 ^ 31"
    using assms(2) by (intro power_increasing) auto
  then have "unat (ht_size t * 3 div 4) = unat (ht_size t) * 3 div 4"
    using assms by (simp add: unat_div_distrib unat_word_ariths)
  then show ?thesis by (simp add: word_le_nat_alt)
qed

lemma set_absent:
  assumes "buckets_ok mem order t"
    and "replace_entry mem t hash v (entries t ! unat (get_index order t hash)) = None"
  shows "hash \<notin> entry_hash mem t ` set (members t)"
proof
  assume "hash \<in> entry_hash mem t ` set (members t)"
  then obtain p i where "hash = entry_hash mem t p" "p \<in> set (entries t ! i)" "i < length (entries t)"
    by (auto simp: set_members)
  moreover from this have "unat (get_index order t hash) = i"
    using assms(1) by (auto simp: buckets_ok_def)
  ultimately show False using assms(2) by (auto simp: replace_entry_None)
qed

lemma hash_table_set_ok:
  assumes ok: "table_ok mem order t" and room: "length (members t) < max_entries"
  obtains t' where
    "ntb_hash_table_set mem order t v = Ok (t', ntb_hash_table_get mem order t (entry_hash mem t v))"
    "table_ok mem order t'" "hash_offset t' = hash_offset t"
    "ntb_hash_table_get mem order t' = (ntb_hash_table_get mem order t)(entry_hash mem t v \<mapsto> v)"
    "length (members t') \<le> Suc (length (members t))"
proof -
  have b: "buckets_ok mem order t" and d: "distinct (map (entry_hash mem t) (members t))"
    using ok by (auto simp: table_ok_def)
  define i where "i = get_index order t (entry_hash mem t v)"
  show thesis
  proof (cases "replace_entry mem t (entry_hash mem t v) v (entries t ! unat i)")
    case (Some r)
    obtain old chain where r: "r = (old, chain)" by (cases r)
    note s = set_replaces [OF ok arg_cong [OF i_def, of unat] Some [unfolded r] refl]
    show thesis
      by (rule that [OF _ s(1) _ s(3)]) (use s Some r in \<open>simp_all add: ntb_hash_table_set_def i_def Let_def\<close>)
  next
    case None
    have "entry_hash mem t v \<notin> entry_hash mem t ` set (members t)"
      using set_absent [OF b] None by (simp add: i_def)
    note s = set_inserts [OF ok this]
    have g: "ntb_hash_table_get mem order t (entry_hash mem t v) = None"
      using get_iff [OF b d] \<open>_ \<notin> entry_hash mem t ` set (members t)\<close> by (metis image_eqI not_None_eq)
    obtain k where k: "3 \<le> k" "k \<le> 31" "unat (ht_size t) = 2 ^ k"
      using b by (auto simp: buckets_ok_def)
    have n: "unat (n_entries t) = length (members t)" and l: "4 * length (members t) \<le> 3 * unat (ht_size t)"
      using ok by (auto simp: table_ok_def)
    note run = None [unfolded i_def] g threshold [OF k(3,2)] n
    show thesis
    proof (cases "unat (ht_size t) * 3 div 4 \<le> unat (n_entries t)")
      case True
      have "unat (ht_size t) < 2 ^ 31"
        using True room n by (simp add: max_entries_def)
      then obtain t1 where t1: "ntb_hash_table_grow mem order t = Ok t1" "buckets_ok mem order t1"
        "mset (members t1) = mset (members t)" "hash_offset t1 = hash_offset t"
        "unat (ht_size t1) = 2 * unat (ht_size t)" "n_entries t1 = n_entries t"
        using grow_ok [OF b] by metis
      have "(2::nat) ^ 3 \<le> 2 ^ k" using k(1) by (intro power_increasing) auto
      then have "4 * Suc (length (members t)) \<le> 3 * unat (ht_size t1)"
        using t1(5) l k(3) by simp
      note s = s [OF t1(2-4,6) this refl]
      show thesis
        by (rule that [OF _ s(1) _ s(2)])
          (use s True t1 run in \<open>simp_all add: ntb_hash_table_set_def Let_def\<close>)
    next
      case False
      then have "4 * Suc (length (members t)) \<le> 3 * unat (ht_size t)"
        using n by simp
      note s = s [OF b refl refl refl this refl]
      show thesis
        by (rule that [OF _ s(1) _ s(2)])
          (use s False run in \<open>simp_all add: ntb_hash_table_set_def Let_def\<close>)
    qed
  qed
qed

lemma unat_minus_one_of_Suc:
  fixes w :: u64
  assumes "unat w = Suc n"
  shows "unat (w - 1) = n"
proof -
  have "1 \<le> w" using assms by (simp add: word_le_nat_alt)
  then show ?thesis using assms by (simp add: unat_sub)
qed

lemma hash_table_remove_ok:
  assumes ok: "table_ok mem order t" and r: "ntb_hash_table_remove mem order t v = (t', found)"
  shows "table_ok mem order t' \<and> hash_offset t' = hash_offset t \<and>
    found = (ntb_hash_table_get mem order t (entry_hash mem t v) = Some v) \<and>
    ntb_hash_table_get mem order t' =
      (if found then (ntb_hash_table_get mem order t)(entry_hash mem t v := None)
       else ntb_hash_table_get mem order t) \<and>
    length (members t') \<le> length (members t)"
proof -
  have b: "buckets_ok mem order t" and d: "distinct (map (entry_hash mem t) (members t))"
    using ok by (auto simp: table_ok_def)
  define i where "i = unat (get_index order t (entry_hash mem t v))"
  have il: "i < length (entries t)" using get_index_less [OF b] i_def by simp
  have here: "v \<in> set (members t) \<longleftrightarrow> v \<in> set (entries t ! i)"
    using b il by (auto simp: set_members buckets_ok_def i_def)
  show ?thesis
  proof (cases "unlink_entry v (entries t ! i)")
    case None
    then have "t' = t" "\<not> found"
      using r by (auto simp: ntb_hash_table_remove_def i_def Let_def)
    moreover have "v \<notin> set (members t)"
      using None here by (simp add: unlink_entry_None)
    ultimately show ?thesis using ok get_iff [OF b d] by auto
  next
    case (Some chain)
    obtain xs ys where c: "entries t ! i = xs @ v # ys" "chain = xs @ ys"
      using unlink_entry_Some [OF Some] by blast
    have v: "v \<in> set (members t)" using here c by simp
    define u where "u = t\<lparr>entries := (entries t)[i := chain]\<rparr>"
    have t': "t' = u\<lparr>n_entries := n_entries t - 1\<rparr>" and found: "found"
      using r Some by (auto simp: ntb_hash_table_remove_def i_def u_def Let_def)
    have chain: "unat (get_index order t (entry_hash mem t p)) = i" if "p \<in> set chain" for p
      using that b il c by (auto simp: buckets_ok_def)
    have bu: "buckets_ok mem order u"
      unfolding u_def by (rule update_bucket(1) [OF b il chain])
    have "mset (members u) + mset (entries t ! i) = mset (members t) + mset chain"
      unfolding u_def by (rule update_bucket(2) [OF b il chain])
    then have m: "mset (members t) = add_mset v (mset (members u))" by (simp add: c)
    note m' = distinct_map_add_mset [OF m]
    have len: "length (members t) = Suc (length (members u))"
      using arg_cong [OF m, of size] by simp
    have "unat (n_entries t) = Suc (length (members u))"
      using ok len by (simp add: table_ok_def)
    then have "unat (n_entries t - 1) = length (members u)"
      by (simp add: unat_minus_one_of_Suc)
    then have ok': "table_ok mem order t'"
      using ok bu m'(1) [of "entry_hash mem t"] d len
      by (simp add: table_ok_def t') (simp add: u_def)
    have "ntb_hash_table_get mem order t' = (ntb_hash_table_get mem order t)(entry_hash mem t v := None)"
      by (rule get_after_update [OF ok ok'])
        (use m'(1) [of "entry_hash mem t"] m'(2) d in \<open>auto simp: t' u_def image_iff\<close>)
    then show ?thesis
      using ok' found len v get_iff [OF b d] by (simp add: t' u_def)
  qed
qed

lemma new_table_ok:
  "table_ok mem order (ntb_hash_table_new off)" "hash_offset (ntb_hash_table_new off) = off"
  "ntb_hash_table_get mem order (ntb_hash_table_new off) = (\<lambda>_. None)"
  "length (members (ntb_hash_table_new off)) = 0"
proof -
  have n: "buckets_ok mem order (ntb_hash_table_new off)" "members (ntb_hash_table_new off) = []"
    using alloc_entries_ok [of 8 3] by (simp_all add: ntb_hash_table_new_def)
  then show "table_ok mem order (ntb_hash_table_new off)" "length (members (ntb_hash_table_new off)) = 0"
    by (simp_all add: table_ok_def) (simp add: ntb_hash_table_new_def)
  then show "ntb_hash_table_get mem order (ntb_hash_table_new off) = (\<lambda>_. None)"
    using n by (simp add: get_eq_table_map table_map_def)
  show "hash_offset (ntb_hash_table_new off) = off"
    by (simp add: ntb_hash_table_new_def)
qed

section \<open>The interface\<close>

text \<open>
  What the users of a table rely on: lookup is a finite map from keys to values, \<open>put\<close> returns the
  value it replaces, \<open>del\<close> removes a value only if the table holds that very value.
\<close>

locale keyed_store =
  fixes inv :: "'t \<Rightarrow> bool" and key :: "'p \<Rightarrow> 'k" and used :: "'t \<Rightarrow> nat" and room :: nat
    and fresh :: 't
    and look :: "'t \<Rightarrow> 'k \<Rightarrow> 'p option"
    and put :: "'t \<Rightarrow> 'p \<Rightarrow> ('t \<times> 'p option) outcome"
    and del :: "'t \<Rightarrow> 'p \<Rightarrow> 't \<times> bool"
  assumes fresh_store: "inv fresh" "used fresh = 0" "look fresh = (\<lambda>_. None)"
    and put_store: "inv t \<Longrightarrow> used t < room \<Longrightarrow>
      \<exists>t'. put t v = Ok (t', look t (key v)) \<and> inv t' \<and> look t' = (look t)(key v \<mapsto> v) \<and>
        used t' \<le> Suc (used t)"
    and del_store: "inv t \<Longrightarrow> del t v = (t', found) \<Longrightarrow>
      inv t' \<and> found = (look t (key v) = Some v) \<and>
      look t' = (if found then (look t)(key v := None) else look t) \<and> used t' \<le> used t"
begin

definition put_all :: "'p list \<Rightarrow> 't \<Rightarrow> 't outcome" where
  "put_all vs t = foldl (\<lambda>r v. bind_outcome r (\<lambda>t. bind_outcome (put t v) (\<lambda>(t, _). Ok t))) (Ok t) vs"

lemma put_all_snoc:
  "put_all (vs @ [v]) t = bind_outcome (put_all vs t) (\<lambda>t. bind_outcome (put t v) (\<lambda>(t, _). Ok t))"
  by (simp add: put_all_def)

lemma put_all_lookup:
  assumes "inv t" "used t + length vs \<le> room"
  shows "\<exists>t'. put_all vs t = Ok t' \<and> inv t' \<and> used t' \<le> used t + length vs \<and>
    look t' = look t ++ map_of (rev (map (\<lambda>v. (key v, v)) vs))"
  using assms
proof (induction vs rule: rev_induct)
  case Nil
  then show ?case by (auto simp: put_all_def)
next
  case (snoc v vs)
  then obtain t1 where t1: "put_all vs t = Ok t1" "inv t1" "used t1 \<le> used t + length vs"
    "look t1 = look t ++ map_of (rev (map (\<lambda>v. (key v, v)) vs))"
    by auto
  then obtain t2 where t2: "put t1 v = Ok (t2, look t1 (key v))" "inv t2"
    "look t2 = (look t1)(key v \<mapsto> v)" "used t2 \<le> Suc (used t1)"
    using put_store [of t1 v] snoc.prems by auto
  moreover have "look t2 = look t ++ map_of (rev (map (\<lambda>v. (key v, v)) (vs @ [v])))"
    using t1(4) t2(3) by (simp add: fun_eq_iff map_add_def)
  moreover have "put_all (vs @ [v]) t = Ok t2"
    using t1(1) t2(1) by (simp add: put_all_snoc)
  moreover have "used t2 \<le> used t + length (vs @ [v])"
    using t1(3) t2(4) by simp
  ultimately show ?case by blast
qed

lemma put_then_del:
  assumes "inv t" "used t < room" "look t (key v) = None"
  shows "\<exists>t1 t2. put t v = Ok (t1, None) \<and> del t1 v = (t2, True) \<and> inv t2 \<and> look t2 = look t"
proof -
  obtain t1 where t1: "put t v = Ok (t1, None)" "inv t1" "look t1 = (look t)(key v \<mapsto> v)"
    using put_store [OF assms(1,2), of v] assms(3) by auto
  obtain t2 found where "del t1 v = (t2, found)" by (cases "del t1 v")
  with t1 show ?thesis
    using del_store [of t1 v t2 found] assms(3) by (auto simp: fun_upd_idem)
qed

end

interpretation table: keyed_store
  "\<lambda>t. table_ok mem order t \<and> hash_offset t = off" "\<lambda>p. hash_at mem (p + off)"
  "\<lambda>t. length (members t)" max_entries "ntb_hash_table_new off"
  "ntb_hash_table_get mem order" "ntb_hash_table_set mem order" "ntb_hash_table_remove mem order"
proof unfold_locales
  fix t v
  assume "table_ok mem order t \<and> hash_offset t = off" "length (members t) < max_entries"
  then show "\<exists>t'. ntb_hash_table_set mem order t v = Ok (t', ntb_hash_table_get mem order t (hash_at mem (v + off))) \<and>
      (table_ok mem order t' \<and> hash_offset t' = off) \<and>
      ntb_hash_table_get mem order t' = (ntb_hash_table_get mem order t)(hash_at mem (v + off) \<mapsto> v) \<and>
      length (members t') \<le> Suc (length (members t))"
    by (elim conjE, elim hash_table_set_ok [of mem order t v]) (auto simp: entry_hash_def)
next
  fix t v t' found
  assume "table_ok mem order t \<and> hash_offset t = off" "ntb_hash_table_remove mem order t v = (t', found)"
  then show "(table_ok mem order t' \<and> hash_offset t' = off) \<and>
      found = (ntb_hash_table_get mem order t (hash_at mem (v + off)) = Some v) \<and>
      ntb_hash_table_get mem order t' =
        (if found then (ntb_hash_table_get mem order t)(hash_at mem (v + off) := None)
         else ntb_hash_table_get mem order t) \<and> length (members t') \<le> length (members t)"
    using hash_table_remove_ok [of mem order t v t' found] by (auto simp: entry_hash_def)
qed (use new_table_ok in auto)

section \<open>Properties\<close>

text \<open>
  C34: Setting a value in a well-formed table that is not at its limit never faults, keeps the
  table well formed (power-of-two size, load factor at most three quarters, every entry in the bucket
  of its hash, no hash twice), returns the value that had the same hash, and makes lookup return the
  new value for that hash and what it returned before for every other hash.\<close>
theorem hash_table_set_refines_map:
  assumes "table_ok mem order t" "length (members t) < max_entries"
  shows "\<exists>t'. ntb_hash_table_set mem order t v
        = Ok (t', ntb_hash_table_get mem order t (entry_hash mem t v)) \<and>
      table_ok mem order t' \<and>
      ntb_hash_table_get mem order t' = (ntb_hash_table_get mem order t)(entry_hash mem t v \<mapsto> v)"
  by (rule hash_table_set_ok [OF assms, of v]) blast

text \<open>
  Removing a value keeps the table well formed, reports whether the table held that very
  pointer, and makes lookup fail for its hash exactly in that case; all other hashes are unaffected,
  and so is the hash itself when a different object with the same hash is stored.\<close>
theorem hash_table_remove_refines_map:
  assumes "table_ok mem order t" "ntb_hash_table_remove mem order t v = (t', found)"
  shows "table_ok mem order t' \<and>
    (found \<longleftrightarrow> ntb_hash_table_get mem order t (entry_hash mem t v) = Some v) \<and>
    ntb_hash_table_get mem order t' =
      (if found then (ntb_hash_table_get mem order t)(entry_hash mem t v := None)
       else ntb_hash_table_get mem order t)"
  using hash_table_remove_ok [OF assms] by blast

text \<open>
  Any sequence of at most \<open>max_entries\<close> insertions into a new table succeeds, through
  however many reallocations, and afterwards lookup returns for every hash the value inserted last
  with it.\<close>
theorem hash_table_bulk_insert:
  assumes "length vs \<le> max_entries"
  shows "\<exists>t. foldl (\<lambda>r v. bind_outcome r (\<lambda>t. bind_outcome (ntb_hash_table_set mem order t v) (\<lambda>(t, _). Ok t)))
        (Ok (ntb_hash_table_new off)) vs = Ok t \<and>
      table_ok mem order t \<and>
      ntb_hash_table_get mem order t = map_of (rev (map (\<lambda>v. (hash_at mem (v + off), v)) vs))"
proof -
  have "\<exists>t. table.put_all mem order vs (ntb_hash_table_new off) = Ok t \<and>
      (table_ok mem order t \<and> hash_offset t = off) \<and>
      length (members t) \<le> length (members (ntb_hash_table_new off)) + length vs \<and>
      ntb_hash_table_get mem order t = ntb_hash_table_get mem order (ntb_hash_table_new off) ++
        map_of (rev (map (\<lambda>v. (hash_at mem (v + off), v)) vs))"
    by (rule table.put_all_lookup) (use assms new_table_ok in auto)
  then show ?thesis
    unfolding table.put_all_def new_table_ok(3) empty_map_add by blast
qed

text \<open>Three objects at the addresses 0, 100 and 200 of a memory whose bytes are their addresses.\<close>

theorem hash_table_bulk_insert_witness:
  "\<exists>t. foldl (\<lambda>r v. bind_outcome r (\<lambda>t. bind_outcome (ntb_hash_table_set word_of_nat Little_Endian t v) (\<lambda>(t, _). Ok t)))
        (Ok (ntb_hash_table_new 4)) [0, 100, 200] = Ok t \<and>
      ntb_hash_table_get word_of_nat Little_Endian t (hash_at word_of_nat 104) = Some 100"
proof -
  have d: "hash_at word_of_nat 204 \<noteq> hash_at word_of_nat 104"
    by (simp add: hash_at_def NTB_PROTO_HASH_LENGTH_def upt_rec)
  show ?thesis
    using hash_table_bulk_insert [of "[0, 100, 200]" word_of_nat Little_Endian 4] d
    by (force simp: max_entries_def)
qed

theorem hash_table_set_witness:
  "\<exists>t. ntb_hash_table_set word_of_nat Little_Endian (ntb_hash_table_new 0) 7 = Ok (t, None) \<and>
    ntb_hash_table_get word_of_nat Little_Endian t (hash_at word_of_nat 7) = Some 7"
  using hash_table_set_refines_map [of word_of_nat Little_Endian "ntb_hash_table_new 0" 7] new_table_ok
  by (auto simp: max_entries_def entry_hash_def)

theorem hash_table_remove_witness:
  "\<exists>t. ntb_hash_table_remove word_of_nat Little_Endian (ntb_hash_table_new 0) 7 = (t, False) \<and>
    table_ok word_of_nat Little_Endian t"
  using hash_table_remove_refines_map [OF new_table_ok(1), of word_of_nat Little_Endian 0 7]
    new_table_ok(3) by (cases "ntb_hash_table_remove word_of_nat Little_Endian (ntb_hash_table_new 0) 7") auto

end
