(* ===== verification/Ntb_Base58.thy ===== *)
theory Ntb_Base58
  imports Ntb_Prelude
begin

text \<open>
  The base-58 encoding of \<open>ntb-base58.c\<close>. The arithmetic is done by OpenSSL's big numbers, which are a
  parameter: a record of the operations the code calls, on an unknown type of numbers, with what the
  OpenSSL documentation promises of them as the hypothesis \<open>bn_ok\<close>. Characters are bytes compared as
  signed \<open>char\<close>s.
\<close>

section \<open>Big numbers\<close>

record 'b bignum =
  BN_zero :: 'b
  BN_bin2bn :: "u8 list \<Rightarrow> 'b option"
  BN_is_zero :: "'b \<Rightarrow> bool"
  BN_div_word :: "'b \<Rightarrow> nat \<Rightarrow> 'b \<times> nat"
  BN_mul_word :: "'b \<Rightarrow> nat \<Rightarrow> 'b option"
  BN_add_word :: "'b \<Rightarrow> nat \<Rightarrow> 'b option"
  BN_num_bytes :: "'b \<Rightarrow> nat"
  BN_bn2bin :: "'b \<Rightarrow> u8 list"

text \<open>The number of bytes of a number without leading zeros.\<close>

fun byte_length :: "nat \<Rightarrow> nat" where
  "byte_length v = (if v = 0 then 0 else Suc (byte_length (v div 256)))"

declare byte_length.simps [simp del]

text \<open>
  The documented behaviour, with \<open>val\<close> reading a big number: the conversions are big-endian without
  leading zeros, the arithmetic is exact, and no operation fails (as none does while there is memory).
\<close>

definition bn_ok :: "'b bignum \<Rightarrow> ('b \<Rightarrow> nat) \<Rightarrow> bool" where
  "bn_ok bn val \<longleftrightarrow>
     val (BN_zero bn) = 0 \<and>
     (\<forall>bs. \<exists>b. BN_bin2bn bn bs = Some b \<and> val b = be_value bs) \<and>
     (\<forall>b. BN_is_zero bn b \<longleftrightarrow> val b = 0) \<and>
     (\<forall>b w. 0 < w \<longrightarrow> val (fst (BN_div_word bn b w)) = val b div w \<and>
        snd (BN_div_word bn b w) = val b mod w) \<and>
     (\<forall>b w. \<exists>c. BN_mul_word bn b w = Some c \<and> val c = val b * w) \<and>
     (\<forall>b w. \<exists>c. BN_add_word bn b w = Some c \<and> val c = val b + w) \<and>
     (\<forall>b. BN_num_bytes bn b = byte_length (val b)) \<and>
     (\<forall>b. BN_bn2bin bn b = be_bytes (byte_length (val b)) (val b))"

section \<open>Encoding\<close>

text \<open>The array \<open>alphabet\<close> with its terminating zero.\<close>

definition alphabet :: "u8 list" where
  "alphabet = str ''123456789ABCDEFGHJKLMNPQRSTUVWXYZabcdefghijkmnopqrstuvwxyz'' @ [0]"

definition swap_bytes :: "u8 list \<Rightarrow> nat \<Rightarrow> u8 list" where
  "swap_bytes data i =
     (let tmp = data ! i; j = length data - 1 - i in (data[i := data ! j])[j := tmp])"

definition reverse_bytes :: "u8 list \<Rightarrow> u8 list" where
  "reverse_bytes data = foldl swap_bytes data [0..<length data div 2]"

text \<open>The loop that writes the digits, least significant first. A failed assertion is a fault.\<close>

partial_function (option) digits_loop :: "'b bignum \<Rightarrow> 'b \<Rightarrow> u8 list \<Rightarrow> u8 list outcome option" where
  "digits_loop bn b out =
     (if BN_is_zero bn b then Some (Ok out)
      else let (b', part) = BN_div_word bn b 58
           in if part < 58 then digits_loop bn b' (out @ [alphabet ! part]) else Some Fault)"

definition ntb_base58_encode :: "'b bignum \<Rightarrow> u8 list \<Rightarrow> u8 list outcome option" where
  "ntb_base58_encode bn input =
     (case BN_bin2bn bn input of
        None \<Rightarrow> Some Fail
      | Some b \<Rightarrow>
          map_option (\<lambda>r. bind_outcome r (\<lambda>out. Ok (reverse_bytes out)))
            (if BN_is_zero bn b then Some (Ok [alphabet ! 0]) else digits_loop bn b []))"

section \<open>Decoding\<close>

function digit_loop :: "u8 \<Rightarrow> nat \<Rightarrow> nat \<Rightarrow> nat" where
  "digit_loop digit mn mx =
     (if mx > mn
      then let mid = (mn + mx) div 2
           in if sint (alphabet ! mid) < sint digit then digit_loop digit (mid + 1) mx
              else digit_loop digit mn mid
      else mn)"
  by pat_completeness auto
termination
  by (relation "measure (\<lambda>(_, mn, mx). mx - mn)") auto

declare digit_loop.simps [simp del]

definition get_digit_value :: "u8 \<Rightarrow> int" where
  "get_digit_value digit =
     (let mn = digit_loop digit 0 (length alphabet - 1)
      in if alphabet ! mn = digit then int mn else - 1)"

fun decode_loop :: "'b bignum \<Rightarrow> 'b \<Rightarrow> u8 list \<Rightarrow> 'b outcome" where
  "decode_loop bn b [] = Ok b"
| "decode_loop bn b (c # cs) =
     (let digit_value = get_digit_value c
      in if digit_value = - 1 then Fail
         else case BN_mul_word bn b 58 of
           None \<Rightarrow> Fault
         | Some b \<Rightarrow>
             (case BN_add_word bn b (nat digit_value) of
                None \<Rightarrow> Fault
              | Some b \<Rightarrow> decode_loop bn b cs))"

text \<open>The bytes written to the output, whose size is \<open>output_length\<close>.\<close>

definition ntb_base58_decode :: "'b bignum \<Rightarrow> u8 list \<Rightarrow> nat \<Rightarrow> u8 list outcome" where
  "ntb_base58_decode bn input output_length =
     bind_outcome (decode_loop bn (BN_zero bn) input) (\<lambda>b.
       let n_bytes = BN_num_bytes bn b in
       if n_bytes > output_length then Fail
       else if n_bytes = 0 \<and> length input = 1 \<and> input ! 0 = alphabet ! 0
       then if output_length = 0 then Fault else Ok [0]
       else Ok (BN_bn2bin bn b))"

section \<open>Digits\<close>

lemma length_alphabet [simp]: "length alphabet = 59"
  by (simp add: alphabet_def)

lemma alphabet_sorted: "sorted_wrt (<) (map sint (take 58 alphabet))"
  by (code_simp)

lemma alphabet_less: "i < j \<Longrightarrow> j < 58 \<Longrightarrow> sint (alphabet ! i) < sint (alphabet ! j)"
  using alphabet_sorted by (simp add: sorted_wrt_iff_nth_less)

lemma alphabet_inj: "i < 58 \<Longrightarrow> j < 58 \<Longrightarrow> alphabet ! i = alphabet ! j \<longleftrightarrow> i = j"
  by (metis alphabet_less less_irrefl linorder_neqE_nat)

text \<open>The binary search narrows the range to the first digit that is not smaller.\<close>

lemma digit_loop_bounds:
  assumes "\<forall>i < mn. sint (alphabet ! i) < sint digit"
    and "\<forall>i < 58. mx \<le> i \<longrightarrow> sint digit \<le> sint (alphabet ! i)"
    and "mn \<le> mx" "mx \<le> 58"
  shows "digit_loop digit mn mx \<le> 58 \<and>
    (\<forall>i < digit_loop digit mn mx. sint (alphabet ! i) < sint digit) \<and>
    (\<forall>i < 58. digit_loop digit mn mx \<le> i \<longrightarrow> sint digit \<le> sint (alphabet ! i))"
  using assms
proof (induction digit mn mx rule: digit_loop.induct)
  case (1 digit mn mx)
  define mid where "mid = (mn + mx) div 2"
  show ?case
  proof (cases "mx > mn")
    case False
    then show ?thesis using "1.prems" by (subst (1 2 3) digit_loop.simps) auto
  next
    case True
    then have mid: "mn \<le> mid" "mid < mx" "mid < 58" using "1.prems" by (auto simp: mid_def)
    note un = digit_loop.simps [of digit mn mx, unfolded Let_def, folded mid_def]
    show ?thesis
    proof (cases "sint (alphabet ! mid) < sint digit")
      case less: True
      have "sint (alphabet ! i) < sint digit" if "i < mid + 1" for i
        using that less mid alphabet_less [of i mid] by (cases "i = mid") auto
      then have "\<forall>i < mid + 1. sint (alphabet ! i) < sint digit" by blast
      then have "?thesis" if "digit_loop digit mn mx = digit_loop digit (mid + 1) mx"
        unfolding that by (rule "1.IH"(1) [OF True mid_def less]) (use "1.prems" mid in auto)
      moreover have "digit_loop digit mn mx = digit_loop digit (mid + 1) mx"
        by (subst un) (simp only: True less if_True)
      ultimately show ?thesis by blast
    next
      case geq: False
      have "sint digit \<le> sint (alphabet ! i)" if "i < 58" "mid \<le> i" for i
        using that geq mid alphabet_less [of mid i] by (cases "i = mid") auto
      then have ge: "\<forall>i < 58. mid \<le> i \<longrightarrow> sint digit \<le> sint (alphabet ! i)" by blast
      have "?thesis" if "digit_loop digit mn mx = digit_loop digit mn mid"
        unfolding that
        by (rule "1.IH"(2) [OF True mid_def geq "1.prems"(1) ge]) (use mid in auto)
      moreover have "digit_loop digit mn mx = digit_loop digit mn mid"
        by (subst un) (simp only: True geq if_True if_False)
      ultimately show ?thesis by blast
    qed
  qed
qed

lemma digit_search:
  fixes digit :: u8
  defines "r \<equiv> digit_loop digit 0 (length alphabet - 1)"
  shows "r \<le> 58" "\<And>i. i < r \<Longrightarrow> sint (alphabet ! i) < sint digit"
    "\<And>i. i < 58 \<Longrightarrow> r \<le> i \<Longrightarrow> sint digit \<le> sint (alphabet ! i)"
  using digit_loop_bounds [of 0 digit 58] by (auto simp: r_def)

lemma alphabet_mem: "i < 58 \<Longrightarrow> alphabet ! i \<in> set (take 58 alphabet)"
  by (auto simp: in_set_conv_nth intro!: exI [of _ i])

lemma get_digit_value_alphabet:
  assumes "i < 58"
  shows "get_digit_value (alphabet ! i) = int i"
proof -
  define r where "r = digit_loop (alphabet ! i) 0 (length alphabet - 1)"
  note s = digit_search [where digit = "alphabet ! i", folded r_def]
  have "\<not> i < r" using s(2) [of i] by blast
  moreover have "\<not> r < i" using s(3) [of r] alphabet_less [of r i] assms by auto
  ultimately have "r = i" by simp
  then show ?thesis by (simp add: get_digit_value_def r_def)
qed

lemma get_digit_value_cases:
  obtains i where "i < 58" "digit = alphabet ! i" "get_digit_value digit = int i"
  | "digit \<notin> set (take 58 alphabet)" "get_digit_value digit = - 1"
proof (cases "digit \<in> set (take 58 alphabet)")
  case True
  then obtain i where "i < 58" "digit = alphabet ! i"
    by (auto simp: in_set_conv_nth)
  then show thesis using that(1) get_digit_value_alphabet by blast
next
  case False
  define r where "r = digit_loop digit 0 (length alphabet - 1)"
  have "alphabet ! r \<noteq> digit"
  proof
    assume eq: "alphabet ! r = digit"
    have "\<not> r < 58" using alphabet_mem [of r] False eq by auto
    then have "r = 58" using digit_search(1) [where digit = digit] by (simp add: r_def)
    then have "sint (alphabet ! 0) < sint (alphabet ! 58)"
      using digit_search(2) [where digit = digit and i = 0] eq by (simp add: r_def)
    then show False by (simp add: alphabet_def)
  qed
  then show thesis using that(2) False by (simp add: get_digit_value_def r_def)
qed

section \<open>Reversal\<close>

lemma length_swap_bytes [simp]: "length (swap_bytes data i) = length data"
  by (simp add: swap_bytes_def Let_def)

lemma swap_prefix:
  assumes "k \<le> length data div 2"
  shows "length (foldl swap_bytes data [0..<k]) = length data"
    and "i < length data \<Longrightarrow> foldl swap_bytes data [0..<k] ! i =
      (if i < k \<or> length data - k \<le> i then data ! (length data - 1 - i) else data ! i)"
proof -
  have "length (foldl swap_bytes data [0..<k]) = length data \<and>
    (\<forall>i < length data. foldl swap_bytes data [0..<k] ! i =
      (if i < k \<or> length data - k \<le> i then data ! (length data - 1 - i) else data ! i))"
    using assms
  proof (induction k)
    case (Suc k)
    define d where "d = foldl swap_bytes data [0..<k]"
    have d: "length d = length data" "\<And>i. i < length data \<Longrightarrow> d ! i =
        (if i < k \<or> length data - k \<le> i then data ! (length data - 1 - i) else data ! i)"
      using Suc by (auto simp: d_def)
    have k: "k < length data - 1 - k" "length data - 1 - k < length data"
      using Suc.prems by auto
    have "swap_bytes d k ! i =
      (if i < Suc k \<or> length data - Suc k \<le> i then data ! (length data - 1 - i) else data ! i)"
      if "i < length data" for i
      using that k d by (auto simp: swap_bytes_def Let_def nth_list_update)
    then show ?case using d(1) by (simp add: d_def)
  qed simp
  then show "length (foldl swap_bytes data [0..<k]) = length data"
    and "i < length data \<Longrightarrow> foldl swap_bytes data [0..<k] ! i =
      (if i < k \<or> length data - k \<le> i then data ! (length data - 1 - i) else data ! i)"
    by auto
qed

lemma reverse_bytes_rev: "reverse_bytes data = rev data"
proof (rule nth_equalityI)
  show "length (reverse_bytes data) = length (rev data)"
    by (simp add: reverse_bytes_def swap_prefix)
  fix i
  assume "i < length (reverse_bytes data)"
  then have i: "i < length data" by (simp add: reverse_bytes_def swap_prefix)
  have "data ! i = data ! (length data - 1 - i)"
    if "\<not> i < length data div 2" "\<not> length data - length data div 2 \<le> i"
  proof -
    have "i = length data - 1 - i" using that i by linarith
    then show ?thesis by simp
  qed
  then show "reverse_bytes data ! i = rev data ! i"
    using i by (auto simp: reverse_bytes_def swap_prefix rev_nth)
qed

section \<open>Numbers in base 58\<close>

fun digits58 :: "nat \<Rightarrow> u8 list" where
  "digits58 v = (if v = 0 then [] else digits58 (v div 58) @ [alphabet ! (v mod 58)])"

declare digits58.simps [simp del]

lemma digits58_0 [simp]: "digits58 0 = []"
  by (simp add: digits58.simps)

definition value58 :: "nat \<Rightarrow> u8 list \<Rightarrow> nat" where
  "value58 = foldl (\<lambda>a c. a * 58 + nat (get_digit_value c))"

lemma value58_digits: "value58 0 (digits58 v) = v"
proof (induction v rule: less_induct)
  case (less v)
  then show ?case
    by (cases "v = 0")
      (simp_all add: digits58.simps [of v] value58_def get_digit_value_alphabet div_mult_mod_eq)
qed

lemma set_digits58: "set (digits58 v) \<subseteq> set (take 58 alphabet)"
proof (induction v rule: less_induct)
  case (less v)
  have "alphabet ! (v mod 58) \<in> set (take 58 alphabet)"
    by (simp add: alphabet_mem)
  with less show ?case by (cases "v = 0") (auto simp: digits58.simps [of v])
qed

lemma length_digits58: "v < 58 ^ n \<Longrightarrow> length (digits58 v) \<le> n"
proof (induction n arbitrary: v)
  case (Suc n)
  then have "v div 58 < 58 ^ n" by (simp add: less_mult_imp_div_less mult.commute)
  with Suc.IH show ?case by (simp add: digits58.simps [of v])
qed (simp add: digits58.simps)

lemma digits_loop_eq:
  assumes "bn_ok bn val"
  shows "digits_loop bn b out = Some (Ok (out @ rev (digits58 (val b))))"
proof (induction "val b" arbitrary: b out rule: less_induct)
  case less
  show ?case
  proof (cases "val b = 0")
    case True
    then show ?thesis
      using assms by (subst digits_loop.simps) (simp add: bn_ok_def digits58.simps)
  next
    case False
    obtain b' part where d: "BN_div_word bn b 58 = (b', part)" by (cases "BN_div_word bn b 58")
    have "0 < (58::nat) \<longrightarrow> val (fst (BN_div_word bn b 58)) = val b div 58 \<and>
        snd (BN_div_word bn b 58) = val b mod 58"
      using assms unfolding bn_ok_def by blast
    then have v: "val b' = val b div 58" "part = val b mod 58"
      using d by auto
    have "digits_loop bn b' (out @ [alphabet ! part]) =
        Some (Ok ((out @ [alphabet ! part]) @ rev (digits58 (val b'))))"
      using False v(1) by (intro less) simp
    moreover have "\<not> BN_is_zero bn b" using assms False by (simp add: bn_ok_def)
    ultimately show ?thesis
      using False d v by (subst digits_loop.simps) (simp add: digits58.simps [of "val b"])
  qed
qed

lemma encode_eq:
  assumes "bn_ok bn val"
  shows "ntb_base58_encode bn input =
    Some (Ok (if be_value input = 0 then [alphabet ! 0] else digits58 (be_value input)))"
proof -
  obtain b where b: "BN_bin2bn bn input = Some b" "val b = be_value input"
    using assms unfolding bn_ok_def by blast
  have z: "BN_is_zero bn b \<longleftrightarrow> be_value input = 0"
    using assms b(2) by (simp add: bn_ok_def)
  show ?thesis
    using b z by (simp add: ntb_base58_encode_def digits_loop_eq [OF assms] reverse_bytes_rev)
qed

lemma decode_loop_eq:
  assumes "bn_ok bn val" "set cs \<subseteq> set (take 58 alphabet)"
  shows "\<exists>c. decode_loop bn b cs = Ok c \<and> val c = value58 (val b) cs"
  using assms(2)
proof (induction cs arbitrary: b)
  case (Cons c cs)
  obtain i where i: "get_digit_value c = int i" "i < 58"
    using Cons.prems by (cases c rule: get_digit_value_cases) auto
  obtain b1 where b1: "BN_mul_word bn b 58 = Some b1" "val b1 = val b * 58"
    using assms(1) unfolding bn_ok_def by blast
  obtain b2 where b2: "BN_add_word bn b1 i = Some b2" "val b2 = val b1 + i"
    using assms(1) unfolding bn_ok_def by blast
  then show ?case
    using Cons.IH [of b2] Cons.prems b1 b2 i by (simp add: value58_def)
qed (simp add: value58_def)

lemma decode_loop_invalid:
  assumes "bn_ok bn val" "\<not> set cs \<subseteq> set (take 58 alphabet)"
  shows "decode_loop bn b cs = Fail"
  using assms(2)
proof (induction cs arbitrary: b)
  case (Cons c cs)
  show ?case
  proof (cases c rule: get_digit_value_cases)
    case (1 i)
    then have "c \<in> set (take 58 alphabet)"
      by (auto simp: in_set_conv_nth)
    then have IH: "decode_loop bn b2 cs = Fail" for b2
      using Cons by auto
    obtain b1 where b1: "BN_mul_word bn b 58 = Some b1" "val b1 = val b * 58"
      using assms(1) unfolding bn_ok_def by blast
    obtain b2 where b2: "BN_add_word bn b1 i = Some b2" "val b2 = val b1 + i"
      using assms(1) unfolding bn_ok_def by blast
    show ?thesis using 1(3) b1 b2 IH by simp
  qed simp
qed simp

lemma byte_length_0 [simp]: "byte_length 0 = 0"
  by (simp add: byte_length.simps)

lemma byte_length_le_iff: "byte_length v \<le> n \<longleftrightarrow> v < 256 ^ n"
proof (induction n arbitrary: v)
  case 0
  then show ?case by (simp add: byte_length.simps [of v])
next
  case (Suc n)
  have "v div 256 < 256 ^ n \<longleftrightarrow> v < 256 ^ Suc n"
    by (simp add: div_less_iff_less_mult mult.commute)
  then show ?case
    using Suc.IH [of "v div 256"] by (cases "v = 0") (simp_all add: byte_length.simps [of v])
qed

lemma byte_length_be_value:
  assumes "bs \<noteq> []" "hd bs \<noteq> 0"
  shows "byte_length (be_value bs) = length bs"
proof (rule order_antisym)
  show "byte_length (be_value bs) \<le> length bs"
    by (simp add: byte_length_le_iff be_value_less)
  obtain b cs where bs: "bs = b # cs" "b \<noteq> 0" using assms by (cases bs) auto
  then have "0 < unat b" by (simp add: unat_gt_0)
  then have "256 ^ length cs \<le> unat b * 256 ^ length cs" by simp
  also have "\<dots> \<le> be_value bs"
    by (simp add: bs be_value_Cons)
  finally have "\<not> byte_length (be_value bs) \<le> length cs"
    by (simp add: byte_length_le_iff)
  then show "length bs \<le> byte_length (be_value bs)" by (simp add: bs)
qed

lemma be_value_pos: "bs \<noteq> [] \<Longrightarrow> hd bs \<noteq> 0 \<Longrightarrow> 0 < be_value bs"
  using byte_length_be_value [of bs] by (cases "be_value bs") auto

lemma decode_eq:
  assumes "bn_ok bn val"
  shows "ntb_base58_decode bn cs n =
    (if \<not> set cs \<subseteq> set (take 58 alphabet) \<or> 256 ^ n \<le> value58 0 cs then Fail
     else if cs = [alphabet ! 0] then if n = 0 then Fault else Ok [0]
     else Ok (be_bytes (byte_length (value58 0 cs)) (value58 0 cs)))"
proof (cases "set cs \<subseteq> set (take 58 alphabet)")
  case True
  obtain b where b: "decode_loop bn (BN_zero bn) cs = Ok b" "val b = value58 0 cs"
    using decode_loop_eq [OF assms True, of "BN_zero bn"] assms by (auto simp: bn_ok_def)
  have ops: "BN_num_bytes bn b = byte_length (value58 0 cs)"
    "BN_bn2bin bn b = be_bytes (byte_length (value58 0 cs)) (value58 0 cs)"
    using assms by (simp_all add: bn_ok_def b(2))
  have one: "cs = [alphabet ! 0] \<longleftrightarrow> byte_length (value58 0 cs) = 0 \<and> length cs = 1 \<and> cs ! 0 = alphabet ! 0"
    using get_digit_value_alphabet [of 0] by (cases cs) (auto simp: value58_def)
  have le: "256 ^ n \<le> value58 0 cs \<longleftrightarrow> n < byte_length (value58 0 cs)"
    using byte_length_le_iff [of "value58 0 cs" n] by linarith
  show ?thesis
    using True by (simp only: ntb_base58_decode_def b(1) ops one le bind_outcome.simps Let_def) auto
next
  case False
  then show ?thesis
    by (simp add: ntb_base58_decode_def decode_loop_invalid [OF assms])
qed

section \<open>Properties\<close>

lemma base58_encode_decode:
  assumes "bn_ok bn val" "bs = [0] \<or> bs \<noteq> [] \<and> hd bs \<noteq> 0" "length bs \<le> n"
  shows "\<exists>cs. ntb_base58_encode bn bs = Some (Ok cs) \<and> ntb_base58_decode bn cs n = Ok bs"
proof (cases "bs = [0]")
  case True
  have "alphabet ! 0 \<in> set (take 58 alphabet)" by (simp add: alphabet_mem)
  moreover have "value58 0 [alphabet ! 0] = 0"
    using get_digit_value_alphabet [of 0] by (simp add: value58_def)
  ultimately show ?thesis
    using True assms(3) by (auto simp: encode_eq [OF assms(1)] decode_eq [OF assms(1)] be_value_def)
next
  case False
  define v where "v = be_value bs"
  have v: "0 < v" "byte_length v = length bs"
    using False assms(2) be_value_pos byte_length_be_value by (auto simp: v_def)
  have "digits58 v \<noteq> [alphabet ! 0]"
    using value58_digits [of v] get_digit_value_alphabet [of 0] v(1) by (auto simp: value58_def)
  moreover have "\<not> 256 ^ n \<le> v"
    using v(2) assms(3) byte_length_le_iff [of v n] by simp
  ultimately have "ntb_base58_decode bn (digits58 v) n = Ok bs"
    using v(2) by (simp add: decode_eq [OF assms(1)] value58_digits set_digits58 v_def)
  then show ?thesis
    using v(1) by (simp add: encode_eq [OF assms(1)] v_def)
qed

text \<open>
  Encoding terminates, and decoding what it produced gives the input back, for every byte
  string without leading zeros and for a single zero byte, into any output with room for it.\<close>
theorem base58_roundtrip:
  assumes "bn_ok bn val" "bs = [0] \<or> bs \<noteq> [] \<and> hd bs \<noteq> 0" "length bs \<le> n"
  shows "\<exists>cs. ntb_base58_encode bn bs = Some (Ok cs) \<and> ntb_base58_decode bn cs n = Ok bs"
  by (rule base58_encode_decode [OF assms])

text \<open>
  The binary search for the value of a digit agrees with the position of the character in
  the alphabet, for every character, and decoding fails on every string with a character outside it.\<close>
theorem base58_digit_lookup:
  assumes "bn_ok bn val"
  shows "(\<forall>i < 58. get_digit_value (alphabet ! i) = int i) \<and>
    (\<forall>c. c \<notin> set (take 58 alphabet) \<longrightarrow> get_digit_value c = - 1 \<and>
      (\<forall>xs ys n. ntb_base58_decode bn (xs @ c # ys) n = Fail))"
proof (intro conjI allI impI)
  fix c
  assume c: "c \<notin> set (take 58 alphabet)"
  show "get_digit_value c = - 1"
    by (cases c rule: get_digit_value_cases) (use c in \<open>auto simp: in_set_conv_nth\<close>)
  fix xs ys n
  show "ntb_base58_decode bn (xs @ c # ys) n = Fail"
    using c by (simp add: decode_eq [OF assms])
qed (rule get_digit_value_alphabet)

text \<open>Big numbers as natural numbers meet the documented behaviour.\<close>

definition nat_bignum :: "nat bignum" where
  "nat_bignum = \<lparr>BN_zero = 0, BN_bin2bn = (\<lambda>bs. Some (be_value bs)), BN_is_zero = (\<lambda>b. b = 0),
     BN_div_word = (\<lambda>b w. (b div w, b mod w)), BN_mul_word = (\<lambda>b w. Some (b * w)),
     BN_add_word = (\<lambda>b w. Some (b + w)), BN_num_bytes = byte_length,
     BN_bn2bin = (\<lambda>b. be_bytes (byte_length b) b)\<rparr>"

lemma nat_bignum_ok: "bn_ok nat_bignum (\<lambda>b. b)"
  by (simp add: bn_ok_def nat_bignum_def)

theorem base58_roundtrip_witness:
  "\<exists>cs. ntb_base58_encode nat_bignum [1, 0, 255] = Some (Ok cs) \<and>
    ntb_base58_decode nat_bignum cs 26 = Ok [1, 0, 255]"
  using base58_roundtrip [OF nat_bignum_ok, of "[1, 0, 255]" 26] by simp

theorem base58_digit_lookup_witness:
  "get_digit_value 0x7a = 57 \<and> ntb_base58_decode nat_bignum (str ''1O'') 26 = Fail"
proof -
  have z: "alphabet ! 57 = 0x7a" and o: "0x4f \<notin> set (take 58 alphabet)"
    by (simp_all add: alphabet_def)
  note l = base58_digit_lookup [OF nat_bignum_ok]
  have "get_digit_value (alphabet ! 57) = int 57"
    by (rule l [THEN conjunct1, rule_format]) simp
  moreover have "ntb_base58_decode nat_bignum ([0x31] @ 0x4f # []) 26 = Fail"
    using l [THEN conjunct2, rule_format, OF o] by blast
  ultimately show ?thesis by (simp add: z)
qed

end
