(* ===== verification/Ntb_Address.thy ===== *)
theory Ntb_Address
  imports Ntb_Base58 Ntb_Proto
begin

text \<open>
  BitMessage addresses (\<open>ntb-address.c\<close>): a version, a stream number and a 20-byte RIPEMD-160 hash,
  written as base 58 with a checksum. SHA-512, RIPEMD-160 and the big numbers are parameters.
\<close>

record ntb_address =
  addr_version :: u8
  addr_stream :: u8
  addr_ripe :: "u8 list"

definition RIPEMD160_DIGEST_LENGTH :: nat where
  "RIPEMD160_DIGEST_LENGTH = 20"

definition SHA_DIGEST_LENGTH :: nat where
  "SHA_DIGEST_LENGTH = 20"

definition NTB_ADDRESS_MAX_LENGTH :: nat where
  "NTB_ADDRESS_MAX_LENGTH = 39"

definition NTB_ADDRESS_TAG_SIZE :: nat where
  "NTB_ADDRESS_TAG_SIZE = 32"

definition NTB_ECC_PRIVATE_KEY_SIZE :: nat where
  "NTB_ECC_PRIVATE_KEY_SIZE = 32"

definition calc_checksum :: "(u8 list \<Rightarrow> u8 list) \<Rightarrow> u8 \<Rightarrow> u8 \<Rightarrow> u8 list \<Rightarrow> u8 list" where
  "calc_checksum sha512 ver strm ripe =
     (let hash1 = sha512 (ver # strm # ripe); hash2 = sha512 hash1 in take 4 hash2)"

text \<open>The loop that skips leading zeros of the hash; reading behind the hash would be a fault.\<close>

fun trim_ripe :: "nat \<Rightarrow> u8 list \<Rightarrow> u8 list outcome" where
  "trim_ripe 0 ripe = Ok ripe"
| "trim_ripe (Suc n) [] = Fault"
| "trim_ripe (Suc n) (b # ripe) = (if b = 0 then trim_ripe n ripe else Ok (b # ripe))"

definition bin_address_size :: nat where
  "bin_address_size = 1 + 1 + RIPEMD160_DIGEST_LENGTH + 4"

definition ntb_address_encode ::
    "'b bignum \<Rightarrow> (u8 list \<Rightarrow> u8 list) \<Rightarrow> ntb_address \<Rightarrow> u8 list outcome option" where
  "ntb_address_encode bn sha512 a =
     (let max_trim = (if addr_version a \<ge> 4 then RIPEMD160_DIGEST_LENGTH else 2) in
      case trim_ripe max_trim (addr_ripe a) of
        Ok ripe \<Rightarrow>
          let checksum = calc_checksum sha512 (addr_version a) (addr_stream a) ripe;
              bin_address = addr_version a # addr_stream a # ripe @ checksum
          in if length bin_address > bin_address_size then Some Fault
             else map_option (\<lambda>r. bind_outcome r (\<lambda>s. Ok (str ''BM-'' @ s)))
                    (ntb_base58_encode bn bin_address)
      | _ \<Rightarrow> Some Fault)"

definition strip_prefix :: "u8 list \<Rightarrow> u8 list" where
  "strip_prefix s = (if take 3 s = str ''BM-'' then drop 3 s else s)"

definition ntb_address_decode ::
    "'b bignum \<Rightarrow> (u8 list \<Rightarrow> u8 list) \<Rightarrow> u8 list \<Rightarrow> ntb_address outcome" where
  "ntb_address_decode bn sha512 address_string =
     bind_outcome (ntb_base58_decode bn (strip_prefix address_string) bin_address_size) (\<lambda>bin_address.
       let ripe_length = int (length bin_address) - 1 - 1 - 4 in
       if ripe_length < 0 then Fail
       else
         let n = nat ripe_length;
             ripe = take n (drop 2 bin_address);
             checksum = calc_checksum sha512 (bin_address ! 0) (bin_address ! 1) ripe
         in if checksum \<noteq> take 4 (drop (2 + n) bin_address) then Fail
            else Ok \<lparr>addr_version = bin_address ! 0, addr_stream = bin_address ! 1,
                     addr_ripe = replicate (RIPEMD160_DIGEST_LENGTH - n) 0 @ ripe\<rparr>)"

definition ntb_address_equal :: "ntb_address \<Rightarrow> ntb_address \<Rightarrow> bool" where
  "ntb_address_equal a b \<longleftrightarrow> addr_version a = addr_version b \<and> addr_stream a = addr_stream b \<and>
     take RIPEMD160_DIGEST_LENGTH (addr_ripe a) = take RIPEMD160_DIGEST_LENGTH (addr_ripe b)"

text \<open>
  The digest is written to a local array of \<open>SHA_DIGEST_LENGTH\<close> bytes; writing more than that is a fault.
\<close>

definition ntb_address_from_network_keys ::
    "(u8 list \<Rightarrow> u8 list) \<Rightarrow> (u8 list \<Rightarrow> u8 list) \<Rightarrow> u8 \<Rightarrow> u8 \<Rightarrow> u8 list \<Rightarrow> u8 list \<Rightarrow> ntb_address outcome" where
  "ntb_address_from_network_keys sha512 ripemd160 ver strm public_signing_key public_encryption_key =
     (let sha_hash = sha512 ([0x04] @ public_signing_key @ [0x04] @ public_encryption_key)
      in if length sha_hash > SHA_DIGEST_LENGTH then Fault
         else Ok \<lparr>addr_version = ver, addr_stream = strm, addr_ripe = ripemd160 sha_hash\<rparr>)"

text \<open>The tag and the private key derived from the address; both outputs are optional in the code.\<close>

definition ntb_address_get_tag ::
    "(u8 list \<Rightarrow> u8 list) \<Rightarrow> ntb_address \<Rightarrow> (u8 list \<times> u8 list) outcome" where
  "ntb_address_get_tag sha512 a =
     (let buffer = ntb_proto_add_var_int (ntb_proto_add_var_int ntb_buffer_init (ucast (addr_version a)))
                     (ucast (addr_stream a))
      in case those (contents buffer) of
           None \<Rightarrow> Fault
         | Some bytes \<Rightarrow>
             let hash1 = sha512 (bytes @ take RIPEMD160_DIGEST_LENGTH (addr_ripe a));
                 hash2 = sha512 hash1
             in Ok (take NTB_ADDRESS_TAG_SIZE (drop NTB_ECC_PRIVATE_KEY_SIZE hash2),
                    take NTB_ECC_PRIVATE_KEY_SIZE hash2))"

section \<open>Lemmas\<close>

definition address_ok :: "ntb_address \<Rightarrow> bool" where
  "address_ok a \<longleftrightarrow> length (addr_ripe a) = RIPEMD160_DIGEST_LENGTH"

definition digest_ok :: "(u8 list \<Rightarrow> u8 list) \<Rightarrow> bool" where
  "digest_ok sha512 \<longleftrightarrow> (\<forall>m. length (sha512 m) = 64)"

lemma trim_ripe_eq:
  assumes "n \<le> length ripe"
  obtains z r where "trim_ripe n ripe = Ok r" "ripe = replicate z 0 @ r" "z \<le> n"
proof -
  have "\<exists>z r. trim_ripe n ripe = Ok r \<and> ripe = replicate z 0 @ r \<and> z \<le> n"
    using assms
  proof (induction n ripe rule: trim_ripe.induct)
    case (1 ripe)
    then show ?case by simp
  next
    case (3 n b ripe)
    show ?case
    proof (cases "b = 0")
      case True
      then obtain z r where "trim_ripe n ripe = Ok r" "ripe = replicate z 0 @ r" "z \<le> n"
        using 3 by auto
      with True show ?thesis by (intro exI [of _ "Suc z"] exI [of _ r]) simp
    next
      case False
      then show ?thesis by (intro exI [of _ 0] exI [of _ "b # ripe"]) simp
    qed
  qed simp
  then show thesis using that by blast
qed

lemma length_checksum: "digest_ok sha512 \<Longrightarrow> length (calc_checksum sha512 v s r) = 4"
  by (simp add: calc_checksum_def digest_ok_def)

lemma strip_prefix_BM [simp]: "strip_prefix (str ''BM-'' @ s) = s"
  by (simp add: strip_prefix_def)

lemma decode_of_body:
  assumes "digest_ok sha512" "length r \<le> RIPEMD160_DIGEST_LENGTH"
    and "ntb_base58_decode bn (strip_prefix s) bin_address_size = Ok (v # t # r @ calc_checksum sha512 v t r)"
  shows "ntb_address_decode bn sha512 s =
    Ok \<lparr>addr_version = v, addr_stream = t, addr_ripe = replicate (RIPEMD160_DIGEST_LENGTH - length r) 0 @ r\<rparr>"
  using length_checksum [OF assms(1)]
  by (simp add: ntb_address_decode_def assms(3) Let_def nat_int_add)

lemma encode_length:
  assumes "bn_ok bn val" "length bs \<le> 26" "ntb_base58_encode bn bs = Some (Ok cs)"
  shows "length cs \<le> 36"
proof -
  have "be_value bs < 256 ^ length bs" by (rule be_value_less)
  also have "\<dots> \<le> 256 ^ 26" using assms(2) by (intro power_increasing) auto
  also have "\<dots> < (58 :: nat) ^ 36" by simp
  finally show ?thesis
    using assms(3) length_digits58 [of "be_value bs" 36]
    by (auto simp: encode_eq [OF assms(1)] split: if_splits)
qed

lemma base58_decode_length:
  assumes "bn_ok bn val" "ntb_base58_decode bn cs n = Ok bs"
  shows "length bs \<le> n"
proof (cases "cs = [alphabet ! 0]")
  case True
  then show ?thesis using assms(2) by (auto simp: decode_eq [OF assms(1)] split: if_splits)
next
  case False
  then have "bs = be_bytes (byte_length (value58 0 cs)) (value58 0 cs)" "value58 0 cs < 256 ^ n"
    using assms(2) by (auto simp: decode_eq [OF assms(1)] split: if_splits)
  then show ?thesis using byte_length_le_iff [of "value58 0 cs" n] by simp
qed

lemma split_body:
  assumes "6 \<le> length (bs :: u8 list)"
  shows "bs = bs ! 0 # bs ! 1 # take (length bs - 6) (drop 2 bs) @ take 4 (drop (length bs - 4) bs)"
proof -
  obtain v t r where bs: "bs = v # t # r" "4 \<le> length r"
    using assms by (cases bs rule: remdups_adj.cases) auto
  then have "take 4 (drop (length bs - 4) bs) = drop (length r - 4) r"
    by (simp add: drop_Cons' numeral_eq_Suc)
  then show ?thesis by (simp add: bs)
qed

section \<open>Properties\<close>

lemma address_encode_decode:
  assumes "bn_ok bn val" "digest_ok sha512" "address_ok a" "addr_version a \<noteq> 0"
  shows "\<exists>s. ntb_address_encode bn sha512 a = Some (Ok s) \<and> length s \<le> NTB_ADDRESS_MAX_LENGTH \<and>
    ntb_address_decode bn sha512 s = Ok a"
proof -
  define n where "n = (if addr_version a \<ge> 4 then RIPEMD160_DIGEST_LENGTH else 2)"
  have n: "n \<le> length (addr_ripe a)" using assms(3) by (simp add: n_def address_ok_def RIPEMD160_DIGEST_LENGTH_def)
  obtain z r where r: "trim_ripe n (addr_ripe a) = Ok r" "addr_ripe a = replicate z 0 @ r"
    by (rule trim_ripe_eq [OF n])
  have len: "z + length r = RIPEMD160_DIGEST_LENGTH"
    using assms(3) r(2) by (simp add: address_ok_def)
  define body where "body = addr_version a # addr_stream a # r @ calc_checksum sha512 (addr_version a) (addr_stream a) r"
  have lb: "length body \<le> bin_address_size"
    using len length_checksum [OF assms(2)] by (simp add: body_def bin_address_size_def)
  obtain cs where cs: "ntb_base58_encode bn body = Some (Ok cs)"
      "ntb_base58_decode bn cs bin_address_size = Ok body"
    using base58_encode_decode [OF assms(1) _ lb] assms(4) by (auto simp: body_def)
  have "length cs \<le> 36"
    using encode_length [OF assms(1) _ cs(1)] lb by (simp add: bin_address_size_def RIPEMD160_DIGEST_LENGTH_def)
  moreover have "ntb_address_encode bn sha512 a = Some (Ok (str ''BM-'' @ cs))"
    using r(1) lb cs(1) unfolding ntb_address_encode_def Let_def n_def [symmetric]
    by (simp only: r(1) outcome.case body_def [symmetric]) simp
  moreover have "ntb_address_decode bn sha512 (str ''BM-'' @ cs) = Ok a"
  proof -
    have z: "RIPEMD160_DIGEST_LENGTH - length r = z" and le: "length r \<le> RIPEMD160_DIGEST_LENGTH"
      using len by auto
    have "ntb_base58_decode bn (strip_prefix (str ''BM-'' @ cs)) bin_address_size = Ok body"
      by (simp only: strip_prefix_BM cs(2))
    note d = decode_of_body [OF assms(2) le this [unfolded body_def], unfolded z, folded r(2)]
    show ?thesis unfolding d by simp
  qed
  ultimately show ?thesis by (auto simp: NTB_ADDRESS_MAX_LENGTH_def)
qed

text \<open>
  C35: Every address with a non-zero version is written, including its prefix, in at most
  \<open>NTB_ADDRESS_MAX_LENGTH\<close> characters, and reading the text gives the same address back; the zeros
  that the writer removed from the front of the hash are restored.\<close>
theorem address_roundtrip:
  assumes "bn_ok bn val" "digest_ok sha512" "address_ok a" "addr_version a \<noteq> 0"
  shows "\<exists>s. ntb_address_encode bn sha512 a = Some (Ok s) \<and> length s \<le> NTB_ADDRESS_MAX_LENGTH \<and>
    ntb_address_decode bn sha512 s = Ok a"
  by (rule address_encode_decode [OF assms])

text \<open>
  Whatever text is accepted as an address, with or without the prefix, has a 20-byte hash and
  carries the matching checksum: its bytes are version, stream, the hash without some leading zeros,
  and the checksum over exactly these.\<close>
theorem address_decode_sound:
  assumes "bn_ok bn val" "digest_ok sha512" "ntb_address_decode bn sha512 s = Ok a"
  shows "address_ok a \<and>
    (\<exists>z r. addr_ripe a = replicate z 0 @ r \<and>
      ntb_base58_decode bn (strip_prefix s) bin_address_size =
        Ok (addr_version a # addr_stream a # r @ calc_checksum sha512 (addr_version a) (addr_stream a) r))"
proof -
  obtain bs where bs: "ntb_base58_decode bn (strip_prefix s) bin_address_size = Ok bs"
    and ge: "6 \<le> length bs"
    and chk: "calc_checksum sha512 (bs ! 0) (bs ! 1) (take (length bs - 6) (drop 2 bs)) =
      take 4 (drop (length bs - 4) bs)"
    and a: "a = \<lparr>addr_version = bs ! 0, addr_stream = bs ! 1, addr_ripe =
      replicate (RIPEMD160_DIGEST_LENGTH - (length bs - 6)) 0 @ take (length bs - 6) (drop 2 bs)\<rparr>"
  proof -
    obtain bs where bs: "ntb_base58_decode bn (strip_prefix s) bin_address_size = Ok bs"
      using assms(3) by (auto simp: ntb_address_decode_def)
    then have ge: "6 \<le> length bs"
      using assms(3) by (auto simp: ntb_address_decode_def Let_def split: if_splits)
    have n: "nat (int (length bs) - 1 - 1 - 4) = length bs - 6" "2 + (length bs - 6) = length bs - 4"
      "\<not> int (length bs) - 1 - 1 - 4 < 0"
      using ge by auto
    show thesis
      using that [OF bs ge] assms(3) unfolding ntb_address_decode_def bs bind_outcome.simps Let_def n
      by (auto split: if_splits)
  qed
  have "length bs \<le> 26"
    using base58_decode_length [OF assms(1) bs] by (simp add: bin_address_size_def RIPEMD160_DIGEST_LENGTH_def)
  then have "address_ok a"
    using ge by (simp add: a address_ok_def RIPEMD160_DIGEST_LENGTH_def)
  moreover have "bs = bs ! 0 # bs ! 1 # take (length bs - 6) (drop 2 bs) @
      calc_checksum sha512 (bs ! 0) (bs ! 1) (take (length bs - 6) (drop 2 bs))"
    unfolding chk by (rule split_body [OF ge])
  then have "ntb_base58_decode bn (strip_prefix s) bin_address_size =
      Ok (bs ! 0 # bs ! 1 # take (length bs - 6) (drop 2 bs) @
        calc_checksum sha512 (bs ! 0) (bs ! 1) (take (length bs - 6) (drop 2 bs)))"
    by (simp only: bs)
  then have "\<exists>z r. addr_ripe a = replicate z 0 @ r \<and>
      ntb_base58_decode bn (strip_prefix s) bin_address_size =
        Ok (addr_version a # addr_stream a # r @ calc_checksum sha512 (addr_version a) (addr_stream a) r)"
    unfolding a ntb_address.select_convs by blast
  ultimately show ?thesis by blast
qed

text \<open>
  With a SHA-512 of 64 bytes, computing an address from the keys of a network command
  always writes beyond the 20-byte array that the code provides for the digest.\<close>
theorem from_network_keys_overflows:
  assumes "digest_ok sha512"
  shows "ntb_address_from_network_keys sha512 ripemd160 v t signing encryption = Fault"
  using assms by (simp add: ntb_address_from_network_keys_def digest_ok_def SHA_DIGEST_LENGTH_def)

lemma tag_and_key_split:
  assumes "digest_ok sha512" "address_ok a"
  obtains tag_bytes private_key where "ntb_address_get_tag sha512 a = Ok (tag_bytes, private_key)"
    "length tag_bytes = NTB_ADDRESS_TAG_SIZE" "length private_key = NTB_ECC_PRIVATE_KEY_SIZE"
    "private_key @ tag_bytes = sha512 (sha512 (var_int_bytes (ucast (addr_version a)) @
       var_int_bytes (ucast (addr_stream a)) @ addr_ripe a))"
proof -
  define h where "h = sha512 (sha512 (var_int_bytes (ucast (addr_version a)) @
       var_int_bytes (ucast (addr_stream a)) @ addr_ripe a))"
  have h: "length h = 64" using assms(1) by (simp add: h_def digest_ok_def)
  have "those (contents (ntb_proto_add_var_int (ntb_proto_add_var_int ntb_buffer_init (ucast (addr_version a)))
      (ucast (addr_stream a)))) = Some (var_int_bytes (ucast (addr_version a)) @ var_int_bytes (ucast (addr_stream a)))"
    by (simp add: ntb_contents contents_init those_map_Some flip: map_append)
  then have "ntb_address_get_tag sha512 a = Ok (take 32 (drop 32 h), take 32 h)"
    using assms(2) by (simp add: ntb_address_get_tag_def Let_def NTB_ADDRESS_TAG_SIZE_def
      NTB_ECC_PRIVATE_KEY_SIZE_def h_def address_ok_def)
  moreover have "take 32 h @ take 32 (drop 32 h) = h"
    using h by (simp add: append_take_drop_id)
  ultimately show thesis
    unfolding h_def [symmetric]
    by (intro that [unfolded h_def [symmetric], of "take 32 (drop 32 h)" "take 32 h"])
      (simp_all only: length_take length_drop NTB_ADDRESS_TAG_SIZE_def NTB_ECC_PRIVATE_KEY_SIZE_def h)
qed

lemma address_equal_iff:
  assumes "address_ok a" "address_ok b"
  shows "ntb_address_equal a b \<longleftrightarrow> a = b"
  using assms by (cases a; cases b) (auto simp: ntb_address_equal_def address_ok_def)

text \<open>A digest for the examples: the length of the message, 64 times.\<close>

definition sample_digest :: "u8 list \<Rightarrow> u8 list" where
  "sample_digest m = replicate 64 (word_of_nat (length m))"

definition sample_address :: ntb_address where
  "sample_address = \<lparr>addr_version = 4, addr_stream = 1, addr_ripe = replicate 18 0 @ [7, 9]\<rparr>"

lemma sample_digest_ok: "digest_ok sample_digest"
  by (simp add: digest_ok_def sample_digest_def)

lemma sample_address_ok: "address_ok sample_address"
  by (simp add: address_ok_def sample_address_def RIPEMD160_DIGEST_LENGTH_def)

theorem address_roundtrip_witness:
  "\<exists>s. ntb_address_encode nat_bignum sample_digest sample_address = Some (Ok s) \<and>
    ntb_address_decode nat_bignum sample_digest s = Ok sample_address"
  using address_roundtrip [OF nat_bignum_ok sample_digest_ok sample_address_ok]
  by (auto simp: sample_address_def)

theorem from_network_keys_overflows_witness:
  "ntb_address_from_network_keys sample_digest sample_digest 3 1 (replicate 64 1) (replicate 64 2) = Fault"
  by (rule from_network_keys_overflows [OF sample_digest_ok])

theorem address_decode_sound_witness:
  "\<exists>s a. ntb_address_decode nat_bignum sample_digest s = Ok a \<and> address_ok a"
proof -
  obtain s where s: "ntb_address_decode nat_bignum sample_digest s = Ok sample_address"
    using address_encode_decode [OF nat_bignum_ok sample_digest_ok sample_address_ok]
    by (auto simp: sample_address_def)
  then show ?thesis
    using address_decode_sound [OF nat_bignum_ok sample_digest_ok s] by blast
qed

end
