(* ===== verification/Ntb_Base64.thy ===== *)
theory Ntb_Base64
  imports Ntb_Prelude
begin

text \<open>
  The base-64 decoder and encoder of \<open>ntb-base64.c\<close>. The decoder is fed in chunks and keeps its state in
  a \<open>struct ntb_base64_data\<close>; a call returns the bytes it wrote to the output, or \<open>None\<close> for the padding
  error. The accumulator is an \<open>int\<close> into which every character is shifted without ever being cleared:
  it is a 32-bit word here, so that the shift wraps.
\<close>

unbundle bit_operations_syntax

section \<open>Stream decoders\<close>

text \<open>
  The contract that both decoders of the mail code have: decoding a text in pieces is the same as
  decoding it in one piece. A decoder takes a state and a chunk and returns the new state and the
  output, or no output for an error.
\<close>

definition then_decode :: "'d \<times> u8 list option \<Rightarrow> ('d \<Rightarrow> 'd \<times> u8 list option) \<Rightarrow> 'd \<times> u8 list option" where
  "then_decode r f = (case r of
     (d, None) \<Rightarrow> (d, None)
   | (d, Some out) \<Rightarrow> (case f d of (d', None) \<Rightarrow> (d', None) | (d', Some out') \<Rightarrow> (d', Some (out @ out'))))"

fun decode_chunks :: "('d \<Rightarrow> u8 list \<Rightarrow> 'd \<times> u8 list option) \<Rightarrow> 'd \<Rightarrow> u8 list list \<Rightarrow> 'd \<times> u8 list option" where
  "decode_chunks dec d [] = (d, Some [])"
| "decode_chunks dec d (c # cs) = then_decode (dec d c) (\<lambda>d. decode_chunks dec d cs)"

lemma then_decode_assoc:
  "then_decode (then_decode r f) g = then_decode r (\<lambda>d. then_decode (f d) g)"
  by (auto simp: then_decode_def split: prod.splits option.splits)

lemma then_decode_cong: "f d = g d \<Longrightarrow> then_decode (d, r) f = then_decode (d, r) g"
  by (simp add: then_decode_def)

lemma then_decode_empty [simp]: "then_decode (d, Some []) f = f d"
  by (auto simp: then_decode_def split: prod.splits option.splits)

lemma then_decode_None [simp]: "then_decode (d, None) f = (d, None)"
  by (simp add: then_decode_def)

lemma then_decode_return [simp]: "then_decode r (\<lambda>d. (d, Some [])) = r"
  by (auto simp: then_decode_def split: prod.splits option.splits)

locale stream_decoder =
  fixes dec :: "'d \<Rightarrow> u8 list \<Rightarrow> 'd \<times> u8 list option"
  assumes dec_Nil: "dec d [] = (d, Some [])"
    and dec_append: "dec d (xs @ ys) = then_decode (dec d xs) (\<lambda>d. dec d ys)"
begin

lemma chunks_concat: "decode_chunks dec d cs = dec d (concat cs)"
  by (induction cs arbitrary: d) (simp_all add: dec_Nil dec_append)

lemma chunks_independent:
  "concat cs = concat cs' \<Longrightarrow> decode_chunks dec d cs = decode_chunks dec d cs'"
  by (simp add: chunks_concat)

end

section \<open>Decoding\<close>

record ntb_base64_data =
  b64_n_padding :: nat
  b64_n_chars :: nat
  b64_value :: u32

definition alphabet_value :: "int \<Rightarrow> int" where
  "alphabet_value ch =
     (if ch = 0x2f then 63
      else if ch = 0x2b then 62
      else if ch \<le> 0x39 then if ch < 0x30 then - 1 else ch - 0x30 + 26 * 2
      else if ch \<le> 0x5a then if ch < 0x41 then - 1 else ch - 0x41
      else if ch \<le> 0x7a then if ch < 0x61 then - 1 else ch - 0x61 + 26
      else - 1)"

definition ntb_base64_decode_start :: ntb_base64_data where
  "ntb_base64_decode_start = \<lparr>b64_n_padding = 0, b64_n_chars = 0, b64_value = 0\<rparr>"

fun handle_padding :: "ntb_base64_data \<Rightarrow> u8 list \<Rightarrow> ntb_base64_data \<times> bool" where
  "handle_padding d [] = (d, True)"
| "handle_padding d (c # cs) =
     (if c = 0x3d
      then let d = d\<lparr>b64_n_padding := b64_n_padding d + 1\<rparr>
           in if b64_n_padding d > 2 then (d, False) else handle_padding d cs
      else if alphabet_value (uint c) \<noteq> - 1 then (d, False)
      else handle_padding d cs)"

fun base64_loop :: "ntb_base64_data \<Rightarrow> u8 list \<Rightarrow> ntb_base64_data \<times> u8 list option" where
  "base64_loop d [] = (d, Some [])"
| "base64_loop d (c # cs) =
     (let ch_value = alphabet_value (uint c) in
      if ch_value \<ge> 0
      then
        let d = d\<lparr>b64_value := push_bit 6 (b64_value d) OR word_of_int ch_value,
                  b64_n_chars := b64_n_chars d + 1\<rparr>;
            v = b64_value d
        in if b64_n_chars d \<ge> 4
           then then_decode (d\<lparr>b64_n_chars := 0\<rparr>, Some [ucast (drop_bit 16 v), ucast (drop_bit 8 v), ucast v])
                  (\<lambda>d. base64_loop d cs)
           else base64_loop d cs
      else if c = 0x3d
      then case handle_padding d (c # cs) of (d, ok) \<Rightarrow> (d, if ok then Some [] else None)
      else base64_loop d cs)"

definition ntb_base64_decode :: "ntb_base64_data \<Rightarrow> u8 list \<Rightarrow> ntb_base64_data \<times> u8 list option" where
  "ntb_base64_decode d in_buffer =
     (if b64_n_padding d > 0
      then case handle_padding d in_buffer of (d, ok) \<Rightarrow> (d, if ok then Some [] else None)
      else base64_loop d in_buffer)"

text \<open>The end of the data. A padding count above two runs into the failing assertion.\<close>

definition ntb_base64_decode_end :: "ntb_base64_data \<Rightarrow> u8 list outcome" where
  "ntb_base64_decode_end d =
     (let n = b64_n_padding d; v = b64_value d in
      if n = 0 then if b64_n_chars d \<noteq> 0 then Fail else Ok []
      else if n = 1 then
        if b64_n_chars d \<noteq> 3 \<or> v AND 3 \<noteq> 0 then Fail
        else Ok [ucast (drop_bit 10 v), ucast (drop_bit 2 v)]
      else if n = 2 then
        if b64_n_chars d \<noteq> 2 \<or> v AND 15 \<noteq> 0 then Fail
        else Ok [ucast (drop_bit 4 v)]
      else Fault)"

section \<open>Encoding\<close>

definition to_alphabet_value :: "int \<Rightarrow> int" where
  "to_alphabet_value v =
     (if v < 26 then v + 0x41
      else if v < 52 then v - 26 + 0x61
      else if v < 62 then v - 52 + 0x30
      else if v = 62 then 0x2b
      else 0x2f)"

definition b64_char :: "u32 \<Rightarrow> u8" where
  "b64_char v = word_of_int (to_alphabet_value (uint v))"

fun ntb_base64_encode :: "u8 list \<Rightarrow> u8 list" where
  "ntb_base64_encode (a # b # c # rest) =
     (let v = push_bit 16 (ucast a) OR push_bit 8 (ucast b) OR ucast c :: u32
      in [b64_char (drop_bit 18 v), b64_char (drop_bit 12 v AND 63), b64_char (drop_bit 6 v AND 63),
          b64_char (v AND 63)] @ ntb_base64_encode rest)"
| "ntb_base64_encode [] = []"
| "ntb_base64_encode [a] =
     (let v = push_bit 16 (ucast a) :: u32
      in [b64_char (drop_bit 18 v), b64_char (drop_bit 12 v AND 63), 0x3d, 0x3d])"
| "ntb_base64_encode [a, b] =
     (let v = push_bit 16 (ucast a) OR push_bit 8 (ucast b) :: u32
      in [b64_char (drop_bit 18 v), b64_char (drop_bit 12 v AND 63), b64_char (drop_bit 6 v AND 63), 0x3d])"

section \<open>Streaming\<close>

lemma alphabet_value_equals [simp]: "alphabet_value 61 = - 1"
  by (simp add: alphabet_value_def)

lemma handle_padding_append:
  "handle_padding d (xs @ ys) =
     (case handle_padding d xs of (d', True) \<Rightarrow> handle_padding d' ys | (d', False) \<Rightarrow> (d', False))"
  by (induction d xs rule: handle_padding.induct) (simp_all add: Let_def)

lemma handle_padding_mono: "b64_n_padding d \<le> b64_n_padding (fst (handle_padding d xs))"
  by (induction d xs rule: handle_padding.induct) (auto simp: Let_def)

lemma handle_padding_positive:
  "handle_padding d (0x3d # cs) = (d', ok) \<Longrightarrow> 0 < b64_n_padding d'"
  using handle_padding_mono [of "d\<lparr>b64_n_padding := Suc (b64_n_padding d)\<rparr>" cs]
  by (auto simp: Let_def split: if_splits)

lemma base64_loop_append:
  assumes "b64_n_padding d = 0"
  shows "base64_loop d (xs @ ys) = then_decode (base64_loop d xs) (\<lambda>d. ntb_base64_decode d ys)"
  using assms
proof (induction xs arbitrary: d)
  case Nil
  then show ?case by (simp add: ntb_base64_decode_def)
next
  case (Cons c cs)
  show ?case
  proof (cases "alphabet_value (uint c) \<ge> 0 \<or> c \<noteq> 0x3d")
    case True
    then show ?thesis
      using Cons.prems Cons.IH by (auto simp: Let_def then_decode_assoc cong: then_decode_cong)
  next
    case False
    obtain d' ok where p: "handle_padding d (c # cs) = (d', ok)"
      by (cases "handle_padding d (c # cs)")
    have "0 < b64_n_padding d'"
      using p False handle_padding_positive by blast
    moreover have "handle_padding d (c # cs @ ys) = (if ok then handle_padding d' ys else (d', False))"
      using handle_padding_append [of d "c # cs" ys] p by (simp split: bool.splits)
    ultimately show ?thesis
      using False p by (simp add: Let_def ntb_base64_decode_def del: handle_padding.simps split: prod.splits)
  qed
qed

interpretation base64: stream_decoder ntb_base64_decode
proof
  show "ntb_base64_decode d [] = (d, Some [])" for d
    by (simp add: ntb_base64_decode_def)
  show "ntb_base64_decode d (xs @ ys) = then_decode (ntb_base64_decode d xs) (\<lambda>d. ntb_base64_decode d ys)"
    for d xs ys
  proof (cases "b64_n_padding d = 0")
    case True
    then show ?thesis
      using base64_loop_append [OF True] by (simp add: ntb_base64_decode_def)
  next
    case False
    obtain d' ok where p: "handle_padding d xs = (d', ok)" by (cases "handle_padding d xs")
    have "0 < b64_n_padding d'"
      using False handle_padding_mono [of d xs] p by simp
    then show ?thesis
      using False p by (cases ok) (simp_all add: ntb_base64_decode_def handle_padding_append split: prod.splits)
  qed
qed

section \<open>Output sizes\<close>

lemma handle_padding_n_chars: "b64_n_chars (fst (handle_padding d xs)) = b64_n_chars d"
  by (induction d xs rule: handle_padding.induct) (auto simp: Let_def)

lemma base64_loop_bound:
  "case base64_loop d cs of (d', r) \<Rightarrow> \<forall>out. r = Some out \<longrightarrow>
     4 * length out + 3 * b64_n_chars d' \<le> 3 * (b64_n_chars d + length cs)"
proof (induction cs arbitrary: d)
  case (Cons c cs)
  show ?case
  proof (cases "alphabet_value (uint c) \<ge> 0")
    case True
    define e where "e = d\<lparr>b64_value := push_bit 6 (b64_value d) OR word_of_int (alphabet_value (uint c)),
        b64_n_chars := b64_n_chars d + 1\<rparr>"
    have "b64_n_chars e = Suc (b64_n_chars d)" by (simp add: e_def)
    then show ?thesis
      using True Cons.IH [of e] Cons.IH [of "e\<lparr>b64_n_chars := 0\<rparr>"]
      by (auto simp: Let_def then_decode_def e_def [symmetric] simp del: One_nat_def split: prod.splits option.splits)
  next
    case False
    show ?thesis
      using False Cons.IH [of d] handle_padding_n_chars [of d "c # cs"]
      by (auto simp del: handle_padding.simps simp: Let_def split: prod.splits)
  qed
qed simp

lemma base64_decode_bound:
  assumes "ntb_base64_decode d cs = (d', Some out)"
  shows "4 * length out + 3 * b64_n_chars d' \<le> 3 * (b64_n_chars d + length cs)"
  using assms base64_loop_bound [of d cs] handle_padding_n_chars [of d cs]
  by (auto simp: ntb_base64_decode_def split: if_splits prod.splits)

lemma length_encode: "length (ntb_base64_encode bs) = 4 * ((length bs + 2) div 3)"
proof (induction bs rule: ntb_base64_encode.induct)
  case (1 a b c rest)
  have "(length rest + 5) div 3 = Suc ((length rest + 2) div 3)" by presburger
  with 1 show ?case by (simp add: Let_def add.commute)
qed (simp_all add: Let_def)

section \<open>Round trip\<close>

lemma alphabet_value_inverse:
  assumes "0 \<le> v" "v < 64"
  shows "alphabet_value (to_alphabet_value v) = v" "0 \<le> to_alphabet_value v" "to_alphabet_value v < 256"
  using assms by (auto simp: alphabet_value_def to_alphabet_value_def)

lemma alphabet_value_b64_char:
  assumes "v < 64"
  shows "alphabet_value (uint (b64_char v)) = uint v"
proof -
  have v: "0 \<le> uint v" "uint v < 64" using assms by (auto simp: word_less_def)
  then have "uint (b64_char v) = to_alphabet_value (uint v)"
    using alphabet_value_inverse [of "uint v"] by (simp add: b64_char_def uint_word_of_int)
  then show ?thesis using alphabet_value_inverse(1) [OF v] by simp
qed

definition shift_in :: "u32 \<Rightarrow> u32 \<Rightarrow> u32" where
  "shift_in x v = push_bit 6 x OR v"

lemma base64_loop_char:
  assumes "v < 64"
  shows "base64_loop d (b64_char v # cs) =
    (let d = d\<lparr>b64_value := shift_in (b64_value d) v, b64_n_chars := b64_n_chars d + 1\<rparr>; w = b64_value d
     in if b64_n_chars d \<ge> 4
        then then_decode (d\<lparr>b64_n_chars := 0\<rparr>, Some [ucast (drop_bit 16 w), ucast (drop_bit 8 w), ucast w])
               (\<lambda>d. base64_loop d cs)
        else base64_loop d cs)"
  using alphabet_value_b64_char [OF assms] by (simp add: Let_def shift_in_def)

lemma base64_loop_equals:
  "base64_loop d (0x3d # cs) =
     (case handle_padding d (0x3d # cs) of (d, ok) \<Rightarrow> (d, if ok then Some [] else None))"
  by (simp add: Let_def del: handle_padding.simps)

lemma take_bit_6_less: "take_bit 6 w < (64 :: u32)"
  by (simp add: word_less_nat_alt unsigned_take_bit_eq take_bit_nat_def)

lemma masked_less: "w AND 63 < (64 :: u32)"
proof -
  have "w AND 63 = take_bit 6 w"
    by (simp add: take_bit_eq_mask mask_eq_exp_minus_1)
  then show ?thesis using take_bit_6_less by simp
qed

text \<open>Three bytes as a 24-bit number, and the accumulator after the four characters for it.\<close>

definition pack :: "u8 \<Rightarrow> u8 \<Rightarrow> u8 \<Rightarrow> u32" where
  "pack a b c = push_bit 16 (ucast a) OR push_bit 8 (ucast b) OR ucast c"

definition quad :: "u32 \<Rightarrow> u32 \<Rightarrow> u32" where
  "quad x v = shift_in (shift_in (shift_in (shift_in x (drop_bit 18 v)) (drop_bit 12 v AND 63))
     (drop_bit 6 v AND 63)) (v AND 63)"

lemma u8_bitI:
  fixes x y :: u8
  assumes "bit x 0 = bit y 0" "bit x 1 = bit y 1" "bit x 2 = bit y 2" "bit x 3 = bit y 3"
    "bit x 4 = bit y 4" "bit x 5 = bit y 5" "bit x 6 = bit y 6" "bit x 7 = bit y 7"
  shows "x = y"
proof (rule bit_word_eqI)
  fix n
  assume "n < LENGTH(8)"
  then have "n \<in> {0, 1, 2, 3, 4, 5, 6, 7}" by auto
  then show "bit x n = bit y n" using assms by auto
qed

lemma bit_63: "bit (63 :: u32) n \<longleftrightarrow> n < 6"
proof -
  have "(63 :: u32) = mask 6" by (simp add: mask_eq_exp_minus_1)
  then have "bit (63 :: u32) n \<longleftrightarrow> n < 32 \<and> n < 6" by (simp only: bit_mask_iff) simp
  then show ?thesis by auto
qed

lemma u8_bit_high: "8 \<le> n \<Longrightarrow> \<not> bit (b :: u8) n"
  using bit_imp_le_length [of b n] by auto

lemma quad_pack:
  "ucast (drop_bit 16 (quad x (pack a b c))) = a" "ucast (drop_bit 8 (quad x (pack a b c))) = b"
  "ucast (quad x (pack a b c)) = c"
  by (rule u8_bitI; simp add: quad_def shift_in_def pack_def bit_simps bit_63 u8_bit_high)+

lemma pack_top: "drop_bit 18 (pack a b c) < 64"
proof -
  have "drop_bit 18 (pack a b c) = take_bit 6 (drop_bit 18 (pack a b c))"
    by (rule bit_word_eqI) (auto simp: pack_def bit_simps dest: bit_imp_le_length)
  then show ?thesis using take_bit_6_less by metis
qed

lemma base64_loop_quad:
  assumes "b64_n_chars d = 0"
  shows "base64_loop d ([b64_char (drop_bit 18 (pack a b c)), b64_char (drop_bit 12 (pack a b c) AND 63),
      b64_char (drop_bit 6 (pack a b c) AND 63), b64_char (pack a b c AND 63)] @ cs) =
    then_decode (d\<lparr>b64_value := quad (b64_value d) (pack a b c), b64_n_chars := 0\<rparr>, Some [a, b, c])
      (\<lambda>d. base64_loop d cs)"
  using assms
  by (simp add: base64_loop_char pack_top masked_less Let_def quad_def [symmetric] quad_pack
      del: base64_loop.simps)

lemma and_3_15: "w AND 3 = take_bit 2 (w :: u32)" "w AND 15 = take_bit 4 (w :: u32)"
  by (simp_all add: take_bit_eq_mask mask_eq_exp_minus_1)

text \<open>The accumulator after the characters for the last one or two bytes.\<close>

lemma tail_one:
  defines "w x a \<equiv> shift_in (shift_in x (drop_bit 18 (pack a 0 0))) (drop_bit 12 (pack a 0 0) AND 63)"
  shows "w x a AND 15 = 0" "ucast (drop_bit 4 (w x a)) = a"
proof -
  show "w x a AND 15 = 0"
    unfolding and_3_15 by (rule bit_word_eqI) (auto simp: w_def shift_in_def pack_def bit_simps)
  show "ucast (drop_bit 4 (w x a)) = a"
    by (rule u8_bitI; simp add: w_def shift_in_def pack_def bit_simps bit_63 u8_bit_high)
qed

lemma tail_two:
  defines "w x a b \<equiv> shift_in (shift_in (shift_in x (drop_bit 18 (pack a b 0))) (drop_bit 12 (pack a b 0) AND 63))
     (drop_bit 6 (pack a b 0) AND 63)"
  shows "w x a b AND 3 = 0" "ucast (drop_bit 10 (w x a b)) = a" "ucast (drop_bit 2 (w x a b)) = b"
proof -
  show "w x a b AND 3 = 0"
    unfolding and_3_15 by (rule bit_word_eqI) (auto simp: w_def shift_in_def pack_def bit_simps)
  show "ucast (drop_bit 10 (w x a b)) = a" "ucast (drop_bit 2 (w x a b)) = b"
    by (rule u8_bitI; simp add: w_def shift_in_def pack_def bit_simps bit_63 u8_bit_high)+
qed

lemma encode_pack:
  "ntb_base64_encode (a # b # c # rest) =
     [b64_char (drop_bit 18 (pack a b c)), b64_char (drop_bit 12 (pack a b c) AND 63),
      b64_char (drop_bit 6 (pack a b c) AND 63), b64_char (pack a b c AND 63)] @ ntb_base64_encode rest"
  "ntb_base64_encode [a] =
     [b64_char (drop_bit 18 (pack a 0 0)), b64_char (drop_bit 12 (pack a 0 0) AND 63), 0x3d, 0x3d]"
  "ntb_base64_encode [a, b] =
     [b64_char (drop_bit 18 (pack a b 0)), b64_char (drop_bit 12 (pack a b 0) AND 63),
      b64_char (drop_bit 6 (pack a b 0) AND 63), 0x3d]"
  by (simp_all add: pack_def Let_def)

definition decodes_to :: "ntb_base64_data \<Rightarrow> u8 list \<Rightarrow> u8 list \<Rightarrow> bool" where
  "decodes_to d cs bs \<longleftrightarrow> (\<exists>d' out rest. ntb_base64_decode d cs = (d', Some out) \<and>
     ntb_base64_decode_end d' = Ok rest \<and> out @ rest = bs)"

lemma decode_encode:
  assumes "b64_n_padding d = 0" "b64_n_chars d = 0"
  shows "decodes_to d (ntb_base64_encode bs) bs"
  using assms
proof (induction bs arbitrary: d rule: ntb_base64_encode.induct)
  case (1 a b c rest)
  define d1 where "d1 = d\<lparr>b64_value := quad (b64_value d) (pack a b c), b64_n_chars := 0\<rparr>"
  have "decodes_to d1 (ntb_base64_encode rest) rest"
    by (rule 1) (simp_all add: d1_def "1.prems")
  then obtain d' out r where r: "base64_loop d1 (ntb_base64_encode rest) = (d', Some out)"
      "ntb_base64_decode_end d' = Ok r" "out @ r = rest"
    using "1.prems"(1) by (auto simp: decodes_to_def ntb_base64_decode_def d1_def)
  have "base64_loop d (ntb_base64_encode (a # b # c # rest)) = (d', Some ([a, b, c] @ out))"
    unfolding encode_pack base64_loop_quad [OF "1.prems"(2)] d1_def [symmetric]
    by (simp add: then_decode_def r(1))
  then have "ntb_base64_decode d (ntb_base64_encode (a # b # c # rest)) = (d', Some ([a, b, c] @ out))"
    using "1.prems"(1) by (simp add: ntb_base64_decode_def)
  with r(2,3) show ?case unfolding decodes_to_def by auto
next
  case 2
  then show ?case by (simp add: decodes_to_def ntb_base64_decode_def ntb_base64_decode_end_def)
next
  case (3 a)
  then show ?case
    using tail_one [of "b64_value d" a]
    by (simp add: decodes_to_def ntb_base64_decode_def encode_pack base64_loop_char pack_top masked_less
        base64_loop_equals Let_def ntb_base64_decode_end_def del: ntb_base64_encode.simps base64_loop.simps)
next
  case (4 a b)
  then show ?case
    using tail_two [of "b64_value d" a b]
    by (simp add: decodes_to_def ntb_base64_decode_def encode_pack base64_loop_char pack_top masked_less
        base64_loop_equals Let_def ntb_base64_decode_end_def del: ntb_base64_encode.simps base64_loop.simps)
qed

section \<open>Properties\<close>

text \<open>
  Decoding the text that the encoder produced, cut into chunks in any way whatever, and
  finishing it gives the original bytes: no character is lost at a chunk boundary and the padding is
  accepted.\<close>
theorem base64_chunked_roundtrip:
  assumes "concat chunks = ntb_base64_encode bs"
  shows "\<exists>d out rest. decode_chunks ntb_base64_decode ntb_base64_decode_start chunks = (d, Some out) \<and>
    ntb_base64_decode_end d = Ok rest \<and> out @ rest = bs"
  using decode_encode [of ntb_base64_decode_start bs] assms
  by (simp add: base64.chunks_concat decodes_to_def ntb_base64_decode_start_def)

text \<open>
  A call writes at most three bytes for every four characters, counting the characters that
  are pending from earlier calls: \<open>n_chars\<close> characters that the state holds back and the new ones.\<close>
theorem base64_decode_output_bound:
  assumes "ntb_base64_decode d cs = (d', Some out)"
  shows "4 * length out + 3 * b64_n_chars d' \<le> 3 * (b64_n_chars d + length cs)"
  by (rule base64_decode_bound [OF assms])

theorem base64_chunked_roundtrip_witness:
  "\<exists>d out rest. decode_chunks ntb_base64_decode ntb_base64_decode_start
      [[0x41], [0x51, 0x49, 0x44], [], [0x42, 0x41, 0x3d], [0x3d]] = (d, Some out) \<and>
    ntb_base64_decode_end d = Ok rest \<and> out @ rest = [1, 2, 3, 4]"
proof -
  have "concat [[0x41], [0x51, 0x49, 0x44], [], [0x42, 0x41, 0x3d], [0x3d]] = ntb_base64_encode [1, 2, 3, 4]"
    by code_simp
  then show ?thesis by (rule base64_chunked_roundtrip)
qed

theorem base64_decode_output_bound_witness:
  "\<exists>d out. ntb_base64_decode ntb_base64_decode_start [0x41, 0x51, 0x49, 0x44, 0x42] = (d, Some out) \<and>
    4 * length out + 3 * b64_n_chars d \<le> 15"
proof -
  have "ntb_base64_decode ntb_base64_decode_start [0x41, 0x51, 0x49, 0x44, 0x42] =
      (\<lparr>b64_n_padding = 0, b64_n_chars = 1, b64_value = 0x4080c1\<rparr>, Some [1, 2, 3])"
    by code_simp
  from base64_decode_output_bound [OF this] this show ?thesis
    by (simp add: ntb_base64_decode_start_def)
qed

end
