(* ===== verification/Ntb_Quoted_Printable.thy ===== *)
theory Ntb_Quoted_Printable
  imports Ntb_Base64
begin

text \<open>
  The quoted-printable decoder of \<open>ntb-quoted-printable.c\<close>: a machine with five states whose handlers
  each process a prefix of the input and say how long it was. A handler returns the new state, the
  octets it wrote and the number of bytes it processed, or \<open>None\<close> for an invalid escape.
\<close>

unbundle bit_operations_syntax

section \<open>The decoder\<close>

datatype ntb_quoted_printable_state =
    QP_OCTET | QP_QUOTE_START | QP_SKIP_SPACES | QP_SOFT_CR | QP_ESCAPED_OCTET

record ntb_quoted_printable_data =
  qp_state :: ntb_quoted_printable_state
  qp_nibble :: int
  underscore_is_space :: bool

text \<open>Starting leaves the nibble indeterminate; it is an argument here.\<close>

definition ntb_quoted_printable_decode_start :: "int \<Rightarrow> bool \<Rightarrow> ntb_quoted_printable_data" where
  "ntb_quoted_printable_decode_start junk underscore =
     \<lparr>qp_state = QP_OCTET, qp_nibble = junk, underscore_is_space = underscore\<rparr>"

definition hex_value :: "int \<Rightarrow> int" where
  "hex_value ch =
     (if ch \<le> 0x39 then if ch < 0x30 then - 1 else ch - 0x30
      else if ch \<le> 0x46 then if ch < 0x41 then - 1 else ch - 0x41 + 10
      else if ch \<le> 0x66 then if ch < 0x61 then - 1 else ch - 0x61 + 10
      else - 1)"

definition output_octets :: "ntb_quoted_printable_data \<Rightarrow> u8 list \<Rightarrow> u8 list" where
  "output_octets d octets =
     (if underscore_is_space d then map (\<lambda>c. if c = 0x5f then 0x20 else c) octets else octets)"

type_synonym qp_result = "(ntb_quoted_printable_data \<times> u8 list \<times> nat) option"

definition handle_octet :: "ntb_quoted_printable_data \<Rightarrow> u8 list \<Rightarrow> qp_result" where
  "handle_octet d in_buffer =
     (case memchr in_buffer 0x3d of
        None \<Rightarrow> Some (d, output_octets d in_buffer, length in_buffer)
      | Some equals \<Rightarrow>
          Some (d\<lparr>qp_state := QP_QUOTE_START\<rparr>, output_octets d (take equals in_buffer), equals + 1))"

definition handle_quote_start :: "ntb_quoted_printable_data \<Rightarrow> u8 list \<Rightarrow> qp_result" where
  "handle_quote_start d in_buffer =
     (let c = in_buffer ! 0; nibble = hex_value (uint c) in
      if nibble \<ge> 0 then Some (d\<lparr>qp_nibble := nibble, qp_state := QP_ESCAPED_OCTET\<rparr>, [], 1)
      else if c = 0x20 \<or> c = 0x09 then Some (d\<lparr>qp_state := QP_SKIP_SPACES\<rparr>, [], 1)
      else if c = 0x0d then Some (d\<lparr>qp_state := QP_SOFT_CR\<rparr>, [], 1)
      else if c = 0x0a then Some (d\<lparr>qp_state := QP_OCTET\<rparr>, [], 1)
      else None)"

fun skip_loop :: "ntb_quoted_printable_data \<Rightarrow> u8 list \<Rightarrow> nat \<Rightarrow> qp_result" where
  "skip_loop d [] skip = Some (d, [], skip)"
| "skip_loop d (c # cs) skip =
     (if c = 0x20 \<or> c = 0x09 then skip_loop d cs (skip + 1)
      else if c = 0x0d then Some (d\<lparr>qp_state := QP_SOFT_CR\<rparr>, [], skip + 1)
      else if c = 0x0a then Some (d\<lparr>qp_state := QP_OCTET\<rparr>, [], skip + 1)
      else None)"

definition handle_skip_spaces :: "ntb_quoted_printable_data \<Rightarrow> u8 list \<Rightarrow> qp_result" where
  "handle_skip_spaces d in_buffer = skip_loop d in_buffer 0"

definition handle_soft_cr :: "ntb_quoted_printable_data \<Rightarrow> u8 list \<Rightarrow> qp_result" where
  "handle_soft_cr d in_buffer =
     (if in_buffer ! 0 \<noteq> 0x0a then None else Some (d\<lparr>qp_state := QP_OCTET\<rparr>, [], 1))"

definition handle_escaped_octet :: "ntb_quoted_printable_data \<Rightarrow> u8 list \<Rightarrow> qp_result" where
  "handle_escaped_octet d in_buffer =
     (let nibble = hex_value (uint (in_buffer ! 0)) in
      if nibble = - 1 then None
      else Some (d\<lparr>qp_state := QP_OCTET\<rparr>, [word_of_int (push_bit 4 (qp_nibble d) OR nibble)], 1))"

fun handle_state :: "ntb_quoted_printable_data \<Rightarrow> u8 list \<Rightarrow> qp_result" where
  "handle_state d in_buffer =
     (case qp_state d of
        QP_OCTET \<Rightarrow> handle_octet d in_buffer
      | QP_QUOTE_START \<Rightarrow> handle_quote_start d in_buffer
      | QP_SKIP_SPACES \<Rightarrow> handle_skip_spaces d in_buffer
      | QP_SOFT_CR \<Rightarrow> handle_soft_cr d in_buffer
      | QP_ESCAPED_OCTET \<Rightarrow> handle_escaped_octet d in_buffer)"

lemma skip_loop_progress: "skip_loop d cs skip = Some (d', out, n) \<Longrightarrow> skip + (if cs = [] then 0 else 1) \<le> n"
  by (induction d cs skip rule: skip_loop.induct) (fastforce split: if_splits)+

lemma handle_state_progress:
  "handle_state d in_buffer = Some (d', out, n) \<Longrightarrow> in_buffer \<noteq> [] \<Longrightarrow> 0 < n"
  by (auto simp: handle_octet_def handle_quote_start_def handle_skip_spaces_def handle_soft_cr_def
      handle_escaped_octet_def Let_def dest: skip_loop_progress split: ntb_quoted_printable_state.splits
      option.splits if_splits)

declare handle_state.simps [simp del]

text \<open>The loop terminates because every handler processes at least one byte.\<close>

function ntb_quoted_printable_decode ::
    "ntb_quoted_printable_data \<Rightarrow> u8 list \<Rightarrow> ntb_quoted_printable_data \<times> u8 list option" where
  "ntb_quoted_printable_decode d in_buffer =
     (if in_buffer = [] then (d, Some [])
      else case handle_state d in_buffer of
        None \<Rightarrow> (d, None)
      | Some (d', out, processed) \<Rightarrow>
          then_decode (d', Some out) (\<lambda>d. ntb_quoted_printable_decode d (drop processed in_buffer)))"
  by pat_completeness auto
termination
  by (relation "measure (\<lambda>(d, in_buffer). length in_buffer)") (auto dest: handle_state_progress)

declare ntb_quoted_printable_decode.simps [simp del]

definition ntb_quoted_printable_decode_end :: "ntb_quoted_printable_data \<Rightarrow> bool" where
  "ntb_quoted_printable_decode_end d \<longleftrightarrow> qp_state d = QP_OCTET"

section \<open>A machine that takes one octet at a time\<close>

fun qp_step :: "ntb_quoted_printable_data \<Rightarrow> u8 \<Rightarrow> ntb_quoted_printable_data \<times> u8 list option" where
  "qp_step d c =
     (case qp_state d of
        QP_OCTET \<Rightarrow>
          if c = 0x3d then (d\<lparr>qp_state := QP_QUOTE_START\<rparr>, Some [])
          else (d, Some [if underscore_is_space d \<and> c = 0x5f then 0x20 else c])
      | QP_QUOTE_START \<Rightarrow>
          if hex_value (uint c) \<ge> 0
          then (d\<lparr>qp_nibble := hex_value (uint c), qp_state := QP_ESCAPED_OCTET\<rparr>, Some [])
          else if c = 0x20 \<or> c = 0x09 then (d\<lparr>qp_state := QP_SKIP_SPACES\<rparr>, Some [])
          else if c = 0x0d then (d\<lparr>qp_state := QP_SOFT_CR\<rparr>, Some [])
          else if c = 0x0a then (d\<lparr>qp_state := QP_OCTET\<rparr>, Some [])
          else (d, None)
      | QP_SKIP_SPACES \<Rightarrow>
          if c = 0x20 \<or> c = 0x09 then (d, Some [])
          else if c = 0x0d then (d\<lparr>qp_state := QP_SOFT_CR\<rparr>, Some [])
          else if c = 0x0a then (d\<lparr>qp_state := QP_OCTET\<rparr>, Some [])
          else (d, None)
      | QP_SOFT_CR \<Rightarrow> if c = 0x0a then (d\<lparr>qp_state := QP_OCTET\<rparr>, Some []) else (d, None)
      | QP_ESCAPED_OCTET \<Rightarrow>
          if hex_value (uint c) = - 1 then (d, None)
          else (d\<lparr>qp_state := QP_OCTET\<rparr>, Some [word_of_int (push_bit 4 (qp_nibble d) OR hex_value (uint c))]))"

declare qp_step.simps [simp del]

fun qp_run :: "ntb_quoted_printable_data \<Rightarrow> u8 list \<Rightarrow> ntb_quoted_printable_data \<times> u8 list option" where
  "qp_run d [] = (d, Some [])"
| "qp_run d (c # cs) = then_decode (qp_step d c) (\<lambda>d. qp_run d cs)"

lemma qp_run_append: "qp_run d (xs @ ys) = then_decode (qp_run d xs) (\<lambda>d. qp_run d ys)"
  by (induction xs arbitrary: d) (simp_all add: then_decode_assoc)

lemma qp_run_octets:
  assumes "qp_state d = QP_OCTET" "0x3d \<notin> set cs"
  shows "qp_run d cs = (d, Some (output_octets d cs))"
  using assms(2)
  by (induction cs) (auto simp: qp_step.simps assms(1) output_octets_def then_decode_def)

lemma handle_octet_run:
  assumes "qp_state d = QP_OCTET" "handle_octet d cs = Some (d', out, n)"
  shows "qp_run d (take n cs) = (d', Some out)"
proof (cases "memchr cs 0x3d")
  case None
  then have "d' = d" "out = output_octets d cs" "n = length cs"
    using assms(2) by (auto simp: handle_octet_def)
  then show ?thesis
    using None assms(1) qp_run_octets by (simp add: memchr_None_iff)
next
  case (Some k)
  have k: "k < length cs" "cs ! k = 0x3d" "0x3d \<notin> set (take k cs)"
    using memchr_SomeD [OF Some] by auto
  then have t: "take (Suc k) cs = take k cs @ [0x3d]"
    by (simp add: take_Suc_conv_app_nth)
  have "d' = d\<lparr>qp_state := QP_QUOTE_START\<rparr>" "out = output_octets d (take k cs)" "n = k + 1"
    using assms(2) Some by (auto simp: handle_octet_def)
  then show ?thesis
    using qp_run_octets [OF assms(1) k(3)] assms(1)
    by (simp add: t qp_run_append then_decode_def qp_step.simps)
qed

lemma skip_loop_run:
  assumes "qp_state d = QP_SKIP_SPACES"
  shows "skip_loop d cs skip = Some (d', out, n) \<Longrightarrow>
      \<exists>m. n = skip + m \<and> qp_run d (take m cs) = (d', Some out)"
    and "skip_loop d cs skip = None \<Longrightarrow> qp_run d cs = (d, None)"
proof -
  show "\<exists>m. n = skip + m \<and> qp_run d (take m cs) = (d', Some out)"
    if "skip_loop d cs skip = Some (d', out, n)"
    using that
  proof (induction cs arbitrary: skip)
    case (Cons c cs)
    show ?case
    proof (cases "c = 0x20 \<or> c = 0x09")
      case True
      then have "skip_loop d cs (skip + 1) = Some (d', out, n)" using Cons.prems by auto
      then obtain m where "n = skip + 1 + m" "qp_run d (take m cs) = (d', Some out)"
        using Cons.IH by blast
      then show ?thesis
        using True assms by (intro exI [of _ "Suc m"]) (auto simp: qp_step.simps)
    next
      case False
      then show ?thesis
        using Cons.prems assms by (intro exI [of _ 1]) (auto simp: qp_step.simps split: if_splits)
    qed
  qed simp
  show "qp_run d cs = (d, None)" if "skip_loop d cs skip = None"
    using that assms by (induction cs arbitrary: skip) (auto simp: qp_step.simps split: if_splits)
qed

lemma handle_state_run:
  assumes "cs \<noteq> []"
  shows "handle_state d cs = Some (d', out, n) \<Longrightarrow> qp_run d (take n cs) = (d', Some out)"
    and "handle_state d cs = None \<Longrightarrow> qp_run d cs = (d, None)"
proof -
  obtain c rest where cs: "cs = c # rest" using assms by (cases cs) auto
  show "qp_run d (take n cs) = (d', Some out)" if h: "handle_state d cs = Some (d', out, n)"
  proof (cases "qp_state d")
    case QP_OCTET
    then show ?thesis using h handle_octet_run by (simp add: handle_state.simps)
  next
    case QP_SKIP_SPACES
    then show ?thesis
      using h skip_loop_run(1) [OF QP_SKIP_SPACES, of cs 0 d' out n]
      by (simp add: handle_state.simps handle_skip_spaces_def)
  qed (use h in \<open>auto simp: cs handle_state.simps handle_quote_start_def handle_soft_cr_def
      handle_escaped_octet_def Let_def qp_step.simps split: if_splits\<close>)
  show "qp_run d cs = (d, None)" if h: "handle_state d cs = None"
  proof (cases "qp_state d")
    case QP_OCTET
    then show ?thesis using h by (simp add: handle_state.simps handle_octet_def split: option.splits)
  next
    case QP_SKIP_SPACES
    then show ?thesis
      using h skip_loop_run(2) by (simp add: handle_state.simps handle_skip_spaces_def)
  qed (use h in \<open>auto simp: cs handle_state.simps handle_quote_start_def handle_soft_cr_def
      handle_escaped_octet_def Let_def qp_step.simps split: if_splits\<close>)
qed

lemma decode_eq_run: "ntb_quoted_printable_decode d cs = qp_run d cs"
proof (induction d cs rule: ntb_quoted_printable_decode.induct)
  case (1 d cs)
  show ?case
  proof (cases "cs = []")
    case True
    then show ?thesis by (simp add: ntb_quoted_printable_decode.simps)
  next
    case False
    show ?thesis
    proof (cases "handle_state d cs")
      case None
      then show ?thesis
        using False handle_state_run(2) by (subst ntb_quoted_printable_decode.simps) simp
    next
      case (Some r)
      obtain d' out n where r: "r = (d', out, n)" by (cases r)
      have "ntb_quoted_printable_decode d cs =
          then_decode (d', Some out) (\<lambda>d. ntb_quoted_printable_decode d (drop n cs))"
        using False Some r by (subst ntb_quoted_printable_decode.simps) simp
      also have "\<dots> = then_decode (d', Some out) (\<lambda>d. qp_run d (drop n cs))"
        using "1.IH" [OF False Some r [symmetric] refl] by (intro then_decode_cong) simp
      also have "\<dots> = qp_run d (take n cs @ drop n cs)"
        using handle_state_run(1) [OF False] Some r by (simp only: qp_run_append)
      finally show ?thesis by simp
    qed
  qed
qed

interpretation quoted_printable: stream_decoder ntb_quoted_printable_decode
  by unfold_locales (simp_all add: decode_eq_run qp_run_append)

lemma qp_step_bound: "qp_step d c = (d', Some out) \<Longrightarrow> length out \<le> 1"
  by (auto simp: qp_step.simps split: ntb_quoted_printable_state.splits if_splits)

lemma qp_run_bound: "qp_run d cs = (d', Some out) \<Longrightarrow> length out \<le> length cs"
proof (induction cs arbitrary: d out)
  case (Cons c cs)
  then show ?case
    using qp_step_bound [of d c]
    by (fastforce simp: then_decode_def split: prod.splits option.splits)
qed simp

section \<open>Properties\<close>

text \<open>
  The decoder, which searches ahead for the next escape and copies whole runs of octets and
  skips whole runs of blanks, is equivalent to the machine that takes one octet at a time, in the
  output, in the final state and in which inputs it rejects.\<close>
theorem quoted_printable_refines_machine:
  "ntb_quoted_printable_decode d cs = qp_run d cs"
  by (rule decode_eq_run)

text \<open>
  Two ways of cutting the same text into chunks give the same decoded octets and the same
  final state, even where a cut falls inside an escape or a soft line break, and a chunk never
  decodes to more octets than it has.\<close>
theorem quoted_printable_chunk_independent:
  assumes "concat chunks = concat chunks'"
  shows "decode_chunks ntb_quoted_printable_decode d chunks = decode_chunks ntb_quoted_printable_decode d chunks' \<and>
    (\<forall>d' out. decode_chunks ntb_quoted_printable_decode d chunks = (d', Some out) \<longrightarrow>
      length out \<le> length (concat chunks))"
  using quoted_printable.chunks_independent [OF assms] qp_run_bound
  by (auto simp: quoted_printable.chunks_concat decode_eq_run)

theorem quoted_printable_chunk_independent_witness:
  "decode_chunks ntb_quoted_printable_decode (ntb_quoted_printable_decode_start 0 True)
     [[0x61, 0x3d], [0x34], [0x31, 0x5f]] =
   decode_chunks ntb_quoted_printable_decode (ntb_quoted_printable_decode_start 0 True)
     [[0x61, 0x3d, 0x34, 0x31, 0x5f]]"
  using quoted_printable_chunk_independent
    [of "[[0x61, 0x3d], [0x34], [0x31, 0x5f]]" "[[0x61, 0x3d, 0x34, 0x31, 0x5f]]"] by simp

end
