(* ===== verification/Ntb_Encoded_Words.thy ===== *)
theory Ntb_Encoded_Words
  imports Ntb_Quoted_Printable Ntb_Buffer
begin

text \<open>
  The decoder for encoded words in mail headers (\<open>ntb-encoded-words.c\<close>), which works in place: the
  output overwrites the part of the buffer that has been read. The buffer is an explicit byte array
  with a read and a write position. The payload of a word is decoded in chunks into a growing scratch
  buffer; writing beyond the allocated size of that buffer is a fault. The reference definition
  \<open>plain_decode\<close> reads from an unchanging input and decodes each payload in one piece.
\<close>

section \<open>Searching\<close>

fun find_string :: "u8 list \<Rightarrow> u8 list \<Rightarrow> nat option" where
  "find_string haystack needle =
     (if length haystack < length needle then None
      else if take (length needle) haystack = needle then Some 0
      else case haystack of [] \<Rightarrow> None | _ # rest \<Rightarrow> map_option Suc (find_string rest needle))"

declare find_string.simps [simp del]

definition ntb_ascii_tolower :: "u8 \<Rightarrow> u8" where
  "ntb_ascii_tolower ch = (if 0x41 \<le> ch \<and> ch \<le> 0x5a then ch - 0x41 + 0x61 else ch)"

definition looking_at :: "u8 list \<Rightarrow> u8 list \<Rightarrow> u8 list option" where
  "looking_at cs s =
     (if length cs < length s then None
      else if map ntb_ascii_tolower (take (length s) cs) = s then Some (drop (length s) cs)
      else None)"

section \<open>Payloads\<close>

datatype ntb_encoded_words_encoding = QUOTED_PRINTABLE | BASE64

text \<open>\<open>NTB_BASE64_MAX_INPUT_FOR_SIZE\<close> for base 64, the free space itself for quoted-printable.\<close>

fun max_input :: "ntb_encoded_words_encoding \<Rightarrow> nat \<Rightarrow> nat" where
  "max_input QUOTED_PRINTABLE n = n"
| "max_input BASE64 n = n * 4 div 3"

lemma chunk_size_pos:
  "0 < max_input enc (buf_size (ntb_buffer_ensure_size b (buf_length b + 8)) - buf_length b)"
  using ensure_size_ge [of "buf_length b + 8" b] by (cases enc) auto

text \<open>
  The loop that both encodings have. The scratch buffer is returned on failure too, because it is
  used again for the next word.
\<close>

function chunk_loop ::
    "ntb_encoded_words_encoding \<Rightarrow> ('d \<Rightarrow> u8 list \<Rightarrow> 'd \<times> u8 list option) \<Rightarrow>
     ntb_buffer \<Rightarrow> 'd \<Rightarrow> u8 list \<Rightarrow> (ntb_buffer \<times> 'd option) outcome" where
  "chunk_loop enc dec b d cs =
     (if cs = [] then Ok (b, Some d)
      else
        let b1 = ntb_buffer_ensure_size b (buf_length b + 8);
            chunk_size = min (max_input enc (buf_size b1 - buf_length b1)) (length cs)
        in case dec d (take chunk_size cs) of
             (d, None) \<Rightarrow> Ok (b1, None)
           | (d, Some got) \<Rightarrow>
               bind_outcome (deposit b1 got) (\<lambda>b2. chunk_loop enc dec b2 d (drop chunk_size cs)))"
  by pat_completeness auto

termination
  by (relation "measure (\<lambda>(enc, dec, b, d, cs). length cs)") (use chunk_size_pos in auto)

declare chunk_loop.simps [simp del]

definition process_base64 :: "ntb_buffer \<Rightarrow> u8 list \<Rightarrow> (ntb_buffer \<times> bool) outcome" where
  "process_base64 b cs =
     bind_outcome (chunk_loop BASE64 ntb_base64_decode b ntb_base64_decode_start cs) (\<lambda>(b, r).
       case r of
         None \<Rightarrow> Ok (b, False)
       | Some d \<Rightarrow>
           let b = ntb_buffer_ensure_size b (buf_length b + 3) in
           case ntb_base64_decode_end d of
             Fault \<Rightarrow> Fault
           | Fail \<Rightarrow> Ok (b, False)
           | Ok got \<Rightarrow> bind_outcome (deposit b got) (\<lambda>b. Ok (b, True)))"

definition process_quoted_printable :: "ntb_buffer \<Rightarrow> u8 list \<Rightarrow> (ntb_buffer \<times> bool) outcome" where
  "process_quoted_printable b cs =
     bind_outcome (chunk_loop QUOTED_PRINTABLE ntb_quoted_printable_decode b
         (ntb_quoted_printable_decode_start 0 True) cs) (\<lambda>(b, r).
       case r of
         None \<Rightarrow> Ok (b, False)
       | Some d \<Rightarrow> Ok (b, ntb_quoted_printable_decode_end d))"

section \<open>Words\<close>

text \<open>The encoding of a word and its payload with what follows, for the text behind \<open>=?\<close>.\<close>

definition word_header :: "u8 list \<Rightarrow> (ntb_encoded_words_encoding \<times> u8 list) option" where
  "word_header cs =
     (case (case looking_at cs (str ''us-ascii?'') of
              None \<Rightarrow> looking_at cs (str ''utf-8?'') | Some cs \<Rightarrow> Some cs) of
        None \<Rightarrow> None
      | Some cs \<Rightarrow>
          (case looking_at cs (str ''q?'') of
             Some cs \<Rightarrow> Some (QUOTED_PRINTABLE, cs)
           | None \<Rightarrow> map_option (Pair BASE64) (looking_at cs (str ''b?''))))"

definition word_payload :: "u8 list \<Rightarrow> nat option" where
  "word_payload cs =
     (case find_string cs (str ''?='') of
        None \<Rightarrow> None
      | Some ew_end \<Rightarrow>
          if \<exists>c \<in> set (take ew_end cs). c = 0x20 \<or> c = 0x3f then None else Some ew_end)"

record ntb_encoded_words_data =
  ew_memory :: "u8 list"
  ew_out :: nat
  ew_in :: nat
  ew_length :: nat
  ew_decode_buf :: ntb_buffer

definition store_out :: "ntb_encoded_words_data \<Rightarrow> u8 list \<Rightarrow> ntb_encoded_words_data outcome" where
  "store_out s bytes =
     (if ew_out s + length bytes > length (ew_memory s) then Fault
      else Ok (s\<lparr>ew_memory := write_at (ew_out s) bytes (ew_memory s),
                 ew_out := ew_out s + length bytes\<rparr>))"

definition ew_view :: "ntb_encoded_words_data \<Rightarrow> u8 list" where
  "ew_view s = take (ew_length s) (drop (ew_in s) (ew_memory s))"

definition process_encoded_word :: "ntb_encoded_words_data \<Rightarrow> (ntb_encoded_words_data \<times> bool) outcome" where
  "process_encoded_word s =
     (case word_header (ew_view s) of
        None \<Rightarrow> Ok (s, False)
      | Some (enc, cs) \<Rightarrow>
          (case word_payload cs of
             None \<Rightarrow> Ok (s, False)
           | Some ew_end \<Rightarrow>
               let b = (ew_decode_buf s)\<lparr>buf_length := 0\<rparr> in
               bind_outcome
                 (case enc of
                    QUOTED_PRINTABLE \<Rightarrow> process_quoted_printable b (take ew_end cs)
                  | BASE64 \<Rightarrow> process_base64 b (take ew_end cs))
                 (\<lambda>(b, ok).
                    let s = s\<lparr>ew_decode_buf := b\<rparr> in
                    if \<not> ok then Ok (s, False)
                    else case those (contents b) of
                      None \<Rightarrow> Fault
                    | Some bytes \<Rightarrow>
                        bind_outcome (store_out s bytes) (\<lambda>s.
                          let consumed = ew_length s - length cs + ew_end + 2 in
                          Ok (s\<lparr>ew_in := ew_in s + consumed, ew_length := ew_length s - consumed\<rparr>, True)))))"

lemma process_encoded_word_length:
  "process_encoded_word s = Ok (s', ok) \<Longrightarrow> ew_length s' \<le> ew_length s"
  by (auto simp: process_encoded_word_def store_out_def Let_def split: option.splits prod.splits if_splits)

section \<open>The loop over the words\<close>

text \<open>One iteration, for the position of \<open>=?\<close> in the rest of the text.\<close>

definition decode_iteration ::
    "ntb_encoded_words_data \<Rightarrow> bool \<Rightarrow> nat \<Rightarrow> (ntb_encoded_words_data \<times> bool) outcome" where
  "decode_iteration s had_ew skip_size =
     (let ew_start = ew_in s + skip_size;
          is_space = (had_ew \<and> skip_size = 1 \<and> ew_memory s ! (ew_start - 1) = 0x20)
      in bind_outcome
           (if is_space then Ok s else store_out s (take skip_size (drop (ew_in s) (ew_memory s))))
           (\<lambda>s.
              let s = s\<lparr>ew_length := ew_length s - (skip_size + 2), ew_in := ew_start + 2\<rparr> in
              bind_outcome
                (if ew_start = 0 \<or> ew_memory s ! (ew_start - 1) = 0x20
                 then process_encoded_word s else Ok (s, False))
                (\<lambda>(s, ok).
                   if ok then Ok (s, True)
                   else
                     bind_outcome (if is_space then store_out s [0x20] else Ok s) (\<lambda>s.
                     bind_outcome (store_out s (str ''=?'')) (\<lambda>s. Ok (s, False))))))"

lemma store_out_frame:
  "store_out s xs = Ok s' \<Longrightarrow> ew_length s' = ew_length s \<and> ew_in s' = ew_in s"
  by (auto simp: store_out_def split: if_splits)

lemma find_string_bound:
  "find_string cs needle = Some i \<Longrightarrow> i + length needle \<le> length cs"
proof (induction cs needle arbitrary: i rule: find_string.induct)
  case (1 cs needle)
  show ?case
  proof (cases cs)
    case Nil
    with 1 show ?thesis by (auto simp: find_string.simps [of "[]"] split: if_splits)
  next
    case (Cons c rest)
    with "1.prems" show ?thesis
      using "1.IH" by (fastforce simp: find_string.simps [of "c # rest"] split: if_splits)
  qed
qed

lemma decode_iteration_length:
  assumes "find_string (ew_view s) (str ''=?'') = Some skip" "decode_iteration s had skip = Ok (s', had')"
  shows "ew_length s' < ew_length s"
proof -
  have "skip + 2 \<le> ew_length s"
    using find_string_bound [OF assms(1)] by (simp add: ew_view_def)
  then show ?thesis
    using assms(2)
    by (auto simp: decode_iteration_def Let_def split: if_splits dest!: store_out_frame process_encoded_word_length)
qed

function decode_words :: "ntb_encoded_words_data \<Rightarrow> bool \<Rightarrow> ntb_encoded_words_data outcome" where
  "decode_words s had_ew =
     (case find_string (ew_view s) (str ''=?'') of
        None \<Rightarrow> store_out s (ew_view s)
      | Some skip_size \<Rightarrow>
          bind_outcome (decode_iteration s had_ew skip_size) (\<lambda>(s, had_ew). decode_words s had_ew))"
  by pat_completeness auto
termination
  by (relation "measure (\<lambda>(s, had). ew_length s)") (auto dest: decode_iteration_length [simplified])

declare decode_words.simps [simp del]

text \<open>The bytes left in the buffer, as many as the returned length says.\<close>

definition ntb_encoded_words_decode :: "u8 list \<Rightarrow> u8 list outcome" where
  "ntb_encoded_words_decode buffer =
     bind_outcome
       (decode_words \<lparr>ew_memory = buffer, ew_out = 0, ew_in = 0, ew_length = length buffer,
          ew_decode_buf = ntb_buffer_init\<rparr> False)
       (\<lambda>s. Ok (take (ew_out s) (ew_memory s)))"

section \<open>The reference definition\<close>

definition plain_payload :: "ntb_encoded_words_encoding \<Rightarrow> u8 list \<Rightarrow> u8 list option" where
  "plain_payload enc cs =
     (case enc of
        QUOTED_PRINTABLE \<Rightarrow>
          (case ntb_quoted_printable_decode (ntb_quoted_printable_decode_start 0 True) cs of
             (d, Some out) \<Rightarrow> if ntb_quoted_printable_decode_end d then Some out else None
           | _ \<Rightarrow> None)
      | BASE64 \<Rightarrow>
          (case ntb_base64_decode ntb_base64_decode_start cs of
             (d, Some out) \<Rightarrow> (case ntb_base64_decode_end d of Ok rest \<Rightarrow> Some (out @ rest) | _ \<Rightarrow> None)
           | _ \<Rightarrow> None))"

text \<open>The decoded octets of a word and the number of bytes of the word behind \<open>=?\<close>.\<close>

definition plain_word :: "u8 list \<Rightarrow> (u8 list \<times> nat) option" where
  "plain_word cs =
     (case word_header cs of
        None \<Rightarrow> None
      | Some (enc, rest) \<Rightarrow>
          (case word_payload rest of
             None \<Rightarrow> None
           | Some n \<Rightarrow>
               map_option (\<lambda>bytes. (bytes, length cs - length rest + n + 2)) (plain_payload enc (take n rest))))"

lemma find_open_bound:
  assumes "find_string (drop i text) (str ''=?'') = Some skip"
  shows "i + skip + 2 \<le> length text"
  using find_string_bound [OF assms] by (cases "i \<le> length text") auto

function plain_decode :: "u8 list \<Rightarrow> nat \<Rightarrow> bool \<Rightarrow> u8 list" where
  "plain_decode text i had_ew =
     (case find_string (drop i text) (str ''=?'') of
        None \<Rightarrow> drop i text
      | Some skip \<Rightarrow>
          let start = i + skip;
              is_space = (had_ew \<and> skip = 1 \<and> text ! (start - 1) = 0x20);
              before = (if is_space then [] else take skip (drop i text))
          in (case (if start = 0 \<or> text ! (start - 1) = 0x20 then plain_word (drop (start + 2) text) else None) of
               Some (bytes, n) \<Rightarrow> before @ bytes @ plain_decode text (start + 2 + n) True
             | None \<Rightarrow>
                 before @ (if is_space then [0x20] else []) @ str ''=?'' @ plain_decode text (start + 2) False))"
  by pat_completeness auto
termination
  by (relation "measure (\<lambda>(text, i, had). length text - i)") (auto dest!: find_open_bound [simplified])

declare plain_decode.simps [simp del]

section \<open>Payloads in chunks and in one piece\<close>

text \<open>
  The result of the chunk loop for a payload: on success the scratch buffer holds the octets of the
  whole payload decoded at once.
\<close>

definition chunked_ok ::
    "ntb_buffer \<Rightarrow> 'd \<times> u8 list option \<Rightarrow> (ntb_buffer \<times> 'd option) outcome \<Rightarrow> bool" where
  "chunked_ok b whole r \<longleftrightarrow>
     (\<exists>b'. buf_ok b' \<and>
        (case whole of
           (_, None) \<Rightarrow> r = Ok (b', None)
         | (d', Some out) \<Rightarrow> r = Ok (b', Some d') \<and> contents b' = contents b @ map Some out))"

text \<open>The condition under which a chunk never decodes to more than the space it was chosen for.\<close>

definition roomy ::
    "ntb_encoded_words_encoding \<Rightarrow> ('d \<Rightarrow> u8 list \<Rightarrow> 'd \<times> u8 list option) \<Rightarrow> bool" where
  "roomy enc dec \<longleftrightarrow> (\<forall>d c d' out n. dec d c = (d', Some out) \<longrightarrow> length c \<le> max_input enc n \<longrightarrow> length out \<le> n)"

lemma chunk_loop_Nil: "chunk_loop enc dec b d [] = Ok (b, Some d)"
  by (simp add: chunk_loop.simps)

lemma chunk_loop_decodes:
  assumes "stream_decoder dec" "roomy enc dec" "buf_ok b"
  shows "chunked_ok b (dec d cs) (chunk_loop enc dec b d cs)"
  using assms
proof (induction enc dec b d cs rule: chunk_loop.induct)
  case (1 enc dec b d cs)
  note sd = stream_decoder.dec_append [OF "1.prems"(1)] stream_decoder.dec_Nil [OF "1.prems"(1)]
  show ?case
  proof (cases "cs = []")
    case True
    then show ?thesis using "1.prems"(3) sd(2) by (auto simp: chunked_ok_def chunk_loop.simps)
  next
    case False
    define b1 where "b1 = ntb_buffer_ensure_size b (buf_length b + 8)"
    define k where "k = min (max_input enc (buf_size b1 - buf_length b1)) (length cs)"
    have b1: "buf_ok b1" "contents b1 = contents b" using "1.prems"(3) by (simp_all add: b1_def)
    have whole: "dec d cs = then_decode (dec d (take k cs)) (\<lambda>d. dec d (drop k cs))"
      using sd(1) [of d "take k cs" "drop k cs"] by simp
    obtain d1 r where step: "dec d (take k cs) = (d1, r)" by (cases "dec d (take k cs)")
    note un = chunk_loop.simps [of enc dec b d cs, unfolded Let_def, folded b1_def, folded k_def]
    show ?thesis
    proof (cases r)
      case None
      then show ?thesis
        using False step b1(1) by (auto simp: un whole chunked_ok_def)
    next
      case (Some out)
      have "length out \<le> buf_size b1 - buf_length b1"
        using "1.prems"(2) step Some unfolding roomy_def by (auto simp: k_def)
      moreover have "buf_length b1 \<le> buf_size b1" using b1(1) by (simp add: buf_ok_def)
      ultimately have le: "buf_length b1 + length out \<le> buf_size b1" by linarith
      obtain b2 where b2: "deposit b1 out = Ok b2" "buf_ok b2"
          "contents b2 = contents b1 @ map Some out"
        by (rule deposit_ok [OF b1(1) le])
      have "chunked_ok b2 (dec d1 (drop k cs)) (chunk_loop enc dec b2 d1 (drop k cs))"
        using "1.IH" [OF False b1_def k_def _ Some b2(1) "1.prems"(1,2) b2(2)] step by simp
      then show ?thesis
        using False step Some b2 b1(2)
        by (auto simp: un whole chunked_ok_def then_decode_def split: prod.splits option.splits)
    qed
  qed
qed

lemma quoted_printable_roomy: "roomy QUOTED_PRINTABLE ntb_quoted_printable_decode"
  using qp_run_bound by (fastforce simp: roomy_def decode_eq_run)

text \<open>A base-64 payload that fits one chunk; the smallest chunk has ten characters.\<close>

lemma base64_one_chunk:
  assumes "length cs \<le> 10" "buf_ok b"
  shows "chunked_ok b (ntb_base64_decode ntb_base64_decode_start cs)
    (chunk_loop BASE64 ntb_base64_decode b ntb_base64_decode_start cs)"
proof (cases "cs = []")
  case True
  then show ?thesis using assms(2) by (auto simp: chunked_ok_def chunk_loop.simps base64.dec_Nil)
next
  case False
  define b1 where "b1 = ntb_buffer_ensure_size b (buf_length b + 8)"
  have sz: "buf_length b1 + 8 \<le> buf_size b1" "buf_ok b1" "contents b1 = contents b"
    using ensure_size_ge [of "buf_length b + 8" b] assms(2) by (auto simp: b1_def)
  have k: "min (max_input BASE64 (buf_size b1 - buf_length b1)) (length cs) = length cs"
    using sz(1) assms(1) by simp
  obtain d r where step: "ntb_base64_decode ntb_base64_decode_start cs = (d, r)"
    by (cases "ntb_base64_decode ntb_base64_decode_start cs")
  note un = chunk_loop.simps [of BASE64 ntb_base64_decode b ntb_base64_decode_start cs, unfolded Let_def,
      folded b1_def, unfolded k]
  show ?thesis
  proof (cases r)
    case None
    then show ?thesis using False step sz by (auto simp: un chunked_ok_def)
  next
    case (Some out)
    have "4 * length out \<le> 3 * length cs"
      using base64_decode_bound [of ntb_base64_decode_start cs d out] step Some
      by (simp add: ntb_base64_decode_start_def)
    then have "buf_length b1 + length out \<le> buf_size b1" using assms(1) sz(1) by linarith
    then obtain b2 where "deposit b1 out = Ok b2" "buf_ok b2" "contents b2 = contents b1 @ map Some out"
      using deposit_ok [OF sz(2)] by blast
    then show ?thesis
      using False step Some sz(3) by (auto simp: un chunked_ok_def chunk_loop_Nil)
  qed
qed

lemma handle_padding_le_2:
  "handle_padding d cs = (d', True) \<Longrightarrow> b64_n_padding d \<le> 2 \<Longrightarrow> b64_n_padding d' \<le> 2"
  by (induction d cs rule: handle_padding.induct) (auto simp: Let_def split: if_splits)

lemma base64_loop_padding_le_2:
  "base64_loop d cs = (d', Some out) \<Longrightarrow> b64_n_padding d \<le> 2 \<Longrightarrow> b64_n_padding d' \<le> 2"
proof (induction cs arbitrary: d out)
  case (Cons c cs)
  show ?case
  proof (cases "alphabet_value (uint c) \<ge> 0 \<or> c \<noteq> 0x3d")
    case True
    then show ?thesis
      using Cons by (auto simp: Let_def then_decode_def split: if_splits prod.splits option.splits)
  next
    case False
    then show ?thesis
      using Cons.prems handle_padding_le_2 [of d "c # cs"]
      by (auto simp: Let_def simp del: handle_padding.simps split: prod.splits if_splits)
  qed
qed auto

lemma base64_whole:
  assumes "ntb_base64_decode ntb_base64_decode_start cs = (d, Some out)"
  shows "ntb_base64_decode_end d \<noteq> Fault"
    and "ntb_base64_decode_end d = Ok rest \<Longrightarrow> length rest \<le> 2 \<and> length (out @ rest) \<le> length cs"
proof -
  have "b64_n_padding d \<le> 2"
    using assms base64_loop_padding_le_2 [of ntb_base64_decode_start cs d out]
    by (auto simp: ntb_base64_decode_def ntb_base64_decode_start_def)
  then show "ntb_base64_decode_end d \<noteq> Fault"
    by (auto simp: ntb_base64_decode_end_def Let_def split: if_splits)
  have "4 * length out + 3 * b64_n_chars d \<le> 3 * length cs"
    using base64_decode_bound [OF assms] by (simp add: ntb_base64_decode_start_def)
  then show "length rest \<le> 2 \<and> length (out @ rest) \<le> length cs" if "ntb_base64_decode_end d = Ok rest"
    using that by (auto simp: ntb_base64_decode_end_def Let_def split: if_splits)
qed

lemma plain_payload_bound: "plain_payload enc cs = Some bytes \<Longrightarrow> length bytes \<le> length cs"
  using base64_whole(2) qp_run_bound
  by (fastforce simp: plain_payload_def decode_eq_run
      split: ntb_encoded_words_encoding.splits prod.splits option.splits outcome.splits if_splits)

definition small_payload :: "ntb_encoded_words_encoding \<Rightarrow> nat \<Rightarrow> bool" where
  "small_payload enc n \<longleftrightarrow> enc = QUOTED_PRINTABLE \<or> n \<le> 10"

definition process_payload ::
    "ntb_encoded_words_encoding \<Rightarrow> ntb_buffer \<Rightarrow> u8 list \<Rightarrow> (ntb_buffer \<times> bool) outcome" where
  "process_payload enc b cs =
     (case enc of QUOTED_PRINTABLE \<Rightarrow> process_quoted_printable b cs | BASE64 \<Rightarrow> process_base64 b cs)"

lemma process_payload_ok:
  assumes "buf_ok b" "buf_length b = 0" "small_payload enc (length cs)"
  obtains b' where "buf_ok b'" "process_payload enc b cs = Ok (b', plain_payload enc cs \<noteq> None)"
    "\<forall>bytes. plain_payload enc cs = Some bytes \<longrightarrow> contents b' = map Some bytes"
proof -
  have e: "contents b = []" using assms(2) by (simp add: contents_def)
  have "\<exists>b'. buf_ok b' \<and> process_payload enc b cs = Ok (b', plain_payload enc cs \<noteq> None) \<and>
    (\<forall>bytes. plain_payload enc cs = Some bytes \<longrightarrow> contents b' = map Some bytes)"
  proof (cases enc)
    case QUOTED_PRINTABLE
    have "chunked_ok b (ntb_quoted_printable_decode (ntb_quoted_printable_decode_start 0 True) cs)
       (chunk_loop QUOTED_PRINTABLE ntb_quoted_printable_decode b (ntb_quoted_printable_decode_start 0 True) cs)"
      by (rule chunk_loop_decodes [OF quoted_printable.stream_decoder_axioms quoted_printable_roomy assms(1)])
    then show ?thesis
      by (auto simp: QUOTED_PRINTABLE process_payload_def process_quoted_printable_def plain_payload_def
          chunked_ok_def e split: prod.splits option.splits)
  next
    case BASE64
    have ck: "chunked_ok b (ntb_base64_decode ntb_base64_decode_start cs)
       (chunk_loop BASE64 ntb_base64_decode b ntb_base64_decode_start cs)"
      using assms BASE64 by (intro base64_one_chunk) (auto simp: small_payload_def)
    obtain d r where w: "ntb_base64_decode ntb_base64_decode_start cs = (d, r)"
      by (cases "ntb_base64_decode ntb_base64_decode_start cs")
    show ?thesis
    proof (cases r)
      case None
      with ck w show ?thesis
        by (auto simp: BASE64 process_payload_def process_base64_def plain_payload_def chunked_ok_def)
    next
      case (Some out)
      obtain b1 where b1: "chunk_loop BASE64 ntb_base64_decode b ntb_base64_decode_start cs = Ok (b1, Some d)"
          "buf_ok b1" "contents b1 = map Some out"
        using ck w Some e by (auto simp: chunked_ok_def)
      define b2 where "b2 = ntb_buffer_ensure_size b1 (buf_length b1 + 3)"
      have b2: "buf_ok b2" "contents b2 = map Some out" "buf_length b2 + 3 \<le> buf_size b2"
        using b1 ensure_size_ge [of "buf_length b1 + 3" b1] by (auto simp: b2_def)
      show ?thesis
      proof (cases "ntb_base64_decode_end d")
        case (Ok rest)
        then have "buf_length b2 + length rest \<le> buf_size b2"
          using base64_whole(2) [of cs d out rest] w Some b2(3) by simp
        then obtain b3 where "deposit b2 rest = Ok b3" "buf_ok b3" "contents b3 = contents b2 @ map Some rest"
          by (rule deposit_ok [OF b2(1)])
        then show ?thesis
          using Ok w Some b1(1) b2(2)
          by (auto simp: BASE64 process_payload_def process_base64_def plain_payload_def b2_def [symmetric] Let_def)
      qed (use base64_whole(1) [of cs d out] w Some b1(1) b2(1) in
          \<open>auto simp: BASE64 process_payload_def process_base64_def plain_payload_def b2_def [symmetric] Let_def\<close>)
    qed
  qed
  then show thesis using that by blast
qed

section \<open>Decoding in place\<close>

lemma drop_write_at:
  "i + length xs \<le> k \<Longrightarrow> i + length xs \<le> length m \<Longrightarrow> drop k (write_at i xs m) = drop k m"
  by (auto simp: write_at_def min_def not_le)

lemma write_at_same: "i + n \<le> length m \<Longrightarrow> write_at i (take n (drop i m)) m = m"
  by (simp add: write_at_def) (metis append_take_drop_id drop_drop add.commute)

text \<open>
  Copying the next bytes of the input down to the output position: the byte in front of the new read
  position, which the code looks at again, is still the one of the input.
\<close>

lemma copy_down:
  assumes "out \<le> i" "i + n \<le> length m"
  shows "drop (i + n - 1) (write_at out (take n (drop i m)) m) = drop (i + n - 1) m"
proof (cases "out = i")
  case True
  then show ?thesis using write_at_same assms by metis
next
  case False
  then show ?thesis using assms by (intro drop_write_at) auto
qed

definition inplace :: "u8 list \<Rightarrow> ntb_encoded_words_data \<Rightarrow> bool" where
  "inplace input s \<longleftrightarrow>
     length (ew_memory s) = length input \<and> ew_in s + ew_length s = length input \<and>
     ew_out s \<le> ew_in s \<and> drop (ew_in s - 1) (ew_memory s) = drop (ew_in s - 1) input \<and>
     buf_ok (ew_decode_buf s)"

definition written :: "ntb_encoded_words_data \<Rightarrow> u8 list" where
  "written s = take (ew_out s) (ew_memory s)"

lemma drop_later: "drop j xs = drop j ys \<Longrightarrow> j \<le> k \<Longrightarrow> drop k xs = drop k ys"
  by (metis drop_drop le_add_diff_inverse2)

lemma nth_from_drop: "drop j xs = drop j ys \<Longrightarrow> j \<le> k \<Longrightarrow> k < length xs \<Longrightarrow> length xs = length ys \<Longrightarrow> xs ! k = ys ! k"
  by (metis le_add_diff_inverse nth_drop less_imp_le_nat order.strict_trans1 le_trans)

lemma inplace_view: "inplace input s \<Longrightarrow> ew_view s = drop (ew_in s) input"
  using drop_later [of "ew_in s - 1" "ew_memory s" input "ew_in s"]
  by (auto simp: inplace_def ew_view_def)

lemma store_out_ok:
  assumes "ew_out s + length xs \<le> length (ew_memory s)"
  obtains s' where "store_out s xs = Ok s'" "s' = s\<lparr>ew_memory := write_at (ew_out s) xs (ew_memory s), ew_out := ew_out s + length xs\<rparr>"
    "written s' = written s @ xs"
  using assms by (auto simp: store_out_def written_def take_write_at_end)

text \<open>A word at the read position.\<close>

definition small_words :: "u8 list \<Rightarrow> bool" where
  "small_words input \<longleftrightarrow> (\<forall>i \<in> set [0..<Suc (length input)].
     case word_header (drop i input) of
       None \<Rightarrow> True
     | Some (enc, cs) \<Rightarrow> (case word_payload cs of None \<Rightarrow> True | Some n \<Rightarrow> small_payload enc n))"

lemma looking_at_length: "looking_at cs t = Some rest \<Longrightarrow> length cs = length t + length rest"
  by (auto simp: looking_at_def split: if_splits)

lemma word_header_length: "word_header cs = Some (enc, rest) \<Longrightarrow> length rest \<le> length cs"
  by (auto simp: word_header_def split: option.splits dest!: looking_at_length)

lemma word_payload_bound: "word_payload cs = Some n \<Longrightarrow> n + 2 \<le> length cs"
  by (auto simp: word_payload_def split: option.splits if_splits dest!: find_string_bound)

definition word_result :: "u8 list \<Rightarrow> ntb_encoded_words_data \<Rightarrow> bool" where
  "word_result input s \<longleftrightarrow>
     (case plain_word (drop (ew_in s) input) of
        None \<Rightarrow> (\<exists>b. buf_ok b \<and> process_encoded_word s = Ok (s\<lparr>ew_decode_buf := b\<rparr>, False))
      | Some (bytes, n) \<Rightarrow>
          (\<exists>s'. process_encoded_word s = Ok (s', True) \<and> inplace input s' \<and>
             ew_in s' = ew_in s + n \<and> written s' = written s @ bytes))"

lemma process_word_ok:
  assumes inv: "inplace input s" and small: "small_words input"
  shows "word_result input s"
proof -
  note v = inplace_view [OF inv]
  have pe: "process_encoded_word s = (case word_header (drop (ew_in s) input) of
        None \<Rightarrow> Ok (s, False)
      | Some (enc, cs) \<Rightarrow>
          (case word_payload cs of
             None \<Rightarrow> Ok (s, False)
           | Some ew_end \<Rightarrow>
               bind_outcome (process_payload enc ((ew_decode_buf s)\<lparr>buf_length := 0\<rparr>) (take ew_end cs))
                 (\<lambda>(b, ok).
                    let s = s\<lparr>ew_decode_buf := b\<rparr> in
                    if \<not> ok then Ok (s, False)
                    else case those (contents b) of
                      None \<Rightarrow> Fault
                    | Some bytes \<Rightarrow>
                        bind_outcome (store_out s bytes) (\<lambda>s.
                          let consumed = ew_length s - length cs + ew_end + 2 in
                          Ok (s\<lparr>ew_in := ew_in s + consumed, ew_length := ew_length s - consumed\<rparr>, True)))))"
    by (simp add: process_encoded_word_def v process_payload_def Let_def
        split: option.splits prod.splits ntb_encoded_words_encoding.splits)
  have same: "s = s\<lparr>ew_decode_buf := ew_decode_buf s\<rparr>" by simp
  have bok: "buf_ok (ew_decode_buf s)" using inv by (simp add: inplace_def)
  show ?thesis
  proof (cases "word_header (drop (ew_in s) input)")
    case None
    then show ?thesis using bok same by (auto simp: word_result_def plain_word_def pe intro!: exI [of _ "ew_decode_buf s"])
  next
    case (Some ec)
    obtain enc cs where ec: "ec = (enc, cs)" by (cases ec)
    show ?thesis
    proof (cases "word_payload cs")
      case None
      then show ?thesis
        using bok same Some ec by (auto simp: word_result_def plain_word_def pe intro!: exI [of _ "ew_decode_buf s"])
    next
      case n: (Some n)
      have le: "n + 2 \<le> length cs" "length cs \<le> ew_length s"
        using word_payload_bound [OF n] word_header_length [OF Some [unfolded ec]] inv by (auto simp: inplace_def)
      have "ew_in s \<le> length input" using inv by (simp add: inplace_def)
      then have "small_payload enc n"
        using small Some ec n unfolding small_words_def by (fastforce split: option.splits)
      then have sp: "small_payload enc (length (take n cs))" using le by simp
      have b0: "buf_ok ((ew_decode_buf s)\<lparr>buf_length := 0\<rparr>)" "buf_length ((ew_decode_buf s)\<lparr>buf_length := 0\<rparr>) = 0"
        using bok by (simp_all add: buf_ok_def)
      obtain b where b: "buf_ok b" "process_payload enc ((ew_decode_buf s)\<lparr>buf_length := 0\<rparr>) (take n cs) =
            Ok (b, plain_payload enc (take n cs) \<noteq> None)"
          "\<forall>bytes. plain_payload enc (take n cs) = Some bytes \<longrightarrow> contents b = map Some bytes"
        by (rule process_payload_ok [OF b0 sp])
      show ?thesis
      proof (cases "plain_payload enc (take n cs)")
        case None
        then show ?thesis
          using b Some ec n by (auto simp: word_result_def plain_word_def pe)
      next
        case bytes: (Some bytes)
        have bl: "length bytes \<le> n" using plain_payload_bound [OF bytes] by simp
        define c where "c = ew_length s - length cs + n + 2"
        define t where "t = s\<lparr>ew_decode_buf := b\<rparr>"
        have t: "ew_out t + length bytes \<le> length (ew_memory t)"
          using inv bl le by (auto simp: t_def inplace_def)
        obtain s1 where s1: "store_out t bytes = Ok s1"
            "s1 = t\<lparr>ew_memory := write_at (ew_out t) bytes (ew_memory t), ew_out := ew_out t + length bytes\<rparr>"
            "written s1 = written t @ bytes"
          by (rule store_out_ok [OF t])
        define s2 where "s2 = s1\<lparr>ew_in := ew_in s1 + c, ew_length := ew_length s1 - c\<rparr>"
        have tl: "ew_length t = ew_length s" by (simp add: t_def)
        have run: "process_encoded_word s = Ok (s2, True)"
          using Some ec n b bytes s1 tl by (simp add: pe t_def [symmetric] s2_def c_def Let_def those_map_Some)
        have keep: "drop (ew_in s + c - 1) (write_at (ew_out s) bytes (ew_memory s)) = drop (ew_in s + c - 1) (ew_memory s)"
          using t bl inv by (intro drop_write_at) (auto simp: t_def inplace_def c_def)
        have "drop (ew_in s + c - 1) (ew_memory s) = drop (ew_in s + c - 1) input"
          using inv drop_later [of "ew_in s - 1" "ew_memory s" input "ew_in s + c - 1"] by (simp add: inplace_def)
        then have "inplace input s2"
          using inv keep bl le b(1) t by (auto simp: inplace_def s2_def s1(2) t_def c_def)
        moreover have "written s2 = written s @ bytes" "ew_in s2 = ew_in s + c"
          using s1(3) by (simp_all add: s2_def written_def t_def s1(2))
        moreover have "plain_word (drop (ew_in s) input) = Some (bytes, c)"
          using Some ec n bytes inv by (auto simp: plain_word_def c_def inplace_def)
        ultimately show ?thesis using run by (auto simp: word_result_def)
      qed
    qed
  qed
qed

lemma write_at_append:
  assumes "i + length xs + length ys \<le> length m"
  shows "write_at (i + length xs) ys (write_at i xs m) = write_at i (xs @ ys) m"
  using assms by (simp add: write_at_def ac_simps)

definition copied :: "ntb_encoded_words_data \<Rightarrow> u8 list \<Rightarrow> ntb_encoded_words_data" where
  "copied s xs = s\<lparr>ew_memory := write_at (ew_out s) xs (ew_memory s), ew_out := ew_out s + length xs\<rparr>"

lemma store_out_copied:
  "ew_out s + length xs \<le> length (ew_memory s) \<Longrightarrow> store_out s xs = Ok (copied s xs)"
  by (simp add: store_out_def copied_def)

lemma written_copied: "ew_out s + length xs \<le> length (ew_memory s) \<Longrightarrow> written (copied s xs) = written s @ xs"
  by (simp add: written_def copied_def take_write_at_end)

lemma copied_frame [simp]:
  "ew_in (copied s xs) = ew_in s" "ew_length (copied s xs) = ew_length s"
  "ew_decode_buf (copied s xs) = ew_decode_buf s" "ew_out (copied s xs) = ew_out s + length xs"
  by (simp_all add: copied_def)

lemma length_copied: "ew_out s + length xs \<le> length (ew_memory s) \<Longrightarrow> length (ew_memory (copied s xs)) = length (ew_memory s)"
  by (simp add: copied_def)

lemma copied_Nil: "copied s [] = s"
  by (simp add: copied_def write_at_def)

lemma copied_append:
  "ew_out s + length xs + length ys \<le> length (ew_memory s) \<Longrightarrow> copied (copied s xs) ys = copied s (xs @ ys)"
  by (simp add: copied_def write_at_append add.assoc)

lemma find_string_found: "find_string cs needle = Some k \<Longrightarrow> take (length needle) (drop k cs) = needle"
proof (induction cs needle arbitrary: k rule: find_string.induct)
  case (1 cs needle)
  show ?case
  proof (cases "length cs < length needle \<or> take (length needle) cs = needle")
    case True
    then show ?thesis using "1.prems" by (auto simp: find_string.simps [of cs] split: if_splits)
  next
    case False
    then obtain c rest j where "cs = c # rest" "find_string rest needle = Some j" "k = Suc j"
      using "1.prems" by (subst (asm) find_string.simps) (auto split: list.splits)
    then show ?thesis using "1.IH" [of c rest j] False by auto
  qed
qed

text \<open>
  Copying input bytes down to the output position and moving the read position behind them.
\<close>

definition moved :: "ntb_encoded_words_data \<Rightarrow> u8 list \<Rightarrow> nat \<Rightarrow> ntb_encoded_words_data" where
  "moved s xs n = (copied s xs)\<lparr>ew_length := ew_length s - n, ew_in := ew_in s + n\<rparr>"

lemma inplace_moved:
  assumes "inplace input s" "n \<le> ew_length s" "xs = take n (drop (ew_in s) input)"
  shows "inplace input (moved s xs n)"
proof -
  have len: "length xs = n" "ew_in s + n \<le> length input" "length (ew_memory s) = length input"
    using assms by (auto simp: inplace_def)
  have d: "drop (ew_in s - 1) (ew_memory s) = drop (ew_in s - 1) input" and out: "ew_out s \<le> ew_in s"
    using assms(1) by (auto simp: inplace_def)
  have "drop (ew_in s) (ew_memory s) = drop (ew_in s) input"
    using drop_later [OF d] by simp
  then have "xs = take n (drop (ew_in s) (ew_memory s))" using assms(3) by simp
  then have "drop (ew_in s + n - 1) (write_at (ew_out s) xs (ew_memory s)) = drop (ew_in s + n - 1) (ew_memory s)"
    using copy_down [OF out, of n "ew_memory s"] len by simp
  also have "\<dots> = drop (ew_in s + n - 1) input"
    using drop_later [OF d, of "ew_in s + n - 1"] by simp
  finally show ?thesis
    using assms len by (simp add: inplace_def moved_def copied_def)
qed

lemma store_tail:
  assumes "ew_out s + length (sp @ t) \<le> length (ew_memory s)" "sp = (if q then [0x20] else [])"
  shows "bind_outcome (if q then store_out s [0x20] else Ok s) (\<lambda>s.
      bind_outcome (store_out s t) (\<lambda>s. Ok (s, False))) = Ok (copied s (sp @ t), False)"
proof -
  have "(if q then store_out s [0x20] else Ok s) = Ok (copied s sp)"
    using assms by (auto simp: store_out_copied copied_Nil)
  moreover have "store_out (copied s sp) t = Ok (copied (copied s sp) t)"
    using assms by (intro store_out_copied) (auto simp: length_copied)
  ultimately show ?thesis
    using copied_append [of s sp t] assms(1) by simp
qed

text \<open>
  One iteration does what one step of the reference definition does.
\<close>

lemma iteration_ok:
  assumes inv: "inplace input s" and small: "small_words input"
    and find: "find_string (drop (ew_in s) input) (str ''=?'') = Some skip"
  obtains s' had' out where "decode_iteration s had skip = Ok (s', had')" "inplace input s'"
    "written s' = written s @ out"
    "plain_decode input (ew_in s) had = out @ plain_decode input (ew_in s') had'"
proof -
  define i start m where "i = ew_in s" and "start = i + skip" and "m = ew_memory s"
  define ispc where "ispc \<longleftrightarrow> had \<and> skip = 1 \<and> input ! (start - 1) = 0x20"
  define before where "before = (if ispc then [] else take skip (drop i input))"
  define cond where "cond \<longleftrightarrow> start = 0 \<or> input ! (start - 1) = 0x20"
  have bound: "start + 2 \<le> length input" using find_open_bound [OF find] by (simp add: start_def i_def)
  have m: "length m = length input" "drop (i - 1) m = drop (i - 1) input" "ew_out s \<le> i"
    "ew_length s = length input - i"
    using inv by (auto simp: inplace_def m_def i_def)
  have prev: "m ! (start - 1) = input ! (start - 1)" if "start \<noteq> 0"
    using that nth_from_drop [OF m(2), of "start - 1"] bound m(1) by (simp add: start_def)
  have isp: "(had \<and> skip = 1 \<and> m ! (start - 1) = 0x20) = ispc"
    using prev by (auto simp: ispc_def start_def)
  have mi: "take skip (drop i m) = take skip (drop i input)"
    using drop_later [OF m(2), of i] by simp
  have fit: "ew_out s + length before \<le> length (ew_memory s)"
    using m bound by (auto simp: before_def start_def m_def)
  have st1: "(if ispc then Ok s else store_out s (take skip (drop i m))) = Ok (copied s before)"
    using fit mi by (auto simp: before_def copied_Nil store_out_copied m_def)
  define s2 where "s2 = (copied s before)\<lparr>ew_length := ew_length s - (skip + 2), ew_in := start + 2\<rparr>"
  have "drop (start - 1) (ew_memory (copied s before)) = drop (start - 1) m"
  proof (cases ispc)
    case True
    then show ?thesis by (simp add: before_def copied_Nil m_def)
  next
    case False
    then show ?thesis
      using copy_down [OF m(3), of skip m] m bound mi by (simp add: before_def copied_def start_def m_def)
  qed
  then have keep: "drop (start - 1) (ew_memory s2) = drop (start - 1) input"
    using drop_later [OF m(2), of "start - 1"] by (simp add: s2_def start_def)
  have l2: "length (ew_memory s2) = length input"
    using length_copied [OF fit] m(1) by (simp add: s2_def m_def)
  have s2: "inplace input s2"
    using drop_later [OF keep, of "start + 1"] l2 inv bound m fit
    by (auto simp: inplace_def s2_def before_def start_def i_def)
  have w2: "written s2 = written s @ before"
    using written_copied [OF fit] by (simp add: s2_def written_def)
  have c2: "(start = 0 \<or> ew_memory s2 ! (start - 1) = 0x20) = cond"
    using nth_from_drop [OF keep, of "start - 1"] l2 bound by (auto simp: cond_def)
  define W where "W = (if cond then plain_word (drop (start + 2) input) else None)"
  have it: "decode_iteration s had skip = bind_outcome (if cond then process_encoded_word s2 else Ok (s2, False))
      (\<lambda>(s, ok). if ok then Ok (s, True) else
         bind_outcome (if ispc then store_out s [0x20] else Ok s) (\<lambda>s.
           bind_outcome (store_out s (str ''=?'')) (\<lambda>s. Ok (s, False))))"
    unfolding decode_iteration_def Let_def i_def [symmetric] start_def [symmetric] m_def [symmetric] isp st1
      bind_outcome.simps
    by (simp only: copied_frame s2_def [symmetric] c2)
  have pl: "plain_decode input i had = (case W of
      Some (bytes, n) \<Rightarrow> before @ bytes @ plain_decode input (start + 2 + n) True
    | None \<Rightarrow> before @ (if ispc then [0x20] else []) @ str ''=?'' @ plain_decode input (start + 2) False)"
    by (subst plain_decode.simps)
      (simp only: find [folded i_def] option.case Let_def start_def [symmetric] ispc_def [symmetric]
        before_def [symmetric] cond_def [symmetric] W_def [symmetric])
  have wr: "word_result input s2" by (rule process_word_ok [OF s2 small])
  have in2: "ew_in s2 = start + 2" by (simp add: s2_def)
  show thesis
  proof (cases W)
    case (Some bn)
    obtain bytes n where bn: "bn = (bytes, n)" by (cases bn)
    then have "cond" "plain_word (drop (ew_in s2) input) = Some (bytes, n)"
      using Some by (auto simp: W_def in2 split: if_splits)
    then obtain s' where "process_encoded_word s2 = Ok (s', True)" "inplace input s'"
        "ew_in s' = start + 2 + n" "written s' = written s2 @ bytes"
      using wr by (auto simp: word_result_def in2)
    then show thesis
      using \<open>cond\<close> it pl Some bn w2 by (intro that [of s' True "before @ bytes"]) (auto simp: i_def)
  next
    case None
    define sp where "sp = (if ispc then [0x20 :: u8] else [])"
    obtain b where b: "buf_ok b" "(if cond then process_encoded_word s2 else Ok (s2, False)) = Ok (s2\<lparr>ew_decode_buf := b\<rparr>, False)"
    proof (cases cond)
      case True
      then show thesis using that wr None by (auto simp: word_result_def W_def in2)
    next
      case False
      then show thesis using that [of "ew_decode_buf s2"] s2 by (simp add: inplace_def)
    qed
    define s3 E where "s3 = s2\<lparr>ew_decode_buf := b\<rparr>" and "E = before @ sp @ str ''=?''"
    have E: "E = take (skip + 2) (drop i input)"
    proof -
      have "take 2 (drop skip (drop i input)) = str ''=?''"
        using find_string_found [OF find] by (simp add: i_def numeral_2_eq_2)
      then have "take (skip + 2) (drop i input) = take skip (drop i input) @ str ''=?''"
        by (simp only: take_add)
      moreover have "take skip (drop i input) = before @ sp"
        using bound by (auto simp: before_def sp_def ispc_def start_def take_Suc_conv_app_nth)
      ultimately show ?thesis by (simp add: E_def)
    qed
    have "length E = skip + 2" using E bound by (simp add: start_def)
    then have f: "ew_out s3 + length (sp @ str ''=?'') \<le> length (ew_memory s3)"
      using l2 bound m(3) by (simp add: s3_def s2_def E_def start_def)
    define s4 where "s4 = copied s3 (sp @ str ''=?'')"
    have run: "decode_iteration s had skip = Ok (s4, False)"
      unfolding it b(2) s3_def [symmetric] s4_def bind_outcome.simps prod.case if_False
      by (rule store_tail [OF f sp_def])
    have s4: "s4 = (moved s E (skip + 2))\<lparr>ew_decode_buf := b\<rparr>"
      using f write_at_append [of "ew_out s" before "sp @ str ''=?''" m] m(1) l2
      by (simp add: s4_def s3_def s2_def moved_def copied_def E_def m_def [symmetric] start_def i_def [symmetric] del: str_simps)
    have "inplace input (moved s E (skip + 2))"
      using inv m(4) bound E by (intro inplace_moved) (auto simp: start_def i_def)
    then have "inplace input s4" using b(1) by (simp add: s4 inplace_def)
    moreover have "written s4 = written s @ E"
      using written_copied [of s E] m bound \<open>length E = skip + 2\<close>
      by (simp add: s4 moved_def written_def start_def m_def)
    ultimately show thesis
      using that [OF run] pl None by (simp add: s4 moved_def E_def sp_def start_def i_def del: str_simps)
  qed
qed

lemma decode_words_ok:
  assumes "inplace input s" "small_words input"
  shows "\<exists>s'. decode_words s had = Ok s' \<and> written s' = written s @ plain_decode input (ew_in s) had"
  using assms(1)
proof (induction s had rule: decode_words.induct)
  case (1 s had)
  note v = inplace_view [OF "1.prems"]
  show ?case
  proof (cases "find_string (ew_view s) (str ''=?'')")
    case None
    have "ew_out s + length (drop (ew_in s) input) \<le> length (ew_memory s)"
      using "1.prems" by (auto simp: inplace_def)
    then have "decode_words s had = Ok (copied s (drop (ew_in s) input))"
      "written (copied s (drop (ew_in s) input)) = written s @ drop (ew_in s) input"
      using None by (simp_all add: decode_words.simps [of s] v store_out_copied written_copied del: str_simps)
    moreover have "plain_decode input (ew_in s) had = drop (ew_in s) input"
      using None by (simp add: plain_decode.simps v del: str_simps)
    ultimately show ?thesis by simp
  next
    case (Some skip)
    obtain s1 had1 out where s1: "decode_iteration s had skip = Ok (s1, had1)" "inplace input s1"
        "written s1 = written s @ out"
        "plain_decode input (ew_in s) had = out @ plain_decode input (ew_in s1) had1"
      by (rule iteration_ok [OF "1.prems" assms(2)]) (use Some v in simp)
    have "\<exists>s'. decode_words s1 had1 = Ok s' \<and> written s' = written s1 @ plain_decode input (ew_in s1) had1"
      using "1.IH" [OF Some s1(1) refl s1(2)] .
    then show ?thesis
      using Some s1 by (simp add: decode_words.simps [of s] del: str_simps)
  qed
qed

section \<open>Properties\<close>

text \<open>
  C40: Decoding a header in place, with the output written over the part of the buffer that has
  been read and each payload decoded in chunks through the scratch buffer, never faults and leaves
  exactly what the reference definition computes from an unchanging copy of the header, for headers
  in which no base-64 payload is longer than the smallest chunk of ten characters.\<close>
theorem encoded_words_in_place:
  assumes "small_words input"
  shows "ntb_encoded_words_decode input = Ok (plain_decode input 0 False)"
proof -
  define s where "s = \<lparr>ew_memory = input, ew_out = 0, ew_in = 0, ew_length = length input,
    ew_decode_buf = ntb_buffer_init\<rparr>"
  have "inplace input s" by (simp add: inplace_def s_def)
  then obtain s' where "decode_words s False = Ok s'" "written s' = written s @ plain_decode input (ew_in s) False"
    using decode_words_ok [OF _ assms] by blast
  then show ?thesis
    by (simp add: ntb_encoded_words_decode_def s_def written_def)
qed

text \<open>
  The space computed for a chunk ignores the up to three characters that the base-64 decoder
  holds back from the chunk before, so a valid encoded word with a payload of 44 characters makes it
  write one byte beyond the allocated scratch buffer.\<close>
theorem encoded_words_base64_overflow:
  "ntb_encoded_words_decode (str ''=?utf-8?b?'' @ replicate 44 0x41 @ str ''?='') = Fault"
  by code_simp

theorem encoded_words_in_place_witness:
  "ntb_encoded_words_decode (str ''a =?utf-8?q?x=41_y?= =?utf-8?b?QUJD?= b'') =
     Ok (plain_decode (str ''a =?utf-8?q?x=41_y?= =?utf-8?b?QUJD?= b'') 0 False)"
proof -
  have "small_words (str ''a =?utf-8?q?x=41_y?= =?utf-8?b?QUJD?= b'')" by code_simp
  then show ?thesis by (rule encoded_words_in_place)
qed

end
