(* ===== verification/Ntb_Connection.thy ===== *)
theory Ntb_Connection
  imports Ntb_Proto
begin

text \<open>
  A connection to a peer (\<open>ntb-connection.c\<close>): the input buffer that is cut into commands, the handlers
  that turn commands into events, the output buffer into which commands are built, the queue of
  objects that a peer has asked for, and the timer that keeps an idle connection alive.

  The listeners of the event signal are a parameter: a function that takes the connection and the
  event and returns the connection as the listeners left it and whether it still exists. The trace
  of emitted events is kept in the connection. The results of \<open>read\<close>, \<open>write\<close>, \<open>socket\<close>, \<open>connect\<close>
  and \<open>accept\<close>, the clock and SHA-512 are arguments. The two intrusive lists are the sequences
  of their entries, and the store's cookie is the hash that is being loaded. Log messages are left out.
\<close>

section \<open>State\<close>

record ntb_connection_queue_entry =
  queue_hash :: "u8 list"
  queue_blob :: "(ntb_proto_inv_type \<times> u8 list) option"

datatype ntb_connection_event =
    EVENT_CONNECT_FAILED
  | EVENT_ERROR
  | EVENT_VERSION (ev_version: u32) (ev_services: u64) (ev_timestamp: int)
      (ev_addr_recv: ntb_netaddress) (ev_addr_from: ntb_netaddress) (ev_nonce: u64)
      (ev_user_agent: ntb_proto_var_str) (ev_stream_numbers: ntb_proto_var_int_list)
  | EVENT_INV (ev_n_inventories: u64) (ev_inventories: "u8 list")
  | EVENT_ADDR (ev_addr_timestamp: int) (ev_addr_stream: u32) (ev_addr_services: u64) (ev_address: ntb_netaddress)
  | EVENT_OBJECT (ev_type: ntb_proto_inv_type) (ev_object_nonce: u64) (ev_object_timestamp: int)
      (ev_stream_number: u64) (ev_object_data: "u8 list") (ev_object_data_length: u32)
  | EVENT_GETDATA (ev_n_hashes: u64) (ev_hashes: "u8 list")
  | EVENT_VERACK

text \<open>The socket source is \<open>NULL\<close> or has the flag that says whether it also polls for writing.\<close>

record ntb_connection =
  remote_address :: ntb_netaddress
  socket_source :: "bool option"
  timer_source :: bool
  in_buf :: ntb_buffer
  out_buf :: ntb_buffer
  connect_succeeded :: bool
  command_start :: nat
  load_cookie :: "u8 list option"
  ready_objects :: "ntb_connection_queue_entry list"
  objects_to_load :: "ntb_connection_queue_entry list"
  last_write_time :: u64
  last_read_time :: u64
  n_bytes_recieved :: u64
  n_bytes_send :: u64
  event_log :: "ntb_connection_event list"

type_synonym listener = "ntb_connection \<Rightarrow> ntb_connection_event \<Rightarrow> ntb_connection \<times> bool"

definition NTB_CONNECTION_MAX_MESSAGE_SIZE :: u32 where
  "NTB_CONNECTION_MAX_MESSAGE_SIZE = 128 * 1024 * 1024"

definition NTB_CONNECTION_PONG_CHECK_INTERVAL :: u64 where
  "NTB_CONNECTION_PONG_CHECK_INTERVAL = 3"

definition NTB_CONNECTION_PONG_INTERVAL :: u64 where
  "NTB_CONNECTION_PONG_INTERVAL = 5 * 60"

definition NTB_CONNECTION_TIMEOUT :: u64 where
  "NTB_CONNECTION_TIMEOUT = 10 * 60"

section \<open>Events and errors\<close>

definition emit_event :: "listener \<Rightarrow> ntb_connection \<Rightarrow> ntb_connection_event \<Rightarrow> ntb_connection \<times> bool" where
  "emit_event listener conn event = listener (conn\<lparr>event_log := event_log conn @ [event]\<rparr>) event"

definition remove_sources :: "ntb_connection \<Rightarrow> ntb_connection" where
  "remove_sources conn = conn\<lparr>socket_source := None, timer_source := False\<rparr>"

definition set_error_state :: "listener \<Rightarrow> ntb_connection \<Rightarrow> ntb_connection" where
  "set_error_state listener conn =
     fst (emit_event listener (remove_sources conn)
       (if connect_succeeded conn then EVENT_ERROR else EVENT_CONNECT_FAILED))"

text \<open>Only the log message depends on the error of the socket.\<close>

definition handle_error :: "listener \<Rightarrow> ntb_connection \<Rightarrow> ntb_connection" where
  "handle_error listener conn = set_error_state listener conn"

definition connection_is_ready_to_write :: "ntb_connection \<Rightarrow> bool" where
  "connection_is_ready_to_write conn \<longleftrightarrow> buf_length (out_buf conn) > 0 \<or> ready_objects conn \<noteq> []"

text \<open>Without a source the code would dereference a null pointer.\<close>

definition update_poll_flags :: "ntb_connection \<Rightarrow> ntb_connection outcome" where
  "update_poll_flags conn =
     (case socket_source conn of
        None \<Rightarrow> Fault
      | Some _ \<Rightarrow> Ok (conn\<lparr>socket_source := Some (connection_is_ready_to_write conn)\<rparr>))"

section \<open>Command handlers\<close>

text \<open>What a handler does with the result of a reader: the \<open>error\<close> label of the code for a failure.\<close>

definition or_error ::
    "listener \<Rightarrow> ntb_connection \<Rightarrow> 'a outcome \<Rightarrow> ('a \<Rightarrow> (ntb_connection \<times> bool) outcome) \<Rightarrow>
     (ntb_connection \<times> bool) outcome" where
  "or_error listener conn m f =
     (case m of
        Fault \<Rightarrow> Fault
      | Fail \<Rightarrow> Ok (set_error_state listener conn, False)
      | Ok v \<Rightarrow> f v)"

fun addr_loop :: "listener \<Rightarrow> nat \<Rightarrow> ntb_connection \<Rightarrow> u8 list \<Rightarrow> u32 \<Rightarrow> (ntb_connection \<times> bool) outcome" where
  "addr_loop listener 0 conn data command_length = Ok (conn, True)"
| "addr_loop listener (Suc n) conn data command_length =
     or_error listener conn
       (ntb_proto_get_command data command_length
          [NTB_PROTO_ARGUMENT_TIMESTAMP, NTB_PROTO_ARGUMENT_32, NTB_PROTO_ARGUMENT_64,
           NTB_PROTO_ARGUMENT_NETADDRESS])
       (\<lambda>r. case r of
          ([VTimestamp t, V32 s, V64 v, VNetaddress a], addr_length) \<Rightarrow>
            (case emit_event listener conn (EVENT_ADDR t s v a) of
               (conn, False) \<Rightarrow> Ok (conn, False)
             | (conn, True) \<Rightarrow>
                 addr_loop listener n conn (drop addr_length data) (command_length - word_of_nat addr_length))
        | _ \<Rightarrow> Fault)"

definition addr_command_handler :: "listener \<Rightarrow> ntb_connection \<Rightarrow> u8 list \<Rightarrow> u32 \<Rightarrow> (ntb_connection \<times> bool) outcome" where
  "addr_command_handler listener conn data command_length =
     or_error listener conn (ntb_proto_get_var_int (data, command_length))
       (\<lambda>(n_addresses, data, command_length). addr_loop listener (unat n_addresses) conn data command_length)"

text \<open>The product is computed in 64 bits.\<close>

definition getdata_command_handler :: "listener \<Rightarrow> ntb_connection \<Rightarrow> u8 list \<Rightarrow> u32 \<Rightarrow> (ntb_connection \<times> bool) outcome" where
  "getdata_command_handler listener conn data command_length =
     or_error listener conn (ntb_proto_get_var_int (data, command_length))
       (\<lambda>(n_hashes, data, command_length).
          if ucast command_length < n_hashes * word_of_nat NTB_PROTO_HASH_LENGTH
          then Ok (set_error_state listener conn, False)
          else Ok (emit_event listener conn (EVENT_GETDATA n_hashes data)))"

definition version_command_handler :: "listener \<Rightarrow> ntb_connection \<Rightarrow> u8 list \<Rightarrow> u32 \<Rightarrow> (ntb_connection \<times> bool) outcome" where
  "version_command_handler listener conn data command_length =
     or_error listener conn
       (ntb_proto_get_command data command_length
          [NTB_PROTO_ARGUMENT_32, NTB_PROTO_ARGUMENT_64, NTB_PROTO_ARGUMENT_TIMESTAMP,
           NTB_PROTO_ARGUMENT_64, NTB_PROTO_ARGUMENT_NETADDRESS,
           NTB_PROTO_ARGUMENT_64, NTB_PROTO_ARGUMENT_NETADDRESS,
           NTB_PROTO_ARGUMENT_64, NTB_PROTO_ARGUMENT_VAR_STR, NTB_PROTO_ARGUMENT_VAR_INT_LIST])
       (\<lambda>r. case r of
          ([V32 v, V64 s, VTimestamp t, V64 _, VNetaddress recv, V64 _, VNetaddress from,
            V64 n, VVarStr ua, VVarIntList sn], _) \<Rightarrow>
            Ok (emit_event listener conn (EVENT_VERSION v s t recv from n ua sn))
        | _ \<Rightarrow> Fault)"

definition verack_command_handler :: "listener \<Rightarrow> ntb_connection \<Rightarrow> u8 list \<Rightarrow> u32 \<Rightarrow> (ntb_connection \<times> bool) outcome" where
  "verack_command_handler listener conn data command_length = Ok (emit_event listener conn EVENT_VERACK)"

definition getpubkey_command_handler :: "listener \<Rightarrow> ntb_connection \<Rightarrow> u8 list \<Rightarrow> u32 \<Rightarrow> (ntb_connection \<times> bool) outcome" where
  "getpubkey_command_handler listener conn data command_length =
     or_error listener conn
       (ntb_proto_get_command data command_length
          [NTB_PROTO_ARGUMENT_64, NTB_PROTO_ARGUMENT_TIMESTAMP, NTB_PROTO_ARGUMENT_VAR_INT,
           NTB_PROTO_ARGUMENT_VAR_INT])
       (\<lambda>r. case r of
          ([V64 n, VTimestamp t, VVarInt _, VVarInt s], _) \<Rightarrow>
            Ok (emit_event listener conn
              (EVENT_OBJECT NTB_PROTO_INV_TYPE_GETPUBKEY n t s data command_length))
        | _ \<Rightarrow> Fault)"

definition pubkey_command_handler :: "listener \<Rightarrow> ntb_connection \<Rightarrow> u8 list \<Rightarrow> u32 \<Rightarrow> (ntb_connection \<times> bool) outcome" where
  "pubkey_command_handler listener conn data command_length =
     or_error listener conn
       (ntb_proto_get_command data command_length
          [NTB_PROTO_ARGUMENT_64, NTB_PROTO_ARGUMENT_TIMESTAMP, NTB_PROTO_ARGUMENT_VAR_INT,
           NTB_PROTO_ARGUMENT_VAR_INT])
       (\<lambda>r. case r of
          ([V64 n, VTimestamp t, VVarInt _, VVarInt s], _) \<Rightarrow>
            Ok (emit_event listener conn
              (EVENT_OBJECT NTB_PROTO_INV_TYPE_PUBKEY n t s data command_length))
        | _ \<Rightarrow> Fault)"

definition msg_command_handler :: "listener \<Rightarrow> ntb_connection \<Rightarrow> u8 list \<Rightarrow> u32 \<Rightarrow> (ntb_connection \<times> bool) outcome" where
  "msg_command_handler listener conn data command_length =
     or_error listener conn
       (ntb_proto_get_command data command_length
          [NTB_PROTO_ARGUMENT_64, NTB_PROTO_ARGUMENT_TIMESTAMP, NTB_PROTO_ARGUMENT_VAR_INT])
       (\<lambda>r. case r of
          ([V64 n, VTimestamp t, VVarInt s], _) \<Rightarrow>
            Ok (emit_event listener conn
              (EVENT_OBJECT NTB_PROTO_INV_TYPE_MSG n t s data command_length))
        | _ \<Rightarrow> Fault)"

definition broadcast_command_handler :: "listener \<Rightarrow> ntb_connection \<Rightarrow> u8 list \<Rightarrow> u32 \<Rightarrow> (ntb_connection \<times> bool) outcome" where
  "broadcast_command_handler listener conn data command_length =
     or_error listener conn
       (ntb_proto_get_command data command_length
          [NTB_PROTO_ARGUMENT_64, NTB_PROTO_ARGUMENT_TIMESTAMP, NTB_PROTO_ARGUMENT_VAR_INT,
           NTB_PROTO_ARGUMENT_VAR_INT])
       (\<lambda>r. case r of
          ([V64 n, VTimestamp t, VVarInt _, VVarInt s], _) \<Rightarrow>
            Ok (emit_event listener conn
              (EVENT_OBJECT NTB_PROTO_INV_TYPE_BROADCAST n t s data command_length))
        | _ \<Rightarrow> Fault)"

definition inv_command_handler :: "listener \<Rightarrow> ntb_connection \<Rightarrow> u8 list \<Rightarrow> u32 \<Rightarrow> (ntb_connection \<times> bool) outcome" where
  "inv_command_handler listener conn data command_length =
     or_error listener conn (ntb_proto_get_var_int (data, command_length))
       (\<lambda>(n_inventories, data, command_length).
          if ucast command_length < n_inventories * word_of_nat NTB_PROTO_HASH_LENGTH
          then Ok (set_error_state listener conn, False)
          else Ok (emit_event listener conn (EVENT_INV n_inventories data)))"

definition send_pong :: "(u8 list \<Rightarrow> u8 list) \<Rightarrow> ntb_connection \<Rightarrow> ntb_connection outcome" where
  "send_pong sha conn =
     bind_outcome (ntb_proto_add_command sha 0 (out_buf conn) ''pong'' []) (\<lambda>b.
       update_poll_flags (conn\<lparr>out_buf := b\<rparr>))"

definition ping_command_handler ::
    "(u8 list \<Rightarrow> u8 list) \<Rightarrow> listener \<Rightarrow> ntb_connection \<Rightarrow> u8 list \<Rightarrow> u32 \<Rightarrow> (ntb_connection \<times> bool) outcome" where
  "ping_command_handler sha listener conn data command_length =
     bind_outcome (send_pong sha conn) (\<lambda>conn. Ok (conn, True))"

definition command_handlers ::
    "(u8 list \<Rightarrow> u8 list) \<Rightarrow>
     (string \<times> (listener \<Rightarrow> ntb_connection \<Rightarrow> u8 list \<Rightarrow> u32 \<Rightarrow> (ntb_connection \<times> bool) outcome)) list" where
  "command_handlers sha =
     [(''getpubkey'', getpubkey_command_handler),
      (''pubkey'', pubkey_command_handler),
      (''msg'', msg_command_handler),
      (''broadcast'', broadcast_command_handler),
      (''inv'', inv_command_handler),
      (''version'', version_command_handler),
      (''addr'', addr_command_handler),
      (''getdata'', getdata_command_handler),
      (''verack'', verack_command_handler),
      (''ping'', ping_command_handler sha)]"

section \<open>Commands in the input\<close>

definition process_command ::
    "(u8 list \<Rightarrow> u8 list) \<Rightarrow> listener \<Rightarrow> ntb_connection \<Rightarrow> u8 list \<Rightarrow> u32 \<Rightarrow> (ntb_connection \<times> bool) outcome" where
  "process_command sha listener conn data command_length =
     (if take 4 data \<noteq> ntb_proto_magic then Ok (set_error_state listener conn, False)
      else if \<not> ntb_proto_check_command_string (drop 4 data) then Ok (set_error_state listener conn, False)
      else
        bind_outcome (read_bytes (unat command_length) (drop NTB_PROTO_HEADER_SIZE data)) (\<lambda>payload.
          let hash = sha payload in
          if take 4 hash \<noteq> take 4 (drop 20 data) then Ok (set_error_state listener conn, False)
          else case find (\<lambda>(name, _). c_string (drop 4 data) = str name) (command_handlers sha) of
            Some (_, func) \<Rightarrow> func listener conn (drop NTB_PROTO_HEADER_SIZE data) command_length
          | None \<Rightarrow> Ok (conn, True)))"

text \<open>
  The loop over the commands, for the memory from the read pointer on and the number of bytes that
  have been received there. It ends with the number of bytes that are left, or with \<open>None\<close> when a
  handler has stopped it.
\<close>

function commands_loop ::
    "(u8 list \<Rightarrow> u8 list) \<Rightarrow> listener \<Rightarrow> ntb_connection \<Rightarrow> u8 list \<Rightarrow> nat \<Rightarrow>
     (ntb_connection \<times> nat option) outcome" where
  "commands_loop sha listener conn data len =
     (if len < NTB_PROTO_HEADER_SIZE then Ok (conn, Some len)
      else
        bind_outcome (ntb_proto_get_32 (drop 16 data)) (\<lambda>command_length.
          if command_length > NTB_CONNECTION_MAX_MESSAGE_SIZE
          then Ok (set_error_state listener conn, None)
          else if len < NTB_PROTO_HEADER_SIZE + unat command_length then Ok (conn, Some len)
          else
            bind_outcome (process_command sha listener conn data command_length) (\<lambda>(conn, ok).
              if ok
              then commands_loop sha listener conn (drop (unat command_length + NTB_PROTO_HEADER_SIZE) data)
                     (len - (unat command_length + NTB_PROTO_HEADER_SIZE))
              else Ok (conn, None))))"
  by pat_completeness auto
termination
  by (relation "measure (\<lambda>(sha, listener, conn, data, len). len)") (auto simp: NTB_PROTO_HEADER_SIZE_def)

declare commands_loop.simps [simp del]

definition process_commands ::
    "(u8 list \<Rightarrow> u8 list) \<Rightarrow> listener \<Rightarrow> ntb_connection \<Rightarrow> ntb_connection outcome" where
  "process_commands sha listener conn =
     (let total = buf_length (in_buf conn) in
      bind_outcome (commands_loop sha listener conn (memory_of (in_buf conn)) total) (\<lambda>(conn, r).
        case r of
          None \<Rightarrow> Ok conn
        | Some len \<Rightarrow>
            let b = in_buf conn in
            Ok (conn\<lparr>in_buf := b\<lparr>
                  buf_data := write_at 0 (take len (drop (total - len) (buf_data b))) (buf_data b),
                  buf_length := len\<rparr>\<rparr>)))"

text \<open>The result of \<open>read\<close> after repeating it while it was interrupted.\<close>

datatype read_result = Read_Eof | Read_Again | Read_Error | Read_Bytes "u8 list"

definition handle_read ::
    "(u8 list \<Rightarrow> u8 list) \<Rightarrow> listener \<Rightarrow> u64 \<Rightarrow> read_result \<Rightarrow> ntb_connection \<Rightarrow> ntb_connection outcome" where
  "handle_read sha listener now got conn =
     (let b = ntb_buffer_ensure_size (in_buf conn) (buf_length (in_buf conn) + 1024);
          conn = conn\<lparr>in_buf := b\<rparr>
      in case got of
           Read_Eof \<Rightarrow> Ok (set_error_state listener conn)
         | Read_Error \<Rightarrow> Ok (set_error_state listener conn)
         | Read_Again \<Rightarrow> Ok conn
         | Read_Bytes bytes \<Rightarrow>
             if length bytes > buf_size b - buf_length b then Fault
             else
               process_commands sha listener
                 (conn\<lparr>in_buf := b\<lparr>buf_data := write_at (buf_length b) (map Some bytes) (buf_data b),
                                 buf_length := buf_length b + length bytes\<rparr>,
                       last_read_time := now,
                       n_bytes_recieved := n_bytes_recieved conn + word_of_nat (length bytes)\<rparr>))"

section \<open>The queue of objects\<close>

text \<open>
  The callback of the store. A blob that could not be loaded is a null pointer, which the code
  dereferences to count the new reference.
\<close>

definition load_cb :: "(ntb_proto_inv_type \<times> u8 list) option \<Rightarrow> ntb_connection \<Rightarrow> ntb_connection outcome" where
  "load_cb blob conn =
     (case objects_to_load conn of
        [] \<Rightarrow> Fault
      | entry # rest \<Rightarrow>
          if queue_blob entry \<noteq> None then Fault
          else case blob of
            None \<Rightarrow> Fault
          | Some bl \<Rightarrow>
              update_poll_flags
                (conn\<lparr>objects_to_load := rest,
                      ready_objects := ready_objects conn @ [entry\<lparr>queue_blob := Some bl\<rparr>],
                      load_cookie := None\<rparr>))"

definition maybe_queue_load :: "ntb_connection \<Rightarrow> ntb_connection" where
  "maybe_queue_load conn =
     (if load_cookie conn \<noteq> None then conn
      else if ready_objects conn \<noteq> [] then conn
      else case objects_to_load conn of
        [] \<Rightarrow> conn
      | entry # _ \<Rightarrow> conn\<lparr>load_cookie := Some (queue_hash entry)\<rparr>)"

definition ntb_connection_send_blob ::
    "ntb_connection \<Rightarrow> u8 list \<Rightarrow> (ntb_proto_inv_type \<times> u8 list) option \<Rightarrow> ntb_connection outcome" where
  "ntb_connection_send_blob conn hash blob =
     (case blob of
        Some bl \<Rightarrow>
          update_poll_flags
            (conn\<lparr>ready_objects := ready_objects conn @ [\<lparr>queue_hash = hash, queue_blob = Some bl\<rparr>]\<rparr>)
      | None \<Rightarrow>
          Ok (maybe_queue_load
            (conn\<lparr>objects_to_load := objects_to_load conn @ [\<lparr>queue_hash = hash, queue_blob = None\<rparr>]\<rparr>)))"

function add_ready_objects :: "(u8 list \<Rightarrow> u8 list) \<Rightarrow> ntb_connection \<Rightarrow> ntb_connection outcome" where
  "add_ready_objects sha conn =
     (if buf_length (out_buf conn) < 1024
      then case ready_objects conn of
             [] \<Rightarrow> Ok conn
           | entry # rest \<Rightarrow>
               (case queue_blob entry of
                  None \<Rightarrow> Fault
                | Some (type, data) \<Rightarrow>
                    let start = buf_length (out_buf conn);
                        b = ntb_proto_begin_command (out_buf conn) (ntb_proto_get_command_name_for_type type);
                        b = ntb_buffer_append b data
                    in bind_outcome (ntb_proto_end_command sha b start) (\<lambda>b.
                         add_ready_objects sha
                           (maybe_queue_load (conn\<lparr>out_buf := b, ready_objects := rest\<rparr>))))
      else Ok conn)"
  by pat_completeness auto
termination
  by (relation "measure (\<lambda>(sha, conn). length (ready_objects conn))")
    (auto simp: maybe_queue_load_def split: list.splits)

declare add_ready_objects.simps [simp del]

section \<open>Writing\<close>

text \<open>The result of \<open>write\<close> after repeating it while it was interrupted.\<close>

datatype write_result = Write_Again | Write_Error | Wrote nat

definition handle_write ::
    "(u8 list \<Rightarrow> u8 list) \<Rightarrow> listener \<Rightarrow> u64 \<Rightarrow> write_result \<Rightarrow> ntb_connection \<Rightarrow> ntb_connection outcome" where
  "handle_write sha listener now wrote conn =
     bind_outcome (add_ready_objects sha conn) (\<lambda>conn.
       case wrote of
         Write_Again \<Rightarrow> Ok conn
       | Write_Error \<Rightarrow> Ok (set_error_state listener conn)
       | Wrote n \<Rightarrow>
           let b = out_buf conn in
           if n > buf_length b then Fault
           else
             update_poll_flags
               (conn\<lparr>out_buf := b\<lparr>
                       buf_data := write_at 0 (take (buf_length b - n) (drop n (buf_data b))) (buf_data b),
                       buf_length := buf_length b - n\<rparr>,
                     n_bytes_send := n_bytes_send conn + word_of_nat n,
                     last_write_time := now\<rparr>))"

record ntb_main_context_poll_flags =
  POLL_IN :: bool
  POLL_OUT :: bool
  POLL_ERROR :: bool

definition connection_poll_cb ::
    "(u8 list \<Rightarrow> u8 list) \<Rightarrow> listener \<Rightarrow> u64 \<Rightarrow> read_result \<Rightarrow> write_result \<Rightarrow>
     ntb_main_context_poll_flags \<Rightarrow> ntb_connection \<Rightarrow> ntb_connection outcome" where
  "connection_poll_cb sha listener now got wrote flags conn =
     (let conn = (if POLL_OUT flags \<and> \<not> POLL_ERROR flags \<and> \<not> connect_succeeded conn
                  then conn\<lparr>connect_succeeded := True\<rparr> else conn)
      in if POLL_ERROR flags then Ok (handle_error listener conn)
         else if POLL_IN flags then handle_read sha listener now got conn
         else if POLL_OUT flags then handle_write sha listener now wrote conn
         else Ok conn)"

section \<open>Keeping the connection alive\<close>

definition pong_check_cb ::
    "(u8 list \<Rightarrow> u8 list) \<Rightarrow> listener \<Rightarrow> u64 \<Rightarrow> ntb_connection \<Rightarrow> ntb_connection outcome" where
  "pong_check_cb sha listener now conn =
     (if (now - last_read_time conn) div 1000000 \<ge> NTB_CONNECTION_TIMEOUT
      then Ok (set_error_state listener conn)
      else if (now - last_write_time conn) div 1000000 \<ge> NTB_CONNECTION_PONG_INTERVAL \<and>
              \<not> connection_is_ready_to_write conn
      then send_pong sha conn
      else Ok conn)"

section \<open>Creation\<close>

definition ntb_connection_new_for_socket :: "u64 \<Rightarrow> ntb_netaddress \<Rightarrow> u64 \<Rightarrow> u64 \<Rightarrow> ntb_connection" where
  "ntb_connection_new_for_socket now address recieved sent =
     \<lparr>remote_address = address, socket_source = Some False, timer_source = True,
      in_buf = ntb_buffer_init, out_buf = ntb_buffer_init, connect_succeeded = False,
      command_start = 0, load_cookie = None, ready_objects = [], objects_to_load = [],
      last_write_time = now, last_read_time = now,
      n_bytes_recieved = recieved, n_bytes_send = sent, event_log = []\<rparr>"

text \<open>The results of the three system calls; \<open>EINPROGRESS\<close> counts as a success of \<open>connect\<close>.\<close>

definition ntb_connection_connect ::
    "bool \<Rightarrow> bool \<Rightarrow> bool \<Rightarrow> u64 \<Rightarrow> ntb_netaddress \<Rightarrow> u64 \<Rightarrow> u64 \<Rightarrow> ntb_connection outcome" where
  "ntb_connection_connect socket_ok nonblock_ok connect_ok now address recieved sent =
     (if \<not> socket_ok then Fail
      else if \<not> nonblock_ok then Fail
      else if \<not> connect_ok then Fail
      else Ok (ntb_connection_new_for_socket now address recieved sent))"

text \<open>The address that \<open>accept\<close> reports is converted by \<open>ntb_netaddress_from_native\<close>.\<close>

definition ntb_connection_accept ::
    "native option \<Rightarrow> bool \<Rightarrow> u64 \<Rightarrow> u64 \<Rightarrow> u64 \<Rightarrow> ntb_connection outcome" where
  "ntb_connection_accept accepted nonblock_ok now recieved sent =
     (case accepted of
        None \<Rightarrow> Fail
      | Some native_address \<Rightarrow>
          if \<not> nonblock_ok then Fail
          else
            let conn = ntb_connection_new_for_socket now (ntb_netaddress_from_native native_address) recieved sent
            in Ok (conn\<lparr>connect_succeeded := True\<rparr>))"

section \<open>Sending commands\<close>

definition ntb_connection_send_verack :: "(u8 list \<Rightarrow> u8 list) \<Rightarrow> ntb_connection \<Rightarrow> ntb_connection outcome" where
  "ntb_connection_send_verack sha conn =
     bind_outcome (ntb_proto_add_command sha 0 (out_buf conn) ''verack'' []) (\<lambda>b.
       update_poll_flags (conn\<lparr>out_buf := b\<rparr>))"

definition NTB_PROTO_VERSION :: u32 where
  "NTB_PROTO_VERSION = 2"

definition NTB_PROTO_SERVICES :: u64 where
  "NTB_PROTO_SERVICES = 1"

text \<open>The version of the program, from \<open>config.h\<close>, and the time are arguments.\<close>

definition ntb_connection_send_version ::
    "(u8 list \<Rightarrow> u8 list) \<Rightarrow> int \<Rightarrow> string \<Rightarrow> ntb_connection \<Rightarrow> u64 \<Rightarrow> u16 \<Rightarrow> ntb_connection outcome" where
  "ntb_connection_send_version sha now VERSION conn n local_port =
     (let local_address = \<lparr>host = replicate 16 0, port = local_port\<rparr> in
      bind_outcome
        (ntb_proto_add_command sha now (out_buf conn) ''version''
           [A32 NTB_PROTO_VERSION, A64 NTB_PROTO_SERVICES, ATimestamp,
            A64 NTB_PROTO_SERVICES, ANetaddress (remote_address conn),
            A64 NTB_PROTO_SERVICES, ANetaddress local_address,
            A64 n, AVarStr (str (''/notbit:'' @ VERSION @ ''/'')),
            AVarInt 1, AVarInt 1])
        (\<lambda>b. update_poll_flags (conn\<lparr>out_buf := b\<rparr>)))"

section \<open>Commands that are built step by step\<close>

definition get_n_hashes_for_command :: "ntb_connection \<Rightarrow> nat" where
  "get_n_hashes_for_command conn =
     (buf_length (out_buf conn) - command_start conn - 1 - NTB_PROTO_HEADER_SIZE) div NTB_PROTO_HASH_LENGTH"

definition begin_hash_command :: "ntb_connection \<Rightarrow> string \<Rightarrow> ntb_connection" where
  "begin_hash_command conn command =
     (let start = buf_length (out_buf conn);
          b = ntb_proto_begin_command (out_buf conn) command;
          b = ntb_buffer_ensure_size b (buf_length b + 1)
      in conn\<lparr>command_start := start, out_buf := b\<lparr>buf_length := buf_length b + 1\<rparr>\<rparr>)"

text \<open>Writing the count and finishing the command, or dropping it if it is empty.\<close>

definition finish_counted ::
    "(u8 list \<Rightarrow> u8 list) \<Rightarrow> nat \<Rightarrow> ntb_connection \<Rightarrow> ntb_connection outcome" where
  "finish_counted sha n conn =
     (let b = out_buf conn; start = command_start conn in
      bind_outcome
        (if n = 0 then Ok (b\<lparr>buf_length := start\<rparr>)
         else ntb_proto_end_command sha
                (b\<lparr>buf_data := (buf_data b)[start + NTB_PROTO_HEADER_SIZE := Some (word_of_nat n)]\<rparr>) start)
        (\<lambda>b. update_poll_flags (conn\<lparr>out_buf := b\<rparr>)))"

definition end_hash_command :: "(u8 list \<Rightarrow> u8 list) \<Rightarrow> ntb_connection \<Rightarrow> ntb_connection outcome" where
  "end_hash_command sha conn = finish_counted sha (get_n_hashes_for_command conn) conn"

definition add_hash_for_command ::
    "(u8 list \<Rightarrow> u8 list) \<Rightarrow> ntb_connection \<Rightarrow> string \<Rightarrow> u8 list \<Rightarrow> ntb_connection outcome" where
  "add_hash_for_command sha conn command hash =
     bind_outcome
       (if get_n_hashes_for_command conn \<ge> 0xfc
        then bind_outcome (end_hash_command sha conn) (\<lambda>conn. Ok (begin_hash_command conn command))
        else Ok conn)
       (\<lambda>conn. Ok (conn\<lparr>out_buf := ntb_buffer_append (out_buf conn) hash\<rparr>))"

definition ntb_connection_begin_getdata :: "ntb_connection \<Rightarrow> ntb_connection" where
  "ntb_connection_begin_getdata conn = begin_hash_command conn ''getdata''"

definition ntb_connection_add_getdata_hash ::
    "(u8 list \<Rightarrow> u8 list) \<Rightarrow> ntb_connection \<Rightarrow> u8 list \<Rightarrow> ntb_connection outcome" where
  "ntb_connection_add_getdata_hash sha conn hash = add_hash_for_command sha conn ''getdata'' hash"

definition ntb_connection_end_getdata :: "(u8 list \<Rightarrow> u8 list) \<Rightarrow> ntb_connection \<Rightarrow> ntb_connection outcome" where
  "ntb_connection_end_getdata sha conn = end_hash_command sha conn"

definition ntb_connection_begin_inv :: "ntb_connection \<Rightarrow> ntb_connection" where
  "ntb_connection_begin_inv conn = begin_hash_command conn ''inv''"

definition ntb_connection_add_inv_hash ::
    "(u8 list \<Rightarrow> u8 list) \<Rightarrow> ntb_connection \<Rightarrow> u8 list \<Rightarrow> ntb_connection outcome" where
  "ntb_connection_add_inv_hash sha conn hash = add_hash_for_command sha conn ''inv'' hash"

definition ntb_connection_end_inv :: "(u8 list \<Rightarrow> u8 list) \<Rightarrow> ntb_connection \<Rightarrow> ntb_connection outcome" where
  "ntb_connection_end_inv sha conn = end_hash_command sha conn"

definition ntb_connection_begin_addr :: "ntb_connection \<Rightarrow> ntb_connection" where
  "ntb_connection_begin_addr conn =
     (let start = buf_length (out_buf conn);
          b = ntb_proto_begin_command (out_buf conn) ''addr'';
          b = ntb_buffer_ensure_size b (buf_length b + 1)
      in conn\<lparr>command_start := start, out_buf := b\<lparr>buf_length := buf_length b + 1\<rparr>\<rparr>)"

definition get_n_hashes_for_addr :: "ntb_connection \<Rightarrow> nat" where
  "get_n_hashes_for_addr conn =
     (buf_length (out_buf conn) - command_start conn - 1 - NTB_PROTO_HEADER_SIZE) div (8 + 4 + 8 + 16 + 2)"

definition ntb_connection_end_addr :: "(u8 list \<Rightarrow> u8 list) \<Rightarrow> ntb_connection \<Rightarrow> ntb_connection outcome" where
  "ntb_connection_end_addr sha conn = finish_counted sha (get_n_hashes_for_addr conn) conn"

definition ntb_connection_add_addr_address ::
    "(u8 list \<Rightarrow> u8 list) \<Rightarrow> ntb_connection \<Rightarrow> int \<Rightarrow> u32 \<Rightarrow> u64 \<Rightarrow> ntb_netaddress \<Rightarrow> ntb_connection outcome" where
  "ntb_connection_add_addr_address sha conn ts strm services address =
     bind_outcome
       (if get_n_hashes_for_addr conn \<ge> 0xfc
        then bind_outcome (ntb_connection_end_addr sha conn) (\<lambda>conn. Ok (ntb_connection_begin_addr conn))
        else Ok conn)
       (\<lambda>conn.
          let b = ntb_proto_add_64 (out_buf conn) (word_of_int ts);
              b = ntb_proto_add_32 b strm;
              b = ntb_proto_add_64 b services;
              b = ntb_proto_add_netaddress b address
          in Ok (conn\<lparr>out_buf := b\<rparr>))"

end
