(* ===== verification/Ntb_Connection_Output.thy ===== *)
theory Ntb_Connection_Output
  imports Ntb_Connection
begin

text \<open>
  What goes into the output buffer of a connection: the commands that are built step by step (\<open>inv\<close>,
  \<open>getdata\<close>), split where the count no longer fits its byte, and the queue of objects that a peer has
  asked for.
\<close>

section \<open>Splitting a list of hashes into commands\<close>

function groups :: "'a list \<Rightarrow> 'a list list" where
  "groups xs = (if xs = [] then [] else take 252 xs # groups (drop 252 xs))"
  by pat_completeness auto
termination
  by (relation "measure length") auto

declare groups.simps [simp del]

lemma groups_Nil [simp]: "groups [] = []"
  by (simp add: groups.simps)

lemma concat_groups: "concat (groups xs) = xs"
proof (induction xs rule: groups.induct)
  case (1 xs)
  then show ?case by (cases "xs = []") (simp_all add: groups.simps [of xs])
qed

lemma groups_sizes: "g \<in> set (groups xs) \<Longrightarrow> g \<noteq> [] \<and> length g \<le> 252"
proof (induction xs rule: groups.induct)
  case (1 xs)
  then show ?case by (cases "xs = []") (auto simp: groups.simps [of xs])
qed

lemma groups_append_full:
  assumes "length xs = 252"
  shows "groups (xs @ ys) = xs # groups ys"
  using assms by (subst groups.simps) auto

lemma groups_single:
  assumes "xs \<noteq> []" "length xs \<le> 252"
  shows "groups xs = [xs]"
  using assms by (simp add: groups.simps [of xs])

definition hash_payload :: "u8 list list \<Rightarrow> u8 list" where
  "hash_payload hs = word_of_nat (length hs) # concat hs"

definition hash_frames :: "(u8 list \<Rightarrow> u8 list) \<Rightarrow> string \<Rightarrow> u8 list list \<Rightarrow> u8 list" where
  "hash_frames sha command hs = concat (map (\<lambda>g. frame sha command (hash_payload g)) (groups hs))"

definition hashes_ok :: "u8 list list \<Rightarrow> bool" where
  "hashes_ok hs \<longleftrightarrow> (\<forall>h \<in> set hs. length h = NTB_PROTO_HASH_LENGTH)"

lemma length_concat_hashes: "hashes_ok hs \<Longrightarrow> length (concat hs) = 32 * length hs"
  by (induction hs) (simp_all add: hashes_ok_def NTB_PROTO_HASH_LENGTH_def)

text \<open>A command under construction: the finished output, the header, and the hashes so far.\<close>

definition building :: "string \<Rightarrow> cell list \<Rightarrow> u8 list list \<Rightarrow> ntb_connection \<Rightarrow> bool" where
  "building command pre cur conn \<longleftrightarrow>
     buf_ok (out_buf conn) \<and> command_start conn = length pre \<and> hashes_ok cur \<and> length cur \<le> 252 \<and>
     socket_source conn \<noteq> None \<and>
     (\<exists>fill cell. length fill = 8 \<and> contents (out_buf conn) = pre @
        map Some (ntb_proto_magic @ str command @ replicate (12 - length command) 0) @ fill @ [cell] @
        map Some (concat cur))"

lemma begin_building:
  assumes "buf_ok (out_buf conn)" "socket_source conn \<noteq> None" "length command \<le> 12"
  shows "building command (contents (out_buf conn)) [] (begin_hash_command conn command)"
proof -
  define b where "b = ntb_proto_begin_command (out_buf conn) command"
  define b1 where "b1 = ntb_buffer_ensure_size b (Suc (buf_length b))"
  obtain fill where b: "buf_ok b" "length fill = 8" "contents b = contents (out_buf conn) @
      map Some (ntb_proto_magic @ str command @ replicate (12 - length command) 0) @ fill"
    using begin_command_eq [OF assms(1,3)] by (auto simp: b_def)
  have b1: "buf_ok b1" "contents b1 = contents b" "buf_length b1 + 1 \<le> buf_size b1" "buf_length b1 = buf_length b"
    using b(1) ensure_size_ge [of "Suc (buf_length b)" b] by (auto simp: b1_def)
  have "contents (b1\<lparr>buf_length := buf_length b1 + 1\<rparr>) = contents b1 @ [buf_data b1 ! buf_length b1]"
    using b1 by (simp add: contents_def buf_ok_def take_Suc_conv_app_nth)
  then show ?thesis
    using b b1 assms
    by (auto simp: building_def begin_hash_command_def Let_def b_def [symmetric] b1_def [symmetric]
        hashes_ok_def buf_ok_def)
qed

lemma building_length:
  assumes "building command pre cur conn" "length command \<le> 12"
  shows "buf_length (out_buf conn) = length pre + 25 + 32 * length cur"
proof -
  obtain fill cell where c: "length fill = 8" "contents (out_buf conn) = pre @
        map Some (ntb_proto_magic @ str command @ replicate (12 - length command) 0) @ fill @ [cell] @
        map Some (concat cur)" "buf_ok (out_buf conn)" "hashes_ok cur"
    using assms(1) by (auto simp: building_def)
  have "buf_length (out_buf conn) = length (contents (out_buf conn))" using c(3) by simp
  also have "\<dots> = length pre + 25 + 32 * length cur"
    unfolding c(2) using c(1) assms(2) length_concat_hashes [OF c(4)] by simp
  finally show ?thesis .
qed

lemma building_count:
  assumes "building command pre cur conn" "length command \<le> 12"
  shows "get_n_hashes_for_command conn = length cur"
  using building_length [OF assms] assms
  by (simp add: get_n_hashes_for_command_def building_def NTB_PROTO_HEADER_SIZE_def
      NTB_PROTO_HASH_LENGTH_def)

lemma frame_of_payload:
  "frame sha command payload = ntb_proto_magic @ str command @ replicate (12 - length command) 0 @
     be_bytes 4 (length payload) @ take 4 (sha payload) @ payload"
  by (simp add: frame_def)

lemma end_building:
  assumes "building command pre cur conn" "length command \<le> 12" "\<And>x. length (sha x) = 64"
  obtains b where "buf_ok b"
    "contents b = pre @ map Some (hash_frames sha command cur)"
    "end_hash_command sha conn = update_poll_flags (conn\<lparr>out_buf := b\<rparr>)"
proof (cases "cur = []")
  case True
  define b where "b = (out_buf conn)\<lparr>buf_length := length pre\<rparr>"
  have "buf_ok b" "contents b = pre"
  proof -
    have "length pre \<le> buf_length (out_buf conn)" "take (length pre) (contents (out_buf conn)) = pre"
      using building_length [OF assms(1,2)] assms(1) by (auto simp: building_def)
    then show "buf_ok b" "contents b = pre"
      using assms(1) by (auto simp: b_def buf_ok_def building_def contents_def min_def)
  qed
  moreover have "end_hash_command sha conn = update_poll_flags (conn\<lparr>out_buf := b\<rparr>)"
    using True building_count [OF assms(1,2)] assms(1)
    by (simp add: end_hash_command_def finish_counted_def building_def b_def Let_def)
  ultimately show thesis using True by (intro that) (auto simp: hash_frames_def)
next
  case False
  define hdr where "hdr = map Some (ntb_proto_magic @ str command @ replicate (12 - length command) 0)"
  obtain fill cell where c: "length fill = 8" "contents (out_buf conn) = pre @ hdr @ fill @ [cell] @ map Some (concat cur)"
      "buf_ok (out_buf conn)" "command_start conn = length pre" "length cur \<le> 252" "hashes_ok cur"
    using assms(1) by (auto simp: building_def hdr_def)
  have h16: "length hdr = 16" using assms(2) by (simp add: hdr_def)
  define k where "k = length pre + NTB_PROTO_HEADER_SIZE"
  define b1 where "b1 = (out_buf conn)\<lparr>buf_data := (buf_data (out_buf conn))[k := Some (word_of_nat (length cur))]\<rparr>"
  have b1: "buf_ok b1" using c(3) by (simp add: b1_def buf_ok_def)
  have "contents b1 = (contents (out_buf conn))[k := Some (word_of_nat (length cur))]"
    by (simp add: contents_def b1_def take_update_swap)
  also have "\<dots> = pre @ hdr @ fill @ map Some (hash_payload cur)"
    unfolding c(2) using h16 c(1)
    by (simp add: k_def NTB_PROTO_HEADER_SIZE_def list_update_append hash_payload_def)
  finally have cb1: "contents b1 = pre @ hdr @ fill @ map Some (hash_payload cur)" .
  have "length (hash_payload cur) < 2 ^ 32"
    using c(5) length_concat_hashes [OF c(6)] by (simp add: hash_payload_def)
  then obtain b where b: "ntb_proto_end_command sha b1 (length pre) = Ok b" "buf_ok b"
      "contents b = pre @ hdr @ map Some (be_bytes 4 (length (hash_payload cur)) @ take 4 (sha (hash_payload cur)) @ hash_payload cur)"
    using end_command_eq [OF b1 cb1 h16 c(1), of sha] assms(3) by blast
  have "end_hash_command sha conn = update_poll_flags (conn\<lparr>out_buf := b\<rparr>)"
    using False building_count [OF assms(1,2)] c(4) b(1)
    by (simp add: end_hash_command_def finish_counted_def b1_def k_def Let_def)
  moreover have "contents b = pre @ map Some (hash_frames sha command cur)"
    using b(3) False c(5) by (simp add: hash_frames_def groups_single hdr_def frame_of_payload)
  ultimately show thesis using b(2) by (intro that)
qed

text \<open>One more hash: the frame so far is closed first when its count byte is full.\<close>

lemma building_append:
  assumes "building command pre cur conn" "length h = NTB_PROTO_HASH_LENGTH" "length cur < 252"
  shows "building command pre (cur @ [h]) (conn\<lparr>out_buf := ntb_buffer_append (out_buf conn) h\<rparr>)"
proof -
  obtain fill cell where c: "length fill = 8" "contents (out_buf conn) = pre @
        map Some (ntb_proto_magic @ str command @ replicate (12 - length command) 0) @ fill @ [cell] @
        map Some (concat cur)" "buf_ok (out_buf conn)"
    using assms(1) by (auto simp: building_def)
  then have "contents (ntb_buffer_append (out_buf conn) h) = pre @
        map Some (ntb_proto_magic @ str command @ replicate (12 - length command) 0) @ fill @ [cell] @
        map Some (concat (cur @ [h]))" by (simp add: ntb_contents)
  then show ?thesis
    unfolding building_def using assms c
    by (auto simp: hashes_ok_def building_def intro!: exI [of _ fill] exI [of _ cell])
qed

lemma add_hash_same_frame:
  assumes "building command pre cur conn" "length command \<le> 12" "length h = NTB_PROTO_HASH_LENGTH"
    "length cur < 252"
  shows "\<exists>conn'. add_hash_for_command sha conn command h = Ok conn' \<and>
    building command pre (cur @ [h]) conn'"
  using building_append [OF assms(1,3,4)] building_count [OF assms(1,2)] assms(4)
  by (simp add: add_hash_for_command_def)

lemma add_hash_next_frame:
  assumes "building command pre cur conn" "length command \<le> 12" "length h = NTB_PROTO_HASH_LENGTH"
    "length cur = 252" "\<And>x. length (sha x) = 64"
  shows "\<exists>conn'. add_hash_for_command sha conn command h = Ok conn' \<and>
    building command (pre @ map Some (hash_frames sha command cur)) [h] conn'"
proof -
  obtain b where b: "buf_ok b" "contents b = pre @ map Some (hash_frames sha command cur)"
    "end_hash_command sha conn = update_poll_flags (conn\<lparr>out_buf := b\<rparr>)"
    by (rule end_building [OF assms(1,2,5)])
  define conn1 where "conn1 = conn\<lparr>out_buf := b,
    socket_source := Some (connection_is_ready_to_write (conn\<lparr>out_buf := b\<rparr>))\<rparr>"
  have e: "end_hash_command sha conn = Ok conn1"
    using b(3) assms(1) by (auto simp: update_poll_flags_def building_def conn1_def split: option.splits)
  have "building command (contents b) [] (begin_hash_command conn1 command)"
    using begin_building [of conn1 command] b(1) assms(2) by (simp add: conn1_def)
  from building_append [OF this assms(3)] show ?thesis
    using building_count [OF assms(1,2)] assms(4) e b(2) by (simp add: add_hash_for_command_def)
qed

text \<open>Calling the adder for each hash of a list, as \<open>ntb-network.c\<close> does.\<close>

fun each_hash :: "(ntb_connection \<Rightarrow> u8 list \<Rightarrow> ntb_connection outcome) \<Rightarrow> u8 list list \<Rightarrow>
    ntb_connection \<Rightarrow> ntb_connection outcome" where
  "each_hash add [] conn = Ok conn"
| "each_hash add (h # hs) conn = bind_outcome (add conn h) (each_hash add hs)"

abbreviation add_hashes where
  "add_hashes sha command \<equiv> each_hash (\<lambda>conn. add_hash_for_command sha conn command)"

lemma add_hashes_building:
  assumes "building command pre cur conn" "length command \<le> 12" "hashes_ok hs"
    "\<And>x. length (sha x) = 64"
  shows "\<exists>conn' pre' cur'. add_hashes sha command hs conn = Ok conn' \<and> building command pre' cur' conn' \<and>
    pre' @ map Some (hash_frames sha command cur') = pre @ map Some (hash_frames sha command (cur @ hs))"
  using assms(1,3)
proof (induction hs arbitrary: pre cur conn)
  case Nil
  then show ?case by fastforce
next
  case (Cons h hs)
  have h: "length h = NTB_PROTO_HASH_LENGTH" "hashes_ok hs"
    using Cons.prems(2) by (auto simp: hashes_ok_def)
  show ?case
  proof (cases "length cur < 252")
    case True
    then obtain conn1 where "add_hash_for_command sha conn command h = Ok conn1"
      "building command pre (cur @ [h]) conn1"
      using add_hash_same_frame [OF Cons.prems(1) assms(2) h(1)] by blast
    then show ?thesis using Cons.IH [OF _ h(2), of pre "cur @ [h]" conn1] by simp
  next
    case False
    then have full: "length cur = 252" using Cons.prems(1) by (simp add: building_def)
    then obtain conn1 where f: "add_hash_for_command sha conn command h = Ok conn1"
      "building command (pre @ map Some (hash_frames sha command cur)) [h] conn1"
      using add_hash_next_frame [OF Cons.prems(1) assms(2) h(1)] assms(4) by blast
    have "hash_frames sha command (cur @ h # hs) =
        hash_frames sha command cur @ hash_frames sha command ([h] @ hs)"
      using groups_append_full [OF full, of "h # hs"] groups_single [of cur] full
      by (cases "cur = []") (auto simp: hash_frames_def)
    then show ?thesis using Cons.IH [OF f(2) h(2)] f(1) by simp
  qed
qed

lemma hash_command_built:
  assumes "buf_ok (out_buf conn)" "socket_source conn \<noteq> None" "length command \<le> 12" "hashes_ok hs"
    "\<And>x. length (sha x) = 64"
  shows "\<exists>conn'. bind_outcome (add_hashes sha command hs (begin_hash_command conn command))
      (end_hash_command sha) = Ok conn' \<and> buf_ok (out_buf conn') \<and>
    contents (out_buf conn') = contents (out_buf conn) @ map Some (hash_frames sha command hs) \<and>
    socket_source conn' = Some (connection_is_ready_to_write conn')"
proof -
  obtain conn1 pre cur where a: "add_hashes sha command hs (begin_hash_command conn command) = Ok conn1"
    "building command pre cur conn1"
    "pre @ map Some (hash_frames sha command cur) =
       contents (out_buf conn) @ map Some (hash_frames sha command ([] @ hs))"
    using add_hashes_building [OF begin_building [OF assms(1,2,3)] assms(3,4), of sha] assms(5) by blast
  obtain b where b: "buf_ok b" "contents b = pre @ map Some (hash_frames sha command cur)"
    "end_hash_command sha conn1 = update_poll_flags (conn1\<lparr>out_buf := b\<rparr>)"
    by (rule end_building [OF a(2) assms(3,5)])
  show ?thesis
    using a b by (auto simp: update_poll_flags_def building_def connection_is_ready_to_write_def
        split: option.splits)
qed

end
