(* ===== verification/Ntb_Connection_Input.thy ===== *)
theory Ntb_Connection_Input
  imports Ntb_Connection_Output
begin

text \<open>
  What a connection makes of the bytes it receives: a frame written by one peer reaches the handler of
  its command at the other, the announced hashes arrive complete and in order, and no input makes the
  readers leave the memory of the buffer.
\<close>

section \<open>One frame\<close>

lemma header_size: "NTB_PROTO_HEADER_SIZE = 24"
  by (simp add: NTB_PROTO_HEADER_SIZE_def)

lemma frame_parts:
  assumes "length command \<le> 12" "\<And>x. length (sha x) = 64"
  shows "take 4 (frame sha command payload @ rest) = ntb_proto_magic"
    "drop 4 (frame sha command payload @ rest) =
       str command @ replicate (12 - length command) 0 @ be_bytes 4 (length payload) @ take 4 (sha payload) @ payload @ rest"
    "drop 16 (frame sha command payload @ rest) = be_bytes 4 (length payload) @ take 4 (sha payload) @ payload @ rest"
    "take 4 (drop 20 (frame sha command payload @ rest)) = take 4 (sha payload)"
    "drop 24 (frame sha command payload @ rest) = payload @ rest"
    "length (frame sha command payload) = 24 + length payload"
  using assms by (simp_all add: frame_def)

text \<open>The names of the commands have no zero in them.\<close>

definition name_ok :: "string \<Rightarrow> bool" where
  "name_ok command \<longleftrightarrow> length command < 12 \<and> 0 \<notin> set (str command)"

lemma process_frame:
  assumes "name_ok command" "\<And>x. length (sha x) = 64" "length payload < 2 ^ 32"
  shows "process_command sha listener conn (frame sha command payload @ rest) (word_of_nat (length payload)) =
    (case find (\<lambda>(name, _). str command = str name) (command_handlers sha) of
       Some (_, func) \<Rightarrow> func listener conn (payload @ rest) (word_of_nat (length payload))
     | None \<Rightarrow> Ok (conn, True))"
proof -
  have n: "length command \<le> 12" "0 \<notin> set (str command)" "length (str command) < 12"
    using assms(1) by (auto simp: name_ok_def)
  have u: "unat (word_of_nat (length payload) :: u32) = length payload"
    using assms(3) by (simp add: unat_of_nat)
  have c: "ntb_proto_check_command_string (drop 4 (frame sha command payload @ rest))"
    "c_string (drop 4 (frame sha command payload @ rest)) = str command"
    unfolding frame_parts(2) [OF n(1) assms(2)]
    using check_command_string_name [OF n(2,3)] c_string_name [OF n(2,3)] by simp_all
  show ?thesis
    unfolding process_command_def c header_size frame_parts(1,4,5) [OF n(1) assms(2)]
    using c(1) by (simp add: u del: drop_append)
qed

lemma commands_loop_frame:
  assumes "name_ok command" "\<And>x. length (sha x) = 64" "length payload \<le> 2 ^ 27"
  shows "commands_loop sha listener conn (frame sha command payload @ rest) (24 + length payload + n) =
    bind_outcome
      (case find (\<lambda>(name, _). str command = str name) (command_handlers sha) of
         Some (_, func) \<Rightarrow> func listener conn (payload @ rest) (word_of_nat (length payload))
       | None \<Rightarrow> Ok (conn, True))
      (\<lambda>(conn, ok). if ok then commands_loop sha listener conn rest n else Ok (conn, None))"
proof -
  have n: "length command \<le> 12" using assms(1) by (auto simp: name_ok_def)
  have u: "unat (word_of_nat (length payload) :: u32) = length payload"
    using assms(3) by (simp add: unat_of_nat)
  have g: "ntb_proto_get_32 (drop 16 (frame sha command payload @ rest)) = Ok (word_of_nat (length payload))"
    unfolding frame_parts(3) [OF n assms(2)] using assms(3)
    by (simp add: ntb_proto_get_32_def get_be_append be_value_be_bytes)
  have m: "\<not> NTB_CONNECTION_MAX_MESSAGE_SIZE < word_of_nat (length payload)"
    using assms(3) by (simp add: NTB_CONNECTION_MAX_MESSAGE_SIZE_def word_less_nat_alt u)
  have d: "drop (length payload + 24) (frame sha command payload @ rest) = rest"
    using frame_parts(6) [OF n assms(2)] by simp
  show ?thesis
    by (subst commands_loop.simps)
      (use assms(3) in \<open>simp add: header_size g m u d process_frame [OF assms(1,2)] split_def cong: if_cong del: drop_append\<close>)
qed

section \<open>Announced hashes\<close>

text \<open>The hashes that an event hands to its listeners: as many as the event counts.\<close>

fun event_hashes :: "ntb_connection_event \<Rightarrow> u8 list" where
  "event_hashes (EVENT_INV n p) = take (unat n * NTB_PROTO_HASH_LENGTH) p"
| "event_hashes (EVENT_GETDATA n p) = take (unat n * NTB_PROTO_HASH_LENGTH) p"
| "event_hashes _ = []"

definition quiet :: listener where
  "quiet conn event = (conn, True)"

lemma hash_count_read:
  assumes "hashes_ok g" "length g \<le> 252"
  shows "ntb_proto_get_var_int (hash_payload g @ rest, word_of_nat (length (hash_payload g))) =
    Ok (word_of_nat (length g), (concat g @ rest, word_of_nat (length (concat g))))"
proof -
  have v: "var_int_bytes (word_of_nat (length g)) = [word_of_nat (length g)]"
    using var_str_prefix [of "length g"] assms(2) by simp
  define w :: u32 where "w = word_of_nat (length (hash_payload g))"
  have u: "unat w = 1 + 32 * length g"
    using assms(2) length_concat_hashes [OF assms(1)]
    by (simp add: w_def hash_payload_def unat_of_nat del: of_nat_Suc of_nat_mult)
  have w: "w - 1 = word_of_nat (length (concat g))"
    by (simp add: w_def hash_payload_def)
  show ?thesis
    unfolding w_def [symmetric]
    using get_var_int_bytes [of "word_of_nat (length g)" w "concat g @ rest"] assms(2) w
    by (simp add: v u hash_payload_def)
qed

lemma hash_count_accepted:
  assumes "hashes_ok g" "length g \<le> 252"
  shows "\<not> ucast (word_of_nat (length (concat g)) :: u32) <
      (word_of_nat (length g) * word_of_nat NTB_PROTO_HASH_LENGTH :: u64)"
proof -
  have "(ucast (word_of_nat (length (concat g)) :: u32) :: u64) = word_of_nat (length g * 32)"
    using assms(2) length_concat_hashes [OF assms(1)] ucast_of_nat_small [of "length g * 32", where 'a = 32 and 'b = 64]
    by (simp add: mult.commute)
  then show ?thesis by (simp add: NTB_PROTO_HASH_LENGTH_def)
qed

lemma inv_handler_hashes:
  assumes "hashes_ok g" "length g \<le> 252"
  shows "inv_command_handler listener conn (hash_payload g @ rest) (word_of_nat (length (hash_payload g))) =
    Ok (emit_event listener conn (EVENT_INV (word_of_nat (length g)) (concat g @ rest)))"
  using hash_count_read [OF assms] hash_count_accepted [OF assms]
  by (simp add: inv_command_handler_def or_error_def)

lemma getdata_handler_hashes:
  assumes "hashes_ok g" "length g \<le> 252"
  shows "getdata_command_handler listener conn (hash_payload g @ rest) (word_of_nat (length (hash_payload g))) =
    Ok (emit_event listener conn (EVENT_GETDATA (word_of_nat (length g)) (concat g @ rest)))"
  using hash_count_read [OF assms] hash_count_accepted [OF assms]
  by (simp add: getdata_command_handler_def or_error_def)

lemma event_hashes_group:
  assumes "hashes_ok g" "length g \<le> 252"
  shows "event_hashes (EVENT_INV (word_of_nat (length g)) (concat g @ rest)) = concat g"
    "event_hashes (EVENT_GETDATA (word_of_nat (length g)) (concat g @ rest)) = concat g"
  using assms(2) length_concat_hashes [OF assms(1)]
  by (simp_all add: NTB_PROTO_HASH_LENGTH_def unat_of_nat)

text \<open>
  The two commands share one argument: a handler that emits one event for a payload of hashes. The
  laws say how it is found and what it emits.
\<close>

locale hash_command =
  fixes command :: string
    and handler :: "listener \<Rightarrow> ntb_connection \<Rightarrow> u8 list \<Rightarrow> u32 \<Rightarrow> (ntb_connection \<times> bool) outcome"
    and event :: "u64 \<Rightarrow> u8 list \<Rightarrow> ntb_connection_event"
  assumes name: "name_ok command"
    and found: "find (\<lambda>(name, _). str command = str name) (command_handlers sha) = Some (command, handler)"
    and handles: "hashes_ok g \<Longrightarrow> length g \<le> 252 \<Longrightarrow>
      handler listener conn (hash_payload g @ rest) (word_of_nat (length (hash_payload g))) =
      Ok (emit_event listener conn (event (word_of_nat (length g)) (concat g @ rest)))"
    and carries: "hashes_ok g \<Longrightarrow> length g \<le> 252 \<Longrightarrow>
      event_hashes (event (word_of_nat (length g)) (concat g @ rest)) = concat g"
begin

lemma loop_group:
  assumes "\<And>x. length (sha x) = 64" "hashes_ok g" "length g \<le> 252"
  shows "commands_loop sha quiet conn (frame sha command (hash_payload g) @ rest)
      (length (frame sha command (hash_payload g)) + n) =
    commands_loop sha quiet
      (conn\<lparr>event_log := event_log conn @ [event (word_of_nat (length g)) (concat g @ rest)]\<rparr>) rest n"
proof -
  have l: "length (hash_payload g) \<le> 2 ^ 27"
    using assms(3) length_concat_hashes [OF assms(2)] by (simp add: hash_payload_def)
  have "length (frame sha command (hash_payload g)) = 24 + length (hash_payload g)"
    using frame_parts(6) [of command sha] name assms(1) by (simp add: name_ok_def)
  then show ?thesis
    using commands_loop_frame [OF name assms(1) l] found [of sha]
      handles [OF assms(2,3), of quiet conn rest]
    by (simp add: emit_event_def quiet_def)
qed

lemma loop_groups:
  assumes "\<And>x. length (sha x) = 64" "\<And>g. g \<in> set gs \<Longrightarrow> hashes_ok g \<and> length g \<le> 252"
  shows "\<exists>evs. commands_loop sha quiet conn (concat (map (\<lambda>g. frame sha command (hash_payload g)) gs) @ rest)
      (length (concat (map (\<lambda>g. frame sha command (hash_payload g)) gs))) =
      Ok (conn\<lparr>event_log := event_log conn @ evs\<rparr>, Some 0) \<and>
    map event_hashes evs = map concat gs \<and> (\<forall>e \<in> set evs. \<exists>n p. e = event n p)"
  using assms(2)
proof (induction gs arbitrary: conn)
  case Nil
  show ?case by (subst commands_loop.simps) (simp add: header_size)
next
  case (Cons g gs)
  have g: "hashes_ok g" "length g \<le> 252" using Cons.prems by auto
  let ?e = "event (word_of_nat (length g)) (concat g @
    concat (map (\<lambda>g. frame sha command (hash_payload g)) gs) @ rest)"
  obtain evs where "commands_loop sha quiet (conn\<lparr>event_log := event_log conn @ [?e]\<rparr>)
      (concat (map (\<lambda>g. frame sha command (hash_payload g)) gs) @ rest)
      (length (concat (map (\<lambda>g. frame sha command (hash_payload g)) gs))) =
      Ok (conn\<lparr>event_log := event_log conn @ ?e # evs\<rparr>, Some 0)"
    "map event_hashes evs = map concat gs" "\<forall>e \<in> set evs. \<exists>n p. e = event n p"
    using Cons.IH [of "conn\<lparr>event_log := event_log conn @ [?e]\<rparr>"] Cons.prems by auto
  then show ?case
    using loop_group [OF assms(1) g] carries [OF g]
    by (intro exI [of _ "?e # evs"]) auto
qed

end

lemma find_handler:
  "find (\<lambda>(name, _). str ''inv'' = str name) (command_handlers sha) = Some (''inv'', inv_command_handler)"
  "find (\<lambda>(name, _). str ''getdata'' = str name) (command_handlers sha) = Some (''getdata'', getdata_command_handler)"
  by (simp_all add: command_handlers_def)

lemma names_ok: "name_ok ''inv''" "name_ok ''getdata''"
  by (simp_all add: name_ok_def)

interpretation inv: hash_command "''inv''" inv_command_handler EVENT_INV
  by unfold_locales (simp_all add: names_ok find_handler inv_handler_hashes event_hashes_group del: str_simps event_hashes.simps)

interpretation getdata: hash_command "''getdata''" getdata_command_handler EVENT_GETDATA
  by unfold_locales (simp_all add: names_ok find_handler getdata_handler_hashes event_hashes_group del: str_simps event_hashes.simps)


section \<open>A whole exchange\<close>

lemma concat_map_concat: "concat (map concat xs) = concat (concat xs)"
  by (induction xs) auto

lemma hashes_ok_groups:
  assumes "hashes_ok hs" "g \<in> set (groups hs)"
  shows "hashes_ok g \<and> length g \<le> 252"
proof -
  have "set g \<subseteq> set (concat (groups hs))" using assms(2) by auto
  then show ?thesis
    using groups_sizes [OF assms(2)] assms(1) unfolding concat_groups by (auto simp: hashes_ok_def)
qed

context hash_command begin

lemma received:
  assumes "\<And>x. length (sha x) = 64" "hashes_ok hs" "buf_ok (in_buf conn)"
    "contents (in_buf conn) = map Some (hash_frames sha command hs)"
  shows "\<exists>conn' evs. process_commands sha quiet conn = Ok conn' \<and> buf_length (in_buf conn') = 0 \<and>
    event_log conn' = event_log conn @ evs \<and> concat (map event_hashes evs) = concat hs \<and>
    (\<forall>e \<in> set evs. \<exists>n p. e = event n p)"
proof -
  obtain rest where r: "memory_of (in_buf conn) = hash_frames sha command hs @ rest"
    "buf_length (in_buf conn) = length (hash_frames sha command hs)"
    using memory_of_contents [OF assms(3,4)] by blast
  obtain evs where e: "commands_loop sha quiet conn (hash_frames sha command hs @ rest)
      (length (hash_frames sha command hs)) = Ok (conn\<lparr>event_log := event_log conn @ evs\<rparr>, Some 0)"
    "map event_hashes evs = map concat (groups hs)" "\<forall>e \<in> set evs. \<exists>n p. e = event n p"
    using loop_groups [of sha "groups hs" conn rest] assms(1) hashes_ok_groups [OF assms(2)]
    unfolding hash_frames_def by blast
  have "concat (map concat (groups hs)) = concat hs"
    by (simp add: concat_map_concat concat_groups)
  then show ?thesis
    using e r by (simp add: process_commands_def Let_def)
qed

end

text \<open>
  C1: What one peer announces the other receives: for a list of object hashes of any length, the calls
  \<open>ntb_connection_begin_inv\<close>, \<open>ntb_connection_add_inv_hash\<close> for each hash and
  \<open>ntb_connection_end_inv\<close> all succeed and append to the output of the sender complete frames, a new
  one after every 252 hashes because the count is a single byte, and leave the socket polled for
  writing exactly when there is something to write; and a peer whose input buffer holds exactly those
  bytes takes all of them off in \<open>process_commands\<close> and raises only \<open>inv\<close> events, whose hashes are
  together the list that was announced, in order, none lost and none repeated.
\<close>

theorem inv_announcement:
  assumes "\<And>x. length (sha x) = 64" "hashes_ok hs"
    "buf_ok (out_buf a)" "socket_source a \<noteq> None"
  shows "\<exists>a' bytes. bind_outcome (each_hash (ntb_connection_add_inv_hash sha) hs (ntb_connection_begin_inv a))
      (ntb_connection_end_inv sha) = Ok a' \<and>
    contents (out_buf a') = contents (out_buf a) @ map Some bytes \<and>
    socket_source a' = Some (connection_is_ready_to_write a') \<and>
    (\<forall>b. buf_ok (in_buf b) \<and> contents (in_buf b) = map Some bytes \<longrightarrow>
      (\<exists>b' evs. process_commands sha quiet b = Ok b' \<and> buf_length (in_buf b') = 0 \<and>
        event_log b' = event_log b @ evs \<and> concat (map event_hashes evs) = concat hs \<and>
        (\<forall>e \<in> set evs. \<exists>n p. e = EVENT_INV n p)))"
proof -
  have "length ''inv'' \<le> 12" by simp
  from hash_command_built [OF assms(3,4) this assms(2), of sha] assms(1)
  obtain a' where a: "bind_outcome (add_hashes sha ''inv'' hs (begin_hash_command a ''inv''))
      (end_hash_command sha) = Ok a'"
    "contents (out_buf a') = contents (out_buf a) @ map Some (hash_frames sha ''inv'' hs)"
    "socket_source a' = Some (connection_is_ready_to_write a')" by blast
  show ?thesis
    using a inv.received [of sha hs] assms(1,2)
    by (intro exI [of _ a'] exI [of _ "hash_frames sha ''inv'' hs"])
      (auto simp: ntb_connection_add_inv_hash_def [abs_def] ntb_connection_begin_inv_def
        ntb_connection_end_inv_def [abs_def])
qed

text \<open>Two peers whose buffers are empty.\<close>

definition example_peer :: ntb_connection where
  "example_peer = ntb_connection_new_for_socket 0 \<lparr>host = replicate 16 0, port = 8444\<rparr> 0 0"

theorem inv_announcement_witness:
  "\<exists>a' bytes. bind_outcome (each_hash (ntb_connection_add_inv_hash (\<lambda>x. replicate 64 3))
        (replicate 300 (replicate 32 5)) (ntb_connection_begin_inv example_peer))
      (ntb_connection_end_inv (\<lambda>x. replicate 64 3)) = Ok a' \<and>
    contents (out_buf a') = contents (out_buf example_peer) @ map Some bytes \<and>
    socket_source a' = Some (connection_is_ready_to_write a') \<and>
    (\<forall>b. buf_ok (in_buf b) \<and> contents (in_buf b) = map Some bytes \<longrightarrow>
      (\<exists>b' evs. process_commands (\<lambda>x. replicate 64 3) quiet b = Ok b' \<and> buf_length (in_buf b') = 0 \<and>
        event_log b' = event_log b @ evs \<and>
        concat (map event_hashes evs) = concat (replicate 300 (replicate 32 5)) \<and>
        (\<forall>e \<in> set evs. \<exists>n p. e = EVENT_INV n p)))"
  by (rule inv_announcement)
    (simp_all add: hashes_ok_def NTB_PROTO_HASH_LENGTH_def example_peer_def ntb_connection_new_for_socket_def)

end
