(* ===== verification/Ntb_Connection_Safety.thy ===== *)
theory Ntb_Connection_Safety
  imports Ntb_Connection_Input
begin

text \<open>
  Memory safety of the input side of a connection: the values that the argument reader delivers match
  the arguments the handlers ask for, no handler leaves the received bytes as long as one more byte
  of the buffer is readable behind them, and what happens when that byte is missing.
\<close>

section \<open>The values match the arguments\<close>

fun value_kind :: "arg_value \<Rightarrow> ntb_proto_argument" where
  "value_kind (V8 _) = NTB_PROTO_ARGUMENT_8"
| "value_kind (V16 _) = NTB_PROTO_ARGUMENT_16"
| "value_kind (V32 _) = NTB_PROTO_ARGUMENT_32"
| "value_kind (V64 _) = NTB_PROTO_ARGUMENT_64"
| "value_kind (VBool _) = NTB_PROTO_ARGUMENT_BOOL"
| "value_kind (VVarInt _) = NTB_PROTO_ARGUMENT_VAR_INT"
| "value_kind (VTimestamp _) = NTB_PROTO_ARGUMENT_TIMESTAMP"
| "value_kind (VNetaddress _) = NTB_PROTO_ARGUMENT_NETADDRESS"
| "value_kind (VVarStr _) = NTB_PROTO_ARGUMENT_VAR_STR"
| "value_kind (VVarIntList _) = NTB_PROTO_ARGUMENT_VAR_INT_LIST"

lemma value_kind_eq:
  "value_kind v = NTB_PROTO_ARGUMENT_32 \<longleftrightarrow> (\<exists>x. v = V32 x)"
  "value_kind v = NTB_PROTO_ARGUMENT_64 \<longleftrightarrow> (\<exists>x. v = V64 x)"
  "value_kind v = NTB_PROTO_ARGUMENT_VAR_INT \<longleftrightarrow> (\<exists>x. v = VVarInt x)"
  "value_kind v = NTB_PROTO_ARGUMENT_TIMESTAMP \<longleftrightarrow> (\<exists>x. v = VTimestamp x)"
  "value_kind v = NTB_PROTO_ARGUMENT_NETADDRESS \<longleftrightarrow> (\<exists>x. v = VNetaddress x)"
  "value_kind v = NTB_PROTO_ARGUMENT_VAR_STR \<longleftrightarrow> (\<exists>x. v = VVarStr x)"
  "value_kind v = NTB_PROTO_ARGUMENT_VAR_INT_LIST \<longleftrightarrow> (\<exists>x. v = VVarIntList x)"
  by (cases v; simp)+

lemma get_argument_kind: "get_argument a c = Ok (v, c') \<Longrightarrow> value_kind v = a"
  by (cases a) (auto simp: get_fixed_def map_fst_def split: prod.splits if_splits)

lemma get_arguments_kinds: "get_arguments as c = Ok (vs, c') \<Longrightarrow> map value_kind vs = as"
  by (induction as arbitrary: c vs c') (auto dest: get_argument_kind)

lemma get_command_kinds: "ntb_proto_get_command data len as = Ok (vs, n) \<Longrightarrow> map value_kind vs = as"
  by (auto simp: ntb_proto_get_command_def dest: get_arguments_kinds)

section \<open>Handlers\<close>

text \<open>
  A connection that can still send, and listeners that keep it so unless they say that it is gone.
\<close>

definition conn_ok :: "ntb_connection \<Rightarrow> bool" where
  "conn_ok conn \<longleftrightarrow> buf_ok (out_buf conn) \<and> socket_source conn \<noteq> None"

definition listener_keeps :: "listener \<Rightarrow> bool" where
  "listener_keeps listener \<longleftrightarrow>
     (\<forall>conn event conn'. conn_ok conn \<longrightarrow> listener conn event = (conn', True) \<longrightarrow> conn_ok conn')"

lemma emit_event_keeps:
  assumes "listener_keeps listener" "conn_ok conn" "emit_event listener conn event = (conn', True)"
  shows "conn_ok conn'"
proof -
  have "conn_ok (conn\<lparr>event_log := event_log conn @ [event]\<rparr>)"
    using assms(2) by (simp add: conn_ok_def)
  with assms(1,3) show ?thesis
    unfolding listener_keeps_def emit_event_def by blast
qed

text \<open>What every handler promises.\<close>

definition safe_result :: "(ntb_connection \<times> bool) outcome \<Rightarrow> bool" where
  "safe_result m \<longleftrightarrow> (\<exists>conn ok. m = Ok (conn, ok) \<and> (ok \<longrightarrow> conn_ok conn))"

lemma safe_emit:
  "listener_keeps listener \<Longrightarrow> conn_ok conn \<Longrightarrow> safe_result (Ok (emit_event listener conn event))"
  using emit_event_keeps by (cases "emit_event listener conn event") (auto simp: safe_result_def)

lemma safe_or_error:
  assumes "m \<noteq> Fault" "\<And>v. m = Ok v \<Longrightarrow> safe_result (f v)"
  shows "safe_result (or_error listener conn m f)"
  using assms by (cases m) (auto simp: or_error_def safe_result_def)

lemma safe_get_command:
  assumes "cursor_ok (data, len)"
    and "\<And>vs n. map value_kind vs = as \<Longrightarrow> n \<le> unat len \<Longrightarrow> safe_result (f (vs, n))"
  shows "safe_result (or_error listener conn (ntb_proto_get_command data len as) f)"
proof (rule safe_or_error)
  have l: "unat len < length data" using assms(1) by (simp add: cursor_ok_def)
  show "ntb_proto_get_command data len as \<noteq> Fault" using get_command_not_Fault [OF l] .
  fix r assume "ntb_proto_get_command data len as = Ok r"
  then show "safe_result (f r)"
    using assms(2) get_command_kinds get_command_consumed [OF _ l] by (cases r) blast
qed

lemma safe_get_var_int:
  assumes "cursor_ok (data, len)"
    and "\<And>n c. cursor_ok c \<Longrightarrow> safe_result (f (n, c))"
  shows "safe_result (or_error listener conn (ntb_proto_get_var_int (data, len)) f)"
proof (rule safe_or_error)
  show "ntb_proto_get_var_int (data, len) \<noteq> Fault" using var_int.no_fault [OF assms(1)] .
  fix r assume "ntb_proto_get_var_int (data, len) = Ok r"
  then show "safe_result (f r)"
    using assms(2) var_int.keeps_ok [OF assms(1)] by (cases r) blast
qed

lemma safe_addr_loop:
  assumes "listener_keeps listener"
  shows "conn_ok conn \<Longrightarrow> cursor_ok (data, len) \<Longrightarrow> safe_result (addr_loop listener n conn data len)"
proof (induction n arbitrary: conn data len)
  case 0
  then show ?case by (auto simp: safe_result_def)
next
  case (Suc n)
  show ?case
    unfolding addr_loop.simps
  proof (rule safe_get_command [OF Suc.prems(2)])
    fix vs k
    assume vs: "map value_kind vs = [NTB_PROTO_ARGUMENT_TIMESTAMP, NTB_PROTO_ARGUMENT_32, NTB_PROTO_ARGUMENT_64,
           NTB_PROTO_ARGUMENT_NETADDRESS]" and k: "k \<le> unat len"
    then obtain t s v a where v: "vs = [VTimestamp t, V32 s, V64 v, VNetaddress a]"
      by (auto simp: map_eq_Cons_conv value_kind_eq)
    have c: "cursor_ok (drop k data, len - word_of_nat k)"
      using cursor_ok_advance [OF Suc.prems(2)] k by (simp add: advance_def)
    show "safe_result (case (vs, k) of
          ([VTimestamp t, V32 s, V64 v, VNetaddress a], addr_length) \<Rightarrow>
            (case emit_event listener conn (EVENT_ADDR t s v a) of
               (conn, False) \<Rightarrow> Ok (conn, False)
             | (conn, True) \<Rightarrow>
                 addr_loop listener n conn (drop addr_length data) (len - word_of_nat addr_length))
        | _ \<Rightarrow> Fault)"
      using emit_event_keeps [OF assms Suc.prems(1), of "EVENT_ADDR t s v a"] Suc.IH [OF _ c]
      by (auto simp: v safe_result_def split: prod.splits bool.splits)
  qed
qed

definition handles_safely ::
    "(listener \<Rightarrow> ntb_connection \<Rightarrow> u8 list \<Rightarrow> u32 \<Rightarrow> (ntb_connection \<times> bool) outcome) \<Rightarrow> bool" where
  "handles_safely handler \<longleftrightarrow>
     (\<forall>listener conn data len. listener_keeps listener \<longrightarrow> conn_ok conn \<longrightarrow> cursor_ok (data, len) \<longrightarrow>
        safe_result (handler listener conn data len))"

lemma safe_hash_handlers:
  "handles_safely inv_command_handler" "handles_safely getdata_command_handler"
  unfolding handles_safely_def inv_command_handler_def getdata_command_handler_def
  by (auto intro!: safe_get_var_int safe_emit simp: safe_result_def [of "Ok (_, False)"])

lemma safe_addr_handler: "handles_safely addr_command_handler"
  unfolding handles_safely_def addr_command_handler_def
  by (auto intro!: safe_get_var_int safe_addr_loop)

lemma safe_verack_handler: "handles_safely verack_command_handler"
  unfolding handles_safely_def verack_command_handler_def by (auto intro: safe_emit)

lemma safe_object_handlers:
  "handles_safely getpubkey_command_handler" "handles_safely pubkey_command_handler"
  "handles_safely msg_command_handler" "handles_safely broadcast_command_handler"
  unfolding handles_safely_def getpubkey_command_handler_def pubkey_command_handler_def
    msg_command_handler_def broadcast_command_handler_def
  by (auto intro!: safe_get_command safe_emit simp: map_eq_Cons_conv value_kind_eq)

lemma safe_version_handler: "handles_safely version_command_handler"
  unfolding handles_safely_def version_command_handler_def
  by (auto intro!: safe_get_command safe_emit simp: map_eq_Cons_conv value_kind_eq)

lemma send_pong_eq:
  assumes "conn_ok conn" "\<And>x. length (sha x) = 64"
  shows "\<exists>b. send_pong sha conn = Ok (conn\<lparr>out_buf := b, socket_source := Some True\<rparr>) \<and> buf_ok b \<and>
    contents b = contents (out_buf conn) @ map Some (frame sha ''pong'' [])"
proof -
  have ok: "buf_ok (out_buf conn)" "socket_source conn \<noteq> None"
    using assms(1) by (auto simp: conn_ok_def)
  obtain b where b: "ntb_proto_add_command sha 0 (out_buf conn) ''pong'' [] = Ok b" "buf_ok b"
    "contents b = contents (out_buf conn) @ map Some (frame sha ''pong'' [])"
    using add_command_eq [OF ok(1), of "''pong''" "[]" "[]" 0 sha] assms(2) by auto
  have "buf_length b > 0"
    using length_contents [OF b(2)] b(3) by (simp add: frame_def)
  then show ?thesis
    using b ok(2) by (auto simp: send_pong_def update_poll_flags_def connection_is_ready_to_write_def)
qed

lemma safe_ping_handler:
  assumes "\<And>x. length (sha x) = 64"
  shows "handles_safely (ping_command_handler sha)"
  unfolding handles_safely_def ping_command_handler_def
  using send_pong_eq [of _ sha] assms by (fastforce simp: safe_result_def conn_ok_def)

lemma command_handlers_safe:
  assumes "\<And>x. length (sha x) = 64" "(name, handler) \<in> set (command_handlers sha)"
  shows "handles_safely handler"
  using assms(2) safe_hash_handlers safe_addr_handler safe_verack_handler safe_object_handlers
    safe_version_handler safe_ping_handler [of sha] assms(1)
  by (auto simp: command_handlers_def)

section \<open>The loop over the commands\<close>

lemma process_command_safe:
  assumes "\<And>x. length (sha x) = 64" "listener_keeps listener" "conn_ok conn"
    "24 + unat len < length data"
  shows "safe_result (process_command sha listener conn data len)"
proof -
  have c: "cursor_ok (drop 24 data, len)" using assms(4) by (simp add: cursor_ok_def)
  have f: "safe_result (handler listener conn (drop 24 data) len)"
    if "find (\<lambda>(name, _). c_string (drop 4 data) = str name) (command_handlers sha) = Some (name, handler)"
    for name handler
  proof -
    have "(name, handler) \<in> set (command_handlers sha)"
      using that by (auto simp: find_Some_iff in_set_conv_nth)
    then show ?thesis
      using command_handlers_safe [of sha name handler] assms(1-3) c by (auto simp: handles_safely_def)
  qed
  have k: "safe_result (Ok (conn', False))" "safe_result (Ok (conn, True))" for conn'
    using assms(3) by (auto simp: safe_result_def)
  have r: "read_bytes (unat len) (drop 24 data) = Ok (take (unat len) (drop 24 data))"
    using assms(4) by simp
  show ?thesis
    unfolding process_command_def header_size r bind_outcome.simps Let_def
    using f k by (auto split: option.split)
qed

lemma commands_loop_safe:
  assumes "\<And>x. length (sha x) = 64" "listener_keeps listener" "conn_ok conn" "len < length data"
  shows "\<exists>conn' r. commands_loop sha listener conn data len = Ok (conn', r)"
  using assms
proof (induction sha listener conn data len rule: commands_loop.induct)
  case (1 sha listener conn data len)
  show ?case
  proof (cases "len < 24")
    case True
    then show ?thesis by (subst commands_loop.simps) (simp add: header_size)
  next
    case False
    define w :: u32 where "w = word_of_nat (be_value (take 4 (drop 16 data)))"
    have w: "ntb_proto_get_32 (drop 16 data) = Ok w"
      using False 1(5) by (simp add: get_n_eq w_def)
    show ?thesis
    proof (cases "w > NTB_CONNECTION_MAX_MESSAGE_SIZE \<or> len < 24 + unat w")
      case True
      then show ?thesis using w by (subst commands_loop.simps) (auto simp: header_size)
    next
      case nf: False
      then obtain conn' ok where p: "process_command sha listener conn data w = Ok (conn', ok)" "ok \<longrightarrow> conn_ok conn'"
        using process_command_safe [of sha listener conn w data, OF 1(2-4)] 1(5) by (auto simp: safe_result_def)
      then show ?thesis
        using False w nf 1(1) [of w "(conn', ok)" conn' ok] 1(2,3,5)
        by (subst commands_loop.simps) (auto simp: header_size)
    qed
  qed
qed

text \<open>
  C13: Cutting the received bytes into commands is memory safe and always finishes: whatever the peer has
  sent, if one byte of the input buffer lies behind the received ones, the connection can still send
  and its listeners keep it that way, then \<open>process_commands\<close> never reads outside the buffer, no
  handler finds a value of another kind than it asked for, no reply is sent on a missing source, and
  every malformed command ends in the connection's error state rather than in a failure.
\<close>

theorem process_commands_safe:
  assumes "\<And>x. length (sha x) = 64" "listener_keeps listener" "conn_ok conn"
    "buf_ok (in_buf conn)" "buf_length (in_buf conn) < buf_size (in_buf conn)"
  shows "\<exists>conn'. process_commands sha listener conn = Ok conn'"
proof -
  have "buf_length (in_buf conn) < length (memory_of (in_buf conn))"
    using assms(4,5) by (simp add: memory_of_def buf_ok_def)
  from commands_loop_safe [of sha listener, OF assms(1,2,3) this] obtain conn' r where
    "commands_loop sha listener conn (memory_of (in_buf conn)) (buf_length (in_buf conn)) = Ok (conn', r)" by blast
  then show ?thesis by (cases r) (simp_all add: process_commands_def Let_def)
qed

theorem process_commands_safe_witness:
  "\<exists>conn'. process_commands (\<lambda>x. replicate 64 3) quiet
     (example_peer\<lparr>in_buf := ntb_buffer_append ntb_buffer_init (replicate 3 7)\<rparr>) = Ok conn'"
proof (rule process_commands_safe)
  show "listener_keeps quiet" by (simp add: listener_keeps_def quiet_def)
  show "conn_ok (example_peer\<lparr>in_buf := ntb_buffer_append ntb_buffer_init (replicate 3 7)\<rparr>)"
    by (simp add: conn_ok_def example_peer_def ntb_connection_new_for_socket_def)
  show "buf_length (in_buf (example_peer\<lparr>in_buf := ntb_buffer_append ntb_buffer_init (replicate 3 7)\<rparr>)) <
    buf_size (in_buf (example_peer\<lparr>in_buf := ntb_buffer_append ntb_buffer_init (replicate 3 7)\<rparr>))"
    by code_simp
qed simp_all

text \<open>
  That one byte is not guaranteed. A first read that fills the 1024 bytes of the new buffer with a
  command that is ignored and an \<open>inv\<close> command without a payload makes the handler look at the byte
  behind the allocated block.
\<close>

theorem handle_read_overread:
  "\<exists>bytes. length bytes = 1024 \<and>
     handle_read (\<lambda>x. replicate 64 3) quiet now (Read_Bytes bytes) example_peer = Fault"
proof -
  let ?sha = "\<lambda>x :: u8 list. replicate 64 (3 :: u8)"
  let ?pad = "frame ?sha ''pad'' (replicate 976 0)"
  let ?inv = "frame ?sha ''inv'' []"
  have l: "length ?pad = 1000" "length ?inv = 24" by (simp_all add: frame_def)
  have s: "doubling 1 1024 = 1024" by (simp add: doubling.simps)
  define b where "b = ntb_buffer_ensure_size ntb_buffer_init 1024"
  have b: "buf_length b = 0" "buf_size b = 1024" "length (buf_data b) = 1024"
    by (simp_all add: b_def ntb_buffer_ensure_size_def ntb_buffer_init_def s [simplified] ntb_realloc_def)
  have n: "name_ok ''pad''" "name_ok ''inv''" by (simp_all add: name_ok_def)
  have f: "find (\<lambda>(name, _). str ''pad'' = str name) (command_handlers ?sha) = None"
    by (simp add: command_handlers_def)
  have "inv_command_handler quiet conn [] 0 = Fault" for conn
    by (simp add: inv_command_handler_def or_error_def ntb_proto_get_var_int_def get_n_eq)
  then have i: "commands_loop ?sha quiet conn ?inv 24 = Fault" for conn
    using commands_loop_frame [OF n(2), of ?sha "[]" quiet conn "[]" 0] find_handler(1) [of ?sha] by simp
  have m: "memory_of (b\<lparr>buf_data := write_at 0 (map Some (?pad @ ?inv)) (buf_data b), buf_length := 1024\<rparr>) = ?pad @ ?inv"
    using b l by (simp add: memory_of_def write_at_def comp_def)
  have "commands_loop ?sha quiet conn (?pad @ ?inv) 1024 = Fault" for conn
    using commands_loop_frame [OF n(1), of ?sha "replicate 976 0" quiet conn ?inv 24] f i by simp
  moreover have "buf_length ntb_buffer_init = 0" by (simp add: ntb_buffer_init_def)
  ultimately show ?thesis
    using l b m
    by (intro exI [of _ "?pad @ ?inv"])
      (simp add: handle_read_def Let_def example_peer_def ntb_connection_new_for_socket_def
        process_commands_def b_def [symmetric])
qed

section \<open>Counts\<close>

text \<open>What the guard of the two handlers rules out, for counts whose product with 32 fits 64 bits.\<close>

lemma count_guard:
  fixes n :: u64 and rest :: u32
  assumes "\<not> ucast rest < n * word_of_nat NTB_PROTO_HASH_LENGTH" "unat n < 2 ^ 59"
  shows "unat n * 32 \<le> unat rest"
proof -
  have "unat (n * 32) = unat n * 32"
    using assms(2) by (simp add: unat_word_ariths)
  moreover have "unat (ucast rest :: u64) = unat rest"
    using unat_less_2p [of rest] by (simp add: unsigned_ucast_eq take_bit_nat_eq_self)
  ultimately show ?thesis
    using assms(1) by (simp add: word_less_nat_alt NTB_PROTO_HASH_LENGTH_def)
qed

lemma counted_event:
  assumes "cursor_ok (data, len)"
    and "or_error quiet conn (ntb_proto_get_var_int (data, len)) (\<lambda>(n, p, rest).
          if ucast rest < n * word_of_nat NTB_PROTO_HASH_LENGTH
          then Ok (set_error_state quiet conn, False)
          else Ok (emit_event quiet conn (event n p))) = Ok (conn', True)"
  shows "\<exists>n k. event_log conn' = event_log conn @ [event n (drop k data)] \<and>
    (unat n < 2 ^ 59 \<longrightarrow> k + unat n * NTB_PROTO_HASH_LENGTH \<le> unat len)"
proof -
  obtain n p rest where g: "ntb_proto_get_var_int (data, len) = Ok (n, p, rest)"
    "\<not> ucast rest < n * word_of_nat NTB_PROTO_HASH_LENGTH" "event_log conn' = event_log conn @ [event n p]"
    using assms(2) by (auto simp: or_error_def emit_event_def quiet_def split: outcome.splits if_splits)
  obtain k where k: "k \<le> unat len" "p = drop k data" "unat rest = unat len - k"
    using var_int.advances [OF assms(1) g(1)] by (auto simp: advance_def unat_minus_of_nat)
  then show ?thesis
    using count_guard [OF g(2)] g(3)
    by (intro exI [of _ n] exI [of _ k]) (auto simp: NTB_PROTO_HASH_LENGTH_def)
qed

text \<open>
  An \<open>inv\<close> or \<open>getdata\<close> command that is accepted raises one event, whose pointer is inside the command;
  and if it counts fewer than $2^{59}$ hashes, all the hashes it counts are inside the command.
\<close>

theorem counted_hashes_in_bounds:
  assumes "cursor_ok (data, len)"
  shows "(inv_command_handler quiet conn data len = Ok (conn', True) \<longrightarrow>
      (\<exists>n k. event_log conn' = event_log conn @ [EVENT_INV n (drop k data)] \<and>
        (unat n < 2 ^ 59 \<longrightarrow> k + unat n * NTB_PROTO_HASH_LENGTH \<le> unat len))) \<and>
    (getdata_command_handler quiet conn data len = Ok (conn', True) \<longrightarrow>
      (\<exists>n k. event_log conn' = event_log conn @ [EVENT_GETDATA n (drop k data)] \<and>
        (unat n < 2 ^ 59 \<longrightarrow> k + unat n * NTB_PROTO_HASH_LENGTH \<le> unat len)))"
  using counted_event [OF assms]
  unfolding inv_command_handler_def getdata_command_handler_def by blast

theorem counted_hashes_in_bounds_witness:
  "\<exists>n k. event_log (example_peer\<lparr>event_log := [EVENT_INV 1 (replicate 33 7)]\<rparr>) =
      event_log example_peer @ [EVENT_INV n (drop k (1 # replicate 33 7))] \<and>
    (unat n < 2 ^ 59 \<longrightarrow> k + unat n * NTB_PROTO_HASH_LENGTH \<le> unat (33 :: u32))"
proof -
  have "cursor_ok (1 # replicate 33 7, 33)" by (simp add: cursor_ok_def)
  moreover have "inv_command_handler quiet example_peer (1 # replicate 33 7) 33 =
      Ok (example_peer\<lparr>event_log := [EVENT_INV 1 (replicate 33 7)]\<rparr>, True)"
    by (simp add: inv_command_handler_def or_error_def get_var_int_Cons advance_def NTB_PROTO_HASH_LENGTH_def
        emit_event_def quiet_def example_peer_def ntb_connection_new_for_socket_def)
  ultimately show ?thesis using counted_hashes_in_bounds by blast
qed

text \<open>
  For larger counts the product is computed in 64 bits and wraps around: a command of nine bytes
  that counts $2^{59}$ hashes and carries none is accepted, and the listeners are told to read them.
\<close>

theorem count_guard_overflows:
  "inv_command_handler quiet conn (0xff # be_bytes 8 (2 ^ 59) @ rest) 9 =
     Ok (conn\<lparr>event_log := event_log conn @ [EVENT_INV (2 ^ 59) rest]\<rparr>, True) \<and>
   getdata_command_handler quiet conn (0xff # be_bytes 8 (2 ^ 59) @ rest) 9 =
     Ok (conn\<lparr>event_log := event_log conn @ [EVENT_GETDATA (2 ^ 59) rest]\<rparr>, True)"
proof -
  have "ntb_proto_get_var_int (0xff # be_bytes 8 (2 ^ 59) @ rest, 9) = Ok (2 ^ 59, rest, 0)"
    by (simp add: get_var_int_Cons get_be_append be_value_be_bytes advance_def)
  then show ?thesis
    by (simp add: inv_command_handler_def getdata_command_handler_def or_error_def
        NTB_PROTO_HASH_LENGTH_def emit_event_def quiet_def)
qed

end
