(* ===== verification/Ntb_Connection_Queue.thy ===== *)
theory Ntb_Connection_Queue
  imports Ntb_Connection_Safety
begin

text \<open>
  The objects that a peer has asked for: the list of those whose data is at hand and the list of those
  that the store still has to load. The bytes a connection has yet to send are its output buffer
  followed by the frames of the objects at hand; writing takes bytes off the front of that stream and
  everything else only adds to it. A step relation over the calls and callbacks of the event loop shows
  that the lists keep their shape and that no requested object is ever stuck.
\<close>

section \<open>Shape\<close>

definition ready_ok :: "ntb_connection_queue_entry \<Rightarrow> bool" where
  "ready_ok e \<longleftrightarrow> (case queue_blob e of None \<Rightarrow> False | Some (type, data) \<Rightarrow> length data < 2 ^ 32)"

definition queue_ok :: "ntb_connection \<Rightarrow> bool" where
  "queue_ok conn \<longleftrightarrow>
     list_all ready_ok (ready_objects conn) \<and>
     list_all (\<lambda>e. queue_blob e = None) (objects_to_load conn) \<and>
     (case load_cookie conn of
        Some h \<Rightarrow> objects_to_load conn \<noteq> [] \<and> queue_hash (hd (objects_to_load conn)) = h
      | None \<Rightarrow> objects_to_load conn \<noteq> [] \<longrightarrow> ready_objects conn \<noteq> [])"

lemma queue_ok_update [simp]:
  "queue_ok (conn\<lparr>out_buf := b\<rparr>) = queue_ok conn"
  "queue_ok (conn\<lparr>socket_source := s\<rparr>) = queue_ok conn"
  "queue_ok (conn\<lparr>n_bytes_send := n\<rparr>) = queue_ok conn"
  "queue_ok (conn\<lparr>last_write_time := t\<rparr>) = queue_ok conn"
  by (auto simp: queue_ok_def split: option.splits)

text \<open>The same before the next load has been queued.\<close>

definition queue_pre :: "ntb_connection \<Rightarrow> bool" where
  "queue_pre conn \<longleftrightarrow>
     list_all ready_ok (ready_objects conn) \<and>
     list_all (\<lambda>e. queue_blob e = None) (objects_to_load conn) \<and>
     (case load_cookie conn of
        Some h \<Rightarrow> objects_to_load conn \<noteq> [] \<and> queue_hash (hd (objects_to_load conn)) = h
      | None \<Rightarrow> True)"

lemma maybe_queue_load_ok: "queue_pre conn \<Longrightarrow> queue_ok (maybe_queue_load conn)"
  by (auto simp: queue_pre_def queue_ok_def maybe_queue_load_def split: option.splits list.splits)

lemma maybe_queue_load_keeps [simp]:
  "out_buf (maybe_queue_load conn) = out_buf conn"
  "ready_objects (maybe_queue_load conn) = ready_objects conn"
  "objects_to_load (maybe_queue_load conn) = objects_to_load conn"
  "socket_source (maybe_queue_load conn) = socket_source conn"
  "timer_source (maybe_queue_load conn) = timer_source conn"
  "event_log (maybe_queue_load conn) = event_log conn"
  by (simp_all add: maybe_queue_load_def split: list.splits)

section \<open>The stream of bytes to send\<close>

fun object_frame :: "(u8 list \<Rightarrow> u8 list) \<Rightarrow> ntb_connection_queue_entry \<Rightarrow> u8 list" where
  "object_frame sha e =
     (case queue_blob e of
        None \<Rightarrow> []
      | Some (type, data) \<Rightarrow> frame sha (ntb_proto_get_command_name_for_type type) data)"

definition stream_to_send :: "(u8 list \<Rightarrow> u8 list) \<Rightarrow> ntb_connection \<Rightarrow> cell list" where
  "stream_to_send sha conn =
     contents (out_buf conn) @ map Some (concat (map (object_frame sha) (ready_objects conn)))"

lemma command_name_length: "length (ntb_proto_get_command_name_for_type type) \<le> 12"
  by (cases type) simp_all

lemma object_frame_added:
  assumes "buf_ok b" "length data < 2 ^ 32" "\<And>x. length (sha x) = 64"
  shows "\<exists>b'. ntb_proto_end_command sha
      (ntb_buffer_append (ntb_proto_begin_command b (ntb_proto_get_command_name_for_type type)) data)
      (buf_length b) = Ok b' \<and> buf_ok b' \<and>
    contents b' = contents b @ map Some (frame sha (ntb_proto_get_command_name_for_type type) data)"
proof -
  let ?name = "ntb_proto_get_command_name_for_type type"
  let ?hdr = "map Some (ntb_proto_magic @ str ?name @ replicate (12 - length ?name) 0)"
  let ?b = "ntb_proto_begin_command b ?name"
  obtain fill where f: "buf_ok ?b" "length fill = 8" "contents ?b = contents b @ ?hdr @ fill"
    using begin_command_eq [OF assms(1) command_name_length] by blast
  have a: "buf_ok (ntb_buffer_append ?b data)"
    "contents (ntb_buffer_append ?b data) = contents b @ ?hdr @ fill @ map Some data"
    using f append_ok_contents [OF f(1), of data] by auto
  have h: "length ?hdr = 16" using command_name_length [of type] by simp
  show ?thesis
    using end_command_eq [OF a h f(2) assms(2), of sha] assms(1,3)
    by (auto simp: frame_def)
qed

lemma add_ready_objects_stream:
  assumes "\<And>x. length (sha x) = 64" "buf_ok (out_buf conn)" "queue_ok conn"
  shows "\<exists>conn'. add_ready_objects sha conn = Ok conn' \<and> buf_ok (out_buf conn') \<and> queue_ok conn' \<and>
    stream_to_send sha conn' = stream_to_send sha conn \<and> socket_source conn' = socket_source conn \<and>
    objects_to_load conn' = objects_to_load conn \<and> timer_source conn' = timer_source conn \<and>
    length (ready_objects conn') \<le> length (ready_objects conn) \<and>
    (buf_length (out_buf conn) < 1024 \<and> ready_objects conn \<noteq> [] \<longrightarrow>
       length (ready_objects conn') < length (ready_objects conn)) \<and>
    (buf_length (out_buf conn') \<ge> 1024 \<or> ready_objects conn' = []) \<and>
    (connection_is_ready_to_write conn \<longrightarrow> 0 < buf_length (out_buf conn'))"
  using assms
proof (induction sha conn rule: add_ready_objects.induct)
  case (1 sha conn)
  show ?case
  proof (cases "buf_length (out_buf conn) < 1024 \<and> ready_objects conn \<noteq> []")
    case False
    then have "add_ready_objects sha conn = Ok conn"
      by (subst add_ready_objects.simps) (auto split: list.splits)
    then show ?thesis
      using False 1(3,4) by (auto simp: connection_is_ready_to_write_def)
  next
    case True
    then obtain e rest where r: "ready_objects conn = e # rest" by (cases "ready_objects conn") auto
    obtain type data where e: "queue_blob e = Some (type, data)" "length data < 2 ^ 32"
      using 1(4) r by (auto simp: queue_ok_def ready_ok_def split: option.splits)
    obtain b where b: "ntb_proto_end_command sha
      (ntb_buffer_append (ntb_proto_begin_command (out_buf conn) (ntb_proto_get_command_name_for_type type)) data)
      (buf_length (out_buf conn)) = Ok b" "buf_ok b"
      "contents b = contents (out_buf conn) @ map Some (frame sha (ntb_proto_get_command_name_for_type type) data)"
      using object_frame_added [OF 1(3) e(2), of sha type] 1(2) by blast
    define conn1 where "conn1 = maybe_queue_load (conn\<lparr>out_buf := b, ready_objects := rest\<rparr>)"
    have "queue_pre (conn\<lparr>out_buf := b, ready_objects := rest\<rparr>)"
      using 1(4) r by (auto simp: queue_ok_def queue_pre_def split: option.splits)
    then have q: "queue_ok conn1" "buf_ok (out_buf conn1)"
      using maybe_queue_load_ok b(2) by (auto simp: conn1_def)
    have s: "stream_to_send sha conn1 = stream_to_send sha conn"
      using b(3) e(1) r by (simp add: stream_to_send_def conn1_def)
    have w: "connection_is_ready_to_write conn1"
      using length_contents [OF b(2)] b(3) by (simp add: conn1_def connection_is_ready_to_write_def frame_def)
    have eq: "add_ready_objects sha conn = add_ready_objects sha conn1"
      using True r e b(1) by (subst add_ready_objects.simps) (simp add: conn1_def Let_def)
    show ?thesis
      using 1(1) [OF _ r e(1) refl refl refl refl b(1)] True 1(2) q s w eq
      by (fastforce simp: conn1_def r)
  qed
qed

section \<open>Writing\<close>

lemma written_contents:
  assumes "buf_ok b" "n \<le> buf_length b"
  defines "b' \<equiv> b\<lparr>buf_data := write_at 0 (take (buf_length b - n) (drop n (buf_data b))) (buf_data b),
      buf_length := buf_length b - n\<rparr>"
  shows "buf_ok b'" "contents b' = drop n (contents b)"
proof -
  have l: "length (take (buf_length b - n) (drop n (buf_data b))) = buf_length b - n"
    using assms(1,2) by (auto simp: buf_ok_def min_def)
  then show "buf_ok b'"
    using assms(1) by (simp add: b'_def buf_ok_def)
  have "contents b' = take (buf_length b - n) (drop n (buf_data b))"
    using l by (simp add: b'_def contents_def write_at_def)
  then show "contents b' = drop n (contents b)"
    by (simp add: contents_def drop_take)
qed

text \<open>Every state in which the connection still lives and waits for events.\<close>

definition live :: "ntb_connection \<Rightarrow> bool" where
  "live conn \<longleftrightarrow> buf_ok (out_buf conn) \<and> queue_ok conn \<and> timer_source conn \<and>
     socket_source conn = Some (connection_is_ready_to_write conn)"

definition dead :: "ntb_connection \<Rightarrow> bool" where
  "dead conn \<longleftrightarrow> socket_source conn = None \<and> \<not> timer_source conn"

definition polled :: "ntb_connection \<Rightarrow> ntb_connection" where
  "polled conn = conn\<lparr>socket_source := Some (connection_is_ready_to_write conn)\<rparr>"

lemma polled_simps [simp]:
  "out_buf (polled conn) = out_buf conn" "ready_objects (polled conn) = ready_objects conn"
  "objects_to_load (polled conn) = objects_to_load conn" "last_write_time (polled conn) = last_write_time conn"
  "timer_source (polled conn) = timer_source conn" "load_cookie (polled conn) = load_cookie conn"
  by (simp_all add: polled_def)

lemma update_poll_flags_eq: "socket_source conn \<noteq> None \<Longrightarrow> update_poll_flags conn = Ok (polled conn)"
  by (auto simp: update_poll_flags_def polled_def)

lemma live_polled: "buf_ok (out_buf conn) \<Longrightarrow> queue_ok conn \<Longrightarrow> timer_source conn \<Longrightarrow> live (polled conn)"
  by (simp add: live_def polled_def connection_is_ready_to_write_def)



section \<open>The connection in the event loop\<close>

text \<open>
  The calls of the other components and the callbacks of the event loop and of the store, each run to
  its end before the next begins.
\<close>

datatype action =
    Send_Blob "u8 list" "(ntb_proto_inv_type \<times> u8 list) option"
  | Loaded "ntb_proto_inv_type \<times> u8 list"
  | Poll_Write u64 write_result
  | Pong_Check u64
  | Send_Verack
  | Send_Inv "u8 list list"
  | Send_Getdata "u8 list list"

fun perform :: "(u8 list \<Rightarrow> u8 list) \<Rightarrow> action \<Rightarrow> ntb_connection \<Rightarrow> ntb_connection outcome" where
  "perform sha (Send_Blob hash blob) conn = ntb_connection_send_blob conn hash blob"
| "perform sha (Loaded blob) conn = load_cb (Some blob) conn"
| "perform sha (Poll_Write now wrote) conn = handle_write sha quiet now wrote conn"
| "perform sha (Pong_Check now) conn = pong_check_cb sha quiet now conn"
| "perform sha Send_Verack conn = ntb_connection_send_verack sha conn"
| "perform sha (Send_Inv hashes) conn =
     bind_outcome (each_hash (ntb_connection_add_inv_hash sha) hashes (ntb_connection_begin_inv conn))
       (ntb_connection_end_inv sha)"
| "perform sha (Send_Getdata hashes) conn =
     bind_outcome (each_hash (ntb_connection_add_getdata_hash sha) hashes (ntb_connection_begin_getdata conn))
       (ntb_connection_end_getdata sha)"

text \<open>
  When an action can happen: the store calls back only for a load it was given, the socket reports
  that it is writable only when it is asked, and \<open>write\<close> takes no more than it is offered.
\<close>

fun enabled :: "(u8 list \<Rightarrow> u8 list) \<Rightarrow> action \<Rightarrow> ntb_connection \<Rightarrow> bool" where
  "enabled sha (Send_Blob hash blob) conn \<longleftrightarrow> (case blob of None \<Rightarrow> True | Some (type, data) \<Rightarrow> length data < 2 ^ 32)"
| "enabled sha (Loaded (type, data)) conn \<longleftrightarrow> load_cookie conn \<noteq> None \<and> length data < 2 ^ 32"
| "enabled sha (Poll_Write now wrote) conn \<longleftrightarrow> socket_source conn = Some True \<and>
     (case (wrote, add_ready_objects sha conn) of (Wrote n, Ok c) \<Rightarrow> n \<le> buf_length (out_buf c) | _ \<Rightarrow> True)"
| "enabled sha (Send_Inv hashes) conn \<longleftrightarrow> hashes_ok hashes"
| "enabled sha (Send_Getdata hashes) conn \<longleftrightarrow> hashes_ok hashes"
| "enabled sha _ conn \<longleftrightarrow> True"

inductive steps :: "(u8 list \<Rightarrow> u8 list) \<Rightarrow> ntb_connection \<Rightarrow> action list \<Rightarrow> ntb_connection \<Rightarrow> bool" for sha where
  steps_Nil: "steps sha conn [] conn"
| steps_Cons: "enabled sha a conn \<Longrightarrow> socket_source conn \<noteq> None \<Longrightarrow> perform sha a conn = Ok conn1 \<Longrightarrow>
    steps sha conn1 as conn2 \<Longrightarrow> steps sha conn (a # as) conn2"

inductive_cases steps_ConsE: "steps sha conn (a # as) conn'"

text \<open>Building commands leaves the two lists alone.\<close>

definition same_queue :: "ntb_connection \<Rightarrow> ntb_connection \<Rightarrow> bool" where
  "same_queue c c' \<longleftrightarrow> ready_objects c' = ready_objects c \<and> objects_to_load c' = objects_to_load c \<and>
     load_cookie c' = load_cookie c \<and> timer_source c' = timer_source c"

lemma same_queue_trans: "same_queue a b \<Longrightarrow> same_queue b c \<Longrightarrow> same_queue a c"
  by (simp add: same_queue_def)

lemma same_queue_ok: "same_queue c c' \<Longrightarrow> queue_ok c' = queue_ok c"
  by (auto simp: same_queue_def queue_ok_def split: option.splits)

lemma same_queue_update_poll_flags: "update_poll_flags c = Ok c' \<Longrightarrow> same_queue c c'"
  by (auto simp: update_poll_flags_def same_queue_def split: option.splits)

lemma same_queue_begin: "same_queue c (begin_hash_command c command)"
  by (simp add: begin_hash_command_def same_queue_def Let_def)

lemma same_queue_end: "end_hash_command sha c = Ok c' \<Longrightarrow> same_queue c c'"
  by (auto simp: end_hash_command_def finish_counted_def Let_def same_queue_def
      dest!: same_queue_update_poll_flags)

lemma same_queue_add_hash:
  assumes "add_hash_for_command sha c command h = Ok c'"
  shows "same_queue c c'"
proof -
  obtain c1 where c1: "(if get_n_hashes_for_command c \<ge> 0xfc
      then bind_outcome (end_hash_command sha c) (\<lambda>conn. Ok (begin_hash_command conn command))
      else Ok c) = Ok c1" "c' = c1\<lparr>out_buf := ntb_buffer_append (out_buf c1) h\<rparr>"
    using assms by (auto simp: add_hash_for_command_def)
  then have "same_queue c c1"
  proof (cases "get_n_hashes_for_command c \<ge> 0xfc")
    case True
    then obtain c2 where "end_hash_command sha c = Ok c2" "c1 = begin_hash_command c2 command"
      using c1(1) by auto
    then show ?thesis using same_queue_trans [OF same_queue_end same_queue_begin] by simp
  next
    case False
    then show ?thesis using c1(1) by (simp add: same_queue_def)
  qed
  then show ?thesis using c1(2) by (simp add: same_queue_def)
qed

lemma same_queue_add_hashes: "add_hashes sha command hs c = Ok c' \<Longrightarrow> same_queue c c'"
proof (induction hs arbitrary: c)
  case Nil
  then show ?case by (simp add: same_queue_def)
next
  case (Cons h hs)
  then obtain c1 where "add_hash_for_command sha c command h = Ok c1" "add_hashes sha command hs c1 = Ok c'"
    by auto
  then show ?case using same_queue_trans [OF same_queue_add_hash Cons.IH] by simp
qed

lemma hash_command_live:
  assumes "live conn" "\<And>x. length (sha x) = 64" "length command \<le> 12" "hashes_ok hs"
  shows "\<exists>conn'. bind_outcome (add_hashes sha command hs (begin_hash_command conn command))
    (end_hash_command sha) = Ok conn' \<and> live conn'"
proof -
  have ok: "buf_ok (out_buf conn)" "socket_source conn \<noteq> None" using assms(1) by (auto simp: live_def)
  obtain conn' where c: "bind_outcome (add_hashes sha command hs (begin_hash_command conn command))
      (end_hash_command sha) = Ok conn'" "buf_ok (out_buf conn')"
    "socket_source conn' = Some (connection_is_ready_to_write conn')"
    using hash_command_built [OF ok assms(3,4), of sha] assms(2) by blast
  have "same_queue conn conn'"
  proof -
    obtain c1 where "add_hashes sha command hs (begin_hash_command conn command) = Ok c1"
      "end_hash_command sha c1 = Ok conn'" using c(1) by auto
    then show ?thesis
      using same_queue_trans [OF same_queue_begin same_queue_trans [OF same_queue_add_hashes same_queue_end]] by simp
  qed
  then have "queue_ok conn'" "timer_source conn'"
    using same_queue_ok [of conn conn'] assms(1) by (auto simp: live_def same_queue_def)
  then show ?thesis using c by (auto simp: live_def)
qed

section \<open>Every action keeps the connection alive or closes it\<close>

lemma send_blob_live:
  assumes "live conn" "enabled sha (Send_Blob hash blob) conn"
  shows "\<exists>conn'. ntb_connection_send_blob conn hash blob = Ok conn' \<and> live conn'"
proof (cases blob)
  case None
  let ?c = "conn\<lparr>objects_to_load := objects_to_load conn @ [\<lparr>queue_hash = hash, queue_blob = None\<rparr>]\<rparr>"
  have "queue_pre ?c"
    using assms(1) by (auto simp: live_def queue_ok_def queue_pre_def split: option.splits)
  then show ?thesis
    using None assms(1) maybe_queue_load_ok [of ?c]
    by (simp add: ntb_connection_send_blob_def live_def connection_is_ready_to_write_def)
next
  case (Some bl)
  let ?c = "conn\<lparr>ready_objects := ready_objects conn @ [\<lparr>queue_hash = hash, queue_blob = Some bl\<rparr>]\<rparr>"
  have "queue_ok ?c"
    using assms Some by (auto simp: live_def queue_ok_def ready_ok_def split: option.splits prod.splits)
  then show ?thesis
    using update_poll_flags_eq [of ?c] live_polled [of ?c] assms(1) Some
    by (simp add: ntb_connection_send_blob_def live_def)
qed

lemma load_cb_live:
  assumes "live conn" "enabled sha (Loaded blob) conn"
  shows "\<exists>conn'. load_cb (Some blob) conn = Ok conn' \<and> live conn' \<and>
    length (objects_to_load conn) = Suc (length (objects_to_load conn')) \<and>
    length (ready_objects conn') = Suc (length (ready_objects conn)) \<and> out_buf conn' = out_buf conn"
proof -
  obtain type data where b: "blob = (type, data)" by (cases blob)
  then have d: "load_cookie conn \<noteq> None" "length data < 2 ^ 32" using assms(2) by auto
  then obtain e rest where l: "objects_to_load conn = e # rest" "queue_blob e = None"
    using assms(1) by (cases "objects_to_load conn") (auto simp: live_def queue_ok_def)
  let ?c = "conn\<lparr>objects_to_load := rest, ready_objects := ready_objects conn @ [e\<lparr>queue_blob := Some blob\<rparr>],
    load_cookie := None\<rparr>"
  have "queue_ok ?c"
    using assms(1) l d b by (auto simp: live_def queue_ok_def ready_ok_def)
  then have "live (polled ?c)" "update_poll_flags ?c = Ok (polled ?c)"
    using assms(1) live_polled [of ?c] update_poll_flags_eq [of ?c] by (simp_all add: live_def)
  then show ?thesis
    using l by (simp add: load_cb_def)
qed

lemma error_dead: "dead (set_error_state quiet conn)"
  by (simp add: set_error_state_def emit_event_def quiet_def remove_sources_def dead_def)

lemma command_live:
  assumes "live conn" "ntb_proto_add_command sha now (out_buf conn) command as = Ok b" "buf_ok b"
  shows "update_poll_flags (conn\<lparr>out_buf := b\<rparr>) = Ok (polled (conn\<lparr>out_buf := b\<rparr>)) \<and> live (polled (conn\<lparr>out_buf := b\<rparr>))"
  using assms(1,3) update_poll_flags_eq [of "conn\<lparr>out_buf := b\<rparr>"] live_polled [of "conn\<lparr>out_buf := b\<rparr>"]
  by (simp add: live_def)

lemma empty_command_live:
  assumes "live conn" "\<And>x. length (sha x) = 64" "length command \<le> 12"
  shows "\<exists>conn'. bind_outcome (ntb_proto_add_command sha 0 (out_buf conn) command [])
    (\<lambda>b. update_poll_flags (conn\<lparr>out_buf := b\<rparr>)) = Ok conn' \<and> live conn'"
proof -
  have "buf_ok (out_buf conn)" using assms(1) by (simp add: live_def)
  from add_command_eq [OF this assms(3), of "[]" "[]" 0 sha] assms(2) obtain b where
    "ntb_proto_add_command sha 0 (out_buf conn) command [] = Ok b" "buf_ok b" by auto
  with command_live [OF assms(1) this] show ?thesis by simp
qed

lemma handle_write_live:
  assumes "live conn" "\<And>x. length (sha x) = 64" "enabled sha (Poll_Write now wrote) conn"
  shows "\<exists>conn'. handle_write sha quiet now wrote conn = Ok conn' \<and> (live conn' \<or> dead conn')"
proof -
  have r: "buf_ok (out_buf conn)" "queue_ok conn" "timer_source conn" "connection_is_ready_to_write conn"
    "socket_source conn = Some True"
    using assms(1,3) by (auto simp: live_def)
  obtain c where c: "add_ready_objects sha conn = Ok c" "buf_ok (out_buf c)" "queue_ok c"
    "socket_source c = socket_source conn" "0 < buf_length (out_buf c)" "timer_source c = timer_source conn"
    using add_ready_objects_stream [of sha conn] assms(2) r by blast
  show ?thesis
  proof (cases wrote)
    case Write_Again
    have "live c" using c r by (simp add: live_def connection_is_ready_to_write_def)
    then show ?thesis using c(1) Write_Again by (simp add: handle_write_def)
  next
    case Write_Error
    then show ?thesis using c(1) error_dead by (simp add: handle_write_def)
  next
    case (Wrote n)
    then have n: "n \<le> buf_length (out_buf c)" using assms(3) c(1) by simp
    let ?b = "(out_buf c)\<lparr>buf_data := write_at 0 (take (buf_length (out_buf c) - n)
        (drop n (buf_data (out_buf c)))) (buf_data (out_buf c)), buf_length := buf_length (out_buf c) - n\<rparr>"
    let ?c = "c\<lparr>out_buf := ?b, n_bytes_send := n_bytes_send c + word_of_nat n, last_write_time := now\<rparr>"
    have "live (polled ?c)" "update_poll_flags ?c = Ok (polled ?c)"
      using live_polled [of ?c] update_poll_flags_eq [of ?c] written_contents(1) [OF c(2) n] c r by simp_all
    then show ?thesis using c(1) n Wrote by (simp add: handle_write_def Let_def)
  qed
qed

lemma perform_live:
  assumes "live conn" "\<And>x. length (sha x) = 64" "enabled sha a conn"
  shows "\<exists>conn'. perform sha a conn = Ok conn' \<and> (live conn' \<or> dead conn')"
proof (cases a)
  case (Send_Blob hash blob)
  then show ?thesis using send_blob_live [of conn sha hash blob] assms by auto
next
  case (Loaded blob)
  then show ?thesis using load_cb_live [of conn sha blob] assms by auto
next
  case (Poll_Write now wrote)
  then show ?thesis using handle_write_live [of conn sha now wrote] assms by simp
next
  case (Pong_Check now)
  then show ?thesis
    using assms(1) error_dead empty_command_live [of conn sha "''pong''"] assms(2)
    by (auto simp: pong_check_cb_def send_pong_def)
next
  case Send_Verack
  then show ?thesis
    using empty_command_live [of conn sha "''verack''"] assms(1,2) by (auto simp: ntb_connection_send_verack_def)
next
  case (Send_Inv hashes)
  then show ?thesis
    using hash_command_live [of conn sha "''inv''" hashes] assms
    by (auto simp: ntb_connection_add_inv_hash_def [abs_def] ntb_connection_begin_inv_def
        ntb_connection_end_inv_def [abs_def])
next
  case (Send_Getdata hashes)
  then show ?thesis
    using hash_command_live [of conn sha "''getdata''" hashes] assms
    by (auto simp: ntb_connection_add_getdata_hash_def [abs_def] ntb_connection_begin_getdata_def
        ntb_connection_end_getdata_def [abs_def])
qed

lemma steps_live:
  assumes "steps sha conn as conn'" "live conn" "\<And>x. length (sha x) = 64"
  shows "live conn' \<or> dead conn'"
  using assms
proof (induction rule: steps.induct)
  case (steps_Nil conn)
  then show ?case by simp
next
  case (steps_Cons a conn conn1 as conn2)
  then have "live conn1 \<or> dead conn1"
    using perform_live [of conn sha a] by auto
  then show ?case
    using steps_Cons by (auto simp: dead_def elim: steps.cases)
qed

lemma live_new: "live (ntb_connection_new_for_socket now address recieved sent)"
  by (simp add: live_def queue_ok_def ntb_connection_new_for_socket_def
      connection_is_ready_to_write_def ntb_buffer_init_def buf_ok_def)



section \<open>Every requested object is sent\<close>

definition idle :: "ntb_connection \<Rightarrow> bool" where
  "idle conn \<longleftrightarrow> objects_to_load conn = [] \<and> \<not> connection_is_ready_to_write conn"

definition backlog :: "ntb_connection \<Rightarrow> nat" where
  "backlog conn = 2 * length (objects_to_load conn) + length (ready_objects conn) +
     (if buf_length (out_buf conn) = 0 then 0 else 1)"

lemma backlog_idle: "backlog conn = 0 \<longleftrightarrow> idle conn"
  by (auto simp: backlog_def idle_def connection_is_ready_to_write_def)

text \<open>The store delivers the object it was asked for; the socket takes what it is offered.\<close>

definition cooperative :: "(u8 list \<Rightarrow> ntb_proto_inv_type \<times> u8 list) \<Rightarrow> action \<Rightarrow> bool" where
  "cooperative store a \<longleftrightarrow> (\<exists>h. a = Loaded (store h)) \<or> (\<exists>now n. a = Poll_Write now (Wrote n))"

lemma write_all:
  assumes "live conn" "\<And>x. length (sha x) = 64" "connection_is_ready_to_write conn"
  shows "\<exists>n conn'. enabled sha (Poll_Write now (Wrote n)) conn \<and>
    perform sha (Poll_Write now (Wrote n)) conn = Ok conn' \<and> live conn' \<and> backlog conn' < backlog conn"
proof -
  have r: "buf_ok (out_buf conn)" "queue_ok conn" "timer_source conn" "socket_source conn = Some True"
    using assms(1,3) by (auto simp: live_def)
  obtain c where c: "add_ready_objects sha conn = Ok c" "buf_ok (out_buf c)" "queue_ok c"
    "socket_source c = socket_source conn" "timer_source c = timer_source conn"
    "objects_to_load c = objects_to_load conn" "length (ready_objects c) \<le> length (ready_objects conn)"
    "buf_length (out_buf conn) < 1024 \<and> ready_objects conn \<noteq> [] \<longrightarrow>
       length (ready_objects c) < length (ready_objects conn)"
    using add_ready_objects_stream [of sha conn] assms(2) r(1,2) by blast
  define n where "n = buf_length (out_buf c)"
  let ?b = "(out_buf c)\<lparr>buf_data := write_at 0 (take (buf_length (out_buf c) - n)
      (drop n (buf_data (out_buf c)))) (buf_data (out_buf c)), buf_length := buf_length (out_buf c) - n\<rparr>"
  let ?c = "c\<lparr>out_buf := ?b, n_bytes_send := n_bytes_send c + word_of_nat n, last_write_time := now\<rparr>"
  have n: "n \<le> buf_length (out_buf c)" by (simp add: n_def)
  have "live (polled ?c)" "update_poll_flags ?c = Ok (polled ?c)"
    using live_polled [of ?c] update_poll_flags_eq [of ?c] written_contents(1) [OF c(2) n] c r by simp_all
  moreover from this(2) have "perform sha (Poll_Write now (Wrote n)) conn = Ok (polled ?c)"
    using c(1) n by (simp add: handle_write_def Let_def)
  moreover have "enabled sha (Poll_Write now (Wrote n)) conn" using r(4) c(1) n by simp
  moreover have "backlog (polled ?c) < backlog conn"
    using c(6-8) assms(3) by (auto simp: backlog_def n_def connection_is_ready_to_write_def)
  ultimately show ?thesis by blast
qed

lemma cooperative_step:
  assumes "live conn" "\<And>x. length (sha x) = 64" "\<not> idle conn" "\<And>h. length (snd (store h)) < 2 ^ 32"
  shows "\<exists>a conn'. cooperative store a \<and> enabled sha a conn \<and> perform sha a conn = Ok conn' \<and>
    live conn' \<and> backlog conn' < backlog conn"
proof (cases "connection_is_ready_to_write conn")
  case True
  then show ?thesis
    using write_all [of conn sha 0] assms(1,2) unfolding cooperative_def by blast
next
  case False
  then obtain h where h: "load_cookie conn = Some h"
    using assms(1,3) by (auto simp: live_def queue_ok_def idle_def connection_is_ready_to_write_def split: option.splits)
  then have e: "enabled sha (Loaded (store h)) conn"
    using assms(4) [of h] by (cases "store h") auto
  obtain conn' where "load_cb (Some (store h)) conn = Ok conn'" "live conn'"
    "length (objects_to_load conn) = Suc (length (objects_to_load conn'))"
    "length (ready_objects conn') = Suc (length (ready_objects conn))" "out_buf conn' = out_buf conn"
    using load_cb_live [OF assms(1) e] by blast
  then show ?thesis
    using e by (intro exI [of _ "Loaded (store h)"] exI [of _ conn']) (auto simp: cooperative_def backlog_def)
qed

text \<open>
  C11: No object that a peer has asked for is left behind: from every sound state, as long as the store
  delivers what it was asked to load and the socket takes what it is offered, at most two callbacks
  for each object that waits for the store, one for each object at hand and one for the output
  buffer bring the connection to a state in which both lists and the output buffer are empty.
\<close>

theorem requests_are_served:
  assumes "live conn" "\<And>x. length (sha x) = 64" "\<And>h. length (snd (store h)) < 2 ^ 32"
  shows "\<exists>as conn'. list_all (cooperative store) as \<and> length as \<le> backlog conn \<and>
    steps sha conn as conn' \<and> live conn' \<and> objects_to_load conn' = [] \<and> ready_objects conn' = [] \<and>
    buf_length (out_buf conn') = 0"
  using assms(1)
proof (induction "backlog conn" arbitrary: conn rule: less_induct)
  case less
  show ?case
  proof (cases "idle conn")
    case True
    then show ?thesis
      using less.prems by (intro exI [of _ "[]"] exI [of _ conn])
        (auto simp: idle_def connection_is_ready_to_write_def intro: steps_Nil)
  next
    case False
    obtain a conn1 where a: "cooperative store a" "enabled sha a conn" "perform sha a conn = Ok conn1"
      "live conn1" "backlog conn1 < backlog conn"
      using cooperative_step [of conn sha store, OF less.prems assms(2) False assms(3)] by blast
    obtain as conn' where as: "list_all (cooperative store) as" "length as \<le> backlog conn1"
      "steps sha conn1 as conn'" "live conn'" "objects_to_load conn' = []" "ready_objects conn' = []"
      "buf_length (out_buf conn') = 0"
      using less.hyps [OF a(5,4)] by blast
    have "socket_source conn \<noteq> None" using less.prems by (simp add: live_def)
    then have "steps sha conn (a # as) conn'" using steps_Cons [OF a(2) _ a(3) as(3)] by blast
    then show ?thesis using a as by (intro exI [of _ "a # as"] exI [of _ conn']) auto
  qed
qed

definition asked_peer :: ntb_connection where
  "asked_peer = example_peer\<lparr>
     objects_to_load := [\<lparr>queue_hash = replicate 32 1, queue_blob = None\<rparr>, \<lparr>queue_hash = replicate 32 2, queue_blob = None\<rparr>],
     load_cookie := Some (replicate 32 1)\<rparr>"

theorem requests_are_served_witness:
  "\<exists>as conn'. list_all (cooperative (\<lambda>h. (NTB_PROTO_INV_TYPE_MSG, [1, 2]))) as \<and> length as \<le> backlog asked_peer \<and>
    steps (\<lambda>x. replicate 64 3) asked_peer as conn' \<and> live conn' \<and> objects_to_load conn' = [] \<and>
    ready_objects conn' = [] \<and> buf_length (out_buf conn') = 0"
proof (rule requests_are_served)
  show "live asked_peer"
    by (simp add: asked_peer_def live_def queue_ok_def example_peer_def ntb_connection_new_for_socket_def
        connection_is_ready_to_write_def ntb_buffer_init_def buf_ok_def)
qed simp_all

section \<open>What the store may not deliver\<close>

text \<open>
  The callback of the store follows the pointer it is given. When the store could not open or read the
  file of an object, it passes a null pointer, and the connection that waits for the object
  dereferences it.
\<close>

lemma load_cb_null_blob: "load_cb None conn = Fault"
  by (simp add: load_cb_def split: list.splits)

end
