(* ===== verification/Ntb_Ecc.thy ===== *)
theory Ntb_Ecc
  imports Ntb_Address
begin

text \<open>
  Elliptic curve keys and the hybrid encryption of messages (\<open>ntb-ecc.c\<close>). OpenSSL is a parameter: the
  big numbers of \<open>Ntb_Base58\<close> and a record of the operations on points, ciphers and message
  authentication codes that the code calls, with what the documentation promises of them as the
  hypotheses \<open>curve_ok\<close> and \<open>cipher_ok\<close>. Random bytes are arguments. An assertion that fails is a fault.
\<close>

section \<open>OpenSSL\<close>

record ('b, 'p, 'c) openssl =
  EC_POINT_mul :: "'b \<Rightarrow> 'p"
  EC_POINT_point2oct :: "'p \<Rightarrow> u8 list"
  EC_POINT_oct2point :: "u8 list \<Rightarrow> 'p option"
  EC_POINT_get_affine :: "'p \<Rightarrow> 'b \<times> 'b"
  EC_POINT_set_affine :: "'b \<Rightarrow> 'b \<Rightarrow> 'p option"
  curve_name :: u16
  ECDH_secret :: "'b \<Rightarrow> 'p \<Rightarrow> u8 list"
  EVP_EncryptInit :: "u8 list \<Rightarrow> u8 list \<Rightarrow> 'c"
  EVP_EncryptUpdate :: "'c \<Rightarrow> u8 list \<Rightarrow> 'c \<times> u8 list"
  EVP_EncryptFinal :: "'c \<Rightarrow> u8 list"
  EVP_DecryptInit :: "u8 list \<Rightarrow> u8 list \<Rightarrow> 'c"
  EVP_DecryptUpdate :: "'c \<Rightarrow> u8 list \<Rightarrow> ('c \<times> u8 list) option"
  EVP_DecryptFinal :: "'c \<Rightarrow> u8 list option"
  HMAC_SHA256 :: "u8 list \<Rightarrow> u8 list \<Rightarrow> u8 list"

text \<open>The sizes of AES-256-CBC and of the digests.\<close>

definition key_length :: nat where "key_length = 32"
definition iv_length :: nat where "iv_length = 16"
definition block_size :: nat where "block_size = 16"
definition SHA256_DIGEST_LENGTH :: nat where "SHA256_DIGEST_LENGTH = 32"

definition NTB_ECC_PUBLIC_KEY_SIZE :: nat where "NTB_ECC_PUBLIC_KEY_SIZE = 65"

text \<open>Encrypting a sequence of chunks with one context.\<close>

fun encrypt_chunks :: "('b, 'p, 'c) openssl \<Rightarrow> 'c \<Rightarrow> u8 list list \<Rightarrow> u8 list" where
  "encrypt_chunks ssl c [] = EVP_EncryptFinal ssl c"
| "encrypt_chunks ssl c (x # xs) =
     (case EVP_EncryptUpdate ssl c x of (c', out) \<Rightarrow> out @ encrypt_chunks ssl c' xs)"

definition curve_ok :: "'b bignum \<Rightarrow> ('b \<Rightarrow> nat) \<Rightarrow> ('b, 'p, 'c) openssl \<Rightarrow> bool" where
  "curve_ok bn val ssl \<longleftrightarrow>
     (\<forall>a b. ECDH_secret ssl a (EC_POINT_mul ssl b) = ECDH_secret ssl b (EC_POINT_mul ssl a)) \<and>
     (\<forall>p x y. EC_POINT_get_affine ssl p = (x, y) \<longrightarrow> val x < 256 ^ 32 \<and> val y < 256 ^ 32) \<and>
     (\<forall>p x y x' y'. EC_POINT_get_affine ssl p = (x, y) \<longrightarrow> val x' = val x \<longrightarrow> val y' = val y \<longrightarrow>
        EC_POINT_set_affine ssl x' y' = Some p) \<and>
     (\<forall>p. length (EC_POINT_point2oct ssl p) = NTB_ECC_PUBLIC_KEY_SIZE)"

definition cipher_ok :: "('b, 'p, 'c) openssl \<Rightarrow> bool" where
  "cipher_ok ssl \<longleftrightarrow>
     (\<forall>c x. length (snd (EVP_EncryptUpdate ssl c x)) \<le> length x + block_size) \<and>
     (\<forall>c. length (EVP_EncryptFinal ssl c) \<le> block_size) \<and>
     (\<forall>c x c' out. EVP_DecryptUpdate ssl c x = Some (c', out) \<longrightarrow> length out \<le> length x + block_size) \<and>
     (\<forall>c out. EVP_DecryptFinal ssl c = Some out \<longrightarrow> length out \<le> block_size) \<and>
     (\<forall>key iv xs. length key = key_length \<longrightarrow> length iv = iv_length \<longrightarrow>
        (\<exists>c out rest. EVP_DecryptUpdate ssl (EVP_DecryptInit ssl key iv)
             (encrypt_chunks ssl (EVP_EncryptInit ssl key iv) xs) = Some (c, out) \<and>
           EVP_DecryptFinal ssl c = Some rest \<and> out @ rest = concat xs)) \<and>
     (\<forall>key data. length (HMAC_SHA256 ssl key data) = SHA256_DIGEST_LENGTH)"

section \<open>Keys\<close>

record ('b, 'p) ec_key =
  private_key :: "'b option"
  public_key :: 'p

text \<open>The scratch numbers and the big number context of the structure are written before every use and are left out.\<close>

record ('p, 'c) ntb_ecc =
  pub_key_point :: 'p
  ciphertext_offset :: nat
  ecdh_keybuffer :: "u8 list"
  cipher_ctx :: 'c

definition make_pub_key_in_point :: "'b bignum \<Rightarrow> ('b, 'p, 'c) openssl \<Rightarrow> u8 list \<Rightarrow> 'p outcome" where
  "make_pub_key_in_point bn ssl priv =
     bind_outcome (read_bytes NTB_ECC_PRIVATE_KEY_SIZE priv) (\<lambda>bytes.
       case BN_bin2bn bn bytes of None \<Rightarrow> Fault | Some b \<Rightarrow> Ok (EC_POINT_mul ssl b))"

definition ntb_ecc_make_pub_key_point :: "'b bignum \<Rightarrow> ('b, 'p, 'c) openssl \<Rightarrow> u8 list \<Rightarrow> 'p outcome" where
  "ntb_ecc_make_pub_key_point bn ssl priv = make_pub_key_in_point bn ssl priv"

definition point2oct_asserted :: "('b, 'p, 'c) openssl \<Rightarrow> 'p \<Rightarrow> u8 list outcome" where
  "point2oct_asserted ssl point =
     (let oct = EC_POINT_point2oct ssl point in
      if length oct = NTB_ECC_PUBLIC_KEY_SIZE then Ok oct else Fault)"

definition ntb_ecc_make_pub_key_bin ::
    "'b bignum \<Rightarrow> ('b, 'p, 'c) openssl \<Rightarrow> ('p, 'c) ntb_ecc \<Rightarrow> u8 list \<Rightarrow> (('p, 'c) ntb_ecc \<times> u8 list) outcome" where
  "ntb_ecc_make_pub_key_bin bn ssl ecc priv =
     bind_outcome (make_pub_key_in_point bn ssl priv) (\<lambda>point.
       bind_outcome (point2oct_asserted ssl point) (\<lambda>oct. Ok (ecc\<lparr>pub_key_point := point\<rparr>, oct)))"

definition create_key ::
    "'b bignum \<Rightarrow> ('p, 'c) ntb_ecc \<Rightarrow> u8 list option \<Rightarrow> ('b, 'p) ec_key outcome" where
  "create_key bn ecc priv =
     (case priv of
        None \<Rightarrow> Ok \<lparr>private_key = None, public_key = pub_key_point ecc\<rparr>
      | Some priv \<Rightarrow>
          bind_outcome (read_bytes NTB_ECC_PRIVATE_KEY_SIZE priv) (\<lambda>bytes.
            case BN_bin2bn bn bytes of
              None \<Rightarrow> Fault
            | Some b \<Rightarrow> Ok \<lparr>private_key = Some b, public_key = pub_key_point ecc\<rparr>))"

definition ntb_ecc_create_key_with_public ::
    "'b bignum \<Rightarrow> ('b, 'p, 'c) openssl \<Rightarrow> ('p, 'c) ntb_ecc \<Rightarrow> u8 list option \<Rightarrow> u8 list \<Rightarrow>
     (('p, 'c) ntb_ecc \<times> ('b, 'p) ec_key) outcome" where
  "ntb_ecc_create_key_with_public bn ssl ecc priv pub =
     bind_outcome (read_bytes NTB_ECC_PUBLIC_KEY_SIZE pub) (\<lambda>oct.
       case EC_POINT_oct2point ssl oct of
         None \<Rightarrow> Fault
       | Some point \<Rightarrow>
           let ecc = ecc\<lparr>pub_key_point := point\<rparr> in
           bind_outcome (create_key bn ecc priv) (\<lambda>key. Ok (ecc, key)))"

definition ntb_ecc_create_key ::
    "'b bignum \<Rightarrow> ('b, 'p, 'c) openssl \<Rightarrow> ('p, 'c) ntb_ecc \<Rightarrow> u8 list \<Rightarrow>
     (('p, 'c) ntb_ecc \<times> ('b, 'p) ec_key) outcome" where
  "ntb_ecc_create_key bn ssl ecc priv =
     bind_outcome (make_pub_key_in_point bn ssl priv) (\<lambda>point.
       let ecc = ecc\<lparr>pub_key_point := point\<rparr> in
       bind_outcome (create_key bn ecc (Some priv)) (\<lambda>key. Ok (ecc, key\<lparr>public_key := pub_key_point ecc\<rparr>)))"

definition ntb_ecc_create_random_key ::
    "'b bignum \<Rightarrow> ('b, 'p, 'c) openssl \<Rightarrow> u8 list \<Rightarrow> ('p, 'c) ntb_ecc \<Rightarrow>
     (('p, 'c) ntb_ecc \<times> ('b, 'p) ec_key) outcome" where
  "ntb_ecc_create_random_key bn ssl random ecc = ntb_ecc_create_key bn ssl ecc random"

definition ntb_ecc_get_pub_key :: "('b, 'p, 'c) openssl \<Rightarrow> ('b, 'p) ec_key \<Rightarrow> u8 list outcome" where
  "ntb_ecc_get_pub_key ssl key = point2oct_asserted ssl (public_key key)"

section \<open>Encryption\<close>

definition encode_bignumber :: "'b bignum \<Rightarrow> 'b \<Rightarrow> ntb_buffer \<Rightarrow> ntb_buffer outcome" where
  "encode_bignumber bn b data_out =
     (let num_bytes = BN_num_bytes bn b;
          data_out = ntb_proto_add_16 data_out (word_of_nat num_bytes);
          data_out = ntb_buffer_ensure_size data_out (buf_length data_out + num_bytes)
      in bind_outcome (deposit data_out (BN_bn2bin bn b)) (\<lambda>out.
           Ok (out\<lparr>buf_length := buf_length data_out + num_bytes\<rparr>)))"

definition encode_pubkey ::
    "'b bignum \<Rightarrow> ('b, 'p, 'c) openssl \<Rightarrow> 'p \<Rightarrow> ntb_buffer \<Rightarrow> ntb_buffer outcome" where
  "encode_pubkey bn ssl point data_out =
     (case EC_POINT_get_affine ssl point of (x, y) \<Rightarrow>
      bind_outcome (encode_bignumber bn x (ntb_proto_add_16 data_out (curve_name ssl)))
        (encode_bignumber bn y))"

text \<open>\<open>kdf_sha512\<close> with an output of 64 bytes.\<close>

definition kdf_sha512 :: "(u8 list \<Rightarrow> u8 list) \<Rightarrow> u8 list \<Rightarrow> u8 list" where
  "kdf_sha512 sha512 data = sha512 data"

definition ECDH_compute_key ::
    "(u8 list \<Rightarrow> u8 list) \<Rightarrow> ('b, 'p, 'c) openssl \<Rightarrow> 'p \<Rightarrow> ('b, 'p) ec_key \<Rightarrow> u8 list outcome" where
  "ECDH_compute_key sha512 ssl point key =
     (case private_key key of
        None \<Rightarrow> Fault
      | Some b \<Rightarrow>
          let k = kdf_sha512 sha512 (ECDH_secret ssl b point) in if length k = 64 then Ok k else Fault)"

definition ntb_ecc_encrypt_with_point_begin ::
    "'b bignum \<Rightarrow> (u8 list \<Rightarrow> u8 list) \<Rightarrow> ('b, 'p, 'c) openssl \<Rightarrow> u8 list \<Rightarrow> u8 list \<Rightarrow> ('p, 'c) ntb_ecc \<Rightarrow> 'p \<Rightarrow>
     ntb_buffer \<Rightarrow> (('p, 'c) ntb_ecc \<times> ntb_buffer) outcome" where
  "ntb_ecc_encrypt_with_point_begin bn sha512 ssl random_key random_iv ecc point data_out =
     bind_outcome (ntb_ecc_create_random_key bn ssl random_key ecc) (\<lambda>(ecc, ephemeral_key).
       bind_outcome (ECDH_compute_key sha512 ssl point ephemeral_key) (\<lambda>keybuffer.
         let ecc = ecc\<lparr>ecdh_keybuffer := keybuffer\<rparr>;
             iv_offset = buf_length data_out;
             data_out = ntb_buffer_set_length data_out (iv_offset + iv_length);
             data_out = data_out\<lparr>buf_data := write_at iv_offset (map Some random_iv) (buf_data data_out)\<rparr>
         in bind_outcome (encode_pubkey bn ssl (public_key ephemeral_key) data_out) (\<lambda>data_out.
              Ok (ecc\<lparr>ciphertext_offset := buf_length data_out,
                      cipher_ctx := EVP_EncryptInit ssl (take key_length keybuffer) random_iv\<rparr>, data_out))))"

definition ntb_ecc_encrypt_update ::
    "('b, 'p, 'c) openssl \<Rightarrow> ('p, 'c) ntb_ecc \<Rightarrow> u8 list \<Rightarrow> ntb_buffer \<Rightarrow> (('p, 'c) ntb_ecc \<times> ntb_buffer) outcome" where
  "ntb_ecc_encrypt_update ssl ecc data_in data_out =
     (let data_out = ntb_buffer_ensure_size data_out (buf_length data_out + (length data_in + block_size)) in
      case EVP_EncryptUpdate ssl (cipher_ctx ecc) data_in of (c, out) \<Rightarrow>
        bind_outcome (deposit data_out out) (\<lambda>data_out. Ok (ecc\<lparr>cipher_ctx := c\<rparr>, data_out)))"

text \<open>The message authentication code is computed over initialised bytes of the buffer only.\<close>

definition ntb_ecc_encrypt_end ::
    "('b, 'p, 'c) openssl \<Rightarrow> ('p, 'c) ntb_ecc \<Rightarrow> ntb_buffer \<Rightarrow> ntb_buffer outcome" where
  "ntb_ecc_encrypt_end ssl ecc data_out =
     (let data_out = ntb_buffer_ensure_size data_out (buf_length data_out + block_size) in
      bind_outcome (deposit data_out (EVP_EncryptFinal ssl (cipher_ctx ecc))) (\<lambda>data_out.
        let data_out = ntb_buffer_ensure_size data_out (buf_length data_out + SHA256_DIGEST_LENGTH) in
        case those (drop (ciphertext_offset ecc) (contents data_out)) of
          None \<Rightarrow> Fault
        | Some ciphertext \<Rightarrow>
            let mac = HMAC_SHA256 ssl (drop (64 div 2) (ecdh_keybuffer ecc)) ciphertext in
            if length mac \<noteq> SHA256_DIGEST_LENGTH then Fault else deposit data_out mac))"

definition ntb_ecc_encrypt_with_point ::
    "'b bignum \<Rightarrow> (u8 list \<Rightarrow> u8 list) \<Rightarrow> ('b, 'p, 'c) openssl \<Rightarrow> u8 list \<Rightarrow> u8 list \<Rightarrow> ('p, 'c) ntb_ecc \<Rightarrow> 'p \<Rightarrow>
     u8 list \<Rightarrow> ntb_buffer \<Rightarrow> ntb_buffer outcome" where
  "ntb_ecc_encrypt_with_point bn sha512 ssl random_key random_iv ecc point data_in data_out =
     bind_outcome (ntb_ecc_encrypt_with_point_begin bn sha512 ssl random_key random_iv ecc point data_out)
       (\<lambda>(ecc, data_out). bind_outcome (ntb_ecc_encrypt_update ssl ecc data_in data_out)
         (\<lambda>(ecc, data_out). ntb_ecc_encrypt_end ssl ecc data_out))"

section \<open>Decryption\<close>

text \<open>
  The pointer is the bytes from it to the end of the object, the length is a \<open>size_t\<close>. The length is
  not compared with the number of bytes that the number claims to have.
\<close>

definition decode_big_number ::
    "'b bignum \<Rightarrow> u8 list \<times> u64 \<Rightarrow> ('b \<times> u8 list \<times> u64) outcome" where
  "decode_big_number bn c =
     (case c of (p, len) \<Rightarrow>
      if len < 2 then Fail
      else bind_outcome (ntb_proto_get_16 p) (\<lambda>num_bytes.
        bind_outcome (read_bytes (unat num_bytes) (drop 2 p)) (\<lambda>bytes.
          case BN_bin2bn bn bytes of
            None \<Rightarrow> Fault
          | Some b \<Rightarrow> Ok (b, drop (2 + unat num_bytes) p, len - (2 + ucast num_bytes)))))"

definition decode_pub_key ::
    "'b bignum \<Rightarrow> ('b, 'p, 'c) openssl \<Rightarrow> u8 list \<times> u64 \<Rightarrow> ('p \<times> u8 list \<times> u64) outcome" where
  "decode_pub_key bn ssl c =
     (case c of (p, len) \<Rightarrow>
      if len < 6 then Fail
      else bind_outcome (ntb_proto_get_16 p) (\<lambda>curve.
        if curve \<noteq> curve_name ssl then Fail
        else bind_outcome (decode_big_number bn (drop 2 p, len - 2)) (\<lambda>(x, c).
          bind_outcome (decode_big_number bn c) (\<lambda>(y, c).
            case EC_POINT_set_affine ssl x y of None \<Rightarrow> Fault | Some point \<Rightarrow> Ok (point, c)))))"

text \<open>The output buffer is returned on failure too: it may have grown.\<close>

definition decrypt_blocks ::
    "('b, 'p, 'c) openssl \<Rightarrow> u8 list \<Rightarrow> u8 list \<Rightarrow> u8 list \<Rightarrow> ntb_buffer \<Rightarrow> (ntb_buffer \<times> bool) outcome" where
  "decrypt_blocks ssl key iv ciphertext data_out =
     (let data_out = ntb_buffer_ensure_size data_out (buf_length data_out + (length ciphertext + block_size)) in
      case EVP_DecryptUpdate ssl (EVP_DecryptInit ssl key iv) ciphertext of
        None \<Rightarrow> Ok (data_out, False)
      | Some (c, out) \<Rightarrow>
          bind_outcome (deposit data_out out) (\<lambda>data_out.
            let data_out = ntb_buffer_ensure_size data_out (buf_length data_out + block_size) in
            case EVP_DecryptFinal ssl c of
              None \<Rightarrow> Ok (data_out, False)
            | Some out \<Rightarrow> bind_outcome (deposit data_out out) (\<lambda>data_out. Ok (data_out, True))))"

definition ntb_ecc_decrypt ::
    "'b bignum \<Rightarrow> (u8 list \<Rightarrow> u8 list) \<Rightarrow> ('b, 'p, 'c) openssl \<Rightarrow> ('b, 'p) ec_key \<Rightarrow> u8 list \<Rightarrow> u64 \<Rightarrow>
     ntb_buffer \<Rightarrow> (ntb_buffer \<times> bool) outcome" where
  "ntb_ecc_decrypt bn sha512 ssl key data_in data_in_length data_out =
     (if data_in_length < word_of_nat iv_length then Ok (data_out, False)
      else
        let iv = take iv_length data_in in
        case decode_pub_key bn ssl (drop iv_length data_in, data_in_length - word_of_nat iv_length) of
          Fault \<Rightarrow> Fault
        | Fail \<Rightarrow> Ok (data_out, False)
        | Ok (point, p, len) \<Rightarrow>
            bind_outcome (ECDH_compute_key sha512 ssl point key) (\<lambda>keybuffer.
              if len < word_of_nat SHA256_DIGEST_LENGTH then Ok (data_out, False)
              else
                let len = unat len - SHA256_DIGEST_LENGTH in
                bind_outcome (read_bytes len p) (\<lambda>ciphertext.
                  bind_outcome (read_bytes SHA256_DIGEST_LENGTH (drop len p)) (\<lambda>mac.
                    let hmac_buf = HMAC_SHA256 ssl (drop (64 div 2) keybuffer) ciphertext in
                    if length hmac_buf \<noteq> SHA256_DIGEST_LENGTH then Fault
                    else if hmac_buf \<noteq> mac then Ok (data_out, False)
                    else decrypt_blocks ssl (take key_length keybuffer) iv ciphertext data_out))))"

section \<open>The layout of an encrypted message\<close>

definition number_field :: "nat \<Rightarrow> u8 list" where
  "number_field v = be_bytes 2 (byte_length v) @ be_bytes (byte_length v) v"

definition pubkey_field :: "('b \<Rightarrow> nat) \<Rightarrow> ('b, 'p, 'c) openssl \<Rightarrow> 'p \<Rightarrow> u8 list" where
  "pubkey_field val ssl point =
     (case EC_POINT_get_affine ssl point of (x, y) \<Rightarrow>
        be_bytes 2 (unat (curve_name ssl)) @ number_field (val x) @ number_field (val y))"

lemma be_value_byte_length: "be_value (be_bytes (byte_length v) v) = v"
  using byte_length_le_iff [of v "byte_length v"] by (simp add: be_value_be_bytes)

lemma length_number_field: "v < 256 ^ 32 \<Longrightarrow> length (number_field v) \<le> 34"
  using byte_length_le_iff [of v 32] by (simp add: number_field_def)

lemma encode_bignumber_eq:
  assumes "bn_ok bn val" "val x < 256 ^ 32" "buf_ok b"
  shows "\<exists>b'. encode_bignumber bn x b = Ok b' \<and> buf_ok b' \<and> contents b' = contents b @ map Some (number_field (val x))"
proof -
  define n where "n = byte_length (val x)"
  have bn: "BN_num_bytes bn x = n" "BN_bn2bin bn x = be_bytes n (val x)"
    using assms(1) by (auto simp: bn_ok_def n_def)
  have n: "n \<le> 32" using byte_length_le_iff [of "val x" 32] assms(2) by (simp add: n_def)
  define b1 where "b1 = ntb_proto_add_16 b (word_of_nat n)"
  define b2 where "b2 = ntb_buffer_ensure_size b1 (buf_length b1 + n)"
  have b1: "buf_ok b1" "contents b1 = contents b @ map Some (be_bytes 2 n)"
    using assms(3) n by (simp_all add: b1_def add_n_contents unat_of_nat)
  have b2: "buf_ok b2" "contents b2 = contents b1" "buf_length b2 + length (be_bytes n (val x)) \<le> buf_size b2"
    "buf_length b2 = buf_length b1"
    using b1 ensure_size_ge [of "buf_length b1 + n" b1] by (auto simp: b2_def)
  obtain b3 where b3: "deposit b2 (be_bytes n (val x)) = Ok b3" "buf_ok b3"
    "contents b3 = contents b2 @ map Some (be_bytes n (val x))"
    by (rule deposit_ok [OF b2(1,3)])
  have "buf_length b3 = buf_length b2 + n" using b3(1) by (auto simp: deposit_def split: if_splits)
  then have "encode_bignumber bn x b = Ok b3"
    using b3(1) b2(4) by (simp add: encode_bignumber_def bn Let_def b1_def b2_def)
  then show ?thesis using b1 b2 b3 by (auto simp: number_field_def n_def)
qed

lemma encode_pubkey_eq:
  assumes "bn_ok bn val" "curve_ok bn val ssl" "buf_ok b"
  shows "\<exists>b'. encode_pubkey bn ssl point b = Ok b' \<and> buf_ok b' \<and>
    contents b' = contents b @ map Some (pubkey_field val ssl point)"
proof -
  obtain x y where a: "EC_POINT_get_affine ssl point = (x, y)" by fastforce
  then have v: "val x < 256 ^ 32" "val y < 256 ^ 32" using assms(2) by (auto simp: curve_ok_def)
  define b1 where "b1 = ntb_proto_add_16 b (curve_name ssl)"
  have b1: "buf_ok b1" "contents b1 = contents b @ map Some (be_bytes 2 (unat (curve_name ssl)))"
    using assms(3) by (simp_all add: b1_def add_n_contents)
  obtain b2 where b2: "encode_bignumber bn x b1 = Ok b2" "buf_ok b2"
    "contents b2 = contents b1 @ map Some (number_field (val x))"
    using encode_bignumber_eq [OF assms(1) v(1) b1(1)] by blast
  obtain b3 where "encode_bignumber bn y b2 = Ok b3" "buf_ok b3"
    "contents b3 = contents b2 @ map Some (number_field (val y))"
    using encode_bignumber_eq [OF assms(1) v(2) b2(2)] by blast
  then show ?thesis
    using a b1 b2 by (auto simp: encode_pubkey_def b1_def pubkey_field_def)
qed

lemma decode_number_field:
  assumes "bn_ok bn val" "v < 256 ^ 32" "length (number_field v) \<le> unat len"
  shows "\<exists>b. val b = v \<and>
    decode_big_number bn (number_field v @ rest, len) = Ok (b, rest, len - word_of_nat (length (number_field v)))"
proof -
  define n where "n = byte_length v"
  have n: "n \<le> 32" using byte_length_le_iff [of v 32] assms(2) by (simp add: n_def)
  obtain b where b: "BN_bin2bn bn (be_bytes n v) = Some b" "val b = v"
    using assms(1) be_value_byte_length [of v] unfolding bn_ok_def n_def by metis
  have g: "ntb_proto_get_16 (number_field v @ rest) = Ok (word_of_nat n)"
    using n by (simp add: number_field_def n_def [symmetric] ntb_proto_get_16_def get_be_append be_value_be_bytes)
  have u: "unat (word_of_nat n :: u16) = n" "(ucast (word_of_nat n :: u16) :: u64) = word_of_nat n"
    using n ucast_of_nat_small [of n, where 'a = 16 and 'b = 64] by (simp_all add: unat_of_nat)
  have l: "\<not> len < 2" using assms(3) by (simp add: word_less_nat_alt number_field_def)
  have d: "drop 2 (number_field v @ rest) = be_bytes n v @ rest"
    "drop (2 + n) (number_field v @ rest) = rest"
    by (simp_all add: number_field_def n_def)
  have w: "(word_of_nat (length (number_field v)) :: u64) = 2 + word_of_nat n"
    by (simp add: number_field_def n_def)
  show ?thesis
    unfolding decode_big_number_def prod.case g bind_outcome.simps u d w using l b by simp
qed

lemma decode_pubkey_field:
  assumes "bn_ok bn val" "curve_ok bn val ssl" "length (pubkey_field val ssl point) \<le> unat len"
  shows "decode_pub_key bn ssl (pubkey_field val ssl point @ rest, len) =
    Ok (point, rest, len - word_of_nat (length (pubkey_field val ssl point)))"
proof -
  obtain x y where a: "EC_POINT_get_affine ssl point = (x, y)" by fastforce
  then have v: "val x < 256 ^ 32" "val y < 256 ^ 32" using assms(2) by (auto simp: curve_ok_def)
  define fx where "fx = number_field (val x)"
  define fy where "fy = number_field (val y)"
  have p: "pubkey_field val ssl point = be_bytes 2 (unat (curve_name ssl)) @ fx @ fy"
    by (simp add: pubkey_field_def a fx_def fy_def)
  have s: "2 \<le> length fx" "2 \<le> length fy" by (simp_all add: fx_def fy_def number_field_def)
  have l: "2 + length fx + length fy \<le> unat len" using assms(3) by (simp add: p)
  have lf: "length fx \<le> unat len - 2" "length fy \<le> unat len - 2 - length fx" using l by simp_all
  have l2: "unat (len - 2) = unat len - 2"
    using unat_minus_of_nat [of 2 len] l by simp
  have lx: "unat (len - 2 - word_of_nat (length fx)) = unat len - 2 - length fx"
    using unat_minus_of_nat [of "length fx" "len - 2"] l l2 by simp
  obtain x' where x': "val x' = val x" "decode_big_number bn (fx @ fy @ rest, len - 2) =
      Ok (x', fy @ rest, len - 2 - word_of_nat (length fx))"
    using decode_number_field [OF assms(1) v(1), of "len - 2" "fy @ rest"] lf l2 by (auto simp: fx_def [symmetric])
  obtain y' where y': "val y' = val y" "decode_big_number bn (fy @ rest, len - 2 - word_of_nat (length fx)) =
      Ok (y', rest, len - 2 - word_of_nat (length fx) - word_of_nat (length fy))"
    using decode_number_field [OF assms(1) v(2), of "len - 2 - word_of_nat (length fx)" rest] lf lx
    by (auto simp: fy_def [symmetric])
  have "EC_POINT_set_affine ssl x' y' = Some point"
    using assms(2) a x'(1) y'(1) unfolding curve_ok_def by metis
  moreover have "ntb_proto_get_16 ((be_bytes 2 (unat (curve_name ssl)) @ fx @ fy) @ rest) = Ok (curve_name ssl)"
    by (simp add: ntb_proto_get_16_def get_be_word)
  moreover have "\<not> len < 6" using l s by (simp add: word_less_nat_alt)
  ultimately show ?thesis
    unfolding decode_pub_key_def prod.case p using x'(2) y'(2)
    by (simp add: algebra_simps)
qed

section \<open>Encryption and decryption\<close>

text \<open>Encrypting in several pieces, as \<open>ntb-crypto.c\<close> does.\<close>

fun encrypt_updates ::
    "('b, 'p, 'c) openssl \<Rightarrow> ('p, 'c) ntb_ecc \<Rightarrow> u8 list list \<Rightarrow> ntb_buffer \<Rightarrow>
     (('p, 'c) ntb_ecc \<times> ntb_buffer) outcome" where
  "encrypt_updates ssl ecc [] b = Ok (ecc, b)"
| "encrypt_updates ssl ecc (x # xs) b =
     bind_outcome (ntb_ecc_encrypt_update ssl ecc x b) (\<lambda>(ecc, b). encrypt_updates ssl ecc xs b)"

lemma write_iv:
  assumes "buf_ok b" "length iv = iv_length"
  defines "b1 \<equiv> ntb_buffer_set_length b (buf_length b + iv_length)"
  defines "b2 \<equiv> b1\<lparr>buf_data := write_at (buf_length b) (map Some iv) (buf_data b1)\<rparr>"
  shows "buf_ok b2" "contents b2 = contents b @ map Some iv"
proof -
  define b0 where "b0 = ntb_buffer_ensure_size b (buf_length b + iv_length)"
  have b0: "buf_ok b0" "contents b0 = contents b" "buf_length b0 = buf_length b"
    "buf_length b0 + length (map Some iv) \<le> buf_size b0"
    using assms(1,2) ensure_size_ge [of "buf_length b + iv_length" b] by (auto simp: b0_def)
  have "b2 = b0\<lparr>buf_data := write_at (buf_length b0) (map Some iv) (buf_data b0),
      buf_length := buf_length b0 + length (map Some iv)\<rparr>"
    using assms(2) b0(3) by (simp add: b2_def b1_def ntb_buffer_set_length_def b0_def)
  then show "buf_ok b2" "contents b2 = contents b @ map Some iv"
    using write_at_buf_ok [OF b0(1,4)] write_at_contents [OF b0(1,4)] b0(2) by simp_all
qed

lemma encrypt_update_eq:
  assumes "cipher_ok ssl" "buf_ok b" "EVP_EncryptUpdate ssl (cipher_ctx ecc) x = (c, out)"
  shows "\<exists>b'. ntb_ecc_encrypt_update ssl ecc x b = Ok (ecc\<lparr>cipher_ctx := c\<rparr>, b') \<and> buf_ok b' \<and>
    contents b' = contents b @ map Some out"
proof -
  define b1 where "b1 = ntb_buffer_ensure_size b (buf_length b + (length x + block_size))"
  have "\<forall>c x. length (snd (EVP_EncryptUpdate ssl c x)) \<le> length x + block_size"
    using assms(1) unfolding cipher_ok_def by blast
  from this [rule_format, of "cipher_ctx ecc" x] assms(3) have "length out \<le> length x + block_size" by simp
  then have b1: "buf_ok b1" "contents b1 = contents b" "buf_length b1 + length out \<le> buf_size b1"
    using assms(2) ensure_size_ge [of "buf_length b + (length x + block_size)" b] by (auto simp: b1_def)
  obtain b' where "deposit b1 out = Ok b'" "buf_ok b'" "contents b' = contents b1 @ map Some out"
    by (rule deposit_ok [OF b1(1,3)])
  then show ?thesis
    using b1(2) assms(3) by (simp add: ntb_ecc_encrypt_update_def b1_def)
qed

lemma encrypt_end_eq:
  assumes "cipher_ok ssl" "buf_ok b" "contents b = pre @ map Some ct" "ciphertext_offset ecc = length pre"
  shows "\<exists>b'. ntb_ecc_encrypt_end ssl ecc b = Ok b' \<and> buf_ok b' \<and>
    (let all = ct @ EVP_EncryptFinal ssl (cipher_ctx ecc)
     in contents b' = pre @ map Some (all @ HMAC_SHA256 ssl (drop 32 (ecdh_keybuffer ecc)) all))"
proof -
  define fin where "fin = EVP_EncryptFinal ssl (cipher_ctx ecc)"
  define mac where "mac = HMAC_SHA256 ssl (drop 32 (ecdh_keybuffer ecc)) (ct @ fin)"
  have laws: "length fin \<le> block_size" "length mac = SHA256_DIGEST_LENGTH"
    using assms(1) by (auto simp: cipher_ok_def fin_def mac_def)
  define b1 where "b1 = ntb_buffer_ensure_size b (buf_length b + block_size)"
  have b1: "buf_ok b1" "contents b1 = contents b" "buf_length b1 + length fin \<le> buf_size b1"
    using assms(2) laws(1) ensure_size_ge [of "buf_length b + block_size" b] by (auto simp: b1_def)
  obtain b2 where b2: "deposit b1 fin = Ok b2" "buf_ok b2" "contents b2 = contents b1 @ map Some fin"
    by (rule deposit_ok [OF b1(1,3)])
  define b3 where "b3 = ntb_buffer_ensure_size b2 (buf_length b2 + SHA256_DIGEST_LENGTH)"
  have b3: "buf_ok b3" "contents b3 = contents b2" "buf_length b3 + length mac \<le> buf_size b3"
    using b2(2) laws(2) ensure_size_ge [of "buf_length b2 + SHA256_DIGEST_LENGTH" b2] by (auto simp: b3_def)
  obtain b4 where b4: "deposit b3 mac = Ok b4" "buf_ok b4" "contents b4 = contents b3 @ map Some mac"
    by (rule deposit_ok [OF b3(1,3)])
  have c: "contents b3 = pre @ map Some (ct @ fin)"
    using b1(2) b2(3) b3(2) assms(3) by simp
  then have "those (drop (ciphertext_offset ecc) (contents b3)) = Some (ct @ fin)"
    using assms(4) those_map_Some [of "ct @ fin"] by simp
  then have "ntb_ecc_encrypt_end ssl ecc b = Ok b4"
    using b2(1) b4(1) laws(2)
    by (simp add: ntb_ecc_encrypt_end_def Let_def b1_def [symmetric] fin_def [symmetric] b3_def [symmetric]
        mac_def [symmetric])
  then show ?thesis using b4 c by (simp add: fin_def mac_def Let_def)
qed

lemma encrypt_updates_eq:
  assumes "cipher_ok ssl" "buf_ok b" "contents b = pre @ map Some ct" "ciphertext_offset ecc = length pre"
  shows "\<exists>b'. bind_outcome (encrypt_updates ssl ecc xs b) (\<lambda>(ecc, b). ntb_ecc_encrypt_end ssl ecc b) = Ok b' \<and>
    buf_ok b' \<and> (let all = ct @ encrypt_chunks ssl (cipher_ctx ecc) xs
     in contents b' = pre @ map Some (all @ HMAC_SHA256 ssl (drop 32 (ecdh_keybuffer ecc)) all))"
  using assms(2-4)
proof (induction xs arbitrary: ecc b ct)
  case Nil
  then show ?case using encrypt_end_eq [OF assms(1), of b pre ct ecc] by simp
next
  case (Cons x xs)
  obtain c out where u: "EVP_EncryptUpdate ssl (cipher_ctx ecc) x = (c, out)" by fastforce
  obtain b1 where b1: "ntb_ecc_encrypt_update ssl ecc x b = Ok (ecc\<lparr>cipher_ctx := c\<rparr>, b1)" "buf_ok b1"
    "contents b1 = contents b @ map Some out"
    using encrypt_update_eq [OF assms(1) Cons.prems(1) u] by blast
  from Cons.IH [of b1 "ct @ out" "ecc\<lparr>cipher_ctx := c\<rparr>"] b1 Cons.prems(2,3) show ?case
    by (simp add: u)
qed

definition encrypted ::
    "('b \<Rightarrow> nat) \<Rightarrow> ('b, 'p, 'c) openssl \<Rightarrow> u8 list \<Rightarrow> 'p \<Rightarrow> u8 list \<Rightarrow> u8 list \<Rightarrow> u8 list" where
  "encrypted val ssl iv ephemeral keybuffer ct =
     iv @ pubkey_field val ssl ephemeral @ ct @ HMAC_SHA256 ssl (drop 32 keybuffer) ct"

lemma encrypt_begin_eq:
  assumes "bn_ok bn val" "curve_ok bn val ssl" "\<And>x. length (sha512 x) = 64"
    "length random_key = NTB_ECC_PRIVATE_KEY_SIZE" "length random_iv = iv_length" "buf_ok b"
  shows "\<exists>e ecc' b'. ntb_ecc_encrypt_with_point_begin bn sha512 ssl random_key random_iv ecc point b = Ok (ecc', b') \<and>
    buf_ok b' \<and> contents b' = contents b @ map Some (random_iv @ pubkey_field val ssl (EC_POINT_mul ssl e)) \<and>
    ecdh_keybuffer ecc' = sha512 (ECDH_secret ssl e point) \<and> ciphertext_offset ecc' = length (contents b') \<and>
    cipher_ctx ecc' = EVP_EncryptInit ssl (take key_length (ecdh_keybuffer ecc')) random_iv"
proof -
  obtain e where e: "BN_bin2bn bn random_key = Some e" using assms(1) unfolding bn_ok_def by blast
  define b2 where "b2 = (let b1 = ntb_buffer_set_length b (buf_length b + iv_length)
    in b1\<lparr>buf_data := write_at (buf_length b) (map Some random_iv) (buf_data b1)\<rparr>)"
  have b2: "buf_ok b2" "contents b2 = contents b @ map Some random_iv"
    using write_iv [OF assms(6,5)] by (simp_all add: b2_def Let_def)
  obtain b3 where b3: "encode_pubkey bn ssl (EC_POINT_mul ssl e) b2 = Ok b3" "buf_ok b3"
    "contents b3 = contents b2 @ map Some (pubkey_field val ssl (EC_POINT_mul ssl e))"
    using encode_pubkey_eq [OF assms(1,2) b2(1)] by blast
  have r: "read_bytes NTB_ECC_PRIVATE_KEY_SIZE random_key = Ok random_key" using assms(4) by simp
  show ?thesis
    using b3 b2(2) assms(3) length_contents [OF b3(2)]
    by (intro exI [of _ e])
      (simp add: ntb_ecc_encrypt_with_point_begin_def ntb_ecc_create_random_key_def ntb_ecc_create_key_def
        make_pub_key_in_point_def create_key_def r e ECDH_compute_key_def kdf_sha512_def
        b2_def Let_def)
qed

lemma decrypt_blocks_eq:
  assumes "cipher_ok ssl" "buf_ok b" "length key = key_length" "length iv = iv_length"
  shows "\<exists>b'. decrypt_blocks ssl key iv (encrypt_chunks ssl (EVP_EncryptInit ssl key iv) xs) b = Ok (b', True) \<and>
    contents b' = contents b @ map Some (concat xs)"
proof -
  define ct where "ct = encrypt_chunks ssl (EVP_EncryptInit ssl key iv) xs"
  obtain c out fin where d: "EVP_DecryptUpdate ssl (EVP_DecryptInit ssl key iv) ct = Some (c, out)"
    "EVP_DecryptFinal ssl c = Some fin" "out @ fin = concat xs"
    using assms unfolding cipher_ok_def ct_def by blast
  have s: "length out \<le> length ct + block_size" "length fin \<le> block_size"
    using assms(1) d unfolding cipher_ok_def by blast+
  define b1 where "b1 = ntb_buffer_ensure_size b (buf_length b + (length ct + block_size))"
  have b1: "buf_ok b1" "contents b1 = contents b" "buf_length b1 + length out \<le> buf_size b1"
    using assms(2) s(1) ensure_size_ge [of "buf_length b + (length ct + block_size)" b] by (auto simp: b1_def)
  obtain b2 where b2: "deposit b1 out = Ok b2" "buf_ok b2" "contents b2 = contents b1 @ map Some out"
    by (rule deposit_ok [OF b1(1,3)])
  define b3 where "b3 = ntb_buffer_ensure_size b2 (buf_length b2 + block_size)"
  have b3: "buf_ok b3" "contents b3 = contents b2" "buf_length b3 + length fin \<le> buf_size b3"
    using b2(2) s(2) ensure_size_ge [of "buf_length b2 + block_size" b2] by (auto simp: b3_def)
  obtain b4 where b4: "deposit b3 fin = Ok b4" "buf_ok b4" "contents b4 = contents b3 @ map Some fin"
    by (rule deposit_ok [OF b3(1,3)])
  have "decrypt_blocks ssl key iv ct b = Ok (b4, True)"
    using d b2(1) b4(1) by (simp add: decrypt_blocks_def Let_def b1_def [symmetric] b3_def [symmetric])
  moreover have "contents b4 = contents b @ map Some (out @ fin)"
    using b1(2) b2(3) b3(2) b4(3) by simp
  ultimately show ?thesis using d(3) by (auto simp: ct_def)
qed

lemma decrypt_encrypted:
  assumes "bn_ok bn val" "curve_ok bn val ssl" "cipher_ok ssl" "\<And>x. length (sha512 x) = 64"
    "private_key key = Some k" "length iv = iv_length" "buf_ok plain"
    "kb = sha512 (ECDH_secret ssl e (EC_POINT_mul ssl k))"
    "ct = encrypt_chunks ssl (EVP_EncryptInit ssl (take key_length kb) iv) xs"
    "bytes = encrypted val ssl iv (EC_POINT_mul ssl e) kb ct" "length bytes < 2 ^ 64"
  shows "\<exists>plain'. ntb_ecc_decrypt bn sha512 ssl key (bytes @ rest) (word_of_nat (length bytes)) plain = Ok (plain', True) \<and>
    contents plain' = contents plain @ map Some (concat xs)"
proof -
  define mac where "mac = HMAC_SHA256 ssl (drop 32 kb) ct"
  define pf where "pf = pubkey_field val ssl (EC_POINT_mul ssl e)"
  have mac: "length mac = 32" using assms(3) by (auto simp: cipher_ok_def mac_def SHA256_DIGEST_LENGTH_def)
  have iv: "length iv = 16" using assms(6) by (simp add: iv_length_def)
  have bytes: "bytes = iv @ pf @ ct @ mac" using assms(10) by (simp add: encrypted_def pf_def mac_def)
  define len where "len = (word_of_nat (length bytes) :: u64)"
  have len: "unat len = 16 + length pf + length ct + 32"
    using assms(11) iv mac by (simp add: len_def bytes unat_of_nat del: of_nat_add)
  define len1 where "len1 = len - 16"
  have len1: "unat len1 = length pf + length ct + 32"
    using unat_minus_of_nat [of 16 len] len by (simp add: len1_def)
  define len2 where "len2 = len1 - word_of_nat (length pf)"
  have len2: "unat len2 = length ct + 32"
    using unat_minus_of_nat [of "length pf" len1] len1 by (simp add: len2_def)
  have dpk: "decode_pub_key bn ssl (pf @ ct @ mac @ rest, len1) = Ok (EC_POINT_mul ssl e, ct @ mac @ rest, len2)"
    using decode_pubkey_field [OF assms(1,2), of "EC_POINT_mul ssl e" len1 "ct @ mac @ rest"] len1
    by (simp add: pf_def len2_def)
  have kb: "ECDH_compute_key sha512 ssl (EC_POINT_mul ssl e) key = Ok kb"
    using assms(2,4,5,8) by (simp add: ECDH_compute_key_def kdf_sha512_def curve_ok_def)
  have lkb: "length (take key_length kb) = key_length" using assms(4,8) by (simp add: key_length_def)
  obtain plain' where p: "decrypt_blocks ssl (take key_length kb) iv ct plain = Ok (plain', True)"
    "contents plain' = contents plain @ map Some (concat xs)"
    using decrypt_blocks_eq [OF assms(3,7) lkb assms(6)] assms(9) by blast
  have "\<not> len < 16" "\<not> len2 < 32" using len len2 by (simp_all add: word_less_nat_alt)
  then have "ntb_ecc_decrypt bn sha512 ssl key (bytes @ rest) len plain = Ok (plain', True)"
    using iv dpk kb mac p(1) len2
    by (simp add: ntb_ecc_decrypt_def iv_length_def bytes len1_def [symmetric] SHA256_DIGEST_LENGTH_def
        mac_def [symmetric] Let_def)
  then show ?thesis using p(2) by (simp add: len_def)
qed


text \<open>An instance of the parameter: multiplication modulo a power of two and a cipher that copies.\<close>

definition toy_openssl :: "(nat, 64 word, unit) openssl" where
  "toy_openssl = \<lparr>EC_POINT_mul = word_of_nat,
     EC_POINT_point2oct = (\<lambda>p. replicate 57 4 @ be_bytes 8 (unat p)),
     EC_POINT_oct2point = (\<lambda>oct. Some (word_of_nat (be_value (drop 57 oct)))),
     EC_POINT_get_affine = (\<lambda>p. (unat p, 0)), EC_POINT_set_affine = (\<lambda>x y. Some (word_of_nat x)),
     curve_name = 714, ECDH_secret = (\<lambda>a p. be_bytes 8 (unat (word_of_nat a * p))),
     EVP_EncryptInit = (\<lambda>key iv. ()), EVP_EncryptUpdate = Pair, EVP_EncryptFinal = (\<lambda>c. []),
     EVP_DecryptInit = (\<lambda>key iv. ()), EVP_DecryptUpdate = (\<lambda>c x. Some (c, x)), EVP_DecryptFinal = (\<lambda>c. Some []),
     HMAC_SHA256 = (\<lambda>key x. replicate 32 0)\<rparr>"

lemma toy_encrypt_chunks: "encrypt_chunks toy_openssl c xs = concat xs"
  by (induction xs arbitrary: c) (simp_all add: toy_openssl_def)

lemma toy_openssl_ok: "curve_ok nat_bignum (\<lambda>b. b) toy_openssl" "cipher_ok toy_openssl"
proof -
  have "unat (p :: 64 word) < 256 ^ 32" for p
  proof -
    have "unat p < 2 ^ 64" using unat_less_2p [of p] by simp
    also have "(2 :: nat) ^ 64 < 256 ^ 32" by simp
    finally show ?thesis .
  qed
  then show "curve_ok nat_bignum (\<lambda>b. b) toy_openssl"
    by (auto simp: curve_ok_def toy_openssl_def NTB_ECC_PUBLIC_KEY_SIZE_def mult.commute)
  show "cipher_ok toy_openssl"
    unfolding cipher_ok_def toy_encrypt_chunks by (simp add: toy_openssl_def SHA256_DIGEST_LENGTH_def)
qed


text \<open>
  Decryption trusts the length of the coordinates in a message. A message of 22 bytes, with the right
  curve and a first coordinate that claims to have 65535 bytes, makes it read beyond the end of the
  message, before anything is authenticated, with every key and whatever the output buffer holds.
\<close>

theorem decrypt_overread:
  "ntb_ecc_decrypt bn sha512 ssl key
     (replicate 16 0 @ be_bytes 2 (unat (curve_name ssl)) @ [0xff, 0xff, 0, 0]) 22 out = Fault"
proof -
  have "ntb_proto_get_16 (be_bytes 2 (unat (curve_name ssl)) @ [0xff, 0xff, 0, 0]) = Ok (curve_name ssl)"
    by (simp add: ntb_proto_get_16_def get_be_word)
  moreover have "ntb_proto_get_16 [0xff, 0xff, 0, 0] = Ok 0xffff"
    by (simp add: get_n_eq be_value_def)
  ultimately show ?thesis
    by (simp add: ntb_ecc_decrypt_def iv_length_def decode_pub_key_def decode_big_number_def read_bytes_def)
qed

text \<open>A point that is not on the curve ends the program: the assertion on the result of OpenSSL fails.\<close>

lemma decode_pub_key_off_curve:
  assumes "decode_big_number bn (drop 2 p, len - 2) = Ok (x, c)" "decode_big_number bn c = Ok (y, c')"
    "EC_POINT_set_affine ssl x y = None" "ntb_proto_get_16 p = Ok (curve_name ssl)" "\<not> len < 6"
  shows "decode_pub_key bn ssl (p, len) = Fault"
  using assms by (simp add: decode_pub_key_def)

end
