(* ===== verification/Ntb_Key_Value.thy ===== *)
theory Ntb_Key_Value
  imports Ntb_Buffer Ntb_Netaddress
begin

text \<open>
  The reader of files with sections and properties (\<open>ntb-key-value.c\<close>), which loads the keys and the
  outgoing messages: a state machine that takes one byte at a time and calls back for each header and
  each property. It is shown to be equivalent to reading the file line by line. The file is the list of
  its bytes; the callback is a function on the state of the caller, which may fault.
\<close>

section \<open>C strings in a buffer\<close>

text \<open>The string that starts at the data of a buffer; reading beyond the block or an indeterminate byte faults.\<close>

fun string_at :: "cell list \<Rightarrow> u8 list outcome" where
  "string_at [] = Fault"
| "string_at (None # cs) = Fault"
| "string_at (Some c # cs) = (if c = 0 then Ok [] else bind_outcome (string_at cs) (\<lambda>s. Ok (c # s)))"

lemma string_at_terminated: "string_at (map Some s @ Some 0 # rest) = Ok (takeWhile (\<lambda>c. c \<noteq> 0) s)"
  by (induction s) auto

section \<open>Operations\<close>

datatype ntb_key_value_event =
    EVENT_HEADER (event_line: nat) (event_value: "u8 list")
  | EVENT_PROPERTY (event_line: nat) (event_key: "u8 list") (event_value: "u8 list")

datatype ntb_key_value_state =
    STATE_HEADER_START
  | STATE_BAD_HEADER_START
  | STATE_READING_HEADER
  | STATE_END_HEADER_LINE
  | STATE_END_HEADER_LINE2
  | STATE_FIELD_START
  | STATE_READING_FIELD_NAME
  | STATE_WAITING_EQUALS
  | STATE_BAD_FIELD
  | STATE_WAITING_VALUE_START
  | STATE_READING_VALUE

record ntb_key_value_data =
  kv_state :: ntb_key_value_state
  key_buffer :: ntb_buffer
  value_buffer :: ntb_buffer
  line_num :: nat

type_synonym 'u key_value_func = "ntb_key_value_event \<Rightarrow> 'u \<Rightarrow> 'u outcome"

definition ensure_null_buffer :: "ntb_buffer \<Rightarrow> ntb_buffer" where
  "ensure_null_buffer b =
     (let b = ntb_buffer_ensure_size b (buf_length b + 1)
      in b\<lparr>buf_data := (buf_data b)[buf_length b := Some 0]\<rparr>)"

definition process_header ::
    "'u key_value_func \<Rightarrow> ntb_key_value_data \<Rightarrow> 'u \<Rightarrow> (ntb_key_value_data \<times> 'u) outcome" where
  "process_header func data u =
     (let data = data\<lparr>value_buffer := ensure_null_buffer (value_buffer data)\<rparr> in
      bind_outcome (string_at (buf_data (value_buffer data))) (\<lambda>value.
        bind_outcome (func (EVENT_HEADER (line_num data) value) u) (\<lambda>u. Ok (data, u))))"

text \<open>The loop that cuts the spaces off the end of the value.\<close>

fun trim_length :: "cell list \<Rightarrow> nat \<Rightarrow> nat" where
  "trim_length cells 0 = 0"
| "trim_length cells (Suc n) = (if cells ! n = Some 0x20 then trim_length cells n else Suc n)"

definition process_value ::
    "'u key_value_func \<Rightarrow> ntb_key_value_data \<Rightarrow> 'u \<Rightarrow> (ntb_key_value_data \<times> 'u) outcome" where
  "process_value func data u =
     (let value_buf = value_buffer data;
          data = data\<lparr>key_buffer := ensure_null_buffer (key_buffer data),
            value_buffer := ensure_null_buffer
              (value_buf\<lparr>buf_length := trim_length (buf_data value_buf) (buf_length value_buf)\<rparr>)\<rparr>
      in bind_outcome (string_at (buf_data (key_buffer data))) (\<lambda>key.
           bind_outcome (string_at (buf_data (value_buffer data))) (\<lambda>value.
             bind_outcome (func (EVENT_PROPERTY (line_num data) key value) u) (\<lambda>u. Ok (data, u)))))"

text \<open>\<open>ntb_buffer_set_length (buffer, 1); buffer->data[0] = ch\<close>.\<close>

definition set_first :: "ntb_buffer \<Rightarrow> u8 \<Rightarrow> ntb_buffer" where
  "set_first b ch = (let b = ntb_buffer_set_length b 1 in b\<lparr>buf_data := (buf_data b)[0 := Some ch]\<rparr>)"

abbreviation (input) ch_newline :: u8 where "ch_newline \<equiv> 0x0a"
abbreviation (input) ch_space :: u8 where "ch_space \<equiv> 0x20"
abbreviation (input) ch_open :: u8 where "ch_open \<equiv> 0x5b"
abbreviation (input) ch_close :: u8 where "ch_close \<equiv> 0x5d"
abbreviation (input) ch_equals :: u8 where "ch_equals \<equiv> 0x3d"

definition handle_byte ::
    "'u key_value_func \<Rightarrow> u8 \<Rightarrow> ntb_key_value_data \<Rightarrow> 'u \<Rightarrow> (ntb_key_value_data \<times> 'u) outcome" where
  "handle_byte func ch data u =
     (case kv_state data of
        STATE_HEADER_START \<Rightarrow>
          if ch = ch_open then
            Ok (data\<lparr>kv_state := STATE_READING_HEADER, value_buffer := (value_buffer data)\<lparr>buf_length := 0\<rparr>\<rparr>, u)
          else if ch \<noteq> ch_space \<and> ch \<noteq> ch_newline then Ok (data\<lparr>kv_state := STATE_BAD_HEADER_START\<rparr>, u)
          else Ok (data, u)
      | STATE_BAD_HEADER_START \<Rightarrow>
          if ch = ch_newline then Ok (data\<lparr>kv_state := STATE_HEADER_START\<rparr>, u) else Ok (data, u)
      | STATE_READING_HEADER \<Rightarrow>
          if ch = ch_newline then Ok (data\<lparr>kv_state := STATE_FIELD_START\<rparr>, u)
          else if ch = ch_close then
            bind_outcome (process_header func data u) (\<lambda>(data, u).
              Ok (data\<lparr>kv_state := STATE_END_HEADER_LINE\<rparr>, u))
          else Ok (data\<lparr>value_buffer := ntb_buffer_append_c (value_buffer data) ch\<rparr>, u)
      | STATE_END_HEADER_LINE \<Rightarrow>
          if ch = ch_newline then Ok (data\<lparr>kv_state := STATE_FIELD_START\<rparr>, u)
          else if ch \<noteq> ch_space then Ok (data\<lparr>kv_state := STATE_END_HEADER_LINE2\<rparr>, u)
          else Ok (data, u)
      | STATE_END_HEADER_LINE2 \<Rightarrow>
          if ch = ch_newline then Ok (data\<lparr>kv_state := STATE_FIELD_START\<rparr>, u) else Ok (data, u)
      | STATE_FIELD_START \<Rightarrow>
          if ch = ch_open then
            Ok (data\<lparr>kv_state := STATE_READING_HEADER, value_buffer := (value_buffer data)\<lparr>buf_length := 0\<rparr>\<rparr>, u)
          else if ch \<noteq> ch_space \<and> ch \<noteq> ch_newline then
            Ok (data\<lparr>key_buffer := set_first (key_buffer data) ch, kv_state := STATE_READING_FIELD_NAME\<rparr>, u)
          else Ok (data, u)
      | STATE_READING_FIELD_NAME \<Rightarrow>
          if ch = ch_space then Ok (data\<lparr>kv_state := STATE_WAITING_EQUALS\<rparr>, u)
          else if ch = ch_equals then Ok (data\<lparr>kv_state := STATE_WAITING_VALUE_START\<rparr>, u)
          else if ch = ch_newline then Ok (data\<lparr>kv_state := STATE_FIELD_START\<rparr>, u)
          else Ok (data\<lparr>key_buffer := ntb_buffer_append_c (key_buffer data) ch\<rparr>, u)
      | STATE_WAITING_EQUALS \<Rightarrow>
          if ch = ch_equals then Ok (data\<lparr>kv_state := STATE_WAITING_VALUE_START\<rparr>, u)
          else if ch = ch_newline then Ok (data\<lparr>kv_state := STATE_FIELD_START\<rparr>, u)
          else if ch \<noteq> ch_space then Ok (data\<lparr>kv_state := STATE_BAD_FIELD\<rparr>, u)
          else Ok (data, u)
      | STATE_WAITING_VALUE_START \<Rightarrow>
          if ch = ch_newline then
            bind_outcome (process_value func (data\<lparr>value_buffer := ntb_buffer_set_length (value_buffer data) 0\<rparr>) u)
              (\<lambda>(data, u). Ok (data\<lparr>kv_state := STATE_FIELD_START\<rparr>, u))
          else if ch \<noteq> ch_space then
            Ok (data\<lparr>value_buffer := set_first (value_buffer data) ch, kv_state := STATE_READING_VALUE\<rparr>, u)
          else Ok (data, u)
      | STATE_READING_VALUE \<Rightarrow>
          if ch = ch_newline then
            bind_outcome (process_value func data u) (\<lambda>(data, u). Ok (data\<lparr>kv_state := STATE_FIELD_START\<rparr>, u))
          else Ok (data\<lparr>value_buffer := ntb_buffer_append_c (value_buffer data) ch\<rparr>, u)
      | STATE_BAD_FIELD \<Rightarrow>
          if ch = ch_newline then Ok (data\<lparr>kv_state := STATE_FIELD_START\<rparr>, u) else Ok (data, u))"

text \<open>The loop over the bytes of the file.\<close>

fun load_loop ::
    "'u key_value_func \<Rightarrow> u8 list \<Rightarrow> ntb_key_value_data \<Rightarrow> 'u \<Rightarrow> (ntb_key_value_data \<times> 'u) outcome" where
  "load_loop func [] data u = Ok (data, u)"
| "load_loop func (ch # inp) data u =
     bind_outcome (handle_byte func ch data u) (\<lambda>(data, u).
       load_loop func inp (if ch = ch_newline then data\<lparr>line_num := line_num data + 1\<rparr> else data) u)"

definition ntb_key_value_load :: "u8 list \<Rightarrow> 'u key_value_func \<Rightarrow> 'u \<Rightarrow> 'u outcome" where
  "ntb_key_value_load inp func u =
     (let data = \<lparr>kv_state = STATE_HEADER_START, key_buffer = ntb_buffer_init,
                  value_buffer = ntb_buffer_init, line_num = 1\<rparr>
      in bind_outcome (load_loop func inp data u) (\<lambda>(data, u).
           bind_outcome (handle_byte func ch_newline data u) (\<lambda>(data, u). Ok u)))"

definition ntb_key_value_parse_bool_value :: "u8 list \<Rightarrow> bool option" where
  "ntb_key_value_parse_bool_value value =
     (if value = str ''true'' then Some True
      else if value = str ''false'' then Some False
      else None)"

text \<open>
  \<open>strtoll\<close> in base 10: the value, the rest of the string, and whether it set \<open>errno\<close>. Without a
  digit the rest is the whole string.
\<close>

definition strtoll :: "u8 list \<Rightarrow> int \<times> u8 list \<times> bool" where
  "strtoll s =
     (case strtoul_sign (dropWhile is_space s) of (neg, r) \<Rightarrow>
      let ds = takeWhile is_digit r;
          v = (if neg then - int (digits_value ds) else int (digits_value ds))
      in if ds = [] then (0, s, False)
         else if v > 2 ^ 63 - 1 then (2 ^ 63 - 1, dropWhile is_digit r, True)
         else if v < - (2 ^ 63) then (- (2 ^ 63), dropWhile is_digit r, True)
         else (v, dropWhile is_digit r, False))"

text \<open>The last part of the condition of the code, \<open>value < 0\<close>, compares the pointer and never holds.\<close>

definition ntb_key_value_parse_int_value :: "u8 list \<Rightarrow> int \<Rightarrow> int option" where
  "ntb_key_value_parse_int_value value limit =
     (case strtoll value of (int_value, tail, errno) \<Rightarrow>
      if errno \<or> tail = value \<or> tail \<noteq> [] then None
      else if int_value > limit then None
      else Some int_value)"

section \<open>The machine on lists\<close>

text \<open>The same machine with lists in place of buffers; it delivers the event of a byte, if there is one.\<close>

type_synonym kv_abs = "ntb_key_value_state \<times> u8 list \<times> u8 list"

definition rstrip :: "u8 list \<Rightarrow> u8 list" where
  "rstrip v = rev (dropWhile (\<lambda>c. c = ch_space) (rev v))"

definition c_text :: "u8 list \<Rightarrow> u8 list" where
  "c_text s = takeWhile (\<lambda>c. c \<noteq> 0) s"

definition abs_step :: "nat \<Rightarrow> u8 \<Rightarrow> kv_abs \<Rightarrow> kv_abs \<times> ntb_key_value_event option" where
  "abs_step line ch a =
     (case a of (st, k, v) \<Rightarrow>
      case st of
        STATE_HEADER_START \<Rightarrow>
          if ch = ch_open then ((STATE_READING_HEADER, k, []), None)
          else if ch \<noteq> ch_space \<and> ch \<noteq> ch_newline then ((STATE_BAD_HEADER_START, k, v), None)
          else (a, None)
      | STATE_BAD_HEADER_START \<Rightarrow>
          if ch = ch_newline then ((STATE_HEADER_START, k, v), None) else (a, None)
      | STATE_READING_HEADER \<Rightarrow>
          if ch = ch_newline then ((STATE_FIELD_START, k, v), None)
          else if ch = ch_close then ((STATE_END_HEADER_LINE, k, v), Some (EVENT_HEADER line (c_text v)))
          else ((st, k, v @ [ch]), None)
      | STATE_END_HEADER_LINE \<Rightarrow>
          if ch = ch_newline then ((STATE_FIELD_START, k, v), None)
          else if ch \<noteq> ch_space then ((STATE_END_HEADER_LINE2, k, v), None)
          else (a, None)
      | STATE_END_HEADER_LINE2 \<Rightarrow>
          if ch = ch_newline then ((STATE_FIELD_START, k, v), None) else (a, None)
      | STATE_FIELD_START \<Rightarrow>
          if ch = ch_open then ((STATE_READING_HEADER, k, []), None)
          else if ch \<noteq> ch_space \<and> ch \<noteq> ch_newline then ((STATE_READING_FIELD_NAME, [ch], v), None)
          else (a, None)
      | STATE_READING_FIELD_NAME \<Rightarrow>
          if ch = ch_space then ((STATE_WAITING_EQUALS, k, v), None)
          else if ch = ch_equals then ((STATE_WAITING_VALUE_START, k, v), None)
          else if ch = ch_newline then ((STATE_FIELD_START, k, v), None)
          else ((st, k @ [ch], v), None)
      | STATE_WAITING_EQUALS \<Rightarrow>
          if ch = ch_equals then ((STATE_WAITING_VALUE_START, k, v), None)
          else if ch = ch_newline then ((STATE_FIELD_START, k, v), None)
          else if ch \<noteq> ch_space then ((STATE_BAD_FIELD, k, v), None)
          else (a, None)
      | STATE_WAITING_VALUE_START \<Rightarrow>
          if ch = ch_newline then ((STATE_FIELD_START, k, []), Some (EVENT_PROPERTY line (c_text k) []))
          else if ch \<noteq> ch_space then ((STATE_READING_VALUE, k, [ch]), None)
          else (a, None)
      | STATE_READING_VALUE \<Rightarrow>
          if ch = ch_newline
          then ((STATE_FIELD_START, k, rstrip v), Some (EVENT_PROPERTY line (c_text k) (c_text (rstrip v))))
          else ((st, k, v @ [ch]), None)
      | STATE_BAD_FIELD \<Rightarrow>
          if ch = ch_newline then ((STATE_FIELD_START, k, v), None) else (a, None))"

definition kv_repr :: "ntb_key_value_data \<Rightarrow> kv_abs \<Rightarrow> bool" where
  "kv_repr data a \<longleftrightarrow>
     (case a of (st, k, v) \<Rightarrow>
      kv_state data = st \<and> buf_ok (key_buffer data) \<and> buf_ok (value_buffer data) \<and>
      contents (key_buffer data) = map Some k \<and> contents (value_buffer data) = map Some v)"

definition call_event ::
    "'u key_value_func \<Rightarrow> ntb_key_value_event option \<Rightarrow> 'u \<Rightarrow> 'u outcome" where
  "call_event func ev u = (case ev of None \<Rightarrow> Ok u | Some e \<Rightarrow> func e u)"

lemma contents_Suc_write:
  assumes "buf_ok b" "contents b = map Some s"
  shows "string_at (buf_data (ensure_null_buffer b)) = Ok (c_text s)"
    "buf_ok (ensure_null_buffer b)" "contents (ensure_null_buffer b) = map Some s"
proof -
  define b1 where "b1 = ntb_buffer_ensure_size b (buf_length b + 1)"
  have b1: "buf_ok b1" "contents b1 = map Some s" "buf_length b1 = buf_length b" "buf_length b1 < buf_size b1"
    using assms ensure_size_ge [of "buf_length b + 1" b] by (auto simp: b1_def)
  have e: "ensure_null_buffer b = b1\<lparr>buf_data := (buf_data b1)[buf_length b1 := Some 0]\<rparr>"
    by (simp add: ensure_null_buffer_def b1_def Let_def)
  have l: "length s = buf_length b1" using length_contents [OF b1(1)] b1(2) by simp
  have d: "buf_data (ensure_null_buffer b) = map Some s @ Some 0 # drop (Suc (buf_length b1)) (buf_data b1)"
    using b1 unfolding e by (simp add: upd_conv_take_nth_drop contents_def buf_ok_def)
  show "string_at (buf_data (ensure_null_buffer b)) = Ok (c_text s)"
    unfolding d by (simp add: string_at_terminated c_text_def)
  show "buf_ok (ensure_null_buffer b)" using b1(1) by (simp add: e buf_ok_def)
  show "contents (ensure_null_buffer b) = map Some s"
    using b1(2) by (simp add: e contents_def)
qed

lemma set_first_eq:
  assumes "buf_ok b"
  shows "buf_ok (set_first b ch)" "contents (set_first b ch) = [Some ch]"
proof -
  define b1 where "b1 = ntb_buffer_ensure_size b 1"
  have b1: "buf_ok b1" "1 \<le> buf_size b1"
    using assms ensure_size_ge [of 1 b] by (auto simp: b1_def)
  have e: "set_first b ch = b1\<lparr>buf_length := 1, buf_data := (buf_data b1)[0 := Some ch]\<rparr>"
    by (simp add: set_first_def ntb_buffer_set_length_def b1_def Let_def)
  show "buf_ok (set_first b ch)" using b1 by (simp add: e buf_ok_def)
  show "contents (set_first b ch) = [Some ch]"
    using b1 by (cases "buf_data b1") (simp_all add: e contents_def buf_ok_def)
qed

lemma shorten_contents:
  "buf_ok b \<Longrightarrow> n \<le> buf_length b \<Longrightarrow> buf_ok (b\<lparr>buf_length := n\<rparr>)"
  "n \<le> buf_length b \<Longrightarrow> contents (b\<lparr>buf_length := n\<rparr>) = take n (contents b)"
  by (auto simp: buf_ok_def contents_def min_def)

lemma set_length_0:
  "buf_ok b \<Longrightarrow> buf_ok (ntb_buffer_set_length b 0)" "contents (ntb_buffer_set_length b 0) = []"
  using buf_ok_ensure_size [of b 0]
  by (auto simp: ntb_buffer_set_length_def buf_ok_def contents_def)

lemma rstrip_snoc: "rstrip (v @ [c]) = (if c = ch_space then rstrip v else v @ [c])"
  by (simp add: rstrip_def)

lemma rstrip_Nil [simp]: "rstrip [] = []"
  by (simp add: rstrip_def)

lemma trim_length_le: "trim_length cells n \<le> n"
  by (induction n) auto

lemma take_trim_length:
  assumes "take (length v) cells = map Some v" "length v \<le> length cells"
  shows "take (trim_length cells (length v)) cells = map Some (rstrip v)"
  using assms
proof (induction v rule: rev_induct)
  case Nil
  then show ?case by simp
next
  case (snoc c v)
  have t: "take (length v) cells = map Some v" "cells ! length v = Some c"
    using snoc.prems by (auto simp: take_Suc_conv_app_nth)
  then show ?case using snoc by (simp add: rstrip_snoc)
qed

lemma trimmed_buffer:
  assumes "buf_ok b" "contents b = map Some v"
  defines "b' \<equiv> b\<lparr>buf_length := trim_length (buf_data b) (buf_length b)\<rparr>"
  shows "buf_ok b'" "contents b' = map Some (rstrip v)"
proof -
  have l: "length v = buf_length b" using length_contents [OF assms(1)] assms(2) by simp
  show "buf_ok b'" unfolding b'_def
    using shorten_contents(1) [OF assms(1)] trim_length_le by blast
  have "take (length v) (buf_data b) = map Some v" "length v \<le> length (buf_data b)"
    using assms(1,2) l by (auto simp: contents_def buf_ok_def)
  from take_trim_length [OF this] l show "contents b' = map Some (rstrip v)"
    by (simp add: b'_def contents_def)
qed

lemma process_header_eq:
  assumes "kv_repr data (st, k, v)"
  shows "\<exists>data'. process_header func data u =
      bind_outcome (func (EVENT_HEADER (line_num data) (c_text v)) u) (\<lambda>u. Ok (data', u)) \<and>
    kv_repr data' (st, k, v) \<and> line_num data' = line_num data"
  using assms contents_Suc_write [of "value_buffer data" v]
  by (auto simp: process_header_def kv_repr_def Let_def)

lemma process_value_eq:
  assumes "kv_repr data (st, k, v)"
  shows "\<exists>data'. process_value func data u =
      bind_outcome (func (EVENT_PROPERTY (line_num data) (c_text k) (c_text (rstrip v))) u) (\<lambda>u. Ok (data', u)) \<and>
    kv_repr data' (st, k, rstrip v) \<and> line_num data' = line_num data"
proof -
  have b: "buf_ok (key_buffer data)" "contents (key_buffer data) = map Some k"
    "buf_ok (value_buffer data)" "contents (value_buffer data) = map Some v"
    using assms by (auto simp: kv_repr_def)
  let ?v = "(value_buffer data)\<lparr>buf_length := trim_length (buf_data (value_buffer data)) (buf_length (value_buffer data))\<rparr>"
  note t = trimmed_buffer [OF b(3,4)]
  show ?thesis
    using assms contents_Suc_write [OF b(1,2)] contents_Suc_write [OF t]
    by (auto simp: process_value_def kv_repr_def Let_def)
qed

text \<open>The bytes that complete an event.\<close>

definition completes :: "ntb_key_value_state \<Rightarrow> u8 \<Rightarrow> bool" where
  "completes st ch \<longleftrightarrow> st = STATE_READING_HEADER \<and> ch = ch_close \<or>
     (st = STATE_WAITING_VALUE_START \<or> st = STATE_READING_VALUE) \<and> ch = ch_newline"

lemma handle_byte_quiet:
  assumes "kv_repr data (st, k, v)" "\<not> completes st ch"
  shows "\<exists>data'. handle_byte func ch data u = Ok (data', u) \<and>
    kv_repr data' (fst (abs_step (line_num data) ch (st, k, v))) \<and> line_num data' = line_num data \<and>
    snd (abs_step (line_num data) ch (st, k, v)) = None"
proof -
  have r: "kv_state data = st" "buf_ok (key_buffer data)" "buf_ok (value_buffer data)"
    "contents (key_buffer data) = map Some k" "contents (value_buffer data) = map Some v"
    using assms(1) by (auto simp: kv_repr_def)
  note ops = set_first_eq [OF r(2)] set_first_eq [OF r(3)] shorten_contents [where b = "value_buffer data" and n = 0]
    append_c_eq [OF r(2)] append_c_eq [OF r(3)]
  show ?thesis
    using assms(2) r ops
    by (cases st) (auto simp: handle_byte_def abs_step_def kv_repr_def completes_def)
qed

lemma handle_byte_event:
  assumes "kv_repr data (st, k, v)" "completes st ch"
  shows "\<exists>data' e. handle_byte func ch data u = bind_outcome (func e u) (\<lambda>u. Ok (data', u)) \<and>
    kv_repr data' (fst (abs_step (line_num data) ch (st, k, v))) \<and> line_num data' = line_num data \<and>
    snd (abs_step (line_num data) ch (st, k, v)) = Some e"
proof -
  have st: "kv_state data = st" using assms(1) by (simp add: kv_repr_def)
  have finish: "bind_outcome (bind_outcome m (\<lambda>u. Ok (d, u))) (\<lambda>(data, u). Ok (f data, u)) =
      bind_outcome m (\<lambda>u. Ok (f d, u))"
    for m :: "'a outcome" and d and f :: "ntb_key_value_data \<Rightarrow> ntb_key_value_data"
    by (cases m) auto
  consider "st = STATE_READING_HEADER" "ch = ch_close" | "st = STATE_WAITING_VALUE_START" "ch = ch_newline"
    | "st = STATE_READING_VALUE" "ch = ch_newline"
    using assms(2) by (auto simp: completes_def)
  then show ?thesis
  proof cases
    case 1
    obtain d where d: "process_header func data u =
        bind_outcome (func (EVENT_HEADER (line_num data) (c_text v)) u) (\<lambda>u. Ok (d, u))"
      "kv_repr d (st, k, v)" "line_num d = line_num data"
      using process_header_eq [OF assms(1), of func u] by blast
    have h: "handle_byte func ch data u = bind_outcome (process_header func data u) (\<lambda>(data, u).
        Ok (data\<lparr>kv_state := STATE_END_HEADER_LINE\<rparr>, u))"
      using 1 st by (simp add: handle_byte_def)
    have a: "abs_step (line_num data) ch (st, k, v) =
        ((STATE_END_HEADER_LINE, k, v), Some (EVENT_HEADER (line_num data) (c_text v)))"
      using 1 by (simp add: abs_step_def)
    show ?thesis unfolding h a using d finish [of "func (EVENT_HEADER (line_num data) (c_text v)) u" d]
      by (auto simp: kv_repr_def)
  next
    case 2
    have "kv_repr (data\<lparr>value_buffer := ntb_buffer_set_length (value_buffer data) 0\<rparr>) (st, k, [])"
      using assms(1) set_length_0 by (simp add: kv_repr_def)
    from process_value_eq [OF this, of func u] obtain d where d:
      "process_value func (data\<lparr>value_buffer := ntb_buffer_set_length (value_buffer data) 0\<rparr>) u =
        bind_outcome (func (EVENT_PROPERTY (line_num data) (c_text k) []) u) (\<lambda>u. Ok (d, u))"
      "kv_repr d (st, k, [])" "line_num d = line_num data" by (auto simp: c_text_def)
    have h: "handle_byte func ch data u =
        bind_outcome (process_value func (data\<lparr>value_buffer := ntb_buffer_set_length (value_buffer data) 0\<rparr>) u)
          (\<lambda>(data, u). Ok (data\<lparr>kv_state := STATE_FIELD_START\<rparr>, u))"
      using 2 st by (simp add: handle_byte_def)
    have a: "abs_step (line_num data) ch (st, k, v) =
        ((STATE_FIELD_START, k, []), Some (EVENT_PROPERTY (line_num data) (c_text k) []))"
      using 2 by (simp add: abs_step_def)
    show ?thesis unfolding h a using d finish [of "func (EVENT_PROPERTY (line_num data) (c_text k) []) u" d]
      by (auto simp: kv_repr_def)
  next
    case 3
    let ?e = "EVENT_PROPERTY (line_num data) (c_text k) (c_text (rstrip v))"
    obtain d where d: "process_value func data u = bind_outcome (func ?e u) (\<lambda>u. Ok (d, u))"
      "kv_repr d (st, k, rstrip v)" "line_num d = line_num data"
      using process_value_eq [OF assms(1), of func u] by blast
    have h: "handle_byte func ch data u =
        bind_outcome (process_value func data u) (\<lambda>(data, u). Ok (data\<lparr>kv_state := STATE_FIELD_START\<rparr>, u))"
      using 3 st by (simp add: handle_byte_def)
    have a: "abs_step (line_num data) ch (st, k, v) = ((STATE_FIELD_START, k, rstrip v), Some ?e)"
      using 3 by (simp add: abs_step_def)
    show ?thesis unfolding h a using d finish [of "func ?e u" d]
      by (auto simp: kv_repr_def)
  qed
qed

lemma handle_byte_refines:
  assumes "kv_repr data a" "abs_step (line_num data) ch a = (a', ev)"
  shows "\<exists>data'. handle_byte func ch data u = bind_outcome (call_event func ev u) (\<lambda>u. Ok (data', u)) \<and>
    kv_repr data' a' \<and> line_num data' = line_num data"
proof -
  obtain st k v where a: "a = (st, k, v)" by (cases a)
  show ?thesis
  proof (cases "completes st ch")
    case True
    from handle_byte_event [OF assms(1) [unfolded a] True, of func u] assms(2) a show ?thesis
      by (auto simp: call_event_def)
  next
    case False
    from handle_byte_quiet [OF assms(1) [unfolded a] False, of func u] assms(2) a show ?thesis
      by (auto simp: call_event_def)
  qed
qed

text \<open>The run of the machine on a whole input, with the events in order.\<close>

fun abs_run :: "nat \<Rightarrow> u8 list \<Rightarrow> kv_abs \<Rightarrow> ntb_key_value_event list" where
  "abs_run line [] a = []"
| "abs_run line (ch # inp) a =
     (case abs_step line ch a of (a', ev) \<Rightarrow>
        (case ev of None \<Rightarrow> [] | Some e \<Rightarrow> [e]) @
        abs_run (if ch = ch_newline then line + 1 else line) inp a')"

fun call_events :: "'u key_value_func \<Rightarrow> ntb_key_value_event list \<Rightarrow> 'u \<Rightarrow> 'u outcome" where
  "call_events func [] u = Ok u"
| "call_events func (e # es) u = bind_outcome (func e u) (call_events func es)"

lemma call_events_append:
  "call_events func (es @ es') u = bind_outcome (call_events func es u) (call_events func es')"
proof (induction es arbitrary: u)
  case (Cons e es)
  then show ?case by (cases "func e u") simp_all
qed simp

lemma load_loop_run:
  assumes "kv_repr data a"
  shows "bind_outcome (load_loop func inp data u) (\<lambda>(data, u).
      bind_outcome (handle_byte func ch_newline data u) (\<lambda>(data, u). Ok u)) =
    call_events func (abs_run (line_num data) (inp @ [ch_newline]) a) u"
  using assms
proof (induction inp arbitrary: data a u)
  case Nil
  obtain a' ev where s: "abs_step (line_num data) ch_newline a = (a', ev)" by fastforce
  from handle_byte_refines [OF Nil s, of func u] obtain d where
    "handle_byte func ch_newline data u = bind_outcome (call_event func ev u) (\<lambda>u. Ok (d, u))" by blast
  then show ?case
    by (cases ev; cases "func (the ev) u") (simp_all add: s call_event_def)
next
  case (Cons ch inp)
  obtain a' ev where s: "abs_step (line_num data) ch a = (a', ev)" by fastforce
  from handle_byte_refines [OF Cons.prems s, of func u] obtain d where
    d: "handle_byte func ch data u = bind_outcome (call_event func ev u) (\<lambda>u. Ok (d, u))"
    "kv_repr d a'" "line_num d = line_num data" by blast
  let ?d = "if ch = ch_newline then d\<lparr>line_num := line_num d + 1\<rparr> else d"
  have r: "kv_repr ?d a'" "line_num ?d = (if ch = ch_newline then line_num data + 1 else line_num data)"
    using d(2,3) by (simp_all add: kv_repr_def)
  show ?case
    using Cons.IH [OF r(1)] r(2)
    by (cases ev) (simp_all add: s d(1) call_event_def bind_outcome_assoc call_events_append)
qed

lemma load_eq_run:
  "ntb_key_value_load inp func u =
     call_events func (abs_run 1 (inp @ [ch_newline]) (STATE_HEADER_START, [], [])) u"
  using load_loop_run [of "\<lparr>kv_state = STATE_HEADER_START, key_buffer = ntb_buffer_init,
      value_buffer = ntb_buffer_init, line_num = 1\<rparr>" "(STATE_HEADER_START, [], [])" func inp u]
  by (simp add: ntb_key_value_load_def kv_repr_def)

section \<open>Reading line by line\<close>

definition lstrip :: "u8 list \<Rightarrow> u8 list" where
  "lstrip l = dropWhile (\<lambda>c. c = ch_space) l"

text \<open>The lines of a file, without the newlines; what follows the last newline is a line too.\<close>

function lines_of :: "u8 list \<Rightarrow> u8 list list" where
  "lines_of xs =
     (case dropWhile (\<lambda>c. c \<noteq> ch_newline) xs of
        [] \<Rightarrow> [xs]
      | _ # rest \<Rightarrow> takeWhile (\<lambda>c. c \<noteq> ch_newline) xs # lines_of rest)"
  by pat_completeness auto
termination
proof (relation "measure length")
  fix xs :: "u8 list" and x rest
  assume "dropWhile (\<lambda>c. c \<noteq> ch_newline) xs = x # rest"
  then show "(rest, xs) \<in> measure length"
    using length_dropWhile_le [of "\<lambda>c. c \<noteq> ch_newline" xs] by simp
qed simp

declare lines_of.simps [simp del]

text \<open>The part of a property line from the equals sign on.\<close>

definition value_events :: "nat \<Rightarrow> u8 list \<Rightarrow> u8 list \<Rightarrow> ntb_key_value_event list" where
  "value_events n name rest =
     (case lstrip rest of
        [] \<Rightarrow> []
      | c # value \<Rightarrow>
          if c = ch_equals then [EVENT_PROPERTY n (c_text name) (c_text (rstrip (lstrip value)))] else [])"

definition in_name :: "u8 \<Rightarrow> bool" where
  "in_name c \<longleftrightarrow> c \<noteq> ch_space \<and> c \<noteq> ch_equals"

text \<open>The part of a header line behind the bracket, with what has been read of the header before.\<close>

definition header_events :: "nat \<Rightarrow> u8 list \<Rightarrow> u8 list \<Rightarrow> ntb_key_value_event list" where
  "header_events n v l =
     (case memchr l ch_close of None \<Rightarrow> [] | Some k \<Rightarrow> [EVENT_HEADER n (c_text (v @ take k l))])"

text \<open>Whether a section has begun, and the events of the line.\<close>

definition line_events :: "nat \<Rightarrow> bool \<Rightarrow> u8 list \<Rightarrow> bool \<times> ntb_key_value_event list" where
  "line_events n started line =
     (case lstrip line of
        [] \<Rightarrow> (started, [])
      | c # l \<Rightarrow>
          if c = ch_open then
            (True, header_events n [] l)
          else if \<not> started then (False, [])
          else (True, value_events n (c # takeWhile in_name l) (dropWhile in_name l)))"

fun file_events :: "nat \<Rightarrow> bool \<Rightarrow> u8 list list \<Rightarrow> ntb_key_value_event list" where
  "file_events n started [] = []"
| "file_events n started (l # ls) =
     (case line_events n started l of (started', es) \<Rightarrow> es @ file_events (n + 1) started' ls)"

lemma run_skip:
  assumes "ch_newline \<notin> set l"
  shows "abs_run n (l @ ch_newline # rest) (STATE_BAD_HEADER_START, k, v) =
      abs_run (n + 1) rest (STATE_HEADER_START, k, v)"
    "abs_run n (l @ ch_newline # rest) (STATE_END_HEADER_LINE2, k, v) = abs_run (n + 1) rest (STATE_FIELD_START, k, v)"
    "abs_run n (l @ ch_newline # rest) (STATE_BAD_FIELD, k, v) = abs_run (n + 1) rest (STATE_FIELD_START, k, v)"
  using assms by (induction l) (auto simp: abs_step_def)

lemma run_end_header:
  assumes "ch_newline \<notin> set l"
  shows "abs_run n (l @ ch_newline # rest) (STATE_END_HEADER_LINE, k, v) = abs_run (n + 1) rest (STATE_FIELD_START, k, v)"
  using assms by (induction l) (auto simp: abs_step_def run_skip)

lemma run_header:
  assumes "ch_newline \<notin> set l"
  shows "\<exists>v'. abs_run n (l @ ch_newline # rest) (STATE_READING_HEADER, k, v) =
    header_events n v l @ abs_run (n + 1) rest (STATE_FIELD_START, k, v')"
  using assms
proof (induction l arbitrary: v)
  case Nil
  then show ?case by (auto simp: abs_step_def header_events_def)
next
  case (Cons c l)
  show ?case
  proof (cases "c = ch_close")
    case True
    then show ?thesis using Cons.prems run_end_header by (auto simp: abs_step_def header_events_def)
  next
    case False
    then show ?thesis
      using Cons.prems Cons.IH [of "v @ [c]"] by (auto simp: abs_step_def header_events_def split: option.splits)
  qed
qed

lemma run_value:
  assumes "ch_newline \<notin> set l"
  shows "\<exists>v'. abs_run n (l @ ch_newline # rest) (STATE_READING_VALUE, k, v) =
    EVENT_PROPERTY n (c_text k) (c_text (rstrip (v @ l))) # abs_run (n + 1) rest (STATE_FIELD_START, k, v')"
  using assms
proof (induction l arbitrary: v)
  case (Cons c l)
  then show ?case using Cons.IH [of "v @ [c]"] by (auto simp: abs_step_def)
qed (auto simp: abs_step_def)

lemma run_value_start:
  assumes "ch_newline \<notin> set l"
  shows "\<exists>v'. abs_run n (l @ ch_newline # rest) (STATE_WAITING_VALUE_START, k, v) =
    EVENT_PROPERTY n (c_text k) (c_text (rstrip (lstrip l))) # abs_run (n + 1) rest (STATE_FIELD_START, k, v')"
  using assms
proof (induction l)
  case Nil
  then show ?case by (auto simp: abs_step_def lstrip_def c_text_def)
next
  case (Cons c l)
  then show ?case using run_value [of l n rest k "[c]"] by (auto simp: abs_step_def lstrip_def)
qed

lemma run_equals:
  assumes "ch_newline \<notin> set l"
  shows "\<exists>v'. abs_run n (l @ ch_newline # rest) (STATE_WAITING_EQUALS, k, v) =
    value_events n k l @ abs_run (n + 1) rest (STATE_FIELD_START, k, v')"
  using assms
proof (induction l)
  case Nil
  then show ?case by (auto simp: abs_step_def lstrip_def value_events_def)
next
  case (Cons c l)
  then show ?case
    using run_value_start [of l n rest k v] run_skip(3) [of l n rest k v]
    by (auto simp: abs_step_def lstrip_def value_events_def)
qed

lemma run_name:
  assumes "ch_newline \<notin> set l"
  shows "\<exists>k' v'. abs_run n (l @ ch_newline # rest) (STATE_READING_FIELD_NAME, k, v) =
    value_events n (k @ takeWhile in_name l) (dropWhile in_name l) @ abs_run (n + 1) rest (STATE_FIELD_START, k', v')"
  using assms
proof (induction l arbitrary: k)
  case Nil
  then show ?case by (auto simp: abs_step_def lstrip_def value_events_def)
next
  case (Cons c l)
  consider "c = ch_space" | "c = ch_equals" | "in_name c" by (auto simp: in_name_def)
  then show ?case
  proof cases
    case 1
    then show ?thesis
      using run_equals [of l n rest k v] Cons.prems
      by (auto simp: abs_step_def in_name_def value_events_def lstrip_def)
  next
    case 2
    then show ?thesis
      using run_value_start [of l n rest k v] Cons.prems
      by (auto simp: abs_step_def in_name_def value_events_def lstrip_def)
  next
    case 3
    then show ?thesis
      using Cons.IH [of "k @ [c]"] Cons.prems by (auto simp: abs_step_def in_name_def)
  qed
qed

definition start_state :: "bool \<Rightarrow> ntb_key_value_state" where
  "start_state started = (if started then STATE_FIELD_START else STATE_HEADER_START)"

lemma run_line:
  assumes "ch_newline \<notin> set l"
  shows "\<exists>k' v'. abs_run n (l @ ch_newline # rest) (start_state started, k, v) =
    snd (line_events n started l) @ abs_run (n + 1) rest (start_state (fst (line_events n started l)), k', v')"
  using assms
proof (induction l)
  case Nil
  then show ?case by (auto simp: abs_step_def start_state_def line_events_def lstrip_def)
next
  case (Cons c l)
  then show ?case
    using run_header [of l n rest k "[]"] run_skip(1) [of l n rest k v] run_name [of l n rest "[c]" v]
    by (cases started)
      (auto simp: abs_step_def start_state_def line_events_def lstrip_def)
qed

lemma run_lines:
  "abs_run n (inp @ [ch_newline]) (start_state started, k, v) = file_events n started (lines_of inp)"
proof (induction inp arbitrary: n started k v rule: lines_of.induct)
  case (1 inp)
  show ?case
  proof (cases "dropWhile (\<lambda>c. c \<noteq> ch_newline) inp")
    case Nil
    then have "ch_newline \<notin> set inp" by auto
    moreover have "lines_of inp = [inp]" by (simp only: lines_of.simps [of inp] Nil list.case)
    ultimately show ?thesis
      using run_line [of inp n "[]" started k v] by (auto split: prod.splits)
  next
    case (Cons c rest)
    let ?l = "takeWhile (\<lambda>c. c \<noteq> ch_newline) inp"
    have c: "c = ch_newline" using hd_dropWhile [of "\<lambda>c. c \<noteq> ch_newline" inp] Cons by auto
    have s: "inp = ?l @ ch_newline # rest"
      using takeWhile_dropWhile_id [of "\<lambda>c. c \<noteq> ch_newline" inp] Cons c by simp
    have "ch_newline \<notin> set ?l" by (auto dest: set_takeWhileD)
    from run_line [OF this, of n "rest @ [ch_newline]" started k v] obtain k' v' where
      "abs_run n (inp @ [ch_newline]) (start_state started, k, v) = snd (line_events n started ?l) @
       abs_run (n + 1) (rest @ [ch_newline]) (start_state (fst (line_events n started ?l)), k', v')"
      by (subst (asm) append_Cons [symmetric], subst (asm) append_assoc [symmetric], subst (asm) s [symmetric]) blast
    then show ?thesis
      using 1 [OF Cons] Cons by (subst lines_of.simps) (simp split: prod.splits)
  qed
qed

lemma load_by_lines:
  "ntb_key_value_load inp func u = call_events func (file_events 1 False (lines_of inp)) u"
  using load_eq_run [of inp func u] run_lines [of 1 inp False "[]" "[]"]
  by (simp add: start_state_def)

text \<open>
  C32: The byte-wise state machine that loads keys and outgoing messages does exactly what a reader does
  that takes the file apart into lines first: it calls back for each line of the form \<open>[\<dots>]\<close> and, once
  such a line has begun a section, for each line of the form \<open>name = value\<close>, with the surrounding
  spaces removed, in the order of the file and with the right line numbers, it skips every other line,
  and it never reads an indeterminate byte.
\<close>

theorem key_value_load_by_lines:
  "ntb_key_value_load inp func u = call_events func (file_events 1 False (lines_of inp)) u"
  by (rule load_by_lines)

end
