(* ===== verification/Ntb_Key.thy ===== *)
theory Ntb_Key
  imports Ntb_Ecc Ntb_Key_Value
begin

text \<open>
  Keys (\<open>ntb-key.c\<close>): an address with its signing and encryption keys and the parameters for sending
  to it. A parameter of \<open>ntb_key_new\<close> is present exactly when its flag is set. The reference count is
  left out.

  The digest in \<open>generate_ripe\<close> is written to a local array that is declared with the size of a SHA-1
  digest. How many bytes from the start of the array on may be overwritten without harm is the
  argument \<open>room\<close>: the declaration promises \<open>SHA_DIGEST_LENGTH\<close>.
\<close>

record ('b, 'p) ntb_key =
  key_address :: ntb_address
  key_tag :: "u8 list"
  tag_private_key :: "u8 list"
  key_label :: "u8 list"
  nonce_trials_per_byte :: int
  payload_length_extra_bytes :: int
  last_pubkey_send_time :: int
  signing_key :: "('b, 'p) ec_key"
  encryption_key :: "('b, 'p) ec_key"
  key_enabled :: bool
  key_decoy :: bool

record ntb_key_params =
  param_label :: "cell list option"
  param_version :: "u64 option"
  param_stream :: "u64 option"
  param_private_keys :: "(u8 list \<times> u8 list) option"
  param_public_keys :: "(u8 list \<times> u8 list) option"
  param_pow_difficulty :: "(int \<times> int) option"
  param_ripe :: "u8 list option"
  param_last_pubkey_send_time :: "int option"
  param_enabled :: "bool option"
  param_decoy :: "bool option"

definition NTB_PROTO_MIN_NONCE_TRIALS_PER_BYTE :: int where
  "NTB_PROTO_MIN_NONCE_TRIALS_PER_BYTE = 320"

definition NTB_PROTO_MIN_EXTRA_BYTES :: int where
  "NTB_PROTO_MIN_EXTRA_BYTES = 14000"

record ('b, 'p, 'c) crypto =
  crypto_bn :: "'b bignum"
  crypto_ssl :: "('b, 'p, 'c) openssl"
  crypto_sha512 :: "u8 list \<Rightarrow> u8 list"
  crypto_sha256 :: "u8 list \<Rightarrow> u8 list"
  crypto_ripemd160 :: "u8 list \<Rightarrow> u8 list"

definition generate_ripe ::
    "('b, 'p, 'c) crypto \<Rightarrow> nat \<Rightarrow> ('b, 'p) ec_key \<Rightarrow> ('b, 'p) ec_key \<Rightarrow> u8 list outcome" where
  "generate_ripe cr room sign enc =
     bind_outcome (ntb_ecc_get_pub_key (crypto_ssl cr) sign) (\<lambda>public_signing.
       bind_outcome (ntb_ecc_get_pub_key (crypto_ssl cr) enc) (\<lambda>public_encryption.
         let sha_hash = crypto_sha512 cr (public_signing @ public_encryption) in
         if length sha_hash > room then Fault else Ok (crypto_ripemd160 cr sha_hash)))"

text \<open>The two keys from the private keys, the public keys, or both.\<close>

definition make_keys ::
    "('b, 'p, 'c) crypto \<Rightarrow> ('p, 'c) ntb_ecc \<Rightarrow> (u8 list \<times> u8 list) option \<Rightarrow> (u8 list \<times> u8 list) option \<Rightarrow>
     (('p, 'c) ntb_ecc \<times> ('b, 'p) ec_key \<times> ('b, 'p) ec_key) outcome" where
  "make_keys cr ecc privs pubs =
     (case pubs of
        Some (pub_sign, pub_enc) \<Rightarrow>
          bind_outcome (ntb_ecc_create_key_with_public (crypto_bn cr) (crypto_ssl cr) ecc (map_option fst privs) pub_sign)
            (\<lambda>(ecc, sign).
               bind_outcome (ntb_ecc_create_key_with_public (crypto_bn cr) (crypto_ssl cr) ecc (map_option snd privs) pub_enc)
                 (\<lambda>(ecc, enc). Ok (ecc, sign, enc)))
      | None \<Rightarrow>
          (case privs of
             None \<Rightarrow> Fault
           | Some (priv_sign, priv_enc) \<Rightarrow>
               bind_outcome (ntb_ecc_create_key (crypto_bn cr) (crypto_ssl cr) ecc priv_sign) (\<lambda>(ecc, sign).
                 bind_outcome (ntb_ecc_create_key (crypto_bn cr) (crypto_ssl cr) ecc priv_enc) (\<lambda>(ecc, enc).
                   Ok (ecc, sign, enc)))))"

definition ntb_key_new ::
    "('b, 'p, 'c) crypto \<Rightarrow> nat \<Rightarrow> ('p, 'c) ntb_ecc \<Rightarrow> ntb_key_params \<Rightarrow>
     (('p, 'c) ntb_ecc \<times> ('b, 'p) ntb_key) outcome" where
  "ntb_key_new cr room ecc params =
     (if param_private_keys params = None \<and> param_public_keys params = None then Fault
      else
        bind_outcome (case param_label params of Some p \<Rightarrow> string_at p | None \<Rightarrow> Ok []) (\<lambda>label.
          bind_outcome (make_keys cr ecc (param_private_keys params) (param_public_keys params)) (\<lambda>(ecc, sign, enc).
            bind_outcome
              (case param_ripe params of
                 Some ripe \<Rightarrow> read_bytes RIPEMD160_DIGEST_LENGTH ripe
               | None \<Rightarrow> generate_ripe cr room sign enc)
              (\<lambda>ripe.
                 let address = \<lparr>addr_version = (case param_version params of Some v \<Rightarrow> ucast v | None \<Rightarrow> 4),
                                addr_stream = (case param_stream params of Some v \<Rightarrow> ucast v | None \<Rightarrow> 1),
                                addr_ripe = ripe\<rparr>
                 in bind_outcome (ntb_address_get_tag (crypto_sha512 cr) address) (\<lambda>(tg, tag_priv).
                      Ok (ecc,
                        \<lparr>key_address = address, key_tag = tg, tag_private_key = tag_priv, key_label = label,
                         nonce_trials_per_byte =
                           (case param_pow_difficulty params of Some (n, _) \<Rightarrow> n
                            | None \<Rightarrow> NTB_PROTO_MIN_NONCE_TRIALS_PER_BYTE),
                         payload_length_extra_bytes =
                           (case param_pow_difficulty params of Some (_, n) \<Rightarrow> n
                            | None \<Rightarrow> NTB_PROTO_MIN_EXTRA_BYTES),
                         last_pubkey_send_time =
                           (case param_last_pubkey_send_time params of Some t \<Rightarrow> t | None \<Rightarrow> 0),
                         signing_key = sign, encryption_key = enc,
                         key_enabled = (case param_enabled params of Some b \<Rightarrow> b | None \<Rightarrow> True),
                         key_decoy = (case param_decoy params of Some b \<Rightarrow> b | None \<Rightarrow> False)\<rparr>))))))"

definition ntb_key_has_private :: "('b, 'p) ntb_key \<Rightarrow> bool" where
  "ntb_key_has_private key \<longleftrightarrow> private_key (signing_key key) \<noteq> None \<and> private_key (encryption_key key) \<noteq> None"

text \<open>
  The declared array is too small for the digest: without a given hash of the public keys every call of
  \<open>ntb_key_new\<close> that gets as far as the hash writes beyond it.
\<close>

lemma generate_ripe_overflows:
  assumes "digest_ok (crypto_sha512 cr)"
  shows "generate_ripe cr SHA_DIGEST_LENGTH sign enc = Fault"
  using assms
  by (simp add: generate_ripe_def digest_ok_def ntb_ecc_get_pub_key_def point2oct_asserted_def
      SHA_DIGEST_LENGTH_def Let_def bind_outcome_Fault_iff)

end
