(* ===== verification/Ntb_Load_Keys.thy ===== *)
theory Ntb_Load_Keys
  imports Ntb_Key
begin

text \<open>
  Loading keys from a file of sections and properties (\<open>ntb-load-keys.c\<close>). The buffers for the label and
  the address keep the bytes of earlier sections when their length is set to zero, as in the code. The
  keys handed to the callback are collected in a list. Log messages are left out.
\<close>

record ('b, 'p, 'c) ntb_load_keys_data =
  lk_ecc :: "('p, 'c) ntb_ecc"
  lk_keys :: "('b, 'p) ntb_key list"
  lk_label :: ntb_buffer
  lk_address :: ntb_buffer
  lk_nonce_trials_per_byte :: int
  lk_payload_length_extra_bytes :: int
  lk_last_pubkey_send_time :: int
  lk_enabled :: bool
  lk_decoy :: bool
  has_private_signing_key :: bool
  has_private_encryption_key :: bool
  has_public_signing_key :: bool
  has_public_encryption_key :: bool
  private_signing_key :: "u8 list"
  private_encryption_key :: "u8 list"
  public_signing_key :: "u8 list"
  public_encryption_key :: "u8 list"

definition reset_data :: "('b, 'p, 'c) ntb_load_keys_data \<Rightarrow> ('b, 'p, 'c) ntb_load_keys_data" where
  "reset_data data = data\<lparr>
     lk_label := (lk_label data)\<lparr>buf_length := 0\<rparr>,
     lk_address := (lk_address data)\<lparr>buf_length := 0\<rparr>,
     lk_nonce_trials_per_byte := NTB_PROTO_MIN_NONCE_TRIALS_PER_BYTE,
     lk_payload_length_extra_bytes := NTB_PROTO_MIN_EXTRA_BYTES,
     lk_last_pubkey_send_time := 0,
     lk_enabled := True,
     lk_decoy := False,
     has_private_signing_key := False,
     has_private_encryption_key := False,
     has_public_signing_key := False,
     has_public_encryption_key := False\<rparr>"

text \<open>
  The address is read from the start of its buffer, whatever the length of the buffer is; it only
  decides the version and the stream of the key.
\<close>

definition flush_key ::
    "('b, 'p, 'c) crypto \<Rightarrow> nat \<Rightarrow> ('b, 'p, 'c) ntb_load_keys_data \<Rightarrow> ('b, 'p, 'c) ntb_load_keys_data outcome" where
  "flush_key cr room data =
     (let has_private_keys = (has_private_signing_key data \<and> has_private_encryption_key data) in
      if \<not> has_private_keys \<and> (\<not> has_public_signing_key data \<or> \<not> has_public_encryption_key data)
      then Ok (reset_data data)
      else
        bind_outcome (string_at (buf_data (lk_address data))) (\<lambda>text.
          bind_outcome
            (case ntb_address_decode (crypto_bn cr) (crypto_sha512 cr) text of
               Fault \<Rightarrow> Fault
             | Fail \<Rightarrow> Ok (4, 1)
             | Ok address \<Rightarrow> Ok (addr_version address, addr_stream address))
            (\<lambda>(ver, strm).
               let params = \<lparr>param_label = Some (buf_data (lk_label data)),
                             param_version = Some (ucast ver), param_stream = Some (ucast strm),
                             param_private_keys =
                               (if has_private_keys then Some (private_signing_key data, private_encryption_key data) else None),
                             param_public_keys =
                               (if has_private_keys then None else Some (public_signing_key data, public_encryption_key data)),
                             param_pow_difficulty =
                               Some (lk_nonce_trials_per_byte data, lk_payload_length_extra_bytes data),
                             param_ripe = None,
                             param_last_pubkey_send_time = Some (lk_last_pubkey_send_time data),
                             param_enabled = Some (lk_enabled data),
                             param_decoy = Some (lk_decoy data)\<rparr>
               in bind_outcome (ntb_key_new cr room (lk_ecc data) params) (\<lambda>(ecc, key).
                    Ok (reset_data (data\<lparr>lk_ecc := ecc, lk_keys := lk_keys data @ [key]\<rparr>))))))"

definition wif_size :: nat where
  "wif_size = 1 + NTB_ECC_PRIVATE_KEY_SIZE + 4"

definition parse_wif :: "('b, 'p, 'c) crypto \<Rightarrow> u8 list \<Rightarrow> u8 list outcome" where
  "parse_wif cr value =
     bind_outcome (ntb_base58_decode (crypto_bn cr) value wif_size) (\<lambda>got.
       let key_buf = replicate (wif_size - length got) 0 @ got in
       if key_buf ! 0 \<noteq> 0x80 then Fail
       else
         let hash1 = crypto_sha256 cr (take (NTB_ECC_PRIVATE_KEY_SIZE + 1) key_buf);
             hash2 = crypto_sha256 cr hash1
         in if drop (1 + NTB_ECC_PRIVATE_KEY_SIZE) key_buf \<noteq> take 4 hash2 then Fail
            else Ok (take NTB_ECC_PRIVATE_KEY_SIZE (drop 1 key_buf)))"

text \<open>The key is decoded into the array of the caller, also when it is then refused.\<close>

definition parse_public_key ::
    "('b, 'p, 'c) crypto \<Rightarrow> u8 list \<Rightarrow> u8 list \<Rightarrow> (u8 list \<times> bool) outcome" where
  "parse_public_key cr value result =
     (case ntb_base58_decode (crypto_bn cr) value NTB_ECC_PUBLIC_KEY_SIZE of
        Fault \<Rightarrow> Fault
      | Fail \<Rightarrow> Ok (result, False)
      | Ok got \<Rightarrow>
          let result = got @ drop (length got) result in
          if length got \<noteq> NTB_ECC_PUBLIC_KEY_SIZE then Ok (result, False)
          else if result ! 0 \<noteq> 0x04 then Ok (result, False)
          else Ok (result, True))"

text \<open>The conversion of a 64-bit value to \<open>int\<close>.\<close>

definition to_int :: "int \<Rightarrow> int" where
  "to_int v = sint (word_of_int v :: 32 word)"

definition INT_MAX :: int where "INT_MAX = 2 ^ 31 - 1"
definition INT64_MAX :: int where "INT64_MAX = 2 ^ 63 - 1"

definition set_buffer_string :: "ntb_buffer \<Rightarrow> u8 list \<Rightarrow> ntb_buffer" where
  "set_buffer_string b s = ntb_buffer_append_string (ntb_buffer_set_length b 0) s"

definition process_property ::
    "('b, 'p, 'c) crypto \<Rightarrow> u8 list \<Rightarrow> u8 list \<Rightarrow> ('b, 'p, 'c) ntb_load_keys_data \<Rightarrow>
     ('b, 'p, 'c) ntb_load_keys_data outcome" where
  "process_property cr key value data =
     (if key = str ''label'' then Ok (data\<lparr>lk_label := set_buffer_string (lk_label data) value\<rparr>)
      else if key = str ''enabled'' then
        (case ntb_key_value_parse_bool_value value of
           Some b \<Rightarrow> Ok (data\<lparr>lk_enabled := b\<rparr>) | None \<Rightarrow> Ok data)
      else if key = str ''decoy'' then
        (case ntb_key_value_parse_bool_value value of
           Some b \<Rightarrow> Ok (data\<lparr>lk_decoy := b\<rparr>) | None \<Rightarrow> Ok data)
      else if key = str ''noncetrialsperbyte'' then
        (case ntb_key_value_parse_int_value value INT_MAX of
           Some v \<Rightarrow> Ok (data\<lparr>lk_nonce_trials_per_byte := to_int v\<rparr>) | None \<Rightarrow> Ok data)
      else if key = str ''payloadlengthextrabytes'' then
        (case ntb_key_value_parse_int_value value INT_MAX of
           Some v \<Rightarrow> Ok (data\<lparr>lk_payload_length_extra_bytes := to_int v\<rparr>) | None \<Rightarrow> Ok data)
      else if key = str ''privsigningkey'' then
        (case parse_wif cr value of
           Fault \<Rightarrow> Fault | Fail \<Rightarrow> Ok data
         | Ok k \<Rightarrow> Ok (data\<lparr>private_signing_key := k, has_private_signing_key := True\<rparr>))
      else if key = str ''privencryptionkey'' then
        (case parse_wif cr value of
           Fault \<Rightarrow> Fault | Fail \<Rightarrow> Ok data
         | Ok k \<Rightarrow> Ok (data\<lparr>private_encryption_key := k, has_private_encryption_key := True\<rparr>))
      else if key = str ''pubsigningkey'' then
        bind_outcome (parse_public_key cr value (public_signing_key data)) (\<lambda>(k, ok).
          Ok (data\<lparr>public_signing_key := k, has_public_signing_key := has_public_signing_key data \<or> ok\<rparr>))
      else if key = str ''pubencryptionkey'' then
        bind_outcome (parse_public_key cr value (public_encryption_key data)) (\<lambda>(k, ok).
          Ok (data\<lparr>public_encryption_key := k, has_public_encryption_key := has_public_encryption_key data \<or> ok\<rparr>))
      else if key = str ''lastpubkeysendtime'' then
        (case ntb_key_value_parse_int_value value INT64_MAX of
           Some v \<Rightarrow> Ok (data\<lparr>lk_last_pubkey_send_time := v\<rparr>) | None \<Rightarrow> Ok data)
      else Ok data)"

definition key_value_event_cb ::
    "('b, 'p, 'c) crypto \<Rightarrow> nat \<Rightarrow> ntb_key_value_event \<Rightarrow> ('b, 'p, 'c) ntb_load_keys_data \<Rightarrow>
     ('b, 'p, 'c) ntb_load_keys_data outcome" where
  "key_value_event_cb cr room event data =
     (case event of
        EVENT_HEADER _ value \<Rightarrow>
          bind_outcome (flush_key cr room data) (\<lambda>data.
            Ok (data\<lparr>lk_address := ntb_buffer_append_string ((lk_address data)\<lparr>buf_length := 0\<rparr>) value\<rparr>))
      | EVENT_PROPERTY _ key value \<Rightarrow> process_property cr key value data)"

text \<open>The arrays for the keys and the context are not initialised; their first contents are arguments.\<close>

definition ntb_load_keys ::
    "('b, 'p, 'c) crypto \<Rightarrow> nat \<Rightarrow> ('p, 'c) ntb_ecc \<Rightarrow> u8 list \<Rightarrow> u8 list \<Rightarrow> ('b, 'p) ntb_key list outcome" where
  "ntb_load_keys cr room ecc garbage inp =
     (let data = reset_data \<lparr>lk_ecc = ecc, lk_keys = [], lk_label = ntb_buffer_init, lk_address = ntb_buffer_init,
        lk_nonce_trials_per_byte = 0, lk_payload_length_extra_bytes = 0, lk_last_pubkey_send_time = 0,
        lk_enabled = False, lk_decoy = False, has_private_signing_key = False, has_private_encryption_key = False,
        has_public_signing_key = False, has_public_encryption_key = False,
        private_signing_key = garbage, private_encryption_key = garbage,
        public_signing_key = garbage, public_encryption_key = garbage\<rparr>
      in bind_outcome (ntb_key_value_load inp (key_value_event_cb cr room) data) (\<lambda>data.
           bind_outcome (flush_key cr room data) (\<lambda>data. Ok (lk_keys data))))"

end
