(* ===== verification/Ntb_Load_Outgoings.thy ===== *)
theory Ntb_Load_Outgoings
  imports Ntb_Load_Keys
begin

text \<open>
  Loading the messages that are still to be sent from a file of sections and properties
  (\<open>ntb-load-outgoings.c\<close>). The messages handed to the callback are collected in a list. The structure
  that is filled is a local variable without initial value, which is an argument. Log messages are left
  out.
\<close>

record ntb_store_outgoing =
  from_address :: ntb_address
  to_address :: ntb_address
  ackdata :: "u8 list"
  content_id :: u64
  content_encoding :: int
  last_getpubkey_send_time :: int
  last_msg_send_time :: int

record ntb_load_outgoings_data =
  lo_outgoings :: "ntb_store_outgoing list"
  lo_outgoing :: ntb_store_outgoing
  has_from_address :: bool
  has_to_address :: bool
  has_ackdata :: bool
  has_content_id :: bool

definition NTB_PROTO_ACKDATA_SIZE :: nat where "NTB_PROTO_ACKDATA_SIZE = 32"

definition reset_outgoing :: "ntb_load_outgoings_data \<Rightarrow> ntb_load_outgoings_data" where
  "reset_outgoing data = data\<lparr>
     has_from_address := False, has_to_address := False, has_ackdata := False, has_content_id := False,
     lo_outgoing := (lo_outgoing data)\<lparr>content_encoding := 1, last_getpubkey_send_time := 0, last_msg_send_time := 0\<rparr>\<rparr>"

definition flush_outgoing :: "ntb_load_outgoings_data \<Rightarrow> ntb_load_outgoings_data" where
  "flush_outgoing data =
     reset_outgoing
       (if has_from_address data \<and> has_to_address data \<and> has_ackdata data \<and> has_content_id data
        then data\<lparr>lo_outgoings := lo_outgoings data @ [lo_outgoing data]\<rparr> else data)"

definition parse_ackdata :: "('b, 'p, 'c) crypto \<Rightarrow> u8 list \<Rightarrow> u8 list outcome" where
  "parse_ackdata cr value =
     bind_outcome (ntb_base58_decode (crypto_bn cr) value NTB_PROTO_ACKDATA_SIZE) (\<lambda>got.
       Ok (replicate (NTB_PROTO_ACKDATA_SIZE - length got) 0 @ got))"

definition process_outgoing_property ::
    "('b, 'p, 'c) crypto \<Rightarrow> u8 list \<Rightarrow> u8 list \<Rightarrow> ntb_load_outgoings_data \<Rightarrow> ntb_load_outgoings_data outcome" where
  "process_outgoing_property cr key value data =
     (let outgoing = lo_outgoing data in
      if key = str ''fromaddress'' then
        (case ntb_address_decode (crypto_bn cr) (crypto_sha512 cr) value of
           Fault \<Rightarrow> Fault | Fail \<Rightarrow> Ok data
         | Ok a \<Rightarrow> Ok (data\<lparr>lo_outgoing := outgoing\<lparr>from_address := a\<rparr>, has_from_address := True\<rparr>))
      else if key = str ''toaddress'' then
        (case ntb_address_decode (crypto_bn cr) (crypto_sha512 cr) value of
           Fault \<Rightarrow> Fault | Fail \<Rightarrow> Ok data
         | Ok a \<Rightarrow> Ok (data\<lparr>lo_outgoing := outgoing\<lparr>to_address := a\<rparr>, has_to_address := True\<rparr>))
      else if key = str ''ackdata'' then
        (case parse_ackdata cr value of
           Fault \<Rightarrow> Fault | Fail \<Rightarrow> Ok data
         | Ok a \<Rightarrow> Ok (data\<lparr>lo_outgoing := outgoing\<lparr>ackdata := a\<rparr>, has_ackdata := True\<rparr>))
      else if key = str ''contentid'' then
        (case ntb_key_value_parse_int_value value INT_MAX of
           None \<Rightarrow> Ok data
         | Some v \<Rightarrow> Ok (data\<lparr>lo_outgoing := outgoing\<lparr>content_id := word_of_int v\<rparr>, has_content_id := True\<rparr>))
      else if key = str ''contentencoding'' then
        (case ntb_key_value_parse_int_value value INT_MAX of
           None \<Rightarrow> Ok data | Some v \<Rightarrow> Ok (data\<lparr>lo_outgoing := outgoing\<lparr>content_encoding := to_int v\<rparr>\<rparr>))
      else if key = str ''lastgetpubkeysendtime'' then
        (case ntb_key_value_parse_int_value value INT64_MAX of
           None \<Rightarrow> Ok data | Some v \<Rightarrow> Ok (data\<lparr>lo_outgoing := outgoing\<lparr>last_getpubkey_send_time := v\<rparr>\<rparr>))
      else if key = str ''lastmsgsendtime'' then
        (case ntb_key_value_parse_int_value value INT64_MAX of
           None \<Rightarrow> Ok data | Some v \<Rightarrow> Ok (data\<lparr>lo_outgoing := outgoing\<lparr>last_msg_send_time := v\<rparr>\<rparr>))
      else Ok data)"

definition outgoing_event_cb ::
    "('b, 'p, 'c) crypto \<Rightarrow> ntb_key_value_event \<Rightarrow> ntb_load_outgoings_data \<Rightarrow> ntb_load_outgoings_data outcome" where
  "outgoing_event_cb cr event data =
     (case event of
        EVENT_HEADER _ _ \<Rightarrow> Ok (flush_outgoing data)
      | EVENT_PROPERTY _ key value \<Rightarrow> process_outgoing_property cr key value data)"

definition ntb_load_outgoings ::
    "('b, 'p, 'c) crypto \<Rightarrow> ntb_store_outgoing \<Rightarrow> u8 list \<Rightarrow> ntb_store_outgoing list outcome" where
  "ntb_load_outgoings cr garbage inp =
     (let data = reset_outgoing \<lparr>lo_outgoings = [], lo_outgoing = garbage, has_from_address = False,
                   has_to_address = False, has_ackdata = False, has_content_id = False\<rparr>
      in bind_outcome (ntb_key_value_load inp (outgoing_event_cb cr) data) (\<lambda>data.
           Ok (lo_outgoings (flush_outgoing data))))"

end
