(* ===== verification/Ntb_Store_Files.thy ===== *)
theory Ntb_Store_Files
  imports Ntb_Load_Outgoings
begin

text \<open>
  The files that the store writes for the keys and the outgoing messages (\<open>ntb-store.c\<close>), as the bytes
  that the calls of \<open>fprintf\<close> produce, and the proof that the loaders read them back. Base-58 encoding
  runs a loop, so the result of a writer is optional; a failing assertion is a fault.
\<close>

section \<open>Writers\<close>

definition bind_run :: "'a outcome option \<Rightarrow> ('a \<Rightarrow> 'b outcome option) \<Rightarrow> 'b outcome option" where
  "bind_run r f =
     (case r of None \<Rightarrow> None | Some Fault \<Rightarrow> Some Fault | Some Fail \<Rightarrow> Some Fail | Some (Ok x) \<Rightarrow> f x)"

text \<open>\<open>printf\<close> of a signed integer.\<close>

definition print_int :: "int \<Rightarrow> u8 list" where
  "print_int v = (if v < 0 then 45 # decimal (nat (- v)) else decimal (nat v))"

definition NTB_STORE_MAX_WIF_LENGTH :: nat where "NTB_STORE_MAX_WIF_LENGTH = 51"
definition NTB_STORE_MAX_PUBLIC_KEY_LENGTH :: nat where "NTB_STORE_MAX_PUBLIC_KEY_LENGTH = 89"
definition NTB_STORE_MAX_ACKDATA_LENGTH :: nat where "NTB_STORE_MAX_ACKDATA_LENGTH = 44"

definition assert_length :: "nat \<Rightarrow> u8 list \<Rightarrow> u8 list outcome option" where
  "assert_length n s = (if length s \<le> n then Some (Ok s) else Some Fault)"

definition encode_wif :: "('b, 'p, 'c) crypto \<Rightarrow> ('b, 'p) ec_key \<Rightarrow> u8 list outcome option" where
  "encode_wif cr key =
     (case private_key key of
        None \<Rightarrow> Some Fault
      | Some b \<Rightarrow>
          let n_bytes = BN_num_bytes (crypto_bn cr) b in
          if n_bytes > NTB_ECC_PRIVATE_KEY_SIZE then Some Fault
          else
            let body = 0x80 # replicate (NTB_ECC_PRIVATE_KEY_SIZE - n_bytes) 0 @ BN_bn2bin (crypto_bn cr) b;
                hash1 = crypto_sha256 cr body;
                hash2 = crypto_sha256 cr hash1
            in bind_run (ntb_base58_encode (crypto_bn cr) (body @ take 4 hash2))
                 (assert_length NTB_STORE_MAX_WIF_LENGTH))"

definition encode_public_key :: "('b, 'p, 'c) crypto \<Rightarrow> ('b, 'p) ec_key \<Rightarrow> u8 list outcome option" where
  "encode_public_key cr key =
     bind_run (Some (point2oct_asserted (crypto_ssl cr) (public_key key))) (\<lambda>buf.
       bind_run (ntb_base58_encode (crypto_bn cr) buf) (assert_length NTB_STORE_MAX_PUBLIC_KEY_LENGTH))"

definition property_line :: "string \<Rightarrow> u8 list \<Rightarrow> u8 list" where
  "property_line name value = str name @ str '' = '' @ value @ [ch_newline]"

definition header_line :: "u8 list \<Rightarrow> u8 list" where
  "header_line value = str ''['' @ value @ str '']'' @ [ch_newline]"

definition print_bool :: "bool \<Rightarrow> u8 list" where
  "print_bool b = (if b then str ''true'' else str ''false'')"

definition write_key :: "('b, 'p, 'c) crypto \<Rightarrow> ('b, 'p) ntb_key \<Rightarrow> u8 list outcome option" where
  "write_key cr key =
     bind_run (ntb_address_encode (crypto_bn cr) (crypto_sha512 cr) (key_address key)) (\<lambda>address.
       bind_run
         (if ntb_key_has_private key
          then bind_run (encode_wif cr (signing_key key)) (\<lambda>signing_key_wif.
                 bind_run (encode_wif cr (encryption_key key)) (\<lambda>encryption_key_wif.
                   Some (Ok (property_line ''privsigningkey'' signing_key_wif @
                             property_line ''privencryptionkey'' encryption_key_wif @
                             property_line ''lastpubkeysendtime'' (print_int (last_pubkey_send_time key)) @
                             property_line ''enabled'' (print_bool (key_enabled key)) @
                             property_line ''decoy'' (print_bool (key_decoy key))))))
          else bind_run (encode_public_key cr (signing_key key)) (\<lambda>public_signing.
                 bind_run (encode_public_key cr (encryption_key key)) (\<lambda>public_encryption.
                   Some (Ok (property_line ''pubsigningkey'' public_signing @
                             property_line ''pubencryptionkey'' public_encryption)))))
         (\<lambda>keys.
            Some (Ok (header_line address @
                      property_line ''label'' (key_label key) @
                      property_line ''noncetrialsperbyte'' (print_int (nonce_trials_per_byte key)) @
                      property_line ''payloadlengthextrabytes'' (print_int (payload_length_extra_bytes key)) @
                      keys @ [ch_newline]))))"

definition write_outgoing :: "('b, 'p, 'c) crypto \<Rightarrow> ntb_store_outgoing \<Rightarrow> u8 list outcome option" where
  "write_outgoing cr outgoing =
     bind_run (ntb_address_encode (crypto_bn cr) (crypto_sha512 cr) (from_address outgoing)) (\<lambda>from.
       bind_run (ntb_address_encode (crypto_bn cr) (crypto_sha512 cr) (to_address outgoing)) (\<lambda>to.
         bind_run
           (bind_run (ntb_base58_encode (crypto_bn cr) (ackdata outgoing)) (assert_length NTB_STORE_MAX_ACKDATA_LENGTH))
           (\<lambda>ack.
              Some (Ok (header_line (str ''message'') @
                        property_line ''fromaddress'' from @
                        property_line ''toaddress'' to @
                        property_line ''ackdata'' ack @
                        property_line ''contentid'' (decimal (unat (content_id outgoing))) @
                        property_line ''contentencoding'' (print_int (content_encoding outgoing)) @
                        property_line ''lastgetpubkeysendtime'' (print_int (last_getpubkey_send_time outgoing)) @
                        property_line ''lastmsgsendtime'' (print_int (last_msg_send_time outgoing)) @
                        [ch_newline])))))"

text \<open>The loops of \<open>handle_save_keys\<close> and \<open>handle_save_outgoings\<close>: the records one after the other.\<close>

fun write_each :: "('a \<Rightarrow> u8 list outcome option) \<Rightarrow> 'a list \<Rightarrow> u8 list outcome option" where
  "write_each write [] = Some (Ok [])"
| "write_each write (x # xs) =
     bind_run (write x) (\<lambda>text. bind_run (write_each write xs) (\<lambda>rest. Some (Ok (text @ rest))))"

section \<open>Lines\<close>

lemma bind_run_Ok [simp]: "bind_run (Some (Ok x)) f = f x"
  by (simp add: bind_run_def)


text \<open>A value that survives the reader of properties: no newline, no zero byte and no outer spaces.\<close>

definition plain_text :: "u8 list \<Rightarrow> bool" where
  "plain_text s \<longleftrightarrow> ch_newline \<notin> set s \<and> 0 \<notin> set s \<and> (s = [] \<or> hd s \<noteq> ch_space \<and> last s \<noteq> ch_space)"

definition name_ok :: "u8 list \<Rightarrow> bool" where
  "name_ok name \<longleftrightarrow> name \<noteq> [] \<and> hd name \<noteq> ch_open \<and> (\<forall>c \<in> set name. in_name c \<and> c \<noteq> ch_newline \<and> c \<noteq> 0)"

lemma lines_of_Cons:
  assumes "ch_newline \<notin> set l"
  shows "lines_of (l @ ch_newline # rest) = l # lines_of rest"
proof -
  have "dropWhile (\<lambda>c. c \<noteq> ch_newline) (l @ ch_newline # rest) = ch_newline # rest"
    "takeWhile (\<lambda>c. c \<noteq> ch_newline) (l @ ch_newline # rest) = l"
    using assms by (induction l) auto
  then show ?thesis
    by (subst lines_of.simps) (simp only: list.case)
qed

lemma lines_of_Nil: "lines_of [] = [[]]"
  by (simp add: lines_of.simps)

lemma c_text_id: "0 \<notin> set s \<Longrightarrow> c_text s = s"
  by (auto simp: c_text_def takeWhile_eq_all_conv)

lemma plain_text_strip: "plain_text s \<Longrightarrow> lstrip s = s \<and> rstrip s = s \<and> c_text s = s"
proof -
  assume s: "plain_text s"
  then have "rstrip s = s"
    by (cases s rule: rev_cases) (auto simp: plain_text_def rstrip_def)
  moreover have "lstrip s = s"
    using s by (cases s) (auto simp: plain_text_def lstrip_def)
  ultimately show ?thesis
    using s by (simp add: plain_text_def c_text_id)
qed

lemma property_line_events:
  assumes "name_ok name" "plain_text v"
  shows "line_events n True (name @ ch_space # ch_equals # ch_space # v) = (True, [EVENT_PROPERTY n name v])"
proof -
  obtain c cs where name: "name = c # cs" and c: "c \<noteq> ch_open" "c \<noteq> ch_space" "in_name c"
    and cs: "\<forall>x \<in> set cs. in_name x"
    using assms(1) by (cases name) (auto simp: name_ok_def in_name_def)
  have "takeWhile in_name (cs @ ch_space # ch_equals # ch_space # v) = cs"
    "dropWhile in_name (cs @ ch_space # ch_equals # ch_space # v) = ch_space # ch_equals # ch_space # v"
    using cs by (auto simp: takeWhile_append2 dropWhile_append2 in_name_def)
  moreover have "c_text (c # cs) = c # cs"
    using assms(1) by (intro c_text_id) (auto simp: name_ok_def name)
  moreover have "lstrip (ch_space # v) = v"
    using plain_text_strip [OF assms(2)] by (simp add: lstrip_def)
  moreover have "lstrip (ch_space # ch_equals # ch_space # v) = ch_equals # ch_space # v"
    by (simp add: lstrip_def)
  moreover have "lstrip (c # cs @ ch_space # ch_equals # ch_space # v) = c # cs @ ch_space # ch_equals # ch_space # v"
    using c by (simp add: lstrip_def)
  ultimately show ?thesis
    using c plain_text_strip [OF assms(2)] by (simp add: line_events_def value_events_def name)
qed

lemma file_events_property:
  assumes "name_ok (str name)" "plain_text v"
  shows "file_events n True (lines_of (property_line name v @ rest)) =
    EVENT_PROPERTY n (str name) v # file_events (n + 1) True (lines_of rest)"
proof -
  have "ch_newline \<notin> set (str name @ ch_space # ch_equals # ch_space # v)"
    using assms by (auto simp: name_ok_def plain_text_def)
  from lines_of_Cons [OF this, of rest] show ?thesis
    by (simp add: property_line_def property_line_events [OF assms])
qed

lemma file_events_header:
  assumes "ch_newline \<notin> set v" "ch_close \<notin> set v" "0 \<notin> set v"
  shows "file_events n started (lines_of (header_line v @ rest)) =
    EVENT_HEADER n v # file_events (n + 1) True (lines_of rest)"
proof -
  have "line_events n started (ch_open # v @ [ch_close]) = (True, [EVENT_HEADER n v])"
    using assms memchr_append_first [OF assms(2), of "[]"]
    by (simp add: line_events_def lstrip_def header_events_def c_text_id)
  moreover have "ch_newline \<notin> set (ch_open # v @ [ch_close])" using assms by simp
  note lines_of_Cons [OF this, of rest]
  ultimately show ?thesis
    by (simp add: header_line_def)
qed

lemma file_events_blank:
  "file_events n started (lines_of (ch_newline # rest)) = file_events (n + 1) started (lines_of rest)"
  using lines_of_Cons [of "[]" rest] by (simp add: line_events_def lstrip_def)

lemma file_events_end: "file_events n started (lines_of []) = []"
  by (simp add: lines_of_Nil line_events_def lstrip_def)

lemmas file_events_simps = file_events_property file_events_header file_events_blank file_events_end

text \<open>The properties of a section, and handing them to a function on the state of the loader.\<close>

definition props_text :: "(string \<times> u8 list) list \<Rightarrow> u8 list" where
  "props_text ps = concat (map (\<lambda>(name, v). property_line name v) ps)"

fun process_all ::
    "(u8 list \<Rightarrow> u8 list \<Rightarrow> 'u \<Rightarrow> 'u outcome) \<Rightarrow> (string \<times> u8 list) list \<Rightarrow> 'u \<Rightarrow> 'u outcome" where
  "process_all f [] u = Ok u"
| "process_all f ((name, v) # ps) u = bind_outcome (f (str name) v u) (process_all f ps)"

definition props_ok :: "(string \<times> u8 list) list \<Rightarrow> bool" where
  "props_ok ps \<longleftrightarrow> (\<forall>(name, v) \<in> set ps. name_ok (str name) \<and> plain_text v)"

lemma call_props:
  assumes "props_ok ps" "\<And>n key v u. func (EVENT_PROPERTY n key v) u = f key v u"
  shows "call_events func (file_events n True (lines_of (props_text ps @ rest))) u =
    bind_outcome (process_all f ps u) (call_events func (file_events (n + length ps) True (lines_of rest)))"
  using assms(1)
proof (induction ps arbitrary: n u)
  case Nil
  then show ?case by (simp add: props_text_def)
next
  case (Cons p ps)
  obtain name v where p: "p = (name, v)" by (cases p)
  then have ok: "name_ok (str name)" "plain_text v" "props_ok ps"
    using Cons.prems by (auto simp: props_ok_def)
  have "props_text (p # ps) @ rest = property_line name v @ (props_text ps @ rest)"
    by (simp add: props_text_def p)
  then show ?case
    using Cons.IH [OF ok(3), of "n + 1"]
    by (simp add: file_events_property [OF ok(1,2)] assms(2) p bind_outcome_assoc cong: bind_outcome_cong)
qed

text \<open>A section: its header and its properties, with an empty line behind them.\<close>

lemma call_section:
  assumes "props_ok ps" "\<forall>c \<in> set h. c \<noteq> ch_newline \<and> c \<noteq> ch_close \<and> c \<noteq> 0"
    "\<And>n key v u. func (EVENT_PROPERTY n key v) u = f key v u"
  shows "\<exists>n'. call_events func (file_events n started (lines_of (header_line h @ props_text ps @ ch_newline # rest))) u =
    bind_outcome (func (EVENT_HEADER n h) u) (\<lambda>u.
      bind_outcome (process_all f ps u) (call_events func (file_events n' True (lines_of rest))))"
proof
  have h: "ch_newline \<notin> set h" "ch_close \<notin> set h" "0 \<notin> set h" using assms(2) by auto
  have "call_events func (file_events (n + 1) True (lines_of (props_text ps @ ch_newline # rest))) = (\<lambda>u.
      bind_outcome (process_all f ps u) (call_events func (file_events (n + 1 + length ps + 1) True (lines_of rest))))"
    by (rule ext) (simp add: call_props [where func = func and f = f, OF assms(1,3)] file_events_blank)
  then show "call_events func (file_events n started (lines_of (header_line h @ props_text ps @ ch_newline # rest))) u =
    bind_outcome (func (EVENT_HEADER n h) u) (\<lambda>u.
      bind_outcome (process_all f ps u) (call_events func (file_events (n + 1 + length ps + 1) True (lines_of rest))))"
    by (simp add: file_events_header [OF h])
qed

section \<open>Values\<close>

text \<open>Printable characters other than the space and the closing bracket.\<close>

definition graphic :: "u8 \<Rightarrow> bool" where
  "graphic c \<longleftrightarrow> c \<noteq> ch_newline \<and> c \<noteq> 0 \<and> c \<noteq> ch_space \<and> c \<noteq> ch_close"

lemma plain_text_graphic: "\<forall>c \<in> set s. graphic c \<Longrightarrow> plain_text s"
  by (cases s rule: rev_cases; cases s) (auto simp: plain_text_def graphic_def hd_append)

lemma graphic_alphabet: "set s \<subseteq> set (take 58 alphabet) \<Longrightarrow> \<forall>c \<in> set s. graphic c"
proof -
  assume "set s \<subseteq> set (take 58 alphabet)"
  moreover have "\<forall>c \<in> set (take 58 alphabet). graphic c"
    by (simp add: alphabet_def graphic_def)
  ultimately show ?thesis by blast
qed

lemma graphic_print_int: "\<forall>c \<in> set (print_int v). graphic c"
proof -
  have "graphic c" if "is_digit c" for c
    using that by (auto simp: graphic_def is_digit_def word_le_nat_alt)
  then show ?thesis
    using decimal_digits by (auto simp: print_int_def graphic_def)
qed

lemma strtoll_digits:
  assumes "\<forall>c \<in> set ds. is_digit c" "ds \<noteq> []" "digits_value ds < 2 ^ 63"
  shows "strtoll ds = (int (digits_value ds), [], False)"
    "strtoll (45 # ds) = (- int (digits_value ds), [], False)"
proof -
  have all: "takeWhile is_digit ds = ds" "dropWhile is_digit ds = []"
    using assms(1) by (auto simp: takeWhile_eq_all_conv)
  obtain c cs where c: "ds = c # cs" using assms(2) by (cases ds) auto
  then have "is_digit c" using assms(1) by simp
  then have "\<not> is_space c" "c \<noteq> 45" "c \<noteq> 43"
    by (auto simp: is_digit_def is_space_def word_le_nat_alt)
  then have sign: "strtoul_sign (dropWhile is_space ds) = (False, ds)"
    by (simp add: c strtoul_sign_def)
  have neg: "strtoul_sign (dropWhile is_space (45 # ds)) = (True, ds)"
    by (simp add: is_space_def strtoul_sign_def)
  have range: "\<not> (2 :: int) ^ 63 - 1 < int (digits_value ds)" "\<not> int (digits_value ds) < - (2 ^ 63)"
    "\<not> (2 :: int) ^ 63 - 1 < - int (digits_value ds)" "\<not> - int (digits_value ds) < - (2 ^ 63)"
    using assms(3) by simp_all
  show "strtoll ds = (int (digits_value ds), [], False)"
    unfolding strtoll_def sign by (simp only: prod.case Let_def all assms(2) range if_False)
  show "strtoll (45 # ds) = (- int (digits_value ds), [], False)"
    unfolding strtoll_def neg by (simp only: prod.case Let_def all assms(2) range if_True if_False)
qed

lemma parse_print_int:
  assumes "- (2 ^ 63) < v" "v \<le> limit" "limit < 2 ^ 63"
  shows "ntb_key_value_parse_int_value (print_int v) limit = Some v"
proof -
  define ds where "ds = decimal (nat \<bar>v\<bar>)"
  have ds: "\<forall>c \<in> set ds. is_digit c" "ds \<noteq> []" "digits_value ds = nat \<bar>v\<bar>"
    unfolding ds_def by (rule decimal_digits, rule decimal_not_Nil, rule digits_value_decimal)
  have "digits_value ds < 2 ^ 63" using assms ds(3) by simp
  note parse = strtoll_digits [OF ds(1,2) this]
  have "print_int v = (if v < 0 then 45 # ds else ds)"
    by (simp add: print_int_def ds_def)
  moreover have "strtoll (if v < 0 then 45 # ds else ds) = (v, [], False)"
    using parse ds(3) by simp
  ultimately show ?thesis
    using ds(2) assms(2) by (simp add: ntb_key_value_parse_int_value_def)
qed

lemma parse_print_bool: "ntb_key_value_parse_bool_value (print_bool b) = Some b"
  by (simp add: ntb_key_value_parse_bool_value_def print_bool_def)

lemma graphic_print_bool: "\<forall>c \<in> set (print_bool b). graphic c"
  by (simp add: print_bool_def graphic_def)

text \<open>Base-58 text of a number of a fixed size, with the leading zeros that the encoding drops.\<close>

lemma base58_padded:
  assumes "bn_ok bn val" "length bs = n" "0 < n" "be_value bs < 58 ^ m" "0 < m"
  shows "\<exists>cs got. ntb_base58_encode bn bs = Some (Ok cs) \<and> ntb_base58_decode bn cs n = Ok got \<and>
    length got \<le> n \<and> replicate (n - length got) 0 @ got = bs \<and> length cs \<le> m \<and> set cs \<subseteq> set (take 58 alphabet)"
proof (cases "be_value bs = 0")
  case True
  then have "bs = replicate n 0"
    using be_bytes_be_value_eq [OF assms(2)] by (simp add: be_bytes_zero)
  moreover have "replicate (n - 1) 0 @ [0] = (replicate n 0 :: u8 list)"
    using assms(3) by (cases n) (auto simp: replicate_append_same)
  moreover have "alphabet ! 0 \<in> set (take 58 alphabet)" by (simp add: alphabet_mem)
  moreover have "value58 0 [alphabet ! 0] = 0"
    using get_digit_value_alphabet [of 0] by (simp add: value58_def)
  ultimately show ?thesis
    using True assms(3,5) by (auto simp: encode_eq [OF assms(1)] decode_eq [OF assms(1)])
next
  case False
  define v where "v = be_value bs"
  have v: "v < 256 ^ n" "0 < v" using be_value_less [of bs] assms(2) False by (simp_all add: v_def)
  then have l: "byte_length v \<le> n" by (simp add: byte_length_le_iff)
  have "digits58 v \<noteq> [alphabet ! 0]"
    using value58_digits [of v] get_digit_value_alphabet [of 0] v(2) by (auto simp: value58_def)
  then have "ntb_base58_decode bn (digits58 v) n = Ok (be_bytes (byte_length v) v)"
    using v by (simp add: decode_eq [OF assms(1)] value58_digits set_digits58)
  moreover have "replicate (n - byte_length v) 0 @ be_bytes (byte_length v) v = bs"
    using be_bytes_leading_zeros [of v "byte_length v" "n - byte_length v"] l
      byte_length_le_iff [of v "byte_length v"] be_bytes_be_value_eq [OF assms(2)]
    by (simp add: v_def)
  ultimately show ?thesis
    using v l length_digits58 assms(4) set_digits58 by (auto simp: encode_eq [OF assms(1)] v_def)
qed

lemma address_text_form:
  assumes "bn_ok bn val" "ntb_address_encode bn sha512 a = Some (Ok s)"
  obtains cs where "s = str ''BM-'' @ cs" "set cs \<subseteq> set (take 58 alphabet)"
proof -
  have "\<exists>cs. s = str ''BM-'' @ cs \<and> set cs \<subseteq> set (take 58 alphabet)"
    using assms(2) set_digits58 alphabet_mem [of 0] unfolding ntb_address_encode_def Let_def
    by (auto split: outcome.splits if_splits simp: encode_eq [OF assms(1)] simp del: str_simps)
  with that show thesis by blast
qed

end
