(* ===== verification/Ntb_Store_Keys.thy ===== *)
theory Ntb_Store_Keys
  imports Ntb_Store_Files
begin

text \<open>
  The file of the keys: what \<open>write_key\<close> of the store writes for a list of keys, \<open>ntb_load_keys\<close> reads
  back as the same list. The hypotheses on OpenSSL are those of \<open>Ntb_Ecc\<close> and that a point survives its
  uncompressed form; a big number is determined by its value.
\<close>

section \<open>Text of the parts of a key\<close>

definition octets_ok :: "('b, 'p, 'c) openssl \<Rightarrow> bool" where
  "octets_ok ssl \<longleftrightarrow>
     (\<forall>p. length (EC_POINT_point2oct ssl p) = NTB_ECC_PUBLIC_KEY_SIZE \<and> EC_POINT_point2oct ssl p ! 0 = 0x04 \<and>
        EC_POINT_oct2point ssl (EC_POINT_point2oct ssl p) = Some p)"

definition crypto_ok :: "('b \<Rightarrow> nat) \<Rightarrow> ('b, 'p, 'c) crypto \<Rightarrow> bool" where
  "crypto_ok val cr \<longleftrightarrow> bn_ok (crypto_bn cr) val \<and> inj val \<and> octets_ok (crypto_ssl cr) \<and>
     digest_ok (crypto_sha512 cr) \<and> (\<forall>m. length (crypto_sha256 cr m) = SHA256_DIGEST_LENGTH) \<and>
     (\<forall>m. length (crypto_ripemd160 cr m) = RIPEMD160_DIGEST_LENGTH)"

lemma encode_alphabet:
  "bn_ok bn val \<Longrightarrow> ntb_base58_encode bn bs = Some (Ok cs) \<Longrightarrow> set cs \<subseteq> set (take 58 alphabet)"
  using set_digits58 alphabet_mem [of 0] by (auto simp: encode_eq split: if_splits)

lemma address_text:
  assumes "bn_ok bn val" "digest_ok sha512" "address_ok a" "addr_version a \<noteq> 0"
  obtains s where "ntb_address_encode bn sha512 a = Some (Ok s)" "ntb_address_decode bn sha512 s = Ok a"
    "\<forall>c \<in> set s. graphic c"
proof -
  obtain s where s: "ntb_address_encode bn sha512 a = Some (Ok s)" "ntb_address_decode bn sha512 s = Ok a"
    using address_encode_decode [OF assms] by blast
  obtain cs where t: "s = str ''BM-'' @ cs" and cs: "set cs \<subseteq> set (take 58 alphabet)"
    by (rule address_text_form [OF assms(1) s(1)])
  have "\<forall>c \<in> set (str ''BM-''). graphic c" by (simp add: graphic_def)
  then have "\<forall>c \<in> set s. graphic c"
    using graphic_alphabet [OF cs] unfolding t set_append by blast
  with s that show thesis by blast
qed

lemma wif_text:
  assumes "crypto_ok val cr" "private_key key = Some b" "val b < 256 ^ NTB_ECC_PRIVATE_KEY_SIZE"
  obtains s where "encode_wif cr key = Some (Ok s)"
    "parse_wif cr s = Ok (be_bytes NTB_ECC_PRIVATE_KEY_SIZE (val b))" "\<forall>c \<in> set s. graphic c"
proof -
  have bn: "bn_ok (crypto_bn cr) val" and sha: "length (crypto_sha256 cr m) = 32" for m
    using assms(1) by (simp_all add: crypto_ok_def SHA256_DIGEST_LENGTH_def)
  define priv where "priv = be_bytes NTB_ECC_PRIVATE_KEY_SIZE (val b)"
  define check where "check = take 4 (crypto_sha256 cr (crypto_sha256 cr (0x80 # priv)))"
  have len: "length priv = NTB_ECC_PRIVATE_KEY_SIZE" "length check = 4"
    by (simp_all add: priv_def check_def sha)
  have small: "byte_length (val b) \<le> NTB_ECC_PRIVATE_KEY_SIZE" "val b < 256 ^ byte_length (val b)"
    using assms(3) byte_length_le_iff by auto
  have pad: "replicate (NTB_ECC_PRIVATE_KEY_SIZE - BN_num_bytes (crypto_bn cr) b) 0 @ BN_bn2bin (crypto_bn cr) b = priv"
    using bn be_bytes_leading_zeros [OF small(2), of "NTB_ECC_PRIVATE_KEY_SIZE - byte_length (val b)"] small(1)
    by (simp add: bn_ok_def priv_def)
  have lw: "length ((0x80 # priv) @ check) = wif_size" by (simp add: wif_size_def len)
  have "be_value ((0x80 # priv) @ check) < 129 * 256 ^ 36"
    using be_value_less [of "priv @ check"] len by (simp add: be_value_Cons NTB_ECC_PRIVATE_KEY_SIZE_def)
  also have "\<dots> < 58 ^ NTB_STORE_MAX_WIF_LENGTH" by (simp add: NTB_STORE_MAX_WIF_LENGTH_def)
  finally have small': "be_value ((0x80 # priv) @ check) < 58 ^ NTB_STORE_MAX_WIF_LENGTH" .
  obtain cs got where cs: "ntb_base58_encode (crypto_bn cr) ((0x80 # priv) @ check) = Some (Ok cs)"
      "ntb_base58_decode (crypto_bn cr) cs wif_size = Ok got"
      "replicate (wif_size - length got) 0 @ got = (0x80 # priv) @ check" "length cs \<le> NTB_STORE_MAX_WIF_LENGTH"
      "set cs \<subseteq> set (take 58 alphabet)"
    using base58_padded [OF bn lw _ small'] by (auto simp: wif_size_def NTB_STORE_MAX_WIF_LENGTH_def)
  have "encode_wif cr key = Some (Ok cs)"
    using small(1) bn cs(1,4) unfolding encode_wif_def assms(2) option.case Let_def pad
    by (simp add: bn_ok_def check_def assert_length_def)
  moreover have "parse_wif cr cs = Ok priv"
    unfolding parse_wif_def cs(2) bind_outcome.simps Let_def cs(3) by (simp add: len check_def)
  ultimately show thesis
    using that graphic_alphabet [OF cs(5)] by (simp add: priv_def)
qed

lemma public_key_text:
  assumes "crypto_ok val cr"
  obtains s where "encode_public_key cr key = Some (Ok s)"
    "\<forall>result. parse_public_key cr s result =
       Ok (EC_POINT_point2oct (crypto_ssl cr) (public_key key) @ drop NTB_ECC_PUBLIC_KEY_SIZE result, True)"
    "\<forall>c \<in> set s. graphic c"
proof -
  define oct where "oct = EC_POINT_point2oct (crypto_ssl cr) (public_key key)"
  have bn: "bn_ok (crypto_bn cr) val" and oct: "length oct = NTB_ECC_PUBLIC_KEY_SIZE" "oct ! 0 = 0x04"
    using assms by (auto simp: crypto_ok_def octets_ok_def oct_def)
  then obtain os where os: "oct = 0x04 # os" "length os = 64"
    by (cases oct) (auto simp: NTB_ECC_PUBLIC_KEY_SIZE_def)
  have "be_value oct < 5 * 256 ^ 64"
    using be_value_less [of os] os by (simp add: be_value_Cons)
  also have "\<dots> < 58 ^ NTB_STORE_MAX_PUBLIC_KEY_LENGTH" by (simp add: NTB_STORE_MAX_PUBLIC_KEY_LENGTH_def)
  finally have small: "be_value oct < 58 ^ NTB_STORE_MAX_PUBLIC_KEY_LENGTH" .
  obtain cs where cs: "ntb_base58_encode (crypto_bn cr) oct = Some (Ok cs)"
      "ntb_base58_decode (crypto_bn cr) cs NTB_ECC_PUBLIC_KEY_SIZE = Ok oct"
    using base58_encode_decode [OF bn, of oct NTB_ECC_PUBLIC_KEY_SIZE] oct(1) os(1) by auto
  have "length cs \<le> NTB_STORE_MAX_PUBLIC_KEY_LENGTH"
    using cs(1) length_digits58 [OF small] by (auto simp: encode_eq [OF bn] NTB_STORE_MAX_PUBLIC_KEY_LENGTH_def split: if_splits)
  then have "encode_public_key cr key = Some (Ok cs)"
    using oct cs(1) by (simp add: encode_public_key_def point2oct_asserted_def oct_def [symmetric] assert_length_def)
  moreover have "parse_public_key cr cs result = Ok (oct @ drop NTB_ECC_PUBLIC_KEY_SIZE result, True)" for result
    using oct os(1) by (simp add: parse_public_key_def cs(2) Let_def)
  ultimately show thesis
    using that graphic_alphabet [OF encode_alphabet [OF bn cs(1)]] by (simp add: oct_def)
qed

section \<open>A key and the state of the loader\<close>

definition private_ok :: "('b \<Rightarrow> nat) \<Rightarrow> ('b, 'p, 'c) crypto \<Rightarrow> ('b, 'p) ec_key \<Rightarrow> bool" where
  "private_ok val cr key \<longleftrightarrow>
     (\<exists>b. private_key key = Some b \<and> val b < 256 ^ NTB_ECC_PRIVATE_KEY_SIZE \<and> public_key key = EC_POINT_mul (crypto_ssl cr) b)"

text \<open>
  A key as \<open>ntb_key_new\<close> makes it from its parts. For a key without private parts the file has no room
  for the fields that only matter to its owner, so they have to have their default values.
\<close>

definition key_ok :: "('b \<Rightarrow> nat) \<Rightarrow> ('b, 'p, 'c) crypto \<Rightarrow> ('b, 'p) ntb_key \<Rightarrow> bool" where
  "key_ok val cr key \<longleftrightarrow>
     plain_text (key_label key) \<and> addr_version (key_address key) \<noteq> 0 \<and>
     - (2 ^ 31) \<le> nonce_trials_per_byte key \<and> nonce_trials_per_byte key < 2 ^ 31 \<and>
     - (2 ^ 31) \<le> payload_length_extra_bytes key \<and> payload_length_extra_bytes key < 2 ^ 31 \<and>
     - (2 ^ 63) < last_pubkey_send_time key \<and> last_pubkey_send_time key < 2 ^ 63 \<and>
     addr_ripe (key_address key) =
       crypto_ripemd160 cr (crypto_sha512 cr (EC_POINT_point2oct (crypto_ssl cr) (public_key (signing_key key)) @
         EC_POINT_point2oct (crypto_ssl cr) (public_key (encryption_key key)))) \<and>
     ntb_address_get_tag (crypto_sha512 cr) (key_address key) = Ok (key_tag key, tag_private_key key) \<and>
     (private_ok val cr (signing_key key) \<and> private_ok val cr (encryption_key key) \<or>
      private_key (signing_key key) = None \<and> private_key (encryption_key key) = None \<and>
      last_pubkey_send_time key = 0 \<and> key_enabled key \<and> \<not> key_decoy key)"

text \<open>The loader has read everything that makes up the key.\<close>

definition holds_key :: "('b \<Rightarrow> nat) \<Rightarrow> ('b, 'p, 'c) crypto \<Rightarrow> ('b, 'p) ntb_key \<Rightarrow> ('b, 'p, 'c) ntb_load_keys_data \<Rightarrow> bool" where
  "holds_key val cr key data \<longleftrightarrow>
     string_at (buf_data (lk_label data)) = Ok (key_label key) \<and>
     (\<exists>s. string_at (buf_data (lk_address data)) = Ok s \<and>
        ntb_address_decode (crypto_bn cr) (crypto_sha512 cr) s = Ok (key_address key)) \<and>
     lk_nonce_trials_per_byte data = nonce_trials_per_byte key \<and>
     lk_payload_length_extra_bytes data = payload_length_extra_bytes key \<and>
     lk_last_pubkey_send_time data = last_pubkey_send_time key \<and>
     lk_enabled data = key_enabled key \<and> lk_decoy data = key_decoy key \<and>
     (case (private_key (signing_key key), private_key (encryption_key key)) of
        (Some a, Some b) \<Rightarrow>
          has_private_signing_key data \<and> has_private_encryption_key data \<and>
          private_signing_key data = be_bytes NTB_ECC_PRIVATE_KEY_SIZE (val a) \<and>
          private_encryption_key data = be_bytes NTB_ECC_PRIVATE_KEY_SIZE (val b)
      | _ \<Rightarrow>
          \<not> has_private_signing_key data \<and> \<not> has_private_encryption_key data \<and>
          has_public_signing_key data \<and> has_public_encryption_key data \<and>
          (\<exists>r. public_signing_key data = EC_POINT_point2oct (crypto_ssl cr) (public_key (signing_key key)) @ r) \<and>
          (\<exists>r. public_encryption_key data = EC_POINT_point2oct (crypto_ssl cr) (public_key (encryption_key key)) @ r))"

lemma create_key_private:
  assumes "crypto_ok val cr" "private_key key = Some b" "val b < 256 ^ NTB_ECC_PRIVATE_KEY_SIZE"
    "public_key key = EC_POINT_mul (crypto_ssl cr) b"
  shows "ntb_ecc_create_key (crypto_bn cr) (crypto_ssl cr) ecc (be_bytes NTB_ECC_PRIVATE_KEY_SIZE (val b)) =
    Ok (ecc\<lparr>pub_key_point := public_key key\<rparr>, key)"
proof -
  have bn: "bn_ok (crypto_bn cr) val" "inj val" using assms(1) by (auto simp: crypto_ok_def)
  have v: "be_value (be_bytes NTB_ECC_PRIVATE_KEY_SIZE (val b)) = val b"
    using assms(3) by (simp add: be_value_be_bytes)
  obtain b' where "BN_bin2bn (crypto_bn cr) (be_bytes NTB_ECC_PRIVATE_KEY_SIZE (val b)) = Some b'" "val b' = val b"
    using bn(1) v unfolding bn_ok_def by metis
  moreover have "b' = b" using calculation(2) bn(2) by (simp add: inj_eq)
  ultimately show ?thesis
    using assms(2,4)
    by (cases key) (simp add: ntb_ecc_create_key_def make_pub_key_in_point_def create_key_def read_bytes_def)
qed

lemma create_key_public:
  assumes "crypto_ok val cr" "private_key key = None"
  shows "ntb_ecc_create_key_with_public (crypto_bn cr) (crypto_ssl cr) ecc None
      (EC_POINT_point2oct (crypto_ssl cr) (public_key key) @ r) = Ok (ecc\<lparr>pub_key_point := public_key key\<rparr>, key)"
proof -
  have "octets_ok (crypto_ssl cr)" using assms(1) by (simp add: crypto_ok_def)
  then show ?thesis
    using assms(2) by (cases key) (simp add: ntb_ecc_create_key_with_public_def read_bytes_def octets_ok_def create_key_def)
qed

lemma key_new_rebuilds:
  assumes "crypto_ok val cr" "key_ok val cr key" "64 \<le> room" "string_at l = Ok (key_label key)"
    "privs \<noteq> None \<or> pubs \<noteq> None"
    "make_keys cr ecc privs pubs = Ok (ecc', signing_key key, encryption_key key)"
  shows "ntb_key_new cr room ecc \<lparr>param_label = Some l, param_version = Some (ucast (addr_version (key_address key))),
      param_stream = Some (ucast (addr_stream (key_address key))), param_private_keys = privs, param_public_keys = pubs,
      param_pow_difficulty = Some (nonce_trials_per_byte key, payload_length_extra_bytes key), param_ripe = None,
      param_last_pubkey_send_time = Some (last_pubkey_send_time key), param_enabled = Some (key_enabled key),
      param_decoy = Some (key_decoy key)\<rparr> = Ok (ecc', key)"
proof -
  have "generate_ripe cr room (signing_key key) (encryption_key key) = Ok (addr_ripe (key_address key))"
    using assms(1-3) by (simp add: generate_ripe_def ntb_ecc_get_pub_key_def point2oct_asserted_def
        crypto_ok_def octets_ok_def digest_ok_def key_ok_def Let_def)
  moreover have "ucast (ucast v :: u64) = v" for v :: u8
    by (rule bit_word_eqI) (simp add: bit_ucast_iff)
  moreover have eta: "\<lparr>addr_version = addr_version (key_address key), addr_stream = addr_stream (key_address key),
      addr_ripe = addr_ripe (key_address key)\<rparr> = key_address key" by simp
  moreover have "ntb_address_get_tag (crypto_sha512 cr) (key_address key) = Ok (key_tag key, tag_private_key key)"
    using assms(2) by (simp add: key_ok_def)
  moreover have "\<not> (privs = None \<and> pubs = None)" using assms(5) by blast
  ultimately show ?thesis
    using assms(4,6) by (simp add: ntb_key_new_def Let_def eta)
qed

lemma make_keys_rebuilds:
  assumes "crypto_ok val cr" "key_ok val cr key" "holds_key val cr key data"
  obtains privs pubs ecc' where
    "privs = (if has_private_signing_key data \<and> has_private_encryption_key data
              then Some (private_signing_key data, private_encryption_key data) else None)"
    "pubs = (if has_private_signing_key data \<and> has_private_encryption_key data then None
             else Some (public_signing_key data, public_encryption_key data))"
    "privs \<noteq> None \<or> has_public_signing_key data \<and> has_public_encryption_key data"
    "make_keys cr (lk_ecc data) privs pubs = Ok (ecc', signing_key key, encryption_key key)"
proof (cases "private_key (signing_key key)")
  case (Some a)
  then obtain b where b: "private_key (encryption_key key) = Some b"
    "val a < 256 ^ NTB_ECC_PRIVATE_KEY_SIZE" "val b < 256 ^ NTB_ECC_PRIVATE_KEY_SIZE"
    "public_key (signing_key key) = EC_POINT_mul (crypto_ssl cr) a"
    "public_key (encryption_key key) = EC_POINT_mul (crypto_ssl cr) b"
    using assms(2) by (auto simp: key_ok_def private_ok_def)
  then show thesis
    using assms(3) Some that create_key_private [OF assms(1) Some b(2,4)] create_key_private [OF assms(1) b(1,3,5)]
    by (auto simp: holds_key_def make_keys_def)
next
  case None
  then have "private_key (encryption_key key) = None"
    using assms(2) by (auto simp: key_ok_def private_ok_def)
  then show thesis
    using assms(3) None that create_key_public [OF assms(1) None] create_key_public [OF assms(1), of "encryption_key key"]
    by (auto simp: holds_key_def make_keys_def)
qed

text \<open>The state after a flush: everything has its default value, and nothing has been read.\<close>

definition fresh :: "('b, 'p, 'c) ntb_load_keys_data \<Rightarrow> bool" where
  "fresh data \<longleftrightarrow> reset_data data = data \<and> buf_ok (lk_label data) \<and> buf_ok (lk_address data)"

lemma fresh_reset: "buf_ok (lk_label data) \<Longrightarrow> buf_ok (lk_address data) \<Longrightarrow> fresh (reset_data data)"
  by (simp add: fresh_def reset_data_def shorten_contents(1))

lemma reset_keeps [simp]: "lk_keys (reset_data data) = lk_keys data"
  by (simp add: reset_data_def)

lemma flush_holds:
  assumes "crypto_ok val cr" "key_ok val cr key" "64 \<le> room" "holds_key val cr key data"
    "buf_ok (lk_label data)" "buf_ok (lk_address data)"
  shows "\<exists>data'. flush_key cr room data = Ok data' \<and> fresh data' \<and> lk_keys data' = lk_keys data @ [key]"
proof -
  obtain privs pubs ecc' where k:
    "privs = (if has_private_signing_key data \<and> has_private_encryption_key data
              then Some (private_signing_key data, private_encryption_key data) else None)"
    "pubs = (if has_private_signing_key data \<and> has_private_encryption_key data then None
             else Some (public_signing_key data, public_encryption_key data))"
    "privs \<noteq> None \<or> has_public_signing_key data \<and> has_public_encryption_key data"
    "make_keys cr (lk_ecc data) privs pubs = Ok (ecc', signing_key key, encryption_key key)"
    by (rule make_keys_rebuilds [OF assms(1,2,4)])
  obtain s where s: "string_at (buf_data (lk_address data)) = Ok s"
      "ntb_address_decode (crypto_bn cr) (crypto_sha512 cr) s = Ok (key_address key)"
    and h: "string_at (buf_data (lk_label data)) = Ok (key_label key)"
      "lk_nonce_trials_per_byte data = nonce_trials_per_byte key"
      "lk_payload_length_extra_bytes data = payload_length_extra_bytes key"
      "lk_last_pubkey_send_time data = last_pubkey_send_time key"
      "lk_enabled data = key_enabled key" "lk_decoy data = key_decoy key"
    using assms(4) unfolding holds_key_def by blast
  have "privs \<noteq> None \<or> pubs \<noteq> None" using k(1,2) by auto
  note new = key_new_rebuilds [OF assms(1-3) h(1) this k(4)]
  have "\<not> (\<not> (has_private_signing_key data \<and> has_private_encryption_key data) \<and>
      (\<not> has_public_signing_key data \<or> \<not> has_public_encryption_key data))"
    using k(1,3) by (auto split: if_splits)
  then have "flush_key cr room data = Ok (reset_data (data\<lparr>lk_ecc := ecc', lk_keys := lk_keys data @ [key]\<rparr>))"
    unfolding flush_key_def Let_def s(1) bind_outcome.simps s(2) outcome.case prod.case h k(1,2) [symmetric] new
    by (auto simp only: if_False split: if_splits)
  then show ?thesis
    using assms(5,6) by (simp add: fresh_reset)
qed

lemma append_string_at:
  assumes "buf_ok b" "buf_length b = 0"
  shows "string_at (buf_data (ntb_buffer_append_string b s)) = Ok (c_text s)"
proof -
  let ?b = "ntb_buffer_append b (s @ [0])"
  have "contents ?b = map Some s @ [Some 0]"
    using assms append_ok_contents [OF assms(1), of "s @ [0]"] by (simp add: contents_def [of b])
  then obtain rest where rest: "buf_data ?b = map Some s @ Some 0 # rest"
    using append_take_drop_id [of "buf_length ?b" "buf_data ?b", symmetric] by (simp add: contents_def)
  show ?thesis
    by (simp add: ntb_buffer_append_string_def Let_def c_text_def rest string_at_terminated)
qed

section \<open>The section of a key\<close>

lemma process_property_rules:
  "process_property cr (str ''label'') v data = Ok (data\<lparr>lk_label := set_buffer_string (lk_label data) v\<rparr>)"
  "ntb_key_value_parse_bool_value v = Some b \<Longrightarrow>
    process_property cr (str ''enabled'') v data = Ok (data\<lparr>lk_enabled := b\<rparr>)"
  "ntb_key_value_parse_bool_value v = Some b \<Longrightarrow>
    process_property cr (str ''decoy'') v data = Ok (data\<lparr>lk_decoy := b\<rparr>)"
  "ntb_key_value_parse_int_value v INT_MAX = Some i \<Longrightarrow>
    process_property cr (str ''noncetrialsperbyte'') v data = Ok (data\<lparr>lk_nonce_trials_per_byte := to_int i\<rparr>)"
  "ntb_key_value_parse_int_value v INT_MAX = Some i \<Longrightarrow>
    process_property cr (str ''payloadlengthextrabytes'') v data = Ok (data\<lparr>lk_payload_length_extra_bytes := to_int i\<rparr>)"
  "parse_wif cr v = Ok k \<Longrightarrow> process_property cr (str ''privsigningkey'') v data =
    Ok (data\<lparr>private_signing_key := k, has_private_signing_key := True\<rparr>)"
  "parse_wif cr v = Ok k \<Longrightarrow> process_property cr (str ''privencryptionkey'') v data =
    Ok (data\<lparr>private_encryption_key := k, has_private_encryption_key := True\<rparr>)"
  "parse_public_key cr v (public_signing_key data) = Ok (k, True) \<Longrightarrow> process_property cr (str ''pubsigningkey'') v data =
    Ok (data\<lparr>public_signing_key := k, has_public_signing_key := True\<rparr>)"
  "parse_public_key cr v (public_encryption_key data) = Ok (k, True) \<Longrightarrow> process_property cr (str ''pubencryptionkey'') v data =
    Ok (data\<lparr>public_encryption_key := k, has_public_encryption_key := True\<rparr>)"
  "ntb_key_value_parse_int_value v INT64_MAX = Some i \<Longrightarrow>
    process_property cr (str ''lastpubkeysendtime'') v data = Ok (data\<lparr>lk_last_pubkey_send_time := i\<rparr>)"
  by (simp_all add: process_property_def)

lemma key_names_ok:
  "name_ok (str ''label'')" "name_ok (str ''enabled'')" "name_ok (str ''decoy'')"
  "name_ok (str ''noncetrialsperbyte'')" "name_ok (str ''payloadlengthextrabytes'')"
  "name_ok (str ''privsigningkey'')" "name_ok (str ''privencryptionkey'')"
  "name_ok (str ''pubsigningkey'')" "name_ok (str ''pubencryptionkey'')" "name_ok (str ''lastpubkeysendtime'')"
  by (simp_all add: name_ok_def in_name_def)

lemma to_int_id: "- (2 ^ 31) \<le> v \<Longrightarrow> v < 2 ^ 31 \<Longrightarrow> to_int v = v"
  unfolding to_int_def by (simp add: sint_sbintrunc' signed_take_bit_int_eq_self)

lemma parse_int_fields:
  assumes "- (2 ^ 31) \<le> v" "v < 2 ^ 31"
  shows "ntb_key_value_parse_int_value (print_int v) INT_MAX = Some v"
  using assms by (intro parse_print_int) (auto simp: INT_MAX_def)

lemma parse_time_field:
  assumes "- (2 ^ 63) < v" "v < 2 ^ 63"
  shows "ntb_key_value_parse_int_value (print_int v) INT64_MAX = Some v"
  using assms by (intro parse_print_int) (auto simp: INT64_MAX_def)

text \<open>The properties of the section of a key.\<close>

definition key_props :: "('b, 'p) ntb_key \<Rightarrow> u8 list \<Rightarrow> u8 list \<Rightarrow> (string \<times> u8 list) list" where
  "key_props key k1 k2 =
     [(''label'', key_label key), (''noncetrialsperbyte'', print_int (nonce_trials_per_byte key)),
      (''payloadlengthextrabytes'', print_int (payload_length_extra_bytes key))] @
     (if ntb_key_has_private key
      then [(''privsigningkey'', k1), (''privencryptionkey'', k2),
            (''lastpubkeysendtime'', print_int (last_pubkey_send_time key)),
            (''enabled'', print_bool (key_enabled key)), (''decoy'', print_bool (key_decoy key))]
      else [(''pubsigningkey'', k1), (''pubencryptionkey'', k2)])"

lemma write_key_eq:
  assumes "ntb_address_encode (crypto_bn cr) (crypto_sha512 cr) (key_address key) = Some (Ok s)"
    "(if ntb_key_has_private key then encode_wif cr (signing_key key) else encode_public_key cr (signing_key key)) = Some (Ok k1)"
    "(if ntb_key_has_private key then encode_wif cr (encryption_key key) else encode_public_key cr (encryption_key key)) = Some (Ok k2)"
  shows "write_key cr key = Some (Ok (header_line s @ props_text (key_props key k1 k2) @ [ch_newline]))"
  using assms by (simp add: write_key_def props_text_def key_props_def split: if_splits)

lemma key_props_ok:
  assumes "plain_text (key_label key)" "\<forall>c \<in> set k1. graphic c" "\<forall>c \<in> set k2. graphic c"
  shows "props_ok (key_props key k1 k2)"
  using assms plain_text_graphic [OF graphic_print_int] plain_text_graphic [OF graphic_print_bool]
    plain_text_graphic [OF assms(2)] plain_text_graphic [OF assms(3)]
  by (simp add: props_ok_def key_props_def key_names_ok del: str_simps)

definition section_start ::
    "('b, 'p, 'c) crypto \<Rightarrow> ('b, 'p) ntb_key \<Rightarrow> ('b, 'p, 'c) ntb_load_keys_data \<Rightarrow> bool" where
  "section_start cr key data \<longleftrightarrow>
     lk_last_pubkey_send_time data = 0 \<and> lk_enabled data \<and> \<not> lk_decoy data \<and>
     \<not> has_private_signing_key data \<and> \<not> has_private_encryption_key data \<and> buf_ok (lk_label data) \<and> buf_ok (lk_address data) \<and>
     (\<exists>s. string_at (buf_data (lk_address data)) = Ok s \<and>
        ntb_address_decode (crypto_bn cr) (crypto_sha512 cr) s = Ok (key_address key))"

lemma fresh_fields:
  assumes "fresh data"
  shows "lk_last_pubkey_send_time data = 0" "lk_enabled data" "\<not> lk_decoy data"
    "\<not> has_private_signing_key data" "\<not> has_private_encryption_key data" "buf_ok (lk_label data)"
proof -
  have r: "reset_data data = data" using assms by (simp add: fresh_def)
  show "lk_last_pubkey_send_time data = 0" "lk_enabled data" "\<not> lk_decoy data"
    "\<not> has_private_signing_key data" "\<not> has_private_encryption_key data"
    by (subst r [symmetric], simp add: reset_data_def)+
  show "buf_ok (lk_label data)" using assms by (simp add: fresh_def)
qed

lemma header_starts_section:
  assumes "flush_key cr room data = Ok data'" "fresh data'" "0 \<notin> set s"
    "ntb_address_decode (crypto_bn cr) (crypto_sha512 cr) s = Ok (key_address key)"
  obtains data2 where "key_value_event_cb cr room (EVENT_HEADER n s) data = Ok data2" "section_start cr key data2"
    "lk_keys data2 = lk_keys data'"
proof -
  define b where "b = (lk_address data')\<lparr>buf_length := 0\<rparr>"
  have "buf_ok b" "buf_length b = 0" using assms(2) by (simp_all add: b_def fresh_def shorten_contents(1))
  then have b: "buf_ok (ntb_buffer_append_string b s)" "string_at (buf_data (ntb_buffer_append_string b s)) = Ok s"
    using append_string_eq [of b s] append_string_at [of b s] assms(3) by (simp_all add: c_text_id)
  have "section_start cr key (data'\<lparr>lk_address := ntb_buffer_append_string b s\<rparr>)"
    using b assms(4) fresh_fields [OF assms(2)] by (simp add: section_start_def)
  then show thesis
    using assms(1) that by (simp add: key_value_event_cb_def b_def)
qed

lemma set_buffer_string_ok:
  assumes "buf_ok b" "0 \<notin> set s"
  shows "buf_ok (set_buffer_string b s)" "string_at (buf_data (set_buffer_string b s)) = Ok s"
proof -
  have "buf_ok (ntb_buffer_set_length b 0)" "buf_length (ntb_buffer_set_length b 0) = 0"
    using set_length_0(1) [OF assms(1)] by (simp_all add: ntb_buffer_set_length_def Let_def)
  then show "buf_ok (set_buffer_string b s)" "string_at (buf_data (set_buffer_string b s)) = Ok s"
    using append_string_eq append_string_at [of "ntb_buffer_set_length b 0" s] assms(2)
    by (auto simp: set_buffer_string_def c_text_id)
qed

definition key_parses ::
    "('b \<Rightarrow> nat) \<Rightarrow> ('b, 'p, 'c) crypto \<Rightarrow> ('b, 'p) ntb_key \<Rightarrow> u8 list \<Rightarrow> u8 list \<Rightarrow> bool" where
  "key_parses val cr key k1 k2 \<longleftrightarrow>
     (case (private_key (signing_key key), private_key (encryption_key key)) of
        (Some a, Some b) \<Rightarrow>
          parse_wif cr k1 = Ok (be_bytes NTB_ECC_PRIVATE_KEY_SIZE (val a)) \<and>
          parse_wif cr k2 = Ok (be_bytes NTB_ECC_PRIVATE_KEY_SIZE (val b))
      | _ \<Rightarrow>
          (\<forall>r. parse_public_key cr k1 r = Ok (EC_POINT_point2oct (crypto_ssl cr) (public_key (signing_key key)) @
             drop NTB_ECC_PUBLIC_KEY_SIZE r, True)) \<and>
          (\<forall>r. parse_public_key cr k2 r = Ok (EC_POINT_point2oct (crypto_ssl cr) (public_key (encryption_key key)) @
             drop NTB_ECC_PUBLIC_KEY_SIZE r, True)))"

lemma key_texts:
  assumes "crypto_ok val cr" "key_ok val cr key"
  obtains k1 k2 where
    "(if ntb_key_has_private key then encode_wif cr (signing_key key) else encode_public_key cr (signing_key key)) = Some (Ok k1)"
    "(if ntb_key_has_private key then encode_wif cr (encryption_key key) else encode_public_key cr (encryption_key key)) = Some (Ok k2)"
    "key_parses val cr key k1 k2" "\<forall>c \<in> set k1. graphic c" "\<forall>c \<in> set k2. graphic c"
proof (cases "ntb_key_has_private key")
  case True
  then obtain a b where ab: "private_key (signing_key key) = Some a" "private_key (encryption_key key) = Some b"
    "val a < 256 ^ NTB_ECC_PRIVATE_KEY_SIZE" "val b < 256 ^ NTB_ECC_PRIVATE_KEY_SIZE"
    using assms(2) by (auto simp: key_ok_def private_ok_def ntb_key_has_private_def)
  obtain k1 where k1: "encode_wif cr (signing_key key) = Some (Ok k1)"
      "parse_wif cr k1 = Ok (be_bytes NTB_ECC_PRIVATE_KEY_SIZE (val a))" "\<forall>c \<in> set k1. graphic c"
    by (rule wif_text [OF assms(1) ab(1,3)])
  obtain k2 where k2: "encode_wif cr (encryption_key key) = Some (Ok k2)"
      "parse_wif cr k2 = Ok (be_bytes NTB_ECC_PRIVATE_KEY_SIZE (val b))" "\<forall>c \<in> set k2. graphic c"
    by (rule wif_text [OF assms(1) ab(2,4)])
  show thesis
    using True k1 k2 ab by (intro that [of k1 k2]) (simp_all add: key_parses_def)
next
  case False
  then have ab: "private_key (signing_key key) = None" "private_key (encryption_key key) = None"
    using assms(2) by (auto simp: key_ok_def private_ok_def ntb_key_has_private_def)
  obtain k1 where k1: "encode_public_key cr (signing_key key) = Some (Ok k1)"
      "\<forall>r. parse_public_key cr k1 r = Ok (EC_POINT_point2oct (crypto_ssl cr) (public_key (signing_key key)) @
         drop NTB_ECC_PUBLIC_KEY_SIZE r, True)" "\<forall>c \<in> set k1. graphic c"
    by (rule public_key_text [OF assms(1), of "signing_key key"])
  obtain k2 where k2: "encode_public_key cr (encryption_key key) = Some (Ok k2)"
      "\<forall>r. parse_public_key cr k2 r = Ok (EC_POINT_point2oct (crypto_ssl cr) (public_key (encryption_key key)) @
         drop NTB_ECC_PUBLIC_KEY_SIZE r, True)" "\<forall>c \<in> set k2. graphic c"
    by (rule public_key_text [OF assms(1), of "encryption_key key"])
  show thesis
    using False k1 k2 ab by (intro that [of k1 k2]) (simp_all add: key_parses_def)
qed

lemma props_hold_key:
  assumes "key_ok val cr key" "section_start cr key data" "key_parses val cr key k1 k2"
  shows "\<exists>data2. process_all (process_property cr) (key_props key k1 k2) data = Ok data2 \<and> holds_key val cr key data2 \<and>
    buf_ok (lk_label data2) \<and> buf_ok (lk_address data2) \<and> lk_keys data2 = lk_keys data"
proof -
  have fields: "0 \<notin> set (key_label key)"
      "ntb_key_value_parse_int_value (print_int (nonce_trials_per_byte key)) INT_MAX = Some (nonce_trials_per_byte key)"
      "ntb_key_value_parse_int_value (print_int (payload_length_extra_bytes key)) INT_MAX = Some (payload_length_extra_bytes key)"
      "ntb_key_value_parse_int_value (print_int (last_pubkey_send_time key)) INT64_MAX = Some (last_pubkey_send_time key)"
      "to_int (nonce_trials_per_byte key) = nonce_trials_per_byte key"
      "to_int (payload_length_extra_bytes key) = payload_length_extra_bytes key"
    using assms(1) by (simp_all add: key_ok_def plain_text_def parse_int_fields parse_time_field to_int_id)
  note rules = fields process_property_rules parse_print_bool set_buffer_string_ok [OF _ fields(1)]
    key_props_def holds_key_def section_start_def key_parses_def
  show ?thesis
  proof (cases "ntb_key_has_private key")
    case True
    then obtain a b where "private_key (signing_key key) = Some a" "private_key (encryption_key key) = Some b"
      by (auto simp: ntb_key_has_private_def)
    then show ?thesis
      using assms(2,3) True by (simp add: rules del: str_simps)
  next
    case False
    then have "private_key (signing_key key) = None" "private_key (encryption_key key) = None"
      "last_pubkey_send_time key = 0" "key_enabled key" "\<not> key_decoy key"
      using assms(1) by (auto simp: key_ok_def private_ok_def ntb_key_has_private_def)
    then show ?thesis
      using assms(2,3) False by (simp add: rules del: str_simps)
  qed
qed

section \<open>The file of the keys\<close>

definition pending :: "('b, 'p, 'c) crypto \<Rightarrow> nat \<Rightarrow> ('b, 'p) ntb_key list \<Rightarrow> ('b, 'p, 'c) ntb_load_keys_data \<Rightarrow> bool" where
  "pending cr room keys data \<longleftrightarrow> (\<exists>data'. flush_key cr room data = Ok data' \<and> fresh data' \<and> lk_keys data' = keys)"

lemma load_section:
  assumes "crypto_ok val cr" "key_ok val cr key" "64 \<le> room"
  obtains body where "write_key cr key = Some (Ok body)"
    "\<And>keys data n started rest. pending cr room keys data \<Longrightarrow> \<exists>n' data'. pending cr room (keys @ [key]) data' \<and>
       call_events (key_value_event_cb cr room) (file_events n started (lines_of (body @ rest))) data =
       call_events (key_value_event_cb cr room) (file_events n' True (lines_of rest)) data'"
proof -
  have a: "bn_ok (crypto_bn cr) val" "digest_ok (crypto_sha512 cr)" "address_ok (key_address key)"
      "addr_version (key_address key) \<noteq> 0"
    using assms(1,2) by (auto simp: crypto_ok_def key_ok_def address_ok_def)
  obtain s where s: "ntb_address_encode (crypto_bn cr) (crypto_sha512 cr) (key_address key) = Some (Ok s)"
      "ntb_address_decode (crypto_bn cr) (crypto_sha512 cr) s = Ok (key_address key)" "\<forall>c \<in> set s. graphic c"
    by (rule address_text [OF a])
  then have h: "\<forall>c \<in> set s. c \<noteq> ch_newline \<and> c \<noteq> ch_close \<and> c \<noteq> 0" "0 \<notin> set s" by (auto simp: graphic_def)
  obtain k1 k2 where k:
    "(if ntb_key_has_private key then encode_wif cr (signing_key key) else encode_public_key cr (signing_key key)) = Some (Ok k1)"
    "(if ntb_key_has_private key then encode_wif cr (encryption_key key) else encode_public_key cr (encryption_key key)) = Some (Ok k2)"
    "key_parses val cr key k1 k2" "\<forall>c \<in> set k1. graphic c" "\<forall>c \<in> set k2. graphic c"
    by (rule key_texts [OF assms(1,2)])
  define ps where "ps = key_props key k1 k2"
  have ps: "props_ok ps"
    unfolding ps_def using assms(2) k(4,5) by (intro key_props_ok) (simp_all add: key_ok_def)
  show thesis
  proof (rule that)
    show "write_key cr key = Some (Ok (header_line s @ props_text ps @ [ch_newline]))"
      unfolding ps_def by (rule write_key_eq [OF s(1) k(1,2)])
  next
    fix keys data n started rest
    assume "pending cr room keys data"
    then obtain data1 where d1: "flush_key cr room data = Ok data1" "fresh data1" "lk_keys data1 = keys"
      by (auto simp: pending_def)
    obtain data2 where d2: "key_value_event_cb cr room (EVENT_HEADER n s) data = Ok data2" "section_start cr key data2"
        "lk_keys data2 = lk_keys data1"
      by (rule header_starts_section [OF d1(1,2) h(2) s(2)])
    obtain data3 where d3: "process_all (process_property cr) ps data2 = Ok data3" "holds_key val cr key data3"
        "buf_ok (lk_label data3)" "buf_ok (lk_address data3)" "lk_keys data3 = lk_keys data2"
      using props_hold_key [OF assms(2) d2(2) k(3)] by (auto simp: ps_def)
    have "pending cr room (keys @ [key]) data3"
      using flush_holds [OF assms d3(2-4)] d1(3) d2(3) d3(5) by (simp add: pending_def)
    moreover have "key_value_event_cb cr room (EVENT_PROPERTY m kk v) u = process_property cr kk v u" for m kk v u
      by (simp add: key_value_event_cb_def)
    note call_section [where func = "key_value_event_cb cr room" and f = "process_property cr", OF ps h(1) this,
        of n started rest data]
    ultimately show "\<exists>n' data'. pending cr room (keys @ [key]) data' \<and>
        call_events (key_value_event_cb cr room)
          (file_events n started (lines_of ((header_line s @ props_text ps @ [ch_newline]) @ rest))) data =
        call_events (key_value_event_cb cr room) (file_events n' True (lines_of rest)) data'"
      using d2(1) d3(1) by auto
  qed
qed

lemma load_sections:
  assumes "crypto_ok val cr" "\<forall>key \<in> set keys. key_ok val cr key" "64 \<le> room"
  shows "\<exists>body. write_each (write_key cr) keys = Some (Ok body) \<and>
    (\<forall>keys0 data n started. pending cr room keys0 data \<longrightarrow> (\<exists>data'. pending cr room (keys0 @ keys) data' \<and>
       call_events (key_value_event_cb cr room) (file_events n started (lines_of body)) data = Ok data'))"
  using assms(2)
proof (induction keys)
  case Nil
  then show ?case by (auto simp: file_events_end)
next
  case (Cons key keys)
  obtain rest where rest: "write_each (write_key cr) keys = Some (Ok rest)"
    and IH: "\<And>keys0 data n started. pending cr room keys0 data \<Longrightarrow> \<exists>data'. pending cr room (keys0 @ keys) data' \<and>
       call_events (key_value_event_cb cr room) (file_events n started (lines_of rest)) data = Ok data'"
    using Cons by auto
  have "key_ok val cr key" using Cons.prems by simp
  from load_section [OF assms(1) this assms(3)] obtain body where body: "write_key cr key = Some (Ok body)"
    and step: "\<And>keys0 data n started rest. pending cr room keys0 data \<Longrightarrow> \<exists>n' data'. pending cr room (keys0 @ [key]) data' \<and>
       call_events (key_value_event_cb cr room) (file_events n started (lines_of (body @ rest))) data =
       call_events (key_value_event_cb cr room) (file_events n' True (lines_of rest)) data'"
    by blast
  show ?case
  proof (intro exI [of _ "body @ rest"] conjI allI impI)
    show "write_each (write_key cr) (key # keys) = Some (Ok (body @ rest))"
      by (simp add: body rest)
    fix keys0 data n started
    assume "pending cr room keys0 data"
    from step [OF this] obtain n' data1 where d1: "pending cr room (keys0 @ [key]) data1"
      "call_events (key_value_event_cb cr room) (file_events n started (lines_of (body @ rest))) data =
       call_events (key_value_event_cb cr room) (file_events n' True (lines_of rest)) data1" by blast
    from IH [OF d1(1)] d1(2) show "\<exists>data'. pending cr room (keys0 @ key # keys) data' \<and>
        call_events (key_value_event_cb cr room) (file_events n started (lines_of (body @ rest))) data = Ok data'"
      by simp
  qed
qed

text \<open>
  Whatever list of well-formed keys the store writes to its file, loading the file gives the same
  keys in the same order: labels, difficulty, times and flags, private keys as wallet text and public
  keys as points, and the address and the tags that are computed again from them.
\<close>

lemma keys_written_and_loaded:
  fixes cr :: "('a, 'b, 'c) crypto"
  assumes "crypto_ok val cr" "\<forall>key \<in> set keys. key_ok val cr key" "64 \<le> room"
  shows "\<exists>body. write_each (write_key cr) keys = Some (Ok body) \<and> ntb_load_keys cr room ecc garbage body = Ok keys"
proof -
  from load_sections [OF assms] obtain body where body: "write_each (write_key cr) keys = Some (Ok body)"
    and loaded: "\<And>data n started. pending cr room [] data \<Longrightarrow> \<exists>data'. pending cr room keys data' \<and>
       call_events (key_value_event_cb cr room) (file_events n started (lines_of body)) data = Ok data'"
    by fastforce
  define data :: "('a, 'b, 'c) ntb_load_keys_data" where "data = reset_data \<lparr>lk_ecc = ecc, lk_keys = [], lk_label = ntb_buffer_init, lk_address = ntb_buffer_init,
        lk_nonce_trials_per_byte = 0, lk_payload_length_extra_bytes = 0, lk_last_pubkey_send_time = 0,
        lk_enabled = False, lk_decoy = False, has_private_signing_key = False, has_private_encryption_key = False,
        has_public_signing_key = False, has_public_encryption_key = False,
        private_signing_key = garbage, private_encryption_key = garbage,
        public_signing_key = garbage, public_encryption_key = garbage\<rparr>"
  have "flush_key cr room data = Ok data" "fresh data" "lk_keys data = []"
    by (simp_all add: data_def flush_key_def reset_data_def fresh_def buf_ok_def ntb_buffer_init_def)
  then have "pending cr room [] data" by (auto simp: pending_def)
  from loaded [OF this] obtain data' where "pending cr room keys data'"
    "ntb_key_value_load body (key_value_event_cb cr room) data = Ok data'"
    by (auto simp: load_by_lines)
  then show ?thesis
    using body by (auto simp: ntb_load_keys_def data_def [symmetric] Let_def pending_def)
qed

section \<open>Examples\<close>

definition toy_crypto :: "(nat, 64 word, unit) crypto" where
  "toy_crypto = \<lparr>crypto_bn = nat_bignum, crypto_ssl = toy_openssl, crypto_sha512 = (\<lambda>m. replicate 64 1),
     crypto_sha256 = (\<lambda>m. replicate 32 0), crypto_ripemd160 = (\<lambda>m. replicate 20 7)\<rparr>"

definition own_key :: "(nat, 64 word) ntb_key" where
  "own_key = \<lparr>key_address = \<lparr>addr_version = 4, addr_stream = 1, addr_ripe = replicate 20 7\<rparr>,
     key_tag = replicate 32 1, tag_private_key = replicate 32 1, key_label = str ''home'',
     nonce_trials_per_byte = 320, payload_length_extra_bytes = 14000, last_pubkey_send_time = 1400000000,
     signing_key = \<lparr>private_key = Some 77, public_key = 77\<rparr>,
     encryption_key = \<lparr>private_key = Some 0, public_key = 0\<rparr>, key_enabled = False, key_decoy = True\<rparr>"

definition foreign_key :: "(nat, 64 word) ntb_key" where
  "foreign_key = \<lparr>key_address = \<lparr>addr_version = 3, addr_stream = 1, addr_ripe = replicate 20 7\<rparr>,
     key_tag = replicate 32 1, tag_private_key = replicate 32 1, key_label = [],
     nonce_trials_per_byte = 640, payload_length_extra_bytes = -1, last_pubkey_send_time = 0,
     signing_key = \<lparr>private_key = None, public_key = 5\<rparr>,
     encryption_key = \<lparr>private_key = None, public_key = 6\<rparr>, key_enabled = True, key_decoy = False\<rparr>"

lemma toy_crypto_ok: "crypto_ok (\<lambda>b. b) toy_crypto"
proof -
  have "unat p mod 256 ^ 8 = unat p" for p :: "64 word"
    using unat_less_2p [of p] by simp
  then have "octets_ok toy_openssl"
    by (simp add: octets_ok_def toy_openssl_def NTB_ECC_PUBLIC_KEY_SIZE_def be_value_be_bytes nth_append)
  then show ?thesis
    by (simp add: crypto_ok_def toy_crypto_def nat_bignum_ok digest_ok_def SHA256_DIGEST_LENGTH_def
        RIPEMD160_DIGEST_LENGTH_def inj_def)
qed

lemma sample_tag:
  "ntb_address_get_tag (\<lambda>m. replicate 64 1) \<lparr>addr_version = 4, addr_stream = 1, addr_ripe = replicate 20 7\<rparr> =
    Ok (replicate 32 1, replicate 32 1)"
  "ntb_address_get_tag (\<lambda>m. replicate 64 1) \<lparr>addr_version = 3, addr_stream = 1, addr_ripe = replicate 20 7\<rparr> =
    Ok (replicate 32 1, replicate 32 1)"
  by code_simp+

lemma sample_keys_ok: "key_ok (\<lambda>b. b) toy_crypto own_key" "key_ok (\<lambda>b. b) toy_crypto foreign_key"
  by (simp_all add: key_ok_def own_key_def foreign_key_def toy_crypto_def sample_tag private_ok_def plain_text_def
      toy_openssl_def NTB_ECC_PRIVATE_KEY_SIZE_def)

end
