(* ===== verification/Ntb_Save_Message.thy ===== *)
theory Ntb_Save_Message
  imports Ntb_Proto_Objects Ntb_Base64 Ntb_Store_Keys
begin

text \<open>
  Writing a received message as a mail (\<open>ntb-save-message.c\<close>). The result is the bytes that are written
  to the file. The broken-down local time of \<open>localtime_r\<close> is an argument. The code does not check that
  the message can be taken apart; if it cannot, it uses a structure that was never filled, which is a
  fault.
\<close>

section \<open>Operations\<close>

datatype label_classification = LABEL_NONE | LABEL_RAW | LABEL_QUOTES | LABEL_ENCODE

definition need_encoded_words :: "u8 list \<Rightarrow> bool" where
  "need_encoded_words subject \<longleftrightarrow>
     length subject > 76 - 9 \<or> (\<exists>c \<in> set subject. c \<ge> 128 \<or> c < 32) \<or>
     (\<exists>i \<in> set [0..<length subject - 1]. subject ! i = 61 \<and> subject ! (i + 1) = 63)"

definition max_chunk_length :: nat where
  "max_chunk_length = (76 - 9 - 10 - 2) div 4 * 3"

function write_encoded_words :: "u8 list \<Rightarrow> u8 list outcome" where
  "write_encoded_words subject =
     (let chunk = take max_chunk_length subject;
          rest = drop max_chunk_length subject;
          buf = ntb_base64_encode chunk
      in if length buf > (max_chunk_length * 4 + 2) div 3 then Fault
         else if rest = [] then Ok (str ''=?UTF-8?B?'' @ buf @ str ''?='')
         else bind_outcome (write_encoded_words rest) (\<lambda>more.
                Ok (str ''=?UTF-8?B?'' @ buf @ str ''?='' @ [0x0a, 0x20] @ more)))"
  by pat_completeness auto
termination
  by (relation "measure length") (auto simp: max_chunk_length_def)

declare write_encoded_words.simps [simp del]

definition write_subject :: "u8 list \<Rightarrow> u8 list outcome" where
  "write_subject subject = (if need_encoded_words subject then write_encoded_words subject else Ok subject)"

definition is_atom_char :: "u8 \<Rightarrow> bool" where
  "is_atom_char ch \<longleftrightarrow> ch \<in> set (str ''!#$%&'' @ [39] @ str ''*+-/=?^_`{|}~'') \<or>
     97 \<le> ch \<and> ch \<le> 122 \<or> 65 \<le> ch \<and> ch \<le> 90 \<or> 48 \<le> ch \<and> ch \<le> 57"

text \<open>The characters of the label are signed, so those beyond ASCII are below the space.\<close>

fun classify_loop :: "label_classification \<Rightarrow> u8 list \<Rightarrow> label_classification" where
  "classify_loop cl [] = cl"
| "classify_loop cl (c # cs) =
     (if sint c < 32 \<or> sint c > 127 \<or> c = 34 \<or> c = 92 then LABEL_ENCODE
      else if is_atom_char c then classify_loop (if cl = LABEL_NONE then LABEL_RAW else cl) cs
      else classify_loop LABEL_QUOTES cs)"

definition classify_label :: "u8 list option \<Rightarrow> label_classification" where
  "classify_label label = (case label of None \<Rightarrow> LABEL_NONE | Some l \<Rightarrow> classify_loop LABEL_NONE l)"

text \<open>The label of the key, if there is a key.\<close>

definition write_address :: "u8 list option \<Rightarrow> u8 list \<Rightarrow> u8 list outcome" where
  "write_address label address =
     (case classify_label label of
        LABEL_NONE \<Rightarrow> Ok (address @ str ''@bitmessage'')
      | LABEL_RAW \<Rightarrow> Ok (the label @ str '' <'' @ address @ str ''@bitmessage>'')
      | LABEL_QUOTES \<Rightarrow> Ok ([34] @ the label @ [34] @ str '' <'' @ address @ str ''@bitmessage>'')
      | LABEL_ENCODE \<Rightarrow>
          bind_outcome (write_encoded_words (the label)) (\<lambda>l. Ok (l @ str '' <'' @ address @ str ''@bitmessage>'')))"

record tm =
  tm_sec :: int
  tm_min :: int
  tm_hour :: int
  tm_mday :: int
  tm_mon :: nat
  tm_year :: int
  tm_wday :: nat
  tm_gmtoff :: int

definition day_names :: "string list" where
  "day_names = [''Sun'', ''Mon'', ''Tue'', ''Wed'', ''Thu'', ''Fri'', ''Sat'']"

definition month_names :: "string list" where
  "month_names = [''Jan'', ''Feb'', ''Mar'', ''Apr'', ''May'', ''Jun'', ''Jul'', ''Aug'', ''Sep'', ''Oct'', ''Nov'', ''Dec'']"

definition print_02 :: "int \<Rightarrow> u8 list" where
  "print_02 v = (let s = print_int v in if length s < 2 then 48 # s else s)"

definition date_value :: "tm \<Rightarrow> u8 list outcome" where
  "date_value tm =
     (if tm_wday tm < length day_names \<and> tm_mon tm < length month_names then
        Ok (str (day_names ! tm_wday tm) @ str '', '' @ print_int (tm_mday tm) @ str '' '' @
            str (month_names ! tm_mon tm) @ str '' '' @ print_int (tm_year tm + 1900) @ str '' '' @
            print_02 (tm_hour tm) @ str '':'' @ print_02 (tm_min tm) @ str '':'' @ print_02 (tm_sec tm) @ str '' '' @
            (if tm_gmtoff tm < 0 then str ''-'' else str ''+'') @
            print_02 (\<bar>tm_gmtoff tm\<bar> div 3600) @ print_02 (\<bar>tm_gmtoff tm\<bar> mod 3600 div 60))
      else Fault)"

text \<open>Taking the subject off the front of a message in the simple encoding.\<close>

definition split_subject :: "u64 \<Rightarrow> u8 list \<Rightarrow> u8 list option \<times> u8 list" where
  "split_subject enc message =
     (if enc = 2 \<and> length message \<ge> 9 \<and> take 8 message = str ''Subject:'' then
        (case memchr message 0x0a of
           None \<Rightarrow> (None, message)
         | Some eol \<Rightarrow>
             let rest = drop (eol + 1) message in
             (Some (drop 8 (take eol message)),
              if length rest \<ge> 5 \<and> take 5 rest = str ''Body:'' then drop 5 rest else rest))
      else (None, message))"

definition ntb_save_message ::
    "('b, 'p, 'c) crypto \<Rightarrow> tm \<Rightarrow> ('b, 'p) ntb_key option \<Rightarrow> u8 list \<Rightarrow> ('b, 'p) ntb_key \<Rightarrow> u8 list \<Rightarrow>
     u8 list outcome option" where
  "ntb_save_message cr tm from_key sender to_key blob =
     bind_run (ntb_address_encode (crypto_bn cr) (crypto_sha512 cr) (key_address to_key)) (\<lambda>to_address. Some (
       bind_outcome (write_address (map_option key_label from_key) sender) (\<lambda>from.
       bind_outcome (write_address (Some (key_label to_key)) to_address) (\<lambda>to.
       bind_outcome (date_value tm) (\<lambda>date.
       case ntb_proto_get_decrypted_msg blob (word_of_nat (length blob)) of
         Fault \<Rightarrow> Fault
       | Fail \<Rightarrow> Fault
       | Ok msg \<Rightarrow>
           (case split_subject (encoding msg) (take (unat (message_length msg)) (dm_message msg)) of (subject, body) \<Rightarrow>
            bind_outcome
              (case subject of
                 None \<Rightarrow> Ok []
               | Some s \<Rightarrow> bind_outcome (write_subject s) (\<lambda>s. Ok (str ''Subject: '' @ s @ [0x0a])))
              (\<lambda>subject_line.
                 Ok (str ''From: '' @ from @ [0x0a] @ str ''To: '' @ to @ [0x0a] @ str ''Date: '' @ date @ [0x0a] @
                     str ''Content-Type: text/plain; charset=UTF-8'' @ [0x0a] @
                     str ''Content-Transfer-Encoding: 8bit'' @ [0x0a] @
                     subject_line @ [0x0a] @ body))))))))"

section \<open>The header of the mail\<close>

definition printable :: "u8 list \<Rightarrow> bool" where
  "printable s \<longleftrightarrow> (\<forall>c \<in> set s. 32 \<le> c \<and> c < 128)"

text \<open>
  The value of a header field that cannot be taken for anything else: printable ASCII characters, where
  every newline is followed by a space, which makes the next line a continuation.
\<close>

fun folded :: "u8 list \<Rightarrow> bool" where
  "folded [] \<longleftrightarrow> True"
| "folded (c # cs) \<longleftrightarrow>
     (if c = 0x0a then (case cs of [] \<Rightarrow> False | d # ds \<Rightarrow> d = 0x20 \<and> folded ds)
      else 32 \<le> c \<and> c < 128 \<and> folded cs)"

lemma folded_printable: "printable s \<Longrightarrow> folded s"
  by (induction s) (auto simp: printable_def)

lemma folded_append: "folded a \<Longrightarrow> folded b \<Longrightarrow> folded (a @ b)"
  by (induction a rule: folded.induct) (auto split: list.splits if_splits)

lemma folded_break: "folded b \<Longrightarrow> folded (0x0a # 0x20 # b)"
  by simp

lemma printable_append [simp]: "printable (a @ b) \<longleftrightarrow> printable a \<and> printable b"
  by (auto simp: printable_def)

lemma printable_simps [simp]: "printable []" "printable (c # s) \<longleftrightarrow> 32 \<le> c \<and> c < 128 \<and> printable s"
  by (simp_all add: printable_def)

lemma printable_base64: "printable (ntb_base64_encode bs)"
proof -
  have "32 \<le> b64_char v \<and> b64_char v < 128" for v
  proof -
    have r: "32 \<le> to_alphabet_value (uint v)" "to_alphabet_value (uint v) < 128"
      using uint_nonnegative [of v] by (simp_all add: to_alphabet_value_def)
    have "uint (b64_char v) = to_alphabet_value (uint v)"
      using r by (simp add: b64_char_def unsigned_of_int take_bit_int_eq_self)
    then show ?thesis using r by (simp add: word_le_def word_less_def)
  qed
  then show ?thesis
    by (induction bs rule: ntb_base64_encode.induct) (auto simp: printable_def Let_def)
qed

lemma encoded_words_folded: "\<exists>t. write_encoded_words s = Ok t \<and> folded t"
proof (induction s rule: write_encoded_words.induct)
  case (1 s)
  define buf where "buf = ntb_base64_encode (take max_chunk_length s)"
  have "length buf \<le> (max_chunk_length * 4 + 2) div 3"
    by (simp add: buf_def length_encode max_chunk_length_def)
  then have step: "write_encoded_words s =
      (if drop max_chunk_length s = [] then Ok (str ''=?UTF-8?B?'' @ buf @ str ''?='')
       else bind_outcome (write_encoded_words (drop max_chunk_length s)) (\<lambda>more.
         Ok ((str ''=?UTF-8?B?'' @ buf @ str ''?='') @ 0x0a # 0x20 # more)))"
    by (subst write_encoded_words.simps) (simp only: Let_def buf_def [symmetric], simp)
  have word: "folded (str ''=?UTF-8?B?'' @ buf @ str ''?='')"
    using printable_base64 [of "take max_chunk_length s"]
    by (intro folded_printable) (simp add: printable_def buf_def)
  show ?case
  proof (cases "drop max_chunk_length s = []")
    case True
    then show ?thesis using word step by simp
  next
    case False
    with \<open>length buf \<le> _\<close> obtain more where "write_encoded_words (drop max_chunk_length s) = Ok more" "folded more"
      using 1 [OF refl refl refl] by (auto simp: buf_def)
    then show ?thesis
      using False step folded_append [OF word folded_break] by (simp del: str_simps folded.simps)
  qed
qed

text \<open>The text of an address: the label is written as it is only if it is printable.\<close>

lemma classify_printable: "classify_loop cl l \<noteq> LABEL_ENCODE \<Longrightarrow> printable l"
proof (induction l arbitrary: cl)
  case (Cons c l)
  then have "32 \<le> sint c" "sint c \<le> 127" "printable l"
    by (auto split: if_splits)
  moreover have "uint c = sint c"
  proof -
    have "uint (word_of_int (sint c) :: u8) = sint c"
      using calculation(1,2) by (simp only: unsigned_of_int take_bit_int_eq_self) (simp add: take_bit_int_eq_self)
    then show ?thesis by simp
  qed
  ultimately have "32 \<le> c \<and> c < 128"
    by (simp add: word_le_def word_less_def)
  with \<open>printable l\<close> show ?case by (simp add: printable_def)
qed simp

lemma write_address_folded:
  assumes "printable address"
  shows "\<exists>t. write_address label address = Ok t \<and> folded t"
proof -
  have p: "printable (str '' <'')" "printable (str ''@bitmessage>'')" "printable (str ''@bitmessage'')" "printable [34]"
    by (simp_all add: printable_def)
  show ?thesis
  proof (cases "classify_label label = LABEL_ENCODE")
    case True
    then show ?thesis
      using encoded_words_folded [of "the label"] folded_append
        folded_printable [of "str '' <'' @ address @ str ''@bitmessage>''"] p assms
      by (auto simp: write_address_def simp del: str_simps)
  next
    case False
    then have "label = None \<and> classify_label label = LABEL_NONE \<or> printable (the label)"
      using classify_printable by (auto simp: classify_label_def split: option.splits)
    then show ?thesis
      using False p assms
      by (cases "classify_label label")
        (auto simp: write_address_def simp del: str_simps intro!: folded_append folded_printable)
  qed
qed

lemma write_subject_folded: "\<exists>t. write_subject s = Ok t \<and> folded t"
  using encoded_words_folded [of s]
  by (auto simp: write_subject_def need_encoded_words_def printable_def not_le not_less intro!: folded_printable)

lemma printable_print_int: "printable (print_int v)" "printable (print_02 v)"
proof -
  have "32 \<le> c \<and> c < 128" if "is_digit c" for c
    using that by (auto simp: is_digit_def word_le_nat_alt word_less_nat_alt)
  then show "printable (print_int v)"
    using decimal_digits by (auto simp: print_int_def printable_def)
  then show "printable (print_02 v)"
    by (auto simp: print_02_def Let_def printable_def)
qed

definition tm_ok :: "tm \<Rightarrow> bool" where
  "tm_ok tm \<longleftrightarrow> tm_wday tm < 7 \<and> tm_mon tm < 12"

lemma date_printable:
  assumes "tm_ok tm"
  shows "\<exists>d. date_value tm = Ok d \<and> printable d"
proof -
  have "\<forall>d \<in> set day_names. printable (str d)" "\<forall>m \<in> set month_names. printable (str m)"
    by (simp_all add: day_names_def month_names_def printable_def)
  moreover have "length day_names = 7" "length month_names = 12"
    by (simp_all add: day_names_def month_names_def)
  ultimately have "printable (str (day_names ! tm_wday tm))" "printable (str (month_names ! tm_mon tm))"
    and "date_value tm \<noteq> Fault"
    using assms by (simp_all add: tm_ok_def date_value_def del: str_simps)
  moreover have "printable (str '', '')" "printable (str '' '')" "printable (str '':'')" "printable (str ''-'')"
    "printable (str ''+'')"
    by (simp_all add: printable_def)
  ultimately show ?thesis
    using printable_print_int by (auto simp: date_value_def simp del: str_simps split: if_splits)
qed

section \<open>Properties\<close>

definition header_field :: "string \<times> u8 list \<Rightarrow> u8 list" where
  "header_field f = str (fst f) @ str '': '' @ snd f @ [0x0a]"

text \<open>
  C30: Whatever message a peer has sent and whatever labels the keys have, the saved mail is a header with
  exactly the five fields in this order, followed by the subject if the message has one, an empty line
  and the text of the message. The values of the fields cannot introduce further fields: they are
  printable, and every line break in them is a continuation.
\<close>

theorem save_message_header:
  assumes "bn_ok (crypto_bn cr) val" "digest_ok (crypto_sha512 cr)" "address_ok (key_address to_key)"
    "addr_version (key_address to_key) \<noteq> 0" "printable sender" "tm_ok tm"
    "ntb_proto_get_decrypted_msg blob (word_of_nat (length blob)) = Ok msg"
  shows "\<exists>fields. ntb_save_message cr tm from_key sender to_key blob =
      Some (Ok (concat (map header_field fields) @ 0x0a #
        snd (split_subject (encoding msg) (take (unat (message_length msg)) (dm_message msg))))) \<and>
    map fst fields = [''From'', ''To'', ''Date'', ''Content-Type'', ''Content-Transfer-Encoding''] @
      (if fst (split_subject (encoding msg) (take (unat (message_length msg)) (dm_message msg))) = None then []
       else [''Subject'']) \<and>
    (\<forall>f \<in> set fields. folded (snd f))"
proof -
  obtain to_address where addr: "ntb_address_encode (crypto_bn cr) (crypto_sha512 cr) (key_address to_key) = Some (Ok to_address)"
      "printable to_address"
  proof -
    obtain s where s: "ntb_address_encode (crypto_bn cr) (crypto_sha512 cr) (key_address to_key) = Some (Ok s)"
      using address_encode_decode [OF assms(1-4)] by blast
    obtain cs where cs: "s = str ''BM-'' @ cs" "set cs \<subseteq> set (take 58 alphabet)"
      by (rule address_text_form [OF assms(1) s])
    have "printable (take 58 alphabet)" by (simp add: alphabet_def)
    then have "printable cs" using cs(2) by (auto simp: printable_def)
    then show thesis using that s cs(1) by simp
  qed
  obtain fr where fr: "write_address (map_option key_label from_key) sender = Ok fr" "folded fr"
    using write_address_folded [OF assms(5)] by blast
  obtain to where to: "write_address (Some (key_label to_key)) to_address = Ok to" "folded to"
    using write_address_folded [OF addr(2)] by blast
  obtain date where date: "date_value tm = Ok date" "printable date"
    using date_printable [OF assms(6)] by blast
  define fields where "fields subject = [(''From'', fr), (''To'', to), (''Date'', date),
      (''Content-Type'', str ''text/plain; charset=UTF-8''), (''Content-Transfer-Encoding'', str ''8bit'')] @
      (case subject of None \<Rightarrow> [] | Some s \<Rightarrow> [(''Subject'', s)])" for subject
  have folds: "folded (str ''text/plain; charset=UTF-8'')" "folded (str ''8bit'')" "folded date"
    using date(2) by (simp_all add: folded_printable)
  obtain subject body where split: "split_subject (encoding msg) (take (unat (message_length msg)) (dm_message msg)) = (subject, body)"
    by (cases "split_subject (encoding msg) (take (unat (message_length msg)) (dm_message msg))")
  show ?thesis
  proof (cases subject)
    case None
    then show ?thesis
      using fr to folds
      by (intro exI [of _ "fields None"])
        (simp add: ntb_save_message_def addr(1) date(1) assms(7) split fields_def header_field_def)
  next
    case (Some s)
    obtain t where "write_subject s = Ok t" "folded t" using write_subject_folded by blast
    then show ?thesis
      using fr to folds Some
      by (intro exI [of _ "fields (Some t)"])
        (simp add: ntb_save_message_def addr(1) date(1) assms(7) split fields_def header_field_def)
  qed
qed

text \<open>
  A message with a subject in the simple encoding, from a sender whose label holds a quotation mark.
\<close>

definition sample_message :: "u8 list" where
  "sample_message = [1, 4, 1, 0, 0, 0, 0] @ replicate 128 0 @ [1, 1] @ replicate 20 0 @ [2, 20] @
     str ''Subject:hi'' @ [0x0a] @ str ''Body:text'' @ [0, 0]"

lemma sample_message_ok:
  "case ntb_proto_get_decrypted_msg sample_message (word_of_nat (length sample_message)) of
     Ok msg \<Rightarrow> split_subject (encoding msg) (take (unat (message_length msg)) (dm_message msg)) =
       (Some (str ''hi''), str ''text'')
   | _ \<Rightarrow> False"
  by code_simp

theorem save_message_header_witness:
  "\<exists>fields. ntb_save_message toy_crypto
      \<lparr>tm_sec = 5, tm_min = 4, tm_hour = 3, tm_mday = 1, tm_mon = 0, tm_year = 114, tm_wday = 3, tm_gmtoff = -3600\<rparr>
      (Some (foreign_key\<lparr>key_label := str ''a'' @ [34]\<rparr>)) (str ''BM-2'') own_key sample_message =
        Some (Ok (concat (map header_field fields) @ 0x0a # str ''text'')) \<and>
    map fst fields = [''From'', ''To'', ''Date'', ''Content-Type'', ''Content-Transfer-Encoding'', ''Subject''] \<and>
    (\<forall>f \<in> set fields. folded (snd f))"
proof -
  obtain msg where msg: "ntb_proto_get_decrypted_msg sample_message (word_of_nat (length sample_message)) = Ok msg"
    "split_subject (encoding msg) (take (unat (message_length msg)) (dm_message msg)) = (Some (str ''hi''), str ''text'')"
    using sample_message_ok by (auto split: outcome.splits)
  have "bn_ok (crypto_bn toy_crypto) (\<lambda>b. b)" "digest_ok (crypto_sha512 toy_crypto)"
    using toy_crypto_ok by (simp_all add: crypto_ok_def)
  from save_message_header [OF this _ _ _ _ msg(1), of own_key "str ''BM-2''"
      "\<lparr>tm_sec = 5, tm_min = 4, tm_hour = 3, tm_mday = 1, tm_mon = 0, tm_year = 114, tm_wday = 3, tm_gmtoff = -3600\<rparr>"
      "Some (foreign_key\<lparr>key_label := str ''a'' @ [34]\<rparr>)"]
  show ?thesis
    unfolding msg(2) by (simp add: own_key_def address_ok_def RIPEMD160_DIGEST_LENGTH_def tm_ok_def)
qed

end
