(* ===== verification/Ntb_Store_Outgoings.thy ===== *)
theory Ntb_Store_Outgoings
  imports Ntb_Store_Keys
begin

text \<open>
  The file of the outgoing messages: what \<open>write_outgoing\<close> of the store writes for a list of messages,
  \<open>ntb_load_outgoings\<close> reads back as the same list, as long as the identifiers of their contents fit the
  limit of the loader.
\<close>

lemma outgoing_property_rules:
  "ntb_address_decode (crypto_bn cr) (crypto_sha512 cr) v = Ok a \<Longrightarrow>
    process_outgoing_property cr (str ''fromaddress'') v data =
      Ok (data\<lparr>lo_outgoing := (lo_outgoing data)\<lparr>from_address := a\<rparr>, has_from_address := True\<rparr>)"
  "ntb_address_decode (crypto_bn cr) (crypto_sha512 cr) v = Ok a \<Longrightarrow>
    process_outgoing_property cr (str ''toaddress'') v data =
      Ok (data\<lparr>lo_outgoing := (lo_outgoing data)\<lparr>to_address := a\<rparr>, has_to_address := True\<rparr>)"
  "parse_ackdata cr v = Ok k \<Longrightarrow> process_outgoing_property cr (str ''ackdata'') v data =
      Ok (data\<lparr>lo_outgoing := (lo_outgoing data)\<lparr>ackdata := k\<rparr>, has_ackdata := True\<rparr>)"
  "ntb_key_value_parse_int_value v INT_MAX = Some i \<Longrightarrow> process_outgoing_property cr (str ''contentid'') v data =
      Ok (data\<lparr>lo_outgoing := (lo_outgoing data)\<lparr>content_id := word_of_int i\<rparr>, has_content_id := True\<rparr>)"
  "ntb_key_value_parse_int_value v INT_MAX = Some i \<Longrightarrow> process_outgoing_property cr (str ''contentencoding'') v data =
      Ok (data\<lparr>lo_outgoing := (lo_outgoing data)\<lparr>content_encoding := to_int i\<rparr>\<rparr>)"
  "ntb_key_value_parse_int_value v INT64_MAX = Some i \<Longrightarrow> process_outgoing_property cr (str ''lastgetpubkeysendtime'') v data =
      Ok (data\<lparr>lo_outgoing := (lo_outgoing data)\<lparr>last_getpubkey_send_time := i\<rparr>\<rparr>)"
  "ntb_key_value_parse_int_value v INT64_MAX = Some i \<Longrightarrow> process_outgoing_property cr (str ''lastmsgsendtime'') v data =
      Ok (data\<lparr>lo_outgoing := (lo_outgoing data)\<lparr>last_msg_send_time := i\<rparr>\<rparr>)"
  by (simp_all add: process_outgoing_property_def)

lemma outgoing_names_ok:
  "name_ok (str ''fromaddress'')" "name_ok (str ''toaddress'')" "name_ok (str ''ackdata'')" "name_ok (str ''contentid'')"
  "name_ok (str ''contentencoding'')" "name_ok (str ''lastgetpubkeysendtime'')" "name_ok (str ''lastmsgsendtime'')"
  by (simp_all add: name_ok_def in_name_def)

definition outgoing_ok :: "ntb_store_outgoing \<Rightarrow> bool" where
  "outgoing_ok out \<longleftrightarrow>
     address_ok (from_address out) \<and> addr_version (from_address out) \<noteq> 0 \<and>
     address_ok (to_address out) \<and> addr_version (to_address out) \<noteq> 0 \<and>
     length (ackdata out) = NTB_PROTO_ACKDATA_SIZE \<and> unat (content_id out) < 2 ^ 31 \<and>
     - (2 ^ 31) \<le> content_encoding out \<and> content_encoding out < 2 ^ 31 \<and>
     - (2 ^ 63) < last_getpubkey_send_time out \<and> last_getpubkey_send_time out < 2 ^ 63 \<and>
     - (2 ^ 63) < last_msg_send_time out \<and> last_msg_send_time out < 2 ^ 63"

definition outgoing_props :: "ntb_store_outgoing \<Rightarrow> u8 list \<Rightarrow> u8 list \<Rightarrow> u8 list \<Rightarrow> (string \<times> u8 list) list" where
  "outgoing_props out sender to ack =
     [(''fromaddress'', sender), (''toaddress'', to), (''ackdata'', ack), (''contentid'', decimal (unat (content_id out))),
      (''contentencoding'', print_int (content_encoding out)),
      (''lastgetpubkeysendtime'', print_int (last_getpubkey_send_time out)),
      (''lastmsgsendtime'', print_int (last_msg_send_time out))]"

lemma ackdata_text:
  assumes "crypto_ok val cr" "length (ackdata out) = NTB_PROTO_ACKDATA_SIZE"
  obtains s where "ntb_base58_encode (crypto_bn cr) (ackdata out) = Some (Ok s)" "length s \<le> NTB_STORE_MAX_ACKDATA_LENGTH"
    "parse_ackdata cr s = Ok (ackdata out)" "\<forall>c \<in> set s. graphic c"
proof -
  have bn: "bn_ok (crypto_bn cr) val" using assms(1) by (simp add: crypto_ok_def)
  have "be_value (ackdata out) < 256 ^ 32"
    using be_value_less [of "ackdata out"] assms(2) by (simp add: NTB_PROTO_ACKDATA_SIZE_def)
  also have "\<dots> < (58 :: nat) ^ NTB_STORE_MAX_ACKDATA_LENGTH" by (simp add: NTB_STORE_MAX_ACKDATA_LENGTH_def)
  finally have small: "be_value (ackdata out) < 58 ^ NTB_STORE_MAX_ACKDATA_LENGTH" .
  obtain cs got where cs: "ntb_base58_encode (crypto_bn cr) (ackdata out) = Some (Ok cs)"
      "ntb_base58_decode (crypto_bn cr) cs NTB_PROTO_ACKDATA_SIZE = Ok got"
      "replicate (NTB_PROTO_ACKDATA_SIZE - length got) 0 @ got = ackdata out"
      "length cs \<le> NTB_STORE_MAX_ACKDATA_LENGTH" "set cs \<subseteq> set (take 58 alphabet)"
    using base58_padded [OF bn assms(2) _ small] by (auto simp: NTB_PROTO_ACKDATA_SIZE_def NTB_STORE_MAX_ACKDATA_LENGTH_def)
  then show thesis
    using that [OF cs(1,4)] graphic_alphabet [OF cs(5)] by (simp add: parse_ackdata_def)
qed

lemma print_unsigned: "decimal n = print_int (int n)"
  by (simp add: print_int_def)

lemma parse_unsigned: "n < 2 ^ 31 \<Longrightarrow> ntb_key_value_parse_int_value (decimal n) INT_MAX = Some (int n)"
  unfolding print_unsigned by (rule parse_int_fields) simp_all

lemma outgoing_props_held:
  assumes "outgoing_ok out" "ntb_address_decode (crypto_bn cr) (crypto_sha512 cr) sender = Ok (from_address out)"
    "ntb_address_decode (crypto_bn cr) (crypto_sha512 cr) to = Ok (to_address out)" "parse_ackdata cr ack = Ok (ackdata out)"
  shows "process_all (process_outgoing_property cr) (outgoing_props out sender to ack) data =
    Ok (data\<lparr>lo_outgoing := out, has_from_address := True, has_to_address := True, has_ackdata := True, has_content_id := True\<rparr>)"
proof -
  have "ntb_key_value_parse_int_value (decimal (unat (content_id out))) INT_MAX = Some (int (unat (content_id out)))"
    using assms(1) by (intro parse_unsigned) (simp add: outgoing_ok_def)
  moreover have "word_of_int (int (unat (content_id out))) = content_id out" by simp
  ultimately show ?thesis
    using assms by (simp add: outgoing_props_def outgoing_property_rules outgoing_ok_def parse_int_fields parse_time_field
        to_int_id del: str_simps)
qed

lemma outgoing_props_ok:
  assumes "\<forall>c \<in> set sender. graphic c" "\<forall>c \<in> set to. graphic c" "\<forall>c \<in> set ack. graphic c"
  shows "props_ok (outgoing_props out sender to ack)"
  using plain_text_graphic [OF graphic_print_int] plain_text_graphic [OF assms(1)] plain_text_graphic [OF assms(2)]
    plain_text_graphic [OF assms(3)]
  by (simp add: props_ok_def outgoing_props_def outgoing_names_ok print_unsigned del: str_simps)

lemma flush_complete:
  "has_from_address data \<Longrightarrow> has_to_address data \<Longrightarrow> has_ackdata data \<Longrightarrow> has_content_id data \<Longrightarrow>
    lo_outgoings (flush_outgoing data) = lo_outgoings data @ [lo_outgoing data]"
  by (simp add: flush_outgoing_def reset_outgoing_def)

lemma load_outgoing_section:
  assumes "crypto_ok val cr" "outgoing_ok out"
  obtains body where "write_outgoing cr out = Some (Ok body)"
    "\<forall>data n started rest. \<exists>n' data'. lo_outgoings (flush_outgoing data') = lo_outgoings (flush_outgoing data) @ [out] \<and>
       call_events (outgoing_event_cb cr) (file_events n started (lines_of (body @ rest))) data =
       call_events (outgoing_event_cb cr) (file_events n' True (lines_of rest)) data'"
proof -
  have a: "bn_ok (crypto_bn cr) val" "digest_ok (crypto_sha512 cr)" using assms(1) by (auto simp: crypto_ok_def)
  obtain sender where sender: "ntb_address_encode (crypto_bn cr) (crypto_sha512 cr) (from_address out) = Some (Ok sender)"
      "ntb_address_decode (crypto_bn cr) (crypto_sha512 cr) sender = Ok (from_address out)" "\<forall>c \<in> set sender. graphic c"
    using address_text [OF a, of "from_address out"] assms(2) by (auto simp: outgoing_ok_def)
  obtain to where to: "ntb_address_encode (crypto_bn cr) (crypto_sha512 cr) (to_address out) = Some (Ok to)"
      "ntb_address_decode (crypto_bn cr) (crypto_sha512 cr) to = Ok (to_address out)" "\<forall>c \<in> set to. graphic c"
    using address_text [OF a, of "to_address out"] assms(2) by (auto simp: outgoing_ok_def)
  obtain ack where ack: "ntb_base58_encode (crypto_bn cr) (ackdata out) = Some (Ok ack)"
      "length ack \<le> NTB_STORE_MAX_ACKDATA_LENGTH" "parse_ackdata cr ack = Ok (ackdata out)" "\<forall>c \<in> set ack. graphic c"
    using ackdata_text [OF assms(1), of out] assms(2) by (auto simp: outgoing_ok_def)
  define ps where "ps = outgoing_props out sender to ack"
  have ps: "props_ok ps" unfolding ps_def by (rule outgoing_props_ok [OF sender(3) to(3) ack(4)])
  have m: "\<forall>c \<in> set (str ''message''). c \<noteq> ch_newline \<and> c \<noteq> ch_close \<and> c \<noteq> 0" by simp
  have cb: "outgoing_event_cb cr (EVENT_PROPERTY m k v) u = process_outgoing_property cr k v u" for m k v u
    by (simp add: outgoing_event_cb_def)
  define body where "body = header_line (str ''message'') @ props_text ps @ [ch_newline]"
  have "write_outgoing cr out = Some (Ok body)"
    by (simp add: write_outgoing_def sender(1) to(1) ack(1,2) assert_length_def ps_def outgoing_props_def props_text_def
        body_def del: str_simps)
  moreover have "\<exists>n' data'. lo_outgoings (flush_outgoing data') = lo_outgoings (flush_outgoing data) @ [out] \<and>
       call_events (outgoing_event_cb cr) (file_events n started (lines_of (body @ rest))) data =
       call_events (outgoing_event_cb cr) (file_events n' True (lines_of rest)) data'" for data n started rest
  proof -
    define data' where "data' = (flush_outgoing data)\<lparr>lo_outgoing := out, has_from_address := True, has_to_address := True,
      has_ackdata := True, has_content_id := True\<rparr>"
    have "process_all (process_outgoing_property cr) ps (flush_outgoing data) = Ok data'"
      unfolding ps_def data'_def by (rule outgoing_props_held [OF assms(2) sender(2) to(2) ack(3)])
    moreover have "lo_outgoings (flush_outgoing data') = lo_outgoings (flush_outgoing data) @ [out]"
      by (simp add: flush_complete data'_def)
    ultimately show ?thesis
      using call_section [where func = "outgoing_event_cb cr" and f = "process_outgoing_property cr", OF ps m cb,
          of n started rest data]
      by (auto simp: outgoing_event_cb_def body_def simp del: str_simps)
  qed
  ultimately show thesis using that by blast
qed

lemma load_outgoing_sections:
  assumes "crypto_ok val cr" "\<forall>out \<in> set outs. outgoing_ok out"
  shows "\<exists>body. write_each (write_outgoing cr) outs = Some (Ok body) \<and>
    (\<forall>data n started. \<exists>data'. lo_outgoings (flush_outgoing data') = lo_outgoings (flush_outgoing data) @ outs \<and>
       call_events (outgoing_event_cb cr) (file_events n started (lines_of body)) data = Ok data')"
  using assms(2)
proof (induction outs)
  case Nil
  then show ?case by (auto simp: file_events_end)
next
  case (Cons out outs)
  then obtain rest where rest: "write_each (write_outgoing cr) outs = Some (Ok rest)"
    and IH: "\<And>data n started. \<exists>data'. lo_outgoings (flush_outgoing data') = lo_outgoings (flush_outgoing data) @ outs \<and>
       call_events (outgoing_event_cb cr) (file_events n started (lines_of rest)) data = Ok data'"
    by auto
  have "outgoing_ok out" using Cons.prems by simp
  from load_outgoing_section [OF assms(1) this] obtain body where body: "write_outgoing cr out = Some (Ok body)"
    and step: "\<And>data n started rest. \<exists>n' data'. lo_outgoings (flush_outgoing data') = lo_outgoings (flush_outgoing data) @ [out] \<and>
       call_events (outgoing_event_cb cr) (file_events n started (lines_of (body @ rest))) data =
       call_events (outgoing_event_cb cr) (file_events n' True (lines_of rest)) data'"
    by blast
  have "\<exists>data'. lo_outgoings (flush_outgoing data') = lo_outgoings (flush_outgoing data) @ out # outs \<and>
       call_events (outgoing_event_cb cr) (file_events n started (lines_of (body @ rest))) data = Ok data'" for data n started
  proof -
    from step obtain n' data1 where d1: "lo_outgoings (flush_outgoing data1) = lo_outgoings (flush_outgoing data) @ [out]"
      "call_events (outgoing_event_cb cr) (file_events n started (lines_of (body @ rest))) data =
       call_events (outgoing_event_cb cr) (file_events n' True (lines_of rest)) data1" by blast
    from IH [of data1 n' True] d1 show ?thesis by simp
  qed
  then show ?case
    by (simp add: body rest)
qed

text \<open>
  Whatever list of outgoing messages the store writes to its file, loading the file gives the same
  messages in the same order, as long as the identifiers of their contents are below the limit of the
  loader.
\<close>

lemma outgoings_written_and_loaded:
  assumes "crypto_ok val cr" "\<forall>out \<in> set outs. outgoing_ok out"
  shows "\<exists>body. write_each (write_outgoing cr) outs = Some (Ok body) \<and> ntb_load_outgoings cr garbage body = Ok outs"
proof -
  define data where "data = reset_outgoing \<lparr>lo_outgoings = [], lo_outgoing = garbage, has_from_address = False,
    has_to_address = False, has_ackdata = False, has_content_id = False\<rparr>"
  have "lo_outgoings (flush_outgoing data) = []"
    by (simp add: data_def flush_outgoing_def reset_outgoing_def)
  moreover obtain body where body: "write_each (write_outgoing cr) outs = Some (Ok body)"
    "\<And>data n started. \<exists>data'. lo_outgoings (flush_outgoing data') = lo_outgoings (flush_outgoing data) @ outs \<and>
       call_events (outgoing_event_cb cr) (file_events n started (lines_of body)) data = Ok data'"
    using load_outgoing_sections [OF assms] by blast
  from body(2) [of data] obtain data' where "lo_outgoings (flush_outgoing data') = lo_outgoings (flush_outgoing data) @ outs"
    "ntb_key_value_load body (outgoing_event_cb cr) data = Ok data'"
    unfolding load_by_lines by blast
  ultimately show ?thesis
    using body(1) by (simp add: ntb_load_outgoings_def data_def [symmetric])
qed

definition sample_outgoing :: ntb_store_outgoing where
  "sample_outgoing = \<lparr>from_address = \<lparr>addr_version = 4, addr_stream = 1, addr_ripe = replicate 20 7\<rparr>,
     to_address = \<lparr>addr_version = 3, addr_stream = 1, addr_ripe = replicate 20 0\<rparr>, ackdata = replicate 32 0,
     content_id = 12, content_encoding = 2, last_getpubkey_send_time = 1400000000, last_msg_send_time = 0\<rparr>"

lemma sample_outgoing_ok: "outgoing_ok sample_outgoing"
  by (simp add: outgoing_ok_def sample_outgoing_def address_ok_def RIPEMD160_DIGEST_LENGTH_def NTB_PROTO_ACKDATA_SIZE_def)

text \<open>An identifier beyond that limit is written in full, but the loader drops the message.\<close>

lemma large_content_id_refused:
  assumes "2 ^ 31 \<le> n" "n < 2 ^ 63"
  shows "ntb_key_value_parse_int_value (decimal n) INT_MAX = None"
proof -
  have "strtoll (decimal n) = (int n, [], False)"
    using strtoll_digits(1) [OF decimal_digits decimal_not_Nil, of n] assms(2) by (simp add: digits_value_decimal)
  then show ?thesis
    using assms(1) by (simp add: ntb_key_value_parse_int_value_def INT_MAX_def)
qed

end
