(* ===== verification/Ntb_Store.thy ===== *)
theory Ntb_Store
  imports Ntb_Save_Message Ntb_Store_Outgoings
begin

text \<open>
  The files of the store (\<open>ntb-store.c\<close>): what the handlers of the store thread do to the file system,
  and what the functions do that read the store when the program starts. The file system maps the names
  of files to their bytes. How far a save gets is an argument; \<open>fopen\<close> for reading succeeds exactly when
  the file is there. The buffers \<open>filename_buf\<close> and \<open>tmp_buf\<close> only hold the name of the file that is
  being worked on, behind the directory in front, and are represented by that name. Log messages are left
  out.
\<close>

section \<open>State\<close>

type_synonym files = "u8 list \<Rightarrow> u8 list option"

record ntb_blob =
  blob_type :: u32
  blob_data :: "u8 list"

record ntb_store =
  store_directory :: "u8 list"
  store_maildir :: "u8 list"
  num_stored_messages :: u32
  store_files :: files

text \<open>The values of the enumeration, which are what is written to the files.\<close>

fun inv_type_code :: "ntb_proto_inv_type \<Rightarrow> u32" where
  "inv_type_code NTB_PROTO_INV_TYPE_GETPUBKEY = 0"
| "inv_type_code NTB_PROTO_INV_TYPE_PUBKEY = 1"
| "inv_type_code NTB_PROTO_INV_TYPE_MSG = 2"
| "inv_type_code NTB_PROTO_INV_TYPE_BROADCAST = 3"

definition inv_type_of :: "u32 \<Rightarrow> ntb_proto_inv_type option" where
  "inv_type_of c =
     (if c = 0 then Some NTB_PROTO_INV_TYPE_GETPUBKEY else if c = 1 then Some NTB_PROTO_INV_TYPE_PUBKEY
      else if c = 2 then Some NTB_PROTO_INV_TYPE_MSG else if c = 3 then Some NTB_PROTO_INV_TYPE_BROADCAST else None)"

section \<open>Names of files\<close>

text \<open>\<open>printf\<close> of a byte as two hexadecimal digits.\<close>

definition hex_digit :: "nat \<Rightarrow> u8" where
  "hex_digit d = (if d < 10 then word_of_nat (48 + d) else word_of_nat (87 + d))"

definition print_02x :: "u8 \<Rightarrow> u8 list" where
  "print_02x b = [hex_digit (unat b div 16), hex_digit (unat b mod 16)]"

definition append_hash :: "u8 list \<Rightarrow> u8 list" where
  "append_hash hash = concat (map print_02x hash)"

definition set_hash_filename :: "ntb_store \<Rightarrow> u8 list \<Rightarrow> u8 list" where
  "set_hash_filename store hash = store_directory store @ str ''objects/'' @ append_hash hash"

definition set_message_content_filename :: "ntb_store \<Rightarrow> u64 \<Rightarrow> u8 list" where
  "set_message_content_filename store cid =
     store_directory store @ str ''outgoing/'' @ concat (map print_02x (be_bytes 8 (unat cid)))"

section \<open>Saving\<close>

text \<open>
  How far writing a file gets: it is not opened; an error is noticed while writing or when closing, with
  some of the bytes written; it cannot be renamed; or all is well. After the errors the code tries to
  remove the temporary file, which may fail too.
\<close>

datatype save_io =
    SAVE_OPEN_FAILED
  | SAVE_WRITE_FAILED nat bool
  | SAVE_CLOSE_FAILED nat bool
  | SAVE_RENAME_FAILED bool
  | SAVE_DONE

definition unlink_if :: "bool \<Rightarrow> u8 list \<Rightarrow> files \<Rightarrow> files" where
  "unlink_if done name fs = (if done then fs(name := None) else fs)"

definition rename_tmp_file :: "save_io \<Rightarrow> u8 list \<Rightarrow> files \<Rightarrow> files" where
  "rename_tmp_file io filename fs =
     (case io of
        SAVE_RENAME_FAILED done \<Rightarrow> unlink_if done filename fs
      | _ \<Rightarrow> (fs(filename := None))(take (length filename - 4) filename := fs filename))"

text \<open>Writing an object or a message content: the temporary file is removed after an error.\<close>

definition save_data :: "save_io \<Rightarrow> u8 list \<Rightarrow> u8 list \<Rightarrow> files \<Rightarrow> files" where
  "save_data io filename bytes fs =
     (case io of
        SAVE_OPEN_FAILED \<Rightarrow> fs
      | SAVE_WRITE_FAILED n done \<Rightarrow> unlink_if done filename (fs(filename \<mapsto> take n bytes))
      | SAVE_CLOSE_FAILED n done \<Rightarrow> unlink_if done filename (fs(filename \<mapsto> take n bytes))
      | _ \<Rightarrow> rename_tmp_file io filename (fs(filename \<mapsto> bytes)))"

text \<open>Writing a text: errors are only noticed when the file is closed, and the temporary file stays.\<close>

definition save_text :: "save_io \<Rightarrow> u8 list \<Rightarrow> u8 list \<Rightarrow> files \<Rightarrow> files" where
  "save_text io filename bytes fs =
     (case io of
        SAVE_OPEN_FAILED \<Rightarrow> fs
      | SAVE_WRITE_FAILED n _ \<Rightarrow> fs(filename \<mapsto> take n bytes)
      | SAVE_CLOSE_FAILED n _ \<Rightarrow> fs(filename \<mapsto> take n bytes)
      | _ \<Rightarrow> rename_tmp_file io filename (fs(filename \<mapsto> bytes)))"

definition handle_save_blob :: "save_io \<Rightarrow> u8 list \<Rightarrow> ntb_blob \<Rightarrow> ntb_store \<Rightarrow> ntb_store" where
  "handle_save_blob io hash blob store =
     store\<lparr>store_files := save_data io (set_hash_filename store hash @ str ''.tmp'')
       (be_bytes 4 (unat (blob_type blob)) @ blob_data blob) (store_files store)\<rparr>"

definition handle_delete_object :: "bool \<Rightarrow> u8 list \<Rightarrow> ntb_store \<Rightarrow> ntb_store" where
  "handle_delete_object done hash store =
     store\<lparr>store_files := unlink_if done (set_hash_filename store hash) (store_files store)\<rparr>"

definition handle_save_message_content :: "save_io \<Rightarrow> u64 \<Rightarrow> ntb_blob \<Rightarrow> ntb_store \<Rightarrow> ntb_store" where
  "handle_save_message_content io cid blob store =
     store\<lparr>store_files := save_data io (set_message_content_filename store cid @ str ''.tmp'')
       (blob_data blob) (store_files store)\<rparr>"

definition handle_delete_message_content :: "bool \<Rightarrow> u64 \<Rightarrow> ntb_store \<Rightarrow> ntb_store" where
  "handle_delete_message_content done cid store =
     store\<lparr>store_files := unlink_if done (set_message_content_filename store cid) (store_files store)\<rparr>"

text \<open>A text is only made when the file could be opened.\<close>

definition save_written :: "save_io \<Rightarrow> u8 list \<Rightarrow> u8 list outcome option \<Rightarrow> ntb_store \<Rightarrow> ntb_store outcome option" where
  "save_written io name body store =
     (if io = SAVE_OPEN_FAILED then Some (Ok store)
      else bind_run body (\<lambda>bytes.
        Some (Ok (store\<lparr>store_files := save_text io (store_directory store @ name) bytes (store_files store)\<rparr>))))"

definition handle_save_keys ::
    "('b, 'p, 'c) crypto \<Rightarrow> save_io \<Rightarrow> ('b, 'p) ntb_key list \<Rightarrow> ntb_store \<Rightarrow> ntb_store outcome option" where
  "handle_save_keys cr io keys store = save_written io (str ''keys.dat.tmp'') (write_each (write_key cr) keys) store"

definition handle_save_outgoings ::
    "('b, 'p, 'c) crypto \<Rightarrow> save_io \<Rightarrow> ntb_store_outgoing list \<Rightarrow> ntb_store \<Rightarrow> ntb_store outcome option" where
  "handle_save_outgoings cr io outgoings store =
     save_written io (str ''outgoing-messages.dat.tmp'') (write_each (write_outgoing cr) outgoings) store"

record ntb_store_addr =
  sa_timestamp :: int
  sa_stream :: u32
  sa_services :: u64
  sa_address :: ntb_netaddress

definition addr_line :: "(u8 list \<Rightarrow> u8 list) \<Rightarrow> (u8 list \<Rightarrow> u8 list) \<Rightarrow> ntb_store_addr \<Rightarrow> u8 list" where
  "addr_line ntop6 ntop4 addr =
     print_int (sa_timestamp addr) @ str '','' @ decimal (unat (sa_stream addr)) @ str '','' @
     decimal (unat (sa_services addr)) @ str '','' @ ntb_netaddress_to_string ntop6 ntop4 (sa_address addr) @ [0x0a]"

definition handle_save_addr_list ::
    "(u8 list \<Rightarrow> u8 list) \<Rightarrow> (u8 list \<Rightarrow> u8 list) \<Rightarrow> save_io \<Rightarrow> ntb_store_addr list \<Rightarrow> ntb_store \<Rightarrow> ntb_store" where
  "handle_save_addr_list ntop6 ntop4 io addrs store =
     store\<lparr>store_files := save_text io (store_directory store @ str ''addr-list.txt.tmp'')
       (concat (map (addr_line ntop6 ntop4) addrs)) (store_files store)\<rparr>"

section \<open>Saving a message\<close>

text \<open>
  The loop that asks for the name of the host with a buffer that is doubled until the name fits. The
  name is an argument; that the call fails for another reason than the size is left out.
\<close>

partial_function (option) hostname_loop :: "u8 list \<Rightarrow> nat \<Rightarrow> u8 list option" where
  "hostname_loop host_name hostname_length =
     (if length host_name < hostname_length then Some host_name
      else hostname_loop host_name (hostname_length * 2))"

text \<open>The octal escapes for the slash and the colon stand for these characters themselves.\<close>

definition escape_host :: "u8 list \<Rightarrow> u8 list" where
  "escape_host name = map (\<lambda>c. if c = 0x2f then 0x2f else if c = 0x3a then 0x3a else c) name"

definition generate_maildir_name ::
    "int \<Rightarrow> int \<Rightarrow> u8 list \<Rightarrow> ntb_store \<Rightarrow> (u8 list \<times> ntb_store) option" where
  "generate_maildir_name tv_sec tv_usec host_name store =
     map_option (\<lambda>host.
       (print_int tv_sec @ str ''.M'' @ print_int tv_usec @ str ''Q'' @ decimal (unat (num_stored_messages store)) @
          str ''.'' @ escape_host host,
        store\<lparr>num_stored_messages := num_stored_messages store + 1\<rparr>))
       (hostname_loop host_name 2)"

text \<open>
  A mail is written to \<open>tmp\<close> and moved to \<open>new\<close>. The message text is only made when the file could be
  opened. If the file cannot be renamed, it stays.
\<close>

definition handle_save_message ::
    "('b, 'p, 'c) crypto \<Rightarrow> save_io \<Rightarrow> int \<times> int \<Rightarrow> u8 list \<Rightarrow> tm \<Rightarrow> ('b, 'p) ntb_key option \<Rightarrow> u8 list \<Rightarrow>
     ('b, 'p) ntb_key \<Rightarrow> u8 list \<Rightarrow> ntb_store \<Rightarrow> ntb_store outcome option" where
  "handle_save_message cr io tv host_name tm from_key sender to_key blob store =
     (case generate_maildir_name (fst tv) (snd tv) host_name store of
        None \<Rightarrow> None
      | Some (name, store) \<Rightarrow>
          if io = SAVE_OPEN_FAILED then Some (Ok store)
          else bind_run (ntb_save_message cr tm from_key sender to_key blob) (\<lambda>bytes.
            let tmp = store_maildir store @ str ''tmp/'' @ name;
                new = store_maildir store @ str ''new'' @ drop (length (store_maildir store) + 3) tmp;
                fs = store_files store
            in Some (Ok (store\<lparr>store_files :=
                 (case io of
                    SAVE_WRITE_FAILED n _ \<Rightarrow> fs(tmp \<mapsto> take n bytes)
                  | SAVE_CLOSE_FAILED n _ \<Rightarrow> fs(tmp \<mapsto> take n bytes)
                  | SAVE_RENAME_FAILED _ \<Rightarrow> fs(tmp \<mapsto> bytes)
                  | _ \<Rightarrow> (fs(tmp := None))(new \<mapsto> bytes))\<rparr>))))"

section \<open>Loading\<close>

text \<open>
  Reading an object: the type, big-endian, and the data behind it. Whether the calls that read the open
  file succeed is an argument.
\<close>

definition load_blob_from_file :: "bool \<Rightarrow> u8 list \<Rightarrow> ntb_blob option" where
  "load_blob_from_file readable bytes =
     (if \<not> readable \<or> length bytes < 4 then None
      else Some \<lparr>blob_type = word_of_nat (be_value (take 4 bytes)), blob_data = drop 4 bytes\<rparr>)"

definition load_message_content_from_file :: "bool \<Rightarrow> u8 list \<Rightarrow> ntb_blob option" where
  "load_message_content_from_file readable bytes =
     (if \<not> readable then None
      else Some \<lparr>blob_type = inv_type_code NTB_PROTO_INV_TYPE_MSG, blob_data = bytes\<rparr>)"

definition is_hex_digit :: "u8 \<Rightarrow> bool" where
  "is_hex_digit ch \<longleftrightarrow> 97 \<le> ch \<and> ch \<le> 102 \<or> 65 \<le> ch \<and> ch \<le> 70 \<or> 48 \<le> ch \<and> ch \<le> 57"

definition hex_digit_value :: "u8 \<Rightarrow> int" where
  "hex_digit_value ch =
     (if uint ch \<ge> 97 then uint ch - 97 + 10 else if uint ch \<ge> 65 then uint ch - 65 + 10 else uint ch - 48)"

text \<open>The loop that reads the hash off the name of a file; it stops at anything that is not a digit.\<close>

fun parse_hash :: "nat \<Rightarrow> u8 list \<Rightarrow> (u8 list \<times> u8 list) option" where
  "parse_hash 0 p = Some ([], p)"
| "parse_hash (Suc n) (a # b # p) =
     (if \<not> is_hex_digit a \<or> \<not> is_hex_digit b then None
      else map_option (\<lambda>(hash, rest).
        (word_of_int (push_bit 4 (hex_digit_value a) OR hex_digit_value b) # hash, rest)) (parse_hash n p))"
| "parse_hash (Suc n) p = None"

definition NTB_PROTO_EXTRA_AGE :: int where "NTB_PROTO_EXTRA_AGE = 6 * 60 * 60"

text \<open>
  An object of the directory, with its name without the directory: the change of the file system and
  what is handed to the callback, which is the type, the hash, the time stamp and the bytes of the file.
  A type that the program does not know ends it.
\<close>

type_synonym blob_event = "u32 \<times> u8 list \<times> int \<times> u8 list"

definition process_file :: "int \<Rightarrow> bool \<Rightarrow> u8 list \<Rightarrow> ntb_store \<Rightarrow> (ntb_store \<times> blob_event option) outcome" where
  "process_file now done p store =
     (let filename = store_directory store @ str ''objects/'' @ p;
          unlinked = store\<lparr>store_files := unlink_if done filename (store_files store)\<rparr>
      in case parse_hash 32 p of
           None \<Rightarrow> Ok (store, None)
         | Some (hash, rest) \<Rightarrow>
             if rest = str ''.tmp'' then Ok (unlinked, None)
             else if rest \<noteq> [] then Ok (store, None)
             else case store_files store filename of
               None \<Rightarrow> Ok (store, None)
             | Some bytes \<Rightarrow>
                 if length bytes < 4 + 8 * 2 then Ok (store, None)
                 else
                   let buf = take (4 + 8 * 2) bytes in
                   bind_outcome (ntb_proto_get_32 buf) (\<lambda>type.
                     case ntb_proto_get_timestamp (drop (4 + 8) buf, 8) of
                       Ok (ts, _) \<Rightarrow>
                         (case inv_type_of type of
                            None \<Rightarrow> Fault
                          | Some t \<Rightarrow>
                              if now - ts \<ge> ntb_proto_get_max_age_for_type t + NTB_PROTO_EXTRA_AGE
                              then Ok (unlinked, None)
                              else Ok (store, Some (type, hash, ts, bytes)))
                     | _ \<Rightarrow> Fault))"

text \<open>The entries of the directory in the order in which they are listed.\<close>

fun for_each_blob_internal :: "int \<Rightarrow> bool \<Rightarrow> u8 list list \<Rightarrow> ntb_store \<Rightarrow> (ntb_store \<times> blob_event list) outcome" where
  "for_each_blob_internal now done [] store = Ok (store, [])"
| "for_each_blob_internal now done (d_name # names) store =
     bind_outcome (process_file now done d_name store) (\<lambda>(store, event).
       bind_outcome (for_each_blob_internal now done names store) (\<lambda>(store, events).
         Ok (store, (case event of None \<Rightarrow> events | Some e \<Rightarrow> e # events))))"

definition for_each_blob_cb :: "blob_event \<Rightarrow> u32 \<times> u8 list \<times> int" where
  "for_each_blob_cb e = (case e of (type, hash, ts, bytes) \<Rightarrow> (type, hash, ts))"

definition ntb_store_for_each_blob ::
    "int \<Rightarrow> bool \<Rightarrow> u8 list list \<Rightarrow> ntb_store \<Rightarrow> (ntb_store \<times> (u32 \<times> u8 list \<times> int) list) outcome" where
  "ntb_store_for_each_blob now done names store =
     bind_outcome (for_each_blob_internal now done names store) (\<lambda>(store, events).
       Ok (store, map for_each_blob_cb events))"

definition for_each_pubkey_blob_cb :: "blob_event \<Rightarrow> (u8 list \<times> int \<times> ntb_blob) option" where
  "for_each_pubkey_blob_cb e =
     (case e of (type, hash, ts, bytes) \<Rightarrow>
      if type \<noteq> inv_type_code NTB_PROTO_INV_TYPE_PUBKEY then None
      else Some (hash, ts, \<lparr>blob_type = inv_type_code NTB_PROTO_INV_TYPE_PUBKEY, blob_data = drop 4 bytes\<rparr>))"

definition ntb_store_for_each_pubkey_blob ::
    "int \<Rightarrow> bool \<Rightarrow> u8 list list \<Rightarrow> ntb_store \<Rightarrow> (ntb_store \<times> (u8 list \<times> int \<times> ntb_blob) list) outcome" where
  "ntb_store_for_each_pubkey_blob now done names store =
     bind_outcome (for_each_blob_internal now done names store) (\<lambda>(store, events).
       Ok (store, List.map_filter for_each_pubkey_blob_cb events))"

section \<open>The list of addresses\<close>

text \<open>\<open>strtoul\<close> and \<open>strtoull\<close> when the error is ignored: the value and the rest of the string.\<close>

definition strtoull_tail :: "u8 list \<Rightarrow> u64 \<times> u8 list" where
  "strtoull_tail s =
     (case strtoul_sign (dropWhile is_space s) of (neg, r) \<Rightarrow>
      let ds = takeWhile is_digit r; v = digits_value ds in
      if ds = [] then (0, s)
      else if v \<ge> 2 ^ 64 then (- 1, dropWhile is_digit r)
      else ((if neg then - word_of_nat v else word_of_nat v), dropWhile is_digit r))"

text \<open>What follows a number and a comma; nothing if there is no number or no comma.\<close>

definition after_comma :: "u8 list \<Rightarrow> u8 list \<Rightarrow> u8 list option" where
  "after_comma line tail =
     (if tail = line then None else case tail of [] \<Rightarrow> None | c # rest \<Rightarrow> if c = 44 then Some rest else None)"

definition strip_newline :: "u8 list \<Rightarrow> u8 list" where
  "strip_newline s = (if s \<noteq> [] \<and> last s = 0x0a then butlast s else s)"

definition process_addr_line ::
    "(u8 list \<Rightarrow> u8 list option) \<Rightarrow> (u8 list \<Rightarrow> u8 list option) \<Rightarrow> u8 list \<Rightarrow> ntb_store_addr option outcome" where
  "process_addr_line pton6 pton4 line =
     (case strtoll line of (ts, tail, _) \<Rightarrow>
      case after_comma line tail of
        None \<Rightarrow> Ok None
      | Some line1 \<Rightarrow>
          (case strtoull_tail line1 of (strm, tail) \<Rightarrow>
           case after_comma line1 tail of
             None \<Rightarrow> Ok None
           | Some line2 \<Rightarrow>
               (case strtoull_tail line2 of (services, tail) \<Rightarrow>
                case after_comma line2 tail of
                  None \<Rightarrow> Ok None
                | Some line3 \<Rightarrow>
                    (case ntb_netaddress_from_string pton6 pton4 (strip_newline line3) of
                       Fault \<Rightarrow> Fault
                     | Fail \<Rightarrow> Ok None
                     | Ok address \<Rightarrow>
                         Ok (Some \<lparr>sa_timestamp = ts, sa_stream = ucast strm, sa_services = services,
                                   sa_address = address\<rparr>)))))"

text \<open>\<open>fgets\<close> with an array of 1024 bytes: at most 1023 bytes, up to the end of a line.\<close>

function fgets_lines :: "u8 list \<Rightarrow> u8 list list" where
  "fgets_lines inp =
     (if inp = [] then []
      else
        let n = min 1023 (case memchr inp 0x0a of None \<Rightarrow> length inp | Some i \<Rightarrow> i + 1)
        in take n inp # fgets_lines (drop n inp))"
  by pat_completeness auto
termination
  by (relation "measure length") (auto split: option.splits)

declare fgets_lines.simps [simp del]

fun addr_lines ::
    "(u8 list \<Rightarrow> u8 list option) \<Rightarrow> (u8 list \<Rightarrow> u8 list option) \<Rightarrow> u8 list list \<Rightarrow> ntb_store_addr list outcome" where
  "addr_lines pton6 pton4 [] = Ok []"
| "addr_lines pton6 pton4 (line # rest) =
     bind_outcome (process_addr_line pton6 pton4 (c_text line)) (\<lambda>addr.
       bind_outcome (addr_lines pton6 pton4 rest) (\<lambda>addrs.
         Ok (case addr of None \<Rightarrow> addrs | Some a \<Rightarrow> a # addrs)))"

definition ntb_store_for_each_addr ::
    "(u8 list \<Rightarrow> u8 list option) \<Rightarrow> (u8 list \<Rightarrow> u8 list option) \<Rightarrow> ntb_store \<Rightarrow> ntb_store_addr list outcome" where
  "ntb_store_for_each_addr pton6 pton4 store =
     (case store_files store (store_directory store @ str ''addr-list.txt'') of
        None \<Rightarrow> Ok []
      | Some bytes \<Rightarrow> addr_lines pton6 pton4 (fgets_lines bytes))"

section \<open>Keys and outgoing messages\<close>

definition ntb_store_for_each_key ::
    "('b, 'p, 'c) crypto \<Rightarrow> nat \<Rightarrow> ('p, 'c) ntb_ecc \<Rightarrow> u8 list \<Rightarrow> ntb_store \<Rightarrow> ('b, 'p) ntb_key list outcome" where
  "ntb_store_for_each_key cr room ecc garbage store =
     (case store_files store (store_directory store @ str ''keys.dat'') of
        None \<Rightarrow> Ok []
      | Some bytes \<Rightarrow> ntb_load_keys cr room ecc garbage bytes)"

text \<open>
  \<open>strtoll\<close> in base 16: the value, the rest of the string, and whether it set \<open>errno\<close>. A prefix \<open>0x\<close> is
  skipped if a digit follows it.
\<close>

definition hex_number :: "u8 list \<Rightarrow> nat" where
  "hex_number ds = foldl (\<lambda>v d. v * 16 + nat (hex_digit_value d)) 0 ds"

definition skip_0x :: "u8 list \<Rightarrow> u8 list" where
  "skip_0x r =
     (case r of
        a # b # c # rest \<Rightarrow> if a = 48 \<and> (b = 120 \<or> b = 88) \<and> is_hex_digit c then c # rest else r
      | _ \<Rightarrow> r)"

definition strtoll_16 :: "u8 list \<Rightarrow> int \<times> u8 list \<times> bool" where
  "strtoll_16 s =
     (case strtoul_sign (dropWhile is_space s) of (neg, r) \<Rightarrow>
      let r = skip_0x r;
          ds = takeWhile is_hex_digit r;
          v = (if neg then - int (hex_number ds) else int (hex_number ds))
      in if ds = [] then (0, s, False)
         else if v > 2 ^ 63 - 1 then (2 ^ 63 - 1, dropWhile is_hex_digit r, True)
         else if v < - (2 ^ 63) then (- (2 ^ 63), dropWhile is_hex_digit r, True)
         else (v, dropWhile is_hex_digit r, False))"

text \<open>
  The files of contents that belong to no message are removed. The part of the name behind the directory
  is the argument; that a value is above the largest 64-bit number, which is the last guard, cannot
  happen.
\<close>

definition maybe_delete_outgoing :: "bool \<Rightarrow> u8 list \<Rightarrow> u64 list \<Rightarrow> ntb_store \<Rightarrow> ntb_store" where
  "maybe_delete_outgoing done bn used store =
     (case strtoll_16 bn of (v, tail, errno) \<Rightarrow>
      if errno \<or> tail = bn \<or> v < 0 then store
      else if (if tail \<noteq> [] then tail \<noteq> str ''.tmp'' else word_of_int v \<in> set used) then store
      else store\<lparr>store_files := unlink_if done (store_directory store @ str ''outgoing/'' @ bn) (store_files store)\<rparr>)"

definition delete_unused_outgoings :: "bool \<Rightarrow> u8 list list \<Rightarrow> u64 list \<Rightarrow> ntb_store \<Rightarrow> ntb_store" where
  "delete_unused_outgoings done names used store =
     foldl (\<lambda>store d_name. maybe_delete_outgoing done d_name used store) store names"

text \<open>
  The number of used identifiers is taken from the size of the allocation, so what the rest of the block
  happens to hold, \<open>slack\<close>, counts too.
\<close>

definition ntb_store_for_each_outgoing ::
    "('b, 'p, 'c) crypto \<Rightarrow> ntb_store_outgoing \<Rightarrow> bool \<Rightarrow> u8 list list \<Rightarrow> u64 list \<Rightarrow> ntb_store \<Rightarrow>
     (ntb_store \<times> ntb_store_outgoing list) outcome" where
  "ntb_store_for_each_outgoing cr garbage done names slack store =
     (case store_files store (store_directory store @ str ''outgoing-messages.dat'') of
        None \<Rightarrow> Ok (store, [])
      | Some bytes \<Rightarrow>
          bind_outcome (ntb_load_outgoings cr garbage bytes) (\<lambda>outgoings.
            Ok (delete_unused_outgoings done names (map content_id outgoings @ slack) store, outgoings)))"

section \<open>The directories\<close>

fun strip_trailing_slashes :: "u8 list \<Rightarrow> u8 list" where
  "strip_trailing_slashes path =
     (if length path > 1 \<and> last path = 0x2f then strip_trailing_slashes (butlast path) else path)"

declare strip_trailing_slashes.simps [simp del]

text \<open>The working directory is an argument; it is not known when \<open>getcwd\<close> fails.\<close>

definition append_absolute_path :: "u8 list option \<Rightarrow> u8 list \<Rightarrow> u8 list" where
  "append_absolute_path cwd path =
     strip_trailing_slashes
       ((if path = [] \<or> hd path \<noteq> 0x2f then case cwd of None \<Rightarrow> [] | Some d \<Rightarrow> d @ [0x2f] else []) @ path)"

record environment =
  env_XDG_DATA_HOME :: "u8 list option"
  env_HOME :: "u8 list option"
  env_cwd :: "u8 list option"

definition starts_with_slash :: "u8 list \<Rightarrow> bool" where
  "starts_with_slash s \<longleftrightarrow> s \<noteq> [] \<and> hd s = 0x2f"

text \<open>The directory of the store; the directories are made by the caller of this definition.\<close>

definition store_path :: "environment \<Rightarrow> u8 list option \<Rightarrow> u8 list outcome" where
  "store_path env given =
     (case given of
        Some d \<Rightarrow> Ok (append_absolute_path (env_cwd env) d @ str ''/'')
      | None \<Rightarrow>
          (case env_XDG_DATA_HOME env of
             Some data_home \<Rightarrow>
               if \<not> starts_with_slash data_home then Fail
               else Ok (strip_trailing_slashes data_home @ str ''/notbit/'')
           | None \<Rightarrow>
               (case env_HOME env of
                  Some home \<Rightarrow>
                    if \<not> starts_with_slash home then Fail
                    else Ok (strip_trailing_slashes home @ str ''/.local/share/notbit/'')
                | None \<Rightarrow> Fail)))"

definition maildir_path :: "environment \<Rightarrow> u8 list option \<Rightarrow> u8 list outcome" where
  "maildir_path env maildir =
     (case maildir of
        Some d \<Rightarrow> Ok (append_absolute_path (env_cwd env) d @ str ''/'')
      | None \<Rightarrow>
          (case env_HOME env of
             Some home \<Rightarrow>
               if \<not> starts_with_slash home then Fail
               else Ok (strip_trailing_slashes home @ str ''/.maildir/'')
           | None \<Rightarrow> Fail))"

text \<open>
  The directories that \<open>ntb_mkdir_hierarchy\<close> makes for a path: one for every slash but the first
  character, and the whole path if it does not end in a slash. A directory that is there already is no
  error; which ones cannot be made is an argument.
\<close>

definition ntb_mkdir :: "(u8 list \<Rightarrow> bool) \<Rightarrow> u8 list \<Rightarrow> unit outcome" where
  "ntb_mkdir ok name = (if ok name then Ok () else Fail)"

fun mkdir_all :: "(u8 list \<Rightarrow> bool) \<Rightarrow> u8 list list \<Rightarrow> unit outcome" where
  "mkdir_all ok [] = Ok ()"
| "mkdir_all ok (d # ds) = bind_outcome (ntb_mkdir ok d) (\<lambda>_. mkdir_all ok ds)"

definition hierarchy :: "u8 list \<Rightarrow> u8 list list" where
  "hierarchy path = map (\<lambda>i. take i path) (filter (\<lambda>i. path ! i = 0x2f) [1..<length path])"

definition ntb_mkdir_hierarchy :: "(u8 list \<Rightarrow> bool) \<Rightarrow> u8 list \<Rightarrow> unit outcome" where
  "ntb_mkdir_hierarchy ok path =
     (if path = [] then Ok ()
      else bind_outcome (mkdir_all ok (hierarchy path)) (\<lambda>_.
        if last path \<noteq> 0x2f then ntb_mkdir ok path else Ok ()))"

definition init_store_directory :: "environment \<Rightarrow> (u8 list \<Rightarrow> bool) \<Rightarrow> u8 list option \<Rightarrow> u8 list outcome" where
  "init_store_directory env ok given =
     bind_outcome (store_path env given) (\<lambda>dir.
       bind_outcome (ntb_mkdir_hierarchy ok (dir @ str ''objects'')) (\<lambda>_.
         bind_outcome (ntb_mkdir ok (dir @ str ''outgoing'')) (\<lambda>_. Ok dir)))"

definition init_maildir :: "environment \<Rightarrow> (u8 list \<Rightarrow> bool) \<Rightarrow> u8 list option \<Rightarrow> u8 list outcome" where
  "init_maildir env ok maildir =
     bind_outcome (maildir_path env maildir) (\<lambda>dir.
       bind_outcome (ntb_mkdir_hierarchy ok (dir @ str ''new'')) (\<lambda>_.
         bind_outcome (ntb_mkdir ok (dir @ str ''tmp'')) (\<lambda>_.
           bind_outcome (ntb_mkdir ok (dir @ str ''cur'')) (\<lambda>_. Ok dir))))"

definition ntb_store_new ::
    "environment \<Rightarrow> (u8 list \<Rightarrow> bool) \<Rightarrow> u8 list option \<Rightarrow> u8 list option \<Rightarrow> files \<Rightarrow> ntb_store outcome" where
  "ntb_store_new env ok given maildir fs =
     bind_outcome (init_store_directory env ok given) (\<lambda>dir.
       bind_outcome (init_maildir env ok maildir) (\<lambda>mail.
         Ok \<lparr>store_directory = dir, store_maildir = mail, num_stored_messages = 0, store_files = fs\<rparr>))"

end
