(* ===== verification/Ntb_Store_Disk.thy ===== *)
theory Ntb_Store_Disk
  imports Ntb_Store
begin

text \<open>
  Properties of the files of the store: saving replaces a file as a whole or not at all, however far it
  gets, and what has been saved is found again when the program starts.
\<close>

section \<open>Names of files\<close>

lemma is_hex_digit_hex: "d < 16 \<Longrightarrow> is_hex_digit (hex_digit d) \<and> hex_digit_value (hex_digit d) = int d"
proof -
  assume "d < 16"
  moreover have "\<forall>d \<in> set [0..<16]. is_hex_digit (hex_digit d) \<and> hex_digit_value (hex_digit d) = int d"
    by code_simp
  ultimately show ?thesis by simp
qed

lemma hex_pair: "word_of_int (push_bit 4 (int (unat b div 16)) OR int (unat b mod 16)) = (b :: u8)"
proof -
  define h l where "h = int (unat b div 16)" and "l = int (unat b mod 16)"
  have l: "take_bit 4 l = l" by (simp add: l_def take_bit_int_eq_self)
  have "push_bit 4 h OR l = concat_bit 4 l h" by (simp add: concat_bit_def l or.commute)
  also have "\<dots> = l + 16 * h" by (simp add: concat_bit_eq l push_bit_eq_mult)
  also have "\<dots> = int (16 * (unat b div 16) + unat b mod 16)" by (simp only: h_def l_def of_nat_add of_nat_mult)
  also have "\<dots> = int (unat b)" by (simp only: mult_div_mod_eq)
  finally show ?thesis by (simp add: h_def l_def)
qed

lemma parse_append_hash: "parse_hash (length hash) (append_hash hash @ rest) = Some (hash, rest)"
proof (induction hash)
  case (Cons b hash)
  have "unat b div 16 < 16" using unat_u8_less [of b] by simp
  then show ?case
    using Cons is_hex_digit_hex [of "unat b div 16"] is_hex_digit_hex [of "unat b mod 16"] hex_pair [of b]
    by (simp add: append_hash_def print_02x_def)
qed (simp add: append_hash_def)

section \<open>Saving is atomic\<close>

definition replaces :: "u8 list \<Rightarrow> u8 list \<Rightarrow> files \<Rightarrow> files \<Rightarrow> bool" where
  "replaces name bytes fs fs' \<longleftrightarrow>
     (\<forall>n. n \<noteq> name @ str ''.tmp'' \<longrightarrow> fs' n = fs n) \<or>
     fs' = (fs(name @ str ''.tmp'' := None))(name \<mapsto> bytes)"

lemma rename_tmp_file_done:
  "io = SAVE_DONE \<Longrightarrow> rename_tmp_file io (name @ str ''.tmp'') (fs(name @ str ''.tmp'' \<mapsto> bytes)) =
    (fs(name @ str ''.tmp'' := None))(name \<mapsto> bytes)"
  by (simp add: rename_tmp_file_def)

lemma save_replaces:
  "replaces name bytes fs (save_data io (name @ str ''.tmp'') bytes fs)"
  "replaces name bytes fs (save_text io (name @ str ''.tmp'') bytes fs)"
  by (cases io; simp add: replaces_def save_data_def save_text_def unlink_if_def rename_tmp_file_def)+

lemma save_done:
  "save_data SAVE_DONE (name @ str ''.tmp'') bytes fs = (fs(name @ str ''.tmp'' := None))(name \<mapsto> bytes)"
  "save_text SAVE_DONE (name @ str ''.tmp'') bytes fs = (fs(name @ str ''.tmp'' := None))(name \<mapsto> bytes)"
  by (simp_all add: save_data_def save_text_def rename_tmp_file_done del: str_simps)

lemma replaces_lookup:
  "replaces name bytes fs fs' \<Longrightarrow> fs' name = fs name \<or> fs' name = Some bytes"
  "replaces name bytes fs fs' \<Longrightarrow> n \<noteq> name \<Longrightarrow> n \<noteq> name @ str ''.tmp'' \<Longrightarrow> fs' n = fs n"
  by (auto simp: replaces_def)

lemma save_written_cases:
  assumes "body = Some (Ok bytes)"
  obtains store' where "save_written io (name @ str ''.tmp'') body store = Some (Ok store')"
    "replaces (store_directory store @ name) bytes (store_files store) (store_files store')"
    "store_directory store' = store_directory store"
    "io = SAVE_DONE \<longrightarrow> store_files store' (store_directory store @ name) = Some bytes"
proof (cases "io = SAVE_OPEN_FAILED")
  case True
  then show thesis using that [of store] by (simp add: save_written_def replaces_def del: str_simps)
next
  case False
  show thesis
    using that [of "store\<lparr>store_files := save_text io (store_directory store @ name @ str ''.tmp'') bytes (store_files store)\<rparr>"]
      save_replaces(2) [of "store_directory store @ name" bytes "store_files store" io]
      save_done(2) [of "store_directory store @ name" bytes "store_files store"] False
    by (simp add: save_written_def assms del: str_simps)
qed



section \<open>The contents of messages\<close>

lemma hex_number_snoc: "hex_number (ds @ [d]) = hex_number ds * 16 + nat (hex_digit_value d)"
  by (simp add: hex_number_def)

lemma hex_number_print: "hex_number (append_hash bs) = be_value bs"
proof (induction bs rule: rev_induct)
  case Nil
  then show ?case by (simp add: append_hash_def hex_number_def)
next
  case (snoc b bs)
  have "unat b div 16 < 16" using unat_u8_less [of b] by simp
  then have "hex_number (append_hash (bs @ [b])) = (be_value bs * 16 + unat b div 16) * 16 + unat b mod 16"
    using snoc is_hex_digit_hex [of "unat b div 16"] is_hex_digit_hex [of "unat b mod 16"]
      hex_number_snoc [of "append_hash bs @ [hex_digit (unat b div 16)]"] hex_number_snoc [of "append_hash bs"]
    by (simp add: append_hash_def print_02x_def)
  then show ?case by (simp add: be_value_snoc)
qed

lemma append_hash_digits: "\<forall>c \<in> set (append_hash bs). is_hex_digit c"
proof -
  have "is_hex_digit (hex_digit (unat b div 16)) \<and> is_hex_digit (hex_digit (unat b mod 16))" for b :: u8
    using is_hex_digit_hex [of "unat b div 16"] is_hex_digit_hex [of "unat b mod 16"] unat_u8_less [of b] by simp
  then show ?thesis by (auto simp: append_hash_def print_02x_def)
qed

lemma strtoll_16_digits:
  assumes "\<forall>c \<in> set ds. is_hex_digit c" "ds \<noteq> []"
  shows "strtoll_16 ds = (if hex_number ds < 2 ^ 63 then (int (hex_number ds), [], False) else (2 ^ 63 - 1, [], True))"
proof -
  have all: "takeWhile is_hex_digit ds = ds" "dropWhile is_hex_digit ds = []"
    using assms(1) by (auto simp: takeWhile_eq_all_conv)
  obtain c cs where c: "ds = c # cs" "is_hex_digit c" using assms by (cases ds) auto
  then have "\<not> is_space c" "c \<noteq> 45" "c \<noteq> 43"
    by (auto simp: is_hex_digit_def is_space_def word_le_nat_alt)
  then have sign: "strtoul_sign (dropWhile is_space ds) = (False, ds)" by (simp add: c strtoul_sign_def)
  have "\<not> is_hex_digit 120" "\<not> is_hex_digit 88" by (simp_all add: is_hex_digit_def)
  then have skip: "skip_0x ds = ds"
    using assms(1) by (auto simp: skip_0x_def split: list.splits)
  have range: "(2 :: int) ^ 63 - 1 < int (hex_number ds) \<longleftrightarrow> \<not> hex_number ds < 2 ^ 63"
    "\<not> int (hex_number ds) < - (2 ^ 63)" by auto
  show ?thesis
    unfolding strtoll_16_def sign prod.case Let_def skip all by (simp only: assms(2) range if_False) simp
qed

lemma content_file_kept:
  assumes "cid \<in> set used"
  shows "store_files (maybe_delete_outgoing done bn used store) (set_message_content_filename store cid) =
    store_files store (set_message_content_filename store cid)"
proof (cases "bn = append_hash (be_bytes 8 (unat cid))")
  case True
  have "be_bytes 8 (unat cid) \<noteq> []" by (auto simp: length_be_bytes dest: arg_cong [of _ _ length])
  then have "bn \<noteq> []" unfolding True by (cases "be_bytes 8 (unat cid)") (auto simp: append_hash_def print_02x_def)
  moreover have "hex_number bn = unat cid"
    using unat_less_2p [of cid] by (simp add: True hex_number_print be_value_be_bytes)
  ultimately have "strtoll_16 bn = (if unat cid < 2 ^ 63 then (int (unat cid), [], False) else (2 ^ 63 - 1, [], True))"
    using strtoll_16_digits [of bn] append_hash_digits unfolding True by simp
  then show ?thesis
    using assms by (simp add: maybe_delete_outgoing_def)
next
  case False
  then show ?thesis
    by (simp add: maybe_delete_outgoing_def unlink_if_def set_message_content_filename_def append_hash_def split_def)
qed

lemma maybe_delete_directory [simp]: "store_directory (maybe_delete_outgoing done bn used store) = store_directory store"
  by (simp add: maybe_delete_outgoing_def split_def)

lemma contents_kept:
  assumes "cid \<in> set used"
  shows "store_files (delete_unused_outgoings done names used store) (set_message_content_filename store cid) =
    store_files store (set_message_content_filename store cid)"
  unfolding delete_unused_outgoings_def
proof (induction names arbitrary: store)
  case (Cons bn names)
  have "set_message_content_filename (maybe_delete_outgoing done bn used store) cid = set_message_content_filename store cid"
    by (simp add: set_message_content_filename_def)
  then show ?case
    using Cons.IH [of "maybe_delete_outgoing done bn used store"] content_file_kept [OF assms] by simp
qed simp

text \<open>
  Cleaning up when the outgoing messages are loaded never removes the file that holds the content of a
  message that has been loaded, whatever else lies in the directory.
\<close>

theorem used_contents_kept:
  assumes "ntb_store_for_each_outgoing cr garbage done names slack store = Ok (store', outs)" "out \<in> set outs"
  shows "store_files store' (set_message_content_filename store (content_id out)) =
    store_files store (set_message_content_filename store (content_id out))"
proof (cases "store_files store (store_directory store @ str ''outgoing-messages.dat'')")
  case None
  then show ?thesis using assms by (simp add: ntb_store_for_each_outgoing_def del: str_simps)
next
  case (Some bytes)
  then have "store' = delete_unused_outgoings done names (map content_id outs @ slack) store"
    using assms(1) by (auto simp: ntb_store_for_each_outgoing_def simp del: str_simps)
  then show ?thesis
    using assms(2) contents_kept [of "content_id out" "map content_id outs @ slack"] by simp
qed

section \<open>Objects\<close>

definition object_bytes :: "ntb_blob \<Rightarrow> u8 list" where
  "object_bytes blob = be_bytes 4 (unat (blob_type blob)) @ blob_data blob"

lemma load_object_bytes: "load_blob_from_file True (object_bytes blob) = Some blob"
proof -
  have "word_of_nat (be_value (be_bytes 4 (unat (blob_type blob)))) = blob_type blob"
    using unat_less_2p [of "blob_type blob"] by (simp add: be_value_be_bytes)
  then show ?thesis by (simp add: load_blob_from_file_def object_bytes_def)
qed

lemma inv_type_of_code: "inv_type_of (inv_type_code t) = Some t"
  by (cases t) (simp_all add: inv_type_of_def)

lemma process_saved_object:
  assumes "length hash = 32" "blob_type blob = inv_type_code t" "8 + 8 \<le> length (blob_data blob)"
    "ntb_proto_get_timestamp (take 8 (drop 8 (blob_data blob)), 8) = Ok (ts, c)"
    "store_files store (set_hash_filename store hash) = Some (object_bytes blob)"
  shows "process_file now done (append_hash hash) store =
    (if now - ts < ntb_proto_get_max_age_for_type t + NTB_PROTO_EXTRA_AGE
     then Ok (store, Some (blob_type blob, hash, ts, object_bytes blob))
     else Ok (handle_delete_object done hash store, None))"
proof -
  have "parse_hash 32 (append_hash hash) = Some (hash, [])"
    using parse_append_hash [of hash "[]"] assms(1) by simp
  moreover have "ntb_proto_get_32 (take (4 + 8 * 2) (object_bytes blob)) = Ok (blob_type blob)"
    by (simp add: ntb_proto_get_32_def object_bytes_def get_be_word)
  moreover have "drop (4 + 8) (take (4 + 8 * 2) (object_bytes blob)) = take 8 (drop 8 (blob_data blob))"
    by (simp add: object_bytes_def drop_take)
  moreover have "\<not> length (object_bytes blob) < 4 + 8 * 2" using assms(3) by (simp add: object_bytes_def)
  moreover have "[] \<noteq> str ''.tmp''" by simp
  ultimately show ?thesis
    using assms(4,5) inv_type_of_code [of t]
    by (simp add: process_file_def Let_def assms(2) set_hash_filename_def handle_delete_object_def not_less del: str_simps)
qed

lemma append_hash_inject: "length a = length b \<Longrightarrow> append_hash a = append_hash b \<longleftrightarrow> a = b"
proof -
  assume l: "length a = length b"
  have "a = b" if "append_hash a = append_hash b"
  proof -
    have "parse_hash (length b) (append_hash b) = Some (a, [])"
      using parse_append_hash [of a "[]"] that l by simp
    moreover have "parse_hash (length b) (append_hash b) = Some (b, [])"
      using parse_append_hash [of b "[]"] by simp
    ultimately show ?thesis by simp
  qed
  then show ?thesis by blast
qed

lemma append_hash_not_tmp: "append_hash a @ str ''.tmp'' \<noteq> append_hash b"
proof
  assume "append_hash a @ str ''.tmp'' = append_hash b"
  then have "set (str ''.tmp'') \<subseteq> set (append_hash b)" by (metis set_append Un_upper2)
  then have "is_hex_digit 46" using append_hash_digits [of b] by auto
  then show False by (simp add: is_hex_digit_def)
qed

lemma save_blob_files:
  assumes "length hash = 32" "length hash' = 32"
  shows "store_files (handle_save_blob SAVE_DONE hash blob store) (set_hash_filename store hash') =
    (if hash' = hash then Some (object_bytes blob) else store_files store (set_hash_filename store hash'))"
  using assms append_hash_inject [of hash hash'] append_hash_not_tmp [of hash hash']
  unfolding handle_save_blob_def set_hash_filename_def object_bytes_def [symmetric]
  by (simp add: save_done(1) [of "store_directory store @ str ''objects/'' @ append_hash hash", simplified append_assoc]
      del: str_simps) auto

lemma save_blob_directory [simp]: "store_directory (handle_save_blob io hash blob store) = store_directory store"
  by (simp add: handle_save_blob_def)

definition save_all :: "(u8 list \<times> ntb_blob) list \<Rightarrow> ntb_store \<Rightarrow> ntb_store" where
  "save_all objs store = foldl (\<lambda>store (hash, blob). handle_save_blob SAVE_DONE hash blob store) store objs"

lemma save_all_files:
  assumes "\<forall>(h, b) \<in> set objs. length h = 32" "length hash = 32"
  shows "store_files (save_all objs store) (set_hash_filename store hash) =
    (case map_of (rev objs) hash of Some blob \<Rightarrow> Some (object_bytes blob) | None \<Rightarrow> store_files store (set_hash_filename store hash)) \<and>
    store_directory (save_all objs store) = store_directory store"
  using assms(1)
proof (induction objs rule: rev_induct)
  case (snoc p objs)
  obtain h b where p: "p = (h, b)" by (cases p)
  have "set_hash_filename (save_all objs store) hash = set_hash_filename store hash"
    using snoc by (simp add: set_hash_filename_def)
  then show ?case
    using snoc save_blob_files [of h hash b "save_all objs store"] assms(2) by (simp add: save_all_def p)
qed (simp add: save_all_def)

text \<open>An object that the scan at the start accepts at a given time, with its time stamp.\<close>

definition object_ok :: "int \<Rightarrow> u8 list \<times> ntb_blob \<Rightarrow> int \<Rightarrow> bool" where
  "object_ok now p ts \<longleftrightarrow> length (fst p) = 32 \<and> 8 + 8 \<le> length (blob_data (snd p)) \<and>
     (\<exists>t c. blob_type (snd p) = inv_type_code t \<and>
        ntb_proto_get_timestamp (take 8 (drop 8 (blob_data (snd p))), 8) = Ok (ts, c) \<and>
        now - ts < ntb_proto_get_max_age_for_type t + NTB_PROTO_EXTRA_AGE)"

lemma scan_finds_objects:
  assumes "\<forall>(p, ts) \<in> set objs. object_ok now p ts \<and> store_files store (set_hash_filename store (fst p)) = Some (object_bytes (snd p))"
  shows "for_each_blob_internal now done (map (\<lambda>(p, ts). append_hash (fst p)) objs) store =
    Ok (store, map (\<lambda>(p, ts). (blob_type (snd p), fst p, ts, object_bytes (snd p))) objs)"
  using assms
proof (induction objs)
  case (Cons x objs)
  obtain hash blob ts where x: "x = ((hash, blob), ts)" by (metis prod.exhaust)
  obtain t c where "length hash = 32" "8 + 8 \<le> length (blob_data blob)" "blob_type blob = inv_type_code t"
    "ntb_proto_get_timestamp (take 8 (drop 8 (blob_data blob)), 8) = Ok (ts, c)"
    "now - ts < ntb_proto_get_max_age_for_type t + NTB_PROTO_EXTRA_AGE"
    "store_files store (set_hash_filename store hash) = Some (object_bytes blob)"
    using Cons.prems by (auto simp: object_ok_def x)
  then have "process_file now done (append_hash hash) store = Ok (store, Some (blob_type blob, hash, ts, object_bytes blob))"
    using process_saved_object [of hash blob t ts c store now "done"] by simp
  then show ?case
    using Cons by (simp add: x)
qed simp


section \<open>The list of addresses\<close>

text \<open>What is assumed of the text forms that \<open>inet_ntop\<close> gives and \<open>inet_pton\<close> reads.\<close>

definition resolver_ok ::
    "(u8 list \<Rightarrow> u8 list) \<Rightarrow> (u8 list \<Rightarrow> u8 list option) \<Rightarrow> (u8 list \<Rightarrow> u8 list) \<Rightarrow> (u8 list \<Rightarrow> u8 list option) \<Rightarrow> bool" where
  "resolver_ok ntop6 pton6 ntop4 pton4 \<longleftrightarrow>
     (\<forall>h. length h = 16 \<longrightarrow> pton6 (ntop6 h) = Some h \<and> length (ntop6 h) < 46 \<and>
        (\<forall>c \<in> set (ntop6 h). c \<noteq> 93 \<and> c \<noteq> 0 \<and> c \<noteq> 0x0a)) \<and>
     (\<forall>h. length h = 4 \<longrightarrow> pton4 (ntop4 h) = Some h \<and> length (ntop4 h) < 46 \<and> ntop4 h \<noteq> [] \<and> hd (ntop4 h) \<noteq> 91 \<and>
        (\<forall>c \<in> set (ntop4 h). c \<noteq> 58 \<and> c \<noteq> 0 \<and> c \<noteq> 0x0a))"

definition addr_ok :: "ntb_store_addr \<Rightarrow> bool" where
  "addr_ok a \<longleftrightarrow> netaddress_ok (sa_address a) \<and> - (2 ^ 63) < sa_timestamp a \<and> sa_timestamp a < 2 ^ 63"

lemma length_decimal: "n < 10 ^ k \<Longrightarrow> 0 < k \<Longrightarrow> length (decimal n) \<le> k"
proof (induction k arbitrary: n)
  case (Suc k)
  show ?case
  proof (cases "n < 10")
    case True
    then show ?thesis by (simp add: decimal.simps [of n])
  next
    case False
    then have "0 < k" "n div 10 < 10 ^ k" using Suc.prems by (cases k; auto)+
    then show ?thesis using Suc.IH [of "n div 10"] False by (simp add: decimal.simps [of n])
  qed
qed simp

lemma takeWhile_digits:
  "takeWhile is_digit (decimal n @ 44 # rest) = decimal n" "dropWhile is_digit (decimal n @ 44 # rest) = 44 # rest"
  using decimal_digits [of n] by (simp_all add: takeWhile_append2 dropWhile_append2 is_digit_def)

lemma decimal_sign:
  "strtoul_sign (dropWhile is_space (decimal n @ rest)) = (False, decimal n @ rest)"
  "strtoul_sign (dropWhile is_space (45 # decimal n @ rest)) = (True, decimal n @ rest)"
proof -
  obtain c cs where c: "decimal n = c # cs" "is_digit c"
    using decimal_not_Nil [of n] decimal_digits [of n] by (cases "decimal n") auto
  then have "\<not> is_space c" "c \<noteq> 45" "c \<noteq> 43"
    by (auto simp: is_digit_def is_space_def word_le_nat_alt)
  then show "strtoul_sign (dropWhile is_space (decimal n @ rest)) = (False, decimal n @ rest)"
    by (simp add: c strtoul_sign_def)
  show "strtoul_sign (dropWhile is_space (45 # decimal n @ rest)) = (True, decimal n @ rest)"
    by (simp add: is_space_def strtoul_sign_def)
qed

lemma strtoll_comma:
  assumes "- (2 ^ 63) < v" "v < 2 ^ 63"
  shows "strtoll (print_int v @ 44 # rest) = (v, 44 # rest, False)"
proof -
  have range: "\<not> (2 :: int) ^ 63 - 1 < v" "\<not> v < - (2 ^ 63)" using assms by simp_all
  show ?thesis
  proof (cases "v < 0")
    case True
    then have v: "- int (digits_value (decimal (nat (- v)))) = v" by (simp add: digits_value_decimal)
    show ?thesis
      using True range
      by (simp only: print_int_def if_True append_Cons strtoll_def decimal_sign prod.case Let_def takeWhile_digits
          decimal_not_Nil if_False v)
  next
    case False
    then have v: "int (digits_value (decimal (nat v))) = v" by (simp add: digits_value_decimal)
    show ?thesis
      using False range
      by (simp only: print_int_def strtoll_def decimal_sign prod.case Let_def takeWhile_digits decimal_not_Nil if_False v)
  qed
qed

lemma strtoull_comma:
  assumes "n < 2 ^ 64"
  shows "strtoull_tail (decimal n @ 44 # rest) = (word_of_nat n, 44 # rest)"
proof -
  have "\<not> 2 ^ 64 \<le> n" using assms by simp
  then show ?thesis
    by (simp only: strtoull_tail_def decimal_sign prod.case Let_def takeWhile_digits decimal_not_Nil if_False
        digits_value_decimal)
qed

lemma after_comma_found: "xs \<noteq> [] \<Longrightarrow> after_comma (xs @ 44 # rest) (44 # rest) = Some rest"
  by (simp add: after_comma_def)

lemma fgets_line:
  assumes "0x0a \<notin> set l" "length l < 1023"
  shows "fgets_lines (l @ 0x0a # rest) = (l @ [0x0a]) # fgets_lines rest"
proof -
  have "min 1023 (length l + 1) = length l + 1" using assms(2) by simp
  then show ?thesis
    using memchr_append_first [OF assms(1), of rest] by (subst fgets_lines.simps) (simp only: option.case Let_def, simp)
qed

lemma address_text_ok:
  assumes "resolver_ok ntop6 pton6 ntop4 pton4" "netaddress_ok a"
  shows "ntb_netaddress_from_string pton6 pton4 (ntb_netaddress_to_string ntop6 ntop4 a) = Ok a"
    "\<forall>c \<in> set (ntb_netaddress_to_string ntop6 ntop4 a). c \<noteq> 0 \<and> c \<noteq> 0x0a"
    "length (ntb_netaddress_to_string ntop6 ntop4 a) \<le> 60"
proof -
  show "ntb_netaddress_from_string pton6 pton4 (ntb_netaddress_to_string ntop6 ntop4 a) = Ok a"
    using assms by (intro string_roundtrip) (auto simp: resolver_ok_def)
  have digits: "\<forall>c \<in> set (decimal n). c \<noteq> 0 \<and> c \<noteq> 0x0a" for n
    using decimal_digits [of n] by (auto simp: is_digit_def)
  have "unat (port a) < 10 ^ 5" using unat_less_2p [of "port a"] by simp
  then have len: "length (decimal (unat (port a))) \<le> 5" by (rule length_decimal) simp
  have "length (host a) = 16" "length (drop 12 (host a)) = 4" using assms(2) by (simp_all add: netaddress_ok_def)
  then have "\<forall>c \<in> set (ntop6 (host a)). c \<noteq> 0 \<and> c \<noteq> 0x0a" "length (ntop6 (host a)) < 46"
    "\<forall>c \<in> set (ntop4 (drop 12 (host a))). c \<noteq> 0 \<and> c \<noteq> 0x0a" "length (ntop4 (drop 12 (host a))) < 46"
    using assms(1) unfolding resolver_ok_def by blast+
  with digits len show "\<forall>c \<in> set (ntb_netaddress_to_string ntop6 ntop4 a). c \<noteq> 0 \<and> c \<noteq> 0x0a"
    "length (ntb_netaddress_to_string ntop6 ntop4 a) \<le> 60"
    by (auto simp: ntb_netaddress_to_string_def)
qed

lemma addr_line_parsed:
  assumes "resolver_ok ntop6 pton6 ntop4 pton4" "addr_ok a"
  obtains l where "addr_line ntop6 ntop4 a = l @ [0x0a]" "0x0a \<notin> set l" "length l < 1023"
    "process_addr_line pton6 pton4 (c_text (l @ [0x0a])) = Ok (Some a)"
proof -
  define address where "address = ntb_netaddress_to_string ntop6 ntop4 (sa_address a)"
  define l where "l = print_int (sa_timestamp a) @ 44 # decimal (unat (sa_stream a)) @ 44 #
    decimal (unat (sa_services a)) @ 44 # address"
  note addr = address_text_ok [OF assms(1), of "sa_address a", folded address_def]
  have ok: "netaddress_ok (sa_address a)" "- (2 ^ 63) < sa_timestamp a" "sa_timestamp a < 2 ^ 63"
    using assms(2) by (simp_all add: addr_ok_def)
  have digits: "\<forall>c \<in> set (decimal n). c \<noteq> 0 \<and> c \<noteq> 0x0a" for n
    using decimal_digits [of n] by (auto simp: is_digit_def)
  then have int: "\<forall>c \<in> set (print_int v). c \<noteq> 0 \<and> c \<noteq> 0x0a" for v by (auto simp: print_int_def)
  have chars: "0x0a \<notin> set l" "0 \<notin> set l"
    using digits int addr(2) [OF ok(1)] by (auto simp: l_def)
  have "nat \<bar>sa_timestamp a\<bar> < 10 ^ 20" "unat (sa_stream a) < 10 ^ 20" "unat (sa_services a) < 10 ^ 20"
    using ok unat_less_2p [of "sa_stream a"] unat_less_2p [of "sa_services a"] by simp_all
  then have "length (decimal (nat \<bar>sa_timestamp a\<bar>)) \<le> 20" "length (decimal (unat (sa_stream a))) \<le> 20"
    "length (decimal (unat (sa_services a))) \<le> 20"
    by (simp_all add: length_decimal)
  then have len: "length l < 1023"
    using addr(3) [OF ok(1)] by (cases "sa_timestamp a < 0") (simp_all add: l_def print_int_def)
  have strip: "strip_newline (address @ [0x0a]) = address" by (simp add: strip_newline_def)
  have u: "unat (sa_stream a) < 2 ^ 64" "unat (sa_services a) < 2 ^ 64"
    using unat_less_2p [of "sa_stream a"] unat_less_2p [of "sa_services a"] by simp_all
  have cast: "ucast (word_of_nat (unat (sa_stream a)) :: u64) = sa_stream a"
    by (rule bit_word_eqI) (simp add: bit_simps)
  have ne: "print_int (sa_timestamp a) \<noteq> []" by (simp add: print_int_def decimal_not_Nil)
  have "process_addr_line pton6 pton4 (l @ [0x0a]) = Ok (Some a)"
    using addr(1) [OF ok(1)] cast
    unfolding process_addr_line_def l_def append_assoc append_Cons strtoll_comma [OF ok(2,3)] prod.case
      after_comma_found [OF ne] option.case strtoull_comma [OF u(1)] after_comma_found [OF decimal_not_Nil]
      strtoull_comma [OF u(2)] strip
    by simp
  then show thesis
    using that [of l] chars len by (simp add: c_text_id addr_line_def l_def address_def)
qed

lemma addr_list_parsed:
  assumes "resolver_ok ntop6 pton6 ntop4 pton4" "\<forall>a \<in> set addrs. addr_ok a"
  shows "addr_lines pton6 pton4 (fgets_lines (concat (map (addr_line ntop6 ntop4) addrs))) = Ok addrs"
  using assms(2)
proof (induction addrs)
  case Nil
  then show ?case by (simp add: fgets_lines.simps)
next
  case (Cons a addrs)
  then have "addr_ok a" by simp
  from addr_line_parsed [OF assms(1) this] obtain l where l: "addr_line ntop6 ntop4 a = l @ [0x0a]" "0x0a \<notin> set l"
      "length l < 1023" "process_addr_line pton6 pton4 (c_text (l @ [0x0a])) = Ok (Some a)" .
  then show ?case
    using Cons fgets_line [OF l(2,3)] by simp
qed

text \<open>
  An attempt to save the list of known peers gives a state in which loading gives either that list or
  what it gave before, however far the attempt got.
\<close>

theorem addrs_saved_atomically:
  assumes "resolver_ok ntop6 pton6 ntop4 pton4" "\<forall>a \<in> set addrs. addr_ok a"
    "store' = handle_save_addr_list ntop6 ntop4 io addrs store"
  shows "ntb_store_for_each_addr pton6 pton4 store' = Ok addrs \<or>
    io \<noteq> SAVE_DONE \<and> ntb_store_for_each_addr pton6 pton4 store' = ntb_store_for_each_addr pton6 pton4 store"
proof -
  define bytes where "bytes = concat (map (addr_line ntop6 ntop4) addrs)"
  have tmp: "str ''addr-list.txt.tmp'' = str ''addr-list.txt'' @ str ''.tmp''" by simp
  have s: "store_files store' = save_text io ((store_directory store @ str ''addr-list.txt'') @ str ''.tmp'') bytes (store_files store)"
    "store_directory store' = store_directory store"
    unfolding assms(3) handle_save_addr_list_def tmp by (simp_all add: bytes_def del: str_simps)
  have "store_files store' (store_directory store @ str ''addr-list.txt'') = store_files store (store_directory store @ str ''addr-list.txt'') \<or>
      store_files store' (store_directory store @ str ''addr-list.txt'') = Some bytes"
    unfolding s(1) by (rule replaces_lookup(1) [OF save_replaces(2)])
  moreover have "io = SAVE_DONE \<longrightarrow> store_files store' (store_directory store @ str ''addr-list.txt'') = Some bytes"
    unfolding s(1) by (simp add: save_done(2) del: str_simps append_assoc)
  ultimately show ?thesis
    using addr_list_parsed [OF assms(1,2), folded bytes_def] s(2)
    by (cases "io = SAVE_DONE") (auto simp: ntb_store_for_each_addr_def simp del: str_simps)
qed

section \<open>Witnesses\<close>

definition sample_store :: ntb_store where
  "sample_store = \<lparr>store_directory = str ''/s/'', store_maildir = str ''/m/'', num_stored_messages = 0, store_files = Map.empty\<rparr>"

abbreviation (input) toy_ecc :: "(64 word, unit) ntb_ecc" where
  "toy_ecc \<equiv> \<lparr>pub_key_point = 0, ciphertext_offset = 0, ecdh_keybuffer = [], cipher_ctx = ()\<rparr>"



definition outgoing_file :: "u8 list" where
  "outgoing_file = (case write_each (write_outgoing toy_crypto) [sample_outgoing] of Some (Ok b) \<Rightarrow> b | _ \<Rightarrow> [])"

definition content_store :: ntb_store where
  "content_store = sample_store\<lparr>store_files :=
     [store_directory sample_store @ str ''outgoing-messages.dat'' \<mapsto> outgoing_file,
      set_message_content_filename sample_store 12 \<mapsto> str ''hello'',
      set_message_content_filename sample_store 13 \<mapsto> str ''old'']\<rparr>"

theorem used_contents_kept_witness:
  "\<exists>store'. ntb_store_for_each_outgoing toy_crypto sample_outgoing True
      [append_hash (be_bytes 8 12), append_hash (be_bytes 8 13)] [] content_store = Ok (store', [sample_outgoing]) \<and>
    store_files store' (set_message_content_filename content_store (content_id sample_outgoing)) =
    store_files content_store (set_message_content_filename content_store (content_id sample_outgoing))"
proof -
  have "\<forall>out \<in> set [sample_outgoing]. outgoing_ok out" by (simp add: sample_outgoing_ok)
  from outgoings_written_and_loaded [OF toy_crypto_ok this, of sample_outgoing]
  have "ntb_load_outgoings toy_crypto sample_outgoing outgoing_file = Ok [sample_outgoing]"
    by (auto simp: outgoing_file_def)
  moreover have "store_files content_store (store_directory content_store @ str ''outgoing-messages.dat'') = Some outgoing_file"
    by (simp add: content_store_def sample_store_def set_message_content_filename_def)
  ultimately obtain store' where "ntb_store_for_each_outgoing toy_crypto sample_outgoing True
      [append_hash (be_bytes 8 12), append_hash (be_bytes 8 13)] [] content_store = Ok (store', [sample_outgoing])"
    by (simp add: ntb_store_for_each_outgoing_def del: str_simps)
  then show ?thesis
    using used_contents_kept [of toy_crypto sample_outgoing True "[append_hash (be_bytes 8 12), append_hash (be_bytes 8 13)]" "[]"
        content_store store' "[sample_outgoing]" sample_outgoing] by simp
qed

definition sample_blob :: ntb_blob where
  "sample_blob = \<lparr>blob_type = 2, blob_data = replicate 8 0 @ [0x53, 0, 0, 0] @ replicate 8 9\<rparr>"

lemma sample_object_ok: "object_ok 1392509000 (replicate 32 1, sample_blob) 1392508928"
proof -
  have "ntb_proto_get_timestamp (take 8 (drop 8 (blob_data sample_blob)), 8) =
      Ok (1392508928, drop 12 (take 16 (blob_data sample_blob)), 4)"
    by (simp add: sample_blob_def ntb_proto_get_timestamp_def get_n_eq be_value_def replicate_numeral_Cons)
  moreover have "blob_type sample_blob = inv_type_code NTB_PROTO_INV_TYPE_MSG" by (simp add: sample_blob_def)
  moreover have "8 + 8 \<le> length (blob_data sample_blob)" by (simp add: sample_blob_def)
  moreover have "(1392509000 :: int) - 1392508928 < ntb_proto_get_max_age_for_type NTB_PROTO_INV_TYPE_MSG + NTB_PROTO_EXTRA_AGE"
    by (simp add: NTB_PROTO_EXTRA_AGE_def)
  ultimately show ?thesis
    unfolding object_ok_def fst_conv snd_conv length_replicate by blast
qed


lemma letters_resolver: "resolver_ok letters unletters letters unletters"
proof -
  have "length (letters h) = 2 * length h" for h by (induction h) auto
  moreover have "\<forall>c \<in> set (letters h). c \<noteq> 58 \<and> c \<noteq> 93 \<and> c \<noteq> 0 \<and> c \<noteq> 0x0a \<and> c \<noteq> 91" for h
    using letters_range by force
  moreover have "hd (letters h) \<noteq> 91" if "length h = 4" for h
    using that letters_range [of 91 h] by (cases h) auto
  moreover have "letters h \<noteq> []" if "length h = 4" for h
    using that by (cases h) auto
  ultimately show ?thesis
    unfolding resolver_ok_def by (auto simp: unletters_letters)
qed

definition sample_addr :: ntb_store_addr where
  "sample_addr = \<lparr>sa_timestamp = 1400000000, sa_stream = 1, sa_services = 1, sa_address = \<lparr>host = mapped [10, 0, 0, 7], port = 8444\<rparr>\<rparr>"

theorem addrs_saved_atomically_witness:
  "ntb_store_for_each_addr unletters unletters
    (handle_save_addr_list letters letters SAVE_DONE [sample_addr, sample_addr] sample_store) = Ok [sample_addr, sample_addr]"
  using addrs_saved_atomically [OF letters_resolver, of "[sample_addr, sample_addr]" _ SAVE_DONE sample_store]
  by (simp add: sample_addr_def addr_ok_def netaddress_ok_def mapped_def)

end
