(* ===== verification/Ntb_Store_Thread.thy ===== *)
theory Ntb_Store_Thread
  imports Ntb_Store_Disk
begin

text \<open>
  The queue of the store and the thread that works it off (\<open>ntb-store.c\<close>). The main thread and the store
  thread share the queue and the cookies under one mutex; the model interleaves the parts of both
  threads that run without giving the mutex away. While the store thread works on the files it has given
  the mutex away, so the main thread may add and cancel tasks in between.

  Tasks come from a slice allocator: a freed element keeps its contents and is the first to be used
  again. Cookies are numbered. What a task does to the files is defined in \<open>Ntb_Store\<close>.
\<close>

section \<open>State\<close>

datatype ('b, 'p) ntb_store_task =
    TASK_SAVE_BLOB "u8 list" ntb_blob
  | TASK_LOAD_BLOB "u8 list" "nat option"
  | TASK_SAVE_ADDR_LIST "ntb_store_addr list"
  | TASK_SAVE_KEYS "('b, 'p) ntb_key list"
  | TASK_SAVE_OUTGOINGS "ntb_store_outgoing list"
  | TASK_SAVE_MESSAGE int "('b, 'p) ntb_key option" "u8 list" "('b, 'p) ntb_key" ntb_blob
  | TASK_SAVE_MESSAGE_CONTENT u64 ntb_blob
  | TASK_LOAD_MESSAGE_CONTENT u64 "nat option"
  | TASK_DELETE_MESSAGE_CONTENT u64
  | TASK_DELETE_OBJECT "u8 list"

record ntb_store_cookie =
  cookie_blob :: "ntb_blob option"
  cookie_task :: nat
  idle_source :: bool

text \<open>
  The store thread waits for a task, works on one without the mutex, or has finished reading and waits
  for the mutex.
\<close>

datatype thread_state = THREAD_WAITING | THREAD_WORKING nat | THREAD_LOADED nat "ntb_blob option"

record ('b, 'p) store_queue =
  sq_store :: ntb_store
  sq_tasks :: "nat \<Rightarrow> ('b, 'p) ntb_store_task"
  sq_magazine :: "nat list"
  sq_n_elements :: nat
  sq_queue :: "nat list"
  sq_cookies :: "nat \<Rightarrow> ntb_store_cookie option"
  sq_n_cookies :: nat
  sq_thread :: thread_state
  sq_quit :: bool
  sq_delivered :: "(nat \<times> ntb_blob option) list"

section \<open>The main thread\<close>

definition new_task :: "('b, 'p) ntb_store_task \<Rightarrow> ('b, 'p) store_queue \<Rightarrow> ('b, 'p) store_queue \<times> nat" where
  "new_task task sq =
     (let (t, sq) = (case sq_magazine sq of
                       t # free \<Rightarrow> (t, sq\<lparr>sq_magazine := free\<rparr>)
                     | [] \<Rightarrow> (sq_n_elements sq, sq\<lparr>sq_n_elements := sq_n_elements sq + 1\<rparr>))
      in (sq\<lparr>sq_tasks := (sq_tasks sq)(t := task), sq_queue := sq_queue sq @ [t]\<rparr>, t))"

definition new_cookie :: "nat \<Rightarrow> ('b, 'p) store_queue \<Rightarrow> ('b, 'p) store_queue" where
  "new_cookie t sq = sq\<lparr>sq_cookies := (sq_cookies sq)(sq_n_cookies sq \<mapsto>
       \<lparr>cookie_blob = None, cookie_task = t, idle_source = False\<rparr>),
     sq_n_cookies := sq_n_cookies sq + 1\<rparr>"

definition ntb_store_save_blob :: "u8 list \<Rightarrow> ntb_blob \<Rightarrow> ('b, 'p) store_queue \<Rightarrow> ('b, 'p) store_queue" where
  "ntb_store_save_blob hash blob sq = fst (new_task (TASK_SAVE_BLOB hash blob) sq)"

definition ntb_store_delete_object :: "u8 list \<Rightarrow> ('b, 'p) store_queue \<Rightarrow> ('b, 'p) store_queue" where
  "ntb_store_delete_object hash sq = fst (new_task (TASK_DELETE_OBJECT hash) sq)"

definition ntb_store_save_message ::
    "int \<Rightarrow> ('b, 'p) ntb_key option \<Rightarrow> u8 list \<Rightarrow> ('b, 'p) ntb_key \<Rightarrow> ntb_blob \<Rightarrow> ('b, 'p) store_queue \<Rightarrow> ('b, 'p) store_queue" where
  "ntb_store_save_message ts from_key sender to_key blob sq =
     fst (new_task (TASK_SAVE_MESSAGE ts from_key sender to_key blob) sq)"

definition ntb_store_save_message_content :: "u64 \<Rightarrow> ntb_blob \<Rightarrow> ('b, 'p) store_queue \<Rightarrow> ('b, 'p) store_queue" where
  "ntb_store_save_message_content cid blob sq = fst (new_task (TASK_SAVE_MESSAGE_CONTENT cid blob) sq)"

definition ntb_store_delete_message_content :: "u64 \<Rightarrow> ('b, 'p) store_queue \<Rightarrow> ('b, 'p) store_queue" where
  "ntb_store_delete_message_content cid sq = fst (new_task (TASK_DELETE_MESSAGE_CONTENT cid) sq)"

definition ntb_store_save_addr_list :: "ntb_store_addr list \<Rightarrow> ('b, 'p) store_queue \<Rightarrow> ('b, 'p) store_queue" where
  "ntb_store_save_addr_list addrs sq = fst (new_task (TASK_SAVE_ADDR_LIST addrs) sq)"

definition ntb_store_save_keys :: "('b, 'p) ntb_key list \<Rightarrow> ('b, 'p) store_queue \<Rightarrow> ('b, 'p) store_queue" where
  "ntb_store_save_keys keys sq = fst (new_task (TASK_SAVE_KEYS keys) sq)"

definition ntb_store_save_outgoings :: "ntb_store_outgoing list \<Rightarrow> ('b, 'p) store_queue \<Rightarrow> ('b, 'p) store_queue" where
  "ntb_store_save_outgoings outgoings sq = fst (new_task (TASK_SAVE_OUTGOINGS outgoings) sq)"

definition ntb_store_load_blob :: "u8 list \<Rightarrow> ('b, 'p) store_queue \<Rightarrow> ('b, 'p) store_queue" where
  "ntb_store_load_blob hash sq =
     (case new_task (TASK_LOAD_BLOB hash (Some (sq_n_cookies sq))) sq of (sq, t) \<Rightarrow> new_cookie t sq)"

definition ntb_store_load_message_content :: "u64 \<Rightarrow> ('b, 'p) store_queue \<Rightarrow> ('b, 'p) store_queue" where
  "ntb_store_load_message_content cid sq =
     (case new_task (TASK_LOAD_MESSAGE_CONTENT cid (Some (sq_n_cookies sq))) sq of (sq, t) \<Rightarrow> new_cookie t sq)"

text \<open>The callback of the main loop for a load that has finished.\<close>

definition load_data_idle_cb :: "nat \<Rightarrow> ('b, 'p) store_queue \<Rightarrow> ('b, 'p) store_queue outcome" where
  "load_data_idle_cb c sq =
     (case sq_cookies sq c of
        None \<Rightarrow> Fault
      | Some cookie \<Rightarrow>
          Ok (sq\<lparr>sq_delivered := sq_delivered sq @ [(c, cookie_blob cookie)],
                 sq_cookies := (sq_cookies sq)(c := None)\<rparr>))"

text \<open>
  Cancelling a load. The cookie points to the element that held its task, which is looked at whatever it
  holds by now.
\<close>

definition ntb_store_cancel_task :: "nat \<Rightarrow> ('b, 'p) store_queue \<Rightarrow> ('b, 'p) store_queue outcome" where
  "ntb_store_cancel_task c sq =
     (case sq_cookies sq c of
        None \<Rightarrow> Fault
      | Some cookie \<Rightarrow>
          bind_outcome
            (case sq_tasks sq (cookie_task cookie) of
               TASK_LOAD_BLOB hash _ \<Rightarrow> Ok (TASK_LOAD_BLOB hash None)
             | TASK_LOAD_MESSAGE_CONTENT cid _ \<Rightarrow> Ok (TASK_LOAD_MESSAGE_CONTENT cid None)
             | _ \<Rightarrow> Fault)
            (\<lambda>task. Ok (sq\<lparr>sq_tasks := (sq_tasks sq)(cookie_task cookie := task),
                          sq_cookies := (sq_cookies sq)(c := None)\<rparr>)))"

section \<open>The store thread\<close>

definition free_task :: "nat \<Rightarrow> ('b, 'p) store_queue \<Rightarrow> ('b, 'p) store_queue" where
  "free_task t sq = sq\<lparr>sq_magazine := t # sq_magazine sq, sq_thread := THREAD_WAITING\<rparr>"

text \<open>What the tasks need besides the store.\<close>

record ('b, 'p, 'c) task_env =
  te_crypto :: "('b, 'p, 'c) crypto"
  te_ntop6 :: "u8 list \<Rightarrow> u8 list"
  te_ntop4 :: "u8 list \<Rightarrow> u8 list"
  te_localtime :: "int \<Rightarrow> tm"
  te_timeofday :: "int \<times> int"
  te_hostname :: "u8 list"

definition io_done :: "save_io \<Rightarrow> bool" where
  "io_done io \<longleftrightarrow> io = SAVE_DONE"

text \<open>The task of the thread that is not a load.\<close>

fun run_task ::
    "('b, 'p, 'c) task_env \<Rightarrow> save_io \<Rightarrow> ('b, 'p) ntb_store_task \<Rightarrow> ntb_store \<Rightarrow> ntb_store outcome option" where
  "run_task env io (TASK_SAVE_BLOB hash blob) store = Some (Ok (handle_save_blob io hash blob store))"
| "run_task env io (TASK_DELETE_OBJECT hash) store = Some (Ok (handle_delete_object (io_done io) hash store))"
| "run_task env io (TASK_SAVE_ADDR_LIST addrs) store =
     Some (Ok (handle_save_addr_list (te_ntop6 env) (te_ntop4 env) io addrs store))"
| "run_task env io (TASK_SAVE_KEYS keys) store = handle_save_keys (te_crypto env) io keys store"
| "run_task env io (TASK_SAVE_OUTGOINGS outgoings) store = handle_save_outgoings (te_crypto env) io outgoings store"
| "run_task env io (TASK_SAVE_MESSAGE ts from_key sender to_key blob) store =
     handle_save_message (te_crypto env) io (te_timeofday env) (te_hostname env) (te_localtime env ts)
       from_key sender to_key (blob_data blob) store"
| "run_task env io (TASK_SAVE_MESSAGE_CONTENT cid blob) store = Some (Ok (handle_save_message_content io cid blob store))"
| "run_task env io (TASK_DELETE_MESSAGE_CONTENT cid) store =
     Some (Ok (handle_delete_message_content (io_done io) cid store))"
| "run_task env io (TASK_LOAD_BLOB hash c) store = Some Fault"
| "run_task env io (TASK_LOAD_MESSAGE_CONTENT cid c) store = Some Fault"

text \<open>The cookie of a load, and what it reads.\<close>

fun load_cookie_of :: "('b, 'p) ntb_store_task \<Rightarrow> nat option option" where
  "load_cookie_of (TASK_LOAD_BLOB hash c) = Some c"
| "load_cookie_of (TASK_LOAD_MESSAGE_CONTENT cid c) = Some c"
| "load_cookie_of _ = None"

definition read_blob :: "bool \<Rightarrow> u8 list \<Rightarrow> ntb_store \<Rightarrow> ntb_blob option" where
  "read_blob readable hash store =
     Option.bind (store_files store (set_hash_filename store hash)) (load_blob_from_file readable)"

definition read_message_content :: "bool \<Rightarrow> u64 \<Rightarrow> ntb_store \<Rightarrow> ntb_blob option" where
  "read_message_content readable cid store =
     Option.bind (store_files store (set_message_content_filename store cid)) (load_message_content_from_file readable)"

fun read_task :: "bool \<Rightarrow> ('b, 'p) ntb_store_task \<Rightarrow> ntb_store \<Rightarrow> ntb_blob option" where
  "read_task readable (TASK_LOAD_BLOB hash c) store = read_blob readable hash store"
| "read_task readable (TASK_LOAD_MESSAGE_CONTENT cid c) store = read_message_content readable cid store"
| "read_task readable _ store = None"

text \<open>Taking the next task off the queue; a load that has been cancelled is dropped at once.\<close>

definition thread_take :: "('b, 'p) store_queue \<Rightarrow> ('b, 'p) store_queue option" where
  "thread_take sq =
     (case (sq_thread sq, sq_queue sq) of
        (THREAD_WAITING, t # rest) \<Rightarrow>
          let sq = sq\<lparr>sq_queue := rest\<rparr> in
          Some (case load_cookie_of (sq_tasks sq t) of
                  Some None \<Rightarrow> free_task t sq
                | _ \<Rightarrow> sq\<lparr>sq_thread := THREAD_WORKING t\<rparr>)
      | _ \<Rightarrow> None)"

text \<open>The work on the files, without the mutex; a task that is not a load is freed right after it.\<close>

definition thread_work :: "('b, 'p, 'c) task_env \<Rightarrow> save_io \<Rightarrow> ('b, 'p) store_queue \<Rightarrow> ('b, 'p) store_queue outcome option" where
  "thread_work env io sq =
     (case sq_thread sq of
        THREAD_WORKING t \<Rightarrow>
          (case load_cookie_of (sq_tasks sq t) of
             Some _ \<Rightarrow> Some (Ok (sq\<lparr>sq_thread := THREAD_LOADED t (read_task (io_done io) (sq_tasks sq t) (sq_store sq))\<rparr>))
           | None \<Rightarrow> bind_run (run_task env io (sq_tasks sq t) (sq_store sq)) (\<lambda>store.
               Some (Ok (free_task t (sq\<lparr>sq_store := store\<rparr>)))))
      | _ \<Rightarrow> None)"

text \<open>The end of a load, with the mutex: the result goes to the cookie unless it has been cancelled.\<close>

definition thread_finish_load :: "('b, 'p) store_queue \<Rightarrow> ('b, 'p) store_queue outcome option" where
  "thread_finish_load sq =
     (case sq_thread sq of
        THREAD_LOADED t blob \<Rightarrow>
          (case load_cookie_of (sq_tasks sq t) of
             Some None \<Rightarrow> Some (Ok (free_task t sq))
           | Some (Some c) \<Rightarrow>
               (case sq_cookies sq c of
                  None \<Rightarrow> Some Fault
                | Some cookie \<Rightarrow>
                    Some (Ok (free_task t (sq\<lparr>sq_cookies := (sq_cookies sq)(c \<mapsto>
                      cookie\<lparr>cookie_blob := blob, idle_source := True\<rparr>)\<rparr>))))
           | None \<Rightarrow> Some Fault)
      | _ \<Rightarrow> None)"

text \<open>The thread ends when it is told to and the queue is empty.\<close>

definition thread_ends :: "('b, 'p) store_queue \<Rightarrow> bool" where
  "thread_ends sq \<longleftrightarrow> sq_thread sq = THREAD_WAITING \<and> sq_quit sq \<and> sq_queue sq = []"

section \<open>Both threads together\<close>

datatype ('b, 'p) store_action =
    ACT_REQUEST "('b, 'p) ntb_store_task"
  | ACT_LOAD_BLOB "u8 list"
  | ACT_LOAD_MESSAGE_CONTENT u64
  | ACT_TAKE
  | ACT_WORK save_io
  | ACT_FINISH_LOAD
  | ACT_IDLE nat
  | ACT_CANCEL nat
  | ACT_QUIT

inductive store_step ::
    "('b, 'p, 'c) task_env \<Rightarrow> ('b, 'p) store_queue \<Rightarrow> ('b, 'p) store_action \<Rightarrow> ('b, 'p) store_queue \<Rightarrow> bool" for env where
  step_request: "load_cookie_of task = None \<Longrightarrow> store_step env sq (ACT_REQUEST task) (fst (new_task task sq))"
| step_load_blob: "store_step env sq (ACT_LOAD_BLOB hash) (ntb_store_load_blob hash sq)"
| step_load_content: "store_step env sq (ACT_LOAD_MESSAGE_CONTENT cid) (ntb_store_load_message_content cid sq)"
| step_take: "thread_take sq = Some sq' \<Longrightarrow> store_step env sq ACT_TAKE sq'"
| step_work: "thread_work env io sq = Some (Ok sq') \<Longrightarrow> store_step env sq (ACT_WORK io) sq'"
| step_finish: "thread_finish_load sq = Some (Ok sq') \<Longrightarrow> store_step env sq ACT_FINISH_LOAD sq'"
| step_idle: "sq_cookies sq c = Some cookie \<Longrightarrow> idle_source cookie \<Longrightarrow> load_data_idle_cb c sq = Ok sq' \<Longrightarrow>
    store_step env sq (ACT_IDLE c) sq'"
| step_cancel: "sq_cookies sq c = Some cookie \<Longrightarrow> ntb_store_cancel_task c sq = Ok sq' \<Longrightarrow>
    store_step env sq (ACT_CANCEL c) sq'"
| step_quit: "store_step env sq ACT_QUIT (sq\<lparr>sq_quit := True\<rparr>)"

inductive store_run ::
    "('b, 'p, 'c) task_env \<Rightarrow> ('b, 'p) store_queue \<Rightarrow> ('b, 'p) store_action list \<Rightarrow> ('b, 'p) store_queue \<Rightarrow> bool" for env where
  run_none: "store_run env sq [] sq"
| run_more: "store_run env sq as sq' \<Longrightarrow> store_step env sq' a sq'' \<Longrightarrow> store_run env sq (as @ [a]) sq''"

definition new_queue :: "ntb_store \<Rightarrow> ('b, 'p) store_queue" where
  "new_queue store = \<lparr>sq_store = store, sq_tasks = (\<lambda>_. TASK_DELETE_OBJECT []), sq_magazine = [], sq_n_elements = 0,
     sq_queue = [], sq_cookies = Map.empty, sq_n_cookies = 0, sq_thread = THREAD_WAITING, sq_quit = False, sq_delivered = []\<rparr>"

section \<open>The sequential specification\<close>

text \<open>
  A store without a thread: every request is carried out at once, when it is made, and a load gives its
  result at once.
\<close>

record spec_state =
  spec_store :: ntb_store
  spec_loads :: "nat \<Rightarrow> ntb_blob option option"
  spec_n_loads :: nat

definition run_done :: "('b, 'p, 'c) task_env \<Rightarrow> ('b, 'p) ntb_store_task \<Rightarrow> ntb_store \<Rightarrow> ntb_store" where
  "run_done env task store = (case run_task env SAVE_DONE task store of Some (Ok store') \<Rightarrow> store' | _ \<Rightarrow> store)"

definition spec_load :: "ntb_blob option \<Rightarrow> spec_state \<Rightarrow> spec_state" where
  "spec_load blob sp = sp\<lparr>spec_loads := (spec_loads sp)(spec_n_loads sp \<mapsto> blob),
     spec_n_loads := spec_n_loads sp + 1\<rparr>"

fun spec_action :: "('b, 'p, 'c) task_env \<Rightarrow> ('b, 'p) store_action \<Rightarrow> spec_state \<Rightarrow> spec_state" where
  "spec_action env (ACT_REQUEST task) sp = sp\<lparr>spec_store := run_done env task (spec_store sp)\<rparr>"
| "spec_action env (ACT_LOAD_BLOB hash) sp = spec_load (read_blob True hash (spec_store sp)) sp"
| "spec_action env (ACT_LOAD_MESSAGE_CONTENT cid) sp = spec_load (read_message_content True cid (spec_store sp)) sp"
| "spec_action env _ sp = sp"

definition spec_run :: "('b, 'p, 'c) task_env \<Rightarrow> ntb_store \<Rightarrow> ('b, 'p) store_action list \<Rightarrow> spec_state" where
  "spec_run env store as =
     foldl (\<lambda>sp a. spec_action env a sp) \<lparr>spec_store = store, spec_loads = Map.empty, spec_n_loads = 0\<rparr> as"

section \<open>The invariant\<close>

text \<open>
  Working off the given tasks from the first store gives the last one, and each load among them will
  read what the specification says.
\<close>

fun worked_off ::
    "('b, 'p, 'c) task_env \<Rightarrow> (nat \<Rightarrow> ntb_blob option option) \<Rightarrow> ('b, 'p) ntb_store_task list \<Rightarrow> ntb_store \<Rightarrow> ntb_store \<Rightarrow> bool" where
  "worked_off env loads [] store final \<longleftrightarrow> store = final"
| "worked_off env loads (task # tasks) store final \<longleftrightarrow>
     (\<forall>c. load_cookie_of task = Some (Some c) \<longrightarrow> loads c = Some (read_task True task store)) \<and>
     worked_off env loads tasks (run_done env task store) final"

definition working :: "('b, 'p) store_queue \<Rightarrow> nat list" where
  "working sq = (case sq_thread sq of THREAD_WORKING t \<Rightarrow> [t] | _ \<Rightarrow> [])"

definition active :: "('b, 'p) store_queue \<Rightarrow> nat list" where
  "active sq = (case sq_thread sq of THREAD_WAITING \<Rightarrow> [] | THREAD_WORKING t \<Rightarrow> [t] | THREAD_LOADED t _ \<Rightarrow> [t]) @ sq_queue sq"

definition elements_ok :: "('b, 'p) store_queue \<Rightarrow> bool" where
  "elements_ok sq \<longleftrightarrow> distinct (active sq @ sq_magazine sq) \<and> (\<forall>t \<in> set (active sq @ sq_magazine sq). t < sq_n_elements sq)"

definition cookies_ok :: "('b, 'p) store_queue \<Rightarrow> bool" where
  "cookies_ok sq \<longleftrightarrow> (\<forall>t \<in> set (active sq). \<forall>c. load_cookie_of (sq_tasks sq t) = Some (Some c) \<longrightarrow> c < sq_n_cookies sq) \<and>
     (\<forall>c \<in> dom (sq_cookies sq). c < sq_n_cookies sq) \<and> (\<forall>(c, b) \<in> set (sq_delivered sq). c < sq_n_cookies sq)"

definition results_ok :: "spec_state \<Rightarrow> ('b, 'p) store_queue \<Rightarrow> bool" where
  "results_ok sp sq \<longleftrightarrow>
     (\<forall>t blob c. sq_thread sq = THREAD_LOADED t blob \<longrightarrow> load_cookie_of (sq_tasks sq t) = Some (Some c) \<longrightarrow> spec_loads sp c = Some blob) \<and>
     (\<forall>c cookie. sq_cookies sq c = Some cookie \<longrightarrow> idle_source cookie \<longrightarrow> spec_loads sp c = Some (cookie_blob cookie)) \<and>
     (\<forall>(c, b) \<in> set (sq_delivered sq). spec_loads sp c = Some b)"

definition store_inv :: "('b, 'p, 'c) task_env \<Rightarrow> spec_state \<Rightarrow> ('b, 'p) store_queue \<Rightarrow> bool" where
  "store_inv env sp sq \<longleftrightarrow> spec_n_loads sp = sq_n_cookies sq \<and> elements_ok sq \<and> cookies_ok sq \<and> results_ok sp sq \<and>
     worked_off env (spec_loads sp) (map (sq_tasks sq) (working sq @ sq_queue sq)) (sq_store sq) (spec_store sp)"

lemma worked_off_append:
  "worked_off env loads tasks store final \<Longrightarrow>
   (\<And>c. load_cookie_of task = Some (Some c) \<Longrightarrow> loads c = Some (read_task True task final)) \<Longrightarrow>
   worked_off env loads (tasks @ [task]) store (run_done env task final)"
  by (induction tasks arbitrary: store) auto

lemma worked_off_more_loads:
  "worked_off env loads tasks store final \<Longrightarrow> \<forall>task \<in> set tasks. \<forall>c. load_cookie_of task = Some (Some c) \<longrightarrow> loads' c = loads c \<Longrightarrow>
   worked_off env loads' tasks store final"
  by (induction tasks arbitrary: store) auto

lemma run_done_load: "load_cookie_of task \<noteq> None \<Longrightarrow> run_done env task store = store"
  by (cases task) (simp_all add: run_done_def)

text \<open>Cancelling only takes the cookie out of a load.\<close>

definition without_cookie :: "('b, 'p) ntb_store_task \<Rightarrow> ('b, 'p) ntb_store_task" where
  "without_cookie task =
     (case task of TASK_LOAD_BLOB hash _ \<Rightarrow> TASK_LOAD_BLOB hash None
      | TASK_LOAD_MESSAGE_CONTENT cid _ \<Rightarrow> TASK_LOAD_MESSAGE_CONTENT cid None | _ \<Rightarrow> task)"

lemma without_cookie_simps [simp]:
  "run_done env (without_cookie task) store = run_done env task store"
  "load_cookie_of (without_cookie task) = map_option (\<lambda>_. None) (load_cookie_of task)"
  by (cases task; simp add: without_cookie_def run_done_def)+

lemma worked_off_cancel:
  "worked_off env loads (map f ts) store final \<Longrightarrow> worked_off env loads (map (f(t := without_cookie (f t))) ts) store final"
  by (induction ts arbitrary: store) auto

section \<open>The steps keep the invariant\<close>

lemma new_task_eq:
  assumes "elements_ok sq"
  shows "\<exists>t mag n. new_task task sq = (sq\<lparr>sq_magazine := mag, sq_n_elements := n,
      sq_tasks := (sq_tasks sq)(t := task), sq_queue := sq_queue sq @ [t]\<rparr>, t) \<and>
    t \<notin> set (active sq) \<and> distinct (active sq @ t # mag) \<and> (\<forall>u \<in> set (active sq @ t # mag). u < n)"
proof (cases "sq_magazine sq")
  case Nil
  then show ?thesis using assms
    by (intro exI [of _ "sq_n_elements sq"] exI [of _ "[]"] exI [of _ "sq_n_elements sq + 1"])
      (auto simp: new_task_def elements_ok_def Let_def)
next
  case (Cons t mag)
  then show ?thesis using assms
    by (intro exI [of _ t] exI [of _ mag] exI [of _ "sq_n_elements sq"]) (auto simp: new_task_def elements_ok_def Let_def)
qed

lemma store_invE:
  assumes "store_inv env sp sq"
  shows "spec_n_loads sp = sq_n_cookies sq" "elements_ok sq" "cookies_ok sq" "results_ok sp sq"
    "worked_off env (spec_loads sp) (map (sq_tasks sq) (working sq @ sq_queue sq)) (sq_store sq) (spec_store sp)"
  using assms by (simp_all add: store_inv_def)

lemma working_active: "set (working sq @ sq_queue sq) \<subseteq> set (active sq)"
  by (auto simp: working_def active_def split: thread_state.splits)

lemma loaded_active: "sq_thread sq = THREAD_LOADED t blob \<Longrightarrow> t \<in> set (active sq)"
  by (simp add: active_def)

text \<open>A task that is added, with or without a cookie of its own.\<close>

lemma add_task_inv:
  assumes inv: "store_inv env sp sq"
    and old: "\<forall>c < sq_n_cookies sq. spec_loads sp' c = spec_loads sp c"
    and final: "spec_store sp' = run_done env task (spec_store sp)"
    and more: "sq_n_cookies sq \<le> N" "spec_n_loads sp' = N"
    and own: "\<forall>c. load_cookie_of task = Some (Some c) \<longrightarrow> c < N \<and> spec_loads sp' c = Some (read_task True task (spec_store sp))"
    and cookies: "\<forall>c k. cks c = Some k \<longrightarrow> c < N \<and> (idle_source k \<longrightarrow> sq_cookies sq c = Some k)"
  shows "store_inv env sp' ((fst (new_task task sq))\<lparr>sq_cookies := cks, sq_n_cookies := N\<rparr>)"
proof -
  note i = store_invE [OF inv]
  obtain t mag m where t: "new_task task sq = (sq\<lparr>sq_magazine := mag, sq_n_elements := m,
      sq_tasks := (sq_tasks sq)(t := task), sq_queue := sq_queue sq @ [t]\<rparr>, t)"
    "t \<notin> set (active sq)" "distinct (active sq @ t # mag)" "\<forall>u \<in> set (active sq @ t # mag). u < m"
    using new_task_eq [OF i(2), of task] by blast
  define q where "q = (fst (new_task task sq))\<lparr>sq_cookies := cks, sq_n_cookies := N\<rparr>"
  have q: "sq_thread q = sq_thread sq" "sq_queue q = sq_queue sq @ [t]" "sq_tasks q = (sq_tasks sq)(t := task)"
    "sq_magazine q = mag" "sq_n_elements q = m" "sq_cookies q = cks" "sq_n_cookies q = N"
    "sq_delivered q = sq_delivered sq" "sq_store q = sq_store sq"
    by (simp_all add: q_def t(1))
  have a: "active q = active sq @ [t]" "working q = working sq" by (simp_all add: q active_def working_def)
  have same: "map (sq_tasks q) (working q @ sq_queue q) = map (sq_tasks sq) (working sq @ sq_queue sq) @ [task]"
    using t(2) working_active [of sq] by (auto simp: a q)
  have cookie_old: "\<forall>u \<in> set (active sq). \<forall>c. load_cookie_of (sq_tasks sq u) = Some (Some c) \<longrightarrow> c < sq_n_cookies sq"
    using i(3) by (simp add: cookies_ok_def)
  have "elements_ok q" unfolding elements_ok_def a using t(3,4) by (simp add: q)
  moreover have "cookies_ok q"
  proof -
    have "c < N" if "u \<in> set (active sq @ [t])" "load_cookie_of (sq_tasks q u) = Some (Some c)" for u c
      using that own cookie_old more(1) by (cases "u = t") (auto simp: q intro: less_le_trans)
    moreover have "c < N" if "(c, b) \<in> set (sq_delivered sq)" for c b
      using that i(3) more(1) by (auto simp: cookies_ok_def intro: less_le_trans)
    ultimately show ?thesis using cookies by (auto simp: cookies_ok_def a q(6-8))
  qed
  moreover have "results_ok sp' q"
  proof -
    have "spec_loads sp' c = Some blob" if l: "sq_thread sq = THREAD_LOADED u blob" "load_cookie_of (sq_tasks q u) = Some (Some c)" for u blob c
    proof -
      have "u \<in> set (active sq)" "u \<noteq> t" using loaded_active [OF l(1)] t(2) by auto
      then have "load_cookie_of (sq_tasks sq u) = Some (Some c)" "c < sq_n_cookies sq" using l(2) cookie_old by (simp_all add: q)
      then show ?thesis using i(4) l(1) old by (simp add: results_ok_def)
    qed
    moreover have "spec_loads sp' c = Some (cookie_blob k)" if k: "cks c = Some k" "idle_source k" for c k
    proof -
      have "sq_cookies sq c = Some k" using k cookies by blast
      moreover from this have "c < sq_n_cookies sq" using i(3) by (auto simp: cookies_ok_def)
      ultimately show ?thesis using i(4) k old by (simp add: results_ok_def)
    qed
    moreover have "spec_loads sp' c = Some b" if d: "(c, b) \<in> set (sq_delivered sq)" for c b
    proof -
      have "c < sq_n_cookies sq" "spec_loads sp c = Some b" using i(3,4) d by (auto simp: cookies_ok_def results_ok_def)
      then show ?thesis using old by simp
    qed
    ultimately show ?thesis by (auto simp: results_ok_def q(1,6,8))
  qed
  moreover have "worked_off env (spec_loads sp') (map (sq_tasks q) (working q @ sq_queue q)) (sq_store q) (spec_store sp')"
  proof -
    have "worked_off env (spec_loads sp') (map (sq_tasks sq) (working sq @ sq_queue sq)) (sq_store sq) (spec_store sp)"
      by (rule worked_off_more_loads [OF i(5)]) (use cookie_old old working_active [of sq] in \<open>auto simp: subset_iff\<close>)
    from worked_off_append [OF this, of task] show ?thesis unfolding same final using own by (simp add: q)
  qed
  ultimately have "store_inv env sp' q" using more by (simp add: store_inv_def q)
  then show ?thesis by (simp add: q_def)
qed

lemma request_inv:
  assumes "store_inv env sp sq" "load_cookie_of task = None"
  shows "store_inv env (sp\<lparr>spec_store := run_done env task (spec_store sp)\<rparr>) (fst (new_task task sq))"
proof -
  have c: "\<forall>c k. sq_cookies sq c = Some k \<longrightarrow> c < sq_n_cookies sq \<and> (idle_source k \<longrightarrow> sq_cookies sq c = Some k)"
    using store_invE(3) [OF assms(1)] by (auto simp: cookies_ok_def)
  have "(fst (new_task task sq))\<lparr>sq_cookies := sq_cookies sq, sq_n_cookies := sq_n_cookies sq\<rparr> = fst (new_task task sq)"
    by (auto simp: new_task_def Let_def split: list.splits)
  then show ?thesis
    using add_task_inv [OF assms(1), of "sp\<lparr>spec_store := run_done env task (spec_store sp)\<rparr>" task "sq_n_cookies sq", OF _ _ _ _ _ c]
      assms(2) store_invE(1) [OF assms(1)] by simp
qed

lemma load_inv:
  assumes "store_inv env sp sq" "load_cookie_of task = Some (Some (sq_n_cookies sq))"
  shows "store_inv env (spec_load (read_task True task (spec_store sp)) sp)
    (case new_task task sq of (sq, t) \<Rightarrow> new_cookie t sq)"
proof -
  obtain t where t: "t = snd (new_task task sq)" by simp
  let ?cks = "(sq_cookies sq)(sq_n_cookies sq \<mapsto> \<lparr>cookie_blob = None, cookie_task = t, idle_source = False\<rparr>)"
  have c: "\<forall>c k. ?cks c = Some k \<longrightarrow> c < sq_n_cookies sq + 1 \<and> (idle_source k \<longrightarrow> sq_cookies sq c = Some k)"
    using store_invE(3) [OF assms(1)] by (auto simp: cookies_ok_def less_Suc_eq)
  have "(case new_task task sq of (sq, t) \<Rightarrow> new_cookie t sq) =
      (fst (new_task task sq))\<lparr>sq_cookies := ?cks, sq_n_cookies := sq_n_cookies sq + 1\<rparr>"
    by (auto simp: t new_task_def new_cookie_def Let_def split: list.splits)
  moreover have "run_done env task (spec_store sp) = spec_store sp" using assms(2) by (simp add: run_done_load)
  ultimately show ?thesis
    using add_task_inv [OF assms(1), of "spec_load (read_task True task (spec_store sp)) sp" task "sq_n_cookies sq + 1", OF _ _ _ _ _ c]
      assms(2) store_invE(1) [OF assms(1)] by (simp add: spec_load_def fun_upd_def)
qed

lemma take_inv:
  assumes inv: "store_inv env sp sq" and "thread_take sq = Some sq'"
  shows "store_inv env sp sq'"
proof -
  note i = store_invE [OF inv]
  obtain t rest where t: "sq_thread sq = THREAD_WAITING" "sq_queue sq = t # rest"
    using assms(2) by (auto simp: thread_take_def split: thread_state.splits list.splits)
  show ?thesis
  proof (cases "load_cookie_of (sq_tasks sq t) = Some None")
    case True
    then have q: "sq' = free_task t (sq\<lparr>sq_queue := rest\<rparr>)" using assms(2) t by (simp add: thread_take_def Let_def)
    show ?thesis using i t True
      by (auto simp: store_inv_def q free_task_def elements_ok_def cookies_ok_def results_ok_def active_def working_def run_done_load)
  next
    case False
    then have q: "sq' = sq\<lparr>sq_queue := rest, sq_thread := THREAD_WORKING t\<rparr>" using assms(2) t
      by (auto simp: thread_take_def Let_def split: option.splits)
    show ?thesis using i t
      by (simp add: store_inv_def q elements_ok_def cookies_ok_def results_ok_def active_def working_def)
  qed
qed

lemma work_inv:
  assumes inv: "store_inv env sp sq" and "thread_work env SAVE_DONE sq = Some (Ok sq')"
  shows "store_inv env sp sq'"
proof -
  note i = store_invE [OF inv]
  obtain t where t: "sq_thread sq = THREAD_WORKING t"
    using assms(2) by (auto simp: thread_work_def split: thread_state.splits)
  show ?thesis
  proof (cases "load_cookie_of (sq_tasks sq t)")
    case None
    then obtain store where s: "run_task env SAVE_DONE (sq_tasks sq t) (sq_store sq) = Some (Ok store)"
      "sq' = free_task t (sq\<lparr>sq_store := store\<rparr>)"
      using assms(2) t None by (auto simp: thread_work_def bind_run_def bind_outcome_def split: option.splits outcome.splits)
    show ?thesis using i t
      by (auto simp: store_inv_def s free_task_def elements_ok_def cookies_ok_def results_ok_def active_def working_def run_done_def)
  next
    case (Some c)
    then have q: "sq' = sq\<lparr>sq_thread := THREAD_LOADED t (read_task True (sq_tasks sq t) (sq_store sq))\<rparr>"
      using assms(2) t by (simp add: thread_work_def io_done_def)
    show ?thesis using i t Some
      by (auto simp: store_inv_def q elements_ok_def cookies_ok_def results_ok_def active_def working_def run_done_load)
  qed
qed

lemma finish_inv:
  assumes inv: "store_inv env sp sq" and "thread_finish_load sq = Some (Ok sq')"
  shows "store_inv env sp sq'"
proof -
  note i = store_invE [OF inv]
  obtain t blob where t: "sq_thread sq = THREAD_LOADED t blob"
    using assms(2) by (auto simp: thread_finish_load_def split: thread_state.splits)
  obtain c where c: "load_cookie_of (sq_tasks sq t) = Some c"
    using assms(2) t by (cases "load_cookie_of (sq_tasks sq t)") (simp_all add: thread_finish_load_def)
  show ?thesis
  proof (cases c)
    case None
    then have q: "sq' = free_task t sq" using assms(2) t c by (simp add: thread_finish_load_def)
    show ?thesis using i t
      by (auto simp: store_inv_def q free_task_def elements_ok_def cookies_ok_def results_ok_def active_def working_def)
  next
    case (Some n)
    then obtain cookie where k: "sq_cookies sq n = Some cookie"
      "sq' = free_task t (sq\<lparr>sq_cookies := (sq_cookies sq)(n \<mapsto> cookie\<lparr>cookie_blob := blob, idle_source := True\<rparr>)\<rparr>)"
      using assms(2) t c by (auto simp: thread_finish_load_def split: option.splits)
    have "spec_loads sp n = Some blob" using i(4) t c Some by (simp add: results_ok_def)
    then show ?thesis using i t k(1)
      by (auto simp: store_inv_def k(2) free_task_def elements_ok_def cookies_ok_def results_ok_def active_def working_def)
  qed
qed

lemma idle_inv:
  assumes inv: "store_inv env sp sq" and "sq_cookies sq c = Some cookie" "idle_source cookie" "load_data_idle_cb c sq = Ok sq'"
  shows "store_inv env sp sq'"
proof -
  note i = store_invE [OF inv]
  have q: "sq' = sq\<lparr>sq_delivered := sq_delivered sq @ [(c, cookie_blob cookie)], sq_cookies := (sq_cookies sq)(c := None)\<rparr>"
    using assms(2,4) by (simp add: load_data_idle_cb_def)
  have "c < sq_n_cookies sq" "spec_loads sp c = Some (cookie_blob cookie)"
    using i(3,4) assms(2,3) by (auto simp: cookies_ok_def results_ok_def)
  then have "cookies_ok sq'" "results_ok sp sq'"
    using i(3,4) by (simp_all add: q cookies_ok_def results_ok_def active_def)
  then show ?thesis using i by (simp add: store_inv_def q elements_ok_def active_def working_def)
qed

lemma cancel_eq:
  assumes "ntb_store_cancel_task c sq = Ok sq'" "sq_cookies sq c = Some cookie"
  shows "sq' = sq\<lparr>sq_tasks := (sq_tasks sq)(cookie_task cookie := without_cookie (sq_tasks sq (cookie_task cookie))),
    sq_cookies := (sq_cookies sq)(c := None)\<rparr>"
  using assms by (auto simp: ntb_store_cancel_task_def without_cookie_def split: ntb_store_task.splits)

lemma cancel_inv:
  assumes inv: "store_inv env sp sq" and "sq_cookies sq c = Some cookie" "ntb_store_cancel_task c sq = Ok sq'"
  shows "store_inv env sp sq'"
proof -
  note i = store_invE [OF inv]
  let ?f = "(sq_tasks sq)(cookie_task cookie := without_cookie (sq_tasks sq (cookie_task cookie)))"
  have cookie: "load_cookie_of (?f t) = Some (Some n) \<Longrightarrow> load_cookie_of (sq_tasks sq t) = Some (Some n)" for t n
    by (auto split: if_splits)
  have q: "active sq' = active sq" "working sq' = working sq" "sq_tasks sq' = ?f" "sq_cookies sq' = (sq_cookies sq)(c := None)"
    "sq_thread sq' = sq_thread sq" "sq_n_cookies sq' = sq_n_cookies sq" "sq_delivered sq' = sq_delivered sq"
    "sq_magazine sq' = sq_magazine sq" "sq_n_elements sq' = sq_n_elements sq"
    by (simp_all add: cancel_eq [OF assms(3,2)] active_def working_def)
  have "elements_ok sq'" using i(2) by (simp add: elements_ok_def q)
  moreover have "cookies_ok sq'" using i(3) cookie unfolding cookies_ok_def q by (simp del: fun_upd_apply add: dom_fun_upd; blast)
  moreover have "results_ok sp sq'"
    unfolding results_ok_def q
  proof (intro conjI allI impI)
    fix t blob n
    assume "sq_thread sq = THREAD_LOADED t blob" "load_cookie_of (?f t) = Some (Some n)"
    then show "spec_loads sp n = Some blob" using i(4) cookie [of t n] by (simp only: results_ok_def)
  qed (use i(4) in \<open>auto simp: results_ok_def split: if_splits\<close>)
  moreover have "worked_off env (spec_loads sp) (map ?f (working sq @ sq_queue sq)) (sq_store sq) (spec_store sp)"
    by (rule worked_off_cancel [OF i(5)])
  ultimately show ?thesis using i(1)
    by (simp add: store_inv_def cancel_eq [OF assms(3,2)] working_def)
qed

lemma step_inv:
  assumes "store_step env sq a sq'" "store_inv env sp sq" "\<forall>io. a = ACT_WORK io \<longrightarrow> io = SAVE_DONE"
  shows "store_inv env (spec_action env a sp) sq'"
  using assms
proof (cases rule: store_step.cases)
  case (step_load_blob hash)
  then show ?thesis using load_inv [OF assms(2), of "TASK_LOAD_BLOB hash (Some (sq_n_cookies sq))"]
    by (simp add: ntb_store_load_blob_def)
next
  case (step_load_content cid)
  then show ?thesis using load_inv [OF assms(2), of "TASK_LOAD_MESSAGE_CONTENT cid (Some (sq_n_cookies sq))"]
    by (simp add: ntb_store_load_message_content_def)
next
  case step_quit
  then show ?thesis using assms(2)
    by (simp add: store_inv_def elements_ok_def cookies_ok_def results_ok_def active_def working_def)
qed (auto intro: request_inv take_inv work_inv finish_inv idle_inv cancel_inv)

lemma new_queue_inv: "store_inv env (spec_run env store []) (new_queue store)"
  by (simp add: store_inv_def spec_run_def new_queue_def elements_ok_def cookies_ok_def results_ok_def active_def working_def)

lemma run_inv:
  assumes "store_run env (new_queue store) as sq" "\<forall>io. ACT_WORK io \<in> set as \<longrightarrow> io = SAVE_DONE"
  shows "store_inv env (spec_run env store as) sq"
  using assms
proof (induction "new_queue store :: ('a, 'b) store_queue" as sq rule: store_run.induct)
  case run_none
  show ?case by (rule new_queue_inv)
next
  case (run_more as sq a sq')
  then show ?case using step_inv [of env sq a sq' "spec_run env store as"] by (simp add: spec_run_def)
qed

section \<open>The thread gets through its queue\<close>

text \<open>A task that is not a load and whose work comes to an end whatever the files hold.\<close>

definition ends :: "('b, 'p, 'c) task_env \<Rightarrow> ('b, 'p) ntb_store_task \<Rightarrow> bool" where
  "ends env task \<longleftrightarrow> load_cookie_of task = None \<longrightarrow> (\<forall>store. \<exists>store'. run_task env SAVE_DONE task store = Some (Ok store'))"

text \<open>The cookie of a task that is not finished is there, points back to it and has no result yet.\<close>

definition linked :: "('b, 'p) store_queue \<Rightarrow> bool" where
  "linked sq \<longleftrightarrow> (\<forall>t \<in> set (active sq). \<forall>c. load_cookie_of (sq_tasks sq t) = Some (Some c) \<longrightarrow>
     (\<exists>k. sq_cookies sq c = Some k \<and> cookie_task k = t \<and> \<not> idle_source k))"

definition thread_inv :: "('b, 'p, 'c) task_env \<Rightarrow> ('b, 'p) store_queue \<Rightarrow> bool" where
  "thread_inv env sq \<longleftrightarrow> elements_ok sq \<and> (\<forall>c \<in> dom (sq_cookies sq). c < sq_n_cookies sq) \<and> linked sq \<and>
     (\<forall>t \<in> set (active sq). ends env (sq_tasks sq t)) \<and>
     (\<forall>t blob. sq_thread sq = THREAD_LOADED t blob \<longrightarrow> load_cookie_of (sq_tasks sq t) \<noteq> None)"

lemma thread_invE:
  assumes "thread_inv env sq"
  shows "elements_ok sq" "\<forall>c \<in> dom (sq_cookies sq). c < sq_n_cookies sq"
    "\<And>t c. t \<in> set (active sq) \<Longrightarrow> load_cookie_of (sq_tasks sq t) = Some (Some c) \<Longrightarrow>
      \<exists>k. sq_cookies sq c = Some k \<and> cookie_task k = t \<and> \<not> idle_source k"
    "\<And>t. t \<in> set (active sq) \<Longrightarrow> ends env (sq_tasks sq t)"
    "\<And>t blob. sq_thread sq = THREAD_LOADED t blob \<Longrightarrow> load_cookie_of (sq_tasks sq t) \<noteq> None"
  using assms by (auto simp: thread_inv_def linked_def)

text \<open>Freeing or dropping elements, with everything else as it was.\<close>

lemma thread_inv_fewer:
  assumes inv: "thread_inv env sq" and "elements_ok sq'" "set (active sq') \<subseteq> set (active sq)" "sq_tasks sq' = sq_tasks sq"
    and "sq_cookies sq' = sq_cookies sq" "sq_n_cookies sq' = sq_n_cookies sq"
    and "\<forall>t blob. sq_thread sq' = THREAD_LOADED t blob \<longrightarrow> load_cookie_of (sq_tasks sq t) \<noteq> None"
  shows "thread_inv env sq'"
  unfolding thread_inv_def linked_def using thread_invE [OF inv] assms(2-7) by (simp add: subset_iff)

lemma ends_without_cookie [simp]: "ends env task \<Longrightarrow> ends env (without_cookie task)"
  by (cases task) (auto simp: ends_def without_cookie_def)

lemma add_task_thread_inv:
  assumes inv: "thread_inv env sq" and "ends env task"
    and own: "\<forall>c. load_cookie_of task = Some (Some c) \<longrightarrow> c = sq_n_cookies sq \<and>
      (\<exists>k. cks c = Some k \<and> cookie_task k = snd (new_task task sq) \<and> \<not> idle_source k)"
    and cookies: "\<forall>c < sq_n_cookies sq. cks c = sq_cookies sq c" "\<forall>c \<in> dom cks. c < N"
  shows "thread_inv env ((fst (new_task task sq))\<lparr>sq_cookies := cks, sq_n_cookies := N\<rparr>)"
proof -
  note i = thread_invE [OF inv]
  obtain t mag m where t: "new_task task sq = (sq\<lparr>sq_magazine := mag, sq_n_elements := m,
      sq_tasks := (sq_tasks sq)(t := task), sq_queue := sq_queue sq @ [t]\<rparr>, t)"
    "t \<notin> set (active sq)" "distinct (active sq @ t # mag)" "\<forall>u \<in> set (active sq @ t # mag). u < m"
    using new_task_eq [OF i(1), of task] by blast
  define q where "q = (fst (new_task task sq))\<lparr>sq_cookies := cks, sq_n_cookies := N\<rparr>"
  have q: "sq_thread q = sq_thread sq" "sq_queue q = sq_queue sq @ [t]" "sq_tasks q = (sq_tasks sq)(t := task)"
    "sq_magazine q = mag" "sq_n_elements q = m" "sq_cookies q = cks" "sq_n_cookies q = N"
    by (simp_all add: q_def t(1))
  have a: "active q = active sq @ [t]" by (simp add: q active_def)
  have "elements_ok q" unfolding elements_ok_def a using t(3,4) by (simp add: q)
  moreover have "linked q" unfolding linked_def
  proof (intro ballI allI impI)
    fix u c
    assume u: "u \<in> set (active q)" "load_cookie_of (sq_tasks q u) = Some (Some c)"
    show "\<exists>k. sq_cookies q c = Some k \<and> cookie_task k = u \<and> \<not> idle_source k"
    proof (cases "u = t")
      case True
      then show ?thesis using u own t(1) by (auto simp: q)
    next
      case False
      then obtain k where "sq_cookies sq c = Some k" "cookie_task k = u" "\<not> idle_source k"
        using u i(3) [of u c] by (auto simp: a q)
      moreover from this have "c < sq_n_cookies sq" using i(2) by auto
      ultimately show ?thesis using cookies(1) by (simp add: q)
    qed
  qed
  moreover have "\<forall>u \<in> set (active q). ends env (sq_tasks q u)" using i(4) assms(2) by (simp add: a q)
  moreover have "\<forall>u blob. sq_thread q = THREAD_LOADED u blob \<longrightarrow> load_cookie_of (sq_tasks q u) \<noteq> None"
    using i(5) t(2) loaded_active [of sq] by (fastforce simp: q)
  ultimately have "thread_inv env q" using cookies(2) by (simp add: thread_inv_def q)
  then show ?thesis by (simp add: q_def)
qed

lemma request_thread_inv:
  assumes "thread_inv env sq" "ends env task" "load_cookie_of task = None"
  shows "thread_inv env (fst (new_task task sq))"
proof -
  have "(fst (new_task task sq))\<lparr>sq_cookies := sq_cookies sq, sq_n_cookies := sq_n_cookies sq\<rparr> = fst (new_task task sq)"
    by (auto simp: new_task_def Let_def split: list.splits)
  then show ?thesis
    using add_task_thread_inv [OF assms(1,2), of "sq_cookies sq" "sq_n_cookies sq"] assms(3) thread_invE(2) [OF assms(1)] by simp
qed

lemma load_thread_inv:
  assumes "thread_inv env sq" "load_cookie_of task = Some (Some (sq_n_cookies sq))"
  shows "thread_inv env (case new_task task sq of (sq, t) \<Rightarrow> new_cookie t sq)"
proof -
  let ?cks = "(sq_cookies sq)(sq_n_cookies sq \<mapsto> \<lparr>cookie_blob = None, cookie_task = snd (new_task task sq), idle_source = False\<rparr>)"
  have "(case new_task task sq of (sq, t) \<Rightarrow> new_cookie t sq) =
      (fst (new_task task sq))\<lparr>sq_cookies := ?cks, sq_n_cookies := sq_n_cookies sq + 1\<rparr>"
    by (auto simp: new_task_def new_cookie_def Let_def split: list.splits)
  moreover have "ends env task" using assms(2) by (simp add: ends_def)
  moreover have "\<forall>c \<in> dom ?cks. c < sq_n_cookies sq + 1"
    using thread_invE(2) [OF assms(1)] by (auto simp: less_Suc_eq)
  ultimately show ?thesis
    using add_task_thread_inv [OF assms(1), of task ?cks "sq_n_cookies sq + 1"] assms(2) by simp
qed

lemma take_thread_inv:
  assumes "thread_inv env sq" "thread_take sq = Some sq'"
  shows "thread_inv env sq'"
proof -
  obtain t rest where t: "sq_thread sq = THREAD_WAITING" "sq_queue sq = t # rest"
    "sq' = free_task t (sq\<lparr>sq_queue := rest\<rparr>) \<or> sq' = sq\<lparr>sq_queue := rest, sq_thread := THREAD_WORKING t\<rparr>"
    using assms(2) by (auto simp: thread_take_def Let_def split: thread_state.splits list.splits option.splits)
  show ?thesis
    by (rule thread_inv_fewer [OF assms(1)])
      (use t thread_invE(1) [OF assms(1)] in \<open>auto simp: free_task_def elements_ok_def active_def\<close>)
qed

lemma work_thread_inv:
  assumes "thread_inv env sq" "thread_work env io sq = Some (Ok sq')"
  shows "thread_inv env sq'"
proof -
  obtain t store where t: "sq_thread sq = THREAD_WORKING t"
    "sq' = free_task t (sq\<lparr>sq_store := store\<rparr>) \<or>
     load_cookie_of (sq_tasks sq t) \<noteq> None \<and> sq' = sq\<lparr>sq_thread := THREAD_LOADED t (read_task (io_done io) (sq_tasks sq t) (sq_store sq))\<rparr>"
    using assms(2) by (auto simp: thread_work_def bind_run_def split: thread_state.splits option.splits outcome.splits)
  show ?thesis
    by (rule thread_inv_fewer [OF assms(1)])
      (use t thread_invE(1) [OF assms(1)] in \<open>auto simp: free_task_def elements_ok_def active_def\<close>)
qed

lemma finish_thread_inv:
  assumes "thread_inv env sq" "thread_finish_load sq = Some (Ok sq')"
  shows "thread_inv env sq'"
proof -
  note i = thread_invE [OF assms(1)]
  obtain t blob where t: "sq_thread sq = THREAD_LOADED t blob"
    using assms(2) by (auto simp: thread_finish_load_def split: thread_state.splits)
  obtain c where c: "load_cookie_of (sq_tasks sq t) = Some c" using i(5) [OF t] by blast
  have free: "thread_inv env (free_task t sq)"
    by (rule thread_inv_fewer [OF assms(1)]) (use t i(1) in \<open>auto simp: free_task_def elements_ok_def active_def\<close>)
  show ?thesis
  proof (cases c)
    case None
    then show ?thesis using free assms(2) t c by (simp add: thread_finish_load_def)
  next
    case (Some n)
    then obtain k where k: "sq_cookies sq n = Some k" "cookie_task k = t" "\<not> idle_source k"
      using i(3) [OF loaded_active [OF t]] c by blast
    have q: "sq' = free_task t (sq\<lparr>sq_cookies := (sq_cookies sq)(n \<mapsto> k\<lparr>cookie_blob := blob, idle_source := True\<rparr>)\<rparr>)"
      using assms(2) t c Some k by (simp add: thread_finish_load_def)
    have a: "active sq' = sq_queue sq" "t \<notin> set (sq_queue sq)" "set (sq_queue sq) \<subseteq> set (active sq)"
      using i(1) t by (auto simp: q free_task_def active_def elements_ok_def)
    have "linked sq'"
      unfolding linked_def a(1)
    proof (intro ballI allI impI)
      fix u m
      assume u: "u \<in> set (sq_queue sq)" "load_cookie_of (sq_tasks sq' u) = Some (Some m)"
      then obtain l where l: "sq_cookies sq m = Some l" "cookie_task l = u" "\<not> idle_source l"
        using i(3) [of u m] a(3) by (auto simp: q free_task_def)
      then have "m \<noteq> n" using k a(2) u by auto
      then show "\<exists>k. sq_cookies sq' m = Some k \<and> cookie_task k = u \<and> \<not> idle_source k" using l by (simp add: q free_task_def)
    qed
    moreover have "elements_ok sq'" using thread_invE(1) [OF free] by (simp add: q elements_ok_def active_def free_task_def)
    moreover have "\<forall>u \<in> set (active sq'). ends env (sq_tasks sq' u)" unfolding a(1) using i(4) a(3) by (auto simp: q free_task_def)
    ultimately show ?thesis using i(2) k(1) by (auto simp: thread_inv_def q free_task_def)
  qed
qed

lemma idle_thread_inv:
  assumes "thread_inv env sq" "sq_cookies sq c = Some cookie" "idle_source cookie" "load_data_idle_cb c sq = Ok sq'"
  shows "thread_inv env sq'"
proof -
  note i = thread_invE [OF assms(1)]
  have q: "sq' = sq\<lparr>sq_delivered := sq_delivered sq @ [(c, cookie_blob cookie)], sq_cookies := (sq_cookies sq)(c := None)\<rparr>"
    using assms(2,4) by (simp add: load_data_idle_cb_def)
  have a: "active sq' = active sq" by (simp add: q active_def)
  have "linked sq'" unfolding linked_def a using i(3) assms(2,3) by (fastforce simp: q)
  then show ?thesis using i(1,2,4,5) unfolding thread_inv_def a by (auto simp: q elements_ok_def active_def)
qed

lemma cancel_thread_inv:
  assumes "thread_inv env sq" "sq_cookies sq c = Some cookie" "ntb_store_cancel_task c sq = Ok sq'"
  shows "thread_inv env sq'"
proof -
  note i = thread_invE [OF assms(1)]
  let ?f = "(sq_tasks sq)(cookie_task cookie := without_cookie (sq_tasks sq (cookie_task cookie)))"
  have q: "active sq' = active sq" "sq_tasks sq' = ?f" "sq_cookies sq' = (sq_cookies sq)(c := None)" "sq_thread sq' = sq_thread sq"
    "sq_n_cookies sq' = sq_n_cookies sq" "sq_magazine sq' = sq_magazine sq" "sq_n_elements sq' = sq_n_elements sq"
    by (simp_all add: cancel_eq [OF assms(3,2)] active_def)
  have "linked sq'" unfolding linked_def q
  proof (intro ballI allI impI)
    fix t n
    assume t: "t \<in> set (active sq)" "load_cookie_of (?f t) = Some (Some n)"
    then have "t \<noteq> cookie_task cookie" "load_cookie_of (sq_tasks sq t) = Some (Some n)" by (auto split: if_splits)
    then show "\<exists>k. ((sq_cookies sq)(c := None)) n = Some k \<and> cookie_task k = t \<and> \<not> idle_source k"
      using i(3) [OF t(1)] assms(2) by fastforce
  qed
  moreover have "\<forall>t \<in> set (active sq'). ends env (sq_tasks sq' t)" unfolding q using i(4) by simp
  ultimately show ?thesis using i(1,2,5) by (auto simp: thread_inv_def q elements_ok_def)
qed

lemma step_thread_inv:
  assumes "store_step env sq a sq'" "thread_inv env sq" "\<forall>task. a = ACT_REQUEST task \<longrightarrow> ends env task"
  shows "thread_inv env sq'"
  using assms
proof (cases rule: store_step.cases)
  case (step_load_blob hash)
  then show ?thesis using load_thread_inv [OF assms(2), of "TASK_LOAD_BLOB hash (Some (sq_n_cookies sq))"]
    by (simp add: ntb_store_load_blob_def)
next
  case (step_load_content cid)
  then show ?thesis using load_thread_inv [OF assms(2), of "TASK_LOAD_MESSAGE_CONTENT cid (Some (sq_n_cookies sq))"]
    by (simp add: ntb_store_load_message_content_def)
next
  case step_quit
  then show ?thesis using thread_inv_fewer [OF assms(2), of sq'] thread_invE(1,5) [OF assms(2)]
    by (simp add: elements_ok_def active_def)
qed (auto intro: request_thread_inv take_thread_inv work_thread_inv finish_thread_inv idle_thread_inv cancel_thread_inv)

lemma run_thread_inv:
  assumes "store_run env (new_queue store) as sq" "\<forall>task. ACT_REQUEST task \<in> set as \<longrightarrow> ends env task"
  shows "thread_inv env sq"
  using assms
proof (induction "new_queue store :: ('a, 'b) store_queue" as sq rule: store_run.induct)
  case run_none
  show ?case by (simp add: thread_inv_def linked_def elements_ok_def active_def new_queue_def)
next
  case (run_more as sq a sq')
  then show ?case using step_thread_inv [of env sq a sq'] by simp
qed

text \<open>The steps of the thread that are left, at most.\<close>

definition steps_left :: "('b, 'p) store_queue \<Rightarrow> nat" where
  "steps_left sq = 3 * length (sq_queue sq) + (case sq_thread sq of THREAD_WAITING \<Rightarrow> 0 | THREAD_WORKING t \<Rightarrow> 2 | THREAD_LOADED t blob \<Rightarrow> 1)"

lemma steps_left_0: "steps_left sq = 0 \<longleftrightarrow> sq_thread sq = THREAD_WAITING \<and> sq_queue sq = []"
  by (auto simp: steps_left_def split: thread_state.splits)

definition thread_actions :: "('b, 'p) store_action set" where
  "thread_actions = {ACT_TAKE, ACT_WORK SAVE_DONE, ACT_FINISH_LOAD}"

lemma thread_progress:
  assumes inv: "thread_inv env sq" and "steps_left sq \<noteq> 0"
  shows "\<exists>a \<in> thread_actions. \<exists>sq'. store_step env sq a sq' \<and> steps_left sq' < steps_left sq"
proof (cases "sq_thread sq")
  case THREAD_WAITING
  then obtain t rest where t: "sq_queue sq = t # rest" using assms(2) by (cases "sq_queue sq") (auto simp: steps_left_def)
  obtain sq' where q: "thread_take sq = Some sq'" using THREAD_WAITING t by (simp add: thread_take_def Let_def)
  then have "steps_left sq' < steps_left sq" using THREAD_WAITING t
    by (auto simp: thread_take_def Let_def steps_left_def free_task_def split: option.splits)
  then show ?thesis using step_take [OF q] by (auto simp: thread_actions_def)
next
  case (THREAD_WORKING t)
  then have e: "ends env (sq_tasks sq t)" using thread_invE(4) [OF inv] by (simp add: active_def)
  have "\<exists>sq'. thread_work env SAVE_DONE sq = Some (Ok sq')"
  proof (cases "load_cookie_of (sq_tasks sq t)")
    case None
    then obtain store where "run_task env SAVE_DONE (sq_tasks sq t) (sq_store sq) = Some (Ok store)" using e by (auto simp: ends_def)
    then show ?thesis using THREAD_WORKING None by (simp add: thread_work_def)
  qed (simp add: thread_work_def THREAD_WORKING)
  then obtain sq' where q: "thread_work env SAVE_DONE sq = Some (Ok sq')" by blast
  then have "steps_left sq' < steps_left sq" using THREAD_WORKING
    by (auto simp: thread_work_def steps_left_def free_task_def bind_run_def split: option.splits outcome.splits)
  then show ?thesis using step_work [OF q] by (auto simp: thread_actions_def)
next
  case (THREAD_LOADED t blob)
  then obtain c where c: "load_cookie_of (sq_tasks sq t) = Some c" using thread_invE(5) [OF inv] by blast
  moreover have "\<exists>k. sq_cookies sq n = Some k" if "c = Some n" for n
    using thread_invE(3) [OF inv loaded_active [OF THREAD_LOADED]] c that by blast
  ultimately obtain sq' where q: "thread_finish_load sq = Some (Ok sq')"
    using THREAD_LOADED by (cases c) (auto simp: thread_finish_load_def)
  then have "steps_left sq' < steps_left sq" using THREAD_LOADED
    by (auto simp: thread_finish_load_def steps_left_def free_task_def split: option.splits)
  then show ?thesis using step_finish [OF q] by (auto simp: thread_actions_def)
qed

lemma thread_drains:
  "store_run env (new_queue store) as sq \<Longrightarrow> \<forall>task. ACT_REQUEST task \<in> set as \<longrightarrow> ends env task \<Longrightarrow>
   \<exists>bs sq'. set bs \<subseteq> thread_actions \<and> length bs \<le> steps_left sq \<and>
     store_run env (new_queue store) (as @ bs) sq' \<and> steps_left sq' = 0"
proof (induction "steps_left sq" arbitrary: as sq rule: less_induct)
  case less
  show ?case
  proof (cases "steps_left sq = 0")
    case True
    then show ?thesis using less.prems(1) by (intro exI [of _ "[]"] exI [of _ sq]) simp
  next
    case False
    obtain a q where a: "a \<in> thread_actions" "store_step env sq a q" "steps_left q < steps_left sq"
      using thread_progress [OF run_thread_inv [OF less.prems] False] by blast
    have "\<forall>task. ACT_REQUEST task \<in> set (as @ [a]) \<longrightarrow> ends env task"
      using less.prems(2) a(1) by (auto simp: thread_actions_def)
    then obtain bs sq' where "set bs \<subseteq> thread_actions" "length bs \<le> steps_left q"
      "store_run env (new_queue store) ((as @ [a]) @ bs) sq'" "steps_left sq' = 0"
      using less.hyps [OF a(3) run_more [OF less.prems(1) a(2)]] by blast
    then show ?thesis using a by (intro exI [of _ "a # bs"] exI [of _ sq']) auto
  qed
qed

lemma spec_run_thread: "set bs \<subseteq> thread_actions \<Longrightarrow> spec_run env store (as @ bs) = spec_run env store as"
  by (induction bs rule: rev_induct) (auto simp: spec_run_def thread_actions_def)

section \<open>Running a list of actions\<close>

fun store_exec ::
    "('b, 'p, 'c) task_env \<Rightarrow> ('b, 'p) store_action \<Rightarrow> ('b, 'p) store_queue \<Rightarrow> ('b, 'p) store_queue option" where
  "store_exec env (ACT_REQUEST task) sq = (if load_cookie_of task = None then Some (fst (new_task task sq)) else None)"
| "store_exec env (ACT_LOAD_BLOB hash) sq = Some (ntb_store_load_blob hash sq)"
| "store_exec env (ACT_LOAD_MESSAGE_CONTENT cid) sq = Some (ntb_store_load_message_content cid sq)"
| "store_exec env ACT_TAKE sq = thread_take sq"
| "store_exec env (ACT_WORK io) sq = (case thread_work env io sq of Some (Ok sq') \<Rightarrow> Some sq' | _ \<Rightarrow> None)"
| "store_exec env ACT_FINISH_LOAD sq = (case thread_finish_load sq of Some (Ok sq') \<Rightarrow> Some sq' | _ \<Rightarrow> None)"
| "store_exec env (ACT_IDLE c) sq =
     (case sq_cookies sq c of None \<Rightarrow> None
      | Some k \<Rightarrow> if idle_source k then (case load_data_idle_cb c sq of Ok sq' \<Rightarrow> Some sq' | _ \<Rightarrow> None) else None)"
| "store_exec env (ACT_CANCEL c) sq = (case ntb_store_cancel_task c sq of Ok sq' \<Rightarrow> Some sq' | _ \<Rightarrow> None)"
| "store_exec env ACT_QUIT sq = Some (sq\<lparr>sq_quit := True\<rparr>)"

fun store_execs ::
    "('b, 'p, 'c) task_env \<Rightarrow> ('b, 'p) store_action list \<Rightarrow> ('b, 'p) store_queue \<Rightarrow> ('b, 'p) store_queue option" where
  "store_execs env [] sq = Some sq"
| "store_execs env (a # as) sq = Option.bind (store_exec env a sq) (store_execs env as)"

lemma store_exec_step: "store_exec env a sq = Some sq' \<Longrightarrow> store_step env sq a sq'"
  by (cases a) (auto intro: store_step.intros simp: ntb_store_cancel_task_def
      split: if_splits option.splits outcome.splits)

lemma store_run_append: "store_run env sq' bs sq'' \<Longrightarrow> store_run env sq as sq' \<Longrightarrow> store_run env sq (as @ bs) sq''"
  by (induction rule: store_run.induct) (auto simp flip: append_assoc intro: run_more)

lemma store_execs_run: "store_execs env as sq = Some sq' \<Longrightarrow> store_run env sq as sq'"
proof (induction as arbitrary: sq)
  case Nil
  then show ?case by (simp add: run_none)
next
  case (Cons a as)
  then obtain q where q: "store_exec env a sq = Some q" "store_execs env as q = Some sq'" by (auto simp: bind_eq_Some_conv)
  have "store_run env sq ([] @ [a]) q" by (rule run_more [OF run_none store_exec_step [OF q(1)]])
  then show ?case using store_run_append [OF Cons.IH [OF q(2)], of sq "[a]"] by simp
qed

section \<open>Properties\<close>



text \<open>
  A load can be cancelled up to the moment its callback runs, but the cookie still points to the task
  that the thread has freed by then. If the element has been given to another request in between, the
  cancellation stops the program at an assertion, and if that request is another load it is that load
  which is cancelled: its cookie never gets a result.
\<close>
theorem cancel_of_finished_load:
  fixes env :: "('b, 'p, 'c) task_env"
  assumes "load_cookie_of task = None"
  shows "(\<exists>sq. store_run env (new_queue store) [ACT_LOAD_BLOB hash, ACT_TAKE, ACT_WORK SAVE_DONE, ACT_FINISH_LOAD, ACT_REQUEST task] sq \<and>
      sq_cookies sq 0 \<noteq> None \<and> ntb_store_cancel_task 0 sq = Fault) \<and>
    (\<exists>sq :: ('b, 'p) store_queue. store_run env (new_queue store)
        [ACT_LOAD_BLOB hash, ACT_TAKE, ACT_WORK SAVE_DONE, ACT_FINISH_LOAD, ACT_LOAD_BLOB hash', ACT_CANCEL 0, ACT_TAKE] sq \<and>
      sq_cookies sq 1 \<noteq> None \<and> sq_queue sq = [] \<and> sq_thread sq = THREAD_WAITING)"
proof -
  let ?q = "the (store_execs env [ACT_LOAD_BLOB hash, ACT_TAKE, ACT_WORK SAVE_DONE, ACT_FINISH_LOAD, ACT_REQUEST task] (new_queue store))"
  have "store_execs env [ACT_LOAD_BLOB hash, ACT_TAKE, ACT_WORK SAVE_DONE, ACT_FINISH_LOAD, ACT_REQUEST task] (new_queue store) = Some ?q \<and>
      sq_cookies ?q 0 \<noteq> None \<and> ntb_store_cancel_task 0 ?q = Fault"
    using assms by (cases task) (simp_all add: new_queue_def ntb_store_load_blob_def new_task_def new_cookie_def
        thread_take_def thread_work_def thread_finish_load_def free_task_def ntb_store_cancel_task_def)
  moreover
  let ?r = "the (store_execs env [ACT_LOAD_BLOB hash, ACT_TAKE, ACT_WORK SAVE_DONE, ACT_FINISH_LOAD, ACT_LOAD_BLOB hash', ACT_CANCEL 0, ACT_TAKE]
      (new_queue store :: ('b, 'p) store_queue))"
  have "store_execs env [ACT_LOAD_BLOB hash, ACT_TAKE, ACT_WORK SAVE_DONE, ACT_FINISH_LOAD, ACT_LOAD_BLOB hash', ACT_CANCEL 0, ACT_TAKE]
      (new_queue store) = Some ?r \<and> sq_cookies ?r 1 \<noteq> None \<and> sq_queue ?r = [] \<and> sq_thread ?r = THREAD_WAITING"
    by (simp add: new_queue_def ntb_store_load_blob_def new_task_def new_cookie_def
        thread_take_def thread_work_def thread_finish_load_def free_task_def ntb_store_cancel_task_def)
  ultimately show ?thesis by (meson store_execs_run)
qed

definition toy_env :: "(nat, 64 word, unit) task_env" where
  "toy_env = \<lparr>te_crypto = toy_crypto, te_ntop6 = letters, te_ntop4 = letters, te_localtime = (\<lambda>_.
       \<lparr>tm_sec = 20, tm_min = 53, tm_hour = 16, tm_mday = 13, tm_mon = 4, tm_year = 114, tm_wday = 2, tm_gmtoff = 0\<rparr>),
     te_timeofday = (1400000000, 5), te_hostname = str ''h''\<rparr>"

text \<open>An object is saved and loaded, and the thread takes up its work only after both requests.\<close>

definition sample_actions :: "(nat, 64 word) store_action list" where
  "sample_actions = [ACT_REQUEST (TASK_SAVE_BLOB (replicate 32 1) sample_blob), ACT_LOAD_BLOB (replicate 32 1), ACT_QUIT]"

definition sample_thread :: "(nat, 64 word) store_action list" where
  "sample_thread = [ACT_TAKE, ACT_WORK SAVE_DONE, ACT_TAKE, ACT_WORK SAVE_DONE, ACT_FINISH_LOAD, ACT_IDLE 0]"

lemma sample_run:
  "\<exists>sq. store_run toy_env (new_queue sample_store) (sample_actions @ sample_thread) sq \<and>
     sq_delivered sq = [(0, Some sample_blob)] \<and> thread_ends sq"
proof -
  let ?q = "store_execs toy_env (sample_actions @ sample_thread) (new_queue sample_store)"
  have "(case ?q of None \<Rightarrow> False | Some sq \<Rightarrow> sq_delivered sq = [(0, Some sample_blob)] \<and> thread_ends sq)"
    by code_simp
  then show ?thesis by (auto split: option.splits intro: store_execs_run)
qed



theorem cancel_of_finished_load_witness:
  "\<exists>sq. store_run toy_env (new_queue sample_store)
      [ACT_LOAD_BLOB [], ACT_TAKE, ACT_WORK SAVE_DONE, ACT_FINISH_LOAD, ACT_REQUEST (TASK_DELETE_OBJECT [])] sq \<and>
    ntb_store_cancel_task 0 sq = Fault"
  using cancel_of_finished_load [of "TASK_DELETE_OBJECT []" toy_env sample_store "[]" "[]"] by auto

end
