(* ===== verification/Ntb_Ipc_Proto.thy ===== *)
theory Ntb_Ipc_Proto
  imports Ntb_Proto
begin

text \<open>
  The framing of the messages between the daemon and the local client programs (\<open>ntb-ipc-proto.c\<close> and
  \<open>ntb-ipc-proto.h\<close>): a name of 12 bytes, a request number, the length of the payload and the payload.
  Both ends build their messages with these two functions.
\<close>

datatype ntb_ipc_proto_status =
    NTB_IPC_PROTO_STATUS_SUCCESS
  | NTB_IPC_PROTO_STATUS_GENERIC_ERROR
  | NTB_IPC_PROTO_STATUS_INVALID_COMMAND
  | NTB_IPC_PROTO_STATUS_FD_ERROR
  | NTB_IPC_PROTO_STATUS_INVALID_EMAIL
  | NTB_IPC_PROTO_STATUS_UNKNOWN_FROM_ADDRESS
  | NTB_IPC_PROTO_STATUS_UNSUPPORTED

fun status_code :: "ntb_ipc_proto_status \<Rightarrow> u32" where
  "status_code NTB_IPC_PROTO_STATUS_SUCCESS = 0"
| "status_code NTB_IPC_PROTO_STATUS_GENERIC_ERROR = 1"
| "status_code NTB_IPC_PROTO_STATUS_INVALID_COMMAND = 2"
| "status_code NTB_IPC_PROTO_STATUS_FD_ERROR = 3"
| "status_code NTB_IPC_PROTO_STATUS_INVALID_EMAIL = 4"
| "status_code NTB_IPC_PROTO_STATUS_UNKNOWN_FROM_ADDRESS = 5"
| "status_code NTB_IPC_PROTO_STATUS_UNSUPPORTED = 6"

text \<open>The four bytes for the length are reserved and stay indeterminate until the command is ended.\<close>

definition ntb_ipc_proto_begin_command :: "ntb_buffer \<Rightarrow> string \<Rightarrow> u32 \<Rightarrow> ntb_buffer" where
  "ntb_ipc_proto_begin_command buffer name request_id =
     (let buffer = ntb_buffer_append buffer (str name);
          buffer = foldl ntb_buffer_append_c buffer (replicate (12 - length name) 0);
          buffer = ntb_buffer_append buffer (be_bytes 4 (unat request_id)) in
      ntb_buffer_set_length buffer (buf_length buffer + 4))"

definition ntb_ipc_proto_end_command :: "ntb_buffer \<Rightarrow> nat \<Rightarrow> ntb_buffer" where
  "ntb_ipc_proto_end_command buffer command_start =
     (let command_length = (word_of_nat (buf_length buffer - command_start - 20) :: u32) in
      buffer\<lparr>buf_data := write_at (command_start + 16) (map Some (be_bytes 4 (unat command_length))) (buf_data buffer)\<rparr>)"

section \<open>Frames\<close>

definition ipc_header :: "string \<Rightarrow> u32 \<Rightarrow> u8 list" where
  "ipc_header name request_id = str name @ replicate (12 - length name) 0 @ be_bytes 4 (unat request_id)"

definition ipc_frame :: "string \<Rightarrow> u32 \<Rightarrow> u8 list \<Rightarrow> u8 list" where
  "ipc_frame name request_id payload = ipc_header name request_id @ be_bytes 4 (length payload) @ payload"

lemma length_ipc_header: "length name \<le> 12 \<Longrightarrow> length (ipc_header name request_id) = 16"
  by (simp add: ipc_header_def)

lemma length_ipc_frame: "length name \<le> 12 \<Longrightarrow> length (ipc_frame name request_id payload) = 20 + length payload"
  by (simp add: ipc_frame_def length_ipc_header)

lemma ipc_begin_eq:
  assumes "buf_ok b" "length name \<le> 12"
  shows "buf_ok (ntb_ipc_proto_begin_command b name request_id) \<and>
    (\<exists>fill. length fill = 4 \<and> contents (ntb_ipc_proto_begin_command b name request_id) =
       contents b @ map Some (ipc_header name request_id) @ fill)"
proof -
  define c where "c = ntb_buffer_append (foldl ntb_buffer_append_c (ntb_buffer_append b (str name)) (replicate (12 - length name) 0))
      (be_bytes 4 (unat request_id))"
  have c: "buf_ok c" "contents c = contents b @ map Some (ipc_header name request_id)"
    using assms(1) by (simp_all add: c_def ntb_contents buf_c.held_put buf_c.invar_put ipc_header_def)
  have "ntb_ipc_proto_begin_command b name request_id = ntb_buffer_set_length c (buf_length c + 4)"
    by (simp add: ntb_ipc_proto_begin_command_def Let_def c_def)
  then show ?thesis using c set_length_eq [OF c(1), of "buf_length c + 4"] set_length_fill [OF c(1), of "buf_length c + 4"] by auto
qed

lemma ipc_end_eq:
  assumes "buf_ok b" "contents b = pre @ map Some (ipc_header name request_id) @ fill @ map Some payload"
    "length fill = 4" "length name \<le> 12" "length payload < 2 ^ 32"
  shows "buf_ok (ntb_ipc_proto_end_command b (length pre)) \<and>
    contents (ntb_ipc_proto_end_command b (length pre)) = pre @ map Some (ipc_frame name request_id payload)"
proof -
  have h: "length (ipc_header name request_id) = 16" using assms(4) by (rule length_ipc_header)
  obtain rest where d: "buf_data b = pre @ map Some (ipc_header name request_id) @ fill @ map Some payload @ rest"
    using assms(2) append_take_drop_id [of "buf_length b" "buf_data b"] by (metis append_assoc contents_def)
  have len: "buf_length b = length pre + 20 + length payload" using assms h length_contents [OF assms(1)] by simp
  then have "unat (word_of_nat (buf_length b - length pre - 20) :: u32) = length payload"
    using assms(5) by (simp add: unat_of_nat)
  then have "ntb_ipc_proto_end_command b (length pre) =
      b\<lparr>buf_data := pre @ map Some (ipc_header name request_id) @ map Some (be_bytes 4 (length payload)) @ map Some payload @ rest\<rparr>"
    using d assms(3) h by (simp add: ntb_ipc_proto_end_command_def Let_def write_at_def)
  moreover have "buf_size b = length pre + 20 + length payload + length rest" using assms(1,3) d h by (simp add: buf_ok_def)
  ultimately show ?thesis using len h by (simp add: buf_ok_def contents_def ipc_frame_def)
qed

text \<open>A command whose payload is appended between the two calls is one frame.\<close>

lemma ipc_command_eq:
  assumes "buf_ok b" "length name \<le> 12" "length payload < 2 ^ 32"
    "\<And>c. buf_ok c \<Longrightarrow> buf_ok (f c) \<and> contents (f c) = contents c @ map Some payload"
  shows "buf_ok (ntb_ipc_proto_end_command (f (ntb_ipc_proto_begin_command b name request_id)) (buf_length b)) \<and>
    contents (ntb_ipc_proto_end_command (f (ntb_ipc_proto_begin_command b name request_id)) (buf_length b)) =
      contents b @ map Some (ipc_frame name request_id payload)"
proof -
  let ?c = "ntb_ipc_proto_begin_command b name request_id"
  obtain fill where fill: "buf_ok ?c" "length fill = 4" "contents ?c = contents b @ map Some (ipc_header name request_id) @ fill"
    using ipc_begin_eq [OF assms(1,2)] by blast
  have "contents (f ?c) = contents b @ map Some (ipc_header name request_id) @ fill @ map Some payload" "buf_ok (f ?c)"
    using assms(4) [OF fill(1)] fill(3) by simp_all
  from ipc_end_eq [OF this(2,1) fill(2) assms(2,3)] show ?thesis using assms(1) by simp
qed

section \<open>Taking a frame apart\<close>

lemma get_32_append: "ntb_proto_get_32 (be_bytes 4 (unat v) @ rest) = Ok v"
  by (simp add: ntb_proto_get_32_def get_be_append of_nat_be_value_be_bytes)

lemma ipc_frame_parts:
  assumes "length name \<le> 12" "length payload < 2 ^ 32"
  shows "ntb_proto_get_32 (drop 12 (ipc_frame name request_id payload @ rest)) = Ok request_id"
    "ntb_proto_get_32 (drop 16 (ipc_frame name request_id payload @ rest)) = Ok (word_of_nat (length payload))"
    "drop 20 (ipc_frame name request_id payload @ rest) = payload @ rest"
    "drop (20 + length payload) (ipc_frame name request_id payload @ rest) = rest"
proof -
  have "be_bytes 4 (length payload) = be_bytes 4 (unat (word_of_nat (length payload) :: u32))"
    using assms(2) by (simp add: unat_of_nat)
  then show "ntb_proto_get_32 (drop 16 (ipc_frame name request_id payload @ rest)) = Ok (word_of_nat (length payload))"
    using assms(1) get_32_append [of "word_of_nat (length payload)"] by (simp add: ipc_frame_def length_ipc_header)
  show "ntb_proto_get_32 (drop 12 (ipc_frame name request_id payload @ rest)) = Ok request_id"
    using assms(1) get_32_append [of request_id] by (simp add: ipc_frame_def ipc_header_def)
  show "drop 20 (ipc_frame name request_id payload @ rest) = payload @ rest"
    "drop (20 + length payload) (ipc_frame name request_id payload @ rest) = rest"
    using assms(1) by (simp_all add: ipc_frame_def length_ipc_header)
qed

text \<open>The names of the commands: short and without a zero.\<close>

lemma ipc_frame_name:
  assumes "0 \<notin> set (str name)" "length name < 12"
  shows "ntb_proto_check_command_string (ipc_frame name request_id payload @ rest)"
    "c_string (ipc_frame name request_id payload @ rest) = str name"
  using check_command_string_name [OF assms(1)] c_string_name [OF assms(1)] assms(2)
  by (simp_all add: ipc_frame_def ipc_header_def)

end
