(* ===== verification/Ntb_Parse_Addresses.thy ===== *)
theory Ntb_Parse_Addresses
  imports Ntb_Save_Message
begin

text \<open>
  The lists of addresses in mail headers (\<open>ntb-parse-addresses.c\<close>). The parser collects the characters of
  an address at the start of the same block that it is still reading. The model keeps the block as one
  list of bytes, so every read sees the writes before it; a write beyond the block would make the buffer
  grow and move while the parser keeps its old pointer, and counts as a fault. The callback takes the state
  of the caller and an address and either fails or returns the new state.
\<close>

section \<open>The parser\<close>

record 'u ntb_parse_addresses_data =
  pa_block :: "u8 list"
  pa_length :: nat
  had_address :: bool
  pa_user :: 'u

type_synonym 'u address_cb = "ntb_address \<Rightarrow> 'u \<Rightarrow> 'u outcome"

type_synonym address_reader = "u8 list \<Rightarrow> ntb_address outcome"

definition reset_addresses :: "'u ntb_parse_addresses_data \<Rightarrow> 'u ntb_parse_addresses_data" where
  "reset_addresses d = d\<lparr>pa_length := 0, had_address := False\<rparr>"

definition append_in_place :: "u8 \<Rightarrow> 'u ntb_parse_addresses_data \<Rightarrow> 'u ntb_parse_addresses_data outcome" where
  "append_in_place c d =
     (if pa_length d < length (pa_block d)
      then Ok (d\<lparr>pa_block := (pa_block d)[pa_length d := c], pa_length := pa_length d + 1\<rparr>)
      else Fault)"

text \<open>The reader \<open>rd\<close> stands for \<open>ntb_address_decode\<close>; it gets the string up to its first zero.\<close>

definition process_address ::
    "address_reader \<Rightarrow> 'u address_cb \<Rightarrow> 'u ntb_parse_addresses_data \<Rightarrow> 'u ntb_parse_addresses_data outcome" where
  "process_address rd cb d =
     (case memchr (take (pa_length d) (pa_block d)) 0x40 of
        None \<Rightarrow> Fail
      | Some e \<Rightarrow>
          if pa_length d - e - 1 \<noteq> 10 \<or> take 10 (drop (e + 1) (pa_block d)) \<noteq> str ''bitmessage'' then Fail
          else
            let d = d\<lparr>pa_block := (pa_block d)[e := 0]\<rparr> in
            bind_outcome (rd (takeWhile (\<lambda>c. c \<noteq> 0) (pa_block d))) (\<lambda>address.
            bind_outcome (cb address (pa_user d)) (\<lambda>u. Ok (d\<lparr>pa_user := u\<rparr>))))"

definition end_address ::
    "address_reader \<Rightarrow> 'u address_cb \<Rightarrow> 'u ntb_parse_addresses_data \<Rightarrow> 'u ntb_parse_addresses_data outcome" where
  "end_address rd cb d =
     bind_outcome (if had_address d then Ok d else process_address rd cb d) (\<lambda>d. Ok (reset_addresses d))"

text \<open>
  The loops take the position of the read pointer and the number of bytes that are left, and return the
  position behind the text they have consumed.
\<close>

function quotes_loop :: "'u ntb_parse_addresses_data \<Rightarrow> nat \<Rightarrow> nat \<Rightarrow> ('u ntb_parse_addresses_data \<times> nat) outcome" where
  "quotes_loop d i n =
     (if n = 0 then Fail
      else if i \<ge> length (pa_block d) then Fault
      else if pa_block d ! i = 0x22 then Ok (d, i + 1)
      else if pa_block d ! i = 0x5c then
        if n < 2 then Fail
        else if i + 1 \<ge> length (pa_block d) then Fault
        else bind_outcome (append_in_place (pa_block d ! (i + 1)) d) (\<lambda>d. quotes_loop d (i + 2) (n - 2))
      else bind_outcome (append_in_place (pa_block d ! i) d) (\<lambda>d. quotes_loop d (i + 1) (n - 1)))"
  by pat_completeness auto
termination by (relation "measure (\<lambda>(d, i, n). n)") auto

definition parse_quotes :: "'u ntb_parse_addresses_data \<Rightarrow> nat \<Rightarrow> nat \<Rightarrow> ('u ntb_parse_addresses_data \<times> nat) outcome" where
  "parse_quotes d i n = quotes_loop d (i + 1) (n - 1)"

function brackets_loop ::
    "address_reader \<Rightarrow> 'u address_cb \<Rightarrow> 'u ntb_parse_addresses_data \<Rightarrow> nat \<Rightarrow> nat \<Rightarrow>
     ('u ntb_parse_addresses_data \<times> nat) outcome" where
  "brackets_loop rd cb d i n =
     (if n = 0 then Fail
      else if i \<ge> length (pa_block d) then Fault
      else if pa_block d ! i = 0x3e then bind_outcome (process_address rd cb d) (\<lambda>d. Ok (d, i + 1))
      else bind_outcome (append_in_place (pa_block d ! i) d) (\<lambda>d. brackets_loop rd cb d (i + 1) (n - 1)))"
  by pat_completeness auto
termination by (relation "measure (\<lambda>(rd, cb, d, i, n). n)") auto

definition parse_brackets ::
    "address_reader \<Rightarrow> 'u address_cb \<Rightarrow> 'u ntb_parse_addresses_data \<Rightarrow> nat \<Rightarrow> nat \<Rightarrow>
     ('u ntb_parse_addresses_data \<times> nat) outcome" where
  "parse_brackets rd cb d i n =
     (if had_address d then Fail
      else brackets_loop rd cb (d\<lparr>had_address := True, pa_length := 0\<rparr>) (i + 1) (n - 1))"

declare quotes_loop.simps [simp del] brackets_loop.simps [simp del]

lemma quotes_loop_consumes: "quotes_loop d i n = Ok (d', j) \<Longrightarrow> i < j"
proof (induction n arbitrary: d i rule: less_induct)
  case (less n)
  note step = less.prems [unfolded quotes_loop.simps [of d i n]]
  have "k < j" if "m < n" "quotes_loop e k m = Ok (d', j)" for e k m
    using less.IH that by blast
  then have "i + 2 < j" if "quotes_loop e (i + 2) (n - 2) = Ok (d', j)" "2 \<le> n" for e
    using that by (metis diff_less less_le_trans zero_less_numeral)
  moreover have "i + 1 < j" if "quotes_loop e (i + 1) (n - 1) = Ok (d', j)" "0 < n" for e
    using that less.IH [of "n - 1"] by simp
  ultimately show ?case
    using step by (fastforce split: if_splits)
qed

lemma brackets_loop_consumes: "brackets_loop rd cb d i n = Ok (d', j) \<Longrightarrow> i < j"
proof (induction n arbitrary: d i)
  case (Suc n)
  then show ?case
    by (subst (asm) (2) brackets_loop.simps) (fastforce split: if_splits)
qed (simp add: brackets_loop.simps)

function addresses_loop ::
    "address_reader \<Rightarrow> 'u address_cb \<Rightarrow> 'u ntb_parse_addresses_data \<Rightarrow> nat \<Rightarrow> nat \<Rightarrow> 'u ntb_parse_addresses_data outcome" where
  "addresses_loop rd cb d i n =
     (if n = 0 then end_address rd cb d
      else if i \<ge> length (pa_block d) then Fault
      else
        let c = pa_block d ! i in
        if c = 0x2c then
          bind_outcome (end_address rd cb d) (\<lambda>d. addresses_loop rd cb (reset_addresses d) (i + 1) (n - 1))
        else if c = 0x22 then
          bind_outcome (parse_quotes d i n) (\<lambda>(d, j). addresses_loop rd cb d j (n - (j - i)))
        else if c = 0x3c then
          bind_outcome (parse_brackets rd cb d i n) (\<lambda>(d, j). addresses_loop rd cb d j (n - (j - i)))
        else if c = 0x20 then addresses_loop rd cb d (i + 1) (n - 1)
        else bind_outcome (append_in_place c d) (\<lambda>d. addresses_loop rd cb d (i + 1) (n - 1)))"
  by pat_completeness auto
termination
  by (relation "measure (\<lambda>(rd, cb, d, i, n). n)")
    (auto simp: parse_quotes_def parse_brackets_def split: if_splits dest!: quotes_loop_consumes brackets_loop_consumes)

declare addresses_loop.simps [simp del]

text \<open>The buffer is the block together with the number of its bytes that are in use.\<close>

definition ntb_parse_addresses :: "address_reader \<Rightarrow> 'u address_cb \<Rightarrow> u8 list \<Rightarrow> nat \<Rightarrow> 'u \<Rightarrow> 'u outcome" where
  "ntb_parse_addresses rd cb block len u =
     bind_outcome
       (addresses_loop rd cb (reset_addresses \<lparr>pa_block = block, pa_length = len, had_address = False, pa_user = u\<rparr>) 0 len)
       (\<lambda>d. Ok (pa_user d))"

section \<open>The reference definition\<close>

text \<open>
  The same grammar on a list that is not changed. The text of the current address is kept, or nothing once
  an address in brackets has been seen.
\<close>

fun text_quotes :: "u8 list \<Rightarrow> (u8 list \<times> u8 list) option" where
  "text_quotes [] = None"
| "text_quotes (c # cs) =
     (if c = 0x22 then Some ([], cs)
      else if c = 0x5c then
        (case cs of [] \<Rightarrow> None | e # rest \<Rightarrow> map_option (\<lambda>(q, r). (e # q, r)) (text_quotes rest))
      else map_option (\<lambda>(q, r). (c # q, r)) (text_quotes cs))"

fun text_brackets :: "u8 list \<Rightarrow> (u8 list \<times> u8 list) option" where
  "text_brackets [] = None"
| "text_brackets (c # cs) =
     (if c = 0x3e then Some ([], cs) else map_option (\<lambda>(q, r). (c # q, r)) (text_brackets cs))"

definition address_text :: "address_reader \<Rightarrow> u8 list \<Rightarrow> ntb_address outcome" where
  "address_text rd s =
     (case memchr s 0x40 of
        None \<Rightarrow> Fail
      | Some e \<Rightarrow> if drop (e + 1) s = str ''bitmessage'' then rd (takeWhile (\<lambda>c. c \<noteq> 0) (take e s)) else Fail)"

lemma text_quotes_shorter: "text_quotes cs = Some (q, r) \<Longrightarrow> length r < length cs"
  by (induction cs arbitrary: q r rule: text_quotes.induct) (fastforce split: if_splits list.splits)+

lemma text_brackets_shorter: "text_brackets cs = Some (q, r) \<Longrightarrow> length r < length cs"
  by (induction cs arbitrary: q r) (fastforce split: if_splits)+

definition finish_address :: "address_reader \<Rightarrow> 'u address_cb \<Rightarrow> u8 list option \<Rightarrow> 'u \<Rightarrow> 'u outcome" where
  "finish_address rd cb acc u =
     (case acc of None \<Rightarrow> Ok u | Some s \<Rightarrow> bind_outcome (address_text rd s) (\<lambda>address. cb address u))"

function address_list :: "address_reader \<Rightarrow> 'u address_cb \<Rightarrow> u8 list option \<Rightarrow> u8 list \<Rightarrow> 'u \<Rightarrow> 'u outcome" where
  "address_list rd cb acc [] u = finish_address rd cb acc u"
| "address_list rd cb acc (c # cs) u =
     (if c = 0x2c then bind_outcome (finish_address rd cb acc u) (address_list rd cb (Some []) cs)
      else if c = 0x22 then
        (case text_quotes cs of None \<Rightarrow> Fail | Some (q, rest) \<Rightarrow> address_list rd cb (map_option (\<lambda>s. s @ q) acc) rest u)
      else if c = 0x3c then
        (case acc of
           None \<Rightarrow> Fail
         | Some _ \<Rightarrow>
             (case text_brackets cs of
                None \<Rightarrow> Fail
              | Some (q, rest) \<Rightarrow> bind_outcome (finish_address rd cb (Some q) u) (address_list rd cb None rest)))
      else if c = 0x20 then address_list rd cb acc cs u
      else address_list rd cb (map_option (\<lambda>s. s @ [c]) acc) cs u)"
  by pat_completeness auto
termination
  by (relation "measure (\<lambda>(rd, cb, acc, cs, u). length cs)") (auto dest: text_quotes_shorter text_brackets_shorter)

section \<open>Writing into the block that is being read\<close>

text \<open>The text of the current address has grown by some characters, and nothing from position \<open>i\<close> on has changed.\<close>

definition collected :: "'u ntb_parse_addresses_data \<Rightarrow> u8 list \<Rightarrow> 'u ntb_parse_addresses_data \<Rightarrow> nat \<Rightarrow> bool" where
  "collected d cs d' i \<longleftrightarrow> had_address d' = had_address d \<and> pa_user d' = pa_user d \<and>
     length (pa_block d') = length (pa_block d) \<and> pa_length d' = pa_length d + length cs \<and> pa_length d' \<le> i \<and>
     take (pa_length d + length cs) (pa_block d') = take (pa_length d) (pa_block d) @ cs \<and>
     drop i (pa_block d') = drop i (pa_block d)"

lemma collectedD:
  assumes "collected d cs d' i"
  shows "had_address d' = had_address d" "pa_user d' = pa_user d" "length (pa_block d') = length (pa_block d)"
    "pa_length d' = pa_length d + length cs" "pa_length d' \<le> i"
    "take (pa_length d + length cs) (pa_block d') = take (pa_length d) (pa_block d) @ cs"
    "drop i (pa_block d') = drop i (pa_block d)"
  using assms by (simp_all add: collected_def)

lemma collected_refl: "pa_length d \<le> i \<Longrightarrow> collected d [] d i"
  by (simp add: collected_def)

lemma collected_trans:
  assumes "collected d cs d' i" "collected d' cs' d'' j" "i \<le> j"
  shows "collected d (cs @ cs') d'' j"
proof -
  have "drop j (pa_block d') = drop j (pa_block d)"
    using arg_cong [OF collectedD(7) [OF assms(1)], of "drop (j - i)"] assms(3) by simp
  then show ?thesis using assms(1,2) by (simp add: collected_def add.assoc)
qed

lemma append_collects:
  assumes "pa_length d \<le> i" "i < length (pa_block d)"
  shows "\<exists>d'. append_in_place c d = Ok d' \<and> collected d [c] d' (i + 1)"
  using assms by (auto simp: append_in_place_def collected_def take_Suc_conv_app_nth)

lemma unread: "i < length b \<Longrightarrow> 0 < n \<Longrightarrow> take n (drop i b) = b ! i # take (n - 1) (drop (i + 1) b)"
  by (cases n) (simp_all add: Cons_nth_drop_Suc [symmetric])

lemma collected_unread:
  assumes "collected d cs d' i" "i \<le> j"
  shows "take n (drop j (pa_block d')) = take n (drop j (pa_block d))"
  using arg_cong [OF collectedD(7) [OF assms(1)], of "drop (j - i)"] assms(2) by simp

lemma quotes_loop_collects:
  assumes "pa_length d \<le> i" "i + n \<le> length (pa_block d)"
  shows "case text_quotes (take n (drop i (pa_block d))) of
      None \<Rightarrow> quotes_loop d i n = Fail
    | Some (q, rest) \<Rightarrow> \<exists>d'. quotes_loop d i n = Ok (d', i + n - length rest) \<and> collected d q d' (i + n - length rest) \<and>
        rest = take (length rest) (drop (i + n - length rest) (pa_block d)) \<and> length rest < n"
  using assms
proof (induction n arbitrary: d i rule: less_induct)
  case (less n)
  show ?case
  proof (cases "n = 0")
    case True
    then show ?thesis by (simp add: quotes_loop.simps)
  next
    case False
    let ?b = "pa_block d"
    have i: "i < length ?b" using less.prems False by simp
    note u = unread [OF i, of n]
    note step = quotes_loop.simps [of d i n]
    consider (quote) "?b ! i = 0x22" | (escape) "?b ! i = 0x5c" | (plain) "?b ! i \<noteq> 0x22" "?b ! i \<noteq> 0x5c" by blast
    then show ?thesis
    proof cases
      case quote
      then show ?thesis using u False i less.prems step
        by (auto intro!: collected_refl)
    next
      case escape
      show ?thesis
      proof (cases "n < 2")
        case True
        then show ?thesis using u False i escape step by (simp add: take_Cons')
      next
        case n2: False
        have i1: "i + 1 < length ?b" using less.prems n2 by simp
        obtain d' where d': "append_in_place (?b ! (i + 1)) d = Ok d'" "collected d [?b ! (i + 1)] d' (i + 1 + 1)"
          using append_collects [of d "i + 1"] less.prems(1) i1 by auto
        have s: "quotes_loop d i n = quotes_loop d' (i + 2) (n - 2)" using step escape n2 i1 d' by simp
        have t: "take n (drop i ?b) = 0x5c # ?b ! (i + 1) # take (n - 2) (drop (i + 2) ?b)"
          using u False unread [OF i1, of "n - 1"] n2 escape by (simp add: numeral_2_eq_2)
        have e: "i + 2 + (n - 2) = i + n" using n2 by simp
        have IH: "case text_quotes (take (n - 2) (drop (i + 2) (pa_block d'))) of
            None \<Rightarrow> quotes_loop d' (i + 2) (n - 2) = Fail
          | Some (q, rest) \<Rightarrow> \<exists>e. quotes_loop d' (i + 2) (n - 2) = Ok (e, i + n - length rest) \<and>
              collected d' q e (i + n - length rest) \<and>
              rest = take (length rest) (drop (i + n - length rest) (pa_block d')) \<and> length rest < n - 2"
          using less.IH [of "n - 2" d' "i + 2", unfolded e] n2 less.prems collectedD [OF d'(2)] by simp
        show ?thesis
          using IH n2 d'(2) unfolding t s
          by (auto simp: collected_unread [OF d'(2)] split: option.splits dest!: collected_trans [OF d'(2)])
      qed
    next
      case plain
      obtain d' where d': "append_in_place (?b ! i) d = Ok d'" "collected d [?b ! i] d' (i + 1)"
        using append_collects [of d i] less.prems(1) i by auto
      have s: "quotes_loop d i n = quotes_loop d' (i + 1) (n - 1)" using step plain i d' False by simp
      have t: "take n (drop i ?b) = ?b ! i # take (n - 1) (drop (i + 1) ?b)" using u False by simp
      have e: "i + 1 + (n - 1) = i + n" using False by simp
      have IH: "case text_quotes (take (n - 1) (drop (i + 1) (pa_block d'))) of
          None \<Rightarrow> quotes_loop d' (i + 1) (n - 1) = Fail
        | Some (q, rest) \<Rightarrow> \<exists>e. quotes_loop d' (i + 1) (n - 1) = Ok (e, i + n - length rest) \<and>
            collected d' q e (i + n - length rest) \<and>
            rest = take (length rest) (drop (i + n - length rest) (pa_block d')) \<and> length rest < n - 1"
        using less.IH [of "n - 1" d' "i + 1", unfolded e] False less.prems collectedD [OF d'(2)] by simp
      show ?thesis
        using IH False plain d'(2) unfolding t s
        by (auto simp: collected_unread [OF d'(2)] split: option.splits dest!: collected_trans [OF d'(2)])
    qed
  qed
qed

lemma brackets_loop_collects:
  assumes "pa_length d \<le> i" "i + n \<le> length (pa_block d)"
  shows "case text_brackets (take n (drop i (pa_block d))) of
      None \<Rightarrow> brackets_loop rd cb d i n = Fail
    | Some (q, rest) \<Rightarrow> \<exists>d'. brackets_loop rd cb d i n =
          bind_outcome (process_address rd cb d') (\<lambda>d. Ok (d, i + n - length rest)) \<and>
        collected d q d' (i + n - length rest) \<and>
        rest = take (length rest) (drop (i + n - length rest) (pa_block d)) \<and> length rest < n"
  using assms
proof (induction n arbitrary: d i)
  case 0
  then show ?case by (simp add: brackets_loop.simps)
next
  case (Suc n)
  let ?b = "pa_block d"
  have i: "i < length ?b" using Suc.prems by simp
  have t: "take (Suc n) (drop i ?b) = ?b ! i # take n (drop (i + 1) ?b)" using unread [OF i, of "Suc n"] by simp
  note step = brackets_loop.simps [of rd cb d i "Suc n"]
  show ?case
  proof (cases "?b ! i = 0x3e")
    case True
    then show ?thesis using t i Suc.prems step by (auto intro!: exI [of _ d] collected_refl)
  next
    case False
    obtain d' where d': "append_in_place (?b ! i) d = Ok d'" "collected d [?b ! i] d' (i + 1)"
      using append_collects [of d i] Suc.prems(1) i by auto
    have s: "brackets_loop rd cb d i (Suc n) = brackets_loop rd cb d' (i + 1) n" using step False i d' by simp
    have e: "i + 1 + n = i + Suc n" by simp
    have IH: "case text_brackets (take n (drop (i + 1) (pa_block d'))) of
        None \<Rightarrow> brackets_loop rd cb d' (i + 1) n = Fail
      | Some (q, rest) \<Rightarrow> \<exists>e. brackets_loop rd cb d' (i + 1) n =
            bind_outcome (process_address rd cb e) (\<lambda>d. Ok (d, i + Suc n - length rest)) \<and>
          collected d' q e (i + Suc n - length rest) \<and>
          rest = take (length rest) (drop (i + Suc n - length rest) (pa_block d')) \<and> length rest < n"
      using Suc.IH [of d' "i + 1", unfolded e] Suc.prems collectedD [OF d'(2)] by simp
    show ?thesis
      using IH False unfolding t s
      by (auto simp: collected_unread [OF d'(2)] split: option.splits dest!: collected_trans [OF d'(2)])
  qed
qed

lemma takeWhile_zeroed:
  assumes "e < length b"
  shows "takeWhile (\<lambda>c. c \<noteq> 0) (b[e := 0]) = takeWhile (\<lambda>c. c \<noteq> (0 :: u8)) (take e b)"
  using assms by (auto simp: upd_conv_take_nth_drop takeWhile_append intro: takeWhile_eq_all_conv [THEN iffD2, symmetric])

text \<open>Looking at the text of an address ends it with a zero, which lies in front of everything still to be read.\<close>

lemma process_address_text:
  assumes "pa_length d \<le> length (pa_block d)"
  shows "\<exists>B. length B = length (pa_block d) \<and> (\<forall>i \<ge> pa_length d. drop i B = drop i (pa_block d)) \<and>
    process_address rd cb d =
      bind_outcome (finish_address rd cb (Some (take (pa_length d) (pa_block d))) (pa_user d)) (\<lambda>u.
        Ok (d\<lparr>pa_block := B, pa_user := u\<rparr>))"
proof (cases "memchr (take (pa_length d) (pa_block d)) 0x40")
  case None
  then show ?thesis
    by (intro exI [of _ "pa_block d"]) (simp add: process_address_def finish_address_def address_text_def)
next
  case (Some e)
  let ?b = "pa_block d"
  have e: "e < pa_length d" "e < length ?b" using memchr_SomeD [OF Some] assms by auto
  have "pa_length d - e - 1 \<noteq> 10 \<or> take 10 (drop (e + 1) ?b) \<noteq> str ''bitmessage'' \<longleftrightarrow>
      drop (e + 1) (take (pa_length d) ?b) \<noteq> str ''bitmessage''"
  proof -
    have "pa_length d - Suc e = 10" if "take (pa_length d - Suc e) (drop (Suc e) ?b) = str ''bitmessage''"
      using arg_cong [OF that, of length] assms e by (auto simp: min_def split: if_splits)
    then show ?thesis
      by (cases "pa_length d - Suc e = 10") (simp_all add: drop_take del: str_simps, blast)
  qed
  moreover have "takeWhile (\<lambda>c. c \<noteq> 0) (?b[e := 0]) = takeWhile (\<lambda>c. c \<noteq> 0) (take e (take (pa_length d) ?b))"
    using e takeWhile_zeroed [of e ?b] by (simp add: min_def)
  ultimately show ?thesis using Some e
    by (intro exI [of _ "?b[e := 0]"])
      (auto simp: process_address_def finish_address_def address_text_def bind_outcome_assoc Let_def simp del: str_simps)
qed

section \<open>The parser and the reference\<close>

definition current_text :: "'u ntb_parse_addresses_data \<Rightarrow> u8 list option" where
  "current_text d = (if had_address d then None else Some (take (pa_length d) (pa_block d)))"

lemma current_text_collected:
  "collected d cs d' i \<Longrightarrow> current_text d' = map_option (\<lambda>s. s @ cs) (current_text d)"
  by (simp add: current_text_def collected_def)

lemma end_address_text:
  assumes "pa_length d \<le> length (pa_block d)"
  shows "\<exists>B. length B = length (pa_block d) \<and> (\<forall>i \<ge> pa_length d. drop i B = drop i (pa_block d)) \<and>
    end_address rd cb d = bind_outcome (finish_address rd cb (current_text d) (pa_user d)) (\<lambda>u.
      Ok (reset_addresses (d\<lparr>pa_block := B, pa_user := u\<rparr>)))"
proof (cases "had_address d")
  case True
  then show ?thesis
    by (intro exI [of _ "pa_block d"]) (simp add: end_address_def current_text_def finish_address_def)
next
  case False
  then show ?thesis
    using process_address_text [OF assms, of rd cb] by (auto simp: end_address_def current_text_def bind_outcome_assoc)
qed

lemma addresses_loop_reference:
  assumes "pa_length d \<le> i" "i + n \<le> length (pa_block d)"
  shows "map_outcome pa_user (addresses_loop rd cb d i n) =
    address_list rd cb (current_text d) (take n (drop i (pa_block d))) (pa_user d)"
  using assms
proof (induction n arbitrary: d i rule: less_induct)
  case (less n)
  let ?b = "pa_block d"
  have le: "pa_length d \<le> length ?b" using less.prems by simp
  obtain B where B: "length B = length ?b" "\<And>j. pa_length d \<le> j \<Longrightarrow> drop j B = drop j ?b"
    "end_address rd cb d = bind_outcome (finish_address rd cb (current_text d) (pa_user d)) (\<lambda>u.
      Ok (reset_addresses (d\<lparr>pa_block := B, pa_user := u\<rparr>)))"
    using end_address_text [OF le, of rd cb] by blast
  note step = addresses_loop.simps [of rd cb d i n]
  show ?case
  proof (cases "n = 0")
    case True
    then show ?thesis using step B(3)
      by (cases "finish_address rd cb (current_text d) (pa_user d)") (simp_all add: reset_addresses_def)
  next
    case False
    have i: "i < length ?b" using less.prems False by simp
    have t: "take n (drop i ?b) = ?b ! i # take (n - 1) (drop (i + 1) ?b)" using unread [OF i, of n] False by simp
    consider (comma) "?b ! i = 0x2c" | (quote) "?b ! i = 0x22" | (bracket) "?b ! i = 0x3c" | (space) "?b ! i = 0x20"
      | (plain) "?b ! i \<notin> {0x2c, 0x22, 0x3c, 0x20}" by blast
    then show ?thesis
    proof cases
      case comma
      have IH: "map_outcome pa_user (addresses_loop rd cb (reset_addresses (d\<lparr>pa_block := B, pa_user := u\<rparr>)) (i + 1) (n - 1)) =
          address_list rd cb (Some []) (take (n - 1) (drop (i + 1) ?b)) u" for u
        using less.IH [of "n - 1" "reset_addresses (d\<lparr>pa_block := B, pa_user := u\<rparr>)" "i + 1"] False less.prems B(1,2)
        by (simp add: reset_addresses_def current_text_def)
      show ?thesis using step comma False i B(3) IH t
        by (cases "finish_address rd cb (current_text d) (pa_user d)") (simp_all add: reset_addresses_def)
    next
      case quote
      have e: "i + 1 + (n - 1) = i + n" using False by simp
      note loop = quotes_loop_collects [of d "i + 1" "n - 1", unfolded e]
      show ?thesis
      proof (cases "text_quotes (take (n - 1) (drop (i + 1) ?b))")
        case None
        then show ?thesis using loop step quote False i t less.prems by (simp add: parse_quotes_def Let_def)
      next
        case (Some qr)
        obtain q rest where qr: "qr = (q, rest)" by (cases qr)
        let ?j = "i + n - length rest"
        obtain d' where d': "quotes_loop d (i + 1) (n - 1) = Ok (d', ?j)" "collected d q d' ?j"
          "rest = take (length rest) (drop ?j ?b)" "length rest < n - 1"
          using loop Some qr less.prems by auto
        have "n - (?j - i) = length rest" using d'(4) by simp
        then have "addresses_loop rd cb d i n = addresses_loop rd cb d' ?j (length rest)"
          using step quote False i d'(1) by (simp add: parse_quotes_def Let_def)
        moreover have "map_outcome pa_user (addresses_loop rd cb d' ?j (length rest)) =
            address_list rd cb (current_text d') rest (pa_user d')"
          using less.IH [of "length rest" d' ?j] d'(4) less.prems(2) collectedD [OF d'(2)] d'(3)
            collected_unread [OF d'(2), of ?j] by simp
        ultimately show ?thesis
          using Some qr t quote collectedD(2) [OF d'(2)] current_text_collected [OF d'(2)] by simp
      qed
    next
      case bracket
      show ?thesis
      proof (cases "had_address d")
        case True
        then show ?thesis using step bracket False i t by (simp add: parse_brackets_def Let_def current_text_def)
      next
        case not_had: False
        let ?e = "d\<lparr>had_address := True, pa_length := 0\<rparr>"
        have e: "i + 1 + (n - 1) = i + n" using False by simp
        note loop = brackets_loop_collects [of ?e "i + 1" "n - 1" rd cb, unfolded e]
        show ?thesis
        proof (cases "text_brackets (take (n - 1) (drop (i + 1) ?b))")
          case None
          then show ?thesis using loop step bracket False i t less.prems not_had
            by (simp add: parse_brackets_def Let_def current_text_def)
        next
          case (Some qr)
          obtain q rest where qr: "qr = (q, rest)" by (cases qr)
          let ?j = "i + n - length rest"
          obtain d' where d': "brackets_loop rd cb ?e (i + 1) (n - 1) =
              bind_outcome (process_address rd cb d') (\<lambda>d. Ok (d, ?j))" "collected ?e q d' ?j"
            "rest = take (length rest) (drop ?j ?b)" "length rest < n - 1"
            using loop Some qr less.prems by auto
          note c = collectedD [OF d'(2), simplified]
          have fits: "?j \<le> length (pa_block d')" using c(3) less.prems(2) by simp
          obtain C where C: "length C = length (pa_block d')" "\<And>k. pa_length d' \<le> k \<Longrightarrow> drop k C = drop k (pa_block d')"
            "process_address rd cb d' =
              bind_outcome (finish_address rd cb (Some (take (pa_length d') (pa_block d'))) (pa_user d')) (\<lambda>u.
                Ok (d'\<lparr>pa_block := C, pa_user := u\<rparr>))"
            using process_address_text [of d' rd cb, OF le_trans [OF c(5)]] fits by blast
          have "n - (?j - i) = length rest" using d'(4) by simp
          then have "addresses_loop rd cb d i n = bind_outcome (finish_address rd cb (Some q) (pa_user d)) (\<lambda>u.
              addresses_loop rd cb (d'\<lparr>pa_block := C, pa_user := u\<rparr>) ?j (length rest))"
            using step bracket False i d'(1) not_had C(3) c(2,4,6) by (simp add: parse_brackets_def Let_def bind_outcome_assoc)
          moreover have "map_outcome pa_user (addresses_loop rd cb (d'\<lparr>pa_block := C, pa_user := u\<rparr>) ?j (length rest)) =
              address_list rd cb None rest u" for u
            using less.IH [of "length rest" "d'\<lparr>pa_block := C, pa_user := u\<rparr>" ?j] d'(3,4) less.prems(2) c C(1) C(2) [OF c(5)]
            by (simp add: current_text_def)
          ultimately show ?thesis
            using Some qr t bracket not_had
            by (cases "finish_address rd cb (Some q) (pa_user d)") (simp_all add: current_text_def)
        qed
      qed
    next
      case space
      then show ?thesis using step False i t less.IH [of "n - 1" d "i + 1"] less.prems by simp
    next
      case plain
      obtain d' where d': "append_in_place (?b ! i) d = Ok d'" "collected d [?b ! i] d' (i + 1)"
        using append_collects [of d i] less.prems(1) i by auto
      show ?thesis
        using less.IH [of "n - 1" d' "i + 1"] False less.prems collectedD [OF d'(2)] plain step i d'(1) t
          current_text_collected [OF d'(2)] collected_unread [OF d'(2)] by (simp add: Let_def)
    qed
  qed
qed

lemma parse_addresses_reference:
  assumes "len \<le> length block"
  shows "ntb_parse_addresses rd cb block len u = address_list rd cb (Some []) (take len block) u"
proof -
  let ?d = "reset_addresses \<lparr>pa_block = block, pa_length = len, had_address = False, pa_user = u\<rparr>"
  have "ntb_parse_addresses rd cb block len u = map_outcome pa_user (addresses_loop rd cb ?d 0 len)"
    by (cases "addresses_loop rd cb ?d 0 len") (simp_all add: ntb_parse_addresses_def)
  then show ?thesis using addresses_loop_reference [of ?d 0 len rd cb] assms
    by (simp add: reset_addresses_def current_text_def)
qed

section \<open>Reading written addresses\<close>

text \<open>Characters that the parser only collects.\<close>

definition collected_char :: "u8 \<Rightarrow> bool" where
  "collected_char c \<longleftrightarrow> c \<notin> {0x2c, 0x22, 0x3c, 0x20}"

lemma address_list_plain:
  "\<forall>c \<in> set s. collected_char c \<Longrightarrow> address_list rd cb (Some a) (s @ rest) u = address_list rd cb (Some (a @ s)) rest u"
  by (induction s arbitrary: a) (auto simp: collected_char_def)

lemma text_brackets_simple: "0x3e \<notin> set s \<Longrightarrow> text_brackets (s @ 0x3e # rest) = Some (s, rest)"
  by (induction s) auto

lemma text_quotes_simple: "0x22 \<notin> set s \<Longrightarrow> 0x5c \<notin> set s \<Longrightarrow> text_quotes (s @ 0x22 # rest) = Some (s, rest)"
  by (induction s) auto

text \<open>The text of an address: it is read back as the address, and it has none of the special characters.\<close>

definition address_text_ok :: "address_reader \<Rightarrow> ntb_address \<Rightarrow> u8 list \<Rightarrow> bool" where
  "address_text_ok rd a s \<longleftrightarrow> rd s = Ok a \<and> (\<forall>c \<in> set s. c \<notin> {0, 0x2c, 0x22, 0x3c, 0x3e, 0x20, 0x40})"

lemma address_text_at:
  assumes "address_text_ok rd a s"
  shows "address_text rd (s @ str ''@bitmessage'') = Ok a"
proof -
  have "memchr (s @ 0x40 # str ''bitmessage'') 0x40 = Some (length s)"
    using assms by (intro memchr_append_first) (auto simp: address_text_ok_def)
  moreover have "takeWhile (\<lambda>c. c \<noteq> 0) s = s" using assms by (auto simp: address_text_ok_def takeWhile_eq_all_conv)
  then have "rd (takeWhile (\<lambda>c. c \<noteq> 0) s) = Ok a" using assms by (simp only: address_text_ok_def)
  ultimately show ?thesis by (simp add: address_text_def)
qed

lemma bracketed:
  assumes "address_text_ok rd a s"
  shows "address_list rd cb (Some acc) (str '' <'' @ s @ str ''@bitmessage>'' @ rest) u =
    bind_outcome (cb a u) (address_list rd cb None rest)"
proof -
  have "text_brackets ((s @ str ''@bitmessage'') @ 0x3e # rest) = Some (s @ str ''@bitmessage'', rest)"
    using assms by (intro text_brackets_simple) (auto simp: address_text_ok_def)
  then show ?thesis using address_text_at [OF assms] by (simp add: finish_address_def)
qed

text \<open>Characters that do not start anything but text.\<close>

definition quiet :: "u8 list \<Rightarrow> bool" where
  "quiet s \<longleftrightarrow> 0x2c \<notin> set s \<and> 0x22 \<notin> set s \<and> 0x3c \<notin> set s"

lemma quiet_append [simp]: "quiet (a @ b) \<longleftrightarrow> quiet a \<and> quiet b"
  by (auto simp: quiet_def)

text \<open>A text in front of a bracket: whatever is collected from it is dropped there.\<close>

definition passed :: "address_reader \<Rightarrow> 'u address_cb \<Rightarrow> u8 list \<Rightarrow> bool" where
  "passed rd cb s \<longleftrightarrow> (\<forall>a. \<exists>a'. \<forall>rest u. address_list rd cb (Some a) (s @ rest) u = address_list rd cb (Some a') rest u)"

lemma passed_quiet: "quiet s \<Longrightarrow> passed rd cb s"
  unfolding passed_def
proof (induction s)
  case (Cons c s)
  show ?case
  proof
    fix a
    obtain a' where "\<forall>rest u. address_list rd cb (Some (if c = 0x20 then a else a @ [c])) (s @ rest) u = address_list rd cb (Some a') rest u"
      using Cons.IH Cons.prems unfolding quiet_def by (metis (no_types, lifting) list.set_intros(2))
    then show "\<exists>a'. \<forall>rest u. address_list rd cb (Some a) ((c # s) @ rest) u = address_list rd cb (Some a') rest u"
      using Cons.prems by (intro exI [of _ a']) (auto simp: quiet_def)
  qed
qed auto

lemma passed_quoted: "0x22 \<notin> set s \<Longrightarrow> 0x5c \<notin> set s \<Longrightarrow> passed rd cb ([0x22] @ s @ [0x22])"
  unfolding passed_def using text_quotes_simple [of s] by auto

lemma quiet_base64: "quiet (ntb_base64_encode bs)"
proof -
  have "uint (b64_char v) = to_alphabet_value (uint v)" for v
  proof -
    have "0 \<le> to_alphabet_value (uint v)" "to_alphabet_value (uint v) < 128"
      using uint_nonnegative [of v] by (simp_all add: to_alphabet_value_def)
    then show ?thesis by (simp add: b64_char_def unsigned_of_int take_bit_int_eq_self)
  qed
  moreover have "to_alphabet_value (uint v) \<notin> {0x2c, 0x22, 0x3c}" for v :: u32
  proof -
    have "0 \<le> uint v" by simp
    then show ?thesis unfolding to_alphabet_value_def by (simp del: uint_ge_0 unsigned_greater_eq)
  qed
  ultimately have "uint (b64_char v) \<notin> {0x2c, 0x22, 0x3c}" for v by metis
  moreover have "uint (0x2c :: u8) = 0x2c" "uint (0x22 :: u8) = 0x22" "uint (0x3c :: u8) = 0x3c" by simp_all
  ultimately have "b64_char v \<notin> {0x2c, 0x22, 0x3c}" for v by (metis insert_iff singletonD)
  then show ?thesis
    by (induction bs rule: ntb_base64_encode.induct) (auto simp: quiet_def Let_def)
qed

lemma quiet_encoded_words: "write_encoded_words s = Ok t \<Longrightarrow> quiet t"
proof (induction s arbitrary: t rule: write_encoded_words.induct)
  case (1 s)
  have quiet_line: "quiet (0x0a # 0x20 # x) \<longleftrightarrow> quiet x" for x by (simp add: quiet_def)
  have q: "quiet (str ''=?UTF-8?B?'')" "quiet (str ''?='')" "quiet [0x0a, 0x20]" by (simp_all add: quiet_def)
  from 1(2) show ?case
    by (subst (asm) write_encoded_words.simps)
      (auto simp: Let_def q quiet_base64 quiet_line simp del: str_simps split: if_splits dest!: 1(1) [rotated -1])
qed

lemma classify_quotes: "classify_loop LABEL_QUOTES l \<noteq> LABEL_RAW"
  by (induction l) auto

lemma quiet_atoms: "classify_loop cl l = LABEL_RAW \<Longrightarrow> quiet l"
proof (induction l arbitrary: cl)
  case (Cons c l)
  have "\<not> is_atom_char 0x2c" "\<not> is_atom_char 0x22" "\<not> is_atom_char 0x3c" by (simp_all add: is_atom_char_def)
  with Cons classify_quotes show ?case by (auto simp: quiet_def split: if_splits)
qed (simp add: quiet_def)

lemma quotes_label: "classify_loop cl l \<noteq> LABEL_ENCODE \<Longrightarrow> 0x22 \<notin> set l \<and> 0x5c \<notin> set l"
  by (induction l arbitrary: cl) (auto split: if_splits)

text \<open>What follows a written address: the end of the list, or a comma and more addresses.\<close>

definition go_on :: "address_reader \<Rightarrow> 'u address_cb \<Rightarrow> u8 list \<Rightarrow> 'u \<Rightarrow> 'u outcome" where
  "go_on rd cb rest u = (case rest of [] \<Rightarrow> Ok u | c # cs \<Rightarrow> address_list rd cb (Some []) cs u)"

lemma written_address:
  assumes w: "write_address label s = Ok t" and a: "address_text_ok rd a s" and rest: "rest = [] \<or> hd rest = 0x2c"
  shows "address_list rd cb (Some []) (t @ rest) u = bind_outcome (cb a u) (go_on rd cb rest)"
proof -
  have none: "address_list rd cb None rest v = go_on rd cb rest v" for v
    using rest by (cases rest) (simp_all add: go_on_def finish_address_def)
  have br: ?thesis if t: "t = q @ str '' <'' @ s @ str ''@bitmessage>''" and q: "passed rd cb q" for q
  proof -
    obtain x where "\<forall>r u. address_list rd cb (Some []) (q @ r) u = address_list rd cb (Some x) r u"
      using q unfolding passed_def by blast
    then show ?thesis using t bracketed [OF a, of cb x rest u] none by (cases "cb a u") (simp_all del: str_simps)
  qed
  consider (none) "classify_label label = LABEL_NONE" | (raw) "classify_label label = LABEL_RAW"
    | (quotes) "classify_label label = LABEL_QUOTES" | (encode) "classify_label label = LABEL_ENCODE"
    by (cases "classify_label label")
  then show ?thesis
  proof cases
    case none
    have "\<forall>c \<in> set (s @ str ''@bitmessage''). collected_char c"
      using a by (auto simp: address_text_ok_def collected_char_def)
    from address_list_plain [OF this, of rd cb "[]" rest u]
    show ?thesis using w none rest address_text_at [OF a]
      by (cases rest; cases "cb a u") (auto simp: write_address_def go_on_def finish_address_def simp del: str_simps)
  next
    case raw
    then have "quiet (the label)" using quiet_atoms by (auto simp: classify_label_def split: option.splits)
    then show ?thesis using w raw passed_quiet by (intro br) (auto simp: write_address_def simp del: str_simps)
  next
    case quotes
    then obtain l where "label = Some l" "classify_loop LABEL_NONE l = LABEL_QUOTES"
      by (auto simp: classify_label_def split: option.splits)
    then have "0x22 \<notin> set (the label)" "0x5c \<notin> set (the label)" using quotes_label [of LABEL_NONE l] by simp_all
    then have "passed rd cb ([0x22] @ the label @ [0x22])" by (rule passed_quoted)
    then show ?thesis using w quotes by (intro br) (auto simp: write_address_def simp del: str_simps)
  next
    case encode
    then obtain l where "write_encoded_words (the label) = Ok l" "t = l @ str '' <'' @ s @ str ''@bitmessage>''"
      using w by (auto simp: write_address_def simp del: str_simps)
    then show ?thesis using br passed_quiet quiet_encoded_words by blast
  qed
qed

text \<open>Addresses that are written one after the other, with commas between them.\<close>

fun comma_separated :: "u8 list list \<Rightarrow> u8 list" where
  "comma_separated [] = []"
| "comma_separated [t] = t"
| "comma_separated (t # ts) = t @ str '', '' @ comma_separated ts"

definition written :: "address_reader \<Rightarrow> u8 list \<Rightarrow> ntb_address \<Rightarrow> bool" where
  "written rd t a \<longleftrightarrow> (\<exists>label s. write_address label s = Ok t \<and> address_text_ok rd a s)"

definition report_all :: "'u address_cb \<Rightarrow> ntb_address list \<Rightarrow> 'u \<Rightarrow> 'u outcome" where
  "report_all cb as u = foldl (\<lambda>r a. bind_outcome r (cb a)) (Ok u) as"

lemma report_all_simps [simp]:
  "report_all cb [] u = Ok u"
  "report_all cb (a # as) u = bind_outcome (cb a u) (report_all cb as)"
proof -
  have "foldl (\<lambda>r a. bind_outcome r (cb a)) r as = bind_outcome r (\<lambda>u. foldl (\<lambda>r a. bind_outcome r (cb a)) (Ok u) as)" for r
  proof (induction as arbitrary: r)
    case Nil
    then show ?case by (cases r) auto
  next
    case (Cons a as)
    show ?case using Cons [of "bind_outcome r (cb a)"] Cons [of "cb a u" for u] by (cases r) auto
  qed
  from this [of "cb a u"] show "report_all cb (a # as) u = bind_outcome (cb a u) (report_all cb as)"
    by (simp add: report_all_def [abs_def])
qed (simp add: report_all_def)

lemma written_addresses:
  assumes "list_all2 (written rd) ts as" "as \<noteq> []"
  shows "address_list rd cb (Some []) (comma_separated ts) u = report_all cb as u"
  using assms
proof (induction ts as arbitrary: u rule: list_all2_induct)
  case (Cons t ts a as)
  obtain label s where w: "write_address label s = Ok t" "address_text_ok rd a s"
    using Cons.hyps(1) by (auto simp: written_def)
  show ?case
  proof (cases ts)
    case Nil
    then show ?thesis using Cons.hyps written_address [OF w, of "[]" cb u] by (cases "cb a u") (simp_all add: go_on_def)
  next
    case ts: (Cons t' ts')
    then have "as \<noteq> []" using Cons.hyps(2) by auto
    have "address_list rd cb (Some []) (comma_separated (t # ts)) u =
        bind_outcome (cb a u) (\<lambda>u. address_list rd cb (Some []) (comma_separated ts) u)"
      using written_address [OF w, of "str '', '' @ comma_separated ts" cb u] ts by (cases "cb a u") (simp_all add: go_on_def)
    then show ?thesis using Cons.IH [OF \<open>as \<noteq> []\<close>] by (cases "cb a u") auto
  qed
qed simp

lemma address_list_no_fault:
  assumes "\<And>acc u. finish_address rd cb acc u \<noteq> Fault"
  shows "address_list rd cb acc cs u \<noteq> Fault"
proof (induction cs arbitrary: acc u rule: length_induct)
  case (1 cs)
  show ?case
  proof (cases cs)
    case (Cons c r)
    then have IH: "length r' \<le> length r \<Longrightarrow> address_list rd cb acc r' u \<noteq> Fault" for acc r' u using 1 by simp
    have "text_quotes r = Some (q, x) \<Longrightarrow> length x \<le> length r" "text_brackets r = Some (q, x) \<Longrightarrow> length x \<le> length r" for q x
      using text_quotes_shorter text_brackets_shorter by (blast intro: less_imp_le)+
    then show ?thesis using Cons IH assms by (simp add: bind_outcome_Fault_iff split: option.splits)
  qed (simp add: assms)
qed

section \<open>Properties\<close>

text \<open>
  C31: Collecting each address at the start of the very buffer that is still being read is sound: for every
  list of addresses the parser reports the same addresses in the same order, and fails in the same cases,
  as the grammar applied to a copy that nothing overwrites. In particular nothing is ever written at or
  behind the position of the next read, so the buffer does not grow.
\<close>
theorem parse_addresses_in_place:
  assumes "len \<le> length block" "\<And>s. rd s \<noteq> Fault" "\<And>a u. cb a u \<noteq> Fault"
  shows "ntb_parse_addresses rd cb block len u = address_list rd cb (Some []) (take len block) u \<and>
    ntb_parse_addresses rd cb block len u \<noteq> Fault"
proof -
  have "finish_address rd cb acc u \<noteq> Fault" for acc u
    using assms(2,3) by (auto simp: finish_address_def address_text_def bind_outcome_Fault_iff split: option.splits)
  then have "address_list rd cb acc cs u \<noteq> Fault" for acc cs u by (rule address_list_no_fault)
  then show ?thesis by (simp add: parse_addresses_reference [OF assms(1)])
qed

lemma encoded_address_text:
  assumes "bn_ok bn val" "digest_ok sha512" "address_ok a" "addr_version a \<noteq> 0"
  shows "\<exists>s. ntb_address_encode bn sha512 a = Some (Ok s) \<and> address_text_ok (ntb_address_decode bn sha512) a s \<and> printable s"
proof -
  obtain s where s: "ntb_address_encode bn sha512 a = Some (Ok s)" "ntb_address_decode bn sha512 s = Ok a"
    using address_encode_decode [OF assms] by blast
  obtain cs where cs: "s = str ''BM-'' @ cs" "set cs \<subseteq> set (take 58 alphabet)"
    by (rule address_text_form [OF assms(1) s(1)])
  have "\<forall>c \<in> set (take 58 alphabet). c \<notin> {0, 0x2c, 0x22, 0x3c, 0x3e, 0x20, 0x40} \<and> 32 \<le> c \<and> c < 128"
    by (simp add: alphabet_def)
  then have "\<forall>c \<in> set cs. c \<notin> {0, 0x2c, 0x22, 0x3c, 0x3e, 0x20, 0x40} \<and> 32 \<le> c \<and> c < 128" using cs(2) by blast
  then show ?thesis using s cs(1) by (auto simp: address_text_ok_def printable_def)
qed

text \<open>
  Addresses survive being written into a mail header and read from one: for any addresses with a
  non-zero version and any labels, the texts that the writer of mails produces, separated by commas, are
  parsed to exactly these addresses in this order, whether the label is empty, bare, quoted or encoded.
\<close>
theorem addresses_header_roundtrip:
  assumes "bn_ok bn val" "digest_ok sha512" "las \<noteq> []"
    and "\<forall>(label, a) \<in> set las. address_ok a \<and> addr_version a \<noteq> 0"
  shows "\<exists>ts. list_all2 (\<lambda>(label, a) t. \<exists>s. ntb_address_encode bn sha512 a = Some (Ok s) \<and> write_address label s = Ok t) las ts \<and>
    (\<forall>block len cb. len \<le> length block \<longrightarrow> take len block = comma_separated ts \<longrightarrow>
       ntb_parse_addresses (ntb_address_decode bn sha512) cb block len u = report_all cb (map snd las) (u :: 'u))"
proof -
  let ?rd = "ntb_address_decode bn sha512"
  have "\<exists>t. (\<exists>s. ntb_address_encode bn sha512 a = Some (Ok s) \<and> write_address label s = Ok t) \<and> written ?rd t a"
    if la: "(label, a) \<in> set las" for label a
  proof -
    have "address_ok a \<and> addr_version a \<noteq> 0" using la assms(4) by blast
    then obtain s where s: "ntb_address_encode bn sha512 a = Some (Ok s)" "address_text_ok ?rd a s" "printable s"
      using encoded_address_text [OF assms(1,2), of a] by blast
    moreover obtain t where "write_address label s = Ok t" using write_address_folded [OF s(3)] by blast
    ultimately show ?thesis by (auto simp: written_def)
  qed
  then have "\<forall>la. \<exists>t. la \<in> set las \<longrightarrow> (\<exists>s. ntb_address_encode bn sha512 (snd la) = Some (Ok s) \<and>
      write_address (fst la) s = Ok t) \<and> written ?rd t (snd la)"
    by (metis prod.collapse)
  then obtain f where f: "\<And>la. la \<in> set las \<Longrightarrow> (\<exists>s. ntb_address_encode bn sha512 (snd la) = Some (Ok s) \<and>
      write_address (fst la) s = Ok (f la)) \<and> written ?rd (f la) (snd la)"
    by metis
  have "list_all2 (\<lambda>(label, a) t. \<exists>s. ntb_address_encode bn sha512 a = Some (Ok s) \<and> write_address label s = Ok t) las (map f las)"
    using f by (auto simp: list_all2_conv_all_nth split: prod.splits) (metis fst_conv nth_mem snd_conv)
  moreover have "list_all2 (written ?rd) (map f las) (map snd las)"
    using f by (auto simp: list_all2_conv_all_nth)
  then have "ntb_parse_addresses ?rd cb block len u = report_all cb (map snd las) u"
    if "len \<le> length block" "take len block = comma_separated (map f las)" for block len and cb :: "'u address_cb"
    using parse_addresses_reference [OF that(1), of ?rd cb u] that(2) assms(3)
      written_addresses [of ?rd "map f las" "map snd las" cb u] by simp
  ultimately show ?thesis by blast
qed

definition sample_reader :: address_reader where
  "sample_reader s = (if s = str ''BM-a'' then Ok (key_address own_key) else Fail)"

theorem parse_addresses_in_place_witness:
  "ntb_parse_addresses sample_reader (\<lambda>a as. Ok (as @ [a])) (str ''one <BM-a@bitmessage>, BM-a@bitmessage,'') 38 [] =
    Ok [key_address own_key, key_address own_key]"
proof -
  let ?cb = "\<lambda>a as. Ok (as @ [a]) :: ntb_address list outcome"
  have "address_list sample_reader ?cb (Some []) (str ''one <BM-a@bitmessage>, BM-a@bitmessage'') [] =
      Ok [key_address own_key, key_address own_key]"
    by (simp add: finish_address_def address_text_def sample_reader_def)
  then show ?thesis
    using parse_addresses_in_place [of 38 "str ''one <BM-a@bitmessage>, BM-a@bitmessage,''" sample_reader ?cb "[]"]
    by (simp add: sample_reader_def)
qed

theorem addresses_header_roundtrip_witness:
  "\<exists>ts. list_all2 (\<lambda>(label, a) t. \<exists>s. ntb_address_encode (crypto_bn toy_crypto) (crypto_sha512 toy_crypto) a = Some (Ok s) \<and>
      write_address label s = Ok t) [(None, key_address own_key), (Some (str ''a, b''), key_address own_key)] ts \<and>
    ntb_parse_addresses (ntb_address_decode (crypto_bn toy_crypto) (crypto_sha512 toy_crypto)) (\<lambda>a as. Ok (as @ [a]))
      (comma_separated ts) (length (comma_separated ts)) [] = Ok [key_address own_key, key_address own_key]"
proof -
  have k: "bn_ok (crypto_bn toy_crypto) (\<lambda>b. b)" "digest_ok (crypto_sha512 toy_crypto)"
    using toy_crypto_ok by (simp_all add: crypto_ok_def)
  have "\<forall>(label, a) \<in> set [(None, key_address own_key), (Some (str ''a, b''), key_address own_key)]. address_ok a \<and> addr_version a \<noteq> 0"
    by (simp add: own_key_def address_ok_def RIPEMD160_DIGEST_LENGTH_def)
  from addresses_header_roundtrip [OF k _ this, where u = "[] :: ntb_address list"] show ?thesis
    by (fastforce simp del: str_simps)
qed

end
