(* ===== verification/Ntb_Parse_Content_Type.thy ===== *)
theory Ntb_Parse_Content_Type
  imports Ntb_Prelude
begin

text \<open>
  The content type header of a mail (\<open>ntb-parse-content-type.c\<close>). The value is a C string: the list of
  its bytes up to the end of the object that holds it, so that reading behind the end is a fault. The two
  callbacks take the state of the caller and either fail or return the new state.
\<close>

unbundle bit_operations_syntax

section \<open>The classes of characters\<close>

definition HTTP_TYPE_CHAR :: u16 where "HTTP_TYPE_CHAR = 2"
definition HTTP_TYPE_LWS :: u16 where "HTTP_TYPE_LWS = 512"
definition HTTP_TYPE_TEXT :: u16 where "HTTP_TYPE_TEXT = 8192"
definition HTTP_TYPE_TOKEN :: u16 where "HTTP_TYPE_TOKEN = 16384"

definition http_char_table :: "u16 list" where
  "http_char_table =
    [0x040a, 0x040a, 0x040a, 0x040a, 0x040a, 0x040a, 0x040a, 0x040a,
     0x040a, 0x2e4a, 0x268a, 0x040a, 0x040a, 0x260e, 0x040a, 0x040a,
     0x040a, 0x040a, 0x040a, 0x040a, 0x040a, 0x040a, 0x040a, 0x040a,
     0x040a, 0x040a, 0x040a, 0x040a, 0x040a, 0x040a, 0x040a, 0x040a,
     0x3e02, 0x6402, 0x2c02, 0x6402, 0x6402, 0x6402, 0x6402, 0x6402,
     0x2c02, 0x2c02, 0x6402, 0x6402, 0x2c02, 0x6402, 0x6402, 0x2c02,
     0x6432, 0x6432, 0x6432, 0x6432, 0x6432, 0x6432, 0x6432, 0x6432,
     0x6432, 0x6432, 0x2c02, 0x2c02, 0x2c02, 0x2c02, 0x2c02, 0x2c02,
     0x2c02, 0xe523, 0xe523, 0xe523, 0xe523, 0xe523, 0xe523, 0xe503,
     0xe503, 0xe503, 0xe503, 0xe503, 0xe503, 0xe503, 0xe503, 0xe503,
     0xe503, 0xe503, 0xe503, 0xe503, 0xe503, 0xe503, 0xe503, 0xe503,
     0xe503, 0xe503, 0xe503, 0x2c02, 0x2c02, 0x2c02, 0x6402, 0x6402,
     0x6402, 0x6422, 0x6422, 0x6422, 0x6422, 0x6422, 0x6422, 0x6402,
     0x6402, 0x6402, 0x6402, 0x6402, 0x6402, 0x6402, 0x6402, 0x6402,
     0x6402, 0x6402, 0x6402, 0x6402, 0x6402, 0x6402, 0x6402, 0x6402,
     0x6402, 0x6402, 0x6402, 0x2c02, 0x6402, 0x2c02, 0x6402, 0x040a] @ replicate 128 0x2400"

definition http_is :: "u16 \<Rightarrow> u8 \<Rightarrow> bool" where
  "http_is type ch \<longleftrightarrow> (http_char_table ! unat ch) AND type \<noteq> 0"

definition HTTP_IS_TOKEN :: "u8 \<Rightarrow> bool" where "HTTP_IS_TOKEN ch \<longleftrightarrow> http_is HTTP_TYPE_TOKEN ch"
definition HTTP_IS_LWS :: "u8 \<Rightarrow> bool" where "HTTP_IS_LWS ch \<longleftrightarrow> http_is HTTP_TYPE_LWS ch"
definition HTTP_IS_TEXT :: "u8 \<Rightarrow> bool" where "HTTP_IS_TEXT ch \<longleftrightarrow> http_is HTTP_TYPE_TEXT ch"
definition HTTP_IS_CHAR :: "u8 \<Rightarrow> bool" where "HTTP_IS_CHAR ch \<longleftrightarrow> http_is HTTP_TYPE_CHAR ch"

section \<open>The parser\<close>

fun skip_lws :: "u8 list \<Rightarrow> u8 list outcome" where
  "skip_lws [] = Fault"
| "skip_lws (c # p) = (if HTTP_IS_LWS c then skip_lws p else Ok (c # p))"

text \<open>The rest of a token, and the whole of one, which needs at least one character.\<close>

fun token_end :: "u8 list \<Rightarrow> (u8 list \<times> u8 list) outcome" where
  "token_end [] = Fault"
| "token_end (c # p) =
     (if HTTP_IS_TOKEN c then bind_outcome (token_end p) (\<lambda>(t, p). Ok (c # t, p)) else Ok ([], c # p))"

definition scan_token :: "u8 list \<Rightarrow> (u8 list \<times> u8 list) outcome" where
  "scan_token p =
     (case p of [] \<Rightarrow> Fault
      | c # _ \<Rightarrow> if HTTP_IS_TOKEN c then token_end p else Fail)"

definition expect :: "u8 \<Rightarrow> u8 list \<Rightarrow> u8 list outcome" where
  "expect ch p = (case p of [] \<Rightarrow> Fault | c # p \<Rightarrow> if c = ch then Ok p else Fail)"

fun quoted_value :: "u8 list \<Rightarrow> (u8 list \<times> u8 list) outcome" where
  "quoted_value [] = Fault"
| "quoted_value (c # p) =
     (if c = 0x22 then Ok ([], p)
      else if c = 0x5c then
        (case p of
           [] \<Rightarrow> Fault
         | e # p \<Rightarrow> if e = 0 \<or> \<not> HTTP_IS_CHAR e then Fail
             else bind_outcome (quoted_value p) (\<lambda>(v, p). Ok (e # v, p)))
      else if HTTP_IS_TEXT c then bind_outcome (quoted_value p) (\<lambda>(v, p). Ok (c # v, p))
      else Fail)"

definition attribute_value :: "u8 list \<Rightarrow> (u8 list \<times> u8 list) outcome" where
  "attribute_value p =
     (case p of
        [] \<Rightarrow> Fault
      | c # p' \<Rightarrow> if c = 0x22 then quoted_value p' else scan_token p)"

lemma skip_lws_shorter: "skip_lws p = Ok q \<Longrightarrow> length q \<le> length p"
  by (induction p) (auto split: if_splits)

lemma token_end_shorter: "token_end p = Ok (t, q) \<Longrightarrow> length q \<le> length p"
  by (induction p arbitrary: t q) (fastforce split: if_splits)+

lemma quoted_value_shorter: "quoted_value p = Ok (v, q) \<Longrightarrow> length q \<le> length p"
  by (induction p arbitrary: v q rule: quoted_value.induct) (fastforce split: if_splits list.splits)+

lemma expect_shorter: "expect ch p = Ok q \<Longrightarrow> length q < length p"
  by (auto simp: expect_def split: list.splits if_splits)

lemma scan_token_shorter: "scan_token p = Ok (t, q) \<Longrightarrow> length q \<le> length p"
  by (auto simp: scan_token_def split: list.splits if_splits dest: token_end_shorter)

lemma attribute_value_shorter: "attribute_value p = Ok (v, q) \<Longrightarrow> length q \<le> length p"
  by (auto simp: attribute_value_def split: list.splits if_splits dest: quoted_value_shorter scan_token_shorter)

lemmas shorter = skip_lws_shorter expect_shorter scan_token_shorter attribute_value_shorter

type_synonym 'u type_cb = "u8 list \<Rightarrow> 'u \<Rightarrow> 'u outcome"
type_synonym 'u attribute_cb = "u8 list \<Rightarrow> u8 list \<Rightarrow> 'u \<Rightarrow> 'u outcome"

function attributes_loop :: "'u attribute_cb \<Rightarrow> u8 list \<Rightarrow> 'u \<Rightarrow> 'u outcome" where
  "attributes_loop attribute_cb p u =
     bind_outcome (skip_lws p) (\<lambda>p.
     if hd p = 0 then Ok u
     else
       bind_outcome (expect 0x3b p) (\<lambda>p.
       bind_outcome (skip_lws p) (\<lambda>p.
       bind_outcome (scan_token p) (\<lambda>(attribute, p).
       bind_outcome (expect 0x3d p) (\<lambda>p.
       bind_outcome (attribute_value p) (\<lambda>(value, p).
       bind_outcome (attribute_cb attribute value u) (\<lambda>u.
       attributes_loop attribute_cb p u)))))))"
  by pat_completeness auto
termination
  by (relation "measure (\<lambda>(cb, p, u). length p)") (auto dest!: shorter)

declare attributes_loop.simps [simp del]

definition ntb_parse_content_type :: "'u type_cb \<Rightarrow> 'u attribute_cb \<Rightarrow> u8 list \<Rightarrow> 'u \<Rightarrow> 'u outcome" where
  "ntb_parse_content_type type_cb attribute_cb header_value u =
     bind_outcome (skip_lws header_value) (\<lambda>p.
     bind_outcome (scan_token p) (\<lambda>(type, p).
     bind_outcome (expect 0x2f p) (\<lambda>p.
     bind_outcome (scan_token p) (\<lambda>(subtype, p).
     bind_outcome (type_cb (type @ [0x2f] @ subtype) u) (\<lambda>u.
     attributes_loop attribute_cb p u)))))"

section \<open>The table and the classes of RFC 2616\<close>

text \<open>Parentheses, angle brackets, at sign, comma, semicolon, colon, backslash, quotation mark, slash, square
  brackets, question mark, equals sign, braces, space and tab.\<close>

definition is_separator :: "u8 \<Rightarrow> bool" where
  "is_separator c \<longleftrightarrow> c \<in> set [0x28, 0x29, 0x3c, 0x3e, 0x40, 0x2c, 0x3b, 0x3a, 0x2f, 0x5b, 0x5d, 0x3f, 0x3d, 0x7b, 0x7d, 0x20, 0x5c, 0x22, 0x09]"

text \<open>What an entry of the table should say of its character.\<close>

definition entry_ok :: "u8 \<Rightarrow> u16 \<Rightarrow> bool" where
  "entry_ok c e \<longleftrightarrow>
     (e AND HTTP_TYPE_TOKEN \<noteq> 0 \<longleftrightarrow> 32 \<le> c \<and> c < 127 \<and> \<not> is_separator c) \<and>
     (e AND HTTP_TYPE_LWS \<noteq> 0 \<longleftrightarrow> c = 0x20 \<or> c = 0x09 \<or> c = 0x0d \<or> c = 0x0a) \<and>
     (e AND HTTP_TYPE_TEXT \<noteq> 0 \<longleftrightarrow> 32 \<le> c \<and> c \<noteq> 127 \<or> c = 0x09 \<or> c = 0x0d \<or> c = 0x0a) \<and>
     (e AND HTTP_TYPE_CHAR \<noteq> 0 \<longleftrightarrow> c < 128)"

fun entries_ok :: "u8 \<Rightarrow> u16 list \<Rightarrow> bool" where
  "entries_ok c [] \<longleftrightarrow> True"
| "entries_ok c (e # es) \<longleftrightarrow> entry_ok c e \<and> entries_ok (c + 1) es"

lemma entries_okD: "entries_ok c es \<Longrightarrow> i < length es \<Longrightarrow> entry_ok (c + word_of_nat i) (es ! i)"
proof (induction es arbitrary: c i)
  case (Cons e es)
  then show ?case by (cases i) (auto simp: algebra_simps dest!: Cons.IH)
qed simp

lemma table_entries: "entries_ok 0 http_char_table"
  by code_simp

lemma entry: "entry_ok c (http_char_table ! unat c)"
  using entries_okD [OF table_entries, of "unat c"] unat_u8_less [of c] by (simp add: http_char_table_def)

lemma is_token_iff: "HTTP_IS_TOKEN c \<longleftrightarrow> 32 \<le> c \<and> c < 127 \<and> \<not> is_separator c"
  and is_lws_iff: "HTTP_IS_LWS c \<longleftrightarrow> c = 0x20 \<or> c = 0x09 \<or> c = 0x0d \<or> c = 0x0a"
  and is_text_iff: "HTTP_IS_TEXT c \<longleftrightarrow> 32 \<le> c \<and> c \<noteq> 127 \<or> c = 0x09 \<or> c = 0x0d \<or> c = 0x0a"
  and is_char_iff: "HTTP_IS_CHAR c \<longleftrightarrow> c < 128"
  using entry [of c]
  by (simp_all add: entry_ok_def HTTP_IS_TOKEN_def HTTP_IS_LWS_def HTTP_IS_TEXT_def HTTP_IS_CHAR_def http_is_def)

section \<open>Nothing is read behind the terminator\<close>

text \<open>The terminator belongs to none of the classes, so every scan stops there at the latest.\<close>

lemma zero_classes [simp]: "\<not> HTTP_IS_TOKEN 0" "\<not> HTTP_IS_LWS 0" "\<not> HTTP_IS_TEXT 0"
  by (simp_all add: is_token_iff is_lws_iff is_text_iff)

definition terminated :: "u8 list \<Rightarrow> bool" where
  "terminated p \<longleftrightarrow> 0 \<in> set p"

lemma terminated_Cons [simp]: "terminated (c # p) \<longleftrightarrow> c = 0 \<or> terminated p"
  by (auto simp: terminated_def)

lemma not_terminated_Nil [simp]: "\<not> terminated []"
  by (simp add: terminated_def)

text \<open>A scan of a terminated string does not leave it, and what is left is terminated.\<close>

definition stays :: "'a outcome \<Rightarrow> ('a \<Rightarrow> u8 list) \<Rightarrow> bool" where
  "stays m rest \<longleftrightarrow> m \<noteq> Fault \<and> (\<forall>r. m = Ok r \<longrightarrow> terminated (rest r))"

lemma stays_simps [simp]: "stays Fail rest" "stays (Ok r) rest \<longleftrightarrow> terminated (rest r)"
  by (simp_all add: stays_def)

lemma stays_bind:
  "stays m rest \<Longrightarrow> (\<And>x. m = Ok x \<Longrightarrow> terminated (rest x) \<Longrightarrow> stays (f x) rest') \<Longrightarrow> stays (bind_outcome m f) rest'"
  by (cases m) (auto simp: stays_def)

lemma stays_skip_lws: "terminated p \<Longrightarrow> stays (skip_lws p) id"
  by (induction p) auto

lemma stays_token_end: "terminated p \<Longrightarrow> stays (token_end p) snd"
  by (induction p) (auto intro!: stays_bind)

lemma stays_scan_token: "terminated p \<Longrightarrow> stays (scan_token p) snd"
  unfolding scan_token_def using stays_token_end [of p] by (cases p) (simp_all del: token_end.simps)

lemma stays_expect: "ch \<noteq> 0 \<Longrightarrow> terminated p \<Longrightarrow> stays (expect ch p) id"
  by (cases p) (auto simp: expect_def)

lemma stays_quoted_value: "terminated p \<Longrightarrow> stays (quoted_value p) snd"
proof (induction p rule: length_induct)
  case (1 p)
  then obtain c q where p: "p = c # q" by (cases p) auto
  have IH: "stays (bind_outcome (quoted_value x) (\<lambda>(v, p). Ok (e # v, p))) snd" if "length x < length p" "terminated x" for e x
    using 1(1) that by (intro stays_bind [of _ snd]) auto
  show ?case
  proof (cases "c = 0x5c")
    case True
    then obtain e x where "q = e # x" using 1(2) p by (cases q) auto
    then show ?thesis using True p 1(2) IH [of x e] by auto
  next
    case False
    then show ?thesis using p 1(2) IH [of q c] by auto
  qed
qed

lemma stays_attribute_value: "terminated p \<Longrightarrow> stays (attribute_value p) snd"
  unfolding attribute_value_def using stays_quoted_value stays_scan_token [of p] by (cases p) auto

lemmas stays_scans = stays_bind [OF stays_skip_lws] stays_bind [OF stays_expect] stays_bind [OF stays_scan_token]
  stays_bind [OF stays_attribute_value]

lemma attributes_loop_safe:
  assumes "\<And>a v u. attribute_cb a v u \<noteq> Fault" "terminated p"
  shows "stays (attributes_loop attribute_cb p u) (\<lambda>_. [0])"
  using assms(2)
proof (induction p arbitrary: u rule: length_induct)
  case (1 p)
  have IH: "length q < length p \<Longrightarrow> terminated q \<Longrightarrow> stays (attributes_loop attribute_cb q u) (\<lambda>_. [0])" for q u
    using 1(1) by blast
  have cb: "stays (attribute_cb a v u) (\<lambda>_. [0])" for a v u using assms(1) by (simp add: stays_def)
  show ?case
    by (subst attributes_loop.simps) (use 1(2) in \<open>auto intro!: stays_scans stays_bind [OF cb] IH dest!: shorter\<close>)
qed

lemma parse_content_type_safe:
  assumes "\<And>a v u. attribute_cb a v u \<noteq> Fault" "\<And>t u. type_cb t u \<noteq> Fault" "terminated header_value"
  shows "ntb_parse_content_type type_cb attribute_cb header_value u \<noteq> Fault"
proof -
  have cb: "stays (type_cb t u) (\<lambda>_. [0])" for t u using assms(2) by (simp add: stays_def)
  have "stays (ntb_parse_content_type type_cb attribute_cb header_value u) (\<lambda>_. [0])"
    unfolding ntb_parse_content_type_def
    using assms(3) by (auto intro!: stays_scans stays_bind [OF cb] attributes_loop_safe [OF assms(1)])
  then show ?thesis by (simp add: stays_def)
qed

section \<open>Reading a printed header\<close>

definition is_token :: "u8 list \<Rightarrow> bool" where
  "is_token t \<longleftrightarrow> t \<noteq> [] \<and> (\<forall>c \<in> set t. HTTP_IS_TOKEN c)"

lemma token_end_append:
  "\<forall>c \<in> set t. HTTP_IS_TOKEN c \<Longrightarrow> \<not> HTTP_IS_TOKEN d \<Longrightarrow> token_end (t @ d # rest) = Ok (t, d # rest)"
  by (induction t) auto

lemma scan_token_append: "is_token t \<Longrightarrow> \<not> HTTP_IS_TOKEN d \<Longrightarrow> scan_token (t @ d # rest) = Ok (t, d # rest)"
  using token_end_append [of t d rest] by (cases t) (auto simp: scan_token_def is_token_def)

fun quote :: "u8 list \<Rightarrow> u8 list" where
  "quote [] = [0x22]"
| "quote (c # v) = (if c = 0x22 \<or> c = 0x5c then 0x5c # c # quote v else c # quote v)"

lemma quoted_value_quote: "\<forall>c \<in> set v. HTTP_IS_TEXT c \<Longrightarrow> quoted_value (quote v @ rest) = Ok (v, rest)"
  by (induction v) (auto simp: is_char_iff)

text \<open>An attribute with its value, bare or in quotes.\<close>

definition print_attribute :: "u8 list \<times> u8 list \<times> bool \<Rightarrow> u8 list" where
  "print_attribute a = (case a of (name, v, quotes) \<Rightarrow> str ''; '' @ name @ [0x3d] @ (if quotes then 0x22 # quote v else v))"

definition attribute_ok :: "u8 list \<times> u8 list \<times> bool \<Rightarrow> bool" where
  "attribute_ok a \<longleftrightarrow> (case a of (name, v, quotes) \<Rightarrow>
     is_token name \<and> (if quotes then \<forall>c \<in> set v. HTTP_IS_TEXT c else is_token v))"

fun report_attributes :: "'u attribute_cb \<Rightarrow> (u8 list \<times> u8 list \<times> bool) list \<Rightarrow> 'u \<Rightarrow> 'u outcome" where
  "report_attributes cb [] u = Ok u"
| "report_attributes cb ((name, v, quotes) # as) u = bind_outcome (cb name v u) (report_attributes cb as)"

lemma delimiters [simp]:
  "\<not> HTTP_IS_TOKEN 0x3b" "\<not> HTTP_IS_TOKEN 0x3d" "\<not> HTTP_IS_TOKEN 0x2f" "\<not> HTTP_IS_TOKEN 0x22"
  "\<not> HTTP_IS_LWS 0x3b" "HTTP_IS_LWS 0x20"
  by (simp_all add: is_token_iff is_lws_iff is_separator_def)

lemma token_first: "is_token t \<Longrightarrow> \<exists>c x. t = c # x \<and> HTTP_IS_TOKEN c \<and> \<not> HTTP_IS_LWS c \<and> c \<noteq> 0x22"
proof -
  have "\<not> HTTP_IS_TOKEN 0x20" "\<not> HTTP_IS_TOKEN 0x09" "\<not> HTTP_IS_TOKEN 0x0d" "\<not> HTTP_IS_TOKEN 0x0a"
    by (simp_all add: is_token_iff is_separator_def)
  then show "is_token t \<Longrightarrow> ?thesis" using delimiters(4) by (cases t) (auto simp: is_token_def is_lws_iff)
qed

lemma attribute_value_print:
  assumes "attribute_ok (name, v, quotes)" "rest = 0 # r \<or> rest = 0x3b # r"
  shows "attribute_value ((if quotes then 0x22 # quote v else v) @ rest) = Ok (v, rest)"
proof (cases quotes)
  case True
  then show ?thesis using assms quoted_value_quote [of v rest] by (auto simp: attribute_ok_def attribute_value_def)
next
  case False
  then have "is_token v" using assms by (simp add: attribute_ok_def)
  then show ?thesis using False token_first [of v] assms(2) scan_token_append [of v _ r] by (auto simp: attribute_value_def)
qed

lemma attributes_loop_print:
  "\<forall>a \<in> set as. attribute_ok a \<Longrightarrow>
   attributes_loop cb (concat (map print_attribute as) @ 0 # junk) u = report_attributes cb as u"
proof (induction as arbitrary: u)
  case Nil
  then show ?case by (simp add: attributes_loop.simps)
next
  case (Cons a as)
  obtain name v quotes where a: "a = (name, v, quotes)" by (cases a)
  let ?rest = "concat (map print_attribute as) @ 0 # junk"
  have rest: "\<exists>r. ?rest = 0 # r \<or> ?rest = 0x3b # r" by (cases as) (auto simp: print_attribute_def)
  then have v: "attribute_value ((if quotes then 0x22 # quote v else v) @ ?rest) = Ok (v, ?rest)"
    using attribute_value_print [of name v quotes ?rest] Cons.prems a by auto
  have name: "is_token name" using Cons.prems a by (simp add: attribute_ok_def)
  obtain c x where c: "name = c # x" "\<not> HTTP_IS_LWS c" using token_first [OF name] by auto
  have "scan_token (name @ 0x3d # (if quotes then 0x22 # quote v else v) @ ?rest) =
      Ok (name, 0x3d # (if quotes then 0x22 # quote v else v) @ ?rest)"
    by (rule scan_token_append [OF name]) simp
  then have "attributes_loop cb (print_attribute a @ ?rest) u = bind_outcome (cb name v u) (attributes_loop cb ?rest)"
    using c v by (subst attributes_loop.simps) (simp add: print_attribute_def a expect_def del: attributes_loop.simps)
  then show ?case using Cons a by (cases "cb name v u") simp_all
qed

lemma parse_content_type_print:
  assumes "is_token t" "is_token s" "\<forall>a \<in> set as. attribute_ok a"
  shows "ntb_parse_content_type type_cb attribute_cb (t @ [0x2f] @ s @ concat (map print_attribute as) @ 0 # junk) u =
    bind_outcome (type_cb (t @ [0x2f] @ s) u) (report_attributes attribute_cb as)"
proof -
  let ?rest = "concat (map print_attribute as) @ 0 # junk"
  obtain c x where c: "t = c # x" "\<not> HTTP_IS_LWS c" using token_first [OF assms(1)] by auto
  have "\<exists>d r. ?rest = d # r \<and> \<not> HTTP_IS_TOKEN d" by (cases as) (auto simp: print_attribute_def)
  then have "scan_token (s @ ?rest) = Ok (s, ?rest)" using scan_token_append [OF assms(2)] by auto
  moreover have "scan_token (t @ 0x2f # s @ ?rest) = Ok (t, 0x2f # s @ ?rest)"
    by (rule scan_token_append [OF assms(1)]) simp
  ultimately show ?thesis
    using c attributes_loop_print [OF assms(3), of attribute_cb junk]
    by (cases "type_cb (t @ [0x2f] @ s) u") (simp_all add: ntb_parse_content_type_def expect_def)
qed

section \<open>Properties\<close>

text \<open>
  a content type that is printed as a type, a subtype and attributes, each of them bare or quoted with
  escapes, is parsed back: the callbacks get the type and then every attribute with its value, in order,
  and the first callback that fails ends the parser. What follows the terminator is not looked at.
\<close>

theorem content_type_roundtrip:
  assumes "is_token t" "is_token s" "\<forall>a \<in> set as. attribute_ok a"
  shows "ntb_parse_content_type type_cb attribute_cb (t @ [0x2f] @ s @ concat (map print_attribute as) @ 0 # junk) u =
    bind_outcome (type_cb (t @ [0x2f] @ s) u) (report_attributes attribute_cb as)"
  using assms by (rule parse_content_type_print)

theorem content_type_roundtrip_witness:
  "ntb_parse_content_type (\<lambda>t u. Ok (u @ [t])) (\<lambda>a v u. Ok (u @ [a, v]))
     (str ''text'' @ [0x2f] @ str ''plain'' @
      concat (map print_attribute [(str ''charset'', str ''utf-8'', True), (str ''format'', str ''flowed'', False)]) @ 0 # []) [] =
   Ok [str ''text'' @ [0x2f] @ str ''plain'', str ''charset'', str ''utf-8'', str ''format'', str ''flowed'']"
proof -
  have t: "is_token (str ''text'')" "is_token (str ''plain'')" "is_token (str ''charset'')" "is_token (str ''format'')"
    "is_token (str ''flowed'')"
    by (simp_all add: is_token_def is_token_iff is_separator_def str_def)
  have "\<forall>c \<in> set (str ''utf-8''). HTTP_IS_TEXT c" by (simp add: is_text_iff str_def)
  then show ?thesis
    using t by (subst content_type_roundtrip [OF t(1,2)]) (simp_all add: attribute_ok_def del: str_simps)
qed

end
