(* ===== verification/Ntb_Mail_Parser.thy ===== *)
theory Ntb_Mail_Parser
  imports Ntb_Parse_Addresses Ntb_Parse_Content_Type Ntb_Encoded_Words
begin

text \<open>
  The parser for mails that local programs hand to the daemon (\<open>ntb-mail-parser.c\<close>). It is fed with pieces
  of the mail and calls back with addresses, the subject and pieces of the content. The two callbacks are
  one function here, which takes an event and the state of the caller and either fails or returns the new
  state.

  The buffer of the parser is the list of its bytes. The addresses are parsed in place there; what is left
  in the buffer afterwards is never looked at, since a header that is accepted empties it and one that is
  refused ends the parser.
\<close>

section \<open>State\<close>

datatype ntb_mail_parser_state =
    NTB_MAIL_PARSER_HEADER_NAME
  | NTB_MAIL_PARSER_HEADER_VALUE_START
  | NTB_MAIL_PARSER_HEADER_VALUE
  | NTB_MAIL_PARSER_CHECK_EOL
  | NTB_MAIL_PARSER_CHECK_CONTINUATION
  | NTB_MAIL_PARSER_CONTENT

datatype ntb_mail_parser_header =
    NTB_MAIL_PARSER_SKIP
  | NTB_MAIL_PARSER_TO
  | NTB_MAIL_PARSER_CC
  | NTB_MAIL_PARSER_BCC
  | NTB_MAIL_PARSER_FROM
  | NTB_MAIL_PARSER_SUBJECT
  | NTB_MAIL_PARSER_CONTENT_TYPE
  | NTB_MAIL_PARSER_TRANSFER_ENCODING

definition ntb_mail_parser_headers :: "(string \<times> ntb_mail_parser_header) list" where
  "ntb_mail_parser_headers =
     [(''skip'', NTB_MAIL_PARSER_SKIP),
      (''to'', NTB_MAIL_PARSER_TO),
      (''cc'', NTB_MAIL_PARSER_CC),
      (''bcc'', NTB_MAIL_PARSER_BCC),
      (''from'', NTB_MAIL_PARSER_FROM),
      (''subject'', NTB_MAIL_PARSER_SUBJECT),
      (''content-type'', NTB_MAIL_PARSER_CONTENT_TYPE),
      (''content-transfer-encoding'', NTB_MAIL_PARSER_TRANSFER_ENCODING)]"

datatype ntb_mail_parser_encoding =
    NTB_MAIL_PARSER_ENCODING_RAW
  | NTB_MAIL_PARSER_ENCODING_BASE64
  | NTB_MAIL_PARSER_ENCODING_QUOTED_PRINTABLE

datatype ntb_mail_parser_event =
    NTB_MAIL_PARSER_EVENT_SUBJECT "u8 list"
  | NTB_MAIL_PARSER_EVENT_SOURCE ntb_address
  | NTB_MAIL_PARSER_EVENT_DESTINATION ntb_address
  | NTB_MAIL_PARSER_EVENT_CONTENT "u8 list"

type_synonym 'u mail_cb = "ntb_mail_parser_event \<Rightarrow> 'u \<Rightarrow> 'u outcome"

record 'u ntb_mail_parser =
  mp_state :: ntb_mail_parser_state
  current_header :: ntb_mail_parser_header
  mp_buffer :: "u8 list"
  had_from :: bool
  had_to :: bool
  had_cc :: bool
  had_bcc :: bool
  had_subject :: bool
  had_content_type :: bool
  had_transfer_encoding :: bool
  mp_encoding :: ntb_mail_parser_encoding
  base64_data :: ntb_base64_data
  qp_data :: ntb_quoted_printable_data
  mp_user :: 'u

text \<open>The fields that are not set at first get whatever the memory held.\<close>

definition ntb_mail_parser_new ::
    "ntb_mail_parser_header \<Rightarrow> ntb_base64_data \<Rightarrow> ntb_quoted_printable_data \<Rightarrow> 'u \<Rightarrow> 'u ntb_mail_parser" where
  "ntb_mail_parser_new junk_header junk_base64 junk_qp u =
     \<lparr>mp_state = NTB_MAIL_PARSER_HEADER_NAME, current_header = junk_header, mp_buffer = [],
      had_from = False, had_to = False, had_cc = False, had_bcc = False, had_subject = False,
      had_content_type = False, had_transfer_encoding = False, mp_encoding = NTB_MAIL_PARSER_ENCODING_RAW,
      base64_data = junk_base64, qp_data = junk_qp, mp_user = u\<rparr>"

section \<open>Headers\<close>

definition ascii_islwsp :: "u8 \<Rightarrow> bool" where
  "ascii_islwsp ch \<longleftrightarrow> ch = 0x20 \<or> ch = 0x09"

text \<open>The result is converted to a truth value: whether the two strings differ.\<close>

fun ascii_casecmp :: "u8 list \<Rightarrow> u8 list \<Rightarrow> bool" where
  "ascii_casecmp (a # as) (b # bs) = (if ntb_ascii_tolower a \<noteq> ntb_ascii_tolower b then True else ascii_casecmp as bs)"
| "ascii_casecmp as bs = (as \<noteq> [] \<or> bs \<noteq> [])"

text \<open>
  The name is an array with a terminator. The comparison goes on for as long as the buffer has bytes, so
  that a prefix of the name is accepted too, and a zero byte in the buffer leads behind the terminator.
\<close>

fun is_header :: "u8 list \<Rightarrow> u8 list \<Rightarrow> bool outcome" where
  "is_header [] name = Ok True"
| "is_header (c # cs) [] = Fault"
| "is_header (c # cs) (n # name) = (if ntb_ascii_tolower c \<noteq> n then Ok False else is_header cs name)"

definition c_literal :: "string \<Rightarrow> u8 list" where
  "c_literal s = str s @ [0]"

fun find_header :: "u8 list \<Rightarrow> (string \<times> ntb_mail_parser_header) list \<Rightarrow> ntb_mail_parser_header outcome" where
  "find_header buf [] = Ok NTB_MAIL_PARSER_SKIP"
| "find_header buf ((name, v) # hs) =
     bind_outcome (is_header buf (c_literal name)) (\<lambda>found. if found then Ok v else find_header buf hs)"

definition set_header :: "'u ntb_mail_parser \<Rightarrow> 'u ntb_mail_parser outcome" where
  "set_header mp =
     bind_outcome (find_header (mp_buffer mp) ntb_mail_parser_headers) (\<lambda>h. Ok (mp\<lparr>current_header := h\<rparr>))"

definition report :: "'u mail_cb \<Rightarrow> ntb_mail_parser_event \<Rightarrow> 'u ntb_mail_parser \<Rightarrow> 'u ntb_mail_parser outcome" where
  "report cb event mp = bind_outcome (cb event (mp_user mp)) (\<lambda>u. Ok (mp\<lparr>mp_user := u\<rparr>))"

definition handle_subject :: "'u mail_cb \<Rightarrow> 'u ntb_mail_parser \<Rightarrow> 'u ntb_mail_parser outcome" where
  "handle_subject cb mp =
     (if had_subject mp then Fail
      else
        let mp = mp\<lparr>had_subject := True\<rparr> in
        bind_outcome (ntb_encoded_words_decode (mp_buffer mp)) (\<lambda>buf.
        report cb (NTB_MAIL_PARSER_EVENT_SUBJECT buf) (mp\<lparr>mp_buffer := buf\<rparr>)))"

definition destination_address_cb :: "'u mail_cb \<Rightarrow> 'u ntb_mail_parser address_cb" where
  "destination_address_cb cb address mp = report cb (NTB_MAIL_PARSER_EVENT_DESTINATION address) mp"

definition parse_destinations :: "address_reader \<Rightarrow> 'u mail_cb \<Rightarrow> 'u ntb_mail_parser \<Rightarrow> 'u ntb_mail_parser outcome" where
  "parse_destinations rd cb mp =
     ntb_parse_addresses rd (destination_address_cb cb) (mp_buffer mp) (length (mp_buffer mp)) mp"

definition handle_to :: "address_reader \<Rightarrow> 'u mail_cb \<Rightarrow> 'u ntb_mail_parser \<Rightarrow> 'u ntb_mail_parser outcome" where
  "handle_to rd cb mp = (if had_to mp then Fail else parse_destinations rd cb (mp\<lparr>had_to := True\<rparr>))"

definition handle_cc :: "address_reader \<Rightarrow> 'u mail_cb \<Rightarrow> 'u ntb_mail_parser \<Rightarrow> 'u ntb_mail_parser outcome" where
  "handle_cc rd cb mp = (if had_cc mp then Fail else parse_destinations rd cb (mp\<lparr>had_cc := True\<rparr>))"

definition handle_bcc :: "address_reader \<Rightarrow> 'u mail_cb \<Rightarrow> 'u ntb_mail_parser \<Rightarrow> 'u ntb_mail_parser outcome" where
  "handle_bcc rd cb mp = (if had_bcc mp then Fail else parse_destinations rd cb (mp\<lparr>had_bcc := True\<rparr>))"

definition from_address_cb :: "'u mail_cb \<Rightarrow> 'u ntb_mail_parser address_cb" where
  "from_address_cb cb address mp =
     (if had_from mp then Fail
      else report cb (NTB_MAIL_PARSER_EVENT_SOURCE address) (mp\<lparr>had_from := True\<rparr>))"

definition handle_from :: "address_reader \<Rightarrow> 'u mail_cb \<Rightarrow> 'u ntb_mail_parser \<Rightarrow> 'u ntb_mail_parser outcome" where
  "handle_from rd cb mp =
     ntb_parse_addresses rd (from_address_cb cb) (mp_buffer mp) (length (mp_buffer mp)) mp"

definition content_type_type_cb :: "unit type_cb" where
  "content_type_type_cb type u = (if ascii_casecmp type (str ''text/plain'') then Fail else Ok u)"

definition content_type_attribute_cb :: "unit attribute_cb" where
  "content_type_attribute_cb attribute v u =
     (if \<not> ascii_casecmp attribute (str ''charset'') \<and> ascii_casecmp v (str ''utf-8'') \<and> ascii_casecmp v (str ''us-ascii'')
      then Fail else Ok u)"

definition handle_content_type :: "'u ntb_mail_parser \<Rightarrow> 'u ntb_mail_parser outcome" where
  "handle_content_type mp =
     (if had_content_type mp then Fail
      else
        let mp = mp\<lparr>had_content_type := True, mp_buffer := mp_buffer mp @ [0]\<rparr> in
        bind_outcome (ntb_parse_content_type content_type_type_cb content_type_attribute_cb (mp_buffer mp) ()) (\<lambda>_.
        Ok mp))"

definition handle_transfer_encoding :: "'u ntb_mail_parser \<Rightarrow> 'u ntb_mail_parser outcome" where
  "handle_transfer_encoding mp =
     (if had_transfer_encoding mp then Fail
      else
        let mp = mp\<lparr>had_transfer_encoding := True\<rparr>; is = (\<lambda>name. is_header (mp_buffer mp) (c_literal name)) in
        bind_outcome (is ''base64'') (\<lambda>b.
        if b then Ok (mp\<lparr>mp_encoding := NTB_MAIL_PARSER_ENCODING_BASE64\<rparr>)
        else bind_outcome (is ''quoted-printable'') (\<lambda>b.
        if b then Ok (mp\<lparr>mp_encoding := NTB_MAIL_PARSER_ENCODING_QUOTED_PRINTABLE\<rparr>)
        else bind_outcome (is ''7bit'') (\<lambda>b7.
        bind_outcome (if b7 then Ok True else is ''8bit'') (\<lambda>b.
        if b then Ok (mp\<lparr>mp_encoding := NTB_MAIL_PARSER_ENCODING_RAW\<rparr>) else Fail)))))"

definition handle_header_end :: "address_reader \<Rightarrow> 'u mail_cb \<Rightarrow> 'u ntb_mail_parser \<Rightarrow> 'u ntb_mail_parser outcome" where
  "handle_header_end rd cb mp =
     (let buf = mp_buffer mp;
          mp = mp\<lparr>mp_buffer := (if buf \<noteq> [] \<and> last buf = 0x20 then butlast buf else buf)\<rparr> in
      case current_header mp of
        NTB_MAIL_PARSER_TO \<Rightarrow> handle_to rd cb mp
      | NTB_MAIL_PARSER_CC \<Rightarrow> handle_cc rd cb mp
      | NTB_MAIL_PARSER_BCC \<Rightarrow> handle_bcc rd cb mp
      | NTB_MAIL_PARSER_FROM \<Rightarrow> handle_from rd cb mp
      | NTB_MAIL_PARSER_SUBJECT \<Rightarrow> handle_subject cb mp
      | NTB_MAIL_PARSER_CONTENT_TYPE \<Rightarrow> handle_content_type mp
      | NTB_MAIL_PARSER_TRANSFER_ENCODING \<Rightarrow> handle_transfer_encoding mp
      | NTB_MAIL_PARSER_SKIP \<Rightarrow> Ok mp)"

definition handle_headers_end :: "'u ntb_mail_parser \<Rightarrow> 'u ntb_mail_parser outcome" where
  "handle_headers_end mp =
     (if \<not> had_from mp then Fail
      else if \<not> had_to mp \<and> \<not> had_cc mp \<and> \<not> had_bcc mp then Fail
      else
        let mp = mp\<lparr>mp_state := NTB_MAIL_PARSER_CONTENT\<rparr> in
        Ok (case mp_encoding mp of
              NTB_MAIL_PARSER_ENCODING_BASE64 \<Rightarrow> mp\<lparr>base64_data := ntb_base64_decode_start\<rparr>
            | NTB_MAIL_PARSER_ENCODING_QUOTED_PRINTABLE \<Rightarrow>
                mp\<lparr>qp_data := ntb_quoted_printable_decode_start (qp_nibble (qp_data mp)) False\<rparr>
            | NTB_MAIL_PARSER_ENCODING_RAW \<Rightarrow> mp))"

section \<open>The states\<close>

text \<open>Each handler gets the bytes that are left and returns how many of them it has consumed.\<close>

definition handle_header_name :: "'u ntb_mail_parser \<Rightarrow> u8 list \<Rightarrow> ('u ntb_mail_parser \<times> nat) outcome" where
  "handle_header_name mp data =
     (let name = takeWhile (\<lambda>c. c \<noteq> 0x0a \<and> c \<noteq> 0x3a) data;
          rest = drop (length name) data;
          mp = mp\<lparr>mp_buffer := mp_buffer mp @ name\<rparr> in
      case rest of
        [] \<Rightarrow> Ok (mp, length name)
      | c # _ \<Rightarrow>
          bind_outcome
            (if c = 0x0a then if mp_buffer mp = [] then handle_headers_end mp else Fail
             else bind_outcome (set_header mp) (\<lambda>mp. Ok (mp\<lparr>mp_state := NTB_MAIL_PARSER_HEADER_VALUE_START\<rparr>)))
            (\<lambda>mp. Ok (mp, length name + 1)))"

definition handle_header_value_start :: "'u ntb_mail_parser \<Rightarrow> u8 list \<Rightarrow> ('u ntb_mail_parser \<times> nat) outcome" where
  "handle_header_value_start mp data =
     (let i = length (takeWhile ascii_islwsp data) in
      Ok (if i < length data then mp\<lparr>mp_state := NTB_MAIL_PARSER_HEADER_VALUE, mp_buffer := []\<rparr> else mp, i))"

definition add_space :: "u8 list \<Rightarrow> u8 list" where
  "add_space buf = (if buf = [] \<or> last buf \<noteq> 0x20 then buf @ [0x20] else buf)"

fun value_loop :: "'u ntb_mail_parser \<Rightarrow> nat \<Rightarrow> u8 list \<Rightarrow> ('u ntb_mail_parser \<times> nat) outcome" where
  "value_loop mp n [] = Ok (mp, n)"
| "value_loop mp n (c # p) =
     (if ascii_islwsp c then value_loop (mp\<lparr>mp_buffer := add_space (mp_buffer mp)\<rparr>) (n + 1) p
      else if c = 0 then Fail
      else if c = 0x0d then Ok (mp\<lparr>mp_state := NTB_MAIL_PARSER_CHECK_EOL\<rparr>, n + 1)
      else if c = 0x0a then Ok (mp\<lparr>mp_state := NTB_MAIL_PARSER_CHECK_CONTINUATION\<rparr>, n + 1)
      else value_loop (mp\<lparr>mp_buffer := mp_buffer mp @ [c]\<rparr>) (n + 1) p)"

definition handle_header_value :: "'u ntb_mail_parser \<Rightarrow> u8 list \<Rightarrow> ('u ntb_mail_parser \<times> nat) outcome" where
  "handle_header_value mp data = value_loop mp 0 data"

definition handle_check_eol :: "'u ntb_mail_parser \<Rightarrow> u8 list \<Rightarrow> ('u ntb_mail_parser \<times> nat) outcome" where
  "handle_check_eol mp data =
     (if hd data \<noteq> 0x0a then Fail else Ok (mp\<lparr>mp_state := NTB_MAIL_PARSER_CHECK_CONTINUATION\<rparr>, 1))"

definition handle_check_continuation ::
    "address_reader \<Rightarrow> 'u mail_cb \<Rightarrow> 'u ntb_mail_parser \<Rightarrow> u8 list \<Rightarrow> ('u ntb_mail_parser \<times> nat) outcome" where
  "handle_check_continuation rd cb mp data =
     (if ascii_islwsp (hd data) then Ok (mp\<lparr>mp_state := NTB_MAIL_PARSER_HEADER_VALUE\<rparr>, 0)
      else bind_outcome (handle_header_end rd cb mp) (\<lambda>mp.
        Ok (mp\<lparr>mp_buffer := [], mp_state := NTB_MAIL_PARSER_HEADER_NAME\<rparr>, 0)))"

definition handle_content_raw :: "'u mail_cb \<Rightarrow> 'u ntb_mail_parser \<Rightarrow> u8 list \<Rightarrow> 'u ntb_mail_parser outcome" where
  "handle_content_raw cb mp data = report cb (NTB_MAIL_PARSER_EVENT_CONTENT data) mp"

text \<open>The decoded bytes of a chunk go to an array of 512 bytes.\<close>

definition into_array :: "nat \<Rightarrow> u8 list \<Rightarrow> u8 list outcome" where
  "into_array n out = (if length out \<le> n then Ok out else Fault)"

function handle_content_base64 :: "'u mail_cb \<Rightarrow> 'u ntb_mail_parser \<Rightarrow> u8 list \<Rightarrow> 'u ntb_mail_parser outcome" where
  "handle_content_base64 cb mp data =
     (if data = [] then Ok mp
      else
        let chunk_size = min (max_input BASE64 512) (length data) in
        case ntb_base64_decode (base64_data mp) (take chunk_size data) of
          (d, None) \<Rightarrow> Fail
        | (d, Some out) \<Rightarrow>
            bind_outcome (into_array 512 out) (\<lambda>out.
            bind_outcome (report cb (NTB_MAIL_PARSER_EVENT_CONTENT out) (mp\<lparr>base64_data := d\<rparr>)) (\<lambda>mp.
            handle_content_base64 cb mp (drop chunk_size data))))"
  by pat_completeness auto
termination by (relation "measure (\<lambda>(cb, mp, data). length data)") (auto simp: min_def)

function handle_content_quoted_printable ::
    "'u mail_cb \<Rightarrow> 'u ntb_mail_parser \<Rightarrow> u8 list \<Rightarrow> 'u ntb_mail_parser outcome" where
  "handle_content_quoted_printable cb mp data =
     (if data = [] then Ok mp
      else
        let chunk_size = min 512 (length data) in
        case ntb_quoted_printable_decode (qp_data mp) (take chunk_size data) of
          (d, None) \<Rightarrow> Fail
        | (d, Some out) \<Rightarrow>
            bind_outcome (into_array 512 out) (\<lambda>out.
            bind_outcome (report cb (NTB_MAIL_PARSER_EVENT_CONTENT out) (mp\<lparr>qp_data := d\<rparr>)) (\<lambda>mp.
            handle_content_quoted_printable cb mp (drop chunk_size data))))"
  by pat_completeness auto
termination by (relation "measure (\<lambda>(cb, mp, data). length data)") (auto simp: min_def)

declare handle_content_base64.simps [simp del] handle_content_quoted_printable.simps [simp del]

definition handle_content :: "'u mail_cb \<Rightarrow> 'u ntb_mail_parser \<Rightarrow> u8 list \<Rightarrow> ('u ntb_mail_parser \<times> nat) outcome" where
  "handle_content cb mp data =
     bind_outcome
       (case mp_encoding mp of
          NTB_MAIL_PARSER_ENCODING_BASE64 \<Rightarrow> handle_content_base64 cb mp data
        | NTB_MAIL_PARSER_ENCODING_QUOTED_PRINTABLE \<Rightarrow> handle_content_quoted_printable cb mp data
        | NTB_MAIL_PARSER_ENCODING_RAW \<Rightarrow> handle_content_raw cb mp data)
       (\<lambda>mp. Ok (mp, length data))"

definition handle_mail_state ::
    "address_reader \<Rightarrow> 'u mail_cb \<Rightarrow> 'u ntb_mail_parser \<Rightarrow> u8 list \<Rightarrow> ('u ntb_mail_parser \<times> nat) outcome" where
  "handle_mail_state rd cb mp data =
     (case mp_state mp of
        NTB_MAIL_PARSER_HEADER_NAME \<Rightarrow> handle_header_name mp data
      | NTB_MAIL_PARSER_HEADER_VALUE_START \<Rightarrow> handle_header_value_start mp data
      | NTB_MAIL_PARSER_HEADER_VALUE \<Rightarrow> handle_header_value mp data
      | NTB_MAIL_PARSER_CHECK_EOL \<Rightarrow> handle_check_eol mp data
      | NTB_MAIL_PARSER_CHECK_CONTINUATION \<Rightarrow> handle_check_continuation rd cb mp data
      | NTB_MAIL_PARSER_CONTENT \<Rightarrow> handle_content cb mp data)"

text \<open>
  Two of the handlers may consume nothing. They change to a state whose handler does consume something, so
  the loop ends.
\<close>

definition state_rank :: "ntb_mail_parser_state \<Rightarrow> nat" where
  "state_rank s = (if s = NTB_MAIL_PARSER_HEADER_VALUE_START \<or> s = NTB_MAIL_PARSER_CHECK_CONTINUATION then 1 else 0)"

lemma value_loop_consumes: "value_loop mp n data = Ok (mp', m) \<Longrightarrow> n \<le> m \<and> (data \<noteq> [] \<longrightarrow> n < m)"
  by (induction mp n data rule: value_loop.induct) (auto split: if_splits)

lemma handle_mail_state_progress:
  assumes "handle_mail_state rd cb mp data = Ok (mp', n)" "data \<noteq> []"
  shows "0 < n \<or> n = 0 \<and> state_rank (mp_state mp') < state_rank (mp_state mp)"
proof (cases "mp_state mp")
  case NTB_MAIL_PARSER_HEADER_NAME
  then show ?thesis using assms
    by (cases data) (auto simp: handle_mail_state_def handle_header_name_def Let_def split: list.splits if_splits)
next
  case NTB_MAIL_PARSER_HEADER_VALUE
  then show ?thesis using assms value_loop_consumes [of mp 0 data] by (auto simp: handle_mail_state_def handle_header_value_def)
next
  case NTB_MAIL_PARSER_CONTENT
  then show ?thesis using assms by (auto simp: handle_mail_state_def handle_content_def)
qed (use assms in \<open>auto simp: handle_mail_state_def handle_header_value_start_def handle_check_eol_def handle_check_continuation_def
  state_rank_def Let_def split: if_splits\<close>)

function ntb_mail_parser_parse ::
    "address_reader \<Rightarrow> 'u mail_cb \<Rightarrow> 'u ntb_mail_parser \<Rightarrow> u8 list \<Rightarrow> 'u ntb_mail_parser outcome" where
  "ntb_mail_parser_parse rd cb mp data =
     (if data = [] then Ok mp
      else bind_outcome (handle_mail_state rd cb mp data) (\<lambda>(mp, processed).
        ntb_mail_parser_parse rd cb mp (drop processed data)))"
  by pat_completeness auto
termination
  by (relation "measures [\<lambda>(rd, cb, mp, data). length data, \<lambda>(rd, cb, mp, data). state_rank (mp_state mp)]")
    (auto dest!: handle_mail_state_progress)

declare ntb_mail_parser_parse.simps [simp del]

definition ntb_mail_parser_end :: "'u mail_cb \<Rightarrow> 'u ntb_mail_parser \<Rightarrow> 'u ntb_mail_parser outcome" where
  "ntb_mail_parser_end cb mp =
     (if mp_state mp \<noteq> NTB_MAIL_PARSER_CONTENT then Fail
      else
        case mp_encoding mp of
          NTB_MAIL_PARSER_ENCODING_BASE64 \<Rightarrow>
            bind_outcome (ntb_base64_decode_end (base64_data mp)) (\<lambda>out.
            report cb (NTB_MAIL_PARSER_EVENT_CONTENT out) mp)
        | NTB_MAIL_PARSER_ENCODING_QUOTED_PRINTABLE \<Rightarrow>
            if ntb_quoted_printable_decode_end (qp_data mp) then Ok mp else Fail
        | NTB_MAIL_PARSER_ENCODING_RAW \<Rightarrow> Ok mp)"

section \<open>A machine that takes one byte at a time\<close>

definition name_step :: "'u ntb_mail_parser \<Rightarrow> u8 \<Rightarrow> 'u ntb_mail_parser outcome" where
  "name_step mp c =
     (if c = 0x0a then if mp_buffer mp = [] then handle_headers_end mp else Fail
      else if c = 0x3a then bind_outcome (set_header mp) (\<lambda>mp. Ok (mp\<lparr>mp_state := NTB_MAIL_PARSER_HEADER_VALUE_START\<rparr>))
      else Ok (mp\<lparr>mp_buffer := mp_buffer mp @ [c]\<rparr>))"

definition value_step :: "'u ntb_mail_parser \<Rightarrow> u8 \<Rightarrow> 'u ntb_mail_parser outcome" where
  "value_step mp c =
     (if ascii_islwsp c then Ok (mp\<lparr>mp_buffer := add_space (mp_buffer mp)\<rparr>)
      else if c = 0 then Fail
      else if c = 0x0d then Ok (mp\<lparr>mp_state := NTB_MAIL_PARSER_CHECK_EOL\<rparr>)
      else if c = 0x0a then Ok (mp\<lparr>mp_state := NTB_MAIL_PARSER_CHECK_CONTINUATION\<rparr>)
      else Ok (mp\<lparr>mp_buffer := mp_buffer mp @ [c]\<rparr>))"

definition content_step :: "'u mail_cb \<Rightarrow> 'u ntb_mail_parser \<Rightarrow> u8 list \<Rightarrow> 'u ntb_mail_parser outcome" where
  "content_step cb mp cs =
     (case mp_encoding mp of
        NTB_MAIL_PARSER_ENCODING_RAW \<Rightarrow> report cb (NTB_MAIL_PARSER_EVENT_CONTENT cs) mp
      | NTB_MAIL_PARSER_ENCODING_BASE64 \<Rightarrow>
          (case ntb_base64_decode (base64_data mp) cs of
             (d, None) \<Rightarrow> Fail
           | (d, Some out) \<Rightarrow> report cb (NTB_MAIL_PARSER_EVENT_CONTENT out) (mp\<lparr>base64_data := d\<rparr>))
      | NTB_MAIL_PARSER_ENCODING_QUOTED_PRINTABLE \<Rightarrow>
          (case ntb_quoted_printable_decode (qp_data mp) cs of
             (d, None) \<Rightarrow> Fail
           | (d, Some out) \<Rightarrow> report cb (NTB_MAIL_PARSER_EVENT_CONTENT out) (mp\<lparr>qp_data := d\<rparr>)))"

definition mail_step :: "address_reader \<Rightarrow> 'u mail_cb \<Rightarrow> 'u ntb_mail_parser \<Rightarrow> u8 \<Rightarrow> 'u ntb_mail_parser outcome" where
  "mail_step rd cb mp c =
     (case mp_state mp of
        NTB_MAIL_PARSER_HEADER_NAME \<Rightarrow> name_step mp c
      | NTB_MAIL_PARSER_HEADER_VALUE_START \<Rightarrow>
          if ascii_islwsp c then Ok mp
          else value_step (mp\<lparr>mp_state := NTB_MAIL_PARSER_HEADER_VALUE, mp_buffer := []\<rparr>) c
      | NTB_MAIL_PARSER_HEADER_VALUE \<Rightarrow> value_step mp c
      | NTB_MAIL_PARSER_CHECK_EOL \<Rightarrow>
          if c = 0x0a then Ok (mp\<lparr>mp_state := NTB_MAIL_PARSER_CHECK_CONTINUATION\<rparr>) else Fail
      | NTB_MAIL_PARSER_CHECK_CONTINUATION \<Rightarrow>
          if ascii_islwsp c then value_step (mp\<lparr>mp_state := NTB_MAIL_PARSER_HEADER_VALUE\<rparr>) c
          else bind_outcome (handle_header_end rd cb mp) (\<lambda>mp.
            name_step (mp\<lparr>mp_buffer := [], mp_state := NTB_MAIL_PARSER_HEADER_NAME\<rparr>) c)
      | NTB_MAIL_PARSER_CONTENT \<Rightarrow> content_step cb mp [c])"

fun mail_run :: "address_reader \<Rightarrow> 'u mail_cb \<Rightarrow> 'u ntb_mail_parser \<Rightarrow> u8 list \<Rightarrow> 'u ntb_mail_parser outcome" where
  "mail_run rd cb mp [] = Ok mp"
| "mail_run rd cb mp (c # cs) = bind_outcome (mail_step rd cb mp c) (\<lambda>mp. mail_run rd cb mp cs)"

lemma mail_run_append: "mail_run rd cb mp (xs @ ys) = bind_outcome (mail_run rd cb mp xs) (\<lambda>mp. mail_run rd cb mp ys)"
  by (induction xs arbitrary: mp) (simp_all add: bind_outcome_assoc)

lemma parse_Nil [simp]: "ntb_mail_parser_parse rd cb mp [] = Ok mp"
  by (simp add: ntb_mail_parser_parse.simps)

lemma parse_step:
  "data \<noteq> [] \<Longrightarrow> ntb_mail_parser_parse rd cb mp data =
    bind_outcome (handle_mail_state rd cb mp data) (\<lambda>(mp, n). ntb_mail_parser_parse rd cb mp (drop n data))"
  by (simp add: ntb_mail_parser_parse.simps)

text \<open>The header states, byte by byte.\<close>

lemma value_loop_shift: "value_loop mp (n + k) data = map_outcome (\<lambda>(mp, m). (mp, m + k)) (value_loop mp n data)"
  by (induction mp n data rule: value_loop.induct) auto

lemma parse_value:
  assumes "mp_state mp = NTB_MAIL_PARSER_HEADER_VALUE"
  shows "ntb_mail_parser_parse rd cb mp data = bind_outcome (value_loop mp 0 data) (\<lambda>(mp, n). ntb_mail_parser_parse rd cb mp (drop n data))"
  using assms by (cases "data = []") (simp_all add: parse_step handle_mail_state_def handle_header_value_def)

lemma parse_value_step:
  assumes "mp_state mp = NTB_MAIL_PARSER_HEADER_VALUE"
  shows "ntb_mail_parser_parse rd cb mp (c # data) = bind_outcome (value_step mp c) (\<lambda>mp. ntb_mail_parser_parse rd cb mp data)"
proof -
  have shift: "bind_outcome (value_loop m 1 data) (\<lambda>(mp, n). ntb_mail_parser_parse rd cb mp (drop n (c # data))) =
      ntb_mail_parser_parse rd cb m data" if "mp_state m = NTB_MAIL_PARSER_HEADER_VALUE" for m
    using value_loop_shift [of m 0 1 data] parse_value [OF that, of rd cb data]
    by (cases "value_loop m 0 data") auto
  show ?thesis
    using assms by (auto simp: parse_value [OF assms, of rd cb "c # data"] value_step_def shift [unfolded One_nat_def])
qed

lemma parse_name_step:
  assumes "mp_state mp = NTB_MAIL_PARSER_HEADER_NAME"
  shows "ntb_mail_parser_parse rd cb mp (c # data) = bind_outcome (name_step mp c) (\<lambda>mp. ntb_mail_parser_parse rd cb mp data)"
proof (cases "c = 0x0a \<or> c = 0x3a")
  case True
  then show ?thesis using assms
    by (auto simp: parse_step handle_mail_state_def handle_header_name_def name_step_def bind_outcome_assoc)
next
  case False
  let ?m = "mp\<lparr>mp_buffer := mp_buffer mp @ [c]\<rparr>"
  have "ntb_mail_parser_parse rd cb mp (c # data) = ntb_mail_parser_parse rd cb ?m data"
  proof (cases "data = []")
    case True
    then show ?thesis using False assms
      by (simp add: parse_step handle_mail_state_def handle_header_name_def Let_def)
  next
    case data: False
    show ?thesis
      using False assms data
      by (auto simp: parse_step handle_mail_state_def handle_header_name_def Let_def bind_outcome_assoc split: list.splits)
  qed
  then show ?thesis using False by (simp add: name_step_def)
qed

lemma parse_header_step:
  assumes "mp_state mp \<noteq> NTB_MAIL_PARSER_CONTENT"
  shows "ntb_mail_parser_parse rd cb mp (c # data) = bind_outcome (mail_step rd cb mp c) (\<lambda>mp. ntb_mail_parser_parse rd cb mp data)"
proof (cases "mp_state mp")
  case NTB_MAIL_PARSER_HEADER_VALUE_START
  show ?thesis
  proof (cases "ascii_islwsp c")
    case True
    then show ?thesis using NTB_MAIL_PARSER_HEADER_VALUE_START
      by (cases "data = []")
        (simp_all add: parse_step handle_mail_state_def handle_header_value_start_def mail_step_def Let_def)
  next
    case False
    then have "ntb_mail_parser_parse rd cb mp (c # data) =
        ntb_mail_parser_parse rd cb (mp\<lparr>mp_state := NTB_MAIL_PARSER_HEADER_VALUE, mp_buffer := []\<rparr>) (c # data)"
      using NTB_MAIL_PARSER_HEADER_VALUE_START
      by (subst parse_step) (simp_all add: handle_mail_state_def handle_header_value_start_def Let_def)
    then show ?thesis using False NTB_MAIL_PARSER_HEADER_VALUE_START by (simp add: parse_value_step mail_step_def)
  qed
next
  case NTB_MAIL_PARSER_CHECK_EOL
  then show ?thesis by (simp add: parse_step handle_mail_state_def handle_check_eol_def mail_step_def)
next
  case NTB_MAIL_PARSER_CHECK_CONTINUATION
  then show ?thesis
    by (subst parse_step)
      (auto simp: handle_mail_state_def handle_check_continuation_def mail_step_def bind_outcome_assoc parse_value_step parse_name_step)
qed (use assms in \<open>simp_all add: parse_value_step parse_name_step mail_step_def\<close>)

section \<open>The content in pieces\<close>

lemma base64_few_chars:
  assumes "b64_n_chars d \<le> 3"
  shows "b64_n_chars (fst (ntb_base64_decode d cs)) \<le> 3"
proof -
  have "b64_n_chars (fst (base64_loop d cs)) \<le> 3" if "b64_n_chars d \<le> 3" for d
    using that
  proof (induction cs arbitrary: d)
    case (Cons c cs)
    show ?case
    proof (cases "alphabet_value (uint c) \<ge> 0")
      case True
      define e where "e = d\<lparr>b64_value := push_bit 6 (b64_value d) OR word_of_int (alphabet_value (uint c)),
          b64_n_chars := b64_n_chars d + 1\<rparr>"
      have "b64_n_chars (fst (then_decode (x, Some out) (\<lambda>d. base64_loop d cs))) = b64_n_chars (fst (base64_loop x cs))" for x out
        by (auto simp: then_decode_def split: prod.splits option.splits)
      then show ?thesis using True Cons.IH [of e] Cons.IH [of "e\<lparr>b64_n_chars := 0\<rparr>"]
        by (simp add: Let_def e_def)
    next
      case False
      then show ?thesis using Cons handle_padding_n_chars [of d "c # cs"]
        by (auto simp del: handle_padding.simps simp: Let_def split: prod.splits)
    qed
  qed simp
  then show ?thesis using assms handle_padding_n_chars [of d cs]
    by (auto simp: ntb_base64_decode_def split: prod.splits)
qed

text \<open>In the content, the base-64 decoder holds back at most three characters.\<close>

definition decoder_ok :: "'u ntb_mail_parser \<Rightarrow> bool" where
  "decoder_ok mp \<longleftrightarrow> (mp_state mp = NTB_MAIL_PARSER_CONTENT \<longrightarrow> mp_encoding mp = NTB_MAIL_PARSER_ENCODING_BASE64 \<longrightarrow>
     b64_n_chars (base64_data mp) \<le> 3)"

text \<open>A piece that fits the read buffer of the daemon is decoded as one chunk, and the array is large enough for it.\<close>

lemma small_piece:
  assumes "decoder_ok mp" "mp_state mp = NTB_MAIL_PARSER_CONTENT" "data \<noteq> []" "length data \<le> 512"
  shows "ntb_mail_parser_parse rd cb mp data = content_step cb mp data"
proof -
  have "(case mp_encoding mp of
          NTB_MAIL_PARSER_ENCODING_BASE64 \<Rightarrow> handle_content_base64 cb mp data
        | NTB_MAIL_PARSER_ENCODING_QUOTED_PRINTABLE \<Rightarrow> handle_content_quoted_printable cb mp data
        | NTB_MAIL_PARSER_ENCODING_RAW \<Rightarrow> handle_content_raw cb mp data) = content_step cb mp data"
  proof (cases "mp_encoding mp")
    case NTB_MAIL_PARSER_ENCODING_RAW
    then show ?thesis by (simp add: handle_content_raw_def content_step_def)
  next
    case NTB_MAIL_PARSER_ENCODING_BASE64
    obtain d r where dec: "ntb_base64_decode (base64_data mp) data = (d, r)" by (cases "ntb_base64_decode (base64_data mp) data")
    have "length out \<le> 512" if "r = Some out" for out
      using base64_decode_bound [of "base64_data mp" data d out] dec that assms NTB_MAIL_PARSER_ENCODING_BASE64
      by (simp add: decoder_ok_def)
    moreover have "min (max_input BASE64 512) (length data) = length data" using assms(4) by simp
    ultimately show ?thesis using NTB_MAIL_PARSER_ENCODING_BASE64 assms(3) dec
      by (subst handle_content_base64.simps)
        (cases r; cases "cb (NTB_MAIL_PARSER_EVENT_CONTENT (the r)) (mp_user mp)";
          simp add: content_step_def Let_def into_array_def report_def handle_content_base64.simps)
  next
    case NTB_MAIL_PARSER_ENCODING_QUOTED_PRINTABLE
    obtain d r where dec: "ntb_quoted_printable_decode (qp_data mp) data = (d, r)" by (cases "ntb_quoted_printable_decode (qp_data mp) data")
    have "length out \<le> 512" if "r = Some out" for out
      using qp_run_bound [of "qp_data mp" data d out] dec that assms(4) by (simp add: decode_eq_run)
    moreover have "min 512 (length data) = length data" using assms(4) by simp
    ultimately show ?thesis using NTB_MAIL_PARSER_ENCODING_QUOTED_PRINTABLE assms(3) dec
      by (subst handle_content_quoted_printable.simps)
        (cases r; cases "cb (NTB_MAIL_PARSER_EVENT_CONTENT (the r)) (mp_user mp)";
          simp add: content_step_def Let_def into_array_def report_def handle_content_quoted_printable.simps)
  qed
  then show ?thesis using assms(2,3)
    by (cases "content_step cb mp data") (simp_all add: parse_step handle_mail_state_def handle_content_def)
qed

lemma content_step_keeps:
  assumes "content_step cb mp cs = Ok mp'"
  shows "mp_state mp' = mp_state mp \<and> mp_encoding mp' = mp_encoding mp \<and> (decoder_ok mp \<longrightarrow> decoder_ok mp')"
  using assms base64_few_chars [of "base64_data mp" cs]
  by (auto simp: content_step_def report_def decoder_ok_def split: ntb_mail_parser_encoding.splits prod.splits option.splits)

text \<open>
  What the parser asks of its client: content that arrives in two pieces has the same effect as the two
  pieces together.
\<close>

locale mail_client =
  fixes cb :: "'u mail_cb"
  assumes content_append: "cb (NTB_MAIL_PARSER_EVENT_CONTENT (xs @ ys)) u =
      bind_outcome (cb (NTB_MAIL_PARSER_EVENT_CONTENT xs) u) (cb (NTB_MAIL_PARSER_EVENT_CONTENT ys))"
    and no_fault: "cb e u \<noteq> Fault"
begin

lemma report_append:
  "report cb (NTB_MAIL_PARSER_EVENT_CONTENT (xs @ ys)) mp =
   bind_outcome (report cb (NTB_MAIL_PARSER_EVENT_CONTENT xs) mp) (report cb (NTB_MAIL_PARSER_EVENT_CONTENT ys))"
  by (cases "cb (NTB_MAIL_PARSER_EVENT_CONTENT xs) (mp_user mp)") (simp_all add: report_def content_append)

text \<open>One step with a decoder whose state is a field of the parser.\<close>

definition decoded :: "('d \<Rightarrow> u8 list \<Rightarrow> 'd \<times> u8 list option) \<Rightarrow> ('u ntb_mail_parser \<Rightarrow> 'd) \<Rightarrow>
    ('d \<Rightarrow> 'u ntb_mail_parser \<Rightarrow> 'u ntb_mail_parser) \<Rightarrow> 'u ntb_mail_parser \<Rightarrow> u8 list \<Rightarrow> 'u ntb_mail_parser outcome" where
  "decoded dec getd putd mp cs =
     (case dec (getd mp) cs of
        (d, None) \<Rightarrow> Fail
      | (d, Some out) \<Rightarrow> report cb (NTB_MAIL_PARSER_EVENT_CONTENT out) (putd d mp))"

lemma decoded_append:
  assumes "stream_decoder dec"
    and "\<And>d m u. getd (putd d m) = d" "\<And>d e m. putd d (putd e m) = putd d m"
    and "\<And>d m u. putd d (m\<lparr>mp_user := u\<rparr>) = (putd d m)\<lparr>mp_user := u\<rparr>" "\<And>d m. mp_user (putd d m) = mp_user m"
      "\<And>m u. getd (m\<lparr>mp_user := u\<rparr>) = getd m"
  shows "decoded dec getd putd mp (xs @ ys) = bind_outcome (decoded dec getd putd mp xs) (\<lambda>mp. decoded dec getd putd mp ys)"
proof -
  obtain d r where x: "dec (getd mp) xs = (d, r)" by (cases "dec (getd mp) xs")
  obtain e s where y: "dec d ys = (e, s)" by (cases "dec d ys")
  have xy: "dec (getd mp) (xs @ ys) = then_decode (d, r) (\<lambda>_. (e, s))"
    using stream_decoder.dec_append [OF assms(1), of "getd mp" xs ys] x y by (simp add: then_decode_def split: option.splits)
  show ?thesis
    using x y xy no_fault [of "NTB_MAIL_PARSER_EVENT_CONTENT (the r)" "mp_user mp"] assms(2-6)
    by (cases r; cases s; cases "cb (NTB_MAIL_PARSER_EVENT_CONTENT (the r)) (mp_user mp)")
      (simp_all add: decoded_def then_decode_def report_def content_append)
qed

lemma content_step_append:
  "content_step cb mp (xs @ ys) = bind_outcome (content_step cb mp xs) (\<lambda>mp. content_step cb mp ys)"
proof -
  have keep: "bind_outcome (content_step cb mp xs) f = bind_outcome (content_step cb mp xs) g"
    if "\<And>m. mp_encoding m = mp_encoding mp \<Longrightarrow> f m = g m" for f g :: "'u ntb_mail_parser \<Rightarrow> 'u ntb_mail_parser outcome"
  proof (rule bind_outcome_cong [OF refl])
    fix m
    assume "content_step cb mp xs = Ok m"
    from content_step_keeps [OF this] show "f m = g m" using that by blast
  qed
  show ?thesis
  proof (cases "mp_encoding mp")
    case NTB_MAIL_PARSER_ENCODING_RAW
    then show ?thesis using keep [of "\<lambda>m. report cb (NTB_MAIL_PARSER_EVENT_CONTENT ys) m" "\<lambda>m. content_step cb m ys"]
      by (simp add: content_step_def report_append)
  next
    case NTB_MAIL_PARSER_ENCODING_BASE64
    let ?d = "decoded ntb_base64_decode base64_data (\<lambda>d. base64_data_update (\<lambda>_. d))"
    have "content_step cb m = ?d m" if "mp_encoding m = mp_encoding mp" for m
      using that NTB_MAIL_PARSER_ENCODING_BASE64 by (simp add: content_step_def decoded_def fun_eq_iff)
    moreover have "?d mp (xs @ ys) = bind_outcome (?d mp xs) (\<lambda>mp. ?d mp ys)"
      by (rule decoded_append) (simp_all add: base64.stream_decoder_axioms)
    ultimately show ?thesis using keep [of "\<lambda>m. ?d m ys" "\<lambda>m. content_step cb m ys"] by simp
  next
    case NTB_MAIL_PARSER_ENCODING_QUOTED_PRINTABLE
    let ?d = "decoded ntb_quoted_printable_decode qp_data (\<lambda>d. qp_data_update (\<lambda>_. d))"
    have "content_step cb m = ?d m" if "mp_encoding m = mp_encoding mp" for m
      using that NTB_MAIL_PARSER_ENCODING_QUOTED_PRINTABLE by (simp add: content_step_def decoded_def fun_eq_iff)
    moreover have "?d mp (xs @ ys) = bind_outcome (?d mp xs) (\<lambda>mp. ?d mp ys)"
      by (rule decoded_append) (simp_all add: quoted_printable.stream_decoder_axioms)
    ultimately show ?thesis using keep [of "\<lambda>m. ?d m ys" "\<lambda>m. content_step cb m ys"] by simp
  qed
qed

text \<open>A piece of at most 512 bytes is parsed as the machine does it, whatever state the parser is in.\<close>

lemma content_step_run:
  assumes "mp_state mp = NTB_MAIL_PARSER_CONTENT" "data \<noteq> []"
  shows "content_step cb mp data = mail_run rd cb mp data"
  using assms
proof (induction data arbitrary: mp)
  case (Cons c data)
  show ?case
  proof (cases "data = []")
    case True
    then show ?thesis using Cons.prems by (cases "content_step cb mp [c]") (simp_all add: mail_step_def)
  next
    case False
    have "content_step cb mp (c # data) = bind_outcome (content_step cb mp [c]) (\<lambda>m. content_step cb m data)"
      using content_step_append [of mp "[c]" data] by simp
    also have "\<dots> = bind_outcome (content_step cb mp [c]) (\<lambda>m. mail_run rd cb m data)"
    proof (rule bind_outcome_cong [OF refl])
      fix m
      assume "content_step cb mp [c] = Ok m"
      from content_step_keeps [OF this] have "mp_state m = NTB_MAIL_PARSER_CONTENT" using Cons.prems by simp
      then show "content_step cb m data = mail_run rd cb m data" by (rule Cons.IH [OF _ False])
    qed
    finally show ?thesis using Cons.prems by (simp add: mail_step_def)
  qed
qed simp

end

lemma name_step_decoder:
  assumes "name_step mp c = Ok mp'" "mp_state mp = NTB_MAIL_PARSER_HEADER_NAME"
  shows "decoder_ok mp'"
  using assms
  by (auto simp: name_step_def decoder_ok_def handle_headers_end_def Let_def ntb_base64_decode_start_def
      split: if_splits ntb_mail_parser_encoding.splits)

lemma value_step_decoder:
  assumes "value_step mp c = Ok mp'" "mp_state mp = NTB_MAIL_PARSER_HEADER_VALUE"
  shows "decoder_ok mp'"
  using assms by (auto simp: value_step_def decoder_ok_def split: if_splits)

lemma mail_step_decoder:
  assumes "mail_step rd cb mp c = Ok mp'" "decoder_ok mp"
  shows "decoder_ok mp'"
proof (cases "mp_state mp")
  case NTB_MAIL_PARSER_CONTENT
  then show ?thesis using assms content_step_keeps [of cb mp "[c]" mp'] by (simp add: mail_step_def)
next
  case NTB_MAIL_PARSER_CHECK_EOL
  then show ?thesis using assms by (auto simp: mail_step_def decoder_ok_def split: if_splits)
qed (use assms in \<open>auto simp: mail_step_def split: if_splits intro: name_step_decoder value_step_decoder\<close>)

lemma mail_run_decoder: "mail_run rd cb mp cs = Ok mp' \<Longrightarrow> decoder_ok mp \<Longrightarrow> decoder_ok mp'"
  by (induction cs arbitrary: mp) (auto dest: mail_step_decoder)

lemma new_decoder: "decoder_ok (ntb_mail_parser_new h b q u)"
  by (simp add: decoder_ok_def ntb_mail_parser_new_def)

text \<open>A mail that is read piece by piece.\<close>

fun parse_pieces :: "address_reader \<Rightarrow> 'u mail_cb \<Rightarrow> 'u ntb_mail_parser \<Rightarrow> u8 list list \<Rightarrow> 'u ntb_mail_parser outcome" where
  "parse_pieces rd cb mp [] = Ok mp"
| "parse_pieces rd cb mp (data # ds) = bind_outcome (ntb_mail_parser_parse rd cb mp data) (\<lambda>mp. parse_pieces rd cb mp ds)"

context mail_client
begin

lemma piece_run:
  "decoder_ok mp \<Longrightarrow> length data \<le> 512 \<Longrightarrow> ntb_mail_parser_parse rd cb mp data = mail_run rd cb mp data"
proof (induction data arbitrary: mp)
  case (Cons c data)
  show ?case
  proof (cases "mp_state mp = NTB_MAIL_PARSER_CONTENT")
    case True
    then show ?thesis using Cons.prems small_piece [of mp "c # data"] content_step_run [of mp "c # data" rd] by simp
  next
    case False
    have "bind_outcome (mail_step rd cb mp c) (\<lambda>mp. ntb_mail_parser_parse rd cb mp data) =
        bind_outcome (mail_step rd cb mp c) (\<lambda>mp. mail_run rd cb mp data)"
    proof (rule bind_outcome_cong [OF refl])
      fix m
      assume "mail_step rd cb mp c = Ok m"
      then have "decoder_ok m" using mail_step_decoder Cons.prems(1) by blast
      then show "ntb_mail_parser_parse rd cb m data = mail_run rd cb m data" using Cons.IH Cons.prems(2) by simp
    qed
    then show ?thesis using parse_header_step [OF False, of rd cb c data] by simp
  qed
qed simp

lemma pieces_run:
  "decoder_ok mp \<Longrightarrow> \<forall>d \<in> set ds. length d \<le> 512 \<Longrightarrow> parse_pieces rd cb mp ds = mail_run rd cb mp (concat ds)"
proof (induction ds arbitrary: mp)
  case (Cons d ds)
  have "bind_outcome (mail_run rd cb mp d) (\<lambda>mp. parse_pieces rd cb mp ds) =
      bind_outcome (mail_run rd cb mp d) (\<lambda>mp. mail_run rd cb mp (concat ds))"
  proof (rule bind_outcome_cong [OF refl])
    fix m
    assume "mail_run rd cb mp d = Ok m"
    then have "decoder_ok m" using mail_run_decoder Cons.prems(1) by blast
    then show "parse_pieces rd cb m ds = mail_run rd cb m (concat ds)" using Cons by simp
  qed
  then show ?case using Cons.prems piece_run [of mp d rd] by (simp add: mail_run_append)
qed simp

end

section \<open>What an accepted mail has reported\<close>

text \<open>The calls of the client, one after the other.\<close>

definition run_events :: "'u mail_cb \<Rightarrow> ntb_mail_parser_event list \<Rightarrow> 'u \<Rightarrow> 'u outcome" where
  "run_events cb es u = foldl (\<lambda>r e. bind_outcome r (cb e)) (Ok u) es"

lemma run_events_simps [simp]:
  "run_events cb [] u = Ok u"
  "run_events cb (es @ [e]) u = bind_outcome (run_events cb es u) (cb e)"
  by (simp_all add: run_events_def)

text \<open>A successful address list has reported addresses, and at least one.\<close>

lemma finish_address_reports:
  "finish_address rd cb acc u = Ok u' \<Longrightarrow> \<exists>as. report_all cb as u = Ok u' \<and> (acc \<noteq> None \<longrightarrow> as \<noteq> [])"
proof (cases acc)
  case (Some s)
  assume "finish_address rd cb acc u = Ok u'"
  then obtain a where "cb a u = Ok u'" using Some by (auto simp: finish_address_def)
  then show ?thesis using Some by (intro exI [of _ "[a]"]) simp
qed (auto simp: finish_address_def intro: exI [of _ "[]"])

lemma report_all_append: "report_all cb as u = Ok v \<Longrightarrow> report_all cb bs v = Ok w \<Longrightarrow> report_all cb (as @ bs) u = Ok w"
  by (induction as arbitrary: u) auto

lemma address_list_reports:
  "address_list rd cb acc cs u = Ok u' \<Longrightarrow> \<exists>as. report_all cb as u = Ok u' \<and> (acc \<noteq> None \<longrightarrow> as \<noteq> [])"
proof (induction cs arbitrary: acc u rule: length_induct)
  case (1 cs)
  have IH: "\<exists>as. report_all cb as v = Ok u' \<and> (acc' \<noteq> None \<longrightarrow> as \<noteq> [])"
    if "address_list rd cb acc' r v = Ok u'" "length r < length cs" for acc' r v using 1(1) that by blast
  show ?case
  proof (cases cs)
    case Nil
    then show ?thesis using 1(2) finish_address_reports by simp
  next
    case (Cons c r)
    note ok = 1(2) [unfolded Cons]
    consider (comma) "c = 0x2c" | (quote) "c = 0x22" | (bracket) "c = 0x3c" | (other) "c \<notin> {0x2c, 0x22, 0x3c}" by blast
    then show ?thesis
    proof cases
      case comma
      then obtain v where v: "finish_address rd cb acc u = Ok v" "address_list rd cb (Some []) r v = Ok u'" using ok by auto
      then show ?thesis using finish_address_reports [OF v(1)] IH [OF v(2)] Cons report_all_append by (metis append_is_Nil_conv length_Cons lessI option.distinct(1))
    next
      case quote
      then obtain q x where "text_quotes r = Some (q, x)" "address_list rd cb (map_option (\<lambda>s. s @ q) acc) x u = Ok u'"
        using ok by (auto split: option.splits)
      then show ?thesis using IH [of "map_option (\<lambda>s. s @ q) acc" x u] text_quotes_shorter Cons by fastforce
    next
      case bracket
      then obtain q x v where v: "text_brackets r = Some (q, x)" "finish_address rd cb (Some q) u = Ok v" "address_list rd cb None x v = Ok u'"
        using ok by (auto split: option.splits)
      have "length x < length cs" using text_brackets_shorter [OF v(1)] Cons by simp
      then show ?thesis using finish_address_reports [OF v(2)] IH [OF v(3)] report_all_append by (metis append_is_Nil_conv option.distinct(1))
    next
      case other
      then obtain acc' where "address_list rd cb acc' r u = Ok u'" "acc' = None \<longleftrightarrow> acc = None" using ok by (auto split: if_splits)
      then show ?thesis using IH [of acc' r u] Cons by auto
    qed
  qed
qed

fun is_source :: "ntb_mail_parser_event \<Rightarrow> bool" where
  "is_source (NTB_MAIL_PARSER_EVENT_SOURCE a) = True"
| "is_source _ = False"

fun is_destination :: "ntb_mail_parser_event \<Rightarrow> bool" where
  "is_destination (NTB_MAIL_PARSER_EVENT_DESTINATION a) = True"
| "is_destination _ = False"

fun is_subject :: "ntb_mail_parser_event \<Rightarrow> bool" where
  "is_subject (NTB_MAIL_PARSER_EVENT_SUBJECT s) = True"
| "is_subject _ = False"

fun is_content :: "ntb_mail_parser_event \<Rightarrow> bool" where
  "is_content (NTB_MAIL_PARSER_EVENT_CONTENT s) = True"
| "is_content _ = False"

definition has_destination :: "'u ntb_mail_parser \<Rightarrow> bool" where
  "has_destination mp \<longleftrightarrow> had_to mp \<or> had_cc mp \<or> had_bcc mp"

text \<open>The events that the headers have caused so far.\<close>

definition headers_reported :: "'u mail_cb \<Rightarrow> 'u \<Rightarrow> 'u ntb_mail_parser \<Rightarrow> ntb_mail_parser_event list \<Rightarrow> 'u \<Rightarrow> bool" where
  "headers_reported cb u mp es v \<longleftrightarrow> run_events cb es u = Ok v \<and> \<not> list_ex is_content es \<and>
     length (filter is_source es) = (if had_from mp then 1 else 0) \<and>
     length (filter is_subject es) = (if had_subject mp then 1 else 0) \<and>
     (has_destination mp \<longrightarrow> list_ex is_destination es)"

definition mail_trace :: "'u mail_cb \<Rightarrow> 'u \<Rightarrow> 'u ntb_mail_parser \<Rightarrow> bool" where
  "mail_trace cb u mp \<longleftrightarrow>
     (if mp_state mp = NTB_MAIL_PARSER_CONTENT
      then had_from mp \<and> has_destination mp \<and>
        (\<exists>es v cs. headers_reported cb u mp es v \<and> run_events cb (es @ map NTB_MAIL_PARSER_EVENT_CONTENT cs) u = Ok (mp_user mp))
      else \<exists>es. headers_reported cb u mp es (mp_user mp))"

lemma headers_reported_frame:
  "headers_reported cb u mp es v \<Longrightarrow> had_from mp' = had_from mp \<Longrightarrow> had_subject mp' = had_subject mp \<Longrightarrow>
   has_destination mp' = has_destination mp \<Longrightarrow> headers_reported cb u mp' es v"
  by (simp add: headers_reported_def)

lemma destinations_run:
  "report_all (destination_address_cb cb) as mp = Ok mp' \<Longrightarrow> run_events cb es u = Ok (mp_user mp) \<Longrightarrow>
   \<exists>v. mp' = mp\<lparr>mp_user := v\<rparr> \<and> run_events cb (es @ map NTB_MAIL_PARSER_EVENT_DESTINATION as) u = Ok v"
proof (induction as arbitrary: mp' rule: rev_induct)
  case Nil
  then show ?case by (intro exI [of _ "mp_user mp"]) simp
next
  case (snoc a as)
  from snoc.prems(1) obtain m where m: "report_all (destination_address_cb cb) as mp = Ok m" "destination_address_cb cb a m = Ok mp'"
    by (auto simp: report_all_def)
  then show ?case using snoc.IH [OF m(1) snoc.prems(2)]
    by (auto simp: destination_address_cb_def report_def simp flip: append_assoc)
qed

lemma destinations_reported:
  assumes "parse_destinations rd cb mp = Ok mp'" "headers_reported cb u mp0 es (mp_user mp)"
    "had_from mp = had_from mp0" "had_subject mp = had_subject mp0"
  shows "\<exists>fs. headers_reported cb u mp' fs (mp_user mp')"
proof -
  have "address_list rd (destination_address_cb cb) (Some []) (mp_buffer mp) mp = Ok mp'"
    using assms(1) by (simp add: parse_destinations_def parse_addresses_reference)
  from address_list_reports [OF this] obtain as where as: "report_all (destination_address_cb cb) as mp = Ok mp'" "as \<noteq> []"
    by blast
  obtain v where v: "mp' = mp\<lparr>mp_user := v\<rparr>" "run_events cb (es @ map NTB_MAIL_PARSER_EVENT_DESTINATION as) u = Ok v"
    using destinations_run [OF as(1), of es u] assms(2) by (auto simp: headers_reported_def)
  have none: "filter is_source (map NTB_MAIL_PARSER_EVENT_DESTINATION as) = []"
    "filter is_subject (map NTB_MAIL_PARSER_EVENT_DESTINATION as) = []"
    "\<not> list_ex is_content (map NTB_MAIL_PARSER_EVENT_DESTINATION as)"
    by (simp_all add: filter_empty_conv list_ex_iff)
  have "list_ex is_destination (map NTB_MAIL_PARSER_EVENT_DESTINATION as)" using as(2) by (cases as) auto
  then have "headers_reported cb u mp' (es @ map NTB_MAIL_PARSER_EVENT_DESTINATION as) v"
    using v none assms(2-4) by (simp add: headers_reported_def)
  then show ?thesis using v(1) by auto
qed

lemma source_reported:
  assumes "handle_from rd cb mp = Ok mp'" "headers_reported cb u mp es (mp_user mp)"
  shows "\<exists>fs. headers_reported cb u mp' fs (mp_user mp')"
proof -
  have "address_list rd (from_address_cb cb) (Some []) (mp_buffer mp) mp = Ok mp'"
    using assms(1) by (simp add: handle_from_def parse_addresses_reference)
  from address_list_reports [OF this] obtain as where as: "report_all (from_address_cb cb) as mp = Ok mp'" "as \<noteq> []"
    by blast
  obtain a bs where a: "as = a # bs" using as(2) by (cases as) auto
  obtain m where m: "from_address_cb cb a mp = Ok m" "report_all (from_address_cb cb) bs m = Ok mp'" using as(1) a by auto
  then have "had_from m" "\<not> had_from mp" by (auto simp: from_address_cb_def report_def split: if_splits)
  then have "mp' = m" using m(2) by (cases bs) (auto simp: from_address_cb_def)
  then show ?thesis using m(1) assms(2)
    by (intro exI [of _ "es @ [NTB_MAIL_PARSER_EVENT_SOURCE a]"])
      (auto simp: from_address_cb_def report_def headers_reported_def has_destination_def split: if_splits)
qed

lemma content_traceI:
  assumes "mp_state mp = NTB_MAIL_PARSER_CONTENT" "had_from mp" "has_destination mp" "headers_reported cb u mp es v"
    "run_events cb (es @ map NTB_MAIL_PARSER_EVENT_CONTENT cs) u = Ok (mp_user mp)"
  shows "mail_trace cb u mp"
  unfolding mail_trace_def using assms by (simp only: if_True simp_thms) blast

text \<open>The flags and the client are as before.\<close>

definition unreported :: "'u ntb_mail_parser \<Rightarrow> 'u ntb_mail_parser \<Rightarrow> bool" where
  "unreported mp mp' \<longleftrightarrow> had_from mp' = had_from mp \<and> had_subject mp' = had_subject mp \<and>
     has_destination mp' = has_destination mp \<and> mp_user mp' = mp_user mp"

lemma unreported_events: "unreported mp mp' \<Longrightarrow> headers_reported cb u mp es (mp_user mp) \<Longrightarrow> headers_reported cb u mp' es (mp_user mp')"
  by (simp add: unreported_def headers_reported_def)

lemma header_traceI:
  "mp_state mp' \<noteq> NTB_MAIL_PARSER_CONTENT \<Longrightarrow> unreported mp mp' \<Longrightarrow> headers_reported cb u mp es (mp_user mp) \<Longrightarrow> mail_trace cb u mp'"
  unfolding mail_trace_def using unreported_events [of mp mp' cb u es] by (simp only: if_False simp_thms) blast

lemma header_end_reported:
  assumes "handle_header_end rd cb mp = Ok mp'" "headers_reported cb u mp es (mp_user mp)"
  shows "\<exists>fs. headers_reported cb u mp' fs (mp_user mp')"
proof -
  define m where "m = mp\<lparr>mp_buffer := (if mp_buffer mp \<noteq> [] \<and> last (mp_buffer mp) = 0x20 then butlast (mp_buffer mp) else mp_buffer mp)\<rparr>"
  have m: "headers_reported cb u m es (mp_user m)" using assms(2) by (simp add: m_def headers_reported_def has_destination_def)
  have ok: "(case current_header m of
        NTB_MAIL_PARSER_TO \<Rightarrow> handle_to rd cb m
      | NTB_MAIL_PARSER_CC \<Rightarrow> handle_cc rd cb m
      | NTB_MAIL_PARSER_BCC \<Rightarrow> handle_bcc rd cb m
      | NTB_MAIL_PARSER_FROM \<Rightarrow> handle_from rd cb m
      | NTB_MAIL_PARSER_SUBJECT \<Rightarrow> handle_subject cb m
      | NTB_MAIL_PARSER_CONTENT_TYPE \<Rightarrow> handle_content_type m
      | NTB_MAIL_PARSER_TRANSFER_ENCODING \<Rightarrow> handle_transfer_encoding m
      | NTB_MAIL_PARSER_SKIP \<Rightarrow> Ok m) = Ok mp'"
    using assms(1) unfolding handle_header_end_def Let_def m_def .
  show ?thesis
  proof (cases "current_header m")
    case NTB_MAIL_PARSER_TO
    then show ?thesis using ok m destinations_reported [of rd cb "m\<lparr>had_to := True\<rparr>" mp' u m es]
      by (auto simp: handle_to_def split: if_splits)
  next
    case NTB_MAIL_PARSER_CC
    then show ?thesis using ok m destinations_reported [of rd cb "m\<lparr>had_cc := True\<rparr>" mp' u m es]
      by (auto simp: handle_cc_def split: if_splits)
  next
    case NTB_MAIL_PARSER_BCC
    then show ?thesis using ok m destinations_reported [of rd cb "m\<lparr>had_bcc := True\<rparr>" mp' u m es]
      by (auto simp: handle_bcc_def split: if_splits)
  next
    case NTB_MAIL_PARSER_FROM
    then show ?thesis using ok source_reported m by simp
  next
    case NTB_MAIL_PARSER_SUBJECT
    then obtain buf where "\<not> had_subject m" "report cb (NTB_MAIL_PARSER_EVENT_SUBJECT buf) (m\<lparr>had_subject := True, mp_buffer := buf\<rparr>) = Ok mp'"
      using ok by (auto simp: handle_subject_def Let_def split: if_splits)
    then show ?thesis using m
      by (intro exI [of _ "es @ [NTB_MAIL_PARSER_EVENT_SUBJECT buf]"]) (auto simp: report_def headers_reported_def has_destination_def)
  next
    case NTB_MAIL_PARSER_CONTENT_TYPE
    then have "unreported m mp'" using ok by (auto simp: handle_content_type_def unreported_def has_destination_def Let_def split: if_splits)
    from unreported_events [OF this m] show ?thesis by blast
  next
    case NTB_MAIL_PARSER_TRANSFER_ENCODING
    then have "unreported m mp'" using ok by (auto simp: handle_transfer_encoding_def unreported_def has_destination_def Let_def split: if_splits)
    from unreported_events [OF this m] show ?thesis by blast
  next
    case NTB_MAIL_PARSER_SKIP
    then show ?thesis using ok m by auto
  qed
qed

lemma value_step_trace:
  "value_step mp c = Ok mp' \<Longrightarrow> mp_state mp = NTB_MAIL_PARSER_HEADER_VALUE \<Longrightarrow> headers_reported cb u mp es (mp_user mp) \<Longrightarrow> mail_trace cb u mp'"
  by (rule header_traceI [of mp' mp]) (auto simp: value_step_def unreported_def has_destination_def split: if_splits)

lemma name_step_trace:
  assumes "name_step mp c = Ok mp'" "mp_state mp = NTB_MAIL_PARSER_HEADER_NAME" "headers_reported cb u mp es (mp_user mp)"
  shows "mail_trace cb u mp'"
proof (cases "c = 0x0a")
  case True
  then have ok: "handle_headers_end mp = Ok mp'" using assms(1) by (simp add: name_step_def split: if_splits)
  then have f: "had_from mp' = had_from mp" "had_subject mp' = had_subject mp" "has_destination mp' = has_destination mp"
    "mp_user mp' = mp_user mp" "mp_state mp' = NTB_MAIL_PARSER_CONTENT" "had_from mp" "has_destination mp"
    by (auto simp: handle_headers_end_def has_destination_def Let_def split: if_splits ntb_mail_parser_encoding.splits)
  have "headers_reported cb u mp' es (mp_user mp)" using headers_reported_frame [OF assms(3)] f by simp
  then show ?thesis using f by (intro content_traceI [where es = es and cs = "[]"]) (simp_all add: headers_reported_def)
next
  case False
  show ?thesis
    by (rule header_traceI [OF _ _ assms(3)])
      (use False assms(1,2) in \<open>auto simp: name_step_def set_header_def unreported_def has_destination_def split: if_splits\<close>)
qed

lemma content_step_trace:
  assumes "content_step cb mp cs = Ok mp'" "mp_state mp = NTB_MAIL_PARSER_CONTENT" "mail_trace cb u mp"
  shows "mail_trace cb u mp'"
proof -
  obtain out m where m: "report cb (NTB_MAIL_PARSER_EVENT_CONTENT out) m = Ok mp'" "mp_user m = mp_user mp" "mp_state m = mp_state mp"
    "had_from m = had_from mp" "had_subject m = had_subject mp" "has_destination m = has_destination mp"
  proof -
    have "\<exists>out m. report cb (NTB_MAIL_PARSER_EVENT_CONTENT out) m = Ok mp' \<and> mp_user m = mp_user mp \<and> mp_state m = mp_state mp \<and>
        had_from m = had_from mp \<and> had_subject m = had_subject mp \<and> has_destination m = has_destination mp"
      using assms(1) by (fastforce simp: content_step_def has_destination_def split: ntb_mail_parser_encoding.splits prod.splits option.splits)
    then show thesis using that by blast
  qed
  obtain es v cs where es: "headers_reported cb u mp es v" "run_events cb (es @ map NTB_MAIL_PARSER_EVENT_CONTENT cs) u = Ok (mp_user mp)"
    "had_from mp" "has_destination mp" using assms(2,3) by (auto simp: mail_trace_def)
  obtain w where w: "cb (NTB_MAIL_PARSER_EVENT_CONTENT out) (mp_user mp) = Ok w" "mp' = m\<lparr>mp_user := w\<rparr>"
    using m(1,2) by (auto simp: report_def)
  have "run_events cb (es @ map NTB_MAIL_PARSER_EVENT_CONTENT (cs @ [out])) u = Ok w"
    using es(2) w(1) by (simp flip: append_assoc)
  moreover have "headers_reported cb u mp' es v" using es(1) m w(2) by (intro headers_reported_frame [OF es(1)]) (simp_all add: has_destination_def)
  moreover have "had_from mp'" "has_destination mp'" "mp_state mp' = NTB_MAIL_PARSER_CONTENT" "mp_user mp' = w"
    using m w(2) es assms(2) by (simp_all add: has_destination_def)
  ultimately show ?thesis by (intro content_traceI [where es = es and cs = "cs @ [out]"]) simp_all
qed

lemma mail_step_trace:
  assumes "mail_step rd cb mp c = Ok mp'" "mail_trace cb u mp"
  shows "mail_trace cb u mp'"
proof (cases "mp_state mp = NTB_MAIL_PARSER_CONTENT")
  case True
  then show ?thesis using assms content_step_trace by (simp add: mail_step_def)
next
  case False
  then obtain es where es: "headers_reported cb u mp es (mp_user mp)" using assms(2) by (auto simp: mail_trace_def)
  have v: "value_step m c = Ok mp' \<Longrightarrow> mail_trace cb u mp'"
    if "m = mp\<lparr>mp_state := NTB_MAIL_PARSER_HEADER_VALUE\<rparr> \<or> m = mp\<lparr>mp_state := NTB_MAIL_PARSER_HEADER_VALUE, mp_buffer := []\<rparr>" for m
    by (erule value_step_trace [where es = es]) (use that es in \<open>auto simp: headers_reported_def has_destination_def\<close>)
  show ?thesis
  proof (cases "mp_state mp")
    case NTB_MAIL_PARSER_HEADER_NAME
    then show ?thesis using assms(1) name_step_trace [OF _ _ es] by (simp add: mail_step_def)
  next
    case NTB_MAIL_PARSER_HEADER_VALUE
    then show ?thesis using assms(1) value_step_trace [OF _ _ es] by (simp add: mail_step_def)
  next
    case NTB_MAIL_PARSER_HEADER_VALUE_START
    then show ?thesis using assms v [OF disjI2 [OF refl]] by (cases "ascii_islwsp c") (simp_all add: mail_step_def)
  next
    case NTB_MAIL_PARSER_CHECK_EOL
    then show ?thesis using assms(1)
      by (intro header_traceI [OF _ _ es]) (auto simp: mail_step_def unreported_def has_destination_def split: if_splits)
  next
    case NTB_MAIL_PARSER_CHECK_CONTINUATION
    show ?thesis
    proof (cases "ascii_islwsp c")
      case True
      then show ?thesis using NTB_MAIL_PARSER_CHECK_CONTINUATION assms(1) v [OF disjI1 [OF refl]] by (simp add: mail_step_def)
    next
      case False
      then obtain m where m: "handle_header_end rd cb mp = Ok m"
        "name_step (m\<lparr>mp_buffer := [], mp_state := NTB_MAIL_PARSER_HEADER_NAME\<rparr>) c = Ok mp'"
        using NTB_MAIL_PARSER_CHECK_CONTINUATION assms(1) by (auto simp: mail_step_def)
      obtain fs where "headers_reported cb u m fs (mp_user m)" using header_end_reported [OF m(1) es] by blast
      then show ?thesis using name_step_trace [OF m(2), of cb u fs] by (simp add: headers_reported_def has_destination_def)
    qed
  qed (use False in simp)
qed

lemma mail_run_trace: "mail_run rd cb mp cs = Ok mp' \<Longrightarrow> mail_trace cb u mp \<Longrightarrow> mail_trace cb u mp'"
  by (induction cs arbitrary: mp) (auto dest: mail_step_trace)

lemma new_trace: "mail_trace cb u (ntb_mail_parser_new h b q u)"
  by (auto simp: mail_trace_def ntb_mail_parser_new_def headers_reported_def has_destination_def intro!: exI [of _ "[]"])

end
