(* ===== verification/Ntb_Ipc.thy ===== *)
theory Ntb_Ipc
  imports Ntb_Ipc_Proto Ntb_Mail_Parser Ntb_Key
begin

text \<open>
  The server end of the connection between the daemon and the local client programs (\<open>ntb-ipc.c\<close>): the
  socket and its connections, the command that sends a mail from a file descriptor and the command that
  makes a new key.

  A connection is a record that the handlers return updated, or \<open>None\<close> when they have freed it; a handler
  that touches a connection after it was freed is \<open>Fault\<close>. The emails and tasks of a connection are lists
  in the order of the linked lists; an email or task is named by its position. What the kernel answers to
  the system calls comes in as arguments, and every descriptor that is closed is recorded. The key ring is
  an argument of type \<open>'k\<close> with the three operations that are called here.
\<close>

section \<open>State\<close>

text \<open>The parts of an email that its parser fills in. The content is what follows the header of the blob.\<close>

record ntb_ipc_mail =
  from_address :: ntb_address
  to_addresses :: "ntb_address list"
  email_content :: "u8 list"
  content_encoding :: int

record ntb_ipc_email =
  email_parser :: "ntb_ipc_mail ntb_mail_parser"
  email_fd :: int
  email_request_id :: u32

record ntb_ipc_task =
  keyring_cookie :: nat
  task_request_id :: u32

record ntb_ipc_connection =
  sock :: int
  poll_in :: bool
  poll_out :: bool
  read_finished :: bool
  write_finished :: bool
  outbuf :: ntb_buffer
  inbuf :: ntb_buffer
  fd_queue :: "int list"
  emails :: "ntb_ipc_email list"
  tasks :: "ntb_ipc_task list"
  response_old_length :: nat

datatype send_result = Sent | Unknown_From_Address "u8 list" | Send_Error "u8 list"

record 'k keyring_ops =
  ntb_keyring_send_message :: "'k \<Rightarrow> ntb_address \<Rightarrow> ntb_address list \<Rightarrow> int \<Rightarrow> u8 list \<Rightarrow> 'k \<times> send_result"
  ntb_keyring_create_key :: "'k \<Rightarrow> ntb_key_params \<Rightarrow> int \<Rightarrow> 'k \<times> nat"
  ntb_keyring_cancel_task :: "'k \<Rightarrow> nat \<Rightarrow> 'k"

text \<open>
  The answers of the kernel that depend on the descriptor only, and what the memory of a new email holds.
\<close>

record kernel =
  ntb_socket_set_nonblock :: "int \<Rightarrow> u8 list option"
  shutdown_wr :: "int \<Rightarrow> bool"
  junk_header :: ntb_mail_parser_header
  junk_base64 :: ntb_base64_data
  junk_qp :: ntb_quoted_printable_data
  junk_address :: ntb_address

record 'k ipc_world =
  ipc_keyring :: 'k
  closed :: "int list"

text \<open>What a handler leaves: the world and the connection, unless it is gone.\<close>

type_synonym 'k ipc_result = "'k ipc_world \<times> ntb_ipc_connection option"

text \<open>The handlers of the daemon, with the key ring and the kernel that they call.\<close>

type_synonym 'k ipc_handler = "'k keyring_ops \<Rightarrow> kernel \<Rightarrow> ntb_ipc_connection \<Rightarrow> 'k ipc_world \<Rightarrow> 'k ipc_result"

section \<open>Removing\<close>

definition close_fds :: "int list \<Rightarrow> 'k ipc_world \<Rightarrow> 'k ipc_world" where
  "close_fds fds w = w\<lparr>closed := closed w @ fds\<rparr>"

definition close_fd_queue :: "ntb_ipc_connection \<Rightarrow> 'k ipc_world \<Rightarrow> 'k ipc_world \<times> ntb_ipc_connection" where
  "close_fd_queue conn w = (close_fds (fd_queue conn) w, conn\<lparr>fd_queue := []\<rparr>)"

definition remove_nth :: "nat \<Rightarrow> 'a list \<Rightarrow> 'a list" where
  "remove_nth i xs = take i xs @ drop (Suc i) xs"

definition remove_email :: "nat \<Rightarrow> ntb_ipc_connection \<Rightarrow> 'k ipc_world \<Rightarrow> 'k ipc_world \<times> ntb_ipc_connection" where
  "remove_email i conn w = (close_fds [email_fd (emails conn ! i)] w, conn\<lparr>emails := remove_nth i (emails conn)\<rparr>)"

definition remove_emails :: "ntb_ipc_connection \<Rightarrow> 'k ipc_world \<Rightarrow> 'k ipc_world" where
  "remove_emails conn w = foldl (\<lambda>w email. close_fds [email_fd email] w) w (emails conn)"

definition cancel_tasks :: "'k keyring_ops \<Rightarrow> ntb_ipc_connection \<Rightarrow> 'k ipc_world \<Rightarrow> 'k ipc_world" where
  "cancel_tasks kr conn w =
     foldl (\<lambda>w task. w\<lparr>ipc_keyring := ntb_keyring_cancel_task kr (ipc_keyring w) (keyring_cookie task)\<rparr>) w (tasks conn)"

definition remove_connection :: "'k keyring_ops \<Rightarrow> ntb_ipc_connection \<Rightarrow> 'k ipc_world \<Rightarrow> 'k ipc_world" where
  "remove_connection kr conn w =
     (let w = remove_emails conn w; w = cancel_tasks kr conn w; (w, conn) = close_fd_queue conn w in
      close_fds [sock conn] w)"

definition update_poll :: "'k ipc_handler" where
  "update_poll kr sys conn w =
     (let finished = \<not> write_finished conn \<and> read_finished conn \<and> buf_length (outbuf conn) = 0 \<and>
            emails conn = [] \<and> tasks conn = [] in
      if finished \<and> \<not> shutdown_wr sys (sock conn) then (remove_connection kr conn w, None)
      else
        let conn = (if finished then conn\<lparr>write_finished := True\<rparr> else conn) in
        if read_finished conn \<and> write_finished conn then (remove_connection kr conn w, None)
        else (w, Some (conn\<lparr>poll_in := \<not> read_finished conn,
                            poll_out := \<not> write_finished conn \<and> buf_length (outbuf conn) > 0\<rparr>)))"

section \<open>Responses\<close>

definition process_control_data :: "int list \<Rightarrow> ntb_ipc_connection \<Rightarrow> ntb_ipc_connection" where
  "process_control_data fds conn = conn\<lparr>fd_queue := fd_queue conn @ fds\<rparr>"

definition begin_send_response :: "u32 \<Rightarrow> ntb_ipc_proto_status \<Rightarrow> ntb_ipc_connection \<Rightarrow> ntb_ipc_connection" where
  "begin_send_response request_id status conn =
     conn\<lparr>response_old_length := buf_length (outbuf conn),
          outbuf := ntb_proto_add_32 (ntb_ipc_proto_begin_command (outbuf conn) ''response'' request_id) (status_code status)\<rparr>"

definition end_send_response :: "'k ipc_handler" where
  "end_send_response kr sys conn w =
     update_poll kr sys (conn\<lparr>outbuf := ntb_ipc_proto_end_command (outbuf conn) (response_old_length conn)\<rparr>) w"

definition send_response :: "u32 \<Rightarrow> ntb_ipc_proto_status \<Rightarrow> u8 list \<Rightarrow> 'k ipc_handler" where
  "send_response request_id status message kr sys conn w =
     (let conn = begin_send_response request_id status conn in
      end_send_response kr sys (conn\<lparr>outbuf := ntb_buffer_append_vprintf (outbuf conn) message\<rparr>) w)"

section \<open>Emails\<close>

definition send_email :: "nat \<Rightarrow> 'k ipc_handler" where
  "send_email i kr sys conn w =
     (let email = emails conn ! i;
          mail = mp_user (email_parser email);
          conn = conn\<lparr>emails := (emails conn)[i := email\<lparr>email_parser := (email_parser email)\<lparr>mp_user := mail\<lparr>email_content := []\<rparr>\<rparr>\<rparr>]\<rparr>;
          (k, res) = ntb_keyring_send_message kr (ipc_keyring w) (from_address mail) (to_addresses mail)
                       (content_encoding mail) (email_content mail);
          w = w\<lparr>ipc_keyring := k\<rparr> in
      case res of
        Sent \<Rightarrow> end_send_response kr sys (begin_send_response (email_request_id email) NTB_IPC_PROTO_STATUS_SUCCESS conn) w
      | Unknown_From_Address message \<Rightarrow>
          send_response (email_request_id email) NTB_IPC_PROTO_STATUS_UNKNOWN_FROM_ADDRESS message kr sys conn w
      | Send_Error message \<Rightarrow>
          send_response (email_request_id email) NTB_IPC_PROTO_STATUS_GENERIC_ERROR message kr sys conn w)"

definition mail_parser_data_cb :: "ntb_ipc_mail mail_cb" where
  "mail_parser_data_cb event email =
     (case event of
        NTB_MAIL_PARSER_EVENT_SOURCE a \<Rightarrow> Fault
      | NTB_MAIL_PARSER_EVENT_DESTINATION a \<Rightarrow> Fault
      | NTB_MAIL_PARSER_EVENT_SUBJECT data \<Rightarrow>
          Ok (email\<lparr>email_content := email_content email @ str ''Subject:'' @ data @ [0x0a] @ str ''Body:'',
                    content_encoding := 2\<rparr>)
      | NTB_MAIL_PARSER_EVENT_CONTENT data \<Rightarrow> Ok (email\<lparr>email_content := email_content email @ data\<rparr>))"

definition mail_parser_address_cb :: "ntb_ipc_mail mail_cb" where
  "mail_parser_address_cb event email =
     (case event of
        NTB_MAIL_PARSER_EVENT_SOURCE address \<Rightarrow> Ok (email\<lparr>from_address := address\<rparr>)
      | NTB_MAIL_PARSER_EVENT_DESTINATION address \<Rightarrow> Ok (email\<lparr>to_addresses := to_addresses email @ [address]\<rparr>)
      | NTB_MAIL_PARSER_EVENT_SUBJECT data \<Rightarrow> Fault
      | NTB_MAIL_PARSER_EVENT_CONTENT data \<Rightarrow> Fault)"

text \<open>The parser calls the one with addresses and the other with data.\<close>

definition mail_parser_cb :: "ntb_ipc_mail mail_cb" where
  "mail_parser_cb event =
     (case event of
        NTB_MAIL_PARSER_EVENT_SOURCE a \<Rightarrow> mail_parser_address_cb event
      | NTB_MAIL_PARSER_EVENT_DESTINATION a \<Rightarrow> mail_parser_address_cb event
      | NTB_MAIL_PARSER_EVENT_SUBJECT data \<Rightarrow> mail_parser_data_cb event
      | NTB_MAIL_PARSER_EVENT_CONTENT data \<Rightarrow> mail_parser_data_cb event)"

text \<open>
  The result of \<open>read\<close> on the descriptor of an email: at most 512 bytes. The parser does not say in the
  model which error it has found; \<open>message\<close> is the text of that error.
\<close>

datatype email_read = Email_Error | Email_Eof | Email_Bytes "u8 list"

text \<open>The removal of an email after a response; the email is gone when its connection is.\<close>

definition then_remove_email :: "nat \<Rightarrow> 'k ipc_result \<Rightarrow> 'k ipc_result outcome" where
  "then_remove_email i r =
     (case r of
        (w, None) \<Rightarrow> Fault
      | (w, Some conn) \<Rightarrow> (case remove_email i conn w of (w, conn) \<Rightarrow> Ok (w, Some conn)))"

definition email_poll_cb ::
    "address_reader \<Rightarrow> nat \<Rightarrow> email_read \<Rightarrow> u8 list \<Rightarrow> 'k keyring_ops \<Rightarrow> kernel \<Rightarrow> ntb_ipc_connection \<Rightarrow>
     'k ipc_world \<Rightarrow> 'k ipc_result outcome" where
  "email_poll_cb rd i got message kr sys conn w =
     (let email = emails conn ! i; request_id = email_request_id email in
      case got of
        Email_Error \<Rightarrow>
          then_remove_email i
            (send_response request_id NTB_IPC_PROTO_STATUS_FD_ERROR (str ''Error reading from email file descriptor'') kr sys conn w)
      | Email_Eof \<Rightarrow>
          (case ntb_mail_parser_end mail_parser_cb (email_parser email) of
             Ok mp \<Rightarrow>
               then_remove_email i (send_email i kr sys (conn\<lparr>emails := (emails conn)[i := email\<lparr>email_parser := mp\<rparr>]\<rparr>) w)
           | Fail \<Rightarrow>
               then_remove_email i (send_response request_id NTB_IPC_PROTO_STATUS_INVALID_EMAIL message kr sys conn w)
           | Fault \<Rightarrow> Fault)
      | Email_Bytes bytes \<Rightarrow>
          (case ntb_mail_parser_parse rd mail_parser_cb (email_parser email) bytes of
             Ok mp \<Rightarrow> Ok (w, Some (conn\<lparr>emails := (emails conn)[i := email\<lparr>email_parser := mp\<rparr>]\<rparr>))
           | Fail \<Rightarrow>
               then_remove_email i
                 (send_response request_id NTB_IPC_PROTO_STATUS_INVALID_EMAIL (str ''Error parsing email: '' @ message) kr sys conn w)
           | Fault \<Rightarrow> Fault))"

definition get_fd :: "ntb_ipc_connection \<Rightarrow> int \<times> ntb_ipc_connection" where
  "get_fd conn = (hd (fd_queue conn), conn\<lparr>fd_queue := tl (fd_queue conn)\<rparr>)"

definition handle_email_command :: "u32 \<Rightarrow> 'k ipc_handler" where
  "handle_email_command request_id kr sys conn w =
     (if fd_queue conn = []
      then send_response request_id NTB_IPC_PROTO_STATUS_INVALID_COMMAND
             (str ''email command was sent without a file descriptor argument'') kr sys conn w
      else
        case get_fd conn of (fd, conn) \<Rightarrow>
        (case ntb_socket_set_nonblock sys fd of
           Some message \<Rightarrow>
             (case send_response request_id NTB_IPC_PROTO_STATUS_FD_ERROR message kr sys conn w of
                (w, res) \<Rightarrow> (close_fds [fd] w, res))
         | None \<Rightarrow>
             let mail = \<lparr>from_address = junk_address sys, to_addresses = [], email_content = [], content_encoding = 1\<rparr>;
                 email = \<lparr>email_parser = ntb_mail_parser_new (junk_header sys) (junk_base64 sys) (junk_qp sys) mail,
                          email_fd = fd, email_request_id = request_id\<rparr> in
             (w, Some (conn\<lparr>emails := email # emails conn\<rparr>))))"

section \<open>Keys\<close>

text \<open>The callback for the task at position \<open>i\<close>. The text of the address is that of \<open>ntb_address_encode\<close>.\<close>

definition create_key_cb ::
    "'b bignum \<Rightarrow> (u8 list \<Rightarrow> u8 list) \<Rightarrow> nat \<Rightarrow> ntb_address \<Rightarrow> 'k keyring_ops \<Rightarrow> kernel \<Rightarrow> ntb_ipc_connection \<Rightarrow>
     'k ipc_world \<Rightarrow> 'k ipc_result outcome option" where
  "create_key_cb bn sha512 i address kr sys conn w =
     (let request_id = task_request_id (tasks conn ! i);
          conn = conn\<lparr>tasks := remove_nth i (tasks conn)\<rparr> in
      map_option
        (\<lambda>r. bind_outcome r (\<lambda>address_string.
           let conn = begin_send_response request_id NTB_IPC_PROTO_STATUS_SUCCESS conn;
               buf = ntb_proto_add_var_int (outbuf conn) (ucast (addr_version address));
               buf = ntb_proto_add_var_int buf (ucast (addr_stream address));
               buf = ntb_buffer_append buf (addr_ripe address);
               buf = ntb_proto_add_var_str buf address_string in
           Ok (end_send_response kr sys (conn\<lparr>outbuf := buf\<rparr>) w)))
        (ntb_address_encode bn sha512 address))"

definition label_is_valid :: "u8 list \<Rightarrow> bool" where
  "label_is_valid label \<longleftrightarrow> list_all (\<lambda>c. \<not> c AND 0xff < 0x20) label"

text \<open>The difficulties are 64 bits wide in the command and become an \<open>int\<close>.\<close>

definition to_int32 :: "u64 \<Rightarrow> int" where
  "to_int32 v = sint (ucast v :: u32)"

definition keygen_params :: "u64 \<Rightarrow> u64 \<Rightarrow> u64 \<Rightarrow> u64 \<Rightarrow> u8 list \<Rightarrow> ntb_key_params" where
  "keygen_params v s trials extra label =
     \<lparr>param_label = Some (map Some (label @ [0])), param_version = Some v, param_stream = Some s,
      param_private_keys = None, param_public_keys = None,
      param_pow_difficulty = Some (to_int32 trials, to_int32 extra),
      param_ripe = None, param_last_pubkey_send_time = None, param_enabled = None, param_decoy = None\<rparr>"

text \<open>The checks of the command and the task for the key ring. \<open>data\<close> is the memory from the payload on.\<close>

definition handle_keygen_command ::
    "u32 \<Rightarrow> u8 list \<Rightarrow> u32 \<Rightarrow> 'k keyring_ops \<Rightarrow> kernel \<Rightarrow> ntb_ipc_connection \<Rightarrow> 'k ipc_world \<Rightarrow> 'k ipc_result outcome" where
  "handle_keygen_command request_id data command_length kr sys conn w =
     (let respond = (\<lambda>status message. Ok (send_response request_id status (str message) kr sys conn w)) in
      case ntb_proto_get_command data command_length
             [NTB_PROTO_ARGUMENT_VAR_INT, NTB_PROTO_ARGUMENT_VAR_INT, NTB_PROTO_ARGUMENT_VAR_INT,
              NTB_PROTO_ARGUMENT_VAR_INT, NTB_PROTO_ARGUMENT_8, NTB_PROTO_ARGUMENT_VAR_STR] of
        Fault \<Rightarrow> Fault
      | Fail \<Rightarrow> respond NTB_IPC_PROTO_STATUS_INVALID_COMMAND ''The keygen command is invalid''
      | Ok ([VVarInt v, VVarInt s, VVarInt trials, VVarInt extra, V8 zeroes, VVarStr label_str], _) \<Rightarrow>
          if v \<noteq> 0 \<and> (v < 2 \<or> v > 4)
          then respond NTB_IPC_PROTO_STATUS_UNSUPPORTED ''The requested key version is not supported''
          else if s \<noteq> 1
          then respond NTB_IPC_PROTO_STATUS_UNSUPPORTED ''The requested stream is not supported''
          else if zeroes > 2
          then respond NTB_IPC_PROTO_STATUS_UNSUPPORTED ''The requested number of zeroes is not supported''
          else
            bind_outcome (read_bytes (unat (vs_length label_str)) (vs_data label_str)) (\<lambda>label.
            if \<not> label_is_valid label
            then respond NTB_IPC_PROTO_STATUS_INVALID_COMMAND ''The new key label contains invalid characters''
            else
              let params = keygen_params (if v = 0 then 4 else v) s
                    (if trials = 0 then Ntb_Proto_Objects.NTB_PROTO_MIN_NONCE_TRIALS_PER_BYTE * 2 else trials)
                    (if extra = 0 then Ntb_Proto_Objects.NTB_PROTO_MIN_EXTRA_BYTES else extra) label;
                  (k, cookie) = ntb_keyring_create_key kr (ipc_keyring w) params (uint zeroes) in
              Ok (w\<lparr>ipc_keyring := k\<rparr>,
                  Some (conn\<lparr>tasks := \<lparr>keyring_cookie = cookie, task_request_id = request_id\<rparr> # tasks conn\<rparr>)))
      | Ok _ \<Rightarrow> Fault)"

section \<open>Commands\<close>

definition unknown_command :: "u8 list \<Rightarrow> u8 list" where
  "unknown_command name = str ''Unknown command '' @ [0xe2, 0x80, 0x9c] @ name @ [0xe2, 0x80, 0x9d]"

definition process_command ::
    "u8 list \<Rightarrow> u32 \<Rightarrow> 'k keyring_ops \<Rightarrow> kernel \<Rightarrow> ntb_ipc_connection \<Rightarrow> 'k ipc_world \<Rightarrow> 'k ipc_result outcome" where
  "process_command data command_length kr sys conn w =
     bind_outcome (ntb_proto_get_32 (drop 12 data)) (\<lambda>request_id.
     if c_string data = str ''email'' then Ok (handle_email_command request_id kr sys conn w)
     else if c_string data = str ''keygen'' then handle_keygen_command request_id (drop 20 data) command_length kr sys conn w
     else Ok (send_response request_id NTB_IPC_PROTO_STATUS_INVALID_COMMAND (unknown_command (c_string data)) kr sys conn w))"

text \<open>
  The loop over the commands that have been received, for the memory from the read pointer on and the
  number of bytes there. The sum with the length is one of 32 bits: it can be zero, and then the loop does
  not end (\<open>None\<close>). The flag says whether the end of the loop was reached.
\<close>

partial_function (option) process_loop ::
    "'k keyring_ops \<Rightarrow> kernel \<Rightarrow> u8 list \<Rightarrow> nat \<Rightarrow> ntb_ipc_connection \<Rightarrow> 'k ipc_world \<Rightarrow> ('k ipc_result \<times> bool) outcome option" where
  "process_loop kr sys data data_length conn w =
     (if data_length < 20 then Some (Ok ((w, Some conn), True))
      else
        case ntb_proto_get_32 (drop 16 data) of
          Fault \<Rightarrow> Some Fault
        | Fail \<Rightarrow> Some Fail
        | Ok command_length \<Rightarrow>
            if data_length < unat (command_length + 20) then Some (Ok ((w, Some conn), True))
            else if \<not> ntb_proto_check_command_string data then Some (Ok ((remove_connection kr conn w, None), False))
            else
              case process_command data command_length kr sys conn w of
                Fault \<Rightarrow> Some Fault
              | Fail \<Rightarrow> Some Fail
              | Ok (w, None) \<Rightarrow> Some (Ok ((w, None), False))
              | Ok (w, Some conn) \<Rightarrow>
                  process_loop kr sys (drop (unat (command_length + 20)) data) (data_length - unat (command_length + 20)) conn w)"

definition process_commands ::
    "'k keyring_ops \<Rightarrow> kernel \<Rightarrow> ntb_ipc_connection \<Rightarrow> 'k ipc_world \<Rightarrow> 'k ipc_result outcome option" where
  "process_commands kr sys conn w =
     map_option (\<lambda>r. bind_outcome r (\<lambda>(res, ended).
         case res of
           (w, Some conn) \<Rightarrow>
             if ended \<and> buf_length (inbuf conn) = 0
             then (case close_fd_queue conn w of (w, conn) \<Rightarrow> Ok (w, Some conn))
             else Ok (w, Some conn)
         | (w, None) \<Rightarrow> Ok (w, None)))
       (process_loop kr sys (memory_of (inbuf conn)) (buf_length (inbuf conn)) conn w)"

text \<open>The result of \<open>recvmsg\<close>: the bytes and the descriptors. No bytes mean that the client has closed its end.\<close>

datatype recv_result = Recv_Error | Recv_Again | Recv "u8 list" "int list"

definition handle_read ::
    "recv_result \<Rightarrow> 'k keyring_ops \<Rightarrow> kernel \<Rightarrow> ntb_ipc_connection \<Rightarrow> 'k ipc_world \<Rightarrow> 'k ipc_result outcome option" where
  "handle_read got kr sys conn w =
     (let conn = conn\<lparr>inbuf := ntb_buffer_ensure_size (inbuf conn) (buf_length (inbuf conn) + 128)\<rparr> in
      case got of
        Recv_Again \<Rightarrow> Some (Ok (w, Some conn))
      | Recv_Error \<Rightarrow> Some (Ok (remove_connection kr conn w, None))
      | Recv bytes fds \<Rightarrow>
          let conn = process_control_data fds conn in
          if bytes = [] then Some (Ok (update_poll kr sys (conn\<lparr>read_finished := True\<rparr>) w))
          else
            case deposit (inbuf conn) bytes of
              Ok b \<Rightarrow> process_commands kr sys (conn\<lparr>inbuf := b\<rparr>) w
            | _ \<Rightarrow> Some Fault)"

text \<open>The result of \<open>send\<close>: the number of bytes that were taken.\<close>

datatype send_outcome = Send_Failed | Send_Again | Wrote nat

definition handle_write :: "send_outcome \<Rightarrow> 'k ipc_handler" where
  "handle_write wrote kr sys conn w =
     (case wrote of
        Send_Again \<Rightarrow> (w, Some conn)
      | Send_Failed \<Rightarrow> (remove_connection kr conn w, None)
      | Wrote n \<Rightarrow>
          let b = outbuf conn; left = buf_length b - n in
          update_poll kr sys
            (conn\<lparr>outbuf := b\<lparr>buf_data := write_at 0 (take left (drop n (buf_data b))) (buf_data b), buf_length := left\<rparr>\<rparr>) w)"

text \<open>The flags that the main loop hands over. An error is handled first, then input, then output.\<close>

record poll_flags =
  POLL_IN :: bool
  POLL_OUT :: bool
  POLL_ERROR :: bool

definition connection_source_cb ::
    "poll_flags \<Rightarrow> recv_result \<Rightarrow> send_outcome \<Rightarrow> 'k keyring_ops \<Rightarrow> kernel \<Rightarrow> ntb_ipc_connection \<Rightarrow> 'k ipc_world \<Rightarrow>
     'k ipc_result outcome option" where
  "connection_source_cb flags got wrote kr sys conn w =
     (if POLL_ERROR flags then Some (Ok (remove_connection kr conn w, None))
      else if POLL_IN flags then handle_read got kr sys conn w
      else if POLL_OUT flags then Some (Ok (handle_write wrote kr sys conn w))
      else Some (Ok (w, Some conn)))"

section \<open>The socket\<close>

record 'k ntb_ipc =
  ipc_uid :: nat
  listen_source :: bool
  ipc_world :: "'k ipc_world"
  connections :: "ntb_ipc_connection list"

definition check_credentials :: "'k ntb_ipc \<Rightarrow> nat option \<Rightarrow> bool" where
  "check_credentials ipc peer_uid = (case peer_uid of None \<Rightarrow> False | Some u \<Rightarrow> u = 0 \<or> u = ipc_uid ipc)"

definition new_connection :: "int \<Rightarrow> ntb_ipc_connection" where
  "new_connection fd =
     \<lparr>sock = fd, poll_in = True, poll_out = False, read_finished = False, write_finished = False,
      outbuf = ntb_buffer_init, inbuf = ntb_buffer_init, fd_queue = [], emails = [], tasks = [], response_old_length = 0\<rparr>"

text \<open>The result of \<open>accept\<close> and the user at the other end.\<close>

definition listen_source_cb :: "int option \<Rightarrow> nat option \<Rightarrow> kernel \<Rightarrow> 'k ntb_ipc \<Rightarrow> 'k ntb_ipc" where
  "listen_source_cb accepted peer_uid sys ipc =
     (case accepted of
        None \<Rightarrow> ipc\<lparr>listen_source := False\<rparr>
      | Some fd \<Rightarrow>
          if ntb_socket_set_nonblock sys fd \<noteq> None \<or> \<not> check_credentials ipc peer_uid
          then ipc\<lparr>ipc_world := close_fds [fd] (ipc_world ipc)\<rparr>
          else ipc\<lparr>connections := new_connection fd # connections ipc\<rparr>)"

definition ntb_ipc_free :: "'k keyring_ops \<Rightarrow> int \<Rightarrow> int \<Rightarrow> 'k ntb_ipc \<Rightarrow> 'k ipc_world" where
  "ntb_ipc_free kr listen_sock sock_lock ipc =
     close_fds [listen_sock, sock_lock] (foldl (\<lambda>w conn. remove_connection kr conn w) (ipc_world ipc) (connections ipc))"

text \<open>
  One turn of the main loop: a callback for the socket, for a connection or an email of it, or from the key
  ring when a key is ready.
\<close>

datatype ipc_event =
    Listen "int option" "nat option"
  | Connection nat poll_flags recv_result send_outcome
  | Email nat nat email_read "u8 list"
  | Key nat nat ntb_address

definition put_connection :: "nat \<Rightarrow> 'k ipc_result \<Rightarrow> 'k ntb_ipc \<Rightarrow> 'k ntb_ipc" where
  "put_connection j r ipc =
     (case r of (w, c) \<Rightarrow>
        ipc\<lparr>ipc_world := w,
            connections := (case c of None \<Rightarrow> remove_nth j (connections ipc) | Some conn \<Rightarrow> (connections ipc)[j := conn])\<rparr>)"

fun ipc_step ::
    "address_reader \<Rightarrow> 'b bignum \<Rightarrow> (u8 list \<Rightarrow> u8 list) \<Rightarrow> 'k keyring_ops \<Rightarrow> kernel \<Rightarrow> ipc_event \<Rightarrow> 'k ntb_ipc \<Rightarrow>
     'k ntb_ipc outcome option" where
  "ipc_step rd bn sha512 kr sys (Listen accepted peer_uid) ipc = Some (Ok (listen_source_cb accepted peer_uid sys ipc))"
| "ipc_step rd bn sha512 kr sys (Connection j flags got wrote) ipc =
     map_option (\<lambda>r. bind_outcome r (\<lambda>r. Ok (put_connection j r ipc)))
       (connection_source_cb flags got wrote kr sys (connections ipc ! j) (ipc_world ipc))"
| "ipc_step rd bn sha512 kr sys (Email j i got message) ipc =
     Some (bind_outcome (email_poll_cb rd i got message kr sys (connections ipc ! j) (ipc_world ipc)) (\<lambda>r.
       Ok (put_connection j r ipc)))"
| "ipc_step rd bn sha512 kr sys (Key j i address) ipc =
     map_option (\<lambda>r. bind_outcome r (\<lambda>r. Ok (put_connection j r ipc)))
       (create_key_cb bn sha512 i address kr sys (connections ipc ! j) (ipc_world ipc))"

end
