(* ===== verification/Ntb_Ipc_Email.thy ===== *)
theory Ntb_Ipc_Email
  imports Ntb_Ipc
begin

text \<open>
  From a mail to a message: the parser of \<open>ntb-mail-parser.c\<close> with the callbacks of \<open>ntb-ipc.c\<close> as its
  client. The result does not depend on the pieces in which the mail is read, and what is handed to the
  key ring has a sender, a recipient and the text in the form of the network.
\<close>

section \<open>The client of the parser\<close>

interpretation ipc_mail: mail_client mail_parser_cb
  by unfold_locales
    (auto simp: mail_parser_cb_def mail_parser_data_cb_def mail_parser_address_cb_def split: ntb_mail_parser_event.splits)

text \<open>The email as it is when its command is handled.\<close>

definition fresh_mail :: "ntb_address \<Rightarrow> ntb_ipc_mail" where
  "fresh_mail junk = \<lparr>from_address = junk, to_addresses = [], email_content = [], content_encoding = 1\<rparr>"

fun destinations :: "ntb_mail_parser_event list \<Rightarrow> ntb_address list" where
  "destinations [] = []"
| "destinations (NTB_MAIL_PARSER_EVENT_DESTINATION a # es) = a # destinations es"
| "destinations (e # es) = destinations es"

fun sources :: "ntb_mail_parser_event list \<Rightarrow> ntb_address list" where
  "sources [] = []"
| "sources (NTB_MAIL_PARSER_EVENT_SOURCE a # es) = a # sources es"
| "sources (e # es) = sources es"

fun subjects :: "ntb_mail_parser_event list \<Rightarrow> u8 list list" where
  "subjects [] = []"
| "subjects (NTB_MAIL_PARSER_EVENT_SUBJECT s # es) = s # subjects es"
| "subjects (e # es) = subjects es"

text \<open>The two encodings of a message: without a subject, and with one.\<close>

definition message_text :: "u8 list list \<Rightarrow> u8 list \<Rightarrow> u8 list" where
  "message_text ss body = (case ss of [] \<Rightarrow> body | s # _ \<Rightarrow> str ''Subject:'' @ s @ [0x0a] @ str ''Body:'' @ body)"

definition message_encoding :: "u8 list list \<Rightarrow> int" where
  "message_encoding ss = (if ss = [] then 1 else 2)"

lemma events_append [simp]:
  "destinations (es @ fs) = destinations es @ destinations fs"
  "sources (es @ fs) = sources es @ sources fs"
  "subjects (es @ fs) = subjects es @ subjects fs"
  by (induction es rule: destinations.induct) simp_all

lemma events_counted:
  "length (sources es) = length (filter is_source es)"
  "length (subjects es) = length (filter is_subject es)"
  "destinations es \<noteq> [] \<longleftrightarrow> list_ex is_destination es"
  by (induction es rule: destinations.induct, simp_all)

lemma contents_are_contents [simp]:
  "destinations (map NTB_MAIL_PARSER_EVENT_CONTENT cs) = []"
  "sources (map NTB_MAIL_PARSER_EVENT_CONTENT cs) = []"
  "subjects (map NTB_MAIL_PARSER_EVENT_CONTENT cs) = []"
  by (induction cs) simp_all

lemmas client_defs = mail_parser_cb_def mail_parser_data_cb_def mail_parser_address_cb_def

text \<open>What the headers leave in the email.\<close>

lemma headers_mail:
  assumes "run_events mail_parser_cb es (fresh_mail junk) = Ok v" "\<not> list_ex is_content es" "length (subjects es) \<le> 1"
  shows "v = \<lparr>from_address = last (junk # sources es), to_addresses = destinations es,
    email_content = message_text (subjects es) [], content_encoding = message_encoding (subjects es)\<rparr>"
  using assms
proof (induction es arbitrary: v rule: rev_induct)
  case Nil
  then show ?case by (simp add: fresh_mail_def message_text_def message_encoding_def)
next
  case (snoc e es)
  then obtain u where u: "run_events mail_parser_cb es (fresh_mail junk) = Ok u" "mail_parser_cb e u = Ok v" by auto
  then have "u = \<lparr>from_address = last (junk # sources es), to_addresses = destinations es,
      email_content = message_text (subjects es) [], content_encoding = message_encoding (subjects es)\<rparr>"
    using snoc by simp
  then show ?case using u(2) snoc.prems(2,3)
    by (cases e) (auto simp: client_defs message_text_def message_encoding_def split: list.splits)
qed

lemma contents_mail:
  "run_events mail_parser_cb (map NTB_MAIL_PARSER_EVENT_CONTENT cs) u = Ok (u\<lparr>email_content := email_content u @ concat cs\<rparr>)"
  by (induction cs rule: rev_induct) (simp_all add: client_defs)

lemma run_events_append: "run_events cb (es @ fs) u = bind_outcome (run_events cb es u) (run_events cb fs)"
proof (induction fs rule: rev_induct)
  case Nil
  then show ?case by (cases "run_events cb es u") simp_all
qed (simp add: bind_outcome_assoc flip: append_assoc)

lemma trace_mail:
  assumes "mail_trace mail_parser_cb (fresh_mail junk) mp" "mp_state mp = NTB_MAIL_PARSER_CONTENT"
  shows "\<exists>sender es body. sources es = [sender] \<and> destinations es \<noteq> [] \<and> length (subjects es) \<le> 1 \<and>
    mp_user mp = \<lparr>from_address = sender, to_addresses = destinations es,
      email_content = message_text (subjects es) body, content_encoding = message_encoding (subjects es)\<rparr>"
proof -
  obtain es v cs where es: "headers_reported mail_parser_cb (fresh_mail junk) mp es v" "had_from mp" "has_destination mp"
    "run_events mail_parser_cb (es @ map NTB_MAIL_PARSER_EVENT_CONTENT cs) (fresh_mail junk) = Ok (mp_user mp)"
    using assms by (auto simp: mail_trace_def)
  then have c: "run_events mail_parser_cb es (fresh_mail junk) = Ok v" "\<not> list_ex is_content es" "length (sources es) = 1"
    "length (subjects es) \<le> 1" "destinations es \<noteq> []"
    by (auto simp: headers_reported_def events_counted)
  from c(3) obtain sender where s: "sources es = [sender]" by (auto simp: length_Suc_conv)
  have "mp_user mp = v\<lparr>email_content := email_content v @ concat cs\<rparr>"
    using es(4) c(1) by (simp add: run_events_append contents_mail)
  moreover have "message_text (subjects es) [] @ concat cs = message_text (subjects es) (concat cs)"
    by (simp add: message_text_def split: list.splits)
  ultimately show ?thesis using headers_mail [OF c(1,2,4)] s c(4,5) by fastforce
qed

lemma end_trace:
  assumes "ntb_mail_parser_end cb mp = Ok mp'" "mail_trace cb u mp"
  shows "mail_trace cb u mp' \<and> mp_state mp' = NTB_MAIL_PARSER_CONTENT"
proof -
  have st: "mp_state mp = NTB_MAIL_PARSER_CONTENT" using assms(1) by (simp add: ntb_mail_parser_end_def split: if_splits)
  obtain es v cs where es: "headers_reported cb u mp es v" "run_events cb (es @ map NTB_MAIL_PARSER_EVENT_CONTENT cs) u = Ok (mp_user mp)"
    "had_from mp" "has_destination mp" using assms(2) st by (auto simp: mail_trace_def)
  show ?thesis
  proof (cases "mp' = mp")
    case False
    then obtain out where out: "report cb (NTB_MAIL_PARSER_EVENT_CONTENT out) mp = Ok mp'"
      using assms(1) st by (auto simp: ntb_mail_parser_end_def split: ntb_mail_parser_encoding.splits if_splits)
    then obtain x where x: "cb (NTB_MAIL_PARSER_EVENT_CONTENT out) (mp_user mp) = Ok x" "mp' = mp\<lparr>mp_user := x\<rparr>" by (auto simp: report_def)
    have "headers_reported cb u mp' es v" using es(1) x(2) by (intro headers_reported_frame [OF es(1)]) (simp_all add: has_destination_def)
    moreover have "run_events cb (es @ map NTB_MAIL_PARSER_EVENT_CONTENT (cs @ [out])) u = Ok x"
      using es(2) x(1) by (simp flip: append_assoc)
    ultimately show ?thesis using x(2) st es(3,4)
      by (intro conjI content_traceI [where es = es and cs = "cs @ [out]"]) (simp_all add: has_destination_def)
  qed (use assms(2) st in simp)
qed

text \<open>A mail for the witnesses, with a reader that knows one address.\<close>

definition toy_reader :: address_reader where
  "toy_reader s = (if s = str ''BM-a'' then Ok \<lparr>addr_version = 4, addr_stream = 1, addr_ripe = [7]\<rparr> else Fail)"

definition toy_mail :: "u8 list" where
  "toy_mail = str ''From: BM-a@bitmessage'' @ [0x0d, 0x0a] @ str ''To: A <BM-a@bitmessage>, BM-a@bitmessage'' @ [0x0a] @
     str ''Subject: a'' @ [0x0a] @ str ''  b'' @ [0x0a, 0x0a] @ str ''yes''"

definition toy_parser :: "ntb_ipc_mail ntb_mail_parser" where
  "toy_parser = ntb_mail_parser_new NTB_MAIL_PARSER_SKIP ntb_base64_decode_start (ntb_quoted_printable_decode_start 0 False)
     (fresh_mail \<lparr>addr_version = 0, addr_stream = 0, addr_ripe = []\<rparr>)"

definition toy_accepted :: "u8 list list \<Rightarrow> bool" where
  "toy_accepted ds = (case parse_pieces toy_reader mail_parser_cb toy_parser ds of
     Ok mp \<Rightarrow> (case ntb_mail_parser_end mail_parser_cb mp of Ok mp' \<Rightarrow> True | _ \<Rightarrow> False) | _ \<Rightarrow> False)"

lemma toy_accepted_mail: "toy_accepted [take 70 toy_mail, drop 70 toy_mail]"
  by code_simp

section \<open>Properties\<close>

text \<open>
  C20: the mail parser does not depend on how the mail is cut up: two ways to read the same bytes in pieces
  of at most 512 bytes, the size of the buffer that \<open>email_poll_cb\<close> reads into, leave the same parser and
  the same email, or the same error, wherever the cuts fall: in a header name, between a carriage return
  and its line feed, in an escape or in a group of base 64.
\<close>

theorem mail_in_pieces:
  assumes "concat ds = concat es" "\<forall>d \<in> set ds \<union> set es. length d \<le> 512"
  shows "parse_pieces rd mail_parser_cb (ntb_mail_parser_new h b q mail) ds =
    parse_pieces rd mail_parser_cb (ntb_mail_parser_new h b q mail) es"
  using assms ipc_mail.pieces_run [OF new_decoder] by (metis UnI1 UnI2)



theorem mail_in_pieces_witness:
  "parse_pieces toy_reader mail_parser_cb toy_parser [toy_mail] =
   parse_pieces toy_reader mail_parser_cb toy_parser [take 22 toy_mail, drop 22 toy_mail]"
  unfolding toy_parser_def
  by (rule mail_in_pieces) (simp_all add: toy_mail_def)


end
