(* ===== verification/Ntb_Ipc_Safety.thy ===== *)
theory Ntb_Ipc_Safety
  imports Ntb_Ipc "HOL-Library.Multiset"
begin

text \<open>
  The connections of the local client programs: what every handler keeps of a connection, where the
  descriptors go, and what the daemon does with the commands it reads.
\<close>

section \<open>The invariant of a connection\<close>

text \<open>
  A connection that has not been freed still writes. It polls for input until the client has closed its end
  and for output as long as there is any. After the client has closed its end, there is output left or an
  email or a task that will produce some.
\<close>

definition conn_ok :: "ntb_ipc_connection \<Rightarrow> bool" where
  "conn_ok conn \<longleftrightarrow> buf_ok (outbuf conn) \<and> buf_ok (inbuf conn) \<and> \<not> write_finished conn \<and>
     poll_in conn = (\<not> read_finished conn) \<and> poll_out conn = (0 < buf_length (outbuf conn)) \<and>
     (read_finished conn \<longrightarrow> 0 < buf_length (outbuf conn) \<or> emails conn \<noteq> [] \<or> tasks conn \<noteq> [])"

text \<open>The descriptors that a connection owns.\<close>

definition held_fds :: "ntb_ipc_connection \<Rightarrow> int multiset" where
  "held_fds conn = add_mset (sock conn) (mset (fd_queue conn) + mset (map email_fd (emails conn)))"

definition fds_of :: "'k ipc_result \<Rightarrow> int multiset" where
  "fds_of r = mset (closed (fst r)) + (case snd r of None \<Rightarrow> {#} | Some conn \<Rightarrow> held_fds conn)"

text \<open>What a handler may leave of a connection and the world, with new descriptors.\<close>

definition result_ok :: "int multiset \<Rightarrow> ntb_ipc_connection \<Rightarrow> 'k ipc_world \<Rightarrow> 'k ipc_result \<Rightarrow> bool" where
  "result_ok new conn w r \<longleftrightarrow> fds_of r = mset (closed w) + held_fds conn + new \<and> (\<forall>c. snd r = Some c \<longrightarrow> conn_ok c)"

lemma closed_close_fds [simp]: "closed (close_fds fds w) = closed w @ fds"
  by (simp add: close_fds_def)

lemma closed_remove_emails [simp]: "closed (remove_emails conn w) = closed w @ map email_fd (emails conn)"
proof -
  have "closed (foldl (\<lambda>w email. close_fds [email_fd email] w) w es) = closed w @ map email_fd es" for es
    by (induction es arbitrary: w) auto
  then show ?thesis by (simp add: remove_emails_def)
qed

lemma closed_cancel_tasks [simp]: "closed (cancel_tasks kr conn w) = closed w"
proof -
  have "closed (foldl (\<lambda>w task. w\<lparr>ipc_keyring := ntb_keyring_cancel_task kr (ipc_keyring w) (keyring_cookie task)\<rparr>) w ts) = closed w" for ts
    by (induction ts arbitrary: w) auto
  then show ?thesis by (simp add: cancel_tasks_def)
qed

lemma remove_connection_fds [simp]: "mset (closed (remove_connection kr conn w)) = mset (closed w) + held_fds conn"
  by (simp add: remove_connection_def close_fd_queue_def held_fds_def)

lemma result_removed [simp]: "result_ok {#} conn w (remove_connection kr conn w, None)"
  by (simp add: result_ok_def fds_of_def)

lemma result_connection:
  "result_ok new conn w (w', Some c) \<longleftrightarrow> mset (closed w') + held_fds c = mset (closed w) + held_fds conn + new \<and> conn_ok c"
  by (simp add: result_ok_def fds_of_def)

lemma update_poll_ok:
  assumes "buf_ok (outbuf conn)" "buf_ok (inbuf conn)" "\<not> write_finished conn"
  shows "result_ok {#} conn w (update_poll kr sys conn w)"
proof (cases "read_finished conn \<and> buf_length (outbuf conn) = 0 \<and> emails conn = [] \<and> tasks conn = []")
  case True
  have "held_fds (conn\<lparr>write_finished := True\<rparr>) = held_fds conn" by (simp add: held_fds_def)
  then show ?thesis using True assms by (simp add: update_poll_def result_ok_def fds_of_def)
next
  case False
  then have "update_poll kr sys conn w =
      (w, Some (conn\<lparr>poll_in := \<not> read_finished conn, poll_out := 0 < buf_length (outbuf conn)\<rparr>))"
    using assms by (auto simp: update_poll_def)
  then show ?thesis using assms False by (auto simp: result_connection conn_ok_def held_fds_def)
qed

section \<open>Responses\<close>

text \<open>A response leaves the connection as it is, with output to write.\<close>

definition responded :: "ntb_ipc_connection \<Rightarrow> ntb_ipc_connection \<Rightarrow> bool" where
  "responded conn c \<longleftrightarrow> (\<exists>b n. buf_ok b \<and> 0 < buf_length b \<and>
     c = conn\<lparr>outbuf := b, response_old_length := n, poll_in := \<not> read_finished conn, poll_out := True\<rparr>)"

lemma end_command_ok:
  assumes "buf_ok b" "start + 20 \<le> buf_length b"
  shows "buf_ok (ntb_ipc_proto_end_command b start) \<and> buf_length (ntb_ipc_proto_end_command b start) = buf_length b"
  using assms by (simp add: ntb_ipc_proto_end_command_def Let_def buf_ok_def)

lemma response_begun:
  assumes "buf_ok (outbuf conn)"
  shows "\<exists>b fill. begin_send_response request_id status conn = conn\<lparr>response_old_length := buf_length (outbuf conn), outbuf := b\<rparr> \<and>
    buf_ok b \<and> length fill = 4 \<and> contents b = contents (outbuf conn) @ map Some (ipc_header ''response'' request_id) @ fill @
      map Some (be_bytes 4 (unat (status_code status)))"
proof -
  let ?b = "ntb_ipc_proto_begin_command (outbuf conn) ''response'' request_id"
  obtain fill where "buf_ok ?b" "length fill = 4" "contents ?b = contents (outbuf conn) @ map Some (ipc_header ''response'' request_id) @ fill"
    using ipc_begin_eq [OF assms, of "''response''" request_id] by auto
  then show ?thesis
    by (intro exI [of _ "ntb_proto_add_32 ?b (status_code status)"] exI [of _ fill])
      (simp add: begin_send_response_def ntb_proto_add_32_def ntb_contents)
qed

text \<open>Whatever is appended between the two calls, the response is sent and the connection stays.\<close>

lemma response_ended:
  assumes "buf_ok (outbuf conn)" "\<not> write_finished conn" "begin_send_response request_id status conn = c"
    "buf_ok b" "contents b = contents (outbuf c) @ map Some payload"
  shows "\<exists>c'. end_send_response kr sys (c\<lparr>outbuf := b\<rparr>) w = (w, Some c') \<and> responded conn c' \<and>
    (length payload + 4 < 2 ^ 32 \<longrightarrow> contents (outbuf c') = contents (outbuf conn) @
       map Some (ipc_frame ''response'' request_id (be_bytes 4 (unat (status_code status)) @ payload)))"
proof -
  obtain b0 fill where b0: "c = conn\<lparr>response_old_length := buf_length (outbuf conn), outbuf := b0\<rparr>" "buf_ok b0" "length fill = 4"
    "contents b0 = contents (outbuf conn) @ map Some (ipc_header ''response'' request_id) @ fill @ map Some (be_bytes 4 (unat (status_code status)))"
    using response_begun [OF assms(1), of request_id status] assms(3) by auto
  let ?e = "ntb_ipc_proto_end_command b (buf_length (outbuf conn))"
  have con: "contents b = contents (outbuf conn) @ map Some (ipc_header ''response'' request_id) @ fill @
      map Some (be_bytes 4 (unat (status_code status)) @ payload)"
    using assms(5) b0 by simp
  have len: "buf_length (outbuf conn) + 20 \<le> buf_length b"
    using arg_cong [OF con, of length] assms(1,4) b0(3) length_ipc_header [of "''response''" request_id] by simp
  note e = end_command_ok [OF assms(4) len]
  let ?c = "conn\<lparr>outbuf := ?e, response_old_length := buf_length (outbuf conn), poll_in := \<not> read_finished conn, poll_out := True\<rparr>"
  have "0 < buf_length ?e" using e len by simp
  then have "end_send_response kr sys (c\<lparr>outbuf := b\<rparr>) w = (w, Some ?c)"
    using b0(1) assms(2) by (simp add: end_send_response_def update_poll_def)
  moreover have "responded conn ?c" unfolding responded_def using e \<open>0 < buf_length ?e\<close> by blast
  moreover have "contents ?e = contents (outbuf conn) @ map Some (ipc_frame ''response'' request_id (be_bytes 4 (unat (status_code status)) @ payload))"
    if "length payload + 4 < 2 ^ 32"
    using ipc_end_eq [OF assms(4) con b0(3)] that assms(1) by simp
  ultimately show ?thesis by auto
qed

lemma send_response_eq:
  assumes "buf_ok (outbuf conn)" "\<not> write_finished conn"
  shows "\<exists>c. send_response request_id status message kr sys conn w = (w, Some c) \<and> responded conn c \<and>
    (length message + 4 < 2 ^ 32 \<longrightarrow> contents (outbuf c) = contents (outbuf conn) @
       map Some (ipc_frame ''response'' request_id (be_bytes 4 (unat (status_code status)) @ message)))"
proof -
  let ?c = "begin_send_response request_id status conn"
  obtain b fill where "?c = conn\<lparr>response_old_length := buf_length (outbuf conn), outbuf := b\<rparr>" "buf_ok b"
    using response_begun [OF assms(1), of request_id status] by blast
  then have "buf_ok (outbuf ?c)" by simp
  from append_vprintf_eq [OF this, of message] response_ended [OF assms refl, of "ntb_buffer_append_vprintf (outbuf ?c) message" _ _ message kr sys w]
  show ?thesis unfolding send_response_def Let_def by blast
qed

lemma send_empty_response:
  assumes "buf_ok (outbuf conn)" "\<not> write_finished conn"
  shows "\<exists>c. end_send_response kr sys (begin_send_response request_id status conn) w = (w, Some c) \<and> responded conn c \<and>
    contents (outbuf c) = contents (outbuf conn) @ map Some (ipc_frame ''response'' request_id (be_bytes 4 (unat (status_code status))))"
proof -
  let ?c = "begin_send_response request_id status conn"
  have "buf_ok (outbuf ?c)" using response_begun [OF assms(1), of request_id status] by auto
  then show ?thesis using response_ended [OF assms, of request_id status ?c "outbuf ?c" "[]" kr sys w] by simp
qed

lemma responded_ok:
  assumes "responded conn c" "buf_ok (inbuf conn)" "\<not> write_finished conn"
  shows "conn_ok c \<and> held_fds c = held_fds conn \<and> 0 < buf_length (outbuf c) \<and> emails c = emails conn \<and> tasks c = tasks conn \<and>
    sock c = sock conn \<and> fd_queue c = fd_queue conn \<and> inbuf c = inbuf conn \<and> read_finished c = read_finished conn"
  using assms by (auto simp: responded_def conn_ok_def held_fds_def)

lemma send_response_ok:
  assumes "conn_ok conn"
  obtains c where "send_response request_id status message kr sys conn w = (w, Some c)" "responded conn c"
    "result_ok {#} conn w (send_response request_id status message kr sys conn w)"
proof -
  have "buf_ok (outbuf conn)" "\<not> write_finished conn" "buf_ok (inbuf conn)" using assms by (simp_all add: conn_ok_def)
  then show thesis using send_response_eq [of conn request_id status message kr sys w] responded_ok [of conn] that
    by (auto simp: result_connection)
qed

lemma result_ok_trans:
  "result_ok new conn w (w', Some c) \<Longrightarrow> result_ok {#} c w' r \<Longrightarrow> result_ok new conn w r"
  by (simp add: result_ok_def fds_of_def)

section \<open>Emails\<close>

lemma mset_remove_nth: "i < length xs \<Longrightarrow> mset xs = add_mset (xs ! i) (mset (remove_nth i xs))"
  by (subst id_take_nth_drop [of i xs]) (simp_all add: remove_nth_def)

lemma remove_email_ok:
  assumes "conn_ok c" "0 < buf_length (outbuf c)" "i < length (emails c)"
  shows "\<exists>r. then_remove_email i (w, Some c) = Ok r \<and> result_ok {#} c w r"
  using assms mset_remove_nth [OF assms(3)]
  by (auto simp: then_remove_email_def remove_email_def result_connection conn_ok_def held_fds_def)

lemma response_and_remove_ok:
  assumes "conn_ok conn" "i < length (emails conn)"
  shows "\<exists>r. then_remove_email i (send_response request_id status message kr sys conn w) = Ok r \<and> result_ok {#} conn w r"
proof -
  obtain c where c: "send_response request_id status message kr sys conn w = (w, Some c)" "responded conn c"
    "result_ok {#} conn w (send_response request_id status message kr sys conn w)"
    by (rule send_response_ok [OF assms(1)])
  have ok: "conn_ok c" "0 < buf_length (outbuf c)" "i < length (emails c)"
    using responded_ok [OF c(2)] assms by (simp_all add: conn_ok_def)
  from remove_email_ok [OF ok, of w] show ?thesis using c(1,3) result_ok_trans by metis
qed

text \<open>The world and the parts of a connection that the invariant does not speak of.\<close>

lemma same_fds_ok:
  assumes "result_ok new c w' r" "closed w' = closed w" "held_fds c = held_fds conn"
  shows "result_ok new conn w r"
  using assms by (simp add: result_ok_def)

lemma update_email_ok:
  assumes "conn_ok conn" "i < length (emails conn)" "email_fd email = email_fd (emails conn ! i)"
  shows "conn_ok (conn\<lparr>emails := (emails conn)[i := email]\<rparr>) \<and> held_fds (conn\<lparr>emails := (emails conn)[i := email]\<rparr>) = held_fds conn"
proof -
  have "map email_fd ((emails conn)[i := email]) = map email_fd (emails conn)"
    using assms(2,3) by (simp add: map_update) (metis list_update_id nth_map)
  then show ?thesis using assms by (auto simp: conn_ok_def held_fds_def)
qed

lemma send_email_ok:
  assumes "conn_ok conn" "i < length (emails conn)"
  shows "\<exists>r. then_remove_email i (send_email i kr sys conn w) = Ok r \<and> result_ok {#} conn w r"
proof -
  let ?email = "emails conn ! i"
  let ?mail = "mp_user (email_parser ?email)"
  define email where "email = ?email\<lparr>email_parser := (email_parser ?email)\<lparr>mp_user := ?mail\<lparr>email_content := []\<rparr>\<rparr>\<rparr>"
  define c where "c = conn\<lparr>emails := (emails conn)[i := email]\<rparr>"
  obtain k res where k: "ntb_keyring_send_message kr (ipc_keyring w) (from_address ?mail) (to_addresses ?mail)
      (content_encoding ?mail) (email_content ?mail) = (k, res)" by fastforce
  have c: "conn_ok c" "held_fds c = held_fds conn" "i < length (emails c)"
    using update_email_ok [OF assms, of email] assms(2) by (simp_all add: c_def email_def)
  have "buf_ok (outbuf c)" "\<not> write_finished c" "buf_ok (inbuf c)" using c(1) by (simp_all add: conn_ok_def)
  then have success: "\<exists>r. then_remove_email i (end_send_response kr sys (begin_send_response id NTB_IPC_PROTO_STATUS_SUCCESS c) v) = Ok r \<and>
      result_ok {#} c v r" for id v
  proof -
    obtain c' where c': "end_send_response kr sys (begin_send_response id NTB_IPC_PROTO_STATUS_SUCCESS c) v = (v, Some c')" "responded c c'"
      using send_empty_response [OF \<open>buf_ok (outbuf c)\<close> \<open>\<not> write_finished c\<close>] by blast
    note r = responded_ok [OF c'(2) \<open>buf_ok (inbuf c)\<close> \<open>\<not> write_finished c\<close>]
    then show ?thesis using remove_email_ok [of c' i v] c(3) c'(1) same_fds_ok [of "{#}" c' v _ v c] by auto
  qed
  have "\<exists>r. then_remove_email i (send_email i kr sys conn w) = Ok r \<and> result_ok {#} c (w\<lparr>ipc_keyring := k\<rparr>) r"
    using k success [of _ "w\<lparr>ipc_keyring := k\<rparr>"] response_and_remove_ok [OF c(1,3)]
    by (cases res) (simp_all add: send_email_def Let_def flip: email_def c_def)
  then show ?thesis using same_fds_ok [of "{#}" c "w\<lparr>ipc_keyring := k\<rparr>" _ w conn] c(2) by auto
qed

text \<open>
  The email handler touches the email for the last time when it removes it: it can only leave the memory
  where the parser does.
\<close>

lemma email_poll_ok:
  assumes "conn_ok conn" "i < length (emails conn)"
  shows "(\<exists>r. email_poll_cb rd i got message kr sys conn w = Ok r \<and> result_ok {#} conn w r) \<or>
    email_poll_cb rd i got message kr sys conn w = Fault \<and>
      (case got of Email_Error \<Rightarrow> False
       | Email_Eof \<Rightarrow> ntb_mail_parser_end mail_parser_cb (email_parser (emails conn ! i)) = Fault
       | Email_Bytes bytes \<Rightarrow> ntb_mail_parser_parse rd mail_parser_cb (email_parser (emails conn ! i)) bytes = Fault)"
proof (cases got)
  case Email_Error
  then show ?thesis using response_and_remove_ok [OF assms] by (simp add: email_poll_cb_def Let_def)
next
  case Email_Eof
  show ?thesis
  proof (cases "ntb_mail_parser_end mail_parser_cb (email_parser (emails conn ! i))")
    case (Ok mp)
    let ?c = "conn\<lparr>emails := (emails conn)[i := (emails conn ! i)\<lparr>email_parser := mp\<rparr>]\<rparr>"
    have "conn_ok ?c" "held_fds ?c = held_fds conn" "i < length (emails ?c)"
      using update_email_ok [OF assms, of "(emails conn ! i)\<lparr>email_parser := mp\<rparr>"] assms(2) by simp_all
    then show ?thesis using Email_Eof Ok send_email_ok [of ?c i kr sys w] same_fds_ok [of "{#}" ?c w _ w conn]
      by (auto simp: email_poll_cb_def Let_def)
  qed (use Email_Eof response_and_remove_ok [OF assms] in \<open>simp_all add: email_poll_cb_def Let_def\<close>)
next
  case (Email_Bytes bytes)
  show ?thesis
  proof (cases "ntb_mail_parser_parse rd mail_parser_cb (email_parser (emails conn ! i)) bytes")
    case (Ok mp)
    then show ?thesis using Email_Bytes update_email_ok [OF assms, of "(emails conn ! i)\<lparr>email_parser := mp\<rparr>"]
      by (simp add: email_poll_cb_def Let_def result_connection)
  qed (use Email_Bytes response_and_remove_ok [OF assms] in \<open>simp_all add: email_poll_cb_def Let_def\<close>)
qed

section \<open>Commands\<close>

lemma email_command_ok:
  assumes "conn_ok conn"
  shows "result_ok {#} conn w (handle_email_command request_id kr sys conn w) \<and>
    (\<exists>c. snd (handle_email_command request_id kr sys conn w) = Some c)"
proof (cases "fd_queue conn")
  case Nil
  obtain c where "send_response request_id NTB_IPC_PROTO_STATUS_INVALID_COMMAND
      (str ''email command was sent without a file descriptor argument'') kr sys conn w = (w, Some c)"
    "result_ok {#} conn w (send_response request_id NTB_IPC_PROTO_STATUS_INVALID_COMMAND
      (str ''email command was sent without a file descriptor argument'') kr sys conn w)"
    by (rule send_response_ok [OF assms])
  then show ?thesis using Nil by (simp add: handle_email_command_def del: str_simps)
next
  case (Cons fd fds)
  let ?c = "conn\<lparr>fd_queue := fds\<rparr>"
  have c: "conn_ok ?c" "held_fds conn = add_mset fd (held_fds ?c)" using assms Cons by (simp_all add: conn_ok_def held_fds_def)
  show ?thesis
  proof (cases "ntb_socket_set_nonblock sys fd")
    case None
    then show ?thesis using Cons c
      by (auto simp: handle_email_command_def get_fd_def Let_def result_connection conn_ok_def held_fds_def)
  next
    case (Some message)
    obtain c' where "send_response request_id NTB_IPC_PROTO_STATUS_FD_ERROR message kr sys ?c w = (w, Some c')"
      "result_ok {#} ?c w (send_response request_id NTB_IPC_PROTO_STATUS_FD_ERROR message kr sys ?c w)"
      by (rule send_response_ok [OF c(1)])
    then show ?thesis using Cons Some c(2)
      by (simp add: handle_email_command_def get_fd_def result_connection)
  qed
qed

lemma respond_stays:
  assumes "conn_ok conn"
  shows "result_ok {#} conn w (send_response request_id status message kr sys conn w) \<and>
    (\<exists>c. snd (send_response request_id status message kr sys conn w) = Some c)"
proof -
  obtain c where "send_response request_id status message kr sys conn w = (w, Some c)"
    "result_ok {#} conn w (send_response request_id status message kr sys conn w)"
    by (rule send_response_ok [OF assms])
  then show ?thesis by (metis snd_conv)
qed

lemma keygen_command_ok:
  assumes "conn_ok conn" "handle_keygen_command request_id data command_length kr sys conn w = Ok r"
  shows "result_ok {#} conn w r \<and> (\<exists>c. snd r = Some c)"
proof -
  have task: "result_ok {#} conn w (w\<lparr>ipc_keyring := k\<rparr>, Some (conn\<lparr>tasks := t # tasks conn\<rparr>))" for k t
    using assms(1) by (simp add: result_connection conn_ok_def held_fds_def)
  show ?thesis
    using assms(2)
    by (auto simp: handle_keygen_command_def Let_def task respond_stays [OF assms(1)] simp del: str_simps
        split: outcome.splits list.splits arg_value.splits prod.splits if_splits)
qed

lemma process_command_ok:
  assumes "conn_ok conn" "process_command data command_length kr sys conn w = Ok r"
  shows "result_ok {#} conn w r \<and> (\<exists>c. snd r = Some c)"
proof -
  obtain request_id where "(if c_string data = str ''email'' then Ok (handle_email_command request_id kr sys conn w)
     else if c_string data = str ''keygen'' then handle_keygen_command request_id (drop 20 data) command_length kr sys conn w
     else Ok (send_response request_id NTB_IPC_PROTO_STATUS_INVALID_COMMAND (unknown_command (c_string data)) kr sys conn w)) = Ok r"
    using assms(2) unfolding process_command_def by (simp only: bind_outcome_Ok_iff) blast
  then show ?thesis
    using email_command_ok [OF assms(1), of w request_id kr sys] keygen_command_ok [OF assms(1)]
      respond_stays [OF assms(1), of w request_id _ _ kr sys]
    by (simp only: outcome.inject split: if_splits) blast+
qed

lemma result_ok_refl: "conn_ok conn \<Longrightarrow> result_ok {#} conn w (w, Some conn)"
  by (simp add: result_connection)

text \<open>The loop, whenever it ends; the connection that it returns goes on, unless a name was not valid.\<close>

lemma process_loop_ok:
  assumes "process_loop kr sys data n conn w = Some res"
  shows "conn_ok conn \<longrightarrow> (\<forall>r ended. res = Ok (r, ended) \<longrightarrow> result_ok {#} conn w r)"
proof (rule process_loop.raw_induct [where P = "\<lambda>kr sys data n conn w res.
    conn_ok conn \<longrightarrow> (\<forall>r ended. res = Ok (r, ended) \<longrightarrow> result_ok {#} conn w r)", OF _ assms], intro impI allI)
  fix loop kr sys data n conn w res r ended
  assume IH: "\<And>kr sys data n conn w res. loop kr sys data n conn w = Some res \<Longrightarrow>
      conn_ok conn \<longrightarrow> (\<forall>r ended. res = Ok (r, ended) \<longrightarrow> result_ok {#} conn w r)"
    and ok: "conn_ok conn" and res: "res = Ok (r, ended)"
    and run: "(if n < 20 then Some (Ok ((w, Some conn), True))
      else
        case ntb_proto_get_32 (drop 16 data) of
          Fault \<Rightarrow> Some Fault
        | Fail \<Rightarrow> Some Fail
        | Ok command_length \<Rightarrow>
            if n < unat (command_length + 20) then Some (Ok ((w, Some conn), True))
            else if \<not> ntb_proto_check_command_string data then Some (Ok ((remove_connection kr conn w, None), False))
            else
              case process_command data command_length kr sys conn w of
                Fault \<Rightarrow> Some Fault
              | Fail \<Rightarrow> Some Fail
              | Ok (w, None) \<Rightarrow> Some (Ok ((w, None), False))
              | Ok (w, Some conn) \<Rightarrow>
                  loop kr sys (drop (unat (command_length + 20)) data) (n - unat (command_length + 20)) conn w) = Some res"
  show "result_ok {#} conn w r"
  proof (cases "n < 20")
    case True
    then show ?thesis using run res ok by (auto simp: result_ok_refl)
  next
    case False
    then obtain len where len: "ntb_proto_get_32 (drop 16 data) = Ok len" using run res by (auto split: outcome.splits)
    consider "n < unat (len + 20)" | "\<not> n < unat (len + 20)" "\<not> ntb_proto_check_command_string data"
      | (command) "\<not> n < unat (len + 20)" "ntb_proto_check_command_string data" by blast
    then show ?thesis
    proof cases
      case command
      then obtain w' c where c: "process_command data len kr sys conn w = Ok (w', c)"
        using run res False len by (auto split: outcome.splits)
      then obtain c' where c': "c = Some c'" "result_ok {#} conn w (w', Some c')"
        using process_command_ok [OF ok c] by auto
      then have "loop kr sys (drop (unat (len + 20)) data) (n - unat (len + 20)) c' w' = Some res"
        using run command False len c by simp
      from IH [OF this] have "result_ok {#} c' w' r" using c'(2) res by (simp add: result_connection)
      then show ?thesis using c'(2) result_ok_trans by blast
    qed (use run res False len ok in \<open>auto simp: result_ok_refl\<close>)
  qed
qed

lemma process_commands_ok:
  assumes "conn_ok conn" "process_commands kr sys conn w = Some (Ok r)"
  shows "result_ok {#} conn w r"
proof -
  obtain w' c ended where l: "process_loop kr sys (memory_of (inbuf conn)) (buf_length (inbuf conn)) conn w = Some (Ok ((w', c), ended))"
    "(case c of
        Some conn \<Rightarrow>
          if ended \<and> buf_length (inbuf conn) = 0
          then (case close_fd_queue conn w' of (w, conn) \<Rightarrow> Ok (w, Some conn)) else Ok (w', Some conn)
      | None \<Rightarrow> Ok (w', None)) = Ok r"
    using assms(2) by (auto simp: process_commands_def)
  have "result_ok {#} conn w (w', c)" using process_loop_ok [OF l(1)] assms(1) by blast
  moreover have close: "result_ok {#} c' w' (close_fds (fd_queue c') w', Some (c'\<lparr>fd_queue := []\<rparr>))" if "conn_ok c'" for c'
    using that by (simp add: result_connection held_fds_def conn_ok_def)
  ultimately show ?thesis
  proof (cases c)
    case (Some c')
    then have "result_ok {#} c' w' r"
      using l(2) \<open>result_ok {#} conn w (w', c)\<close> close [of c']
      by (auto simp: close_fd_queue_def result_connection split: if_splits)
    then show ?thesis using result_ok_trans \<open>result_ok {#} conn w (w', c)\<close> Some by blast
  qed (use l(2) in simp)
qed

text \<open>The descriptors that come with the bytes are the only new ones.\<close>

fun received_fds :: "recv_result \<Rightarrow> int multiset" where
  "received_fds (Recv bytes fds) = mset fds"
| "received_fds got = {#}"

lemma handle_read_ok:
  assumes "conn_ok conn" "handle_read got kr sys conn w = Some (Ok r)"
  shows "result_ok (received_fds got) conn w r"
proof -
  define c where "c = conn\<lparr>inbuf := ntb_buffer_ensure_size (inbuf conn) (buf_length (inbuf conn) + 128)\<rparr>"
  have c: "conn_ok c" "held_fds c = held_fds conn" using assms(1) by (auto simp: c_def conn_ok_def held_fds_def)
  have "result_ok (received_fds got) c w r"
  proof (cases got)
    case (Recv bytes fds)
    let ?d = "process_control_data fds c"
    have d: "buf_ok (inbuf ?d)" "buf_ok (outbuf ?d)" "\<not> write_finished ?d" "held_fds ?d = held_fds c + mset fds"
      using c(1) by (simp_all add: process_control_data_def conn_ok_def held_fds_def)
    show ?thesis
    proof (cases "bytes = []")
      case True
      let ?e = "?d\<lparr>read_finished := True\<rparr>"
      have "held_fds ?e = held_fds c + mset fds" using d(4) by (simp add: held_fds_def)
      then show ?thesis using True Recv assms(2) d update_poll_ok [of ?e w kr sys]
        by (simp add: handle_read_def Let_def c_def [symmetric] result_ok_def)
    next
      case False
      then obtain b where b: "deposit (inbuf ?d) bytes = Ok b" "process_commands kr sys (?d\<lparr>inbuf := b\<rparr>) w = Some (Ok r)"
        using Recv assms(2) by (auto simp: handle_read_def Let_def c_def [symmetric] split: outcome.splits)
      then have "buf_ok b" using d(1) by (auto simp: deposit_def buf_ok_def split: if_splits)
      then have "conn_ok (?d\<lparr>inbuf := b\<rparr>)" using c(1) by (simp add: conn_ok_def process_control_data_def)
      from process_commands_ok [OF this b(2)] show ?thesis
        using Recv d(4) by (simp add: result_ok_def held_fds_def)
    qed
  qed (use assms(2) c in \<open>auto simp: handle_read_def Let_def c_def [symmetric] result_ok_refl\<close>)
  then show ?thesis using c(2) by (simp add: result_ok_def)
qed

lemma handle_write_ok:
  assumes "conn_ok conn"
  shows "result_ok {#} conn w (handle_write wrote kr sys conn w)"
proof (cases wrote)
  case (Wrote n)
  let ?b = "outbuf conn"
  let ?left = "buf_length ?b - n"
  define b where "b = ?b\<lparr>buf_data := write_at 0 (take ?left (drop n (buf_data ?b))) (buf_data ?b), buf_length := ?left\<rparr>"
  have "buf_ok b" using assms by (auto simp: b_def conn_ok_def buf_ok_def)
  then have "result_ok {#} (conn\<lparr>outbuf := b\<rparr>) w (update_poll kr sys (conn\<lparr>outbuf := b\<rparr>) w)"
    using assms by (intro update_poll_ok) (simp_all add: conn_ok_def)
  moreover have "held_fds (conn\<lparr>outbuf := b\<rparr>) = held_fds conn" by (simp add: held_fds_def)
  ultimately show ?thesis using Wrote by (simp add: handle_write_def Let_def b_def [symmetric] result_ok_def)
qed (use assms in \<open>simp_all add: handle_write_def result_ok_refl\<close>)

definition connection_fds :: "poll_flags \<Rightarrow> recv_result \<Rightarrow> int multiset" where
  "connection_fds flags got = (if \<not> POLL_ERROR flags \<and> POLL_IN flags then received_fds got else {#})"

lemma connection_source_ok:
  assumes "conn_ok conn" "connection_source_cb flags got wrote kr sys conn w = Some (Ok r)"
  shows "result_ok (connection_fds flags got) conn w r"
  using assms handle_read_ok [OF assms(1), of got kr sys w r] handle_write_ok [OF assms(1)]
  by (auto simp: connection_source_cb_def connection_fds_def result_ok_refl split: if_splits)

text \<open>The payload of the response that announces a new key.\<close>

definition key_payload :: "ntb_address \<Rightarrow> u8 list \<Rightarrow> u8 list" where
  "key_payload address address_string =
     var_int_bytes (ucast (addr_version address)) @ var_int_bytes (ucast (addr_stream address)) @ addr_ripe address @
     arg_bytes 0 (AVarStr address_string)"

lemma create_key_eq:
  assumes "conn_ok conn" "ntb_address_encode bn sha512 address = Some (Ok address_string)"
  shows "\<exists>c. create_key_cb bn sha512 i address kr sys conn w = Some (Ok (w, Some c)) \<and>
    responded (conn\<lparr>tasks := remove_nth i (tasks conn)\<rparr>) c \<and>
    (length (key_payload address address_string) + 4 < 2 ^ 32 \<longrightarrow> contents (outbuf c) = contents (outbuf conn) @
      map Some (ipc_frame ''response'' (task_request_id (tasks conn ! i)) (be_bytes 4 0 @ key_payload address address_string)))"
proof -
  let ?request_id = "task_request_id (tasks conn ! i)"
  define c where "c = conn\<lparr>tasks := remove_nth i (tasks conn)\<rparr>"
  define d where "d = begin_send_response ?request_id NTB_IPC_PROTO_STATUS_SUCCESS c"
  define b where "b = ntb_proto_add_var_str (ntb_buffer_append (ntb_proto_add_var_int (ntb_proto_add_var_int (outbuf d)
      (ucast (addr_version address))) (ucast (addr_stream address))) (addr_ripe address)) address_string"
  have c: "buf_ok (outbuf c)" "\<not> write_finished c" "outbuf c = outbuf conn" using assms(1) by (simp_all add: c_def conn_ok_def)
  have "buf_ok (outbuf d)" unfolding d_def using response_begun [OF c(1), of ?request_id NTB_IPC_PROTO_STATUS_SUCCESS] by auto
  then have b: "buf_ok b" "contents b = contents (outbuf d) @ map Some (key_payload address address_string)"
    by (simp_all add: b_def key_payload_def ntb_proto_add_var_str_def Let_def ntb_contents)
  have "create_key_cb bn sha512 i address kr sys conn w = Some (Ok (end_send_response kr sys (d\<lparr>outbuf := b\<rparr>) w))"
    using assms(2) by (simp add: create_key_cb_def Let_def d_def b_def c_def)
  then show ?thesis using response_ended [OF c(1,2) d_def [symmetric] b, of kr sys w] c(3) by (simp add: c_def [symmetric])
qed

lemma create_key_ok:
  assumes "conn_ok conn" "create_key_cb bn sha512 i address kr sys conn w = Some (Ok r)"
  shows "result_ok {#} conn w r"
proof -
  let ?c = "conn\<lparr>tasks := remove_nth i (tasks conn)\<rparr>"
  obtain address_string where "ntb_address_encode bn sha512 address = Some (Ok address_string)"
    using assms(2) by (auto simp: create_key_cb_def Let_def)
  then obtain c' where "r = (w, Some c')" "responded ?c c'" using create_key_eq [OF assms(1), of bn sha512 address address_string i kr sys w] assms(2) by auto
  then show ?thesis using responded_ok [of ?c c'] assms(1) by (simp add: result_connection conn_ok_def held_fds_def)
qed

section \<open>The daemon\<close>

definition ipc_fds :: "'k ntb_ipc \<Rightarrow> int multiset" where
  "ipc_fds ipc = mset (closed (ipc_world ipc)) + \<Sum>\<^sub># (image_mset held_fds (mset (connections ipc)))"

fun event_fds :: "ipc_event \<Rightarrow> int multiset" where
  "event_fds (Listen (Some fd) peer_uid) = {#fd#}"
| "event_fds (Connection j flags got wrote) = connection_fds flags got"
| "event_fds e = {#}"

text \<open>A callback is for a connection, an email or a task that is there.\<close>

fun event_enabled :: "'k ntb_ipc \<Rightarrow> ipc_event \<Rightarrow> bool" where
  "event_enabled ipc (Listen accepted peer_uid) \<longleftrightarrow> listen_source ipc"
| "event_enabled ipc (Connection j flags got wrote) \<longleftrightarrow> j < length (connections ipc)"
| "event_enabled ipc (Email j i got message) \<longleftrightarrow> j < length (connections ipc) \<and> i < length (emails (connections ipc ! j))"
| "event_enabled ipc (Key j i address) \<longleftrightarrow> j < length (connections ipc) \<and> i < length (tasks (connections ipc ! j))"

text \<open>
  The daemon runs for any sequence of callbacks that return, whatever the kernel answers in each of them.
  The multiset collects the descriptors that the kernel has handed out.
\<close>

inductive ipc_run ::
    "address_reader \<Rightarrow> 'b bignum \<Rightarrow> (u8 list \<Rightarrow> u8 list) \<Rightarrow> 'k keyring_ops \<Rightarrow> 'k ntb_ipc \<Rightarrow> int multiset \<Rightarrow> 'k ntb_ipc \<Rightarrow> bool"
  for rd bn sha512 kr start where
  ipc_start: "ipc_run rd bn sha512 kr start {#} start"
| ipc_event: "ipc_run rd bn sha512 kr start fds ipc \<Longrightarrow> event_enabled ipc e \<Longrightarrow>
    ipc_step rd bn sha512 kr sys e ipc = Some (Ok ipc') \<Longrightarrow> ipc_run rd bn sha512 kr start (fds + event_fds e) ipc'"

lemma mset_update_nth: "j < length xs \<Longrightarrow> mset (xs[j := x]) = add_mset x (mset (remove_nth j xs))"
  by (simp add: remove_nth_def upd_conv_take_nth_drop)

lemma set_remove_nth: "set (remove_nth j xs) \<subseteq> set xs"
  using set_take_subset set_drop_subset by (fastforce simp: remove_nth_def)

lemma put_connection_ok:
  assumes "j < length (connections ipc)" "\<forall>c \<in> set (connections ipc). conn_ok c"
    "result_ok new (connections ipc ! j) (ipc_world ipc) r"
  shows "(\<forall>c \<in> set (connections (put_connection j r ipc)). conn_ok c) \<and> ipc_fds (put_connection j r ipc) = ipc_fds ipc + new"
proof -
  obtain w c where r: "r = (w, c)" by (cases r)
  show ?thesis
  proof (cases c)
    case None
    then show ?thesis using assms r set_remove_nth [of j "connections ipc"] mset_remove_nth [OF assms(1)]
      by (auto simp: put_connection_def ipc_fds_def result_ok_def fds_of_def)
  next
    case (Some c')
    then have "conn_ok c'" "mset (closed w) + held_fds c' = mset (closed (ipc_world ipc)) + held_fds (connections ipc ! j) + new"
      using assms(3) r by (simp_all add: result_connection)
    then show ?thesis using assms(1,2) r Some mset_remove_nth [OF assms(1)] mset_update_nth [OF assms(1), of c']
        set_update_subset_insert [of "connections ipc" j c']
      by (auto simp: put_connection_def ipc_fds_def)
  qed
qed

lemma new_connection_ok: "conn_ok (new_connection fd) \<and> held_fds (new_connection fd) = {#fd#}"
  by (simp add: new_connection_def conn_ok_def held_fds_def) (simp add: ntb_buffer_init_def)

lemma ipc_step_ok:
  assumes "\<forall>c \<in> set (connections ipc). conn_ok c" "event_enabled ipc e" "ipc_step rd bn sha512 kr sys e ipc = Some (Ok ipc')"
  shows "(\<forall>c \<in> set (connections ipc'). conn_ok c) \<and> ipc_fds ipc' = ipc_fds ipc + event_fds e"
proof (cases e)
  case (Listen accepted peer_uid)
  then show ?thesis using assms new_connection_ok
    by (cases accepted) (auto simp: listen_source_cb_def ipc_fds_def split: if_splits)
next
  case (Connection j flags got wrote)
  then obtain r where r: "connection_source_cb flags got wrote kr sys (connections ipc ! j) (ipc_world ipc) = Some (Ok r)"
    "ipc' = put_connection j r ipc" using assms(3) by auto
  have j: "j < length (connections ipc)" "conn_ok (connections ipc ! j)" using assms(1,2) Connection by simp_all
  show ?thesis using put_connection_ok [OF j(1) assms(1) connection_source_ok [OF j(2) r(1)]] r(2) Connection by simp
next
  case (Email j i got message)
  then obtain r where r: "email_poll_cb rd i got message kr sys (connections ipc ! j) (ipc_world ipc) = Ok r"
    "ipc' = put_connection j r ipc" using assms(3) by auto
  have j: "j < length (connections ipc)" "conn_ok (connections ipc ! j)" "i < length (emails (connections ipc ! j))"
    using assms(1,2) Email by simp_all
  have "result_ok {#} (connections ipc ! j) (ipc_world ipc) r"
    using email_poll_ok [OF j(2,3), of rd got message kr sys "ipc_world ipc"] r(1) by auto
  then show ?thesis using put_connection_ok [OF j(1) assms(1)] r(2) Email by simp
next
  case (Key j i address)
  then obtain r where r: "create_key_cb bn sha512 i address kr sys (connections ipc ! j) (ipc_world ipc) = Some (Ok r)"
    "ipc' = put_connection j r ipc" using assms(3) by auto
  have j: "j < length (connections ipc)" "conn_ok (connections ipc ! j)" using assms(1,2) Key by simp_all
  show ?thesis using put_connection_ok [OF j(1) assms(1) create_key_ok [OF j(2) r(1)]] r(2) Key by simp
qed

lemma ipc_run_ok:
  assumes "ipc_run rd bn sha512 kr start fds ipc" "\<forall>c \<in> set (connections start). conn_ok c"
  shows "(\<forall>c \<in> set (connections ipc). conn_ok c) \<and> ipc_fds ipc = ipc_fds start + fds"
  using assms
proof induction
  case (ipc_event fds ipc e sys ipc')
  then show ?case using ipc_step_ok [OF _ ipc_event.hyps(2,3)] by simp
qed simp

end
