(* ===== verification/Ntb_Ipc_Client.thy ===== *)
theory Ntb_Ipc_Client
  imports Ntb_Ipc_Proto
begin

text \<open>
  The client programs: sending a command and waiting for its response (\<open>ntb-ipc-client.c\<close>), the command
  line tool that asks for a new key (\<open>ntb-keygen.c\<close>) and the one that sends a mail (\<open>ntb-sendmail.c\<close>).
  Functions that have the name of one of the daemon's carry the name of their program in front. The options
  of the command line are a record; \<open>getopt\<close> is not modelled, nor are the texts of the errors.
\<close>

section \<open>Sending\<close>

text \<open>
  The results of \<open>sendmsg\<close>: the number of bytes that were taken, an interruption or an error. What has been
  sent is the list of the messages with the descriptors that went with them.
\<close>

datatype sendmsg_result = Took nat | Interrupted | Sendmsg_Error

fun send_loop ::
    "u8 list \<Rightarrow> int list \<Rightarrow> nat \<Rightarrow> sendmsg_result list \<Rightarrow> (u8 list \<times> int list) list \<Rightarrow> (u8 list \<times> int list) list option" where
  "send_loop data fds tosend results sent =
     (if length data \<le> tosend then Some sent
      else
        case results of
          [] \<Rightarrow> None
        | Took n # results \<Rightarrow>
            send_loop data fds (tosend + n) results (sent @ [(take n (drop tosend data), if tosend > 0 then [] else fds)])
        | Interrupted # results \<Rightarrow> send_loop data fds tosend results sent
        | Sendmsg_Error # results \<Rightarrow> None)"

declare send_loop.simps [simp del]

text \<open>\<open>shutdown_ok\<close> says whether the writing end can be closed afterwards.\<close>

definition ntb_ipc_client_send_command ::
    "u8 list \<Rightarrow> int list \<Rightarrow> sendmsg_result list \<Rightarrow> bool \<Rightarrow> (u8 list \<times> int list) list option" where
  "ntb_ipc_client_send_command data fds results shutdown_ok =
     (case send_loop data fds 0 results [] of None \<Rightarrow> None | Some sent \<Rightarrow> if shutdown_ok then Some sent else None)"

section \<open>Waiting for the response\<close>

datatype ntb_ipc_client_error =
    NTB_IPC_CLIENT_ERROR_INVALID_DATA
  | NTB_IPC_CLIENT_ERROR_INVALID_RESPONSE
  | NTB_IPC_CLIENT_ERROR_COMMAND_FAILED
  | NTB_IPC_CLIENT_ERROR_NO_RESPONSE
  | NTB_FILE_ERROR

record response_state =
  rs_buf :: ntb_buffer
  rs_response_buf :: ntb_buffer
  rs_error :: "ntb_ipc_client_error option"
  rs_request_id :: u32
  had_response :: bool

definition init_response_state :: "ntb_buffer \<Rightarrow> u32 \<Rightarrow> response_state" where
  "init_response_state response_buf request_id =
     \<lparr>rs_buf = ntb_buffer_init, rs_response_buf = response_buf, rs_error = None, rs_request_id = request_id, had_response = False\<rparr>"

definition set_response_error :: "ntb_ipc_client_error \<Rightarrow> response_state \<Rightarrow> response_state" where
  "set_response_error e state = state\<lparr>rs_error := Some e\<rparr>"

definition client_handle_response :: "response_state \<Rightarrow> u8 list \<Rightarrow> u32 \<Rightarrow> (response_state \<times> bool) outcome" where
  "client_handle_response state data data_length =
     (if data_length < 4 \<or> had_response state
      then Ok (set_response_error NTB_IPC_CLIENT_ERROR_INVALID_RESPONSE state, False)
      else
        bind_outcome (ntb_proto_get_32 data) (\<lambda>status.
        bind_outcome (read_bytes (unat data_length - 4) (drop 4 data)) (\<lambda>payload.
        let state = (if status \<noteq> 0 then set_response_error NTB_IPC_CLIENT_ERROR_COMMAND_FAILED state else state) in
        Ok (state\<lparr>had_response := True, rs_response_buf := ntb_buffer_append (rs_response_buf state) payload\<rparr>, True))))"

text \<open>
  As in the daemon, the sum with the length has 32 bits. The result is the state, how many bytes are left,
  and whether to go on.
\<close>

partial_function (option) client_loop ::
    "u8 list \<Rightarrow> nat \<Rightarrow> response_state \<Rightarrow> (response_state \<times> nat \<times> bool) outcome option" where
  "client_loop data data_length state =
     (if data_length < 20 then Some (Ok (state, data_length, True))
      else
        case ntb_proto_get_32 (drop 16 data) of
          Fault \<Rightarrow> Some Fault
        | Fail \<Rightarrow> Some Fail
        | Ok command_length \<Rightarrow>
            if data_length < unat (command_length + 20) then Some (Ok (state, data_length, True))
            else if \<not> ntb_proto_check_command_string data
            then Some (Ok (set_response_error NTB_IPC_CLIENT_ERROR_INVALID_DATA state, data_length, False))
            else
              case bind_outcome (ntb_proto_get_32 (drop 12 data)) (\<lambda>request_id.
                     if c_string data = str ''response'' \<and> request_id = rs_request_id state
                     then client_handle_response state (drop 20 data) command_length else Ok (state, True)) of
                Fault \<Rightarrow> Some Fault
              | Fail \<Rightarrow> Some Fail
              | Ok (state, ok) \<Rightarrow>
                  if \<not> ok then Some (Ok (state, data_length, False))
                  else client_loop (drop (unat (20 + command_length)) data) (data_length - unat (20 + command_length)) state)"

definition client_process_commands :: "response_state \<Rightarrow> (response_state \<times> bool) outcome option" where
  "client_process_commands state =
     (let total = buf_length (rs_buf state) in
      map_option (\<lambda>r. bind_outcome r (\<lambda>(state, left, ok).
          if \<not> ok then Ok (state, False)
          else
            let b = rs_buf state in
            Ok (state\<lparr>rs_buf := b\<lparr>buf_data := write_at 0 (take left (drop (total - left) (buf_data b))) (buf_data b),
                                  buf_length := left\<rparr>\<rparr>, True)))
        (client_loop (memory_of (rs_buf state)) total state))"

text \<open>The results of \<open>read\<close>, up to the end of the connection, where the list ends.\<close>

datatype client_read = Client_Read_Error | Client_Bytes "u8 list"

fun read_loop :: "response_state \<Rightarrow> client_read list \<Rightarrow> response_state outcome option" where
  "read_loop state [] =
     Some (Ok (if buf_length (rs_buf state) > 0 then set_response_error NTB_FILE_ERROR state else state))"
| "read_loop state (Client_Read_Error # reads) = Some (Ok (set_response_error NTB_FILE_ERROR state))"
| "read_loop state (Client_Bytes bytes # reads) =
     (case deposit (ntb_buffer_ensure_size (rs_buf state) (buf_length (rs_buf state) + 512)) bytes of
        Ok b \<Rightarrow>
          (case client_process_commands (state\<lparr>rs_buf := b\<rparr>) of
             None \<Rightarrow> None
           | Some Fault \<Rightarrow> Some Fault
           | Some Fail \<Rightarrow> Some Fail
           | Some (Ok (state, ok)) \<Rightarrow> if ok then read_loop state reads else Some (Ok state))
      | _ \<Rightarrow> Some Fault)"

definition read_commands :: "response_state \<Rightarrow> client_read list \<Rightarrow> response_state outcome option" where
  "read_commands state reads =
     map_option (\<lambda>r. bind_outcome r (\<lambda>state.
         Ok (if rs_error state = None \<and> \<not> had_response state
             then set_response_error NTB_IPC_CLIENT_ERROR_NO_RESPONSE state else state)))
       (read_loop state reads)"

text \<open>The response, or the error.\<close>

definition ntb_ipc_client_get_response ::
    "ntb_buffer \<Rightarrow> u32 \<Rightarrow> client_read list \<Rightarrow> (ntb_ipc_client_error + ntb_buffer) outcome option" where
  "ntb_ipc_client_get_response response_buf request_id reads =
     map_option (\<lambda>r. bind_outcome r (\<lambda>state.
         Ok (case rs_error state of Some e \<Rightarrow> Inl e | None \<Rightarrow> Inr (rs_response_buf state))))
       (read_commands (init_response_state response_buf request_id) reads)"

section \<open>The programs\<close>

record keygen_options =
  option_version :: int
  option_stream :: int
  option_zeroes :: int
  option_nonce_trials_per_byte :: int
  option_payload_length_extra_bytes :: int
  option_label :: "u8 list"

definition send_keygen_command :: "keygen_options \<Rightarrow> ntb_buffer" where
  "send_keygen_command opts =
     (let buf = ntb_ipc_proto_begin_command ntb_buffer_init ''keygen'' 0;
          buf = ntb_proto_add_var_int buf (word_of_int (option_version opts));
          buf = ntb_proto_add_var_int buf (word_of_int (option_stream opts));
          buf = ntb_proto_add_var_int buf (word_of_int (option_nonce_trials_per_byte opts));
          buf = ntb_proto_add_var_int buf (word_of_int (option_payload_length_extra_bytes opts));
          buf = ntb_proto_add_8 buf (word_of_int (option_zeroes opts));
          buf = ntb_proto_add_var_str buf (option_label opts) in
      ntb_ipc_proto_end_command buf 0)"

text \<open>The text that is printed. The parts of the address before its text are skipped.\<close>

definition keygen_handle_response :: "u8 list \<Rightarrow> u32 \<Rightarrow> u8 list outcome" where
  "keygen_handle_response data data_length =
     bind_outcome (ntb_proto_get_command data data_length [NTB_PROTO_ARGUMENT_VAR_INT, NTB_PROTO_ARGUMENT_VAR_INT])
       (\<lambda>(_, header_size).
         if unat data_length < header_size + 20 then Fail
         else
           bind_outcome (ntb_proto_get_var_str (drop (header_size + 20) data, data_length - word_of_nat (header_size + 20)))
             (\<lambda>(address_str, _).
               bind_outcome (read_bytes (unat (vs_length address_str)) (vs_data address_str)) (\<lambda>text. Ok (text @ [0x0a]))))"

definition email_command :: "u8 list" where
  "email_command = str ''email'' @ [0, 0, 0, 0, 0, 0, 0] @ [0, 0, 0, 0] @ [0, 0, 0, 0]"

definition send_email_command :: "sendmsg_result list \<Rightarrow> bool \<Rightarrow> (u8 list \<times> int list) list option" where
  "send_email_command results shutdown_ok = ntb_ipc_client_send_command email_command [0] results shutdown_ok"

section \<open>Part of a frame\<close>

lemma frame_length_word: "length payload + 20 < 2 ^ 32 \<Longrightarrow> unat (word_of_nat (length payload) + 20 :: u32) = length payload + 20"
proof -
  assume "length payload + 20 < 2 ^ 32"
  moreover have "(word_of_nat (length payload) + 20 :: u32) = word_of_nat (length payload + 20)" by simp
  ultimately show ?thesis by (simp only: unat_of_nat) simp
qed

text \<open>Once the header has arrived, the length of the payload is known.\<close>

lemma ipc_frame_prefix:
  assumes "xs @ ys = ipc_frame name request_id payload" "20 \<le> length xs" "length name \<le> 12" "length payload < 2 ^ 32"
  shows "ntb_proto_get_32 (drop 16 (xs @ rest)) = Ok (word_of_nat (length payload))"
proof -
  have payload: "unat (word_of_nat (length payload) :: u32) = length payload" using assms(4) by (simp add: unat_of_nat)
  have "take 20 xs = take 20 (ipc_frame name request_id payload)" using assms(1,2) by (metis append_eq_conv_conj take_take min_absorb1 min.commute)
  also have "\<dots> = ipc_header name request_id @ be_bytes 4 (length payload)"
    using length_ipc_header [OF assms(3)] by (simp add: ipc_frame_def)
  finally have "xs @ rest = ipc_header name request_id @ be_bytes 4 (unat (word_of_nat (length payload) :: u32)) @ drop 20 xs @ rest"
    using assms(4) append_take_drop_id [of 20 xs] by (metis append.assoc payload)
  then have "drop 16 (xs @ rest) = be_bytes 4 (unat (word_of_nat (length payload) :: u32)) @ drop 20 xs @ rest"
    using length_ipc_header [OF assms(3), of request_id] by (metis append_eq_conv_conj)
  then show ?thesis by (simp only: get_32_append)
qed

section \<open>Messages that are sent\<close>

lemma send_loop_rest:
  assumes "\<forall>n. Took n \<in> set results \<longrightarrow> 0 < n" "send_loop data fds tosend results sent = Some msgs" "0 < tosend"
  shows "\<exists>ms. msgs = sent @ map (\<lambda>m. (m, [])) ms \<and> concat ms = drop tosend data \<and> [] \<notin> set ms"
  using assms
proof (induction data fds tosend results sent rule: send_loop.induct)
  case (1 data fds tosend results sent)
  show ?case
  proof (cases "length data \<le> tosend")
    case True
    then show ?thesis using "1.prems"(2) by (intro exI [of _ "[]"]) (simp add: send_loop.simps)
  next
    case False
    then obtain r rs where r: "results = r # rs" using "1.prems"(2) by (cases results) (auto simp: send_loop.simps)
    show ?thesis
    proof (cases r)
      case (Took n)
      let ?sent = "sent @ [(take n (drop tosend data), if tosend > 0 then [] else fds)]"
      have "send_loop data fds (tosend + n) rs ?sent = Some msgs" using "1.prems"(2) False r Took by (subst (asm) send_loop.simps) simp
      then obtain ms where ms: "msgs = ?sent @ map (\<lambda>m. (m, [])) ms" "concat ms = drop (tosend + n) data" "[] \<notin> set ms"
        using "1.IH"(1) [OF False r Took] "1.prems" r by auto
      have "take n (drop tosend data) @ drop (tosend + n) data = drop tosend data"
        by (metis append_take_drop_id drop_drop add.commute)
      moreover have "0 < n" using "1.prems"(1) r Took by simp
      ultimately show ?thesis using ms "1.prems"(3) False by (intro exI [of _ "take n (drop tosend data) # ms"]) simp
    next
      case Interrupted
      have "send_loop data fds tosend rs sent = Some msgs" using "1.prems"(2) False r Interrupted by (subst (asm) send_loop.simps) simp
      then show ?thesis using "1.IH"(2) [OF False r Interrupted] "1.prems" r by auto
    next
      case Sendmsg_Error
      then show ?thesis using "1.prems"(2) False r by (subst (asm) send_loop.simps) simp
    qed
  qed
qed

text \<open>A command that has been sent went out completely, and the descriptors with its first bytes only.\<close>

lemma send_command_complete:
  assumes "\<forall>n. Took n \<in> set results \<longrightarrow> 0 < n" "ntb_ipc_client_send_command data fds results shutdown_ok = Some msgs" "data \<noteq> []"
  shows "\<exists>m ms. msgs = (m, fds) # map (\<lambda>m. (m, [])) ms \<and> m \<noteq> [] \<and> [] \<notin> set ms \<and> m @ concat ms = data"
proof -
  have "send_loop data fds 0 results [] = Some msgs"
    using assms(2) by (auto simp: ntb_ipc_client_send_command_def split: option.splits if_splits)
  then show ?thesis using assms(1)
  proof (induction results)
    case Nil
    then show ?case using assms(3) by (subst (asm) send_loop.simps) simp
  next
    case (Cons r rs)
    show ?case
    proof (cases r)
      case (Took n)
      then have run: "send_loop data fds n rs [(take n data, fds)] = Some msgs" "0 < n"
        using Cons.prems assms(3) by (subst (asm) send_loop.simps, simp)+
      obtain ms where "msgs = [(take n data, fds)] @ map (\<lambda>m. (m, [])) ms" "concat ms = drop n data" "[] \<notin> set ms"
        using send_loop_rest [OF _ run] Cons.prems(2) by auto
      then show ?thesis using run(2) assms(3) by auto
    next
      case Interrupted
      then show ?thesis using Cons assms(3) by (subst (asm) send_loop.simps) auto
    next
      case Sendmsg_Error
      then show ?thesis using Cons.prems(1) assms(3) by (subst (asm) send_loop.simps) simp
    qed
  qed
qed

lemma email_command_frame: "email_command = ipc_frame ''email'' 0 []"
  by (simp add: email_command_def ipc_frame_def ipc_header_def be_bytes_zero numeral_eq_Suc)

definition keygen_args :: "keygen_options \<Rightarrow> add_arg list" where
  "keygen_args opts =
     [AVarInt (word_of_int (option_version opts)), AVarInt (word_of_int (option_stream opts)),
      AVarInt (word_of_int (option_nonce_trials_per_byte opts)), AVarInt (word_of_int (option_payload_length_extra_bytes opts)),
      A8 (word_of_int (option_zeroes opts)), AVarStr (option_label opts)]"

definition keygen_payload :: "keygen_options \<Rightarrow> u8 list" where
  "keygen_payload opts = concat (map (arg_bytes 0) (keygen_args opts))"

lemma length_var_int: "length (var_int_bytes v) \<le> 9"
  by (simp add: var_int_bytes_def)

lemma length_keygen_payload: "length (keygen_payload opts) < 300"
  using length_var_int [of "word_of_int (option_version opts)"] length_var_int [of "word_of_int (option_stream opts)"]
    length_var_int [of "word_of_int (option_nonce_trials_per_byte opts)"]
    length_var_int [of "word_of_int (option_payload_length_extra_bytes opts)"] mod_less_divisor [of 256 "length (option_label opts)"]
  by (simp add: keygen_payload_def keygen_args_def)

lemma buf_length_init [simp]: "buf_length ntb_buffer_init = 0"
  by (simp add: ntb_buffer_init_def)

lemma keygen_command_frame:
  "buf_ok (send_keygen_command opts) \<and> contents (send_keygen_command opts) = map Some (ipc_frame ''keygen'' 0 (keygen_payload opts))"
  using ipc_command_eq [OF buf_ok_init, of "''keygen''" "keygen_payload opts" "\<lambda>buf. ntb_proto_add_var_str (ntb_proto_add_8
      (ntb_proto_add_var_int (ntb_proto_add_var_int (ntb_proto_add_var_int (ntb_proto_add_var_int buf
        (word_of_int (option_version opts))) (word_of_int (option_stream opts))) (word_of_int (option_nonce_trials_per_byte opts)))
        (word_of_int (option_payload_length_extra_bytes opts))) (word_of_int (option_zeroes opts))) (option_label opts)" 0]
    length_keygen_payload [of opts]
  by (simp add: send_keygen_command_def Let_def keygen_payload_def keygen_args_def ntb_contents ntb_proto_add_var_str_def ntb_proto_add_8_def)

section \<open>Receiving\<close>

text \<open>A frame of which a part is missing is kept.\<close>

lemma client_loop_incomplete:
  assumes "xs @ ys = ipc_frame name request_id payload" "ys \<noteq> []" "length name \<le> 12" "length payload + 20 < 2 ^ 32"
  shows "client_loop (xs @ rest) (length xs) state = Some (Ok (state, length xs, True))"
proof (cases "length xs < 20")
  case True
  then show ?thesis by (simp add: client_loop.simps)
next
  case False
  have "length xs < length payload + 20"
    using arg_cong [OF assms(1), of length] length_ipc_frame [OF assms(3)] assms(2) by (cases ys) simp_all
  then show ?thesis
    using False ipc_frame_prefix [OF assms(1) _ assms(3), of rest] assms(4) frame_length_word [OF assms(4)]
    by (subst client_loop.simps) (simp del: drop_append)
qed

definition take_response :: "u32 \<Rightarrow> u8 list \<Rightarrow> response_state \<Rightarrow> response_state" where
  "take_response status data state =
     state\<lparr>rs_error := (if status \<noteq> 0 then Some NTB_IPC_CLIENT_ERROR_COMMAND_FAILED else rs_error state),
           had_response := True, rs_response_buf := ntb_buffer_append (rs_response_buf state) data\<rparr>"

lemma client_handle_response_eq:
  assumes "\<not> had_response state" "length data + 4 < 2 ^ 32"
  shows "client_handle_response state (be_bytes 4 (unat status) @ data @ rest) (word_of_nat (length data + 4)) =
    Ok (take_response status data state, True)"
proof -
  have "unat (word_of_nat (length data + 4) :: u32) = length data + 4" using assms(2) by (simp add: unat_of_nat del: of_nat_add)
  then show ?thesis using assms(1)
    by (simp add: client_handle_response_def get_32_append read_bytes_def take_response_def set_response_error_def word_less_nat_alt
        del: of_nat_add)
qed

lemma response_name: "0 \<notin> set (str ''response'')" "length ''response'' < 12"
  by simp_all

lemma client_loop_response:
  assumes "\<not> had_response state" "length data + 24 < 2 ^ 32" "payload = be_bytes 4 (unat status) @ data"
  shows "client_loop (ipc_frame ''response'' (rs_request_id state) payload @ rest) (length (ipc_frame ''response'' (rs_request_id state) payload)) state =
    Some (Ok (take_response status data state, 0, True))"
proof -
  let ?f = "ipc_frame ''response'' (rs_request_id state) payload"
  have len: "length payload + 20 < 2 ^ 32" "length payload < 2 ^ 32" "length payload = length data + 4" using assms by simp_all
  note n = ipc_frame_name [OF response_name, of "rs_request_id state" payload rest]
  note parts = ipc_frame_parts [of "''response''" payload "rs_request_id state" rest]
  have h: "client_handle_response state (payload @ rest) (word_of_nat (length payload)) = Ok (take_response status data state, True)"
    using client_handle_response_eq [OF assms(1), of data status rest] assms by (simp add: add.commute)
  have "client_loop (drop (length payload + 20) (?f @ rest)) 0 s = Some (Ok (s, 0, True))" for s
    by (simp add: client_loop.simps)
  then show ?thesis
    using n parts h len frame_length_word [OF len(1)] length_ipc_frame [of "''response''" "rs_request_id state" payload]
    by (subst client_loop.simps) (simp add: add.commute del: drop_append str_simps)
qed

lemma client_commands:
  assumes "buf_ok (rs_buf state)" "contents (rs_buf state) = map Some xs"
    "\<And>rest. client_loop (xs @ rest) (length xs) state = Some (Ok (state', left, True))" "rs_buf state' = rs_buf state" "left \<le> length xs"
  shows "\<exists>b. client_process_commands state = Some (Ok (state'\<lparr>rs_buf := b\<rparr>, True)) \<and> buf_ok b \<and>
    contents b = map Some (drop (length xs - left) xs)"
proof -
  obtain rest where r: "memory_of (rs_buf state) = xs @ rest" "buf_length (rs_buf state) = length xs"
    using memory_of_contents [OF assms(1,2)] by blast
  let ?d = "buf_data (rs_buf state)"
  define b where "b = (rs_buf state)\<lparr>buf_data := write_at 0 (take left (drop (length xs - left) ?d)) ?d, buf_length := left\<rparr>"
  have run: "client_process_commands state = Some (Ok (state'\<lparr>rs_buf := b\<rparr>, True))"
    using assms(3,4) r by (simp add: client_process_commands_def Let_def b_def)
  have d: "take (length xs) ?d = map Some xs" "length xs \<le> length ?d" "length ?d = buf_size (rs_buf state)"
    using assms(1,2) r(2) by (simp_all add: contents_def buf_ok_def)
  have "take left (drop (length xs - left) ?d) = drop (length xs - left) (take (length xs) ?d)"
    using assms(5) by (simp add: drop_take)
  then have "take left (drop (length xs - left) ?d) = map Some (drop (length xs - left) xs)" using d(1) by (simp add: drop_map)
  then have "contents b = map Some (drop (length xs - left) xs)" using assms(5)
    by (simp add: b_def contents_def write_at_def)
  moreover have "buf_ok b" using d assms(5) by (simp add: b_def buf_ok_def)
  ultimately show ?thesis using run by blast
qed

text \<open>The response may arrive in any pieces that fit the room that the client makes for them.\<close>

lemma read_loop_response:
  assumes "buf_ok (rs_buf state)" "contents (rs_buf state) = map Some xs" "\<not> had_response state" "length data + 24 < 2 ^ 32"
    "xs @ concat ps = ipc_frame ''response'' (rs_request_id state) (be_bytes 4 (unat status) @ data)"
    "\<forall>p \<in> set ps. p \<noteq> [] \<and> length p \<le> 512" "ps \<noteq> []"
  shows "\<exists>b. read_loop state (map Client_Bytes ps) = Some (Ok ((take_response status data state)\<lparr>rs_buf := b\<rparr>))"
  using assms
proof (induction ps arbitrary: state xs)
  case (Cons p ps)
  let ?frame = "ipc_frame ''response'' (rs_request_id state) (be_bytes 4 (unat status) @ data)"
  let ?b = "ntb_buffer_ensure_size (rs_buf state) (buf_length (rs_buf state) + 512)"
  have "buf_ok ?b" "contents ?b = map Some xs" "buf_length ?b + length p \<le> buf_size ?b"
    using Cons.prems(1,2,6) ensure_size_ge [of "buf_length (rs_buf state) + 512" "rs_buf state"] by auto
  then obtain b where b: "deposit ?b p = Ok b" "buf_ok b" "contents b = map Some (xs @ p)"
    using deposit_ok [of ?b p] by (metis map_append)
  let ?s = "state\<lparr>rs_buf := b\<rparr>"
  show ?case
  proof (cases "ps = []")
    case True
    then have f: "xs @ p = ?frame" using Cons.prems(5) by simp
    obtain c where "client_process_commands ?s = Some (Ok ((take_response status data ?s)\<lparr>rs_buf := c\<rparr>, True))" "buf_ok c" "contents c = []"
      using client_commands [of ?s "xs @ p" "take_response status data ?s" 0] b(2,3) f
        client_loop_response [of ?s data "be_bytes 4 (unat status) @ data" status] Cons.prems(3,4)
      by (auto simp: take_response_def)
    moreover from this have "buf_length c = 0" using length_contents [of c] by simp
    ultimately show ?thesis using True b(1) by (intro exI [of _ c]) (simp add: take_response_def)
  next
    case False
    then have ne: "concat ps \<noteq> []" using Cons.prems(6) by (cases ps) auto
    have f: "(xs @ p) @ concat ps = ?frame" using Cons.prems(5) by simp
    have "length (be_bytes 4 (unat status) @ data) + 20 < 2 ^ 32" using Cons.prems(4) by simp
    from client_loop_incomplete [OF f ne _ this]
    have "client_loop ((xs @ p) @ rest) (length (xs @ p)) ?s = Some (Ok (?s, length (xs @ p), True))" for rest by simp
    then obtain c where c: "client_process_commands ?s = Some (Ok (?s\<lparr>rs_buf := c\<rparr>, True))" "buf_ok c" "contents c = map Some (xs @ p)"
      using client_commands [of ?s "xs @ p" ?s "length (xs @ p)"] b(2,3) by auto
    obtain d where "read_loop (?s\<lparr>rs_buf := c\<rparr>) (map Client_Bytes ps) = Some (Ok ((take_response status data (?s\<lparr>rs_buf := c\<rparr>))\<lparr>rs_buf := d\<rparr>))"
      using Cons.IH [of "?s\<lparr>rs_buf := c\<rparr>" "xs @ p"] c(2,3) Cons.prems False by auto
    then show ?thesis using b(1) c(1) by (intro exI [of _ d]) (simp add: take_response_def)
  qed
qed simp

lemma get_response_eq:
  fixes status :: u32
  assumes "concat ps = ipc_frame ''response'' request_id (be_bytes 4 (unat status) @ data)" "length data + 24 < 2 ^ 32"
    "\<forall>p \<in> set ps. p \<noteq> [] \<and> length p \<le> 512"
  shows "ntb_ipc_client_get_response response_buf request_id (map Client_Bytes ps) =
    Some (Ok (if status = 0 then Inr (ntb_buffer_append response_buf data) else Inl NTB_IPC_CLIENT_ERROR_COMMAND_FAILED))"
proof -
  let ?s = "init_response_state response_buf request_id"
  have "ps \<noteq> []" using arg_cong [OF assms(1), of length] length_ipc_frame [of "''response''"] by auto
  then obtain b where "read_loop ?s (map Client_Bytes ps) = Some (Ok ((take_response status data ?s)\<lparr>rs_buf := b\<rparr>))"
    using read_loop_response [of ?s "[]" data ps status] assms by (auto simp: init_response_state_def)
  then show ?thesis
    by (simp add: ntb_ipc_client_get_response_def read_commands_def take_response_def init_response_state_def)
qed

end
