(* ===== verification/Ntb_Ipc_Session.thy ===== *)
theory Ntb_Ipc_Session
  imports Ntb_Ipc_Email Ntb_Ipc_Safety Ntb_Ipc_Client
begin

text \<open>
  Whole sessions between a client program and the daemon: the bytes that the one writes are read by the
  other, in whatever pieces the socket delivers them.
\<close>

section \<open>The daemon reads a command\<close>

text \<open>A command of which a part is missing is not looked at.\<close>

lemma process_loop_incomplete:
  assumes "xs @ ys = ipc_frame name request_id payload" "ys \<noteq> []" "length name \<le> 12" "length payload + 20 < 2 ^ 32"
  shows "process_loop kr sys (xs @ rest) (length xs) conn w = Some (Ok ((w, Some conn), True))"
proof (cases "length xs < 20")
  case True
  then show ?thesis by (simp add: process_loop.simps)
next
  case False
  have "length xs < length payload + 20"
    using arg_cong [OF assms(1), of length] length_ipc_frame [OF assms(3)] assms(2) by (cases ys) simp_all
  then show ?thesis
    using False ipc_frame_prefix [OF assms(1) _ assms(3), of rest] assms(4) frame_length_word [OF assms(4)]
    by (subst process_loop.simps) (simp del: drop_append)
qed

text \<open>A complete command is carried out, and the loop goes on behind it.\<close>

lemma process_loop_command:
  assumes "0 \<notin> set (str name)" "length name < 12" "length payload + 20 < 2 ^ 32"
    "process_command (ipc_frame name request_id payload @ rest) (word_of_nat (length payload)) kr sys conn w = Ok (w', Some conn')"
  shows "process_loop kr sys (ipc_frame name request_id payload @ rest) (length (ipc_frame name request_id payload) + n) conn w =
    process_loop kr sys rest n conn' w'"
proof -
  let ?f = "ipc_frame name request_id payload"
  have len: "length payload < 2 ^ 32" "length name \<le> 12" "length ?f = length payload + 20"
    using assms(2,3) length_ipc_frame [of name request_id payload] by simp_all
  have "drop (length payload + 20) (?f @ rest) = rest" using len(3) by simp
  then show ?thesis
    using ipc_frame_name [OF assms(1,2), of request_id payload rest] ipc_frame_parts(2) [OF len(2,1), of request_id rest]
      frame_length_word [OF assms(3)] len(3) assms(4)
    by (subst process_loop.simps) (simp del: drop_append)
qed

text \<open>The messages that arrive, each with its descriptors.\<close>

fun read_messages ::
    "'k keyring_ops \<Rightarrow> kernel \<Rightarrow> (u8 list \<times> int list) list \<Rightarrow> ntb_ipc_connection \<Rightarrow> 'k ipc_world \<Rightarrow> 'k ipc_result outcome option" where
  "read_messages kr sys [] conn w = Some (Ok (w, Some conn))"
| "read_messages kr sys ((bytes, fds) # ms) conn w =
     (case handle_read (Recv bytes fds) kr sys conn w of
        Some (Ok (w, Some conn)) \<Rightarrow> read_messages kr sys ms conn w
      | r \<Rightarrow> r)"

lemma read_bytes_into:
  assumes "buf_ok b" "contents b = map Some xs" "length bytes \<le> 128"
  obtains b' rest where "deposit (ntb_buffer_ensure_size b (buf_length b + 128)) bytes = Ok b'" "buf_ok b'"
    "contents b' = map Some (xs @ bytes)" "memory_of b' = xs @ bytes @ rest" "buf_length b' = length (xs @ bytes)"
proof -
  let ?b = "ntb_buffer_ensure_size b (buf_length b + 128)"
  have "buf_ok ?b" "contents ?b = map Some xs" "buf_length ?b + length bytes \<le> buf_size ?b"
    using assms ensure_size_ge [of "buf_length b + 128" b] by auto
  then obtain b' where "deposit ?b bytes = Ok b'" "buf_ok b'" "contents b' = map Some (xs @ bytes)"
    using deposit_ok [of ?b bytes] by (metis map_append)
  then show thesis using that memory_of_contents [of b' "xs @ bytes"] by auto
qed

text \<open>
  One command that arrives in pieces is carried out once, when its last byte is there, with the descriptors
  that came with any of the pieces.
\<close>

lemma read_command:
  assumes "buf_ok (inbuf conn)" "contents (inbuf conn) = map Some xs"
    "xs @ concat (map fst ms) = ipc_frame name request_id payload" "ms \<noteq> []" "\<forall>(p, fds) \<in> set ms. p \<noteq> [] \<and> length p \<le> 128"
    "0 \<notin> set (str name)" "length name < 12" "length payload + 20 < 2 ^ 32"
    "\<And>b rest. buf_ok b \<Longrightarrow> contents b = map Some (ipc_frame name request_id payload) \<Longrightarrow>
      \<exists>w' c. process_command (ipc_frame name request_id payload @ rest) (word_of_nat (length payload)) kr sys
        (conn\<lparr>fd_queue := fd_queue conn @ concat (map snd ms), inbuf := b\<rparr>) w = Ok (w', Some c) \<and> inbuf c = b \<and> P w' c"
  shows "\<exists>w' c. read_messages kr sys ms conn w = Some (Ok (w', Some c)) \<and> P w' c"
  using assms(1-5,9)
proof (induction ms arbitrary: conn xs)
  case (Cons m ms)
  let ?frame = "ipc_frame name request_id payload"
  obtain p fds where m: "m = (p, fds)" by (cases m)
  then have p: "p \<noteq> []" "length p \<le> 128" using Cons.prems(5) by auto
  obtain b rest where b: "deposit (ntb_buffer_ensure_size (inbuf conn) (buf_length (inbuf conn) + 128)) p = Ok b" "buf_ok b"
    "contents b = map Some (xs @ p)" "memory_of b = xs @ p @ rest" "buf_length b = length (xs @ p)"
    by (rule read_bytes_into [OF Cons.prems(1,2) p(2)])
  let ?c = "conn\<lparr>fd_queue := fd_queue conn @ fds, inbuf := b\<rparr>"
  have read: "handle_read (Recv p fds) kr sys conn w = process_commands kr sys ?c w"
    using p(1) b(1) by (simp add: handle_read_def Let_def process_control_data_def)
  have nonempty: "buf_length b \<noteq> 0" using b(5) p(1) by simp
  show ?case
  proof (cases "ms = []")
    case True
    then have f: "xs @ p = ?frame" using Cons.prems(3) m by simp
    obtain w' c where c: "process_command (?frame @ rest) (word_of_nat (length payload)) kr sys ?c w = Ok (w', Some c)" "inbuf c = b" "P w' c"
      using Cons.prems(6) [of b rest] b(2,3) f True m by auto
    have "process_loop kr sys (?frame @ rest) (length ?frame) ?c w = Some (Ok ((w', Some c), True))"
      using process_loop_command [OF assms(6-8) c(1), of 0] by (simp add: process_loop.simps [of _ _ _ 0])
    moreover have "memory_of b = ?frame @ rest" "buf_length b = length ?frame"
      using b(4,5) by (simp_all only: f [symmetric] append_assoc)
    ultimately have "process_commands kr sys ?c w = Some (Ok (w', Some c))"
      using c(2) nonempty by (simp add: process_commands_def)
    then show ?thesis using True m read c(3) by simp
  next
    case False
    then have ne: "concat (map fst ms) \<noteq> []" using Cons.prems(5) by (cases ms) auto
    have f: "(xs @ p) @ concat (map fst ms) = ?frame" using Cons.prems(3) m by simp
    have "process_loop kr sys ((xs @ p) @ rest) (length (xs @ p)) ?c w = Some (Ok ((w, Some ?c), True))"
      using process_loop_incomplete [OF f ne _ assms(8)] assms(7) by simp
    then have "process_commands kr sys ?c w = Some (Ok (w, Some ?c))"
      using b(4,5) p(1) by (simp add: process_commands_def)
    moreover have "\<exists>w' c. read_messages kr sys ms ?c w = Some (Ok (w', Some c)) \<and> P w' c"
      using Cons.IH [of ?c "xs @ p"] b(2,3) f False Cons.prems(5,6) m by simp
    ultimately show ?thesis using m read by simp
  qed
qed simp

section \<open>Making a key\<close>

text \<open>What the client may ask for.\<close>

definition keygen_ok :: "keygen_options \<Rightarrow> bool" where
  "keygen_ok opts \<longleftrightarrow> option_version opts \<in> {0, 2, 3, 4} \<and> option_stream opts = 1 \<and> option_zeroes opts \<in> {0, 1, 2} \<and>
     length (option_label opts) < 0xfd \<and> list_all (\<lambda>c. 0x20 \<le> c) (option_label opts)"

text \<open>The parameters with the defaults of the daemon.\<close>

definition asked_params :: "keygen_options \<Rightarrow> ntb_key_params" where
  "asked_params opts =
     (let trials = word_of_int (option_nonce_trials_per_byte opts); extra = word_of_int (option_payload_length_extra_bytes opts) in
      keygen_params (if option_version opts = 0 then 4 else word_of_int (option_version opts)) 1
        (if trials = 0 then 640 else trials) (if extra = 0 then 14000 else extra) (option_label opts))"

lemma label_valid: "list_all (\<lambda>c. 0x20 \<le> c) label \<Longrightarrow> label_is_valid label"
proof -
  have "(0xff :: u8) = - 1" by simp
  then have "c AND 0xff = c" for c :: u8 by (simp only: and.right_neutral)
  then show "list_all (\<lambda>c. 0x20 \<le> c) label \<Longrightarrow> ?thesis" by (simp add: label_is_valid_def not_less)
qed

lemma keygen_accepted:
  assumes "ntb_proto_get_command data command_length
      [NTB_PROTO_ARGUMENT_VAR_INT, NTB_PROTO_ARGUMENT_VAR_INT, NTB_PROTO_ARGUMENT_VAR_INT,
       NTB_PROTO_ARGUMENT_VAR_INT, NTB_PROTO_ARGUMENT_8, NTB_PROTO_ARGUMENT_VAR_STR] =
      Ok ([VVarInt v, VVarInt 1, VVarInt trials, VVarInt extra, V8 zeroes, VVarStr label_str], n)"
    "\<not> (v \<noteq> 0 \<and> (v < 2 \<or> v > 4))" "\<not> zeroes > 2"
    "read_bytes (unat (vs_length label_str)) (vs_data label_str) = Ok label" "label_is_valid label"
  shows "handle_keygen_command request_id data command_length kr sys conn w =
    (case ntb_keyring_create_key kr (ipc_keyring w) (keygen_params (if v = 0 then 4 else v) 1 (if trials = 0 then 640 else trials)
        (if extra = 0 then 14000 else extra) label) (uint zeroes) of (k, cookie) \<Rightarrow>
      Ok (w\<lparr>ipc_keyring := k\<rparr>, Some (conn\<lparr>tasks := \<lparr>keyring_cookie = cookie, task_request_id = request_id\<rparr> # tasks conn\<rparr>)))"
  unfolding handle_keygen_command_def Let_def assms(1) outcome.case prod.case list.case arg_value.case
  by (simp only: assms(2-5) if_False if_True simp_thms bind_outcome.simps
      Ntb_Proto_Objects.NTB_PROTO_MIN_NONCE_TRIALS_PER_BYTE_def Ntb_Proto_Objects.NTB_PROTO_MIN_EXTRA_BYTES_def)
    (simp split: prod.splits)

lemma keygen_command:
  assumes "keygen_ok opts"
  shows "handle_keygen_command request_id (keygen_payload opts @ rest) (word_of_nat (length (keygen_payload opts))) kr sys conn w =
    (case ntb_keyring_create_key kr (ipc_keyring w) (asked_params opts) (option_zeroes opts) of (k, cookie) \<Rightarrow>
      Ok (w\<lparr>ipc_keyring := k\<rparr>, Some (conn\<lparr>tasks := \<lparr>keyring_cookie = cookie, task_request_id = request_id\<rparr> # tasks conn\<rparr>)))"
proof -
  have len: "unat (word_of_nat (length (keygen_payload opts)) :: u32) = length (keygen_payload opts)"
    using length_keygen_payload [of opts] by (simp add: unat_of_nat)
  have args: "list_all (arg_valid 0) (keygen_args opts)" using assms by (simp add: keygen_args_def keygen_ok_def)
  have kinds: "map arg_kind (keygen_args opts) = [NTB_PROTO_ARGUMENT_VAR_INT, NTB_PROTO_ARGUMENT_VAR_INT, NTB_PROTO_ARGUMENT_VAR_INT,
      NTB_PROTO_ARGUMENT_VAR_INT, NTB_PROTO_ARGUMENT_8, NTB_PROTO_ARGUMENT_VAR_STR]" by (simp add: keygen_args_def)
  have get: "\<exists>n. ntb_proto_get_command (keygen_payload opts @ rest) (word_of_nat (length (keygen_payload opts))) (map arg_kind (keygen_args opts)) =
      Ok (arg_results 0 (keygen_args opts) rest, n)"
    using get_arguments_bytes [OF args, of "word_of_nat (length (keygen_payload opts))" rest] len length_keygen_payload [of opts]
    by (simp add: ntb_proto_get_command_def flip: keygen_payload_def)
  have results: "arg_results 0 (keygen_args opts) rest =
      [VVarInt (word_of_int (option_version opts)), VVarInt (word_of_int (option_stream opts)),
       VVarInt (word_of_int (option_nonce_trials_per_byte opts)), VVarInt (word_of_int (option_payload_length_extra_bytes opts)),
       V8 (word_of_int (option_zeroes opts)), VVarStr \<lparr>vs_length = word_of_nat (length (option_label opts)), vs_data = option_label opts @ rest\<rparr>]"
    by (simp add: keygen_args_def)
  have label: "read_bytes (unat (word_of_nat (length (option_label opts)) :: u64)) (option_label opts @ rest) = Ok (option_label opts)"
    using assms by (simp add: keygen_ok_def read_bytes_def unat_of_nat)
  have v: "(word_of_int (option_version opts) :: u64) \<in> {0, 2, 3, 4}" "(word_of_int (option_version opts) :: u64) = 0 \<longleftrightarrow> option_version opts = 0"
    "(word_of_int (option_stream opts) :: u64) = 1" "uint (word_of_int (option_zeroes opts) :: u8) = option_zeroes opts"
    "(word_of_int (option_zeroes opts) :: u8) \<le> 2"
    using assms by (auto simp: keygen_ok_def)
  obtain n where n: "ntb_proto_get_command (keygen_payload opts @ rest) (word_of_nat (length (keygen_payload opts)))
     [NTB_PROTO_ARGUMENT_VAR_INT, NTB_PROTO_ARGUMENT_VAR_INT, NTB_PROTO_ARGUMENT_VAR_INT,
      NTB_PROTO_ARGUMENT_VAR_INT, NTB_PROTO_ARGUMENT_8, NTB_PROTO_ARGUMENT_VAR_STR] =
      Ok ([VVarInt (word_of_int (option_version opts)), VVarInt 1,
       VVarInt (word_of_int (option_nonce_trials_per_byte opts)), VVarInt (word_of_int (option_payload_length_extra_bytes opts)),
       V8 (word_of_int (option_zeroes opts)), VVarStr \<lparr>vs_length = word_of_nat (length (option_label opts)), vs_data = option_label opts @ rest\<rparr>], n)"
    using get [unfolded kinds results v(3)] by blast
  have "label_is_valid (option_label opts)" using assms label_valid by (simp add: keygen_ok_def)
  moreover have "\<not> ((word_of_int (option_version opts) :: u64) \<noteq> 0 \<and> ((word_of_int (option_version opts) :: u64) < 2 \<or>
      4 < (word_of_int (option_version opts) :: u64)))" "\<not> 2 < (word_of_int (option_zeroes opts) :: u8)"
    using v(1,5) by auto
  ultimately have "handle_keygen_command request_id (keygen_payload opts @ rest) (word_of_nat (length (keygen_payload opts))) kr sys conn w =
    (case ntb_keyring_create_key kr (ipc_keyring w) (keygen_params (if (word_of_int (option_version opts) :: u64) = 0 then 4 else word_of_int (option_version opts)) 1
        (if (word_of_int (option_nonce_trials_per_byte opts) :: u64) = 0 then 640 else word_of_int (option_nonce_trials_per_byte opts))
        (if (word_of_int (option_payload_length_extra_bytes opts) :: u64) = 0 then 14000 else word_of_int (option_payload_length_extra_bytes opts))
        (option_label opts)) (uint (word_of_int (option_zeroes opts) :: u8)) of (k, cookie) \<Rightarrow>
      Ok (w\<lparr>ipc_keyring := k\<rparr>, Some (conn\<lparr>tasks := \<lparr>keyring_cookie = cookie, task_request_id = request_id\<rparr> # tasks conn\<rparr>)))"
    by (intro keygen_accepted [OF n]) (use label in \<open>simp_all only: ntb_proto_var_str.select_convs simp_thms\<close>)
  then show ?thesis unfolding asked_params_def Let_def v(2,4) .
qed

lemma keygen_request:
  assumes "keygen_ok opts" "contents (send_keygen_command opts) = map Some (concat (map fst ms))"
    "\<forall>(p, fds) \<in> set ms. p \<noteq> [] \<and> length p \<le> 128" "buf_ok (inbuf conn)" "contents (inbuf conn) = []"
    "ntb_keyring_create_key kr (ipc_keyring w) (asked_params opts) (option_zeroes opts) = (k, cookie)"
  shows "\<exists>b. read_messages kr sys ms conn w = Some (Ok (w\<lparr>ipc_keyring := k\<rparr>,
    Some (conn\<lparr>fd_queue := fd_queue conn @ concat (map snd ms), inbuf := b, tasks := \<lparr>keyring_cookie = cookie, task_request_id = 0\<rparr> # tasks conn\<rparr>))) \<and> buf_ok b"
proof -
  let ?payload = "keygen_payload opts"
  let ?P = "\<lambda>w' c. \<exists>b. w' = w\<lparr>ipc_keyring := k\<rparr> \<and> buf_ok b \<and> c = conn\<lparr>fd_queue := fd_queue conn @ concat (map snd ms), inbuf := b,
    tasks := \<lparr>keyring_cookie = cookie, task_request_id = 0\<rparr> # tasks conn\<rparr>"
  have bytes: "[] @ concat (map fst ms) = ipc_frame ''keygen'' 0 ?payload"
    using keygen_command_frame [of opts] assms(2) by (simp add: inj_map_eq_map)
  have ms: "ms \<noteq> []" using arg_cong [OF bytes, of length] length_ipc_frame [of "''keygen''" 0 ?payload] by auto
  have name: "0 \<notin> set (str ''keygen'')" "length ''keygen'' < 12" by simp_all
  have len: "length ?payload + 20 < 2 ^ 32" using length_keygen_payload [of opts] by simp
  have names: "c_string (ipc_frame ''keygen'' 0 ?payload @ rest) = str ''keygen''" for rest by (rule ipc_frame_name [OF name])
  have run: "process_command (ipc_frame ''keygen'' 0 ?payload @ rest) (word_of_nat (length ?payload)) kr sys c w =
      Ok (w\<lparr>ipc_keyring := k\<rparr>, Some (c\<lparr>tasks := \<lparr>keyring_cookie = cookie, task_request_id = 0\<rparr> # tasks c\<rparr>))" for c rest
    using ipc_frame_parts [of "''keygen''" ?payload 0 rest] len keygen_command [OF assms(1), of 0 rest kr sys c w] assms(6)
    unfolding process_command_def names by (simp del: drop_append)
  have "\<exists>w' c. read_messages kr sys ms conn w = Some (Ok (w', Some c)) \<and> ?P w' c"
    by (rule read_command [OF assms(4) _ bytes ms assms(3) name len]) (use assms(5) run in auto)
  then show ?thesis by blast
qed

text \<open>The client prints the address that the daemon has sent.\<close>

lemma keygen_response:
  assumes "length (addr_ripe address) = 20" "length s < 0xfd" "data = key_payload address s"
  shows "keygen_handle_response (data @ rest) (word_of_nat (length data)) = Ok (s @ [0x0a])"
proof -
  let ?v = "ucast (addr_version address) :: u64" and ?s = "ucast (addr_stream address) :: u64"
  define h where "h = concat (map (arg_bytes 0) [AVarInt ?v, AVarInt ?s])"
  define t where "t = word_of_nat (length s) # s"
  have body: "arg_bytes 0 (AVarStr s) = t" using assms(2) by (simp add: t_def)
  have d: "data = h @ addr_ripe address @ t" using assms(3) body by (simp add: key_payload_def h_def)
  have "length h \<le> 18" using length_var_int [of ?v] length_var_int [of ?s] by (simp add: h_def)
  then have len: "length data < 2 ^ 31" using assms(1,2) d by (simp add: t_def)
  then have u: "unat (word_of_nat (length data) :: u32) = length data" by (simp add: unat_of_nat)
  obtain l where "get_arguments (map arg_kind [AVarInt ?v, AVarInt ?s]) (h @ addr_ripe address @ t @ rest, word_of_nat (length data)) =
      Ok (arg_results 0 [AVarInt ?v, AVarInt ?s] (addr_ripe address @ t @ rest), (addr_ripe address @ t @ rest, l))"
    using get_arguments_bytes [of 0 "[AVarInt ?v, AVarInt ?s]" "word_of_nat (length data)" "addr_ripe address @ t @ rest"] len u d
    unfolding h_def [symmetric] by simp
  then have head: "ntb_proto_get_command (data @ rest) (word_of_nat (length data)) [NTB_PROTO_ARGUMENT_VAR_INT, NTB_PROTO_ARGUMENT_VAR_INT] =
      Ok (arg_results 0 [AVarInt ?v, AVarInt ?s] (addr_ripe address @ t @ rest), length h)"
    unfolding ntb_proto_get_command_def d by (simp del: get_arguments.simps arg_results.simps)
  have "length data - (length h + 20) = length t" "length h + 20 \<le> length data" using d assms(1) by simp_all
  moreover from this have "unat (word_of_nat (length data) - word_of_nat (length h + 20) :: u32) = length t"
    using u unat_minus_of_nat [of "length h + 20" "word_of_nat (length data) :: u32"] by simp
  ultimately have str: "\<exists>l. ntb_proto_get_var_str (t @ rest, word_of_nat (length data) - word_of_nat (length h + 20)) =
      Ok (\<lparr>vs_length = word_of_nat (length s), vs_data = s @ rest\<rparr>, l)"
    using get_var_str_bytes [OF assms(2), of "word_of_nat (length data) - word_of_nat (length h + 20)" rest] assms(2)
    by (simp add: t_def del: of_nat_add)
  have "read_bytes (unat (word_of_nat (length s) :: u64)) (s @ rest) = Ok s"
    using assms(2) by (simp add: read_bytes_def unat_of_nat)
  moreover have "drop (length h + 20) (data @ rest) = t @ rest" using assms(1) by (simp add: d)
  ultimately show ?thesis using head str u \<open>length h + 20 \<le> length data\<close>
    unfolding keygen_handle_response_def by (auto simp del: arg_results.simps drop_append of_nat_add)
qed

lemma inbuf_new [simp]: "inbuf (new_connection fd) = ntb_buffer_init" "fd_queue (new_connection fd) = []" "tasks (new_connection fd) = []"
  by (simp_all add: new_connection_def)

lemma keygen_whole:
  assumes "bn_ok bn val" "digest_ok sha512" "address_ok address" "addr_version address \<noteq> 0"
    "conn_ok conn" "tasks conn = [task]" "contents (outbuf conn) = []" "task_request_id task = 0"
  shows "\<exists>conn' reply. create_key_cb bn sha512 0 address kr sys conn w = Some (Ok (w, Some conn')) \<and>
    contents (outbuf conn') = map Some reply \<and>
    (\<forall>qs. concat qs = reply \<and> (\<forall>q \<in> set qs. q \<noteq> [] \<and> length q \<le> 512) \<longrightarrow>
      (\<exists>buf s. ntb_ipc_client_get_response ntb_buffer_init 0 (map Client_Bytes qs) = Some (Ok (Inr buf)) \<and>
        keygen_handle_response (memory_of buf) (word_of_nat (buf_length buf)) = Ok (s @ [0x0a]) \<and>
        ntb_address_decode bn sha512 s = Ok address))"
proof -
  obtain s where s: "ntb_address_encode bn sha512 address = Some (Ok s)" "length s \<le> NTB_ADDRESS_MAX_LENGTH"
    "ntb_address_decode bn sha512 s = Ok address" using address_encode_decode [OF assms(1-4)] by blast
  have ls: "length s < 0xfd" using s(2) by (simp add: NTB_ADDRESS_MAX_LENGTH_def)
  let ?data = "key_payload address s"
  have ripe: "length (addr_ripe address) = 20" using assms(3) by (simp add: address_ok_def RIPEMD160_DIGEST_LENGTH_def)
  have ld: "length ?data + 24 < 2 ^ 32"
    using ripe ls length_var_int [of "ucast (addr_version address)"] length_var_int [of "ucast (addr_stream address)"] by (simp add: key_payload_def)
  obtain conn' where c: "create_key_cb bn sha512 0 address kr sys conn w = Some (Ok (w, Some conn'))"
    "contents (outbuf conn') = map Some (ipc_frame ''response'' 0 (be_bytes 4 (unat (0 :: u32)) @ ?data))"
    using create_key_eq [OF assms(5) s(1), of 0 kr sys w] assms(6-8) ld by auto
  have "\<exists>buf s. ntb_ipc_client_get_response ntb_buffer_init 0 (map Client_Bytes qs) = Some (Ok (Inr buf)) \<and>
      keygen_handle_response (memory_of buf) (word_of_nat (buf_length buf)) = Ok (s @ [0x0a]) \<and> ntb_address_decode bn sha512 s = Ok address"
    if qs: "concat qs = ipc_frame ''response'' 0 (be_bytes 4 (unat (0 :: u32)) @ ?data)" "\<forall>q \<in> set qs. q \<noteq> [] \<and> length q \<le> 512" for qs
  proof -
    let ?buf = "ntb_buffer_append ntb_buffer_init ?data"
    have b: "buf_ok ?buf" "contents ?buf = map Some ?data" by (simp_all add: ntb_contents)
    obtain rest where "memory_of ?buf = ?data @ rest" "buf_length ?buf = length ?data" using memory_of_contents [OF b] by blast
    then have "keygen_handle_response (memory_of ?buf) (word_of_nat (buf_length ?buf)) = Ok (s @ [0x0a])"
      using keygen_response [OF ripe ls refl, of rest] by simp
    moreover have "ntb_ipc_client_get_response ntb_buffer_init 0 (map Client_Bytes qs) = Some (Ok (Inr ?buf))"
      using get_response_eq [OF qs(1) ld qs(2)] by simp
    ultimately show ?thesis using s(3) by blast
  qed
  then show ?thesis using c by blast
qed

section \<open>Sending a mail\<close>

lemma email_request:
  assumes "concat (map fst ms) = email_command" "\<forall>(p, fds) \<in> set ms. p \<noteq> [] \<and> length p \<le> 128"
    "concat (map snd ms) = [fd]" "ntb_socket_set_nonblock sys fd = None"
    "buf_ok (inbuf conn)" "contents (inbuf conn) = []" "fd_queue conn = []"
  shows "\<exists>b. read_messages kr sys ms conn w = Some (Ok (w, Some (conn\<lparr>fd_queue := [], inbuf := b,
      emails := \<lparr>email_parser = ntb_mail_parser_new (junk_header sys) (junk_base64 sys) (junk_qp sys) (fresh_mail (junk_address sys)),
        email_fd = fd, email_request_id = 0\<rparr> # emails conn\<rparr>))) \<and> buf_ok b"
proof -
  let ?e = "\<lparr>email_parser = ntb_mail_parser_new (junk_header sys) (junk_base64 sys) (junk_qp sys) (fresh_mail (junk_address sys)),
        email_fd = fd, email_request_id = 0\<rparr>"
  let ?P = "\<lambda>w' c. \<exists>b. w' = w \<and> buf_ok b \<and> c = conn\<lparr>fd_queue := [], inbuf := b, emails := ?e # emails conn\<rparr>"
  have bytes: "[] @ concat (map fst ms) = ipc_frame ''email'' 0 []" using assms(1) email_command_frame by simp
  have ms: "ms \<noteq> []" using assms(3) by auto
  have name: "0 \<notin> set (str ''email'')" "length ''email'' < 12" by simp_all
  have run: "process_command (ipc_frame ''email'' 0 [] @ rest) (word_of_nat (length ([] :: u8 list))) kr sys (c\<lparr>fd_queue := [fd], inbuf := b\<rparr>) w =
      Ok (w, Some (c\<lparr>fd_queue := [], inbuf := b, emails := ?e # emails c\<rparr>))" for c rest b
    using ipc_frame_parts(1) [of "''email''" "[]" 0 rest] assms(4)
    unfolding process_command_def ipc_frame_name(2) [OF name]
    by (simp add: handle_email_command_def get_fd_def Let_def fresh_mail_def del: drop_append)
  have "\<exists>w' c. read_messages kr sys ms conn w = Some (Ok (w', Some c)) \<and> ?P w' c"
    by (rule read_command [OF assms(5) _ bytes ms assms(2) name]) (use assms(3,6,7) run [where c = conn] in auto)
  then show ?thesis by blast
qed

text \<open>The email at the head of the list is read to its end.\<close>

fun read_email ::
    "address_reader \<Rightarrow> 'k keyring_ops \<Rightarrow> kernel \<Rightarrow> u8 list list \<Rightarrow> ntb_ipc_connection \<Rightarrow> 'k ipc_world \<Rightarrow> 'k ipc_result outcome" where
  "read_email rd kr sys [] conn w = email_poll_cb rd 0 Email_Eof [] kr sys conn w"
| "read_email rd kr sys (d # ds) conn w =
     (case email_poll_cb rd 0 (Email_Bytes d) [] kr sys conn w of
        Ok (w, Some conn) \<Rightarrow> read_email rd kr sys ds conn w
      | r \<Rightarrow> r)"

lemma read_email_pieces:
  assumes "emails conn = [e]" "parse_pieces rd mail_parser_cb (email_parser e) ds = Ok mp"
  shows "read_email rd kr sys ds conn w = read_email rd kr sys [] (conn\<lparr>emails := [e\<lparr>email_parser := mp\<rparr>]\<rparr>) w"
  using assms
proof (induction ds arbitrary: conn e)
  case Nil
  then have "e\<lparr>email_parser := mp\<rparr> = e" "conn\<lparr>emails := [e]\<rparr> = conn" by (cases e; cases conn; simp)+
  then show ?case by simp
next
  case (Cons d ds)
  then obtain m where m: "ntb_mail_parser_parse rd mail_parser_cb (email_parser e) d = Ok m"
    "parse_pieces rd mail_parser_cb m ds = Ok mp" by auto
  let ?c = "conn\<lparr>emails := [e\<lparr>email_parser := m\<rparr>]\<rparr>"
  have "email_poll_cb rd 0 (Email_Bytes d) [] kr sys conn w = Ok (w, Some ?c)"
    using Cons.prems(1) m(1) by (simp add: email_poll_cb_def Let_def)
  moreover have "read_email rd kr sys ds ?c w = read_email rd kr sys [] (?c\<lparr>emails := [e\<lparr>email_parser := m, email_parser := mp\<rparr>]\<rparr>) w"
    by (rule Cons.IH) (use m(2) in simp_all)
  ultimately show ?case by simp
qed

fun send_status :: "send_result \<Rightarrow> ntb_ipc_proto_status" where
  "send_status Sent = NTB_IPC_PROTO_STATUS_SUCCESS"
| "send_status (Unknown_From_Address message) = NTB_IPC_PROTO_STATUS_UNKNOWN_FROM_ADDRESS"
| "send_status (Send_Error message) = NTB_IPC_PROTO_STATUS_GENERIC_ERROR"

fun send_text :: "send_result \<Rightarrow> u8 list" where
  "send_text Sent = []"
| "send_text (Unknown_From_Address message) = message"
| "send_text (Send_Error message) = message"

lemma send_email_eq:
  assumes "conn_ok conn" "emails conn = [e]" "mp_user (email_parser e) = mail" "length (send_text res) + 4 < 2 ^ 32"
    "ntb_keyring_send_message kr (ipc_keyring w) (from_address mail) (to_addresses mail) (content_encoding mail) (email_content mail) = (k, res)"
  shows "\<exists>c. then_remove_email 0 (send_email 0 kr sys conn w) = Ok (w\<lparr>ipc_keyring := k, closed := closed w @ [email_fd e]\<rparr>, Some c) \<and>
    emails c = [] \<and> contents (outbuf c) = contents (outbuf conn) @
      map Some (ipc_frame ''response'' (email_request_id e) (be_bytes 4 (unat (status_code (send_status res))) @ send_text res))"
proof -
  define f where "f = e\<lparr>email_parser := (email_parser e)\<lparr>mp_user := mail\<lparr>email_content := []\<rparr>\<rparr>\<rparr>"
  define c where "c = conn\<lparr>emails := [f]\<rparr>"
  have c: "buf_ok (outbuf c)" "\<not> write_finished c" "outbuf c = outbuf conn" "emails c = [f]" "email_fd f = email_fd e"
    using assms(1) by (simp_all add: c_def conn_ok_def f_def)
  let ?w = "w\<lparr>ipc_keyring := k\<rparr>"
  let ?frame = "ipc_frame ''response'' (email_request_id e) (be_bytes 4 (unat (status_code (send_status res))) @ send_text res)"
  have "\<exists>c'. send_email 0 kr sys conn w = (?w, Some c') \<and> responded c c' \<and> contents (outbuf c') = contents (outbuf conn) @ map Some ?frame"
  proof -
    have run: "send_email 0 kr sys conn w = (case res of
        Sent \<Rightarrow> end_send_response kr sys (begin_send_response (email_request_id e) NTB_IPC_PROTO_STATUS_SUCCESS c) ?w
      | Unknown_From_Address message \<Rightarrow> send_response (email_request_id e) NTB_IPC_PROTO_STATUS_UNKNOWN_FROM_ADDRESS message kr sys c ?w
      | Send_Error message \<Rightarrow> send_response (email_request_id e) NTB_IPC_PROTO_STATUS_GENERIC_ERROR message kr sys c ?w)"
      using assms(2,3,5) by (cases res) (simp_all add: send_email_def Let_def f_def c_def)
    show ?thesis
    proof (cases res)
      case Sent
      then show ?thesis using run send_empty_response [OF c(1,2), of kr sys "email_request_id e" NTB_IPC_PROTO_STATUS_SUCCESS ?w] c(3) by simp
    next
      case (Unknown_From_Address message)
      then show ?thesis using run assms(4) c(3)
          send_response_eq [OF c(1,2), of "email_request_id e" NTB_IPC_PROTO_STATUS_UNKNOWN_FROM_ADDRESS message kr sys ?w] by auto
    next
      case (Send_Error message)
      then show ?thesis using run assms(4) c(3)
          send_response_eq [OF c(1,2), of "email_request_id e" NTB_IPC_PROTO_STATUS_GENERIC_ERROR message kr sys ?w] by auto
    qed
  qed
  then obtain c' where c': "send_email 0 kr sys conn w = (?w, Some c')" "responded c c'" "contents (outbuf c') = contents (outbuf conn) @ map Some ?frame"
    by blast
  have "emails c' = [f]" using c'(2) c(4) by (auto simp: responded_def)
  then show ?thesis using c'(1,3) c(5) by (simp add: then_remove_email_def remove_email_def close_fds_def remove_nth_def)
qed

section \<open>Commands that are carried out again\<close>

lemma keygen_short: "length ''keygen'' \<le> 12"
  by simp

lemma keygen_frame_command:
  assumes "keygen_ok opts" "ntb_keyring_create_key kr (ipc_keyring w) (asked_params opts) (option_zeroes opts) = (k, cookie)"
  shows "process_loop kr sys (ipc_frame ''keygen'' request_id (keygen_payload opts) @ rest)
      (length (ipc_frame ''keygen'' request_id (keygen_payload opts)) + n) conn w =
    process_loop kr sys rest n (conn\<lparr>tasks := \<lparr>keyring_cookie = cookie, task_request_id = request_id\<rparr> # tasks conn\<rparr>) (w\<lparr>ipc_keyring := k\<rparr>)"
proof -
  let ?f = "ipc_frame ''keygen'' request_id (keygen_payload opts)"
  have name: "0 \<notin> set (str ''keygen'')" "length ''keygen'' < 12" by simp_all
  have len: "length (keygen_payload opts) + 20 < 2 ^ 32" using length_keygen_payload [of opts] by simp
  have "process_command (?f @ rest) (word_of_nat (length (keygen_payload opts))) kr sys conn w =
      Ok (w\<lparr>ipc_keyring := k\<rparr>, Some (conn\<lparr>tasks := \<lparr>keyring_cookie = cookie, task_request_id = request_id\<rparr> # tasks conn\<rparr>))"
    using ipc_frame_parts [of "''keygen''" "keygen_payload opts" request_id rest] len
      keygen_command [OF assms(1), of request_id rest kr sys conn w] assms(2)
    unfolding process_command_def ipc_frame_name(2) [OF name] by (simp del: drop_append)
  from process_loop_command [OF name len this] show ?thesis .
qed

section \<open>Properties\<close>

text \<open>
  C17: a session of \<open>notbit-keygen\<close>, end to end. For options that the daemon supports, the bytes that the
  client writes are read by the daemon, in whatever pieces of at most 128 bytes they arrive, as exactly one
  request to make a key with these options; when the key is there, the reply can be read by the client,
  again in any pieces, and what the client prints is a text that decodes to the address of the key.
\<close>

theorem keygen_end_to_end:
  assumes "bn_ok bn val" "digest_ok sha512" "address_ok address" "addr_version address \<noteq> 0" "keygen_ok opts"
    and "contents (send_keygen_command opts) = map Some (concat ps)" "\<forall>p \<in> set ps. p \<noteq> [] \<and> length p \<le> 128"
    and "ntb_keyring_create_key kr (ipc_keyring w) (asked_params opts) (option_zeroes opts) = (k, cookie)"
  shows "\<exists>conn. read_messages kr sys (map (\<lambda>p. (p, [])) ps) (new_connection fd) w = Some (Ok (w\<lparr>ipc_keyring := k\<rparr>, Some conn)) \<and>
    map keyring_cookie (tasks conn) = [cookie] \<and> contents (outbuf conn) = [] \<and>
    (\<forall>w'. \<exists>conn' reply. create_key_cb bn sha512 0 address kr sys conn w' = Some (Ok (w', Some conn')) \<and>
      contents (outbuf conn') = map Some reply \<and>
      (\<forall>qs. concat qs = reply \<and> (\<forall>q \<in> set qs. q \<noteq> [] \<and> length q \<le> 512) \<longrightarrow>
        (\<exists>buf s. ntb_ipc_client_get_response ntb_buffer_init 0 (map Client_Bytes qs) = Some (Ok (Inr buf)) \<and>
          keygen_handle_response (memory_of buf) (word_of_nat (buf_length buf)) = Ok (s @ [0x0a]) \<and>
          ntb_address_decode bn sha512 s = Ok address)))"
proof -
  let ?ms = "map (\<lambda>p. (p, [] :: int list)) ps"
  have ms: "map fst ?ms = ps" "concat (map snd ?ms) = []" by (simp_all add: comp_def)
  have "contents (send_keygen_command opts) = map Some (concat (map fst ?ms))" "\<forall>(p, fds) \<in> set ?ms. p \<noteq> [] \<and> length p \<le> 128"
    using assms(6,7) ms(1) by auto
  note req = keygen_request [OF assms(5) this, of "new_connection fd" kr w k cookie sys, unfolded ms(2)]
  obtain b where b: "read_messages kr sys ?ms (new_connection fd) w = Some (Ok (w\<lparr>ipc_keyring := k\<rparr>, Some ((new_connection fd)
      \<lparr>fd_queue := [], inbuf := b, tasks := [\<lparr>keyring_cookie = cookie, task_request_id = 0\<rparr>]\<rparr>)))" "buf_ok b"
    using req assms(8) by auto
  let ?c = "(new_connection fd)\<lparr>fd_queue := [], inbuf := b, tasks := [\<lparr>keyring_cookie = cookie, task_request_id = 0\<rparr>]\<rparr>"
  have ok: "conn_ok ?c" "tasks ?c = [\<lparr>keyring_cookie = cookie, task_request_id = 0\<rparr>]" "contents (outbuf ?c) = []"
    using b(2) by (simp_all add: conn_ok_def new_connection_def)
  have reply: "\<forall>w'. \<exists>conn' reply. create_key_cb bn sha512 0 address kr sys ?c w' = Some (Ok (w', Some conn')) \<and>
      contents (outbuf conn') = map Some reply \<and>
      (\<forall>qs. concat qs = reply \<and> (\<forall>q \<in> set qs. q \<noteq> [] \<and> length q \<le> 512) \<longrightarrow>
        (\<exists>buf s. ntb_ipc_client_get_response ntb_buffer_init 0 (map Client_Bytes qs) = Some (Ok (Inr buf)) \<and>
          keygen_handle_response (memory_of buf) (word_of_nat (buf_length buf)) = Ok (s @ [0x0a]) \<and>
          ntb_address_decode bn sha512 s = Ok address))"
    by (rule allI, rule keygen_whole [OF assms(1-4) ok]) simp
  have "map keyring_cookie (tasks ?c) = [cookie]" by simp
  from conjI [OF b(1) conjI [OF this conjI [OF ok(3) reply]]] show ?thesis by (rule exI)
qed

text \<open>
  C37: the daemon carries out a command again whenever more bytes arrive: \<open>process_commands\<close> leaves the
  commands that it has handled in the buffer. A client that sends two requests for a key, one after the
  other, makes the daemon create three keys: the first one twice.
\<close>

theorem commands_run_again:
  assumes "keygen_ok opts1" "keygen_ok opts2"
    and "f1 = ipc_frame ''keygen'' id1 (keygen_payload opts1)" "f2 = ipc_frame ''keygen'' id2 (keygen_payload opts2)"
    and "length f1 \<le> 128" "length f2 \<le> 128"
    and "ntb_keyring_create_key kr (ipc_keyring w) (asked_params opts1) (option_zeroes opts1) = (k1, c1)"
    and "ntb_keyring_create_key kr k1 (asked_params opts1) (option_zeroes opts1) = (k2, c2)"
    and "ntb_keyring_create_key kr k2 (asked_params opts2) (option_zeroes opts2) = (k3, c3)"
  shows "\<exists>conn. read_messages kr sys [(f1, []), (f2, [])] (new_connection fd) w = Some (Ok (w\<lparr>ipc_keyring := k3\<rparr>, Some conn)) \<and>
    map (\<lambda>t. (keyring_cookie t, task_request_id t)) (tasks conn) = [(c3, id2), (c2, id1), (c1, id1)]"
proof -
  let ?t1 = "\<lparr>keyring_cookie = c1, task_request_id = id1\<rparr>" and ?t2 = "\<lparr>keyring_cookie = c2, task_request_id = id1\<rparr>"
    and ?t3 = "\<lparr>keyring_cookie = c3, task_request_id = id2\<rparr>"
  have ne: "f1 \<noteq> []" "f2 \<noteq> []" using assms(3,4) length_ipc_frame [of "''keygen''" _ "keygen_payload _"] by (metis list.size(3) add_is_0 zero_neq_numeral keygen_short)+
  obtain b1 r1 where b1: "deposit (ntb_buffer_ensure_size ntb_buffer_init (buf_length ntb_buffer_init + 128)) f1 = Ok b1" "buf_ok b1"
    "contents b1 = map Some ([] @ f1)" "memory_of b1 = [] @ f1 @ r1" "buf_length b1 = length ([] @ f1)"
    using read_bytes_into [OF buf_ok_init, of "[]" f1] assms(5) by auto
  define conn1 where "conn1 = (new_connection fd)\<lparr>inbuf := b1, tasks := [?t1]\<rparr>"
  have "process_loop kr sys (f1 @ r1) (length f1 + 0) ((new_connection fd)\<lparr>fd_queue := [], inbuf := b1\<rparr>) w =
      process_loop kr sys r1 0 ((new_connection fd)\<lparr>fd_queue := [], inbuf := b1, tasks := [?t1]\<rparr>) (w\<lparr>ipc_keyring := k1\<rparr>)"
    unfolding assms(3) by (subst keygen_frame_command [OF assms(1,7)]) simp
  then have 1: "handle_read (Recv f1 []) kr sys (new_connection fd) w = Some (Ok (w\<lparr>ipc_keyring := k1\<rparr>, Some conn1))"
    using b1 ne(1) by (simp add: handle_read_def Let_def process_control_data_def process_commands_def process_loop.simps [of _ _ _ 0] conn1_def
        new_connection_def)
  obtain b2 r2 where b2: "deposit (ntb_buffer_ensure_size b1 (buf_length b1 + 128)) f2 = Ok b2" "buf_ok b2"
    "contents b2 = map Some (f1 @ f2)" "memory_of b2 = f1 @ f2 @ r2" "buf_length b2 = length (f1 @ f2)"
    using read_bytes_into [OF b1(2), of f1 f2] b1(3) assms(6) by auto
  let ?c = "conn1\<lparr>fd_queue := [], inbuf := b2\<rparr>"
  have "process_loop kr sys (f1 @ f2 @ r2) (length f1 + (length f2 + 0)) ?c (w\<lparr>ipc_keyring := k1\<rparr>) =
      process_loop kr sys (f2 @ r2) (length f2 + 0) (?c\<lparr>tasks := [?t2, ?t1]\<rparr>) (w\<lparr>ipc_keyring := k2\<rparr>)"
    unfolding assms(3) using assms(8) by (subst keygen_frame_command [OF assms(1)]) (simp_all add: conn1_def)
  also have "\<dots> = process_loop kr sys r2 0 (?c\<lparr>tasks := [?t3, ?t2, ?t1]\<rparr>) (w\<lparr>ipc_keyring := k3\<rparr>)"
    unfolding assms(4) using assms(9) by (subst keygen_frame_command [OF assms(2)]) simp_all
  finally have "handle_read (Recv f2 []) kr sys conn1 (w\<lparr>ipc_keyring := k1\<rparr>) =
      Some (Ok (w\<lparr>ipc_keyring := k3\<rparr>, Some (?c\<lparr>tasks := [?t3, ?t2, ?t1]\<rparr>)))"
    using b2 ne(2) by (simp add: handle_read_def Let_def process_control_data_def process_commands_def process_loop.simps [of _ _ _ 0] conn1_def
        new_connection_def)
  then show ?thesis using 1 by simp
qed

text \<open>
  C18: a session of \<open>notbit-sendmail\<close>, end to end. The command that the client has sent, with the descriptor
  of its standard input, however often \<open>sendmsg\<close> was interrupted or took only a part, makes the daemon read
  exactly one mail from the descriptor as it has received it; when the mail is accepted to its end, the key
  ring is asked once to send it, from the sender and to the recipients of the mail, the descriptor is closed,
  and the response has the status of the key ring's answer.
\<close>

theorem sendmail_end_to_end:
  assumes "\<forall>n. Took n \<in> set results \<longrightarrow> 0 < n" "send_email_command results True = Some ms"
    and "ntb_socket_set_nonblock sys (dup 0) = None" "\<forall>d \<in> set ds. length d \<le> 512"
    and "parse_pieces rd mail_parser_cb (ntb_mail_parser_new (junk_header sys) (junk_base64 sys) (junk_qp sys)
        (fresh_mail (junk_address sys))) ds = Ok mp"
    and "ntb_mail_parser_end mail_parser_cb mp = Ok mp'" "mp_user mp' = mail"
    and "ntb_keyring_send_message kr (ipc_keyring w) (from_address mail) (to_addresses mail) (content_encoding mail) (email_content mail) = (k, res)"
    and "length (send_text res) + 4 < 2 ^ 32"
  shows "\<exists>conn conn'. read_messages kr sys (map (\<lambda>(p, fds). (p, map dup fds)) ms) (new_connection fd) w = Some (Ok (w, Some conn)) \<and>
    map email_fd (emails conn) = [dup 0] \<and>
    read_email rd kr sys ds conn w = Ok (w\<lparr>ipc_keyring := k, closed := closed w @ [dup 0]\<rparr>, Some conn') \<and> emails conn' = [] \<and>
    contents (outbuf conn') = map Some (ipc_frame ''response'' 0 (be_bytes 4 (unat (status_code (send_status res))) @ send_text res)) \<and>
    to_addresses mail \<noteq> []"
proof -
  have "email_command \<noteq> []" by (simp add: email_command_def)
  then obtain m qs where m: "ms = (m, [0]) # map (\<lambda>m. (m, [])) qs" "m \<noteq> []" "[] \<notin> set qs" "m @ concat qs = email_command"
    using send_command_complete [OF assms(1) assms(2) [unfolded send_email_command_def]] by blast
  let ?ms = "map (\<lambda>(p, fds). (p, map dup fds)) ms"
  have total: "length m + length (concat qs) = 20" using arg_cong [OF m(4), of length] by (simp add: email_command_def)
  have "length q \<le> length (concat qs)" if "q \<in> set qs" for q using that by (induction qs) auto
  then have "length q \<le> 128" if "q \<in> set qs" for q using that total by fastforce
  then have short: "\<forall>(p, fds) \<in> set ?ms. p \<noteq> [] \<and> length p \<le> 128" using m(1-3) total by auto
  have bytes: "concat (map fst ?ms) = email_command" and fds: "concat (map snd ?ms) = [dup 0]"
    using m by (simp_all add: comp_def)
  define e where "e = \<lparr>email_parser = ntb_mail_parser_new (junk_header sys) (junk_base64 sys) (junk_qp sys) (fresh_mail (junk_address sys)),
        email_fd = dup 0, email_request_id = 0\<rparr>"
  obtain b where b: "buf_ok b" "read_messages kr sys ?ms (new_connection fd) w =
      Some (Ok (w, Some ((new_connection fd)\<lparr>fd_queue := [], inbuf := b, emails := [e]\<rparr>)))"
    using email_request [OF bytes short fds assms(3), of "new_connection fd" kr w] by (auto simp: e_def new_connection_def)
  let ?c = "(new_connection fd)\<lparr>fd_queue := [], inbuf := b, emails := [e]\<rparr>"
  let ?d = "?c\<lparr>emails := [e\<lparr>email_parser := mp'\<rparr>]\<rparr>"
  have "conn_ok ?d" "contents (outbuf ?d) = []" using b(1) by (simp_all add: conn_ok_def new_connection_def)
  then obtain c' where c': "then_remove_email 0 (send_email 0 kr sys ?d w) = Ok (w\<lparr>ipc_keyring := k, closed := closed w @ [dup 0]\<rparr>, Some c')"
    "emails c' = []" "contents (outbuf c') = map Some (ipc_frame ''response'' 0 (be_bytes 4 (unat (status_code (send_status res))) @ send_text res))"
    using send_email_eq [of ?d "e\<lparr>email_parser := mp'\<rparr>" mail res kr w k sys] assms(7-9) by (auto simp: e_def)
  have "read_email rd kr sys ds ?c w = then_remove_email 0 (send_email 0 kr sys ?d w)"
    using read_email_pieces [of ?c e rd ds mp kr sys w] assms(5,6) by (simp add: email_poll_cb_def Let_def e_def)
  moreover have "to_addresses mail \<noteq> []"
  proof -
    have "mail_run rd mail_parser_cb (ntb_mail_parser_new (junk_header sys) (junk_base64 sys) (junk_qp sys) (fresh_mail (junk_address sys)))
        (concat ds) = Ok mp" using ipc_mail.pieces_run [OF new_decoder assms(4)] assms(5) by simp
    from mail_run_trace [OF this new_trace] show ?thesis using end_trace [OF assms(6)] trace_mail assms(7) by fastforce
  qed
  moreover have "map email_fd (emails ?c) = [dup 0]" by (simp add: e_def)
  ultimately show ?thesis using b(2) c'
    by - (rule exI [of _ ?c], rule exI [of _ c'], intro conjI, simp_all)
qed

text \<open>A header whose length is 20 short of \<open>2^32\<close>, in a connection without descriptors.\<close>

definition endless_header :: "u8 list" where
  "endless_header = str ''email'' @ [0, 0, 0, 0, 0, 0, 0] @ [0, 0, 0, 0] @ [0xff, 0xff, 0xff, 0xec]"

lemma endless_loop: "process_loop kr sys data n conn w = Some res \<Longrightarrow>
  \<not> (take 20 data = endless_header \<and> 20 \<le> n \<and> conn_ok conn \<and> fd_queue conn = [])"
proof (rule process_loop.raw_induct [where P = "\<lambda>kr sys data n conn w res.
    \<not> (take 20 data = endless_header \<and> 20 \<le> n \<and> conn_ok conn \<and> fd_queue conn = [])"], rule notI)
  fix loop kr sys data n conn w res
  assume IH: "\<And>kr sys data n conn w res. loop kr sys data n conn w = Some res \<Longrightarrow>
      \<not> (take 20 data = endless_header \<and> 20 \<le> n \<and> conn_ok conn \<and> fd_queue conn = [])"
    and st: "take 20 data = endless_header \<and> 20 \<le> n \<and> conn_ok conn \<and> fd_queue conn = []"
    and run: "(if n < 20 then Some (Ok ((w, Some conn), True))
      else
        (case ntb_proto_get_32 (drop 16 data) of
          Fault \<Rightarrow> Some Fault
        | Fail \<Rightarrow> Some Fail
        | Ok command_length \<Rightarrow>
            if n < unat (command_length + 20) then Some (Ok ((w, Some conn), True))
            else if \<not> ntb_proto_check_command_string data then Some (Ok ((remove_connection kr conn w, None), False))
            else
              (case process_command data command_length kr sys conn w of
                Fault \<Rightarrow> Some Fault
              | Fail \<Rightarrow> Some Fail
              | Ok (w, None) \<Rightarrow> Some (Ok ((w, None), False))
              | Ok (w, Some conn) \<Rightarrow>
                  loop kr sys (drop (unat (command_length + 20)) data) (n - unat (command_length + 20)) conn w))) = Some res"
  obtain rest where d: "data = str ''email'' @ replicate (12 - length (str ''email'')) 0 @ [0, 0, 0, 0, 0xff, 0xff, 0xff, 0xec] @ rest"
  proof -
    have "data = endless_header @ drop 20 data" using st append_take_drop_id [of 20 data] by simp
    then show thesis using that [of "drop 20 data"] by (simp add: endless_header_def numeral_eq_Suc)
  qed
  have "drop 16 data = [0xff, 0xff, 0xff, 0xec] @ rest" "drop 12 data = [0, 0, 0, 0] @ [0xff, 0xff, 0xff, 0xec] @ rest"
    unfolding d by (simp_all add: numeral_eq_Suc)
  moreover have "be_value [0xff, 0xff, 0xff, 0xec] = 4294967276" "be_value [0, 0, 0, 0] = 0" by (simp_all add: be_value_def)
  ultimately have len: "ntb_proto_get_32 (drop 16 data) = Ok (- 20)" "ntb_proto_get_32 (drop 12 data) = Ok 0"
    by (simp_all add: ntb_proto_get_32_def get_be_def read_bytes_def)
  have name: "ntb_proto_check_command_string data" "c_string data = str ''email''"
    unfolding d by (rule check_command_string_name c_string_name; simp)+
  obtain c where c: "handle_email_command 0 kr sys conn w = (w, Some c)" "conn_ok c" "fd_queue c = []"
  proof -
    obtain c where "handle_email_command 0 kr sys conn w = (w, Some c)" "responded conn c"
      using send_response_ok [of conn 0 NTB_IPC_PROTO_STATUS_INVALID_COMMAND "str ''email command was sent without a file descriptor argument''" kr sys w] st
      unfolding handle_email_command_def by (metis (no_types, lifting))
    then show thesis using that responded_ok [of conn c] st by (auto simp: conn_ok_def)
  qed
  have "process_command data (- 20) kr sys conn w = Ok (w, Some c)" using len(2) name(2) c(1) by (simp add: process_command_def)
  then have "loop kr sys data n c w = Some res" using run st len(1) name(1) by simp
  from IH [OF this] show False using st c by blast
qed

text \<open>
  C39: the sum of the length of a command and its header has 32 bits and can wrap to zero. A header of an
  \<open>email\<close> command with the length \<open>2^32 - 20\<close> on a new connection makes the daemon answer it over and over
  again: \<open>process_commands\<close> never returns to the main loop.
\<close>

theorem endless_command: "handle_read (Recv endless_header []) kr sys (new_connection fd) w = None"
proof -
  have l: "length endless_header = 20" by (simp add: endless_header_def)
  obtain b rest where b: "deposit (ntb_buffer_ensure_size ntb_buffer_init (buf_length ntb_buffer_init + 128)) endless_header = Ok b" "buf_ok b"
    "contents b = map Some endless_header" "memory_of b = endless_header @ rest" "buf_length b = length endless_header"
    using read_bytes_into [OF buf_ok_init, of "[]" endless_header] l by auto
  let ?c = "(new_connection fd)\<lparr>fd_queue := [], inbuf := b\<rparr>"
  have "conn_ok ?c" using b(2) by (simp add: conn_ok_def new_connection_def)
  then have "process_loop kr sys (endless_header @ rest) 20 ?c w = None"
    using endless_loop [of kr sys "endless_header @ rest" 20 ?c w] l by (cases "process_loop kr sys (endless_header @ rest) 20 ?c w") auto
  then show ?thesis using b l by (auto simp: handle_read_def Let_def process_control_data_def process_commands_def)
qed

text \<open>
  C19: through any sequence of callbacks, whatever the kernel and the key ring answer, every descriptor that
  the daemon was given by \<open>accept\<close> or together with a command is either closed, exactly once, or owned by
  exactly one connection, which still polls for input or output or has a mail to read or a key to wait for:
  no descriptor is lost or closed twice, and no connection is left without anything that could wake it up.
\<close>

theorem ipc_keeps_descriptors:
  assumes "ipc_run rd bn sha512 kr start fds ipc" "connections start = []" "closed (ipc_world start) = []"
  shows "mset (closed (ipc_world ipc)) + \<Sum>\<^sub># (image_mset held_fds (mset (connections ipc))) = fds \<and>
    (\<forall>conn \<in> set (connections ipc). \<not> write_finished conn \<and> (poll_out conn \<longleftrightarrow> 0 < buf_length (outbuf conn)) \<and>
      (poll_in conn \<or> poll_out conn \<or> emails conn \<noteq> [] \<or> tasks conn \<noteq> []))"
  using ipc_run_ok [OF assms(1)] assms(2,3) by (auto simp: ipc_fds_def conn_ok_def)

section \<open>Witnesses\<close>

definition toy_keyring :: "nat keyring_ops" where
  "toy_keyring = \<lparr>ntb_keyring_send_message = (\<lambda>k from to encoding content. (k, Sent)),
     ntb_keyring_create_key = (\<lambda>k params zeroes. (k + 1, k)), ntb_keyring_cancel_task = (\<lambda>k cookie. k)\<rparr>"

definition toy_kernel :: kernel where
  "toy_kernel = \<lparr>ntb_socket_set_nonblock = (\<lambda>fd. None), shutdown_wr = (\<lambda>fd. True), junk_header = NTB_MAIL_PARSER_SKIP,
     junk_base64 = ntb_base64_decode_start, junk_qp = ntb_quoted_printable_decode_start 0 False,
     junk_address = \<lparr>addr_version = 0, addr_stream = 0, addr_ripe = []\<rparr>\<rparr>"

definition toy_world :: "nat ipc_world" where
  "toy_world = \<lparr>ipc_keyring = 0, closed = []\<rparr>"

definition toy_options :: keygen_options where
  "toy_options = \<lparr>option_version = 0, option_stream = 1, option_zeroes = 1, option_nonce_trials_per_byte = 0,
     option_payload_length_extra_bytes = 0, option_label = str ''mine''\<rparr>"

lemma toy_options_ok: "keygen_ok toy_options" "length (ipc_frame ''keygen'' 0 (keygen_payload toy_options)) = 30"
  by (simp_all add: keygen_ok_def toy_options_def length_ipc_frame keygen_payload_def keygen_args_def var_int_bytes_def)

theorem keygen_end_to_end_witness:
  "\<exists>conn. read_messages toy_keyring toy_kernel (map (\<lambda>p. (p, [])) [take 7 (ipc_frame ''keygen'' 0 (keygen_payload toy_options)),
        drop 7 (ipc_frame ''keygen'' 0 (keygen_payload toy_options))]) (new_connection 5) toy_world =
      Some (Ok (toy_world\<lparr>ipc_keyring := 1\<rparr>, Some conn)) \<and>
    map keyring_cookie (tasks conn) = [0] \<and> contents (outbuf conn) = [] \<and>
    (\<forall>w'. \<exists>conn' reply. create_key_cb nat_bignum sample_digest 0 sample_address toy_keyring toy_kernel conn w' = Some (Ok (w', Some conn')) \<and>
      contents (outbuf conn') = map Some reply \<and>
      (\<forall>qs. concat qs = reply \<and> (\<forall>q \<in> set qs. q \<noteq> [] \<and> length q \<le> 512) \<longrightarrow>
        (\<exists>buf s. ntb_ipc_client_get_response ntb_buffer_init 0 (map Client_Bytes qs) = Some (Ok (Inr buf)) \<and>
          keygen_handle_response (memory_of buf) (word_of_nat (buf_length buf)) = Ok (s @ [0x0a]) \<and>
          ntb_address_decode nat_bignum sample_digest s = Ok sample_address)))"
proof -
  let ?f = "ipc_frame ''keygen'' 0 (keygen_payload toy_options)"
  have "contents (send_keygen_command toy_options) = map Some (concat [take 7 ?f, drop 7 ?f])"
    using keygen_command_frame [of toy_options] by simp
  moreover have "\<forall>p \<in> set [take 7 ?f, drop 7 ?f]. p \<noteq> [] \<and> length p \<le> 128" using toy_options_ok(2) by auto
  moreover have "ntb_keyring_create_key toy_keyring (ipc_keyring toy_world) (asked_params toy_options) (option_zeroes toy_options) = (1, 0)"
    by (simp add: toy_keyring_def toy_world_def)
  ultimately show ?thesis
    by (intro keygen_end_to_end [OF nat_bignum_ok _ _ _ toy_options_ok(1)])
      (simp_all add: digest_ok_def sample_digest_def sample_address_def address_ok_def RIPEMD160_DIGEST_LENGTH_def)
qed

theorem commands_run_again_witness:
  "\<exists>conn. read_messages toy_keyring toy_kernel [(ipc_frame ''keygen'' 0 (keygen_payload toy_options), []),
        (ipc_frame ''keygen'' 0 (keygen_payload toy_options), [])] (new_connection 5) toy_world = Some (Ok (toy_world\<lparr>ipc_keyring := 3\<rparr>, Some conn)) \<and>
    map (\<lambda>t. (keyring_cookie t, task_request_id t)) (tasks conn) = [(2, 0), (1, 0), (0, 0)]"
  by (rule commands_run_again [OF toy_options_ok(1) toy_options_ok(1) refl refl])
    (simp_all add: toy_options_ok(2), simp_all add: toy_keyring_def toy_world_def)

theorem sendmail_end_to_end_witness:
  "\<exists>conn conn'. read_messages toy_keyring toy_kernel (map (\<lambda>(p, fds). (p, map (\<lambda>fd. fd + 9) fds))
        [(take 8 email_command, [0]), (drop 8 email_command, [])]) (new_connection 5) toy_world = Some (Ok (toy_world, Some conn)) \<and>
    map email_fd (emails conn) = [0 + 9] \<and>
    read_email toy_reader toy_keyring toy_kernel [take 70 toy_mail, drop 70 toy_mail] conn toy_world =
      Ok (toy_world\<lparr>ipc_keyring := 0, closed := closed toy_world @ [0 + 9]\<rparr>, Some conn') \<and> emails conn' = [] \<and>
    contents (outbuf conn') = map Some (ipc_frame ''response'' 0 (be_bytes 4 (unat (status_code (send_status Sent))) @ send_text Sent))"
proof -
  let ?ds = "[take 70 toy_mail, drop 70 toy_mail]"
  obtain mp mp' where mp: "parse_pieces toy_reader mail_parser_cb toy_parser ?ds = Ok mp" "ntb_mail_parser_end mail_parser_cb mp = Ok mp'"
    using toy_accepted_mail by (auto simp: toy_accepted_def split: outcome.splits)
  have sent: "send_email_command [Took 8, Interrupted, Took 12] True = Some [(take 8 email_command, [0]), (drop 8 email_command, [])]"
    by (simp add: send_email_command_def ntb_ipc_client_send_command_def send_loop.simps email_command_def)
  have took: "\<forall>n. Took n \<in> set [Took 8, Interrupted, Took 12] \<longrightarrow> 0 < n" by auto
  have short: "\<forall>d \<in> set ?ds. length d \<le> 512" by (simp add: toy_mail_def)
  have parser: "parse_pieces toy_reader mail_parser_cb (ntb_mail_parser_new (junk_header toy_kernel) (junk_base64 toy_kernel) (junk_qp toy_kernel)
      (fresh_mail (junk_address toy_kernel))) ?ds = Ok mp" using mp(1) by (simp add: toy_parser_def toy_kernel_def)
  have keyring: "ntb_keyring_send_message toy_keyring (ipc_keyring toy_world) (from_address (mp_user mp')) (to_addresses (mp_user mp'))
      (content_encoding (mp_user mp')) (email_content (mp_user mp')) = (0, Sent)"
    by (simp add: toy_keyring_def toy_world_def)
  have "ntb_socket_set_nonblock toy_kernel (0 + 9) = None" "length (send_text Sent) + 4 < 2 ^ 32" by (simp_all add: toy_kernel_def)
  from sendmail_end_to_end [where dup = "\<lambda>fd. fd + 9", OF took sent this(1) short parser mp(2) refl keyring this(2), of 5]
  show ?thesis by (elim exE conjE) (intro exI conjI; assumption)
qed

definition toy_ipc :: "nat ntb_ipc" where
  "toy_ipc = \<lparr>ipc_uid = 1000, listen_source = True, ipc_world = toy_world, connections = []\<rparr>"

definition toy_input :: poll_flags where
  "toy_input = \<lparr>POLL_IN = True, POLL_OUT = False, POLL_ERROR = False\<rparr>"

theorem ipc_keeps_descriptors_witness:
  "\<exists>ipc. ipc_run toy_reader nat_bignum sample_digest toy_keyring toy_ipc {#5, 9#} ipc \<and>
    mset (closed (ipc_world ipc)) + \<Sum>\<^sub># (image_mset held_fds (mset (connections ipc))) = {#5, 9#} \<and>
    (\<forall>conn \<in> set (connections ipc). \<not> write_finished conn \<and> (poll_out conn \<longleftrightarrow> 0 < buf_length (outbuf conn)) \<and>
      (poll_in conn \<or> poll_out conn \<or> emails conn \<noteq> [] \<or> tasks conn \<noteq> []))"
proof -
  let ?run = "ipc_run toy_reader nat_bignum sample_digest toy_keyring toy_ipc"
  obtain ipc where step: "ipc_step toy_reader nat_bignum sample_digest toy_keyring toy_kernel (Connection 0 toy_input (Recv [] [9]) Send_Again)
      (toy_ipc\<lparr>connections := [new_connection 5]\<rparr>) = Some (Ok ipc)"
    by (simp add: connection_source_cb_def toy_input_def handle_read_def Let_def)
  have run: "?run ({#} + event_fds (Listen (Some 5) (Some 1000))) (toy_ipc\<lparr>connections := [new_connection 5]\<rparr>)"
    by (rule ipc_event [OF ipc_start, where sys = toy_kernel])
      (simp_all add: toy_ipc_def listen_source_cb_def check_credentials_def toy_kernel_def)
  have "?run ({#} + event_fds (Listen (Some 5) (Some 1000)) + event_fds (Connection 0 toy_input (Recv [] [9]) Send_Again)) ipc"
    by (rule ipc_event [OF run _ step]) simp
  moreover have "{#} + event_fds (Listen (Some 5) (Some 1000)) + event_fds (Connection 0 toy_input (Recv [] [9]) Send_Again) = {#5, 9#}"
    by (simp add: connection_fds_def toy_input_def)
  ultimately have "?run {#5, 9#} ipc" by simp
  from ipc_keeps_descriptors [OF this] this show ?thesis by (auto simp: toy_ipc_def toy_world_def)
qed

end
