(* ===== verification/Ntb_Ipc_Setup.thy ===== *)
theory Ntb_Ipc_Setup
  imports Ntb_Ipc Ntb_Store Ntb_Store_Files
begin

text \<open>
  The path of the socket (\<open>ntb-ipc-sockaddr.c\<close>) and the start of the daemon's end of it (\<open>ntb_ipc_new\<close> of
  \<open>ntb-ipc.c\<close>). The results of the system calls are arguments.
\<close>

definition ntb_ipc_sockaddr_create :: "u8 list option \<Rightarrow> int \<Rightarrow> u8 list" where
  "ntb_ipc_sockaddr_create runtime_dir uid =
     (case runtime_dir of
        Some d \<Rightarrow> rev (dropWhile (\<lambda>c. c = 0x2f) (rev d)) @ str ''/notbit/notbit-ipc''
      | None \<Rightarrow> str ''/tmp/notbit-'' @ print_int uid @ str ''/notbit-ipc'')"

datatype flock_result = Locked | Would_Block | Flock_Error

text \<open>The lock and the descriptors that were closed.\<close>

definition create_socket_lock :: "int option \<Rightarrow> flock_result \<Rightarrow> int option \<times> int list" where
  "create_socket_lock opened locked =
     (case opened of
        None \<Rightarrow> (None, [])
      | Some fd \<Rightarrow> (case locked of Locked \<Rightarrow> (Some fd, []) | Would_Block \<Rightarrow> (None, [fd]) | Flock_Error \<Rightarrow> (None, [fd])))"

text \<open>The path up to and with its last slash.\<close>

fun directory_of :: "u8 list \<Rightarrow> nat \<Rightarrow> u8 list" where
  "directory_of path 0 = []"
| "directory_of path (Suc n) = (if path ! n \<noteq> 0x2f then directory_of path n else take (Suc n) path)"

definition create_ipc_directory :: "(u8 list \<Rightarrow> bool) \<Rightarrow> u8 list \<Rightarrow> unit outcome" where
  "create_ipc_directory mkdir_ok sock_path = ntb_mkdir_hierarchy mkdir_ok (directory_of sock_path (length sock_path))"

record ipc_setup =
  setup_mkdir :: "u8 list \<Rightarrow> bool"
  setup_open :: "int option"
  setup_flock :: flock_result
  setup_socket :: "int option"
  setup_unlink :: bool
  setup_bind :: bool
  setup_listen :: bool
  setup_uid :: nat

text \<open>What is closed on the way to an error.\<close>

definition ntb_ipc_new :: "ipc_setup \<Rightarrow> u8 list \<Rightarrow> 'k \<Rightarrow> (int list + (int \<times> int \<times> 'k ntb_ipc)) outcome" where
  "ntb_ipc_new setup sockaddr_path keyring =
     (case create_ipc_directory (setup_mkdir setup) sockaddr_path of
        Fault \<Rightarrow> Fault
      | Fail \<Rightarrow> Ok (Inl [])
      | Ok _ \<Rightarrow>
          (case create_socket_lock (setup_open setup) (setup_flock setup) of
             (None, cl) \<Rightarrow> Ok (Inl cl)
           | (Some sock_lock, cl) \<Rightarrow>
               (case setup_socket setup of
                  None \<Rightarrow> Ok (Inl (cl @ [sock_lock]))
                | Some fd \<Rightarrow>
                    if \<not> setup_unlink setup \<or> \<not> setup_bind setup \<or> \<not> setup_listen setup
                    then Ok (Inl (cl @ [fd, sock_lock]))
                    else Ok (Inr (fd, sock_lock,
                      \<lparr>ipc_uid = setup_uid setup, listen_source = True,
                       ipc_world = \<lparr>ipc_keyring = keyring, closed = []\<rparr>, connections = []\<rparr>)))))"

section \<open>The directory of the socket\<close>

lemma directory_of_append: "n \<le> length xs \<Longrightarrow> directory_of (xs @ ys) n = directory_of xs n"
  by (induction n) (simp_all add: nth_append)

lemma directory_of_name:
  assumes "0x2f \<notin> set name"
  shows "directory_of (dir @ [0x2f] @ name) (length (dir @ [0x2f] @ name)) = dir @ [0x2f]"
  using assms
proof (induction name rule: rev_induct)
  case Nil
  then show ?case by (simp add: nth_append)
next
  case (snoc c name)
  then show ?case using directory_of_append [of "length (dir @ [0x2f] @ name)" "dir @ [0x2f] @ name" "[c]"] by (simp add: nth_append)
qed

text \<open>The directory that is made is the one that the path of the socket needs.\<close>

lemma sockaddr_directory:
  obtains dir where "ntb_ipc_sockaddr_create runtime_dir uid = dir @ str ''/'' @ str ''notbit-ipc''"
    "create_ipc_directory mkdir_ok (ntb_ipc_sockaddr_create runtime_dir uid) = ntb_mkdir_hierarchy mkdir_ok (dir @ str ''/'')"
proof -
  obtain dir where dir: "ntb_ipc_sockaddr_create runtime_dir uid = dir @ [0x2f] @ str ''notbit-ipc''"
  proof (cases runtime_dir)
    case None
    then show ?thesis using that [of "str ''/tmp/notbit-'' @ print_int uid"] by (simp add: ntb_ipc_sockaddr_create_def)
  next
    case (Some d)
    then show ?thesis using that [of "rev (dropWhile (\<lambda>c. c = 0x2f) (rev d)) @ str ''/notbit''"] by (simp add: ntb_ipc_sockaddr_create_def)
  qed
  moreover have "0x2f \<notin> set (str ''notbit-ipc'')" by simp
  from directory_of_name [OF this, of dir] have "directory_of (ntb_ipc_sockaddr_create runtime_dir uid)
      (length (ntb_ipc_sockaddr_create runtime_dir uid)) = dir @ [0x2f]"
    unfolding dir .
  ultimately show ?thesis using that [of dir] by (simp add: create_ipc_directory_def)
qed

end
