(* ===== verification/Ntb_Pow.thy ===== *)
theory Ntb_Pow
  imports Ntb_Endian
begin

text \<open>
  The proof of work (\<open>ntb-pow.c\<close>): the target of a message, the check of a nonce, and the search for one
  with several threads. The threads and the main thread share the queue and the cookies under one mutex;
  the model interleaves the parts that run without giving the mutex away, and the search for a nonce, for
  which a thread has given it away. Cookies live in a heap in which \<open>None\<close> is memory that was freed or never
  allocated; an access to it is a fault.
\<close>

section \<open>The target\<close>

text \<open>The lengths and factors are converted to 64 bits, and a division by zero is undefined.\<close>

definition two_63 :: u64 where "two_63 = 0x8000000000000000"

definition calculate_target :: "nat \<Rightarrow> int \<Rightarrow> int \<Rightarrow> u64 outcome" where
  "calculate_target len payload_extra_bytes average_trials_per_byte =
     (let divisor = (word_of_nat len + word_of_int payload_extra_bytes) * word_of_int average_trials_per_byte :: u64 in
      if divisor = 0 then Fault
      else
        let target = two_63 div divisor * 2 in
        Ok (if (two_63 mod divisor) * 2 \<ge> divisor then target + 1 else target))"

definition pow_value :: "(u8 list \<Rightarrow> u8 list) \<Rightarrow> u8 list \<Rightarrow> u64" where
  "pow_value sha512 initial_hash = (let hash1 = sha512 initial_hash; hash2 = sha512 hash1 in word_of_nat (be_value (take 8 hash2)))"

definition ntb_pow_check :: "(u8 list \<Rightarrow> u8 list) \<Rightarrow> u8 list \<Rightarrow> int \<Rightarrow> int \<Rightarrow> bool outcome" where
  "ntb_pow_check sha512 payload payload_extra_bytes average_trials_per_byte =
     (if length payload < 8 then Fault
      else
        let initial_hash = take 8 payload @ sha512 (drop 8 payload) in
        bind_outcome (calculate_target (length payload) payload_extra_bytes average_trials_per_byte)
          (\<lambda>target. Ok (pow_value sha512 initial_hash \<le> target)))"

section \<open>The number of processors\<close>

text \<open>
  \<open>get_n_cpus_from_file\<close> of \<open>ntb-cpus.c\<close>: a state counts the characters of \<^verbatim>\<open>processor\<close> that were seen at the
  start of the line, and is \<open>-1\<close> when the rest of the line does not matter.
\<close>

definition search_string :: "u8 list" where "search_string = str ''processor''"

fun cpus_step :: "int \<times> int \<Rightarrow> u8 \<Rightarrow> int \<times> int" where
  "cpus_step (n_cpus, state) ch =
     (if ch = 0x0a then (n_cpus, 0)
        else if state = int (length search_string) then
          (if ch = 0x3a then (n_cpus + 1, -1) else if ch \<noteq> 0x20 \<and> ch \<noteq> 0x09 then (n_cpus, -1) else (n_cpus, state))
        else if state \<noteq> -1 then
          (if ch = search_string ! nat state then (n_cpus, state + 1) else (n_cpus, -1))
        else (n_cpus, state))"

definition get_n_cpus_from_file :: "u8 list \<Rightarrow> int" where
  "get_n_cpus_from_file file = max (fst (foldl cpus_step (0, 0) file)) 1"

definition ntb_cpus_count :: "u8 list option \<Rightarrow> int" where
  "ntb_cpus_count file = (case file of None \<Rightarrow> 1 | Some bytes \<Rightarrow> get_n_cpus_from_file bytes)"

section \<open>State\<close>

record ntb_pow_cookie =
  ref_count :: int
  next_nonce_offset :: int
  cookie_hash :: "u8 list"
  cookie_target :: u64
  cookie_nonce :: "u64 option"
  cookie_done :: bool
  cookie_idle_source :: bool

type_synonym cookie_heap = "nat \<Rightarrow> ntb_pow_cookie option"

text \<open>
  A thread waits for work, searches without the mutex, has found a nonce and waits for the mutex to report
  it, waits for the mutex to look whether it should go on, or has ended.
\<close>

datatype pow_thread =
    POW_WAITING
  | POW_SEARCHING nat u64
  | POW_FOUND nat u64
  | POW_SEARCHED nat u64
  | POW_ENDED

text \<open>The cookies are numbered. The main loop has a list of idle sources; calls of the callbacks are recorded.\<close>

record ntb_pow =
  n_threads :: nat
  threads :: "pow_thread list"
  pow_queue :: "nat list"
  pow_quit :: bool
  cookies :: cookie_heap
  n_cookies :: nat
  idle_sources :: "nat list"
  delivered :: "(nat \<times> u64) list"

section \<open>Cookies\<close>

definition unref_cookie :: "nat \<Rightarrow> cookie_heap \<Rightarrow> cookie_heap outcome" where
  "unref_cookie c h =
     (case h c of
        None \<Rightarrow> Fault
      | Some cookie \<Rightarrow>
          let cookie = cookie\<lparr>ref_count := ref_count cookie - 1\<rparr> in
          if ref_count cookie \<le> 0 then Ok (h(c := None)) else Ok (h(c \<mapsto> cookie)))"

definition unref :: "nat \<Rightarrow> ntb_pow \<Rightarrow> ntb_pow outcome" where
  "unref c pow = bind_outcome (unref_cookie c (cookies pow)) (\<lambda>h. Ok (pow\<lparr>cookies := h\<rparr>))"

text \<open>Taking a cookie that is not linked out of the list is undefined.\<close>

definition remove_queued_cookie :: "nat \<Rightarrow> ntb_pow \<Rightarrow> ntb_pow outcome" where
  "remove_queued_cookie c pow =
     (if c \<notin> set (pow_queue pow) then Fault else unref c (pow\<lparr>pow_queue := remove1 c (pow_queue pow)\<rparr>))"

section \<open>The threads\<close>

definition set_thread :: "nat \<Rightarrow> pow_thread \<Rightarrow> ntb_pow \<Rightarrow> ntb_pow" where
  "set_thread i t pow = pow\<lparr>threads := (threads pow)[i := t]\<rparr>"

definition set_solution :: "nat \<Rightarrow> u64 \<Rightarrow> ntb_pow \<Rightarrow> ntb_pow outcome" where
  "set_solution c nonce pow =
     (case cookies pow c of
        None \<Rightarrow> Fault
      | Some cookie \<Rightarrow>
          if cookie_done cookie then Ok pow
          else Ok (pow\<lparr>cookies := (cookies pow)(c \<mapsto> cookie\<lparr>cookie_nonce := Some nonce, cookie_done := True,
                        cookie_idle_source := True, ref_count := ref_count cookie + 1\<rparr>),
                      idle_sources := c # idle_sources pow\<rparr>))"

definition NTB_POW_NONCES_PER_CHECK :: nat where "NTB_POW_NONCES_PER_CHECK = 4096"

text \<open>Up to \<open>k\<close> nonces; whether one was found, and the nonce where the loop has stopped.\<close>

primrec search_nonces :: "(u8 list \<Rightarrow> u8 list) \<Rightarrow> ntb_pow_cookie \<Rightarrow> nat \<Rightarrow> nat \<Rightarrow> u64 \<Rightarrow> bool \<times> u64" where
  "search_nonces sha512 cookie n 0 nonce = (False, nonce)"
| "search_nonces sha512 cookie n (Suc k) nonce =
     (if pow_value sha512 (be_bytes 8 (unat nonce) @ cookie_hash cookie) \<le> cookie_target cookie then (True, nonce)
      else search_nonces sha512 cookie n k (nonce + word_of_nat n))"

text \<open>The loop of \<open>find_nonce\<close>: its condition, which is tested with the mutex, and its body, which runs without.\<close>

definition find_nonce_test :: "nat \<Rightarrow> nat \<Rightarrow> u64 \<Rightarrow> ntb_pow \<Rightarrow> ntb_pow outcome" where
  "find_nonce_test i c nonce pow =
     (case cookies pow c of
        None \<Rightarrow> Fault
      | Some cookie \<Rightarrow>
          if \<not> cookie_done cookie \<and> \<not> pow_quit pow then Ok (set_thread i (POW_SEARCHING c nonce) pow)
          else bind_outcome (unref c pow) (\<lambda>pow. Ok (set_thread i POW_WAITING pow)))"

definition find_nonce_body :: "(u8 list \<Rightarrow> u8 list) \<Rightarrow> nat \<Rightarrow> nat \<Rightarrow> u64 \<Rightarrow> ntb_pow \<Rightarrow> ntb_pow outcome" where
  "find_nonce_body sha512 i c nonce pow =
     (case cookies pow c of
        None \<Rightarrow> Fault
      | Some cookie \<Rightarrow>
          (case search_nonces sha512 cookie (n_threads pow) NTB_POW_NONCES_PER_CHECK nonce of
             (True, nonce) \<Rightarrow> Ok (set_thread i (POW_FOUND c nonce) pow)
           | (False, nonce) \<Rightarrow> Ok (set_thread i (POW_SEARCHED c nonce) pow)))"

text \<open>What a waiting thread does when it has the mutex; \<open>None\<close> if it goes on waiting.\<close>

definition thread_take :: "nat \<Rightarrow> ntb_pow \<Rightarrow> ntb_pow outcome option" where
  "thread_take i pow =
     (if pow_quit pow then Some (Ok (set_thread i POW_ENDED pow))
      else
        (case pow_queue pow of
           [] \<Rightarrow> None
         | c # _ \<Rightarrow> Some
             (case cookies pow c of
                None \<Rightarrow> Fault
              | Some cookie \<Rightarrow>
                  let nonce_offset = next_nonce_offset cookie;
                      pow = pow\<lparr>cookies := (cookies pow)(c \<mapsto> cookie\<lparr>ref_count := ref_count cookie + 1,
                                                                  next_nonce_offset := nonce_offset + 1\<rparr>)\<rparr> in
                  bind_outcome (if nonce_offset + 1 \<ge> int (n_threads pow) then remove_queued_cookie c pow else Ok pow)
                    (find_nonce_test i c (word_of_int nonce_offset)))))"

definition thread_step :: "(u8 list \<Rightarrow> u8 list) \<Rightarrow> nat \<Rightarrow> ntb_pow \<Rightarrow> ntb_pow outcome option" where
  "thread_step sha512 i pow =
     (if i \<ge> length (threads pow) then None
      else
        (case threads pow ! i of
           POW_WAITING \<Rightarrow> thread_take i pow
         | POW_SEARCHING c nonce \<Rightarrow> Some (find_nonce_body sha512 i c nonce pow)
         | POW_FOUND c nonce \<Rightarrow>
             Some (bind_outcome (set_solution c nonce pow) (\<lambda>pow. Ok (set_thread i (POW_SEARCHED c nonce) pow)))
         | POW_SEARCHED c nonce \<Rightarrow> Some (find_nonce_test i c nonce pow)
         | POW_ENDED \<Rightarrow> None))"

section \<open>The main thread\<close>

definition ntb_pow_new :: "nat \<Rightarrow> ntb_pow" where
  "ntb_pow_new n_cpus = \<lparr>n_threads = n_cpus, threads = replicate n_cpus POW_WAITING, pow_queue = [], pow_quit = False,
     cookies = Map.empty, n_cookies = 0, idle_sources = [], delivered = []\<rparr>"

text \<open>The new cookie is linked in behind the first one of the queue.\<close>

definition insert_after_first :: "nat \<Rightarrow> nat list \<Rightarrow> nat list" where
  "insert_after_first c q = (case q of [] \<Rightarrow> [c] | d # ds \<Rightarrow> d # c # ds)"

definition ntb_pow_calculate :: "(u8 list \<Rightarrow> u8 list) \<Rightarrow> u8 list \<Rightarrow> int \<Rightarrow> int \<Rightarrow> ntb_pow \<Rightarrow> (nat \<times> ntb_pow) outcome" where
  "ntb_pow_calculate sha512 payload payload_extra_bytes average_trials_per_byte pow =
     bind_outcome (calculate_target (length payload + 8) payload_extra_bytes average_trials_per_byte) (\<lambda>target.
       let c = n_cookies pow in
       Ok (c, pow\<lparr>cookies := (cookies pow)(c \<mapsto> \<lparr>ref_count = 2, next_nonce_offset = 0, cookie_hash = sha512 payload,
                                cookie_target = target, cookie_nonce = None, cookie_done = False, cookie_idle_source = False\<rparr>),
                  n_cookies := c + 1,
                  pow_queue := insert_after_first c (pow_queue pow)\<rparr>))"

definition idle_cb :: "nat \<Rightarrow> ntb_pow \<Rightarrow> ntb_pow outcome" where
  "idle_cb c pow =
     (case cookies pow c of
        None \<Rightarrow> Fault
      | Some cookie \<Rightarrow>
          (case cookie_nonce cookie of
             None \<Rightarrow> Fault
           | Some nonce \<Rightarrow>
               bind_outcome (unref c (pow\<lparr>idle_sources := remove1 c (idle_sources pow),
                                          cookies := (cookies pow)(c \<mapsto> cookie\<lparr>cookie_idle_source := False\<rparr>)\<rparr>)) (\<lambda>pow.
               bind_outcome (unref c pow) (\<lambda>pow.
               Ok (pow\<lparr>delivered := delivered pow @ [(c, nonce)]\<rparr>)))))"

definition remove_idle_source :: "nat \<Rightarrow> ntb_pow \<Rightarrow> ntb_pow outcome" where
  "remove_idle_source c pow =
     (case cookies pow c of
        None \<Rightarrow> Fault
      | Some cookie \<Rightarrow>
          if cookie_idle_source cookie
          then unref c (pow\<lparr>idle_sources := remove1 c (idle_sources pow),
                            cookies := (cookies pow)(c \<mapsto> cookie\<lparr>cookie_idle_source := False\<rparr>)\<rparr>)
          else Ok pow)"

definition set_done :: "nat \<Rightarrow> ntb_pow \<Rightarrow> ntb_pow outcome" where
  "set_done c pow =
     (case cookies pow c of
        None \<Rightarrow> Fault
      | Some cookie \<Rightarrow> Ok (pow\<lparr>cookies := (cookies pow)(c \<mapsto> cookie\<lparr>cookie_done := True\<rparr>)\<rparr>))"

definition ntb_pow_cancel :: "nat \<Rightarrow> ntb_pow \<Rightarrow> ntb_pow outcome" where
  "ntb_pow_cancel c pow =
     (case cookies pow c of
        None \<Rightarrow> Fault
      | Some cookie \<Rightarrow>
          bind_outcome (if next_nonce_offset cookie < int (n_threads pow) then remove_queued_cookie c pow else Ok pow) (\<lambda>pow.
          bind_outcome (remove_idle_source c pow) (\<lambda>pow.
          bind_outcome (set_done c pow) (unref c))))"

text \<open>The two parts of \<open>ntb_pow_free\<close>, before and after the threads have ended.\<close>

definition ntb_pow_quit :: "ntb_pow \<Rightarrow> ntb_pow" where
  "ntb_pow_quit pow = pow\<lparr>pow_quit := True\<rparr>"

primrec remove_queued_cookies :: "nat list \<Rightarrow> ntb_pow \<Rightarrow> ntb_pow outcome" where
  "remove_queued_cookies [] pow = Ok pow"
| "remove_queued_cookies (c # cs) pow = bind_outcome (remove_queued_cookie c pow) (remove_queued_cookies cs)"

definition ntb_pow_free :: "ntb_pow \<Rightarrow> ntb_pow outcome" where
  "ntb_pow_free pow = remove_queued_cookies (pow_queue pow) pow"

section \<open>Lemmas on the target\<close>

lemma double_div: "2 * a div d = 2 * (a div d) + (if d \<le> 2 * (a mod d) then 1 else 0)" if "0 < d" for a d :: nat
proof -
  have "2 * a div d = (2 * (a mod d) + d * (2 * (a div d))) div d"
    using arg_cong [OF mult_div_mod_eq [of d a], of "\<lambda>x. 2 * x div d"] by (simp only: distrib_left mult.left_commute add.commute)
  also have "\<dots> = 2 * (a div d) + 2 * (a mod d) div d" using that by (subst div_mult_self2) auto
  also have "2 * (a mod d) div d = (if d \<le> 2 * (a mod d) then 1 else 0)"
  proof (cases "d \<le> 2 * (a mod d)")
    case True
    moreover have "a mod d < d" using that by simp
    ultimately have "2 * (a mod d) - d < d" "2 * (a mod d) div d = Suc ((2 * (a mod d) - d) div d)"
      using that by (linarith, simp add: le_div_geq)
    then show ?thesis using True by simp
  qed simp
  finally show ?thesis .
qed

lemma unat_two_63: "unat two_63 = 2 ^ 63"
  by (simp add: two_63_def)

lemma target_of_divisor:
  fixes w :: u64
  assumes "unat w = d" "1 < d" "d \<le> 2 ^ 63"
  shows "(if (two_63 mod w) * 2 \<ge> w then two_63 div w * 2 + 1 else two_63 div w * 2) = word_of_nat (2 ^ 64 div d)"
proof -
  have m: "unat (two_63 mod w * 2) = 2 * (2 ^ 63 mod d)"
  proof -
    have "2 ^ 63 mod d < d" using assms by simp
    then have "2 * (2 ^ 63 mod d) < 2 * 2 ^ 63" using assms(3) by linarith
    then have "2 * (2 ^ 63 mod d) < 2 ^ LENGTH(64)" by simp
    then show ?thesis using assms(1) by (simp add: unat_mult_lem [THEN iffD1] unat_mod unat_two_63 mult.commute)
  qed
  have q: "two_63 div w * 2 = word_of_nat (2 * (2 ^ 63 div d))"
  proof -
    have "2 ^ 63 div d < 2 ^ LENGTH(64)" by (rule le_less_trans [OF div_le_dividend]) simp
    then have "unat (two_63 div w) = unat (word_of_nat (2 ^ 63 div d) :: u64)"
      by (simp only: unat_div unat_two_63 assms(1) unat_of_nat mod_less)
    then have "two_63 div w = word_of_nat (2 ^ 63 div d)" by (simp only: word_unat_eq_iff)
    then show ?thesis by (simp add: mult.commute)
  qed
  have "2 ^ 64 div d = 2 * (2 ^ 63 div d) + (if d \<le> 2 * (2 ^ 63 mod d) then 1 else 0)"
    using double_div [of d "2 ^ 63"] assms(2) by simp
  then show ?thesis using assms(1) m by (simp add: word_le_nat_alt q)
qed

lemma unat_divisor:
  assumes "(len + extra) * trials < 2 ^ 64"
  shows "unat ((word_of_nat len + word_of_int (int extra)) * word_of_int (int trials) :: u64) = (len + extra) * trials"
proof -
  have "(word_of_nat len + word_of_int (int extra)) * word_of_int (int trials) = (word_of_nat ((len + extra) * trials) :: u64)"
    by simp
  then show ?thesis using assms by (simp only: unat_of_nat) simp
qed

lemma calculate_target_eq:
  assumes "1 < (len + extra) * trials" "(len + extra) * trials \<le> 2 ^ 63"
  shows "calculate_target len (int extra) (int trials) = Ok (word_of_nat (2 ^ 64 div ((len + extra) * trials)))"
proof -
  let ?w = "(word_of_nat len + word_of_int (int extra)) * word_of_int (int trials) :: u64"
  have u: "unat ?w = (len + extra) * trials" using assms by (intro unat_divisor) simp
  then have "?w \<noteq> 0" using assms(1) by (metis not_one_less_zero unat_0)
  then show ?thesis by (simp only: calculate_target_def Let_def target_of_divisor [OF u assms] if_False)
qed

section \<open>Lemmas on the number of processors\<close>

text \<open>A line counts if it starts with \<^verbatim>\<open>processor\<close>, spaces and tabs, and a colon.\<close>

fun cpu_line :: "u8 list \<Rightarrow> u8 list \<Rightarrow> bool" where
  "cpu_line (s # ss) (c # cs) \<longleftrightarrow> c = s \<and> cpu_line ss cs"
| "cpu_line [] (c # cs) \<longleftrightarrow> c = 0x3a \<or> (c = 0x20 \<or> c = 0x09) \<and> cpu_line [] cs"
| "cpu_line ss [] \<longleftrightarrow> False"

lemma cpus_step_skip: "0x0a \<notin> set l \<Longrightarrow> foldl cpus_step (n, -1) l = (n, -1)"
  by (induction l) auto

lemma cpus_step_line:
  "0x0a \<notin> set l \<Longrightarrow> k \<le> length search_string \<Longrightarrow>
    fst (foldl cpus_step (n, int k) l) = n + of_bool (cpu_line (drop k search_string) l)"
proof (induction l arbitrary: k)
  case (Cons c l)
  show ?case
  proof (cases "k = length search_string")
    case True
    then show ?thesis using Cons.prems Cons.IH [of k] by (auto simp: cpus_step_skip)
  next
    case False
    then have k: "k < length search_string" using Cons.prems by simp
    have "int k \<noteq> -1" by simp
    then have "foldl cpus_step (n, int k) (c # l) = foldl cpus_step (if c = search_string ! k then (n, int (Suc k)) else (n, -1)) l"
      using k Cons.prems by (simp add: add.commute)
    then show ?thesis
      using Cons.prems Cons.IH [of "Suc k"] k by (simp add: cpus_step_skip Cons_nth_drop_Suc [OF k, symmetric])
  qed
qed simp

lemma cpus_by_lines:
  assumes "0x0a \<notin> set l" "\<forall>x \<in> set ls. 0x0a \<notin> set x"
  shows "get_n_cpus_from_file (concat (map (\<lambda>x. x @ [0x0a]) ls) @ l) = max 1 (int (length (filter (cpu_line search_string) (ls @ [l]))))"
proof -
  have "fst (foldl cpus_step (n, 0) (concat (map (\<lambda>x. x @ [0x0a]) ls) @ l)) = n + int (length (filter (cpu_line search_string) (ls @ [l])))" for n
    using assms(2)
  proof (induction ls arbitrary: n)
    case Nil
    then show ?case using cpus_step_line [OF assms(1), of 0 n] by simp
  next
    case (Cons x ls)
    have "foldl cpus_step (n, 0) (x @ [0x0a]) = (n + of_bool (cpu_line search_string x), 0)"
      using cpus_step_line [of x 0 n] Cons.prems by (cases "foldl cpus_step (n, 0) x") simp
    then show ?case using Cons.IH [of "n + of_bool (cpu_line search_string x)"] Cons.prems by simp
  qed
  then show ?thesis by (simp add: get_n_cpus_from_file_def max.commute)
qed

lemma cpus_positive: "1 \<le> ntb_cpus_count file"
  by (simp add: ntb_cpus_count_def get_n_cpus_from_file_def split: option.split)

section \<open>Properties\<close>

text \<open>
  C27: the check of a proof of work is exact although \<open>2^64\<close> does not fit into the variables of the code: a nonce
  passes if and only if the first eight bytes of the double hash, as a number, are at most the quotient of
  \<open>2^64\<close> and the product of the two factors, rounded down.
\<close>

theorem pow_check_exact:
  assumes "8 \<le> length payload" "1 < (length payload + extra) * trials" "(length payload + extra) * trials \<le> 2 ^ 63"
  shows "ntb_pow_check sha512 payload (int extra) (int trials) =
    Ok (be_value (take 8 (sha512 (sha512 (take 8 payload @ sha512 (drop 8 payload))))) \<le> 2 ^ 64 div ((length payload + extra) * trials))"
proof -
  let ?d = "(length payload + extra) * trials" and ?h = "take 8 (sha512 (sha512 (take 8 payload @ sha512 (drop 8 payload))))"
  have "2 ^ 64 div ?d < 2 ^ 64" using assms(2) by (intro div_less_dividend) simp_all
  then have target: "unat (word_of_nat (2 ^ 64 div ?d) :: u64) = 2 ^ 64 div ?d" by (simp add: unat_of_nat)
  have "be_value ?h < 256 ^ length ?h" by (rule be_value_less)
  also have "\<dots> \<le> 256 ^ 8" by (rule power_increasing) auto
  finally have first: "unat (word_of_nat (be_value ?h) :: u64) = be_value ?h" by (simp add: unat_of_nat)
  have "pow_value sha512 (take 8 payload @ sha512 (drop 8 payload)) = word_of_nat (be_value ?h)"
    by (simp add: pow_value_def Let_def)
  then show ?thesis
    using assms(1) calculate_target_eq [OF assms(2,3)] target first
    by (simp only: ntb_pow_check_def Let_def word_le_nat_alt bind_outcome.simps not_less [symmetric] if_False)
qed

theorem pow_check_exact_witness:
  "ntb_pow_check (\<lambda>_. replicate 64 0) (replicate 8 0) 1000 320 = Ok (be_value (take 8 (replicate 64 0)) \<le> 2 ^ 64 div 322560)"
  using pow_check_exact [of "replicate 8 0" 1000 320 "\<lambda>_. replicate 64 0"] by simp

end
