(* ===== verification/Ntb_Pow_Threads.thy ===== *)
theory Ntb_Pow_Threads
  imports Ntb_Pow
begin

text \<open>
  The threads of the proof of work together with the main thread (\<open>ntb-pow.c\<close>): who holds a reference to a
  cookie, the invariant over all interleavings, and the progress of a search.
\<close>

section \<open>Who holds a reference\<close>

fun thread_cookie :: "pow_thread \<Rightarrow> nat option" where
  "thread_cookie (POW_SEARCHING c nonce) = Some c"
| "thread_cookie (POW_FOUND c nonce) = Some c"
| "thread_cookie (POW_SEARCHED c nonce) = Some c"
| "thread_cookie _ = None"

definition searchers :: "ntb_pow \<Rightarrow> nat \<Rightarrow> nat" where
  "searchers pow c = count_list (map thread_cookie (threads pow)) (Some c)"

text \<open>The queue, the threads, the idle source and the caller.\<close>

definition refs :: "nat set \<Rightarrow> ntb_pow \<Rightarrow> nat \<Rightarrow> nat" where
  "refs held pow c =
     count_list (pow_queue pow) c + searchers pow c + count_list (idle_sources pow) c + of_bool (c \<in> held)"

type_synonym requests = "nat \<Rightarrow> (u8 list \<times> int \<times> int) option"

definition solves :: "(u8 list \<Rightarrow> u8 list) \<Rightarrow> ntb_pow_cookie \<Rightarrow> u64 \<Rightarrow> bool" where
  "solves sha512 cookie nonce \<longleftrightarrow>
     pow_value sha512 (be_bytes 8 (unat nonce) @ cookie_hash cookie) \<le> cookie_target cookie"

definition cookie_ok :: "(u8 list \<Rightarrow> u8 list) \<Rightarrow> requests \<Rightarrow> nat set \<Rightarrow> ntb_pow \<Rightarrow> nat \<Rightarrow> ntb_pow_cookie \<Rightarrow> bool" where
  "cookie_ok sha512 req held pow c ck \<longleftrightarrow>
     ref_count ck = int (refs held pow c) \<and> 0 < refs held pow c \<and>
     (c \<in> set (pow_queue pow) \<longrightarrow> next_nonce_offset ck < int (n_threads pow)) \<and> 0 \<le> next_nonce_offset ck \<and>
     (c \<in> held \<longrightarrow> next_nonce_offset ck < int (n_threads pow) \<longrightarrow> c \<in> set (pow_queue pow)) \<and>
     (cookie_idle_source ck \<longleftrightarrow> c \<in> set (idle_sources pow)) \<and>
     (\<not> cookie_done ck \<longrightarrow> c \<in> held \<and> \<not> cookie_idle_source ck) \<and>
     (cookie_idle_source ck \<longrightarrow> c \<in> held \<and> cookie_nonce ck \<noteq> None) \<and>
     (\<forall>v. cookie_nonce ck = Some v \<longrightarrow> solves sha512 ck v) \<and>
     (\<exists>p e t. req c = Some (p, e, t) \<and> cookie_hash ck = sha512 p \<and>
        calculate_target (length p + 8) e t = Ok (cookie_target ck))"

definition heap_ok :: "(u8 list \<Rightarrow> u8 list) \<Rightarrow> requests \<Rightarrow> nat set \<Rightarrow> ntb_pow \<Rightarrow> bool" where
  "heap_ok sha512 req held pow \<longleftrightarrow>
     (\<forall>c. case cookies pow c of None \<Rightarrow> refs held pow c = 0 | Some ck \<Rightarrow> cookie_ok sha512 req held pow c ck)"

definition found_ok :: "(u8 list \<Rightarrow> u8 list) \<Rightarrow> ntb_pow \<Rightarrow> bool" where
  "found_ok sha512 pow \<longleftrightarrow> (\<forall>c v ck. POW_FOUND c v \<in> set (threads pow) \<longrightarrow> cookies pow c = Some ck \<longrightarrow> solves sha512 ck v)"

definition delivered_ok :: "(u8 list \<Rightarrow> u8 list) \<Rightarrow> requests \<Rightarrow> nat set \<Rightarrow> ntb_pow \<Rightarrow> bool" where
  "delivered_ok sha512 req held pow \<longleftrightarrow>
     distinct (map fst (delivered pow)) \<and>
     (\<forall>(c, v) \<in> set (delivered pow). c \<notin> held \<and>
        (\<exists>p e t. req c = Some (p, e, t) \<and> ntb_pow_check sha512 (be_bytes 8 (unat v) @ p) e t = Ok True))"

definition fresh_ok :: "requests \<Rightarrow> nat set \<Rightarrow> ntb_pow \<Rightarrow> bool" where
  "fresh_ok req held pow \<longleftrightarrow> (\<forall>c \<ge> n_cookies pow. cookies pow c = None \<and> req c = None)"

definition shape_ok :: "ntb_pow \<Rightarrow> bool" where
  "shape_ok pow \<longleftrightarrow> distinct (pow_queue pow) \<and> distinct (idle_sources pow) \<and>
     0 < n_threads pow \<and> length (threads pow) = n_threads pow"

definition pow_inv :: "(u8 list \<Rightarrow> u8 list) \<Rightarrow> requests \<Rightarrow> nat set \<Rightarrow> ntb_pow \<Rightarrow> bool" where
  "pow_inv sha512 req held pow \<longleftrightarrow> heap_ok sha512 req held pow \<and> found_ok sha512 pow \<and>
     delivered_ok sha512 req held pow \<and> fresh_ok req held pow \<and> shape_ok pow"

lemmas pow_inv_defs = pow_inv_def found_ok_def delivered_ok_def fresh_ok_def shape_ok_def

section \<open>Counting references\<close>

lemma count_list_remove1: "count_list (remove1 c q) d = (if c = d then count_list q d - 1 else count_list q d)"
  by (induction q) auto

lemma count_list_update:
  "i < length ts \<Longrightarrow> count_list (ts[i := t]) x + of_bool (ts ! i = x) = count_list ts x + of_bool (t = x)"
proof (induction ts arbitrary: i)
  case (Cons a ts)
  then show ?case by (cases i) fastforce+
qed simp

lemma searchers_set_thread:
  "i < length (threads pow) \<Longrightarrow>
    searchers (set_thread i t pow) c + of_bool (thread_cookie (threads pow ! i) = Some c) =
    searchers pow c + of_bool (thread_cookie t = Some c)"
  using count_list_update [of i "map thread_cookie (threads pow)" "thread_cookie t" "Some c"]
  by (simp add: searchers_def set_thread_def map_update)

lemma count_insert_after_first: "count_list (insert_after_first c q) d = count_list q d + of_bool (c = d)"
  by (cases q) (auto simp: insert_after_first_def)

lemma count_list_distinct: "distinct q \<Longrightarrow> count_list q c = of_bool (c \<in> set q)"
  by (induction q) auto

lemma searchers_update [simp]:
  "searchers (pow\<lparr>cookies := h\<rparr>) = searchers pow" "searchers (pow\<lparr>pow_queue := q\<rparr>) = searchers pow"
  "searchers (pow\<lparr>idle_sources := ids\<rparr>) = searchers pow" "searchers (pow\<lparr>delivered := dl\<rparr>) = searchers pow"
  "searchers (pow\<lparr>n_cookies := n\<rparr>) = searchers pow" "searchers (pow\<lparr>pow_quit := b\<rparr>) = searchers pow"
  by (simp_all add: searchers_def fun_eq_iff)

lemma set_thread_fields [simp]:
  "cookies (set_thread i t pow) = cookies pow" "pow_queue (set_thread i t pow) = pow_queue pow"
  "idle_sources (set_thread i t pow) = idle_sources pow" "n_threads (set_thread i t pow) = n_threads pow"
  "pow_quit (set_thread i t pow) = pow_quit pow" "n_cookies (set_thread i t pow) = n_cookies pow"
  "delivered (set_thread i t pow) = delivered pow" "length (threads (set_thread i t pow)) = length (threads pow)"
  by (simp_all add: set_thread_def)

lemma found_set_thread: "POW_FOUND c v \<in> set (threads (set_thread i t pow)) \<Longrightarrow> t = POW_FOUND c v \<or> POW_FOUND c v \<in> set (threads pow)"
  using set_update_subset_insert [of "threads pow" i t] by (auto simp: set_thread_def)

lemma unref_live:
  "cookies pow c = Some ck \<Longrightarrow>
    unref c pow = Ok (pow\<lparr>cookies := (cookies pow)(c := if ref_count ck \<le> 1 then None else Some (ck\<lparr>ref_count := ref_count ck - 1\<rparr>))\<rparr>)"
  by (simp add: unref_def unref_cookie_def)

section \<open>Steps that touch one cookie\<close>

lemma heap_okD: "heap_ok sha512 req held pow \<Longrightarrow> cookies pow c = Some ck \<Longrightarrow> cookie_ok sha512 req held pow c ck"
  "heap_ok sha512 req held pow \<Longrightarrow> cookies pow c = None \<Longrightarrow> refs held pow c = 0"
  unfolding heap_ok_def by (metis option.simps(5), metis option.simps(4))

lemma live_cookie: "heap_ok sha512 req held pow \<Longrightarrow> 0 < refs held pow c \<Longrightarrow> \<exists>ck. cookies pow c = Some ck"
  using heap_okD(2) by (metis less_irrefl not_None_eq)

text \<open>The invariant after a step that changes the cookie \<open>c\<close> and the references to it only.\<close>

lemma heap_ok_update:
  assumes "heap_ok sha512 req held pow" "n_threads pow' = n_threads pow"
    and "cookies pow' = (cookies pow)(c := X)"
    and "\<And>d. d \<noteq> c \<Longrightarrow> refs held' pow' d = refs held pow d"
    and "\<And>d. d \<noteq> c \<Longrightarrow> d \<in> set (pow_queue pow') \<longleftrightarrow> d \<in> set (pow_queue pow)"
    and "\<And>d. d \<noteq> c \<Longrightarrow> d \<in> set (idle_sources pow') \<longleftrightarrow> d \<in> set (idle_sources pow)"
    and "\<And>d. d \<noteq> c \<Longrightarrow> d \<in> held' \<longleftrightarrow> d \<in> held"
    and "\<And>d. d \<noteq> c \<Longrightarrow> req' d = req d"
    and "case X of None \<Rightarrow> refs held' pow' c = 0 | Some ck \<Rightarrow> cookie_ok sha512 req' held' pow' c ck"
  shows "heap_ok sha512 req' held' pow'"
  unfolding heap_ok_def
proof
  fix d
  show "case cookies pow' d of None \<Rightarrow> refs held' pow' d = 0 | Some ck \<Rightarrow> cookie_ok sha512 req' held' pow' d ck"
  proof (cases "d = c")
    case True
    show ?thesis using assms(9) unfolding True assms(3) by simp
  next
    case False
    then show ?thesis
      using heap_okD [OF assms(1), of d] assms(2-8) by (auto simp: cookie_ok_def split: option.split)
  qed
qed

lemma pow_inv_update:
  assumes "pow_inv sha512 req held pow" "cookies pow c = Some ck" "cookies pow' = (cookies pow)(c := X)"
    and "n_threads pow' = n_threads pow" "n_cookies pow' = n_cookies pow" "length (threads pow') = length (threads pow)"
    and "delivered pow' = delivered pow" "distinct (pow_queue pow')" "distinct (idle_sources pow')" "held' \<subseteq> held"
    and "\<And>d. d \<noteq> c \<Longrightarrow> refs held' pow' d = refs held pow d"
    and "\<And>d. d \<noteq> c \<Longrightarrow> d \<in> set (pow_queue pow') \<longleftrightarrow> d \<in> set (pow_queue pow)"
    and "\<And>d. d \<noteq> c \<Longrightarrow> d \<in> set (idle_sources pow') \<longleftrightarrow> d \<in> set (idle_sources pow)"
    and "\<And>d. d \<noteq> c \<Longrightarrow> d \<in> held' \<longleftrightarrow> d \<in> held"
    and "case X of None \<Rightarrow> refs held' pow' c = 0 | Some ck' \<Rightarrow> cookie_ok sha512 req held' pow' c ck' \<and>
           cookie_hash ck' = cookie_hash ck \<and> cookie_target ck' = cookie_target ck"
    and "\<And>d v. POW_FOUND d v \<in> set (threads pow') \<Longrightarrow> POW_FOUND d v \<in> set (threads pow) \<or> d = c \<and> solves sha512 ck v"
  shows "pow_inv sha512 req held' pow'"
proof -
  have heap: "heap_ok sha512 req held pow" and found: "found_ok sha512 pow" and rest:
    "delivered_ok sha512 req held pow" "fresh_ok req held pow" "shape_ok pow"
    using assms(1) by (simp_all add: pow_inv_def)
  have "heap_ok sha512 req held' pow'"
    using assms(15) by (intro heap_ok_update [OF heap assms(4,3) assms(11-14)]) (auto split: option.splits)
  moreover have "found_ok sha512 pow'"
    unfolding found_ok_def
  proof (intro allI impI)
    fix d v ck'
    assume a: "POW_FOUND d v \<in> set (threads pow')" "cookies pow' d = Some ck'"
    show "solves sha512 ck' v"
    proof (cases "d = c")
      case True
      then have "X = Some ck'" using a(2) assms(3) by simp
      then have "solves sha512 ck' v = solves sha512 ck v" using assms(15) by (simp add: solves_def)
      then show ?thesis using assms(16) [OF a(1)] assms(2) found True by (auto simp: found_ok_def)
    next
      case False
      then show ?thesis using a(2) assms(3) assms(16) [OF a(1)] found by (auto simp: found_ok_def)
    qed
  qed
  moreover have "delivered_ok sha512 req held' pow'" using rest(1) assms(7,10) by (auto simp: delivered_ok_def)
  moreover have "fresh_ok req held' pow'" using rest(2) assms(2,3,5) by (auto simp: fresh_ok_def)
  moreover have "shape_ok pow'" using rest(3) assms(4,6,8,9) by (simp add: shape_ok_def)
  ultimately show ?thesis by (simp add: pow_inv_def)
qed

section \<open>The invariant is kept by each step\<close>

lemma pow_invD:
  assumes "pow_inv sha512 req held pow"
  shows "heap_ok sha512 req held pow" "distinct (pow_queue pow)" "distinct (idle_sources pow)"
    "0 < n_threads pow" "length (threads pow) = n_threads pow"
  using assms by (simp_all add: pow_inv_def shape_ok_def)

lemma thread_holds:
  assumes "i < length (threads pow)" "thread_cookie (threads pow ! i) = Some c"
  shows "0 < searchers pow c"
proof -
  have "Some c \<in> set (map thread_cookie (threads pow))" using assms by (force simp: in_set_conv_nth)
  then show ?thesis unfolding searchers_def by (metis count_list_0_iff gr0I)
qed

lemma refs_same_thread:
  assumes "i < length (threads pow)" "thread_cookie t = thread_cookie (threads pow ! i)"
  shows "refs held (set_thread i t pow) d = refs held pow d"
  using searchers_set_thread [OF assms(1), of t d] assms(2) by (simp add: refs_def)

lemma cookie_ok_cong:
  assumes "refs held pow' c = refs held pow c" "pow_queue pow' = pow_queue pow" "idle_sources pow' = idle_sources pow"
    "n_threads pow' = n_threads pow"
  shows "cookie_ok sha512 req held pow' c ck = cookie_ok sha512 req held pow c ck"
  using assms by (simp add: cookie_ok_def)

lemma same_thread_inv:
  assumes inv: "pow_inv sha512 req held pow" and i: "i < length (threads pow)" "thread_cookie t = Some c"
    "thread_cookie (threads pow ! i) = Some c" "cookies pow c = Some ck"
    and found: "\<And>v. t = POW_FOUND c v \<Longrightarrow> solves sha512 ck v"
  shows "pow_inv sha512 req held (set_thread i t pow)"
proof (rule pow_inv_update [OF inv i(4), of _ "Some ck"])
  have same: "refs held (set_thread i t pow) d = refs held pow d" for d
    using i by (intro refs_same_thread) simp_all
  show "refs held (set_thread i t pow) d = refs held pow d" for d by (rule same)
  have "cookie_ok sha512 req held pow c ck" using pow_invD(1) [OF inv] i(4) by (rule heap_okD(1))
  then show "case Some ck of None \<Rightarrow> refs held (set_thread i t pow) c = 0 | Some ck' \<Rightarrow>
      cookie_ok sha512 req held (set_thread i t pow) c ck' \<and> cookie_hash ck' = cookie_hash ck \<and> cookie_target ck' = cookie_target ck"
    by (simp add: cookie_ok_cong [of held "set_thread i t pow" c pow, OF same])
  show "POW_FOUND d v \<in> set (threads (set_thread i t pow)) \<Longrightarrow> POW_FOUND d v \<in> set (threads pow) \<or> d = c \<and> solves sha512 ck v" for d v
    using found_set_thread [of d v i t pow] found [of v] i(2) by auto
  show "cookies (set_thread i t pow) = (cookies pow)(c := Some ck)" using fun_upd_idem [of "cookies pow", OF i(4)] by simp
qed (use pow_invD [OF inv] in simp_all)

lemma search_found: "search_nonces sha512 ck n k nonce = (True, v) \<Longrightarrow> solves sha512 ck v"
  by (induction k arbitrary: nonce) (auto simp: solves_def split: if_splits)

lemma searching_live:
  assumes "pow_inv sha512 req held pow" "i < length (threads pow)" "thread_cookie (threads pow ! i) = Some c"
  obtains ck where "cookies pow c = Some ck" "cookie_ok sha512 req held pow c ck"
proof -
  have "0 < refs held pow c" using thread_holds [OF assms(2,3)] by (simp add: refs_def)
  then show ?thesis using live_cookie heap_okD(1) pow_invD(1) [OF assms(1)] that by blast
qed

lemma body_inv:
  assumes inv: "pow_inv sha512 req held pow" and i: "i < length (threads pow)" "threads pow ! i = POW_SEARCHING c nonce"
  shows "\<exists>pow'. find_nonce_body sha512 i c nonce pow = Ok pow' \<and> pow_inv sha512 req held pow'"
proof -
  obtain ck where ck: "cookies pow c = Some ck" by (rule searching_live [OF inv i(1), of c]) (simp add: i)
  obtain f v where r: "search_nonces sha512 ck (n_threads pow) NTB_POW_NONCES_PER_CHECK nonce = (f, v)" by fastforce
  let ?t = "if f then POW_FOUND c v else POW_SEARCHED c v"
  have "pow_inv sha512 req held (set_thread i ?t pow)"
    using r search_found by (intro same_thread_inv [OF inv i(1) _ _ ck]) (auto simp: i split: if_splits)
  then show ?thesis by (cases f) (simp_all add: find_nonce_body_def ck r)
qed

lemma solution_inv:
  assumes inv: "pow_inv sha512 req held pow" and i: "i < length (threads pow)" "threads pow ! i = POW_FOUND c nonce"
  shows "\<exists>pow'. set_solution c nonce pow = Ok pow' \<and> pow_inv sha512 req held (set_thread i (POW_SEARCHED c nonce) pow')"
proof -
  obtain ck where ck: "cookies pow c = Some ck" "cookie_ok sha512 req held pow c ck"
    by (rule searching_live [OF inv i(1), of c]) (simp add: i)
  show ?thesis
  proof (cases "cookie_done ck")
    case True
    then show ?thesis using same_thread_inv [OF inv i(1) _ _ ck(1), of "POW_SEARCHED c nonce"]
      by (simp add: set_solution_def ck i)
  next
    case False
    let ?ck = "ck\<lparr>cookie_nonce := Some nonce, cookie_done := True, cookie_idle_source := True, ref_count := ref_count ck + 1\<rparr>"
    let ?pow = "pow\<lparr>cookies := (cookies pow)(c \<mapsto> ?ck), idle_sources := c # idle_sources pow\<rparr>"
    have solved: "solves sha512 ck nonce"
      using inv ck(1) i nth_mem [OF i(1)] by (auto simp: pow_inv_def found_ok_def)
    have fresh: "c \<notin> set (idle_sources pow)" "c \<in> held" using ck(2) False by (auto simp: cookie_ok_def)
    have "pow_inv sha512 req held ?pow"
    proof (rule pow_inv_update [OF inv ck(1), of _ "Some ?ck"])
      have "refs held ?pow c = Suc (refs held pow c)" by (simp add: refs_def)
      then show "case Some ?ck of None \<Rightarrow> refs held ?pow c = 0 | Some ck' \<Rightarrow>
          cookie_ok sha512 req held ?pow c ck' \<and> cookie_hash ck' = cookie_hash ck \<and> cookie_target ck' = cookie_target ck"
        using ck(2) fresh solved by (simp add: cookie_ok_def solves_def)
    qed (use pow_invD [OF inv] fresh in \<open>auto simp: refs_def\<close>)
    then have "pow_inv sha512 req held (set_thread i (POW_SEARCHED c nonce) ?pow)"
      using i by (intro same_thread_inv [where c = c and ck = ?ck]) simp_all
    then show ?thesis using False by (simp add: set_solution_def ck(1))
  qed
qed

text \<open>
  A thread that leaves a cookie, and a thread that has just taken a reference to a cookie for itself. In
  between, the reference of the thread is not yet counted among the threads.
\<close>

lemma leave_inv:
  assumes inv: "pow_inv sha512 req held pow" and i: "i < length (threads pow)" "thread_cookie (threads pow ! i) = Some c"
  shows "\<exists>pow'. bind_outcome (unref c pow) (\<lambda>pow. Ok (set_thread i POW_WAITING pow)) = Ok pow' \<and> pow_inv sha512 req held pow'"
proof -
  obtain ck where ck: "cookies pow c = Some ck" "cookie_ok sha512 req held pow c ck" by (rule searching_live [OF inv i])
  let ?X = "if ref_count ck \<le> 1 then None else Some (ck\<lparr>ref_count := ref_count ck - 1\<rparr>)"
  let ?pow = "set_thread i POW_WAITING (pow\<lparr>cookies := (cookies pow)(c := ?X)\<rparr>)"
  have n: "searchers ?pow d + of_bool (d = c) = searchers pow d" for d
    using searchers_set_thread [of i "pow\<lparr>cookies := (cookies pow)(c := ?X)\<rparr>" POW_WAITING d] i by (auto simp del: fun_upd_apply)
  have "pow_inv sha512 req held ?pow"
  proof (rule pow_inv_update [OF inv ck(1), of _ ?X])
    show "refs held ?pow d = refs held pow d" if "d \<noteq> c" for d using n [of d] that by (simp add: refs_def)
    have "Suc (refs held ?pow c) = refs held pow c" using n [of c] by (simp add: refs_def)
    then show "case ?X of None \<Rightarrow> refs held ?pow c = 0 | Some ck' \<Rightarrow>
        cookie_ok sha512 req held ?pow c ck' \<and> cookie_hash ck' = cookie_hash ck \<and> cookie_target ck' = cookie_target ck"
      using ck(2) by (auto simp: cookie_ok_def solves_def)
    show "POW_FOUND d v \<in> set (threads ?pow) \<Longrightarrow> POW_FOUND d v \<in> set (threads pow) \<or> d = c \<and> solves sha512 ck v" for d v
      using found_set_thread [of d v i POW_WAITING "pow\<lparr>cookies := (cookies pow)(c := ?X)\<rparr>"] by auto
  qed (use pow_invD [OF inv] in simp_all)
  then show ?thesis by (simp add: unref_live [OF ck(1)])
qed

lemma test_inv:
  assumes inv: "pow_inv sha512 req held pow" and i: "i < length (threads pow)" "thread_cookie (threads pow ! i) = Some c"
  shows "\<exists>pow'. find_nonce_test i c nonce pow = Ok pow' \<and> pow_inv sha512 req held pow'"
proof -
  obtain ck where ck: "cookies pow c = Some ck" by (rule searching_live [OF inv i])
  show ?thesis
    using leave_inv [OF inv i] same_thread_inv [OF inv i(1) _ i(2) ck, of "POW_SEARCHING c nonce"]
    by (simp add: find_nonce_test_def ck)
qed

lemma set_thread_twice: "set_thread i t (set_thread i t' pow) = set_thread i t pow"
  by (simp add: set_thread_def)

lemma unref_set_thread: "unref c (set_thread i t pow) = bind_outcome (unref c pow) (\<lambda>pow. Ok (set_thread i t pow))"
proof -
  have "(set_thread i t pow)\<lparr>cookies := h\<rparr> = set_thread i t (pow\<lparr>cookies := h\<rparr>)" for h
    by (cases pow) (simp add: set_thread_def)
  then show ?thesis by (simp add: unref_def bind_outcome_assoc)
qed

lemma test_set_thread: "find_nonce_test i c nonce (set_thread i t pow) = find_nonce_test i c nonce pow"
  by (simp add: find_nonce_test_def unref_set_thread bind_outcome_assoc set_thread_twice split: option.split)

text \<open>A thread that takes the first cookie of the queue, with and without taking it out.\<close>

lemma dequeue_inv:
  assumes inv: "pow_inv sha512 req held pow" and i: "i < length (threads pow)" "threads pow ! i = POW_WAITING"
    and q: "pow_queue pow = c # q" and ck: "cookies pow c = Some ck" "cookie_ok sha512 req held pow c ck"
    and last: "b \<longleftrightarrow> next_nonce_offset ck + 1 \<ge> int (n_threads pow)"
    and new: "cookies pow' = (cookies pow)(c \<mapsto> ck\<lparr>ref_count := ref_count ck + of_bool (\<not> b), next_nonce_offset := next_nonce_offset ck + 1\<rparr>)"
      "pow_queue pow' = (if b then q else c # q)"
    and same: "threads pow' = threads pow" "idle_sources pow' = idle_sources pow" "n_threads pow' = n_threads pow"
      "n_cookies pow' = n_cookies pow" "delivered pow' = delivered pow"
  shows "pow_inv sha512 req held (set_thread i (POW_SEARCHED c nonce) pow')" (is "pow_inv _ _ _ (set_thread i ?t _)")
proof (rule pow_inv_update [OF inv ck(1)])
  have n: "searchers (set_thread i ?t pow') d = searchers pow d + of_bool (d = c)" for d
    using searchers_set_thread [of i pow' ?t d] i by (auto simp: same searchers_def)
  have d: "c \<notin> set q" "distinct q" using pow_invD(2) [OF inv] by (simp_all add: q)
  then show "distinct (pow_queue (set_thread i ?t pow'))" by (simp add: new)
  show "refs held (set_thread i ?t pow') d = refs held pow d" if "d \<noteq> c" for d
    using n [of d] that by (auto simp: refs_def q new same)
  have r: "refs held (set_thread i ?t pow') c = refs held pow c + of_bool (\<not> b)"
    using n [of c] d by (auto simp: refs_def q new same)
  show "case Some (ck\<lparr>ref_count := ref_count ck + of_bool (\<not> b), next_nonce_offset := next_nonce_offset ck + 1\<rparr>) of
      None \<Rightarrow> refs held (set_thread i ?t pow') c = 0 | Some ck' \<Rightarrow>
      cookie_ok sha512 req held (set_thread i ?t pow') c ck' \<and> cookie_hash ck' = cookie_hash ck \<and> cookie_target ck' = cookie_target ck"
    using ck(2) d last r by (auto simp: cookie_ok_def solves_def new same q)
  show "POW_FOUND d v \<in> set (threads (set_thread i ?t pow')) \<Longrightarrow> POW_FOUND d v \<in> set (threads pow) \<or> d = c \<and> solves sha512 ck v" for d v
    using found_set_thread [of d v i ?t pow'] by (auto simp: same)
qed (use pow_invD [OF inv] in \<open>auto simp: q new same\<close>)

lemma pow_inv_cong:
  assumes "pow_inv sha512 req held pow" "cookies pow' = cookies pow" "pow_queue pow' = pow_queue pow"
    and "idle_sources pow' = idle_sources pow" "n_threads pow' = n_threads pow" "n_cookies pow' = n_cookies pow"
    and "delivered pow' = delivered pow" "length (threads pow') = length (threads pow)"
    and "\<And>d. searchers pow' d = searchers pow d"
    and "\<And>d v. POW_FOUND d v \<in> set (threads pow') \<Longrightarrow> POW_FOUND d v \<in> set (threads pow)"
  shows "pow_inv sha512 req held pow'"
proof -
  have refs: "refs held pow' d = refs held pow d" for d using assms(3,4,9) by (simp add: refs_def)
  have "cookie_ok sha512 req held pow' c ck = cookie_ok sha512 req held pow c ck" for c ck
    using assms(3-5) by (intro cookie_ok_cong refs)
  then have "heap_ok sha512 req held pow'" using pow_invD(1) [OF assms(1)] by (simp add: heap_ok_def assms(2) refs cong: option.case_cong)
  moreover have "found_ok sha512 pow'" using assms(1,10) unfolding pow_inv_def found_ok_def assms(2) by blast
  ultimately show ?thesis using assms(1-8) by (simp add: pow_inv_def delivered_ok_def fresh_ok_def shape_ok_def)
qed

lemma end_inv:
  assumes "pow_inv sha512 req held pow" "i < length (threads pow)" "threads pow ! i = POW_WAITING"
  shows "pow_inv sha512 req held (set_thread i POW_ENDED pow)"
  using searchers_set_thread [OF assms(2), of POW_ENDED] found_set_thread [of _ _ i POW_ENDED pow] assms(3)
  by (intro pow_inv_cong [OF assms(1)]) auto

lemma quit_inv: "pow_inv sha512 req held pow \<Longrightarrow> pow_inv sha512 req held (ntb_pow_quit pow)"
  by (erule pow_inv_cong) (simp_all add: ntb_pow_quit_def)

lemma cookie_take_inv:
  assumes inv: "pow_inv sha512 req held pow" and i: "i < length (threads pow)" "threads pow ! i = POW_WAITING"
    and take: "thread_take i pow = Some r"
  shows "\<exists>pow'. r = Ok pow' \<and> pow_inv sha512 req held pow'"
proof (cases "pow_quit pow")
  case True
  then show ?thesis using take end_inv [OF inv i] by (auto simp: thread_take_def)
next
  case False
  then obtain c q where q: "pow_queue pow = c # q" using take by (auto simp: thread_take_def split: list.splits)
  have "0 < refs held pow c" by (simp add: refs_def q)
  then obtain ck where ck: "cookies pow c = Some ck" "cookie_ok sha512 req held pow c ck"
    using live_cookie heap_okD(1) pow_invD(1) [OF inv] by blast
  define b where "b \<longleftrightarrow> next_nonce_offset ck + 1 \<ge> int (n_threads pow)"
  define pow1 where "pow1 = (if b then pow\<lparr>pow_queue := q,
       cookies := (cookies pow)(c \<mapsto> ck\<lparr>next_nonce_offset := next_nonce_offset ck + 1\<rparr>)\<rparr>
     else pow\<lparr>cookies := (cookies pow)(c \<mapsto> ck\<lparr>ref_count := ref_count ck + 1, next_nonce_offset := next_nonce_offset ck + 1\<rparr>)\<rparr>)"
  let ?nonce = "word_of_int (next_nonce_offset ck)"
  have "pow_inv sha512 req held (set_thread i (POW_SEARCHED c ?nonce) pow1)"
    by (rule dequeue_inv [OF inv i q ck b_def]) (simp_all add: pow1_def q)
  then have "\<exists>pow'. find_nonce_test i c ?nonce (set_thread i (POW_SEARCHED c ?nonce) pow1) = Ok pow' \<and> pow_inv sha512 req held pow'"
    using i by (intro test_inv) (simp_all add: set_thread_def pow1_def)
  moreover have "0 < ref_count ck" using ck(2) by (simp add: cookie_ok_def)
  then have "r = find_nonce_test i c ?nonce pow1"
    using take False by (cases b)
      (simp_all add: thread_take_def q ck(1) Let_def b_def [symmetric] pow1_def remove_queued_cookie_def unref_def unref_cookie_def)
  ultimately show ?thesis by (simp add: test_set_thread)
qed

lemma cookie_step_inv:
  assumes "pow_inv sha512 req held pow" "thread_step sha512 i pow = Some r"
  shows "\<exists>pow'. r = Ok pow' \<and> pow_inv sha512 req held pow'"
proof -
  have i: "i < length (threads pow)" using assms(2) by (simp add: thread_step_def split: if_splits)
  show ?thesis
    using assms(2) i cookie_take_inv [OF assms(1) i] body_inv [OF assms(1) i] solution_inv [OF assms(1) i] test_inv [OF assms(1) i]
    by (cases "threads pow ! i") (fastforce simp: thread_step_def)+
qed

lemma checked_solution:
  "solves sha512 ck v \<Longrightarrow> cookie_hash ck = sha512 p \<Longrightarrow> calculate_target (length p + 8) e t = Ok (cookie_target ck) \<Longrightarrow>
    ntb_pow_check sha512 (be_bytes 8 (unat v) @ p) e t = Ok True"
  by (simp add: ntb_pow_check_def solves_def add.commute)

lemma deliver_inv:
  assumes "pow_inv sha512 req held pow" "c \<notin> held" "c \<notin> fst ` set (delivered pow)" "req c = Some (p, e, t)"
    and "ntb_pow_check sha512 (be_bytes 8 (unat v) @ p) e t = Ok True"
  shows "pow_inv sha512 req held (pow\<lparr>delivered := delivered pow @ [(c, v)]\<rparr>)"
proof -
  have "refs held (pow\<lparr>delivered := dl\<rparr>) = refs held pow" for dl by (simp add: refs_def fun_eq_iff)
  then have "heap_ok sha512 req held (pow\<lparr>delivered := dl\<rparr>)" for dl
    using pow_invD(1) [OF assms(1)] by (simp add: heap_ok_def cookie_ok_def cong: option.case_cong)
  then show ?thesis using assms by (auto simp: pow_inv_def found_ok_def delivered_ok_def fresh_ok_def shape_ok_def)
qed

lemma cookie_idle_inv:
  assumes inv: "pow_inv sha512 req held pow" and c: "c \<in> set (idle_sources pow)"
  shows "\<exists>pow'. idle_cb c pow = Ok pow' \<and> pow_inv sha512 req (held - {c}) pow'"
proof -
  have "0 < refs held pow c" using c by (simp add: refs_def count_list_distinct pow_invD [OF inv])
  then obtain ck where ck: "cookies pow c = Some ck" "cookie_ok sha512 req held pow c ck"
    using live_cookie heap_okD(1) pow_invD(1) [OF inv] by blast
  then obtain v where v: "cookie_nonce ck = Some v" "solves sha512 ck v" "c \<in> held" "cookie_idle_source ck" "cookie_done ck"
    using c by (auto simp: cookie_ok_def)
  obtain p e t where req: "req c = Some (p, e, t)" "ntb_pow_check sha512 (be_bytes 8 (unat v) @ p) e t = Ok True"
    using ck(2) checked_solution [OF v(2)] by (auto simp: cookie_ok_def)
  let ?X = "if ref_count ck \<le> 2 then None else Some (ck\<lparr>cookie_idle_source := False, ref_count := ref_count ck - 2\<rparr>)"
  let ?pow = "pow\<lparr>idle_sources := remove1 c (idle_sources pow), cookies := (cookies pow)(c := ?X)\<rparr>"
  have d: "distinct (idle_sources pow)" by (rule pow_invD [OF inv])
  have n: "refs held pow c = refs (held - {c}) ?pow c + 2"
    using c v(3) d by (simp add: refs_def count_list_remove1 count_list_distinct)
  have "pow_inv sha512 req (held - {c}) ?pow"
  proof (rule pow_inv_update [OF inv ck(1), of _ ?X])
    show "refs (held - {c}) ?pow d = refs held pow d" if "d \<noteq> c" for d using that by (simp add: refs_def count_list_remove1)
    show "case ?X of None \<Rightarrow> refs (held - {c}) ?pow c = 0 | Some ck' \<Rightarrow>
        cookie_ok sha512 req (held - {c}) ?pow c ck' \<and> cookie_hash ck' = cookie_hash ck \<and> cookie_target ck' = cookie_target ck"
      using ck(2) n d v by (auto simp: cookie_ok_def solves_def)
  qed (use pow_invD [OF inv] in auto)
  moreover have "c \<notin> fst ` set (delivered pow)" using inv v(3) by (auto simp: pow_inv_def delivered_ok_def)
  ultimately have "pow_inv sha512 req (held - {c}) (?pow\<lparr>delivered := delivered ?pow @ [(c, v)]\<rparr>)"
    using req by (intro deliver_inv) simp_all
  moreover have "2 \<le> ref_count ck" using ck(2) n by (simp add: cookie_ok_def)
  ultimately show ?thesis
    by (cases "ref_count ck = 2") (simp_all add: idle_cb_def ck(1) v(1) unref_def unref_cookie_def fun_upd_def cong: if_cong)
qed

lemma no_idle_source: "\<not> cookie_idle_source ck \<Longrightarrow> ck\<lparr>cookie_idle_source := False\<rparr> = ck"
  by (cases ck) simp

lemma cookie_cancel_eq:
  assumes ck: "cookies pow c = Some ck" and d: "distinct (pow_queue pow)" "distinct (idle_sources pow)"
    and q: "c \<in> set (pow_queue pow) \<longleftrightarrow> next_nonce_offset ck < int (n_threads pow)"
    and ids: "cookie_idle_source ck \<longleftrightarrow> c \<in> set (idle_sources pow)"
    and n: "ref_count ck = int (n + count_list (pow_queue pow) c + count_list (idle_sources pow) c + 1)"
  shows "\<exists>pow'. ntb_pow_cancel c pow = Ok pow' \<and> pow_queue pow' = remove1 c (pow_queue pow) \<and>
    idle_sources pow' = remove1 c (idle_sources pow) \<and> threads pow' = threads pow \<and> n_threads pow' = n_threads pow \<and>
    n_cookies pow' = n_cookies pow \<and> delivered pow' = delivered pow \<and>
    cookies pow' = (cookies pow)(c := if n = 0 then None else
      Some (ck\<lparr>cookie_idle_source := False, cookie_done := True, ref_count := int n\<rparr>))"
  using assms
  by (cases "c \<in> set (pow_queue pow)"; cases "c \<in> set (idle_sources pow)"; cases "n = 0")
    (simp_all add: ntb_pow_cancel_def remove_queued_cookie_def remove_idle_source_def set_done_def unref_def unref_cookie_def
      count_list_distinct remove1_idem no_idle_source)

lemma cookie_cancel_inv:
  assumes inv: "pow_inv sha512 req held pow" and c: "c \<in> held"
  shows "\<exists>pow'. ntb_pow_cancel c pow = Ok pow' \<and> pow_inv sha512 req (held - {c}) pow'"
proof -
  have "0 < refs held pow c" using c by (simp add: refs_def)
  then obtain ck where ck: "cookies pow c = Some ck" "cookie_ok sha512 req held pow c ck"
    using live_cookie heap_okD(1) pow_invD(1) [OF inv] by blast
  let ?n = "searchers pow c"
  have d: "distinct (pow_queue pow)" "distinct (idle_sources pow)" using pow_invD [OF inv] by simp_all
  have "\<exists>pow'. ntb_pow_cancel c pow = Ok pow' \<and> pow_queue pow' = remove1 c (pow_queue pow) \<and>
    idle_sources pow' = remove1 c (idle_sources pow) \<and> threads pow' = threads pow \<and> n_threads pow' = n_threads pow \<and>
    n_cookies pow' = n_cookies pow \<and> delivered pow' = delivered pow \<and>
    cookies pow' = (cookies pow)(c := if ?n = 0 then None else
      Some (ck\<lparr>cookie_idle_source := False, cookie_done := True, ref_count := int ?n\<rparr>))"
    using ck(2) c by (intro cookie_cancel_eq [OF ck(1) d]) (auto simp: cookie_ok_def refs_def)
  then obtain pow' where pow': "ntb_pow_cancel c pow = Ok pow'" "pow_queue pow' = remove1 c (pow_queue pow)"
    "idle_sources pow' = remove1 c (idle_sources pow)" "threads pow' = threads pow" "n_threads pow' = n_threads pow"
    "n_cookies pow' = n_cookies pow" "delivered pow' = delivered pow"
    "cookies pow' = (cookies pow)(c := if ?n = 0 then None else
      Some (ck\<lparr>cookie_idle_source := False, cookie_done := True, ref_count := int ?n\<rparr>))" by blast
  have r: "refs (held - {c}) pow' c = ?n"
    using d by (simp add: refs_def searchers_def pow' count_list_remove1 count_list_distinct)
  have "pow_inv sha512 req (held - {c}) pow'"
  proof (rule pow_inv_update [OF inv ck(1) pow'(8)])
    show "refs (held - {c}) pow' d = refs held pow d" if "d \<noteq> c" for d
      using that by (simp add: refs_def searchers_def pow' count_list_remove1)
    show "case (if ?n = 0 then None else Some (ck\<lparr>cookie_idle_source := False, cookie_done := True, ref_count := int ?n\<rparr>)) of
        None \<Rightarrow> refs (held - {c}) pow' c = 0 | Some ck' \<Rightarrow>
        cookie_ok sha512 req (held - {c}) pow' c ck' \<and> cookie_hash ck' = cookie_hash ck \<and> cookie_target ck' = cookie_target ck"
      using ck(2) d by (auto simp: cookie_ok_def solves_def r pow')
  qed (use d in \<open>auto simp: pow'\<close>)
  then show ?thesis using pow'(1) by blast
qed

lemma calculate_inv:
  assumes inv: "pow_inv sha512 req held pow" and calc: "ntb_pow_calculate sha512 p e t pow = Ok (c, pow')"
  shows "pow_inv sha512 (req(c \<mapsto> (p, e, t))) (insert c held) pow'"
proof -
  have c: "c = n_cookies pow" using calc by (auto simp: ntb_pow_calculate_def Let_def)
  have fresh: "cookies pow c = None" "req c = None" using inv by (simp_all add: pow_inv_def fresh_ok_def c)
  then have "refs held pow c = 0" using pow_invD(1) [OF inv] by (simp add: heap_okD)
  then have zero: "searchers pow c = 0" "count_list (pow_queue pow) c = 0" "count_list (idle_sources pow) c = 0" "c \<notin> held"
    by (simp_all add: refs_def split: if_splits)
  then have unlinked: "c \<notin> set (pow_queue pow)" "c \<notin> set (idle_sources pow)" by (simp_all add: count_list_0_iff)
  obtain target where target: "calculate_target (length p + 8) e t = Ok target" using calc by (auto simp: ntb_pow_calculate_def)
  let ?ck = "\<lparr>ref_count = 2, next_nonce_offset = 0, cookie_hash = sha512 p,
     cookie_target = target, cookie_nonce = None, cookie_done = False, cookie_idle_source = False\<rparr>"
  have pow': "pow' = pow\<lparr>cookies := (cookies pow)(c \<mapsto> ?ck), n_cookies := c + 1, pow_queue := insert_after_first c (pow_queue pow)\<rparr>"
    using calc target by (auto simp: ntb_pow_calculate_def Let_def c)
  have q: "set (insert_after_first c (pow_queue pow)) = insert c (set (pow_queue pow))"
    "distinct (insert_after_first c (pow_queue pow))"
    using unlinked pow_invD(2) [OF inv] by (auto simp: insert_after_first_def split: list.splits)
  have "refs (insert c held) pow' c = 2" using zero by (simp add: refs_def pow' count_insert_after_first)
  then have "cookie_ok sha512 (req(c \<mapsto> (p, e, t))) (insert c held) pow' c ?ck"
    using target q unlinked pow_invD(4) [OF inv] by (simp add: cookie_ok_def pow')
  then have "heap_ok sha512 (req(c \<mapsto> (p, e, t))) (insert c held) pow'"
    by (intro heap_ok_update [OF pow_invD(1) [OF inv], of _ c "Some ?ck"])
      (auto simp: pow' refs_def count_insert_after_first q)
  moreover have "found_ok sha512 pow'"
  proof -
    have "POW_FOUND c v \<notin> set (threads pow)" for v
    proof
      assume "POW_FOUND c v \<in> set (threads pow)"
      then have "Some c \<in> set (map thread_cookie (threads pow))" by force
      then show False using zero(1) unfolding searchers_def count_list_0_iff by contradiction
    qed
    then show ?thesis using inv by (auto simp: pow_inv_def found_ok_def pow')
  qed
  moreover have "delivered_ok sha512 (req(c \<mapsto> (p, e, t))) (insert c held) pow'"
  proof -
    have "c \<noteq> d" if "(d, v) \<in> set (delivered pow)" for d v
      using inv that fresh by (fastforce simp: pow_inv_def delivered_ok_def)
    then show ?thesis using inv by (fastforce simp: pow_inv_def delivered_ok_def pow')
  qed
  moreover have "fresh_ok (req(c \<mapsto> (p, e, t))) (insert c held) pow'"
    using inv by (auto simp: pow_inv_def fresh_ok_def pow' c)
  moreover have "shape_ok pow'" using pow_invD [OF inv] q by (simp add: shape_ok_def pow')
  ultimately show ?thesis by (simp add: pow_inv_def)
qed

lemma new_inv: "0 < n \<Longrightarrow> pow_inv sha512 (\<lambda>_. None) {} (ntb_pow_new n)"
  by (simp add: pow_inv_def heap_ok_def found_ok_def delivered_ok_def fresh_ok_def shape_ok_def ntb_pow_new_def refs_def searchers_def
      count_list_0_iff)

section \<open>All interleavings\<close>

text \<open>
  The requests that were made, the cookies that the callers still hold, and the state. A caller may cancel
  a cookie that it holds; the main loop calls the callback of an idle source; the threads go on in any order.
  A step is labelled with the thread that makes it, or \<open>None\<close> for the main thread.
\<close>

type_synonym pow_state = "requests \<times> nat set \<times> ntb_pow"

inductive pow_step :: "(u8 list \<Rightarrow> u8 list) \<Rightarrow> pow_state \<Rightarrow> nat option \<Rightarrow> pow_state \<Rightarrow> bool" for sha512 where
  step_calculate: "ntb_pow_calculate sha512 p e t pow = Ok (c, pow') \<Longrightarrow>
    pow_step sha512 (req, held, pow) None (req(c \<mapsto> (p, e, t)), insert c held, pow')"
| step_cancel: "c \<in> held \<Longrightarrow> ntb_pow_cancel c pow = Ok pow' \<Longrightarrow>
    pow_step sha512 (req, held, pow) None (req, held - {c}, pow')"
| step_idle: "c \<in> set (idle_sources pow) \<Longrightarrow> idle_cb c pow = Ok pow' \<Longrightarrow>
    pow_step sha512 (req, held, pow) None (req, held - {c}, pow')"
| step_thread: "thread_step sha512 i pow = Some (Ok pow') \<Longrightarrow> pow_step sha512 (req, held, pow) (Some i) (req, held, pow')"
| step_quit: "pow_step sha512 (req, held, pow) None (req, held, ntb_pow_quit pow)"

inductive_cases pow_stepE: "pow_step sha512 (req, held, pow) l s"

inductive pow_run :: "(u8 list \<Rightarrow> u8 list) \<Rightarrow> pow_state \<Rightarrow> nat option list \<Rightarrow> pow_state \<Rightarrow> bool" for sha512 where
  run_none: "pow_run sha512 s [] s"
| run_more: "pow_run sha512 s ls s' \<Longrightarrow> pow_step sha512 s' l s'' \<Longrightarrow> pow_run sha512 s (ls @ [l]) s''"

definition pow_start :: "nat \<Rightarrow> pow_state" where
  "pow_start n_cpus = (\<lambda>_. None, {}, ntb_pow_new n_cpus)"

definition state_inv :: "(u8 list \<Rightarrow> u8 list) \<Rightarrow> pow_state \<Rightarrow> bool" where
  "state_inv sha512 s = (case s of (req, held, pow) \<Rightarrow> pow_inv sha512 req held pow)"

lemma pow_step_inv: "pow_step sha512 s l s' \<Longrightarrow> state_inv sha512 s \<Longrightarrow> state_inv sha512 s'"
proof (induction rule: pow_step.induct)
  case (step_cancel c held pow pow' req)
  then show ?case using cookie_cancel_inv [of sha512 req held pow c] by (auto simp: state_inv_def)
next
  case (step_idle c pow pow' req held)
  then show ?case using cookie_idle_inv [of sha512 req held pow c] by (auto simp: state_inv_def)
next
  case (step_thread i pow pow' req held)
  then show ?case using cookie_step_inv [of sha512 req held pow i] by (auto simp: state_inv_def)
qed (simp_all add: state_inv_def calculate_inv quit_inv)

lemma pow_run_inv: "pow_run sha512 s ls s' \<Longrightarrow> state_inv sha512 s \<Longrightarrow> state_inv sha512 s'"
  by (induction rule: pow_run.induct) (auto dest: pow_step_inv)

lemma pow_reachable_inv: "pow_run sha512 (pow_start n) ls (req, held, pow) \<Longrightarrow> 0 < n \<Longrightarrow> pow_inv sha512 req held pow"
  using pow_run_inv [of sha512 "pow_start n" ls "(req, held, pow)"] by (simp add: state_inv_def pow_start_def new_inv)

section \<open>The end\<close>

lemma ended_searchers: "set (threads pow) \<subseteq> {POW_ENDED} \<Longrightarrow> searchers pow c = 0"
  unfolding searchers_def count_list_0_iff by auto

lemma unlink_inv:
  assumes inv: "pow_inv sha512 req {} pow" and ended: "set (threads pow) \<subseteq> {POW_ENDED}" and q: "pow_queue pow = c # q"
  shows "\<exists>pow'. remove_queued_cookie c pow = Ok pow' \<and> pow_inv sha512 req {} pow' \<and> threads pow' = threads pow \<and> pow_queue pow' = q"
proof -
  have no_idle: "idle_sources pow = []"
  proof (rule ccontr)
    assume "idle_sources pow \<noteq> []"
    then obtain d where d: "d \<in> set (idle_sources pow)" by fastforce
    then have "0 < refs {} pow d" by (simp add: refs_def count_list_distinct pow_invD [OF inv])
    then obtain ck where "cookies pow d = Some ck" using live_cookie [OF pow_invD(1) [OF inv]] by blast
    then have "cookie_ok sha512 req {} pow d ck" by (rule heap_okD(1) [OF pow_invD(1) [OF inv]])
    then show False using d by (auto simp: cookie_ok_def)
  qed
  have r: "refs {} pow c = 1"
    using pow_invD(2) [OF inv] ended by (simp add: refs_def q no_idle ended_searchers count_list_distinct)
  then obtain ck where ck: "cookies pow c = Some ck" "cookie_ok sha512 req {} pow c ck"
    using live_cookie [of sha512 req "{}" pow c] heap_okD(1) pow_invD(1) [OF inv] by auto
  let ?pow = "pow\<lparr>pow_queue := q, cookies := (cookies pow)(c := None)\<rparr>"
  have "pow_inv sha512 req {} ?pow"
    by (rule pow_inv_update [OF inv ck(1), of _ None])
      (use pow_invD [OF inv] ended in \<open>auto simp: q refs_def no_idle ended_searchers count_list_0_iff\<close>)
  moreover have "remove_queued_cookie c pow = Ok ?pow"
    using ck(2) r by (simp add: remove_queued_cookie_def q unref_def unref_cookie_def ck(1) cookie_ok_def)
  ultimately show ?thesis by simp
qed

lemma free_loop:
  assumes "pow_inv sha512 req {} pow" "set (threads pow) \<subseteq> {POW_ENDED}"
  shows "\<exists>pow'. remove_queued_cookies (pow_queue pow) pow = Ok pow' \<and> (\<forall>c. cookies pow' c = None)"
  using assms
proof (induction "pow_queue pow" arbitrary: pow)
  case Nil
  have "cookies pow c = None" for c
  proof (cases "cookies pow c")
    case (Some ck)
    then have ok: "cookie_ok sha512 req {} pow c ck" using pow_invD(1) [OF Nil.prems(1)] by (rule heap_okD(1) [rotated])
    then have "c \<notin> set (idle_sources pow)" by (auto simp: cookie_ok_def)
    then have "refs {} pow c = 0" using Nil ended_searchers by (simp add: refs_def count_list_0_iff)
    then show ?thesis using ok by (simp add: cookie_ok_def)
  qed simp
  then show ?case by (simp flip: Nil.hyps)
next
  case (Cons c q)
  then obtain pow' where "remove_queued_cookie c pow = Ok pow'" "pow_inv sha512 req {} pow'" "threads pow' = threads pow" "pow_queue pow' = q"
    using unlink_inv [of sha512 req pow c q] by auto
  then show ?case using Cons.hyps(1) [of pow'] Cons.prems(2) by (simp flip: Cons.hyps(2))
qed

section \<open>Progress of a search\<close>

text \<open>What later states keep of a state: cookies are not changed but for their bookkeeping, and numbers are not used again.\<close>

definition kept :: "ntb_pow_cookie \<Rightarrow> ntb_pow_cookie \<Rightarrow> bool" where
  "kept ck ck' \<longleftrightarrow> cookie_hash ck' = cookie_hash ck \<and> cookie_target ck' = cookie_target ck \<and> (cookie_done ck \<longrightarrow> cookie_done ck')"

definition keeps :: "ntb_pow \<Rightarrow> ntb_pow \<Rightarrow> bool" where
  "keeps pow pow' \<longleftrightarrow> n_threads pow' = n_threads pow \<and> n_cookies pow \<le> n_cookies pow' \<and> (pow_quit pow \<longrightarrow> pow_quit pow') \<and>
     (\<forall>c ck'. c < n_cookies pow \<longrightarrow> cookies pow' c = Some ck' \<longrightarrow> (\<exists>ck. cookies pow c = Some ck \<and> kept ck ck'))"

lemma keeps_refl: "keeps pow pow"
  by (simp add: keeps_def kept_def)

lemma kept_trans: "kept ck ck' \<Longrightarrow> kept ck' ck'' \<Longrightarrow> kept ck ck''"
  by (simp add: kept_def)

lemma keeps_trans:
  assumes "keeps pow1 pow2" "keeps pow2 pow3"
  shows "keeps pow1 pow3"
proof -
  have "\<exists>ck. cookies pow1 c = Some ck \<and> kept ck ck''" if c: "c < n_cookies pow1" "cookies pow3 c = Some ck''" for c ck''
  proof -
    have "c < n_cookies pow2" using assms(1) c(1) by (simp add: keeps_def)
    then obtain ck' where "cookies pow2 c = Some ck'" "kept ck' ck''" using assms(2) c(2) unfolding keeps_def by blast
    moreover from this(1) obtain ck where "cookies pow1 c = Some ck" "kept ck ck'" using assms(1) c(1) unfolding keeps_def by blast
    ultimately show ?thesis using kept_trans by blast
  qed
  then show ?thesis using assms unfolding keeps_def by (metis le_trans)
qed

lemma keeps_put:
  assumes "cookies pow c = Some ck" "cookies pow' = (cookies pow)(c \<mapsto> ck')" "n_threads pow' = n_threads pow"
    "n_cookies pow' = n_cookies pow" "pow_quit pow' = pow_quit pow" "kept ck ck'"
  shows "keeps pow pow'"
  using assms by (auto simp: keeps_def kept_def)

lemma keeps_unref: "unref c pow = Ok pow' \<Longrightarrow> keeps pow pow'"
  by (auto simp: unref_def unref_cookie_def keeps_def kept_def split: option.splits if_splits)

lemma keeps_same: "cookies pow' = cookies pow \<Longrightarrow> n_threads pow' = n_threads pow \<Longrightarrow> n_cookies pow' = n_cookies pow \<Longrightarrow>
    (pow_quit pow \<longrightarrow> pow_quit pow') \<Longrightarrow> keeps pow pow'"
  by (simp add: keeps_def kept_def)

lemma keeps_set_thread: "keeps pow (set_thread i t pow)"
  by (rule keeps_same) simp_all

lemma keeps_remove_queued: "remove_queued_cookie c pow = Ok pow' \<Longrightarrow> keeps pow pow'"
  using keeps_unref keeps_trans [OF keeps_same, of "pow\<lparr>pow_queue := remove1 c (pow_queue pow)\<rparr>" pow pow']
  by (auto simp: remove_queued_cookie_def split: if_splits)

lemma keeps_test: "find_nonce_test i c nonce pow = Ok pow' \<Longrightarrow> keeps pow pow'"
  by (auto simp: find_nonce_test_def keeps_set_thread split: option.splits if_splits
      intro: keeps_trans [OF keeps_unref keeps_set_thread])

lemma keeps_solution: "set_solution c nonce pow = Ok pow' \<Longrightarrow> keeps pow pow'"
  by (auto simp: set_solution_def keeps_refl kept_def split: option.splits if_splits intro: keeps_put)

lemma keeps_body: "find_nonce_body sha512 i c nonce pow = Ok pow' \<Longrightarrow> keeps pow pow'"
  by (auto simp: find_nonce_body_def keeps_set_thread split: option.splits prod.splits bool.splits)

lemma keeps_take:
  assumes "thread_take i pow = Some (Ok pow')"
  shows "keeps pow pow'"
proof (cases "pow_quit pow")
  case True
  then show ?thesis using assms by (auto simp: thread_take_def keeps_set_thread)
next
  case False
  then obtain c q ck where c: "pow_queue pow = c # q" "cookies pow c = Some ck"
    using assms by (auto simp: thread_take_def split: list.splits option.splits)
  let ?pow = "pow\<lparr>cookies := (cookies pow)(c \<mapsto> ck\<lparr>ref_count := ref_count ck + 1, next_nonce_offset := next_nonce_offset ck + 1\<rparr>)\<rparr>"
  have "keeps pow ?pow"
    by (rule keeps_put [OF c(2), of _ "ck\<lparr>ref_count := ref_count ck + 1, next_nonce_offset := next_nonce_offset ck + 1\<rparr>"])
      (simp_all add: kept_def)
  moreover have "keeps ?pow pow'"
    using assms False c by (auto simp: thread_take_def Let_def split: if_splits
        intro: keeps_test keeps_trans [OF keeps_remove_queued keeps_test])
  ultimately show ?thesis by (rule keeps_trans)
qed

lemma keeps_thread_step: "thread_step sha512 i pow = Some (Ok pow') \<Longrightarrow> keeps pow pow'"
  by (auto simp: thread_step_def keeps_take keeps_body keeps_test split: if_splits pow_thread.splits
      intro: keeps_trans [OF keeps_solution keeps_set_thread])

lemma keeps_unlink_idle:
  assumes "cookies pow c = Some ck"
  shows "keeps pow (pow\<lparr>idle_sources := ids, cookies := (cookies pow)(c \<mapsto> ck\<lparr>cookie_idle_source := False\<rparr>)\<rparr>)"
  by (rule keeps_put [OF assms, of _ "ck\<lparr>cookie_idle_source := False\<rparr>"]) (simp_all add: kept_def)

lemma keeps_cancel:
  assumes "ntb_pow_cancel c pow = Ok pow'"
  shows "keeps pow pow'"
proof -
  obtain pow1 pow2 pow3 where
    "(if next_nonce_offset (the (cookies pow c)) < int (n_threads pow) then remove_queued_cookie c pow else Ok pow) = Ok pow1"
    "remove_idle_source c pow1 = Ok pow2" "set_done c pow2 = Ok pow3" "unref c pow3 = Ok pow'"
    using assms by (auto simp: ntb_pow_cancel_def split: option.splits)
  moreover from this(1) have "keeps pow pow1" using keeps_remove_queued keeps_refl by (auto split: if_splits)
  moreover from calculation(2) have "keeps pow1 pow2"
    by (auto simp: remove_idle_source_def keeps_refl split: option.splits if_splits
        intro: keeps_trans [OF keeps_unlink_idle keeps_unref])
  moreover from calculation(3) have "keeps pow2 pow3"
    by (auto simp: set_done_def kept_def split: option.splits intro: keeps_put)
  ultimately show ?thesis using keeps_trans keeps_unref by blast
qed

lemma keeps_idle:
  assumes "idle_cb c pow = Ok pow'"
  shows "keeps pow pow'"
proof -
  obtain ck nonce pow2 pow3 where ck: "cookies pow c = Some ck" and
    steps: "unref c (pow\<lparr>idle_sources := remove1 c (idle_sources pow), cookies := (cookies pow)(c \<mapsto> ck\<lparr>cookie_idle_source := False\<rparr>)\<rparr>) = Ok pow2"
      "unref c pow2 = Ok pow3" "pow' = pow3\<lparr>delivered := delivered pow3 @ [(c, nonce)]\<rparr>"
    using assms by (auto simp: idle_cb_def split: option.splits)
  have "keeps pow (pow\<lparr>idle_sources := remove1 c (idle_sources pow), cookies := (cookies pow)(c \<mapsto> ck\<lparr>cookie_idle_source := False\<rparr>)\<rparr>)"
    by (rule keeps_unlink_idle [OF ck])
  moreover have "keeps pow3 pow'" by (rule keeps_same) (simp_all add: steps)
  ultimately show ?thesis using steps keeps_unref keeps_trans by blast
qed

lemma keeps_calculate: "ntb_pow_calculate sha512 p e t pow = Ok (c, pow') \<Longrightarrow> keeps pow pow'"
  by (auto simp: ntb_pow_calculate_def Let_def keeps_def kept_def)

lemma pow_step_keeps: "pow_step sha512 (req, held, pow) l (req', held', pow') \<Longrightarrow> keeps pow pow'"
  by (erule pow_stepE) (auto simp: keeps_calculate keeps_cancel keeps_idle keeps_thread_step ntb_pow_quit_def intro: keeps_same)

text \<open>A thread is moved by its own steps only.\<close>

lemma threads_unref: "unref c pow = Ok pow' \<Longrightarrow> threads pow' = threads pow"
  by (auto simp: unref_def)

lemma threads_remove_queued: "remove_queued_cookie c pow = Ok pow' \<Longrightarrow> threads pow' = threads pow"
  by (auto simp: remove_queued_cookie_def dest: threads_unref split: if_splits)

lemma threads_main:
  "ntb_pow_cancel c pow = Ok pow' \<Longrightarrow> threads pow' = threads pow"
  "idle_cb c pow = Ok pow' \<Longrightarrow> threads pow' = threads pow"
  "ntb_pow_calculate sha512 p e t pow = Ok (c, pow') \<Longrightarrow> threads pow' = threads pow"
  by (auto simp: ntb_pow_cancel_def remove_idle_source_def set_done_def idle_cb_def ntb_pow_calculate_def Let_def
      dest!: threads_unref threads_remove_queued split: option.splits if_splits)

lemma threads_test: "find_nonce_test i c nonce pow = Ok pow' \<Longrightarrow> \<exists>t. threads pow' = (threads pow)[i := t]"
  by (auto simp: find_nonce_test_def set_thread_def dest!: threads_unref split: option.splits if_splits)

lemma threads_step:
  assumes "thread_step sha512 i pow = Some (Ok pow')"
  shows "\<exists>t. threads pow' = (threads pow)[i := t]"
proof (cases "threads pow ! i")
  case POW_WAITING
  then show ?thesis using assms
    by (auto simp: thread_step_def thread_take_def Let_def set_thread_def dest!: threads_test threads_remove_queued
        split: if_splits list.splits option.splits)
qed (use assms in \<open>auto simp: thread_step_def find_nonce_body_def set_solution_def set_thread_def threads_test
      split: if_splits option.splits prod.splits bool.splits\<close>)

lemma pow_step_threads:
  assumes "pow_step sha512 (req, held, pow) l (req', held', pow')" "l \<noteq> Some i"
  shows "threads pow' ! i = threads pow ! i"
  using assms by (elim pow_stepE) (auto simp: threads_main ntb_pow_quit_def dest!: threads_step)

lemma pow_step_length: "pow_step sha512 (req, held, pow) l (req', held', pow') \<Longrightarrow> length (threads pow') = length (threads pow)"
  by (erule pow_stepE) (auto simp: threads_main ntb_pow_quit_def dest: threads_step)

lemma search_failed:
  "search_nonces sha512 ck n k m = (False, v) \<Longrightarrow>
    v = m + word_of_nat (k * n) \<and> (\<forall>j < k. \<not> solves sha512 ck (m + word_of_nat (j * n)))"
proof (induction k arbitrary: m)
  case (Suc k)
  then have "\<not> solves sha512 ck m" "search_nonces sha512 ck n k (m + word_of_nat n) = (False, v)"
    by (auto simp: solves_def split: if_splits)
  then show ?case using Suc.IH [of "m + word_of_nat n"] by (auto simp: less_Suc_eq_0_disj algebra_simps)
qed simp

lemma solves_kept: "kept ck ck' \<Longrightarrow> solves sha512 ck' v = solves sha512 ck v"
  by (simp add: kept_def solves_def)

text \<open>The search for a cookie is over when it is done, freed, or the program quits.\<close>

definition over :: "nat \<Rightarrow> ntb_pow \<Rightarrow> bool" where
  "over c pow \<longleftrightarrow> pow_quit pow \<or> (\<forall>ck. cookies pow c = Some ck \<longrightarrow> cookie_done ck)"

lemma over_keeps: "over c pow \<Longrightarrow> keeps pow pow' \<Longrightarrow> c < n_cookies pow \<Longrightarrow> over c pow'"
  unfolding over_def keeps_def kept_def by blast

text \<open>Where a thread is after \<open>j\<close> of its steps, when it was about to search from \<open>m\<close> on.\<close>

definition search_at :: "(u8 list \<Rightarrow> u8 list) \<Rightarrow> ntb_pow_cookie \<Rightarrow> nat \<Rightarrow> nat \<Rightarrow> u64 \<Rightarrow> nat \<Rightarrow> pow_thread \<Rightarrow> bool" where
  "search_at sha512 ck n c m j t \<longleftrightarrow> (\<exists>q.
     (\<forall>k < q * NTB_POW_NONCES_PER_CHECK. \<not> solves sha512 ck (m + word_of_nat (k * n))) \<and>
     (j = 2 * q \<and> t = POW_SEARCHING c (m + word_of_nat (q * NTB_POW_NONCES_PER_CHECK * n)) \<or>
      j = 2 * q + 1 \<and> (\<exists>v. t = POW_FOUND c v) \<or>
      j + 1 = 2 * q \<and> t = POW_SEARCHED c (m + word_of_nat (q * NTB_POW_NONCES_PER_CHECK * n))))"

lemma search_at_bound:
  assumes "search_at sha512 ck n c m j t" "solves sha512 ck (m + word_of_nat (k * n))"
  shows "j \<le> 2 * (k div NTB_POW_NONCES_PER_CHECK) + 1"
proof -
  obtain q where q: "\<forall>k < q * NTB_POW_NONCES_PER_CHECK. \<not> solves sha512 ck (m + word_of_nat (k * n))" "j \<le> 2 * q + 1"
    using assms(1) unfolding search_at_def by auto
  have "q * NTB_POW_NONCES_PER_CHECK \<le> k" using q(1) assms(2) not_less by blast
  then have "q \<le> k div NTB_POW_NONCES_PER_CHECK"
    by (simp add: less_eq_div_iff_mult_less_eq NTB_POW_NONCES_PER_CHECK_def)
  then show ?thesis using q(2) by linarith
qed

lemma search_body:
  assumes ck: "kept ck0 ck" and search: "search_nonces sha512 ck n NTB_POW_NONCES_PER_CHECK (m + word_of_nat (q * NTB_POW_NONCES_PER_CHECK * n)) = (f, v)"
    and none: "\<forall>k < q * NTB_POW_NONCES_PER_CHECK. \<not> solves sha512 ck0 (m + word_of_nat (k * n))"
  shows "search_at sha512 ck0 n c m (2 * q + 1) (if f then POW_FOUND c v else POW_SEARCHED c v)"
proof (cases f)
  case True
  then show ?thesis using none by (auto simp: search_at_def)
next
  case False
  let ?b = NTB_POW_NONCES_PER_CHECK
  have r: "v = m + word_of_nat (q * ?b * n) + word_of_nat (?b * n)"
    "\<forall>j < ?b. \<not> solves sha512 ck0 (m + word_of_nat (q * ?b * n) + word_of_nat (j * n))"
    using search_failed [of sha512 ck n ?b "m + word_of_nat (q * ?b * n)" v] search False solves_kept [OF ck] by simp_all
  have "\<not> solves sha512 ck0 (m + word_of_nat (k * n))" if "k < Suc q * ?b" for k
  proof (cases "k < q * ?b")
    case False
    then have "k - q * ?b < ?b" "k = q * ?b + (k - q * ?b)" using that by auto
    then have "\<not> solves sha512 ck0 (m + word_of_nat (q * ?b * n) + word_of_nat ((k - q * ?b) * n))"
      "m + word_of_nat (q * ?b * n) + word_of_nat ((k - q * ?b) * n) = m + word_of_nat (k * n)"
      using r(2) by (blast, metis (no_types, lifting) add.assoc distrib_right of_nat_add)
    then show ?thesis by (simp only: not_False_eq_True)
  qed (use none in blast)
  moreover have "v = m + word_of_nat (Suc q * ?b * n)" by (simp add: r(1) algebra_simps)
  ultimately show ?thesis using False unfolding search_at_def by (intro exI [of _ "Suc q"]) simp
qed

lemma own_step:
  assumes step: "thread_step sha512 i pow = Some (Ok pow')" and i: "i < length (threads pow)"
    and at: "search_at sha512 ck0 (n_threads pow) c m j (threads pow ! i)"
    and ck: "cookies pow c = Some ck" "kept ck0 ck" "\<not> cookie_done ck" "\<not> pow_quit pow" and going: "\<not> over c pow'"
  shows "search_at sha512 ck0 (n_threads pow) c m (Suc j) (threads pow' ! i)"
proof -
  let ?b = NTB_POW_NONCES_PER_CHECK
  obtain q where none: "\<forall>k < q * ?b. \<not> solves sha512 ck0 (m + word_of_nat (k * n_threads pow))"
    and t: "j = 2 * q \<and> threads pow ! i = POW_SEARCHING c (m + word_of_nat (q * ?b * n_threads pow)) \<or>
      j = 2 * q + 1 \<and> (\<exists>v. threads pow ! i = POW_FOUND c v) \<or>
      j + 1 = 2 * q \<and> threads pow ! i = POW_SEARCHED c (m + word_of_nat (q * ?b * n_threads pow))"
    using at unfolding search_at_def by blast
  from t show ?thesis
  proof (elim disjE conjE exE)
    assume j: "j = 2 * q" and t: "threads pow ! i = POW_SEARCHING c (m + word_of_nat (q * ?b * n_threads pow))"
    obtain f v where r: "search_nonces sha512 ck (n_threads pow) ?b (m + word_of_nat (q * ?b * n_threads pow)) = (f, v)" by fastforce
    have "threads pow' ! i = (if f then POW_FOUND c v else POW_SEARCHED c v)"
      using step i by (auto simp: thread_step_def t find_nonce_body_def ck(1) r set_thread_def simp del: of_nat_mult split: bool.splits)
    then show ?thesis using search_body [OF ck(2) r none] j by simp
  next
    fix v assume t: "threads pow ! i = POW_FOUND c v"
    have "over c pow'" using step i by (auto simp: thread_step_def t set_solution_def ck over_def set_thread_def)
    then show ?thesis using going by simp
  next
    assume j: "j + 1 = 2 * q" and t: "threads pow ! i = POW_SEARCHED c (m + word_of_nat (q * ?b * n_threads pow))"
    have "threads pow' ! i = POW_SEARCHING c (m + word_of_nat (q * ?b * n_threads pow))"
      using step i by (auto simp: thread_step_def t find_nonce_test_def ck set_thread_def)
    then show ?thesis using none j unfolding search_at_def by (intro exI [of _ q]) simp
  qed
qed

lemma run_search:
  assumes "pow_run sha512 s ls s'" "s = (req, held, pow)" "s' = (req', held', pow')"
    and i: "i < length (threads pow)" "threads pow ! i = POW_SEARCHING c m" "cookies pow c = Some ck" "c < n_cookies pow"
  shows "keeps pow pow' \<and> length (threads pow') = length (threads pow) \<and>
    (over c pow' \<or> search_at sha512 ck (n_threads pow) c m (count_list ls (Some i)) (threads pow' ! i))"
  using assms(1-3)
proof (induction arbitrary: req' held' pow' rule: pow_run.induct)
  case (run_none s)
  then show ?case using i by (auto simp: keeps_refl search_at_def intro!: exI [of _ 0])
next
  case (run_more s ls s1 l s2)
  obtain req1 held1 pow1 where s1: "s1 = (req1, held1, pow1)" by (cases s1)
  have IH: "keeps pow pow1" "length (threads pow1) = length (threads pow)"
    "over c pow1 \<or> search_at sha512 ck (n_threads pow) c m (count_list ls (Some i)) (threads pow1 ! i)"
    using run_more.IH [OF run_more.prems(1) s1] by simp_all
  have step: "pow_step sha512 (req1, held1, pow1) l (req', held', pow')" using run_more.hyps(2) s1 run_more.prems(2) by simp
  have k: "keeps pow1 pow'" "length (threads pow') = length (threads pow1)"
    using pow_step_keeps [OF step] pow_step_length [OF step] by simp_all
  have c: "c < n_cookies pow1" "n_threads pow1 = n_threads pow" using IH(1) i(4) by (simp_all add: keeps_def)
  have "search_at sha512 ck (n_threads pow) c m (count_list (ls @ [l]) (Some i)) (threads pow' ! i)" if going: "\<not> over c pow'"
  proof -
    have o: "\<not> over c pow1" using going over_keeps k(1) c(1) by blast
    then have at: "search_at sha512 ck (n_threads pow1) c m (count_list ls (Some i)) (threads pow1 ! i)" using IH(3) c(2) by simp
    obtain ck1 where ck1: "cookies pow1 c = Some ck1" "\<not> cookie_done ck1" "\<not> pow_quit pow1" using o by (auto simp: over_def)
    have "kept ck ck1" using IH(1) ck1(1) i(3,4) by (auto simp: keeps_def)
    show ?thesis
    proof (cases "l = Some i")
      case True
      then have "thread_step sha512 i pow1 = Some (Ok pow')" using step by (auto elim: pow_stepE)
      then show ?thesis using own_step [OF _ _ at ck1(1) \<open>kept ck ck1\<close> ck1(2,3) going] True IH(2) i(1) c(2) by simp
    next
      case False
      then show ?thesis using at pow_step_threads [OF step, of i] c(2) by simp
    qed
  qed
  then have "over c pow' \<or> search_at sha512 ck (n_threads pow) c m (count_list (ls @ [l]) (Some i)) (threads pow' ! i)" by blast
  then show ?case using keeps_trans [OF IH(1) k(1)] k(2) IH(2) by simp
qed

section \<open>Running a list of actions\<close>

datatype pow_action = ACT_CALCULATE "u8 list" int int | ACT_CANCEL nat | ACT_IDLE nat | ACT_THREAD nat | ACT_QUIT

fun label_of :: "pow_action \<Rightarrow> nat option" where
  "label_of (ACT_THREAD i) = Some i"
| "label_of _ = None"

fun pow_exec :: "(u8 list \<Rightarrow> u8 list) \<Rightarrow> pow_action \<Rightarrow> pow_state \<Rightarrow> pow_state option" where
  "pow_exec sha512 (ACT_CALCULATE p e t) (req, held, pow) =
     (case ntb_pow_calculate sha512 p e t pow of Ok (c, pow') \<Rightarrow> Some (req(c \<mapsto> (p, e, t)), insert c held, pow') | _ \<Rightarrow> None)"
| "pow_exec sha512 (ACT_CANCEL c) (req, held, pow) =
     (if c \<in> held then (case ntb_pow_cancel c pow of Ok pow' \<Rightarrow> Some (req, held - {c}, pow') | _ \<Rightarrow> None) else None)"
| "pow_exec sha512 (ACT_IDLE c) (req, held, pow) =
     (if c \<in> set (idle_sources pow) then (case idle_cb c pow of Ok pow' \<Rightarrow> Some (req, held - {c}, pow') | _ \<Rightarrow> None) else None)"
| "pow_exec sha512 (ACT_THREAD i) (req, held, pow) =
     (case thread_step sha512 i pow of Some (Ok pow') \<Rightarrow> Some (req, held, pow') | _ \<Rightarrow> None)"
| "pow_exec sha512 ACT_QUIT (req, held, pow) = Some (req, held, ntb_pow_quit pow)"

fun pow_execs :: "(u8 list \<Rightarrow> u8 list) \<Rightarrow> pow_action list \<Rightarrow> pow_state \<Rightarrow> pow_state option" where
  "pow_execs sha512 [] s = Some s"
| "pow_execs sha512 (a # as) s = Option.bind (pow_exec sha512 a s) (pow_execs sha512 as)"

lemma pow_exec_step: "pow_exec sha512 a s = Some s' \<Longrightarrow> pow_step sha512 s (label_of a) s'"
  by (cases s; cases a) (auto intro: pow_step.intros split: if_splits option.splits outcome.splits)

lemma pow_run_append: "pow_run sha512 s' bs s'' \<Longrightarrow> pow_run sha512 s as s' \<Longrightarrow> pow_run sha512 s (as @ bs) s''"
  by (induction rule: pow_run.induct) (auto simp flip: append_assoc intro: run_more)

lemma pow_execs_run: "pow_execs sha512 as s = Some s' \<Longrightarrow> pow_run sha512 s (map label_of as) s'"
proof (induction as arbitrary: s)
  case Nil
  then show ?case by (simp add: run_none)
next
  case (Cons a as)
  then obtain q where q: "pow_exec sha512 a s = Some q" "pow_execs sha512 as q = Some s'" by (auto simp: bind_eq_Some_conv)
  have "pow_run sha512 s ([] @ [label_of a]) q" by (rule run_more [OF run_none pow_exec_step [OF q(1)]])
  then show ?case using pow_run_append [OF Cons.IH [OF q(2)], of s "[label_of a]"] by simp
qed

section \<open>Properties\<close>


text \<open>
  C8: the references to cookies are counted correctly: in every state that the threads and the main thread can
  reach, the count of a cookie is the number of its holders (the queue, the threads that search for it, the
  idle source and the caller), a cookie is freed exactly when it has none, and no step of any thread touches a
  cookie that was freed or unlinks one that is not linked.
\<close>

theorem pow_reference_counts:
  assumes "0 < n" "pow_run sha512 (pow_start n) ls (req, held, pow)"
  shows "(\<forall>c. (cookies pow c = None \<longleftrightarrow> refs held pow c = 0) \<and>
      (\<forall>ck. cookies pow c = Some ck \<longrightarrow> ref_count ck = int (refs held pow c))) \<and>
    (\<forall>i r. thread_step sha512 i pow = Some r \<longrightarrow> (\<exists>pow'. r = Ok pow')) \<and>
    (\<forall>c \<in> held. \<exists>pow'. ntb_pow_cancel c pow = Ok pow') \<and>
    (\<forall>c \<in> set (idle_sources pow). \<exists>pow'. idle_cb c pow = Ok pow')"
proof -
  have inv: "pow_inv sha512 req held pow" by (rule pow_reachable_inv [OF assms(2,1)])
  have "cookies pow c = None \<longleftrightarrow> refs held pow c = 0" for c
    using heap_okD [OF pow_invD(1) [OF inv], of c] by (cases "cookies pow c") (auto simp: cookie_ok_def)
  moreover have "ref_count ck = int (refs held pow c)" if "cookies pow c = Some ck" for c ck
    using heap_okD(1) [OF pow_invD(1) [OF inv] that] by (simp add: cookie_ok_def)
  ultimately show ?thesis using cookie_step_inv [OF inv] cookie_cancel_inv [OF inv] cookie_idle_inv [OF inv] by blast
qed

text \<open>
  When the threads have ended and the callers hold no cookie any more, \<open>ntb_pow_free\<close> frees every cookie that
  is left, without touching one that was freed before: nothing leaks.
\<close>

theorem pow_free_releases_all:
  assumes "0 < n" "pow_run sha512 (pow_start n) ls (req, {}, pow)" "set (threads pow) \<subseteq> {POW_ENDED}"
  shows "\<exists>pow'. ntb_pow_free pow = Ok pow' \<and> (\<forall>c. cookies pow' c = None)"
  unfolding ntb_pow_free_def by (rule free_loop [OF pow_reachable_inv [OF assms(2,1)] assms(3)])

text \<open>
  C26: a thread that searches for a nonce finds one in time, whatever the other threads and the main thread do:
  if the \<open>k\<close>-th nonce that it will try is a solution, then two steps of the thread for each batch of 4096 nonces
  up to that one, and two more, are enough for the request to be done, unless the program quits.
\<close>

theorem pow_search_ends:
  assumes "0 < n" "pow_run sha512 (pow_start n) ls (req, held, pow)"
    and "i < length (threads pow)" "threads pow ! i = POW_SEARCHING c m" "cookies pow c = Some ck"
    and "solves sha512 ck (m + word_of_nat (k * n_threads pow))"
    and "pow_run sha512 (req, held, pow) ls' (req', held', pow')"
    and "2 * (k div NTB_POW_NONCES_PER_CHECK) + 2 \<le> count_list ls' (Some i)"
  shows "pow_quit pow' \<or> (\<forall>ck'. cookies pow' c = Some ck' \<longrightarrow> cookie_done ck')"
proof -
  have "c < n_cookies pow"
  proof (rule ccontr)
    assume "\<not> c < n_cookies pow"
    then have "cookies pow c = None" using pow_reachable_inv [OF assms(2,1)] by (simp add: pow_inv_def fresh_ok_def)
    then show False using assms(5) by simp
  qed
  then have "over c pow' \<or> search_at sha512 ck (n_threads pow) c m (count_list ls' (Some i)) (threads pow' ! i)"
    using run_search [OF assms(7) refl refl assms(3-5)] by simp
  then have "over c pow'"
  proof
    assume "search_at sha512 ck (n_threads pow) c m (count_list ls' (Some i)) (threads pow' ! i)"
    from search_at_bound [OF this assms(6)] show ?thesis using assms(8) by linarith
  qed
  then show ?thesis unfolding over_def .
qed

section \<open>Witnesses\<close>

definition toy_sha512 :: "u8 list \<Rightarrow> u8 list" where
  "toy_sha512 m = (if length m = 64 then m else replicate 64 (if take 8 m = be_bytes 8 2 then 0 else 0x80))"

text \<open>Two threads; the first nonce of the first thread is not a solution, the second is.\<close>

definition toy_start :: "pow_action list" where
  "toy_start = [ACT_CALCULATE [1, 2, 3] 1000 320, ACT_THREAD 0, ACT_THREAD 1]"

definition toy_end :: "pow_action list" where
  "toy_end = [ACT_THREAD 0, ACT_THREAD 0, ACT_IDLE 0, ACT_THREAD 0, ACT_QUIT]"

lemma toy_target: "calculate_target 11 1000 320 = Ok 57018867685798"
  by (simp add: calculate_target_def two_63_def)

lemma toy_values:
  assumes "length h = 64"
  shows "pow_value toy_sha512 (be_bytes 8 0 @ h) = 0x8080808080808080" "pow_value toy_sha512 (be_bytes 8 2 @ h) = 0"
proof -
  have "replicate 8 x = [x, x, x, x, x, x, x, x]" for x :: u8 by (simp add: numeral_eq_Suc)
  then show "pow_value toy_sha512 (be_bytes 8 0 @ h) = 0x8080808080808080" "pow_value toy_sha512 (be_bytes 8 2 @ h) = 0"
    using assms by (simp_all add: pow_value_def toy_sha512_def ntb_defs be_value_def)
qed

lemma toy_found:
  "search_nonces toy_sha512 \<lparr>ref_count = r, next_nonce_offset = o1, cookie_hash = toy_sha512 [1, 2, 3],
     cookie_target = 57018867685798, cookie_nonce = v, cookie_done = d, cookie_idle_source = i\<rparr> (Suc (Suc 0)) NTB_POW_NONCES_PER_CHECK 0 = (True, 2)"
proof -
  have n: "NTB_POW_NONCES_PER_CHECK = Suc (Suc 4094)" by (simp add: NTB_POW_NONCES_PER_CHECK_def)
  show ?thesis unfolding n search_nonces.simps by (simp add: toy_values toy_sha512_def [of "[1, 2, 3]"])
qed

lemma toy_run:
  "\<exists>req held pow. pow_run toy_sha512 (pow_start 2) (map label_of (toy_start @ toy_end)) (req, held, pow) \<and>
     delivered pow = [(0, 2)] \<and> req 0 = Some ([1, 2, 3], 1000, 320)"
proof -
  have "(case pow_execs toy_sha512 (toy_start @ toy_end) (pow_start 2) of None \<Rightarrow> False
     | Some (req, held, pow) \<Rightarrow> delivered pow = [(0, 2)] \<and> req 0 = Some ([1, 2, 3], 1000, 320))"
    by (simp add: toy_start_def toy_end_def pow_start_def ntb_pow_new_def ntb_pow_calculate_def toy_target insert_after_first_def
        thread_step_def thread_take_def Let_def remove_queued_cookie_def unref_def unref_cookie_def find_nonce_test_def find_nonce_body_def
        set_thread_def toy_found set_solution_def idle_cb_def ntb_pow_quit_def numeral_2_eq_2 cong: if_cong)
  then obtain req held pow where "pow_execs toy_sha512 (toy_start @ toy_end) (pow_start 2) = Some (req, held, pow)"
    "delivered pow = [(0, 2)]" "req 0 = Some ([1, 2, 3], 1000, 320)" by (auto split: option.splits prod.splits)
  then show ?thesis using pow_execs_run by blast
qed

lemma toy_started:
  "\<exists>req held pow. pow_execs toy_sha512 toy_start (pow_start 2) = Some (req, held, pow) \<and>
     threads pow = [POW_SEARCHING 0 0, POW_SEARCHING 0 1] \<and> n_threads pow = 2 \<and>
     (\<exists>ck. cookies pow 0 = Some ck \<and> solves toy_sha512 ck 2)"
proof -
  have "length (toy_sha512 [1, 2, 3]) = 64" by (simp add: toy_sha512_def)
  then have solved: "solves toy_sha512 \<lparr>ref_count = r, next_nonce_offset = o1, cookie_hash = toy_sha512 [1, 2, 3],
     cookie_target = 57018867685798, cookie_nonce = v, cookie_done = d, cookie_idle_source = i\<rparr> 2" for r o1 v d i
    by (simp add: solves_def toy_values)
  have two: "ntb_pow_new 2 = ntb_pow_new (Suc (Suc 0))" "2 = Suc (Suc 0)" by (simp_all add: numeral_2_eq_2)
  show ?thesis unfolding pow_start_def two
    by (simp add: toy_start_def ntb_pow_new_def ntb_pow_calculate_def toy_target insert_after_first_def
        thread_step_def thread_take_def Let_def remove_queued_cookie_def unref_def unref_cookie_def find_nonce_test_def
        set_thread_def solved)
qed


theorem pow_reference_counts_witness:
  "\<exists>req held pow. pow_execs toy_sha512 toy_start (pow_start 2) = Some (req, held, pow) \<and>
     (\<exists>ck. cookies pow 0 = Some ck \<and> ref_count ck = int (refs held pow 0)) \<and> (\<exists>pow'. thread_step toy_sha512 1 pow = Some (Ok pow'))"
proof -
  obtain req held pow ck where s: "pow_execs toy_sha512 toy_start (pow_start 2) = Some (req, held, pow)"
    "threads pow = [POW_SEARCHING 0 0, POW_SEARCHING 0 1]" "cookies pow 0 = Some ck" using toy_started by blast
  have "\<exists>r. thread_step toy_sha512 1 pow = Some r" by (simp add: thread_step_def s)
  then show ?thesis using pow_reference_counts [OF _ pow_execs_run [OF s(1)]] s by fastforce
qed

theorem pow_free_releases_all_witness:
  "\<exists>req held pow pow'. pow_execs toy_sha512 [ACT_CALCULATE [1, 2, 3] 1000 320, ACT_CANCEL 0, ACT_QUIT, ACT_THREAD 0] (pow_start 1) =
     Some (req, held, pow) \<and> ntb_pow_free pow = Ok pow' \<and> cookies pow' 0 = None"
proof -
  have "\<exists>req pow. pow_execs toy_sha512 [ACT_CALCULATE [1, 2, 3] 1000 320, ACT_CANCEL 0, ACT_QUIT, ACT_THREAD 0] (pow_start 1) = Some (req, {}, pow) \<and>
     set (threads pow) \<subseteq> {POW_ENDED}"
    by (simp add: pow_start_def ntb_pow_new_def ntb_pow_calculate_def toy_target insert_after_first_def ntb_pow_cancel_def remove_idle_source_def
        set_done_def thread_step_def thread_take_def Let_def remove_queued_cookie_def unref_def unref_cookie_def set_thread_def ntb_pow_quit_def)
  then obtain req pow where s: "pow_execs toy_sha512 [ACT_CALCULATE [1, 2, 3] 1000 320, ACT_CANCEL 0, ACT_QUIT, ACT_THREAD 0] (pow_start 1) = Some (req, {}, pow)"
     "set (threads pow) \<subseteq> {POW_ENDED}" by blast
  then show ?thesis using pow_free_releases_all [OF _ pow_execs_run [OF s(1)] s(2)] by auto
qed

theorem pow_search_ends_witness:
  "\<exists>req held pow req' held' pow'. pow_execs toy_sha512 toy_start (pow_start 2) = Some (req, held, pow) \<and>
     pow_execs toy_sha512 [ACT_THREAD 0, ACT_THREAD 0] (req, held, pow) = Some (req', held', pow') \<and>
     (pow_quit pow' \<or> (\<forall>ck. cookies pow' 0 = Some ck \<longrightarrow> cookie_done ck))"
proof -
  obtain req held pow ck where s: "pow_execs toy_sha512 toy_start (pow_start 2) = Some (req, held, pow)"
    "threads pow = [POW_SEARCHING 0 0, POW_SEARCHING 0 1]" "n_threads pow = 2" "cookies pow 0 = Some ck" "solves toy_sha512 ck 2"
    using toy_started by blast
  have r: "pow_run toy_sha512 (pow_start 2) (map label_of toy_start) (req, held, pow)" by (rule pow_execs_run [OF s(1)])
  have "\<exists>r. thread_step toy_sha512 0 pow = Some r" by (simp add: thread_step_def s)
  then obtain pow1 where 1: "thread_step toy_sha512 0 pow = Some (Ok pow1)" "pow_inv toy_sha512 req held pow1"
    using cookie_step_inv [OF pow_reachable_inv [OF r]] by auto
  have "length (threads pow1) = 2" using threads_step [OF 1(1)] s(2) by auto
  moreover have "threads pow1 ! 0 \<noteq> POW_WAITING \<and> threads pow1 ! 0 \<noteq> POW_ENDED"
    using 1(1) s by (auto simp: thread_step_def find_nonce_body_def set_thread_def split: prod.splits bool.splits)
  ultimately have "\<exists>r. thread_step toy_sha512 0 pow1 = Some r" by (cases "threads pow1 ! 0") (auto simp: thread_step_def)
  then obtain pow2 where 2: "thread_step toy_sha512 0 pow1 = Some (Ok pow2)" using cookie_step_inv [OF 1(2)] by blast
  have e: "pow_execs toy_sha512 [ACT_THREAD 0, ACT_THREAD 0] (req, held, pow) = Some (req, held, pow2)" by (simp add: 1 2)
  then show ?thesis
    using pow_search_ends [OF _ r, of 0 0 0 ck 1 _ req held pow2] pow_execs_run [OF e] s by (fastforce simp: NTB_POW_NONCES_PER_CHECK_def)
qed

end
