(* ===== verification/Ntb_Network.thy ===== *)
theory Ntb_Network
  imports Ntb_Connection Ntb_Store Ntb_Pow
begin

text \<open>
  The network component (\<open>ntb-network.c\<close>): the peers, their handshake, the addresses of other peers, and the
  inventory of objects. Peers, addresses and inventories have pointers, which are numbers; the heap of
  inventories has \<open>None\<close> for memory that was freed. The calls that a handler makes to the connection of a peer, to
  the store and to the listeners of the new object signal are recorded in the order of the code. The clocks and
  \<open>rand\<close> are arguments, and so is what the socket calls return. Log messages are left out.
\<close>

section \<open>State\<close>

datatype ntb_network_peer_state =
    NTB_NETWORK_PEER_STATE_AWAITING_VERACK_OUT
  | NTB_NETWORK_PEER_STATE_AWAITING_VERSION_OUT
  | NTB_NETWORK_PEER_STATE_AWAITING_VERSION_IN
  | NTB_NETWORK_PEER_STATE_AWAITING_VERACK_IN
  | NTB_NETWORK_PEER_STATE_CONNECTED

datatype ntb_network_direction = NTB_NETWORK_OUTGOING | NTB_NETWORK_INCOMING

datatype ntb_network_addr_type =
    NTB_NETWORK_ADDR_DEFAULT | NTB_NETWORK_ADDR_EXPLICITLY_ADDED | NTB_NETWORK_ADDR_DISCOVERED

record ntb_network_addr =
  na_ptr :: nat
  na_address :: ntb_netaddress
  advertise_time :: int
  na_stream :: u32
  na_services :: u64
  last_connect_time :: u64
  na_connected :: bool
  na_type :: ntb_network_addr_type

type_synonym object_blob = "ntb_proto_inv_type \<times> u8 list"

text \<open>The calls on the connection of a peer.\<close>

datatype peer_call =
    SEND_VERSION u64 u16
  | SEND_VERACK
  | BEGIN_ADDR
  | ADD_ADDR_ADDRESS int u32 u64 ntb_netaddress
  | END_ADDR
  | BEGIN_INV
  | ADD_INV_HASH "u8 list"
  | END_INV
  | BEGIN_GETDATA
  | ADD_GETDATA_HASH "u8 list"
  | END_GETDATA
  | SEND_BLOB "u8 list" "object_blob option"

record ntb_network_peer =
  peer_ptr :: nat
  peer_remote_address :: ntb_netaddress
  peer_addr :: "nat option"
  requested_inventories :: "nat list"
  peer_state :: ntb_network_peer_state
  peer_direction :: ntb_network_direction
  peer_calls :: "peer_call list"

record ntb_network_listen_socket =
  ls_sock :: int
  ls_address :: ntb_netaddress
  ls_source :: bool

text \<open>The fields of an inventory that depend on its state are a union; the blob of a stub is indeterminate.\<close>

datatype ntb_network_inv_state =
    NTB_NETWORK_INV_STATE_STUB u64
  | NTB_NETWORK_INV_STATE_REJECTED int
  | NTB_NETWORK_INV_STATE_ACCEPTED ntb_proto_inv_type int "object_blob option"

record ntb_network_inventory =
  inv_hash :: "u8 list"
  inv_state :: ntb_network_inv_state

record ntb_network_delayed_broadcast =
  db_ptr :: nat
  db_hash :: "u8 list"
  db_delay :: nat

datatype store_call =
    SAVE_BLOB "u8 list" object_blob
  | DELETE_OBJECT "u8 list"
  | SAVE_ADDR_LIST "ntb_store_addr list"

text \<open>The source of the connect queue is \<open>NULL\<close>, a timer, or an idle source (\<open>Some True\<close>).\<close>

record ntb_network =
  n_outgoing_peers :: int
  n_incoming_peers :: int
  n_unconnected_addrs :: int
  listen_sockets :: "ntb_network_listen_socket list"
  peers :: "ntb_network_peer list"
  addrs :: "ntb_network_addr list"
  only_use_explicit_addresses :: bool
  connect_queue_source :: "bool option"
  nw_nonce :: u64
  inventory_hash :: "u8 list \<Rightarrow> nat option"
  inventories :: "nat \<Rightarrow> ntb_network_inventory option"
  next_ptr :: nat
  accepted_inventories :: "nat list"
  rejected_inventories :: "nat list"
  n_rejected_inventories :: int
  save_addr_list_source :: bool
  delayed_broadcasts :: "ntb_network_delayed_broadcast list"
  store_calls :: "store_call list"
  new_objects :: "object_blob list"
  closed_sockets :: "int list"

text \<open>What a handler gets from the system: the clocks and a random number up to \<open>RAND_MAX\<close>.\<close>

record nw_env =
  wall_clock :: int
  monotonic_clock :: u64
  rand_value :: nat
  sha512_fn :: "u8 list \<Rightarrow> u8 list"

definition RAND_MAX :: nat where "RAND_MAX = 2 ^ 31 - 1"
definition NTB_NETWORK_NUM_OUTGOING_PEERS :: int where "NTB_NETWORK_NUM_OUTGOING_PEERS = 8"
definition NTB_NETWORK_INV_CACHE_AGE :: int where "NTB_NETWORK_INV_CACHE_AGE = 10 * 60"
definition NTB_NETWORK_INV_FUTURE_AGE :: int where "NTB_NETWORK_INV_FUTURE_AGE = 30 * 60"
definition NTB_NETWORK_MAX_STUB_INVENTORY_AGE :: nat where "NTB_NETWORK_MAX_STUB_INVENTORY_AGE = 5 * 60"
definition NTB_NETWORK_MAX_ADDR_AGE :: int where "NTB_NETWORK_MAX_ADDR_AGE = 2 * 60 * 60"
definition NTB_NETWORK_MIN_RECONNECT_TIME :: nat where "NTB_NETWORK_MIN_RECONNECT_TIME = 60"
definition NTB_NETWORK_MAX_INCOMING_PEERS :: int where "NTB_NETWORK_MAX_INCOMING_PEERS = 8"
definition NTB_NETWORK_MAX_REJECTED_INVENTORIES :: int where "NTB_NETWORK_MAX_REJECTED_INVENTORIES = 16384"
definition NTB_PROTO_DEFAULT_PORT :: u16 where "NTB_PROTO_DEFAULT_PORT = 8444"

text \<open>A difference of times in 64 bits, which can wrap around when a peer sends an extreme time.\<close>

definition age_of :: "int \<Rightarrow> int \<Rightarrow> int" where
  "age_of now ts = sint (word_of_int (now - ts) :: u64)"

section \<open>Parts of the state\<close>

definition change_peer :: "nat \<Rightarrow> (ntb_network_peer \<Rightarrow> ntb_network_peer) \<Rightarrow> ntb_network \<Rightarrow> ntb_network" where
  "change_peer p f nw = nw\<lparr>peers := map (\<lambda>peer. if peer_ptr peer = p then f peer else peer) (peers nw)\<rparr>"

definition call_peer :: "nat \<Rightarrow> peer_call list \<Rightarrow> ntb_network \<Rightarrow> ntb_network" where
  "call_peer p calls nw = change_peer p (\<lambda>peer. peer\<lparr>peer_calls := peer_calls peer @ calls\<rparr>) nw"

definition change_addr :: "nat \<Rightarrow> (ntb_network_addr \<Rightarrow> ntb_network_addr) \<Rightarrow> ntb_network \<Rightarrow> ntb_network" where
  "change_addr a f nw = nw\<lparr>addrs := map (\<lambda>addr. if na_ptr addr = a then f addr else addr) (addrs nw)\<rparr>"

definition get_peer :: "nat \<Rightarrow> ntb_network \<Rightarrow> ntb_network_peer option" where
  "get_peer p nw = find (\<lambda>peer. peer_ptr peer = p) (peers nw)"

definition get_addr :: "nat \<Rightarrow> ntb_network \<Rightarrow> ntb_network_addr option" where
  "get_addr a nw = find (\<lambda>addr. na_ptr addr = a) (addrs nw)"

text \<open>The hash table, which refines a map (\<open>Ntb_Hash_Table\<close>); an entry whose object was freed is a fault.\<close>

definition hash_get :: "u8 list \<Rightarrow> ntb_network \<Rightarrow> (nat \<times> ntb_network_inventory) option outcome" where
  "hash_get hash nw =
     (case inventory_hash nw hash of
        None \<Rightarrow> Ok None
      | Some i \<Rightarrow> (case inventories nw i of None \<Rightarrow> Fault | Some iv \<Rightarrow> Ok (Some (i, iv))))"

definition hash_remove :: "nat \<Rightarrow> ntb_network_inventory \<Rightarrow> ntb_network \<Rightarrow> ntb_network" where
  "hash_remove i iv nw =
     (if inventory_hash nw (inv_hash iv) = Some i then nw\<lparr>inventory_hash := (inventory_hash nw)(inv_hash iv := None)\<rparr> else nw)"

definition free_inventory :: "nat \<Rightarrow> ntb_network \<Rightarrow> ntb_network" where
  "free_inventory i nw = nw\<lparr>inventories := (inventories nw)(i := None)\<rparr>"

definition put_inventory :: "nat \<Rightarrow> ntb_network_inventory \<Rightarrow> ntb_network \<Rightarrow> ntb_network" where
  "put_inventory i iv nw = nw\<lparr>inventories := (inventories nw)(i \<mapsto> iv)\<rparr>"

text \<open>Taking inventories out of the table and freeing them.\<close>

primrec drop_inventories :: "nat list \<Rightarrow> ntb_network \<Rightarrow> ntb_network outcome" where
  "drop_inventories [] nw = Ok nw"
| "drop_inventories (i # is) nw =
     (case inventories nw i of
        None \<Rightarrow> Fault
      | Some iv \<Rightarrow> drop_inventories is (free_inventory i (hash_remove i iv nw)))"

section \<open>Connecting\<close>

definition can_connect_to_addr :: "nw_env \<Rightarrow> ntb_network \<Rightarrow> ntb_network_addr \<Rightarrow> bool" where
  "can_connect_to_addr env nw addr =
     (if na_connected addr then False
      else if unat (monotonic_clock env - last_connect_time addr) < NTB_NETWORK_MIN_RECONNECT_TIME * 1000000 then False
      else if only_use_explicit_addresses nw \<and> na_type addr \<noteq> NTB_NETWORK_ADDR_EXPLICITLY_ADDED then False
      else True)"

definition maybe_queue_connect :: "bool \<Rightarrow> ntb_network \<Rightarrow> ntb_network" where
  "maybe_queue_connect use_idle nw =
     (if n_outgoing_peers nw \<ge> NTB_NETWORK_NUM_OUTGOING_PEERS then nw
      else if n_unconnected_addrs nw \<le> 0 then nw
      else if connect_queue_source nw = Some use_idle then nw
      else nw\<lparr>connect_queue_source := Some use_idle\<rparr>)"

definition remove_connect_queue_source :: "ntb_network \<Rightarrow> ntb_network" where
  "remove_connect_queue_source nw = nw\<lparr>connect_queue_source := None\<rparr>"

definition update_listen_socket_source :: "ntb_network \<Rightarrow> ntb_network_listen_socket \<Rightarrow> ntb_network_listen_socket" where
  "update_listen_socket_source nw ls =
     (if n_incoming_peers nw \<ge> NTB_NETWORK_MAX_INCOMING_PEERS then ls\<lparr>ls_source := False\<rparr> else ls\<lparr>ls_source := True\<rparr>)"

definition update_all_listen_socket_sources :: "ntb_network \<Rightarrow> ntb_network" where
  "update_all_listen_socket_sources nw = nw\<lparr>listen_sockets := map (update_listen_socket_source nw) (listen_sockets nw)\<rparr>"

definition remove_peer :: "nat \<Rightarrow> ntb_network \<Rightarrow> ntb_network outcome" where
  "remove_peer p nw =
     (case get_peer p nw of
        None \<Rightarrow> Fault
      | Some peer \<Rightarrow>
          bind_outcome (drop_inventories (requested_inventories peer) nw) (\<lambda>nw.
          let nw = (case peer_addr peer of
                      None \<Rightarrow> nw
                    | Some a \<Rightarrow> change_addr a (\<lambda>addr. addr\<lparr>na_connected := False\<rparr>)
                                  (nw\<lparr>n_unconnected_addrs := n_unconnected_addrs nw + 1\<rparr>));
              nw = (case peer_direction peer of
                      NTB_NETWORK_OUTGOING \<Rightarrow> nw\<lparr>n_outgoing_peers := n_outgoing_peers nw - 1\<rparr>
                    | NTB_NETWORK_INCOMING \<Rightarrow> nw\<lparr>n_incoming_peers := n_incoming_peers nw - 1\<rparr>);
              nw = nw\<lparr>peers := filter (\<lambda>peer. peer_ptr peer \<noteq> p) (peers nw)\<rparr> in
          Ok (update_all_listen_socket_sources (maybe_queue_connect True nw))))"

definition remove_addr :: "ntb_network_addr \<Rightarrow> ntb_network \<Rightarrow> ntb_network outcome" where
  "remove_addr addr nw =
     (if na_connected addr then Fault
      else Ok (nw\<lparr>addrs := filter (\<lambda>a. na_ptr a \<noteq> na_ptr addr) (addrs nw), n_unconnected_addrs := n_unconnected_addrs nw - 1\<rparr>))"

definition send_version_to_peer :: "nat \<Rightarrow> ntb_network \<Rightarrow> ntb_network" where
  "send_version_to_peer p nw =
     (let local_port = (case listen_sockets nw of [] \<Rightarrow> NTB_PROTO_DEFAULT_PORT | ls # _ \<Rightarrow> port (ls_address ls)) in
      call_peer p [SEND_VERSION (nw_nonce nw) local_port] nw)"

text \<open>The direction of the new peer is set by the caller, after the listening sockets were updated.\<close>

definition add_peer :: "ntb_netaddress \<Rightarrow> ntb_network \<Rightarrow> ntb_network \<times> nat" where
  "add_peer remote nw =
     (let p = next_ptr nw;
          peer = \<lparr>peer_ptr = p, peer_remote_address = remote, peer_addr = None, requested_inventories = [],
                  peer_state = NTB_NETWORK_PEER_STATE_AWAITING_VERACK_OUT, peer_direction = NTB_NETWORK_OUTGOING, peer_calls = []\<rparr> in
      (update_all_listen_socket_sources (nw\<lparr>next_ptr := p + 1, peers := peer # peers nw\<rparr>), p))"

definition connect_to_addr :: "nw_env \<Rightarrow> bool \<Rightarrow> ntb_network_addr \<Rightarrow> ntb_network \<Rightarrow> ntb_network \<times> bool" where
  "connect_to_addr env connect_ok addr nw =
     (let nw = change_addr (na_ptr addr) (\<lambda>a. a\<lparr>last_connect_time := monotonic_clock env\<rparr>) nw in
      if \<not> connect_ok then (nw, False)
      else
        (case add_peer (na_address addr) nw of (nw, p) \<Rightarrow>
           let nw = change_peer p (\<lambda>peer. peer\<lparr>peer_addr := Some (na_ptr addr), peer_direction := NTB_NETWORK_OUTGOING\<rparr>) nw;
               nw = nw\<lparr>n_outgoing_peers := n_outgoing_peers nw + 1\<rparr> in
           (send_version_to_peer p nw, True)))"

text \<open>
  The loop that picks an address runs off the end of the list, to the list's own head, when no address is
  left to count down to zero.
\<close>

fun pick_addr :: "(ntb_network_addr \<Rightarrow> bool) \<Rightarrow> int \<Rightarrow> ntb_network_addr list \<Rightarrow> ntb_network_addr outcome" where
  "pick_addr can addr_num [] = Fault"
| "pick_addr can addr_num (addr # rest) =
     (if can addr then (if addr_num \<le> 0 then Ok addr else pick_addr can (addr_num - 1) rest)
      else pick_addr can addr_num rest)"

definition connect_queue_cb :: "nw_env \<Rightarrow> bool \<Rightarrow> ntb_network \<Rightarrow> ntb_network outcome" where
  "connect_queue_cb env connect_ok nw =
     (if n_outgoing_peers nw \<ge> NTB_NETWORK_NUM_OUTGOING_PEERS \<or> n_unconnected_addrs nw \<le> 0
      then Ok (remove_connect_queue_source nw)
      else
        let n_addrs = length (filter (can_connect_to_addr env nw) (addrs nw)) in
        if n_addrs = 0 then Ok (maybe_queue_connect False nw)
        else
          let addr_num = int (rand_value env * n_addrs div RAND_MAX) in
          bind_outcome (pick_addr (can_connect_to_addr env nw) addr_num (addrs nw)) (\<lambda>addr.
          (case connect_to_addr env connect_ok addr nw of
             (nw, True) \<Rightarrow> Ok (change_addr (na_ptr addr) (\<lambda>a. a\<lparr>na_connected := True\<rparr>)
                             (nw\<lparr>n_unconnected_addrs := n_unconnected_addrs nw - 1\<rparr>))
           | (nw, False) \<Rightarrow> Ok nw)))"

section \<open>Addresses\<close>

definition broadcast_calls :: "peer_call list \<Rightarrow> ntb_network \<Rightarrow> ntb_network" where
  "broadcast_calls calls nw = nw\<lparr>peers := map (\<lambda>peer.
     if peer_state peer = NTB_NETWORK_PEER_STATE_CONNECTED then peer\<lparr>peer_calls := peer_calls peer @ calls\<rparr> else peer) (peers nw)\<rparr>"

definition broadcast_addr :: "ntb_network_addr \<Rightarrow> ntb_network \<Rightarrow> ntb_network" where
  "broadcast_addr addr nw = broadcast_calls
     [BEGIN_ADDR, ADD_ADDR_ADDRESS (advertise_time addr) (na_stream addr) (na_services addr) (na_address addr), END_ADDR] nw"

definition queue_save_addr_list :: "ntb_network \<Rightarrow> ntb_network" where
  "queue_save_addr_list nw = nw\<lparr>save_addr_list_source := True\<rparr>"

definition find_address :: "ntb_netaddress \<Rightarrow> ntb_network \<Rightarrow> ntb_network_addr option" where
  "find_address address nw = find (\<lambda>addr. host (na_address addr) = host address \<and> port (na_address addr) = port address) (addrs nw)"

text \<open>A new address is linked in and counted before its other fields are set; \<open>set\<close> is what the caller does to them.\<close>

definition new_addr :: "(ntb_network_addr \<Rightarrow> ntb_network_addr) \<Rightarrow> ntb_network \<Rightarrow> ntb_network \<times> ntb_network_addr" where
  "new_addr set_fields nw =
     (let addr = set_fields \<lparr>na_ptr = next_ptr nw, na_address = \<lparr>host = [], port = 0\<rparr>, advertise_time = 0, na_stream = 0, na_services = 0,
                  last_connect_time = 0, na_connected = False, na_type = NTB_NETWORK_ADDR_DISCOVERED\<rparr> in
      (nw\<lparr>next_ptr := next_ptr nw + 1, addrs := addr # addrs nw, n_unconnected_addrs := n_unconnected_addrs nw + 1\<rparr>, addr))"

definition add_addr :: "nw_env \<Rightarrow> int \<Rightarrow> u32 \<Rightarrow> u64 \<Rightarrow> ntb_netaddress \<Rightarrow> ntb_network \<Rightarrow> ntb_network \<times> nat option" where
  "add_addr env ts strm services address nw =
     (let now = wall_clock env in
      if age_of now ts \<ge> NTB_NETWORK_MAX_ADDR_AGE then (nw, None)
      else
        let ts = (if ts > now then now else ts) in
        (case find_address address nw of
           Some addr \<Rightarrow>
             if advertise_time addr < ts
             then (broadcast_addr (addr\<lparr>advertise_time := ts\<rparr>) (queue_save_addr_list
                     (change_addr (na_ptr addr) (\<lambda>a. a\<lparr>advertise_time := ts\<rparr>) nw)), Some (na_ptr addr))
             else (nw, Some (na_ptr addr))
         | None \<Rightarrow>
             (case new_addr (\<lambda>a. a\<lparr>advertise_time := ts, na_stream := strm, na_services := services, na_address := address\<rparr>) nw of
                (nw, addr) \<Rightarrow> (maybe_queue_connect True (broadcast_addr addr (queue_save_addr_list nw)), Some (na_ptr addr)))))"

definition young_addrs :: "nw_env \<Rightarrow> ntb_network \<Rightarrow> ntb_network_addr list" where
  "young_addrs env nw = filter (\<lambda>addr. \<not> age_of (wall_clock env) (advertise_time addr) > NTB_NETWORK_MAX_ADDR_AGE) (addrs nw)"

definition save_addr_list_cb :: "nw_env \<Rightarrow> ntb_network \<Rightarrow> ntb_network" where
  "save_addr_list_cb env nw =
     nw\<lparr>store_calls := store_calls nw @ [SAVE_ADDR_LIST (map (\<lambda>addr. \<lparr>sa_timestamp = advertise_time addr, sa_stream = na_stream addr,
          sa_services = na_services addr, sa_address = na_address addr\<rparr>) (young_addrs env nw))],
        save_addr_list_source := False\<rparr>"

definition send_addresses :: "nw_env \<Rightarrow> nat \<Rightarrow> ntb_network \<Rightarrow> ntb_network" where
  "send_addresses env p nw = call_peer p
     ([BEGIN_ADDR] @ map (\<lambda>addr. ADD_ADDR_ADDRESS (advertise_time addr) (na_stream addr) (na_services addr) (na_address addr)) (young_addrs env nw) @
      [END_ADDR]) nw"

section \<open>The handshake\<close>

text \<open>The hashes of the accepted objects that are young enough; the list holds no other inventories.\<close>

primrec offered_hashes :: "nw_env \<Rightarrow> nat list \<Rightarrow> ntb_network \<Rightarrow> u8 list list outcome" where
  "offered_hashes env [] nw = Ok []"
| "offered_hashes env (i # is) nw =
     (case inventories nw i of
        None \<Rightarrow> Fault
      | Some iv \<Rightarrow>
          (case inv_state iv of
             NTB_NETWORK_INV_STATE_ACCEPTED t ts blob \<Rightarrow>
               bind_outcome (offered_hashes env is nw) (\<lambda>hs.
                 Ok (if age_of (wall_clock env) ts \<ge> ntb_proto_get_max_age_for_type t then hs else inv_hash iv # hs))
           | _ \<Rightarrow> Fault))"

definition send_inventory :: "nw_env \<Rightarrow> nat \<Rightarrow> ntb_network \<Rightarrow> ntb_network outcome" where
  "send_inventory env p nw =
     bind_outcome (offered_hashes env (accepted_inventories nw) nw) (\<lambda>hs.
       Ok (call_peer p ([BEGIN_INV] @ map ADD_INV_HASH hs @ [END_INV]) nw))"

definition set_peer_state :: "nat \<Rightarrow> ntb_network_peer_state \<Rightarrow> ntb_network \<Rightarrow> ntb_network" where
  "set_peer_state p st nw = change_peer p (\<lambda>peer. peer\<lparr>peer_state := st\<rparr>) nw"

definition connection_established :: "nw_env \<Rightarrow> nat \<Rightarrow> ntb_network \<Rightarrow> ntb_network outcome" where
  "connection_established env p nw =
     send_inventory env p (send_addresses env p (set_peer_state p NTB_NETWORK_PEER_STATE_CONNECTED nw))"

text \<open>The handlers return whether the peer is still there.\<close>

definition connect_peer_addr :: "nat \<Rightarrow> nat option \<Rightarrow> ntb_network \<Rightarrow> ntb_network outcome" where
  "connect_peer_addr p addr nw =
     (case addr of
        None \<Rightarrow> Ok nw
      | Some a \<Rightarrow>
          (case (get_peer p nw, get_addr a nw) of
             (Some peer, Some ad) \<Rightarrow>
               if peer_addr peer = None \<and> \<not> na_connected ad
               then Ok (change_addr a (\<lambda>ad. ad\<lparr>na_connected := True\<rparr>)
                      (change_peer p (\<lambda>peer. peer\<lparr>peer_addr := Some a\<rparr>) (nw\<lparr>n_unconnected_addrs := n_unconnected_addrs nw - 1\<rparr>)))
               else Ok nw
           | _ \<Rightarrow> Fault))"

definition stream_of_version :: "ntb_proto_var_int_list \<Rightarrow> u64 outcome" where
  "stream_of_version stream_numbers =
     (if n_ints stream_numbers \<ge> 1
      then (case ntb_proto_get_var_int (vil_values stream_numbers, 16) of
              Fault \<Rightarrow> Fault | Fail \<Rightarrow> Ok 1 | Ok (v, _) \<Rightarrow> Ok v)
      else Ok 1)"

definition handle_version :: "nw_env \<Rightarrow> nat \<Rightarrow> ntb_connection_event \<Rightarrow> ntb_network \<Rightarrow> (ntb_network \<times> bool) outcome" where
  "handle_version env p event nw =
     (if ev_nonce event = nw_nonce nw then bind_outcome (remove_peer p nw) (\<lambda>nw. Ok (nw, False))
      else if ev_version event \<noteq> NTB_PROTO_VERSION then bind_outcome (remove_peer p nw) (\<lambda>nw. Ok (nw, False))
      else
        bind_outcome (stream_of_version (ev_stream_numbers event)) (\<lambda>strm.
        (case get_peer p nw of
           None \<Rightarrow> Fault
         | Some peer \<Rightarrow>
             let remote_address = (peer_remote_address peer)\<lparr>port := port (ev_addr_from event)\<rparr> in
             (case add_addr env (ev_timestamp event) (ucast strm) (ev_services event) remote_address nw of
                (nw, addr) \<Rightarrow>
                  bind_outcome (connect_peer_addr p addr nw) (\<lambda>nw.
                  let nw = call_peer p [SEND_VERACK] nw in
                  (case peer_state peer of
                     NTB_NETWORK_PEER_STATE_AWAITING_VERSION_OUT \<Rightarrow>
                       bind_outcome (connection_established env p nw) (\<lambda>nw. Ok (nw, True))
                   | NTB_NETWORK_PEER_STATE_AWAITING_VERSION_IN \<Rightarrow>
                       Ok (set_peer_state p NTB_NETWORK_PEER_STATE_AWAITING_VERACK_IN (send_version_to_peer p nw), True)
                   | _ \<Rightarrow> Ok (nw, True)))))))"

definition handle_verack :: "nw_env \<Rightarrow> nat \<Rightarrow> ntb_network \<Rightarrow> (ntb_network \<times> bool) outcome" where
  "handle_verack env p nw =
     (case get_peer p nw of
        None \<Rightarrow> Fault
      | Some peer \<Rightarrow>
          (case peer_state peer of
             NTB_NETWORK_PEER_STATE_AWAITING_VERACK_OUT \<Rightarrow>
               Ok (set_peer_state p NTB_NETWORK_PEER_STATE_AWAITING_VERSION_OUT nw, True)
           | NTB_NETWORK_PEER_STATE_AWAITING_VERACK_IN \<Rightarrow>
               bind_outcome (connection_established env p nw) (\<lambda>nw. Ok (nw, True))
           | _ \<Rightarrow> Ok (nw, True)))"

section \<open>Objects\<close>

definition request_inventory :: "nw_env \<Rightarrow> nat \<Rightarrow> u8 list \<Rightarrow> ntb_network \<Rightarrow> ntb_network" where
  "request_inventory env p hash nw =
     (let i = next_ptr nw;
          nw = put_inventory i \<lparr>inv_hash = hash, inv_state = NTB_NETWORK_INV_STATE_STUB (monotonic_clock env)\<rparr> (nw\<lparr>next_ptr := i + 1\<rparr>);
          nw = change_peer p (\<lambda>peer. peer\<lparr>requested_inventories := i # requested_inventories peer\<rparr>) nw;
          nw = nw\<lparr>inventory_hash := (inventory_hash nw)(hash \<mapsto> i)\<rparr> in
      call_peer p [ADD_GETDATA_HASH hash] nw)"

text \<open>The loop over \<open>n\<close> hashes in the memory from \<open>mem\<close> on.\<close>

primrec inv_loop :: "nw_env \<Rightarrow> nat \<Rightarrow> nat \<Rightarrow> u8 list \<Rightarrow> ntb_network \<Rightarrow> ntb_network outcome" where
  "inv_loop env p 0 mem nw = Ok nw"
| "inv_loop env p (Suc n) mem nw =
     bind_outcome (read_bytes 32 mem) (\<lambda>hash.
     bind_outcome (hash_get hash nw) (\<lambda>iv.
       inv_loop env p n (drop 32 mem) (if iv = None then request_inventory env p hash nw else nw)))"

definition handle_inv :: "nw_env \<Rightarrow> nat \<Rightarrow> ntb_connection_event \<Rightarrow> ntb_network \<Rightarrow> (ntb_network \<times> bool) outcome" where
  "handle_inv env p event nw =
     bind_outcome (inv_loop env p (unat (ev_n_inventories event)) (ev_inventories event) (call_peer p [BEGIN_GETDATA] nw))
       (\<lambda>nw. Ok (call_peer p [END_GETDATA] nw, True))"

definition should_reject :: "nw_env \<Rightarrow> ntb_proto_inv_type \<Rightarrow> u8 list \<Rightarrow> int \<Rightarrow> bool outcome" where
  "should_reject env type payload age =
     (if age \<le> - NTB_NETWORK_INV_FUTURE_AGE then Ok True
      else if age \<ge> ntb_proto_get_max_age_for_type type then Ok True
      else bind_outcome (ntb_pow_check (sha512_fn env) payload Ntb_Key.NTB_PROTO_MIN_EXTRA_BYTES Ntb_Key.NTB_PROTO_MIN_NONCE_TRIALS_PER_BYTE)
             (\<lambda>ok. Ok (\<not> ok)))"

definition handle_addr :: "nw_env \<Rightarrow> ntb_connection_event \<Rightarrow> ntb_network \<Rightarrow> (ntb_network \<times> bool) outcome" where
  "handle_addr env event nw =
     (if ntb_netaddress_is_allowed (ev_address event)
      then Ok (fst (add_addr env (ev_addr_timestamp event) (ev_addr_stream event) (ev_addr_services event) (ev_address event) nw), True)
      else Ok (nw, True))"

primrec getdata_loop :: "nat \<Rightarrow> nat \<Rightarrow> u8 list \<Rightarrow> ntb_network \<Rightarrow> ntb_network outcome" where
  "getdata_loop p 0 mem nw = Ok nw"
| "getdata_loop p (Suc n) mem nw =
     bind_outcome (read_bytes 32 mem) (\<lambda>hash.
     bind_outcome (hash_get hash nw) (\<lambda>iv.
     bind_outcome
       (case iv of
          None \<Rightarrow> Ok nw
        | Some (_, iv) \<Rightarrow>
            (case inv_state iv of
               NTB_NETWORK_INV_STATE_REJECTED _ \<Rightarrow> Ok nw
             | NTB_NETWORK_INV_STATE_ACCEPTED _ _ blob \<Rightarrow> Ok (call_peer p [SEND_BLOB (inv_hash iv) blob] nw)
             | NTB_NETWORK_INV_STATE_STUB _ \<Rightarrow> Fault))
       (getdata_loop p n (drop 32 mem))))"

definition handle_getdata :: "nat \<Rightarrow> ntb_connection_event \<Rightarrow> ntb_network \<Rightarrow> (ntb_network \<times> bool) outcome" where
  "handle_getdata p event nw =
     bind_outcome (getdata_loop p (unat (ev_n_hashes event)) (ev_hashes event) nw) (\<lambda>nw. Ok (nw, True))"

definition broadcast_inv :: "u8 list \<Rightarrow> ntb_network \<Rightarrow> ntb_network" where
  "broadcast_inv hash nw = broadcast_calls [BEGIN_INV, ADD_INV_HASH hash, END_INV] nw"

definition free_delayed_broadcast :: "nat \<Rightarrow> ntb_network \<Rightarrow> ntb_network" where
  "free_delayed_broadcast d nw = nw\<lparr>delayed_broadcasts := filter (\<lambda>data. db_ptr data \<noteq> d) (delayed_broadcasts nw)\<rparr>"

definition broadcast_delayed_inv_cb :: "nat \<Rightarrow> ntb_network \<Rightarrow> ntb_network outcome" where
  "broadcast_delayed_inv_cb d nw =
     (case find (\<lambda>data. db_ptr data = d) (delayed_broadcasts nw) of
        None \<Rightarrow> Fault
      | Some data \<Rightarrow> Ok (free_delayed_broadcast d (broadcast_inv (db_hash data) nw)))"

definition broadcast_delayed_inv :: "nw_env \<Rightarrow> u8 list \<Rightarrow> ntb_network \<Rightarrow> ntb_network" where
  "broadcast_delayed_inv env hash nw =
     nw\<lparr>next_ptr := next_ptr nw + 1,
        delayed_broadcasts := \<lparr>db_ptr = next_ptr nw, db_hash = hash, db_delay = rand_value env mod 3 + 1\<rparr> # delayed_broadcasts nw\<rparr>"

text \<open>
  The oldest rejected inventory makes room for a new one. The hash table is given the address of its hash and
  not of the inventory, so it finds no entry to remove.
\<close>

definition reject_inventory :: "nat \<Rightarrow> ntb_network_inventory \<Rightarrow> int \<Rightarrow> ntb_network \<Rightarrow> ntb_network outcome" where
  "reject_inventory i iv ts nw =
     (let nw = put_inventory i (iv\<lparr>inv_state := NTB_NETWORK_INV_STATE_REJECTED ts\<rparr>) nw in
      bind_outcome
        (if n_rejected_inventories nw \<ge> NTB_NETWORK_MAX_REJECTED_INVENTORIES
         then (case rev (rejected_inventories nw) of
                 [] \<Rightarrow> Fault
               | old_inv # rest \<Rightarrow> Ok (free_inventory old_inv (nw\<lparr>rejected_inventories := rev rest\<rparr>)))
         else Ok (nw\<lparr>n_rejected_inventories := n_rejected_inventories nw + 1\<rparr>))
        (\<lambda>nw. Ok (nw\<lparr>rejected_inventories := i # rejected_inventories nw\<rparr>)))"

text \<open>The inventory that an object belongs to: a new one, or a stub that is taken out of its peer's list.\<close>

definition unlink_stub :: "nat \<Rightarrow> ntb_network \<Rightarrow> ntb_network" where
  "unlink_stub i nw = nw\<lparr>peers := map (\<lambda>peer. peer\<lparr>requested_inventories := remove1 i (requested_inventories peer)\<rparr>) (peers nw)\<rparr>"

definition claim_inventory :: "u8 list \<Rightarrow> ntb_network \<Rightarrow> (nat \<times> ntb_network) option outcome" where
  "claim_inventory hash nw =
     bind_outcome (hash_get hash nw) (\<lambda>found.
       (case found of
          None \<Rightarrow>
            let i = next_ptr nw in
            Ok (Some (i, nw\<lparr>next_ptr := i + 1, inventory_hash := (inventory_hash nw)(hash \<mapsto> i)\<rparr>))
        | Some (i, iv) \<Rightarrow>
            (case inv_state iv of
               NTB_NETWORK_INV_STATE_STUB _ \<Rightarrow> Ok (Some (i, unlink_stub i nw))
             | _ \<Rightarrow> Ok None)))"

definition accept_inventory ::
    "nw_env \<Rightarrow> ntb_proto_inv_type \<Rightarrow> u8 list \<Rightarrow> u8 list \<Rightarrow> int \<Rightarrow> bool \<Rightarrow> nat \<Rightarrow> ntb_network \<Rightarrow> ntb_network" where
  "accept_inventory env type payload hash ts delay i nw =
     (let blob = (type, payload);
          nw = nw\<lparr>store_calls := store_calls nw @ [SAVE_BLOB hash blob], accepted_inventories := i # accepted_inventories nw\<rparr>;
          nw = put_inventory i \<lparr>inv_hash = hash, inv_state = NTB_NETWORK_INV_STATE_ACCEPTED type ts (Some blob)\<rparr> nw;
          nw = (if delay then broadcast_delayed_inv env hash nw else broadcast_inv hash nw);
          nw = nw\<lparr>new_objects := new_objects nw @ [blob]\<rparr> in
      if age_of (wall_clock env) ts \<ge> NTB_NETWORK_INV_CACHE_AGE
      then put_inventory i \<lparr>inv_hash = hash, inv_state = NTB_NETWORK_INV_STATE_ACCEPTED type ts None\<rparr> nw
      else nw)"

definition add_object ::
    "nw_env \<Rightarrow> ntb_proto_inv_type \<Rightarrow> u8 list \<Rightarrow> nat \<Rightarrow> bool \<Rightarrow> bool \<Rightarrow> ntb_network \<Rightarrow> ntb_network outcome" where
  "add_object env type object_data object_data_length skip_validation delay nw =
     (case ntb_proto_get_command object_data (word_of_nat object_data_length) [NTB_PROTO_ARGUMENT_64, NTB_PROTO_ARGUMENT_TIMESTAMP] of
        Fault \<Rightarrow> Fault
      | Fail \<Rightarrow> Ok nw
      | Ok (vs, _) \<Rightarrow>
          (case vs of
             [V64 n, VTimestamp ts] \<Rightarrow>
               bind_outcome (read_bytes object_data_length object_data) (\<lambda>payload.
               let hash = ntb_proto_double_hash (sha512_fn env) payload in
               bind_outcome (claim_inventory hash nw) (\<lambda>claimed.
                 (case claimed of
                    None \<Rightarrow> Ok nw
                  | Some (i, nw) \<Rightarrow>
                      bind_outcome (if skip_validation then Ok False
                                    else should_reject env type payload (age_of (wall_clock env) ts)) (\<lambda>reject.
                        if reject then reject_inventory i \<lparr>inv_hash = hash, inv_state = NTB_NETWORK_INV_STATE_REJECTED ts\<rparr> ts nw
                        else Ok (accept_inventory env type payload hash ts delay i nw)))))
           | _ \<Rightarrow> Fault))"

definition handle_object :: "nw_env \<Rightarrow> ntb_connection_event \<Rightarrow> ntb_network \<Rightarrow> (ntb_network \<times> bool) outcome" where
  "handle_object env event nw =
     bind_outcome (add_object env (ev_type event) (ev_object_data event) (unat (ev_object_data_length event)) False False nw)
       (\<lambda>nw. Ok (nw, True))"

definition connection_event_cb :: "nw_env \<Rightarrow> nat \<Rightarrow> ntb_connection_event \<Rightarrow> ntb_network \<Rightarrow> (ntb_network \<times> bool) outcome" where
  "connection_event_cb env p event nw =
     (case event of
        EVENT_ERROR \<Rightarrow> bind_outcome (remove_peer p nw) (\<lambda>nw. Ok (nw, False))
      | EVENT_CONNECT_FAILED \<Rightarrow> bind_outcome (remove_peer p nw) (\<lambda>nw. Ok (nw, False))
      | EVENT_VERSION _ _ _ _ _ _ _ _ \<Rightarrow> handle_version env p event nw
      | EVENT_VERACK \<Rightarrow> handle_verack env p nw
      | EVENT_INV _ _ \<Rightarrow> handle_inv env p event nw
      | EVENT_ADDR _ _ _ _ \<Rightarrow> handle_addr env event nw
      | EVENT_GETDATA _ _ \<Rightarrow> handle_getdata p event nw
      | EVENT_OBJECT _ _ _ _ _ _ \<Rightarrow> handle_object env event nw)"

definition ntb_network_add_blob :: "nw_env \<Rightarrow> object_blob \<Rightarrow> bool \<Rightarrow> bool \<Rightarrow> ntb_network \<Rightarrow> ntb_network outcome" where
  "ntb_network_add_blob env blob skip_validation delay nw =
     add_object env (fst blob) (snd blob) (length (snd blob)) skip_validation delay nw"

definition ntb_network_add_object_from_data ::
    "nw_env \<Rightarrow> ntb_proto_inv_type \<Rightarrow> u8 list \<Rightarrow> nat \<Rightarrow> bool \<Rightarrow> bool \<Rightarrow> ntb_network \<Rightarrow> ntb_network outcome" where
  "ntb_network_add_object_from_data env type object_data object_data_length skip_validation delay nw =
     add_object env type object_data object_data_length skip_validation delay nw"

section \<open>Garbage collection\<close>

text \<open>The stubs of a peer that were requested too long ago.\<close>

primrec stale_stubs :: "nw_env \<Rightarrow> nat list \<Rightarrow> ntb_network \<Rightarrow> nat list outcome" where
  "stale_stubs env [] nw = Ok []"
| "stale_stubs env (i # is) nw =
     (case inventories nw i of
        None \<Rightarrow> Fault
      | Some iv \<Rightarrow>
          (case inv_state iv of
             NTB_NETWORK_INV_STATE_STUB last_request_time \<Rightarrow>
               bind_outcome (stale_stubs env is nw) (\<lambda>js.
                 Ok (if unat (monotonic_clock env - last_request_time) \<ge> NTB_NETWORK_MAX_STUB_INVENTORY_AGE * 1000000 then i # js else js))
           | _ \<Rightarrow> Fault))"

definition gc_requested_inventories :: "nw_env \<Rightarrow> ntb_network_peer \<Rightarrow> ntb_network \<Rightarrow> ntb_network outcome" where
  "gc_requested_inventories env peer nw =
     bind_outcome (stale_stubs env (requested_inventories peer) nw) (\<lambda>stale.
     drop_inventories stale
       (change_peer (peer_ptr peer) (\<lambda>peer. peer\<lparr>requested_inventories := filter (\<lambda>i. i \<notin> set stale) (requested_inventories peer)\<rparr>) nw))"

primrec gc_peers :: "nw_env \<Rightarrow> ntb_network_peer list \<Rightarrow> ntb_network \<Rightarrow> ntb_network outcome" where
  "gc_peers env [] nw = Ok nw"
| "gc_peers env (peer # rest) nw = bind_outcome (gc_requested_inventories env peer nw) (gc_peers env rest)"

definition expired :: "nw_env \<Rightarrow> ntb_proto_inv_type \<Rightarrow> int \<Rightarrow> bool" where
  "expired env type ts \<longleftrightarrow> age_of (wall_clock env) ts \<le> - NTB_NETWORK_INV_FUTURE_AGE \<or>
     age_of (wall_clock env) ts \<ge> ntb_proto_get_max_age_for_type type + NTB_PROTO_EXTRA_AGE"

text \<open>One round of the loop over a list of inventories.\<close>

definition gc_inventory :: "nw_env \<Rightarrow> nat \<Rightarrow> ntb_network \<Rightarrow> ntb_network outcome" where
  "gc_inventory env i nw =
     (case inventories nw i of
        None \<Rightarrow> Fault
      | Some iv \<Rightarrow>
          (case inv_state iv of
             NTB_NETWORK_INV_STATE_ACCEPTED type ts blob \<Rightarrow>
               if expired env type ts
               then Ok (free_inventory i (hash_remove i iv
                      (nw\<lparr>store_calls := store_calls nw @ [DELETE_OBJECT (inv_hash iv)],
                          accepted_inventories := remove1 i (accepted_inventories nw)\<rparr>)))
               else if age_of (wall_clock env) ts \<ge> NTB_NETWORK_INV_CACHE_AGE
               then Ok (put_inventory i (iv\<lparr>inv_state := NTB_NETWORK_INV_STATE_ACCEPTED type ts None\<rparr>) nw)
               else Ok nw
           | NTB_NETWORK_INV_STATE_REJECTED ts \<Rightarrow>
               if expired env NTB_PROTO_INV_TYPE_MSG ts
               then Ok (free_inventory i (hash_remove i iv
                      (nw\<lparr>n_rejected_inventories := n_rejected_inventories nw - 1,
                          rejected_inventories := remove1 i (rejected_inventories nw)\<rparr>)))
               else Ok nw
           | NTB_NETWORK_INV_STATE_STUB _ \<Rightarrow> Fault))"

primrec gc_inventories :: "nw_env \<Rightarrow> nat list \<Rightarrow> ntb_network \<Rightarrow> ntb_network outcome" where
  "gc_inventories env [] nw = Ok nw"
| "gc_inventories env (i # is) nw = bind_outcome (gc_inventory env i nw) (gc_inventories env is)"

definition old_addr :: "nw_env \<Rightarrow> ntb_network_addr \<Rightarrow> bool" where
  "old_addr env addr \<longleftrightarrow> age_of (wall_clock env) (advertise_time addr) \<ge> NTB_NETWORK_MAX_ADDR_AGE \<and>
     na_type addr = NTB_NETWORK_ADDR_DISCOVERED \<and> \<not> na_connected addr"

primrec remove_addrs :: "ntb_network_addr list \<Rightarrow> ntb_network \<Rightarrow> ntb_network outcome" where
  "remove_addrs [] nw = Ok nw"
| "remove_addrs (addr # rest) nw = bind_outcome (remove_addr addr nw) (remove_addrs rest)"

definition gc_addrs :: "nw_env \<Rightarrow> ntb_network \<Rightarrow> ntb_network outcome" where
  "gc_addrs env nw = remove_addrs (filter (old_addr env) (addrs nw)) nw"

definition gc_timeout_cb :: "nw_env \<Rightarrow> ntb_network \<Rightarrow> ntb_network outcome" where
  "gc_timeout_cb env nw =
     bind_outcome (gc_peers env (peers nw) nw) (\<lambda>nw.
     bind_outcome (gc_inventories env (accepted_inventories nw) nw) (\<lambda>nw.
     bind_outcome (gc_inventories env (rejected_inventories nw) nw) (gc_addrs env)))"

section \<open>Loading the store\<close>

definition store_for_each_blob_cb :: "ntb_proto_inv_type \<times> u8 list \<times> int \<Rightarrow> ntb_network \<Rightarrow> ntb_network outcome" where
  "store_for_each_blob_cb obj nw =
     (case obj of (type, hash, ts) \<Rightarrow>
        bind_outcome (hash_get hash nw) (\<lambda>found.
          (case found of
             Some _ \<Rightarrow> Ok nw
           | None \<Rightarrow>
               let i = next_ptr nw in
               Ok (put_inventory i \<lparr>inv_hash = hash, inv_state = NTB_NETWORK_INV_STATE_ACCEPTED type ts None\<rparr>
                    (nw\<lparr>next_ptr := i + 1, inventory_hash := (inventory_hash nw)(hash \<mapsto> i),
                        accepted_inventories := i # accepted_inventories nw\<rparr>)))))"

primrec store_for_each_blob :: "(ntb_proto_inv_type \<times> u8 list \<times> int) list \<Rightarrow> ntb_network \<Rightarrow> ntb_network outcome" where
  "store_for_each_blob [] nw = Ok nw"
| "store_for_each_blob (obj # objs) nw = bind_outcome (store_for_each_blob_cb obj nw) (store_for_each_blob objs)"

definition store_for_each_addr_cb :: "nw_env \<Rightarrow> ntb_store_addr \<Rightarrow> ntb_network \<Rightarrow> ntb_network" where
  "store_for_each_addr_cb env addr nw = fst (add_addr env (sa_timestamp addr) (sa_stream addr) (sa_services addr) (sa_address addr) nw)"

definition dns_bootstrap_cb :: "ntb_netaddress \<Rightarrow> ntb_network \<Rightarrow> ntb_network" where
  "dns_bootstrap_cb net_address nw =
     (if \<not> ntb_netaddress_is_allowed net_address \<or> find_address net_address nw \<noteq> None then nw
      else fst (new_addr (\<lambda>a. a\<lparr>na_address := net_address, advertise_time := 0, na_stream := 1, na_services := NTB_PROTO_SERVICES,
                              na_type := NTB_NETWORK_ADDR_DEFAULT\<rparr>) nw))"

text \<open>The objects and addresses that the store reports and the addresses of the name servers are arguments.\<close>

definition ntb_network_load_store ::
    "nw_env \<Rightarrow> (ntb_proto_inv_type \<times> u8 list \<times> int) list \<Rightarrow> ntb_store_addr list \<Rightarrow> ntb_netaddress list \<Rightarrow> ntb_network \<Rightarrow> ntb_network outcome" where
  "ntb_network_load_store env blobs store_addrs dns_addrs nw =
     bind_outcome (store_for_each_blob blobs nw) (\<lambda>nw.
       Ok (maybe_queue_connect True (fold dns_bootstrap_cb dns_addrs (fold (store_for_each_addr_cb env) store_addrs nw))))"

section \<open>Listening\<close>

definition remove_listen_socket :: "int \<Rightarrow> ntb_network \<Rightarrow> ntb_network" where
  "remove_listen_socket fd nw = nw\<lparr>listen_sockets := filter (\<lambda>ls. ls_sock ls \<noteq> fd) (listen_sockets nw), closed_sockets := closed_sockets nw @ [fd]\<rparr>"

datatype accept_result = ACCEPT_AGAIN | ACCEPT_ERROR | ACCEPTED ntb_netaddress

definition listen_socket_source_cb :: "accept_result \<Rightarrow> int \<Rightarrow> ntb_network \<Rightarrow> ntb_network" where
  "listen_socket_source_cb res fd nw =
     (case res of
        ACCEPT_AGAIN \<Rightarrow> nw
      | ACCEPT_ERROR \<Rightarrow> remove_listen_socket fd nw
      | ACCEPTED remote \<Rightarrow>
          (case add_peer remote nw of (nw, p) \<Rightarrow>
             let nw = change_peer p (\<lambda>peer. peer\<lparr>peer_state := NTB_NETWORK_PEER_STATE_AWAITING_VERSION_IN,
                                                peer_direction := NTB_NETWORK_INCOMING\<rparr>) nw in
             nw\<lparr>n_incoming_peers := n_incoming_peers nw + 1\<rparr>))"

text \<open>The socket calls give the socket or fail; \<open>listening\<close> is false when a later call fails and the socket is closed.\<close>

definition ntb_network_add_listen_address ::
    "(u8 list \<Rightarrow> u8 list option) \<Rightarrow> (u8 list \<Rightarrow> u8 list option) \<Rightarrow> u8 list \<Rightarrow> int option \<Rightarrow> bool \<Rightarrow> ntb_network \<Rightarrow> (ntb_network \<times> bool) outcome" where
  "ntb_network_add_listen_address pton6 pton4 address sock listening nw =
     (case ntb_netaddress_from_string pton6 pton4 address of
        Fault \<Rightarrow> Fault
      | Fail \<Rightarrow> Ok (nw, False)
      | Ok netaddress \<Rightarrow>
          (case sock of
             None \<Rightarrow> Ok (nw, False)
           | Some fd \<Rightarrow>
               if \<not> listening then Ok (nw\<lparr>closed_sockets := closed_sockets nw @ [fd]\<rparr>, False)
               else
                 let ls = \<lparr>ls_sock = fd, ls_address = ntb_netaddress_from_native (ntb_netaddress_to_native netaddress), ls_source = False\<rparr> in
                 Ok (nw\<lparr>listen_sockets := update_listen_socket_source nw ls # listen_sockets nw\<rparr>, True)))"

section \<open>Setup\<close>

definition add_addr_string ::
    "(u8 list \<Rightarrow> u8 list option) \<Rightarrow> (u8 list \<Rightarrow> u8 list option) \<Rightarrow> u8 list \<Rightarrow> ntb_network_addr_type \<Rightarrow> ntb_network \<Rightarrow> (ntb_network \<times> bool) outcome" where
  "add_addr_string pton6 pton4 address type nw =
     (case ntb_netaddress_from_string pton6 pton4 address of
        Fault \<Rightarrow> Fault
      | Fail \<Rightarrow>
          (case new_addr (\<lambda>a. a) nw of (nw, addr) \<Rightarrow> bind_outcome (remove_addr addr nw) (\<lambda>nw. Ok (nw, False)))
      | Ok net_address \<Rightarrow>
          Ok (fst (new_addr (\<lambda>a. a\<lparr>na_address := net_address, advertise_time := 0, na_stream := 1,
                               na_services := NTB_PROTO_SERVICES, na_type := type\<rparr>) nw), True))"

definition ntb_network_add_peer_address ::
    "(u8 list \<Rightarrow> u8 list option) \<Rightarrow> (u8 list \<Rightarrow> u8 list option) \<Rightarrow> u8 list \<Rightarrow> ntb_network \<Rightarrow> (ntb_network \<times> bool) outcome" where
  "ntb_network_add_peer_address pton6 pton4 address nw = add_addr_string pton6 pton4 address NTB_NETWORK_ADDR_EXPLICITLY_ADDED nw"

definition default_addrs :: "u8 list list" where
  "default_addrs = map str
     [''176.31.246.114:8444'', ''109.229.197.133:8444'', ''174.3.101.111:8444'', ''90.188.238.79:7829'', ''184.75.69.2:8444'',
      ''60.225.209.243:8444'', ''5.145.140.218:8444'', ''5.19.255.216:8444'', ''193.159.162.189:8444'', ''86.26.15.171:8444'']"

primrec add_default_addrs ::
    "(u8 list \<Rightarrow> u8 list option) \<Rightarrow> (u8 list \<Rightarrow> u8 list option) \<Rightarrow> u8 list list \<Rightarrow> ntb_network \<Rightarrow> ntb_network outcome" where
  "add_default_addrs pton6 pton4 [] nw = Ok nw"
| "add_default_addrs pton6 pton4 (s # ss) nw =
     bind_outcome (add_addr_string pton6 pton4 s NTB_NETWORK_ADDR_DEFAULT nw) (\<lambda>(nw, added).
       if added then add_default_addrs pton6 pton4 ss nw else Fault)"

definition empty_network :: "u64 \<Rightarrow> ntb_network" where
  "empty_network n = \<lparr>n_outgoing_peers = 0, n_incoming_peers = 0, n_unconnected_addrs = 0, listen_sockets = [], peers = [], addrs = [],
     only_use_explicit_addresses = False, connect_queue_source = None, nw_nonce = n, inventory_hash = Map.empty, inventories = Map.empty,
     next_ptr = 0, accepted_inventories = [], rejected_inventories = [], n_rejected_inventories = 0, save_addr_list_source = False,
     delayed_broadcasts = [], store_calls = [], new_objects = [], closed_sockets = []\<rparr>"

definition ntb_network_new :: "(u8 list \<Rightarrow> u8 list option) \<Rightarrow> (u8 list \<Rightarrow> u8 list option) \<Rightarrow> u64 \<Rightarrow> ntb_network outcome" where
  "ntb_network_new pton6 pton4 n =
     bind_outcome (add_default_addrs pton6 pton4 default_addrs (empty_network n)) (\<lambda>nw. Ok (maybe_queue_connect True nw))"

definition ntb_network_set_only_use_explicit_addresses :: "bool \<Rightarrow> ntb_network \<Rightarrow> ntb_network" where
  "ntb_network_set_only_use_explicit_addresses b nw = maybe_queue_connect True (nw\<lparr>only_use_explicit_addresses := b\<rparr>)"

datatype ntb_network_object_location =
    NTB_NETWORK_OBJECT_LOCATION_NOWHERE | NTB_NETWORK_OBJECT_LOCATION_STORE | NTB_NETWORK_OBJECT_LOCATION_MEMORY

definition ntb_network_get_object :: "u8 list \<Rightarrow> ntb_network \<Rightarrow> (ntb_network_object_location \<times> object_blob option) outcome" where
  "ntb_network_get_object hash nw =
     bind_outcome (hash_get hash nw) (\<lambda>found.
       (case found of
          None \<Rightarrow> Ok (NTB_NETWORK_OBJECT_LOCATION_NOWHERE, None)
        | Some (_, iv) \<Rightarrow>
            (case inv_state iv of
               NTB_NETWORK_INV_STATE_ACCEPTED _ _ (Some blob) \<Rightarrow> Ok (NTB_NETWORK_OBJECT_LOCATION_MEMORY, Some blob)
             | NTB_NETWORK_INV_STATE_ACCEPTED _ _ None \<Rightarrow> Ok (NTB_NETWORK_OBJECT_LOCATION_STORE, None)
             | _ \<Rightarrow> Ok (NTB_NETWORK_OBJECT_LOCATION_NOWHERE, None))))"

section \<open>The end\<close>

primrec remove_peers :: "ntb_network_peer list \<Rightarrow> ntb_network \<Rightarrow> ntb_network outcome" where
  "remove_peers [] nw = Ok nw"
| "remove_peers (peer # rest) nw = bind_outcome (remove_peer (peer_ptr peer) nw) (remove_peers rest)"

definition free_peers :: "ntb_network \<Rightarrow> ntb_network outcome" where
  "free_peers nw = remove_peers (peers nw) nw"

definition free_addrs :: "ntb_network \<Rightarrow> ntb_network outcome" where
  "free_addrs nw = remove_addrs (addrs nw) nw"

definition free_listen_sockets :: "ntb_network \<Rightarrow> ntb_network" where
  "free_listen_sockets nw = fold (\<lambda>ls. remove_listen_socket (ls_sock ls)) (listen_sockets nw) nw"

primrec free_inventories_in_list :: "nat list \<Rightarrow> ntb_network \<Rightarrow> ntb_network outcome" where
  "free_inventories_in_list [] nw = Ok nw"
| "free_inventories_in_list (i # is) nw = (if inventories nw i = None then Fault else free_inventories_in_list is (free_inventory i nw))"

definition free_delayed_broadcasts :: "ntb_network \<Rightarrow> ntb_network" where
  "free_delayed_broadcasts nw = fold (\<lambda>data. free_delayed_broadcast (db_ptr data)) (delayed_broadcasts nw) nw"

definition ntb_network_free :: "nw_env \<Rightarrow> ntb_network \<Rightarrow> ntb_network outcome" where
  "ntb_network_free env nw =
     (let nw = (if save_addr_list_source nw then save_addr_list_cb env nw else nw) in
      bind_outcome (free_peers nw) (\<lambda>nw.
      bind_outcome (free_addrs nw) (\<lambda>nw.
      let nw = free_listen_sockets nw in
      bind_outcome (free_inventories_in_list (accepted_inventories nw) nw) (\<lambda>nw.
      bind_outcome (free_inventories_in_list (rejected_inventories nw) nw) (\<lambda>nw.
      let nw = remove_connect_queue_source (free_delayed_broadcasts nw) in
      if n_outgoing_peers nw = 0 \<and> n_incoming_peers nw = 0 \<and> n_unconnected_addrs nw = 0 then Ok nw else Fault)))))"

end
