(* ===== verification/Ntb_Network_Links.thy ===== *)
theory Ntb_Network_Links
  imports Ntb_Network "HOL-Library.Multiset"
begin

text \<open>
  The peers, the addresses and the counters of the network component: which address belongs to which peer,
  and that every handler keeps the counters exact.
\<close>

section \<open>Lists with keys\<close>

lemma mset_change_key:
  assumes "distinct (map key xs)" "x \<in> set xs"
  shows "mset (map (\<lambda>y. if key y = key x then f y else y) xs) = add_mset (f x) (mset (filter (\<lambda>y. key y \<noteq> key x) xs))"
  using assms
proof (induction xs)
  case (Cons y xs)
  show ?case
  proof (cases "x = y")
    case True
    then have "\<forall>z \<in> set xs. key z \<noteq> key x" using Cons.prems by (force simp: image_iff)
    then have "map (\<lambda>y. if key y = key x then f y else y) xs = xs" "filter (\<lambda>y. key y \<noteq> key x) xs = xs"
      by (auto simp: map_idI filter_id_conv)
    then show ?thesis using True by simp
  next
    case False
    then have "key y \<noteq> key x" using Cons.prems by (auto simp: image_iff)
    then show ?thesis using Cons False by simp
  qed
qed simp

lemma mset_remove_key:
  assumes "distinct (map key xs)" "x \<in> set xs"
  shows "mset xs = add_mset x (mset (filter (\<lambda>y. key y \<noteq> key x) xs))"
  using mset_change_key [OF assms, of "\<lambda>y. y"] by simp

lemma find_key: "find P xs = Some x \<Longrightarrow> x \<in> set xs \<and> P x"
  by (induction xs) (auto split: if_splits)

lemma find_key_None: "find P xs = None \<longleftrightarrow> (\<forall>x \<in> set xs. \<not> P x)"
  by (induction xs) auto

section \<open>Links and counters\<close>

definition peer_keys :: "ntb_network \<Rightarrow> (nat \<times> nat option \<times> ntb_network_direction) list" where
  "peer_keys nw = map (\<lambda>p. (peer_ptr p, peer_addr p, peer_direction p)) (peers nw)"

definition addr_keys :: "ntb_network \<Rightarrow> (nat \<times> bool) list" where
  "addr_keys nw = map (\<lambda>a. (na_ptr a, na_connected a)) (addrs nw)"

definition going :: "ntb_network_direction \<Rightarrow> (nat \<times> nat option \<times> ntb_network_direction) multiset \<Rightarrow> nat" where
  "going d pk = size (filter_mset (\<lambda>k. snd (snd k) = d) pk)"

definition used_addrs :: "(nat \<times> nat option \<times> ntb_network_direction) multiset \<Rightarrow> nat multiset" where
  "used_addrs pk = image_mset (\<lambda>k. the (fst (snd k))) (filter_mset (\<lambda>k. fst (snd k) \<noteq> None) pk)"

definition connected_addrs :: "(nat \<times> bool) multiset \<Rightarrow> nat multiset" where
  "connected_addrs ak = image_mset fst (filter_mset snd ak)"

definition unique_keys :: "(nat \<times> 'v) multiset \<Rightarrow> bool" where
  "unique_keys m \<longleftrightarrow> (\<forall>x. count (image_mset fst m) x \<le> 1)"

lemma unique_keys_add [simp]: "unique_keys (add_mset k m) \<longleftrightarrow> fst k \<notin> fst ` set_mset m \<and> unique_keys m"
proof -
  have "count (image_mset fst m) (fst k) = 0 \<longleftrightarrow> fst k \<notin> fst ` set_mset m" by (simp add: count_eq_zero_iff)
  then show ?thesis unfolding unique_keys_def by (auto simp: le_Suc_eq split: if_splits)
qed

lemma unique_keys_empty [simp]: "unique_keys {#}"
  by (simp add: unique_keys_def)

lemma unique_keys_mset [simp]: "unique_keys (mset ks) \<longleftrightarrow> distinct (map fst ks)"
  by (induction ks) simp_all

definition links_core ::
    "(nat \<times> nat option \<times> ntb_network_direction) multiset \<Rightarrow> (nat \<times> bool) multiset \<Rightarrow> nat \<Rightarrow> int \<Rightarrow> int \<Rightarrow> int \<Rightarrow> bool" where
  "links_core pk ak n outs ins free \<longleftrightarrow>
     unique_keys pk \<and> unique_keys ak \<and>
     (\<forall>k \<in># pk. fst k < n) \<and> (\<forall>k \<in># ak. fst k < n) \<and>
     outs = int (going NTB_NETWORK_OUTGOING pk) \<and> ins = int (going NTB_NETWORK_INCOMING pk) \<and>
     free = int (size (filter_mset (\<lambda>k. \<not> snd k) ak)) \<and> connected_addrs ak = used_addrs pk"

text \<open>
  Pointers are unique, the counters count, and the connected addresses are exactly those that a peer has.
\<close>

definition links_ok :: "ntb_network \<Rightarrow> bool" where
  "links_ok nw \<longleftrightarrow> links_core (mset (peer_keys nw)) (mset (addr_keys nw)) (next_ptr nw)
     (n_outgoing_peers nw) (n_incoming_peers nw) (n_unconnected_addrs nw)"

lemma links_core_mono: "links_core pk ak n outs ins free \<Longrightarrow> n \<le> m \<Longrightarrow> links_core pk ak m outs ins free"
  by (auto simp: links_core_def)

lemma links_cong:
  assumes "links_ok nw" "peer_keys nw' = peer_keys nw" "addr_keys nw' = addr_keys nw" "next_ptr nw \<le> next_ptr nw'"
    and "n_outgoing_peers nw' = n_outgoing_peers nw" "n_incoming_peers nw' = n_incoming_peers nw"
    and "n_unconnected_addrs nw' = n_unconnected_addrs nw"
  shows "links_ok nw'"
  using assms links_core_mono by (simp add: links_ok_def)

text \<open>What does not touch the links.\<close>

lemma keys_simps [simp]:
  "peer_keys (nw\<lparr>connect_queue_source := q\<rparr>) = peer_keys nw" "addr_keys (nw\<lparr>connect_queue_source := q\<rparr>) = addr_keys nw"
  "peer_keys (nw\<lparr>listen_sockets := ls\<rparr>) = peer_keys nw" "addr_keys (nw\<lparr>listen_sockets := ls\<rparr>) = addr_keys nw"
  "peer_keys (nw\<lparr>inventory_hash := h\<rparr>) = peer_keys nw" "addr_keys (nw\<lparr>inventory_hash := h\<rparr>) = addr_keys nw"
  "peer_keys (nw\<lparr>inventories := i\<rparr>) = peer_keys nw" "addr_keys (nw\<lparr>inventories := i\<rparr>) = addr_keys nw"
  "peer_keys (nw\<lparr>n_unconnected_addrs := n\<rparr>) = peer_keys nw" "addr_keys (nw\<lparr>n_unconnected_addrs := n\<rparr>) = addr_keys nw"
  "peer_keys (nw\<lparr>n_outgoing_peers := n\<rparr>) = peer_keys nw" "addr_keys (nw\<lparr>n_outgoing_peers := n\<rparr>) = addr_keys nw"
  "peer_keys (nw\<lparr>n_incoming_peers := n\<rparr>) = peer_keys nw" "addr_keys (nw\<lparr>n_incoming_peers := n\<rparr>) = addr_keys nw"
  "peer_keys (nw\<lparr>save_addr_list_source := b\<rparr>) = peer_keys nw" "addr_keys (nw\<lparr>save_addr_list_source := b\<rparr>) = addr_keys nw"
  "peer_keys (nw\<lparr>store_calls := c\<rparr>) = peer_keys nw" "addr_keys (nw\<lparr>store_calls := c\<rparr>) = addr_keys nw"
  "peer_keys (nw\<lparr>next_ptr := m\<rparr>) = peer_keys nw" "addr_keys (nw\<lparr>next_ptr := m\<rparr>) = addr_keys nw"
  "peer_keys (nw\<lparr>accepted_inventories := l\<rparr>) = peer_keys nw" "addr_keys (nw\<lparr>accepted_inventories := l\<rparr>) = addr_keys nw"
  "peer_keys (nw\<lparr>rejected_inventories := l\<rparr>) = peer_keys nw" "addr_keys (nw\<lparr>rejected_inventories := l\<rparr>) = addr_keys nw"
  "peer_keys (nw\<lparr>n_rejected_inventories := n\<rparr>) = peer_keys nw" "addr_keys (nw\<lparr>n_rejected_inventories := n\<rparr>) = addr_keys nw"
  "peer_keys (nw\<lparr>delayed_broadcasts := d\<rparr>) = peer_keys nw" "addr_keys (nw\<lparr>delayed_broadcasts := d\<rparr>) = addr_keys nw"
  "peer_keys (nw\<lparr>new_objects := o1\<rparr>) = peer_keys nw" "addr_keys (nw\<lparr>new_objects := o1\<rparr>) = addr_keys nw"
  "peer_keys (nw\<lparr>closed_sockets := cs\<rparr>) = peer_keys nw" "addr_keys (nw\<lparr>closed_sockets := cs\<rparr>) = addr_keys nw"
  "peer_keys (nw\<lparr>only_use_explicit_addresses := b\<rparr>) = peer_keys nw" "addr_keys (nw\<lparr>only_use_explicit_addresses := b\<rparr>) = addr_keys nw"
  "peer_keys (nw\<lparr>addrs := as\<rparr>) = peer_keys nw" "addr_keys (nw\<lparr>peers := ps\<rparr>) = addr_keys nw"
  by (simp_all add: peer_keys_def addr_keys_def)

text \<open>A step that keeps the links, and may use up pointers.\<close>

definition keeps_links :: "ntb_network \<Rightarrow> ntb_network \<Rightarrow> bool" where
  "keeps_links nw nw' \<longleftrightarrow> peer_keys nw' = peer_keys nw \<and> addr_keys nw' = addr_keys nw \<and> next_ptr nw \<le> next_ptr nw' \<and>
     n_outgoing_peers nw' = n_outgoing_peers nw \<and> n_incoming_peers nw' = n_incoming_peers nw \<and>
     n_unconnected_addrs nw' = n_unconnected_addrs nw"

lemma keeps_links_ok: "keeps_links nw nw' \<Longrightarrow> links_ok nw \<Longrightarrow> links_ok nw'"
  by (rule links_cong) (simp_all add: keeps_links_def)

lemma keeps_links_refl [simp]: "keeps_links nw nw"
  by (simp add: keeps_links_def)

lemma keeps_links_trans [trans]: "keeps_links nw nw1 \<Longrightarrow> keeps_links nw1 nw2 \<Longrightarrow> keeps_links nw nw2"
  by (simp add: keeps_links_def)

lemma peer_keys_map:
  assumes "\<And>peer. peer_ptr (f peer) = peer_ptr peer \<and> peer_addr (f peer) = peer_addr peer \<and> peer_direction (f peer) = peer_direction peer"
  shows "peer_keys (nw\<lparr>peers := map f (peers nw)\<rparr>) = peer_keys nw"
  using assms by (simp add: peer_keys_def)

lemma keeps_links_simps [simp]:
  "keeps_links nw (maybe_queue_connect b nw)" "keeps_links nw (remove_connect_queue_source nw)"
  "keeps_links nw (update_all_listen_socket_sources nw)" "keeps_links nw (call_peer p cs nw)"
  "keeps_links nw (broadcast_calls cs nw)" "keeps_links nw (queue_save_addr_list nw)" "keeps_links nw (set_peer_state p st nw)"
  "keeps_links nw (put_inventory i iv nw)" "keeps_links nw (free_inventory i nw)" "keeps_links nw (hash_remove i iv nw)"
  "keeps_links nw (unlink_stub i nw)" "keeps_links nw (broadcast_inv h nw)" "keeps_links nw (broadcast_addr addr nw)"
  "keeps_links nw (send_version_to_peer p nw)"
  "keeps_links nw (save_addr_list_cb env nw)" "keeps_links nw (send_addresses env p nw)"
  "keeps_links nw (broadcast_delayed_inv env h nw)" "keeps_links nw (free_delayed_broadcast d nw)"
  by (auto simp: keeps_links_def maybe_queue_connect_def remove_connect_queue_source_def update_all_listen_socket_sources_def call_peer_def
      change_peer_def broadcast_calls_def queue_save_addr_list_def set_peer_state_def put_inventory_def free_inventory_def hash_remove_def
      unlink_stub_def broadcast_inv_def broadcast_addr_def send_version_to_peer_def Let_def save_addr_list_cb_def
      send_addresses_def broadcast_delayed_inv_def free_delayed_broadcast_def intro!: peer_keys_map)

lemma keeps_links_request [simp]: "keeps_links nw (request_inventory env p h nw)"
  by (simp add: keeps_links_def request_inventory_def call_peer_def change_peer_def put_inventory_def Let_def peer_keys_def addr_keys_def)

section \<open>Steps that change the links\<close>

lemma counts_add:
  "going d (add_mset k pk) = of_bool (snd (snd k) = d) + going d pk"
  "used_addrs (add_mset k pk) = (case fst (snd k) of None \<Rightarrow> {#} | Some a \<Rightarrow> {#a#}) + used_addrs pk"
  "connected_addrs (add_mset (a, c) ak) = (if c then {#a#} else {#}) + connected_addrs ak"
  by (auto simp: going_def used_addrs_def connected_addrs_def split: option.split)

lemma links_okD:
  assumes "links_ok nw"
  shows "distinct (map peer_ptr (peers nw))" "distinct (map na_ptr (addrs nw))"
    "p \<in> set (peers nw) \<Longrightarrow> peer_ptr p < next_ptr nw" "a \<in> set (addrs nw) \<Longrightarrow> na_ptr a < next_ptr nw"
  using assms unfolding links_ok_def links_core_def unique_keys_mset by (auto simp: peer_keys_def addr_keys_def comp_def)

lemma get_peer_mem: "get_peer p nw = Some peer \<Longrightarrow> peer \<in> set (peers nw) \<and> peer_ptr peer = p"
  by (auto simp: get_peer_def dest: find_key)

lemma get_addr_mem: "get_addr a nw = Some addr \<Longrightarrow> addr \<in> set (addrs nw) \<and> na_ptr addr = a"
  by (auto simp: get_addr_def dest: find_key)

lemma mset_peer_keys:
  assumes "links_ok nw" "peer \<in> set (peers nw)"
  shows "mset (peer_keys nw) = add_mset (peer_ptr peer, peer_addr peer, peer_direction peer)
      (mset (peer_keys (nw\<lparr>peers := filter (\<lambda>q. peer_ptr q \<noteq> peer_ptr peer) (peers nw)\<rparr>)))"
  using arg_cong [OF mset_remove_key [OF links_okD(1) [OF assms(1)] assms(2)],
      of "image_mset (\<lambda>p. (peer_ptr p, peer_addr p, peer_direction p))"]
  unfolding peer_keys_def mset_map image_mset_add_mset by simp

lemma mset_peer_keys_change:
  assumes "links_ok nw" "peer \<in> set (peers nw)" "peer_ptr peer = p"
  shows "mset (peer_keys (change_peer p f nw)) = add_mset (peer_ptr (f peer), peer_addr (f peer), peer_direction (f peer))
      (mset (peer_keys (nw\<lparr>peers := filter (\<lambda>q. peer_ptr q \<noteq> p) (peers nw)\<rparr>)))"
  using arg_cong [OF mset_change_key [OF links_okD(1) [OF assms(1)] assms(2), of f],
      of "image_mset (\<lambda>p. (peer_ptr p, peer_addr p, peer_direction p))"]
  unfolding peer_keys_def mset_map [symmetric] image_mset_add_mset change_peer_def assms(3) by simp

lemma mset_addr_keys:
  assumes "links_ok nw" "addr \<in> set (addrs nw)"
  shows "mset (addr_keys nw) = add_mset (na_ptr addr, na_connected addr)
      (mset (addr_keys (nw\<lparr>addrs := filter (\<lambda>q. na_ptr q \<noteq> na_ptr addr) (addrs nw)\<rparr>)))"
  using arg_cong [OF mset_remove_key [OF links_okD(2) [OF assms(1)] assms(2)], of "image_mset (\<lambda>a. (na_ptr a, na_connected a))"]
  unfolding addr_keys_def mset_map image_mset_add_mset by simp

lemma mset_addr_keys_change:
  assumes "links_ok nw" "addr \<in> set (addrs nw)" "na_ptr addr = a"
  shows "mset (addr_keys (change_addr a f nw)) = add_mset (na_ptr (f addr), na_connected (f addr))
      (mset (addr_keys (nw\<lparr>addrs := filter (\<lambda>q. na_ptr q \<noteq> a) (addrs nw)\<rparr>)))"
  using arg_cong [OF mset_change_key [OF links_okD(2) [OF assms(1)] assms(2), of f], of "image_mset (\<lambda>a. (na_ptr a, na_connected a))"]
  unfolding addr_keys_def mset_map [symmetric] image_mset_add_mset change_addr_def assms(3) by simp

lemma core_add_addr:
  assumes "links_core pk ak n outs ins free"
  shows "links_core pk (add_mset (n, False) ak) (n + 1) outs ins (free + 1)"
  using assms by (auto simp: links_core_def counts_add less_SucI)

lemma core_remove_addr:
  "links_core pk (add_mset (a, False) ak) n outs ins free \<Longrightarrow> links_core pk ak n outs ins (free - 1)"
  by (simp add: links_core_def counts_add)

lemma new_addr_links:
  assumes "links_ok nw" "\<And>a. na_ptr (f a) = na_ptr a \<and> na_connected (f a) = na_connected a"
  shows "links_ok (fst (new_addr f nw))"
  using core_add_addr [OF assms(1) [unfolded links_ok_def]] assms(2)
  by (simp add: links_ok_def new_addr_def Let_def peer_keys_def addr_keys_def)

lemma remove_addr_links:
  assumes "links_ok nw" "addr \<in> set (addrs nw)" "\<not> na_connected addr"
  shows "\<exists>nw'. remove_addr addr nw = Ok nw' \<and> links_ok nw' \<and> addrs nw' = filter (\<lambda>a. na_ptr a \<noteq> na_ptr addr) (addrs nw) \<and> peers nw' = peers nw"
proof -
  let ?nw = "nw\<lparr>addrs := filter (\<lambda>a. na_ptr a \<noteq> na_ptr addr) (addrs nw), n_unconnected_addrs := n_unconnected_addrs nw - 1\<rparr>"
  have "mset (addr_keys nw) = add_mset (na_ptr addr, False) (mset (addr_keys ?nw))"
    using mset_addr_keys [OF assms(1,2)] assms(3) by simp
  with assms(1) have "links_ok ?nw" using core_remove_addr by (simp add: links_ok_def)
  then show ?thesis using assms(3) by (simp add: remove_addr_def)
qed

lemma drop_inventories_frame:
  "drop_inventories is nw = Ok nw' \<Longrightarrow>
     nw' = nw\<lparr>inventory_hash := inventory_hash nw', inventories := inventories nw'\<rparr>"
proof (induction "is" arbitrary: nw)
  case (Cons i "is")
  then obtain iv where "drop_inventories is (free_inventory i (hash_remove i iv nw)) = Ok nw'" by (auto split: option.splits)
  from Cons.IH [OF this] show ?case by (auto simp: free_inventory_def hash_remove_def split: if_splits)
qed simp

lemma drop_inventories_fields:
  assumes "drop_inventories is nw = Ok nw'"
  shows "peers nw' = peers nw" "addrs nw' = addrs nw" "keeps_links nw nw'"
    "accepted_inventories nw' = accepted_inventories nw" "rejected_inventories nw' = rejected_inventories nw"
    "n_rejected_inventories nw' = n_rejected_inventories nw" "next_ptr nw' = next_ptr nw"
    "store_calls nw' = store_calls nw" "new_objects nw' = new_objects nw" "delayed_broadcasts nw' = delayed_broadcasts nw"
    "listen_sockets nw' = listen_sockets nw"
  by (subst drop_inventories_frame [OF assms]; simp add: keeps_links_def)+

lemma peer_addr_connected:
  assumes "links_ok nw" "peer \<in> set (peers nw)" "peer_addr peer = Some a"
  shows "\<exists>addr \<in> set (addrs nw). na_ptr addr = a \<and> na_connected addr"
proof -
  have "a \<in># used_addrs (mset (peer_keys nw))"
    using assms(3) unfolding mset_peer_keys [OF assms(1,2)] by (simp add: counts_add)
  then have "a \<in># connected_addrs (mset (addr_keys nw))" using assms(1) by (simp add: links_ok_def links_core_def)
  then show ?thesis by (auto simp: connected_addrs_def addr_keys_def)
qed

text \<open>What \<open>remove_peer\<close> does once the stubs of the peer are gone.\<close>

definition unlink_peer :: "ntb_network_peer \<Rightarrow> ntb_network \<Rightarrow> ntb_network" where
  "unlink_peer peer nw =
     (let nw = (case peer_addr peer of
                  None \<Rightarrow> nw
                | Some a \<Rightarrow> change_addr a (\<lambda>addr. addr\<lparr>na_connected := False\<rparr>)
                              (nw\<lparr>n_unconnected_addrs := n_unconnected_addrs nw + 1\<rparr>));
          nw = (case peer_direction peer of
                  NTB_NETWORK_OUTGOING \<Rightarrow> nw\<lparr>n_outgoing_peers := n_outgoing_peers nw - 1\<rparr>
                | NTB_NETWORK_INCOMING \<Rightarrow> nw\<lparr>n_incoming_peers := n_incoming_peers nw - 1\<rparr>) in
      nw\<lparr>peers := filter (\<lambda>q. peer_ptr q \<noteq> peer_ptr peer) (peers nw)\<rparr>)"

lemma remove_peer_unlink:
  assumes "get_peer p nw = Some peer"
  shows "remove_peer p nw = bind_outcome (drop_inventories (requested_inventories peer) nw)
      (\<lambda>nw. Ok (update_all_listen_socket_sources (maybe_queue_connect True (unlink_peer peer nw))))"
  using get_peer_mem [OF assms] by (simp add: remove_peer_def assms unlink_peer_def Let_def)

lemma core_unlink:
  assumes "links_core (add_mset (p, d) pk) (add_mset (a, True) ak) n outs ins free" "fst d = Some a"
  shows "links_core (add_mset (p, None, snd d) pk) (add_mset (a, False) ak) n outs ins (free + 1)"
  using assms by (simp add: links_core_def counts_add)

lemma core_link:
  assumes "links_core (add_mset (p, d) pk) (add_mset (a, False) ak) n outs ins free" "fst d = None"
  shows "links_core (add_mset (p, Some a, snd d) pk) (add_mset (a, True) ak) n outs ins (free - 1)"
  using assms by (simp add: links_core_def counts_add)

lemma core_remove_peer:
  assumes "links_core (add_mset (p, None, d) pk) ak n outs ins free"
  shows "links_core pk ak n (outs - of_bool (d = NTB_NETWORK_OUTGOING)) (ins - of_bool (d = NTB_NETWORK_INCOMING)) free"
  using assms by (simp add: links_core_def counts_add)

lemma core_add_peer:
  assumes "links_core pk ak n outs ins free"
  shows "links_core (add_mset (n, None, d) pk) ak (n + 1) (outs + of_bool (d = NTB_NETWORK_OUTGOING)) (ins + of_bool (d = NTB_NETWORK_INCOMING)) free"
  using assms by (auto simp: links_core_def counts_add less_SucI)

text \<open>The operations on a single peer.\<close>

lemma unlink_peer_links:
  assumes "links_ok nw" "peer \<in> set (peers nw)"
  shows "links_ok (unlink_peer peer nw)"
proof -
  let ?nw = "unlink_peer peer nw"
  let ?q = "mset (peer_keys (nw\<lparr>peers := filter (\<lambda>q. peer_ptr q \<noteq> peer_ptr peer) (peers nw)\<rparr>))"
  note old = assms(1) [unfolded links_ok_def mset_peer_keys [OF assms]]
  have q: "mset (peer_keys ?nw) = ?q"
    by (simp add: unlink_peer_def peer_keys_def Let_def change_addr_def split: option.split ntb_network_direction.split)
  show ?thesis
  proof (cases "peer_addr peer")
    case None
    from core_remove_peer [OF old [unfolded None]] show ?thesis
      unfolding links_ok_def q
      by (cases "peer_direction peer") (simp_all add: unlink_peer_def None Let_def addr_keys_def)
  next
    case (Some a)
    obtain addr where ad: "addr \<in> set (addrs nw)" "na_ptr addr = a" "na_connected addr"
      using peer_addr_connected [OF assms Some] by auto
    let ?r = "mset (addr_keys (nw\<lparr>addrs := filter (\<lambda>q. na_ptr q \<noteq> a) (addrs nw)\<rparr>))"
    have r: "mset (addr_keys nw) = add_mset (a, True) ?r" using mset_addr_keys [OF assms(1) ad(1)] ad by simp
    have "addr_keys ?nw = addr_keys (change_addr a (\<lambda>addr. addr\<lparr>na_connected := False\<rparr>) nw)"
      by (simp add: unlink_peer_def Some Let_def change_addr_def addr_keys_def split: ntb_network_direction.split)
    then have "mset (addr_keys ?nw) = add_mset (a, False) ?r"
      using mset_addr_keys_change [OF assms(1) ad(1,2), of "\<lambda>addr. addr\<lparr>na_connected := False\<rparr>"] ad by simp
    with core_remove_peer [OF core_unlink [OF old [unfolded r], simplified, OF Some]] show ?thesis
      unfolding links_ok_def q
      by (cases "peer_direction peer") (simp_all add: unlink_peer_def Some Let_def change_addr_def)
  qed
qed

lemma remove_peer_links:
  assumes "links_ok nw" "get_peer p nw = Some peer" "drop_inventories (requested_inventories peer) nw = Ok nw1"
  shows "\<exists>nw'. remove_peer p nw = Ok nw' \<and> links_ok nw' \<and> peers nw' = filter (\<lambda>q. peer_ptr q \<noteq> p) (peers nw)"
proof -
  note f = drop_inventories_fields [OF assms(3)]
  have m: "peer \<in> set (peers nw1)" "peer_ptr peer = p" using get_peer_mem [OF assms(2)] f(1) by simp_all
  have "links_ok (update_all_listen_socket_sources (maybe_queue_connect True (unlink_peer peer nw1)))"
    using unlink_peer_links [OF keeps_links_ok [OF f(3) assms(1)] m(1)] keeps_links_simps by (metis keeps_links_ok)
  then show ?thesis unfolding remove_peer_unlink [OF assms(2)] assms(3) using m f(1)
    by (simp add: unlink_peer_def Let_def change_addr_def update_all_listen_socket_sources_def maybe_queue_connect_def
        split: option.split ntb_network_direction.split)
qed

lemma find_unique:
  assumes "distinct (map key xs)" "x \<in> set xs"
  shows "find (\<lambda>y. key y = key x) xs = Some x"
  using assms by (induction xs) (auto simp: image_iff)

lemma get_peer_iff: "links_ok nw \<Longrightarrow> get_peer p nw = Some peer \<longleftrightarrow> peer \<in> set (peers nw) \<and> peer_ptr peer = p"
  using get_peer_mem [of p nw peer] find_unique [OF links_okD(1), of nw peer] by (auto simp: get_peer_def)

lemma get_addr_iff: "links_ok nw \<Longrightarrow> get_addr a nw = Some addr \<longleftrightarrow> addr \<in> set (addrs nw) \<and> na_ptr addr = a"
  using get_addr_mem [of a nw addr] find_unique [OF links_okD(2), of nw addr] by (auto simp: get_addr_def)

lemma link_peer_links:
  assumes "links_ok nw" "get_peer p nw = Some peer" "get_addr a nw = Some ad" "peer_addr peer = None" "\<not> na_connected ad"
    and "\<And>q. peer_ptr (f q) = peer_ptr q \<and> peer_addr (f q) = Some a \<and> peer_direction (f q) = peer_direction q"
  shows "links_ok (change_addr a (\<lambda>ad. ad\<lparr>na_connected := True\<rparr>)
           (change_peer p f (nw\<lparr>n_unconnected_addrs := n_unconnected_addrs nw - 1\<rparr>)))" (is "links_ok ?nw")
proof -
  note m = get_peer_mem [OF assms(2)] get_addr_mem [OF assms(3)]
  let ?q = "mset (peer_keys (nw\<lparr>peers := filter (\<lambda>q. peer_ptr q \<noteq> p) (peers nw)\<rparr>))"
  let ?r = "mset (addr_keys (nw\<lparr>addrs := filter (\<lambda>q. na_ptr q \<noteq> a) (addrs nw)\<rparr>))"
  have q: "mset (peer_keys nw) = add_mset (p, None, peer_direction peer) ?q"
    using mset_peer_keys [OF assms(1), of peer] m assms(4) by simp
  have r: "mset (addr_keys nw) = add_mset (a, False) ?r"
    using mset_addr_keys [OF assms(1), of ad] m assms(5) by simp
  have q': "mset (peer_keys ?nw) = add_mset (p, Some a, peer_direction peer) ?q"
    using mset_peer_keys_change [OF assms(1), of peer p f] m assms(6) by (simp add: change_peer_def change_addr_def peer_keys_def)
  have r': "mset (addr_keys ?nw) = add_mset (a, True) ?r"
    using mset_addr_keys_change [OF assms(1), of ad a "\<lambda>ad. ad\<lparr>na_connected := True\<rparr>"] m
    by (simp add: change_peer_def change_addr_def addr_keys_def)
  show ?thesis using core_link [OF assms(1) [unfolded links_ok_def q r]]
    by (simp add: links_ok_def q' r') (simp add: change_peer_def change_addr_def)
qed

lemma connect_peer_addr_links:
  assumes "links_ok nw" "get_peer p nw \<noteq> None" "\<And>a. addr = Some a \<Longrightarrow> get_addr a nw \<noteq> None"
  shows "\<exists>nw'. connect_peer_addr p addr nw = Ok nw' \<and> links_ok nw'"
  using assms link_peer_links [OF assms(1), of p _ _ _ "\<lambda>peer. peer\<lparr>peer_addr := Some (the addr)\<rparr>"]
  by (auto simp: connect_peer_addr_def split: option.split)

lemma change_addr_keeps:
  "(\<And>a. na_ptr (f a) = na_ptr a \<and> na_connected (f a) = na_connected a) \<Longrightarrow> keeps_links nw (change_addr a f nw)"
  by (simp add: keeps_links_def change_addr_def addr_keys_def peer_keys_def)

text \<open>What \<open>add_addr\<close> can do: nothing, refresh an address, or add a new one.\<close>

lemma add_addr_cases:
  obtains (same) "fst (add_addr env ts strm services address nw) = nw"
      "\<And>a. snd (add_addr env ts strm services address nw) = Some a \<Longrightarrow> \<exists>addr \<in> set (addrs nw). na_ptr addr = a"
  | (refreshed) addr t where "addr \<in> set (addrs nw)" "snd (add_addr env ts strm services address nw) = Some (na_ptr addr)"
      "fst (add_addr env ts strm services address nw) = broadcast_addr (addr\<lparr>advertise_time := t\<rparr>) (queue_save_addr_list
         (change_addr (na_ptr addr) (\<lambda>a. a\<lparr>advertise_time := t\<rparr>) nw))"
  | (added) f where "\<And>a. na_ptr (f a) = na_ptr a \<and> na_connected (f a) = na_connected a"
      "snd (add_addr env ts strm services address nw) = Some (next_ptr nw)"
      "fst (add_addr env ts strm services address nw) = maybe_queue_connect True (broadcast_addr (snd (new_addr f nw)) (queue_save_addr_list (fst (new_addr f nw))))"
proof (cases "find_address address nw")
  case None
  let ?f = "\<lambda>a. a\<lparr>advertise_time := if ts > wall_clock env then wall_clock env else ts, na_stream := strm, na_services := services, na_address := address\<rparr>"
  show ?thesis
  proof (cases "age_of (wall_clock env) ts \<ge> NTB_NETWORK_MAX_ADDR_AGE")
    case False
    show ?thesis by (rule added [of ?f]) (simp_all add: add_addr_def Let_def False None new_addr_def split: prod.split)
  qed (rule same, simp_all add: add_addr_def Let_def)
next
  case (Some addr)
  then have m: "addr \<in> set (addrs nw)" by (auto simp: find_address_def dest: find_key)
  let ?t = "if ts > wall_clock env then wall_clock env else ts"
  show ?thesis
  proof (cases "\<not> age_of (wall_clock env) ts \<ge> NTB_NETWORK_MAX_ADDR_AGE \<and> advertise_time addr < ?t")
    case True
    show ?thesis by (rule refreshed [of addr ?t]) (use True m in \<open>simp_all add: add_addr_def Let_def Some\<close>)
  next
    case False
    have "add_addr env ts strm services address nw \<in> {(nw, None), (nw, Some (na_ptr addr))}"
      using False unfolding add_addr_def Let_def Some option.case by (simp del: insert_iff split: if_splits) auto
    then show ?thesis using m by (intro same) auto
  qed
qed

lemma add_addr_links:
  assumes "links_ok nw"
  shows "links_ok (fst (add_addr env ts strm services address nw))"
proof (cases rule: add_addr_cases [of env ts strm services address nw])
  case same
  then show ?thesis using assms by simp
next
  case (refreshed addr t)
  have "keeps_links nw (change_addr (na_ptr addr) (\<lambda>a. a\<lparr>advertise_time := t\<rparr>) nw)" by (rule change_addr_keeps) simp
  then show ?thesis using assms refreshed(3) keeps_links_simps keeps_links_ok by metis
next
  case (added f)
  show ?thesis using new_addr_links [OF assms added(1)] added(3) keeps_links_simps keeps_links_ok by metis
qed

lemma frame_simps [simp]:
  "addrs (maybe_queue_connect b nw) = addrs nw" "addrs (broadcast_addr addr nw) = addrs nw" "addrs (queue_save_addr_list nw) = addrs nw"
  "map peer_ptr (peers (maybe_queue_connect b nw)) = map peer_ptr (peers nw)"
  by (simp_all add: maybe_queue_connect_def broadcast_addr_def broadcast_calls_def queue_save_addr_list_def)

lemma add_addr_result:
  assumes "snd (add_addr env ts strm services address nw) = Some a"
  shows "\<exists>addr \<in> set (addrs (fst (add_addr env ts strm services address nw))). na_ptr addr = a"
proof -
  have "na_ptr addr \<in> na_ptr ` set (map (\<lambda>a. if na_ptr a = b then a\<lparr>advertise_time := t\<rparr> else a) xs)"
    if "addr \<in> set xs" for addr b t and xs :: "ntb_network_addr list"
  proof -
    have "map na_ptr (map (\<lambda>a. if na_ptr a = b then a\<lparr>advertise_time := t\<rparr> else a) xs) = map na_ptr xs" by simp
    then show ?thesis using that by (metis image_eqI list.set_map)
  qed
  then have "a \<in> na_ptr ` set (addrs (fst (add_addr env ts strm services address nw)))"
    by (cases rule: add_addr_cases [of env ts strm services address nw])
      (use assms in \<open>auto simp add: change_addr_def new_addr_def Let_def simp del: set_map list.set_map\<close>)
  then show ?thesis by auto
qed

lemma get_peer_keys: "get_peer p nw \<noteq> None \<longleftrightarrow> p \<in> fst ` set (peer_keys nw)"
  by (auto simp add: get_peer_def peer_keys_def image_image simp del: not_None_eq simp add: find_key_None)

lemma keeps_get_peer: "keeps_links nw nw' \<Longrightarrow> get_peer p nw' \<noteq> None \<longleftrightarrow> get_peer p nw \<noteq> None"
  unfolding get_peer_keys by (simp add: keeps_links_def)

lemma add_peer_links:
  assumes "links_ok nw" "add_peer remote nw = (nw1, p)"
    and "\<And>q. peer_ptr (f q) = peer_ptr q \<and> peer_addr (f q) = peer_addr q \<and> peer_direction (f q) = d"
  shows "links_ok ((change_peer p f nw1)\<lparr>n_outgoing_peers := n_outgoing_peers nw1 + of_bool (d = NTB_NETWORK_OUTGOING),
             n_incoming_peers := n_incoming_peers nw1 + of_bool (d = NTB_NETWORK_INCOMING)\<rparr>)" (is "links_ok ?nw")
proof -
  have "\<forall>q \<in> set (peers nw). peer_ptr q \<noteq> next_ptr nw" using links_okD(3) [OF assms(1)] by fastforce
  then have "peer_keys ?nw = (next_ptr nw, None, d) # peer_keys nw" "addr_keys ?nw = addr_keys nw" "next_ptr ?nw = next_ptr nw + 1"
     "n_outgoing_peers nw1 = n_outgoing_peers nw" "n_incoming_peers nw1 = n_incoming_peers nw" "n_unconnected_addrs nw1 = n_unconnected_addrs nw"
    using assms(2,3) by (auto simp: add_peer_def Let_def update_all_listen_socket_sources_def change_peer_def peer_keys_def addr_keys_def)
  moreover have "n_unconnected_addrs ?nw = n_unconnected_addrs nw1" by (simp add: change_peer_def)
  ultimately show ?thesis using core_add_peer [OF assms(1) [unfolded links_ok_def], of d] by (simp add: links_ok_def split del: split_of_bool)
qed

lemma listen_socket_source_cb_links:
  assumes "links_ok nw"
  shows "links_ok (listen_socket_source_cb res fd nw)"
proof (cases res)
  case ACCEPT_AGAIN
  then show ?thesis using assms by (simp add: listen_socket_source_cb_def)
next
  case ACCEPT_ERROR
  have "keeps_links nw (remove_listen_socket fd nw)" by (simp add: keeps_links_def remove_listen_socket_def peer_keys_def addr_keys_def)
  then show ?thesis using ACCEPT_ERROR keeps_links_ok [OF _ assms] by (simp add: listen_socket_source_cb_def)
next
  case (ACCEPTED remote)
  obtain nw1 p where a: "add_peer remote nw = (nw1, p)" by fastforce
  have e: "(change_peer p f nw1)\<lparr>n_outgoing_peers := n_outgoing_peers nw1, n_incoming_peers := n_incoming_peers nw1 + 1\<rparr> =
      (change_peer p f nw1)\<lparr>n_incoming_peers := n_incoming_peers nw1 + 1\<rparr>" for f
    by (simp add: change_peer_def)
  have "n_incoming_peers (change_peer p f nw1) = n_incoming_peers nw1" for f by (simp add: change_peer_def)
  then show ?thesis
    using add_peer_links [OF assms a, of "\<lambda>peer. peer\<lparr>peer_state := NTB_NETWORK_PEER_STATE_AWAITING_VERSION_IN, peer_direction := NTB_NETWORK_INCOMING\<rparr>" NTB_NETWORK_INCOMING]
    by (simp add: listen_socket_source_cb_def ACCEPTED a e Let_def)
qed

lemma pick_addr_mem: "pick_addr can n as = Ok addr \<Longrightarrow> addr \<in> set as \<and> can addr"
  by (induction can n as rule: pick_addr.induct) (auto split: if_splits)

text \<open>The loop finds an address unless the random number is \<open>RAND_MAX\<close> itself.\<close>

lemma pick_addr_ok: "0 \<le> n \<Longrightarrow> n < int (length (filter can as)) \<Longrightarrow> \<exists>addr. pick_addr can n as = Ok addr"
  by (induction can n as rule: pick_addr.induct) auto

lemma addr_num_bound:
  assumes "r < RAND_MAX" "0 < n"
  shows "r * n div RAND_MAX < n"
  using assms by (simp add: div_less_iff_less_mult RAND_MAX_def)

lemma connect_links:
  assumes "links_ok nw" "addr \<in> set (addrs nw)" "\<not> na_connected addr" "connect_to_addr env True addr nw = (nw1, True)"
  shows "links_ok (change_addr (na_ptr addr) (\<lambda>a. a\<lparr>na_connected := True\<rparr>) (nw1\<lparr>n_unconnected_addrs := n_unconnected_addrs nw1 - 1\<rparr>))"
proof -
  let ?nw = "change_addr (na_ptr addr) (\<lambda>a. a\<lparr>last_connect_time := monotonic_clock env\<rparr>) nw"
  have 0: "links_ok ?nw" by (rule keeps_links_ok [OF change_addr_keeps assms(1)]) simp
  obtain nw2 p where a: "add_peer (na_address addr) ?nw = (nw2, p)" by fastforce
  let ?m = "(change_peer p (\<lambda>q. q\<lparr>peer_direction := NTB_NETWORK_OUTGOING\<rparr>) nw2)\<lparr>n_outgoing_peers := n_outgoing_peers nw2 + 1, n_incoming_peers := n_incoming_peers nw2\<rparr>"
  have m: "links_ok ?m" using add_peer_links [OF 0 a, of "\<lambda>q. q\<lparr>peer_direction := NTB_NETWORK_OUTGOING\<rparr>" NTB_NETWORK_OUTGOING] by simp
  have p: "peers nw2 = \<lparr>peer_ptr = p, peer_remote_address = na_address addr, peer_addr = None, requested_inventories = [],
      peer_state = NTB_NETWORK_PEER_STATE_AWAITING_VERACK_OUT, peer_direction = NTB_NETWORK_OUTGOING, peer_calls = []\<rparr> # peers nw" "addrs nw2 = addrs ?nw"
    using a by (auto simp: add_peer_def Let_def update_all_listen_socket_sources_def change_addr_def)
  have "\<exists>peer. get_peer p ?m = Some peer \<and> peer_addr peer = None" by (simp add: get_peer_def change_peer_def p)
  moreover have "get_addr (na_ptr addr) ?m = Some (addr\<lparr>last_connect_time := monotonic_clock env\<rparr>)"
    unfolding get_addr_iff [OF m] using assms(2) by (auto simp: change_peer_def p change_addr_def image_iff)
  ultimately have g: "links_ok (change_addr (na_ptr addr) (\<lambda>ad. ad\<lparr>na_connected := True\<rparr>)
     (change_peer p (\<lambda>q. q\<lparr>peer_addr := Some (na_ptr addr)\<rparr>) (?m\<lparr>n_unconnected_addrs := n_unconnected_addrs ?m - 1\<rparr>)))" (is "links_ok ?g")
    using link_peer_links [OF m] assms(3) by fastforce
  have nw1: "nw1 = send_version_to_peer p ((change_peer p (\<lambda>peer. peer\<lparr>peer_addr := Some (na_ptr addr), peer_direction := NTB_NETWORK_OUTGOING\<rparr>) nw2)
      \<lparr>n_outgoing_peers := n_outgoing_peers nw2 + 1\<rparr>)"
    using assms(4) a by (simp add: connect_to_addr_def Let_def change_peer_def)
  show ?thesis
    by (rule links_cong [OF g]) (simp_all add: nw1 send_version_to_peer_def Let_def call_peer_def change_peer_def change_addr_def peer_keys_def addr_keys_def)
qed

lemma connect_queue_cb_links:
  assumes "links_ok nw" "rand_value env < RAND_MAX"
  shows "\<exists>nw'. connect_queue_cb env connect_ok nw = Ok nw' \<and> links_ok nw'"
proof -
  let ?n = "length (filter (can_connect_to_addr env nw) (addrs nw))"
  consider "n_outgoing_peers nw \<ge> NTB_NETWORK_NUM_OUTGOING_PEERS \<or> n_unconnected_addrs nw \<le> 0" | "?n = 0"
    | (pick) "\<not> (n_outgoing_peers nw \<ge> NTB_NETWORK_NUM_OUTGOING_PEERS \<or> n_unconnected_addrs nw \<le> 0)" "?n \<noteq> 0" by blast
  then show ?thesis
  proof cases
    case pick
    let ?k = "int (rand_value env * ?n div RAND_MAX)"
    obtain addr where ad: "pick_addr (can_connect_to_addr env nw) ?k (addrs nw) = Ok addr"
      using pick_addr_ok [of ?k "can_connect_to_addr env nw" "addrs nw"] addr_num_bound [OF assms(2), of ?n] pick(2) by auto
    note m = pick_addr_mem [OF ad]
    obtain nw1 b where c: "connect_to_addr env connect_ok addr nw = (nw1, b)" by fastforce
    have e: "connect_queue_cb env connect_ok nw = Ok (if b then change_addr (na_ptr addr) (\<lambda>a. a\<lparr>na_connected := True\<rparr>)
        (nw1\<lparr>n_unconnected_addrs := n_unconnected_addrs nw1 - 1\<rparr>) else nw1)"
      using pick by (cases b) (simp_all add: connect_queue_cb_def Let_def ad c)
    show ?thesis
    proof (cases connect_ok)
      case True
      then have "b" using c by (auto simp: connect_to_addr_def Let_def split: prod.splits)
      then show ?thesis using connect_links [OF assms(1), of addr env nw1] m c True e by (simp add: can_connect_to_addr_def split: if_splits)
    next
      case False
      then have "b = False" "nw1 = change_addr (na_ptr addr) (\<lambda>a. a\<lparr>last_connect_time := monotonic_clock env\<rparr>) nw"
        using c by (auto simp: connect_to_addr_def Let_def)
      then show ?thesis using keeps_links_ok [OF change_addr_keeps assms(1), of "\<lambda>a. a\<lparr>last_connect_time := monotonic_clock env\<rparr>" "na_ptr addr"] e by simp
    qed
  qed (use assms(1) in \<open>auto simp: connect_queue_cb_def Let_def intro: keeps_links_ok [OF keeps_links_simps(1)] keeps_links_ok [OF keeps_links_simps(2)]\<close>)
qed

lemma remove_addrs_links:
  assumes "links_ok nw" "distinct (map na_ptr as)" "set as \<subseteq> set (addrs nw)" "\<forall>addr \<in> set as. \<not> na_connected addr"
  shows "\<exists>nw'. remove_addrs as nw = Ok nw' \<and> links_ok nw' \<and> addrs nw' = filter (\<lambda>a. na_ptr a \<notin> na_ptr ` set as) (addrs nw) \<and> peers nw' = peers nw"
  using assms
proof (induction as arbitrary: nw)
  case (Cons addr as)
  obtain nw1 where 1: "remove_addr addr nw = Ok nw1" "links_ok nw1" "addrs nw1 = filter (\<lambda>a. na_ptr a \<noteq> na_ptr addr) (addrs nw)" "peers nw1 = peers nw"
    using remove_addr_links [OF Cons.prems(1), of addr] Cons.prems(3,4) by auto
  have "set as \<subseteq> set (addrs nw1)" using Cons.prems(2,3) 1(3) by (auto simp: image_iff; metis)
  then obtain nw' where "remove_addrs as nw1 = Ok nw'" "links_ok nw'" "addrs nw' = filter (\<lambda>a. na_ptr a \<notin> na_ptr ` set as) (addrs nw1)" "peers nw' = peers nw1"
    using Cons.IH [OF 1(2)] Cons.prems(2,4) by auto
  then show ?case using 1 by (auto intro: filter_cong)
qed simp

lemma gc_addrs_links:
  assumes "links_ok nw"
  shows "\<exists>nw'. gc_addrs env nw = Ok nw' \<and> links_ok nw' \<and> peers nw' = peers nw"
proof -
  let ?as = "filter (old_addr env) (addrs nw)"
  have "distinct (map na_ptr ?as)" using links_okD(2) [OF assms] by (rule distinct_map_filter)
  moreover have "set ?as \<subseteq> set (addrs nw)" "\<forall>addr \<in> set ?as. \<not> na_connected addr" by (auto simp: old_addr_def)
  ultimately show ?thesis unfolding gc_addrs_def using remove_addrs_links [OF assms, of ?as] by blast
qed

lemma add_addr_string_links:
  assumes "links_ok nw" "ntb_netaddress_from_string pton6 pton4 s \<noteq> Fault"
  shows "\<exists>nw' added. add_addr_string pton6 pton4 s type nw = Ok (nw', added) \<and> links_ok nw' \<and>
    added = (ntb_netaddress_from_string pton6 pton4 s \<noteq> Fail)"
proof (cases "ntb_netaddress_from_string pton6 pton4 s")
  case Fail
  have "links_ok (fst (new_addr (\<lambda>a. a) nw))" by (rule new_addr_links [OF assms(1)]) simp
  moreover obtain nw1 addr where n: "new_addr (\<lambda>a. a) nw = (nw1, addr)" by fastforce
  moreover have "addr \<in> set (addrs nw1)" "\<not> na_connected addr" using n by (auto simp: new_addr_def Let_def)
  ultimately show ?thesis using remove_addr_links [of nw1 addr] by (auto simp: add_addr_string_def Fail n)
next
  case (Ok a)
  then show ?thesis by (intro exI conjI) (auto simp: add_addr_string_def intro!: new_addr_links [OF assms(1)])
qed (use assms in simp)

end
