(* ===== verification/Ntb_Network_Inventory.thy ===== *)
theory Ntb_Network_Inventory
  imports Ntb_Network_Links
begin

text \<open>
  The inventory of the network component. Every inventory is a stub in the list of one peer, or in the list of
  accepted or of rejected inventories, and the hash table finds exactly the inventories that exist. The
  invariant holds for all handlers; what is dropped from a list is freed and taken out of the table.
\<close>

section \<open>The invariant\<close>

definition is_stub :: "ntb_network_inventory \<Rightarrow> bool" where
  "is_stub iv \<longleftrightarrow> (case inv_state iv of NTB_NETWORK_INV_STATE_STUB _ \<Rightarrow> True | _ \<Rightarrow> False)"

definition is_accepted :: "ntb_network_inventory \<Rightarrow> bool" where
  "is_accepted iv \<longleftrightarrow> (case inv_state iv of NTB_NETWORK_INV_STATE_ACCEPTED _ _ _ \<Rightarrow> True | _ \<Rightarrow> False)"

definition is_rejected :: "ntb_network_inventory \<Rightarrow> bool" where
  "is_rejected iv \<longleftrightarrow> (case inv_state iv of NTB_NETWORK_INV_STATE_REJECTED _ \<Rightarrow> True | _ \<Rightarrow> False)"

lemmas kind_defs = is_stub_def is_accepted_def is_rejected_def

lemma kinds: "is_stub iv \<or> is_accepted iv \<or> is_rejected iv"
  "\<not> (is_stub iv \<and> is_accepted iv)" "\<not> (is_stub iv \<and> is_rejected iv)" "\<not> (is_accepted iv \<and> is_rejected iv)"
  by (auto simp: kind_defs split: ntb_network_inv_state.split)

text \<open>The inventories of a kind, once each.\<close>

definition lists_kind :: "nat multiset \<Rightarrow> (ntb_network_inventory \<Rightarrow> bool) \<Rightarrow> (nat \<Rightarrow> ntb_network_inventory option) \<Rightarrow> bool" where
  "lists_kind m kind invs \<longleftrightarrow> (\<forall>i. count m i = of_bool (\<exists>iv. invs i = Some iv \<and> kind iv))"

lemma lists_kind_mem: "lists_kind m kind invs \<Longrightarrow> i \<in># m \<longleftrightarrow> (\<exists>iv. invs i = Some iv \<and> kind iv)"
  unfolding lists_kind_def by (simp flip: count_greater_zero_iff)

lemma lists_kind_update:
  assumes "lists_kind m kind invs"
  shows "lists_kind ((if kind iv then {#i#} else {#}) + (m - {#i#})) kind (invs(i \<mapsto> iv))"
    and "lists_kind (m - {#i#}) kind (invs(i := None))"
  using assms by (auto simp: lists_kind_def)

definition finds_all :: "(u8 list \<Rightarrow> nat option) \<Rightarrow> (nat \<Rightarrow> ntb_network_inventory option) \<Rightarrow> bool" where
  "finds_all hash invs \<longleftrightarrow> (\<forall>h i. hash h = Some i \<longleftrightarrow> (\<exists>iv. invs i = Some iv \<and> inv_hash iv = h))"

definition stubs :: "ntb_network \<Rightarrow> nat multiset" where
  "stubs nw = \<Sum>\<^sub># (image_mset (\<lambda>peer. mset (requested_inventories peer)) (mset (peers nw)))"

definition inv_core ::
    "nat multiset \<Rightarrow> nat multiset \<Rightarrow> nat multiset \<Rightarrow> (nat \<Rightarrow> ntb_network_inventory option) \<Rightarrow> (u8 list \<Rightarrow> nat option) \<Rightarrow> nat \<Rightarrow> bool" where
  "inv_core r a j invs hash n \<longleftrightarrow>
     lists_kind r is_stub invs \<and> lists_kind a is_accepted invs \<and> lists_kind j is_rejected invs \<and>
     finds_all hash invs \<and> (\<forall>i \<ge> n. invs i = None)"

definition inv_ok :: "ntb_network \<Rightarrow> bool" where
  "inv_ok nw \<longleftrightarrow>
     inv_core (stubs nw) (mset (accepted_inventories nw)) (mset (rejected_inventories nw)) (inventories nw) (inventory_hash nw) (next_ptr nw) \<and>
     n_rejected_inventories nw = int (length (rejected_inventories nw)) \<and>
     n_rejected_inventories nw \<le> NTB_NETWORK_MAX_REJECTED_INVENTORIES"

definition of_kind :: "(ntb_network_inventory \<Rightarrow> bool) \<Rightarrow> ntb_network_inventory \<Rightarrow> nat \<Rightarrow> nat multiset" where
  "of_kind kind iv i = (if kind iv then {#i#} else {#})"

lemma core_new:
  assumes "inv_core r a j invs hash n" "hash (inv_hash iv) = None"
  shows "inv_core (of_kind is_stub iv n + r) (of_kind is_accepted iv n + a) (of_kind is_rejected iv n + j)
           (invs(n \<mapsto> iv)) (hash(inv_hash iv \<mapsto> n)) (n + 1)"
proof -
  have n: "invs n = None" using assms(1) by (simp add: inv_core_def)
  then have "m - {#n#} = m" if "lists_kind m kind invs" for m kind using lists_kind_mem [OF that, of n] by (simp add: diff_single_trivial)
  then have "lists_kind (of_kind kind iv n + m) kind (invs(n \<mapsto> iv))" if "lists_kind m kind invs" for m kind
    using lists_kind_update(1) [OF that, of iv n] that by (simp add: of_kind_def)
  moreover have "finds_all (hash(inv_hash iv \<mapsto> n)) (invs(n \<mapsto> iv))"
    using assms n unfolding finds_all_def inv_core_def by (auto split: if_splits) (metis option.distinct(1))+
  ultimately show ?thesis using assms(1) by (auto simp: inv_core_def)
qed

lemma core_change:
  assumes "inv_core r a j invs hash n" "invs i = Some old" "inv_hash iv = inv_hash old"
  shows "inv_core (of_kind is_stub iv i + (r - {#i#})) (of_kind is_accepted iv i + (a - {#i#})) (of_kind is_rejected iv i + (j - {#i#}))
           (invs(i \<mapsto> iv)) hash n"
proof -
  have "finds_all hash (invs(i \<mapsto> iv))" using assms unfolding finds_all_def inv_core_def by auto
  moreover have "i < n" using assms(1,2) unfolding inv_core_def by (metis leI option.distinct(1))
  ultimately show ?thesis using assms(1) lists_kind_update(1) by (auto simp: inv_core_def of_kind_def)
qed

lemma core_remove:
  assumes "inv_core r a j invs hash n" "invs i = Some iv"
  shows "hash (inv_hash iv) = Some i"
    "inv_core (r - {#i#}) (a - {#i#}) (j - {#i#}) (invs(i := None)) (hash(inv_hash iv := None)) n"
proof -
  show h: "hash (inv_hash iv) = Some i" using assms unfolding finds_all_def inv_core_def by auto
  have "finds_all (hash(inv_hash iv := None)) (invs(i := None))"
    using assms h unfolding finds_all_def inv_core_def by auto (metis option.inject)
  then show "inv_core (r - {#i#}) (a - {#i#}) (j - {#i#}) (invs(i := None)) (hash(inv_hash iv := None)) n"
    using assms lists_kind_update(2) by (auto simp: inv_core_def)
qed

lemma core_kind:
  assumes "inv_core r a j invs hash n"
  shows "i \<in># r \<longleftrightarrow> (\<exists>iv. invs i = Some iv \<and> is_stub iv)" "i \<in># a \<longleftrightarrow> (\<exists>iv. invs i = Some iv \<and> is_accepted iv)"
    "i \<in># j \<longleftrightarrow> (\<exists>iv. invs i = Some iv \<and> is_rejected iv)"
  using assms lists_kind_mem unfolding inv_core_def by blast+

lemma core_others:
  assumes "inv_core r a j invs hash n" "invs i = Some iv"
  shows "\<not> is_stub iv \<Longrightarrow> r - {#i#} = r" "\<not> is_accepted iv \<Longrightarrow> a - {#i#} = a" "\<not> is_rejected iv \<Longrightarrow> j - {#i#} = j"
  using core_kind [OF assms(1), of i] assms(2) by (auto intro: diff_single_trivial)

lemma core_mono: "inv_core r a j invs hash n \<Longrightarrow> n \<le> m \<Longrightarrow> inv_core r a j invs hash m"
  by (auto simp: inv_core_def)

section \<open>What does not touch the inventory\<close>

definition keeps_inv :: "ntb_network \<Rightarrow> ntb_network \<Rightarrow> bool" where
  "keeps_inv nw nw' \<longleftrightarrow> stubs nw' = stubs nw \<and> accepted_inventories nw' = accepted_inventories nw \<and>
     rejected_inventories nw' = rejected_inventories nw \<and> inventories nw' = inventories nw \<and> inventory_hash nw' = inventory_hash nw \<and>
     n_rejected_inventories nw' = n_rejected_inventories nw \<and> next_ptr nw \<le> next_ptr nw'"

lemma keeps_inv_ok: "keeps_inv nw nw' \<Longrightarrow> inv_ok nw \<Longrightarrow> inv_ok nw'"
  using core_mono by (auto simp: keeps_inv_def inv_ok_def)

lemma keeps_inv_refl [simp]: "keeps_inv nw nw"
  by (simp add: keeps_inv_def)

lemma keeps_inv_trans [trans]: "keeps_inv nw nw1 \<Longrightarrow> keeps_inv nw1 nw2 \<Longrightarrow> keeps_inv nw nw2"
  by (simp add: keeps_inv_def)

lemma stubs_map: "(\<And>peer. requested_inventories (f peer) = requested_inventories peer) \<Longrightarrow> stubs (nw\<lparr>peers := map f (peers nw)\<rparr>) = stubs nw"
  by (simp add: stubs_def image_mset.compositionality comp_def)

lemma stubs_cong:
  assumes "map requested_inventories (peers nw') = map requested_inventories (peers nw)"
  shows "stubs nw' = stubs nw"
proof -
  have "stubs nw = \<Sum>\<^sub># (image_mset mset (mset (map requested_inventories (peers nw))))" for nw
    by (simp add: stubs_def image_mset.compositionality comp_def)
  then show ?thesis using assms by metis
qed

lemma stubs_frame: "peers nw' = peers nw \<Longrightarrow> stubs nw' = stubs nw"
  by (simp add: stubs_def)

lemma keeps_inv_change_peer:
  "(\<And>peer. requested_inventories (f peer) = requested_inventories peer) \<Longrightarrow> keeps_inv nw (change_peer p f nw)"
  unfolding change_peer_def keeps_inv_def by (simp add: stubs_map)

lemma keeps_inv_simps [simp]:
  "keeps_inv nw (maybe_queue_connect b nw)" "keeps_inv nw (remove_connect_queue_source nw)"
  "keeps_inv nw (update_all_listen_socket_sources nw)" "keeps_inv nw (call_peer p cs nw)"
  "keeps_inv nw (broadcast_calls cs nw)" "keeps_inv nw (queue_save_addr_list nw)" "keeps_inv nw (set_peer_state p st nw)"
  "keeps_inv nw (broadcast_inv h nw)" "keeps_inv nw (broadcast_addr addr nw)" "keeps_inv nw (send_version_to_peer p nw)"
  "keeps_inv nw (save_addr_list_cb env nw)" "keeps_inv nw (send_addresses env p nw)"
  "keeps_inv nw (broadcast_delayed_inv env h nw)" "keeps_inv nw (free_delayed_broadcast d nw)"
  "keeps_inv nw (change_addr a f nw)" "keeps_inv nw (fst (new_addr g nw))" "keeps_inv nw (remove_listen_socket fd nw)"
proof -
  show "keeps_inv nw (call_peer p cs nw)" "keeps_inv nw (set_peer_state p st nw)" "keeps_inv nw (send_version_to_peer p nw)"
    "keeps_inv nw (send_addresses env p nw)"
    by (simp_all add: call_peer_def set_peer_state_def send_version_to_peer_def send_addresses_def keeps_inv_change_peer)
  show b: "keeps_inv nw (broadcast_calls cs nw)" for cs by (simp add: keeps_inv_def broadcast_calls_def stubs_map)
  show "keeps_inv nw (broadcast_inv h nw)" "keeps_inv nw (broadcast_addr addr nw)"
    by (simp_all add: broadcast_inv_def broadcast_addr_def b)
qed (simp_all add: keeps_inv_def stubs_def maybe_queue_connect_def remove_connect_queue_source_def update_all_listen_socket_sources_def
      queue_save_addr_list_def save_addr_list_cb_def broadcast_delayed_inv_def free_delayed_broadcast_def change_addr_def new_addr_def
      remove_listen_socket_def Let_def)

section \<open>Stubs\<close>

lemma stubs_peer:
  assumes "links_ok nw" "get_peer p nw = Some peer"
  shows "stubs nw = mset (requested_inventories peer) + stubs (nw\<lparr>peers := filter (\<lambda>q. peer_ptr q \<noteq> p) (peers nw)\<rparr>)"
  using arg_cong [OF mset_remove_key [OF links_okD(1) [OF assms(1)], of peer], of "\<lambda>m. \<Sum>\<^sub># (image_mset (\<lambda>q. mset (requested_inventories q)) m)"]
    get_peer_mem [OF assms(2)] unfolding stubs_def image_mset_add_mset by simp

lemma stubs_change_peer:
  assumes "links_ok nw" "get_peer p nw = Some peer"
  shows "stubs (change_peer p f nw) = mset (requested_inventories (f peer)) + stubs (nw\<lparr>peers := filter (\<lambda>q. peer_ptr q \<noteq> p) (peers nw)\<rparr>)"
  using arg_cong [OF mset_change_key [OF links_okD(1) [OF assms(1)], of peer f], of "\<lambda>m. \<Sum>\<^sub># (image_mset (\<lambda>q. mset (requested_inventories q)) m)"]
    get_peer_mem [OF assms(2)] unfolding stubs_def image_mset_add_mset change_peer_def by simp

lemma drop_inventories_core:
  assumes "inv_core (mset is + r) a j (inventories nw) (inventory_hash nw) n"
  shows "\<exists>nw'. drop_inventories is nw = Ok nw' \<and> inv_core r a j (inventories nw') (inventory_hash nw') n"
  using assms
proof (induction "is" arbitrary: nw)
  case (Cons i "is")
  have "i \<in># mset (i # is) + r" by simp
  then obtain iv where iv: "inventories nw i = Some iv" "is_stub iv" using core_kind(1) [OF Cons.prems] by blast
  note r = core_remove [OF Cons.prems iv(1)]
  have "a - {#i#} = a" "j - {#i#} = j" using core_others(2,3) [OF Cons.prems iv(1)] iv(2) kinds by blast+
  then have "inv_core (mset is + r) a j (inventories (free_inventory i (hash_remove i iv nw))) (inventory_hash (free_inventory i (hash_remove i iv nw))) n"
    using r by (simp add: free_inventory_def hash_remove_def)
  from Cons.IH [OF this] show ?case by (simp add: iv(1))
qed simp

lemma remove_peer_ok:
  assumes "links_ok nw" "inv_ok nw" "get_peer p nw \<noteq> None"
  shows "\<exists>nw'. remove_peer p nw = Ok nw' \<and> links_ok nw' \<and> inv_ok nw' \<and> peers nw' = filter (\<lambda>q. peer_ptr q \<noteq> p) (peers nw)"
proof -
  obtain peer where p: "get_peer p nw = Some peer" using assms(3) by auto
  let ?r = "stubs (nw\<lparr>peers := filter (\<lambda>q. peer_ptr q \<noteq> p) (peers nw)\<rparr>)"
  obtain nw1 where d: "drop_inventories (requested_inventories peer) nw = Ok nw1"
    "inv_core ?r (mset (accepted_inventories nw)) (mset (rejected_inventories nw)) (inventories nw1) (inventory_hash nw1) (next_ptr nw)"
    using drop_inventories_core assms(2) [unfolded inv_ok_def stubs_peer [OF assms(1) p]] by blast
  note f = drop_inventories_fields [OF d(1)]
  obtain nw' where n: "remove_peer p nw = Ok nw'" "links_ok nw'" "peers nw' = filter (\<lambda>q. peer_ptr q \<noteq> p) (peers nw)"
    using remove_peer_links [OF assms(1) p d(1)] by auto
  have "nw' = update_all_listen_socket_sources (maybe_queue_connect True (unlink_peer peer nw1))"
    using n(1) by (simp add: remove_peer_unlink [OF p] d(1))
  then have "accepted_inventories nw' = accepted_inventories nw" "rejected_inventories nw' = rejected_inventories nw"
     "n_rejected_inventories nw' = n_rejected_inventories nw" "inventories nw' = inventories nw1" "inventory_hash nw' = inventory_hash nw1" "next_ptr nw' = next_ptr nw"
    by (auto simp: f update_all_listen_socket_sources_def maybe_queue_connect_def unlink_peer_def Let_def change_addr_def
        split: option.split ntb_network_direction.split)
  moreover have "stubs nw' = ?r" using n(3) by (simp add: stubs_def)
  ultimately have "inv_ok nw'" using d(2) assms(2) by (simp add: inv_ok_def)
  then show ?thesis using n by blast
qed

lemma hash_get_ok:
  assumes "inv_ok nw"
  shows "hash_get h nw = Ok (case inventory_hash nw h of None \<Rightarrow> None | Some i \<Rightarrow> Some (i, the (inventories nw i)))"
    and "inventory_hash nw h = Some i \<Longrightarrow> \<exists>iv. inventories nw i = Some iv \<and> inv_hash iv = h"
  using assms by (auto simp: inv_ok_def inv_core_def finds_all_def hash_get_def split: option.split) (metis option.distinct(1) option.sel)+

lemma request_inventory_ok:
  assumes "links_ok nw" "inv_ok nw" "get_peer p nw \<noteq> None" "inventory_hash nw h = None"
  shows "inv_ok (request_inventory env p h nw)"
proof -
  obtain peer where p: "get_peer p nw = Some peer" using assms(3) by auto
  let ?i = "next_ptr nw" and ?iv = "\<lparr>inv_hash = h, inv_state = NTB_NETWORK_INV_STATE_STUB (monotonic_clock env)\<rparr>"
  let ?nw = "(change_peer p (\<lambda>peer. peer\<lparr>requested_inventories := ?i # requested_inventories peer\<rparr>) (put_inventory ?i ?iv (nw\<lparr>next_ptr := ?i + 1\<rparr>)))
      \<lparr>inventory_hash := (inventory_hash nw)(h \<mapsto> ?i)\<rparr>"
  have "stubs ?nw = stubs (change_peer p (\<lambda>peer. peer\<lparr>requested_inventories := ?i # requested_inventories peer\<rparr>) nw)"
    by (rule stubs_frame) (simp add: change_peer_def put_inventory_def)
  then have "stubs ?nw = {#?i#} + stubs nw" using stubs_change_peer [OF assms(1) p] stubs_peer [OF assms(1) p] by simp
  then have "inv_ok ?nw" using core_new [of _ _ _ _ _ ?i ?iv] assms(2,4)
    by (fastforce simp: inv_ok_def of_kind_def kind_defs change_peer_def put_inventory_def)
  moreover have "request_inventory env p h nw = call_peer p [ADD_GETDATA_HASH h] ?nw"
    by (simp add: request_inventory_def Let_def change_peer_def put_inventory_def)
  ultimately show ?thesis using keeps_inv_ok [OF keeps_inv_simps(4)] by simp
qed

text \<open>The two invariants together, and steps that keep them.\<close>

definition nw_ok :: "ntb_network \<Rightarrow> bool" where
  "nw_ok nw \<longleftrightarrow> links_ok nw \<and> inv_ok nw"

lemma keeps_nw_ok: "keeps_links nw nw' \<Longrightarrow> keeps_inv nw nw' \<Longrightarrow> nw_ok nw \<Longrightarrow> nw_ok nw'"
  using keeps_links_ok keeps_inv_ok by (auto simp: nw_ok_def)

lemma inv_loop_ok:
  assumes "nw_ok nw" "get_peer p nw \<noteq> None" "32 * n \<le> length mem"
  shows "\<exists>nw'. inv_loop env p n mem nw = Ok nw' \<and> nw_ok nw' \<and> keeps_links nw nw'"
  using assms
proof (induction n arbitrary: mem nw)
  case (Suc n)
  let ?h = "take 32 mem"
  let ?nw = "if inventory_hash nw ?h = None then request_inventory env p ?h nw else nw"
  have r: "read_bytes 32 mem = Ok ?h" using Suc.prems(3) by (simp add: read_bytes_def)
  have k: "keeps_links nw ?nw" by simp
  have "nw_ok ?nw" using request_inventory_ok [of nw p ?h env] Suc.prems(1,2) keeps_links_ok [OF k] by (auto simp: nw_ok_def)
  moreover have l: "32 * n \<le> length (drop 32 mem)" using Suc.prems(3) by simp
  ultimately obtain nw' where l: "inv_loop env p n (drop 32 mem) ?nw = Ok nw'" "nw_ok nw'" "keeps_links ?nw nw'"
    using Suc.IH [of ?nw "drop 32 mem"] Suc.prems(2) keeps_get_peer [OF k, of p] l by blast
  have "hash_get ?h nw = Ok (case inventory_hash nw ?h of None \<Rightarrow> None | Some i \<Rightarrow> Some (i, the (inventories nw i)))"
    using hash_get_ok(1) Suc.prems(1) by (simp add: nw_ok_def)
  then show ?case using r l(1,2) keeps_links_trans [OF k l(3)] by (auto split: option.splits)
qed simp

lemma handle_inv_ok:
  assumes "nw_ok nw" "get_peer p nw \<noteq> None" "32 * unat n \<le> length mem"
  shows "\<exists>nw'. handle_inv env p (EVENT_INV n mem) nw = Ok (nw', True) \<and> nw_ok nw' \<and> keeps_links nw nw'"
proof -
  let ?nw = "call_peer p [BEGIN_GETDATA] nw"
  have "nw_ok ?nw" by (rule keeps_nw_ok [OF _ _ assms(1)]) simp_all
  then obtain nw1 where l: "inv_loop env p (unat n) mem ?nw = Ok nw1" "nw_ok nw1" "keeps_links ?nw nw1"
    using inv_loop_ok [of ?nw p "unat n" mem env] assms(2,3) keeps_get_peer [OF keeps_links_simps(4)] by blast
  have "nw_ok (call_peer p [END_GETDATA] nw1)" by (rule keeps_nw_ok [OF _ _ l(2)]) simp_all
  moreover have "keeps_links nw (call_peer p [END_GETDATA] nw1)" using l(3) keeps_links_simps(4) keeps_links_trans by blast
  ultimately show ?thesis using l(1) by (simp add: handle_inv_def)
qed

section \<open>Objects\<close>

lemma diff_single_parts: "count (a + s) i \<le> 1 \<Longrightarrow> (a - {#i#}) + (s - {#i#}) = a + s - {#i#}"
  by (rule multiset_eqI) auto

lemma stubs_unlink:
  assumes "count (stubs nw) i \<le> 1"
  shows "stubs (unlink_stub i nw) = stubs nw - {#i#}"
proof -
  let ?s = "\<lambda>ps. \<Sum>\<^sub># (image_mset (\<lambda>q. mset (requested_inventories q)) (mset ps))"
  have "?s (map (\<lambda>q. q\<lparr>requested_inventories := remove1 i (requested_inventories q)\<rparr>) ps) = ?s ps - {#i#}"
    if "count (?s ps) i \<le> 1" for ps :: "ntb_network_peer list"
    using that
  proof (induction ps)
    case (Cons q ps)
    then show ?case using diff_single_parts [of "mset (requested_inventories q)" "?s ps" i] by simp
  qed simp
  from this [of "peers nw"] assms show ?thesis by (simp add: stubs_def unlink_stub_def)
qed

text \<open>
  Between claiming an inventory and accepting or rejecting it: the pointer is in the table and belongs to no list.
\<close>

definition claimed :: "nat \<Rightarrow> u8 list \<Rightarrow> ntb_network \<Rightarrow> bool" where
  "claimed i h nw \<longleftrightarrow> i < next_ptr nw \<and> inventory_hash nw h = Some i \<and>
     n_rejected_inventories nw = int (length (rejected_inventories nw)) \<and>
     n_rejected_inventories nw \<le> NTB_NETWORK_MAX_REJECTED_INVENTORIES \<and>
     inv_core (stubs nw) (mset (accepted_inventories nw)) (mset (rejected_inventories nw))
       ((inventories nw)(i := None)) ((inventory_hash nw)(h := None)) (next_ptr nw)"

lemma claim_inventory_ok:
  assumes "nw_ok nw"
  shows "\<exists>res. claim_inventory h nw = Ok res \<and> (\<forall>i nw'. res = Some (i, nw') \<longrightarrow>
    keeps_links nw nw' \<and> claimed i h nw' \<and> n_rejected_inventories nw' = n_rejected_inventories nw)"
proof (cases "inventory_hash nw h")
  case None
  have "inventories nw (next_ptr nw) = None" using assms by (simp add: nw_ok_def inv_ok_def inv_core_def)
  then have "(inventories nw)(next_ptr nw := None) = inventories nw" "(inventory_hash nw)(h := None) = inventory_hash nw" using None by auto
  moreover have "stubs (nw\<lparr>next_ptr := Suc (next_ptr nw), inventory_hash := (inventory_hash nw)(h \<mapsto> next_ptr nw)\<rparr>) = stubs nw"
    by (simp add: stubs_def)
  ultimately show ?thesis using None assms hash_get_ok(1) [of nw h] core_mono [of _ _ _ _ _ "next_ptr nw" "Suc (next_ptr nw)"]
    by (simp add: claim_inventory_def nw_ok_def Let_def keeps_links_def claimed_def inv_ok_def)
next
  case (Some i)
  have io: "inv_ok nw" using assms by (simp add: nw_ok_def)
  obtain iv where iv: "inventories nw i = Some iv" "inv_hash iv = h" using hash_get_ok(2) [OF io Some] by auto
  have g: "hash_get h nw = Ok (Some (i, iv))" using hash_get_ok(1) [OF io, of h] Some iv by simp
  show ?thesis
  proof (cases "inv_state iv")
    case (NTB_NETWORK_INV_STATE_STUB t)
    note core = io [unfolded inv_ok_def, THEN conjunct1]
    have st: "is_stub iv" using NTB_NETWORK_INV_STATE_STUB by (simp add: is_stub_def)
    have "count (stubs nw) i \<le> 1" using core by (simp add: inv_core_def lists_kind_def)
    note su = stubs_unlink [OF this]
    have "mset (accepted_inventories nw) - {#i#} = mset (accepted_inventories nw)" "mset (rejected_inventories nw) - {#i#} = mset (rejected_inventories nw)"
      using core_others(2,3) [OF core iv(1)] st kinds by blast+
    moreover have "i < next_ptr nw" using core iv(1) unfolding inv_core_def by (metis leI option.distinct(1))
    ultimately have "claimed i h (unlink_stub i nw)" using core_remove(2) [OF core iv(1)] io Some su
      by (simp add: claimed_def unlink_stub_def inv_ok_def iv(2))
    moreover have "n_rejected_inventories (unlink_stub i nw) = n_rejected_inventories nw" by (simp add: unlink_stub_def)
    ultimately show ?thesis by (simp add: claim_inventory_def g NTB_NETWORK_INV_STATE_STUB)
  qed (simp_all add: claim_inventory_def g)
qed

lemma core_claimed:
  assumes "claimed i h nw" "inv_hash iv = h"
  shows "inv_core (of_kind is_stub iv i + stubs nw) (of_kind is_accepted iv i + mset (accepted_inventories nw))
     (of_kind is_rejected iv i + mset (rejected_inventories nw)) ((inventories nw)(i \<mapsto> iv)) (inventory_hash nw) (next_ptr nw)"
proof -
  let ?invs = "(inventories nw)(i := None)" and ?hash = "(inventory_hash nw)(h := None)"
  note c = assms(1) [unfolded claimed_def inv_core_def]
  have "m - {#i#} = m" if "lists_kind m kind ?invs" for m kind using lists_kind_mem [OF that, of i] by (simp add: diff_single_trivial)
  then have "lists_kind (of_kind kind iv i + m) kind ((inventories nw)(i \<mapsto> iv))" if "lists_kind m kind ?invs" for m kind
    using lists_kind_update(1) [OF that, of iv i] that by (simp add: of_kind_def)
  moreover have "finds_all (inventory_hash nw) ((inventories nw)(i \<mapsto> iv))"
    using c assms(2) unfolding finds_all_def fun_upd_def by (auto split: if_splits) (metis option.distinct(1) option.inject)+
  moreover have "\<forall>k \<ge> next_ptr nw. ((inventories nw)(i \<mapsto> iv)) k = None" using c by auto
  ultimately show ?thesis using c unfolding inv_core_def by blast
qed

lemma put_claimed:
  assumes "claimed i h nw" "inv_hash iv = h" "is_accepted iv"
    and "inventories nw' = (inventories nw)(i \<mapsto> iv)" "accepted_inventories nw' = i # accepted_inventories nw"
    and "rejected_inventories nw' = rejected_inventories nw" "n_rejected_inventories nw' = n_rejected_inventories nw"
    and "inventory_hash nw' = inventory_hash nw" "stubs nw' = stubs nw" "next_ptr nw \<le> next_ptr nw'"
  shows "inv_ok nw'"
  using core_mono [OF core_claimed [OF assms(1,2)] assms(10)] assms kinds [of iv]
  by (simp add: inv_ok_def of_kind_def claimed_def)

lemma accept_inventory_ok:
  assumes "links_ok nw" "claimed i h nw"
  shows "nw_ok (accept_inventory env type payload h ts delay i nw)" (is "nw_ok ?nw")
proof -
  have "keeps_links nw ?nw"
    by (simp add: accept_inventory_def Let_def put_inventory_def broadcast_delayed_inv_def broadcast_inv_def broadcast_calls_def
        keeps_links_def peer_keys_def addr_keys_def)
  moreover have "inv_ok ?nw"
  proof (rule put_claimed [OF assms(2)])
    let ?b = "if age_of (wall_clock env) ts \<ge> NTB_NETWORK_INV_CACHE_AGE then None else Some (type, payload)"
    let ?iv = "\<lparr>inv_hash = h, inv_state = NTB_NETWORK_INV_STATE_ACCEPTED type ts ?b\<rparr>"
    show "is_accepted ?iv" by (simp add: is_accepted_def)
    show "inventories ?nw = (inventories nw)(i \<mapsto> ?iv)"
      by (simp add: accept_inventory_def Let_def put_inventory_def broadcast_delayed_inv_def broadcast_inv_def broadcast_calls_def)
    show "stubs ?nw = stubs nw"
      by (rule stubs_cong) (simp add: accept_inventory_def Let_def put_inventory_def broadcast_delayed_inv_def broadcast_inv_def broadcast_calls_def)
  qed (simp_all add: accept_inventory_def Let_def put_inventory_def broadcast_delayed_inv_def broadcast_inv_def broadcast_calls_def)
  ultimately show ?thesis using keeps_links_ok [OF _ assms(1)] by (simp add: nw_ok_def)
qed

lemma reject_inventory_ok:
  assumes "links_ok nw" "claimed i h nw" "inv_hash iv = h" "n_rejected_inventories nw < NTB_NETWORK_MAX_REJECTED_INVENTORIES"
  shows "\<exists>nw'. reject_inventory i iv ts nw = Ok nw' \<and> nw_ok nw' \<and> keeps_links nw nw'"
proof -
  let ?iv = "iv\<lparr>inv_state := NTB_NETWORK_INV_STATE_REJECTED ts\<rparr>"
  let ?nw = "nw\<lparr>inventories := (inventories nw)(i \<mapsto> ?iv), n_rejected_inventories := n_rejected_inventories nw + 1,
     rejected_inventories := i # rejected_inventories nw\<rparr>"
  have "stubs ?nw = stubs nw" by (simp add: stubs_def)
  then have "inv_ok ?nw" using core_claimed [OF assms(2), of ?iv] assms(2-4) by (simp add: inv_ok_def of_kind_def kind_defs claimed_def)
  moreover have "keeps_links nw ?nw" by (simp add: keeps_links_def)
  moreover have "reject_inventory i iv ts nw = Ok ?nw" using assms(4) by (simp add: reject_inventory_def put_inventory_def Let_def)
  ultimately show ?thesis using keeps_links_ok [OF _ assms(1)] by (simp add: nw_ok_def)
qed

text \<open>
  The header of an object is read within its length. The guard on the number of rejected inventories is needed:
  beyond it \<open>reject_inventory\<close> leaves an entry for freed memory in the table.
\<close>

lemma object_header:
  assumes "unat len \<le> length data"
  shows "ntb_proto_get_command data len [NTB_PROTO_ARGUMENT_64, NTB_PROTO_ARGUMENT_TIMESTAMP] = Fail \<or>
    (\<exists>n ts k. ntb_proto_get_command data len [NTB_PROTO_ARGUMENT_64, NTB_PROTO_ARGUMENT_TIMESTAMP] = Ok ([V64 n, VTimestamp ts], k) \<and> 12 \<le> unat len)"
proof -
  have s: "unat (len - 8) = unat len - 8" if "8 \<le> unat len" using that by (simp add: unat_sub word_le_nat_alt)
  have s': "unat (len - 8 - 4) = unat len - 12" if "12 \<le> unat len"
    using that s by (subst unat_sub) (simp_all add: word_le_nat_alt)
  let ?p = "drop 8 data" and ?l = "len - 8"
  have t: "ntb_proto_get_timestamp (?p, ?l) = Fail \<or> (\<exists>ts c. ntb_proto_get_timestamp (?p, ?l) = Ok (ts, c) \<and> 12 \<le> unat len)"
    if "8 \<le> unat len"
  proof (cases "unat ?l < 4")
    case False
    then have l: "12 \<le> unat len" using that s by simp
    then have "4 \<le> length ?p" using assms by simp
    then obtain v where v: "ntb_proto_get_32 ?p = Ok v" by (auto simp: ntb_proto_get_32_def get_be_eq)
    have "ntb_proto_get_32 (drop 4 ?p) \<noteq> Fault \<and> ntb_proto_get_32 (drop 4 ?p) \<noteq> Fail" if "\<not> unat (?l - 4) < 4"
      using that l s' assms  by (auto simp: ntb_proto_get_32_def get_be_eq)
    then show ?thesis using v l by (cases "ntb_proto_get_32 (drop 4 ?p)") (auto simp: ntb_proto_get_timestamp_def)
  qed (simp add: ntb_proto_get_timestamp_def)
  show ?thesis
  proof (cases "8 \<le> unat len")
    case True
    then obtain v where "ntb_proto_get_64 data = Ok v" using assms by (auto simp: ntb_proto_get_64_def get_be_eq)
    then have "get_argument NTB_PROTO_ARGUMENT_64 (data, len) = Ok (V64 v, ?p, ?l)" using True by (simp add: get_fixed_def)
    moreover have "get_argument NTB_PROTO_ARGUMENT_TIMESTAMP c = map_fst VTimestamp (ntb_proto_get_timestamp c)" for c by simp
    ultimately show ?thesis using t [OF True] by (auto simp add: ntb_proto_get_command_def map_fst_def simp del: get_argument.simps)
  qed (simp add: ntb_proto_get_command_def get_fixed_def)
qed

lemma should_reject_ok:
  assumes "8 \<le> length payload" "length payload < 2 ^ 32"
  shows "\<exists>b. should_reject env type payload age = Ok b"
proof -
  have "(word_of_nat (length payload) + 14000) * 320 \<noteq> (0 :: u64)"
  proof -
    have "unat ((word_of_nat (length payload) + 14000) * 320 :: u64) = (length payload + 14000) * 320"
      using assms(2) by (simp add: unat_word_ariths unat_of_nat)
    then show ?thesis by (metis add_is_0 mult_is_0 unat_0 zero_neq_numeral)
  qed
  then show ?thesis using assms(1)
    by (auto simp: should_reject_def ntb_pow_check_def calculate_target_def Ntb_Key.NTB_PROTO_MIN_EXTRA_BYTES_def
        Ntb_Key.NTB_PROTO_MIN_NONCE_TRIALS_PER_BYTE_def Let_def)
qed

lemma add_object_ok:
  assumes "nw_ok nw" "skip \<or> n_rejected_inventories nw < NTB_NETWORK_MAX_REJECTED_INVENTORIES" "len \<le> length data" "len < 2 ^ 32"
  shows "\<exists>nw'. add_object env type data len skip delay nw = Ok nw' \<and> nw_ok nw'"
proof -
  have u: "unat (word_of_nat len :: u32) = len" using assms(4) by (simp add: unat_of_nat)
  consider "ntb_proto_get_command data (word_of_nat len) [NTB_PROTO_ARGUMENT_64, NTB_PROTO_ARGUMENT_TIMESTAMP] = Fail"
    | n ts k where "ntb_proto_get_command data (word_of_nat len) [NTB_PROTO_ARGUMENT_64, NTB_PROTO_ARGUMENT_TIMESTAMP] = Ok ([V64 n, VTimestamp ts], k)" "12 \<le> len"
    using object_header [of "word_of_nat len" data] u assms(3) by auto
  then show ?thesis
  proof cases
    case (2 n ts k)
    let ?p = "take len data"
    let ?h = "ntb_proto_double_hash (sha512_fn env) ?p"
    have l: "length ?p = len" using assms(3) by simp
    obtain res where c: "claim_inventory ?h nw = Ok res" "\<And>i nw'. res = Some (i, nw') \<Longrightarrow> keeps_links nw nw' \<and> claimed i ?h nw' \<and> n_rejected_inventories nw' = n_rejected_inventories nw"
      using claim_inventory_ok [OF assms(1)] by blast
    show ?thesis
    proof (cases res)
      case None
      then show ?thesis using assms(1,3) 2 c by (simp add: add_object_def)
    next
      case (Some r)
      obtain i nw1 where r: "r = (i, nw1)" by fastforce
      have cl: "links_ok nw1" "claimed i ?h nw1" using c(2) Some r assms(1) keeps_links_ok by (auto simp: nw_ok_def)
      have "n_rejected_inventories nw1 = n_rejected_inventories nw"
        using c(2) Some r by blast
      then have "\<exists>nw'. reject_inventory i \<lparr>inv_hash = ?h, inv_state = NTB_NETWORK_INV_STATE_REJECTED ts\<rparr> ts nw1 = Ok nw' \<and> nw_ok nw'" if "\<not> skip"
        using reject_inventory_ok [OF cl, of "\<lparr>inv_hash = ?h, inv_state = NTB_NETWORK_INV_STATE_REJECTED ts\<rparr>" ts] assms(2) that by auto
      moreover obtain b where "should_reject env type ?p (age_of (wall_clock env) ts) = Ok b"
        using should_reject_ok [of ?p env type, unfolded l] 2(2) assms(4) by auto
      ultimately show ?thesis using assms(3) 2 c(1) Some r accept_inventory_ok [OF cl]
        by (auto simp: add_object_def Let_def)
    qed
  qed (simp add: add_object_def assms(1))
qed

section \<open>Other handlers\<close>

lemma offered_hashes_ok:
  assumes "inv_core r (mset is + a) j (inventories nw) hash n"
  shows "\<exists>hs. offered_hashes env is nw = Ok hs"
proof -
  have "\<forall>i \<in> set is. \<exists>iv. inventories nw i = Some iv \<and> is_accepted iv" using core_kind(2) [OF assms] by (metis UnCI set_mset_mset set_mset_union)
  then show ?thesis
  proof (induction "is")
    case (Cons i "is")
    then obtain iv hs where "inventories nw i = Some iv" "is_accepted iv" "offered_hashes env is nw = Ok hs" by auto
    then show ?case by (auto simp: is_accepted_def split: ntb_network_inv_state.splits)
  qed simp
qed

lemma connection_established_ok:
  assumes "nw_ok nw"
  shows "\<exists>nw'. connection_established env p nw = Ok nw' \<and> nw_ok nw'"
proof -
  let ?nw = "send_addresses env p (set_peer_state p NTB_NETWORK_PEER_STATE_CONNECTED nw)"
  have "keeps_links nw ?nw" "keeps_inv nw ?nw" using keeps_links_trans keeps_inv_trans keeps_links_simps keeps_inv_simps by metis+
  then have ok: "nw_ok ?nw" by (rule keeps_nw_ok [OF _ _ assms])
  then obtain hs where "offered_hashes env (accepted_inventories ?nw) ?nw = Ok hs"
    using offered_hashes_ok [of _ "accepted_inventories ?nw" "{#}"] by (fastforce simp: nw_ok_def inv_ok_def)
  moreover have "nw_ok (call_peer p cs ?nw)" for cs by (rule keeps_nw_ok [OF _ _ ok]) simp_all
  ultimately show ?thesis by (simp add: connection_established_def send_inventory_def)
qed

lemma add_addr_keeps_inv: "keeps_inv nw (fst (add_addr env ts strm services address nw))"
proof (cases rule: add_addr_cases [of env ts strm services address nw])
  case (refreshed addr t)
  show ?thesis unfolding refreshed(3)
    by (rule keeps_inv_trans [OF keeps_inv_simps(15) keeps_inv_trans [OF keeps_inv_simps(6) keeps_inv_simps(9)]])
next
  case (added f)
  show ?thesis unfolding added(3)
    by (rule keeps_inv_trans [OF keeps_inv_simps(16) keeps_inv_trans [OF keeps_inv_simps(6) keeps_inv_trans [OF keeps_inv_simps(9) keeps_inv_simps(1)]]])
qed simp

lemma add_addr_nw_ok: "nw_ok nw \<Longrightarrow> nw_ok (fst (add_addr env ts strm services address nw))"
  using add_addr_links keeps_inv_ok [OF add_addr_keeps_inv] by (auto simp: nw_ok_def)

lemma add_addr_peers: "map peer_ptr (peers (fst (add_addr env ts strm services address nw))) = map peer_ptr (peers nw)"
  by (cases rule: add_addr_cases [of env ts strm services address nw])
    (simp_all add: broadcast_addr_def broadcast_calls_def queue_save_addr_list_def change_addr_def new_addr_def Let_def)

lemma get_peer_ptrs: "get_peer p nw \<noteq> None \<longleftrightarrow> p \<in> set (map peer_ptr (peers nw))"
  by (auto simp add: get_peer_def find_key_None simp del: not_None_eq)

lemma connect_peer_addr_ok:
  assumes "nw_ok nw" "get_peer p nw \<noteq> None" "\<And>a. addr = Some a \<Longrightarrow> \<exists>ad \<in> set (addrs nw). na_ptr ad = a"
  shows "\<exists>nw'. connect_peer_addr p addr nw = Ok nw' \<and> nw_ok nw' \<and> map peer_ptr (peers nw') = map peer_ptr (peers nw)"
proof -
  have l: "links_ok nw" using assms(1) by (simp add: nw_ok_def)
  have "get_addr a nw \<noteq> None" if "addr = Some a" for a using get_addr_iff [OF l] assms(3) [OF that] by fastforce
  then obtain nw' where n: "connect_peer_addr p addr nw = Ok nw'" "links_ok nw'"
    using connect_peer_addr_links [OF l assms(2), of addr] by blast
  have k: "keeps_inv nw (change_addr a f (change_peer p (\<lambda>peer. peer\<lparr>peer_addr := Some a\<rparr>) (nw\<lparr>n_unconnected_addrs := c\<rparr>)))" for a f c
    unfolding keeps_inv_def change_addr_def change_peer_def by (auto intro: stubs_cong)
  have "keeps_inv nw nw'" "map peer_ptr (peers nw') = map peer_ptr (peers nw)"
    using n(1) k by (auto simp: connect_peer_addr_def change_addr_def change_peer_def split: option.splits if_splits)
  then show ?thesis using n assms(1) keeps_inv_ok by (auto simp: nw_ok_def)
qed

lemma add_peer_keeps_inv:
  assumes "add_peer remote nw = (nw1, p)" "\<And>q. requested_inventories (f q) = requested_inventories q"
  shows "keeps_inv nw (change_peer p f nw1)"
proof -
  have "keeps_inv nw nw1" using assms(1) by (auto simp: keeps_inv_def add_peer_def Let_def update_all_listen_socket_sources_def stubs_def)
  then show ?thesis using keeps_inv_change_peer [of f nw1 p] assms(2) keeps_inv_trans by blast
qed

lemma getdata_loop_ok:
  assumes "nw_ok nw" "32 * n \<le> length mem"
    and "\<And>k i iv. k < n \<Longrightarrow> inventory_hash nw (take 32 (drop (32 * k) mem)) = Some i \<Longrightarrow> inventories nw i = Some iv \<Longrightarrow> \<not> is_stub iv"
  shows "\<exists>nw'. getdata_loop p n mem nw = Ok nw' \<and> nw_ok nw' \<and> keeps_links nw nw'"
  using assms
proof (induction n arbitrary: mem nw)
  case (Suc n)
  let ?h = "take 32 mem"
  have io: "inv_ok nw" using Suc.prems(1) by (simp add: nw_ok_def)
  define step where "step = (case inventory_hash nw ?h of None \<Rightarrow> nw | Some i \<Rightarrow>
     (case inventories nw i of None \<Rightarrow> nw | Some iv \<Rightarrow> (case inv_state iv of NTB_NETWORK_INV_STATE_ACCEPTED _ _ blob \<Rightarrow> call_peer p [SEND_BLOB (inv_hash iv) blob] nw | _ \<Rightarrow> nw)))"
  have k: "keeps_links nw step" "keeps_inv nw step"
    by (auto simp: step_def split: option.split ntb_network_inv_state.split)
  have e: "getdata_loop p (Suc n) mem nw = getdata_loop p n (drop 32 mem) step"
  proof -
    have r: "read_bytes 32 mem = Ok ?h" using Suc.prems(2) by (simp add: read_bytes_def)
    show ?thesis
    proof (cases "inventory_hash nw ?h")
      case None
      then show ?thesis unfolding getdata_loop.simps r bind_outcome.simps using hash_get_ok(1) [OF io, of ?h] by (simp add: step_def)
    next
      case (Some i)
      then obtain iv where iv: "inventories nw i = Some iv" using hash_get_ok(2) [OF io Some] by auto
      then have "\<not> is_stub iv" using Suc.prems(3) [of 0 i iv] Some by simp
      then show ?thesis unfolding getdata_loop.simps r bind_outcome.simps using hash_get_ok(1) [OF io, of ?h] Some iv
        by (cases "inv_state iv") (simp_all add: step_def is_stub_def)
    qed
  qed
  have "inventory_hash step = inventory_hash nw" "inventories step = inventories nw" using k(2) by (simp_all add: keeps_inv_def)
  then have "\<exists>nw'. getdata_loop p n (drop 32 mem) step = Ok nw' \<and> nw_ok nw' \<and> keeps_links step nw'"
    using Suc.prems(2) Suc.prems(3) [of "Suc _"] by (intro Suc.IH [OF keeps_nw_ok [OF k Suc.prems(1)]]) (auto simp: add.commute)
  then show ?case using e k(1) keeps_links_trans by auto
qed simp

end
