(* ===== verification/Ntb_Network_Safety.thy ===== *)
theory Ntb_Network_Safety
  imports Ntb_Network_Inventory
begin

text \<open>
  All handlers of the network component keep its invariants and never run into undefined behaviour, under the
  conditions that each of them needs; at the end everything is freed and the assertions of the code hold.
\<close>

section \<open>Garbage collection\<close>

lemma stale_stubs_ok:
  assumes "\<forall>i \<in> set is. \<exists>iv. inventories nw i = Some iv \<and> is_stub iv"
  shows "\<exists>P. stale_stubs env is nw = Ok (filter P is)"
proof -
  let ?P = "\<lambda>i. case inventories nw i of Some iv \<Rightarrow> (case inv_state iv of
      NTB_NETWORK_INV_STATE_STUB t \<Rightarrow> unat (monotonic_clock env - t) \<ge> NTB_NETWORK_MAX_STUB_INVENTORY_AGE * 1000000 | _ \<Rightarrow> False) | None \<Rightarrow> False"
  have "stale_stubs env is nw = Ok (filter ?P is)" using assms
  proof (induction "is")
    case (Cons i "is")
    then obtain iv where iv: "inventories nw i = Some iv" "is_stub iv" by auto
    then obtain t where "inv_state iv = NTB_NETWORK_INV_STATE_STUB t" by (auto simp: is_stub_def split: ntb_network_inv_state.splits)
    moreover have "stale_stubs env is nw = Ok (filter ?P is)" using Cons by simp
    ultimately show ?case using iv(1) by simp
  qed simp
  then show ?thesis by blast
qed

lemma get_peer_change:
  assumes "q \<noteq> p" "\<And>x. peer_ptr (f x) = peer_ptr x"
  shows "get_peer q (change_peer p f nw) = get_peer q nw"
proof -
  have "find (\<lambda>x. peer_ptr x = q) (map (\<lambda>x. if peer_ptr x = p then f x else x) xs) = find (\<lambda>x. peer_ptr x = q) xs" for xs
    using assms by (induction xs) auto
  then show ?thesis by (simp add: get_peer_def change_peer_def)
qed

lemma gc_requested_ok:
  assumes "nw_ok nw" "get_peer p nw = Some peer" "peer_ptr snapshot = p" "requested_inventories snapshot = requested_inventories peer"
  shows "\<exists>nw'. gc_requested_inventories env snapshot nw = Ok nw' \<and> nw_ok nw' \<and> keeps_links nw nw' \<and> addrs nw' = addrs nw \<and>
    accepted_inventories nw' = accepted_inventories nw \<and> rejected_inventories nw' = rejected_inventories nw \<and>
    (\<forall>q. q \<noteq> p \<longrightarrow> get_peer q nw' = get_peer q nw)"
proof -
  have l: "links_ok nw" and io: "inv_ok nw" using assms(1) by (simp_all add: nw_ok_def)
  let ?is = "requested_inventories peer"
  let ?rest = "stubs (nw\<lparr>peers := filter (\<lambda>q. peer_ptr q \<noteq> p) (peers nw)\<rparr>)"
  note core = io [unfolded inv_ok_def stubs_peer [OF l assms(2)], THEN conjunct1]
  have "\<forall>i \<in> set ?is. \<exists>iv. inventories nw i = Some iv \<and> is_stub iv"
    using core_kind(1) [OF core] by (metis UnCI set_mset_mset set_mset_union)
  then obtain P where st: "stale_stubs env ?is nw = Ok (filter P ?is)" using stale_stubs_ok by blast
  let ?f = "\<lambda>q. q\<lparr>requested_inventories := filter (\<lambda>i. i \<notin> set (filter P ?is)) (requested_inventories q)\<rparr>"
  let ?nw = "change_peer p ?f nw"
  have "filter (\<lambda>i. i \<notin> set (filter P ?is)) ?is = filter (\<lambda>i. \<not> P i) ?is" by (rule filter_cong) auto
  then have su: "stubs ?nw = mset (filter (\<lambda>i. \<not> P i) ?is) + ?rest" using stubs_change_peer [OF l assms(2), of ?f] by simp
  have part: "mset (filter P ?is) + (mset (filter (\<lambda>i. \<not> P i) ?is) + ?rest) = mset ?is + ?rest"
    using multiset_partition [of "mset ?is" P] by (simp add: add.assoc)
  have "inv_core (mset (filter P ?is) + stubs ?nw) (mset (accepted_inventories nw)) (mset (rejected_inventories nw))
      (inventories ?nw) (inventory_hash ?nw) (next_ptr nw)"
    unfolding su part using core by (simp add: change_peer_def)
  then obtain nw' where d: "drop_inventories (filter P ?is) ?nw = Ok nw'"
    "inv_core (stubs ?nw) (mset (accepted_inventories nw)) (mset (rejected_inventories nw)) (inventories nw') (inventory_hash nw') (next_ptr nw)"
    using drop_inventories_core by blast
  note f = drop_inventories_fields [OF d(1)]
  have k: "keeps_links nw ?nw" unfolding keeps_links_def change_peer_def using peer_keys_map [of "\<lambda>q. if peer_ptr q = p then ?f q else q" nw] by simp
  then have kl: "keeps_links nw nw'" using f(3) keeps_links_trans by blast
  have "stubs nw' = stubs ?nw" by (rule stubs_frame) (rule f(1))
  then have "inv_ok nw'" using d(2) io f by (simp add: inv_ok_def change_peer_def)
  moreover have "get_peer q nw' = get_peer q nw" if "q \<noteq> p" for q
    using get_peer_change [OF that, of ?f nw] f(1) by (simp add: get_peer_def)
  moreover have "gc_requested_inventories env snapshot nw = Ok nw'"
    using st d(1) assms(3,4) by (simp add: gc_requested_inventories_def)
  ultimately show ?thesis using kl keeps_links_ok [OF kl l] f by (simp add: nw_ok_def change_peer_def)
qed

lemma gc_peers_ok:
  assumes "nw_ok nw" "distinct (map peer_ptr ps)"
    and "\<And>peer. peer \<in> set ps \<Longrightarrow> \<exists>now. get_peer (peer_ptr peer) nw = Some now \<and> requested_inventories now = requested_inventories peer"
  shows "\<exists>nw'. gc_peers env ps nw = Ok nw' \<and> nw_ok nw' \<and> keeps_links nw nw'"
  using assms
proof (induction ps arbitrary: nw)
  case (Cons peer ps)
  obtain now where now: "get_peer (peer_ptr peer) nw = Some now" "requested_inventories now = requested_inventories peer"
    using Cons.prems(3) [of peer] by auto
  obtain nw1 where 1: "gc_requested_inventories env peer nw = Ok nw1" "nw_ok nw1" "keeps_links nw nw1"
    "\<And>q. q \<noteq> peer_ptr peer \<Longrightarrow> get_peer q nw1 = get_peer q nw"
    using gc_requested_ok [OF Cons.prems(1) now(1) refl] now(2) by metis
  have "\<exists>now. get_peer (peer_ptr q) nw1 = Some now \<and> requested_inventories now = requested_inventories q" if "q \<in> set ps" for q
  proof -
    have "peer_ptr q \<noteq> peer_ptr peer" using Cons.prems(2) imageI [OF that, of peer_ptr] by (metis distinct.simps(2) list.set_map list.simps(9))
    then show ?thesis using 1(4) Cons.prems(3) [of q] that by simp
  qed
  then obtain nw' where "gc_peers env ps nw1 = Ok nw'" "nw_ok nw'" "keeps_links nw1 nw'" using Cons.IH [OF 1(2)] Cons.prems(2) by auto
  then show ?case using 1 keeps_links_trans by auto
qed simp

lemma gc_inventory_ok:
  assumes "nw_ok nw" "i \<in> set (accepted_inventories nw) \<or> i \<in> set (rejected_inventories nw)"
  shows "\<exists>nw'. gc_inventory env i nw = Ok nw' \<and> nw_ok nw' \<and> keeps_links nw nw' \<and>
    mset (accepted_inventories nw) - {#i#} \<subseteq># mset (accepted_inventories nw') \<and>
    mset (rejected_inventories nw) - {#i#} \<subseteq># mset (rejected_inventories nw')"
proof -
  have l: "links_ok nw" and io: "inv_ok nw" using assms(1) by (simp_all add: nw_ok_def)
  note core = io [unfolded inv_ok_def, THEN conjunct1]
  obtain iv where iv: "inventories nw i = Some iv" using assms(2) core_kind [OF core, of i] by auto
  have "i \<notin># stubs nw" using core_kind [OF core, of i] assms(2) iv kinds [of iv] by auto
  then have s: "stubs nw - {#i#} = stubs nw" by (rule diff_single_trivial)
  note r = core_remove [OF core iv, unfolded s] and o = core_others [OF core iv]
  show ?thesis
  proof (cases "inv_state iv")
    case (NTB_NETWORK_INV_STATE_STUB t)
    then have "is_stub iv" by (simp add: is_stub_def)
    then show ?thesis using \<open>i \<notin># stubs nw\<close> core_kind(1) [OF core, of i] iv by simp
  next
    case (NTB_NETWORK_INV_STATE_REJECTED ts)
    then have k: "is_rejected iv" "\<not> is_accepted iv" by (simp_all add: kind_defs)
    then have mem: "i \<in> set (rejected_inventories nw)" using core_kind(3) [OF core, of i] iv by simp
    let ?nw = "free_inventory i (hash_remove i iv (nw\<lparr>n_rejected_inventories := n_rejected_inventories nw - 1,
                          rejected_inventories := remove1 i (rejected_inventories nw)\<rparr>))"
    have "stubs ?nw = stubs nw" by (rule stubs_frame) (simp add: free_inventory_def hash_remove_def)
    moreover have "n_rejected_inventories nw - 1 = int (length (remove1 i (rejected_inventories nw)))"
      using length_pos_if_in_set [OF mem] io mem by (simp only: inv_ok_def length_remove1 if_True)
    moreover have "n_rejected_inventories nw - 1 \<le> NTB_NETWORK_MAX_REJECTED_INVENTORIES" using io by (simp add: inv_ok_def)
    ultimately have "inv_ok ?nw" using r o(2) k(2)
      unfolding inv_ok_def free_inventory_def hash_remove_def by simp
    moreover have kl: "keeps_links nw ?nw" by (simp add: keeps_links_def free_inventory_def hash_remove_def)
    moreover have "gc_inventory env i nw = Ok (if expired env NTB_PROTO_INV_TYPE_MSG ts then ?nw else nw)"
      by (simp add: gc_inventory_def iv NTB_NETWORK_INV_STATE_REJECTED)
    moreover have "accepted_inventories ?nw = accepted_inventories nw" "mset (rejected_inventories ?nw) = mset (rejected_inventories nw) - {#i#}"
      by (simp_all add: free_inventory_def hash_remove_def)
    ultimately show ?thesis using assms(1) keeps_links_ok [OF kl l]
      by (cases "expired env NTB_PROTO_INV_TYPE_MSG ts") (simp_all add: nw_ok_def diff_subset_eq_self)
  next
    case (NTB_NETWORK_INV_STATE_ACCEPTED type ts blob)
    then have k: "is_accepted iv" "\<not> is_rejected iv" by (simp_all add: kind_defs)
    let ?nw = "free_inventory i (hash_remove i iv (nw\<lparr>store_calls := store_calls nw @ [DELETE_OBJECT (inv_hash iv)],
                          accepted_inventories := remove1 i (accepted_inventories nw)\<rparr>))"
    let ?nw2 = "put_inventory i (iv\<lparr>inv_state := NTB_NETWORK_INV_STATE_ACCEPTED type ts None\<rparr>) nw"
    have "stubs ?nw = stubs nw" by (rule stubs_frame) (simp add: free_inventory_def hash_remove_def)
    then have 1: "inv_ok ?nw" using r o(3) k(2) io by (simp add: inv_ok_def free_inventory_def hash_remove_def)
    have "mset (accepted_inventories nw) = {#i#} + (mset (accepted_inventories nw) - {#i#})"
      using core_kind(2) [OF core, of i] iv k(1) by simp
    moreover have "stubs ?nw2 = stubs nw" by (rule stubs_frame) (simp add: put_inventory_def)
    ultimately have 2: "inv_ok ?nw2"
      using core_change [OF core iv, of "iv\<lparr>inv_state := NTB_NETWORK_INV_STATE_ACCEPTED type ts None\<rparr>"] s o(3) k(2) io
      by (simp add: inv_ok_def put_inventory_def of_kind_def kind_defs)
    have kl: "keeps_links nw ?nw" "keeps_links nw ?nw2" by (simp_all add: keeps_links_def free_inventory_def hash_remove_def put_inventory_def)
    have f: "rejected_inventories ?nw = rejected_inventories nw" "mset (accepted_inventories ?nw) = mset (accepted_inventories nw) - {#i#}"
      "rejected_inventories ?nw2 = rejected_inventories nw" "accepted_inventories ?nw2 = accepted_inventories nw"
      by (simp_all add: free_inventory_def hash_remove_def put_inventory_def)
    have e: "gc_inventory env i nw = Ok (if expired env type ts then ?nw else if age_of (wall_clock env) ts \<ge> NTB_NETWORK_INV_CACHE_AGE then ?nw2 else nw)"
      by (simp add: gc_inventory_def iv NTB_NETWORK_INV_STATE_ACCEPTED)
    have n: "nw_ok ?nw" "nw_ok ?nw2" using 1 2 keeps_links_ok [OF kl(1) l] keeps_links_ok [OF kl(2) l] by (simp_all add: nw_ok_def)
    show ?thesis
    proof (cases "expired env type ts")
      case True
      then show ?thesis using e n(1) kl(1) f(1,2) by (simp add: diff_subset_eq_self)
    next
      case False
      then show ?thesis using e n(2) kl(2) f(3,4) assms(1)
        by (cases "age_of (wall_clock env) ts \<ge> NTB_NETWORK_INV_CACHE_AGE") (simp_all add: diff_subset_eq_self)
    qed
  qed
qed

lemma gc_inventories_ok:
  assumes "nw_ok nw" "mset is \<subseteq># mset (accepted_inventories nw) \<or> mset is \<subseteq># mset (rejected_inventories nw)"
  shows "\<exists>nw'. gc_inventories env is nw = Ok nw' \<and> nw_ok nw' \<and> keeps_links nw nw'"
  using assms
proof (induction "is" arbitrary: nw)
  case (Cons i "is")
  have "i \<in> set (accepted_inventories nw) \<or> i \<in> set (rejected_inventories nw)"
    using Cons.prems(2) by (auto dest!: mset_subset_eq_insertD)
  from gc_inventory_ok [OF Cons.prems(1) this] obtain nw1 where 1: "gc_inventory env i nw = Ok nw1" "nw_ok nw1" "keeps_links nw nw1"
    "mset (accepted_inventories nw) - {#i#} \<subseteq># mset (accepted_inventories nw1)"
    "mset (rejected_inventories nw) - {#i#} \<subseteq># mset (rejected_inventories nw1)" by blast
  have "mset is \<subseteq># m - {#i#}" if "mset (i # is) \<subseteq># m" for m
    using that by (simp add: insert_subset_eq_iff)
  then have "mset is \<subseteq># mset (accepted_inventories nw1) \<or> mset is \<subseteq># mset (rejected_inventories nw1)"
    using Cons.prems(2) 1(4,5) subset_mset.order_trans by blast
  from Cons.IH [OF 1(2) this] show ?case using 1 keeps_links_trans by auto
qed simp

lemma remove_addrs_keeps_inv: "remove_addrs as nw = Ok nw' \<Longrightarrow> keeps_inv nw nw'"
proof (induction as arbitrary: nw)
  case (Cons addr as)
  have "keeps_inv nw (nw\<lparr>addrs := as1, n_unconnected_addrs := c\<rparr>)" for as1 c by (simp add: keeps_inv_def stubs_def)
  then show ?case using Cons by (auto simp: remove_addr_def split: if_splits intro: keeps_inv_trans)
qed simp

lemma gc_timeout_cb_ok:
  assumes "nw_ok nw"
  shows "\<exists>nw'. gc_timeout_cb env nw = Ok nw' \<and> nw_ok nw'"
proof -
  have l: "links_ok nw" using assms by (simp add: nw_ok_def)
  have "\<exists>now. get_peer (peer_ptr peer) nw = Some now \<and> requested_inventories now = requested_inventories peer" if "peer \<in> set (peers nw)" for peer
    using get_peer_iff [OF l, of "peer_ptr peer" peer] that by simp
  then obtain nw1 where 1: "gc_peers env (peers nw) nw = Ok nw1" "nw_ok nw1"
    using gc_peers_ok [OF assms links_okD(1) [OF l]] by blast
  obtain nw2 where 2: "gc_inventories env (accepted_inventories nw1) nw1 = Ok nw2" "nw_ok nw2" using gc_inventories_ok [OF 1(2)] by blast
  obtain nw3 where 3: "gc_inventories env (rejected_inventories nw2) nw2 = Ok nw3" "nw_ok nw3" using gc_inventories_ok [OF 2(2)] by blast
  obtain nw4 where 4: "gc_addrs env nw3 = Ok nw4" "links_ok nw4" using gc_addrs_links 3(2) by (auto simp: nw_ok_def)
  have "inv_ok nw4" using remove_addrs_keeps_inv [OF 4(1) [unfolded gc_addrs_def]] 3(2) keeps_inv_ok by (simp add: nw_ok_def)
  then show ?thesis using 1 2 3 4 by (simp add: gc_timeout_cb_def nw_ok_def)
qed

section \<open>Loading the store\<close>

lemma store_for_each_blob_ok:
  assumes "nw_ok nw"
  shows "\<exists>nw'. store_for_each_blob objs nw = Ok nw' \<and> nw_ok nw'"
  using assms
proof (induction objs arbitrary: nw)
  case (Cons obj objs)
  obtain type hash ts where o: "obj = (type, hash, ts)" by (cases obj)
  have io: "inv_ok nw" using Cons.prems by (simp add: nw_ok_def)
  show ?case
  proof (cases "inventory_hash nw hash")
    case None
    let ?iv = "\<lparr>inv_hash = hash, inv_state = NTB_NETWORK_INV_STATE_ACCEPTED type ts None\<rparr>"
    let ?nw = "put_inventory (next_ptr nw) ?iv (nw\<lparr>next_ptr := next_ptr nw + 1, inventory_hash := (inventory_hash nw)(hash \<mapsto> next_ptr nw),
        accepted_inventories := next_ptr nw # accepted_inventories nw\<rparr>)"
    have "stubs ?nw = stubs nw" by (rule stubs_frame) (simp add: put_inventory_def)
    then have "inv_ok ?nw" using core_new [OF io [unfolded inv_ok_def, THEN conjunct1], of ?iv] None io
      by (simp add: inv_ok_def put_inventory_def of_kind_def kind_defs)
    moreover have "keeps_links nw ?nw" by (simp add: keeps_links_def put_inventory_def)
    ultimately have "nw_ok ?nw" using Cons.prems keeps_links_ok by (auto simp: nw_ok_def)
    from Cons.IH [OF this] show ?thesis using hash_get_ok(1) [OF io, of hash] None by (simp add: o store_for_each_blob_cb_def Let_def)
  next
    case (Some i)
    then show ?thesis using hash_get_ok(1) [OF io, of hash] Cons by (simp add: o store_for_each_blob_cb_def)
  qed
qed simp

lemma maybe_queue_nw_ok: "nw_ok nw \<Longrightarrow> nw_ok (maybe_queue_connect b nw)"
  by (rule keeps_nw_ok) simp_all

lemma new_addr_nw_ok:
  "nw_ok nw \<Longrightarrow> (\<And>a. na_ptr (f a) = na_ptr a \<and> na_connected (f a) = na_connected a) \<Longrightarrow> nw_ok (fst (new_addr f nw))"
  using new_addr_links keeps_inv_ok [OF keeps_inv_simps(16)] by (auto simp: nw_ok_def)

lemma fold_nw_ok: "(\<And>x nw. nw_ok nw \<Longrightarrow> nw_ok (f x nw)) \<Longrightarrow> nw_ok nw \<Longrightarrow> nw_ok (fold f xs nw)"
  by (induction xs arbitrary: nw) auto

lemma ntb_network_load_store_ok:
  assumes "nw_ok nw"
  shows "\<exists>nw'. ntb_network_load_store env blobs store_addrs dns_addrs nw = Ok nw' \<and> nw_ok nw'"
proof -
  obtain nw1 where 1: "store_for_each_blob blobs nw = Ok nw1" "nw_ok nw1" using store_for_each_blob_ok [OF assms] by blast
  have "nw_ok (fold (store_for_each_addr_cb env) store_addrs nw1)"
    by (rule fold_nw_ok [OF _ 1(2)]) (simp add: store_for_each_addr_cb_def add_addr_nw_ok)
  then have "nw_ok (fold dns_bootstrap_cb dns_addrs (fold (store_for_each_addr_cb env) store_addrs nw1))"
    by (rule fold_nw_ok [rotated]) (simp add: dns_bootstrap_cb_def new_addr_nw_ok)
  then show ?thesis using 1(1) maybe_queue_nw_ok by (simp add: ntb_network_load_store_def)
qed

section \<open>Events\<close>

lemma handle_version_ok:
  assumes "nw_ok nw" "get_peer p nw \<noteq> None" "stream_of_version (ev_stream_numbers event) \<noteq> Fault"
  shows "\<exists>nw' b. handle_version env p event nw = Ok (nw', b) \<and> nw_ok nw'"
proof (cases "ev_nonce event = nw_nonce nw \<or> ev_version event \<noteq> NTB_PROTO_VERSION")
  case True
  obtain nw' where "remove_peer p nw = Ok nw'" "nw_ok nw'" using remove_peer_ok assms(1,2) by (auto simp: nw_ok_def)
  then show ?thesis using True by (auto simp: handle_version_def)
next
  case False
  obtain peer where peer: "get_peer p nw = Some peer" using assms(2) by auto
  obtain strm where strm: "stream_of_version (ev_stream_numbers event) = Ok strm"
    using assms(3) by (auto simp: stream_of_version_def split: if_splits outcome.splits)
  let ?remote = "(peer_remote_address peer)\<lparr>port := port (ev_addr_from event)\<rparr>"
  obtain nw1 addr where a: "add_addr env (ev_timestamp event) (ucast strm) (ev_services event) ?remote nw = (nw1, addr)" by fastforce
  have n1: "nw_ok nw1" "map peer_ptr (peers nw1) = map peer_ptr (peers nw)" "\<And>a. addr = Some a \<Longrightarrow> \<exists>ad \<in> set (addrs nw1). na_ptr ad = a"
    using add_addr_nw_ok [OF assms(1)] add_addr_peers add_addr_result a by (metis fst_conv snd_conv)+
  have "get_peer p nw1 \<noteq> None" using assms(2) n1(2) unfolding get_peer_ptrs by simp
  then obtain nw2 where n2: "connect_peer_addr p addr nw1 = Ok nw2" "nw_ok nw2" using connect_peer_addr_ok [OF n1(1) _ n1(3)] by blast
  let ?nw = "call_peer p [SEND_VERACK] nw2"
  have ok: "nw_ok ?nw" by (rule keeps_nw_ok [OF _ _ n2(2)]) simp_all
  then have "nw_ok (set_peer_state p st (send_version_to_peer p ?nw))" for st
    using keeps_nw_ok [OF keeps_links_simps(7) keeps_inv_simps(7) keeps_nw_ok [OF keeps_links_simps(14) keeps_inv_simps(10)]] by blast
  then show ?thesis using False peer strm a n2(1) ok connection_established_ok [OF ok, of env p]
    by (cases "peer_state peer") (auto simp: handle_version_def Let_def)
qed

lemma handle_verack_ok:
  assumes "nw_ok nw" "get_peer p nw \<noteq> None"
  shows "\<exists>nw' b. handle_verack env p nw = Ok (nw', b) \<and> nw_ok nw'"
proof -
  obtain peer where "get_peer p nw = Some peer" using assms(2) by auto
  moreover have "nw_ok (set_peer_state p st nw)" for st by (rule keeps_nw_ok [OF _ _ assms(1)]) simp_all
  ultimately show ?thesis using connection_established_ok [OF assms(1), of env p] assms(1)
    by (cases "peer_state peer") (auto simp: handle_verack_def)
qed

section \<open>Runs\<close>

text \<open>Everything that can happen to the component: events of connections, callbacks of timers, and calls of its functions.\<close>

datatype network_op =
    CONNECTION_EVENT nat ntb_connection_event
  | LISTEN_SOCKET_READY accept_result int
  | CONNECT_QUEUE bool
  | GC_TIMEOUT
  | SAVE_ADDR_LIST_TIMEOUT
  | DELAYED_BROADCAST nat
  | ADD_BLOB object_blob bool bool
  | ADD_LISTEN_ADDRESS "u8 list" "int option" bool
  | ADD_PEER_ADDRESS "u8 list"
  | LOAD_STORE "(ntb_proto_inv_type \<times> u8 list \<times> int) list" "ntb_store_addr list" "ntb_netaddress list"
  | SET_ONLY_USE_EXPLICIT_ADDRESSES bool

definition forget_result :: "(ntb_network \<times> bool) outcome \<Rightarrow> ntb_network outcome" where
  "forget_result m = bind_outcome m (\<lambda>(nw, b). Ok nw)"

fun nw_step :: "(u8 list \<Rightarrow> u8 list option) \<Rightarrow> (u8 list \<Rightarrow> u8 list option) \<Rightarrow> nw_env \<Rightarrow> network_op \<Rightarrow> ntb_network \<Rightarrow> ntb_network outcome" where
  "nw_step pton6 pton4 env (CONNECTION_EVENT p event) nw = forget_result (connection_event_cb env p event nw)"
| "nw_step pton6 pton4 env (LISTEN_SOCKET_READY res fd) nw = Ok (listen_socket_source_cb res fd nw)"
| "nw_step pton6 pton4 env (CONNECT_QUEUE connect_ok) nw = connect_queue_cb env connect_ok nw"
| "nw_step pton6 pton4 env GC_TIMEOUT nw = gc_timeout_cb env nw"
| "nw_step pton6 pton4 env SAVE_ADDR_LIST_TIMEOUT nw = Ok (save_addr_list_cb env nw)"
| "nw_step pton6 pton4 env (DELAYED_BROADCAST d) nw = broadcast_delayed_inv_cb d nw"
| "nw_step pton6 pton4 env (ADD_BLOB blob skip delay) nw = ntb_network_add_blob env blob skip delay nw"
| "nw_step pton6 pton4 env (ADD_LISTEN_ADDRESS address sock listening) nw =
     forget_result (ntb_network_add_listen_address pton6 pton4 address sock listening nw)"
| "nw_step pton6 pton4 env (ADD_PEER_ADDRESS address) nw = forget_result (ntb_network_add_peer_address pton6 pton4 address nw)"
| "nw_step pton6 pton4 env (LOAD_STORE blobs store_addrs dns_addrs) nw = ntb_network_load_store env blobs store_addrs dns_addrs nw"
| "nw_step pton6 pton4 env (SET_ONLY_USE_EXPLICIT_ADDRESSES b) nw = Ok (ntb_network_set_only_use_explicit_addresses b nw)"

text \<open>
  What an event carries: hashes and objects lie within the memory that the event points to. The other
  conditions are those under which the code is safe: no request for an object that was itself only
  requested, and room for another rejected object.
\<close>

fun event_ok :: "ntb_connection_event \<Rightarrow> ntb_network \<Rightarrow> bool" where
  "event_ok (EVENT_INV n mem) nw \<longleftrightarrow> 32 * unat n \<le> length mem"
| "event_ok (EVENT_GETDATA n mem) nw \<longleftrightarrow> 32 * unat n \<le> length mem \<and>
     (\<forall>k < unat n. \<forall>i iv. inventory_hash nw (take 32 (drop (32 * k) mem)) = Some i \<longrightarrow> inventories nw i = Some iv \<longrightarrow> \<not> is_stub iv)"
| "event_ok (EVENT_OBJECT _ _ _ _ data len) nw \<longleftrightarrow> unat len \<le> length data \<and> n_rejected_inventories nw < NTB_NETWORK_MAX_REJECTED_INVENTORIES"
| "event_ok (EVENT_VERSION _ _ _ _ _ _ _ streams) nw \<longleftrightarrow> stream_of_version streams \<noteq> Fault"
| "event_ok _ nw \<longleftrightarrow> True"

fun op_ok :: "nw_env \<Rightarrow> network_op \<Rightarrow> ntb_network \<Rightarrow> bool" where
  "op_ok env (CONNECTION_EVENT p event) nw \<longleftrightarrow> get_peer p nw \<noteq> None \<and> event_ok event nw"
| "op_ok env (CONNECT_QUEUE connect_ok) nw \<longleftrightarrow> rand_value env < RAND_MAX"
| "op_ok env (DELAYED_BROADCAST d) nw \<longleftrightarrow> d \<in> set (map db_ptr (delayed_broadcasts nw))"
| "op_ok env (ADD_BLOB blob skip delay) nw \<longleftrightarrow> length (snd blob) < 2 ^ 32 \<and> (skip \<or> n_rejected_inventories nw < NTB_NETWORK_MAX_REJECTED_INVENTORIES)"
| "op_ok env (ADD_LISTEN_ADDRESS address sock listening) nw \<longleftrightarrow> address \<noteq> []"
| "op_ok env (ADD_PEER_ADDRESS address) nw \<longleftrightarrow> address \<noteq> []"
| "op_ok env _ nw \<longleftrightarrow> True"

lemma from_string_safe: "s \<noteq> [] \<Longrightarrow> ntb_netaddress_from_string pton6 pton4 s \<noteq> Fault"
  by (cases s) (auto simp: ntb_netaddress_from_string_def Let_def split: option.splits)

lemma connection_event_ok:
  assumes "nw_ok nw" "get_peer p nw \<noteq> None" "event_ok event nw"
  shows "\<exists>nw' b. connection_event_cb env p event nw = Ok (nw', b) \<and> nw_ok nw'"
proof (cases event)
  case (EVENT_OBJECT type n t s data len)
  have "unat len < 2 ^ 32" using unsigned_less [of len, where 'a = nat] by simp
  then have "\<exists>nw'. add_object env type data (unat len) False False nw = Ok nw' \<and> nw_ok nw'"
    using assms(3) EVENT_OBJECT by (intro add_object_ok [OF assms(1)]) auto
  then show ?thesis by (auto simp: EVENT_OBJECT connection_event_cb_def handle_object_def)
next
  case (EVENT_GETDATA n mem)
  have "\<exists>nw'. getdata_loop p (unat n) mem nw = Ok nw' \<and> nw_ok nw' \<and> keeps_links nw nw'"
    by (rule getdata_loop_ok [OF assms(1)]) (use assms(3) EVENT_GETDATA in auto)
  then show ?thesis by (auto simp: EVENT_GETDATA connection_event_cb_def handle_getdata_def)
next
  case (EVENT_INV n mem)
  then show ?thesis using handle_inv_ok [OF assms(1,2), of n mem env] assms(3) by (auto simp: connection_event_cb_def)
next
  case EVENT_VERACK
  then show ?thesis using handle_verack_ok [OF assms(1,2), of env] by (simp add: connection_event_cb_def)
next
  case EVENT_VERSION
  then show ?thesis using handle_version_ok [OF assms(1,2), of event env] assms(3) by (simp add: connection_event_cb_def)
next
  case EVENT_ADDR
  then show ?thesis using add_addr_nw_ok [OF assms(1)] assms(1) by (auto simp: connection_event_cb_def handle_addr_def)
qed (use remove_peer_ok [of nw p] assms(1,2) in \<open>auto simp: connection_event_cb_def nw_ok_def\<close>)

lemma listen_nw_ok: "nw_ok nw \<Longrightarrow> nw_ok (listen_socket_source_cb res fd nw)"
proof -
  assume ok: "nw_ok nw"
  have "keeps_inv nw (listen_socket_source_cb res fd nw)"
  proof (cases res)
    case (ACCEPTED remote)
    obtain nw1 p where a: "add_peer remote nw = (nw1, p)" by fastforce
    have "keeps_inv nw1 (nw1\<lparr>n_incoming_peers := c\<rparr>)" for nw1 c by (simp add: keeps_inv_def stubs_def)
    then show ?thesis using add_peer_keeps_inv [OF a, of "\<lambda>peer. peer\<lparr>peer_state := NTB_NETWORK_PEER_STATE_AWAITING_VERSION_IN, peer_direction := NTB_NETWORK_INCOMING\<rparr>"]
      by (auto simp: listen_socket_source_cb_def ACCEPTED a Let_def intro: keeps_inv_trans)
  qed (simp_all add: listen_socket_source_cb_def)
  then show ?thesis using ok listen_socket_source_cb_links keeps_inv_ok by (auto simp: nw_ok_def)
qed

lemma connect_queue_keeps_inv:
  assumes "connect_queue_cb env connect_ok nw = Ok nw'"
  shows "keeps_inv nw nw'"
proof -
  have k: "keeps_inv nw nw1" if "connect_to_addr env connect_ok addr nw = (nw1, b)" for addr nw1 b
  proof -
    let ?nw = "change_addr (na_ptr addr) (\<lambda>a. a\<lparr>last_connect_time := monotonic_clock env\<rparr>) nw"
    obtain nw2 p where a: "add_peer (na_address addr) ?nw = (nw2, p)" by fastforce
    let ?f = "\<lambda>peer. peer\<lparr>peer_addr := Some (na_ptr addr), peer_direction := NTB_NETWORK_OUTGOING\<rparr>"
    have "keeps_inv ?nw (change_peer p ?f nw2)" by (rule add_peer_keeps_inv [OF a]) simp
    moreover have "keeps_inv nw1 (nw1\<lparr>n_outgoing_peers := c\<rparr>)" for nw1 c by (simp add: keeps_inv_def stubs_def)
    ultimately have "keeps_inv ?nw (send_version_to_peer p ((change_peer p ?f nw2)\<lparr>n_outgoing_peers := c\<rparr>))" for c
      by (rule keeps_inv_trans [OF keeps_inv_trans keeps_inv_simps(10)])
    from keeps_inv_trans [OF keeps_inv_simps(15) this]
    have "keeps_inv nw (send_version_to_peer p ((change_peer p ?f nw2)\<lparr>n_outgoing_peers := c\<rparr>))" for c .
    then show ?thesis using that a by (auto simp: connect_to_addr_def Let_def split: if_splits)
  qed
  have c: "keeps_inv nw1 (change_addr a f (nw1\<lparr>n_unconnected_addrs := c\<rparr>))" for nw1 a f c
    by (simp add: keeps_inv_def stubs_def change_addr_def)
  have "keeps_inv nw nw'" if "(case connect_to_addr env connect_ok addr nw of (nw, True) \<Rightarrow> Ok (change_addr a f (nw\<lparr>n_unconnected_addrs := n_unconnected_addrs nw - 1\<rparr>)) | (nw, False) \<Rightarrow> Ok nw) = Ok nw'" for addr a f
    using that k [of addr] keeps_inv_trans [OF _ c] by (cases "connect_to_addr env connect_ok addr nw"; cases "snd (connect_to_addr env connect_ok addr nw)") auto
  then show ?thesis using assms unfolding connect_queue_cb_def Let_def
    by (auto simp del: prod.case split: if_splits)
qed

lemma nw_step_ok:
  assumes "nw_ok nw" "op_ok env op nw"
  shows "\<exists>nw'. nw_step pton6 pton4 env op nw = Ok nw' \<and> nw_ok nw'"
proof (cases op)
  case (CONNECTION_EVENT p event)
  then show ?thesis using connection_event_ok [OF assms(1), of p event env] assms(2) by (auto simp: forget_result_def)
next
  case (CONNECT_QUEUE c)
  then obtain nw' where n: "connect_queue_cb env c nw = Ok nw'" "links_ok nw'" using connect_queue_cb_links [of nw env c] assms by (auto simp: nw_ok_def)
  then show ?thesis using CONNECT_QUEUE keeps_inv_ok [OF connect_queue_keeps_inv [OF n(1)]] assms(1) by (simp add: nw_ok_def)
next
  case SAVE_ADDR_LIST_TIMEOUT
  then show ?thesis using keeps_nw_ok [OF _ _ assms(1)] by simp
next
  case (DELAYED_BROADCAST d)
  then obtain data where "find (\<lambda>data. db_ptr data = d) (delayed_broadcasts nw) = Some data"
    using assms(2) find_key_None [of "\<lambda>data. db_ptr data = d" "delayed_broadcasts nw"] by (cases "find (\<lambda>data. db_ptr data = d) (delayed_broadcasts nw)") auto
  then show ?thesis using DELAYED_BROADCAST keeps_nw_ok [OF keeps_links_simps(18) keeps_inv_simps(14) keeps_nw_ok [OF keeps_links_simps(12) keeps_inv_simps(8) assms(1)]]
    by (simp add: broadcast_delayed_inv_cb_def)
next
  case (ADD_BLOB blob skip delay)
  then show ?thesis using add_object_ok [OF assms(1), of skip "length (snd blob)" "snd blob" env "fst blob" delay] assms(2)
    by (simp add: ntb_network_add_blob_def)
next
  case (ADD_LISTEN_ADDRESS address sock listening)
  have "nw_ok (nw\<lparr>closed_sockets := c\<rparr>)" "nw_ok (nw\<lparr>listen_sockets := ls\<rparr>)" for c ls
    by (rule keeps_nw_ok [OF _ _ assms(1)]; simp add: keeps_links_def keeps_inv_def stubs_def)+
  then show ?thesis using ADD_LISTEN_ADDRESS assms from_string_safe [of address pton6 pton4]
    by (cases sock) (auto simp: ntb_network_add_listen_address_def forget_result_def Let_def split: outcome.split)
next
  case (ADD_PEER_ADDRESS address)
  then obtain nw' b where n: "add_addr_string pton6 pton4 address NTB_NETWORK_ADDR_EXPLICITLY_ADDED nw = Ok (nw', b)" "links_ok nw'"
    using add_addr_string_links [of nw pton6 pton4 address NTB_NETWORK_ADDR_EXPLICITLY_ADDED] from_string_safe [of address pton6 pton4] assms
    by (auto simp: nw_ok_def)
  then have "keeps_inv nw nw'"
    by (auto simp: add_addr_string_def keeps_inv_def new_addr_def Let_def remove_addr_def stubs_def split: outcome.splits prod.splits if_splits)
  from keeps_inv_ok [OF this] show ?thesis using n ADD_PEER_ADDRESS assms(1) by (auto simp: ntb_network_add_peer_address_def forget_result_def nw_ok_def)
next
  case (SET_ONLY_USE_EXPLICIT_ADDRESSES b)
  have "nw_ok (nw\<lparr>only_use_explicit_addresses := b\<rparr>)"
    by (rule keeps_nw_ok [OF _ _ assms(1)]) (simp_all add: keeps_links_def keeps_inv_def stubs_def)
  then show ?thesis using SET_ONLY_USE_EXPLICIT_ADDRESSES maybe_queue_nw_ok by (simp add: ntb_network_set_only_use_explicit_addresses_def)
qed (use assms listen_nw_ok gc_timeout_cb_ok ntb_network_load_store_ok in simp_all)

lemma empty_network_ok: "nw_ok (empty_network n)"
  by (simp add: nw_ok_def links_ok_def links_core_def inv_ok_def inv_core_def lists_kind_def finds_all_def empty_network_def peer_keys_def addr_keys_def
      going_def used_addrs_def connected_addrs_def stubs_def NTB_NETWORK_MAX_REJECTED_INVENTORIES_def)

lemma add_default_addrs_ok:
  assumes "nw_ok nw" "add_default_addrs pton6 pton4 ss nw = Ok nw'"
  shows "nw_ok nw'"
  using assms
proof (induction ss arbitrary: nw)
  case (Cons s ss)
  obtain a where a: "ntb_netaddress_from_string pton6 pton4 s = Ok a"
    using Cons.prems(2) by (auto simp: add_addr_string_def new_addr_def Let_def remove_addr_def split: outcome.splits)
  let ?nw = "fst (new_addr (\<lambda>na. na\<lparr>na_address := a, advertise_time := 0, na_stream := 1, na_services := NTB_PROTO_SERVICES, na_type := NTB_NETWORK_ADDR_DEFAULT\<rparr>) nw)"
  have "nw_ok ?nw" by (rule new_addr_nw_ok [OF Cons.prems(1)]) simp
  then show ?case using Cons.IH [of ?nw] Cons.prems(2) a by (simp add: add_addr_string_def)
qed simp

text \<open>The states of a network that was made by \<open>ntb_network_new\<close>.\<close>

inductive reachable :: "(u8 list \<Rightarrow> u8 list option) \<Rightarrow> (u8 list \<Rightarrow> u8 list option) \<Rightarrow> ntb_network \<Rightarrow> bool" for pton6 pton4 where
  reach_new: "ntb_network_new pton6 pton4 n = Ok nw \<Longrightarrow> reachable pton6 pton4 nw"
| reach_step: "reachable pton6 pton4 nw \<Longrightarrow> op_ok env op nw \<Longrightarrow> nw_step pton6 pton4 env op nw = Ok nw' \<Longrightarrow> reachable pton6 pton4 nw'"

lemma reachable_ok: "reachable pton6 pton4 nw \<Longrightarrow> nw_ok nw"
proof (induction rule: reachable.induct)
  case (reach_new n nw)
  then show ?case using add_default_addrs_ok [OF empty_network_ok] maybe_queue_nw_ok by (auto simp: ntb_network_new_def)
next
  case (reach_step nw env op nw')
  then show ?case using nw_step_ok [OF reach_step.IH, of env op pton6 pton4] by auto
qed

section \<open>The end\<close>

lemma remove_peers_ok:
  assumes "nw_ok nw" "distinct (map peer_ptr ps)" "peers nw = ps"
  shows "\<exists>nw'. remove_peers ps nw = Ok nw' \<and> nw_ok nw' \<and> peers nw' = []"
  using assms
proof (induction ps arbitrary: nw)
  case (Cons peer ps)
  have l: "links_ok nw" using Cons.prems(1) by (simp add: nw_ok_def)
  have "get_peer (peer_ptr peer) nw \<noteq> None" unfolding get_peer_ptrs using Cons.prems(3) by simp
  then obtain nw1 where 1: "remove_peer (peer_ptr peer) nw = Ok nw1" "nw_ok nw1" "peers nw1 = filter (\<lambda>q. peer_ptr q \<noteq> peer_ptr peer) (peers nw)"
    using remove_peer_ok Cons.prems(1) by (auto simp: nw_ok_def)
  have "\<forall>q \<in> set ps. peer_ptr q \<noteq> peer_ptr peer" using Cons.prems(2) by (metis distinct.simps(2) image_eqI list.set_map list.simps(9))
  then have "peers nw1 = ps" using 1(3) Cons.prems(3) by (simp add: filter_id_conv)
  then show ?case using Cons.IH [OF 1(2)] Cons.prems(2) 1(1) by auto
qed (use assms in simp)

lemma free_inventories_ok:
  assumes "lists_kind (mset is) kind (inventories nw)"
  shows "\<exists>nw'. free_inventories_in_list is nw = Ok nw' \<and>
    nw' = nw\<lparr>inventories := \<lambda>i. if i \<in> set is then None else inventories nw i\<rparr>"
  using assms
proof (induction "is" arbitrary: nw)
  case (Cons i "is")
  have n: "inventories nw i \<noteq> None" using lists_kind_mem [OF Cons.prems, of i] by auto
  have l: "lists_kind (mset is) kind (inventories (free_inventory i nw))"
    using lists_kind_update(2) [OF Cons.prems, of i] by (simp add: free_inventory_def)
  have e: "(\<lambda>k. if k \<in> set is then None else inventories (free_inventory i nw) k) = (\<lambda>k. if k \<in> set (i # is) then None else inventories nw k)"
    by (auto simp: free_inventory_def fun_eq_iff)
  have "(free_inventory i nw)\<lparr>inventories := f\<rparr> = nw\<lparr>inventories := f\<rparr>" for f by (simp add: free_inventory_def)
  then show ?case using Cons.IH [OF l] n unfolding e by simp
qed simp

lemma free_addrs_ok:
  assumes "nw_ok nw" "peers nw = []"
  shows "\<exists>nw'. free_addrs nw = Ok nw' \<and> nw_ok nw' \<and> addrs nw' = [] \<and> peers nw' = []"
proof -
  have l: "links_ok nw" using assms(1) by (simp add: nw_ok_def)
  have "used_addrs (mset (peer_keys nw)) = {#}" using assms(2) by (simp add: peer_keys_def used_addrs_def)
  then have "connected_addrs (mset (addr_keys nw)) = {#}" using l by (simp add: links_ok_def links_core_def)
  then have "\<forall>addr \<in> set (addrs nw). \<not> na_connected addr" by (auto simp: connected_addrs_def addr_keys_def filter_mset_eq_conv)
  then obtain nw' where n: "remove_addrs (addrs nw) nw = Ok nw'" "links_ok nw'" "peers nw' = peers nw"
    "addrs nw' = filter (\<lambda>a. na_ptr a \<notin> na_ptr ` set (addrs nw)) (addrs nw)"
    using remove_addrs_links [OF l links_okD(2) [OF l]] by blast
  have "addrs nw' = []" using n(4) by (simp add: filter_empty_conv)
  moreover have "inv_ok nw'" using keeps_inv_ok [OF remove_addrs_keeps_inv [OF n(1)]] assms(1) by (simp add: nw_ok_def)
  ultimately show ?thesis using n assms(2) by (simp add: free_addrs_def nw_ok_def)
qed

lemma free_listen_sockets_frame:
  "\<exists>c. free_listen_sockets nw = nw\<lparr>listen_sockets := [], closed_sockets := c\<rparr>"
proof -
  have "\<exists>c. fold (\<lambda>ls. remove_listen_socket (ls_sock ls)) ls nw =
      nw\<lparr>listen_sockets := filter (\<lambda>l. ls_sock l \<notin> ls_sock ` set ls) (listen_sockets nw), closed_sockets := c\<rparr>" for ls nw
  proof (induction ls arbitrary: nw)
    case Nil
    show ?case by (rule exI [of _ "closed_sockets nw"]) simp
  next
    case (Cons l ls)
    let ?r = "\<lambda>ls. remove_listen_socket (ls_sock ls)"
    obtain c where f: "fold (\<lambda>ls. remove_listen_socket (ls_sock ls)) ls (remove_listen_socket (ls_sock l) nw) = (remove_listen_socket (ls_sock l) nw)
        \<lparr>listen_sockets := filter (\<lambda>l. ls_sock l \<notin> ls_sock ` set ls) (listen_sockets (remove_listen_socket (ls_sock l) nw)), closed_sockets := c\<rparr>"
      using Cons.IH by blast
    have "fold ?r (l # ls) nw = fold ?r ls (remove_listen_socket (ls_sock l) nw)" by simp
    also have "\<dots> = nw\<lparr>listen_sockets := filter (\<lambda>k. ls_sock k \<notin> ls_sock ` set (l # ls)) (listen_sockets nw), closed_sockets := c\<rparr>"
      unfolding f by (simp add: remove_listen_socket_def conj_commute cong: filter_cong)
    finally show ?case by blast
  qed
  from this [of "listen_sockets nw" nw] show ?thesis by (simp add: free_listen_sockets_def filter_empty_conv)
qed

lemma free_delayed_frame: "free_delayed_broadcasts nw = nw\<lparr>delayed_broadcasts := []\<rparr>"
proof -
  have "fold (\<lambda>data. free_delayed_broadcast (db_ptr data)) ds nw =
      nw\<lparr>delayed_broadcasts := filter (\<lambda>d. db_ptr d \<notin> db_ptr ` set ds) (delayed_broadcasts nw)\<rparr>" for ds nw
    by (induction ds arbitrary: nw) (simp_all add: free_delayed_broadcast_def conj_commute cong: filter_cong)
  from this [of "delayed_broadcasts nw" nw] show ?thesis by (simp add: free_delayed_broadcasts_def filter_empty_conv)
qed

lemma ntb_network_free_ok:
  assumes "nw_ok nw"
  shows "\<exists>nw'. ntb_network_free env nw = Ok nw' \<and> peers nw' = [] \<and> addrs nw' = [] \<and> listen_sockets nw' = [] \<and> delayed_broadcasts nw' = [] \<and>
    (\<forall>i. inventories nw' i = None)"
proof -
  let ?nw = "if save_addr_list_source nw then save_addr_list_cb env nw else nw"
  have 0: "nw_ok ?nw" using keeps_nw_ok [OF _ _ assms] assms by simp
  then have "distinct (map peer_ptr (peers ?nw))" using links_okD(1) by (simp add: nw_ok_def)
  then obtain nw1 where 1: "free_peers ?nw = Ok nw1" "nw_ok nw1" "peers nw1 = []" using remove_peers_ok [OF 0] by (auto simp: free_peers_def)
  obtain nw2 where 2: "free_addrs nw1 = Ok nw2" "nw_ok nw2" "addrs nw2 = []" "peers nw2 = []" using free_addrs_ok [OF 1(2,3)] by blast
  obtain c where 3: "free_listen_sockets nw2 = nw2\<lparr>listen_sockets := [], closed_sockets := c\<rparr>" using free_listen_sockets_frame by blast
  let ?nw3 = "nw2\<lparr>listen_sockets := [], closed_sockets := c\<rparr>"
  note core = 2(2) [unfolded nw_ok_def inv_ok_def, THEN conjunct2, THEN conjunct1]
  let ?a = "accepted_inventories nw2" and ?j = "rejected_inventories nw2"
  let ?inv4 = "\<lambda>i. if i \<in> set ?a then None else inventories nw2 i"
  let ?inv5 = "\<lambda>i. if i \<in> set ?j then None else ?inv4 i"
  have 4: "free_inventories_in_list ?a ?nw3 = Ok (?nw3\<lparr>inventories := ?inv4\<rparr>)"
    using free_inventories_ok [of ?a is_accepted ?nw3] core by (simp add: inv_core_def cong: if_cong)
  have "lists_kind (mset ?j) is_rejected ?inv4"
  proof -
    have d: "i \<notin> set ?a" if "i \<in> set ?j" for i using core_kind(2,3) [OF core, of i] that kinds(4) by auto
    have l: "count (mset ?j) i = of_bool (\<exists>iv. inventories nw2 i = Some iv \<and> is_rejected iv)" for i
      using core by (simp add: inv_core_def lists_kind_def)
    show ?thesis unfolding lists_kind_def
    proof
      show "count (mset ?j) i = of_bool (\<exists>iv. ?inv4 i = Some iv \<and> is_rejected iv)" for i
        using d [of i] l [of i] count_mset_0_iff [of ?j i] by (cases "i \<in> set ?a") auto
    qed
  qed
  from free_inventories_ok [of ?j is_rejected "?nw3\<lparr>inventories := ?inv4\<rparr>"] this
  have 5: "free_inventories_in_list ?j (?nw3\<lparr>inventories := ?inv4\<rparr>) = Ok (?nw3\<lparr>inventories := ?inv5\<rparr>)"
    by (simp cong: if_cong)
  have "stubs nw2 = {#}" using 2(4) by (simp add: stubs_def)
  then have all: "?inv5 i = None" for i
    using core_kind [OF core, of i] kinds(1) by (cases "inventories nw2 i") auto
  have "n_outgoing_peers nw2 = 0 \<and> n_incoming_peers nw2 = 0 \<and> n_unconnected_addrs nw2 = 0"
    using 2(2-4) by (simp add: nw_ok_def links_ok_def links_core_def peer_keys_def addr_keys_def going_def)
  then show ?thesis
    using all by (simp add: ntb_network_free_def Let_def 1(1) 2 3 4 5 free_delayed_frame remove_connect_queue_source_def)
qed

section \<open>An example\<close>

text \<open>A network that has accepted a connection and made one itself.\<close>

definition example_env :: nw_env where
  "example_env = \<lparr>wall_clock = 1400000000, monotonic_clock = 100000000, rand_value = 1000000000, sha512_fn = \<lambda>_. replicate 64 0\<rparr>"

definition example_pton4 :: "u8 list \<Rightarrow> u8 list option" where
  "example_pton4 s = Some [10, 0, 0, 1]"

definition example_network :: "ntb_network outcome" where
  "example_network =
     bind_outcome (ntb_network_new (\<lambda>_. None) example_pton4 7) (\<lambda>nw.
     bind_outcome (nw_step (\<lambda>_. None) example_pton4 example_env (LISTEN_SOCKET_READY (ACCEPTED \<lparr>host = [], port = 1\<rparr>) 3) nw) (\<lambda>nw.
     nw_step (\<lambda>_. None) example_pton4 example_env (CONNECT_QUEUE True) nw))"

lemma example_addresses:
  "map (\<lambda>s. ntb_netaddress_from_string (\<lambda>_. None) example_pton4 s) default_addrs =
     map (\<lambda>p. Ok \<lparr>host = ipv4_magic @ [10, 0, 0, 1], port = p\<rparr>) [8444, 8444, 8444, 7829, 8444, 8444, 8444, 8444, 8444, 8444]"
  by (simp add: default_addrs_def ntb_netaddress_from_string_def parse_port_def strtoul_def strtoul_sign_def digits_value_def is_digit_def is_space_def
      Let_def example_pton4_def)

lemma add_default_addrs_fold:
  assumes "map (ntb_netaddress_from_string pton6 pton4) ss = map Ok as"
  shows "add_default_addrs pton6 pton4 ss nw = Ok (fold (\<lambda>a nw. fst (new_addr (\<lambda>na. na\<lparr>na_address := a, advertise_time := 0, na_stream := 1,
      na_services := NTB_PROTO_SERVICES, na_type := NTB_NETWORK_ADDR_DEFAULT\<rparr>) nw)) as nw)"
  using assms
proof (induction ss arbitrary: as nw)
  case (Cons s ss)
  then obtain a as1 where "as = a # as1" "ntb_netaddress_from_string pton6 pton4 s = Ok a" "map (ntb_netaddress_from_string pton6 pton4) ss = map Ok as1"
    by (cases as) auto
  then show ?case using Cons.IH by (simp add: add_addr_string_def)
qed simp

lemma example_peers:
  "\<exists>nw. example_network = Ok nw \<and> map (\<lambda>p. (peer_ptr p, peer_addr p, peer_direction p)) (peers nw) =
      [(11, Some 5, NTB_NETWORK_OUTGOING), (10, None, NTB_NETWORK_INCOMING)] \<and>
      inventory_hash nw = Map.empty \<and> n_rejected_inventories nw = 0 \<and> store_calls nw = [] \<and> nw_nonce nw = 7 \<and>
      map peer_state (peers nw) = [NTB_NETWORK_PEER_STATE_AWAITING_VERACK_OUT, NTB_NETWORK_PEER_STATE_AWAITING_VERSION_IN]"
proof -
  let ?a = "\<lambda>p. \<lparr>host = ipv4_magic @ [10, 0, 0, 1], port = p\<rparr> :: ntb_netaddress"
  have "map (ntb_netaddress_from_string (\<lambda>_. None) example_pton4) default_addrs =
      map Ok (map ?a [8444, 8444, 8444, 7829, 8444, 8444, 8444, 8444, 8444, 8444])"
    using example_addresses by simp
  note d = add_default_addrs_fold [OF this]
  show ?thesis
    by (simp add: example_network_def ntb_network_new_def d empty_network_def new_addr_def Let_def maybe_queue_connect_def
        NTB_NETWORK_NUM_OUTGOING_PEERS_def listen_socket_source_cb_def add_peer_def update_all_listen_socket_sources_def change_peer_def
        connect_queue_cb_def can_connect_to_addr_def example_env_def NTB_NETWORK_MIN_RECONNECT_TIME_def RAND_MAX_def
        connect_to_addr_def change_addr_def send_version_to_peer_def call_peer_def)
qed

lemma example_reachable_empty:
  obtains nw where "reachable (\<lambda>_. None) example_pton4 nw"
    "map (\<lambda>p. (peer_ptr p, peer_addr p, peer_direction p)) (peers nw) = [(11, Some 5, NTB_NETWORK_OUTGOING), (10, None, NTB_NETWORK_INCOMING)]"
    "inventory_hash nw = Map.empty" "n_rejected_inventories nw = 0" "store_calls nw = []" "nw_nonce nw = 7"
    "map peer_state (peers nw) = [NTB_NETWORK_PEER_STATE_AWAITING_VERACK_OUT, NTB_NETWORK_PEER_STATE_AWAITING_VERSION_IN]"
proof -
  obtain nw where nw: "example_network = Ok nw \<and>
    map (\<lambda>p. (peer_ptr p, peer_addr p, peer_direction p)) (peers nw) = [(11, Some 5, NTB_NETWORK_OUTGOING), (10, None, NTB_NETWORK_INCOMING)] \<and>
    inventory_hash nw = Map.empty \<and> n_rejected_inventories nw = 0 \<and> store_calls nw = [] \<and> nw_nonce nw = 7 \<and>
      map peer_state (peers nw) = [NTB_NETWORK_PEER_STATE_AWAITING_VERACK_OUT, NTB_NETWORK_PEER_STATE_AWAITING_VERSION_IN]"
    using example_peers ..
  from nw [THEN conjunct1] obtain nw1 nw2 where s: "ntb_network_new (\<lambda>_. None) example_pton4 7 = Ok nw1"
    "nw_step (\<lambda>_. None) example_pton4 example_env (LISTEN_SOCKET_READY (ACCEPTED \<lparr>host = [], port = 1\<rparr>) 3) nw1 = Ok nw2"
    "nw_step (\<lambda>_. None) example_pton4 example_env (CONNECT_QUEUE True) nw2 = Ok nw"
    unfolding example_network_def by (auto simp del: nw_step.simps)
  have o: "op_ok example_env (CONNECT_QUEUE True) nw2" "op_ok example_env (LISTEN_SOCKET_READY (ACCEPTED \<lparr>host = [], port = 1\<rparr>) 3) nw1"
    by (simp_all add: example_env_def RAND_MAX_def)
  have "reachable (\<lambda>_. None) example_pton4 nw" by (rule reach_step [OF reach_step [OF reach_new [OF s(1)] o(2) s(2)] o(1) s(3)])
  then show ?thesis using nw [THEN conjunct2] by (elim conjE) (rule that)
qed

lemma example_reachable:
  obtains nw where "reachable (\<lambda>_. None) example_pton4 nw"
    "map (\<lambda>p. (peer_ptr p, peer_addr p, peer_direction p)) (peers nw) = [(11, Some 5, NTB_NETWORK_OUTGOING), (10, None, NTB_NETWORK_INCOMING)]"
  by (rule example_reachable_empty) (rule that)

lemma stubs_concat: "stubs nw = mset (concat (map requested_inventories (peers nw)))"
proof -
  have "\<Sum>\<^sub># (image_mset (\<lambda>peer. mset (requested_inventories peer)) (mset ps)) = mset (concat (map requested_inventories ps))" for ps :: "ntb_network_peer list"
    by (induction ps) simp_all
  then show ?thesis by (simp add: stubs_def)
qed

lemma distinct_count: "(\<And>x. count (mset xs) x \<le> 1) \<Longrightarrow> distinct xs"
proof (induction xs)
  case (Cons y xs)
  have "count (mset xs) x \<le> count (mset (y # xs)) x" for x by simp
  then have "count (mset xs) x \<le> 1" for x using Cons.prems [of x] le_trans by blast
  moreover have "y \<notin> set xs" using Cons.prems [of y] count_mset_0_iff [of xs y] by simp
  ultimately show ?case using Cons.IH by simp
qed simp

section \<open>Properties\<close>

text \<open>
  C6: in every state of the network component the statistics are exact: they are the numbers of outgoing and
  incoming peers and of the addresses that are not connected. An address is marked as connected if and
  only if a peer uses it, and no two peers use the same one.
\<close>

theorem network_counters_exact:
  assumes "reachable pton6 pton4 nw"
  shows "n_outgoing_peers nw = int (length (filter (\<lambda>peer. peer_direction peer = NTB_NETWORK_OUTGOING) (peers nw))) \<and>
    n_incoming_peers nw = int (length (filter (\<lambda>peer. peer_direction peer = NTB_NETWORK_INCOMING) (peers nw))) \<and>
    n_unconnected_addrs nw = int (length (filter (\<lambda>addr. \<not> na_connected addr) (addrs nw))) \<and>
    (\<forall>a. (\<exists>addr \<in> set (addrs nw). na_ptr addr = a \<and> na_connected addr) \<longleftrightarrow> (\<exists>peer \<in> set (peers nw). peer_addr peer = Some a)) \<and>
    (\<forall>peer1 \<in> set (peers nw). \<forall>peer2 \<in> set (peers nw). peer_addr peer1 \<noteq> None \<longrightarrow> peer_addr peer1 = peer_addr peer2 \<longrightarrow> peer1 = peer2)"
proof -
  have l: "links_ok nw" using reachable_ok [OF assms] by (simp add: nw_ok_def)
  note core = l [unfolded links_ok_def links_core_def]
  have n: "int (going d (mset (peer_keys nw))) = int (length (filter (\<lambda>peer. peer_direction peer = d) (peers nw)))" for d
    unfolding going_def peer_keys_def mset_filter [symmetric] size_mset by (simp add: filter_map comp_def)
  have f: "size (filter_mset (\<lambda>k. \<not> snd k) (mset (addr_keys nw))) = length (filter (\<lambda>addr. \<not> na_connected addr) (addrs nw))"
    unfolding addr_keys_def mset_filter [symmetric] size_mset by (simp add: filter_map comp_def)
  have "(\<exists>addr \<in> set (addrs nw). na_ptr addr = a \<and> na_connected addr) \<longleftrightarrow> (\<exists>peer \<in> set (peers nw). peer_addr peer = Some a)" for a
  proof -
    have "a \<in># connected_addrs (mset (addr_keys nw)) \<longleftrightarrow> a \<in># used_addrs (mset (peer_keys nw))" using core by simp
    moreover have "a \<in># connected_addrs (mset (addr_keys nw)) \<longleftrightarrow> (\<exists>addr \<in> set (addrs nw). na_ptr addr = a \<and> na_connected addr)"
      by (force simp: connected_addrs_def addr_keys_def)
    moreover have "a \<in># used_addrs (mset (peer_keys nw)) \<longleftrightarrow> (\<exists>peer \<in> set (peers nw). peer_addr peer = Some a)"
      by (force simp: used_addrs_def peer_keys_def)
    ultimately show ?thesis by simp
  qed
  moreover have "peer1 = peer2" if m: "peer1 \<in> set (peers nw)" "peer2 \<in> set (peers nw)" "peer_addr peer1 = Some a" "peer_addr peer2 = Some a" for peer1 peer2 a
  proof (rule ccontr)
    assume d: "peer1 \<noteq> peer2"
    let ?rest = "mset (peer_keys (nw\<lparr>peers := filter (\<lambda>q. peer_ptr q \<noteq> peer_ptr peer1) (peers nw)\<rparr>))"
    have "peer_ptr peer2 \<noteq> peer_ptr peer1" using links_okD(1) [OF l] m(1,2) d by (auto simp: distinct_map inj_on_def)
    then have "(peer_ptr peer2, Some a, peer_direction peer2) \<in># ?rest" using m(2,4) by (force simp: peer_keys_def)
    then have "a \<in># used_addrs ?rest" by (force simp: used_addrs_def)
    then have "1 < count (used_addrs (mset (peer_keys nw))) a"
      using m(3) unfolding mset_peer_keys [OF l m(1)] counts_add by (simp add: Suc_le_eq)
    moreover have "count (connected_addrs (mset (addr_keys nw))) a \<le> count (image_mset fst (mset (addr_keys nw))) a"
      unfolding connected_addrs_def by (intro mset_subset_eq_count image_mset_subseteq_mono multiset_filter_subset)
    moreover have "count (image_mset fst (mset (addr_keys nw))) a \<le> 1" using core unfolding unique_keys_def by simp
    ultimately show False using core by simp
  qed
  ultimately show ?thesis using core n f by auto
qed

theorem network_counters_exact_witness:
  "\<exists>nw. reachable (\<lambda>_. None) example_pton4 nw \<and> length (peers nw) = 2 \<and> n_outgoing_peers nw = 1 \<and> n_incoming_peers nw = 1"
proof -
  obtain nw where nw: "reachable (\<lambda>_. None) example_pton4 nw"
    "map (\<lambda>p. (peer_ptr p, peer_addr p, peer_direction p)) (peers nw) = [(11, Some 5, NTB_NETWORK_OUTGOING), (10, None, NTB_NETWORK_INCOMING)]"
    by (rule example_reachable)
  then obtain p1 p2 where "peers nw = [p1, p2]" "peer_direction p1 = NTB_NETWORK_OUTGOING" "peer_direction p2 = NTB_NETWORK_INCOMING"
    by (auto simp: map_eq_Cons_conv)
  then show ?thesis using network_counters_exact [OF nw(1)] nw(1) by (intro exI [of _ nw]) simp
qed





text \<open>
  C28: the end of the network component frees everything that it has and violates none of its assertions, in
  whatever state the daemon is stopped.
\<close>

theorem network_free_releases_all:
  assumes "reachable pton6 pton4 nw"
  shows "\<exists>nw'. ntb_network_free env nw = Ok nw' \<and> peers nw' = [] \<and> addrs nw' = [] \<and> listen_sockets nw' = [] \<and> delayed_broadcasts nw' = [] \<and>
    (\<forall>i. inventories nw' i = None)"
  using ntb_network_free_ok [OF reachable_ok [OF assms]] .

theorem network_free_releases_all_witness:
  "\<exists>nw nw'. reachable (\<lambda>_. None) example_pton4 nw \<and> length (peers nw) = 2 \<and> ntb_network_free example_env nw = Ok nw' \<and> peers nw' = []"
proof -
  obtain nw where nw: "reachable (\<lambda>_. None) example_pton4 nw"
    "map (\<lambda>p. (peer_ptr p, peer_addr p, peer_direction p)) (peers nw) = [(11, Some 5, NTB_NETWORK_OUTGOING), (10, None, NTB_NETWORK_INCOMING)]"
    by (rule example_reachable)
  have "length (peers nw) = 2" using arg_cong [OF nw(2), of length] by simp
  then show ?thesis using network_free_releases_all [OF nw(1), of example_env] nw(1) by blast
qed

end
