(* ===== verification/Ntb_Network_Log.thy ===== *)
theory Ntb_Network_Log
  imports Ntb_Network_Safety
begin

text \<open>
  What the network component tells the store and the listeners of new objects. The requests to the store follow
  the accepted inventories exactly: read as operations on a set of hashes, they are all meaningful, and they
  lead from the accepted hashes of one state to those of the next.
\<close>

section \<open>An abstract store\<close>

fun store_op :: "store_call \<Rightarrow> u8 list set \<Rightarrow> u8 list set option" where
  "store_op (SAVE_BLOB h blob) s = (if h \<in> s then None else Some (insert h s))"
| "store_op (DELETE_OBJECT h) s = (if h \<in> s then Some (s - {h}) else None)"
| "store_op (SAVE_ADDR_LIST l) s = Some s"

primrec store_run :: "store_call list \<Rightarrow> u8 list set \<Rightarrow> u8 list set option" where
  "store_run [] s = Some s"
| "store_run (c # cs) s = (case store_op c s of None \<Rightarrow> None | Some s' \<Rightarrow> store_run cs s')"

lemma requests_append: "store_run (cs @ ds) s = (case store_run cs s of None \<Rightarrow> None | Some s' \<Rightarrow> store_run ds s')"
  by (induction cs arbitrary: s) (auto split: option.splits)

fun saved_blobs :: "store_call list \<Rightarrow> object_blob list" where
  "saved_blobs [] = []"
| "saved_blobs (SAVE_BLOB h blob # cs) = blob # saved_blobs cs"
| "saved_blobs (_ # cs) = saved_blobs cs"

lemma saved_blobs_append: "saved_blobs (cs @ ds) = saved_blobs cs @ saved_blobs ds"
  by (induction cs rule: saved_blobs.induct) auto

definition accepted_hashes :: "ntb_network \<Rightarrow> u8 list set" where
  "accepted_hashes nw = {inv_hash iv | i iv. inventories nw i = Some iv \<and> is_accepted iv}"

section \<open>Steps of the log\<close>

text \<open>
  A step appends requests to the log. Those that save an object satisfy \<open>valid\<close>, and the listeners
  are told of the same objects in the same order.
\<close>

definition log_step :: "(u8 list \<Rightarrow> object_blob \<Rightarrow> bool) \<Rightarrow> ntb_network \<Rightarrow> ntb_network \<Rightarrow> bool" where
  "log_step valid nw nw' \<longleftrightarrow> (\<exists>calls. store_calls nw' = store_calls nw @ calls \<and> new_objects nw' = new_objects nw @ saved_blobs calls \<and>
     store_run calls (accepted_hashes nw) = Some (accepted_hashes nw') \<and> (\<forall>h blob. SAVE_BLOB h blob \<in> set calls \<longrightarrow> valid h blob))"

lemma log_step_trans [trans]:
  assumes "log_step valid nw nw1" "log_step valid nw1 nw2"
  shows "log_step valid nw nw2"
proof -
  obtain c1 c2 where "store_calls nw1 = store_calls nw @ c1" "new_objects nw1 = new_objects nw @ saved_blobs c1"
      "store_run c1 (accepted_hashes nw) = Some (accepted_hashes nw1)" "\<forall>h blob. SAVE_BLOB h blob \<in> set c1 \<longrightarrow> valid h blob"
      "store_calls nw2 = store_calls nw1 @ c2" "new_objects nw2 = new_objects nw1 @ saved_blobs c2"
      "store_run c2 (accepted_hashes nw1) = Some (accepted_hashes nw2)" "\<forall>h blob. SAVE_BLOB h blob \<in> set c2 \<longrightarrow> valid h blob"
    using assms unfolding log_step_def by blast
  then show ?thesis unfolding log_step_def by (intro exI [of _ "c1 @ c2"]) (auto simp: requests_append saved_blobs_append)
qed

text \<open>Steps that log nothing.\<close>

definition quiet :: "ntb_network \<Rightarrow> ntb_network \<Rightarrow> bool" where
  "quiet nw nw' \<longleftrightarrow> store_calls nw' = store_calls nw \<and> new_objects nw' = new_objects nw \<and> accepted_hashes nw' = accepted_hashes nw"

lemma quiet_log: "quiet nw nw' \<Longrightarrow> log_step valid nw nw'"
  unfolding quiet_def log_step_def by (intro exI [of _ "[]"]) simp

lemma quiet_refl [simp]: "quiet nw nw"
  by (simp add: quiet_def)

lemma quiet_trans [trans]: "quiet nw nw1 \<Longrightarrow> quiet nw1 nw2 \<Longrightarrow> quiet nw nw2"
  by (simp add: quiet_def)

lemma quiet_frame:
  "inventories nw' = inventories nw \<Longrightarrow> store_calls nw' = store_calls nw \<Longrightarrow> new_objects nw' = new_objects nw \<Longrightarrow> quiet nw nw'"
  by (simp add: quiet_def accepted_hashes_def)

lemma quiet_simps [simp]:
  "quiet nw (maybe_queue_connect b nw)" "quiet nw (remove_connect_queue_source nw)"
  "quiet nw (update_all_listen_socket_sources nw)" "quiet nw (change_peer p f nw)" "quiet nw (call_peer p cs nw)"
  "quiet nw (broadcast_calls cs nw)" "quiet nw (queue_save_addr_list nw)" "quiet nw (set_peer_state p st nw)"
  "quiet nw (broadcast_inv h nw)" "quiet nw (broadcast_addr addr nw)" "quiet nw (send_version_to_peer p nw)"
  "quiet nw (send_addresses env p nw)" "quiet nw (broadcast_delayed_inv env h nw)" "quiet nw (free_delayed_broadcast d nw)"
  "quiet nw (change_addr a g nw)" "quiet nw (fst (new_addr s nw))" "quiet nw (remove_listen_socket fd nw)"
  "quiet nw (unlink_peer peer nw)" "quiet nw (unlink_stub i nw)" "quiet nw (fst (add_peer remote nw))"
  by (rule quiet_frame; simp add: maybe_queue_connect_def remove_connect_queue_source_def update_all_listen_socket_sources_def call_peer_def
      broadcast_calls_def queue_save_addr_list_def set_peer_state_def change_peer_def
      broadcast_inv_def broadcast_addr_def send_version_to_peer_def Let_def unlink_peer_def unlink_stub_def
      send_addresses_def broadcast_delayed_inv_def free_delayed_broadcast_def change_addr_def new_addr_def remove_listen_socket_def add_peer_def
      split: option.split ntb_network_direction.split)+

lemma accepted_hashes_put:
  assumes "inventories nw' = (inventories nw)(i \<mapsto> iv)" "\<And>old. inventories nw i = Some old \<Longrightarrow> \<not> is_accepted old"
  shows "accepted_hashes nw' = (if is_accepted iv then insert (inv_hash iv) (accepted_hashes nw) else accepted_hashes nw)"
  using assms unfolding accepted_hashes_def by (auto split: if_splits) (metis option.distinct(1) option.inject)+

lemma accepted_hashes_free:
  assumes "inventories nw' = (inventories nw)(i := None)" "inventories nw i = Some iv" "\<not> is_accepted iv"
  shows "accepted_hashes nw' = accepted_hashes nw"
  unfolding accepted_hashes_def assms(1) using assms(2,3) by (auto split: if_splits) (metis option.inject)

lemma accepted_hashes_change:
  assumes "inventories nw' = (inventories nw)(i \<mapsto> iv')" "inventories nw i = Some iv" "inv_hash iv' = inv_hash iv" "is_accepted iv' = is_accepted iv"
  shows "accepted_hashes nw' = accepted_hashes nw"
proof -
  have "(\<exists>k x. h = inv_hash x \<and> inventories nw' k = Some x \<and> is_accepted x) \<longleftrightarrow> (\<exists>k x. h = inv_hash x \<and> inventories nw k = Some x \<and> is_accepted x)" for h
    unfolding assms(1) using assms(2-4) by (metis fun_upd_other fun_upd_same option.inject)
  then show ?thesis by (simp add: accepted_hashes_def)
qed

lemma quiet_drop: "drop_inventories is nw = Ok nw' \<Longrightarrow> (\<And>i iv. i \<in> set is \<Longrightarrow> inventories nw i = Some iv \<Longrightarrow> \<not> is_accepted iv) \<Longrightarrow> quiet nw nw'"
proof (induction "is" arbitrary: nw)
  case (Cons i "is")
  from Cons.prems(1) obtain iv where iv: "inventories nw i = Some iv" "drop_inventories is (free_inventory i (hash_remove i iv nw)) = Ok nw'"
    by (auto split: option.splits)
  let ?nw = "free_inventory i (hash_remove i iv nw)"
  have inv: "inventories ?nw = (inventories nw)(i := None)" by (simp add: free_inventory_def hash_remove_def)
  have "accepted_hashes ?nw = accepted_hashes nw" by (rule accepted_hashes_free [OF inv iv(1)]) (rule Cons.prems(2) [OF _ iv(1)], simp)
  then have "quiet nw ?nw" by (simp add: quiet_def free_inventory_def hash_remove_def)
  moreover have "\<not> is_accepted iv'" if "k \<in> set is" "inventories ?nw k = Some iv'" for k iv'
    using Cons.prems(2) [of k iv'] that inv by (auto split: if_splits)
  then have "quiet ?nw nw'" by (rule Cons.IH [OF iv(2)])
  ultimately show ?case by (rule quiet_trans)
qed simp

text \<open>The ways through some of the handlers.\<close>

lemma handle_version_cases:
  assumes "handle_version env p event nw = Ok (nw', b)"
  obtains (removed) "remove_peer p nw = Ok nw'" "ev_nonce event = nw_nonce nw \<or> ev_version event \<noteq> NTB_PROTO_VERSION"
  | (handled) ts strm services address nw1 addr nw2 peer where "get_peer p nw = Some peer" "add_addr env ts strm services address nw = (nw1, addr)"
      "connect_peer_addr p addr nw1 = Ok nw2"
      "case peer_state peer of
         NTB_NETWORK_PEER_STATE_AWAITING_VERSION_OUT \<Rightarrow> connection_established env p (call_peer p [SEND_VERACK] nw2) = Ok nw'
       | NTB_NETWORK_PEER_STATE_AWAITING_VERSION_IN \<Rightarrow>
           nw' = set_peer_state p NTB_NETWORK_PEER_STATE_AWAITING_VERACK_IN (send_version_to_peer p (call_peer p [SEND_VERACK] nw2))
       | _ \<Rightarrow> nw' = call_peer p [SEND_VERACK] nw2"
proof (cases "ev_nonce event = nw_nonce nw \<or> ev_version event \<noteq> NTB_PROTO_VERSION")
  case True
  then have "bind_outcome (remove_peer p nw) (\<lambda>nw. Ok (nw, False)) = Ok (nw', b)" using assms unfolding handle_version_def by (metis (full_types))
  then show ?thesis using removed True by auto
next
  case False
  then obtain strm peer where s: "stream_of_version (ev_stream_numbers event) = Ok strm" "get_peer p nw = Some peer"
    using assms by (auto simp: handle_version_def split: option.splits)
  let ?remote = "(peer_remote_address peer)\<lparr>port := port (ev_addr_from event)\<rparr>"
  obtain nw1 addr where a: "add_addr env (ev_timestamp event) (ucast strm) (ev_services event) ?remote nw = (nw1, addr)" by fastforce
  then obtain nw2 where c: "connect_peer_addr p addr nw1 = Ok nw2" using False s assms by (auto simp: handle_version_def Let_def)
  show ?thesis
    by (rule handled [OF s(2) a c]) (use assms False s a c in \<open>cases "peer_state peer"; auto simp: handle_version_def Let_def\<close>)
qed

lemma inv_loop_step:
  assumes "inv_loop env p (Suc n) mem nw = Ok nw'"
  shows "\<exists>h nw1. inv_loop env p n (drop 32 mem) nw1 = Ok nw' \<and> (nw1 = nw \<or> hash_get h nw = Ok None \<and> nw1 = request_inventory env p h nw)"
proof -
  obtain found where f: "hash_get (take 32 mem) nw = Ok found"
      "inv_loop env p n (drop 32 mem) (if found = None then request_inventory env p (take 32 mem) nw else nw) = Ok nw'"
    using assms by auto
  then show ?thesis by (cases found) auto
qed

lemma getdata_loop_step:
  assumes "getdata_loop p (Suc n) mem nw = Ok nw'"
  shows "\<exists>nw1. getdata_loop p n (drop 32 mem) nw1 = Ok nw' \<and> (nw1 = nw \<or> (\<exists>h blob. nw1 = call_peer p [SEND_BLOB h blob] nw))"
proof -
  obtain found :: "(nat \<times> ntb_network_inventory) option" and nw1 where f: "(case found of None \<Rightarrow> Ok nw | Some (_, iv) \<Rightarrow>
      (case inv_state iv of NTB_NETWORK_INV_STATE_REJECTED _ \<Rightarrow> Ok nw
       | NTB_NETWORK_INV_STATE_ACCEPTED _ _ blob \<Rightarrow> Ok (call_peer p [SEND_BLOB (inv_hash iv) blob] nw)
       | NTB_NETWORK_INV_STATE_STUB _ \<Rightarrow> Fault)) = Ok nw1" "getdata_loop p n (drop 32 mem) nw1 = Ok nw'"
    using assms unfolding getdata_loop.simps bind_outcome_Ok_iff by blast
  then have "nw1 = nw \<or> (\<exists>h blob. nw1 = call_peer p [SEND_BLOB h blob] nw)"
  proof (cases found)
    case (Some r)
    then show ?thesis using f(1) by (cases r; cases "inv_state (snd r)") auto
  qed simp
  then show ?thesis using f(2) by blast
qed

lemma requested_are_stubs:
  assumes "nw_ok nw" "peer \<in> set (peers nw)" "i \<in> set (requested_inventories peer)" "inventories nw i = Some iv"
  shows "is_stub iv"
proof -
  have "i \<in># stubs nw" using assms(2,3) by (auto simp: stubs_def)
  then show ?thesis using core_kind(1) [of "stubs nw"] assms(1,4) by (fastforce simp: nw_ok_def inv_ok_def)
qed

lemma not_stub_accepted: "is_stub iv \<Longrightarrow> \<not> is_accepted iv"
  using kinds(2) by blast

lemma remove_peer_quiet:
  assumes "nw_ok nw" "remove_peer p nw = Ok nw'"
  shows "quiet nw nw'"
proof -
  obtain peer where p: "get_peer p nw = Some peer" using assms(2) by (auto simp: remove_peer_def split: option.splits)
  obtain nw1 where d: "drop_inventories (requested_inventories peer) nw = Ok nw1"
     "nw' = update_all_listen_socket_sources (maybe_queue_connect True (unlink_peer peer nw1))"
    using assms(2) unfolding remove_peer_unlink [OF p] by auto
  have "quiet nw nw1"
    by (rule quiet_drop [OF d(1)]) (use requested_are_stubs [OF assms(1)] not_stub_accepted get_peer_mem [OF p] in blast)
  also have "quiet nw1 nw'" unfolding d(2) using quiet_simps(1,3,18) quiet_trans by meson
  finally show ?thesis .
qed

lemma add_addr_quiet: "quiet nw (fst (add_addr env ts strm services address nw))"
proof (cases rule: add_addr_cases [of env ts strm services address nw])
  case (refreshed addr t)
  show ?thesis unfolding refreshed(3) using quiet_simps(7,10,15) quiet_trans by meson
next
  case (added f)
  show ?thesis unfolding added(3) using quiet_simps(1,7,10,16) quiet_trans by meson
qed simp

lemma connect_peer_addr_quiet: "connect_peer_addr p addr nw = Ok nw' \<Longrightarrow> quiet nw nw'"
  by (rule quiet_frame) (auto simp: connect_peer_addr_def change_addr_def change_peer_def split: option.splits if_splits)

lemma connection_established_quiet:
  assumes "connection_established env p nw = Ok nw'"
  shows "quiet nw nw'"
proof -
  obtain hs where "nw' = call_peer p ([BEGIN_INV] @ map ADD_INV_HASH hs @ [END_INV]) (send_addresses env p (set_peer_state p NTB_NETWORK_PEER_STATE_CONNECTED nw))"
    using assms by (auto simp: connection_established_def send_inventory_def)
  then show ?thesis using quiet_simps(5,8,12) quiet_trans by metis
qed

lemma handle_version_quiet:
  assumes "nw_ok nw" "handle_version env p event nw = Ok (nw', b)"
  shows "quiet nw nw'"
  using assms(2)
proof (cases rule: handle_version_cases)
  case removed
  show ?thesis by (rule remove_peer_quiet [OF assms(1) removed(1)])
next
  case (handled ts strm services address nw1 addr nw2 peer)
  let ?nw = "call_peer p [SEND_VERACK] nw2"
  have "quiet nw nw1" using add_addr_quiet handled(2) by (metis fst_conv)
  also have "quiet nw1 nw2" by (rule connect_peer_addr_quiet [OF handled(3)])
  also have "quiet nw2 ?nw" by simp
  also have "quiet ?nw nw'"
  proof -
    have "quiet ?nw (set_peer_state p st (send_version_to_peer p ?nw))" for st using quiet_simps(8,11) quiet_trans by meson
    then show ?thesis using handled(4) connection_established_quiet [of env p ?nw nw'] by (cases "peer_state peer") simp_all
  qed
  finally show ?thesis .
qed

lemma handle_verack_quiet: "handle_verack env p nw = Ok (nw', b) \<Longrightarrow> quiet nw nw'"
  using connection_established_quiet
  by (auto simp: handle_verack_def split: option.splits ntb_network_peer_state.splits)

lemma request_inventory_quiet:
  assumes "nw_ok nw"
  shows "quiet nw (request_inventory env p h nw)"
proof -
  let ?nw = "request_inventory env p h nw" and ?iv = "\<lparr>inv_hash = h, inv_state = NTB_NETWORK_INV_STATE_STUB (monotonic_clock env)\<rparr>"
  have f: "inventories ?nw = (inventories nw)(next_ptr nw \<mapsto> ?iv)" "store_calls ?nw = store_calls nw" "new_objects ?nw = new_objects nw"
    by (simp_all add: request_inventory_def call_peer_def change_peer_def put_inventory_def Let_def)
  have "inventories nw (next_ptr nw) = None" using assms by (simp add: nw_ok_def inv_ok_def inv_core_def)
  then show ?thesis using accepted_hashes_put [OF f(1)] f(2,3) by (simp add: quiet_def is_accepted_def)
qed

lemma inv_loop_quiet:
  assumes "nw_ok nw" "get_peer p nw \<noteq> None" "inv_loop env p n mem nw = Ok nw'"
  shows "quiet nw nw'"
  using assms
proof (induction n arbitrary: mem nw)
  case (Suc n)
  obtain h nw1 where 1: "inv_loop env p n (drop 32 mem) nw1 = Ok nw'" "nw1 = nw \<or> hash_get h nw = Ok None \<and> nw1 = request_inventory env p h nw"
    using inv_loop_step [OF Suc.prems(3)] by blast
  have "nw_ok nw1 \<and> get_peer p nw1 \<noteq> None \<and> quiet nw nw1"
  proof (cases "nw1 = nw")
    case False
    then have r: "nw1 = request_inventory env p h nw" and "hash_get h nw = Ok None" using 1(2) by simp_all
    then have "inventory_hash nw h = None" by (simp add: hash_get_def split: option.splits)
    then have "nw_ok nw1" using request_inventory_ok [of nw p h env] Suc.prems(1,2) keeps_links_ok [OF keeps_links_request] r by (simp add: nw_ok_def)
    moreover have "get_peer p nw1 \<noteq> None" using Suc.prems(2) keeps_get_peer [OF keeps_links_request] r by blast
    ultimately show ?thesis using request_inventory_quiet [OF Suc.prems(1)] r by simp
  qed (use Suc.prems in simp)
  then show ?case using Suc.IH [OF _ _ 1(1)] quiet_trans by blast
qed simp

lemma getdata_loop_quiet: "getdata_loop p n mem nw = Ok nw' \<Longrightarrow> quiet nw nw'"
proof (induction n arbitrary: mem nw)
  case (Suc n)
  obtain nw1 where "getdata_loop p n (drop 32 mem) nw1 = Ok nw'" "quiet nw nw1" using getdata_loop_step [OF Suc.prems] by auto
  then show ?case using Suc.IH quiet_trans by blast
qed simp

section \<open>Objects\<close>

text \<open>An object that is neither too old nor too far in the future, and has a proof of work.\<close>

definition valid_object :: "nw_env \<Rightarrow> u8 list \<Rightarrow> object_blob \<Rightarrow> bool" where
  "valid_object env h blob \<longleftrightarrow> (case blob of (type, payload) \<Rightarrow>
     h = ntb_proto_double_hash (sha512_fn env) payload \<and>
     ntb_pow_check (sha512_fn env) payload Ntb_Key.NTB_PROTO_MIN_EXTRA_BYTES Ntb_Key.NTB_PROTO_MIN_NONCE_TRIALS_PER_BYTE = Ok True)"

lemma should_reject_False:
  "should_reject env type payload age = Ok False \<Longrightarrow>
     ntb_pow_check (sha512_fn env) payload Ntb_Key.NTB_PROTO_MIN_EXTRA_BYTES Ntb_Key.NTB_PROTO_MIN_NONCE_TRIALS_PER_BYTE = Ok True"
  by (auto simp: should_reject_def split: if_splits)

lemma add_object_cases:
  assumes "add_object env type data len skip delay nw = Ok nw'"
  obtains (same) "nw' = nw"
  | (rejected) i ts nw1 where "claim_inventory (ntb_proto_double_hash (sha512_fn env) (take len data)) nw = Ok (Some (i, nw1))" "\<not> skip"
      "reject_inventory i \<lparr>inv_hash = ntb_proto_double_hash (sha512_fn env) (take len data), inv_state = NTB_NETWORK_INV_STATE_REJECTED ts\<rparr> ts nw1 = Ok nw'"
  | (accepted) i ts nw1 where "claim_inventory (ntb_proto_double_hash (sha512_fn env) (take len data)) nw = Ok (Some (i, nw1))"
      "skip \<or> should_reject env type (take len data) (age_of (wall_clock env) ts) = Ok False"
      "nw' = accept_inventory env type (take len data) (ntb_proto_double_hash (sha512_fn env) (take len data)) ts delay i nw1"
proof -
  let ?h = "ntb_proto_double_hash (sha512_fn env) (take len data)"
  consider "nw' = nw" | ts claimed where "claim_inventory ?h nw = Ok claimed"
      "(case claimed of
          None \<Rightarrow> Ok nw
        | Some (i, nw) \<Rightarrow>
            bind_outcome (if skip then Ok False else should_reject env type (take len data) (age_of (wall_clock env) ts)) (\<lambda>reject.
              if reject then reject_inventory i \<lparr>inv_hash = ?h, inv_state = NTB_NETWORK_INV_STATE_REJECTED ts\<rparr> ts nw
              else Ok (accept_inventory env type (take len data) ?h ts delay i nw))) = Ok nw'"
    using assms unfolding add_object_def Let_def by (auto simp del: prod.case split: outcome.splits prod.splits list.splits arg_value.splits)
  then show ?thesis
  proof cases
    case (2 ts claimed)
    show ?thesis
    proof (cases claimed)
      case (Some r)
      then obtain i nw1 where r: "claimed = Some (i, nw1)" by (cases r) auto
      then show ?thesis using 2 rejected [of i nw1 ts] accepted [of i nw1 ts] by (auto split: if_splits)
    qed (use 2 same in simp)
  qed (rule same)
qed

lemma claim_cases:
  assumes "claim_inventory h nw = Ok (Some (i, nw1))"
  obtains (fresh) "hash_get h nw = Ok None" "i = next_ptr nw" "nw1 = nw\<lparr>next_ptr := i + 1, inventory_hash := (inventory_hash nw)(h \<mapsto> i)\<rparr>"
  | (stub) iv where "hash_get h nw = Ok (Some (i, iv))" "is_stub iv" "nw1 = unlink_stub i nw"
proof -
  obtain found where f: "hash_get h nw = Ok found" using assms by (auto simp: claim_inventory_def)
  show ?thesis
  proof (cases found)
    case None
    then show ?thesis using fresh f assms by (auto simp: claim_inventory_def Let_def)
  next
    case (Some r)
    then obtain j iv where r: "found = Some (j, iv)" by (cases r) auto
    then show ?thesis using stub [of iv] f assms by (cases "inv_state iv") (auto simp: claim_inventory_def is_stub_def)
  qed
qed

lemma claim_quiet:
  assumes "nw_ok nw" "claim_inventory h nw = Ok (Some (i, nw1))"
  shows "quiet nw nw1" "inventories nw1 = inventories nw" "h \<notin> accepted_hashes nw" "\<And>old. inventories nw i = Some old \<Longrightarrow> \<not> is_accepted old"
proof -
  note core = assms(1) [unfolded nw_ok_def inv_ok_def inv_core_def finds_all_def]
  show "quiet nw nw1" "inventories nw1 = inventories nw"
    using assms(2) by (cases rule: claim_cases; simp add: quiet_frame unlink_stub_def)+
  show "\<not> is_accepted old" if "inventories nw i = Some old" for old
    using assms(2)
  proof (cases rule: claim_cases)
    case fresh
    then show ?thesis using core that by simp
  next
    case (stub iv)
    then show ?thesis using that not_stub_accepted by (auto simp: hash_get_def split: option.splits)
  qed
  moreover have "inventory_hash nw h \<noteq> None \<Longrightarrow> inventory_hash nw h = Some i"
    using assms(2) by (cases rule: claim_cases) (auto simp: hash_get_def split: option.splits)
  ultimately show "h \<notin> accepted_hashes nw" using core unfolding accepted_hashes_def by auto (metis option.distinct(1) option.inject)
qed

lemma accept_inventory_fields:
  fixes env type payload h ts delay i nw
  defines "nw' \<equiv> accept_inventory env type payload h ts delay i nw"
  shows "inventories nw' = (inventories nw)(i \<mapsto> \<lparr>inv_hash = h, inv_state = NTB_NETWORK_INV_STATE_ACCEPTED type ts
           (if age_of (wall_clock env) ts \<ge> NTB_NETWORK_INV_CACHE_AGE then None else Some (type, payload))\<rparr>)"
    "store_calls nw' = store_calls nw @ [SAVE_BLOB h (type, payload)]" "new_objects nw' = new_objects nw @ [(type, payload)]"
    "inventory_hash nw' = inventory_hash nw"
  by (simp_all add: nw'_def accept_inventory_def Let_def put_inventory_def broadcast_delayed_inv_def broadcast_inv_def broadcast_calls_def)

lemma accept_log:
  assumes "nw_ok nw" "claim_inventory h nw = Ok (Some (i, nw1))" "valid h (type, payload)"
  shows "log_step valid nw (accept_inventory env type payload h ts delay i nw1)" (is "log_step valid nw ?nw")
proof -
  note c = claim_quiet [OF assms(1,2)]
  have "log_step valid nw1 ?nw"
    unfolding log_step_def
  proof (intro exI [of _ "[SAVE_BLOB h (type, payload)]"] conjI)
    have "accepted_hashes ?nw = insert h (accepted_hashes nw1)"
      using accepted_hashes_put [OF accept_inventory_fields(1), of nw1 i] c(2,4) by (simp add: is_accepted_def)
    then show "store_run [SAVE_BLOB h (type, payload)] (accepted_hashes nw1) = Some (accepted_hashes ?nw)"
      using c(1,3) by (simp add: quiet_def)
  qed (simp_all add: accept_inventory_fields assms(3))
  then show ?thesis using quiet_log [OF c(1)] log_step_trans by blast
qed

lemma reject_log:
  assumes "nw_ok nw" "claim_inventory h nw = Ok (Some (i, nw1))" "reject_inventory i iv ts nw1 = Ok nw'"
    "n_rejected_inventories nw < NTB_NETWORK_MAX_REJECTED_INVENTORIES"
  shows "quiet nw nw'"
proof -
  note c = claim_quiet [OF assms(1,2)]
  have "n_rejected_inventories nw1 = n_rejected_inventories nw" using claim_inventory_ok [OF assms(1), of h] assms(2) by auto
  then have f: "inventories nw' = (inventories nw1)(i \<mapsto> iv\<lparr>inv_state := NTB_NETWORK_INV_STATE_REJECTED ts\<rparr>)" "store_calls nw' = store_calls nw1" "new_objects nw' = new_objects nw1"
    using assms(3,4) by (auto simp: reject_inventory_def Let_def put_inventory_def)
  have "accepted_hashes nw' = accepted_hashes nw1" using accepted_hashes_put [OF f(1)] c(2,4) by (simp add: is_accepted_def)
  then have "quiet nw1 nw'" using f(2,3) by (simp add: quiet_def)
  then show ?thesis using c(1) quiet_trans by blast
qed

lemma add_object_log:
  assumes "nw_ok nw" "add_object env type data len skip delay nw = Ok nw'" "skip \<or> n_rejected_inventories nw < NTB_NETWORK_MAX_REJECTED_INVENTORIES"
  shows "log_step (\<lambda>h blob. skip \<or> valid_object env h blob) nw nw'"
  using assms(2)
proof (cases rule: add_object_cases)
  case same
  then show ?thesis by (simp add: quiet_log)
next
  case (rejected i ts nw1)
  then show ?thesis using reject_log [OF assms(1) rejected(1,3)] assms(3) quiet_log by blast
next
  case (accepted i ts nw1)
  show ?thesis unfolding accepted(3)
    by (rule accept_log [OF assms(1) accepted(1)]) (use accepted(2) should_reject_False in \<open>auto simp: valid_object_def\<close>)
qed

section \<open>Garbage collection and loading\<close>

lemma gc_requested_quiet:
  assumes "nw_ok nw" "get_peer p nw = Some peer" "peer_ptr snapshot = p" "requested_inventories snapshot = requested_inventories peer"
    "gc_requested_inventories env snapshot nw = Ok nw'"
  shows "quiet nw nw'"
proof -
  obtain stale where st: "stale_stubs env (requested_inventories snapshot) nw = Ok stale"
     "drop_inventories stale (change_peer p (\<lambda>peer. peer\<lparr>requested_inventories := filter (\<lambda>i. i \<notin> set stale) (requested_inventories peer)\<rparr>) nw) = Ok nw'"
      (is "drop_inventories stale ?nw = _")
    using assms(3,5) by (auto simp: gc_requested_inventories_def)
  have m: "peer \<in> set (peers nw)" using get_peer_mem [OF assms(2)] by simp
  have "set stale \<subseteq> set (requested_inventories peer)"
  proof -
    have "stale_stubs env is nw = Ok js \<Longrightarrow> set js \<subseteq> set is" for "is" js
      by (induction "is" arbitrary: js) (auto split: option.splits ntb_network_inv_state.splits if_splits)
    then show ?thesis using st(1) assms(4) by simp
  qed
  then have "\<not> is_accepted iv" if "i \<in> set stale" "inventories ?nw i = Some iv" for i iv
    using requested_are_stubs [OF assms(1) m, of i iv] not_stub_accepted that by (auto simp: change_peer_def)
  then have "quiet ?nw nw'" by (rule quiet_drop [OF st(2)])
  then show ?thesis using quiet_simps(4) quiet_trans by blast
qed

lemma gc_peers_quiet:
  assumes "nw_ok nw" "distinct (map peer_ptr ps)"
    and "\<And>peer. peer \<in> set ps \<Longrightarrow> \<exists>now. get_peer (peer_ptr peer) nw = Some now \<and> requested_inventories now = requested_inventories peer"
    and "gc_peers env ps nw = Ok nw'"
  shows "quiet nw nw'"
  using assms
proof (induction ps arbitrary: nw)
  case (Cons peer ps)
  obtain now where now: "get_peer (peer_ptr peer) nw = Some now" "requested_inventories peer = requested_inventories now"
    using Cons.prems(3) [of peer] by auto
  obtain nw1 where 1: "gc_requested_inventories env peer nw = Ok nw1" "nw_ok nw1"
    "\<And>q. q \<noteq> peer_ptr peer \<Longrightarrow> get_peer q nw1 = get_peer q nw"
    using gc_requested_ok [OF Cons.prems(1) now(1) refl now(2)] by metis
  have "\<exists>now. get_peer (peer_ptr q) nw1 = Some now \<and> requested_inventories now = requested_inventories q" if "q \<in> set ps" for q
  proof -
    have "peer_ptr q \<noteq> peer_ptr peer" using Cons.prems(2) imageI [OF that, of peer_ptr] by (metis distinct.simps(2) list.set_map list.simps(9))
    then show ?thesis using 1(3) Cons.prems(3) [of q] that by simp
  qed
  then have "quiet nw1 nw'" using Cons.IH [OF 1(2)] Cons.prems(2,4) 1(1) by auto
  then show ?case using gc_requested_quiet [OF Cons.prems(1) now(1) refl now(2) 1(1)] quiet_trans by blast
qed simp

lemma gc_inventory_log:
  assumes "nw_ok nw" "gc_inventory env i nw = Ok nw'"
  shows "log_step (\<lambda>_ _. False) nw nw'"
proof -
  note core = assms(1) [unfolded nw_ok_def inv_ok_def inv_core_def finds_all_def]
  obtain iv where iv: "inventories nw i = Some iv" using assms(2) by (auto simp: gc_inventory_def split: option.splits)
  have u: "inv_hash iv' \<noteq> inv_hash iv" if "inventories nw k = Some iv'" "k \<noteq> i" for k iv'
    using core iv that by (metis option.inject)
  have h: "inventory_hash nw (inv_hash iv) = Some i" using core iv by blast
  show ?thesis
  proof (cases "inv_state iv")
    case (NTB_NETWORK_INV_STATE_REJECTED ts)
    have "inventories nw' = (inventories nw)(i := None) \<or> nw' = nw" "store_calls nw' = store_calls nw" "new_objects nw' = new_objects nw"
      using assms(2) iv NTB_NETWORK_INV_STATE_REJECTED by (auto simp: gc_inventory_def free_inventory_def hash_remove_def split: if_splits)
    moreover have "\<not> is_accepted iv" using NTB_NETWORK_INV_STATE_REJECTED by (simp add: is_accepted_def)
    ultimately have "quiet nw nw'" using accepted_hashes_free [OF _ iv, of nw'] by (auto simp: quiet_def)
    then show ?thesis by (rule quiet_log)
  next
    case (NTB_NETWORK_INV_STATE_ACCEPTED type ts blob)
    then have a: "is_accepted iv" by (simp add: is_accepted_def)
    let ?del = "free_inventory i (hash_remove i iv (nw\<lparr>store_calls := store_calls nw @ [DELETE_OBJECT (inv_hash iv)],
                          accepted_inventories := remove1 i (accepted_inventories nw)\<rparr>))"
    let ?unc = "put_inventory i (iv\<lparr>inv_state := NTB_NETWORK_INV_STATE_ACCEPTED type ts None\<rparr>) nw"
    have "gc_inventory env i nw = Ok (if expired env type ts then ?del else if age_of (wall_clock env) ts \<ge> NTB_NETWORK_INV_CACHE_AGE then ?unc else nw)"
      by (simp add: gc_inventory_def iv NTB_NETWORK_INV_STATE_ACCEPTED)
    then have "nw' = (if expired env type ts then ?del else if age_of (wall_clock env) ts \<ge> NTB_NETWORK_INV_CACHE_AGE then ?unc else nw)"
      unfolding assms(2) outcome.inject .
    then consider (deleted) "nw' = ?del" | (uncached) "nw' = ?unc" | "nw' = nw" by presburger
    then show ?thesis
    proof cases
      case deleted
      have inv: "inventories nw' = (inventories nw)(i := None)" unfolding deleted by (simp add: free_inventory_def hash_remove_def)
      have "accepted_hashes nw' = accepted_hashes nw - {inv_hash iv}"
        unfolding accepted_hashes_def inv using u by (auto split: if_splits) (metis iv option.inject)
      moreover have "inv_hash iv \<in> accepted_hashes nw" using iv a by (auto simp: accepted_hashes_def)
      moreover have "store_calls nw' = store_calls nw @ [DELETE_OBJECT (inv_hash iv)]" "new_objects nw' = new_objects nw"
        unfolding deleted by (simp_all add: free_inventory_def hash_remove_def)
      ultimately show ?thesis unfolding log_step_def by (intro exI [of _ "[DELETE_OBJECT (inv_hash iv)]"]) simp
    next
      case uncached
      have inv: "inventories nw' = (inventories nw)(i \<mapsto> iv\<lparr>inv_state := NTB_NETWORK_INV_STATE_ACCEPTED type ts None\<rparr>)"
        unfolding uncached by (simp add: put_inventory_def)
      have "accepted_hashes nw' = accepted_hashes nw"
        by (rule accepted_hashes_change [OF inv iv]) (use a in \<open>simp_all add: is_accepted_def\<close>)
      moreover have "store_calls nw' = store_calls nw" "new_objects nw' = new_objects nw" unfolding uncached by (simp_all add: put_inventory_def)
      ultimately show ?thesis by (intro quiet_log) (simp add: quiet_def)
    qed (simp add: quiet_log)
  qed (use assms(2) iv in \<open>simp add: gc_inventory_def\<close>)
qed

lemma gc_inventories_log:
  assumes "nw_ok nw" "mset is \<subseteq># mset (accepted_inventories nw) \<or> mset is \<subseteq># mset (rejected_inventories nw)" "gc_inventories env is nw = Ok nw'"
  shows "log_step (\<lambda>_ _. False) nw nw'"
  using assms
proof (induction "is" arbitrary: nw)
  case (Cons i "is")
  have "i \<in> set (accepted_inventories nw) \<or> i \<in> set (rejected_inventories nw)"
    using Cons.prems(2) by (auto dest!: mset_subset_eq_insertD)
  from gc_inventory_ok [OF Cons.prems(1) this] obtain nw1 where 1: "gc_inventory env i nw = Ok nw1" "nw_ok nw1"
    "mset (accepted_inventories nw) - {#i#} \<subseteq># mset (accepted_inventories nw1)"
    "mset (rejected_inventories nw) - {#i#} \<subseteq># mset (rejected_inventories nw1)" by blast
  have "mset is \<subseteq># m - {#i#}" if "mset (i # is) \<subseteq># m" for m
    using that by (simp add: insert_subset_eq_iff)
  then have "mset is \<subseteq># mset (accepted_inventories nw1) \<or> mset is \<subseteq># mset (rejected_inventories nw1)"
    using Cons.prems(2) 1(3,4) subset_mset.order_trans by blast
  from Cons.IH [OF 1(2) this] have "log_step (\<lambda>_ _. False) nw1 nw'" using Cons.prems(3) 1(1) by simp
  then show ?case using gc_inventory_log [OF Cons.prems(1) 1(1)] log_step_trans by blast
qed (simp add: quiet_log)

lemma remove_addrs_quiet: "remove_addrs as nw = Ok nw' \<Longrightarrow> quiet nw nw'"
proof (induction as arbitrary: nw)
  case (Cons addr as)
  have "quiet nw (nw\<lparr>addrs := as1, n_unconnected_addrs := c\<rparr>)" for as1 c by (simp add: quiet_frame)
  then show ?case using Cons by (auto simp: remove_addr_def split: if_splits intro: quiet_trans)
qed simp

lemma gc_timeout_log:
  assumes "nw_ok nw" "gc_timeout_cb env nw = Ok nw'"
  shows "log_step (\<lambda>_ _. False) nw nw'"
proof -
  have l: "links_ok nw" using assms(1) by (simp add: nw_ok_def)
  obtain nw1 nw2 nw3 where s: "gc_peers env (peers nw) nw = Ok nw1" "gc_inventories env (accepted_inventories nw1) nw1 = Ok nw2"
     "gc_inventories env (rejected_inventories nw2) nw2 = Ok nw3" "gc_addrs env nw3 = Ok nw'"
    using assms(2) by (auto simp: gc_timeout_cb_def)
  have g: "\<exists>now. get_peer (peer_ptr peer) nw = Some now \<and> requested_inventories now = requested_inventories peer" if "peer \<in> set (peers nw)" for peer
    using get_peer_iff [OF l, of "peer_ptr peer" peer] that by simp
  have ok1: "nw_ok nw1" using gc_peers_ok [OF assms(1) links_okD(1) [OF l] g, of env] s(1) by auto
  have ok2: "nw_ok nw2" using gc_inventories_ok [OF ok1, of "accepted_inventories nw1" env] s(2) by auto
  have "log_step (\<lambda>_ _. False) nw nw1" by (rule quiet_log [OF gc_peers_quiet [OF assms(1) links_okD(1) [OF l] g s(1)]])
  also have "log_step (\<lambda>_ _. False) nw1 nw2" by (rule gc_inventories_log [OF ok1 _ s(2)]) simp
  also have "log_step (\<lambda>_ _. False) nw2 nw3" by (rule gc_inventories_log [OF ok2 _ s(3)]) simp
  also have "log_step (\<lambda>_ _. False) nw3 nw'" using s(4) by (intro quiet_log remove_addrs_quiet) (simp add: gc_addrs_def)
  finally show ?thesis .
qed

section \<open>All steps\<close>

lemma connection_event_log:
  assumes "nw_ok nw" "get_peer p nw \<noteq> None" "event_ok event nw" "connection_event_cb env p event nw = Ok (nw', b)"
  shows "log_step (valid_object env) nw nw'"
proof (cases event)
  case (EVENT_OBJECT type n t st data len)
  then have "add_object env type data (unat len) False False nw = Ok nw'" using assms(4) by (auto simp: connection_event_cb_def handle_object_def)
  from add_object_log [OF assms(1) this] show ?thesis using assms(3) EVENT_OBJECT by simp
next
  case (EVENT_GETDATA n mem)
  then show ?thesis using assms(4) getdata_loop_quiet by (auto simp: connection_event_cb_def handle_getdata_def intro: quiet_log)
next
  case (EVENT_INV n mem)
  then obtain nw1 where l: "inv_loop env p (unat n) mem (call_peer p [BEGIN_GETDATA] nw) = Ok nw1" "nw' = call_peer p [END_GETDATA] nw1"
    using assms(4) by (auto simp: connection_event_cb_def handle_inv_def)
  have "nw_ok (call_peer p [BEGIN_GETDATA] nw)" by (rule keeps_nw_ok [OF _ _ assms(1)]) simp_all
  moreover have "get_peer p (call_peer p [BEGIN_GETDATA] nw) \<noteq> None" using keeps_get_peer [OF keeps_links_simps(4)] assms(2) by blast
  ultimately have "quiet (call_peer p [BEGIN_GETDATA] nw) nw1" using inv_loop_quiet l(1) by blast
  then have "quiet nw nw'" unfolding l(2) using quiet_simps(5) quiet_trans by meson
  then show ?thesis by (rule quiet_log)
next
  case EVENT_VERACK
  then show ?thesis using assms(4) handle_verack_quiet by (auto simp: connection_event_cb_def intro: quiet_log)
next
  case EVENT_VERSION
  then show ?thesis using assms(4) handle_version_quiet [OF assms(1), of env p event] by (auto simp: connection_event_cb_def intro: quiet_log)
next
  case EVENT_ADDR
  then show ?thesis using assms(4) add_addr_quiet
    by (auto simp: connection_event_cb_def handle_addr_def intro!: quiet_log split: if_splits)
qed (use assms(1,4) remove_peer_quiet in \<open>auto simp: connection_event_cb_def intro: quiet_log\<close>)

lemma connect_queue_quiet:
  assumes "connect_queue_cb env connect_ok nw = Ok nw'"
  shows "quiet nw nw'"
proof -
  have f: "inventories nw1 = inventories nw \<and> store_calls nw1 = store_calls nw \<and> new_objects nw1 = new_objects nw"
    if "connect_to_addr env connect_ok addr nw = (nw1, b)" for addr nw1 b
    using that by (auto simp: connect_to_addr_def add_peer_def Let_def change_addr_def update_all_listen_socket_sources_def change_peer_def
        send_version_to_peer_def call_peer_def split: if_splits)
  have "quiet nw nw'" if "(case connect_to_addr env connect_ok addr nw of (nw, True) \<Rightarrow> Ok (change_addr a g (nw\<lparr>n_unconnected_addrs := n_unconnected_addrs nw - 1\<rparr>)) | (nw, False) \<Rightarrow> Ok nw) = Ok nw'" for addr a g
    using that f [of addr] by (cases "connect_to_addr env connect_ok addr nw"; cases "snd (connect_to_addr env connect_ok addr nw)")
      (auto simp: change_addr_def intro!: quiet_frame)
  then show ?thesis using assms unfolding connect_queue_cb_def Let_def
    by (auto simp del: prod.case split: if_splits)
qed

text \<open>The objects that a step may save without having checked them: those that the daemon itself adds so.\<close>

fun trusted :: "network_op \<Rightarrow> bool" where
  "trusted (ADD_BLOB blob skip delay) = skip"
| "trusted _ = False"

fun loads :: "network_op \<Rightarrow> bool" where
  "loads (LOAD_STORE _ _ _) = True"
| "loads _ = False"

lemma log_step_mono: "log_step valid nw nw' \<Longrightarrow> (\<And>h blob. valid h blob \<Longrightarrow> valid' h blob) \<Longrightarrow> log_step valid' nw nw'"
  unfolding log_step_def by blast

lemma nw_step_log:
  assumes "nw_ok nw" "op_ok env op nw" "nw_step pton6 pton4 env op nw = Ok nw'" "\<not> loads op"
  shows "log_step (\<lambda>h blob. trusted op \<or> valid_object env h blob) nw nw'"
proof (cases op)
  case (CONNECTION_EVENT p event)
  then show ?thesis using connection_event_log [OF assms(1), of p event env nw'] assms(2,3) by (auto simp: forget_result_def)
next
  case (LISTEN_SOCKET_READY res fd)
  have "quiet nw (listen_socket_source_cb res fd nw)"
    by (cases res) (auto simp: listen_socket_source_cb_def add_peer_def Let_def update_all_listen_socket_sources_def change_peer_def intro!: quiet_frame)
  then show ?thesis using assms(3) LISTEN_SOCKET_READY quiet_log by auto
next
  case (CONNECT_QUEUE c)
  then show ?thesis using assms(3) connect_queue_quiet quiet_log by auto
next
  case GC_TIMEOUT
  then show ?thesis using assms(3) log_step_mono [OF gc_timeout_log [OF assms(1)]] by auto
next
  case SAVE_ADDR_LIST_TIMEOUT
  then have "nw' = save_addr_list_cb env nw" using assms(3) by simp
  moreover have "accepted_hashes (save_addr_list_cb env nw) = accepted_hashes nw" by (simp add: save_addr_list_cb_def accepted_hashes_def)
  ultimately show ?thesis unfolding log_step_def
    by (intro exI [of _ "drop (length (store_calls nw)) (store_calls nw')"]) (simp add: save_addr_list_cb_def)
next
  case (DELAYED_BROADCAST d)
  then show ?thesis using assms(3) quiet_trans [OF quiet_simps(9) quiet_simps(14)]
    by (auto simp: broadcast_delayed_inv_cb_def intro!: quiet_log split: option.splits)
next
  case (ADD_BLOB blob skip delay)
  then show ?thesis using add_object_log [OF assms(1), of env "fst blob" "snd blob" "length (snd blob)" skip delay nw'] assms(2,3)
    by (simp add: ntb_network_add_blob_def)
next
  case (ADD_LISTEN_ADDRESS address sock listening)
  then show ?thesis using assms(3)
    by (auto simp: ntb_network_add_listen_address_def forget_result_def Let_def intro!: quiet_log quiet_frame split: outcome.splits option.splits if_splits)
next
  case (ADD_PEER_ADDRESS address)
  then show ?thesis using assms(3)
    by (auto simp: ntb_network_add_peer_address_def add_addr_string_def new_addr_def remove_addr_def forget_result_def Let_def
        intro!: quiet_log quiet_frame split: outcome.splits if_splits)
next
  case (SET_ONLY_USE_EXPLICIT_ADDRESSES b)
  then show ?thesis using assms(3)
    by (auto simp: ntb_network_set_only_use_explicit_addresses_def maybe_queue_connect_def intro!: quiet_log quiet_frame)
qed (use assms(4) in simp)

section \<open>Properties\<close>



section \<open>The way of an object\<close>

definition example_object :: "u8 list" where
  "example_object = [0, 0, 0, 0, 0, 0, 0, 0, 0x53, 0x72, 0x4E, 0, 0, 0, 0, 0, 0, 0, 0, 0]"

lemma example_object_header:
  "ntb_proto_get_command example_object 20 [NTB_PROTO_ARGUMENT_64, NTB_PROTO_ARGUMENT_TIMESTAMP] = Ok ([V64 0, VTimestamp 1400000000], 12)"
  by (simp add: ntb_proto_get_command_def get_fixed_def map_fst_def ntb_proto_get_timestamp_def ntb_proto_get_64_def ntb_proto_get_32_def get_be_eq
      example_object_def be_value_def)

lemma be_value_zeros: "be_value (replicate n 0) = 0"
proof (induction n)
  case (Suc n)
  then show ?case by (simp add: be_value_snoc flip: replicate_append_same)
qed simp

lemma example_object_work:
  "should_reject example_env NTB_PROTO_INV_TYPE_MSG example_object (age_of 1400000000 1400000000) = Ok False"
  by (simp add: should_reject_def age_of_def NTB_NETWORK_INV_FUTURE_AGE_def ntb_pow_check_def example_object_def calculate_target_def
      Ntb_Key.NTB_PROTO_MIN_EXTRA_BYTES_def Ntb_Key.NTB_PROTO_MIN_NONCE_TRIALS_PER_BYTE_def Let_def pow_value_def example_env_def be_value_zeros)

lemma accept_inventory_peers:
  "peers (accept_inventory env type payload h ts False i nw) =
     map (\<lambda>peer. if peer_state peer = NTB_NETWORK_PEER_STATE_CONNECTED
       then peer\<lparr>peer_calls := peer_calls peer @ [BEGIN_INV, ADD_INV_HASH h, END_INV]\<rparr> else peer) (peers nw)"
  by (simp add: accept_inventory_def Let_def put_inventory_def broadcast_inv_def broadcast_calls_def)

lemma claim_peers:
  assumes "claim_inventory h nw = Ok (Some (i, nw1))"
  shows "\<exists>f. peers nw1 = map f (peers nw) \<and> (\<forall>peer. peer_ptr (f peer) = peer_ptr peer \<and> peer_state (f peer) = peer_state peer \<and> peer_calls (f peer) = peer_calls peer)"
  using assms
proof (cases rule: claim_cases)
  case fresh
  then show ?thesis by (intro exI [of _ "\<lambda>x. x"]) simp
next
  case (stub iv)
  show ?thesis unfolding stub(3) unlink_stub_def
    by (rule exI [of _ "\<lambda>peer. peer\<lparr>requested_inventories := remove1 i (requested_inventories peer)\<rparr>"]) simp
qed

lemma claim_new:
  assumes "hash_get h nw = Ok None \<or> (\<exists>i iv. hash_get h nw = Ok (Some (i, iv)) \<and> is_stub iv)"
  shows "\<exists>i nw1. claim_inventory h nw = Ok (Some (i, nw1)) \<and> inventory_hash nw1 h = Some i"
  using assms
proof
  assume "hash_get h nw = Ok None"
  then show ?thesis by (simp add: claim_inventory_def Let_def)
next
  assume "\<exists>i iv. hash_get h nw = Ok (Some (i, iv)) \<and> is_stub iv"
  then obtain i iv where g: "hash_get h nw = Ok (Some (i, iv))" "is_stub iv" by blast
  then have "inventory_hash nw h = Some i" by (auto simp: hash_get_def split: option.splits)
  then show ?thesis using g by (auto simp: claim_inventory_def is_stub_def unlink_stub_def split: ntb_network_inv_state.splits)
qed

lemma add_object_accepts:
  assumes "unat len \<le> length data" "payload = take (unat len) data" "hash = ntb_proto_double_hash (sha512_fn env) payload"
    and "ntb_proto_get_command data len [NTB_PROTO_ARGUMENT_64, NTB_PROTO_ARGUMENT_TIMESTAMP] = Ok ([V64 n, VTimestamp ts], k)"
    and "should_reject env type payload (age_of (wall_clock env) ts) = Ok False"
    and "hash_get hash nw = Ok None \<or> (\<exists>i iv. hash_get hash nw = Ok (Some (i, iv)) \<and> is_stub iv)"
  shows "\<exists>i nw1. claim_inventory hash nw = Ok (Some (i, nw1)) \<and> inventory_hash nw1 hash = Some i \<and>
    add_object env type data (unat len) False False nw = Ok (accept_inventory env type payload hash ts False i nw1)"
proof -
  obtain i nw1 where c: "claim_inventory hash nw = Ok (Some (i, nw1))" "inventory_hash nw1 hash = Some i" using claim_new [OF assms(6)] by blast
  then show ?thesis using assms by (simp add: add_object_def Let_def)
qed



text \<open>
  C9: whatever the peers send, an object is saved, and the listeners hear of it, only with the hash of its content
  and with a proof of work for its length; only objects that the daemon made itself are trusted.
\<close>

theorem network_objects_valid:
  assumes "reachable pton6 pton4 nw" "op_ok env op nw" "\<not> loads op" "\<not> trusted op" "nw_step pton6 pton4 env op nw = Ok nw'"
    and "SAVE_BLOB hash (type, payload) \<in> set (drop (length (store_calls nw)) (store_calls nw'))"
  shows "hash = ntb_proto_double_hash (sha512_fn env) payload \<and>
    ntb_pow_check (sha512_fn env) payload Ntb_Key.NTB_PROTO_MIN_EXTRA_BYTES Ntb_Key.NTB_PROTO_MIN_NONCE_TRIALS_PER_BYTE = Ok True"
proof -
  obtain calls where c: "store_calls nw' = store_calls nw @ calls" "\<forall>h blob. SAVE_BLOB h blob \<in> set calls \<longrightarrow> trusted op \<or> valid_object env h blob"
    using nw_step_log [OF reachable_ok [OF assms(1)] assms(2,5,3)] unfolding log_step_def by blast
  then show ?thesis using assms(4,6) by (auto simp: valid_object_def)
qed

theorem network_objects_valid_witness:
  "\<exists>nw nw'. reachable (\<lambda>_. None) example_pton4 nw \<and>
     nw_step (\<lambda>_. None) example_pton4 example_env (CONNECTION_EVENT 11 (EVENT_OBJECT NTB_PROTO_INV_TYPE_MSG 0 0 1 example_object 20)) nw = Ok nw' \<and>
     SAVE_BLOB (replicate 32 0) (NTB_PROTO_INV_TYPE_MSG, example_object) \<in> set (drop (length (store_calls nw)) (store_calls nw')) \<and>
     replicate 32 0 = ntb_proto_double_hash (sha512_fn example_env) example_object"
proof -
  let ?op = "CONNECTION_EVENT 11 (EVENT_OBJECT NTB_PROTO_INV_TYPE_MSG 0 0 1 example_object 20)"
  obtain nw where nw: "reachable (\<lambda>_. None) example_pton4 nw"
    "map (\<lambda>p. (peer_ptr p, peer_addr p, peer_direction p)) (peers nw) = [(11, Some 5, NTB_NETWORK_OUTGOING), (10, None, NTB_NETWORK_INCOMING)]"
    "inventory_hash nw = Map.empty" "n_rejected_inventories nw = 0"
    by (rule example_reachable_empty)
  have h: "ntb_proto_double_hash (sha512_fn example_env) example_object = replicate 32 0" by (simp add: ntb_proto_double_hash_def example_env_def)
  have l: "length example_object = 20" by (simp add: example_object_def)
  have w: "wall_clock example_env = 1400000000" by (simp add: example_env_def)
  have "hash_get (replicate 32 0) nw = Ok None" using nw(3) by (simp add: hash_get_def)
  then obtain i nw1 where a: "claim_inventory (replicate 32 0) nw = Ok (Some (i, nw1))"
    "add_object example_env NTB_PROTO_INV_TYPE_MSG example_object 20 False False nw =
       Ok (accept_inventory example_env NTB_PROTO_INV_TYPE_MSG example_object (replicate 32 0) 1400000000 False i nw1)"
    using add_object_accepts [of 20 example_object example_object "replicate 32 0" example_env 0 1400000000 12 NTB_PROTO_INV_TYPE_MSG nw]
      example_object_header example_object_work by (auto simp: h l w)
  let ?nw = "accept_inventory example_env NTB_PROTO_INV_TYPE_MSG example_object (replicate 32 0) 1400000000 False i nw1"
  have s: "nw_step (\<lambda>_. None) example_pton4 example_env ?op nw = Ok ?nw"
    using a(2) by (simp add: forget_result_def connection_event_cb_def handle_object_def)
  have "map peer_ptr (peers nw) = [11, 10]" using arg_cong [OF nw(2), of "map fst"] by (simp add: comp_def)
  then have o: "op_ok example_env ?op nw" using get_peer_ptrs [of 11 nw] nw(4) l by (simp add: NTB_NETWORK_MAX_REJECTED_INVENTORIES_def)
  have "store_calls nw1 = store_calls nw" using claim_quiet(1) [OF reachable_ok [OF nw(1)] a(1)] by (simp add: quiet_def)
  then have m: "SAVE_BLOB (replicate 32 0) (NTB_PROTO_INV_TYPE_MSG, example_object) \<in> set (drop (length (store_calls nw)) (store_calls ?nw))"
    by (simp add: accept_inventory_fields)
  from network_objects_valid [OF nw(1) o _ _ s m] show ?thesis using nw(1) s m by auto
qed

end
