(* ===== verification/Ntb_Network_Handshake.thy ===== *)
theory Ntb_Network_Handshake
  imports Ntb_Network_Log
begin

text \<open>
  The handshake with a peer, and where the network component does not keep its promises: the addresses and hashes
  that it announces go only to peers with a complete handshake, but requests and objects of other
  peers are handled as well, and some of them lead to undefined behaviour.
\<close>

section \<open>The calls for a peer\<close>

fun gossip :: "peer_call \<Rightarrow> bool" where
  "gossip BEGIN_ADDR = True"
| "gossip (ADD_ADDR_ADDRESS _ _ _ _) = True"
| "gossip END_ADDR = True"
| "gossip BEGIN_INV = True"
| "gossip (ADD_INV_HASH _) = True"
| "gossip END_INV = True"
| "gossip _ = False"

fun is_version :: "peer_call \<Rightarrow> bool" where
  "is_version (SEND_VERSION _ _) = True"
| "is_version _ = False"

definition reserved :: "peer_call list \<Rightarrow> bool" where
  "reserved cs \<longleftrightarrow> (\<forall>c \<in> set cs. \<not> gossip c)"

definition greeted :: "peer_call list \<Rightarrow> bool" where
  "greeted cs \<longleftrightarrow> reserved cs \<and> (\<exists>c \<in> set cs. is_version c) \<and> SEND_VERACK \<in> set cs"

fun allowed_calls :: "ntb_network_peer_state \<Rightarrow> peer_call list \<Rightarrow> bool" where
  "allowed_calls NTB_NETWORK_PEER_STATE_AWAITING_VERSION_IN cs \<longleftrightarrow> reserved cs"
| "allowed_calls NTB_NETWORK_PEER_STATE_AWAITING_VERACK_OUT cs \<longleftrightarrow> reserved cs \<and> (\<exists>c \<in> set cs. is_version c)"
| "allowed_calls NTB_NETWORK_PEER_STATE_AWAITING_VERSION_OUT cs \<longleftrightarrow> reserved cs \<and> (\<exists>c \<in> set cs. is_version c)"
| "allowed_calls NTB_NETWORK_PEER_STATE_AWAITING_VERACK_IN cs \<longleftrightarrow> greeted cs"
| "allowed_calls NTB_NETWORK_PEER_STATE_CONNECTED cs \<longleftrightarrow> (\<exists>pre post. cs = pre @ post \<and> greeted pre)"

definition handshake_ok :: "ntb_network_peer \<Rightarrow> bool" where
  "handshake_ok peer \<longleftrightarrow> allowed_calls (peer_state peer) (peer_calls peer)"

definition hs :: "ntb_network \<Rightarrow> bool" where
  "hs nw \<longleftrightarrow> (\<forall>peer \<in> set (peers nw). handshake_ok peer)"

definition view :: "ntb_network \<Rightarrow> (nat \<times> ntb_network_peer_state) list" where
  "view nw = map (\<lambda>peer. (peer_ptr peer, peer_state peer)) (peers nw)"

lemma reserved_append [simp]: "reserved (cs @ ds) \<longleftrightarrow> reserved cs \<and> reserved ds"
  by (auto simp: reserved_def)

lemma greeted_append: "greeted cs \<Longrightarrow> reserved ds \<Longrightarrow> greeted (cs @ ds)"
  by (auto simp: greeted_def)

lemma allowed_append:
  assumes "allowed_calls st cs" "reserved ds \<or> st = NTB_NETWORK_PEER_STATE_CONNECTED"
  shows "allowed_calls st (cs @ ds)"
proof (cases st)
  case NTB_NETWORK_PEER_STATE_CONNECTED
  then obtain pre post where "cs = pre @ post" "greeted pre" using assms(1) by auto
  then have "cs @ ds = pre @ (post @ ds)" "greeted pre" by simp_all
  then show ?thesis unfolding NTB_NETWORK_PEER_STATE_CONNECTED allowed_calls.simps by blast
qed (use assms in \<open>auto simp: greeted_append\<close>)

lemma handshake_append:
  "handshake_ok peer \<Longrightarrow> reserved cs \<or> peer_state peer = NTB_NETWORK_PEER_STATE_CONNECTED \<Longrightarrow> handshake_ok (peer\<lparr>peer_calls := peer_calls peer @ cs\<rparr>)"
  by (simp add: handshake_ok_def allowed_append)

lemma handshake_cong:
  "handshake_ok peer \<Longrightarrow> peer_state peer' = peer_state peer \<Longrightarrow> peer_calls peer' = peer_calls peer \<Longrightarrow> handshake_ok peer'"
  by (simp add: handshake_ok_def)

text \<open>Steps that change neither states nor calls of the peers that there are.\<close>

definition calm :: "ntb_network \<Rightarrow> ntb_network \<Rightarrow> bool" where
  "calm nw nw' \<longleftrightarrow> (hs nw \<longrightarrow> hs nw') \<and> view nw' = view nw"

lemma calm_refl [simp]: "calm nw nw"
  by (simp add: calm_def)

lemma calm_trans [trans]: "calm nw nw1 \<Longrightarrow> calm nw1 nw2 \<Longrightarrow> calm nw nw2"
  by (simp add: calm_def)

lemma calm_map:
  assumes "peers nw' = map f (peers nw)"
    and "\<And>peer. peer_ptr (f peer) = peer_ptr peer" "\<And>peer. peer_state (f peer) = peer_state peer"
    and "\<And>peer. handshake_ok peer \<Longrightarrow> handshake_ok (f peer)"
  shows "calm nw nw'"
  using assms by (auto simp: calm_def hs_def view_def)

lemma calm_frame: "peers nw' = peers nw \<Longrightarrow> calm nw nw'"
  by (rule calm_map [where f = "\<lambda>x. x"]) simp_all

lemma call_peer_calm:
  assumes "reserved cs"
  shows "calm nw (call_peer p cs nw)"
  by (rule calm_map [where f = "\<lambda>peer. if peer_ptr peer = p then peer\<lparr>peer_calls := peer_calls peer @ cs\<rparr> else peer"])
    (use assms handshake_append in \<open>auto simp: call_peer_def change_peer_def\<close>)

lemma broadcast_calm: "calm nw (broadcast_calls cs nw)"
  by (rule calm_map [where f = "\<lambda>peer. if peer_state peer = NTB_NETWORK_PEER_STATE_CONNECTED then peer\<lparr>peer_calls := peer_calls peer @ cs\<rparr> else peer"])
    (use handshake_append in \<open>auto simp: broadcast_calls_def\<close>)

lemma change_peer_calm:
  assumes "\<And>peer. peer_ptr (f peer) = peer_ptr peer \<and> peer_state (f peer) = peer_state peer \<and> peer_calls (f peer) = peer_calls peer"
  shows "calm nw (change_peer p f nw)"
  by (rule calm_map [where f = "\<lambda>peer. if peer_ptr peer = p then f peer else peer"])
    (use assms in \<open>auto simp: change_peer_def elim: handshake_cong\<close>)

lemma calm_simps [simp]:
  "calm nw (maybe_queue_connect b nw)" "calm nw (queue_save_addr_list nw)" "calm nw (change_addr a g nw)" "calm nw (fst (new_addr s nw))"
  "calm nw (broadcast_addr addr nw)" "calm nw (broadcast_inv h nw)" "calm nw (broadcast_delayed_inv env h nw)" "calm nw (free_delayed_broadcast d nw)"
  "calm nw (send_version_to_peer p nw)" "calm nw (unlink_stub i nw)" "calm nw (update_all_listen_socket_sources nw)"
proof -
  show "calm nw (unlink_stub i nw)"
    by (rule calm_map [where f = "\<lambda>peer. peer\<lparr>requested_inventories := remove1 i (requested_inventories peer)\<rparr>"]) (simp_all add: unlink_stub_def handshake_ok_def)
qed (simp_all add: broadcast_addr_def broadcast_inv_def broadcast_calm send_version_to_peer_def Let_def call_peer_calm reserved_def
      calm_frame maybe_queue_connect_def queue_save_addr_list_def change_addr_def new_addr_def broadcast_delayed_inv_def free_delayed_broadcast_def
      update_all_listen_socket_sources_def)

lemma add_addr_calm: "calm nw (fst (add_addr env ts strm services address nw))"
proof (cases rule: add_addr_cases [of env ts strm services address nw])
  case (refreshed addr t)
  show ?thesis unfolding refreshed(3) using calm_simps(2,3,5) calm_trans by meson
next
  case (added f)
  show ?thesis unfolding added(3) using calm_simps(1,2,4,5) calm_trans by meson
qed simp

lemma connect_peer_addr_calm:
  assumes "connect_peer_addr p addr nw = Ok nw'"
  shows "calm nw nw'"
proof -
  have "calm nw (change_addr a g (change_peer p (\<lambda>peer. peer\<lparr>peer_addr := Some a\<rparr>) (nw\<lparr>n_unconnected_addrs := c\<rparr>)))" for a g c
    by (rule calm_map [where f = "\<lambda>peer. if peer_ptr peer = p then peer\<lparr>peer_addr := Some a\<rparr> else peer"])
      (auto simp: change_addr_def change_peer_def handshake_ok_def)
  then show ?thesis using assms by (auto simp: connect_peer_addr_def split: option.splits if_splits)
qed

section \<open>Changes of state\<close>

lemma set_state_hs:
  assumes "hs nw" "\<And>peer. peer \<in> set (peers nw) \<Longrightarrow> peer_ptr peer = p \<Longrightarrow> handshake_ok (peer\<lparr>peer_state := st\<rparr>)"
  shows "hs (set_peer_state p st nw)"
  using assms by (auto simp: hs_def set_peer_state_def change_peer_def)

lemma view_call [simp]: "view (call_peer p cs nw) = view nw"
  by (simp add: view_def call_peer_def change_peer_def)

lemma view_set_state [simp]: "view (set_peer_state p st nw) = map (\<lambda>(q, s). (q, if q = p then st else s)) (view nw)"
  by (simp add: view_def set_peer_state_def change_peer_def)

lemma call_connected_hs:
  assumes "hs nw" "\<And>st. (p, st) \<in> set (view nw) \<Longrightarrow> st = NTB_NETWORK_PEER_STATE_CONNECTED"
  shows "hs (call_peer p cs nw)"
proof -
  have "peer_state peer = NTB_NETWORK_PEER_STATE_CONNECTED" if "peer \<in> set (peers nw)" "peer_ptr peer = p" for peer
    using that by (intro assms(2)) (auto simp: view_def)
  then show ?thesis using assms(1) handshake_append by (auto simp: hs_def call_peer_def change_peer_def)
qed

lemma connection_established_hs:
  assumes "connection_established env p nw = Ok nw'" "hs nw" "\<And>peer. peer \<in> set (peers nw) \<Longrightarrow> peer_ptr peer = p \<Longrightarrow> greeted (peer_calls peer)"
  shows "hs nw'"
proof -
  let ?nw = "set_peer_state p NTB_NETWORK_PEER_STATE_CONNECTED nw"
  obtain hashes where nw': "nw' = call_peer p ([BEGIN_INV] @ map ADD_INV_HASH hashes @ [END_INV]) (send_addresses env p ?nw)"
    using assms(1) by (auto simp: connection_established_def send_inventory_def)
  have "allowed_calls NTB_NETWORK_PEER_STATE_CONNECTED cs" if "greeted cs" for cs
    unfolding allowed_calls.simps using that append_Nil2 [of cs] by metis
  then have "hs ?nw" using assms(3) by (intro set_state_hs [OF assms(2)]) (simp add: handshake_ok_def)
  moreover have c: "st = NTB_NETWORK_PEER_STATE_CONNECTED" if "(p, st) \<in> set (view ?nw)" for st using that by (auto split: if_splits)
  ultimately have "hs (send_addresses env p ?nw)" unfolding send_addresses_def by (rule call_connected_hs)
  then show ?thesis unfolding nw' by (rule call_connected_hs) (rule c, simp add: send_addresses_def)
qed

lemma view_ptrs: "map peer_ptr (peers nw) = map fst (view nw)"
  by (simp add: view_def)

lemma view_state:
  assumes "links_ok nw" "get_peer p nw = Some peer" "view nw' = view nw" "x \<in> set (peers nw')" "peer_ptr x = p"
  shows "peer_state x = peer_state peer"
proof -
  have "(p, peer_state x) \<in> set (view nw')" using assms(4,5) by (auto simp: view_def)
  then have "(p, peer_state x) \<in> set (view nw)" using assms(3) by simp
  then obtain y where "y \<in> set (peers nw)" "peer_ptr y = p" "peer_state y = peer_state x" by (auto simp: view_def)
  then show ?thesis using get_peer_iff [OF assms(1), of p y] assms(2) by auto
qed

lemma remove_peer_hs:
  assumes "nw_ok nw" "hs nw" "remove_peer p nw = Ok nw'"
  shows "hs nw'"
proof -
  have "get_peer p nw \<noteq> None" using assms(3) by (auto simp: remove_peer_def split: option.splits)
  then have "peers nw' = filter (\<lambda>q. peer_ptr q \<noteq> p) (peers nw)" using remove_peer_ok [of nw p] assms(1,3) by (auto simp: nw_ok_def)
  then show ?thesis using assms(2) by (auto simp: hs_def)
qed

lemma call_peer_mem:
  assumes "x \<in> set (peers (call_peer p cs nw))" "peer_ptr x = p"
  shows "\<exists>y \<in> set (peers nw). peer_ptr y = p \<and> peer_calls x = peer_calls y @ cs"
proof -
  obtain y where "y \<in> set (peers nw)" "x = (if peer_ptr y = p then y\<lparr>peer_calls := peer_calls y @ cs\<rparr> else y)"
    using assms(1) unfolding call_peer_def change_peer_def by force
  then show ?thesis using assms(2) by (cases "peer_ptr y = p") auto
qed

lemma handle_version_hs:
  assumes "nw_ok nw" "hs nw" "handle_version env p event nw = Ok (nw', b)"
  shows "hs nw'"
  using assms(3)
proof (cases rule: handle_version_cases)
  case removed
  show ?thesis by (rule remove_peer_hs [OF assms(1,2) removed(1)])
next
  case (handled ts strm services address nw1 addr nw2 peer)
  let ?nw = "call_peer p [SEND_VERACK] nw2"
  have "calm nw nw1" using add_addr_calm handled(2) by (metis fst_conv)
  also have "calm nw1 nw2" by (rule connect_peer_addr_calm [OF handled(3)])
  finally have 2: "calm nw nw2" .
  then have "hs ?nw" and v: "view nw2 = view nw" using assms(2) call_peer_calm [of "[SEND_VERACK]" nw2 p] by (simp_all add: calm_def reserved_def)
  have st: "handshake_ok x \<and> peer_state x = peer_state peer \<and> SEND_VERACK \<in> set (peer_calls x)" if "x \<in> set (peers ?nw)" "peer_ptr x = p" for x
  proof -
    have "peer_state x = peer_state peer" using view_state [OF _ handled(1) _ that] assms(1) v by (simp add: nw_ok_def)
    moreover have "SEND_VERACK \<in> set (peer_calls x)" using call_peer_mem [OF that] by auto
    ultimately show ?thesis using \<open>hs ?nw\<close> that(1) by (auto simp: hs_def)
  qed
  show ?thesis
  proof (cases "peer_state peer")
    case NTB_NETWORK_PEER_STATE_AWAITING_VERSION_OUT
    then have "greeted (peer_calls x)" if "x \<in> set (peers ?nw)" "peer_ptr x = p" for x
      using st [OF that] by (auto simp: handshake_ok_def greeted_def)
    then show ?thesis using handled(4) NTB_NETWORK_PEER_STATE_AWAITING_VERSION_OUT connection_established_hs [OF _ \<open>hs ?nw\<close>] by simp
  next
    case NTB_NETWORK_PEER_STATE_AWAITING_VERSION_IN
    let ?v = "send_version_to_peer p ?nw"
    have "hs ?v" using \<open>hs ?nw\<close> calm_simps(9) [of ?nw p] by (simp add: calm_def)
    moreover have "handshake_ok (x\<lparr>peer_state := NTB_NETWORK_PEER_STATE_AWAITING_VERACK_IN\<rparr>)" if x: "x \<in> set (peers ?v)" "peer_ptr x = p" for x
    proof -
      obtain y n pt where y: "y \<in> set (peers ?nw)" "peer_ptr y = p" "peer_calls x = peer_calls y @ [SEND_VERSION n pt]"
        using call_peer_mem [OF x(1) [unfolded send_version_to_peer_def Let_def] x(2)] by auto
      then have "reserved (peer_calls y)" "SEND_VERACK \<in> set (peer_calls y)"
        using st [OF y(1,2)] NTB_NETWORK_PEER_STATE_AWAITING_VERSION_IN by (auto simp: handshake_ok_def)
      then show ?thesis using y(3) by (simp add: handshake_ok_def greeted_def) (simp add: reserved_def)
    qed
    ultimately show ?thesis using handled(4) NTB_NETWORK_PEER_STATE_AWAITING_VERSION_IN set_state_hs by simp
  qed (use handled(4) \<open>hs ?nw\<close> in simp_all)
qed

lemma handle_verack_hs:
  assumes "nw_ok nw" "hs nw" "handle_verack env p nw = Ok (nw', b)"
  shows "hs nw'"
proof -
  obtain peer where p: "get_peer p nw = Some peer" using assms(3) by (auto simp: handle_verack_def split: option.splits)
  have st: "handshake_ok x \<and> peer_state x = peer_state peer" if "x \<in> set (peers nw)" "peer_ptr x = p" for x
    using view_state [OF _ p refl that] assms(1,2) that(1) by (auto simp: nw_ok_def hs_def)
  show ?thesis
  proof (cases "peer_state peer")
    case NTB_NETWORK_PEER_STATE_AWAITING_VERACK_OUT
    have "hs (set_peer_state p NTB_NETWORK_PEER_STATE_AWAITING_VERSION_OUT nw)"
    proof (rule set_state_hs [OF assms(2)])
      fix x assume x: "x \<in> set (peers nw)" "peer_ptr x = p"
      show "handshake_ok (x\<lparr>peer_state := NTB_NETWORK_PEER_STATE_AWAITING_VERSION_OUT\<rparr>)"
        using st [OF x] NTB_NETWORK_PEER_STATE_AWAITING_VERACK_OUT by (auto simp: handshake_ok_def)
    qed
    then show ?thesis using assms(3) p NTB_NETWORK_PEER_STATE_AWAITING_VERACK_OUT by (simp add: handle_verack_def)
  next
    case NTB_NETWORK_PEER_STATE_AWAITING_VERACK_IN
    have "greeted (peer_calls x)" if "x \<in> set (peers nw)" "peer_ptr x = p" for x
      using st [OF that] NTB_NETWORK_PEER_STATE_AWAITING_VERACK_IN by (auto simp: handshake_ok_def)
    then show ?thesis using assms(3) p NTB_NETWORK_PEER_STATE_AWAITING_VERACK_IN connection_established_hs [OF _ assms(2)] by (auto simp: handle_verack_def)
  qed (use assms p in \<open>simp_all add: handle_verack_def\<close>)
qed

section \<open>All steps\<close>

lemma request_inventory_calm: "calm nw (request_inventory env p h nw)"
proof -
  let ?i = "next_ptr nw"
  let ?nw = "(change_peer p (\<lambda>peer. peer\<lparr>requested_inventories := ?i # requested_inventories peer\<rparr>)
      (put_inventory ?i \<lparr>inv_hash = h, inv_state = NTB_NETWORK_INV_STATE_STUB (monotonic_clock env)\<rparr> (nw\<lparr>next_ptr := ?i + 1\<rparr>)))
      \<lparr>inventory_hash := (inventory_hash nw)(h \<mapsto> ?i)\<rparr>"
  have "calm nw ?nw"
    by (rule calm_map [where f = "\<lambda>peer. if peer_ptr peer = p then peer\<lparr>requested_inventories := ?i # requested_inventories peer\<rparr> else peer"])
      (simp_all add: change_peer_def put_inventory_def handshake_ok_def)
  also have "calm ?nw (call_peer p [ADD_GETDATA_HASH h] ?nw)" by (rule call_peer_calm) (simp add: reserved_def)
  also have "call_peer p [ADD_GETDATA_HASH h] ?nw = request_inventory env p h nw"
    by (simp add: request_inventory_def Let_def change_peer_def put_inventory_def)
  finally show ?thesis .
qed

lemma inv_loop_calm: "inv_loop env p n mem nw = Ok nw' \<Longrightarrow> calm nw nw'"
proof (induction n arbitrary: mem nw)
  case (Suc n)
  obtain nw1 where "inv_loop env p n (drop 32 mem) nw1 = Ok nw'" "calm nw nw1" using inv_loop_step [OF Suc.prems] request_inventory_calm by auto
  then show ?case using Suc.IH calm_trans by blast
qed simp

lemma getdata_loop_calm: "getdata_loop p n mem nw = Ok nw' \<Longrightarrow> calm nw nw'"
proof (induction n arbitrary: mem nw)
  case (Suc n)
  obtain nw1 where "getdata_loop p n (drop 32 mem) nw1 = Ok nw'" "calm nw nw1"
    using getdata_loop_step [OF Suc.prems] call_peer_calm [of "[SEND_BLOB _ _]"] by (auto simp: reserved_def)
  then show ?case using Suc.IH calm_trans by blast
qed simp

lemma add_object_calm:
  assumes "add_object env type data len skip delay nw = Ok nw'"
  shows "calm nw nw'"
proof -
  have c: "calm nw nw1" if "claim_inventory h nw = Ok (Some (i, nw1))" for h i nw1
    using that by (cases rule: claim_cases) (simp_all add: calm_frame)
  show ?thesis using assms
  proof (cases rule: add_object_cases)
    case (rejected i ts nw1)
    have "peers nw' = peers nw1" using rejected(3)
      by (auto simp: reject_inventory_def Let_def put_inventory_def free_inventory_def split: if_splits list.splits)
    then show ?thesis using c [OF rejected(1)] calm_frame calm_trans by blast
  next
    case (accepted i ts nw1)
    let ?h = "ntb_proto_double_hash (sha512_fn env) (take len data)"
    have "calm nw1 nw'"
    proof (cases delay)
      case True
      then show ?thesis unfolding accepted(3) by (intro calm_frame) (simp add: accept_inventory_def Let_def put_inventory_def broadcast_delayed_inv_def)
    next
      case False
      have "calm nw1 (broadcast_inv ?h nw1)" by simp
      also have "calm (broadcast_inv ?h nw1) nw'" unfolding accepted(3) using False
        by (intro calm_frame) (simp add: accept_inventory_def Let_def put_inventory_def broadcast_inv_def broadcast_calls_def)
      finally show ?thesis .
    qed
    then show ?thesis using c [OF accepted(1)] calm_trans by blast
  qed simp
qed

lemma connection_event_hs:
  assumes "nw_ok nw" "hs nw" "connection_event_cb env p event nw = Ok (nw', b)"
  shows "hs nw'"
proof -
  have k: "hs nw'" if "calm nw nw'" using that assms(2) by (simp add: calm_def)
  show ?thesis
  proof (cases event)
    case (EVENT_INV n mem)
    then obtain nw1 where l: "inv_loop env p (unat n) mem (call_peer p [BEGIN_GETDATA] nw) = Ok nw1" "nw' = call_peer p [END_GETDATA] nw1"
      using assms(3) by (auto simp: connection_event_cb_def handle_inv_def)
    have "calm nw (call_peer p [BEGIN_GETDATA] nw)" "calm nw1 nw'" unfolding l(2) by (rule call_peer_calm; simp add: reserved_def)+
    then show ?thesis using inv_loop_calm [OF l(1)] calm_trans k by blast
  next
    case (EVENT_GETDATA n mem)
    then show ?thesis using assms(3) getdata_loop_calm k by (auto simp: connection_event_cb_def handle_getdata_def)
  next
    case EVENT_OBJECT
    then show ?thesis using assms(3) add_object_calm k by (auto simp: connection_event_cb_def handle_object_def)
  next
    case EVENT_ADDR
    then show ?thesis using assms(3) add_addr_calm k by (auto simp: connection_event_cb_def handle_addr_def split: if_splits)
  next
    case EVENT_VERSION
    then show ?thesis using assms(3) handle_version_hs [OF assms(1,2)] by (simp add: connection_event_cb_def)
  next
    case EVENT_VERACK
    then show ?thesis using assms(3) handle_verack_hs [OF assms(1,2)] by (simp add: connection_event_cb_def)
  qed (use assms remove_peer_hs in \<open>auto simp: connection_event_cb_def\<close>)
qed

lemma gc_timeout_calm:
  assumes "gc_timeout_cb env nw = Ok nw'"
  shows "calm nw nw'"
proof -
  have p: "calm nw nw1" if "gc_peers env ps nw = Ok nw1" for ps nw nw1
    using that
  proof (induction ps arbitrary: nw)
    case (Cons peer ps)
    then obtain stale nw2 where n: "drop_inventories stale
        (change_peer (peer_ptr peer) (\<lambda>peer. peer\<lparr>requested_inventories := filter (\<lambda>i. i \<notin> set stale) (requested_inventories peer)\<rparr>) nw) = Ok nw2" "gc_peers env ps nw2 = Ok nw1"
      by (auto simp: gc_requested_inventories_def)
    have "calm nw (change_peer (peer_ptr peer) (\<lambda>peer. peer\<lparr>requested_inventories := filter (\<lambda>i. i \<notin> set stale) (requested_inventories peer)\<rparr>) nw)"
      by (rule change_peer_calm) simp
    also have "calm (change_peer (peer_ptr peer) (\<lambda>peer. peer\<lparr>requested_inventories := filter (\<lambda>i. i \<notin> set stale) (requested_inventories peer)\<rparr>) nw) nw2"
      by (rule calm_frame [OF drop_inventories_fields(1) [OF n(1)]])
    also have "calm nw2 nw1" by (rule Cons.IH [OF n(2)])
    finally show ?case .
  qed simp
  have i: "peers nw1 = peers nw" if "gc_inventories env is nw = Ok nw1" for "is" nw nw1
    using that
  proof (induction "is" arbitrary: nw)
    case (Cons i "is")
    then obtain nw2 where n: "gc_inventory env i nw = Ok nw2" "gc_inventories env is nw2 = Ok nw1" by auto
    have "peers nw2 = peers nw" using n(1)
      by (auto simp: gc_inventory_def free_inventory_def hash_remove_def put_inventory_def split: option.splits ntb_network_inv_state.splits if_splits)
    then show ?case using Cons.IH [OF n(2)] by simp
  qed simp
  have a: "peers nw1 = peers nw" if "remove_addrs as nw = Ok nw1" for as nw nw1
    using that by (induction as arbitrary: nw) (auto simp: remove_addr_def split: if_splits)
  obtain nw1 nw2 nw3 where s: "gc_peers env (peers nw) nw = Ok nw1" "gc_inventories env (accepted_inventories nw1) nw1 = Ok nw2"
     "gc_inventories env (rejected_inventories nw2) nw2 = Ok nw3" "gc_addrs env nw3 = Ok nw'"
    using assms by (auto simp: gc_timeout_cb_def)
  have "peers nw' = peers nw1" using i [OF s(2)] i [OF s(3)] a s(4) by (simp add: gc_addrs_def)
  then show ?thesis using p [OF s(1)] calm_frame calm_trans by blast
qed

lemma add_peer_peers:
  assumes "nw_ok nw" "add_peer remote nw = (nw1, p)"
  shows "peers (change_peer p f nw1) = f \<lparr>peer_ptr = p, peer_remote_address = remote, peer_addr = None, requested_inventories = [],
      peer_state = NTB_NETWORK_PEER_STATE_AWAITING_VERACK_OUT, peer_direction = NTB_NETWORK_OUTGOING, peer_calls = []\<rparr> # peers nw"
proof -
  have "\<forall>q \<in> set (peers nw). peer_ptr q \<noteq> next_ptr nw" using links_okD(3) [of nw] assms(1) by (fastforce simp: nw_ok_def)
  then have "map (\<lambda>peer. if peer_ptr peer = next_ptr nw then f peer else peer) (peers nw) = peers nw" by (simp add: map_idI)
  then show ?thesis using assms(2) by (auto simp: add_peer_def Let_def update_all_listen_socket_sources_def change_peer_def)
qed

lemma connect_queue_hs:
  assumes "nw_ok nw" "hs nw" "connect_queue_cb env connect_ok nw = Ok nw'"
  shows "hs nw'"
proof -
  have c: "hs nw1" if "connect_to_addr env connect_ok addr nw = (nw1, b)" for addr nw1 b
  proof -
    let ?nw = "change_addr (na_ptr addr) (\<lambda>a. a\<lparr>last_connect_time := monotonic_clock env\<rparr>) nw"
    let ?f = "\<lambda>peer. peer\<lparr>peer_addr := Some (na_ptr addr), peer_direction := NTB_NETWORK_OUTGOING\<rparr>"
    have ok: "nw_ok ?nw" using keeps_nw_ok [OF change_addr_keeps keeps_inv_simps(15) assms(1)] by simp
    obtain nw2 p where a: "add_peer (na_address addr) ?nw = (nw2, p)" by fastforce
    note ps = add_peer_peers [OF ok a, of ?f]
    have pn: "p = next_ptr nw" using a by (simp add: add_peer_def Let_def change_addr_def)
    then have old: "\<forall>q \<in> set (peers nw). peer_ptr q \<noteq> p" using links_okD(3) [of nw] assms(1) by (fastforce simp: nw_ok_def)
    show ?thesis
    proof (cases connect_ok)
      case True
      let ?nw3 = "(change_peer p ?f nw2)\<lparr>n_outgoing_peers := n_outgoing_peers (change_peer p ?f nw2) + 1\<rparr>"
      have nw1: "nw1 = send_version_to_peer p ?nw3" using that a True by (simp add: connect_to_addr_def Let_def)
      obtain n pt where v: "send_version_to_peer p ?nw3 = call_peer p [SEND_VERSION n pt] ?nw3" by (simp add: send_version_to_peer_def Let_def)
      have "peers ?nw3 = peers (change_peer p ?f nw2)" by simp
      then have "handshake_ok x" if "x \<in> set (peers nw1)" for x
        using that assms(2) old unfolding nw1 v call_peer_def change_peer_def [of _ _ ?nw3] ps
        by (auto simp: ps hs_def change_addr_def handshake_ok_def reserved_def)
      then show ?thesis by (simp add: hs_def)
    qed (use that assms(2) in \<open>auto simp: connect_to_addr_def Let_def hs_def change_addr_def\<close>)
  qed
  have "hs nw'" if "(case connect_to_addr env connect_ok addr nw of (nw, True) \<Rightarrow> Ok (change_addr a g (nw\<lparr>n_unconnected_addrs := n_unconnected_addrs nw - 1\<rparr>)) | (nw, False) \<Rightarrow> Ok nw) = Ok nw'" for addr a g
    using that c [of addr] by (cases "connect_to_addr env connect_ok addr nw"; cases "snd (connect_to_addr env connect_ok addr nw)")
      (auto simp: change_addr_def hs_def)
  moreover have "hs (maybe_queue_connect False nw)" "hs (remove_connect_queue_source nw)"
    using assms(2) by (simp_all add: hs_def maybe_queue_connect_def remove_connect_queue_source_def)
  ultimately show ?thesis using assms(3) unfolding connect_queue_cb_def Let_def
    by (auto simp del: prod.case split: if_splits)
qed

lemma nw_step_hs:
  assumes "nw_ok nw" "hs nw" "nw_step pton6 pton4 env op nw = Ok nw'"
  shows "hs nw'"
proof -
  have k: "hs nw'" if "calm nw nw'" using that assms(2) by (simp add: calm_def)
  have f: "hs nw'" if "peers nw' = peers nw" using k calm_frame that by blast
  show ?thesis
  proof (cases op)
    case (CONNECTION_EVENT p event)
    then show ?thesis using connection_event_hs [OF assms(1,2)] assms(3) by (auto simp: forget_result_def)
  next
    case (LISTEN_SOCKET_READY res fd)
    show ?thesis
    proof (cases res)
      case (ACCEPTED remote)
      obtain nw1 p where a: "add_peer remote nw = (nw1, p)" by fastforce
      show ?thesis using assms(2,3) LISTEN_SOCKET_READY ACCEPTED
        add_peer_peers [OF assms(1) a, of "\<lambda>peer. peer\<lparr>peer_state := NTB_NETWORK_PEER_STATE_AWAITING_VERSION_IN, peer_direction := NTB_NETWORK_INCOMING\<rparr>"]
        by (auto simp: listen_socket_source_cb_def a Let_def hs_def handshake_ok_def reserved_def)
    qed (use f assms(3) LISTEN_SOCKET_READY in \<open>auto simp: listen_socket_source_cb_def remove_listen_socket_def\<close>)
  next
    case (CONNECT_QUEUE c)
    then show ?thesis using assms connect_queue_hs by simp
  next
    case GC_TIMEOUT
    then show ?thesis using assms(3) gc_timeout_calm k by simp
  next
    case (DELAYED_BROADCAST d)
    then show ?thesis using assms(3) k calm_trans [OF calm_simps(6) calm_simps(8)] by (auto simp: broadcast_delayed_inv_cb_def split: option.splits)
  next
    case (ADD_BLOB blob skip delay)
    then show ?thesis using assms(3) add_object_calm k by (simp add: ntb_network_add_blob_def)
  next
    case (LOAD_STORE blobs store_addrs dns_addrs)
    have b: "peers nw1 = peers nw" if "store_for_each_blob objs nw = Ok nw1" for objs nw nw1
      using that by (induction objs arbitrary: nw) (auto simp: store_for_each_blob_cb_def Let_def put_inventory_def split: prod.splits option.splits)
    have fold: "calm nw (fold g xs nw)" if "\<And>x nw. calm nw (g x nw)" for g xs nw
      using that by (induction xs arbitrary: nw) (auto intro: calm_trans)
    obtain nw1 where 1: "store_for_each_blob blobs nw = Ok nw1"
      "nw' = maybe_queue_connect True (fold dns_bootstrap_cb dns_addrs (fold (store_for_each_addr_cb env) store_addrs nw1))"
      using assms(3) LOAD_STORE by (auto simp: ntb_network_load_store_def)
    have "calm nw nw1" by (rule calm_frame [OF b [OF 1(1)]])
    also have "calm nw1 (fold (store_for_each_addr_cb env) store_addrs nw1)" by (rule fold) (simp add: store_for_each_addr_cb_def add_addr_calm)
    also have "calm (fold (store_for_each_addr_cb env) store_addrs nw1) (fold dns_bootstrap_cb dns_addrs (fold (store_for_each_addr_cb env) store_addrs nw1))"
      by (rule fold) (simp add: dns_bootstrap_cb_def)
    also have "calm (fold dns_bootstrap_cb dns_addrs (fold (store_for_each_addr_cb env) store_addrs nw1)) nw'" unfolding 1(2) by simp
    finally show ?thesis by (rule k)
  qed (use assms(3) f in \<open>auto simp: save_addr_list_cb_def ntb_network_add_listen_address_def ntb_network_add_peer_address_def add_addr_string_def new_addr_def
      remove_addr_def forget_result_def Let_def ntb_network_set_only_use_explicit_addresses_def maybe_queue_connect_def
      split: outcome.splits option.splits if_splits\<close>)
qed

lemma new_peers: "ntb_network_new pton6 pton4 n = Ok nw \<Longrightarrow> peers nw = []"
proof -
  have "peers nw' = peers nw" if "add_default_addrs pton6 pton4 ss nw = Ok nw'" for ss nw nw'
    using that by (induction ss arbitrary: nw) (auto simp: add_addr_string_def new_addr_def remove_addr_def Let_def split: outcome.splits if_splits)
  then show "ntb_network_new pton6 pton4 n = Ok nw \<Longrightarrow> peers nw = []"
    by (fastforce simp: ntb_network_new_def empty_network_def maybe_queue_connect_def)
qed

lemma reachable_hs: "reachable pton6 pton4 nw \<Longrightarrow> hs nw"
proof (induction rule: reachable.induct)
  case (reach_new n nw)
  then show ?case using new_peers by (simp add: hs_def)
next
  case (reach_step nw env op nw')
  then show ?case using nw_step_hs [OF reachable_ok [OF reach_step.hyps(1)]] by blast
qed

section \<open>Properties\<close>

text \<open>
  C10: addresses and hashes of objects are announced only to peers with a complete handshake. When the calls for a
  peer contain such an announcement, then the peer is connected, and both the version and the
  acknowledgement of its version were sent to it before the first one.
\<close>

theorem gossip_after_handshake:
  assumes "reachable pton6 pton4 nw" "peer \<in> set (peers nw)" "c \<in> set (peer_calls peer)" "gossip c"
  shows "peer_state peer = NTB_NETWORK_PEER_STATE_CONNECTED \<and>
    (\<exists>pre post. peer_calls peer = pre @ post \<and> (\<forall>d \<in> set pre. \<not> gossip d) \<and> (\<exists>n port. SEND_VERSION n port \<in> set pre) \<and> SEND_VERACK \<in> set pre)"
proof -
  have ok: "allowed_calls (peer_state peer) (peer_calls peer)" using reachable_hs [OF assms(1)] assms(2) by (simp add: hs_def handshake_ok_def)
  moreover have "\<not> reserved (peer_calls peer)" using assms(3,4) by (auto simp: reserved_def)
  ultimately have st: "peer_state peer = NTB_NETWORK_PEER_STATE_CONNECTED" by (cases "peer_state peer") (simp_all add: greeted_def)
  then obtain pre post where p: "peer_calls peer = pre @ post" "greeted pre" using ok by auto
  obtain v where v: "v \<in> set pre" "is_version v" using p(2) by (auto simp: greeted_def)
  have "\<exists>n port. v = SEND_VERSION n port" using v(2) by (rule is_version.elims) auto
  then have "\<exists>n port. SEND_VERSION n port \<in> set pre" using v(1) by auto
  then show ?thesis using st p by (auto simp: greeted_def reserved_def)
qed

lemma connection_established_announces:
  assumes "connection_established env p nw = Ok nw'" "get_peer p nw \<noteq> None"
  shows "\<exists>peer \<in> set (peers nw'). BEGIN_ADDR \<in> set (peer_calls peer)"
proof -
  let ?nw = "send_addresses env p (set_peer_state p NTB_NETWORK_PEER_STATE_CONNECTED nw)"
  obtain cs where nw': "nw' = call_peer p cs ?nw" using assms(1) by (auto simp: connection_established_def send_inventory_def)
  obtain peer where peer: "peer \<in> set (peers nw)" "peer_ptr peer = p" using assms(2) unfolding get_peer_ptrs by auto
  have m: "y\<lparr>peer_calls := peer_calls y @ ds\<rparr> \<in> set (peers (call_peer p ds nw))" if "y \<in> set (peers nw)" "peer_ptr y = p" for y ds nw
    using that unfolding call_peer_def change_peer_def by (auto simp: image_iff intro!: bexI [of _ y])
  have "peer\<lparr>peer_state := NTB_NETWORK_PEER_STATE_CONNECTED\<rparr> \<in> set (peers (set_peer_state p NTB_NETWORK_PEER_STATE_CONNECTED nw))"
    using peer unfolding set_peer_state_def change_peer_def by (auto simp: image_iff intro!: bexI [of _ peer])
  from m [OF this] obtain x where "x \<in> set (peers ?nw)" "peer_ptr x = p" "BEGIN_ADDR \<in> set (peer_calls x)"
    using peer(2) unfolding send_addresses_def by fastforce
  then show ?thesis using m [of x ?nw cs] unfolding nw' by (intro bexI [of _ "x\<lparr>peer_calls := peer_calls x @ cs\<rparr>"]) auto
qed

theorem gossip_after_handshake_witness:
  "\<exists>nw peer. reachable (\<lambda>_. None) example_pton4 nw \<and> peer \<in> set (peers nw) \<and> BEGIN_ADDR \<in> set (peer_calls peer) \<and>
     peer_state peer = NTB_NETWORK_PEER_STATE_CONNECTED"
proof -
  obtain nw where nw: "reachable (\<lambda>_. None) example_pton4 nw"
    "map (\<lambda>p. (peer_ptr p, peer_addr p, peer_direction p)) (peers nw) = [(11, Some 5, NTB_NETWORK_OUTGOING), (10, None, NTB_NETWORK_INCOMING)]"
    "nw_nonce nw = 7" "map peer_state (peers nw) = [NTB_NETWORK_PEER_STATE_AWAITING_VERACK_OUT, NTB_NETWORK_PEER_STATE_AWAITING_VERSION_IN]"
    by (rule example_reachable_empty)
  obtain p1 p2 where ps: "peers nw = [p1, p2]" "peer_ptr p1 = 11" "peer_ptr p2 = 10" "peer_state p1 = NTB_NETWORK_PEER_STATE_AWAITING_VERACK_OUT"
    using nw(2,4) by (auto simp: map_eq_Cons_conv)
  let ?nw1 = "set_peer_state 11 NTB_NETWORK_PEER_STATE_AWAITING_VERSION_OUT nw"
  have g: "get_peer 11 nw = Some p1" using ps by (simp add: get_peer_def)
  then have s1: "nw_step (\<lambda>_. None) example_pton4 example_env (CONNECTION_EVENT 11 EVENT_VERACK) nw = Ok ?nw1"
    using ps(4) by (simp add: forget_result_def connection_event_cb_def handle_verack_def)
  have r1: "reachable (\<lambda>_. None) example_pton4 ?nw1" by (rule reach_step [OF nw(1) _ s1]) (use g in simp)
  let ?a = "\<lparr>host = [], port = 1\<rparr> :: ntb_netaddress"
  let ?e = "EVENT_VERSION NTB_PROTO_VERSION 1 1400000000 ?a ?a 8 \<lparr>vs_length = 0, vs_data = []\<rparr> \<lparr>n_ints = 0, vil_values = []\<rparr>"
  have g1: "get_peer 11 ?nw1 = Some (p1\<lparr>peer_state := NTB_NETWORK_PEER_STATE_AWAITING_VERSION_OUT\<rparr>)"
    using ps by (simp add: get_peer_def set_peer_state_def change_peer_def)
  have o: "op_ok example_env (CONNECTION_EVENT 11 ?e) ?nw1" using g1 by (simp add: stream_of_version_def)
  obtain nw2 b where h: "handle_version example_env 11 ?e ?nw1 = Ok (nw2, b)"
    using handle_version_ok [OF reachable_ok [OF r1], of 11 ?e example_env] g1 by (auto simp: stream_of_version_def)
  have r2: "reachable (\<lambda>_. None) example_pton4 nw2"
    by (rule reach_step [OF r1 o]) (use h in \<open>simp add: forget_result_def connection_event_cb_def\<close>)
  have "\<exists>peer \<in> set (peers nw2). BEGIN_ADDR \<in> set (peer_calls peer)"
    using h
  proof (cases rule: handle_version_cases)
    case removed
    then show ?thesis using nw(3) by (simp add: set_peer_state_def change_peer_def)
  next
    case (handled ts strm services address nw3 addr nw4 peer)
    have "calm ?nw1 nw3" using add_addr_calm handled(2) by (metis fst_conv)
    also have "calm nw3 nw4" by (rule connect_peer_addr_calm [OF handled(3)])
    finally have "view nw4 = view ?nw1" by (simp add: calm_def)
    then have "map peer_ptr (peers (call_peer 11 [SEND_VERACK] nw4)) = map peer_ptr (peers ?nw1)"
      unfolding view_ptrs by simp
    then have "get_peer 11 (call_peer 11 [SEND_VERACK] nw4) \<noteq> None" using g1 unfolding get_peer_ptrs by (metis get_peer_ptrs option.distinct(1))
    then show ?thesis using handled(1,4) g1 connection_established_announces by auto
  qed
  then obtain peer where p: "peer \<in> set (peers nw2)" "BEGIN_ADDR \<in> set (peer_calls peer)" by blast
  from gossip_after_handshake [OF r2 p] show ?thesis using r2 p by auto
qed

section \<open>What goes wrong\<close>

text \<open>
  C38: a peer can make the daemon read memory that was never written: when it announces an object that is not known, the
  object is requested and becomes a stub, and a request for the same object, by this peer or by any
  other, passes the blob that the stub does not have to the connection.
\<close>

theorem getdata_of_stub_faults:
  assumes "reachable pton6 pton4 nw" "length hash = 32" "hash_get hash nw = Ok None"
  shows "bind_outcome (handle_inv env p (EVENT_INV 1 hash) nw) (\<lambda>(nw', _). handle_getdata q (EVENT_GETDATA 1 hash) nw') = Fault"
proof -
  let ?nw = "call_peer p [BEGIN_GETDATA] nw"
  let ?nw' = "call_peer p [END_GETDATA] (request_inventory env p hash ?nw)"
  have "hash_get hash ?nw = Ok None" using assms(3) by (simp add: hash_get_def call_peer_def change_peer_def split: option.splits)
  then have h: "handle_inv env p (EVENT_INV 1 hash) nw = Ok (?nw', True)" using assms(2) by (simp add: handle_inv_def)
  have "inventories ?nw' (next_ptr nw) = Some \<lparr>inv_hash = hash, inv_state = NTB_NETWORK_INV_STATE_STUB (monotonic_clock env)\<rparr>"
    "inventory_hash ?nw' hash = Some (next_ptr nw)"
    by (simp_all add: request_inventory_def call_peer_def change_peer_def put_inventory_def Let_def)
  then have "hash_get hash ?nw' = Ok (Some (next_ptr nw, \<lparr>inv_hash = hash, inv_state = NTB_NETWORK_INV_STATE_STUB (monotonic_clock env)\<rparr>))"
    by (simp add: hash_get_def)
  then have "handle_getdata q (EVENT_GETDATA 1 hash) ?nw' = Fault" using assms(2) by (simp add: handle_getdata_def read_bytes_def)
  then show ?thesis by (simp add: h)
qed

theorem getdata_of_stub_faults_witness:
  "\<exists>nw. reachable (\<lambda>_. None) example_pton4 nw \<and>
     bind_outcome (handle_inv example_env 10 (EVENT_INV 1 (replicate 32 9)) nw) (\<lambda>(nw', _). handle_getdata 10 (EVENT_GETDATA 1 (replicate 32 9)) nw') = Fault"
proof -
  obtain nw where nw: "reachable (\<lambda>_. None) example_pton4 nw" "inventory_hash nw = Map.empty" by (rule example_reachable_empty)
  have "hash_get (replicate 32 9) nw = Ok None" using nw(2) by (simp add: hash_get_def)
  from getdata_of_stub_faults [OF nw(1) _ this, of example_env 10 10] show ?thesis using nw(1) by (intro exI [of _ nw]) simp
qed

text \<open>
  The oldest rejected inventory that makes room for a new one stays in the table: the next message that
  mentions its hash reads freed memory.
\<close>

lemma rejected_eviction_dangles:
  assumes "inv_ok nw" "rejected_inventories nw = newer @ [old]" "n_rejected_inventories nw = NTB_NETWORK_MAX_REJECTED_INVENTORIES"
    and "inventories nw old = Some iv" "hash \<noteq> inv_hash iv"
    and "nw1 = nw\<lparr>next_ptr := i + 1, inventory_hash := (inventory_hash nw)(hash \<mapsto> i)\<rparr>" "i = next_ptr nw"
  shows "\<exists>nw'. reject_inventory i \<lparr>inv_hash = hash, inv_state = NTB_NETWORK_INV_STATE_REJECTED ts\<rparr> ts nw1 = Ok nw' \<and> hash_get (inv_hash iv) nw' = Fault"
proof -
  note core = assms(1) [unfolded inv_ok_def inv_core_def finds_all_def]
  have "inventory_hash nw (inv_hash iv) = Some old" using core assms(4) by blast
  moreover have "inventories nw i = None" using core assms(7) by simp
  then have "old \<noteq> i" using assms(4) by auto
  ultimately show ?thesis using assms(2,3,5) by (simp add: reject_inventory_def Let_def put_inventory_def free_inventory_def hash_get_def assms(6))
qed

text \<open>
  The limit of incoming connections is checked before the new one is counted, so every listening socket goes on
  accepting when the limit is reached.
\<close>

lemma incoming_limit_off_by_one:
  assumes "n_incoming_peers nw = NTB_NETWORK_MAX_INCOMING_PEERS - 1"
  shows "n_incoming_peers (listen_socket_source_cb (ACCEPTED remote) fd nw) = NTB_NETWORK_MAX_INCOMING_PEERS \<and>
    (\<forall>ls \<in> set (listen_sockets (listen_socket_source_cb (ACCEPTED remote) fd nw)). ls_source ls)"
  using assms by (auto simp: listen_socket_source_cb_def add_peer_def Let_def update_all_listen_socket_sources_def update_listen_socket_source_def
      change_peer_def NTB_NETWORK_MAX_INCOMING_PEERS_def)

lemma connect_queue_runs_off:
  assumes "rand_value env = RAND_MAX" "n_outgoing_peers nw < NTB_NETWORK_NUM_OUTGOING_PEERS" "0 < n_unconnected_addrs nw"
    and "\<exists>addr \<in> set (addrs nw). can_connect_to_addr env nw addr"
  shows "connect_queue_cb env connect_ok nw = Fault"
proof -
  let ?n = "length (filter (can_connect_to_addr env nw) (addrs nw))"
  have "pick_addr can (int (length (filter can as)) + int k) as = Fault" for can k as
    by (induction as arbitrary: k) (auto simp: algebra_simps)
  from this [of "can_connect_to_addr env nw" "addrs nw" 0] have "pick_addr (can_connect_to_addr env nw) (int ?n) (addrs nw) = Fault" by simp
  moreover have "?n \<noteq> 0" using assms(4) by (auto simp: filter_empty_conv)
  moreover have "RAND_MAX * ?n div RAND_MAX = ?n" by (simp add: RAND_MAX_def)
  ultimately show ?thesis using assms(1-3) by (simp add: connect_queue_cb_def Let_def)
qed

end
