(* ===== verification/Spec2Isabelle.thy ===== *)
theory Spec2Isabelle
  imports Ntb_Proto_Objects Ntb_List Ntb_Slab Ntb_Hash_Table Ntb_Address Ntb_Encoded_Words Ntb_Connection_Queue
    Ntb_Store_Thread Ntb_Ipc_Session Ntb_Ipc_Setup Ntb_Pow_Threads Ntb_Network_Handshake
begin

text \<open>
  A verification development for \<^verbatim>\<open>notbit\<close>, a daemon for the Bitmessage network written in C
  (\<open>src/src/ntb-*.c\<close>). The daemon talks to peers over TCP, keeps objects, keys and messages in files,
  and exchanges mails with local programs. Definitions are translated from the C code, one per function,
  with the names of the source.

  \<^bold>\<open>Conventions\<close> (\<open>Ntb_Prelude\<close>). A C function that can fail or run into undefined behaviour returns
  an \<open>outcome\<close>: \<open>Fault\<close> for an access outside an object, a read of an indeterminate byte or a failed
  assertion, \<open>Fail\<close> for the failure that the function reports, \<open>Ok\<close> with its results. Machine integers
  are words where they can wrap around. A pointer into a buffer is the list of bytes from it on. Loops
  are total functions with a termination proof; a loop that can run forever is a
  \<open>partial_function (option)\<close>. OpenSSL, system calls, the clock and the listeners of events are arguments;
  what is documented of them is a named hypothesis (\<open>bn_ok\<close>, \<open>digest_ok\<close>, \<open>crypto_ok\<close>, \<open>resolver_ok\<close>),
  and every property that has one has a witness on a concrete instance.

  \<^bold>\<open>Data structures.\<close>
  \<^item> \<open>Ntb_Buffer\<close> (\<open>ntb-buffer.c\<close>): growable buffers; a locale for what receives bytes.
  \<^item> \<open>Ntb_List\<close> (\<open>ntb-list.c\<close>): rings of nodes in a heap, refined to lists.
  \<^item> \<open>Ntb_Slab\<close> (\<open>ntb-slab.c\<close>, \<open>ntb-slice.c\<close>): allocators; live elements never overlap.
  \<^item> \<open>Ntb_Hash_Table\<close> (\<open>ntb-hash-table.c\<close>): the intrusive table refines a finite map.

  \<^bold>\<open>Encodings.\<close>
  \<^item> \<open>Ntb_Endian\<close> (\<open>ntb-endian.h\<close>), \<open>Ntb_Netaddress\<close> (\<open>ntb-netaddress.c\<close>), \<open>Ntb_Base58\<close> (\<open>ntb-base58.c\<close>),
    \<open>Ntb_Address\<close> (\<open>ntb-address.c\<close>), \<open>Ntb_Base64\<close> (\<open>ntb-base64.c\<close>),
    \<open>Ntb_Quoted_Printable\<close> (\<open>ntb-quoted-printable.c\<close>), \<open>Ntb_Encoded_Words\<close> (\<open>ntb-encoded-words.c\<close>):
    round trips, equivalence of streaming decoders with machines that take one byte at a time, and of in-place
    decoding with a reference on copies.
  \<^item> \<open>Ntb_Proto\<close>, \<open>Ntb_Proto_Objects\<close> (\<open>ntb-proto.c\<close>): commands and objects of the wire protocol, their
    round trips and the memory safety of the readers.
  \<^item> \<open>Ntb_Ecc\<close> (\<open>ntb-ecc.c\<close>): encryption to a public key and its inverse.

  \<^bold>\<open>Connections\<close> (\<open>ntb-connection.c\<close>). \<open>Ntb_Connection\<close> has the state and all handlers;
  \<open>Ntb_Connection_Output\<close> and \<open>Ntb_Connection_Input\<close> show that announcements arrive as they were
  made, \<open>Ntb_Connection_Queue\<close> has the invariant over all sequences of calls and callbacks and the progress
  of the queues, \<open>Ntb_Connection_Safety\<close> the safety of parsing what a peer sends.

  \<^bold>\<open>Network\<close> (\<open>ntb-network.c\<close>). \<open>Ntb_Network\<close> has the peers, the addresses and the inventory with every
  handler; the calls to the connection of a peer, to the store and to the listeners are recorded in the
  state. \<open>Ntb_Network_Links\<close> shows that the counters and the links between peers and addresses are exact,
  \<open>Ntb_Network_Inventory\<close> that the lists and the hash table of the inventory agree, \<open>Ntb_Network_Safety\<close> that all
  handlers keep both and are safe, \<open>Ntb_Network_Log\<close> that the requests to the store follow the accepted objects
  and that valid objects are relayed, \<open>Ntb_Network_Handshake\<close> what is sent before and after the
  handshake and the inputs that lead to undefined behaviour.

  \<^bold>\<open>Proof of work\<close> (\<open>ntb-pow.c\<close>, \<open>ntb-cpus.c\<close>). \<open>Ntb_Pow\<close> has the target, the check, and the steps of the threads and
  of the main thread between two operations on the mutex; \<open>Ntb_Pow_Threads\<close> has the invariant over all
  interleavings with exact reference counts, the correctness of the results and the end of a search.

  \<^bold>\<open>Files.\<close> \<open>Ntb_Key_Value\<close> (\<open>ntb-key-value.c\<close>), \<open>Ntb_Key\<close> (\<open>ntb-key.c\<close>), \<open>Ntb_Load_Keys\<close>
  (\<open>ntb-load-keys.c\<close>) and \<open>Ntb_Load_Outgoings\<close> (\<open>ntb-load-outgoings.c\<close>) are the readers,
  \<open>Ntb_Store_Files\<close> the writers of \<open>ntb-store.c\<close>; \<open>Ntb_Store_Keys\<close> and \<open>Ntb_Store_Outgoings\<close> relate
  the two. \<open>Ntb_Save_Message\<close> (\<open>ntb-save-message.c\<close>) writes received messages as mails. \<open>Ntb_Store\<close> has
  the tasks of \<open>ntb-store.c\<close> on a file system that maps names to contents, together with the scans at the
  start and \<open>ntb-mkdir.c\<close>; \<open>Ntb_Store_Disk\<close> shows that saving is atomic and loading its inverse.
  \<open>Ntb_Store_Thread\<close> interleaves the main thread with the thread of the store at the mutex and refines both to
  a store that carries out every request at once.

  \<^bold>\<open>Mails.\<close> \<open>Ntb_Parse_Addresses\<close> (\<open>ntb-parse-addresses.c\<close>) reads lists of addresses in the buffer that it
  overwrites, \<open>Ntb_Parse_Content_Type\<close> (\<open>ntb-parse-content-type.c\<close>) the type of the body. \<open>Ntb_Mail_Parser\<close>
  (\<open>ntb-mail-parser.c\<close>) is the parser of mails in pieces, shown equal to a machine that takes one byte at a time;
  its laws for a client are a locale, which \<open>Ntb_Ipc_Email\<close> interprets for the callbacks of \<open>ntb-ipc.c\<close>.

  \<^bold>\<open>Local programs.\<close> \<open>Ntb_Ipc_Proto\<close> (\<open>ntb-ipc-proto.c\<close>) frames requests and responses, \<open>Ntb_Ipc\<close> (\<open>ntb-ipc.c\<close>)
  has the daemon's end with all its callbacks, \<open>Ntb_Ipc_Setup\<close> the start of it (with \<open>ntb-ipc-sockaddr.c\<close>), and
  \<open>Ntb_Ipc_Client\<close> the client's end (\<open>ntb-ipc-client.c\<close> and the commands of \<open>ntb-keygen.c\<close> and \<open>ntb-sendmail.c\<close>).
  \<open>Ntb_Ipc_Safety\<close> has the invariant of the connections and the ownership of descriptors for every handler,
  \<open>Ntb_Ipc_Session\<close> whole sessions of the two programs with the daemon. A descriptor is a number and closing it
  is recorded; what the kernel returns is an argument of the handler.

  \<^bold>\<open>Bounds.\<close> Lengths that C keeps in \<open>size_t\<close> are natural numbers where no product or sum of
  attacker-controlled values can reach \<open>2 ^ 64\<close>; where one can (the count of hashes in a command) the
  arithmetic is on words. The lengths of local
  requests are words too, and the loops over them can run forever. No fuel is used.

  \<^bold>\<open>Not modelled.\<close> Memory exhaustion (the allocator aborts), reference counts, log messages and the texts
  of errors; option parsing, daemonising, signals and other start-up code, which only calls the operating
  system; the options and the output of the command line clients. The
  thread for cryptography (\<open>ntb-crypto.c\<close>), the key ring (\<open>ntb-keyring.c\<close>) and the event loop (\<open>ntb-main-context.c\<close>)
  are left out as well: the keys, the encryption, the objects, the store, the network and the proof of work that
  they call are modelled, the local programs use the key ring through \<open>keyring_ops\<close>, and the callbacks of the
  event loop are the steps of the components, in any order.
\<close>

end
